(* ===== verification/Trellis_Prelude.thy ===== *)
theory Trellis_Prelude
  imports Main "HOL-Library.AList" "HOL-Library.Multiset"
begin

text \<open>
  The vocabulary every component theory shares: the JavaScript collections and string
  operations the sources use (insertion-ordered \<open>Map\<close> and \<open>Set\<close>, stable
  \<open>Array.prototype.sort\<close>, \<open>trim\<close>, \<open>toUpperCase\<close>, \<open>toLowerCase\<close>, \<open>includes\<close>,
  \<open>slice\<close>, \<open>padEnd\<close>), runs of operations over a state, and two interfaces: a keyed store
  and a system whose operations keep an invariant.

  Conventions.  A JavaScript \<open>Map\<close> is an association list in insertion order
  (\<^const>\<open>AList.update\<close> keeps the position of a present key and appends an absent one, as
  \<open>Map.set\<close> does; \<^const>\<open>AList.delete\<close> is \<open>Map.delete\<close>).  A \<open>Set\<close> is a list
  without repetitions in insertion order.  A string is a list of characters; letter case is
  that of the ASCII letters, which is what identifiers, roles, asset codes and amounts are
  made of.  Times and counters are integers (milliseconds, units); where the code tests for
  \<open>NaN\<close> or \<open>Infinity\<close>, the model has a constructor or an option for it.
\<close>

section \<open>Collections of facts\<close>

named_theorems js_simps \<open>equations of the JavaScript collection operations\<close>
named_theorems keeps \<open>operations that keep a component's invariant\<close>

section \<open>Results\<close>

text \<open>A call either throws (\<^const>\<open>Inl\<close>) or returns (\<^const>\<open>Inr\<close>).\<close>

type_synonym ('e, 'a) result = "'e + 'a"

section \<open>Insertion-ordered maps\<close>

type_synonym ('k, 'v) jsmap = "('k \<times> 'v) list"

abbreviation map_get :: "('k, 'v) jsmap \<Rightarrow> 'k \<Rightarrow> 'v option" where
  "map_get m k \<equiv> map_of m k"

abbreviation map_set :: "'k \<Rightarrow> 'v \<Rightarrow> ('k, 'v) jsmap \<Rightarrow> ('k, 'v) jsmap" where
  "map_set k v m \<equiv> AList.update k v m"

abbreviation map_delete :: "'k \<Rightarrow> ('k, 'v) jsmap \<Rightarrow> ('k, 'v) jsmap" where
  "map_delete k m \<equiv> AList.delete k m"

abbreviation map_keys :: "('k, 'v) jsmap \<Rightarrow> 'k list" where
  "map_keys m \<equiv> map fst m"

definition map_has :: "('k, 'v) jsmap \<Rightarrow> 'k \<Rightarrow> bool" where
  "map_has m k \<longleftrightarrow> map_of m k \<noteq> None"

definition map_wf :: "('k, 'v) jsmap \<Rightarrow> bool" where
  "map_wf m \<longleftrightarrow> distinct (map_keys m)"

lemma map_has_iff [simp]: "map_has m k \<longleftrightarrow> k \<in> fst ` set m"
  by (simp add: map_has_def map_of_eq_None_iff)

lemma map_wf_Nil [simp]: "map_wf []"
  by (simp add: map_wf_def)

lemma map_wf_set [simp, intro]: "map_wf m \<Longrightarrow> map_wf (map_set k v m)"
  by (simp add: map_wf_def distinct_update)

lemma map_wf_delete [simp, intro]: "map_wf m \<Longrightarrow> map_wf (map_delete k m)"
  by (simp add: map_wf_def distinct_delete)

lemma map_get_set [js_simps]: "map_get (map_set k v m) k' = (if k' = k then Some v else map_get m k')"
  by (simp add: update_conv')

lemma map_get_delete [js_simps]: "map_get (map_delete k m) k' = (if k' = k then None else map_get m k')"
  by (simp add: delete_conv')

lemma map_keys_delete [js_simps]: "map_keys (map_delete k m) = filter (\<lambda>x. x \<noteq> k) (map_keys m)"
  by (induction m) auto

lemma map_set_absent: "k \<notin> fst ` set m \<Longrightarrow> map_set k v m = m @ [(k, v)]"
  by (induction m) auto

lemma map_delete_absent: "k \<notin> fst ` set m \<Longrightarrow> map_delete k m = m"
  by (induction m) auto

lemma length_map_delete_present:
  assumes "map_wf m" "k \<in> fst ` set m"
  shows "Suc (length (map_delete k m)) = length m"
  using assms
proof (induction m)
  case (Cons p m)
  show ?case
  proof (cases "fst p = k")
    case True
    with Cons.prems have "k \<notin> fst ` set m" by (auto simp: map_wf_def)
    then have "map_delete k m = m" by (rule map_delete_absent)
    with True show ?thesis by (simp add: AList.delete_eq case_prod_unfold)
  next
    case False
    with Cons show ?thesis by (auto simp: map_wf_def AList.delete_eq case_prod_unfold)
  qed
qed simp

lemma length_map_delete_le: "length (map_delete k m) \<le> length m"
  by (simp add: AList.delete_eq)

lemma map_delete_hd:
  "map_wf (p # m) \<Longrightarrow> map_delete (fst p) (p # m) = m"
  by (auto simp: map_wf_def AList.delete_eq case_prod_unfold intro!: filter_True)

lemma map_get_mem: "map_get m k = Some v \<Longrightarrow> (k, v) \<in> set m"
  by (rule map_of_SomeD)

lemma map_get_wf: "map_wf m \<Longrightarrow> (k, v) \<in> set m \<Longrightarrow> map_get m k = Some v"
  by (simp add: map_wf_def)

section \<open>The interface of a keyed store\<close>

text \<open>
  What the cache, the registries and the index tables rely on of \<open>Map\<close>: a lookup returns
  the value stored last under the key, a deleted key is absent, and no other key is touched.
\<close>

locale keyed_store =
  fixes get :: "'m \<Rightarrow> 'k \<Rightarrow> 'v option"
    and put :: "'k \<Rightarrow> 'v \<Rightarrow> 'm \<Rightarrow> 'm"
    and del :: "'k \<Rightarrow> 'm \<Rightarrow> 'm"
    and wf :: "'m \<Rightarrow> bool"
  assumes get_put: "wf m \<Longrightarrow> get (put k v m) k' = (if k' = k then Some v else get m k')"
    and get_del: "wf m \<Longrightarrow> get (del k m) k' = (if k' = k then None else get m k')"
    and wf_put: "wf m \<Longrightarrow> wf (put k v m)"
    and wf_del: "wf m \<Longrightarrow> wf (del k m)"
begin

lemma wf_del_all: "wf m \<Longrightarrow> wf (fold del ks m)"
  by (induction ks arbitrary: m) (auto intro: wf_del)

lemma get_del_all: "wf m \<Longrightarrow> get (fold del ks m) k = (if k \<in> set ks then None else get m k)"
  by (induction ks arbitrary: m) (auto simp: get_del wf_del)

lemma wf_put_all: "wf m \<Longrightarrow> wf (fold (\<lambda>k. put k v) ks m)"
  by (induction ks arbitrary: m) (auto intro: wf_put)

lemma get_put_all: "wf m \<Longrightarrow> get (fold (\<lambda>k. put k v) ks m) k = (if k \<in> set ks then Some v else get m k)"
  by (induction ks arbitrary: m) (auto simp: get_put wf_put)

end

interpretation jsm: keyed_store map_of AList.update AList.delete map_wf
  by unfold_locales (auto simp: js_simps)

section \<open>Insertion-ordered sets\<close>

definition set_add :: "'a \<Rightarrow> 'a list \<Rightarrow> 'a list" where
  "set_add x xs = (if x \<in> set xs then xs else xs @ [x])"

definition js_set :: "'a list \<Rightarrow> 'a list" where
  "js_set xs = fold set_add xs []"

lemma set_set_add [simp]: "set (set_add x xs) = insert x (set xs)"
  by (auto simp: set_add_def)

lemma distinct_set_add [simp, intro]: "distinct xs \<Longrightarrow> distinct (set_add x xs)"
  by (auto simp: set_add_def)

lemma set_add_idem [simp]: "set_add x (set_add x xs) = set_add x xs"
  by (simp add: set_add_def)

lemma fold_set_add: "set (fold set_add xs ys) = set xs \<union> set ys \<and> (distinct ys \<longrightarrow> distinct (fold set_add xs ys))"
  by (induction xs arbitrary: ys) auto

lemma set_js_set [simp]: "set (js_set xs) = set xs"
  using fold_set_add [of xs "[]"] by (simp add: js_set_def)

lemma distinct_js_set [simp, intro]: "distinct (js_set xs)"
  using fold_set_add [of xs "[]"] by (simp add: js_set_def)

section \<open>Stable sorting with a comparison\<close>

text \<open>
  \<open>Array.prototype.sort\<close> is stable; \<open>le x y\<close> stands for a comparator result that is not
  positive.
\<close>

fun sort_ins :: "('a \<Rightarrow> 'a \<Rightarrow> bool) \<Rightarrow> 'a \<Rightarrow> 'a list \<Rightarrow> 'a list" where
  "sort_ins le x [] = [x]"
| "sort_ins le x (y # ys) = (if le x y then x # y # ys else y # sort_ins le x ys)"

definition js_sort :: "('a \<Rightarrow> 'a \<Rightarrow> bool) \<Rightarrow> 'a list \<Rightarrow> 'a list" where
  "js_sort le xs = foldr (sort_ins le) xs []"

lemma mset_sort_ins [simp]: "mset (sort_ins le x ys) = add_mset x (mset ys)"
  by (induction ys) auto

lemma set_sort_ins [simp]: "set (sort_ins le x ys) = insert x (set ys)"
  by (induction ys) auto

lemma mset_js_sort [simp]: "mset (js_sort le xs) = mset xs"
  by (induction xs) (auto simp: js_sort_def)

lemma set_js_sort [simp]: "set (js_sort le xs) = set xs"
  by (metis mset_js_sort set_mset_mset)

lemma length_js_sort [simp]: "length (js_sort le xs) = length xs"
  by (metis mset_js_sort size_mset)

lemma distinct_js_sort [simp]: "distinct (js_sort le xs) = distinct xs"
  using mset_eq_imp_distinct_iff [OF mset_js_sort] .

lemma sorted_sort_ins:
  assumes "\<And>x y. le x y \<or> le y x" "\<And>x y z. le x y \<Longrightarrow> le y z \<Longrightarrow> le x z" "sorted_wrt le ys"
  shows "sorted_wrt le (sort_ins le x ys)"
  using assms(3)
proof (induction ys)
  case (Cons y ys)
  then show ?case using assms(1) [of x y] by (auto intro: assms(2))
qed simp

lemma js_sort_simps [simp]:
  "js_sort le [] = []"
  "js_sort le (x # xs) = sort_ins le x (js_sort le xs)"
  by (simp_all add: js_sort_def)

lemma sorted_js_sort:
  assumes "\<And>x y. le x y \<or> le y x" "\<And>x y z. le x y \<Longrightarrow> le y z \<Longrightarrow> le x z"
  shows "sorted_wrt le (js_sort le xs)"
proof (induction xs)
  case (Cons x xs)
  from sorted_sort_ins [OF assms Cons.IH] show ?case by simp
qed simp

text \<open>Two lists with the same elements sort to the same list when the order is antisymmetric.\<close>

lemma sorted_wrt_mset_unique:
  assumes "sorted_wrt le xs" "sorted_wrt le ys" "mset xs = mset ys"
    and "\<And>x y. x \<in> set xs \<Longrightarrow> y \<in> set xs \<Longrightarrow> le x y \<Longrightarrow> le y x \<Longrightarrow> x = y"
  shows "xs = ys"
  using assms
proof (induction xs arbitrary: ys)
  case (Cons x xs)
  from Cons.prems(3) have in_ys: "x \<in> set ys"
    by (metis list.set_intros(1) mset_eq_setD)
  then obtain y ys' where ys: "ys = y # ys'" by (cases ys) auto
  from Cons.prems(3) ys have "y \<in> set (x # xs)"
    by (metis list.set_intros(1) mset_eq_setD)
  with Cons.prems in_ys ys have "x = y" by auto
  with Cons.prems ys Cons.IH [of ys'] show ?case by auto
qed simp

section \<open>Strings\<close>

text \<open>
  \<open>String.prototype.trim\<close> removes white space and line terminators at both ends; of the
  characters here these are tab, line feed, vertical tab, form feed, carriage return, space
  and no-break space.
\<close>

definition is_space :: "char \<Rightarrow> bool" where
  "is_space c \<longleftrightarrow> of_char c \<in> {9, 10, 11, 12, 13, 32, 160 :: nat}"

definition trim :: "string \<Rightarrow> string" where
  "trim s = rev (dropWhile is_space (rev (dropWhile is_space s)))"

definition char_upper :: "char \<Rightarrow> char" where
  "char_upper c = (let n = of_char c :: nat in if 97 \<le> n \<and> n \<le> 122 then char_of (n - 32) else c)"

definition char_lower :: "char \<Rightarrow> char" where
  "char_lower c = (let n = of_char c :: nat in if 65 \<le> n \<and> n \<le> 90 then char_of (n + 32) else c)"

definition toUpperCase :: "string \<Rightarrow> string" where
  "toUpperCase s = map char_upper s"

definition toLowerCase :: "string \<Rightarrow> string" where
  "toLowerCase s = map char_lower s"

text \<open>\<open>String.prototype.split\<close> at a character: an empty string gives one empty part.\<close>

fun split_on :: "char \<Rightarrow> string \<Rightarrow> string list" where
  "split_on d [] = [[]]"
| "split_on d (c # s) =
     (if c = d then [] # split_on d s
      else case split_on d s of [] \<Rightarrow> [[c]] | p # ps \<Rightarrow> (c # p) # ps)"

lemma trim_idem [simp]: "trim (trim s) = trim s"
proof -
  have "dropWhile is_space (trim s) = trim s"
  proof (cases "trim s")
    case (Cons c cs)
    let ?t = "dropWhile is_space s"
    have t: "trim s = rev (dropWhile is_space (rev ?t))" by (simp add: trim_def)
    obtain zs where "?t = rev (dropWhile is_space (rev ?t)) @ zs"
      by (metis rev_append rev_rev_ident takeWhile_dropWhile_id)
    then have "?t = c # cs @ zs" by (metis t Cons append_Cons)
    then have "\<not> is_space c" by (metis dropWhile_eq_Cons_conv)
    with Cons show ?thesis by simp
  qed simp
  then show ?thesis by (simp add: trim_def)
qed

lemma char_upper_idem [simp]: "char_upper (char_upper c) = char_upper c"
  by (auto simp: char_upper_def Let_def)

lemma toUpperCase_idem [simp]: "toUpperCase (toUpperCase s) = toUpperCase s"
  by (simp add: toUpperCase_def)

lemma is_space_upper [simp]: "is_space (char_upper c) = is_space c"
  by (auto simp: is_space_def char_upper_def Let_def)

lemma trim_upper: "trim (toUpperCase s) = toUpperCase (trim s)"
proof -
  have "dropWhile is_space (map char_upper t) = map char_upper (dropWhile is_space t)" for t
    by (induction t) auto
  then show ?thesis by (simp add: trim_def toUpperCase_def rev_map)
qed

text \<open>Lexicographic comparison of strings by code unit, as \<open><\<close> on strings.\<close>

fun string_less :: "string \<Rightarrow> string \<Rightarrow> bool" where
  "string_less [] [] = False"
| "string_less [] (_ # _) = True"
| "string_less (_ # _) [] = False"
| "string_less (c # s) (d # t) =
     ((of_char c :: nat) < of_char d \<or> (c = d \<and> string_less s t))"

definition string_le :: "string \<Rightarrow> string \<Rightarrow> bool" where
  "string_le s t \<longleftrightarrow> \<not> string_less t s"

lemma string_less_irrefl [simp]: "\<not> string_less s s"
  by (induction s) auto

lemma string_less_trans: "string_less s t \<Longrightarrow> string_less t u \<Longrightarrow> string_less s u"
proof (induction s t arbitrary: u rule: string_less.induct)
  case (2 d t)
  then show ?case by (cases u) auto
next
  case (4 c s d t)
  then show ?case by (cases u) auto
qed auto

lemma string_less_linear: "string_less s t \<or> s = t \<or> string_less t s"
proof (induction s t rule: string_less.induct)
  case (4 c s d t)
  have "(of_char c :: nat) < of_char d \<or> c = d \<or> (of_char d :: nat) < of_char c"
    by (metis linorder_neqE_nat of_char_eq_iff)
  with 4 show ?case by auto
qed auto

lemma string_le_total: "string_le s t \<or> string_le t s"
  using string_less_trans [of s t s] by (auto simp: string_le_def)

lemma string_le_trans: "string_le s t \<Longrightarrow> string_le t u \<Longrightarrow> string_le s u"
  using string_less_linear string_less_trans unfolding string_le_def by metis

lemma string_le_antisym: "string_le s t \<Longrightarrow> string_le t s \<Longrightarrow> s = t"
  using string_less_linear unfolding string_le_def by metis

lemma string_le_refl [simp]: "string_le s s"
  by (simp add: string_le_def)

section \<open>Runs of operations\<close>

text \<open>
  A component driven by a sequence of operations: the state after the run, and the interface
  of an invariant that every operation keeps.
\<close>

definition run :: "('op \<Rightarrow> 's \<Rightarrow> 's) \<Rightarrow> 'op list \<Rightarrow> 's \<Rightarrow> 's" where
  "run step ops s = fold step ops s"

lemma run_simps [simp]:
  "run step [] s = s"
  "run step (x # xs) s = run step xs (step x s)"
  by (simp_all add: run_def)

lemma run_append: "run step (xs @ ys) s = run step ys (run step xs s)"
  by (simp add: run_def)

locale guarded_system =
  fixes step :: "'op \<Rightarrow> 's \<Rightarrow> 's"
    and inv :: "'s \<Rightarrow> bool"
    and allowed :: "'op \<Rightarrow> bool"
  assumes guarded_step: "inv s \<Longrightarrow> allowed x \<Longrightarrow> inv (step x s)"
begin

lemma guarded_run: "inv s \<Longrightarrow> list_all allowed xs \<Longrightarrow> inv (run step xs s)"
  by (induction xs arbitrary: s) (auto intro: guarded_step)

end

locale invariant_system =
  fixes step :: "'op \<Rightarrow> 's \<Rightarrow> 's"
    and inv :: "'s \<Rightarrow> bool"
  assumes step_inv: "inv s \<Longrightarrow> inv (step x s)"
begin

lemma run_inv: "inv s \<Longrightarrow> inv (run step xs s)"
  by (induction xs arbitrary: s) (auto intro: step_inv)

end

sublocale invariant_system \<subseteq> every: guarded_system step inv "\<lambda>_. True"
  by unfold_locales (rule step_inv)

end
