(* ===== verification/Roles.thy ===== *)
theory Roles
  imports Trellis_Prelude
begin

text \<open>
  \<open>src/common/guard/roles.enum.ts\<close>: roles, permissions, the role/permission table, the role
  hierarchy, and the functions the guards call.  The enums are datatypes in the order of the
  source, each with the string the enum member stands for; \<open>role_value\<close> and
  \<open>permission_value\<close> are shown injective, so comparing members is comparing their strings.
  A parameter \<open>roleOrRoles\<close> is the list of roles (one role is a one-element list), as the
  functions' first line makes it.
\<close>

section \<open>Roles and permissions\<close>

datatype Role =
    USER | OPERATOR | MAINTAINER | ADMIN | GOVERNANCE_OPERATOR | KYC_OPERATOR |
    SERVICE_ACTOR

definition Role_values :: "Role list" where
  "Role_values =
     [USER, OPERATOR, MAINTAINER, ADMIN, GOVERNANCE_OPERATOR, KYC_OPERATOR, SERVICE_ACTOR]"

fun role_value :: "Role \<Rightarrow> string" where
  "role_value USER = ''USER''"
| "role_value OPERATOR = ''OPERATOR''"
| "role_value MAINTAINER = ''MAINTAINER''"
| "role_value ADMIN = ''ADMIN''"
| "role_value GOVERNANCE_OPERATOR = ''GOVERNANCE_OPERATOR''"
| "role_value KYC_OPERATOR = ''KYC_OPERATOR''"
| "role_value SERVICE_ACTOR = ''SERVICE_ACTOR''"

datatype Permission =
    USER_READ | USER_WRITE | USER_MANAGE | ROLE_ASSIGN | PORTFOLIO_READ | PORTFOLIO_WRITE |
    PORTFOLIO_OPTIMIZE | TRADE_READ | TRADE_EXECUTE | PAYMENT_CREATE | PAYMENT_PROCESS |
    PAYMENT_REFUND | RECONCILIATION_VIEW | RECONCILIATION_RUN | ORACLE_READ |
    ORACLE_SUBMIT | ORACLE_VERIFY | MODULE_READ | MODULE_MANAGE | METRICS_READ |
    SYSTEM_MAINTENANCE | ALERTS_MANAGE | RATE_LIMIT_MANAGE | KYC_REVIEW | GOVERNANCE_VOTE |
    SERVICE_SYNC | RETRY_VIEW | RETRY_MANAGE | DEAD_LETTER_VIEW | DEAD_LETTER_RETRY |
    PAUSE_VIEW | PAUSE_ACTIVATE | PAUSE_RESUME | INVARIANT_VIEW | INVARIANT_RUN |
    AUDIT_READ | AUDIT_EXPORT | WEBHOOK_READ | WEBHOOK_MANAGE | IMPORT_EXECUTE |
    EXPORT_EXECUTE | DR_VIEW | DR_EXECUTE

definition Permission_values :: "Permission list" where
  "Permission_values =
     [USER_READ, USER_WRITE, USER_MANAGE, ROLE_ASSIGN, PORTFOLIO_READ, PORTFOLIO_WRITE,
      PORTFOLIO_OPTIMIZE, TRADE_READ, TRADE_EXECUTE, PAYMENT_CREATE, PAYMENT_PROCESS,
      PAYMENT_REFUND, RECONCILIATION_VIEW, RECONCILIATION_RUN, ORACLE_READ, ORACLE_SUBMIT,
      ORACLE_VERIFY, MODULE_READ, MODULE_MANAGE, METRICS_READ, SYSTEM_MAINTENANCE,
      ALERTS_MANAGE, RATE_LIMIT_MANAGE, KYC_REVIEW, GOVERNANCE_VOTE, SERVICE_SYNC,
      RETRY_VIEW, RETRY_MANAGE, DEAD_LETTER_VIEW, DEAD_LETTER_RETRY, PAUSE_VIEW,
      PAUSE_ACTIVATE, PAUSE_RESUME, INVARIANT_VIEW, INVARIANT_RUN, AUDIT_READ,
      AUDIT_EXPORT, WEBHOOK_READ, WEBHOOK_MANAGE, IMPORT_EXECUTE, EXPORT_EXECUTE, DR_VIEW,
      DR_EXECUTE]"

fun permission_value :: "Permission \<Rightarrow> string" where
  "permission_value USER_READ = ''user:read''"
| "permission_value USER_WRITE = ''user:write''"
| "permission_value USER_MANAGE = ''user:manage''"
| "permission_value ROLE_ASSIGN = ''role:assign''"
| "permission_value PORTFOLIO_READ = ''portfolio:read''"
| "permission_value PORTFOLIO_WRITE = ''portfolio:write''"
| "permission_value PORTFOLIO_OPTIMIZE = ''portfolio:optimize''"
| "permission_value TRADE_READ = ''trade:read''"
| "permission_value TRADE_EXECUTE = ''trade:execute''"
| "permission_value PAYMENT_CREATE = ''payment:create''"
| "permission_value PAYMENT_PROCESS = ''payment:process''"
| "permission_value PAYMENT_REFUND = ''payment:refund''"
| "permission_value RECONCILIATION_VIEW = ''reconciliation:view''"
| "permission_value RECONCILIATION_RUN = ''reconciliation:run''"
| "permission_value ORACLE_READ = ''oracle:read''"
| "permission_value ORACLE_SUBMIT = ''oracle:submit''"
| "permission_value ORACLE_VERIFY = ''oracle:verify''"
| "permission_value MODULE_READ = ''module:read''"
| "permission_value MODULE_MANAGE = ''module:manage''"
| "permission_value METRICS_READ = ''metrics:read''"
| "permission_value SYSTEM_MAINTENANCE = ''system:maintenance''"
| "permission_value ALERTS_MANAGE = ''alerts:manage''"
| "permission_value RATE_LIMIT_MANAGE = ''rate_limit:manage''"
| "permission_value KYC_REVIEW = ''kyc:review''"
| "permission_value GOVERNANCE_VOTE = ''governance:vote''"
| "permission_value SERVICE_SYNC = ''service:sync''"
| "permission_value RETRY_VIEW = ''retry:view''"
| "permission_value RETRY_MANAGE = ''retry:manage''"
| "permission_value DEAD_LETTER_VIEW = ''dead_letter:view''"
| "permission_value DEAD_LETTER_RETRY = ''dead_letter:retry''"
| "permission_value PAUSE_VIEW = ''pause:view''"
| "permission_value PAUSE_ACTIVATE = ''pause:activate''"
| "permission_value PAUSE_RESUME = ''pause:resume''"
| "permission_value INVARIANT_VIEW = ''invariant:view''"
| "permission_value INVARIANT_RUN = ''invariant:run''"
| "permission_value AUDIT_READ = ''audit:read''"
| "permission_value AUDIT_EXPORT = ''audit:export''"
| "permission_value WEBHOOK_READ = ''webhook:read''"
| "permission_value WEBHOOK_MANAGE = ''webhook:manage''"
| "permission_value IMPORT_EXECUTE = ''import:execute''"
| "permission_value EXPORT_EXECUTE = ''export:execute''"
| "permission_value DR_VIEW = ''dr:view''"
| "permission_value DR_EXECUTE = ''dr:execute''"

section \<open>The tables and the checks\<close>

fun ROLE_PERMISSIONS :: "Role \<Rightarrow> Permission list" where
  "ROLE_PERMISSIONS USER =
     [USER_READ, USER_WRITE, PORTFOLIO_READ, PORTFOLIO_WRITE, TRADE_READ, PAYMENT_CREATE,
      ORACLE_READ, MODULE_READ]"
| "ROLE_PERMISSIONS OPERATOR =
     [USER_READ, USER_WRITE, PORTFOLIO_READ, PORTFOLIO_WRITE, PORTFOLIO_OPTIMIZE,
      TRADE_READ, TRADE_EXECUTE, PAYMENT_CREATE, PAYMENT_PROCESS, RECONCILIATION_VIEW,
      ORACLE_READ, ORACLE_VERIFY, MODULE_READ, METRICS_READ, RETRY_VIEW, DEAD_LETTER_VIEW,
      AUDIT_READ]"
| "ROLE_PERMISSIONS MAINTAINER =
     [USER_READ, USER_WRITE, PORTFOLIO_READ, PORTFOLIO_WRITE, PORTFOLIO_OPTIMIZE,
      TRADE_READ, TRADE_EXECUTE, PAYMENT_CREATE, PAYMENT_PROCESS, PAYMENT_REFUND,
      RECONCILIATION_VIEW, RECONCILIATION_RUN, ORACLE_READ, ORACLE_VERIFY, MODULE_READ,
      MODULE_MANAGE, METRICS_READ, ALERTS_MANAGE, RATE_LIMIT_MANAGE, SYSTEM_MAINTENANCE,
      RETRY_VIEW, RETRY_MANAGE, DEAD_LETTER_VIEW, PAUSE_VIEW, INVARIANT_VIEW,
      INVARIANT_RUN, AUDIT_READ, WEBHOOK_READ, EXPORT_EXECUTE, DR_VIEW]"
| "ROLE_PERMISSIONS ADMIN = Permission_values"
| "ROLE_PERMISSIONS SERVICE_ACTOR =
     [SERVICE_SYNC, ORACLE_SUBMIT, ORACLE_VERIFY, PAYMENT_PROCESS, RECONCILIATION_RUN,
      METRICS_READ, RETRY_VIEW, RETRY_MANAGE, DEAD_LETTER_VIEW]"
| "ROLE_PERMISSIONS GOVERNANCE_OPERATOR =
     [USER_READ, GOVERNANCE_VOTE, METRICS_READ]"
| "ROLE_PERMISSIONS KYC_OPERATOR =
     [USER_READ, KYC_REVIEW, METRICS_READ]"

text \<open>\<open>Array.prototype.indexOf\<close>: the position of the first occurrence, \<open>-1\<close> when absent.\<close>

fun indexOf :: "'a \<Rightarrow> 'a list \<Rightarrow> int" where
  "indexOf x [] = -1"
| "indexOf x (y # ys) = (if y = x then 0 else let i = indexOf x ys in if i = -1 then -1 else i + 1)"

definition normalizeRole :: "string option \<Rightarrow> Role" where
  "normalizeRole value =
     (let normalized = toUpperCase (trim (case value of None \<Rightarrow> '''' | Some v \<Rightarrow> v))
      in case List.find (\<lambda>r. role_value r = normalized) Role_values of
           Some r \<Rightarrow> r
         | None \<Rightarrow> USER)"

definition ROLE_HIERARCHY :: "Role list" where
  "ROLE_HIERARCHY = [USER, OPERATOR, MAINTAINER, ADMIN]"

definition CONFLICTING_ROLE_PAIRS :: "(Role \<times> Role) list" where
  "CONFLICTING_ROLE_PAIRS = [(GOVERNANCE_OPERATOR, KYC_OPERATOR)]"

definition hasConflictingRoles :: "Role list \<Rightarrow> bool" where
  "hasConflictingRoles roles \<longleftrightarrow>
     list_ex (\<lambda>(a, b). a \<in> set roles \<and> b \<in> set roles) CONFLICTING_ROLE_PAIRS"

definition hasRole :: "Role \<Rightarrow> Role \<Rightarrow> bool" where
  "hasRole candidate required \<longleftrightarrow>
     (if candidate = required then True
      else if candidate = ADMIN then True
      else let candidateIdx = indexOf candidate ROLE_HIERARCHY;
               requiredIdx = indexOf required ROLE_HIERARCHY
           in if candidateIdx = -1 \<or> requiredIdx = -1 then False
              else candidateIdx \<ge> requiredIdx)"

definition getRolePermissions :: "Role \<Rightarrow> Permission list" where
  "getRolePermissions role = ROLE_PERMISSIONS role"

definition hasPermission :: "Role list \<Rightarrow> Permission \<Rightarrow> bool" where
  "hasPermission roles required \<longleftrightarrow>
     (if ADMIN \<in> set roles then True
      else list_ex (\<lambda>role. required \<in> set (ROLE_PERMISSIONS role)) roles)"

definition hasAllPermissions :: "Role list \<Rightarrow> Permission list \<Rightarrow> bool" where
  "hasAllPermissions roles required \<longleftrightarrow> list_all (hasPermission roles) required"

record UiCapabilities =
  canTrade :: bool
  canOptimize :: bool
  canManageUsers :: bool
  canAssignRoles :: bool
  canRunReconciliation :: bool
  canManageModules :: bool
  canViewMetrics :: bool
  canReviewKyc :: bool
  canVoteGovernance :: bool
  canSubmitOracle :: bool
  canMaintainSystem :: bool
  canExecuteServiceSync :: bool
  canViewRetries :: bool
  canManageRetries :: bool
  canViewDeadLetters :: bool
  canRetryDeadLetters :: bool
  canViewPause :: bool
  canActivatePause :: bool
  canResumePause :: bool
  canViewInvariants :: bool
  canRunInvariants :: bool
  canReadAudit :: bool
  canExportAudit :: bool
  canManageWebhooks :: bool
  canImport :: bool
  canExport :: bool
  canViewDR :: bool
  canExecuteDR :: bool

definition getUiCapabilities :: "Role list \<Rightarrow> UiCapabilities" where
  "getUiCapabilities roles = \<lparr>
     canTrade = hasPermission roles TRADE_EXECUTE,
     canOptimize = hasPermission roles PORTFOLIO_OPTIMIZE,
     canManageUsers = hasPermission roles USER_MANAGE,
     canAssignRoles = hasPermission roles ROLE_ASSIGN,
     canRunReconciliation = hasPermission roles RECONCILIATION_RUN,
     canManageModules = hasPermission roles MODULE_MANAGE,
     canViewMetrics = hasPermission roles METRICS_READ,
     canReviewKyc = hasPermission roles KYC_REVIEW,
     canVoteGovernance = hasPermission roles GOVERNANCE_VOTE,
     canSubmitOracle = hasPermission roles ORACLE_SUBMIT,
     canMaintainSystem = hasPermission roles SYSTEM_MAINTENANCE,
     canExecuteServiceSync = hasPermission roles SERVICE_SYNC,
     canViewRetries = hasPermission roles RETRY_VIEW,
     canManageRetries = hasPermission roles RETRY_MANAGE,
     canViewDeadLetters = hasPermission roles DEAD_LETTER_VIEW,
     canRetryDeadLetters = hasPermission roles DEAD_LETTER_RETRY,
     canViewPause = hasPermission roles PAUSE_VIEW,
     canActivatePause = hasPermission roles PAUSE_ACTIVATE,
     canResumePause = hasPermission roles PAUSE_RESUME,
     canViewInvariants = hasPermission roles INVARIANT_VIEW,
     canRunInvariants = hasPermission roles INVARIANT_RUN,
     canReadAudit = hasPermission roles AUDIT_READ,
     canExportAudit = hasPermission roles AUDIT_EXPORT,
     canManageWebhooks = hasPermission roles WEBHOOK_MANAGE,
     canImport = hasPermission roles IMPORT_EXECUTE,
     canExport = hasPermission roles EXPORT_EXECUTE,
     canViewDR = hasPermission roles DR_VIEW,
     canExecuteDR = hasPermission roles DR_EXECUTE\<rparr>"

section \<open>Finite types\<close>

lemma set_Role_values: "set Role_values = UNIV"
proof -
  have "r \<in> set Role_values" for r by (cases r) (simp_all add: Role_values_def)
  then show ?thesis by blast
qed

lemma set_Permission_values: "set Permission_values = UNIV"
proof -
  have "p \<in> set Permission_values" for p by (cases p) (simp_all add: Permission_values_def)
  then show ?thesis by blast
qed

instantiation Role :: enum
begin

definition enum_Role_def: "Enum.enum = Role_values"

definition enum_all_Role_def: "Enum.enum_all P = list_all P Role_values"

definition enum_ex_Role_def: "Enum.enum_ex P = list_ex P Role_values"

instance
  by standard (simp_all add: enum_Role_def enum_all_Role_def enum_ex_Role_def set_Role_values
      list_all_iff list_ex_iff, simp add: Role_values_def)

end

lemma all_roles: "(\<forall>r. P r) \<longleftrightarrow> list_all P Role_values"
  by (simp add: list_all_iff set_Role_values)

text \<open>Enum members are compared by their strings in the source.\<close>

lemma role_value_inject: "role_value r = role_value r' \<longleftrightarrow> r = r'"
  by (cases r; cases r') simp_all

lemma permission_values_distinct: "distinct (map permission_value Permission_values)"
  by (simp add: Permission_values_def)

lemma permission_value_inject: "permission_value p = permission_value q \<longleftrightarrow> p = q"
proof -
  have "inj_on permission_value (set Permission_values)"
    using permission_values_distinct by (simp add: distinct_map)
  then show ?thesis by (auto simp: set_Permission_values dest: injD)
qed

section \<open>Basic facts\<close>

lemma hasPermission_iff: "hasPermission roles p \<longleftrightarrow> (\<exists>r\<in>set roles. p \<in> set (ROLE_PERMISSIONS r))"
  by (auto simp: hasPermission_def list_ex_iff set_Permission_values intro!: bexI [of _ ADMIN])

lemma hasPermission_append: "hasPermission (xs @ ys) p \<longleftrightarrow> hasPermission xs p \<or> hasPermission ys p"
  by (auto simp: hasPermission_iff)

lemma find_role_value: "List.find (\<lambda>r. role_value r = s) Role_values = Some r \<longleftrightarrow> role_value r = s"
  by (cases r) (auto simp: Role_values_def)

lemma normalizeRole_eq:
  "normalizeRole v = r \<longleftrightarrow>
     role_value r = toUpperCase (trim (case v of None \<Rightarrow> '''' | Some s \<Rightarrow> s)) \<or>
     (r = USER \<and> (\<forall>q. role_value q \<noteq> toUpperCase (trim (case v of None \<Rightarrow> '''' | Some s \<Rightarrow> s))))"
  (is "_ \<longleftrightarrow> role_value r = ?s \<or> _")
proof (cases "List.find (\<lambda>r. role_value r = ?s) Role_values")
  case None
  then have "\<forall>q. role_value q \<noteq> ?s"
    by (auto simp: find_None_iff set_Role_values)
  with None show ?thesis by (auto simp: normalizeRole_def)
next
  case (Some q)
  then have "role_value q = ?s" by (simp add: find_role_value)
  with Some show ?thesis
    by (auto simp: normalizeRole_def role_value_inject [symmetric])
qed

section \<open>The interface of a privilege order\<close>

text \<open>
  What the guards rely on: a relation \<open>covers\<close> that tells when one role stands in for
  another, and a relation \<open>grants\<close> that it respects.  A caller may then replace any role
  by one that covers it without losing anything it was granted.
\<close>

locale privilege_order =
  fixes covers :: "'r \<Rightarrow> 'r \<Rightarrow> bool"
    and grants :: "'r \<Rightarrow> 'p \<Rightarrow> bool"
  assumes covers_refl: "covers r r"
    and covers_trans: "covers a b \<Longrightarrow> covers b c \<Longrightarrow> covers a c"
    and covers_antisym: "covers a b \<Longrightarrow> covers b a \<Longrightarrow> a = b"
    and grants_mono: "covers a b \<Longrightarrow> grants b p \<Longrightarrow> grants a p"
begin

lemma upgrade_keeps:
  assumes "list_all2 covers as bs" "\<exists>b\<in>set bs. grants b p"
  shows "\<exists>a\<in>set as. grants a p"
proof -
  from assms obtain i where "i < length bs" "grants (bs ! i) p"
    by (auto simp: in_set_conv_nth)
  with assms(1) have "i < length as" "grants (as ! i) p"
    by (auto simp: list_all2_conv_all_nth intro: grants_mono)
  then show ?thesis by (metis nth_mem)
qed

lemma granted_upwards: "covers a b \<Longrightarrow> {p. grants b p} \<subseteq> {p. grants a p}"
  by (auto intro: grants_mono)

end

lemma hasRole_table:
  "hasRole c r \<longleftrightarrow> c = r \<or> c = ADMIN \<or> (c, r) \<in> {(OPERATOR, USER), (MAINTAINER, USER), (MAINTAINER, OPERATOR)}"
  by (cases c; cases r) (simp_all add: hasRole_def ROLE_HIERARCHY_def Let_def)

lemma role_permissions_chain:
  "set (ROLE_PERMISSIONS USER) \<subseteq> set (ROLE_PERMISSIONS OPERATOR)"
  "set (ROLE_PERMISSIONS OPERATOR) \<subseteq> set (ROLE_PERMISSIONS MAINTAINER)"
  "set (ROLE_PERMISSIONS r) \<subseteq> set (ROLE_PERMISSIONS ADMIN)"
  by (simp_all add: set_Permission_values)

lemma hasRole_permissions_subset: "hasRole c r \<Longrightarrow> set (ROLE_PERMISSIONS r) \<subseteq> set (ROLE_PERMISSIONS c)"
  using role_permissions_chain unfolding hasRole_table by blast

interpretation rbac: privilege_order hasRole "\<lambda>r p. hasPermission [r] p"
proof unfold_locales
  show "hasRole a b \<Longrightarrow> hasRole b c \<Longrightarrow> hasRole a c" for a b c
    by (cases a; cases b; cases c) (simp_all add: hasRole_table)
  show "hasRole a b \<Longrightarrow> hasRole b a \<Longrightarrow> a = b" for a b
    by (cases a; cases b) (simp_all add: hasRole_table)
  show "hasRole a b \<Longrightarrow> hasPermission [b] p \<Longrightarrow> hasPermission [a] p" for a b p
    using hasRole_permissions_subset [of a b] by (auto simp: hasPermission_iff)
qed (simp add: hasRole_table)

section \<open>Properties\<close>

text \<open>
  Replacing every role of a caller by one that \<open>hasRole\<close> ranks at least as high never
  takes a permission away: the role hierarchy and the permission table agree.
\<close>

theorem role_upgrade_keeps_permissions:
  assumes "list_all2 hasRole upgraded roles" "hasPermission roles p"
  shows "hasPermission upgraded p"
  using rbac.upgrade_keeps [OF assms(1), of p] assms(2) by (simp add: hasPermission_iff)

theorem role_upgrade_keeps_permissions_witness:
  "hasPermission [MAINTAINER, KYC_OPERATOR] TRADE_READ"
  by (rule role_upgrade_keeps_permissions [of _ "[USER, KYC_OPERATOR]"])
    (simp_all add: hasRole_table hasPermission_def)

text \<open>
  A stored role string is read back as the role it names, whatever its letter case and the
  white space around it, and a string that names no role (or no string at all) gives \<open>USER\<close>, the
  role whose permissions every role of the hierarchy has.
\<close>

theorem normalizeRole_reads_or_defaults:
  "normalizeRole None = USER \<and>
   (if toUpperCase (trim s) \<in> role_value ` UNIV
    then role_value (normalizeRole (Some s)) = toUpperCase (trim s) else normalizeRole (Some s) = USER) \<and>
   list_all (\<lambda>r. set (ROLE_PERMISSIONS USER) \<subseteq> set (ROLE_PERMISSIONS r)) ROLE_HIERARCHY"
proof (intro conjI)
  show "normalizeRole None = USER"
    by (simp add: normalizeRole_def trim_def toUpperCase_def Role_values_def)
  show "list_all (\<lambda>r. set (ROLE_PERMISSIONS USER) \<subseteq> set (ROLE_PERMISSIONS r)) ROLE_HIERARCHY"
    by (simp add: ROLE_HIERARCHY_def Permission_values_def)
  show "if toUpperCase (trim s) \<in> role_value ` UNIV
    then role_value (normalizeRole (Some s)) = toUpperCase (trim s) else normalizeRole (Some s) = USER"
    using normalizeRole_eq [of "Some s" "normalizeRole (Some s)"] rangeI [of role_value "normalizeRole (Some s)"]
    by (auto simp del: rangeI) (metis rangeI)+
qed

end
