(* ===== verification/Permission_Matrix.thy ===== *)
theory Permission_Matrix
  imports Roles
begin

text \<open>
  \<open>src/common/guard/permission-matrix.ts\<close>: the table of guarded actions, its index by
  action name and the queries over it.  The table is split at the comments that group it in the
  source.  The lemmas relate the table to the role/permission table of
  \<open>Roles\<close>: the two never disagree, holding several roles never opens an action that none
  of them opens alone, and the role hierarchy carries over to actions.
\<close>

section \<open>The table\<close>

datatype action_scope = Scope_global | Scope_tenant | Scope_own

record PermissionMatrixEntry =
  pm_action :: string
  pm_description :: string
  pm_requiredPermissions :: "Permission list"
  pm_allowedRoles :: "Role list"
  pm_scope :: action_scope
  pm_sensitive :: bool
  pm_auditRequired :: bool

abbreviation matrix_entry ::
  "string \<Rightarrow> string \<Rightarrow> Permission list \<Rightarrow> Role list \<Rightarrow> action_scope \<Rightarrow> bool \<Rightarrow> bool \<Rightarrow> PermissionMatrixEntry"
  where "matrix_entry a d ps rs sc sens aud \<equiv>
    \<lparr>pm_action = a, pm_description = d, pm_requiredPermissions = ps, pm_allowedRoles = rs,
     pm_scope = sc, pm_sensitive = sens, pm_auditRequired = aud\<rparr>"

definition PERMISSION_MATRIX_user :: "PermissionMatrixEntry list" where
  "PERMISSION_MATRIX_user = [
     (matrix_entry ''user.read''
      ''View user profiles and details''
      [USER_READ] [USER, OPERATOR, MAINTAINER, ADMIN]
      Scope_own False False),
     (matrix_entry ''user.write''
      ''Update user profile information''
      [USER_WRITE] [USER, OPERATOR, MAINTAINER, ADMIN]
      Scope_own False False),
     (matrix_entry ''user.manage''
      ''Manage user accounts (suspend, delete, modify)''
      [USER_MANAGE] [ADMIN]
      Scope_global True True),
     (matrix_entry ''role.assign''
      ''Assign or revoke roles for users''
      [ROLE_ASSIGN] [ADMIN]
      Scope_global True True)]"

definition PERMISSION_MATRIX_portfolio :: "PermissionMatrixEntry list" where
  "PERMISSION_MATRIX_portfolio = [
     (matrix_entry ''portfolio.read''
      ''View portfolio data''
      [PORTFOLIO_READ] [USER, OPERATOR, MAINTAINER, ADMIN]
      Scope_own False False),
     (matrix_entry ''portfolio.write''
      ''Create or modify portfolios''
      [PORTFOLIO_WRITE] [USER, OPERATOR, MAINTAINER, ADMIN]
      Scope_own False False),
     (matrix_entry ''portfolio.optimize''
      ''Run portfolio optimization algorithms''
      [PORTFOLIO_OPTIMIZE] [OPERATOR, MAINTAINER, ADMIN]
      Scope_own False True)]"

definition PERMISSION_MATRIX_trading :: "PermissionMatrixEntry list" where
  "PERMISSION_MATRIX_trading = [
     (matrix_entry ''trade.read''
      ''View trade history and status''
      [TRADE_READ] [USER, OPERATOR, MAINTAINER, ADMIN]
      Scope_own False False),
     (matrix_entry ''trade.execute''
      ''Execute trades on behalf of portfolios''
      [TRADE_EXECUTE] [OPERATOR, MAINTAINER, ADMIN]
      Scope_own True True)]"

definition PERMISSION_MATRIX_payments :: "PermissionMatrixEntry list" where
  "PERMISSION_MATRIX_payments = [
     (matrix_entry ''payment.create''
      ''Create a new payment''
      [PAYMENT_CREATE] [USER, OPERATOR, MAINTAINER, ADMIN]
      Scope_own True True),
     (matrix_entry ''payment.process''
      ''Process pending payments''
      [PAYMENT_PROCESS] [OPERATOR, MAINTAINER, ADMIN, SERVICE_ACTOR]
      Scope_global True True),
     (matrix_entry ''payment.refund''
      ''Issue payment refunds''
      [PAYMENT_REFUND] [MAINTAINER, ADMIN]
      Scope_global True True)]"

definition PERMISSION_MATRIX_reconciliation :: "PermissionMatrixEntry list" where
  "PERMISSION_MATRIX_reconciliation = [
     (matrix_entry ''reconciliation.view''
      ''View reconciliation reports''
      [RECONCILIATION_VIEW] [OPERATOR, MAINTAINER, ADMIN]
      Scope_global False False),
     (matrix_entry ''reconciliation.run''
      ''Run reconciliation processes''
      [RECONCILIATION_RUN] [MAINTAINER, ADMIN, SERVICE_ACTOR]
      Scope_global True True)]"

definition PERMISSION_MATRIX_oracle :: "PermissionMatrixEntry list" where
  "PERMISSION_MATRIX_oracle = [
     (matrix_entry ''oracle.read''
      ''Read oracle price feeds''
      [ORACLE_READ] [USER, OPERATOR, MAINTAINER, ADMIN]
      Scope_global False False),
     (matrix_entry ''oracle.submit''
      ''Submit oracle price data''
      [ORACLE_SUBMIT] [ADMIN, SERVICE_ACTOR]
      Scope_global True True),
     (matrix_entry ''oracle.verify''
      ''Verify oracle submissions''
      [ORACLE_VERIFY] [OPERATOR, MAINTAINER, ADMIN, SERVICE_ACTOR]
      Scope_global False True)]"

definition PERMISSION_MATRIX_modules :: "PermissionMatrixEntry list" where
  "PERMISSION_MATRIX_modules = [
     (matrix_entry ''module.read''
      ''View registered modules''
      [MODULE_READ] [USER, OPERATOR, MAINTAINER, ADMIN]
      Scope_global False False),
     (matrix_entry ''module.manage''
      ''Enable, disable, or configure modules''
      [MODULE_MANAGE] [MAINTAINER, ADMIN]
      Scope_global True True)]"

definition PERMISSION_MATRIX_monitoring :: "PermissionMatrixEntry list" where
  "PERMISSION_MATRIX_monitoring = [
     (matrix_entry ''metrics.read''
      ''View system metrics and dashboards''
      [METRICS_READ] [OPERATOR, MAINTAINER, ADMIN, SERVICE_ACTOR]
      Scope_global False False),
     (matrix_entry ''system.maintenance''
      ''Perform system maintenance operations''
      [SYSTEM_MAINTENANCE] [MAINTAINER, ADMIN]
      Scope_global True True),
     (matrix_entry ''alerts.manage''
      ''Configure and manage system alerts''
      [ALERTS_MANAGE] [MAINTAINER, ADMIN]
      Scope_global False True),
     (matrix_entry ''rate_limit.manage''
      ''Configure rate limiting policies''
      [RATE_LIMIT_MANAGE] [MAINTAINER, ADMIN]
      Scope_global True True)]"

definition PERMISSION_MATRIX_retry :: "PermissionMatrixEntry list" where
  "PERMISSION_MATRIX_retry = [
     (matrix_entry ''retry.view''
      ''View retry operation status''
      [RETRY_VIEW] [OPERATOR, MAINTAINER, ADMIN, SERVICE_ACTOR]
      Scope_global False False),
     (matrix_entry ''retry.manage''
      ''Schedule and manage retry operations''
      [RETRY_MANAGE] [MAINTAINER, ADMIN, SERVICE_ACTOR]
      Scope_global False True),
     (matrix_entry ''dead_letter.view''
      ''View dead-lettered operations''
      [DEAD_LETTER_VIEW] [OPERATOR, MAINTAINER, ADMIN, SERVICE_ACTOR]
      Scope_global False False),
     (matrix_entry ''dead_letter.retry''
      ''Retry dead-lettered operations''
      [DEAD_LETTER_RETRY] [ADMIN]
      Scope_global True True)]"

definition PERMISSION_MATRIX_pause :: "PermissionMatrixEntry list" where
  "PERMISSION_MATRIX_pause = [
     (matrix_entry ''pause.view''
      ''View active pauses and history''
      [PAUSE_VIEW] [MAINTAINER, ADMIN]
      Scope_global False False),
     (matrix_entry ''pause.activate''
      ''Activate emergency pause on operations''
      [PAUSE_ACTIVATE] [ADMIN]
      Scope_global True True),
     (matrix_entry ''pause.resume''
      ''Resume paused operations''
      [PAUSE_RESUME] [ADMIN]
      Scope_global True True)]"

definition PERMISSION_MATRIX_invariants :: "PermissionMatrixEntry list" where
  "PERMISSION_MATRIX_invariants = [
     (matrix_entry ''invariant.view''
      ''View invariant monitoring reports''
      [INVARIANT_VIEW] [MAINTAINER, ADMIN]
      Scope_global False False),
     (matrix_entry ''invariant.run''
      ''Run invariant checks''
      [INVARIANT_RUN] [MAINTAINER, ADMIN]
      Scope_global False True)]"

definition PERMISSION_MATRIX_audit :: "PermissionMatrixEntry list" where
  "PERMISSION_MATRIX_audit = [
     (matrix_entry ''audit.read''
      ''Read audit logs''
      [AUDIT_READ] [OPERATOR, MAINTAINER, ADMIN]
      Scope_global False False),
     (matrix_entry ''audit.export''
      ''Export audit data''
      [AUDIT_EXPORT] [ADMIN]
      Scope_global True True)]"

definition PERMISSION_MATRIX_webhooks :: "PermissionMatrixEntry list" where
  "PERMISSION_MATRIX_webhooks = [
     (matrix_entry ''webhook.read''
      ''View webhook subscriptions and delivery logs''
      [WEBHOOK_READ] [MAINTAINER, ADMIN]
      Scope_global False False),
     (matrix_entry ''webhook.manage''
      ''Create, update, or delete webhook subscriptions''
      [WEBHOOK_MANAGE] [ADMIN]
      Scope_global True True)]"

definition PERMISSION_MATRIX_import_export :: "PermissionMatrixEntry list" where
  "PERMISSION_MATRIX_import_export = [
     (matrix_entry ''import.execute''
      ''Execute data import operations''
      [IMPORT_EXECUTE] [ADMIN]
      Scope_global True True),
     (matrix_entry ''export.execute''
      ''Execute data export operations''
      [EXPORT_EXECUTE] [MAINTAINER, ADMIN]
      Scope_global False True)]"

definition PERMISSION_MATRIX_disaster_recovery :: "PermissionMatrixEntry list" where
  "PERMISSION_MATRIX_disaster_recovery = [
     (matrix_entry ''dr.view''
      ''View disaster recovery status and backups''
      [DR_VIEW] [MAINTAINER, ADMIN]
      Scope_global False False),
     (matrix_entry ''dr.execute''
      ''Execute disaster recovery operations''
      [DR_EXECUTE] [ADMIN]
      Scope_global True True)]"

definition PERMISSION_MATRIX_specialised :: "PermissionMatrixEntry list" where
  "PERMISSION_MATRIX_specialised = [
     (matrix_entry ''kyc.review''
      ''Review KYC applications''
      [KYC_REVIEW] [KYC_OPERATOR, ADMIN]
      Scope_global True True),
     (matrix_entry ''governance.vote''
      ''Vote on governance proposals''
      [GOVERNANCE_VOTE] [GOVERNANCE_OPERATOR, ADMIN]
      Scope_global True True),
     (matrix_entry ''service.sync''
      ''Execute service-to-service synchronization''
      [SERVICE_SYNC] [SERVICE_ACTOR, ADMIN]
      Scope_global False True)]"

definition PERMISSION_MATRIX :: "PermissionMatrixEntry list" where
  "PERMISSION_MATRIX =
     PERMISSION_MATRIX_user @
     PERMISSION_MATRIX_portfolio @
     PERMISSION_MATRIX_trading @
     PERMISSION_MATRIX_payments @
     PERMISSION_MATRIX_reconciliation @
     PERMISSION_MATRIX_oracle @
     PERMISSION_MATRIX_modules @
     PERMISSION_MATRIX_monitoring @
     PERMISSION_MATRIX_retry @
     PERMISSION_MATRIX_pause @
     PERMISSION_MATRIX_invariants @
     PERMISSION_MATRIX_audit @
     PERMISSION_MATRIX_webhooks @
     PERMISSION_MATRIX_import_export @
     PERMISSION_MATRIX_disaster_recovery @
     PERMISSION_MATRIX_specialised"

section \<open>Queries\<close>

definition matrixIndex :: "(string, PermissionMatrixEntry) jsmap" where
  "matrixIndex = fold (\<lambda>entry. map_set (pm_action entry) entry) PERMISSION_MATRIX []"

definition getActionPermissions :: "string \<Rightarrow> PermissionMatrixEntry option" where
  "getActionPermissions action = map_get matrixIndex action"

definition getActionsForRole :: "Role \<Rightarrow> PermissionMatrixEntry list" where
  "getActionsForRole role =
     (if role = ADMIN then PERMISSION_MATRIX
      else filter (\<lambda>entry. role \<in> set (pm_allowedRoles entry)) PERMISSION_MATRIX)"

definition isActionAllowed :: "Role list \<Rightarrow> string \<Rightarrow> bool" where
  "isActionAllowed roles action \<longleftrightarrow>
     (if ADMIN \<in> set roles then True
      else case map_get matrixIndex action of
          None \<Rightarrow> False
        | Some entry \<Rightarrow>
            if \<not> list_ex (\<lambda>role. role \<in> set (pm_allowedRoles entry)) roles then False
            else hasAllPermissions roles (pm_requiredPermissions entry))"

definition getSensitiveActions :: "PermissionMatrixEntry list" where
  "getSensitiveActions = filter pm_sensitive PERMISSION_MATRIX"

definition getAuditableActions :: "PermissionMatrixEntry list" where
  "getAuditableActions = filter pm_auditRequired PERMISSION_MATRIX"

section \<open>Facts checked entry by entry\<close>

lemmas matrix_defs = PERMISSION_MATRIX_def
  PERMISSION_MATRIX_user_def
  PERMISSION_MATRIX_portfolio_def
  PERMISSION_MATRIX_trading_def
  PERMISSION_MATRIX_payments_def
  PERMISSION_MATRIX_reconciliation_def
  PERMISSION_MATRIX_oracle_def
  PERMISSION_MATRIX_modules_def
  PERMISSION_MATRIX_monitoring_def
  PERMISSION_MATRIX_retry_def
  PERMISSION_MATRIX_pause_def
  PERMISSION_MATRIX_invariants_def
  PERMISSION_MATRIX_audit_def
  PERMISSION_MATRIX_webhooks_def
  PERMISSION_MATRIX_import_export_def
  PERMISSION_MATRIX_disaster_recovery_def
  PERMISSION_MATRIX_specialised_def

lemma matrix_actions_distinct: "distinct (map pm_action PERMISSION_MATRIX)"
  by (simp add: matrix_defs)

text \<open>Every role an entry lists has, by itself, every permission the entry requires.\<close>

definition entry_consistent :: "PermissionMatrixEntry \<Rightarrow> bool" where
  "entry_consistent e \<longleftrightarrow>
     list_all (\<lambda>r. set (pm_requiredPermissions e) \<subseteq> set (ROLE_PERMISSIONS r)) (pm_allowedRoles e)"

lemma matrix_consistent: "list_all entry_consistent PERMISSION_MATRIX"
  by (simp add: matrix_defs entry_consistent_def Permission_values_def)

text \<open>Every entry admits the administrator, and every role above an admitted one.\<close>

definition entry_upward :: "PermissionMatrixEntry \<Rightarrow> bool" where
  "entry_upward e \<longleftrightarrow>
     ADMIN \<in> set (pm_allowedRoles e) \<and>
     (USER \<in> set (pm_allowedRoles e) \<longrightarrow> OPERATOR \<in> set (pm_allowedRoles e)) \<and>
     (OPERATOR \<in> set (pm_allowedRoles e) \<longrightarrow> MAINTAINER \<in> set (pm_allowedRoles e))"

lemma matrix_upward: "list_all entry_upward PERMISSION_MATRIX"
  by (simp add: matrix_defs entry_upward_def)

lemma matrix_sensitive_audited: "list_all (\<lambda>e. pm_sensitive e \<longrightarrow> pm_auditRequired e) PERMISSION_MATRIX"
  by (simp add: matrix_defs)

section \<open>The index and the allow check\<close>

lemma find_key_None: "f x \<notin> f ` set xs \<Longrightarrow> List.find (\<lambda>y. f y = f x) xs = None"
  by (induction xs) auto

lemma fold_map_set_entries:
  "distinct (map f xs) \<Longrightarrow>
   map_get (fold (\<lambda>x. map_set (f x) x) xs m) a =
     (case List.find (\<lambda>x. f x = a) xs of Some x \<Rightarrow> Some x | None \<Rightarrow> map_get m a)"
proof (induction xs arbitrary: m)
  case (Cons x xs)
  from Cons.prems have "f x \<notin> f ` set xs" by simp
  then have "List.find (\<lambda>y. f y = f x) xs = None" by (rule find_key_None)
  with Cons show ?case by (auto simp: js_simps split: option.split)
qed simp

lemma matrixIndex_get: "map_get matrixIndex a = List.find (\<lambda>e. pm_action e = a) PERMISSION_MATRIX"
  unfolding matrixIndex_def
  by (simp add: fold_map_set_entries [OF matrix_actions_distinct] split: option.split)

lemma matrixIndex_Some:
  "map_get matrixIndex a = Some e \<longleftrightarrow> e \<in> set PERMISSION_MATRIX \<and> pm_action e = a"
proof
  assume "map_get matrixIndex a = Some e"
  then show "e \<in> set PERMISSION_MATRIX \<and> pm_action e = a"
    by (auto simp: matrixIndex_get find_Some_iff)
next
  assume e: "e \<in> set PERMISSION_MATRIX \<and> pm_action e = a"
  then have "List.find (\<lambda>e. pm_action e = a) PERMISSION_MATRIX \<noteq> None"
    by (auto simp: find_None_iff)
  then obtain e' where "map_get matrixIndex a = Some e'" by (auto simp: matrixIndex_get)
  moreover from this have "e' \<in> set PERMISSION_MATRIX \<and> pm_action e' = a"
    by (auto simp: matrixIndex_get find_Some_iff)
  with e have "e' = e" using matrix_actions_distinct by (auto simp: distinct_map dest: inj_onD)
  ultimately show "map_get matrixIndex a = Some e" by simp
qed

lemma entry_permissions:
  assumes "e \<in> set PERMISSION_MATRIX" "r \<in> set (pm_allowedRoles e)" "r \<in> set roles"
  shows "hasAllPermissions roles (pm_requiredPermissions e)"
proof -
  from assms(1) matrix_consistent have "entry_consistent e" by (simp add: list_all_iff)
  with assms(2,3) show ?thesis
    by (fastforce simp: hasAllPermissions_def list_all_iff hasPermission_iff entry_consistent_def)
qed

lemma isActionAllowed_eq:
  "isActionAllowed roles a \<longleftrightarrow> ADMIN \<in> set roles \<or>
     (\<exists>e\<in>set PERMISSION_MATRIX. pm_action e = a \<and> (\<exists>r\<in>set roles. r \<in> set (pm_allowedRoles e)))"
proof (cases "map_get matrixIndex a")
  case None
  then have "\<forall>e\<in>set PERMISSION_MATRIX. pm_action e \<noteq> a"
    by (auto simp: matrixIndex_get find_None_iff)
  with None show ?thesis by (auto simp: isActionAllowed_def)
next
  case (Some e)
  then have e: "e \<in> set PERMISSION_MATRIX" "pm_action e = a" by (simp_all add: matrixIndex_Some)
  have uniq: "e' = e" if "e' \<in> set PERMISSION_MATRIX" "pm_action e' = a" for e'
    using that Some by (metis matrixIndex_Some option.inject)
  from Some show ?thesis
    by (auto simp: isActionAllowed_def list_ex_iff intro: entry_permissions [OF e(1)] e dest: uniq)
qed

lemma entry_upwardD:
  assumes "e \<in> set PERMISSION_MATRIX" "hasRole c r" "r \<in> set (pm_allowedRoles e)"
  shows "c \<in> set (pm_allowedRoles e)"
proof -
  from assms(1) matrix_upward have "entry_upward e" by (simp add: list_all_iff)
  with assms(2,3) show ?thesis by (auto simp: entry_upward_def hasRole_table)
qed

lemma isActionAllowed_upward: "hasRole c r \<Longrightarrow> isActionAllowed [r] a \<Longrightarrow> isActionAllowed [c] a"
  using entry_upwardD by (fastforce simp: isActionAllowed_eq hasRole_table)

interpretation actions: privilege_order hasRole "\<lambda>r a. isActionAllowed [r] a"
  by unfold_locales
    (auto intro: rbac.covers_refl rbac.covers_trans rbac.covers_antisym isActionAllowed_upward)

section \<open>Properties\<close>

text \<open>
  C25.  The allow check grants an action exactly to the administrator and to the callers with one of
  the roles its matrix entry lists; an action that is not in the matrix is denied to everyone else.
  In particular the permission part of the check never denies a listed role.
\<close>

theorem isActionAllowed_decides:
  "isActionAllowed roles a = (ADMIN \<in> set roles \<or>
     (\<exists>e. getActionPermissions a = Some e \<and> set roles \<inter> set (pm_allowedRoles e) \<noteq> {}))"
  unfolding isActionAllowed_eq getActionPermissions_def matrixIndex_Some by auto

text \<open>
  An action allowed to a role is allowed to every role above it in the hierarchy, and the
  actions listed for a role by \<open>getActionsForRole\<close> are allowed to it.
\<close>

theorem action_allowed_upwards:
  assumes "hasRole c r" "e \<in> set (getActionsForRole r)"
  shows "isActionAllowed [c] (pm_action e)"
proof -
  have "isActionAllowed [r] (pm_action e)"
    using assms(2) by (auto simp: getActionsForRole_def isActionAllowed_eq split: if_splits)
  with assms(1) show ?thesis by (rule actions.grants_mono)
qed

theorem action_allowed_upwards_witness: "isActionAllowed [MAINTAINER] ''portfolio.read''"
  using action_allowed_upwards [of MAINTAINER USER "PERMISSION_MATRIX_portfolio ! 0"]
  by (simp add: hasRole_table getActionsForRole_def matrix_defs)

text \<open>Every sensitive action of the matrix is among the actions that must be audited.\<close>

theorem sensitive_actions_audited: "set getSensitiveActions \<subseteq> set getAuditableActions"
  using matrix_sensitive_audited by (auto simp: getSensitiveActions_def getAuditableActions_def list_all_iff)

end
