(* ===== verification/Bounded_Cache.thy ===== *)
theory Bounded_Cache
  imports Trellis_Prelude Complex_Main
begin

text \<open>
  \<open>src/common/cache/bounded-cache.ts\<close>: the memory-bounded LRU cache with tags, versions,
  stale-while-revalidate and single-flight revalidation.  \<open>entries\<close> and \<open>tagMap\<close> are
  insertion-ordered maps, so the first entry is the least recently used one.  Every method is one
  function that takes the cache and returns its result with the new cache; \<open>now\<close> is the clock
  value the method reads.  A revalidation is asynchronous: \<open>executeRevalidation\<close> starts a
  promise, numbered by \<open>bc_nextPromise\<close>, and \<open>settleRevalidation\<close> is the rest of its body,
  run when the fetch settles.  The eviction callback is observed through the list of its calls.
\<close>

section \<open>State\<close>

datatype CacheEntryStatus = Fresh | Stale | Expired

datatype EvictReason = Evict_capacity | Evict_expired | Evict_explicit

record 'v CacheEntry =
  ce_key :: string
  ce_value :: 'v
  ce_createdAt :: int
  ce_freshUntil :: int
  ce_staleUntil :: int
  ce_version :: int
  ce_tags :: "string list"

record 'v BoundedCacheGetResult =
  gr_value :: 'v
  gr_status :: CacheEntryStatus
  gr_isStale :: bool
  gr_version :: int
  gr_createdAt :: int
  gr_freshUntil :: int
  gr_staleUntil :: int

record SetOptions =
  so_ttlMs :: "int option"
  so_staleTtlMs :: "int option"
  so_tags :: "string list option"
  so_version :: "int option"

record BoundedCacheOptions =
  co_maxEntries :: "int option"
  co_defaultTtlMs :: "int option"
  co_defaultStaleTtlMs :: "int option"
  co_onEvict :: bool \<comment> \<open>whether a callback was given\<close>

record 'v BoundedCache =
  bc_entries :: "(string, 'v CacheEntry) jsmap"
  bc_tagMap :: "(string, string list) jsmap"
  bc_inflightRevalidations :: "(string, nat) jsmap"
  bc_maxEntries :: int
  bc_defaultTtlMs :: int
  bc_defaultStaleTtlMs :: int
  bc_onEvict :: bool
  bc_hits :: int
  bc_misses :: int
  bc_staleHits :: int
  bc_evictions :: int
  bc_invalidations :: int
  bc_evictCalls :: "(string \<times> EvictReason) list" \<comment> \<open>calls of the callback, in order\<close>
  bc_nextPromise :: nat \<comment> \<open>number of the next promise\<close>
  bc_running :: "(nat \<times> string \<times> SetOptions) list" \<comment> \<open>promises whose fetch has not settled\<close>

definition newBoundedCache :: "BoundedCacheOptions \<Rightarrow> 'v BoundedCache" where
  "newBoundedCache options = \<lparr>
     bc_entries = [], bc_tagMap = [], bc_inflightRevalidations = [],
     bc_maxEntries = max 1 (case co_maxEntries options of None \<Rightarrow> 1000 | Some n \<Rightarrow> n),
     bc_defaultTtlMs = max 0 (case co_defaultTtlMs options of None \<Rightarrow> 60000 | Some n \<Rightarrow> n),
     bc_defaultStaleTtlMs = max 0 (case co_defaultStaleTtlMs options of None \<Rightarrow> 300000 | Some n \<Rightarrow> n),
     bc_onEvict = co_onEvict options,
     bc_hits = 0, bc_misses = 0, bc_staleHits = 0, bc_evictions = 0, bc_invalidations = 0,
     bc_evictCalls = [], bc_nextPromise = 0, bc_running = []\<rparr>"

section \<open>Tags and eviction\<close>

text \<open>One iteration of the loops over tags in \<open>addKeyToTags\<close> and \<open>removeKeyFromTags\<close>.\<close>

definition tag_add :: "string \<Rightarrow> string \<Rightarrow> (string, string list) jsmap \<Rightarrow> (string, string list) jsmap" where
  "tag_add key tag m = map_set tag (set_add key (case map_get m tag of None \<Rightarrow> [] | Some ks \<Rightarrow> ks)) m"

definition tag_remove :: "string \<Rightarrow> string \<Rightarrow> (string, string list) jsmap \<Rightarrow> (string, string list) jsmap" where
  "tag_remove key tag m =
     (case map_get m tag of
        None \<Rightarrow> m
      | Some ks \<Rightarrow>
          (let ks' = removeAll key ks in if ks' = [] then map_delete tag m else map_set tag ks' m))"

definition addKeyToTags :: "string \<Rightarrow> string list \<Rightarrow> 'v BoundedCache \<Rightarrow> 'v BoundedCache" where
  "addKeyToTags key tags c = c\<lparr>bc_tagMap := fold (tag_add key) tags (bc_tagMap c)\<rparr>"

definition removeKeyFromTags :: "string \<Rightarrow> 'v BoundedCache \<Rightarrow> 'v BoundedCache" where
  "removeKeyFromTags key c =
     (case map_get (bc_entries c) key of
        None \<Rightarrow> c
      | Some entry \<Rightarrow> c\<lparr>bc_tagMap := fold (tag_remove key) (ce_tags entry) (bc_tagMap c)\<rparr>)"

definition evict :: "string \<Rightarrow> EvictReason \<Rightarrow> 'v BoundedCache \<Rightarrow> 'v BoundedCache" where
  "evict key reason c =
     (let c1 = removeKeyFromTags key c;
          c2 = c1\<lparr>bc_entries := map_delete key (bc_entries c1), bc_evictions := bc_evictions c1 + 1\<rparr>
      in if bc_onEvict c2 then c2\<lparr>bc_evictCalls := bc_evictCalls c2 @ [(key, reason)]\<rparr> else c2)"

section \<open>Reading and writing\<close>

definition cache_get :: "string \<Rightarrow> int \<Rightarrow> 'v BoundedCache \<Rightarrow> 'v BoundedCacheGetResult option \<times> 'v BoundedCache" where
  "cache_get key now c =
     (case map_get (bc_entries c) key of
        None \<Rightarrow> (None, c\<lparr>bc_misses := bc_misses c + 1\<rparr>)
      | Some entry \<Rightarrow>
          let c1 = c\<lparr>bc_entries := map_set key entry (map_delete key (bc_entries c))\<rparr>
          in if now \<ge> ce_staleUntil entry
             then (let c2 = evict key Evict_expired c1 in (None, c2\<lparr>bc_misses := bc_misses c2 + 1\<rparr>))
             else let isStale = (now \<ge> ce_freshUntil entry);
                      status = (if isStale then Stale else Fresh);
                      c2 = (if isStale then c1\<lparr>bc_staleHits := bc_staleHits c1 + 1\<rparr>
                            else c1\<lparr>bc_hits := bc_hits c1 + 1\<rparr>)
                  in (Some \<lparr>gr_value = ce_value entry, gr_status = status, gr_isStale = isStale,
                        gr_version = ce_version entry, gr_createdAt = ce_createdAt entry,
                        gr_freshUntil = ce_freshUntil entry, gr_staleUntil = ce_staleUntil entry\<rparr>, c2))"

text \<open>The first half of \<open>set\<close>: drop the key's old entry, or evict the oldest entry of a full cache.\<close>

definition make_room :: "string \<Rightarrow> 'v BoundedCache \<Rightarrow> 'v BoundedCache" where
  "make_room key c =
     (if map_has (bc_entries c) key
      then (let c' = removeKeyFromTags key c in c'\<lparr>bc_entries := map_delete key (bc_entries c')\<rparr>)
      else if int (length (bc_entries c)) \<ge> bc_maxEntries c
      then (case bc_entries c of
              [] \<Rightarrow> c
            | (oldestKey, _) # _ \<Rightarrow> evict oldestKey Evict_capacity c)
      else c)"

definition newCacheEntry :: "string \<Rightarrow> 'v \<Rightarrow> SetOptions \<Rightarrow> int \<Rightarrow> 'v BoundedCache \<Rightarrow> 'v CacheEntry" where
  "newCacheEntry key v options now c =
     (let ttlMs = (case so_ttlMs options of None \<Rightarrow> bc_defaultTtlMs c | Some t \<Rightarrow> t);
          staleTtlMs = (case so_staleTtlMs options of None \<Rightarrow> bc_defaultStaleTtlMs c | Some t \<Rightarrow> t);
          tags = js_set (case so_tags options of None \<Rightarrow> [] | Some ts \<Rightarrow> ts);
          version = (case so_version options of None \<Rightarrow> 1 | Some n \<Rightarrow> n)
      in \<lparr>ce_key = key, ce_value = v, ce_createdAt = now, ce_freshUntil = now + ttlMs,
          ce_staleUntil = now + ttlMs + staleTtlMs, ce_version = version, ce_tags = tags\<rparr>)"

definition cache_set :: "string \<Rightarrow> 'v \<Rightarrow> SetOptions \<Rightarrow> int \<Rightarrow> 'v BoundedCache \<Rightarrow> 'v BoundedCache" where
  "cache_set key v options now c =
     (let entry = newCacheEntry key v options now c;
          c1 = make_room key c
      in addKeyToTags key (ce_tags entry) (c1\<lparr>bc_entries := map_set key entry (bc_entries c1)\<rparr>))"

definition cache_has :: "string \<Rightarrow> int \<Rightarrow> 'v BoundedCache \<Rightarrow> bool \<times> 'v BoundedCache" where
  "cache_has key now c =
     (case map_get (bc_entries c) key of
        None \<Rightarrow> (False, c)
      | Some entry \<Rightarrow>
          if now \<ge> ce_staleUntil entry then (False, evict key Evict_expired c) else (True, c))"

section \<open>Revalidation\<close>

text \<open>
  Calling \<open>fetchFn\<close> either returns a pending promise or throws at once.  In the second case
  the \<open>finally\<close> block of the asynchronous body runs before the promise is registered.
\<close>

datatype FetchStart = Fetch_pending | Fetch_throws

text \<open>What the caller of \<open>getOrRevalidate\<close> gets: a value now, or a promise to wait for.\<close>

datatype 'v Revalidated = Value 'v | Promise nat

definition executeRevalidation ::
  "string \<Rightarrow> FetchStart \<Rightarrow> SetOptions \<Rightarrow> 'v BoundedCache \<Rightarrow> nat \<times> 'v BoundedCache" where
  "executeRevalidation key fetch options c =
     (case map_get (bc_inflightRevalidations c) key of
        Some promise \<Rightarrow> (promise, c)
      | None \<Rightarrow>
          let promise = bc_nextPromise c;
              c1 = (case fetch of
                      Fetch_pending \<Rightarrow> c\<lparr>bc_running := bc_running c @ [(promise, key, options)]\<rparr>
                    | Fetch_throws \<Rightarrow> c\<lparr>bc_inflightRevalidations := map_delete key (bc_inflightRevalidations c)\<rparr>)
          in (promise, c1\<lparr>bc_nextPromise := promise + 1,
                          bc_inflightRevalidations := map_set key promise (bc_inflightRevalidations c1)\<rparr>))"

definition revalidateInBackground ::
  "string \<Rightarrow> FetchStart \<Rightarrow> SetOptions \<Rightarrow> 'v BoundedCache \<Rightarrow> 'v BoundedCache" where
  "revalidateInBackground key fetch options c =
     (if map_has (bc_inflightRevalidations c) key then c
      else snd (executeRevalidation key fetch options c))"

definition getOrRevalidate ::
  "string \<Rightarrow> FetchStart \<Rightarrow> SetOptions \<Rightarrow> int \<Rightarrow> 'v BoundedCache \<Rightarrow> 'v Revalidated \<times> 'v BoundedCache" where
  "getOrRevalidate key fetch options now c =
     (case cache_get key now c of
        (Some cached, c1) \<Rightarrow>
          if \<not> gr_isStale cached then (Value (gr_value cached), c1)
          else (Value (gr_value cached), revalidateInBackground key fetch options c1)
      | (None, c1) \<Rightarrow>
          (case executeRevalidation key fetch options c1 of (promise, c2) \<Rightarrow> (Promise promise, c2)))"

text \<open>The fetch of a running promise settles, with a value or with an error.\<close>

definition settleRevalidation :: "nat \<Rightarrow> 'v option \<Rightarrow> int \<Rightarrow> 'v BoundedCache \<Rightarrow> 'v BoundedCache" where
  "settleRevalidation promise outcome now c =
     (case map_of (bc_running c) promise of
        None \<Rightarrow> c
      | Some (key, options) \<Rightarrow>
          let c1 = c\<lparr>bc_running := filter (\<lambda>p. fst p \<noteq> promise) (bc_running c)\<rparr>;
              c2 = (case outcome of None \<Rightarrow> c1 | Some v \<Rightarrow> cache_set key v options now c1)
          in c2\<lparr>bc_inflightRevalidations := map_delete key (bc_inflightRevalidations c2)\<rparr>)"

section \<open>Invalidation\<close>

definition invalidate :: "string \<Rightarrow> 'v BoundedCache \<Rightarrow> bool \<times> 'v BoundedCache" where
  "invalidate key c =
     (if \<not> map_has (bc_entries c) key then (False, c)
      else let c1 = evict key Evict_explicit c in (True, c1\<lparr>bc_invalidations := bc_invalidations c1 + 1\<rparr>))"

text \<open>The loop the bulk invalidations share: invalidate each key, counting the hits.\<close>

fun invalidate_each :: "string list \<Rightarrow> int \<Rightarrow> 'v BoundedCache \<Rightarrow> int \<times> 'v BoundedCache" where
  "invalidate_each [] n c = (n, c)"
| "invalidate_each (key # keys) n c =
     (case invalidate key c of (hit, c1) \<Rightarrow> invalidate_each keys (if hit then n + 1 else n) c1)"

definition invalidateTag :: "string \<Rightarrow> 'v BoundedCache \<Rightarrow> int \<times> 'v BoundedCache" where
  "invalidateTag tag c =
     (case map_get (bc_tagMap c) tag of
        None \<Rightarrow> (0, c)
      | Some keys \<Rightarrow>
          if keys = [] then (0, c)
          else case invalidate_each keys 0 c of
              (n, c1) \<Rightarrow> (n, c1\<lparr>bc_tagMap := map_delete tag (bc_tagMap c1)\<rparr>))"

definition startsWith :: "string \<Rightarrow> string \<Rightarrow> bool" where
  "startsWith s pre \<longleftrightarrow> take (length pre) s = pre"

definition invalidatePrefix :: "string \<Rightarrow> 'v BoundedCache \<Rightarrow> int \<times> 'v BoundedCache" where
  "invalidatePrefix pre c =
     invalidate_each (filter (\<lambda>key. startsWith key pre) (map_keys (bc_entries c))) 0 c"

definition invalidateStaleVersion :: "int \<Rightarrow> 'v BoundedCache \<Rightarrow> int \<times> 'v BoundedCache" where
  "invalidateStaleVersion minVersion c =
     invalidate_each (map fst (filter (\<lambda>(_, entry). ce_version entry < minVersion) (bc_entries c))) 0 c"

definition cache_clear :: "'v BoundedCache \<Rightarrow> 'v BoundedCache" where
  "cache_clear c = c\<lparr>bc_entries := [], bc_tagMap := [], bc_inflightRevalidations := []\<rparr>"

section \<open>Statistics\<close>

definition size_of :: "'v BoundedCache \<Rightarrow> int" where
  "size_of c = int (length (bc_entries c))"

text \<open>\<open>Math.round\<close> of a number: the nearest integer, halves rounded up.\<close>

definition js_round :: "rat \<Rightarrow> int" where
  "js_round x = \<lfloor>x + 1 / 2\<rfloor>"

record BoundedCacheStats =
  cs_size :: int
  cs_maxEntries :: int
  cs_hits :: int
  cs_misses :: int
  cs_staleHits :: int
  cs_evictions :: int
  cs_invalidations :: int
  cs_hitRate :: rat

definition getStats :: "'v BoundedCache \<Rightarrow> BoundedCacheStats" where
  "getStats c =
     (let totalRequests = bc_hits c + bc_staleHits c + bc_misses c;
          hitRate = (if totalRequests > 0 then of_int (bc_hits c + bc_staleHits c) / of_int totalRequests else 0)
      in \<lparr>cs_size = size_of c, cs_maxEntries = bc_maxEntries c, cs_hits = bc_hits c,
          cs_misses = bc_misses c, cs_staleHits = bc_staleHits c, cs_evictions = bc_evictions c,
          cs_invalidations = bc_invalidations c, cs_hitRate = of_int (js_round (hitRate * 1000)) / 1000\<rparr>)"

section \<open>Operations as steps\<close>

datatype 'v cache_op =
    Op_get string int
  | Op_set string 'v SetOptions int
  | Op_has string int
  | Op_getOrRevalidate string FetchStart SetOptions int
  | Op_settle nat "'v option" int
  | Op_invalidate string
  | Op_invalidateTag string
  | Op_invalidatePrefix string
  | Op_invalidateStaleVersion int
  | Op_clear

fun cache_step :: "'v cache_op \<Rightarrow> 'v BoundedCache \<Rightarrow> 'v BoundedCache" where
  "cache_step (Op_get key now) c = snd (cache_get key now c)"
| "cache_step (Op_set key v options now) c = cache_set key v options now c"
| "cache_step (Op_has key now) c = snd (cache_has key now c)"
| "cache_step (Op_getOrRevalidate key fetch options now) c = snd (getOrRevalidate key fetch options now c)"
| "cache_step (Op_settle promise outcome now) c = settleRevalidation promise outcome now c"
| "cache_step (Op_invalidate key) c = snd (invalidate key c)"
| "cache_step (Op_invalidateTag tag) c = snd (invalidateTag tag c)"
| "cache_step (Op_invalidatePrefix pre) c = snd (invalidatePrefix pre c)"
| "cache_step (Op_invalidateStaleVersion v) c = snd (invalidateStaleVersion v c)"
| "cache_step Op_clear c = cache_clear c"

section \<open>The tag index\<close>

lemma tag_add_get:
  "map_get (tag_add key tag m) t =
     (if t = tag then Some (set_add key (case map_get m t of None \<Rightarrow> [] | Some ks \<Rightarrow> ks)) else map_get m t)"
  by (simp add: tag_add_def js_simps)

lemma tags_add_get:
  "map_get (fold (tag_add key) tags m) t =
     (if t \<in> set tags then Some (set_add key (case map_get m t of None \<Rightarrow> [] | Some ks \<Rightarrow> ks)) else map_get m t)"
  by (induction tags arbitrary: m) (simp_all add: tag_add_get)

definition drop_key :: "string \<Rightarrow> string list option \<Rightarrow> string list option" where
  "drop_key key v =
     (case v of None \<Rightarrow> None | Some ks \<Rightarrow> if removeAll key ks = [] then None else Some (removeAll key ks))"

lemma drop_key_idem [simp]: "drop_key key (drop_key key v) = drop_key key v"
  by (auto simp: drop_key_def split: option.splits)

lemma tag_remove_get:
  "map_get (tag_remove key tag m) t = (if t = tag then drop_key key (map_get m t) else map_get m t)"
  by (cases "map_get m tag") (simp_all add: tag_remove_def drop_key_def map_get_set map_get_delete Let_def)

lemma tags_remove_get:
  "map_get (fold (tag_remove key) tags m) t =
     (if t \<in> set tags then drop_key key (map_get m t) else map_get m t)"
  by (induction tags arbitrary: m) (auto simp: tag_remove_get)

lemma tag_add_wf [intro]: "map_wf m \<Longrightarrow> map_wf (tag_add key tag m)"
  by (simp add: tag_add_def map_wf_set)

lemma tag_remove_wf [intro]: "map_wf m \<Longrightarrow> map_wf (tag_remove key tag m)"
  by (auto simp: tag_remove_def Let_def split: option.split)

lemma tags_add_wf: "map_wf m \<Longrightarrow> map_wf (fold (tag_add key) tags m)"
  by (induction tags arbitrary: m) auto

lemma tags_remove_wf: "map_wf m \<Longrightarrow> map_wf (fold (tag_remove key) tags m)"
  by (induction tags arbitrary: m) auto

definition tagged :: "(string, string list) jsmap \<Rightarrow> string \<Rightarrow> string \<Rightarrow> bool" where
  "tagged m t k \<longleftrightarrow> (\<exists>ks. map_get m t = Some ks \<and> k \<in> set ks)"

lemma tagged_add: "tagged (fold (tag_add key) tags m) t k \<longleftrightarrow> tagged m t k \<or> (t \<in> set tags \<and> k = key)"
  by (cases "map_get m t") (auto simp: tagged_def tags_add_get)

lemma set_drop_key:
  "(\<exists>ks. drop_key key v = Some ks \<and> k \<in> set ks) \<longleftrightarrow> (\<exists>ks. v = Some ks \<and> k \<in> set ks) \<and> k \<noteq> key"
proof (cases v)
  case (Some ks)
  have "removeAll key ks = [] \<longleftrightarrow> set ks \<subseteq> {key}"
    by (metis set_removeAll Diff_eq_empty_iff set_empty)
  with Some show ?thesis by (auto simp: drop_key_def)
qed (simp add: drop_key_def)

lemma tagged_remove: "tagged (fold (tag_remove key) tags m) t k \<longleftrightarrow> tagged m t k \<and> \<not> (t \<in> set tags \<and> k = key)"
  unfolding tagged_def tags_remove_get by (simp add: set_drop_key)

text \<open>
  The tag index is the exact inverse of the tags of the entries: a key is listed under a tag
  just when the entry stored under the key carries the tag, and no tag is listed without keys.
\<close>

definition good_keys :: "string list option \<Rightarrow> bool" where
  "good_keys v \<longleftrightarrow> (case v of None \<Rightarrow> True | Some ks \<Rightarrow> ks \<noteq> [] \<and> distinct ks)"

lemma good_keys_simps [simp]: "good_keys None" "good_keys (Some ks) \<longleftrightarrow> ks \<noteq> [] \<and> distinct ks"
  by (simp_all add: good_keys_def)

lemma good_keys_drop: "good_keys v \<Longrightarrow> good_keys (drop_key key v)"
  by (cases v) (simp_all add: drop_key_def distinct_removeAll)

lemma good_keys_add: "good_keys v \<Longrightarrow> good_keys (Some (set_add key (case v of None \<Rightarrow> [] | Some ks \<Rightarrow> ks)))"
  by (cases v) (simp_all add: set_add_def)

definition tag_index :: "(string, 'v CacheEntry) jsmap \<Rightarrow> (string, string list) jsmap \<Rightarrow> bool" where
  "tag_index E T \<longleftrightarrow>
     (\<forall>t k. tagged T t k \<longleftrightarrow> (\<exists>e. map_get E k = Some e \<and> t \<in> set (ce_tags e))) \<and>
     (\<forall>t. good_keys (map_get T t))"

lemma tag_indexI:
  assumes "\<And>t k. tagged T t k \<longleftrightarrow> (\<exists>e. map_get E k = Some e \<and> t \<in> set (ce_tags e))"
    and "\<And>t. good_keys (map_get T t)"
  shows "tag_index E T"
  using assms unfolding tag_index_def by blast

lemma tag_index_tagged: "tag_index E T \<Longrightarrow> tagged T t k \<longleftrightarrow> (\<exists>e. map_get E k = Some e \<and> t \<in> set (ce_tags e))"
  unfolding tag_index_def by blast

lemma tag_index_keys: "tag_index E T \<Longrightarrow> good_keys (map_get T t)"
  unfolding tag_index_def by blast

lemma tag_index_forget:
  assumes ok: "tag_index E T" and e: "map_get E key = Some e"
  shows "tag_index (map_delete key E) (fold (tag_remove key) (ce_tags e) T)"
proof (rule tag_indexI)
  show "tagged (fold (tag_remove key) (ce_tags e) T) t k \<longleftrightarrow>
      (\<exists>e'. map_get (map_delete key E) k = Some e' \<and> t \<in> set (ce_tags e'))" for t k
    by (cases "k = key") (simp_all add: tagged_remove tag_index_tagged [OF ok] map_get_delete e)
  show "good_keys (map_get (fold (tag_remove key) (ce_tags e) T) t)" for t
    by (simp add: tags_remove_get good_keys_drop tag_index_keys [OF ok])
qed

lemma tag_index_store:
  assumes ok: "tag_index E T" and absent: "map_get E key = None"
  shows "tag_index (map_set key e E) (fold (tag_add key) (ce_tags e) T)"
proof (rule tag_indexI)
  show "tagged (fold (tag_add key) (ce_tags e) T) t k \<longleftrightarrow>
      (\<exists>e'. map_get (map_set key e E) k = Some e' \<and> t \<in> set (ce_tags e'))" for t k
    by (cases "k = key") (simp_all add: tagged_add tag_index_tagged [OF ok] map_get_set absent)
  show "good_keys (map_get (fold (tag_add key) (ce_tags e) T) t)" for t
    using good_keys_add [OF tag_index_keys [OF ok, of t]] tag_index_keys [OF ok, of t]
    by (simp add: tags_add_get del: good_keys_simps)
qed

lemma tag_index_cong: "map_of E = map_of E' \<Longrightarrow> tag_index E T = tag_index E' T"
  by (simp add: tag_index_def)

section \<open>The invariant\<close>

definition store_ok :: "'v BoundedCache \<Rightarrow> bool" where
  "store_ok c \<longleftrightarrow>
     map_wf (bc_entries c) \<and> map_wf (bc_tagMap c) \<and>
     tag_index (bc_entries c) (bc_tagMap c) \<and>
     (\<forall>k e. map_get (bc_entries c) k = Some e \<longrightarrow> ce_key e = k \<and> distinct (ce_tags e))"

definition cache_inv :: "'v BoundedCache \<Rightarrow> bool" where
  "cache_inv c \<longleftrightarrow> store_ok c \<and> 1 \<le> bc_maxEntries c \<and> int (length (bc_entries c)) \<le> bc_maxEntries c"

lemma cache_inv_new: "cache_inv (newBoundedCache options)"
  by (simp add: cache_inv_def store_ok_def newBoundedCache_def tag_index_def tagged_def)

text \<open>Fields an eviction leaves alone, and the ones it changes.\<close>

lemma removeKeyFromTags_simps [simp]:
  "bc_entries (removeKeyFromTags key c) = bc_entries c"
  "bc_maxEntries (removeKeyFromTags key c) = bc_maxEntries c"
  "bc_inflightRevalidations (removeKeyFromTags key c) = bc_inflightRevalidations c"
  "bc_running (removeKeyFromTags key c) = bc_running c"
  "bc_nextPromise (removeKeyFromTags key c) = bc_nextPromise c"
  "bc_evictions (removeKeyFromTags key c) = bc_evictions c"
  "bc_invalidations (removeKeyFromTags key c) = bc_invalidations c"
  by (simp_all add: removeKeyFromTags_def split: option.split)

lemma evict_simps [simp]:
  "bc_entries (evict key r c) = map_delete key (bc_entries c)"
  "bc_tagMap (evict key r c) = bc_tagMap (removeKeyFromTags key c)"
  "bc_maxEntries (evict key r c) = bc_maxEntries c"
  "bc_inflightRevalidations (evict key r c) = bc_inflightRevalidations c"
  "bc_running (evict key r c) = bc_running c"
  "bc_nextPromise (evict key r c) = bc_nextPromise c"
  "bc_evictions (evict key r c) = bc_evictions c + 1"
  "bc_invalidations (evict key r c) = bc_invalidations c"
  by (simp_all add: evict_def Let_def)

lemma addKeyToTags_simps [simp]:
  "bc_entries (addKeyToTags key tags c) = bc_entries c"
  "bc_maxEntries (addKeyToTags key tags c) = bc_maxEntries c"
  "bc_inflightRevalidations (addKeyToTags key tags c) = bc_inflightRevalidations c"
  "bc_running (addKeyToTags key tags c) = bc_running c"
  "bc_nextPromise (addKeyToTags key tags c) = bc_nextPromise c"
  by (simp_all add: addKeyToTags_def)

text \<open>Dropping a key from the entries and from the tags keeps the store consistent.\<close>

lemma store_ok_forget:
  assumes "store_ok c"
  shows "store_ok ((removeKeyFromTags key c)\<lparr>bc_entries := map_delete key (bc_entries c)\<rparr>)"
proof (cases "map_get (bc_entries c) key")
  case None
  then have "map_delete key (bc_entries c) = bc_entries c"
    by (simp add: map_delete_absent map_of_eq_None_iff)
  with assms None show ?thesis by (simp add: store_ok_def removeKeyFromTags_def)
next
  case (Some e)
  with assms show ?thesis
    by (auto simp: store_ok_def removeKeyFromTags_def map_get_delete tags_remove_wf
        intro: tag_index_forget)
qed

lemma store_ok_cong:
  "bc_entries c' = bc_entries c \<Longrightarrow> bc_tagMap c' = bc_tagMap c \<Longrightarrow> store_ok c' = store_ok c"
  by (simp add: store_ok_def)

lemma store_ok_evict:
  assumes "store_ok c"
  shows "store_ok (evict key r c)"
proof -
  let ?c = "(removeKeyFromTags key c)\<lparr>bc_entries := map_delete key (bc_entries c)\<rparr>"
  have "store_ok (evict key r c) = store_ok ?c" by (rule store_ok_cong) simp_all
  with store_ok_forget [OF assms] show ?thesis by simp
qed

lemma cache_inv_evict [keeps]: "cache_inv c \<Longrightarrow> cache_inv (evict key r c)"
  using length_map_delete_le [of key "bc_entries c"] by (auto simp: cache_inv_def store_ok_evict)

section \<open>Every operation keeps the invariant\<close>

lemma refresh_get:
  "map_get E key = Some e \<Longrightarrow> map_of (map_set key e (map_delete key E)) = map_of E"
  by (rule ext) (simp add: map_get_set map_get_delete)

lemma refresh_eq: "map_set key e (map_delete key E) = map_delete key E @ [(key, e)]"
  by (rule map_set_absent) (auto simp: AList.delete_eq)

lemma newCacheEntry_simps [simp]:
  "ce_key (newCacheEntry key v options now c) = key"
  "ce_value (newCacheEntry key v options now c) = v"
  "distinct (ce_tags (newCacheEntry key v options now c))"
  by (simp_all add: newCacheEntry_def Let_def)

lemma cache_inv_refresh:
  assumes "cache_inv c" "map_get (bc_entries c) key = Some e"
  shows "cache_inv (c\<lparr>bc_entries := map_set key e (map_delete key (bc_entries c))\<rparr>)"
proof -
  have "key \<in> fst ` set (bc_entries c)" using assms(2) by (metis domI dom_map_of_conv_image_fst)
  then have "length (map_set key e (map_delete key (bc_entries c))) = length (bc_entries c)"
    using assms(1) by (simp add: refresh_eq length_map_delete_present cache_inv_def store_ok_def)
  with assms show ?thesis
    by (simp add: cache_inv_def store_ok_def refresh_get tag_index_cong [OF refresh_get])
qed

lemma cache_inv_counters [simp]:
  "cache_inv (c\<lparr>bc_hits := n\<rparr>) = cache_inv c"
  "cache_inv (c\<lparr>bc_misses := n\<rparr>) = cache_inv c"
  "cache_inv (c\<lparr>bc_staleHits := n\<rparr>) = cache_inv c"
  "cache_inv (c\<lparr>bc_invalidations := n\<rparr>) = cache_inv c"
  "cache_inv (c\<lparr>bc_inflightRevalidations := m\<rparr>) = cache_inv c"
  "cache_inv (c\<lparr>bc_running := r\<rparr>) = cache_inv c"
  "cache_inv (c\<lparr>bc_nextPromise := p\<rparr>) = cache_inv c"
  by (simp_all add: cache_inv_def store_ok_def)

lemma cache_inv_get [keeps]: "cache_inv c \<Longrightarrow> cache_inv (snd (cache_get key now c))"
  using cache_inv_refresh [of c key] by (auto simp: cache_get_def Let_def keeps split: option.split)

lemma cache_inv_has [keeps]: "cache_inv c \<Longrightarrow> cache_inv (snd (cache_has key now c))"
  by (auto simp: cache_has_def keeps split: option.split)

lemma make_room_ok:
  assumes inv: "cache_inv c"
  shows "store_ok (make_room key c) \<and> map_get (bc_entries (make_room key c)) key = None \<and>
     int (length (bc_entries (make_room key c))) < bc_maxEntries c \<and> bc_maxEntries (make_room key c) = bc_maxEntries c"
proof -
  let ?E = "bc_entries c"
  from inv have ok: "store_ok c" and wf: "map_wf ?E" and len: "int (length ?E) \<le> bc_maxEntries c"
    and one: "1 \<le> bc_maxEntries c"
    by (simp_all add: cache_inv_def store_ok_def)
  consider (present) "key \<in> fst ` set ?E" | (full) p m where "key \<notin> fst ` set ?E" "?E = p # m" "int (length ?E) \<ge> bc_maxEntries c"
    | (room) "key \<notin> fst ` set ?E" "int (length ?E) < bc_maxEntries c"
    using one by (cases ?E) force+
  then show ?thesis
  proof cases
    case present
    with length_map_delete_present [OF wf present] len store_ok_forget [OF ok, of key] show ?thesis
      by (simp add: make_room_def map_get_delete)
  next
    case full
    then have "make_room key c = evict (fst p) Evict_capacity c"
      by (cases p) (simp add: make_room_def)
    moreover have "map_delete (fst p) ?E = m" using wf full(2) map_delete_hd by metis
    ultimately show ?thesis using full len store_ok_evict [OF ok]
      by (simp add: map_of_eq_None_iff)
  next
    case room
    then show ?thesis using ok by (simp add: make_room_def map_of_eq_None_iff)
  qed
qed

lemma cache_inv_set [keeps]:
  assumes "cache_inv c"
  shows "cache_inv (cache_set key v options now c)"
proof -
  let ?c = "make_room key c"
  note room = make_room_ok [OF assms, of key]
  let ?e = "newCacheEntry key v options now c"
  have "store_ok (addKeyToTags key (ce_tags ?e) (?c\<lparr>bc_entries := map_set key ?e (bc_entries ?c)\<rparr>))"
    using room tag_index_store [of "bc_entries ?c" "bc_tagMap ?c" key ?e]
    by (simp add: store_ok_def addKeyToTags_def tags_add_wf map_get_set)
  moreover have "length (map_set key ?e (bc_entries ?c)) = length (bc_entries ?c) + 1"
    using room by (simp add: map_set_absent map_of_eq_None_iff)
  ultimately show ?thesis using room assms
    by (simp add: cache_inv_def cache_set_def Let_def)
qed

lemma cache_inv_invalidate [keeps]: "cache_inv c \<Longrightarrow> cache_inv (snd (invalidate key c))"
  by (simp add: invalidate_def Let_def keeps)

lemma cache_inv_invalidate_each [keeps]: "cache_inv c \<Longrightarrow> cache_inv (snd (invalidate_each keys n c))"
proof (induction keys arbitrary: n c)
  case (Cons key keys)
  then show ?case using cache_inv_invalidate [of c key] by (auto split: prod.split)
qed simp

lemma cache_inv_execute [keeps]: "cache_inv c \<Longrightarrow> cache_inv (snd (executeRevalidation key f options c))"
  by (auto simp: executeRevalidation_def Let_def split: option.split FetchStart.split)

lemma snd_getOrRevalidate:
  "snd (getOrRevalidate key f options now c) =
     (let c1 = snd (cache_get key now c) in
      case fst (cache_get key now c) of
        None \<Rightarrow> snd (executeRevalidation key f options c1)
      | Some cached \<Rightarrow> if gr_isStale cached then revalidateInBackground key f options c1 else c1)"
  by (auto simp: getOrRevalidate_def Let_def split: prod.split option.split)

lemma cache_inv_getOrRevalidate [keeps]:
  "cache_inv c \<Longrightarrow> cache_inv (snd (getOrRevalidate key f options now c))"
  using cache_inv_get [of c key now]
  by (simp add: snd_getOrRevalidate Let_def revalidateInBackground_def cache_inv_execute split: option.split)

lemma cache_inv_settle [keeps]: "cache_inv c \<Longrightarrow> cache_inv (settleRevalidation p outcome now c)"
  by (auto simp: settleRevalidation_def Let_def keeps split: option.split)

lemma cache_inv_clear [keeps]: "cache_inv c \<Longrightarrow> cache_inv (cache_clear c)"
  by (simp add: cache_inv_def store_ok_def cache_clear_def tag_index_def tagged_def)

section \<open>What the bulk invalidations remove\<close>

lemma fold_delete_filter: "fold AList.delete ks E = filter (\<lambda>p. fst p \<notin> set ks) E"
proof (induction ks arbitrary: E)
  case (Cons k ks)
  have "fold AList.delete (k # ks) E = filter (\<lambda>p. fst p \<notin> set ks) (map_delete k E)"
    by (simp add: Cons)
  also have "\<dots> = filter (\<lambda>p. fst p \<notin> set (k # ks)) E"
    by (auto simp: AList.delete_eq intro: filter_cong)
  finally show ?case .
qed simp

lemma invalidate_entries: "bc_entries (snd (invalidate key c)) = map_delete key (bc_entries c)"
  by (simp add: invalidate_def Let_def map_delete_absent)

lemma invalidate_each_entries:
  "bc_entries (snd (invalidate_each ks n c)) = filter (\<lambda>p. fst p \<notin> set ks) (bc_entries c)"
proof -
  have "bc_entries (snd (invalidate_each ks n c)) = fold AList.delete ks (bc_entries c)"
  proof (induction ks arbitrary: n c)
    case (Cons k ks)
    then show ?case using invalidate_entries [of k c] by (simp add: case_prod_unfold)
  qed simp
  then show ?thesis by (simp add: fold_delete_filter)
qed

lemma set_map_keys_delete: "fst ` set (map_delete k E) = fst ` set E - {k}"
  using arg_cong [OF AList.delete_keys [of k E], of set] by auto

lemma invalidate_each_count:
  assumes "distinct ks" "set ks \<subseteq> fst ` set (bc_entries c)"
  shows "fst (invalidate_each ks n c) = n + int (length ks)"
  using assms
proof (induction ks arbitrary: n c)
  case (Cons k ks)
  have hit: "fst (invalidate k c)" using Cons.prems by (simp add: invalidate_def Let_def)
  have "set ks \<subseteq> fst ` set (bc_entries (snd (invalidate k c)))"
    using Cons.prems set_map_keys_delete [of k "bc_entries c"] by (auto simp: invalidate_entries)
  with Cons.IH [of "snd (invalidate k c)"] Cons.prems(1) hit show ?case
    by (simp add: case_prod_unfold)
qed simp

text \<open>Dropping the keys of a tag leaves nothing under the tag, so deleting the tag changes nothing.\<close>

lemma untagged_absent:
  assumes "tag_index E T" "\<forall>k e. map_get E k = Some e \<longrightarrow> t \<notin> set (ce_tags e)"
  shows "map_get T t = None"
proof (cases "map_get T t")
  case (Some ks)
  with tag_index_keys [OF assms(1), of t] obtain k where "k \<in> set ks"
    by (cases ks) auto
  with Some have "tagged T t k" by (auto simp: tagged_def)
  with assms show ?thesis by (auto simp: tag_index_tagged)
qed simp

lemma filter_get:
  "map_wf E \<Longrightarrow> map_get (filter (\<lambda>p. fst p \<notin> K) E) k = (if k \<in> K then None else map_get E k)"
  by (induction E) (auto simp: map_wf_def map_of_eq_None_iff)

lemma tag_listed:
  assumes "store_ok c" "map_get (bc_tagMap c) t = Some ks"
  shows "k \<in> set ks \<longleftrightarrow> (\<exists>e. map_get (bc_entries c) k = Some e \<and> t \<in> set (ce_tags e))"
proof -
  have "k \<in> set ks \<longleftrightarrow> tagged (bc_tagMap c) t k" using assms(2) by (simp add: tagged_def)
  also have "\<dots> \<longleftrightarrow> (\<exists>e. map_get (bc_entries c) k = Some e \<and> t \<in> set (ce_tags e))"
    using assms(1) by (intro tag_index_tagged) (simp add: store_ok_def)
  finally show ?thesis .
qed

text \<open>The state after \<open>invalidateTag\<close>, when the tag is in use.\<close>

lemma invalidateTag_state:
  assumes inv: "cache_inv c" and ks: "map_get (bc_tagMap c) t = Some ks"
  shows "snd (invalidateTag t c) = snd (invalidate_each ks 0 c)" (is "_ = ?c")
    and "fst (invalidateTag t c) = int (length ks)"
proof -
  from inv have ok: "store_ok c" by (simp add: cache_inv_def)
  have "ks \<noteq> [] \<and> distinct ks"
    using tag_index_keys [of "bc_entries c" "bc_tagMap c" t] ok ks by (simp add: store_ok_def)
  then have tag: "invalidateTag t c =
      (fst (invalidate_each ks 0 c), ?c\<lparr>bc_tagMap := map_delete t (bc_tagMap ?c)\<rparr>)"
    using ks by (simp add: invalidateTag_def case_prod_unfold)
  have inv': "cache_inv ?c" by (rule cache_inv_invalidate_each [OF inv])
  have "t \<notin> set (ce_tags e)" if "map_get (bc_entries ?c) k = Some e" for k e
  proof -
    have "map_wf (bc_entries c)" using ok by (simp add: store_ok_def)
    with that have "k \<notin> set ks" "map_get (bc_entries c) k = Some e"
      by (simp_all add: invalidate_each_entries filter_get split: if_splits)
    then show ?thesis using tag_listed [OF ok ks, of k] by simp
  qed
  then have "map_get (bc_tagMap ?c) t = None"
    using inv' by (intro untagged_absent [of "bc_entries ?c"]) (auto simp: cache_inv_def store_ok_def)
  then have "map_delete t (bc_tagMap ?c) = bc_tagMap ?c"
    by (simp add: map_delete_absent map_of_eq_None_iff)
  with tag show "snd (invalidateTag t c) = ?c" by simp
  have "set ks \<subseteq> fst ` set (bc_entries c)"
    using tag_listed [OF ok ks] by (force dest: map_of_SomeD)
  with tag \<open>ks \<noteq> [] \<and> distinct ks\<close> show "fst (invalidateTag t c) = int (length ks)"
    by (simp add: invalidate_each_count)
qed

lemma cache_inv_invalidateTag [keeps]:
  assumes "cache_inv c"
  shows "cache_inv (snd (invalidateTag t c))"
proof (cases "map_get (bc_tagMap c) t")
  case None
  with assms show ?thesis by (simp add: invalidateTag_def)
next
  case (Some ks)
  with assms show ?thesis by (simp add: invalidateTag_state keeps)
qed

lemma filter_map_keys: "filter P (map_keys E) = map fst (filter (\<lambda>(k, e). P k) E)"
  by (induction E) auto

text \<open>The entries that match a test are removed, the others stay, and the result is their number.\<close>

lemma invalidate_matching:
  fixes P :: "string \<Rightarrow> 'v CacheEntry \<Rightarrow> bool"
  assumes "cache_inv c"
  defines "ks \<equiv> map fst (filter (\<lambda>(k, e). P k e) (bc_entries c))"
  shows "bc_entries (snd (invalidate_each ks 0 c)) = filter (\<lambda>(k, e). \<not> P k e) (bc_entries c) \<and>
    fst (invalidate_each ks 0 c) = int (length (bc_entries c)) - int (length (bc_entries (snd (invalidate_each ks 0 c))))"
proof -
  have wf: "map_wf (bc_entries c)" using assms(1) by (simp add: cache_inv_def store_ok_def)
  have iff: "k \<in> set ks \<longleftrightarrow> P k e" if "(k, e) \<in> set (bc_entries c)" for k e
  proof -
    have "e' = e" if "(k, e') \<in> set (bc_entries c)" for e'
      using map_get_wf [OF wf that] map_get_wf [OF wf \<open>(k, e) \<in> _\<close>] by simp
    moreover have "k \<in> set ks \<longleftrightarrow> (\<exists>e'. (k, e') \<in> set (bc_entries c) \<and> P k e')"
      unfolding ks_def by force
    ultimately show ?thesis using that by metis
  qed
  have left: "bc_entries (snd (invalidate_each ks 0 c)) = filter (\<lambda>(k, e). \<not> P k e) (bc_entries c)"
    unfolding invalidate_each_entries by (rule filter_cong) (use iff in auto)
  have "distinct ks" using wf unfolding ks_def map_wf_def by (rule distinct_map_filter)
  moreover have "set ks \<subseteq> fst ` set (bc_entries c)" unfolding ks_def by auto
  ultimately have "fst (invalidate_each ks 0 c) = int (length ks)" by (simp add: invalidate_each_count)
  with left sum_length_filter_compl [of "\<lambda>(k, e). P k e" "bc_entries c"] show ?thesis
    by (simp add: ks_def case_prod_unfold)
qed

lemma invalidateTag_removed:
  assumes inv: "cache_inv c"
  shows "bc_entries (snd (invalidateTag t c)) = filter (\<lambda>(k, e). t \<notin> set (ce_tags e)) (bc_entries c) \<and>
    fst (invalidateTag t c) = int (length (filter (\<lambda>(k, e). t \<in> set (ce_tags e)) (bc_entries c)))"
proof -
  from inv have ok: "store_ok c" and wf: "map_wf (bc_entries c)" by (simp_all add: cache_inv_def store_ok_def)
  note get = map_get_wf [OF wf]
  let ?F = "filter (\<lambda>(k, e). t \<in> set (ce_tags e)) (bc_entries c)"
  show ?thesis
  proof (cases "map_get (bc_tagMap c) t")
    case None
    then have "\<not> tagged (bc_tagMap c) t k" for k by (simp add: tagged_def)
    then have "t \<notin> set (ce_tags e)" if "(k, e) \<in> set (bc_entries c)" for k e
      using get [OF that] tag_index_tagged [of "bc_entries c" "bc_tagMap c"] ok by (auto simp: store_ok_def)
    with None show ?thesis by (force simp: invalidateTag_def intro: filter_False filter_True [symmetric])
  next
    case (Some ks)
    have iff: "k \<in> set ks \<longleftrightarrow> t \<in> set (ce_tags e)" if "(k, e) \<in> set (bc_entries c)" for k e
      using tag_listed [OF ok Some, of k] get [OF that] by simp
    have "set ks = set (map fst ?F)"
      using tag_listed [OF ok Some] get by (force dest: map_of_SomeD)
    moreover have "distinct ks"
      using tag_index_keys [of "bc_entries c" "bc_tagMap c" t] ok Some by (simp add: store_ok_def)
    moreover have "distinct (map fst ?F)" using wf unfolding map_wf_def by (rule distinct_map_filter)
    ultimately have "length ks = length ?F" by (metis distinct_card length_map)
    moreover have "filter (\<lambda>p. fst p \<notin> set ks) (bc_entries c) = filter (\<lambda>(k, e). t \<notin> set (ce_tags e)) (bc_entries c)"
      by (rule filter_cong) (use iff in auto)
    ultimately show ?thesis using invalidateTag_state [OF inv Some] by (simp add: invalidate_each_entries)
  qed
qed

lemma cache_inv_step [keeps]: "cache_inv c \<Longrightarrow> cache_inv (cache_step x c)"
  by (cases x) (simp_all add: keeps invalidatePrefix_def invalidateStaleVersion_def)

interpretation cache: invariant_system cache_step cache_inv
  by unfold_locales (rule cache_inv_step)

section \<open>Recency order\<close>

text \<open>
  The abstract cache: the keys from the least to the most recently used.  A touch moves a key to
  the end; an insertion into a full cache drops the first key.
\<close>

definition lru_touch :: "string \<Rightarrow> string list \<Rightarrow> string list" where
  "lru_touch key ks = filter (\<lambda>k. k \<noteq> key) ks @ [key]"

definition lru_insert :: "int \<Rightarrow> string \<Rightarrow> string list \<Rightarrow> string list" where
  "lru_insert cap key ks =
     (if key \<in> set ks then lru_touch key ks
      else if int (length ks) \<ge> cap then tl ks @ [key] else ks @ [key])"

definition live :: "string \<Rightarrow> int \<Rightarrow> 'v BoundedCache \<Rightarrow> bool" where
  "live key now c = (case map_get (bc_entries c) key of None \<Rightarrow> False | Some e \<Rightarrow> now < ce_staleUntil e)"

lemma keys_make_room:
  assumes inv: "cache_inv c"
  shows "map_keys (bc_entries (make_room key c)) @ [key] = lru_insert (bc_maxEntries c) key (map_keys (bc_entries c))"
proof (cases "bc_entries c")
  case Nil
  with inv show ?thesis by (simp add: make_room_def lru_insert_def cache_inv_def)
next
  case (Cons p m)
  with inv have wf: "map_wf (p # m)" by (simp add: cache_inv_def store_ok_def)
  consider "key \<in> fst ` set (p # m)" | "key \<notin> fst ` set (p # m)" by blast
  then show ?thesis
  proof cases
    case 1
    then show ?thesis using Cons
      by (auto simp: make_room_def lru_insert_def lru_touch_def js_simps)
  next
    case 2
    then show ?thesis using Cons map_delete_hd [OF wf]
      by (cases p) (auto simp: make_room_def lru_insert_def)
  qed
qed

lemma keys_cache_set:
  assumes inv: "cache_inv c"
  shows "map_keys (bc_entries (cache_set key v options now c)) = lru_insert (bc_maxEntries c) key (map_keys (bc_entries c))"
  using make_room_ok [OF inv, of key] keys_make_room [OF inv, of key]
  by (simp add: cache_set_def Let_def map_set_absent map_of_eq_None_iff)

lemma keys_cache_get:
  "map_keys (bc_entries (snd (cache_get key now c))) =
     (if live key now c then lru_touch key (map_keys (bc_entries c))
      else filter (\<lambda>k. k \<noteq> key) (map_keys (bc_entries c)))"
proof (cases "map_get (bc_entries c) key")
  case None
  then have "filter (\<lambda>k. k \<noteq> key) (map_keys (bc_entries c)) = map_keys (bc_entries c)"
    by (force simp: map_of_eq_None_iff intro: filter_True)
  with None show ?thesis by (simp add: cache_get_def live_def)
next
  case (Some e)
  then show ?thesis
    by (auto simp: cache_get_def live_def lru_touch_def Let_def refresh_eq js_simps)
qed

section \<open>Single flight\<close>

text \<open>
  As long as \<open>clear\<close> is not called, every running fetch is the one registered under its key.
\<close>

definition single_flight :: "'v BoundedCache \<Rightarrow> bool" where
  "single_flight c \<longleftrightarrow> map_wf (bc_inflightRevalidations c) \<and>
     (\<forall>p key x. (p, key, x) \<in> set (bc_running c) \<longrightarrow> map_get (bc_inflightRevalidations c) key = Some p)"

lemma single_flightD:
  "single_flight c \<Longrightarrow> (p, key, x) \<in> set (bc_running c) \<Longrightarrow> map_get (bc_inflightRevalidations c) key = Some p"
  unfolding single_flight_def by blast

lemma single_flight_wf: "single_flight c \<Longrightarrow> map_wf (bc_inflightRevalidations c)"
  unfolding single_flight_def by blast

lemma single_flight_cong:
  "bc_running c' = bc_running c \<Longrightarrow> bc_inflightRevalidations c' = bc_inflightRevalidations c \<Longrightarrow>
    single_flight c' = single_flight c"
  by (simp add: single_flight_def)

lemma make_room_flight [simp]:
  "bc_running (make_room key c) = bc_running c"
  "bc_inflightRevalidations (make_room key c) = bc_inflightRevalidations c"
  by (simp_all add: make_room_def Let_def split: list.split)

lemma cache_set_flight [simp]:
  "bc_running (cache_set key v options now c) = bc_running c"
  "bc_inflightRevalidations (cache_set key v options now c) = bc_inflightRevalidations c"
  by (simp_all add: cache_set_def Let_def)

lemma cache_get_flight [simp]:
  "bc_running (snd (cache_get key now c)) = bc_running c"
  "bc_inflightRevalidations (snd (cache_get key now c)) = bc_inflightRevalidations c"
  by (simp_all add: cache_get_def Let_def split: option.split)

lemma cache_has_flight [simp]:
  "bc_running (snd (cache_has key now c)) = bc_running c"
  "bc_inflightRevalidations (snd (cache_has key now c)) = bc_inflightRevalidations c"
  by (simp_all add: cache_has_def split: option.split)

lemma invalidate_flight [simp]:
  "bc_running (snd (invalidate key c)) = bc_running c"
  "bc_inflightRevalidations (snd (invalidate key c)) = bc_inflightRevalidations c"
  by (simp_all add: invalidate_def Let_def)

lemma invalidate_each_flight [simp]:
  "bc_running (snd (invalidate_each ks n c)) = bc_running c"
  "bc_inflightRevalidations (snd (invalidate_each ks n c)) = bc_inflightRevalidations c"
  by (induction ks arbitrary: n c) (simp_all add: case_prod_unfold)

lemma invalidateTag_flight [simp]:
  "bc_running (snd (invalidateTag t c)) = bc_running c"
  "bc_inflightRevalidations (snd (invalidateTag t c)) = bc_inflightRevalidations c"
  by (simp_all add: invalidateTag_def case_prod_unfold split: option.split)

lemma single_flight_execute:
  assumes "single_flight c"
  shows "single_flight (snd (executeRevalidation key f options c))"
proof (cases "map_get (bc_inflightRevalidations c) key")
  case None
  then have "k \<noteq> key" if "(p, k, x) \<in> set (bc_running c)" for p k x
    using single_flightD [OF assms that] by auto
  with None assms show ?thesis
    unfolding single_flight_def [of "snd _"]
    by (cases f) (auto simp: executeRevalidation_def Let_def js_simps single_flight_wf dest: single_flightD)
qed (use assms in \<open>simp add: executeRevalidation_def\<close>)

lemma single_flight_getOrRevalidate:
  assumes "single_flight c"
  shows "single_flight (snd (getOrRevalidate key f options now c))"
proof -
  have "single_flight (snd (cache_get key now c))"
    using assms by (subst single_flight_cong [where c = c]) simp_all
  then show ?thesis
    by (simp add: snd_getOrRevalidate Let_def revalidateInBackground_def single_flight_execute split: option.split)
qed

lemma single_flight_settle:
  assumes "single_flight c"
  shows "single_flight (settleRevalidation p outcome now c)"
proof (cases "map_of (bc_running c) p")
  case (Some ko)
  obtain key options where ko: "ko = (key, options)" by (cases ko)
  have reg: "map_get (bc_inflightRevalidations c) key = Some p"
    using Some ko assms by (auto intro: single_flightD dest: map_of_SomeD)
  have "map_get (map_delete key (bc_inflightRevalidations c)) k = Some q"
    if "(q, k, x) \<in> set (bc_running c)" "q \<noteq> p" for q k x
    using that reg single_flightD [OF assms that(1)] by (auto simp: js_simps)
  then show ?thesis using Some ko single_flight_wf [OF assms]
    unfolding single_flight_def
    by (auto simp: settleRevalidation_def Let_def split: option.split)
qed (use assms in \<open>simp add: settleRevalidation_def\<close>)

lemma single_flight_step: "single_flight c \<Longrightarrow> x \<noteq> Op_clear \<Longrightarrow> single_flight (cache_step x c)"
  by (cases x)
    (simp_all add: single_flight_getOrRevalidate single_flight_settle invalidatePrefix_def
      invalidateStaleVersion_def single_flight_cong [of "snd _" c] single_flight_cong [of "cache_set _ _ _ _ c" c])

interpretation flight: guarded_system cache_step single_flight "\<lambda>x. x \<noteq> Op_clear"
  by unfold_locales (rule single_flight_step)

lemma single_flight_new: "single_flight (newBoundedCache options)"
  by (simp add: single_flight_def newBoundedCache_def)

section \<open>Counters\<close>

fun is_lookup :: "'v cache_op \<Rightarrow> bool" where
  "is_lookup (Op_get _ _) = True"
| "is_lookup (Op_getOrRevalidate _ _ _ _) = True"
| "is_lookup _ = False"

definition lookups :: "'v BoundedCache \<Rightarrow> int" where
  "lookups c = bc_hits c + bc_staleHits c + bc_misses c"

definition counters_ok :: "'v BoundedCache \<Rightarrow> bool" where
  "counters_ok c \<longleftrightarrow> 0 \<le> bc_hits c \<and> 0 \<le> bc_staleHits c \<and> 0 \<le> bc_misses c"

definition same_counters :: "'v BoundedCache \<Rightarrow> 'v BoundedCache \<Rightarrow> bool" where
  "same_counters c c' \<longleftrightarrow> bc_hits c = bc_hits c' \<and> bc_staleHits c = bc_staleHits c' \<and> bc_misses c = bc_misses c'"

lemma evict_counters [simp]:
  "bc_hits (evict key r c) = bc_hits c" "bc_staleHits (evict key r c) = bc_staleHits c"
  "bc_misses (evict key r c) = bc_misses c"
  by (simp_all add: evict_def removeKeyFromTags_def Let_def split: option.split)

lemma same_counters_set: "same_counters (cache_set key v options now c) c"
  by (simp add: same_counters_def cache_set_def addKeyToTags_def make_room_def removeKeyFromTags_def Let_def
      split: list.split option.split)

lemma same_counters_each: "same_counters (snd (invalidate_each ks n c)) c"
proof (induction ks arbitrary: n c)
  case (Cons k ks)
  have "same_counters (snd (invalidate k c)) c" by (simp add: invalidate_def same_counters_def Let_def)
  with Cons.IH [of _ "snd (invalidate k c)"] show ?case by (simp add: case_prod_unfold same_counters_def)
qed (simp add: same_counters_def)

lemma same_counters_execute: "same_counters (snd (executeRevalidation key f options c)) c"
  by (simp add: same_counters_def executeRevalidation_def Let_def split: option.split FetchStart.split)

lemma cache_get_counters:
  "lookups (snd (cache_get key now c)) = lookups c + 1"
  "counters_ok c \<Longrightarrow> counters_ok (snd (cache_get key now c))"
  by (simp_all add: lookups_def counters_ok_def cache_get_def Let_def split: option.split)

lemma same_counters_lookup: "same_counters c' c \<Longrightarrow> lookups c' = lookups c \<and> counters_ok c' = counters_ok c"
  by (simp add: same_counters_def lookups_def counters_ok_def)

lemma step_counters:
  "lookups (cache_step x c) = lookups c + (if is_lookup x then 1 else 0) \<and>
   (counters_ok c \<longrightarrow> counters_ok (cache_step x c))"
proof (cases "is_lookup x")
  case True
  then show ?thesis
  proof (cases x)
    case (Op_getOrRevalidate key f options now)
    let ?c = "snd (cache_get key now c)"
    have "same_counters (cache_step x c) ?c"
      using same_counters_execute [of key f options ?c]
      by (simp add: Op_getOrRevalidate snd_getOrRevalidate Let_def revalidateInBackground_def
          same_counters_def split: option.split)
    from same_counters_lookup [OF this] show ?thesis
      using cache_get_counters [where c = c] by (simp add: Op_getOrRevalidate)
  qed (simp_all add: cache_get_counters)
next
  case False
  have "same_counters (cache_step x c) c"
  proof (cases x)
    case (Op_settle p outcome now)
    show ?thesis
    proof (cases outcome)
      case (Some v)
      with Op_settle show ?thesis
        by (simp add: settleRevalidation_def Let_def same_counters_def
            same_counters_set [unfolded same_counters_def] split: option.split)
    qed (simp add: Op_settle settleRevalidation_def same_counters_def Let_def split: option.split)
  next
    case (Op_invalidateTag t)
    show ?thesis
      by (simp add: Op_invalidateTag invalidateTag_def same_counters_def case_prod_unfold
          same_counters_each [unfolded same_counters_def] split: option.split)
  qed (use False in \<open>simp_all add: same_counters_set same_counters_each invalidatePrefix_def
        invalidateStaleVersion_def invalidate_def cache_has_def cache_clear_def same_counters_def Let_def
        same_counters_set [unfolded same_counters_def] same_counters_each [unfolded same_counters_def]
        split: option.split\<close>)
  from same_counters_lookup [OF this] False show ?thesis by simp
qed

interpretation stats: invariant_system cache_step counters_ok
  by unfold_locales (simp add: step_counters)

lemma run_lookups: "lookups (run cache_step ops c) = lookups c + int (length (filter is_lookup ops))"
  by (induction ops arbitrary: c) (auto simp: step_counters)

lemma js_round_mono: "x \<le> y \<Longrightarrow> js_round x \<le> js_round y"
  by (simp add: js_round_def floor_mono)

lemma js_round_of_int [simp]: "js_round (of_int n) = n"
  by (simp add: js_round_def floor_eq_iff)

lemma js_round_thousandths:
  assumes "0 \<le> x" "x \<le> 1"
  shows "0 \<le> js_round (x * 1000) \<and> js_round (x * 1000) \<le> 1000"
  using js_round_mono [of "of_int 0" "x * 1000"] js_round_mono [of "x * 1000" "of_int 1000"] assms
  unfolding js_round_of_int by simp

lemma getStats_counters [simp]:
  "cs_hits (getStats c) = bc_hits c" "cs_staleHits (getStats c) = bc_staleHits c" "cs_misses (getStats c) = bc_misses c"
  by (simp_all add: getStats_def Let_def)

lemma hitRate_bounds:
  assumes "counters_ok c"
  shows "0 \<le> cs_hitRate (getStats c) \<and> cs_hitRate (getStats c) \<le> 1"
proof -
  define r :: rat where
    "r = (if lookups c > 0 then of_int (bc_hits c + bc_staleHits c) / of_int (lookups c) else 0)"
  have hit: "cs_hitRate (getStats c) = of_int (js_round (r * 1000)) / 1000"
    by (simp only: getStats_def r_def lookups_def Let_def BoundedCacheStats.simps)
  have "bc_hits c + bc_staleHits c \<le> lookups c" "0 \<le> bc_hits c + bc_staleHits c"
    using assms by (simp_all add: counters_ok_def lookups_def)
  then have "0 \<le> r" "r \<le> 1" by (auto simp: r_def divide_le_eq simp del: of_int_add)
  from js_round_thousandths [OF this]
  have "(0 :: rat) \<le> of_int (js_round (r * 1000))" "of_int (js_round (r * 1000)) \<le> (1000 :: rat)"
    by linarith+
  then show ?thesis unfolding hit by simp
qed

section \<open>Properties\<close>

lemmas sample_defs = newBoundedCache_def cache_set_def newCacheEntry_def make_room_def addKeyToTags_def
  removeKeyFromTags_def evict_def cache_get_def getOrRevalidate_def executeRevalidation_def
  revalidateInBackground_def settleRevalidation_def cache_clear_def

definition sampleCache :: "nat BoundedCache" where
  "sampleCache =
     (let o1 = \<lparr>so_ttlMs = Some 10, so_staleTtlMs = Some 5, so_tags = Some [''t''], so_version = None\<rparr>;
          o2 = \<lparr>so_ttlMs = Some 10, so_staleTtlMs = Some 5, so_tags = Some [''u''], so_version = None\<rparr>;
          c = newBoundedCache \<lparr>co_maxEntries = Some 2, co_defaultTtlMs = None,
                co_defaultStaleTtlMs = None, co_onEvict = True\<rparr>
      in cache_set ''b'' 2 o2 1 (cache_set ''a'' 1 o1 0 c))"

lemma cache_inv_sample: "cache_inv sampleCache"
  by (simp add: sampleCache_def Let_def cache_inv_new cache_inv_set)

lemma sample_entries:
  "map_keys (bc_entries sampleCache) = [''a'', ''b'']" "bc_maxEntries sampleCache = 2"
  by (simp_all add: sampleCache_def Let_def sample_defs)

text \<open>
  C8.  Whatever the sequence of operations on a new cache, it never holds more than \<open>maxEntries\<close>
  entries, has one entry per key, and its tag index is exact: a key is listed under a tag just
  when the entry stored under that key carries the tag.
\<close>

theorem cache_bounded_and_indexed:
  "let c = run cache_step ops (newBoundedCache options)
   in size_of c \<le> bc_maxEntries c \<and> distinct (map_keys (bc_entries c)) \<and>
    (\<forall>t k. (\<exists>ks. map_get (bc_tagMap c) t = Some ks \<and> k \<in> set ks) =
           (\<exists>e. map_get (bc_entries c) k = Some e \<and> t \<in> set (ce_tags e)))"
proof -
  let ?c = "run cache_step ops (newBoundedCache options)"
  have "cache_inv ?c" by (intro cache.run_inv cache_inv_new)
  then show ?thesis
    using tag_index_tagged [of "bc_entries ?c" "bc_tagMap ?c", unfolded tagged_def]
    by (simp add: cache_inv_def store_ok_def map_wf_def size_of_def Let_def)
qed

text \<open>
  A read after a write returns the written value with its version: fresh before
  \<open>now + ttl\<close>, stale before \<open>now + ttl + staleTtl\<close>, and nothing from then on.
\<close>

theorem get_after_set:
  "fst (cache_get key t (cache_set key v options now c)) =
    (let ttl = case so_ttlMs options of None \<Rightarrow> bc_defaultTtlMs c | Some n \<Rightarrow> n;
         staleTtl = case so_staleTtlMs options of None \<Rightarrow> bc_defaultStaleTtlMs c | Some n \<Rightarrow> n
     in if t \<ge> now + ttl + staleTtl then None
        else Some \<lparr>gr_value = v, gr_status = (if t \<ge> now + ttl then Stale else Fresh),
          gr_isStale = (t \<ge> now + ttl),
          gr_version = (case so_version options of None \<Rightarrow> 1 | Some n \<Rightarrow> n), gr_createdAt = now,
          gr_freshUntil = now + ttl, gr_staleUntil = now + ttl + staleTtl\<rparr>)"
  by (simp add: cache_get_def cache_set_def Let_def map_get_set newCacheEntry_def)

text \<open>
  C30.  The cache implements least-recently-used replacement: on the keys in order of use, a
  write is the abstract insertion, which drops the least recently used key of a full cache, and a
  read moves a live key to the end and drops an expired one.
\<close>

theorem lru_refinement:
  assumes "cache_inv c"
  shows "map_keys (bc_entries (cache_set key v options now c)) =
      lru_insert (bc_maxEntries c) key (map_keys (bc_entries c)) \<and>
    map_keys (bc_entries (snd (cache_get key now c))) =
      (if live key now c then lru_touch key (map_keys (bc_entries c))
       else filter (\<lambda>k. k \<noteq> key) (map_keys (bc_entries c)))"
  using keys_cache_set [OF assms] keys_cache_get by blast

theorem lru_refinement_witness:
  "map_keys (bc_entries (cache_set ''c'' 3 \<lparr>so_ttlMs = None, so_staleTtlMs = None, so_tags = None,
     so_version = None\<rparr> 5 sampleCache)) = [''b'', ''c'']"
  by (subst lru_refinement [OF cache_inv_sample, THEN conjunct1])
    (simp add: sample_entries lru_insert_def)

text \<open>
  \<open>invalidateTag\<close> removes exactly the entries that carry the tag, keeps the others in their
  order, and returns the number of the removed ones.
\<close>

theorem invalidateTag_exact:
  assumes "cache_inv c"
  shows "bc_entries (snd (invalidateTag t c)) = filter (\<lambda>(k, e). t \<notin> set (ce_tags e)) (bc_entries c) \<and>
    fst (invalidateTag t c) = int (length (filter (\<lambda>(k, e). t \<in> set (ce_tags e)) (bc_entries c)))"
  by (rule invalidateTag_removed [OF assms])

theorem invalidateTag_exact_witness:
  "fst (invalidateTag ''u'' sampleCache) = 1 \<and> map_keys (bc_entries (snd (invalidateTag ''u'' sampleCache))) = [''a'']"
  unfolding invalidateTag_exact [OF cache_inv_sample, of "''u''", THEN conjunct1]
    invalidateTag_exact [OF cache_inv_sample, of "''u''", THEN conjunct2]
  by (simp add: sampleCache_def Let_def sample_defs js_set_def set_add_def)

text \<open>
  The other bulk invalidations: \<open>invalidatePrefix\<close> removes exactly the entries whose key
  starts with the prefix and \<open>invalidateStaleVersion\<close> exactly those below the version, and both
  return the number of entries they removed.
\<close>

theorem bulk_invalidation_exact:
  assumes "cache_inv c"
  shows "bc_entries (snd (invalidatePrefix pre c)) = filter (\<lambda>(k, e). \<not> startsWith k pre) (bc_entries c) \<and>
    fst (invalidatePrefix pre c) = size_of c - size_of (snd (invalidatePrefix pre c)) \<and>
    bc_entries (snd (invalidateStaleVersion n c)) = filter (\<lambda>(k, e). n \<le> ce_version e) (bc_entries c) \<and>
    fst (invalidateStaleVersion n c) = size_of c - size_of (snd (invalidateStaleVersion n c))"
  using invalidate_matching [OF assms, of "\<lambda>k e. startsWith k pre"]
    invalidate_matching [OF assms, of "\<lambda>k e. ce_version e < n"]
  by (simp add: invalidatePrefix_def invalidateStaleVersion_def size_of_def filter_map_keys not_less)

theorem bulk_invalidation_exact_witness:
  "map_keys (bc_entries (snd (invalidatePrefix ''b'' sampleCache))) = [''a'']"
  unfolding bulk_invalidation_exact [OF cache_inv_sample, of "''b''", THEN conjunct1]
  by (simp add: sampleCache_def Let_def sample_defs js_set_def set_add_def startsWith_def)

text \<open>
  Single flight: as long as \<open>clear\<close> is not called, at most one fetch per key is running,
  whatever the interleaving of reads, writes, invalidations and settling fetches.
\<close>

theorem single_flight_per_key:
  assumes "list_all (\<lambda>x. x \<noteq> Op_clear) ops"
    and "(p, key, o1) \<in> set (bc_running (run cache_step ops (newBoundedCache options)))"
    and "(q, key, o2) \<in> set (bc_running (run cache_step ops (newBoundedCache options)))"
  shows "p = q"
  using single_flightD [OF flight.guarded_run [OF single_flight_new assms(1)] assms(2)]
    single_flightD [OF flight.guarded_run [OF single_flight_new assms(1)] assms(3)]
  by simp

definition emptyOptions :: SetOptions where
  "emptyOptions = \<lparr>so_ttlMs = None, so_staleTtlMs = None, so_tags = None, so_version = None\<rparr>"

definition noCacheOptions :: BoundedCacheOptions where
  "noCacheOptions = \<lparr>co_maxEntries = None, co_defaultTtlMs = None, co_defaultStaleTtlMs = None, co_onEvict = False\<rparr>"

theorem single_flight_per_key_witness:
  "(0, ''k'', emptyOptions) \<in> set (bc_running (run cache_step
      [Op_getOrRevalidate ''k'' Fetch_pending emptyOptions 0,
       Op_getOrRevalidate ''k'' Fetch_pending emptyOptions (1 :: int) :: nat cache_op] (newBoundedCache noCacheOptions))) \<and>
   (1, ''k'', emptyOptions) \<notin> set (bc_running (run cache_step
      [Op_getOrRevalidate ''k'' Fetch_pending emptyOptions 0,
       Op_getOrRevalidate ''k'' Fetch_pending emptyOptions (1 :: int) :: nat cache_op] (newBoundedCache noCacheOptions)))"
  (is "?a \<and> ?b")
proof -
  have a: ?a by (simp add: sample_defs)
  with single_flight_per_key [OF _ a, of 1 emptyOptions] show ?thesis by auto
qed

text \<open>
  \<open>clear\<close> forgets the running fetches without stopping them: after it a second fetch for
  the same key starts beside the first, and when the first one settles its value, fetched before the
  clear, is back in the cleared cache and the second fetch is no longer registered.
\<close>

theorem clear_breaks_single_flight:
  "let ops = [Op_getOrRevalidate ''k'' Fetch_pending emptyOptions 0, Op_clear,
       Op_getOrRevalidate ''k'' Fetch_pending emptyOptions 1] :: nat cache_op list
   in map (\<lambda>(p, key, _). (p, key)) (bc_running (run cache_step ops (newBoundedCache noCacheOptions))) =
      [(0, ''k''), (1, ''k'')] \<and>
    map_option ce_value (map_get (bc_entries (run cache_step (ops @ [Op_settle 0 (Some 9) 2])
      (newBoundedCache noCacheOptions))) ''k'') = Some 9 \<and>
    bc_inflightRevalidations (run cache_step (ops @ [Op_settle 0 (Some 9) 2]) (newBoundedCache noCacheOptions)) = []"
  by (simp add: Let_def sample_defs noCacheOptions_def emptyOptions_def)

text \<open>
  A \<open>fetchFn\<close> that throws before it returns a promise leaves the rejected promise
  registered: no fetch is running, and every later miss on the key gets that promise back instead of
  starting a fetch, until \<open>clear\<close>.
\<close>

theorem throwing_fetch_stays_registered:
  assumes "map_get (bc_entries c) key = None" "map_get (bc_inflightRevalidations c) key = None"
  shows "let c' = snd (getOrRevalidate key Fetch_throws options now c)
    in bc_running c' = bc_running c \<and>
       fst (getOrRevalidate key f options' later c') = Promise (bc_nextPromise c) \<and>
       bc_running (snd (getOrRevalidate key f options' later c')) = bc_running c"
  using assms
  by (simp add: getOrRevalidate_def cache_get_def executeRevalidation_def js_simps Let_def)

theorem throwing_fetch_stays_registered_witness:
  "fst (getOrRevalidate ''k'' Fetch_pending emptyOptions 1
     (snd (getOrRevalidate ''k'' Fetch_throws emptyOptions 0 sampleCache))) = Promise 0"
  using throwing_fetch_stays_registered [of sampleCache "''k''" emptyOptions 0 Fetch_pending emptyOptions 1]
  by (simp add: sampleCache_def Let_def sample_defs)

text \<open>
  The statistics of a run: every lookup is counted exactly once as a hit, a stale hit or a
  miss, and the reported hit rate lies between 0 and 1.
\<close>

theorem stats_account_for_lookups:
  "let s = getStats (run cache_step ops (newBoundedCache options))
   in cs_hits s + cs_staleHits s + cs_misses s = int (length (filter is_lookup ops)) \<and>
    0 \<le> cs_hitRate s \<and> cs_hitRate s \<le> 1"
proof -
  let ?c = "run cache_step ops (newBoundedCache options)"
  have "counters_ok ?c" by (rule stats.run_inv) (simp add: counters_ok_def newBoundedCache_def)
  then have "0 \<le> cs_hitRate (getStats ?c) \<and> cs_hitRate (getStats ?c) \<le> 1" by (rule hitRate_bounds)
  moreover have "lookups ?c = int (length (filter is_lookup ops))"
    using run_lookups [of ops "newBoundedCache options"] by (simp add: lookups_def newBoundedCache_def)
  ultimately show ?thesis by (simp add: getStats_counters Let_def lookups_def)
qed

end
