(* ===== verification/Work_Queue.thy ===== *)
theory Work_Queue
  imports Roles Complex_Main
begin

text \<open>
  \<open>src/common/backpressure/bounded-work-queue.ts\<close>: the bounded queue for expensive background
  work.  The queue is driven by events: a submission, the settling of the call \<open>task(attempt)\<close> a
  running task is waiting for, the end of the back-off \<open>sleep\<close> between two attempts, and a call of
  \<open>idle\<close>.  Each event runs the code up to its next \<open>await\<close>, so any interleaving of concurrent
  tasks is a list of events.  Tasks are numbered in the order they are accepted; a task's body is
  outside the model, only the outcome of each attempt is, and it does not call the queue before its
  first \<open>await\<close>.  What the code calls is kept in logs: \<open>wq_calls\<close> for \<open>task(attempt)\<close>,
  \<open>wq_settled\<close> for the promises \<open>submit\<close> returned, \<open>wq_woken\<close> for the idle waiters.
\<close>

section \<open>Options and state\<close>

record QueueActor =
  qa_id :: string
  qa_roles :: "Role list"

record 'e BoundedWorkQueueOptions =
  wo_name :: string
  wo_permission :: Permission
  wo_maxConcurrent :: rat
  wo_maxQueued :: rat
  wo_maxQueuedPerActor :: "int option"
  wo_maxAttempts :: "int option"
  wo_retryDelayMs :: "int option"
  wo_isRetryable :: "('e \<Rightarrow> bool) option"
  wo_retryAfterSeconds :: "int option"

text \<open>Where a running task stands: inside \<open>task(attempt)\<close> or in the sleep after it.\<close>

datatype phase = Attempting | Sleeping int

record 'e BoundedWorkQueue =
  wq_name :: string
  wq_permission :: Permission
  wq_maxConcurrent :: int
  wq_maxQueued :: int
  wq_maxQueuedPerActor :: int
  wq_maxAttempts :: int
  wq_retryDelayMs :: int
  wq_retryAfterSeconds :: int
  wq_isRetryable :: "'e \<Rightarrow> bool"
  wq_running :: int
  wq_completed :: int
  wq_failed :: int
  wq_rejected :: int
  wq_waiting :: "(string \<times> nat) list" \<comment> \<open>actor and task of each queued item\<close>
  wq_idleWaiters :: "nat list"
  wq_nextTask :: nat
  wq_nextWaiter :: nat
  wq_active :: "(nat, nat \<times> phase) jsmap" \<comment> \<open>the started tasks, with their attempt and phase\<close>
  wq_calls :: "(nat \<times> nat) list"
  wq_settled :: "(nat \<times> ('e + unit)) list"
  wq_woken :: "nat list"

datatype queue_error =
    RangeError string
  | ForbiddenException string
  | RateLimitException string int

text \<open>\<open>Number.isInteger\<close> of a finite number.\<close>

definition isInteger :: "rat \<Rightarrow> bool" where
  "isInteger q \<longleftrightarrow> snd (quotient_of q) = 1"

definition newBoundedWorkQueue :: "'e BoundedWorkQueueOptions \<Rightarrow> (queue_error, 'e BoundedWorkQueue) result" where
  "newBoundedWorkQueue options =
     (if \<not> isInteger (wo_maxConcurrent options) \<or> wo_maxConcurrent options < 1
      then Inl (RangeError ''maxConcurrent must be a positive integer'')
      else if \<not> isInteger (wo_maxQueued options) \<or> wo_maxQueued options < 0
      then Inl (RangeError ''maxQueued must be a non-negative integer'')
      else Inr \<lparr>wq_name = wo_name options, wq_permission = wo_permission options,
        wq_maxConcurrent = \<lfloor>wo_maxConcurrent options\<rfloor>, wq_maxQueued = \<lfloor>wo_maxQueued options\<rfloor>,
        wq_maxQueuedPerActor = (case wo_maxQueuedPerActor options of None \<Rightarrow> \<lfloor>wo_maxQueued options\<rfloor> | Some n \<Rightarrow> n),
        wq_maxAttempts = max 1 (case wo_maxAttempts options of None \<Rightarrow> 1 | Some n \<Rightarrow> n),
        wq_retryDelayMs = (case wo_retryDelayMs options of None \<Rightarrow> 100 | Some n \<Rightarrow> n),
        wq_retryAfterSeconds = (case wo_retryAfterSeconds options of None \<Rightarrow> 5 | Some n \<Rightarrow> n),
        wq_isRetryable = (case wo_isRetryable options of None \<Rightarrow> (\<lambda>_. True) | Some f \<Rightarrow> f),
        wq_running = 0, wq_completed = 0, wq_failed = 0, wq_rejected = 0, wq_waiting = [],
        wq_idleWaiters = [], wq_nextTask = 0, wq_nextWaiter = 0, wq_active = [], wq_calls = [],
        wq_settled = [], wq_woken = []\<rparr>)"

section \<open>Operations\<close>

text \<open>The call \<open>task(attempt)\<close> inside \<open>runWithRetry\<close>.\<close>

definition call_task :: "nat \<Rightarrow> nat \<Rightarrow> 'e BoundedWorkQueue \<Rightarrow> 'e BoundedWorkQueue" where
  "call_task t attempt q =
     q\<lparr>wq_active := map_set t (attempt, Attempting) (wq_active q), wq_calls := wq_calls q @ [(t, attempt)]\<rparr>"

text \<open>\<open>start\<close> up to its \<open>await\<close>.\<close>

definition start :: "nat \<Rightarrow> 'e BoundedWorkQueue \<Rightarrow> 'e BoundedWorkQueue" where
  "start t q = call_task t 1 (q\<lparr>wq_running := wq_running q + 1\<rparr>)"

lemma start_simps [simp]:
  "wq_waiting (start t q) = wq_waiting q" "wq_running (start t q) = wq_running q + 1"
  "wq_maxConcurrent (start t q) = wq_maxConcurrent q"
  by (simp_all add: start_def call_task_def)

text \<open>The loop of \<open>pump\<close>, which starts waiting tasks while slots are free.\<close>

function pump_loop :: "'e BoundedWorkQueue \<Rightarrow> 'e BoundedWorkQueue" where
  "pump_loop q =
     (if wq_running q < wq_maxConcurrent q \<and> wq_waiting q \<noteq> []
      then pump_loop (start (snd (hd (wq_waiting q))) (q\<lparr>wq_waiting := tl (wq_waiting q)\<rparr>))
      else q)"
  by pat_completeness auto
termination
  by (relation "measure (\<lambda>q. length (wq_waiting q))") auto

declare pump_loop.simps [simp del]

definition pump :: "'e BoundedWorkQueue \<Rightarrow> 'e BoundedWorkQueue" where
  "pump q =
     (let q1 = pump_loop q
      in if wq_running q1 = 0 \<and> wq_waiting q1 = []
         then q1\<lparr>wq_idleWaiters := [], wq_woken := wq_woken q1 @ wq_idleWaiters q1\<rparr>
         else q1)"

text \<open>The rest of \<open>start\<close>, after \<open>runWithRetry\<close> has returned or thrown.\<close>

definition finish :: "nat \<Rightarrow> 'e + unit \<Rightarrow> 'e BoundedWorkQueue \<Rightarrow> 'e BoundedWorkQueue" where
  "finish t outcome q =
     (let q1 = (case outcome of
                  Inr _ \<Rightarrow> q\<lparr>wq_completed := wq_completed q + 1\<rparr>
                | Inl _ \<Rightarrow> q\<lparr>wq_failed := wq_failed q + 1\<rparr>);
          q2 = q1\<lparr>wq_running := wq_running q1 - 1, wq_active := map_delete t (wq_active q1)\<rparr>;
          q3 = pump q2
      in q3\<lparr>wq_settled := wq_settled q3 @ [(t, outcome)]\<rparr>)"

text \<open>The body of the \<open>runWithRetry\<close> loop from the end of its first \<open>await\<close>, and from the end of the sleep.\<close>

definition attemptSettled :: "nat \<Rightarrow> 'e + unit \<Rightarrow> 'e BoundedWorkQueue \<Rightarrow> 'e BoundedWorkQueue" where
  "attemptSettled t outcome q =
     (case map_get (wq_active q) t of
        Some (attempt, Attempting) \<Rightarrow>
          (case outcome of
             Inr _ \<Rightarrow> finish t outcome q
           | Inl error \<Rightarrow>
               if int attempt \<ge> wq_maxAttempts q \<or> \<not> wq_isRetryable q error then finish t outcome q
               else q\<lparr>wq_active := map_set t (attempt, Sleeping (wq_retryDelayMs q * 2 ^ (attempt - 1))) (wq_active q)\<rparr>)
      | _ \<Rightarrow> q)"

definition sleepOver :: "nat \<Rightarrow> 'e BoundedWorkQueue \<Rightarrow> 'e BoundedWorkQueue" where
  "sleepOver t q =
     (case map_get (wq_active q) t of
        Some (attempt, Sleeping _) \<Rightarrow> call_task t (attempt + 1) q
      | _ \<Rightarrow> q)"

definition actorWaiting :: "string \<Rightarrow> 'e BoundedWorkQueue \<Rightarrow> int" where
  "actorWaiting actorId q = int (length (filter (\<lambda>item. fst item = actorId) (wq_waiting q)))"

definition submit :: "QueueActor \<Rightarrow> 'e BoundedWorkQueue \<Rightarrow> (queue_error, nat) result \<times> 'e BoundedWorkQueue" where
  "submit actor q =
     (if \<not> hasPermission (qa_roles actor) (wq_permission q)
      then (Inl (ForbiddenException (''Not allowed to enqueue work on \"'' @ wq_name q @ ''\"'')), q)
      else let t = wq_nextTask q in
        if wq_running q < wq_maxConcurrent q
        then (Inr t, start t (q\<lparr>wq_nextTask := t + 1\<rparr>))
        else if int (length (wq_waiting q)) \<ge> wq_maxQueued q \<or> actorWaiting (qa_id actor) q \<ge> wq_maxQueuedPerActor q
        then (Inl (RateLimitException (''Queue \"'' @ wq_name q @ ''\" is full; retry later'') (wq_retryAfterSeconds q)),
              q\<lparr>wq_rejected := wq_rejected q + 1\<rparr>)
        else (Inr t, q\<lparr>wq_nextTask := t + 1, wq_waiting := wq_waiting q @ [(qa_id actor, t)]\<rparr>))"

text \<open>\<open>idle\<close>: an already resolved promise (\<open>None\<close>), or one that the pump resolves.\<close>

definition idle :: "'e BoundedWorkQueue \<Rightarrow> nat option \<times> 'e BoundedWorkQueue" where
  "idle q =
     (if wq_running q = 0 \<and> wq_waiting q = [] then (None, q)
      else let w = wq_nextWaiter q in (Some w, q\<lparr>wq_nextWaiter := w + 1, wq_idleWaiters := wq_idleWaiters q @ [w]\<rparr>))"

record BoundedWorkQueueStats =
  ws_running :: int
  ws_queued :: int
  ws_completed :: int
  ws_failed :: int
  ws_rejected :: int

definition queue_stats :: "'e BoundedWorkQueue \<Rightarrow> BoundedWorkQueueStats" where
  "queue_stats q = \<lparr>ws_running = wq_running q, ws_queued = int (length (wq_waiting q)),
     ws_completed = wq_completed q, ws_failed = wq_failed q, ws_rejected = wq_rejected q\<rparr>"

datatype 'e queue_event =
    Ev_submit QueueActor
  | Ev_attempt nat "'e + unit"
  | Ev_sleepOver nat
  | Ev_idle

fun queue_step :: "'e queue_event \<Rightarrow> 'e BoundedWorkQueue \<Rightarrow> 'e BoundedWorkQueue" where
  "queue_step (Ev_submit actor) q = snd (submit actor q)"
| "queue_step (Ev_attempt t outcome) q = attemptSettled t outcome q"
| "queue_step (Ev_sleepOver t) q = sleepOver t q"
| "queue_step Ev_idle q = snd (idle q)"

section \<open>The invariant\<close>

text \<open>Tasks in the order of their first call, and the attempts made for a task.\<close>

definition first_calls :: "'e BoundedWorkQueue \<Rightarrow> nat list" where
  "first_calls q = map fst (filter (\<lambda>c. snd c = 1) (wq_calls q))"

definition attempts :: "nat \<Rightarrow> 'e BoundedWorkQueue \<Rightarrow> nat list" where
  "attempts t q = map snd (filter (\<lambda>c. fst c = t) (wq_calls q))"

definition slots_ok :: "'e BoundedWorkQueue \<Rightarrow> bool" where
  "slots_ok q \<longleftrightarrow> 1 \<le> wq_maxConcurrent q \<and> 0 \<le> wq_maxQueued q \<and> 1 \<le> wq_maxAttempts q \<and>
     map_wf (wq_active q) \<and> wq_running q = int (length (wq_active q)) \<and>
     wq_running q \<le> wq_maxConcurrent q \<and> int (length (wq_waiting q)) \<le> wq_maxQueued q \<and>
     (\<forall>a. actorWaiting a q \<le> max 0 (wq_maxQueuedPerActor q))"

definition order_ok :: "'e BoundedWorkQueue \<Rightarrow> bool" where
  "order_ok q \<longleftrightarrow> first_calls q @ map snd (wq_waiting q) = [0..<wq_nextTask q] \<and>
     fst ` set (wq_active q) \<subseteq> set (first_calls q)"

text \<open>
  The attempts of a task are 1, 2, ..., up to the one it is in; it sleeps only before another
  attempt is allowed, for a delay that doubles each time.
\<close>

definition attempts_upto :: "nat \<Rightarrow> nat list" where
  "attempts_upto k = [1..<Suc k]"

definition attempt_ok :: "'e BoundedWorkQueue \<Rightarrow> nat \<Rightarrow> nat \<times> phase \<Rightarrow> bool" where
  "attempt_ok q t ap \<longleftrightarrow> attempts t q = attempts_upto (fst ap) \<and> 1 \<le> fst ap \<and>
     (case snd ap of
        Attempting \<Rightarrow> True
      | Sleeping d \<Rightarrow> int (fst ap) < wq_maxAttempts q \<and> d = wq_retryDelayMs q * 2 ^ (fst ap - 1))"

definition attempts_ok :: "'e BoundedWorkQueue \<Rightarrow> bool" where
  "attempts_ok q \<longleftrightarrow>
     (\<forall>t. \<exists>k. attempts t q = attempts_upto k \<and> int k \<le> wq_maxAttempts q) \<and>
     (\<forall>t ap. map_get (wq_active q) t = Some ap \<longrightarrow> attempt_ok q t ap)"

definition counts_ok :: "'e BoundedWorkQueue \<Rightarrow> bool" where
  "counts_ok q \<longleftrightarrow>
     int (wq_nextTask q) = wq_completed q + wq_failed q + wq_running q + int (length (wq_waiting q))"

definition queue_weak :: "'e BoundedWorkQueue \<Rightarrow> bool" where
  "queue_weak q \<longleftrightarrow> slots_ok q \<and> order_ok q \<and> attempts_ok q \<and> counts_ok q"

text \<open>No slot is left free while a task waits, and nobody waits for an idle queue.\<close>

definition work_conserving :: "'e BoundedWorkQueue \<Rightarrow> bool" where
  "work_conserving q \<longleftrightarrow> (wq_waiting q \<noteq> [] \<longrightarrow> wq_running q = wq_maxConcurrent q) \<and>
     (wq_idleWaiters q \<noteq> [] \<longrightarrow> 0 < wq_running q)"

definition queue_inv :: "'e BoundedWorkQueue \<Rightarrow> bool" where
  "queue_inv q \<longleftrightarrow> queue_weak q \<and> work_conserving q"

lemma attempts_upto_0 [simp]: "attempts_upto 0 = []"
  by (simp add: attempts_upto_def)

lemma attempts_upto_Suc: "attempts_upto k @ [Suc k] = attempts_upto (Suc k)"
  by (simp add: attempts_upto_def)

lemma slots_cong:
  "wq_maxConcurrent q' = wq_maxConcurrent q \<Longrightarrow> wq_maxQueued q' = wq_maxQueued q \<Longrightarrow>
   wq_maxAttempts q' = wq_maxAttempts q \<Longrightarrow> wq_maxQueuedPerActor q' = wq_maxQueuedPerActor q \<Longrightarrow>
   wq_active q' = wq_active q \<Longrightarrow> wq_running q' = wq_running q \<Longrightarrow> wq_waiting q' = wq_waiting q \<Longrightarrow>
   slots_ok q' = slots_ok q"
  by (simp add: slots_ok_def actorWaiting_def)

lemma order_cong:
  "wq_calls q' = wq_calls q \<Longrightarrow> wq_waiting q' = wq_waiting q \<Longrightarrow> wq_nextTask q' = wq_nextTask q \<Longrightarrow>
   wq_active q' = wq_active q \<Longrightarrow> order_ok q' = order_ok q"
  by (simp add: order_ok_def first_calls_def)

lemma attempt_cong:
  "wq_calls q' = wq_calls q \<Longrightarrow> wq_maxAttempts q' = wq_maxAttempts q \<Longrightarrow> wq_retryDelayMs q' = wq_retryDelayMs q \<Longrightarrow>
   attempt_ok q' t ap = attempt_ok q t ap"
  by (simp add: attempt_ok_def attempts_def cong: phase.case_cong)

lemma attempts_okD: "attempts_ok q \<Longrightarrow> map_get (wq_active q) t = Some ap \<Longrightarrow> attempt_ok q t ap"
  unfolding attempts_ok_def by blast

lemma attempts_ok_bound: "attempts_ok q \<Longrightarrow> \<exists>k. attempts t q = attempts_upto k \<and> int k \<le> wq_maxAttempts q"
  unfolding attempts_ok_def by blast

lemma attempts_okI:
  assumes "\<And>t. \<exists>k. attempts t q = attempts_upto k \<and> int k \<le> wq_maxAttempts q"
    and "\<And>t ap. map_get (wq_active q) t = Some ap \<Longrightarrow> attempt_ok q t ap"
  shows "attempts_ok q"
  using assms unfolding attempts_ok_def by blast

text \<open>The attempts stay right when active tasks are only dropped, or one is replaced by a good one.\<close>

lemma attempts_mono:
  assumes ok: "attempts_ok q" and same: "wq_calls q' = wq_calls q" "wq_maxAttempts q' = wq_maxAttempts q"
      "wq_retryDelayMs q' = wq_retryDelayMs q"
    and act: "\<And>t ap. map_get (wq_active q') t = Some ap \<Longrightarrow> map_get (wq_active q) t = Some ap \<or> attempt_ok q t ap"
  shows "attempts_ok q'"
proof (rule attempts_okI)
  show "\<exists>k. attempts t q' = attempts_upto k \<and> int k \<le> wq_maxAttempts q'" for t
    using attempts_ok_bound [OF ok, of t] same by (simp add: attempts_def)
  show "attempt_ok q' t ap" if "map_get (wq_active q') t = Some ap" for t ap
    using act [OF that] attempts_okD [OF ok, of t ap] attempt_cong [OF same, of t ap] by blast
qed

lemma attempts_cong:
  "wq_calls q' = wq_calls q \<Longrightarrow> wq_maxAttempts q' = wq_maxAttempts q \<Longrightarrow> wq_retryDelayMs q' = wq_retryDelayMs q \<Longrightarrow>
   wq_active q' = wq_active q \<Longrightarrow> attempts_ok q' = attempts_ok q"
  using attempts_mono [of q q'] attempts_mono [of q' q] by auto

lemma weak_cong:
  "wq_maxConcurrent q' = wq_maxConcurrent q \<Longrightarrow> wq_maxQueued q' = wq_maxQueued q \<Longrightarrow>
   wq_maxAttempts q' = wq_maxAttempts q \<Longrightarrow> wq_maxQueuedPerActor q' = wq_maxQueuedPerActor q \<Longrightarrow>
   wq_active q' = wq_active q \<Longrightarrow> wq_running q' = wq_running q \<Longrightarrow> wq_waiting q' = wq_waiting q \<Longrightarrow>
   wq_calls q' = wq_calls q \<Longrightarrow> wq_nextTask q' = wq_nextTask q \<Longrightarrow> wq_retryDelayMs q' = wq_retryDelayMs q \<Longrightarrow>
   wq_completed q' = wq_completed q \<Longrightarrow> wq_failed q' = wq_failed q \<Longrightarrow> queue_weak q' = queue_weak q"
  using slots_cong [of q' q] order_cong [of q' q] attempts_cong [of q' q] by (simp add: queue_weak_def counts_ok_def)

lemma queue_inv_new: "newBoundedWorkQueue options = Inr q \<Longrightarrow> queue_inv q"
  by (auto simp: newBoundedWorkQueue_def queue_inv_def queue_weak_def slots_ok_def order_ok_def attempts_ok_def
      counts_ok_def work_conserving_def actorWaiting_def first_calls_def attempts_def le_floor_iff
      intro!: exI [of _ 0] split: if_splits)

section \<open>Starting tasks\<close>

lemma first_calls_call: "first_calls (call_task t a q) = first_calls q @ (if a = 1 then [t] else [])"
  by (simp add: first_calls_def call_task_def)

lemma first_calls_nextTask [simp]: "first_calls (q\<lparr>wq_nextTask := n\<rparr>) = first_calls q"
  by (simp add: first_calls_def)

lemma attempts_call: "attempts s (call_task t a q) = attempts s q @ (if s = t then [a] else [])"
  by (simp add: attempts_def call_task_def)

text \<open>A call for a task with \<open>a - 1\<close> attempts so far, within the bound.\<close>

lemma attempts_ok_call:
  assumes ok: "attempts_ok q" and prev: "attempts t q = attempts_upto k" and k: "int (Suc k) \<le> wq_maxAttempts q"
  shows "attempts_ok (call_task t (Suc k) q)"
proof (rule attempts_okI)
  let ?q = "call_task t (Suc k) q"
  have t: "attempts t ?q = attempts_upto (Suc k)" using prev by (simp add: attempts_call attempts_upto_Suc)
  have same: "wq_maxAttempts ?q = wq_maxAttempts q" "wq_retryDelayMs ?q = wq_retryDelayMs q"
    by (simp_all add: call_task_def)
  show "\<exists>k. attempts s ?q = attempts_upto k \<and> int k \<le> wq_maxAttempts ?q" for s
    using attempts_ok_bound [OF ok, of s] t k same by (cases "s = t") (auto simp: attempts_call)
  show "attempt_ok ?q s ap" if ap: "map_get (wq_active ?q) s = Some ap" for s ap
  proof (cases "s = t")
    case True
    with ap have "ap = (Suc k, Attempting)" by (simp add: call_task_def js_simps)
    with True t show ?thesis by (simp add: attempt_ok_def)
  next
    case False
    with ap have "map_get (wq_active q) s = Some ap" by (simp add: call_task_def js_simps)
    with attempts_okD [OF ok this] False same show ?thesis by (simp add: attempt_ok_def attempts_call cong: phase.case_cong)
  qed
qed

lemma uncalled_no_attempts:
  assumes "attempts_ok q" "t \<notin> set (first_calls q)"
  shows "attempts t q = []"
proof -
  obtain k where k: "attempts t q = attempts_upto k" using attempts_ok_bound [OF assms(1)] by blast
  have "1 \<notin> set (attempts t q)" using assms(2) by (force simp: attempts_def first_calls_def)
  with k show ?thesis by (cases k) (auto simp: attempts_upto_def simp del: upt_Suc)
qed

text \<open>Starting the next task in order, with the waiting line and the counter adapted to it.\<close>

lemma weak_start:
  assumes "slots_ok q" "attempts_ok q" "counts_ok (q\<lparr>wq_running := wq_running q + 1\<rparr>)"
    and order: "first_calls q @ t # map snd (wq_waiting q) = [0..<wq_nextTask q]"
      "fst ` set (wq_active q) \<subseteq> set (first_calls q)"
    and room: "wq_running q < wq_maxConcurrent q"
  shows "queue_weak (start t q)"
proof -
  let ?q = "q\<lparr>wq_running := wq_running q + 1\<rparr>"
  have "distinct (first_calls q @ t # map snd (wq_waiting q))" unfolding order by simp
  then have new: "t \<notin> set (first_calls q)" by simp
  with order have absent: "t \<notin> fst ` set (wq_active q)" by auto
  have "attempts_ok ?q" by (rule attempts_mono [OF assms(2)]) simp_all
  moreover have "attempts t ?q = attempts_upto 0"
    using uncalled_no_attempts [OF assms(2) new] by (simp add: attempts_def)
  ultimately have "attempts_ok (start t q)"
    using attempts_ok_call [of ?q t 0] assms(1) by (simp add: slots_ok_def start_def)
  moreover have "slots_ok (start t q)"
    using assms(1) room absent by (simp add: slots_ok_def start_def call_task_def actorWaiting_def map_set_absent map_wf_def)
  moreover have "first_calls (start t q) = first_calls q @ [t]"
    by (simp add: start_def first_calls_call) (simp add: first_calls_def)
  then have "order_ok (start t q)" using order absent
    by (auto simp: order_ok_def) (auto simp: start_def call_task_def map_set_absent)
  ultimately show ?thesis using assms(3) by (simp add: queue_weak_def counts_ok_def start_def call_task_def)
qed

section \<open>Pumping\<close>

lemma pump_loop_idle [simp]:
  "wq_idleWaiters (pump_loop q) = wq_idleWaiters q" "wq_maxConcurrent (pump_loop q) = wq_maxConcurrent q"
  by (induction q rule: pump_loop.induct, subst pump_loop.simps, simp add: start_def call_task_def)+

lemma actorWaiting_tl: "wq_waiting q = w # ws \<Longrightarrow> actorWaiting a (q\<lparr>wq_waiting := ws\<rparr>) \<le> actorWaiting a q"
  by (simp add: actorWaiting_def)

lemma pump_loop_weak:
  assumes "queue_weak q"
  shows "queue_weak (pump_loop q) \<and>
    (wq_waiting (pump_loop q) \<noteq> [] \<longrightarrow> wq_running (pump_loop q) = wq_maxConcurrent q)"
  using assms
proof (induction q rule: pump_loop.induct)
  case (1 q)
  show ?case
  proof (cases "wq_running q < wq_maxConcurrent q \<and> wq_waiting q \<noteq> []")
    case True
    then obtain w ws where w: "wq_waiting q = w # ws" by (cases "wq_waiting q") auto
    let ?q = "q\<lparr>wq_waiting := ws\<rparr>"
    have "queue_weak (start (snd w) ?q)"
    proof (rule weak_start)
      show "slots_ok ?q" using 1(2) w actorWaiting_tl [OF w]
        by (auto simp: queue_weak_def slots_ok_def intro: order_trans)
      show "attempts_ok ?q"
        by (rule attempts_mono [of q]) (use 1(2) in \<open>simp_all add: queue_weak_def\<close>)
      show "counts_ok (?q\<lparr>wq_running := wq_running ?q + 1\<rparr>)" using 1(2) w by (simp add: queue_weak_def counts_ok_def)
    qed (use True 1(2) w in \<open>simp_all add: queue_weak_def order_ok_def first_calls_def\<close>)
    moreover have "pump_loop q = pump_loop (start (snd w) ?q)"
      using True w by (subst pump_loop.simps) simp
    ultimately show ?thesis using 1(1) [OF True] w by simp
  next
    case False
    then have "pump_loop q = q" by (subst pump_loop.simps) (rule if_not_P)
    with False 1(2) show ?thesis by (auto simp: queue_weak_def slots_ok_def)
  qed
qed

lemma weak_logs [simp]:
  "queue_weak (q\<lparr>wq_idleWaiters := w\<rparr>) = queue_weak q" "queue_weak (q\<lparr>wq_woken := x\<rparr>) = queue_weak q"
  "queue_weak (q\<lparr>wq_settled := y\<rparr>) = queue_weak q" "queue_weak (q\<lparr>wq_rejected := n\<rparr>) = queue_weak q"
  "queue_weak (q\<lparr>wq_nextWaiter := m\<rparr>) = queue_weak q"
  by (rule weak_cong; simp)+

lemma pump_inv:
  assumes "queue_weak q"
  shows "queue_inv (pump q)"
proof -
  let ?q = "pump_loop q"
  note ok = pump_loop_weak [OF assms]
  then have "0 \<le> wq_running ?q" "1 \<le> wq_maxConcurrent q" by (simp_all add: queue_weak_def slots_ok_def)
  with ok show ?thesis by (auto simp: queue_inv_def work_conserving_def pump_def Let_def)
qed

section \<open>Every event keeps the invariant\<close>

lemma inv_settled [simp]: "queue_inv (q\<lparr>wq_settled := y\<rparr>) = queue_inv q"
  by (simp add: queue_inv_def work_conserving_def)

lemma finish_inv [keeps]:
  assumes inv: "queue_inv q" and act: "map_get (wq_active q) t = Some ap"
  shows "queue_inv (finish t outcome q)"
proof -
  have present: "t \<in> fst ` set (wq_active q)" using act by (metis domI dom_map_of_conv_image_fst)
  from inv have weak: "queue_weak q" by (simp add: queue_inv_def)
  then have len: "Suc (length (map_delete t (wq_active q))) = length (wq_active q)"
    by (intro length_map_delete_present present) (simp add: queue_weak_def slots_ok_def)
  have sub: "fst ` set (map_delete t (wq_active q)) \<subseteq> fst ` set (wq_active q)"
    by (auto simp: AList.delete_eq)
  have "queue_weak (q\<lparr>wq_completed := c, wq_failed := f, wq_running := wq_running q - 1,
      wq_active := map_delete t (wq_active q)\<rparr>)" (is "queue_weak ?q")
    if "c + f = wq_completed q + wq_failed q + 1" for c f
  proof -
    have "attempts_ok ?q"
      by (rule attempts_mono [of q]) (use weak in \<open>simp_all add: queue_weak_def map_get_delete split: if_splits\<close>)
    moreover have "order_ok ?q" using weak subset_trans [OF sub]
      by (simp add: queue_weak_def order_ok_def first_calls_def)
    ultimately show ?thesis using weak len that
      by (simp add: queue_weak_def slots_ok_def counts_ok_def actorWaiting_def)
  qed
  from pump_inv [OF this, of "wq_completed q + 1" "wq_failed q"]
    pump_inv [OF this, of "wq_completed q" "wq_failed q + 1"]
  show ?thesis
    by (cases outcome) (simp_all add: finish_def Let_def)
qed

lemma active_attempt:
  assumes "queue_inv q" "map_get (wq_active q) t = Some ap"
  shows "attempt_ok q t ap"
  using assms by (simp add: queue_inv_def queue_weak_def attempts_okD)

lemma active_replaced:
  assumes inv: "queue_inv q" and act: "map_get (wq_active q) t = Some ap" and ok: "attempt_ok q t ap'"
  shows "queue_inv (q\<lparr>wq_active := map_set t ap' (wq_active q)\<rparr>)"
proof -
  have "t \<in> fst ` set (wq_active q)" using act by (metis domI dom_map_of_conv_image_fst)
  then have keys: "map_keys (map_set t ap' (wq_active q)) = map_keys (wq_active q)"
    by (simp add: update_keys)
  then have "length (map_set t ap' (wq_active q)) = length (wq_active q)" by (metis length_map)
  moreover have "fst ` set (map_set t ap' (wq_active q)) = fst ` set (wq_active q)"
    using keys by (metis set_map)
  moreover have "attempts_ok (q\<lparr>wq_active := map_set t ap' (wq_active q)\<rparr>)"
    by (rule attempts_mono [of q])
      (use inv ok in \<open>auto simp: queue_inv_def queue_weak_def map_get_set split: if_splits\<close>)
  ultimately show ?thesis using inv
    by (auto simp: queue_inv_def work_conserving_def queue_weak_def slots_ok_def order_ok_def
        counts_ok_def actorWaiting_def first_calls_def)
qed

lemma attemptSettled_inv [keeps]:
  assumes "queue_inv q"
  shows "queue_inv (attemptSettled t outcome q)"
proof (cases "map_get (wq_active q) t")
  case (Some ap)
  obtain a ph where ap: "ap = (a, ph)" by (cases ap)
  show ?thesis
  proof (cases "ph = Attempting")
    case True
    have "attempt_ok q t (a, Sleeping (wq_retryDelayMs q * 2 ^ (a - 1)))" if "int a < wq_maxAttempts q"
      using active_attempt [OF assms Some] that by (simp add: attempt_ok_def ap)
    with True Some ap assms show ?thesis
      by (auto simp: attemptSettled_def keeps not_le intro!: active_replaced [OF assms Some] split: sum.split)
  qed (use Some ap assms in \<open>auto simp: attemptSettled_def split: phase.split\<close>)
qed (use assms in \<open>simp add: attemptSettled_def\<close>)

lemma sleepOver_inv [keeps]:
  assumes inv: "queue_inv q"
  shows "queue_inv (sleepOver t q)"
proof (cases "map_get (wq_active q) t")
  case (Some ap)
  obtain a ph where ap: "ap = (a, ph)" by (cases ap)
  show ?thesis
  proof (cases ph)
    case (Sleeping d)
    have ok: "attempts t q = attempts_upto a" "1 \<le> a" "int (Suc a) \<le> wq_maxAttempts q"
      using active_attempt [OF inv Some] by (simp_all add: attempt_ok_def ap Sleeping)
    let ?q = "call_task t (Suc a) q"
    have "attempts_ok ?q"
      by (rule attempts_ok_call [OF _ ok(1) ok(3)]) (use inv in \<open>simp add: queue_inv_def queue_weak_def\<close>)
    moreover have "t \<in> fst ` set (wq_active q)" using Some by (metis domI dom_map_of_conv_image_fst)
    then have keys: "map_keys (map_set t (Suc a, Attempting) (wq_active q)) = map_keys (wq_active q)"
      by (simp add: update_keys)
    then have "length (wq_active ?q) = length (wq_active q)" "fst ` set (wq_active ?q) = fst ` set (wq_active q)"
      unfolding call_task_def by (simp_all, metis length_map, metis set_map)
    moreover have "first_calls ?q = first_calls q" using ok(2) by (simp add: first_calls_call)
    ultimately have "queue_inv ?q" using inv
      by (auto simp: queue_inv_def work_conserving_def queue_weak_def slots_ok_def order_ok_def
          counts_ok_def actorWaiting_def call_task_def)
    with Some ap Sleeping show ?thesis by (simp add: sleepOver_def)
  qed (use Some ap inv in \<open>simp add: sleepOver_def\<close>)
qed (use inv in \<open>simp add: sleepOver_def\<close>)

lemma submit_inv [keeps]:
  assumes inv: "queue_inv q"
  shows "queue_inv (snd (submit actor q))"
proof -
  from inv have weak: "queue_weak q" and wc: "work_conserving q" by (simp_all add: queue_inv_def)
  have started: "queue_inv (start (wq_nextTask q) (q\<lparr>wq_nextTask := wq_nextTask q + 1\<rparr>))"
    if room: "wq_running q < wq_maxConcurrent q"
  proof -
    have none: "wq_waiting q = []" using wc room by (auto simp: work_conserving_def)
    let ?q = "q\<lparr>wq_nextTask := wq_nextTask q + 1\<rparr>"
    have "slots_ok ?q = slots_ok q" "attempts_ok ?q = attempts_ok q" by (rule slots_cong attempts_cong; simp)+
    then have "queue_weak (start (wq_nextTask q) ?q)"
      by (intro weak_start)
        (use weak none room in \<open>auto simp: queue_weak_def order_ok_def counts_ok_def\<close>)
    moreover have "0 \<le> wq_running q" using weak by (simp add: queue_weak_def slots_ok_def)
    ultimately show ?thesis using none by (simp add: queue_inv_def work_conserving_def)
  qed
  moreover have "queue_inv (q\<lparr>wq_nextTask := wq_nextTask q + 1, wq_waiting := wq_waiting q @ [(qa_id actor, wq_nextTask q)]\<rparr>)"
    (is "queue_inv ?q") if "\<not> wq_running q < wq_maxConcurrent q" "int (length (wq_waiting q)) < wq_maxQueued q"
      "actorWaiting (qa_id actor) q < wq_maxQueuedPerActor q"
  proof -
    have "attempts_ok ?q = attempts_ok q" by (rule attempts_cong; simp)
    moreover have "slots_ok ?q" using weak that
      by (auto simp: queue_weak_def slots_ok_def actorWaiting_def)
    ultimately show ?thesis using weak wc that
      by (simp add: queue_inv_def work_conserving_def queue_weak_def order_ok_def counts_ok_def first_calls_def)
        (simp add: slots_ok_def)
  qed
  moreover have "queue_inv (q\<lparr>wq_rejected := wq_rejected q + 1\<rparr>)"
    using weak wc by (simp add: queue_inv_def work_conserving_def)
  ultimately show ?thesis using inv by (simp add: submit_def Let_def)
qed

lemma idle_inv [keeps]: "queue_inv q \<Longrightarrow> queue_inv (snd (idle q))"
  using length_0_conv [of "wq_active q"]
  by (auto simp: idle_def Let_def queue_inv_def work_conserving_def) (auto simp: queue_weak_def slots_ok_def)

lemma queue_step_inv: "queue_inv q \<Longrightarrow> queue_inv (queue_step ev q)"
  by (cases ev) (simp_all add: keeps)

interpretation queue: invariant_system queue_step queue_inv
  by unfold_locales (rule queue_step_inv)

section \<open>Waking the idle waiters\<close>

lemma pump_loop_woken [simp]: "wq_woken (pump_loop q) = wq_woken q"
  by (induction q rule: pump_loop.induct, subst pump_loop.simps, simp add: start_def call_task_def)

lemma pump_woken:
  "wq_woken (pump q) \<noteq> wq_woken q \<Longrightarrow>
    wq_running (pump q) = 0 \<and> wq_waiting (pump q) = [] \<and> wq_idleWaiters (pump q) = []"
  by (auto simp: pump_def Let_def split: if_splits)

lemma finish_pump:
  "\<exists>q'. wq_woken q' = wq_woken q \<and> finish t outcome q = (pump q')\<lparr>wq_settled := wq_settled (pump q') @ [(t, outcome)]\<rparr>"
proof -
  define q1 where "q1 = (case outcome of Inr _ \<Rightarrow> q\<lparr>wq_completed := wq_completed q + 1\<rparr>
    | Inl _ \<Rightarrow> q\<lparr>wq_failed := wq_failed q + 1\<rparr>)"
  have "wq_woken q1 = wq_woken q" by (simp add: q1_def split: sum.split)
  then show ?thesis unfolding finish_def Let_def q1_def [symmetric]
    by (intro exI [of _ "q1\<lparr>wq_running := wq_running q1 - 1, wq_active := map_delete t (wq_active q1)\<rparr>"]) simp
qed

lemma woken_when_idle:
  assumes "wq_woken (queue_step ev q) \<noteq> wq_woken q"
  shows "wq_running (queue_step ev q) = 0 \<and> wq_waiting (queue_step ev q) = [] \<and> wq_idleWaiters (queue_step ev q) = []"
proof -
  have "\<exists>t outcome. queue_step ev q = finish t outcome q" using assms
    by (cases ev) (auto simp: submit_def start_def call_task_def sleepOver_def idle_def attemptSettled_def Let_def
        split: if_splits option.splits phase.splits sum.splits)
  then obtain t outcome where "queue_step ev q = finish t outcome q" by blast
  with finish_pump [of q t outcome] obtain q' where "wq_woken q' = wq_woken q"
    "queue_step ev q = (pump q')\<lparr>wq_settled := wq_settled (pump q') @ [(t, outcome)]\<rparr>" by auto
  with assms pump_woken [of q'] show ?thesis by simp
qed

section \<open>Properties\<close>

definition sampleOptions :: "string BoundedWorkQueueOptions" where
  "sampleOptions = \<lparr>wo_name = ''reports'', wo_permission = TRADE_READ, wo_maxConcurrent = 1, wo_maxQueued = 2,
     wo_maxQueuedPerActor = None, wo_maxAttempts = Some 2, wo_retryDelayMs = None, wo_isRetryable = None,
     wo_retryAfterSeconds = None\<rparr>"

definition sampleQueue :: "string BoundedWorkQueue" where
  "sampleQueue = projr (newBoundedWorkQueue sampleOptions)"

lemma sampleQueue_new: "newBoundedWorkQueue sampleOptions = Inr sampleQueue"
  by (simp add: sampleQueue_def newBoundedWorkQueue_def sampleOptions_def isInteger_def)

text \<open>
  C12.  Backpressure bounds in every interleaving: at most \<open>maxConcurrent\<close> tasks run, at most
  \<open>maxQueued\<close> wait, no actor holds more than its share of the waiting slots, no slot stays free
  while a task waits, and every accepted task is completed, failed, running or waiting.
\<close>

theorem queue_bounds:
  assumes "newBoundedWorkQueue options = Inr q0" and "q = run queue_step evs q0"
  shows "0 \<le> wq_running q \<and> wq_running q \<le> wq_maxConcurrent q \<and> int (length (wq_waiting q)) \<le> wq_maxQueued q \<and>
    actorWaiting a q \<le> max 0 (wq_maxQueuedPerActor q) \<and>
    (wq_waiting q = [] \<or> wq_running q = wq_maxConcurrent q) \<and>
    int (wq_nextTask q) = wq_completed q + wq_failed q + wq_running q + int (length (wq_waiting q))"
proof -
  have "queue_inv q" unfolding assms(2) by (rule queue.run_inv [OF queue_inv_new [OF assms(1)]])
  then show ?thesis
    by (auto simp: queue_inv_def queue_weak_def slots_ok_def work_conserving_def counts_ok_def)
qed

definition userActor :: QueueActor where
  "userActor = \<lparr>qa_id = ''u'', qa_roles = [USER]\<rparr>"

theorem queue_bounds_witness:
  "wq_running (run queue_step [Ev_submit userActor, Ev_submit userActor] sampleQueue) \<le>
     wq_maxConcurrent (run queue_step [Ev_submit userActor, Ev_submit userActor] sampleQueue)"
  using queue_bounds [OF sampleQueue_new refl] by blast

text \<open>
  C32.  Tasks are started in the order they were accepted and none is lost: the tasks in the order
  of their first call, followed by the waiting line, are exactly the accepted tasks.
\<close>

theorem queue_fifo:
  assumes "newBoundedWorkQueue options = Inr q0"
  shows "first_calls (run queue_step evs q0) @ map snd (wq_waiting (run queue_step evs q0)) =
    [0..<wq_nextTask (run queue_step evs q0)]"
  using queue.run_inv [OF queue_inv_new [OF assms], of evs]
  by (simp add: queue_inv_def queue_weak_def order_ok_def)

lemmas sampleQueue_defs = sampleQueue_def newBoundedWorkQueue_def sampleOptions_def isInteger_def
  submit_def start_def call_task_def userActor_def hasPermission_def actorWaiting_def

theorem queue_fifo_witness:
  "first_calls (run queue_step [Ev_submit userActor, Ev_submit userActor] sampleQueue) @ [1] = [0, 1]"
  using queue_fifo [OF sampleQueue_new, of "[Ev_submit userActor, Ev_submit userActor]"]
  by (simp add: sampleQueue_defs)

text \<open>
  Retries: the attempts of a task are numbered 1, 2, 3 and so on without gaps, there are never
  more than \<open>maxAttempts\<close> of them, and a task waiting for its next attempt after attempt \<open>n\<close> sleeps
  for \<open>retryDelayMs * 2 ^ (n - 1)\<close>.
\<close>

theorem queue_attempts:
  assumes "newBoundedWorkQueue options = Inr q0" and "q = run queue_step evs q0"
  shows "(\<exists>k. attempts t q = [1..<Suc k] \<and> int k \<le> wq_maxAttempts q) \<and>
    (map_get (wq_active q) t = Some (n, Sleeping d) \<longrightarrow>
       attempts t q = [1..<Suc n] \<and> int n < wq_maxAttempts q \<and> d = wq_retryDelayMs q * 2 ^ (n - 1))"
proof -
  have "queue_inv q" unfolding assms(2) by (rule queue.run_inv [OF queue_inv_new [OF assms(1)]])
  then have ok: "attempts_ok q" by (simp add: queue_inv_def queue_weak_def)
  from attempts_ok_bound [OF ok, of t] attempts_okD [OF ok, of t "(n, Sleeping d)"] show ?thesis
    by (auto simp: attempt_ok_def attempts_upto_def simp del: upt_Suc)
qed

theorem queue_attempts_witness:
  "\<exists>k. attempts 0 (run queue_step [Ev_submit userActor, Ev_attempt 0 (Inl ''e''), Ev_sleepOver 0] sampleQueue) = [1..<Suc k] \<and>
     int k \<le> wq_maxAttempts (run queue_step [Ev_submit userActor, Ev_attempt 0 (Inl ''e''), Ev_sleepOver 0] sampleQueue)"
  by (rule queue_attempts [OF sampleQueue_new refl, THEN conjunct1])

text \<open>
  A submission is answered by exactly one of: 403 when the actor lacks the permission, 429 when
  all slots are taken and the waiting line or the actor's share of it is full, and otherwise the
  number of the task, which is then running or waiting; a refused submission only changes the
  counter of rejections.
\<close>

theorem submit_outcome:
  assumes "newBoundedWorkQueue options = Inr q0" and "q = run queue_step evs q0"
  shows "case submit actor q of
      (Inr t, q') \<Rightarrow> t = wq_nextTask q \<and> hasPermission (qa_roles actor) (wq_permission q) \<and>
        (map_get (wq_active q') t = Some (1, Attempting) \<or> (qa_id actor, t) \<in> set (wq_waiting q'))
    | (Inl (ForbiddenException m), q') \<Rightarrow> \<not> hasPermission (qa_roles actor) (wq_permission q) \<and> q' = q
    | (Inl (RateLimitException m s), q') \<Rightarrow> s = wq_retryAfterSeconds q \<and> wq_running q = wq_maxConcurrent q \<and>
        (int (length (wq_waiting q)) = wq_maxQueued q \<or> actorWaiting (qa_id actor) q \<ge> wq_maxQueuedPerActor q) \<and>
        q' = q\<lparr>wq_rejected := wq_rejected q + 1\<rparr>
    | (Inl (RangeError m), q') \<Rightarrow> False"
proof -
  have "queue_inv q" unfolding assms(2) by (rule queue.run_inv [OF queue_inv_new [OF assms(1)]])
  then have "wq_running q \<le> wq_maxConcurrent q" "int (length (wq_waiting q)) \<le> wq_maxQueued q"
    by (simp_all add: queue_inv_def queue_weak_def slots_ok_def)
  then show ?thesis by (auto simp: submit_def Let_def start_def call_task_def js_simps)
qed

theorem submit_outcome_witness:
  "fst (submit \<lparr>qa_id = ''x'', qa_roles = []\<rparr> sampleQueue) \<noteq> Inr 0"
  using submit_outcome [OF sampleQueue_new run_simps(1) [symmetric], of "\<lparr>qa_id = ''x'', qa_roles = []\<rparr>"]
  by (auto simp: hasPermission_def split: prod.splits)

text \<open>
  The promise of \<open>idle\<close> is kept: a waiter is woken only when nothing runs or waits, and
  while a waiter is still asleep there is work left whose end will wake it.
\<close>

theorem idle_waiters:
  assumes "newBoundedWorkQueue options = Inr q0" and "q = run queue_step evs q0"
  shows "(wq_woken (queue_step ev q) = wq_woken q \<or>
      wq_running (queue_step ev q) = 0 \<and> wq_waiting (queue_step ev q) = [] \<and> wq_idleWaiters (queue_step ev q) = []) \<and>
    (wq_idleWaiters q = [] \<or> 0 < wq_running q)"
proof -
  have "queue_inv q" unfolding assms(2) by (rule queue.run_inv [OF queue_inv_new [OF assms(1)]])
  then show ?thesis using woken_when_idle [of ev q] by (auto simp: queue_inv_def work_conserving_def)
qed

theorem idle_waiters_witness:
  "wq_woken (run queue_step [Ev_submit userActor, Ev_idle, Ev_attempt 0 (Inr ())] sampleQueue) = [0] \<and>
   wq_running (run queue_step [Ev_submit userActor, Ev_idle, Ev_attempt 0 (Inr ())] sampleQueue) = 0"
proof -
  let ?q = "run queue_step [Ev_submit userActor, Ev_idle] sampleQueue"
  have w: "wq_woken (queue_step (Ev_attempt 0 (Inr ())) ?q) = [0]" "wq_woken ?q = []"
    by (simp_all add: sampleQueue_defs idle_def attemptSettled_def finish_def pump_def pump_loop.simps)
  then show ?thesis
    using idle_waiters [OF sampleQueue_new refl, of "Ev_attempt 0 (Inr ())" "[Ev_submit userActor, Ev_idle]"] by simp
qed

end
