(* ===== verification/State_Machine.thy ===== *)
theory State_Machine
  imports Trellis_Prelude
begin

text \<open>
  \<open>src/common/lifecycle/deterministic-state-machine.ts\<close>: the generic lifecycle state machine with
  guarded transitions, a transition index built from the definition, and an audit trail from which
  the last transition can be undone.  States are strings, as in the source.  A method returns its
  result (\<open>Inl\<close> an exception) with the new machine; the clock readings of the audit entries and the
  results of the guards are inputs.  A method is one step: its awaits only separate the evaluation
  of guards from the writing of audit entries.
\<close>

section \<open>Definitions of machines\<close>

text \<open>
  The fields of \<open>state-machine.interface.ts\<close> that the record machines and the lifecycle service use
  beside the ones declared here are included in the metadata, the context and the rules.
\<close>

record StateMetadata =
  md_state :: "string option"
  md_displayName :: "string option"
  md_isTerminal :: "bool option"
  md_isLocked :: "bool option"
  md_label :: "string option"
  md_description :: "string option"

text \<open>What a guard returns: \<open>false\<close>, a string, anything else, or an exception.\<close>

datatype guard_result = Guard_pass | Guard_false | Guard_reason string | Guard_throws string

record TransitionContext =
  tc_reason :: "string option"
  tc_actorId :: "string option"
  tc_actorRole :: "string option"
  tc_userId :: "string option"

datatype rule_from = From_one string | From_many "string list"

record TransitionRule =
  tr_from :: rule_from
  tr_to :: string
  tr_guard :: "(TransitionContext option \<Rightarrow> guard_result) option"
  tr_description :: "string option"

record StateMachineDefinition =
  sd_name :: string
  sd_initialState :: string
  sd_states :: "(string, StateMetadata) jsmap"
  sd_transitions :: "TransitionRule list"

record TransitionEvaluationResult =
  te_allowed :: bool
  te_fromState :: string
  te_toState :: string
  te_reason :: "string option"
  te_allowedTransitions :: "string list"
  te_isTerminal :: bool

record InvalidStateTransitionDetails =
  id_stateMachineName :: string
  id_resourceType :: string
  id_resourceId :: "string option"
  id_currentState :: string
  id_attemptedState :: string
  id_allowedTransitions :: "string list"
  id_reason :: "string option"

datatype sm_error =
    DefinitionError string
  | InvalidStateTransitionException InvalidStateTransitionDetails
  | GuardError string
  | ReferenceError string

datatype audit_kind = Kind_evaluation | Kind_transition

record StateMachineAuditEntry =
  ae_sequence :: int
  ae_timestamp :: string
  ae_kind :: audit_kind
  ae_fromState :: string
  ae_toState :: string
  ae_allowed :: bool
  ae_reason :: "string option"
  ae_resourceId :: "string option"
  ae_resourceType :: "string option"
  ae_actor :: "string option"
  ae_contextReason :: "string option"

record StateMachineAuditQuery =
  aq_resourceId :: "string option"
  aq_resourceType :: "string option"
  aq_kind :: "audit_kind option"
  aq_fromState :: "string option"
  aq_toState :: "string option"
  aq_allowed :: "bool option"

record UndoResult =
  ur_undo :: bool
  ur_restoredState :: string
  ur_revertedEntry :: "StateMachineAuditEntry option"
  ur_reason :: "string option"

record TransitionMetadata =
  tm_resourceId :: "string option"
  tm_resourceType :: "string option"
  tm_actor :: "string option"

record DeterministicStateMachine =
  sm_definition :: StateMachineDefinition
  sm_transitionIndex :: "(string, TransitionRule list) jsmap"
  sm_auditTrail :: "StateMachineAuditEntry list"
  sm_auditSequence :: int

section \<open>Construction\<close>

definition fromStates :: "TransitionRule \<Rightarrow> string list" where
  "fromStates rule = (case tr_from rule of From_one s \<Rightarrow> [s] | From_many ss \<Rightarrow> ss)"

fun index_rule ::
  "StateMachineDefinition \<Rightarrow> TransitionRule \<Rightarrow> string list \<Rightarrow> (string, TransitionRule list) jsmap \<Rightarrow>
   (sm_error, (string, TransitionRule list) jsmap) result" where
  "index_rule d rule [] idx = Inr idx"
| "index_rule d rule (f # fs) idx =
     (if \<not> map_has (sd_states d) f
      then Inl (DefinitionError (''State machine \"'' @ sd_name d @ ''\" definition error: 'from' state \"''
             @ f @ ''\" is not declared in states.''))
      else if \<not> map_has (sd_states d) (tr_to rule)
      then Inl (DefinitionError (''State machine \"'' @ sd_name d @ ''\" definition error: 'to' state \"''
             @ tr_to rule @ ''\" is not declared in states.''))
      else index_rule d rule fs
             (map_set f ((case map_get idx f of None \<Rightarrow> [] | Some rs \<Rightarrow> rs) @ [rule]) idx))"

fun index_rules ::
  "StateMachineDefinition \<Rightarrow> TransitionRule list \<Rightarrow> (string, TransitionRule list) jsmap \<Rightarrow>
   (sm_error, (string, TransitionRule list) jsmap) result" where
  "index_rules d [] idx = Inr idx"
| "index_rules d (rule # rules) idx =
     (case index_rule d rule (fromStates rule) idx of
        Inl e \<Rightarrow> Inl e
      | Inr idx' \<Rightarrow> index_rules d rules idx')"

definition buildIndex :: "StateMachineDefinition \<Rightarrow> (sm_error, (string, TransitionRule list) jsmap) result" where
  "buildIndex d =
     index_rules d (sd_transitions d) (fold (\<lambda>state. map_set state []) (map_keys (sd_states d)) [])"

definition newStateMachine :: "StateMachineDefinition \<Rightarrow> (sm_error, DeterministicStateMachine) result" where
  "newStateMachine d =
     (case buildIndex d of
        Inl e \<Rightarrow> Inl e
      | Inr idx \<Rightarrow> Inr \<lparr>sm_definition = d, sm_transitionIndex = idx, sm_auditTrail = [], sm_auditSequence = 0\<rparr>)"

section \<open>Queries\<close>

definition getStates :: "DeterministicStateMachine \<Rightarrow> string list" where
  "getStates m = map_keys (sd_states (sm_definition m))"

definition getStateMetadata :: "DeterministicStateMachine \<Rightarrow> string \<Rightarrow> StateMetadata option" where
  "getStateMetadata m state = map_get (sd_states (sm_definition m)) state"

definition isTerminal :: "DeterministicStateMachine \<Rightarrow> string \<Rightarrow> bool" where
  "isTerminal m state =
     (case map_get (sd_states (sm_definition m)) state of
        None \<Rightarrow> False
      | Some md \<Rightarrow> (case md_isTerminal md of None \<Rightarrow> False | Some b \<Rightarrow> b))"

definition isLocked :: "DeterministicStateMachine \<Rightarrow> string \<Rightarrow> bool" where
  "isLocked m state =
     (case map_get (sd_states (sm_definition m)) state of
        None \<Rightarrow> False
      | Some md \<Rightarrow> (case md_isLocked md of None \<Rightarrow> False | Some b \<Rightarrow> b))"

definition rulesFrom :: "DeterministicStateMachine \<Rightarrow> string \<Rightarrow> TransitionRule list" where
  "rulesFrom m fromState = (case map_get (sm_transitionIndex m) fromState of None \<Rightarrow> [] | Some rs \<Rightarrow> rs)"

definition stateOrder :: "string list \<Rightarrow> (string, int) jsmap" where
  "stateOrder declared = fold (\<lambda>(i, s). map_set s (int i)) (enumerate 0 declared) []"

text \<open>The position of a state, \<open>Number.MAX_SAFE_INTEGER\<close> when it is not declared.\<close>

definition orderOf :: "string list \<Rightarrow> string \<Rightarrow> int" where
  "orderOf declared s = (case map_get (stateOrder declared) s of None \<Rightarrow> 9007199254740991 | Some i \<Rightarrow> i)"

definition order_le :: "string list \<Rightarrow> string \<Rightarrow> string \<Rightarrow> bool" where
  "order_le declared a b =
     (if orderOf declared a \<noteq> orderOf declared b then orderOf declared a \<le> orderOf declared b else string_le a b)"

definition getAllowedTransitions :: "DeterministicStateMachine \<Rightarrow> string \<Rightarrow> string list" where
  "getAllowedTransitions m fromState =
     js_sort (order_le (getStates m)) (js_set (map tr_to (rulesFrom m fromState)))"

definition canTransition :: "DeterministicStateMachine \<Rightarrow> string \<Rightarrow> string \<Rightarrow> bool" where
  "canTransition m fromState toState =
     (if fromState = toState then True
      else if isTerminal m fromState then False
      else filter (\<lambda>r. tr_to r = toState) (rulesFrom m fromState) \<noteq> [])"

section \<open>Audit\<close>

text \<open>
  The message of the warning for a rejected event names an undeclared variable \<open>kead\<close>, so
  \<open>recordAudit\<close> throws a \<open>ReferenceError\<close> there, after the entry has been pushed.
\<close>

definition recordAudit ::
  "audit_kind \<Rightarrow> string \<Rightarrow> string \<Rightarrow> bool \<Rightarrow> TransitionContext option \<Rightarrow> TransitionMetadata option \<Rightarrow> string option \<Rightarrow>
   string \<Rightarrow> DeterministicStateMachine \<Rightarrow> (sm_error, unit) result \<times> DeterministicStateMachine" where
  "recordAudit kind fromState toState allowed ctx md reason now m =
     (let sq = sm_auditSequence m + 1;
          entry = \<lparr>ae_sequence = sq, ae_timestamp = now, ae_kind = kind, ae_fromState = fromState,
            ae_toState = toState, ae_allowed = allowed, ae_reason = reason,
            ae_resourceId = Option.bind md tm_resourceId, ae_resourceType = Option.bind md tm_resourceType,
            ae_actor = Option.bind md tm_actor, ae_contextReason = Option.bind ctx tc_reason\<rparr>;
          m1 = m\<lparr>sm_auditSequence := sq, sm_auditTrail := sm_auditTrail m @ [entry]\<rparr>
      in (if \<not> allowed then Inl (ReferenceError ''kead is not defined'') else Inr (), m1))"

section \<open>Transitions\<close>

fun eval_guards :: "TransitionRule list \<Rightarrow> TransitionContext option \<Rightarrow> guard_result" where
  "eval_guards [] ctx = Guard_pass"
| "eval_guards (rule # rules) ctx =
     (case tr_guard rule of
        None \<Rightarrow> eval_guards rules ctx
      | Some guard \<Rightarrow> (case guard ctx of Guard_pass \<Rightarrow> eval_guards rules ctx | res \<Rightarrow> res))"

text \<open>A rejection: the entry is recorded, then the result is returned.\<close>

definition reject ::
  "string \<Rightarrow> string \<Rightarrow> string \<Rightarrow> bool \<Rightarrow> TransitionContext option \<Rightarrow> TransitionMetadata option \<Rightarrow> string \<Rightarrow>
   DeterministicStateMachine \<Rightarrow> (sm_error, TransitionEvaluationResult) result \<times> DeterministicStateMachine" where
  "reject fromState toState reason terminal ctx md now m =
     (case recordAudit Kind_evaluation fromState toState False ctx md (Some reason) now m of
        (Inl e, m1) \<Rightarrow> (Inl e, m1)
      | (Inr _, m1) \<Rightarrow> (Inr \<lparr>te_allowed = False, te_fromState = fromState, te_toState = toState, te_reason = Some reason,
            te_allowedTransitions = getAllowedTransitions m fromState, te_isTerminal = terminal\<rparr>, m1))"

definition accept ::
  "string \<Rightarrow> string \<Rightarrow> bool \<Rightarrow> TransitionContext option \<Rightarrow> TransitionMetadata option \<Rightarrow> string \<Rightarrow>
   DeterministicStateMachine \<Rightarrow> (sm_error, TransitionEvaluationResult) result \<times> DeterministicStateMachine" where
  "accept fromState toState terminal ctx md now m =
     (case recordAudit Kind_evaluation fromState toState True ctx md None now m of
        (Inl e, m1) \<Rightarrow> (Inl e, m1)
      | (Inr _, m1) \<Rightarrow> (Inr \<lparr>te_allowed = True, te_fromState = fromState, te_toState = toState, te_reason = None,
            te_allowedTransitions = getAllowedTransitions m fromState, te_isTerminal = terminal\<rparr>, m1))"

definition evaluateTransition ::
  "string \<Rightarrow> string \<Rightarrow> TransitionContext option \<Rightarrow> TransitionMetadata option \<Rightarrow> string \<Rightarrow>
   DeterministicStateMachine \<Rightarrow> (sm_error, TransitionEvaluationResult) result \<times> DeterministicStateMachine" where
  "evaluateTransition fromState toState ctx md now m =
     (if fromState = toState then accept fromState toState (isTerminal m fromState) ctx md now m
      else if isTerminal m fromState
      then reject fromState toState
             (''State \"'' @ fromState @ ''\" is terminal and cannot transition to any other state'') True ctx md now m
      else let rules = filter (\<lambda>r. tr_to r = toState) (rulesFrom m fromState) in
        if rules = []
        then reject fromState toState
               (''No transition defined from \"'' @ fromState @ ''\" to \"'' @ toState @ ''\"'') False ctx md now m
        else case eval_guards rules ctx of
            Guard_throws e \<Rightarrow> (Inl (GuardError e), m)
          | Guard_false \<Rightarrow> reject fromState toState
              (''Transition guard rejected transition from \"'' @ fromState @ ''\" to \"'' @ toState @ ''\"'') False ctx md now m
          | Guard_reason s \<Rightarrow> reject fromState toState s False ctx md now m
          | Guard_pass \<Rightarrow> accept fromState toState False ctx md now m)"

definition assertCanTransition ::
  "string \<Rightarrow> string \<Rightarrow> TransitionContext option \<Rightarrow> TransitionMetadata option \<Rightarrow> string \<Rightarrow>
   DeterministicStateMachine \<Rightarrow> (sm_error, unit) result \<times> DeterministicStateMachine" where
  "assertCanTransition fromState toState ctx md now m =
     (case evaluateTransition fromState toState ctx md now m of
        (Inl e, m1) \<Rightarrow> (Inl e, m1)
      | (Inr evaluation, m1) \<Rightarrow>
          (if \<not> te_allowed evaluation
           then Inl (InvalidStateTransitionException \<lparr>id_stateMachineName = sd_name (sm_definition m),
             id_resourceType = (case Option.bind md tm_resourceType of None \<Rightarrow> sd_name (sm_definition m) | Some s \<Rightarrow> s),
             id_resourceId = Option.bind md tm_resourceId, id_currentState = fromState, id_attemptedState = toState,
             id_allowedTransitions = te_allowedTransitions evaluation, id_reason = te_reason evaluation\<rparr>)
           else Inr (), m1))"

definition transition ::
  "string \<Rightarrow> string \<Rightarrow> TransitionContext option \<Rightarrow> TransitionMetadata option \<Rightarrow> string \<Rightarrow> string \<Rightarrow>
   DeterministicStateMachine \<Rightarrow> (sm_error, string) result \<times> DeterministicStateMachine" where
  "transition fromState toState ctx md now1 now2 m =
     (case assertCanTransition fromState toState ctx md now1 m of
        (Inl e, m1) \<Rightarrow> (Inl e, m1)
      | (Inr _, m1) \<Rightarrow>
          (case recordAudit Kind_transition fromState toState True ctx md None now2 m1 of
             (Inl e, m2) \<Rightarrow> (Inl e, m2)
           | (Inr _, m2) \<Rightarrow> (Inr toState, m2)))"

section \<open>The audit trail\<close>

definition field_matches :: "'a option \<Rightarrow> 'a option \<Rightarrow> bool" where
  "field_matches q v \<longleftrightarrow> q = None \<or> v = q"

definition getAuditTrail :: "StateMachineAuditQuery \<Rightarrow> DeterministicStateMachine \<Rightarrow> StateMachineAuditEntry list" where
  "getAuditTrail query m = filter (\<lambda>entry.
     field_matches (aq_resourceId query) (ae_resourceId entry) \<and>
     field_matches (aq_resourceType query) (ae_resourceType entry) \<and>
     field_matches (aq_kind query) (Some (ae_kind entry)) \<and>
     field_matches (aq_fromState query) (Some (ae_fromState entry)) \<and>
     field_matches (aq_toState query) (Some (ae_toState entry)) \<and>
     field_matches (aq_allowed query) (Some (ae_allowed entry))) (sm_auditTrail m)"

definition undo_candidates :: "string option \<Rightarrow> DeterministicStateMachine \<Rightarrow> StateMachineAuditEntry list" where
  "undo_candidates resourceId m = filter (\<lambda>entry.
     ae_kind entry = Kind_transition \<and> ae_allowed entry \<and> field_matches resourceId (ae_resourceId entry)) (sm_auditTrail m)"

definition undoContext :: "TransitionContext option" where
  "undoContext = Some \<lparr>tc_reason = Some ''undo'', tc_actorId = None, tc_actorRole = None, tc_userId = None\<rparr>"

text \<open>\<open>metadata\<close> has the fields \<open>resourceType\<close> and \<open>actor\<close> only.\<close>

definition undoLastTransition ::
  "string option \<Rightarrow> (string option \<times> string option) option \<Rightarrow> string \<Rightarrow>
   DeterministicStateMachine \<Rightarrow> (sm_error, UndoResult) result \<times> DeterministicStateMachine" where
  "undoLastTransition resourceId md now m =
     (let candidates = undo_candidates resourceId m in
      if candidates = []
      then (Inr \<lparr>ur_undo = False, ur_restoredState = sd_initialState (sm_definition m), ur_revertedEntry = None,
              ur_reason = Some ''No committed transition to undo''\<rparr>, m)
      else let entry = last candidates in
        if isTerminal m (ae_toState entry)
        then (Inr \<lparr>ur_undo = False, ur_restoredState = ae_toState entry, ur_revertedEntry = Some entry,
                ur_reason = Some (''Cannot undo transition into terminal state \"'' @ ae_toState entry @ ''\"'')\<rparr>, m)
        else if \<not> canTransition m (ae_toState entry) (ae_fromState entry)
        then (Inr \<lparr>ur_undo = False, ur_restoredState = ae_toState entry, ur_revertedEntry = Some entry,
                ur_reason = Some (''Reverse transition from \"'' @ ae_toState entry @ ''\" to \"''
                  @ ae_fromState entry @ ''\" is not allowed'')\<rparr>, m)
        else case recordAudit Kind_transition (ae_toState entry) (ae_fromState entry) True
               undoContext
               (Some \<lparr>tm_resourceId = ae_resourceId entry,
                  tm_resourceType = (case Option.bind md fst of None \<Rightarrow> ae_resourceType entry | Some s \<Rightarrow> Some s),
                  tm_actor = Option.bind md snd\<rparr>) None now m of
            (Inl e, m1) \<Rightarrow> (Inl e, m1)
          | (Inr _, m1) \<Rightarrow> (Inr \<lparr>ur_undo = True, ur_restoredState = ae_fromState entry,
              ur_revertedEntry = Some entry, ur_reason = None\<rparr>, m1))"

datatype machine_op =
    Op_evaluate string string "TransitionContext option" "TransitionMetadata option" string
  | Op_transition string string "TransitionContext option" "TransitionMetadata option" string string
  | Op_undo "string option" "(string option \<times> string option) option" string

fun machine_step :: "machine_op \<Rightarrow> DeterministicStateMachine \<Rightarrow> DeterministicStateMachine" where
  "machine_step (Op_evaluate f t ctx md now) m = snd (evaluateTransition f t ctx md now m)"
| "machine_step (Op_transition f t ctx md now1 now2) m = snd (transition f t ctx md now1 now2 m)"
| "machine_step (Op_undo rid md now) m = snd (undoLastTransition rid md now m)"

section \<open>The transition index\<close>

text \<open>
  The specification of the index: the rules that list the state among their sources, in declaration
  order; a definition is well formed when every state its rules name is declared.
\<close>

definition rules_spec :: "StateMachineDefinition \<Rightarrow> string \<Rightarrow> TransitionRule list" where
  "rules_spec d s = concat (map (\<lambda>r. map (\<lambda>_. r) (filter (\<lambda>f. f = s) (fromStates r))) (sd_transitions d))"

definition declared :: "StateMachineDefinition \<Rightarrow> bool" where
  "declared d \<longleftrightarrow> list_all (\<lambda>r. list_all (\<lambda>f. map_has (sd_states d) f \<and> map_has (sd_states d) (tr_to r)) (fromStates r))
     (sd_transitions d)"

definition look :: "(string, TransitionRule list) jsmap \<Rightarrow> string \<Rightarrow> TransitionRule list" where
  "look idx s = (case map_get idx s of None \<Rightarrow> [] | Some rs \<Rightarrow> rs)"

lemma index_rule_look:
  "index_rule d r fs idx = Inr idx' \<Longrightarrow> look idx' s = look idx s @ map (\<lambda>_. r) (filter (\<lambda>f. f = s) fs)"
  by (induction d r fs idx rule: index_rule.induct) (auto simp: look_def js_simps split: if_splits)

lemma index_rules_look:
  "index_rules d rs idx = Inr idx' \<Longrightarrow>
    look idx' s = look idx s @ concat (map (\<lambda>r. map (\<lambda>_. r) (filter (\<lambda>f. f = s) (fromStates r))) rs)"
proof (induction rs arbitrary: idx)
  case (Cons r rs)
  then show ?case by (auto simp: index_rule_look split: sum.splits)
qed simp

lemma index_rule_ok:
  "isl (index_rule d r fs idx) \<longleftrightarrow> \<not> list_all (\<lambda>f. map_has (sd_states d) f \<and> map_has (sd_states d) (tr_to r)) fs"
  by (induction d r fs idx rule: index_rule.induct) auto

lemma index_rules_ok:
  "isl (index_rules d rs idx) \<longleftrightarrow>
    \<not> list_all (\<lambda>r. list_all (\<lambda>f. map_has (sd_states d) f \<and> map_has (sd_states d) (tr_to r)) (fromStates r)) rs"
proof (induction rs arbitrary: idx)
  case (Cons r rs)
  show ?case
  proof (cases "index_rule d r (fromStates r) idx")
    case (Inl e)
    with index_rule_ok [of d r "fromStates r" idx] show ?thesis by simp
  next
    case (Inr idx')
    with index_rule_ok [of d r "fromStates r" idx] Cons.IH [of idx'] show ?thesis by simp
  qed
qed simp

lemma look_empty: "look (fold (\<lambda>state. map_set state []) ss []) s = []"
  using jsm.get_put_all [of "[]" "[] :: TransitionRule list" ss s] by (simp add: look_def split: option.split)

lemma rulesFrom_look: "rulesFrom m s = look (sm_transitionIndex m) s"
  by (simp add: rulesFrom_def look_def)

lemma newStateMachine_index:
  assumes "newStateMachine d = Inr m"
  shows "rulesFrom m s = rules_spec d s" "sm_definition m = d" "sm_auditTrail m = []" "sm_auditSequence m = 0"
  using assms index_rules_look [of d "sd_transitions d" _ _ s]
  by (auto simp: newStateMachine_def buildIndex_def rulesFrom_look rules_spec_def look_empty split: sum.splits)

lemma newStateMachine_ok: "(\<exists>m. newStateMachine d = Inr m) \<longleftrightarrow> declared d"
proof -
  have "(\<exists>m. newStateMachine d = Inr m) \<longleftrightarrow> \<not> isl (buildIndex d)"
    by (auto simp: newStateMachine_def split: sum.split)
  then show ?thesis unfolding buildIndex_def index_rules_ok declared_def by simp
qed

lemma set_rules_spec: "set (rules_spec d s) = {r \<in> set (sd_transitions d). s \<in> set (fromStates r)}"
  by (auto simp: rules_spec_def)

section \<open>Declaration order\<close>

lemma stateOrder_absent:
  "s \<notin> set xs \<Longrightarrow> map_get (fold (\<lambda>(i, s). map_set s (int i)) (enumerate n xs) m) s = map_get m s"
  by (induction xs arbitrary: n m) (auto simp: js_simps)

lemma stateOrder_nth:
  "distinct xs \<Longrightarrow> i < length xs \<Longrightarrow>
    map_get (fold (\<lambda>(i, s). map_set s (int i)) (enumerate n xs) m) (xs ! i) = Some (int (n + i))"
proof (induction xs arbitrary: n m i)
  case (Cons x xs)
  then show ?case by (cases i) (auto simp: stateOrder_absent js_simps)
qed simp

lemma orderOf_nth: "distinct xs \<Longrightarrow> i < length xs \<Longrightarrow> orderOf xs (xs ! i) = int i"
  by (simp add: orderOf_def stateOrder_def stateOrder_nth)

lemma order_le_total: "order_le ds a b \<or> order_le ds b a"
  using string_le_total by (auto simp: order_le_def)

lemma order_le_trans: "order_le ds a b \<Longrightarrow> order_le ds b c \<Longrightarrow> order_le ds a c"
  using string_le_trans [of a b c] by (auto simp: order_le_def split: if_splits)

lemma order_le_antisym: "order_le ds a b \<Longrightarrow> order_le ds b a \<Longrightarrow> a = b"
  using string_le_antisym by (auto simp: order_le_def split: if_splits)

lemma declared_sorted: "distinct ds \<Longrightarrow> sorted_wrt (order_le ds) ds"
  by (auto simp: sorted_wrt_iff_nth_less order_le_def orderOf_nth)

text \<open>Sorting a duplicate-free list of declared states gives the declaration order restricted to it.\<close>

lemma sort_declared:
  assumes "distinct ds" "distinct xs" "set xs \<subseteq> set ds"
  shows "js_sort (order_le ds) xs = filter (\<lambda>s. s \<in> set xs) ds"
proof (rule sorted_wrt_mset_unique)
  show "sorted_wrt (order_le ds) (js_sort (order_le ds) xs)"
    by (rule sorted_js_sort [OF order_le_total order_le_trans])
  show "sorted_wrt (order_le ds) (filter (\<lambda>s. s \<in> set xs) ds)"
    by (rule sorted_wrt_filter [OF declared_sorted [OF assms(1)]])
  have "set xs = set (filter (\<lambda>s. s \<in> set xs) ds)" using assms(3) by auto
  then show "mset (js_sort (order_le ds) xs) = mset (filter (\<lambda>s. s \<in> set xs) ds)"
    using assms(1,2) set_eq_iff_mset_eq_distinct [of xs "filter (\<lambda>s. s \<in> set xs) ds"] by simp
qed (rule order_le_antisym)

section \<open>Legal transitions\<close>

definition terminal :: "StateMachineDefinition \<Rightarrow> string \<Rightarrow> bool" where
  "terminal d s \<longleftrightarrow> (\<exists>md. map_get (sd_states d) s = Some md \<and> md_isTerminal md = Some True)"

definition legal :: "StateMachineDefinition \<Rightarrow> string \<Rightarrow> string \<Rightarrow> bool" where
  "legal d f t \<longleftrightarrow> f = t \<or>
     (\<not> terminal d f \<and> (\<exists>r\<in>set (sd_transitions d). f \<in> set (fromStates r) \<and> tr_to r = t))"

definition entry_legal :: "StateMachineDefinition \<Rightarrow> StateMachineAuditEntry \<Rightarrow> bool" where
  "entry_legal d e \<longleftrightarrow> (ae_kind e = Kind_transition \<longrightarrow> ae_allowed e) \<and>
     (ae_allowed e \<longrightarrow> legal d (ae_fromState e) (ae_toState e))"

definition machine_inv :: "StateMachineDefinition \<Rightarrow> DeterministicStateMachine \<Rightarrow> bool" where
  "machine_inv d m \<longleftrightarrow> sm_definition m = d \<and> (\<forall>s. rulesFrom m s = rules_spec d s) \<and>
     map ae_sequence (sm_auditTrail m) = map int [1..<Suc (length (sm_auditTrail m))] \<and>
     sm_auditSequence m = int (length (sm_auditTrail m)) \<and> list_all (entry_legal d) (sm_auditTrail m)"

lemma machine_inv_new: "newStateMachine d = Inr m \<Longrightarrow> machine_inv d m"
  using newStateMachine_index [of d m] by (simp add: machine_inv_def)

lemma isTerminal_terminal: "sm_definition m = d \<Longrightarrow> isTerminal m s \<longleftrightarrow> terminal d s"
  by (auto simp: isTerminal_def terminal_def split: option.split)

lemma canTransition_legal: "machine_inv d m \<Longrightarrow> canTransition m f t \<longleftrightarrow> legal d f t"
  using set_rules_spec [of d f]
  by (auto simp: machine_inv_def canTransition_def legal_def isTerminal_terminal filter_empty_conv)

lemma recordAudit_simps [simp]:
  "fst (recordAudit k f t a ctx md r now m) = (if a then Inr () else Inl (ReferenceError ''kead is not defined''))"
  "sm_definition (snd (recordAudit k f t a ctx md r now m)) = sm_definition m"
  "sm_transitionIndex (snd (recordAudit k f t a ctx md r now m)) = sm_transitionIndex m"
  "rulesFrom (snd (recordAudit k f t a ctx md r now m)) s = rulesFrom m s"
  by (simp_all add: recordAudit_def Let_def rulesFrom_def)

lemma recordAudit_entry:
  "\<exists>e. sm_auditTrail (snd (recordAudit k f t a ctx md r now m)) = sm_auditTrail m @ [e] \<and>
     ae_kind e = k \<and> ae_fromState e = f \<and> ae_toState e = t \<and> ae_allowed e = a \<and> ae_reason e = r \<and>
     ae_resourceId e = Option.bind md tm_resourceId"
  by (simp add: recordAudit_def Let_def)

lemma recordAudit_inv [keeps]:
  assumes "machine_inv d m" "k = Kind_transition \<Longrightarrow> a" "a \<Longrightarrow> legal d f t"
  shows "machine_inv d (snd (recordAudit k f t a ctx md r now m))"
proof -
  have "entry_legal d e" if "ae_kind e = k" "ae_fromState e = f" "ae_toState e = t" "ae_allowed e = a" for e
    using that assms(2,3) by (simp add: entry_legal_def)
  with assms(1) show ?thesis by (simp add: machine_inv_def recordAudit_def Let_def rulesFrom_def)
qed

lemma recordAudit_rejected_inv [keeps]:
  "machine_inv d m \<Longrightarrow> machine_inv d (snd (recordAudit Kind_evaluation f t False ctx md r now m))"
  by (rule recordAudit_inv) simp_all

section \<open>Evaluating transitions\<close>

lemma reject_eq:
  "reject f t r term ctx md now m =
     (Inl (ReferenceError ''kead is not defined''), snd (recordAudit Kind_evaluation f t False ctx md (Some r) now m))"
  by (simp add: reject_def case_prod_unfold)

lemma accept_eq:
  "accept f t term ctx md now m =
     (Inr \<lparr>te_allowed = True, te_fromState = f, te_toState = t, te_reason = None,
        te_allowedTransitions = getAllowedTransitions m f, te_isTerminal = term\<rparr>,
      snd (recordAudit Kind_evaluation f t True ctx md None now m))"
  by (simp add: accept_def case_prod_unfold)

definition guards_of :: "StateMachineDefinition \<Rightarrow> string \<Rightarrow> string \<Rightarrow> TransitionContext option \<Rightarrow> guard_result" where
  "guards_of d f t ctx = (if f = t then Guard_pass else eval_guards (filter (\<lambda>r. tr_to r = t) (rules_spec d f)) ctx)"

text \<open>The three outcomes of an evaluation: accepted, a guard that throws, and rejected.\<close>

lemma evaluate_accepts:
  assumes "machine_inv d m" "legal d f t" "guards_of d f t ctx = Guard_pass"
  shows "evaluateTransition f t ctx md now m = accept f t (isTerminal m f) ctx md now m"
proof -
  have "canTransition m f t" using assms canTransition_legal by blast
  moreover have "rulesFrom m f = rules_spec d f" using assms(1) by (simp add: machine_inv_def)
  ultimately show ?thesis using assms(3)
    by (auto simp: evaluateTransition_def canTransition_def guards_of_def Let_def split: if_splits)
qed

lemma evaluate_throws:
  assumes "machine_inv d m" "legal d f t" "guards_of d f t ctx = Guard_throws e"
  shows "evaluateTransition f t ctx md now m = (Inl (GuardError e), m)"
proof -
  have "canTransition m f t" using assms canTransition_legal by blast
  moreover have "rulesFrom m f = rules_spec d f" using assms(1) by (simp add: machine_inv_def)
  ultimately show ?thesis using assms(3)
    by (auto simp: evaluateTransition_def canTransition_def guards_of_def Let_def split: if_splits)
qed

lemma evaluate_rejects:
  assumes "machine_inv d m"
    and "\<not> legal d f t \<or> guards_of d f t ctx = Guard_false \<or> (\<exists>s. guards_of d f t ctx = Guard_reason s)"
  shows "\<exists>r b. evaluateTransition f t ctx md now m = reject f t r b ctx md now m"
proof -
  have "\<not> canTransition m f t \<or> (f \<noteq> t \<and> (guards_of d f t ctx = Guard_false \<or> (\<exists>s. guards_of d f t ctx = Guard_reason s)))"
    using assms canTransition_legal [of d m f t] by (auto simp: guards_of_def)
  moreover have "rulesFrom m f = rules_spec d f" using assms(1) by (simp add: machine_inv_def)
  ultimately show ?thesis
    by (auto simp: evaluateTransition_def canTransition_def guards_of_def Let_def split: if_splits) blast+
qed

lemma evaluate_cases:
  assumes inv: "machine_inv d m"
  obtains (accepts) "legal d f t" "guards_of d f t ctx = Guard_pass"
      "evaluateTransition f t ctx md now m = accept f t (isTerminal m f) ctx md now m"
  | (throws) e where "legal d f t" "guards_of d f t ctx = Guard_throws e"
      "evaluateTransition f t ctx md now m = (Inl (GuardError e), m)"
  | (rejects) r b where "\<not> (legal d f t \<and> guards_of d f t ctx = Guard_pass)"
      "evaluateTransition f t ctx md now m = reject f t r b ctx md now m"
proof (cases "legal d f t")
  case True
  show ?thesis
  proof (cases "guards_of d f t ctx")
    case Guard_pass
    with evaluate_accepts [OF inv True] show ?thesis by (intro accepts True)
  next
    case (Guard_throws e)
    with evaluate_throws [OF inv True] show ?thesis by (intro throws True)
  next
    case Guard_false
    with evaluate_rejects [OF inv] rejects show ?thesis by (metis guard_result.distinct(1))
  next
    case (Guard_reason s)
    with evaluate_rejects [OF inv] rejects show ?thesis by (metis guard_result.distinct(3))
  qed
next
  case False
  with evaluate_rejects [OF inv] rejects show ?thesis by metis
qed

lemma evaluate_inv [keeps]:
  assumes "machine_inv d m"
  shows "machine_inv d (snd (evaluateTransition f t ctx md now m))"
  by (rule evaluate_cases [OF assms, of f t ctx md now]) (simp_all add: accept_eq reject_eq assms recordAudit_inv recordAudit_rejected_inv)

lemma transition_eq:
  "transition f t ctx md now1 now2 m =
     (case assertCanTransition f t ctx md now1 m of
        (Inl e, m1) \<Rightarrow> (Inl e, m1)
      | (Inr _, m1) \<Rightarrow> (Inr t, snd (recordAudit Kind_transition f t True ctx md None now2 m1)))"
  by (simp add: transition_def case_prod_unfold split: sum.split)

lemma transition_inv [keeps]:
  assumes inv: "machine_inv d m"
  shows "machine_inv d (snd (transition f t ctx md now1 now2 m))"
  by (rule evaluate_cases [OF inv, of f t ctx md now1])
    (simp_all add: transition_eq assertCanTransition_def accept_eq reject_eq inv recordAudit_inv recordAudit_rejected_inv)

lemma undo_inv [keeps]:
  assumes "machine_inv d m"
  shows "machine_inv d (snd (undoLastTransition rid md now m))"
  using assms canTransition_legal [OF assms]
  by (auto simp: undoLastTransition_def Let_def case_prod_unfold recordAudit_inv)

lemma machine_step_inv: "machine_inv d m \<Longrightarrow> machine_inv d (machine_step x m)"
  by (cases x) (simp_all add: keeps)

interpretation machine: invariant_system machine_step "machine_inv d" for d
  by unfold_locales (rule machine_step_inv)

lemma reachable_inv:
  "newStateMachine d = Inr m0 \<Longrightarrow> machine_inv d (run machine_step ops m0)"
  by (rule machine.run_inv [OF machine_inv_new])

section \<open>Undo\<close>

lemma undo_candidates_legal:
  assumes "machine_inv d m" "undo_candidates rid m \<noteq> []"
  shows "legal d (ae_fromState (last (undo_candidates rid m))) (ae_toState (last (undo_candidates rid m)))"
    and "field_matches rid (ae_resourceId (last (undo_candidates rid m)))"
  using assms last_in_set [OF assms(2)]
  by (auto simp: undo_candidates_def machine_inv_def list_all_iff entry_legal_def)

lemma undo_done:
  assumes "undoLastTransition rid md now m = (Inr r, m1)" "ur_undo r"
  defines "e \<equiv> last (undo_candidates rid m)"
  shows "undo_candidates rid m \<noteq> []" "\<not> isTerminal m (ae_toState e)" "canTransition m (ae_toState e) (ae_fromState e)"
    "ur_restoredState r = ae_fromState e" "ur_revertedEntry r = Some e"
    "\<exists>rt act. m1 = snd (recordAudit Kind_transition (ae_toState e) (ae_fromState e) True undoContext
       (Some \<lparr>tm_resourceId = ae_resourceId e, tm_resourceType = rt, tm_actor = act\<rparr>) None now m)"
  using assms(1,2) unfolding e_def
  by (auto simp: undoLastTransition_def Let_def case_prod_unfold split: if_splits)

lemma undo_appends:
  assumes "machine_inv d m" "undoLastTransition rid md now m = (Inr r, m1)" "ur_undo r"
  shows "ae_fromState (last (undo_candidates rid m1)) = ae_toState (last (undo_candidates rid m))"
    and "ae_toState (last (undo_candidates rid m1)) = ae_fromState (last (undo_candidates rid m))"
    and "undo_candidates rid m1 \<noteq> []"
proof -
  let ?e = "last (undo_candidates rid m)"
  note u = undo_done [OF assms(2,3)]
  from u(6) obtain rt act where "m1 = snd (recordAudit Kind_transition (ae_toState ?e) (ae_fromState ?e) True
      undoContext (Some \<lparr>tm_resourceId = ae_resourceId ?e, tm_resourceType = rt, tm_actor = act\<rparr>) None now m)"
    by blast
  then obtain e' where e': "undo_candidates rid m1 = undo_candidates rid m @ [e']"
    "ae_fromState e' = ae_toState ?e" "ae_toState e' = ae_fromState ?e"
    using undo_candidates_legal(2) [OF assms(1) u(1)]
    by (auto simp: recordAudit_def Let_def undo_candidates_def)
  then show "ae_fromState (last (undo_candidates rid m1)) = ae_toState ?e"
    "ae_toState (last (undo_candidates rid m1)) = ae_fromState ?e" "undo_candidates rid m1 \<noteq> []"
    by simp_all
qed

lemma undo_possible:
  assumes "undo_candidates rid m \<noteq> []" "\<not> isTerminal m (ae_toState (last (undo_candidates rid m)))"
    "canTransition m (ae_toState (last (undo_candidates rid m))) (ae_fromState (last (undo_candidates rid m)))"
  shows "\<exists>r m1. undoLastTransition rid md now m = (Inr r, m1) \<and> ur_undo r \<and>
    ur_restoredState r = ae_fromState (last (undo_candidates rid m))"
  using assms by (simp add: undoLastTransition_def Let_def case_prod_unfold)

section \<open>The interface of a lifecycle definition\<close>

text \<open>
  What the record services rely on of a definition: its rules name declared states only, no state is
  declared twice, the initial state is declared, and no rule leaves a terminal state.  Every machine
  of \<open>record-state-machines.ts\<close> is an instance.
\<close>

locale lifecycle_definition =
  fixes d :: StateMachineDefinition
  assumes rules_declared: "declared d"
    and states_distinct: "map_wf (sd_states d)"
    and initial_declared: "map_has (sd_states d) (sd_initialState d)"
    and terminal_final: "list_all (\<lambda>r. list_all (\<lambda>f. \<not> terminal d f) (fromStates r)) (sd_transitions d)"
begin

lemma builds: "\<exists>m. newStateMachine d = Inr m"
  using rules_declared newStateMachine_ok by blast

lemma target_declared:
  assumes "r \<in> set (rules_spec d f)"
  shows "tr_to r \<in> set (map_keys (sd_states d))"
  using assms rules_declared by (auto simp: set_rules_spec declared_def list_all_iff)

lemma allowed_in_declaration_order:
  assumes "machine_inv d m"
  shows "getAllowedTransitions m f =
    filter (\<lambda>s. \<exists>r\<in>set (sd_transitions d). f \<in> set (fromStates r) \<and> tr_to r = s) (map_keys (sd_states d))"
proof -
  have "set (js_set (map tr_to (rules_spec d f))) \<subseteq> set (map_keys (sd_states d))"
    using target_declared by auto
  moreover have "distinct (map_keys (sd_states d))" using states_distinct by (simp add: map_wf_def)
  ultimately have "js_sort (order_le (map_keys (sd_states d))) (js_set (map tr_to (rules_spec d f))) =
      filter (\<lambda>s. s \<in> set (js_set (map tr_to (rules_spec d f)))) (map_keys (sd_states d))"
    by (intro sort_declared) simp_all
  moreover have "s \<in> set (js_set (map tr_to (rules_spec d f))) \<longleftrightarrow>
      (\<exists>r\<in>set (sd_transitions d). f \<in> set (fromStates r) \<and> tr_to r = s)" for s
    by (auto simp: set_rules_spec)
  ultimately show ?thesis using assms by (simp add: getAllowedTransitions_def machine_inv_def getStates_def)
qed

lemma allowed_iff_legal:
  assumes "machine_inv d m" "f \<noteq> t"
  shows "t \<in> set (getAllowedTransitions m f) \<longleftrightarrow> legal d f t"
proof -
  have "\<not> terminal d f" if "r \<in> set (sd_transitions d)" "f \<in> set (fromStates r)" for r
    using terminal_final that by (auto simp: list_all_iff)
  moreover have "t \<in> set (map_keys (sd_states d))" if "r \<in> set (rules_spec d f)" "tr_to r = t" for r
    using target_declared [OF that(1)] that(2) by simp
  ultimately show ?thesis
    using assms(2) unfolding allowed_in_declaration_order [OF assms(1)] legal_def
    by (auto simp: set_rules_spec)
qed

lemma terminal_has_no_exit: "machine_inv d m \<Longrightarrow> terminal d f \<Longrightarrow> getAllowedTransitions m f = []"
  using terminal_final by (auto simp: allowed_in_declaration_order filter_empty_conv list_all_iff)

end

section \<open>Properties\<close>

definition switchDef :: StateMachineDefinition where
  "switchDef = \<lparr>sd_name = ''Switch'', sd_initialState = ''off'',
     sd_states = [(''off'', \<lparr>md_state = None, md_displayName = None, md_isTerminal = None, md_isLocked = None, md_label = None, md_description = None\<rparr>),
       (''on'', \<lparr>md_state = None, md_displayName = None, md_isTerminal = Some False, md_isLocked = None, md_label = None, md_description = None\<rparr>),
       (''gone'', \<lparr>md_state = None, md_displayName = None, md_isTerminal = Some True, md_isLocked = None, md_label = None, md_description = None\<rparr>)],
     sd_transitions = [\<lparr>tr_from = From_many [''off'', ''on''], tr_to = ''gone'', tr_guard = None, tr_description = None\<rparr>,
       \<lparr>tr_from = From_one ''off'', tr_to = ''on'', tr_guard = None, tr_description = None\<rparr>,
       \<lparr>tr_from = From_one ''on'', tr_to = ''off'', tr_guard = None, tr_description = None\<rparr>]\<rparr>"

definition switchMachine :: DeterministicStateMachine where
  "switchMachine = projr (newStateMachine switchDef)"

lemma switch_new: "newStateMachine switchDef = Inr switchMachine"
proof -
  have "declared switchDef" by (simp add: declared_def switchDef_def fromStates_def)
  then show ?thesis using newStateMachine_ok [of switchDef] by (auto simp: switchMachine_def)
qed

text \<open>
  C19.  Only legal transitions are committed: whatever was done with a machine before, \<open>transition\<close>
  succeeds exactly when the definition has a rule for it, the state is not terminal (or the target is
  the current state) and every guard of those rules passes; it then returns the target state.
\<close>

theorem transition_succeeds_iff:
  assumes "newStateMachine d = Inr m0"
  shows "(fst (transition f t ctx md now1 now2 (run machine_step ops m0)) = Inr s) =
    (s = t \<and> legal d f t \<and> guards_of d f t ctx = Guard_pass)"
  by (rule evaluate_cases [OF reachable_inv [OF assms, of ops], of f t ctx md now1])
    (auto simp: transition_eq assertCanTransition_def accept_eq reject_eq)

theorem transition_succeeds_iff_witness:
  "fst (transition ''off'' ''on'' None None ''t1'' ''t2'' switchMachine) = Inr ''on''"
  using transition_succeeds_iff [OF switch_new, of "''off''" "''on''" None None "''t1''" "''t2''" "[]" "''on''"]
  by (simp add: legal_def terminal_def guards_of_def switchDef_def fromStates_def rules_spec_def)

text \<open>
  A rejected transition is never reported as such: every attempt that is illegal or that a guard
  refuses ends in a \<open>ReferenceError\<close> from the logging of the rejection, after its audit entry was
  written, so neither a result with \<open>allowed: false\<close> nor an \<open>InvalidStateTransitionException\<close> ever
  reaches a caller.
\<close>

theorem rejection_raises_reference_error:
  assumes "newStateMachine d = Inr m0" and "m = run machine_step ops m0"
    and "\<not> legal d f t \<or> guards_of d f t ctx \<in> {Guard_false, Guard_reason why}"
  shows "fst (evaluateTransition f t ctx md now m) = Inl (ReferenceError ''kead is not defined'') \<and>
    fst (assertCanTransition f t ctx md now m) = Inl (ReferenceError ''kead is not defined'') \<and>
    (\<exists>e. sm_auditTrail (snd (evaluateTransition f t ctx md now m)) = sm_auditTrail m @ [e] \<and> \<not> ae_allowed e)"
proof -
  have inv: "machine_inv d m" using reachable_inv [OF assms(1)] assms(2) by simp
  have "\<not> legal d f t \<or> guards_of d f t ctx = Guard_false \<or> (\<exists>s. guards_of d f t ctx = Guard_reason s)"
    using assms(3) by auto
  from evaluate_rejects [OF inv this] obtain r b where
    ev: "evaluateTransition f t ctx md now m = reject f t r b ctx md now m" by blast
  from recordAudit_entry [of Kind_evaluation f t False ctx md "Some r" now m] show ?thesis
    by (auto simp: ev reject_eq assertCanTransition_def)
qed

theorem rejection_raises_reference_error_witness:
  "fst (assertCanTransition ''gone'' ''on'' None None ''t1'' switchMachine) = Inl (ReferenceError ''kead is not defined'')"
  using rejection_raises_reference_error [OF switch_new run_simps(1) [symmetric], of "''gone''" "''on''" None _ None "''t1''"]
  by (simp add: legal_def terminal_def switchDef_def)

text \<open>
  The audit trail: after any sequence of evaluations, transitions and undos the entries are
  numbered 1, 2, 3 and so on without gaps, every entry of a committed transition is marked allowed,
  and every entry marked allowed is a legal transition of the definition; in particular no committed
  transition leaves a terminal state for another one.
\<close>

theorem audit_trail_sound:
  assumes "newStateMachine d = Inr m0"
  shows "map ae_sequence (sm_auditTrail (run machine_step ops m0)) =
      map int [1..<Suc (length (sm_auditTrail (run machine_step ops m0)))] \<and>
    list_all (\<lambda>e. (ae_kind e = Kind_transition \<longrightarrow> ae_allowed e) \<and>
      (ae_allowed e \<longrightarrow> legal d (ae_fromState e) (ae_toState e))) (sm_auditTrail (run machine_step ops m0))"
  using reachable_inv [OF assms, of ops]
  by (simp add: machine_inv_def list_all_iff entry_legal_def del: upt_Suc)

theorem audit_trail_sound_witness:
  "map ae_sequence (sm_auditTrail (run machine_step [Op_transition ''off'' ''on'' None None ''t1'' ''t2''] switchMachine)) =
   map int [1..<Suc (length (sm_auditTrail (run machine_step [Op_transition ''off'' ''on'' None None ''t1'' ''t2''] switchMachine)))]"
  by (rule audit_trail_sound [OF switch_new, THEN conjunct1])

text \<open>
  Undo is its own inverse: when \<open>undoLastTransition\<close> reverts the last transition of a resource it
  restores the state that transition came from, and a second undo succeeds and restores the state the
  first one left.
\<close>

theorem undo_twice:
  assumes "newStateMachine d = Inr m0" and "m = run machine_step ops m0"
    and undo: "undoLastTransition rid md now m = (Inr r, m1)" "ur_undo r"
  shows "\<exists>e r2 m2. ur_revertedEntry r = Some e \<and> e \<in> set (sm_auditTrail m) \<and> ur_restoredState r = ae_fromState e \<and>
    undoLastTransition rid md2 now2 m1 = (Inr r2, m2) \<and> ur_undo r2 \<and> ur_restoredState r2 = ae_toState e"
proof -
  have inv: "machine_inv d m" using reachable_inv [OF assms(1)] assms(2) by simp
  have inv1: "machine_inv d m1" using undo_inv [OF inv, of rid md now] undo(1) by simp
  let ?e = "last (undo_candidates rid m)"
  note u = undo_done [OF undo] and a = undo_appends [OF inv undo]
  have trm: "isTerminal m1 s = terminal d s" "isTerminal m s = terminal d s" for s
    using inv inv1 by (auto simp: machine_inv_def isTerminal_terminal)
  have leg: "legal d (ae_fromState ?e) (ae_toState ?e)" by (rule undo_candidates_legal [OF inv u(1)])
  with u(2) have "\<not> terminal d (ae_fromState ?e)" by (auto simp: legal_def trm)
  moreover have "canTransition m1 (ae_fromState ?e) (ae_toState ?e)"
    using leg canTransition_legal [OF inv1] by simp
  ultimately have "\<exists>r2 m2. undoLastTransition rid md2 now2 m1 = (Inr r2, m2) \<and> ur_undo r2 \<and> ur_restoredState r2 = ae_toState ?e"
    using undo_possible [OF a(3)] by (simp add: a trm)
  moreover have "?e \<in> set (sm_auditTrail m)" using last_in_set [OF u(1)] by (simp add: undo_candidates_def)
  ultimately show ?thesis using u(4,5) by blast
qed

theorem undo_twice_witness:
  "\<exists>(e :: StateMachineAuditEntry) r2 m2. ur_restoredState r2 = ae_toState e \<and>
     undoLastTransition None None ''t4'' (snd (undoLastTransition None None ''t3''
       (run machine_step [Op_transition ''off'' ''on'' None None ''t1'' ''t2''] switchMachine))) = (Inr r2, m2)"
proof -
  let ?m = "run machine_step [Op_transition ''off'' ''on'' None None ''t1'' ''t2''] switchMachine"
  let ?u = "undoLastTransition None None ''t3'' ?m"
  have "fst ?u = Inr (projr (fst ?u)) \<and> ur_undo (projr (fst ?u))"
    by (simp add: switchMachine_def newStateMachine_def buildIndex_def switchDef_def fromStates_def
        transition_def assertCanTransition_def evaluateTransition_def accept_def recordAudit_def isTerminal_def
        rulesFrom_def undoLastTransition_def undo_candidates_def field_matches_def canTransition_def Let_def)
  then have "?u = (Inr (projr (fst ?u)), snd ?u)" "ur_undo (projr (fst ?u))" by (auto simp: prod_eq_iff)
  from undo_twice [OF switch_new refl this, of None "''t4''"] show ?thesis
    by (elim exE conjE) (intro exI conjI; assumption)
qed

text \<open>
  \<open>getAllowedTransitions\<close> of a well-formed definition lists, without repetition and in the order
  in which the states are declared, exactly the targets of the rules that leave the state.
\<close>

theorem allowed_transitions_ordered:
  assumes "newStateMachine d = Inr m" "map_wf (sd_states d)"
  shows "getAllowedTransitions m f =
    filter (\<lambda>s. \<exists>r\<in>set (sd_transitions d). f \<in> set (fromStates r) \<and> tr_to r = s) (getStates m)"
proof -
  have ix: "rulesFrom m f = rules_spec d f" "getStates m = map_keys (sd_states d)"
    using newStateMachine_index [OF assms(1)] by (simp_all add: getStates_def)
  have "declared d" using assms(1) newStateMachine_ok by blast
  then have "set (js_set (map tr_to (rules_spec d f))) \<subseteq> set (map_keys (sd_states d))"
    by (auto simp: set_rules_spec declared_def list_all_iff)
  then have "getAllowedTransitions m f = filter (\<lambda>s. s \<in> set (js_set (map tr_to (rules_spec d f)))) (map_keys (sd_states d))"
    unfolding getAllowedTransitions_def ix using assms(2) by (intro sort_declared) (simp_all add: map_wf_def)
  then show ?thesis unfolding ix(2) by (auto simp: set_rules_spec intro!: filter_cong)
qed

theorem allowed_transitions_ordered_witness:
  "getAllowedTransitions switchMachine ''off'' = [''on'', ''gone'']"
  using allowed_transitions_ordered [OF switch_new, of "''off''"] newStateMachine_index(2) [OF switch_new]
  by (simp add: map_wf_def switchDef_def getStates_def fromStates_def)

end
