(* ===== verification/Record_Machines.thy ===== *)
theory Record_Machines
  imports State_Machine
begin

text \<open>
  \<open>src/common/lifecycle/record-state-machines.ts\<close>: the state machines of the six kinds of records
  (portfolios, transactions, DeFi positions, users, invitations, payment operations) and the two
  functions that derive a lifecycle state from the legacy fields of a record.  Each definition is
  split into its states and its transitions; the states keep their declaration order.
\<close>

section \<open>The definitions\<close>

definition state_entry :: "string \<Rightarrow> string \<Rightarrow> string \<Rightarrow> bool \<Rightarrow> bool option \<Rightarrow> string \<times> StateMetadata" where
  "state_entry s displayName description trm locked =
     (s, \<lparr>md_state = Some s, md_displayName = Some displayName, md_isTerminal = Some trm,
          md_isLocked = locked, md_label = None, md_description = Some description\<rparr>)"

definition rule :: "string \<Rightarrow> string \<Rightarrow> string \<Rightarrow> TransitionRule" where
  "rule f t description = \<lparr>tr_from = From_one f, tr_to = t, tr_guard = None, tr_description = Some description\<rparr>"

definition PortfolioLifecycleState_values :: "string list" where
  "PortfolioLifecycleState_values = [''draft'', ''active'', ''rebalancing'', ''paused'', ''frozen'', ''archived'']"

definition TransactionLifecycleState_values :: "string list" where
  "TransactionLifecycleState_values = [''pending'', ''submitted'', ''confirmed'', ''failed'', ''cancelled'', ''timed_out'', ''reverted'']"

definition DeFiPositionLifecycleState_values :: "string list" where
  "DeFiPositionLifecycleState_values = [''active'', ''paused'', ''liquidation_risk'', ''closed'', ''liquidated'']"

definition UserLifecycleState_values :: "string list" where
  "UserLifecycleState_values = [''pending_verification'', ''active'', ''suspended'', ''locked'', ''deactivated'', ''archived'']"

definition InvitationLifecycleState_values :: "string list" where
  "InvitationLifecycleState_values = [''PENDING'', ''ACCEPTED'', ''REVOKED'', ''EXPIRED'']"

definition PaymentOperationLifecycleState_values :: "string list" where
  "PaymentOperationLifecycleState_values = [''CREATING'', ''CREATED'', ''SIGNED'', ''SUBMITTING'', ''SUBMITTED'', ''RECOVERY_REQUIRED'']"

definition PORTFOLIO_STATES :: "(string, StateMetadata) jsmap" where
  "PORTFOLIO_STATES = [
     (state_entry ''draft'' ''Draft''
      ''Initial configuration in progress before activation''
      False (Some False)),
     (state_entry ''active'' ''Active''
      ''Portfolio is live and operational for trading and rebalancing''
      False (Some False)),
     (state_entry ''rebalancing'' ''Rebalancing''
      ''Portfolio is undergoing an active rebalance execution window''
      False (Some True)),
     (state_entry ''paused'' ''Paused''
      ''Trading and automated rebalancing operations are temporarily halted''
      False (Some True)),
     (state_entry ''frozen'' ''Frozen''
      ''Emergency hold or circuit-breaker locked state''
      False (Some True)),
     (state_entry ''archived'' ''Archived''
      ''Portfolio has been retired / soft-deleted''
      True (Some True))]"

definition PORTFOLIO_TRANSITIONS :: "TransitionRule list" where
  "PORTFOLIO_TRANSITIONS = [
     (rule ''draft'' ''active''
      ''Activate portfolio with confirmed allocation''),
     (rule ''draft'' ''archived''
      ''Discard draft portfolio''),
     (rule ''active'' ''rebalancing''
      ''Initiate portfolio rebalance execution''),
     (rule ''active'' ''paused''
      ''Pause portfolio trading and automation''),
     (rule ''active'' ''frozen''
      ''Emergency freeze / circuit breaker trip''),
     (rule ''active'' ''archived''
      ''Archive active portfolio''),
     (rule ''rebalancing'' ''active''
      ''Complete rebalance and restore active trading''),
     (rule ''rebalancing'' ''paused''
      ''Pause portfolio following rebalance completion or abort''),
     (rule ''rebalancing'' ''frozen''
      ''Freeze portfolio due to rebalance failure / invariant violation''),
     (rule ''paused'' ''active''
      ''Resume portfolio trading''),
     (rule ''paused'' ''frozen''
      ''Elevate paused portfolio to emergency freeze''),
     (rule ''paused'' ''archived''
      ''Archive paused portfolio''),
     (rule ''frozen'' ''active''
      ''Unfreeze portfolio after risk review / circuit reset''),
     (rule ''frozen'' ''paused''
      ''Transition frozen portfolio to paused for maintenance''),
     (rule ''frozen'' ''archived''
      ''Archive frozen portfolio'')]"

definition PORTFOLIO_STATE_MACHINE_DEF :: StateMachineDefinition where
  "PORTFOLIO_STATE_MACHINE_DEF = \<lparr>sd_name = ''Portfolio'', sd_initialState = ''active'',
     sd_states = PORTFOLIO_STATES, sd_transitions = PORTFOLIO_TRANSITIONS\<rparr>"

definition TRANSACTION_STATES :: "(string, StateMetadata) jsmap" where
  "TRANSACTION_STATES = [
     (state_entry ''pending'' ''Pending''
      ''Transaction initialized and undergoing preflight validation''
      False None),
     (state_entry ''submitted'' ''Submitted''
      ''Transaction signed and broadcasted to network''
      False None),
     (state_entry ''confirmed'' ''Confirmed''
      ''Transaction mined and settled on-chain''
      True None),
     (state_entry ''failed'' ''Failed''
      ''Transaction rejected or failed during submission''
      True None),
     (state_entry ''cancelled'' ''Cancelled''
      ''Transaction cancelled before network broadcast''
      True None),
     (state_entry ''timed_out'' ''Timed Out''
      ''Transaction exceeded deadline without on-chain confirmation''
      True None),
     (state_entry ''reverted'' ''Reverted''
      ''Transaction execution reverted by smart contract''
      True None)]"

definition TRANSACTION_TRANSITIONS :: "TransitionRule list" where
  "TRANSACTION_TRANSITIONS = [
     (rule ''pending'' ''submitted''
      ''Broadcast signed transaction to network''),
     (rule ''pending'' ''cancelled''
      ''Cancel transaction prior to network broadcast''),
     (rule ''pending'' ''failed''
      ''Preflight failure or signing rejection''),
     (rule ''submitted'' ''confirmed''
      ''On-chain transaction settlement confirmed''),
     (rule ''submitted'' ''failed''
      ''Network node rejected transaction''),
     (rule ''submitted'' ''timed_out''
      ''Transaction inclusion deadline expired''),
     (rule ''submitted'' ''reverted''
      ''Contract reverted during on-chain execution'')]"

definition TRANSACTION_STATE_MACHINE_DEF :: StateMachineDefinition where
  "TRANSACTION_STATE_MACHINE_DEF = \<lparr>sd_name = ''Transaction'', sd_initialState = ''pending'',
     sd_states = TRANSACTION_STATES, sd_transitions = TRANSACTION_TRANSITIONS\<rparr>"

definition DEFI_POSITION_STATES :: "(string, StateMetadata) jsmap" where
  "DEFI_POSITION_STATES = [
     (state_entry ''active'' ''Active''
      ''Position is active and accruing yield or providing collateral''
      False None),
     (state_entry ''paused'' ''Paused''
      ''Protocol or user paused interactions with this position''
      False None),
     (state_entry ''liquidation_risk'' ''Liquidation Risk''
      ''Collateral ratio is near or below safety threshold''
      False None),
     (state_entry ''closed'' ''Closed''
      ''Position has been voluntarily unwound / withdrawn in full''
      True None),
     (state_entry ''liquidated'' ''Liquidated''
      ''Position was liquidated due to undercollateralization''
      True None)]"

definition DEFI_POSITION_TRANSITIONS :: "TransitionRule list" where
  "DEFI_POSITION_TRANSITIONS = [
     (rule ''active'' ''paused''
      ''Protocol pause or user lock on position''),
     (rule ''active'' ''liquidation_risk''
      ''Health factor dropped below safe threshold''),
     (rule ''active'' ''closed''
      ''User withdrew collateral and closed position''),
     (rule ''paused'' ''active''
      ''Resume position after pause lifted''),
     (rule ''paused'' ''closed''
      ''Close paused position during emergency exit''),
     (rule ''liquidation_risk'' ''active''
      ''Collateral added or debt repaid, restoring safety margin''),
     (rule ''liquidation_risk'' ''liquidated''
      ''Liquidation executed by protocol keeper''),
     (rule ''liquidation_risk'' ''closed''
      ''Full debt settled and remaining balance withdrawn'')]"

definition DEFI_POSITION_STATE_MACHINE_DEF :: StateMachineDefinition where
  "DEFI_POSITION_STATE_MACHINE_DEF = \<lparr>sd_name = ''DeFiPosition'', sd_initialState = ''active'',
     sd_states = DEFI_POSITION_STATES, sd_transitions = DEFI_POSITION_TRANSITIONS\<rparr>"

definition USER_STATES :: "(string, StateMetadata) jsmap" where
  "USER_STATES = [
     (state_entry ''pending_verification'' ''Pending Verification''
      ''Account created, awaiting email verification or identity confirmation''
      False None),
     (state_entry ''active'' ''Active''
      ''Account is in good standing and fully verified''
      False None),
     (state_entry ''suspended'' ''Suspended''
      ''Account temporarily suspended for compliance, policy or risk reasons''
      False (Some True)),
     (state_entry ''locked'' ''Locked''
      ''Security lockout due to failed logins or rate-limiting''
      False (Some True)),
     (state_entry ''deactivated'' ''Deactivated''
      ''Account voluntarily deactivated by user''
      False (Some True)),
     (state_entry ''archived'' ''Archived''
      ''Account permanently erased or closed''
      True (Some True))]"

definition USER_TRANSITIONS :: "TransitionRule list" where
  "USER_TRANSITIONS = [
     (rule ''pending_verification'' ''active''
      ''Email or wallet verification completed''),
     (rule ''pending_verification'' ''suspended''
      ''Flagged during signup screening''),
     (rule ''pending_verification'' ''deactivated''
      ''Cancelled prior to verification''),
     (rule ''pending_verification'' ''archived''
      ''Erased or timed out unverified account''),
     (rule ''active'' ''suspended''
      ''Administrative or policy suspension''),
     (rule ''active'' ''locked''
      ''Security lockout''),
     (rule ''active'' ''deactivated''
      ''Voluntary user deactivation''),
     (rule ''active'' ''archived''
      ''Account erasure / GDPR deletion''),
     (rule ''suspended'' ''active''
      ''Suspension lifted following review''),
     (rule ''suspended'' ''archived''
      ''Permanent account termination''),
     (rule ''locked'' ''active''
      ''Security lockout cleared via MFA / reset''),
     (rule ''locked'' ''suspended''
      ''Escalated to suspension''),
     (rule ''locked'' ''archived''
      ''Locked account archived''),
     (rule ''deactivated'' ''active''
      ''User reactivated their account''),
     (rule ''deactivated'' ''archived''
      ''Deactivated account expired / purged'')]"

definition USER_STATE_MACHINE_DEF :: StateMachineDefinition where
  "USER_STATE_MACHINE_DEF = \<lparr>sd_name = ''User'', sd_initialState = ''pending_verification'',
     sd_states = USER_STATES, sd_transitions = USER_TRANSITIONS\<rparr>"

definition INVITATION_STATES :: "(string, StateMetadata) jsmap" where
  "INVITATION_STATES = [
     (state_entry ''PENDING'' ''Pending''
      ''Invitation sent, awaiting acceptance''
      False None),
     (state_entry ''ACCEPTED'' ''Accepted''
      ''Invitation accepted by invitee''
      True None),
     (state_entry ''REVOKED'' ''Revoked''
      ''Invitation revoked by inviter or admin''
      True None),
     (state_entry ''EXPIRED'' ''Expired''
      ''Invitation validity period elapsed''
      True None)]"

definition INVITATION_TRANSITIONS :: "TransitionRule list" where
  "INVITATION_TRANSITIONS = [
     (rule ''PENDING'' ''ACCEPTED''
      ''Invitee accepted the invitation token''),
     (rule ''PENDING'' ''REVOKED''
      ''Inviter or admin revoked invitation''),
     (rule ''PENDING'' ''EXPIRED''
      ''Invitation reached expiration timestamp'')]"

definition INVITATION_STATE_MACHINE_DEF :: StateMachineDefinition where
  "INVITATION_STATE_MACHINE_DEF = \<lparr>sd_name = ''Invitation'', sd_initialState = ''PENDING'',
     sd_states = INVITATION_STATES, sd_transitions = INVITATION_TRANSITIONS\<rparr>"

definition PAYMENT_OPERATION_STATES :: "(string, StateMetadata) jsmap" where
  "PAYMENT_OPERATION_STATES = [
     (state_entry ''CREATING'' ''Creating''
      ''Payment operation record being initialized''
      False None),
     (state_entry ''CREATED'' ''Created''
      ''Payment payload created and ready for signature''
      False None),
     (state_entry ''SIGNED'' ''Signed''
      ''Payment transaction cryptographically signed''
      False None),
     (state_entry ''SUBMITTING'' ''Submitting''
      ''Payment is actively being broadcasted to processor or network''
      False None),
     (state_entry ''SUBMITTED'' ''Submitted''
      ''Payment successfully submitted and confirmed''
      True None),
     (state_entry ''RECOVERY_REQUIRED'' ''Recovery Required''
      ''Operation failed or ambiguous; operator / retry intervention required''
      False None)]"

definition PAYMENT_OPERATION_TRANSITIONS :: "TransitionRule list" where
  "PAYMENT_OPERATION_TRANSITIONS = [
     (rule ''CREATING'' ''CREATED''
      ''Payment record created''),
     (rule ''CREATING'' ''RECOVERY_REQUIRED''
      ''Failed during creation''),
     (rule ''CREATED'' ''SIGNED''
      ''Payment signed''),
     (rule ''CREATED'' ''RECOVERY_REQUIRED''
      ''Signing failed or aborted''),
     (rule ''SIGNED'' ''SUBMITTING''
      ''Initiating submission''),
     (rule ''SIGNED'' ''RECOVERY_REQUIRED''
      ''Pre-submission failure''),
     (rule ''SUBMITTING'' ''SUBMITTED''
      ''Submission successful''),
     (rule ''SUBMITTING'' ''RECOVERY_REQUIRED''
      ''Network timeout or ambiguous failure''),
     (rule ''RECOVERY_REQUIRED'' ''CREATED''
      ''Retry signing from created state''),
     (rule ''RECOVERY_REQUIRED'' ''SIGNED''
      ''Resume from signed state''),
     (rule ''RECOVERY_REQUIRED'' ''SUBMITTING''
      ''Retry submission''),
     (rule ''RECOVERY_REQUIRED'' ''SUBMITTED''
      ''Reconciled as completed after out-of-band verification'')]"

definition PAYMENT_OPERATION_STATE_MACHINE_DEF :: StateMachineDefinition where
  "PAYMENT_OPERATION_STATE_MACHINE_DEF = \<lparr>sd_name = ''PaymentOperation'', sd_initialState = ''CREATING'',
     sd_states = PAYMENT_OPERATION_STATES, sd_transitions = PAYMENT_OPERATION_TRANSITIONS\<rparr>"

section \<open>Derived states\<close>

record UserFlags =
  uf_isActive :: "bool option"
  uf_emailVerified :: "bool option"
  uf_lifecycleState :: "string option"
  uf_deletedAt :: "int option"

text \<open>An empty string is falsy, and \<open>deletedAt\<close> is a \<open>Date\<close> or null.\<close>

definition deriveUserLifecycleState :: "UserFlags \<Rightarrow> string" where
  "deriveUserLifecycleState user =
     (let val = (case uf_lifecycleState user of None \<Rightarrow> '''' | Some s \<Rightarrow> s);
          lower = toLowerCase val
      in if val \<noteq> '''' \<and> lower \<in> set UserLifecycleState_values then lower
         else if uf_deletedAt user \<noteq> None then ''archived''
         else if uf_isActive user = Some False
         then (if uf_emailVerified user = Some True then ''suspended'' else ''pending_verification'')
         else ''active'')"

record PortfolioFlags =
  pf_status :: "string option"
  pf_deletedAt :: "int option"

definition derivePortfolioLifecycleState :: "PortfolioFlags \<Rightarrow> string" where
  "derivePortfolioLifecycleState portfolio =
     (if pf_deletedAt portfolio \<noteq> None \<or> pf_status portfolio = Some ''archived'' then ''archived''
      else case pf_status portfolio of
          None \<Rightarrow> ''active''
        | Some s \<Rightarrow> if s \<in> set PortfolioLifecycleState_values then s else ''active'')"

section \<open>Instances of the lifecycle interface\<close>

lemmas record_machine_defs =
  PORTFOLIO_STATE_MACHINE_DEF_def PORTFOLIO_STATES_def PORTFOLIO_TRANSITIONS_def
  TRANSACTION_STATE_MACHINE_DEF_def TRANSACTION_STATES_def TRANSACTION_TRANSITIONS_def
  DEFI_POSITION_STATE_MACHINE_DEF_def DEFI_POSITION_STATES_def DEFI_POSITION_TRANSITIONS_def
  USER_STATE_MACHINE_DEF_def USER_STATES_def USER_TRANSITIONS_def
  INVITATION_STATE_MACHINE_DEF_def INVITATION_STATES_def INVITATION_TRANSITIONS_def
  PAYMENT_OPERATION_STATE_MACHINE_DEF_def PAYMENT_OPERATION_STATES_def PAYMENT_OPERATION_TRANSITIONS_def
  state_entry_def rule_def

lemmas lifecycle_checks = declared_def map_wf_def terminal_def fromStates_def

interpretation portfolio: lifecycle_definition PORTFOLIO_STATE_MACHINE_DEF
  by unfold_locales (simp_all add: lifecycle_checks record_machine_defs)

interpretation transaction: lifecycle_definition TRANSACTION_STATE_MACHINE_DEF
  by unfold_locales (simp_all add: lifecycle_checks record_machine_defs)

interpretation defi: lifecycle_definition DEFI_POSITION_STATE_MACHINE_DEF
  by unfold_locales (simp_all add: lifecycle_checks record_machine_defs)

interpretation user: lifecycle_definition USER_STATE_MACHINE_DEF
  by unfold_locales (simp_all add: lifecycle_checks record_machine_defs)

interpretation invitation: lifecycle_definition INVITATION_STATE_MACHINE_DEF
  by unfold_locales (simp_all add: lifecycle_checks record_machine_defs)

interpretation payment: lifecycle_definition PAYMENT_OPERATION_STATE_MACHINE_DEF
  by unfold_locales (simp_all add: lifecycle_checks record_machine_defs)

definition RECORD_MACHINES :: "StateMachineDefinition list" where
  "RECORD_MACHINES = [PORTFOLIO_STATE_MACHINE_DEF, TRANSACTION_STATE_MACHINE_DEF, DEFI_POSITION_STATE_MACHINE_DEF,
     USER_STATE_MACHINE_DEF, INVITATION_STATE_MACHINE_DEF, PAYMENT_OPERATION_STATE_MACHINE_DEF]"

lemma record_machines_ok: "d \<in> set RECORD_MACHINES \<Longrightarrow> lifecycle_definition d"
  by (auto simp: RECORD_MACHINES_def intro: portfolio.lifecycle_definition_axioms
      transaction.lifecycle_definition_axioms defi.lifecycle_definition_axioms user.lifecycle_definition_axioms
      invitation.lifecycle_definition_axioms payment.lifecycle_definition_axioms)

section \<open>Reachability in the lifecycle graphs\<close>

text \<open>The states of a definition and the edges of its graph.\<close>

definition states_of :: "StateMachineDefinition \<Rightarrow> string list" where
  "states_of d = map_keys (sd_states d)"

definition edges :: "StateMachineDefinition \<Rightarrow> (string \<times> string) list" where
  "edges d = concat (map (\<lambda>r. map (\<lambda>f. (f, tr_to r)) (fromStates r)) (sd_transitions d))"

inductive lifecycle_path :: "StateMachineDefinition \<Rightarrow> string \<Rightarrow> string \<Rightarrow> bool" for d where
  path_refl: "lifecycle_path d s s"
| path_step: "legal d s t \<Longrightarrow> lifecycle_path d t u \<Longrightarrow> lifecycle_path d s u"

inductive_cases path_from: "lifecycle_path d s u"

lemma path_trans: "lifecycle_path d s t \<Longrightarrow> lifecycle_path d t u \<Longrightarrow> lifecycle_path d s u"
  by (induction rule: lifecycle_path.induct) (auto intro: path_step)

lemma terminal_path:
  assumes "lifecycle_path d s u" "terminal d s"
  shows "u = s"
  using assms by (induction rule: lifecycle_path.induct) (auto simp: legal_def)

text \<open>States from which a set of states is reached, by \<open>n\<close> backward steps over the edges.\<close>

fun reach_back :: "nat \<Rightarrow> (string \<times> string) list \<Rightarrow> string list \<Rightarrow> string list" where
  "reach_back 0 es goal = goal"
| "reach_back (Suc n) es goal =
     reach_back n es (goal @ map fst (filter (\<lambda>(f, t). t \<in> set goal \<and> f \<notin> set goal) es))"

context lifecycle_definition
begin

lemma edge_legal: "(f, t) \<in> set (edges d) \<Longrightarrow> legal d f t"
  using terminal_final by (auto simp: edges_def legal_def list_all_iff)

lemma reach_back_path:
  assumes "s \<in> set (reach_back n (edges d) goal)"
  shows "\<exists>u\<in>set goal. lifecycle_path d s u"
  using assms
proof (induction n arbitrary: goal)
  case 0
  then show ?case by (auto intro: path_refl)
next
  case (Suc n)
  then obtain v where v: "lifecycle_path d s v"
    "v \<in> set goal \<or> (\<exists>t. (v, t) \<in> set (edges d) \<and> t \<in> set goal)" by fastforce
  then show ?case
  proof (elim disjE exE conjE)
    fix t assume e: "(v, t) \<in> set (edges d)" and "t \<in> set goal"
    from e have "lifecycle_path d v t" by (rule path_step [OF edge_legal path_refl])
    with v(1) \<open>t \<in> set goal\<close> show ?case by (blast intro: path_trans)
  qed blast
qed

end

definition reaches_end :: "StateMachineDefinition \<Rightarrow> bool" where
  "reaches_end d \<longleftrightarrow>
     list_all (\<lambda>s. s \<in> set (reach_back (Suc (Suc (Suc 0))) (edges d) (filter (terminal d) (states_of d)))) (states_of d)"

lemma PORTFOLIO_graph:
  "states_of PORTFOLIO_STATE_MACHINE_DEF = [''draft'', ''active'', ''rebalancing'', ''paused'', ''frozen'', ''archived'']"
  "edges PORTFOLIO_STATE_MACHINE_DEF = [(''draft'', ''active''), (''draft'', ''archived''), (''active'', ''rebalancing''), (''active'', ''paused''), (''active'', ''frozen''), (''active'', ''archived''), (''rebalancing'', ''active''), (''rebalancing'', ''paused''), (''rebalancing'', ''frozen''), (''paused'', ''active''), (''paused'', ''frozen''), (''paused'', ''archived''), (''frozen'', ''active''), (''frozen'', ''paused''), (''frozen'', ''archived'')]"
  "filter (terminal PORTFOLIO_STATE_MACHINE_DEF) (states_of PORTFOLIO_STATE_MACHINE_DEF) = [''archived'']"
  by (simp_all add: states_of_def edges_def terminal_def fromStates_def PORTFOLIO_STATE_MACHINE_DEF_def PORTFOLIO_STATES_def PORTFOLIO_TRANSITIONS_def
      state_entry_def rule_def)

lemma PORTFOLIO_reaches_end: "reaches_end PORTFOLIO_STATE_MACHINE_DEF"
  unfolding reaches_end_def PORTFOLIO_graph(3) unfolding PORTFOLIO_graph by simp

lemma TRANSACTION_graph:
  "states_of TRANSACTION_STATE_MACHINE_DEF = [''pending'', ''submitted'', ''confirmed'', ''failed'', ''cancelled'', ''timed_out'', ''reverted'']"
  "edges TRANSACTION_STATE_MACHINE_DEF = [(''pending'', ''submitted''), (''pending'', ''cancelled''), (''pending'', ''failed''), (''submitted'', ''confirmed''), (''submitted'', ''failed''), (''submitted'', ''timed_out''), (''submitted'', ''reverted'')]"
  "filter (terminal TRANSACTION_STATE_MACHINE_DEF) (states_of TRANSACTION_STATE_MACHINE_DEF) = [''confirmed'', ''failed'', ''cancelled'', ''timed_out'', ''reverted'']"
  by (simp_all add: states_of_def edges_def terminal_def fromStates_def TRANSACTION_STATE_MACHINE_DEF_def TRANSACTION_STATES_def TRANSACTION_TRANSITIONS_def
      state_entry_def rule_def)

lemma TRANSACTION_reaches_end: "reaches_end TRANSACTION_STATE_MACHINE_DEF"
  unfolding reaches_end_def TRANSACTION_graph(3) unfolding TRANSACTION_graph by simp

lemma DEFI_POSITION_graph:
  "states_of DEFI_POSITION_STATE_MACHINE_DEF = [''active'', ''paused'', ''liquidation_risk'', ''closed'', ''liquidated'']"
  "edges DEFI_POSITION_STATE_MACHINE_DEF = [(''active'', ''paused''), (''active'', ''liquidation_risk''), (''active'', ''closed''), (''paused'', ''active''), (''paused'', ''closed''), (''liquidation_risk'', ''active''), (''liquidation_risk'', ''liquidated''), (''liquidation_risk'', ''closed'')]"
  "filter (terminal DEFI_POSITION_STATE_MACHINE_DEF) (states_of DEFI_POSITION_STATE_MACHINE_DEF) = [''closed'', ''liquidated'']"
  by (simp_all add: states_of_def edges_def terminal_def fromStates_def DEFI_POSITION_STATE_MACHINE_DEF_def DEFI_POSITION_STATES_def DEFI_POSITION_TRANSITIONS_def
      state_entry_def rule_def)

lemma DEFI_POSITION_reaches_end: "reaches_end DEFI_POSITION_STATE_MACHINE_DEF"
  unfolding reaches_end_def DEFI_POSITION_graph(3) unfolding DEFI_POSITION_graph by simp

lemma USER_graph:
  "states_of USER_STATE_MACHINE_DEF = [''pending_verification'', ''active'', ''suspended'', ''locked'', ''deactivated'', ''archived'']"
  "edges USER_STATE_MACHINE_DEF = [(''pending_verification'', ''active''), (''pending_verification'', ''suspended''), (''pending_verification'', ''deactivated''), (''pending_verification'', ''archived''), (''active'', ''suspended''), (''active'', ''locked''), (''active'', ''deactivated''), (''active'', ''archived''), (''suspended'', ''active''), (''suspended'', ''archived''), (''locked'', ''active''), (''locked'', ''suspended''), (''locked'', ''archived''), (''deactivated'', ''active''), (''deactivated'', ''archived'')]"
  "filter (terminal USER_STATE_MACHINE_DEF) (states_of USER_STATE_MACHINE_DEF) = [''archived'']"
  by (simp_all add: states_of_def edges_def terminal_def fromStates_def USER_STATE_MACHINE_DEF_def USER_STATES_def USER_TRANSITIONS_def
      state_entry_def rule_def)

lemma USER_reaches_end: "reaches_end USER_STATE_MACHINE_DEF"
  unfolding reaches_end_def USER_graph(3) unfolding USER_graph by simp

lemma INVITATION_graph:
  "states_of INVITATION_STATE_MACHINE_DEF = [''PENDING'', ''ACCEPTED'', ''REVOKED'', ''EXPIRED'']"
  "edges INVITATION_STATE_MACHINE_DEF = [(''PENDING'', ''ACCEPTED''), (''PENDING'', ''REVOKED''), (''PENDING'', ''EXPIRED'')]"
  "filter (terminal INVITATION_STATE_MACHINE_DEF) (states_of INVITATION_STATE_MACHINE_DEF) = [''ACCEPTED'', ''REVOKED'', ''EXPIRED'']"
  by (simp_all add: states_of_def edges_def terminal_def fromStates_def INVITATION_STATE_MACHINE_DEF_def INVITATION_STATES_def INVITATION_TRANSITIONS_def
      state_entry_def rule_def)

lemma INVITATION_reaches_end: "reaches_end INVITATION_STATE_MACHINE_DEF"
  unfolding reaches_end_def INVITATION_graph(3) unfolding INVITATION_graph by simp

lemma PAYMENT_OPERATION_graph:
  "states_of PAYMENT_OPERATION_STATE_MACHINE_DEF = [''CREATING'', ''CREATED'', ''SIGNED'', ''SUBMITTING'', ''SUBMITTED'', ''RECOVERY_REQUIRED'']"
  "edges PAYMENT_OPERATION_STATE_MACHINE_DEF = [(''CREATING'', ''CREATED''), (''CREATING'', ''RECOVERY_REQUIRED''), (''CREATED'', ''SIGNED''), (''CREATED'', ''RECOVERY_REQUIRED''), (''SIGNED'', ''SUBMITTING''), (''SIGNED'', ''RECOVERY_REQUIRED''), (''SUBMITTING'', ''SUBMITTED''), (''SUBMITTING'', ''RECOVERY_REQUIRED''), (''RECOVERY_REQUIRED'', ''CREATED''), (''RECOVERY_REQUIRED'', ''SIGNED''), (''RECOVERY_REQUIRED'', ''SUBMITTING''), (''RECOVERY_REQUIRED'', ''SUBMITTED'')]"
  "filter (terminal PAYMENT_OPERATION_STATE_MACHINE_DEF) (states_of PAYMENT_OPERATION_STATE_MACHINE_DEF) = [''SUBMITTED'']"
  by (simp_all add: states_of_def edges_def terminal_def fromStates_def PAYMENT_OPERATION_STATE_MACHINE_DEF_def PAYMENT_OPERATION_STATES_def PAYMENT_OPERATION_TRANSITIONS_def
      state_entry_def rule_def)

lemma PAYMENT_OPERATION_reaches_end: "reaches_end PAYMENT_OPERATION_STATE_MACHINE_DEF"
  unfolding reaches_end_def PAYMENT_OPERATION_graph(3) unfolding PAYMENT_OPERATION_graph by simp

lemma record_states_reach_end: "d \<in> set RECORD_MACHINES \<Longrightarrow> reaches_end d"
  by (auto simp: RECORD_MACHINES_def PORTFOLIO_reaches_end TRANSACTION_reaches_end DEFI_POSITION_reaches_end USER_reaches_end INVITATION_reaches_end PAYMENT_OPERATION_reaches_end)

section \<open>Properties\<close>

text \<open>
  The six record lifecycles are well formed: each machine is built without an error, and after
  any use the transitions it offers from a state are exactly the legal ones to another state; a
  terminal state offers none, and no transition out of it succeeds.
\<close>

theorem record_machines_offer_legal:
  assumes "d \<in> set RECORD_MACHINES"
  shows "\<exists>m0. newStateMachine d = Inr m0 \<and>
    (\<forall>ops f t. f = t \<or> (t \<in> set (getAllowedTransitions (run machine_step ops m0) f)) = legal d f t) \<and>
    (\<forall>ops f. getAllowedTransitions (run machine_step ops m0) f = [] \<or> \<not> terminal d f)"
proof -
  have ok: "lifecycle_definition d" by (rule record_machines_ok [OF assms])
  from lifecycle_definition.builds [OF ok] obtain m0 where m0: "newStateMachine d = Inr m0" by blast
  from lifecycle_definition.allowed_iff_legal [OF ok reachable_inv [OF m0]]
    lifecycle_definition.terminal_has_no_exit [OF ok reachable_inv [OF m0]] m0
  show ?thesis by blast
qed

theorem record_machines_offer_legal_witness:
  "\<exists>m0. newStateMachine INVITATION_STATE_MACHINE_DEF = Inr m0 \<and>
    (\<forall>ops f. getAllowedTransitions (run machine_step ops m0) f = [] \<or> \<not> terminal INVITATION_STATE_MACHINE_DEF f)"
  using record_machines_offer_legal [of INVITATION_STATE_MACHINE_DEF] by (auto simp: RECORD_MACHINES_def)

text \<open>
  No record is trapped: in each of the six lifecycles a terminal state is reached from every
  declared state by legal transitions, and nothing but the state itself is reached from a terminal one.
\<close>

theorem record_lifecycles_can_end:
  assumes "d \<in> set RECORD_MACHINES" "s \<in> set (states_of d)"
  shows "(\<exists>u. terminal d u \<and> lifecycle_path d s u) \<and> (terminal d s \<longrightarrow> {u. lifecycle_path d s u} = {s})"
proof -
  have "s \<in> set (reach_back (Suc (Suc (Suc 0))) (edges d) (filter (terminal d) (states_of d)))"
    using record_states_reach_end [OF assms(1)] assms(2) by (simp only: reaches_end_def list_all_iff)
  from lifecycle_definition.reach_back_path [OF record_machines_ok [OF assms(1)] this] show ?thesis
    by (auto dest: terminal_path intro: path_refl)
qed

theorem record_lifecycles_can_end_witness:
  "\<exists>u. terminal PAYMENT_OPERATION_STATE_MACHINE_DEF u \<and>
     lifecycle_path PAYMENT_OPERATION_STATE_MACHINE_DEF ''RECOVERY_REQUIRED'' u"
  by (rule record_lifecycles_can_end [THEN conjunct1])
    (simp_all add: RECORD_MACHINES_def PAYMENT_OPERATION_graph)

text \<open>
  The derived lifecycle states are states of the machines: whatever the legacy fields hold, the
  derived user state is declared in the user machine and the derived portfolio state in the portfolio
  machine, a deleted portfolio is archived, and a declared state name is kept.
\<close>

theorem derived_states_declared:
  "deriveUserLifecycleState u \<in> set (states_of USER_STATE_MACHINE_DEF) \<and>
   derivePortfolioLifecycleState p \<in> set (states_of PORTFOLIO_STATE_MACHINE_DEF) \<and>
   derivePortfolioLifecycleState \<lparr>pf_status = st, pf_deletedAt = Some t\<rparr> = ''archived'' \<and>
   list_all (\<lambda>s. deriveUserLifecycleState (u\<lparr>uf_lifecycleState := Some s\<rparr>) = s) (states_of USER_STATE_MACHINE_DEF) \<and>
   list_all (\<lambda>s. derivePortfolioLifecycleState \<lparr>pf_status = Some s, pf_deletedAt = None\<rparr> = s) (states_of PORTFOLIO_STATE_MACHINE_DEF)"
proof -
  have "states_of USER_STATE_MACHINE_DEF = UserLifecycleState_values"
    "states_of PORTFOLIO_STATE_MACHINE_DEF = PortfolioLifecycleState_values"
    unfolding USER_graph PORTFOLIO_graph by (simp_all add: UserLifecycleState_values_def PortfolioLifecycleState_values_def)
  moreover have "deriveUserLifecycleState u \<in> set UserLifecycleState_values"
    by (simp add: deriveUserLifecycleState_def Let_def UserLifecycleState_values_def)
  moreover have "derivePortfolioLifecycleState p \<in> set PortfolioLifecycleState_values"
    by (simp add: derivePortfolioLifecycleState_def PortfolioLifecycleState_values_def split: option.split)
  moreover have "derivePortfolioLifecycleState \<lparr>pf_status = st, pf_deletedAt = Some t\<rparr> = ''archived''"
    by (simp add: derivePortfolioLifecycleState_def)
  moreover have "list_all (\<lambda>s. deriveUserLifecycleState (u\<lparr>uf_lifecycleState := Some s\<rparr>) = s) UserLifecycleState_values"
    by (simp add: deriveUserLifecycleState_def Let_def UserLifecycleState_values_def toLowerCase_def char_lower_def)
  moreover have "list_all (\<lambda>s. derivePortfolioLifecycleState \<lparr>pf_status = Some s, pf_deletedAt = None\<rparr> = s) PortfolioLifecycleState_values"
    by (simp add: derivePortfolioLifecycleState_def PortfolioLifecycleState_values_def)
  ultimately show ?thesis by simp
qed

end
