(* ===== verification/Lifecycle_Service.thy ===== *)
theory Lifecycle_Service
  imports Record_Machines
begin

text \<open>
  \<open>src/common/lifecycle/lifecycle.service.ts\<close>: guarded transitions of records with a durable audit
  event and a notification.  The four machines the service uses are shared objects, so they are part
  of the state; the calls of the audit service and of the event emitter, which live outside this
  component, are kept in logs, and whether the audit call succeeds is an input (its failure is only
  logged).  \<open>now i\<close> is the i-th clock reading of a call, and the values of a snapshot are
  kept as strings.  Every transition ends by calling \<open>deriveStateModel\<close> of the machine, a method that
  \<open>DeterministicStateMachine\<close> does not have: the call throws a \<open>TypeError\<close>.
\<close>

datatype service_error = MachineError sm_error | TypeError string

datatype SensitiveAction =
    PORTFOLIO_RECORD_CHANGED | USER_SUSPENDED | USER_REACTIVATED | USER_DELETED | ROLE_ASSIGNED

datatype AuditActorType = Actor_USER | Actor_SYSTEM | Actor_MAINTAINER

datatype SensitiveActionStatus = SUCCEEDED

type_synonym snapshot = "(string, string) jsmap"

record SensitiveActionRecord =
  sa_action :: SensitiveAction
  sa_actorId :: string
  sa_actorType :: AuditActorType
  sa_actorRole :: "string option"
  sa_resourceType :: string
  sa_resourceId :: string
  sa_reason :: string
  sa_beforeState :: snapshot
  sa_afterState :: snapshot
  sa_status :: SensitiveActionStatus

record CriticalLifecycleEvent =
  cl_userId :: string
  cl_title :: string
  cl_message :: string
  cl_deepLink :: string
  cl_deduplicationKey :: string
  cl_referenceId :: string
  cl_referenceType :: string

record LifecycleService =
  ls_hasAudit :: bool
  ls_hasEmitter :: bool
  ls_portfolio :: DeterministicStateMachine
  ls_user :: DeterministicStateMachine
  ls_defiPosition :: DeterministicStateMachine
  ls_transaction :: DeterministicStateMachine
  ls_auditCalls :: "SensitiveActionRecord list"
  ls_events :: "CriticalLifecycleEvent list"

record StateDerivedModel =
  dm_state :: string
  dm_isTerminal :: bool
  dm_allowedTransitions :: "string list"

text \<open>A truthy string: present and not empty.\<close>

definition truthy :: "string option \<Rightarrow> bool" where
  "truthy s \<longleftrightarrow> (case s of None \<Rightarrow> False | Some x \<Rightarrow> x \<noteq> '''')"

definition reasonOr :: "TransitionContext option \<Rightarrow> string \<Rightarrow> string" where
  "reasonOr ctx def = (case Option.bind ctx tc_reason of None \<Rightarrow> def | Some r \<Rightarrow> if r = '''' then def else r)"

text \<open>\<open>{ ...(beforeSnapshot || {}), lifecycleState: state }\<close>.\<close>

definition with_state :: "string \<Rightarrow> snapshot option \<Rightarrow> snapshot" where
  "with_state state snap = map_set ''lifecycleState'' state (case snap of None \<Rightarrow> [] | Some m \<Rightarrow> m)"

text \<open>The two calls on the machine that every transition of the service starts with.\<close>

definition guarded ::
  "string \<Rightarrow> string \<Rightarrow> string \<Rightarrow> string \<Rightarrow> TransitionContext option \<Rightarrow> (nat \<Rightarrow> string) \<Rightarrow> DeterministicStateMachine \<Rightarrow>
   (sm_error, string) result \<times> DeterministicStateMachine" where
  "guarded resourceType resourceId currentState targetState ctx now m =
     (let md = Some \<lparr>tm_resourceId = Some resourceId, tm_resourceType = Some resourceType, tm_actor = None\<rparr>
      in case assertCanTransition currentState targetState ctx md (now 0) m of
           (Inl e, m1) \<Rightarrow> (Inl e, m1)
         | (Inr _, m1) \<Rightarrow> transition currentState targetState ctx md (now 1) (now 2) m1)"

definition portfolio_audit :: "string \<Rightarrow> string \<Rightarrow> string \<Rightarrow> TransitionContext option \<Rightarrow> snapshot option \<Rightarrow> SensitiveActionRecord" where
  "portfolio_audit portfolioId currentState targetState ctx snap =
     \<lparr>sa_action = PORTFOLIO_RECORD_CHANGED,
      sa_actorId = (case Option.bind ctx tc_actorId of None \<Rightarrow> ''system'' | Some a \<Rightarrow> a),
      sa_actorType = (if truthy (Option.bind ctx tc_actorId) then Actor_USER else Actor_SYSTEM),
      sa_actorRole = Option.bind ctx tc_actorRole, sa_resourceType = ''portfolio'', sa_resourceId = portfolioId,
      sa_reason = reasonOr ctx (''Portfolio lifecycle transition: '' @ currentState @ '' -> '' @ targetState),
      sa_beforeState = with_state currentState snap, sa_afterState = with_state targetState snap,
      sa_status = SUCCEEDED\<rparr>"

definition frozen_event :: "string \<Rightarrow> string \<Rightarrow> string \<Rightarrow> TransitionContext option \<Rightarrow> CriticalLifecycleEvent" where
  "frozen_event userId portfolioId now ctx =
     \<lparr>cl_userId = userId, cl_title = ''Portfolio Frozen'',
      cl_message = ''Portfolio '' @ portfolioId @ '' has been frozen. Reason: '' @ reasonOr ctx ''Risk guard triggered'',
      cl_deepLink = ''/portfolio/'' @ portfolioId,
      cl_deduplicationKey = ''portfolio-frozen-'' @ portfolioId @ ''-'' @ now,
      cl_referenceId = portfolioId, cl_referenceType = ''portfolio''\<rparr>"

definition transitionPortfolio ::
  "string \<Rightarrow> string \<Rightarrow> string \<Rightarrow> TransitionContext option \<Rightarrow> snapshot option \<Rightarrow> (nat \<Rightarrow> string) \<Rightarrow> LifecycleService \<Rightarrow>
   (service_error, string \<times> StateDerivedModel) result \<times> LifecycleService" where
  "transitionPortfolio portfolioId currentState targetState ctx snap now s =
     (case guarded ''portfolio'' portfolioId currentState targetState ctx now (ls_portfolio s) of
        (Inl e, m) \<Rightarrow> (Inl (MachineError e), s\<lparr>ls_portfolio := m\<rparr>)
      | (Inr nextState, m) \<Rightarrow>
          let s1 = s\<lparr>ls_portfolio := m\<rparr>;
              s2 = (if ls_hasAudit s1
                    then s1\<lparr>ls_auditCalls := ls_auditCalls s1 @ [portfolio_audit portfolioId currentState targetState ctx snap]\<rparr>
                    else s1);
              s3 = (if ls_hasEmitter s2 \<and> truthy (Option.bind ctx tc_userId) \<and> targetState = ''frozen''
                    then s2\<lparr>ls_events := ls_events s2 @
                           [frozen_event (the (Option.bind ctx tc_userId)) portfolioId (now 3) ctx]\<rparr>
                    else s2)
          in (Inl (TypeError ''PortfolioStateMachine.deriveStateModel is not a function''), s3))"

definition user_action :: "string \<Rightarrow> SensitiveAction" where
  "user_action targetState =
     (if targetState = ''suspended'' then USER_SUSPENDED
      else if targetState = ''active'' then USER_REACTIVATED
      else if targetState = ''archived'' then USER_DELETED
      else ROLE_ASSIGNED)"

definition user_audit :: "string \<Rightarrow> string \<Rightarrow> string \<Rightarrow> TransitionContext option \<Rightarrow> snapshot option \<Rightarrow> SensitiveActionRecord" where
  "user_audit userId currentState targetState ctx snap =
     \<lparr>sa_action = user_action targetState,
      sa_actorId = (case Option.bind ctx tc_actorId of None \<Rightarrow> userId | Some a \<Rightarrow> a),
      sa_actorType = (if truthy (Option.bind ctx tc_actorRole) then Actor_MAINTAINER else Actor_USER),
      sa_actorRole = Option.bind ctx tc_actorRole, sa_resourceType = ''user'', sa_resourceId = userId,
      sa_reason = reasonOr ctx (''User lifecycle transition: '' @ currentState @ '' -> '' @ targetState),
      sa_beforeState = with_state currentState snap, sa_afterState = with_state targetState snap,
      sa_status = SUCCEEDED\<rparr>"

definition transitionUser ::
  "string \<Rightarrow> string \<Rightarrow> string \<Rightarrow> TransitionContext option \<Rightarrow> snapshot option \<Rightarrow> (nat \<Rightarrow> string) \<Rightarrow> LifecycleService \<Rightarrow>
   (service_error, string \<times> StateDerivedModel) result \<times> LifecycleService" where
  "transitionUser userId currentState targetState ctx snap now s =
     (case guarded ''user'' userId currentState targetState ctx now (ls_user s) of
        (Inl e, m) \<Rightarrow> (Inl (MachineError e), s\<lparr>ls_user := m\<rparr>)
      | (Inr nextState, m) \<Rightarrow>
          let s1 = s\<lparr>ls_user := m\<rparr>;
              s2 = (if ls_hasAudit s1
                    then s1\<lparr>ls_auditCalls := ls_auditCalls s1 @ [user_audit userId currentState targetState ctx snap]\<rparr>
                    else s1)
          in (Inl (TypeError ''UserStateMachine.deriveStateModel is not a function''), s2))"

definition transitionDeFiPosition ::
  "string \<Rightarrow> string \<Rightarrow> string \<Rightarrow> TransitionContext option \<Rightarrow> snapshot option \<Rightarrow> (nat \<Rightarrow> string) \<Rightarrow> LifecycleService \<Rightarrow>
   (service_error, string \<times> StateDerivedModel) result \<times> LifecycleService" where
  "transitionDeFiPosition positionId currentState targetState ctx snap now s =
     (case guarded ''defi_position'' positionId currentState targetState ctx now (ls_defiPosition s) of
        (Inl e, m) \<Rightarrow> (Inl (MachineError e), s\<lparr>ls_defiPosition := m\<rparr>)
      | (Inr nextState, m) \<Rightarrow>
          (Inl (TypeError ''DeFiPositionStateMachine.deriveStateModel is not a function''), s\<lparr>ls_defiPosition := m\<rparr>))"

definition transitionTransaction ::
  "string \<Rightarrow> string \<Rightarrow> string \<Rightarrow> TransitionContext option \<Rightarrow> (nat \<Rightarrow> string) \<Rightarrow> LifecycleService \<Rightarrow>
   (service_error, string \<times> StateDerivedModel) result \<times> LifecycleService" where
  "transitionTransaction transactionId currentState targetState ctx now s =
     (case guarded ''transaction'' transactionId currentState targetState ctx now (ls_transaction s) of
        (Inl e, m) \<Rightarrow> (Inl (MachineError e), s\<lparr>ls_transaction := m\<rparr>)
      | (Inr nextState, m) \<Rightarrow>
          (Inl (TypeError ''TransactionStateMachine.deriveStateModel is not a function''), s\<lparr>ls_transaction := m\<rparr>))"

definition evaluatePortfolioTransition ::
  "string \<Rightarrow> string \<Rightarrow> TransitionContext option \<Rightarrow> string \<Rightarrow> LifecycleService \<Rightarrow>
   (sm_error, TransitionEvaluationResult) result \<times> LifecycleService" where
  "evaluatePortfolioTransition fromState toState ctx now s =
     (case evaluateTransition fromState toState ctx None now (ls_portfolio s) of
        (res, m) \<Rightarrow> (res, s\<lparr>ls_portfolio := m\<rparr>))"

section \<open>Facts\<close>

definition committed :: "DeterministicStateMachine \<Rightarrow> (string option \<times> string \<times> string) list" where
  "committed m = map (\<lambda>e. (ae_resourceId e, ae_fromState e, ae_toState e))
     (filter (\<lambda>e. ae_kind e = Kind_transition) (sm_auditTrail m))"

lemma committed_evaluation:
  "committed (snd (recordAudit Kind_evaluation f t a ctx md r now m)) = committed m"
  by (simp add: committed_def recordAudit_def Let_def)

lemma committed_transition:
  "committed (snd (recordAudit Kind_transition f t a ctx md r now m)) =
     committed m @ [(Option.bind md tm_resourceId, f, t)]"
  by (simp add: committed_def recordAudit_def Let_def)

text \<open>What a guarded transition does to the machine, by whether it is legal and its guards pass.\<close>

lemma guarded_passes:
  assumes inv: "machine_inv d m" and ok: "legal d f t" "guards_of d f t ctx = Guard_pass"
  shows "fst (guarded ty rid f t ctx now m) = Inr t"
    and "committed (snd (guarded ty rid f t ctx now m)) = committed m @ [(Some rid, f, t)]"
proof -
  let ?md = "Some \<lparr>tm_resourceId = Some rid, tm_resourceType = Some ty, tm_actor = None\<rparr>"
  let ?m = "snd (recordAudit Kind_evaluation f t True ctx ?md None (now 0) m)"
  have "machine_inv d ?m" using inv ok(1) by (intro recordAudit_inv) simp_all
  with evaluate_accepts [OF inv ok] evaluate_accepts [OF _ ok, of ?m]
  show "fst (guarded ty rid f t ctx now m) = Inr t"
    "committed (snd (guarded ty rid f t ctx now m)) = committed m @ [(Some rid, f, t)]"
    by (simp_all add: guarded_def transition_eq assertCanTransition_def accept_eq Let_def
        committed_transition committed_evaluation)
qed

lemma guarded_fails:
  assumes inv: "machine_inv d m" and no: "\<not> (legal d f t \<and> guards_of d f t ctx = Guard_pass)"
  shows "\<exists>e. fst (guarded ty rid f t ctx now m) = Inl e"
    and "committed (snd (guarded ty rid f t ctx now m)) = committed m"
  by (rule evaluate_cases [OF inv, of f t ctx "Some \<lparr>tm_resourceId = Some rid, tm_resourceType = Some ty, tm_actor = None\<rparr>" "now 0"];
      use no in \<open>auto simp: guarded_def Let_def assertCanTransition_def reject_eq committed_evaluation\<close>)+

lemma portfolio_guards: "guards_of PORTFOLIO_STATE_MACHINE_DEF f t ctx = Guard_pass"
proof -
  have "eval_guards rs ctx = Guard_pass" if "list_all (\<lambda>r. tr_guard r = None) rs" for rs
    using that by (induction rs) auto
  moreover have "list_all (\<lambda>r. tr_guard r = None) (sd_transitions PORTFOLIO_STATE_MACHINE_DEF)"
    by (simp add: PORTFOLIO_STATE_MACHINE_DEF_def PORTFOLIO_TRANSITIONS_def rule_def)
  then have "list_all (\<lambda>r. tr_guard r = None) (filter (\<lambda>r. tr_to r = t) (rules_spec PORTFOLIO_STATE_MACHINE_DEF f))"
    by (auto simp: list_all_iff set_rules_spec)
  ultimately show ?thesis by (simp add: guards_of_def)
qed

section \<open>Properties\<close>

text \<open>
  A portfolio transition of the lifecycle service has its effects and then fails: a legal request
  commits exactly one transition of the machine for that portfolio, writes one audit event marked as
  succeeded (when an audit service is there) and notifies the user of a freeze, but the caller always
  gets a \<open>TypeError\<close>; an illegal request commits nothing, writes no event and fails.
\<close>

theorem portfolio_transition_effects:
  assumes "machine_inv PORTFOLIO_STATE_MACHINE_DEF (ls_portfolio s)"
  shows "let r = transitionPortfolio portfolioId f t ctx snap now s in
    if legal PORTFOLIO_STATE_MACHINE_DEF f t
    then fst r = Inl (TypeError ''PortfolioStateMachine.deriveStateModel is not a function'') \<and>
      committed (ls_portfolio (snd r)) = committed (ls_portfolio s) @ [(Some portfolioId, f, t)] \<and>
      ls_auditCalls (snd r) = ls_auditCalls s @ (if ls_hasAudit s then [portfolio_audit portfolioId f t ctx snap] else []) \<and>
      length (ls_events (snd r)) = length (ls_events s) +
        (if ls_hasEmitter s \<and> truthy (Option.bind ctx tc_userId) \<and> t = ''frozen'' then 1 else 0)
    else (\<exists>e. fst r = Inl (MachineError e)) \<and> committed (ls_portfolio (snd r)) = committed (ls_portfolio s) \<and>
      ls_auditCalls (snd r) = ls_auditCalls s \<and> ls_events (snd r) = ls_events s"
proof (cases "legal PORTFOLIO_STATE_MACHINE_DEF f t")
  case True
  from guarded_passes [OF assms True portfolio_guards, of "''portfolio''" portfolioId ctx now] True show ?thesis
    by (auto simp: transitionPortfolio_def Let_def case_prod_unfold)
next
  case False
  from guarded_fails [OF assms, of f t ctx "''portfolio''" portfolioId now] False show ?thesis
    by (auto simp: transitionPortfolio_def Let_def case_prod_unfold)
qed

definition portfolioMachine :: DeterministicStateMachine where
  "portfolioMachine = projr (newStateMachine PORTFOLIO_STATE_MACHINE_DEF)"

lemma portfolioMachine_inv: "machine_inv PORTFOLIO_STATE_MACHINE_DEF portfolioMachine"
  using portfolio.builds machine_inv_new by (auto simp: portfolioMachine_def)

definition sampleService :: LifecycleService where
  "sampleService = \<lparr>ls_hasAudit = True, ls_hasEmitter = True, ls_portfolio = portfolioMachine, ls_user = portfolioMachine,
     ls_defiPosition = portfolioMachine, ls_transaction = portfolioMachine, ls_auditCalls = [], ls_events = []\<rparr>"

theorem portfolio_transition_effects_witness:
  "fst (transitionPortfolio ''p1'' ''active'' ''frozen'' None None (\<lambda>_. ''0'') sampleService) =
     Inl (TypeError ''PortfolioStateMachine.deriveStateModel is not a function'')"
proof -
  have "(''active'', ''frozen'') \<in> set (edges PORTFOLIO_STATE_MACHINE_DEF)" by (simp add: PORTFOLIO_graph)
  then have "legal PORTFOLIO_STATE_MACHINE_DEF ''active'' ''frozen''" by (rule portfolio.edge_legal)
  then show ?thesis
    using portfolio_transition_effects [of sampleService "''p1''" "''active''" "''frozen''" None None "\<lambda>_. ''0''"] portfolioMachine_inv
    by (simp add: sampleService_def Let_def)
qed

end
