(* ===== verification/Preflight_Decimal.thy ===== *)
theory Preflight_Decimal
  imports Trellis_Prelude Complex_Main
begin

text \<open>
  \<open>src/preflight/preflight.decimal.ts\<close>: exact arithmetic on decimal strings.  \<open>BigInt(s)\<close> throws a
  \<open>SyntaxError\<close> when \<open>s\<close> is not an integer literal, so the operations return a sum.  The abstract
  specification is the rational value of a decimal string: comparison, subtraction, addition and
  normalisation are the operations of the rationals on these values.
\<close>

section \<open>Integers and strings\<close>

definition digit_val :: "char \<Rightarrow> nat" where
  "digit_val c = of_char c - 48"

definition is_digit :: "char \<Rightarrow> bool" where
  "is_digit c \<longleftrightarrow> 48 \<le> (of_char c :: nat) \<and> (of_char c :: nat) \<le> 57"

definition digit_char :: "nat \<Rightarrow> char" where
  "digit_char n = char_of (48 + n)"

definition nat_of_digits :: "string \<Rightarrow> nat" where
  "nat_of_digits s = fold (\<lambda>c n. n * 10 + digit_val c) s 0"

fun show_nat :: "nat \<Rightarrow> string" where
  "show_nat n = (if n < 10 then [digit_char n] else show_nat (n div 10) @ [digit_char (n mod 10)])"

declare show_nat.simps [simp del]

definition padEnd :: "string \<Rightarrow> nat \<Rightarrow> string" where
  "padEnd s n = s @ replicate (n - length s) CHR ''0''"

definition padStart :: "string \<Rightarrow> nat \<Rightarrow> string" where
  "padStart s n = replicate (n - length s) CHR ''0'' @ s"

text \<open>The values of the digits of the literals with a radix prefix (\<open>0x\<close>, \<open>0o\<close>, \<open>0b\<close>).\<close>

definition radix_digit :: "char \<Rightarrow> nat option" where
  "radix_digit c = (let n = of_char c :: nat in
     if is_digit c then Some (n - 48)
     else if 97 \<le> n \<and> n \<le> 122 then Some (n - 87)
     else if 65 \<le> n \<and> n \<le> 90 then Some (n - 55)
     else None)"

fun radix_value :: "nat \<Rightarrow> string \<Rightarrow> nat \<Rightarrow> nat option" where
  "radix_value b [] acc = Some acc"
| "radix_value b (c # s) acc =
     (case radix_digit c of None \<Rightarrow> None | Some d \<Rightarrow> if d < b then radix_value b s (acc * b + d) else None)"

datatype decimal_error = SyntaxError string

text \<open>\<open>BigInt\<close> of a string: an empty one is zero, a decimal literal may have a sign.\<close>

definition BigInt :: "string \<Rightarrow> (decimal_error, int) result" where
  "BigInt str =
     (let s = trim str;
          bad = Inl (SyntaxError (''Cannot convert '' @ str @ '' to a BigInt''));
          radix = (\<lambda>b ds. if ds = [] then bad else case radix_value b ds 0 of None \<Rightarrow> bad | Some n \<Rightarrow> Inr (int n));
          dec = (\<lambda>ds sgn. if ds \<noteq> [] \<and> list_all is_digit ds then Inr (sgn * int (nat_of_digits ds)) else bad)
      in case s of
           [] \<Rightarrow> Inr 0
         | c # ds \<Rightarrow>
             if c = CHR ''-'' then dec ds (-1)
             else if c = CHR ''+'' then dec ds 1
             else if c = CHR ''0'' \<and> ds \<noteq> [] \<and> hd ds \<in> set ''xX'' then radix 16 (tl ds)
             else if c = CHR ''0'' \<and> ds \<noteq> [] \<and> hd ds \<in> set ''oO'' then radix 8 (tl ds)
             else if c = CHR ''0'' \<and> ds \<noteq> [] \<and> hd ds \<in> set ''bB'' then radix 2 (tl ds)
             else dec s 1)"

section \<open>Decimal strings\<close>

text \<open>The pattern \<open>^\d+(\.\d+)?$\<close>.\<close>

definition decimal_pattern :: "string \<Rightarrow> bool" where
  "decimal_pattern s =
     (case split_on CHR ''.'' s of
        [i] \<Rightarrow> i \<noteq> [] \<and> list_all is_digit i
      | [i, f] \<Rightarrow> i \<noteq> [] \<and> list_all is_digit i \<and> f \<noteq> [] \<and> list_all is_digit f
      | _ \<Rightarrow> False)"

definition isDecimalString :: "string \<Rightarrow> bool" where
  "isDecimalString v \<longleftrightarrow> decimal_pattern (trim v)"

definition splitDecimal :: "string \<Rightarrow> string \<times> string" where
  "splitDecimal v =
     (let parts = split_on CHR ''.'' (trim v);
          integer = (case parts of [] \<Rightarrow> [] | i # _ \<Rightarrow> i);
          fraction = (case parts of _ # f # _ \<Rightarrow> f | _ \<Rightarrow> [])
      in (if integer = [] then ''0'' else integer, fraction))"

definition scaledParts :: "string \<Rightarrow> string \<Rightarrow> (decimal_error, int \<times> int \<times> nat) result" where
  "scaledParts a b =
     (let (li, lf) = splitDecimal a;
          (ri, rf) = splitDecimal b;
          scale = max (length lf) (length rf)
      in case BigInt (li @ padEnd lf scale) of
           Inl e \<Rightarrow> Inl e
         | Inr x \<Rightarrow> (case BigInt (ri @ padEnd rf scale) of
               Inl e \<Rightarrow> Inl e
             | Inr y \<Rightarrow> Inr (x, y, scale)))"

text \<open>\<open>fraction.replace(/0+$/, "")\<close>.\<close>

definition strip_zeros :: "string \<Rightarrow> string" where
  "strip_zeros s = rev (dropWhile (\<lambda>c. c = CHR ''0'') (rev s))"

definition formatScaled :: "int \<Rightarrow> nat \<Rightarrow> string" where
  "formatScaled v scale =
     (let negative = v < 0;
          absolute = nat \<bar>v\<bar>;
          padded = padStart (show_nat absolute) (scale + 1);
          integer = take (length padded - scale) padded;
          fraction = (if scale > 0 then drop (length padded - scale) padded else []);
          trimmedFraction = strip_zeros fraction;
          rendered = (if trimmedFraction \<noteq> [] then integer @ ''.'' @ trimmedFraction else integer)
      in if negative \<and> rendered \<noteq> ''0'' then ''-'' @ rendered else rendered)"

definition normalizeDecimal :: "string \<Rightarrow> (decimal_error, string) result" where
  "normalizeDecimal v =
     (case scaledParts v ''0'' of Inl e \<Rightarrow> Inl e | Inr (a, _, scale) \<Rightarrow> Inr (formatScaled a scale))"

definition compareDecimal :: "string \<Rightarrow> string \<Rightarrow> (decimal_error, int) result" where
  "compareDecimal a b =
     (case scaledParts a b of
        Inl e \<Rightarrow> Inl e
      | Inr (left, right, _) \<Rightarrow> Inr (if left < right then -1 else if left > right then 1 else 0))"

definition subtractDecimal :: "string \<Rightarrow> string \<Rightarrow> (decimal_error, string) result" where
  "subtractDecimal a b =
     (case scaledParts a b of Inl e \<Rightarrow> Inl e | Inr (left, right, scale) \<Rightarrow> Inr (formatScaled (left - right) scale))"

definition addDecimal :: "string \<Rightarrow> string \<Rightarrow> (decimal_error, string) result" where
  "addDecimal a b =
     (case scaledParts a b of Inl e \<Rightarrow> Inl e | Inr (left, right, scale) \<Rightarrow> Inr (formatScaled (left + right) scale))"

definition PREFLIGHT_DECIMAL_SCALE :: nat where
  "PREFLIGHT_DECIMAL_SCALE = 18"

definition toScaledInteger :: "string \<Rightarrow> nat \<Rightarrow> (decimal_error, int) result" where
  "toScaledInteger v scale =
     (let (integer, fraction) = splitDecimal v in BigInt (integer @ take scale (padEnd fraction scale)))"

section \<open>Digits\<close>

lemma is_digit_0 [simp]: "is_digit CHR ''0''" "digit_val CHR ''0'' = 0"
  by (simp_all add: is_digit_def digit_val_def)

lemma digit_char_0: "digit_char 0 = CHR ''0''"
  by (simp add: digit_char_def char_of_def bit_0)

lemma digit_char_props [simp]:
  assumes "n < 10"
  shows "is_digit (digit_char n)" "digit_val (digit_char n) = n"
  using assms by (simp_all add: is_digit_def digit_val_def digit_char_def)

lemma is_digit_not_special [simp]:
  assumes "is_digit c"
  shows "c \<noteq> CHR ''.''" "c \<noteq> CHR ''-''" "c \<noteq> CHR ''+''" "\<not> is_space c" "c \<notin> set ''xX''" "c \<notin> set ''oO''" "c \<notin> set ''bB''"
  using assms by (auto simp: is_digit_def is_space_def)

lemma nat_of_digits_app: "nat_of_digits (s @ t) = nat_of_digits s * 10 ^ length t + nat_of_digits t"
proof -
  have shift: "fold (\<lambda>c n. n * 10 + digit_val c) t m = m * 10 ^ length t + fold (\<lambda>c n. n * 10 + digit_val c) t 0" for m
  proof (induction t arbitrary: m)
    case (Cons c t)
    show ?case using Cons.IH [of "m * 10 + digit_val c"] Cons.IH [of "digit_val c"]
      by (simp add: distrib_right)
  qed simp
  show ?thesis by (simp add: nat_of_digits_def shift [of "fold _ s 0"])
qed

lemma nat_of_digits_simps [simp]:
  "nat_of_digits [] = 0" "nat_of_digits [c] = digit_val c" "nat_of_digits (replicate n CHR ''0'') = 0"
proof -
  show "nat_of_digits (replicate n CHR ''0'') = 0"
    by (induction n) (simp_all add: nat_of_digits_def)
qed (simp_all add: nat_of_digits_def)

lemma show_nat_props: "nat_of_digits (show_nat n) = n \<and> show_nat n \<noteq> [] \<and> list_all is_digit (show_nat n)"
proof (induction n rule: show_nat.induct)
  case (1 n)
  then show ?case by (subst (1 2 3) show_nat.simps) (simp add: nat_of_digits_app)
qed

lemmas show_nat_value [simp] = show_nat_props [THEN conjunct1]

lemma show_nat_10: "0 < n \<Longrightarrow> show_nat (10 * n) = show_nat n @ ''0''"
  by (subst show_nat.simps) (simp add: digit_char_0)

lemma show_nat_0: "show_nat 0 = ''0''"
  by (simp add: show_nat.simps digit_char_0)

section \<open>The value of a decimal string\<close>

lemma trim_digits:
  assumes "list_all (\<lambda>c. \<not> is_space c) s"
  shows "trim s = s"
proof -
  have "dropWhile is_space t = t" if "set t \<subseteq> set s" for t
    using that assms by (cases t) (auto simp: list_all_iff)
  then show ?thesis by (simp add: trim_def)
qed

lemma list_all_zeros [simp]: "list_all is_digit (replicate n CHR ''0'')"
  by (induction n) simp_all

lemma letters_not_digits:
  "\<not> is_digit CHR ''x''" "\<not> is_digit CHR ''X''" "\<not> is_digit CHR ''o''" "\<not> is_digit CHR ''O''"
  "\<not> is_digit CHR ''b''" "\<not> is_digit CHR ''B''" "\<not> is_digit CHR ''-''" "\<not> is_digit CHR ''+''"
  by (simp_all add: is_digit_def)

lemma BigInt_digits:
  assumes "list_all is_digit s"
  shows "BigInt s = Inr (int (nat_of_digits s))"
proof -
  have t: "trim s = s" using assms by (intro trim_digits) (auto simp: list_all_iff)
  show ?thesis
  proof (cases s)
    case (Cons c ds)
    have "ds \<noteq> [] \<Longrightarrow> is_digit (hd ds)" "is_digit c" using assms Cons by (auto simp: list_all_iff)
    then show ?thesis using assms t Cons by (auto simp: BigInt_def Let_def letters_not_digits)
  qed (simp add: BigInt_def Let_def trim_def)
qed

lemma isDecimal_parts:
  assumes "isDecimalString v"
  shows "list_all is_digit (fst (splitDecimal v)) \<and> fst (splitDecimal v) \<noteq> [] \<and> list_all is_digit (snd (splitDecimal v))"
  using assms
  by (auto simp: isDecimalString_def decimal_pattern_def splitDecimal_def Let_def split: list.splits)

definition mantissa :: "string \<Rightarrow> nat" where
  "mantissa v = nat_of_digits (fst (splitDecimal v) @ snd (splitDecimal v))"

definition places :: "string \<Rightarrow> nat" where
  "places v = length (snd (splitDecimal v))"

definition dval :: "string \<Rightarrow> rat" where
  "dval v = of_nat (mantissa v) / 10 ^ places v"

lemma dval_nonneg [simp]: "0 \<le> dval v"
  by (simp add: dval_def)

lemma scaled_bigint:
  assumes "isDecimalString v" "places v \<le> n"
  shows "BigInt (fst (splitDecimal v) @ padEnd (snd (splitDecimal v)) n) = Inr (int (mantissa v * 10 ^ (n - places v)))"
proof -
  have "list_all is_digit (fst (splitDecimal v) @ padEnd (snd (splitDecimal v)) n)"
    using isDecimal_parts [OF assms(1)] by (simp add: padEnd_def)
  then have "BigInt (fst (splitDecimal v) @ padEnd (snd (splitDecimal v)) n) =
      Inr (int (nat_of_digits ((fst (splitDecimal v) @ snd (splitDecimal v)) @ replicate (n - places v) CHR ''0'')))"
    by (simp add: BigInt_digits padEnd_def places_def)
  then show ?thesis unfolding nat_of_digits_app [of "fst _ @ snd _"] mantissa_def by simp
qed

definition common_scale :: "string \<Rightarrow> string \<Rightarrow> nat" where
  "common_scale a b = max (places a) (places b)"

definition scaled :: "string \<Rightarrow> nat \<Rightarrow> int" where
  "scaled v n = int (mantissa v * 10 ^ (n - places v))"

lemma scaledParts_decimal:
  assumes "isDecimalString a" "isDecimalString b"
  shows "scaledParts a b = Inr (scaled a (common_scale a b), scaled b (common_scale a b), common_scale a b)"
  using scaled_bigint [OF assms(1), of "common_scale a b"] scaled_bigint [OF assms(2), of "common_scale a b"]
  by (simp add: scaledParts_def case_prod_unfold Let_def common_scale_def scaled_def places_def)

lemma scaled_dval: "places v \<le> n \<Longrightarrow> of_int (scaled v n) = dval v * 10 ^ n"
  using power_add [of "10 :: rat" "places v" "n - places v"] by (simp add: scaled_def dval_def)

lemma scaled_common:
  "of_int (scaled a (common_scale a b)) = dval a * 10 ^ common_scale a b"
  "of_int (scaled b (common_scale a b)) = dval b * 10 ^ common_scale a b"
  by (simp_all add: scaled_dval common_scale_def)

section \<open>Rendering\<close>

lemma strip_zeros_app0: "strip_zeros (s @ ''0'') = strip_zeros s"
  by (simp add: strip_zeros_def)

lemma strip_zeros_zeros [simp]: "strip_zeros (replicate n CHR ''0'') = []"
  by (induction n) (simp_all add: strip_zeros_def dropWhile_append3 replicate_append_same [symmetric] del: replicate_Suc)

lemma padStart_10: "0 < n \<Longrightarrow> padStart (show_nat (10 * n)) (Suc k) = padStart (show_nat n) k @ ''0''"
  by (simp add: padStart_def show_nat_10)

lemma length_padStart: "length (padStart s n) = max n (length s)"
  by (simp add: padStart_def)

text \<open>The rendering of a value only depends on the ratio of the scaled integer to the scale.\<close>

definition rendered :: "string \<Rightarrow> nat \<Rightarrow> string" where
  "rendered p n =
     (let f = strip_zeros (drop (length p - n) p) in
      if f = [] then take (length p - n) p else take (length p - n) p @ ''.'' @ f)"

definition signed :: "bool \<Rightarrow> string \<Rightarrow> string" where
  "signed neg r = (if neg \<and> r \<noteq> ''0'' then ''-'' @ r else r)"

lemma formatScaled_eq:
  "formatScaled v n = signed (v < 0) (rendered (padStart (show_nat (nat \<bar>v\<bar>)) (Suc n)) n)"
proof -
  have "(if 0 < n then drop (length p - n) p else []) = drop (length p - n) p" for p :: string by simp
  then show ?thesis
    unfolding formatScaled_def Let_def rendered_def signed_def Suc_eq_plus1 by auto
qed

lemma rendered_0: "n < length p \<Longrightarrow> rendered (p @ ''0'') (Suc n) = rendered p n"
  by (simp add: rendered_def Let_def strip_zeros_app0 [simplified])

lemma format_0: "formatScaled 0 n = ''0''"
proof -
  have "padStart (show_nat 0) (n + 1) = ''0'' @ replicate n CHR ''0''"
    by (simp add: padStart_def show_nat_0 replicate_append_same [symmetric])
  then show ?thesis by (simp add: formatScaled_eq rendered_def signed_def Let_def)
qed

lemma format_10: "formatScaled (10 * v) (Suc n) = formatScaled v n"
proof (cases "v = 0")
  case False
  have "nat \<bar>10 * v\<bar> = 10 * nat \<bar>v\<bar>" by (simp add: abs_mult nat_mult_distrib)
  then have "padStart (show_nat (nat \<bar>10 * v\<bar>)) (Suc (Suc n)) = padStart (show_nat (nat \<bar>v\<bar>)) (Suc n) @ ''0''"
    using False padStart_10 [of "nat \<bar>v\<bar>" "Suc n"] by simp
  then show ?thesis
    unfolding formatScaled_eq by (simp add: rendered_0 [simplified] length_padStart del: abs_mult)
qed (simp add: format_0)

lemma format_pow: "formatScaled (v * 10 ^ k) (n + k) = formatScaled v n"
proof (induction k)
  case (Suc k)
  have "v * 10 ^ Suc k = 10 * (v * 10 ^ k)" by simp
  with Suc format_10 [of "v * 10 ^ k" "n + k"] show ?case by (simp only: add_Suc_right)
qed simp

lemma format_cong:
  assumes "of_int v / 10 ^ n = (of_int w / 10 ^ m :: rat)"
  shows "formatScaled v n = formatScaled w m"
proof -
  have "of_int (v * 10 ^ m) = (of_int (w * 10 ^ n) :: rat)" using assms by (simp add: field_simps)
  then have "v * 10 ^ m = w * 10 ^ n" unfolding of_int_eq_iff .
  then have "formatScaled (v * 10 ^ m) (n + m) = formatScaled (w * 10 ^ n) (m + n)" by (simp add: add.commute)
  then show ?thesis by (simp add: format_pow)
qed

text \<open>Reading a rendered non-negative value gives the value back.\<close>

lemma split_on_digits: "list_all is_digit s \<Longrightarrow> split_on CHR ''.'' s = [s]"
  by (induction s) auto

lemma split_on_two: "list_all is_digit i \<Longrightarrow> split_on CHR ''.'' (i @ CHR ''.'' # f) = i # split_on CHR ''.'' f"
  by (induction i) auto

lemma strip_zeros_split: "\<exists>k. s = strip_zeros s @ replicate k CHR ''0''"
proof -
  have "rev s = takeWhile (\<lambda>c. c = CHR ''0'') (rev s) @ dropWhile (\<lambda>c. c = CHR ''0'') (rev s)" by simp
  then have "s = strip_zeros s @ rev (takeWhile (\<lambda>c. c = CHR ''0'') (rev s))"
    unfolding strip_zeros_def by (metis rev_append rev_rev_ident)
  moreover have "rev (takeWhile (\<lambda>c. c = CHR ''0'') (rev s)) =
      replicate (length (takeWhile (\<lambda>c. c = CHR ''0'') (rev s))) CHR ''0''"
    by (rule replicate_eqI) (auto dest: set_takeWhileD)
  ultimately show ?thesis by metis
qed

lemma format_parts:
  assumes "0 \<le> v"
  obtains i f k where "list_all is_digit i" "i \<noteq> []" "list_all is_digit f"
    "formatScaled v n = (if f = [] then i else i @ ''.'' @ f)" "n = length f + k"
    "nat_of_digits (i @ f) * 10 ^ k = nat v"
proof -
  let ?p = "padStart (show_nat (nat v)) (n + 1)"
  define i where "i = take (length ?p - n) ?p"
  define r where "r = drop (length ?p - n) ?p"
  have len: "n < length ?p" by (simp add: length_padStart)
  have p: "?p = i @ r" by (simp add: i_def r_def)
  have dig: "list_all is_digit ?p" using show_nat_props [of "nat v"] by (simp add: padStart_def)
  have lens: "length r = n" "i \<noteq> []" using len by (auto simp: r_def i_def)
  have val: "nat_of_digits ?p = nat v" by (simp add: padStart_def nat_of_digits_app)
  from strip_zeros_split [of r] obtain k where k: "r = strip_zeros r @ replicate k CHR ''0''" by blast
  then have lk: "n = length (strip_zeros r) + k" using lens by (metis length_append length_replicate)
  have fmt: "formatScaled v n = (if strip_zeros r = [] then i else i @ ''.'' @ strip_zeros r)"
    using assms unfolding formatScaled_eq rendered_def Let_def i_def r_def by (simp add: signed_def)
  have app: "i @ r = (i @ strip_zeros r) @ replicate k CHR ''0''" using k by simp
  have dig': "list_all is_digit i \<and> list_all is_digit (strip_zeros r)"
    using dig unfolding p app by simp
  have "nat_of_digits (i @ strip_zeros r) * 10 ^ k = nat v"
    using val unfolding p app nat_of_digits_app [of "i @ strip_zeros r"] by simp
  with that [of i "strip_zeros r" k] dig' lens fmt lk show ?thesis by simp
qed

lemma dot_not_space: "\<not> is_space CHR ''.''"
  by (simp add: is_space_def)

lemma split_rendered:
  assumes "list_all is_digit i" "i \<noteq> []" "list_all is_digit f" "s = (if f = [] then i else i @ ''.'' @ f)"
  shows "isDecimalString s" "splitDecimal s = (i, f)"
proof -
  have "list_all (\<lambda>c. \<not> is_space c) s" using assms by (auto simp: list_all_iff dot_not_space)
  then have t: "trim s = s" by (rule trim_digits)
  have sp: "split_on CHR ''.'' s = (if f = [] then [i] else [i, f])"
    using assms split_on_digits split_on_two [of i f] by auto
  show "isDecimalString s" "splitDecimal s = (i, f)"
    unfolding isDecimalString_def decimal_pattern_def splitDecimal_def t sp
    using assms(1-3) by (simp_all split: list.split)
qed

lemma format_value:
  assumes "0 \<le> v"
  shows "isDecimalString (formatScaled v n)" "dval (formatScaled v n) = of_int v / 10 ^ n"
proof -
  obtain i f k where p: "list_all is_digit i" "i \<noteq> []" "list_all is_digit f"
    "formatScaled v n = (if f = [] then i else i @ ''.'' @ f)" "n = length f + k"
    "nat_of_digits (i @ f) * 10 ^ k = nat v"
    by (rule format_parts [OF assms, where n = n])
  note sr = split_rendered [OF p(1-4)]
  show "isDecimalString (formatScaled v n)" by (rule sr)
  have "(of_nat (nat_of_digits (i @ f)) :: rat) * 10 ^ k = of_int v"
    using arg_cong [OF p(6), of "of_nat :: nat \<Rightarrow> rat"] assms by simp
  then show "dval (formatScaled v n) = of_int v / 10 ^ n"
    unfolding dval_def mantissa_def places_def sr(2) by (simp add: p(5) power_add field_simps)
qed

lemma format_neg:
  assumes "v < 0"
  shows "formatScaled v n = ''-'' @ formatScaled (- v) n"
proof -
  have "dval (formatScaled (- v) n) \<noteq> 0" using assms format_value(2) [of "- v" n] by simp
  moreover have "dval ''0'' = 0" by (simp add: dval_def mantissa_def splitDecimal_def trim_def)
  ultimately have "formatScaled (- v) n \<noteq> ''0''" by metis
  with assms show ?thesis by (simp add: formatScaled_eq signed_def)
qed

section \<open>The interface of exact decimals\<close>

text \<open>
  What the preflight rules rely on: on valid strings the comparison, the subtraction and the normal
  form are those of the exact values, and none of them throws.
\<close>

locale exact_decimal =
  fixes valid :: "string \<Rightarrow> bool"
    and val :: "string \<Rightarrow> rat"
    and cmp :: "string \<Rightarrow> string \<Rightarrow> (decimal_error, int) result"
    and sub :: "string \<Rightarrow> string \<Rightarrow> (decimal_error, string) result"
    and norm :: "string \<Rightarrow> (decimal_error, string) result"
  assumes cmp_val: "valid a \<Longrightarrow> valid b \<Longrightarrow>
      cmp a b = Inr (if val a < val b then -1 else if val a > val b then 1 else 0)"
    and sub_val: "valid a \<Longrightarrow> valid b \<Longrightarrow> val b \<le> val a \<Longrightarrow> \<exists>s. sub a b = Inr s \<and> valid s \<and> val s = val a - val b"
    and norm_val: "valid a \<Longrightarrow> \<exists>s. norm a = Inr s \<and> valid s \<and> val s = val a"
    and norm_cong: "valid a \<Longrightarrow> valid b \<Longrightarrow> val a = val b \<Longrightarrow> norm a = norm b"
begin

lemma cmp_returns: "valid a \<Longrightarrow> valid b \<Longrightarrow> \<exists>i. cmp a b = Inr i"
  by (simp add: cmp_val)

lemma cmp_greater: "valid a \<Longrightarrow> valid b \<Longrightarrow> (\<exists>i. cmp a b = Inr i \<and> i > 0) \<longleftrightarrow> val a > val b"
  by (simp add: cmp_val)

lemma norm_eq_iff:
  assumes "valid a" "valid b"
  shows "norm a = norm b \<longleftrightarrow> val a = val b"
proof
  assume eq: "norm a = norm b"
  obtain s t where "norm a = Inr s" "val s = val a" "norm b = Inr t" "val t = val b"
    using norm_val [OF assms(1)] norm_val [OF assms(2)] by blast
  with eq show "val a = val b" by simp
qed (rule norm_cong [OF assms])

lemma norm_idem:
  assumes "valid a" "norm a = Inr s"
  shows "norm s = Inr s"
proof -
  have "valid s" "val a = val s" using norm_val [OF assms(1)] assms(2) by auto
  with norm_cong [OF assms(1)] have "norm a = norm s" by blast
  with assms(2) show ?thesis by simp
qed

end

lemma compareDecimal_value:
  assumes "isDecimalString a" "isDecimalString b"
  shows "compareDecimal a b = Inr (if dval a < dval b then -1 else if dval a > dval b then 1 else 0)"
proof -
  let ?n = "common_scale a b"
  have "scaled a ?n < scaled b ?n \<longleftrightarrow> (of_int (scaled a ?n) :: rat) < of_int (scaled b ?n)"
    "scaled b ?n < scaled a ?n \<longleftrightarrow> (of_int (scaled b ?n) :: rat) < of_int (scaled a ?n)"
    by simp_all
  then show ?thesis unfolding scaled_common compareDecimal_def scaledParts_decimal [OF assms] by simp
qed

lemma subtractDecimal_format:
  assumes "isDecimalString a" "isDecimalString b"
  shows "subtractDecimal a b = Inr (formatScaled (scaled a (common_scale a b) - scaled b (common_scale a b)) (common_scale a b))"
    and "addDecimal a b = Inr (formatScaled (scaled a (common_scale a b) + scaled b (common_scale a b)) (common_scale a b))"
  by (simp_all add: subtractDecimal_def addDecimal_def scaledParts_decimal [OF assms])

lemma subtractDecimal_value:
  assumes "isDecimalString a" "isDecimalString b" "dval b \<le> dval a"
  shows "\<exists>s. subtractDecimal a b = Inr s \<and> isDecimalString s \<and> dval s = dval a - dval b"
proof -
  let ?n = "common_scale a b"
  have "(of_int (scaled b ?n) :: rat) \<le> of_int (scaled a ?n)" using assms(3) by (simp add: scaled_common)
  then have nn: "0 \<le> scaled a ?n - scaled b ?n" by simp
  have "(of_int (scaled a ?n - scaled b ?n) :: rat) / 10 ^ ?n = dval a - dval b"
    by (simp add: scaled_common diff_divide_distrib)
  with format_value [OF nn, of ?n] subtractDecimal_format(1) [OF assms(1,2)] show ?thesis by simp
qed

lemma subtractDecimal_negative:
  assumes "isDecimalString a" "isDecimalString b" "dval a < dval b"
  shows "\<exists>s. subtractDecimal a b = Inr (''-'' @ s) \<and> isDecimalString s \<and> dval s = dval b - dval a"
proof -
  let ?n = "common_scale a b"
  have "(of_int (scaled a ?n) :: rat) < of_int (scaled b ?n)" using assms(3) by (simp add: scaled_common)
  then have neg: "scaled a ?n - scaled b ?n < 0" by simp
  then have nn: "0 \<le> scaled b ?n - scaled a ?n" by simp
  have "(of_int (scaled b ?n - scaled a ?n) :: rat) / 10 ^ ?n = dval b - dval a"
    by (simp add: scaled_common diff_divide_distrib)
  with format_value [OF nn, of ?n] subtractDecimal_format(1) [OF assms(1,2)] format_neg [OF neg, of ?n]
  show ?thesis by simp
qed

lemma addDecimal_value:
  assumes "isDecimalString a" "isDecimalString b"
  shows "\<exists>s. addDecimal a b = Inr s \<and> isDecimalString s \<and> dval s = dval a + dval b"
proof -
  let ?n = "common_scale a b"
  have nn: "0 \<le> scaled a ?n + scaled b ?n" by (simp add: scaled_def)
  have "(of_int (scaled a ?n + scaled b ?n) :: rat) / 10 ^ ?n = dval a + dval b"
    by (simp add: scaled_common add_divide_distrib)
  with format_value [OF nn, of ?n] subtractDecimal_format(2) [OF assms] show ?thesis by simp
qed

lemma zero_decimal: "isDecimalString ''0''" "places ''0'' = 0" "dval ''0'' = 0"
  by (simp_all add: isDecimalString_def decimal_pattern_def places_def dval_def mantissa_def splitDecimal_def trim_def is_space_def)

lemma normalizeDecimal_format:
  assumes "isDecimalString a"
  shows "normalizeDecimal a = Inr (formatScaled (int (mantissa a)) (places a))"
  by (simp add: normalizeDecimal_def scaledParts_decimal [OF assms zero_decimal(1)] common_scale_def zero_decimal scaled_def)

interpretation dec: exact_decimal isDecimalString dval compareDecimal subtractDecimal normalizeDecimal
proof unfold_locales
  show "\<exists>s. normalizeDecimal a = Inr s \<and> isDecimalString s \<and> dval s = dval a" if "isDecimalString a" for a
    using format_value [of "int (mantissa a)" "places a"] normalizeDecimal_format [OF that] by (simp add: dval_def [of a])
  show "normalizeDecimal a = normalizeDecimal b" if "isDecimalString a" "isDecimalString b" "dval a = dval b" for a b
    using that normalizeDecimal_format by (simp add: dval_def format_cong)
qed (simp_all add: compareDecimal_value subtractDecimal_value)

section \<open>Properties\<close>

text \<open>
  C22.  Decimal arithmetic is exact and never throws on decimal strings: the comparison is that of the
  rational values, the sum is the exact sum, and the difference is the exact difference, written with
  a minus sign when it is negative.
\<close>

theorem decimal_arithmetic_exact:
  assumes "isDecimalString a" "isDecimalString b"
  shows "compareDecimal a b = Inr (if dval a < dval b then -1 else if dval a > dval b then 1 else 0) \<and>
    (\<exists>s. addDecimal a b = Inr s \<and> isDecimalString s \<and> dval s = dval a + dval b) \<and>
    (if dval b \<le> dval a then \<exists>s. subtractDecimal a b = Inr s \<and> isDecimalString s \<and> dval s = dval a - dval b
     else \<exists>s. subtractDecimal a b = Inr (''-'' @ s) \<and> isDecimalString s \<and> dval s = dval b - dval a)"
  using compareDecimal_value [OF assms] addDecimal_value [OF assms]
    subtractDecimal_value [OF assms] subtractDecimal_negative [OF assms] by simp

theorem decimal_arithmetic_exact_witness:
  "compareDecimal ''1.50'' ''1.5'' = Inr 0"
proof -
  have "isDecimalString ''1.50''" "isDecimalString ''1.5''" "dval ''1.50'' = dval ''1.5''"
    by (simp_all add: isDecimalString_def decimal_pattern_def trim_def is_space_def is_digit_def
        dval_def mantissa_def places_def splitDecimal_def nat_of_digits_def digit_val_def)
  then show ?thesis using decimal_arithmetic_exact [of "''1.50''" "''1.5''"] by simp
qed

text \<open>
  The normal form is canonical: two decimal strings have the same normal form exactly when they
  have the same value, and normalising a normal form changes nothing.
\<close>

theorem normalizeDecimal_canonical:
  assumes "isDecimalString a" "isDecimalString b"
  shows "(normalizeDecimal a = normalizeDecimal b) = (dval a = dval b) \<and>
    (\<exists>s. normalizeDecimal a = Inr s \<and> isDecimalString s \<and> dval s = dval a \<and> normalizeDecimal s = Inr s)"
  using dec.norm_eq_iff [OF assms] dec.norm_val [OF assms(1)] dec.norm_idem [OF assms(1)] by blast

theorem normalizeDecimal_canonical_witness:
  "normalizeDecimal ''010.500'' = normalizeDecimal ''10.5''"
proof -
  have "isDecimalString ''010.500''" "isDecimalString ''10.5''" "dval ''010.500'' = dval ''10.5''"
    by (simp_all add: isDecimalString_def decimal_pattern_def trim_def is_space_def is_digit_def
        dval_def mantissa_def places_def splitDecimal_def nat_of_digits_def digit_val_def)
  then show ?thesis using normalizeDecimal_canonical [of "''010.500''" "''10.5''"] by simp
qed

end
