(* ===== verification/Canonical_Json.thy ===== *)
theory Canonical_Json
  imports Trellis_Prelude Preflight_Decimal
begin

text \<open>
  JSON with sorted keys: \<open>canonicalJson\<close> of \<open>src/common/serialization/canonical-json.ts\<close>, which rejects
  what JSON cannot express, and \<open>canonicalize\<close> of \<open>src/preflight/preflight.determinism.ts\<close>, which maps
  it to \<open>null\<close>.  A JavaScript value is a tree (so there are no circular references, the one case of
  \<open>canonicalJson\<close> left out); an array element may be a hole, an object may have a prototype other than
  the plain one, a fractional number is given by its shortest decimal representation and a date by its
  ISO string.
\<close>

section \<open>Values\<close>

datatype js_num = JInt int | JNegZero | JFrac string | JNaN | JInfinity

datatype js_value =
    JNull
  | JUndefined
  | JStr string
  | JNum js_num
  | JBool bool
  | JBigint int
  | JDate string
  | JOther string \<comment> \<open>a function or a symbol, by its \<open>typeof\<close>\<close>
  | JArr "js_value option list"
  | JObj bool "(string \<times> js_value) list" \<comment> \<open>whether it is plain, and its own properties\<close>

definition show_int :: "int \<Rightarrow> string" where
  "show_int i = (if i < 0 then ''-'' @ show_nat (nat (- i)) else show_nat (nat i))"

definition hex_digit :: "nat \<Rightarrow> char" where
  "hex_digit n = (if n < 10 then char_of (48 + n) else char_of (87 + n))"

definition json_char :: "char \<Rightarrow> string" where
  "json_char c =
     (let n = of_char c :: nat in
      if n = 34 then [CHR 0x5C, CHR 0x22]
      else if n = 92 then [CHR 0x5C, CHR 0x5C]
      else if n = 8 then [CHR 0x5C, CHR ''b'']
      else if n = 9 then [CHR 0x5C, CHR ''t'']
      else if n = 10 then [CHR 0x5C, CHR ''n'']
      else if n = 12 then [CHR 0x5C, CHR ''f'']
      else if n = 13 then [CHR 0x5C, CHR ''r'']
      else if n < 32 then [CHR 0x5C, CHR ''u'', CHR ''0'', CHR ''0'', hex_digit (n div 16), hex_digit (n mod 16)]
      else [c])"

text \<open>\<open>JSON.stringify\<close> of a string.\<close>

definition json_string :: "string \<Rightarrow> string" where
  "json_string s = [CHR 0x22] @ concat (map json_char s) @ [CHR 0x22]"

fun join :: "string \<Rightarrow> string list \<Rightarrow> string" where
  "join sep [] = []"
| "join sep [s] = s"
| "join sep (s # t # ts) = s @ sep @ join sep (t # ts)"

text \<open>Entries of an object in the order of their keys.\<close>

definition by_key :: "string \<times> 'a \<Rightarrow> string \<times> 'a \<Rightarrow> bool" where
  "by_key p q = string_le (fst p) (fst q)"

section \<open>The preflight form\<close>

fun canonicalize :: "js_value \<Rightarrow> string" where
  "canonicalize JNull = ''null''"
| "canonicalize JUndefined = ''null''"
| "canonicalize (JStr s) = json_string s"
| "canonicalize (JNum (JInt i)) = show_int i"
| "canonicalize (JNum JNegZero) = ''0''"
| "canonicalize (JNum (JFrac f)) = f"
| "canonicalize (JNum JNaN) = ''null''"
| "canonicalize (JNum JInfinity) = ''null''"
| "canonicalize (JBool b) = (if b then ''true'' else ''false'')"
| "canonicalize (JBigint i) = json_string (show_int i)"
| "canonicalize (JDate t) = json_string t"
| "canonicalize (JOther ty) = ''null''"
| "canonicalize (JArr xs) = ''['' @ join '','' (map (\<lambda>x. case x of None \<Rightarrow> [] | Some v \<Rightarrow> canonicalize v) xs) @ '']''"
| "canonicalize (JObj pl entries) =
     (let rendered = map (\<lambda>(k, v). (k, if v = JUndefined then None else Some (canonicalize v))) entries;
          kept = filter (\<lambda>(k, r). r \<noteq> None) rendered
      in ''{'' @ join '','' (map (\<lambda>(k, r). json_string k @ '':'' @ the r) (js_sort by_key kept)) @ ''}'')"

section \<open>The strict form\<close>

datatype json_error = TypeErr string

text \<open>Evaluate a list of results from left to right.\<close>

fun sequence :: "('e, 'a) result list \<Rightarrow> ('e, 'a list) result" where
  "sequence [] = Inr []"
| "sequence (Inl e # rs) = Inl e"
| "sequence (Inr x # rs) = (case sequence rs of Inl e \<Rightarrow> Inl e | Inr xs \<Rightarrow> Inr (x # xs))"

definition canonical_number :: "js_num \<Rightarrow> (json_error, string) result" where
  "canonical_number n =
     (case n of
        JInt i \<Rightarrow> if \<bar>i\<bar> \<le> 9007199254740991 then Inr (show_int i)
                 else Inl (TypeErr ''Canonical JSON integers must be safe integers; encode larger values as strings'')
      | JNegZero \<Rightarrow> Inr ''0''
      | JFrac f \<Rightarrow> Inr f
      | _ \<Rightarrow> Inl (TypeErr ''Canonical JSON numbers must be finite''))"

fun canonicalJson :: "js_value \<Rightarrow> (json_error, string) result" where
  "canonicalJson JNull = Inr ''null''"
| "canonicalJson JUndefined = Inl (TypeErr ''Unsupported canonical JSON value: undefined'')"
| "canonicalJson (JStr s) = Inr (json_string s)"
| "canonicalJson (JNum n) = canonical_number n"
| "canonicalJson (JBool b) = Inr (if b then ''true'' else ''false'')"
| "canonicalJson (JBigint i) = Inl (TypeErr ''Unsupported canonical JSON value: bigint'')"
| "canonicalJson (JDate t) = Inl (TypeErr ''Canonical JSON objects must be plain objects'')"
| "canonicalJson (JOther ty) = Inl (TypeErr (''Unsupported canonical JSON value: '' @ ty))"
| "canonicalJson (JArr xs) =
     (case sequence (map (\<lambda>x. case x of
            None \<Rightarrow> Inl (TypeErr ''Canonical JSON arrays cannot contain holes'')
          | Some v \<Rightarrow> canonicalJson v) xs) of
        Inl e \<Rightarrow> Inl e
      | Inr items \<Rightarrow> Inr (''['' @ join '','' items @ '']''))"
| "canonicalJson (JObj pl entries) =
     (if \<not> pl then Inl (TypeErr ''Canonical JSON objects must be plain objects'')
      else
        let rendered = map (\<lambda>(k, v). (k, if v = JUndefined
              then Inl (TypeErr ''Canonical JSON cannot contain undefined values'')
              else (case canonicalJson v of Inl e \<Rightarrow> Inl e | Inr s \<Rightarrow> Inr (json_string k @ '':'' @ s)))) entries
        in case sequence (map snd (js_sort by_key rendered)) of
             Inl e \<Rightarrow> Inl e
           | Inr items \<Rightarrow> Inr (''{'' @ join '','' items @ ''}''))"

section \<open>Order of keys\<close>

lemma by_key_total: "by_key p q \<or> by_key q p"
  using string_le_total by (auto simp: by_key_def)

lemma by_key_trans: "by_key p q \<Longrightarrow> by_key q r \<Longrightarrow> by_key p r"
  using string_le_trans by (auto simp: by_key_def)

text \<open>Sorting entries with distinct keys forgets the order they came in.\<close>

lemma sort_entries_perm:
  assumes "mset xs = mset ys" "distinct (map fst ys)"
  shows "js_sort by_key xs = js_sort by_key ys"
proof (rule sorted_wrt_mset_unique)
  have dx: "distinct (map fst xs)" using assms by (metis mset_eq_imp_distinct_iff mset_map)
  show "sorted_wrt by_key (js_sort by_key xs)"
    by (rule sorted_js_sort [OF by_key_total]) (rule by_key_trans)
  show "sorted_wrt by_key (js_sort by_key ys)"
    by (rule sorted_js_sort [OF by_key_total]) (rule by_key_trans)
  show "mset (js_sort by_key xs) = mset (js_sort by_key ys)" using assms(1) by simp
  fix p q assume pq: "p \<in> set (js_sort by_key xs)" "q \<in> set (js_sort by_key xs)" "by_key p q" "by_key q p"
  then have "fst p = fst q" by (auto simp: by_key_def intro: string_le_antisym)
  with pq(1,2) dx show "p = q" by (auto simp: distinct_map dest: inj_onD)
qed

text \<open>
  Values that are the same up to the order of the properties of their objects, at any depth.
\<close>

inductive same_json :: "js_value \<Rightarrow> js_value \<Rightarrow> bool" where
  same_refl: "same_json v v"
| same_arr: "list_all2 (rel_option same_json) xs ys \<Longrightarrow> same_json (JArr xs) (JArr ys)"
| same_obj: "list_all2 (rel_prod (=) same_json) xs zs \<Longrightarrow> mset zs = mset ys \<Longrightarrow> distinct (map fst ys) \<Longrightarrow>
    same_json (JObj p xs) (JObj p ys)"


lemma list_all2_map_eq:
  "list_all2 R xs ys \<Longrightarrow> (\<And>x y. x \<in> set xs \<Longrightarrow> y \<in> set ys \<Longrightarrow> R x y \<Longrightarrow> f x = g y) \<Longrightarrow> map f xs = map g ys"
  by (induction xs ys rule: list_all2_induct) auto

lemma same_undefined: "same_json v w \<Longrightarrow> v = JUndefined \<longleftrightarrow> w = JUndefined"
  by (cases rule: same_json.cases) auto

definition render_entry :: "string \<times> js_value \<Rightarrow> string \<times> string option" where
  "render_entry = (\<lambda>(k, v). (k, if v = JUndefined then None else Some (canonicalize v)))"

definition strict_entry :: "string \<times> js_value \<Rightarrow> string \<times> (json_error, string) result" where
  "strict_entry = (\<lambda>(k, v). (k, if v = JUndefined
      then Inl (TypeErr ''Canonical JSON cannot contain undefined values'')
      else (case canonicalJson v of Inl e \<Rightarrow> Inl e | Inr s \<Rightarrow> Inr (json_string k @ '':'' @ s))))"

lemma canonicalize_obj:
  "canonicalize (JObj p es) = ''{'' @ join '','' (map (\<lambda>(k, r). json_string k @ '':'' @ the r)
     (js_sort by_key (filter (\<lambda>(k, r). r \<noteq> None) (map render_entry es)))) @ ''}''"
  by (simp add: render_entry_def Let_def)

lemma canonicalJson_obj:
  "canonicalJson (JObj p es) =
     (if \<not> p then Inl (TypeErr ''Canonical JSON objects must be plain objects'')
      else case sequence (map snd (js_sort by_key (map strict_entry es))) of
             Inl e \<Rightarrow> Inl e | Inr items \<Rightarrow> Inr (''{'' @ join '','' items @ ''}''))"
  by (simp add: strict_entry_def Let_def)

lemma render_keys: "map fst (map render_entry es) = map fst es" "map fst (map strict_entry es) = map fst es"
  by (induction es) (auto simp: render_entry_def strict_entry_def)

lemma distinct_filter_keys: "distinct (map fst es) \<Longrightarrow> distinct (map fst (filter P es))"
  by (induction es) auto

lemma obj_perm:
  assumes "mset zs = mset ys" "distinct (map fst ys)"
  shows "canonicalize (JObj p zs) = canonicalize (JObj p ys)" "canonicalJson (JObj p zs) = canonicalJson (JObj p ys)"
proof -
  have "distinct (map fst (filter (\<lambda>(k, r). r \<noteq> None) (map render_entry ys)))"
    by (rule distinct_filter_keys) (use assms(2) in \<open>simp only: render_keys\<close>)
  then have "js_sort by_key (filter (\<lambda>(k, r). r \<noteq> None) (map render_entry zs)) =
      js_sort by_key (filter (\<lambda>(k, r). r \<noteq> None) (map render_entry ys))"
    by (rule sort_entries_perm [rotated]) (use assms(1) in \<open>simp only: mset_filter mset_map\<close>)
  then show "canonicalize (JObj p zs) = canonicalize (JObj p ys)" unfolding canonicalize_obj by simp
  have "js_sort by_key (map strict_entry zs) = js_sort by_key (map strict_entry ys)"
    by (rule sort_entries_perm) (use assms in \<open>simp_all only: mset_map render_keys\<close>)
  then show "canonicalJson (JObj p zs) = canonicalJson (JObj p ys)" unfolding canonicalJson_obj by simp
qed

lemma same_json_canonical: "same_json v w \<Longrightarrow> canonicalize v = canonicalize w \<and> canonicalJson v = canonicalJson w"
proof (induction rule: same_json.induct)
  case (same_arr xs ys)
  have "map (\<lambda>x. case x of None \<Rightarrow> [] | Some v \<Rightarrow> canonicalize v) xs = map (\<lambda>x. case x of None \<Rightarrow> [] | Some v \<Rightarrow> canonicalize v) ys"
    by (rule list_all2_map_eq [OF same_arr]) (auto elim: option.rel_cases)
  moreover have "map (\<lambda>x. case x of None \<Rightarrow> Inl (TypeErr ''Canonical JSON arrays cannot contain holes'')
      | Some v \<Rightarrow> canonicalJson v) xs = map (\<lambda>x. case x of None \<Rightarrow> Inl (TypeErr ''Canonical JSON arrays cannot contain holes'')
      | Some v \<Rightarrow> canonicalJson v) ys"
    by (rule list_all2_map_eq [OF same_arr]) (auto elim: option.rel_cases)
  ultimately show ?case by (simp only: canonicalize.simps canonicalJson.simps)
next
  case (same_obj xs zs ys p)
  have "map render_entry xs = map render_entry zs" "map strict_entry xs = map strict_entry zs"
    by (rule list_all2_map_eq [OF same_obj(1)],
        auto simp: render_entry_def strict_entry_def rel_prod_sel dest: same_undefined)+
  then have "canonicalize (JObj p xs) = canonicalize (JObj p zs)" "canonicalJson (JObj p xs) = canonicalJson (JObj p zs)"
    by (simp_all only: canonicalize_obj canonicalJson_obj)
  with obj_perm [OF same_obj(2,3)] show ?case by simp
qed simp

section \<open>Properties\<close>

text \<open>
  Both canonical forms ignore the order of properties: values that are equal up to the order in
  which the properties of their objects were added, at any depth, have the same canonical text, so
  their digests agree; the strict form also rejects the one exactly when it rejects the other.
\<close>

theorem canonical_forms_ignore_key_order:
  assumes "same_json v w"
  shows "canonicalize v = canonicalize w \<and> canonicalJson v = canonicalJson w"
  by (rule same_json_canonical [OF assms])

theorem canonical_forms_ignore_key_order_witness:
  "canonicalize (JArr [Some (JObj True [(''b'', JNum (JInt 1)), (''a'', JNull)])]) =
   canonicalize (JArr [Some (JObj True [(''a'', JNull), (''b'', JNum (JInt 1))])])"
proof -
  have "same_json (JArr [Some (JObj True [(''b'', JNum (JInt 1)), (''a'', JNull)])])
     (JArr [Some (JObj True [(''a'', JNull), (''b'', JNum (JInt 1))])])"
    by (rule same_arr) (auto intro!: same_obj [where zs = "[(''b'', JNum (JInt 1)), (''a'', JNull)]"] same_refl)
  from canonical_forms_ignore_key_order [OF this] show ?thesis ..
qed

end
