(* ===== verification/Preflight.thy ===== *)
theory Preflight
  imports Canonical_Json
begin

text \<open>
  The transaction preflight: \<open>src/preflight/preflight.types.ts\<close>, \<open>preflight.determinism.ts\<close>,
  \<open>preflight.constants.ts\<close> and the evaluation core \<open>preflight.rules.ts\<close>.  What the core takes from its
  platform is an argument \<open>env\<close>: \<open>Date.parse\<close> (\<open>None\<close> for \<open>NaN\<close>), \<open>Date.prototype.toISOString\<close> and
  SHA-256 in hexadecimal.  Each \<open>check\<close> function returns the findings the source pushes, in order;
  those that compare decimals can throw, since \<open>estimatedFee\<close> need not be a decimal string.  Ages are
  rationals, \<open>None\<close> for \<open>Infinity\<close>.  A character outside ASCII in a message is given by its UTF-8 bytes.
\<close>

section \<open>Types\<close>

record preflight_env =
  pe_dateParse :: "string \<Rightarrow> int option"
  pe_toISOString :: "int \<Rightarrow> string"
  pe_sha256 :: "string \<Rightarrow> string"

datatype PreflightOperationKind = Payment_transfer | Trade | Oracle_submission

datatype PreflightStatus = Status_success | Status_warning | Status_blocking

datatype PreflightSeverity = Sev_info | Sev_warning | Sev_blocking

datatype PreflightFindingCode =
    INVALID_OPERATION_AMOUNT | OPERATION_EXPIRED | STATE_VERSION_MISMATCH | STATE_SNAPSHOT_STALE
  | STATE_SNAPSHOT_AGING | BALANCE_STATE_UNAVAILABLE | INSUFFICIENT_BALANCE | INSUFFICIENT_ALLOWANCE
  | FEE_BUFFER_EXHAUSTED | DUPLICATE_OPERATION | IDEMPOTENCY_KEY_REUSED | IDEMPOTENCY_IN_PROGRESS
  | IDEMPOTENT_REPLAY | POLICY_STATE_UNAVAILABLE | TRADING_DISABLED | INVALID_TRADE_AMOUNT
  | TRADE_AMOUNT_LIMIT_EXCEEDED | TRADE_ASSET_NOT_ALLOWED | TRADE_SIDE_NOT_ALLOWED
  | ORACLE_PRICE_MISSING | ORACLE_PRICE_STALE | DESTINATION_NOT_VERIFIED

datatype ErrorCode =
    VALIDATION_ERROR | PRECONDITION_FAILED | INSUFFICIENT_FUNDS | DUPLICATE_PAYMENT_SUBMISSION
  | ORACLE_VERIFICATION_FAILED | RISK_LIMIT_EXCEEDED | ASSET_UNSUPPORTED | CONFLICT

record PreflightFinding =
  pf_code :: PreflightFindingCode
  pf_severity :: PreflightSeverity
  pf_message :: string
  pf_remediation :: string
  pf_field :: "string option"
  pf_errorCode :: ErrorCode
  pf_details :: "(string \<times> js_value) list option"

record PreflightOperation =
  op_kind :: PreflightOperationKind
  op_asset :: string
  op_amount :: string
  op_side :: "string option"
  op_destination :: "string option"
  op_idempotencyKey :: "string option"
  op_requiresOraclePrice :: "bool option"
  op_expectedStateVersion :: "string option"
  op_expiresAt :: "string option"
  op_estimatedFee :: "string option"

record PreflightOraclePrice =
  or_asset :: string
  or_price :: string
  or_updatedAt :: string

record PreflightIdempotencyRecord =
  ir_key :: string
  ir_requestDigest :: string
  ir_status :: "string option"

datatype PolicyViolationCode =
    PV_TRADING_DISABLED | PV_INVALID_TRADE_AMOUNT | PV_TRADE_AMOUNT_LIMIT_EXCEEDED
  | PV_ASSET_NOT_ALLOWED | PV_TRADE_SIDE_NOT_ALLOWED

record PolicyViolation =
  pv_code :: PolicyViolationCode
  pv_message :: string
  pv_field :: string
  pv_limit :: "js_num option"
  pv_allowedValues :: "string list option"

datatype PolicyDecision = Policy_allowed | Policy_denied PolicyViolation

record PreflightStateSnapshot =
  sn_version :: string
  sn_observedAt :: string
  sn_balances :: "(string, string) jsmap"
  sn_allowances :: "(string, string) jsmap"
  sn_consumedDigests :: "string list"
  sn_idempotencyRecords :: "PreflightIdempotencyRecord list"
  sn_verifiedDestinations :: "string list"
  sn_oracle :: "PreflightOraclePrice list"
  sn_policyDecision :: "PolicyDecision option"

record PreflightThresholds =
  th_maxSnapshotAgeSeconds :: int
  th_warnSnapshotAgeSeconds :: int
  th_maxOracleAgeSeconds :: int

record PreflightEvaluationInput =
  in_operation :: PreflightOperation
  in_snapshot :: PreflightStateSnapshot
  in_thresholds :: PreflightThresholds
  in_asOf :: string

record PreflightResult =
  pr_preflightId :: string
  pr_status :: PreflightStatus
  pr_evaluationVersion :: string
  pr_operationDigest :: string
  pr_stateVersion :: string
  pr_asOf :: string
  pr_snapshotObservedAt :: string
  pr_blockingCount :: nat
  pr_warningCount :: nat
  pr_findings :: "PreflightFinding list"
  pr_digest :: string

fun kind_value :: "PreflightOperationKind \<Rightarrow> string" where
  "kind_value Payment_transfer = ''payment_transfer''"
| "kind_value Trade = ''trade''"
| "kind_value Oracle_submission = ''oracle_submission''"

fun status_value :: "PreflightStatus \<Rightarrow> string" where
  "status_value Status_success = ''success''"
| "status_value Status_warning = ''warning''"
| "status_value Status_blocking = ''blocking''"

fun severity_value :: "PreflightSeverity \<Rightarrow> string" where
  "severity_value Sev_info = ''info''"
| "severity_value Sev_warning = ''warning''"
| "severity_value Sev_blocking = ''blocking''"

fun code_value :: "PreflightFindingCode \<Rightarrow> string" where
  "code_value INVALID_OPERATION_AMOUNT = ''INVALID_OPERATION_AMOUNT''"
| "code_value OPERATION_EXPIRED = ''OPERATION_EXPIRED''"
| "code_value STATE_VERSION_MISMATCH = ''STATE_VERSION_MISMATCH''"
| "code_value STATE_SNAPSHOT_STALE = ''STATE_SNAPSHOT_STALE''"
| "code_value STATE_SNAPSHOT_AGING = ''STATE_SNAPSHOT_AGING''"
| "code_value BALANCE_STATE_UNAVAILABLE = ''BALANCE_STATE_UNAVAILABLE''"
| "code_value INSUFFICIENT_BALANCE = ''INSUFFICIENT_BALANCE''"
| "code_value INSUFFICIENT_ALLOWANCE = ''INSUFFICIENT_ALLOWANCE''"
| "code_value FEE_BUFFER_EXHAUSTED = ''FEE_BUFFER_EXHAUSTED''"
| "code_value DUPLICATE_OPERATION = ''DUPLICATE_OPERATION''"
| "code_value IDEMPOTENCY_KEY_REUSED = ''IDEMPOTENCY_KEY_REUSED''"
| "code_value IDEMPOTENCY_IN_PROGRESS = ''IDEMPOTENCY_IN_PROGRESS''"
| "code_value IDEMPOTENT_REPLAY = ''IDEMPOTENT_REPLAY''"
| "code_value POLICY_STATE_UNAVAILABLE = ''POLICY_STATE_UNAVAILABLE''"
| "code_value TRADING_DISABLED = ''TRADING_DISABLED''"
| "code_value INVALID_TRADE_AMOUNT = ''INVALID_TRADE_AMOUNT''"
| "code_value TRADE_AMOUNT_LIMIT_EXCEEDED = ''TRADE_AMOUNT_LIMIT_EXCEEDED''"
| "code_value TRADE_ASSET_NOT_ALLOWED = ''TRADE_ASSET_NOT_ALLOWED''"
| "code_value TRADE_SIDE_NOT_ALLOWED = ''TRADE_SIDE_NOT_ALLOWED''"
| "code_value ORACLE_PRICE_MISSING = ''ORACLE_PRICE_MISSING''"
| "code_value ORACLE_PRICE_STALE = ''ORACLE_PRICE_STALE''"
| "code_value DESTINATION_NOT_VERIFIED = ''DESTINATION_NOT_VERIFIED''"

fun errorCode_value :: "ErrorCode \<Rightarrow> string" where
  "errorCode_value VALIDATION_ERROR = ''VALIDATION_ERROR''"
| "errorCode_value PRECONDITION_FAILED = ''PRECONDITION_FAILED''"
| "errorCode_value INSUFFICIENT_FUNDS = ''INSUFFICIENT_FUNDS''"
| "errorCode_value DUPLICATE_PAYMENT_SUBMISSION = ''DUPLICATE_PAYMENT_SUBMISSION''"
| "errorCode_value ORACLE_VERIFICATION_FAILED = ''ORACLE_VERIFICATION_FAILED''"
| "errorCode_value RISK_LIMIT_EXCEEDED = ''RISK_LIMIT_EXCEEDED''"
| "errorCode_value ASSET_UNSUPPORTED = ''ASSET_UNSUPPORTED''"
| "errorCode_value CONFLICT = ''CONFLICT''"

section \<open>Constants and digests\<close>

definition PREFLIGHT_EVALUATION_VERSION :: string where
  "PREFLIGHT_EVALUATION_VERSION = ''preflight/1''"

definition PREFLIGHT_ID_PREFIX :: string where
  "PREFLIGHT_ID_PREFIX = ''pf''"

definition PREFLIGHT_DIGEST_NAMESPACE :: string where
  "PREFLIGHT_DIGEST_NAMESPACE = ''trellis-preflight''"

definition defaultPreflightThresholds :: PreflightThresholds where
  "defaultPreflightThresholds =
     \<lparr>th_maxSnapshotAgeSeconds = 120, th_warnSnapshotAgeSeconds = 60, th_maxOracleAgeSeconds = 60\<rparr>"

definition preflightDigest :: "preflight_env \<Rightarrow> string \<Rightarrow> string list \<Rightarrow> string" where
  "preflightDigest env seed parts = pe_sha256 env (join ''|'' (seed # parts))"

definition digestValue :: "preflight_env \<Rightarrow> js_value \<Rightarrow> string" where
  "digestValue env v = pe_sha256 env (canonicalize v)"

definition preflightId :: "string \<Rightarrow> string \<Rightarrow> string" where
  "preflightId kind digest = PREFLIGHT_ID_PREFIX @ '':'' @ kind @ '':'' @ take 32 digest"

section \<open>Time\<close>

definition parseTime :: "preflight_env \<Rightarrow> string option \<Rightarrow> int option" where
  "parseTime env v = (case v of None \<Rightarrow> None | Some s \<Rightarrow> pe_dateParse env s)"

definition ageSeconds :: "preflight_env \<Rightarrow> string \<Rightarrow> string \<Rightarrow> rat option" where
  "ageSeconds env asOf observedAt =
     (case (parseTime env (Some asOf), parseTime env (Some observedAt)) of
        (Some now, Some t) \<Rightarrow> Some (max 0 (of_int (now - t) / 1000))
      | _ \<Rightarrow> None)"

text \<open>Comparison of an age with a limit, and \<open>Math.round\<close> of an age; \<open>None\<close> is \<open>Infinity\<close>.\<close>

definition age_gt :: "rat option \<Rightarrow> int \<Rightarrow> bool" where
  "age_gt age bound = (case age of None \<Rightarrow> True | Some a \<Rightarrow> a > of_int bound)"

definition age_round :: "rat option \<Rightarrow> js_num" where
  "age_round age = (case age of None \<Rightarrow> JInfinity | Some a \<Rightarrow> JInt \<lfloor>a + 1 / 2\<rfloor>)"

definition show_num :: "js_num \<Rightarrow> string" where
  "show_num n = (case n of JInt i \<Rightarrow> show_int i | JNegZero \<Rightarrow> ''0'' | JFrac f \<Rightarrow> f | JNaN \<Rightarrow> ''NaN'' | JInfinity \<Rightarrow> ''Infinity'')"

definition toIsoOrRaw :: "preflight_env \<Rightarrow> string \<Rightarrow> string" where
  "toIsoOrRaw env v = (case parseTime env (Some v) of None \<Rightarrow> v | Some t \<Rightarrow> pe_toISOString env t)"

section \<open>Normalisation\<close>

text \<open>\<open>normalizeDecimal\<close> does not throw on a decimal string, see \<open>safeNormalize_value\<close>.\<close>

definition safeNormalize :: "string \<Rightarrow> string" where
  "safeNormalize v = (if isDecimalString v then projr (normalizeDecimal v) else v)"

definition normalizeOperation :: "PreflightOperation \<Rightarrow> PreflightOperation" where
  "normalizeOperation operation =
     operation\<lparr>op_asset := toUpperCase (trim (op_asset operation)),
       op_amount := safeNormalize (op_amount operation),
       op_estimatedFee := map_option safeNormalize (op_estimatedFee operation)\<rparr>"

definition normalizeAssetMap :: "(string, string) jsmap \<Rightarrow> (string, string) jsmap" where
  "normalizeAssetMap vals =
     fold (\<lambda>(key, v) m. if isDecimalString v then map_set (toUpperCase (trim key)) (projr (normalizeDecimal v)) m else m)
       vals []"

definition normalizeSnapshot :: "PreflightStateSnapshot \<Rightarrow> PreflightStateSnapshot" where
  "normalizeSnapshot s =
     s\<lparr>sn_balances := normalizeAssetMap (sn_balances s),
       sn_allowances := normalizeAssetMap (sn_allowances s),
       sn_consumedDigests := js_sort string_le (js_set (sn_consumedDigests s)),
       sn_idempotencyRecords := js_sort (\<lambda>a b. string_le (ir_key a) (ir_key b)) (sn_idempotencyRecords s),
       sn_verifiedDestinations := js_sort string_le (js_set (sn_verifiedDestinations s)),
       sn_oracle := js_sort (\<lambda>a b. string_le (or_asset a) (or_asset b))
         (map (\<lambda>e. e\<lparr>or_asset := toUpperCase (trim (or_asset e))\<rparr>) (sn_oracle s))\<rparr>"

definition js_opt :: "string option \<Rightarrow> js_value" where
  "js_opt v = (case v of None \<Rightarrow> JUndefined | Some s \<Rightarrow> JStr s)"

definition operation_json :: "PreflightOperation \<Rightarrow> js_value" where
  "operation_json o1 = JObj True
     [(''kind'', JStr (kind_value (op_kind o1))), (''asset'', JStr (op_asset o1)), (''amount'', JStr (op_amount o1)),
      (''side'', js_opt (op_side o1)), (''destination'', js_opt (op_destination o1)),
      (''idempotencyKey'', js_opt (op_idempotencyKey o1)),
      (''requiresOraclePrice'', (case op_requiresOraclePrice o1 of None \<Rightarrow> JUndefined | Some b \<Rightarrow> JBool b)),
      (''expectedStateVersion'', js_opt (op_expectedStateVersion o1)), (''expiresAt'', js_opt (op_expiresAt o1)),
      (''estimatedFee'', js_opt (op_estimatedFee o1))]"

definition buildOperationDigest :: "preflight_env \<Rightarrow> PreflightOperation \<Rightarrow> string" where
  "buildOperationDigest env operation =
     preflightDigest env PREFLIGHT_DIGEST_NAMESPACE
       [''operation'', canonicalize (operation_json (normalizeOperation operation))]"

section \<open>Rules\<close>

definition finding ::
  "PreflightFindingCode \<Rightarrow> PreflightSeverity \<Rightarrow> ErrorCode \<Rightarrow> string \<Rightarrow> string \<Rightarrow> string option \<Rightarrow>
   (string \<times> js_value) list option \<Rightarrow> PreflightFinding" where
  "finding code severity errorCode message remediation field details =
     \<lparr>pf_code = code, pf_severity = severity, pf_message = message, pf_remediation = remediation,
      pf_field = field, pf_errorCode = errorCode, pf_details = details\<rparr>"

fun policyMapped :: "PolicyViolation \<Rightarrow> PreflightFindingCode \<times> ErrorCode \<times> string" where
  "policyMapped v =
     (case pv_code v of
        PV_TRADING_DISABLED \<Rightarrow>
          (TRADING_DISABLED, PRECONDITION_FAILED, ''Retry the operation once trading is re-enabled.'')
      | PV_INVALID_TRADE_AMOUNT \<Rightarrow>
          (INVALID_TRADE_AMOUNT, VALIDATION_ERROR, ''Provide an amount greater than zero and retry.'')
      | PV_TRADE_AMOUNT_LIMIT_EXCEEDED \<Rightarrow>
          (TRADE_AMOUNT_LIMIT_EXCEEDED, RISK_LIMIT_EXCEEDED,
           (case pv_limit v of
              None \<Rightarrow> ''Lower the amount to within the configured limit.''
            | Some n \<Rightarrow> ''Lower the amount to '' @ show_num n @ '' or below.''))
      | PV_ASSET_NOT_ALLOWED \<Rightarrow>
          (TRADE_ASSET_NOT_ALLOWED, ASSET_UNSUPPORTED, ''Choose an asset that is enabled for trading.'')
      | PV_TRADE_SIDE_NOT_ALLOWED \<Rightarrow>
          (TRADE_SIDE_NOT_ALLOWED, PRECONDITION_FAILED, ''Use a trade side enabled by the current policy.''))"

definition policyViolationFinding :: "PolicyViolation \<Rightarrow> PreflightFinding" where
  "policyViolationFinding v =
     (case policyMapped v of
        (code, errorCode, remediation) \<Rightarrow>
          let details =
            (case pv_limit v of None \<Rightarrow> [] | Some n \<Rightarrow> [(''limit'', JNum n)]) @
            (case pv_allowedValues v of None \<Rightarrow> [] | Some vs \<Rightarrow> [(''allowedValues'', JStr (join '','' vs))])
          in finding code Sev_blocking errorCode (pv_message v) remediation (Some (pv_field v))
               (if details \<noteq> [] then Some details else None))"

definition requiresOraclePrice :: "PreflightOperation \<Rightarrow> bool" where
  "requiresOraclePrice o1 =
     (case op_requiresOraclePrice o1 of Some b \<Rightarrow> b | None \<Rightarrow> op_kind o1 \<noteq> Payment_transfer)"

text \<open>A truthy string value, with its text.\<close>

definition truthy :: "string option \<Rightarrow> bool" where
  "truthy v = (case v of None \<Rightarrow> False | Some s \<Rightarrow> s \<noteq> [])"

definition checkExpiry :: "preflight_env \<Rightarrow> PreflightOperation \<Rightarrow> string \<Rightarrow> PreflightFinding list" where
  "checkExpiry env o1 asOf =
     (if \<not> truthy (op_expiresAt o1) then []
      else case (parseTime env (op_expiresAt o1), parseTime env (Some asOf)) of
          (Some expiresAt, Some now) \<Rightarrow>
            if expiresAt > now then []
            else [finding OPERATION_EXPIRED Sev_blocking PRECONDITION_FAILED
                    (''This operation expired at '' @ the (op_expiresAt o1) @ '' and can no longer be submitted.'')
                    ''Build and sign a new operation with a future expiry, then preflight it again.''
                    (Some ''expiresAt'')
                    (Some [(''expiresAt'', js_opt (op_expiresAt o1)), (''asOf'', JStr asOf)])]
        | _ \<Rightarrow> [])"

definition checkStateVersion :: "PreflightOperation \<Rightarrow> PreflightStateSnapshot \<Rightarrow> PreflightFinding list" where
  "checkStateVersion o1 s =
     (if \<not> truthy (op_expectedStateVersion o1) then []
      else if op_expectedStateVersion o1 = Some (sn_version s) then []
      else [finding STATE_VERSION_MISMATCH Sev_blocking CONFLICT
              (''The account state changed since this operation was prepared: expected version ''
                @ the (op_expectedStateVersion o1) @ '', current version '' @ sn_version s @ ''.'')
              (''Re-read the current state at version '' @ sn_version s @ '' and rebuild the operation before submitting.'')
              (Some ''expectedStateVersion'')
              (Some [(''expectedStateVersion'', js_opt (op_expectedStateVersion o1)),
                     (''currentStateVersion'', JStr (sn_version s))])])"

definition checkSnapshotFreshness ::
  "preflight_env \<Rightarrow> PreflightStateSnapshot \<Rightarrow> PreflightThresholds \<Rightarrow> string \<Rightarrow> PreflightFinding list" where
  "checkSnapshotFreshness env s th asOf =
     (let age = ageSeconds env asOf (sn_observedAt s) in
      if age_gt age (th_maxSnapshotAgeSeconds th)
      then [finding STATE_SNAPSHOT_STALE Sev_blocking PRECONDITION_FAILED
              (''The state snapshot is '' @ show_num (age_round age) @ ''s old, which is beyond the ''
                @ show_int (th_maxSnapshotAgeSeconds th) @ ''s freshness limit.'')
              ''Refresh the state snapshot and rebuild the operation before submitting.''
              (Some ''observedAt'')
              (Some [(''snapshotAgeSeconds'', JNum (age_round age)),
                     (''maxSnapshotAgeSeconds'', JNum (JInt (th_maxSnapshotAgeSeconds th))),
                     (''observedAt'', JStr (sn_observedAt s))])]
      else if age_gt age (th_warnSnapshotAgeSeconds th)
      then [finding STATE_SNAPSHOT_AGING Sev_warning PRECONDITION_FAILED
              (''The state snapshot is '' @ show_num (age_round age) @ ''s old and is approaching the ''
                @ show_int (th_maxSnapshotAgeSeconds th) @ ''s freshness limit.'')
              ''Refresh the snapshot before submitting if the operation is time-sensitive.''
              (Some ''observedAt'')
              (Some [(''snapshotAgeSeconds'', JNum (age_round age)),
                     (''warnSnapshotAgeSeconds'', JNum (JInt (th_warnSnapshotAgeSeconds th))),
                     (''maxSnapshotAgeSeconds'', JNum (JInt (th_maxSnapshotAgeSeconds th)))])]
      else [])"

definition checkDuplicate :: "string \<Rightarrow> PreflightStateSnapshot \<Rightarrow> PreflightFinding list" where
  "checkDuplicate operationDigest s =
     (if operationDigest \<notin> set (sn_consumedDigests s) then []
      else [finding DUPLICATE_OPERATION Sev_blocking DUPLICATE_PAYMENT_SUBMISSION
              ''An identical operation has already been executed against this account.''
              ''Do not resubmit. Look up the existing transaction status instead.''
              None (Some [(''operationDigest'', JStr operationDigest)])])"

definition em_dash :: string where
  "em_dash = [CHR 0xE2, CHR 0x80, CHR 0x94]"

definition status_lower :: "PreflightIdempotencyRecord \<Rightarrow> string" where
  "status_lower r = toLowerCase (case ir_status r of None \<Rightarrow> [] | Some s \<Rightarrow> s)"

definition checkIdempotency ::
  "PreflightOperation \<Rightarrow> string \<Rightarrow> PreflightStateSnapshot \<Rightarrow> PreflightFinding list" where
  "checkIdempotency o1 operationDigest s =
     (if \<not> truthy (op_idempotencyKey o1) then []
      else let key = the (op_idempotencyKey o1) in
        case List.find (\<lambda>e. ir_key e = key) (sn_idempotencyRecords s) of
          None \<Rightarrow> []
        | Some r \<Rightarrow>
            let det = Some [(''idempotencyKey'', JStr key)] in
            if ir_requestDigest r \<noteq> operationDigest
            then [finding IDEMPOTENCY_KEY_REUSED Sev_blocking CONFLICT
                    (''Idempotency key '' @ key @ '' was already used for a different request.'')
                    ''Use a new idempotency key for a different payload.'' (Some ''idempotencyKey'') det]
            else if status_lower r = ''in_progress''
            then [finding IDEMPOTENCY_IN_PROGRESS Sev_blocking CONFLICT
                    (''A request with idempotency key '' @ key @ '' is already in progress.'')
                    ''Wait for the in-flight request to finish, then retry with the same key.'' (Some ''idempotencyKey'') det]
            else if status_lower r = ''completed''
            then [finding IDEMPOTENT_REPLAY Sev_info DUPLICATE_PAYMENT_SUBMISSION
                    ''This request was already completed and will be replayed from storage.''
                    (''No action needed '' @ em_dash @ '' the stored response is returned instead of re-executing.'')
                    (Some ''idempotencyKey'') det]
            else [])"

type_synonym findings = "(decimal_error, PreflightFinding list) result"

definition bind_result :: "('e, 'a) result \<Rightarrow> ('a \<Rightarrow> ('e, 'b) result) \<Rightarrow> ('e, 'b) result" where
  "bind_result r f = (case r of Inl e \<Rightarrow> Inl e | Inr x \<Rightarrow> f x)"

definition checkFee :: "PreflightOperation \<Rightarrow> string \<Rightarrow> string \<Rightarrow> string \<Rightarrow> findings" where
  "checkFee o1 asset balance fee =
     bind_result (subtractDecimal balance (op_amount o1)) (\<lambda>remaining.
     bind_result (compareDecimal remaining fee) (\<lambda>c.
     if c < 0
     then bind_result (subtractDecimal fee remaining) (\<lambda>short.
       Inr [finding FEE_BUFFER_EXHAUSTED Sev_warning INSUFFICIENT_FUNDS
              (''The amount leaves '' @ remaining @ '' '' @ asset @ '', which is below the estimated network fee of ''
                @ fee @ '' '' @ asset @ ''.'')
              (''Lower the amount by at least '' @ short @ '' '' @ asset @ '' to keep the fee covered.'')
              (Some ''amount'')
              (Some [(''asset'', JStr asset), (''remaining'', JStr remaining), (''estimatedFee'', JStr fee),
                     (''shortfall'', JStr short)])])
     else Inr []))"

definition checkBalanceAndFee :: "PreflightOperation \<Rightarrow> PreflightStateSnapshot \<Rightarrow> findings" where
  "checkBalanceAndFee o1 s =
     (if op_kind o1 = Oracle_submission then Inr []
      else let asset = op_asset o1 in
        case map_get (sn_balances s) asset of
          None \<Rightarrow> Inr [finding BALANCE_STATE_UNAVAILABLE Sev_blocking PRECONDITION_FAILED
              (''No current balance is available for '' @ asset @ '', so the transfer cannot be validated.'')
              ''Refresh the account balance for the requested asset and retry.''
              (Some ''asset'') (Some [(''asset'', JStr asset)])]
        | Some balance \<Rightarrow>
            bind_result (compareDecimal (op_amount o1) balance) (\<lambda>c.
            if c > 0
            then bind_result (subtractDecimal (op_amount o1) balance) (\<lambda>short.
              Inr [finding INSUFFICIENT_BALANCE Sev_blocking INSUFFICIENT_FUNDS
                (''Requested amount '' @ op_amount o1 @ '' '' @ asset @ '' exceeds the available balance of ''
                  @ balance @ '' '' @ asset @ ''.'')
                (''Fund the account or lower the amount to '' @ balance @ '' '' @ asset @ '' or below.'')
                (Some ''amount'')
                (Some [(''asset'', JStr asset), (''amount'', JStr (op_amount o1)), (''available'', JStr balance),
                       (''shortfall'', JStr short)])])
            else case op_estimatedFee o1 of
                None \<Rightarrow> Inr []
              | Some fee \<Rightarrow>
                  bind_result (compareDecimal fee ''0'') (\<lambda>c.
                  if c > 0 then checkFee o1 asset balance fee else Inr [])))"

definition checkAllowance :: "PreflightOperation \<Rightarrow> PreflightStateSnapshot \<Rightarrow> findings" where
  "checkAllowance o1 s =
     (let asset = op_asset o1 in
      case map_get (sn_allowances s) asset of
        None \<Rightarrow> Inr []
      | Some allowance \<Rightarrow>
          bind_result (compareDecimal (op_amount o1) allowance) (\<lambda>c.
          if c \<le> 0 then Inr []
          else Inr [finding INSUFFICIENT_ALLOWANCE Sev_blocking INSUFFICIENT_FUNDS
                (''Requested amount '' @ op_amount o1 @ '' '' @ asset @ '' exceeds the approved allowance of ''
                  @ allowance @ '' '' @ asset @ ''.'')
                ''Increase the token allowance or lower the amount before submitting.''
                (Some ''amount'')
                (Some [(''asset'', JStr asset), (''amount'', JStr (op_amount o1)), (''allowance'', JStr allowance)])]))"

definition checkTradePolicy :: "PreflightOperation \<Rightarrow> PreflightStateSnapshot \<Rightarrow> PreflightFinding list" where
  "checkTradePolicy o1 s =
     (if op_kind o1 \<noteq> Trade then []
      else case sn_policyDecision s of
          None \<Rightarrow> [finding POLICY_STATE_UNAVAILABLE Sev_blocking PRECONDITION_FAILED
              ''The trading policy could not be evaluated for this operation.''
              ''Retry once the policy engine is reachable, or submit through the standard trade endpoint.''
              (Some ''kind'') None]
        | Some (Policy_denied v) \<Rightarrow> [policyViolationFinding v]
        | Some Policy_allowed \<Rightarrow> [])"

definition checkOracle ::
  "preflight_env \<Rightarrow> PreflightOperation \<Rightarrow> PreflightStateSnapshot \<Rightarrow> PreflightThresholds \<Rightarrow> string \<Rightarrow> PreflightFinding list" where
  "checkOracle env o1 s th asOf =
     (if \<not> requiresOraclePrice o1 then []
      else case List.find (\<lambda>e. or_asset e = op_asset o1) (sn_oracle s) of
          None \<Rightarrow> [finding ORACLE_PRICE_MISSING Sev_blocking ORACLE_VERIFICATION_FAILED
              (''No oracle price is available for '' @ op_asset o1 @ ''.'')
              ''Wait for a price-feed update, or route the operation through a manual price source.''
              (Some ''asset'') (Some [(''asset'', JStr (op_asset o1))])]
        | Some e \<Rightarrow>
            let age = ageSeconds env asOf (or_updatedAt e) in
            if age_gt age (th_maxOracleAgeSeconds th)
            then [finding ORACLE_PRICE_STALE Sev_blocking ORACLE_VERIFICATION_FAILED
                (''The oracle price for '' @ op_asset o1 @ '' is '' @ show_num (age_round age) @ ''s old, beyond the ''
                  @ show_int (th_maxOracleAgeSeconds th) @ ''s freshness limit.'')
                ''Wait for a fresh oracle price before submitting this operation.''
                (Some ''asset'')
                (Some [(''asset'', JStr (op_asset o1)), (''oracleAgeSeconds'', JNum (age_round age)),
                       (''maxOracleAgeSeconds'', JNum (JInt (th_maxOracleAgeSeconds th))), (''updatedAt'', JStr (or_updatedAt e))])]
            else [])"

definition checkDestination :: "PreflightOperation \<Rightarrow> PreflightStateSnapshot \<Rightarrow> PreflightFinding list" where
  "checkDestination o1 s =
     (if op_kind o1 \<noteq> Payment_transfer then []
      else if \<not> truthy (op_destination o1) then []
      else if sn_verifiedDestinations s = [] then []
      else if the (op_destination o1) \<in> set (sn_verifiedDestinations s) then []
      else [finding DESTINATION_NOT_VERIFIED Sev_warning PRECONDITION_FAILED
              (''Destination '' @ the (op_destination o1) @ '' has not been verified for this account.'')
              (''Confirm the destination address before submitting '' @ em_dash @ '' on-chain transfers are irreversible.'')
              (Some ''destination'') (Some [(''destination'', js_opt (op_destination o1))])])"

section \<open>Evaluation\<close>

fun SEVERITY_RANK :: "PreflightSeverity \<Rightarrow> nat" where
  "SEVERITY_RANK Sev_blocking = 0"
| "SEVERITY_RANK Sev_warning = 1"
| "SEVERITY_RANK Sev_info = 2"

definition field_text :: "PreflightFinding \<Rightarrow> string" where
  "field_text f = (case pf_field f of None \<Rightarrow> [] | Some s \<Rightarrow> s)"

text \<open>A comparison is not positive.\<close>

definition finding_le :: "PreflightFinding \<Rightarrow> PreflightFinding \<Rightarrow> bool" where
  "finding_le a b =
     (if SEVERITY_RANK (pf_severity a) \<noteq> SEVERITY_RANK (pf_severity b)
      then SEVERITY_RANK (pf_severity a) \<le> SEVERITY_RANK (pf_severity b)
      else if code_value (pf_code a) \<noteq> code_value (pf_code b)
      then string_le (code_value (pf_code a)) (code_value (pf_code b))
      else if field_text a \<noteq> field_text b then string_le (field_text a) (field_text b)
      else string_le (pf_message a) (pf_message b))"

definition sortFindings :: "PreflightFinding list \<Rightarrow> PreflightFinding list" where
  "sortFindings findings = js_sort finding_le findings"

definition finding_json :: "PreflightFinding \<Rightarrow> js_value" where
  "finding_json f = JObj True
     [(''code'', JStr (code_value (pf_code f))), (''severity'', JStr (severity_value (pf_severity f))),
      (''errorCode'', JStr (errorCode_value (pf_errorCode f))), (''message'', JStr (pf_message f)),
      (''remediation'', JStr (pf_remediation f)), (''field'', js_opt (pf_field f)),
      (''details'', (case pf_details f of None \<Rightarrow> JUndefined | Some d \<Rightarrow> JObj True d))]"

definition invalidAmount :: PreflightFinding where
  "invalidAmount = finding INVALID_OPERATION_AMOUNT Sev_blocking VALIDATION_ERROR
     ''The operation amount is not a valid non-negative decimal string.''
     ''Provide the amount as a decimal string such as '10' or '10.5'.''
     (Some ''amount'') None"

text \<open>The rules of the valid branch, in the order the source calls them.\<close>

definition runChecks ::
  "preflight_env \<Rightarrow> PreflightOperation \<Rightarrow> PreflightStateSnapshot \<Rightarrow> PreflightThresholds \<Rightarrow> string \<Rightarrow> findings" where
  "runChecks env o1 s th asOf =
     (let digest = buildOperationDigest env o1;
          before = checkExpiry env o1 asOf @ checkStateVersion o1 s @ checkSnapshotFreshness env s th asOf @
            checkDuplicate digest s @ checkIdempotency o1 digest s
      in bind_result (checkBalanceAndFee o1 s) (\<lambda>balance.
         bind_result (checkAllowance o1 s) (\<lambda>allowance.
         Inr (before @ balance @ allowance @ checkTradePolicy o1 s @ checkOracle env o1 s th asOf @ checkDestination o1 s))))"

definition count_severity :: "PreflightSeverity \<Rightarrow> PreflightFinding list \<Rightarrow> nat" where
  "count_severity sev fs = length (filter (\<lambda>f. pf_severity f = sev) fs)"

definition assemble ::
  "preflight_env \<Rightarrow> PreflightOperation \<Rightarrow> PreflightStateSnapshot \<Rightarrow> string \<Rightarrow> PreflightFinding list \<Rightarrow> PreflightResult" where
  "assemble env o1 s asOf findings =
     (let operationDigest = buildOperationDigest env o1;
          ordered = sortFindings findings;
          blockingCount = count_severity Sev_blocking ordered;
          warningCount = count_severity Sev_warning ordered;
          status = (if blockingCount > 0 then Status_blocking else if warningCount > 0 then Status_warning else Status_success);
          observedAt = toIsoOrRaw env (sn_observedAt s);
          idDigest = preflightDigest env PREFLIGHT_DIGEST_NAMESPACE
            [''id'', operationDigest, sn_version s, asOf, observedAt, PREFLIGHT_EVALUATION_VERSION];
          resultId = preflightId (kind_value (op_kind o1)) idDigest;
          digest = digestValue env (JObj True
            [(''preflightId'', JStr resultId), (''status'', JStr (status_value status)),
             (''evaluationVersion'', JStr PREFLIGHT_EVALUATION_VERSION),
             (''findings'', JArr (map (Some \<circ> finding_json) ordered))])
      in \<lparr>pr_preflightId = resultId, pr_status = status, pr_evaluationVersion = PREFLIGHT_EVALUATION_VERSION,
          pr_operationDigest = operationDigest, pr_stateVersion = sn_version s, pr_asOf = asOf,
          pr_snapshotObservedAt = observedAt, pr_blockingCount = blockingCount, pr_warningCount = warningCount,
          pr_findings = ordered, pr_digest = digest\<rparr>)"

definition evaluatePreflight :: "preflight_env \<Rightarrow> PreflightEvaluationInput \<Rightarrow> (decimal_error, PreflightResult) result" where
  "evaluatePreflight env input =
     (let o1 = normalizeOperation (in_operation input);
          s = normalizeSnapshot (in_snapshot input);
          asOf = toIsoOrRaw env (in_asOf input)
      in bind_result (if \<not> isDecimalString (op_amount o1) then Inr [invalidAmount]
                      else runChecks env o1 s (in_thresholds input) asOf)
           (\<lambda>findings. Inr (assemble env o1 s asOf findings)))"

section \<open>Normal forms\<close>

lemma safeNormalize_value:
  assumes "isDecimalString v"
  shows "normalizeDecimal v = Inr (safeNormalize v)" "isDecimalString (safeNormalize v)" "dval (safeNormalize v) = dval v"
  using dec.norm_val [OF assms] assms by (auto simp: safeNormalize_def)

lemma safeNormalize_valid [simp]: "isDecimalString (safeNormalize v) \<longleftrightarrow> isDecimalString v"
  using safeNormalize_value(2) [of v] by (auto simp: safeNormalize_def)

lemma safeNormalize_idem [simp]: "safeNormalize (safeNormalize v) = safeNormalize v"
proof (cases "isDecimalString v")
  case True
  then show ?thesis
    using dec.norm_idem [OF True safeNormalize_value(1) [OF True]] by (simp add: safeNormalize_def [of "safeNormalize v"])
qed (simp add: safeNormalize_def)

lemma normalizeOperation_idem: "normalizeOperation (normalizeOperation o1) = normalizeOperation o1"
  by (simp add: normalizeOperation_def trim_upper option.map_comp comp_def)

lemma buildOperationDigest_normal: "buildOperationDigest env (normalizeOperation o1) = buildOperationDigest env o1"
  by (simp add: buildOperationDigest_def normalizeOperation_idem)

text \<open>The asset maps hold canonical decimals only, and only depend on the entries, not on their order.\<close>

abbreviation asset_key :: "string \<Rightarrow> string" where
  "asset_key k \<equiv> toUpperCase (trim k)"

definition asset_entries :: "(string, string) jsmap \<Rightarrow> (string, string) jsmap" where
  "asset_entries vals = map (\<lambda>(k, v). (asset_key k, safeNormalize v)) (filter (\<lambda>(k, v). isDecimalString v) vals)"

lemma normalizeAssetMap_fold:
  "normalizeAssetMap vals = fold (\<lambda>(k, v). map_set k v) (asset_entries vals) []"
proof -
  have "fold (\<lambda>(key, v) m. if isDecimalString v then map_set (asset_key key) (projr (normalizeDecimal v)) m else m) vals m =
      fold (\<lambda>(k, v). map_set k v) (asset_entries vals) m" for m
    by (induction vals arbitrary: m) (auto simp: asset_entries_def safeNormalize_def)
  then show ?thesis by (simp add: normalizeAssetMap_def)
qed

lemma fold_map_set_get:
  "map_get (fold (\<lambda>(k, v). map_set k v) es m) k = (case map_of (rev es) k of Some v \<Rightarrow> Some v | None \<Rightarrow> map_get m k)"
  by (induction es arbitrary: m) (auto simp: js_simps map_add_def split: option.splits)

lemma normalizeAssetMap_get: "map_get (normalizeAssetMap vals) k = map_of (rev (asset_entries vals)) k"
  by (simp add: normalizeAssetMap_fold fold_map_set_get split: option.split)

lemma normalizeAssetMap_decimal: "map_get (normalizeAssetMap vals) k = Some v \<Longrightarrow> isDecimalString v"
  by (auto simp: normalizeAssetMap_get asset_entries_def dest!: map_of_SomeD)

lemma normalizeAssetMap_perm:
  assumes "mset xs = mset ys" "distinct (map (asset_key \<circ> fst) ys)"
  shows "map_of (normalizeAssetMap xs) = map_of (normalizeAssetMap ys)"
proof -
  have m: "mset (asset_entries xs) = mset (asset_entries ys)" using assms(1) by (simp add: asset_entries_def)
  have "distinct (map (asset_key \<circ> fst) (filter (\<lambda>(k, v). isDecimalString v) ys))"
    using assms(2) by (rule distinct_map_filter)
  then have d: "distinct (map fst (asset_entries ys))"
    by (simp add: asset_entries_def comp_def case_prod_unfold)
  then have "distinct (map fst (asset_entries xs))" using m by (metis mset_eq_imp_distinct_iff mset_map)
  with d m have "map_of (rev (asset_entries xs)) = map_of (rev (asset_entries ys))"
    using map_of_inject_set [of "rev (asset_entries xs)" "rev (asset_entries ys)"] mset_eq_setD [OF m]
    by (simp only: rev_map [symmetric] distinct_rev set_rev)
  then show ?thesis by (auto simp: normalizeAssetMap_get)
qed

lemma sort_by_key_perm:
  assumes "mset xs = mset ys" "distinct (map f ys)"
  shows "js_sort (\<lambda>a b. string_le (f a) (f b)) xs = js_sort (\<lambda>a b. string_le (f a) (f b)) ys"
proof -
  have srt: "sorted_wrt (\<lambda>a b. string_le (f a) (f b)) (js_sort (\<lambda>a b. string_le (f a) (f b)) zs)" for zs
    by (rule sorted_js_sort) (rule string_le_total, rule string_le_trans)
  have dx: "distinct (map f xs)" using assms by (metis mset_eq_imp_distinct_iff mset_map)
  show ?thesis
  proof (rule sorted_wrt_mset_unique [OF srt srt])
  show "mset (js_sort (\<lambda>a b. string_le (f a) (f b)) xs) = mset (js_sort (\<lambda>a b. string_le (f a) (f b)) ys)"
    using assms(1) by simp
  fix p q assume "p \<in> set (js_sort (\<lambda>a b. string_le (f a) (f b)) xs)" "q \<in> set (js_sort (\<lambda>a b. string_le (f a) (f b)) xs)"
    "string_le (f p) (f q)" "string_le (f q) (f p)"
  with dx show "p = q" by (auto simp: distinct_map dest: inj_onD string_le_antisym)
  qed
qed

lemma sort_set_eq:
  assumes "set xs = set ys"
  shows "js_sort string_le (js_set xs) = js_sort string_le (js_set ys)"
proof -
  have "mset (js_set xs) = mset (js_set ys)"
    using assms set_eq_iff_mset_eq_distinct [of "js_set xs" "js_set ys"] by simp
  then show ?thesis using sort_by_key_perm [of "js_set xs" "js_set ys" "\<lambda>x. x"] by simp
qed

section \<open>What blocks an operation\<close>

definition has_blocking :: "PreflightFinding list \<Rightarrow> bool" where
  "has_blocking fs = list_ex (\<lambda>f. pf_severity f = Sev_blocking) fs"

lemma has_blocking_simps [simp]:
  "has_blocking [] = False" "has_blocking (f # fs) = (pf_severity f = Sev_blocking \<or> has_blocking fs)"
  "has_blocking (xs @ ys) = (has_blocking xs \<or> has_blocking ys)"
  by (simp_all add: has_blocking_def)

lemma finding_severity [simp]: "pf_severity (finding c sv e m r f d) = sv"
  by (simp add: finding_def)

lemma policy_blocking [simp]: "pf_severity (policyViolationFinding v) = Sev_blocking"
  by (simp add: policyViolationFinding_def case_prod_unfold Let_def)

lemma count_blocking: "0 < count_severity Sev_blocking (sortFindings fs) \<longleftrightarrow> has_blocking fs"
  by (simp add: count_severity_def has_blocking_def list_ex_iff sortFindings_def filter_empty_conv)

text \<open>
  The conditions under which the preflight must refuse an operation, stated on the values of the
  amounts and on the normalised operation \<open>o1\<close>, snapshot \<open>s\<close> and instant \<open>asOf\<close>.
\<close>

definition expired :: "preflight_env \<Rightarrow> PreflightOperation \<Rightarrow> string \<Rightarrow> bool" where
  "expired env o1 asOf \<longleftrightarrow> (\<exists>e x now. op_expiresAt o1 = Some e \<and> e \<noteq> [] \<and> pe_dateParse env e = Some x \<and>
     pe_dateParse env asOf = Some now \<and> x \<le> now)"

definition version_mismatch :: "PreflightOperation \<Rightarrow> PreflightStateSnapshot \<Rightarrow> bool" where
  "version_mismatch o1 s \<longleftrightarrow> (\<exists>v. op_expectedStateVersion o1 = Some v \<and> v \<noteq> [] \<and> v \<noteq> sn_version s)"

definition key_conflict :: "PreflightOperation \<Rightarrow> string \<Rightarrow> PreflightStateSnapshot \<Rightarrow> bool" where
  "key_conflict o1 digest s \<longleftrightarrow> (\<exists>k r. op_idempotencyKey o1 = Some k \<and> k \<noteq> [] \<and>
     List.find (\<lambda>e. ir_key e = k) (sn_idempotencyRecords s) = Some r \<and>
     (ir_requestDigest r \<noteq> digest \<or> status_lower r = ''in_progress''))"

definition not_covered :: "PreflightOperation \<Rightarrow> PreflightStateSnapshot \<Rightarrow> bool" where
  "not_covered o1 s \<longleftrightarrow>
     op_kind o1 \<noteq> Oracle_submission \<and>
       (case map_get (sn_balances s) (op_asset o1) of None \<Rightarrow> True | Some b \<Rightarrow> dval (op_amount o1) > dval b) \<or>
     (\<exists>a. map_get (sn_allowances s) (op_asset o1) = Some a \<and> dval (op_amount o1) > dval a)"

definition oracle_unusable :: "preflight_env \<Rightarrow> PreflightOperation \<Rightarrow> PreflightStateSnapshot \<Rightarrow> PreflightThresholds \<Rightarrow> string \<Rightarrow> bool" where
  "oracle_unusable env o1 s th asOf \<longleftrightarrow> requiresOraclePrice o1 \<and>
     (case List.find (\<lambda>e. or_asset e = op_asset o1) (sn_oracle s) of
        None \<Rightarrow> True
      | Some e \<Rightarrow> age_gt (ageSeconds env asOf (or_updatedAt e)) (th_maxOracleAgeSeconds th))"

definition must_block :: "preflight_env \<Rightarrow> PreflightEvaluationInput \<Rightarrow> bool" where
  "must_block env i \<longleftrightarrow>
     (let o1 = normalizeOperation (in_operation i); s = normalizeSnapshot (in_snapshot i);
          th = in_thresholds i; asOf = toIsoOrRaw env (in_asOf i); digest = buildOperationDigest env (in_operation i)
      in \<not> isDecimalString (op_amount (in_operation i)) \<or> expired env o1 asOf \<or> version_mismatch o1 s \<or>
         age_gt (ageSeconds env asOf (sn_observedAt s)) (th_maxSnapshotAgeSeconds th) \<or>
         digest \<in> set (sn_consumedDigests s) \<or> key_conflict o1 digest s \<or> not_covered o1 s \<or>
         (op_kind o1 = Trade \<and> sn_policyDecision s \<noteq> Some Policy_allowed) \<or> oracle_unusable env o1 s th asOf)"

lemma expiry_blocks: "has_blocking (checkExpiry env o1 asOf) \<longleftrightarrow> expired env o1 asOf"
  by (auto simp: checkExpiry_def expired_def truthy_def parseTime_def split: option.split)

lemma version_blocks: "has_blocking (checkStateVersion o1 s) \<longleftrightarrow> version_mismatch o1 s"
  by (auto simp: checkStateVersion_def version_mismatch_def truthy_def split: option.split)

lemma freshness_blocks:
  "has_blocking (checkSnapshotFreshness env s th asOf) \<longleftrightarrow>
     age_gt (ageSeconds env asOf (sn_observedAt s)) (th_maxSnapshotAgeSeconds th)"
  by (simp add: checkSnapshotFreshness_def Let_def)

lemma duplicate_blocks: "has_blocking (checkDuplicate d s) \<longleftrightarrow> d \<in> set (sn_consumedDigests s)"
  by (simp add: checkDuplicate_def)

lemma idempotency_blocks: "has_blocking (checkIdempotency o1 d s) \<longleftrightarrow> key_conflict o1 d s"
  by (auto simp: checkIdempotency_def key_conflict_def truthy_def Let_def split: option.split)

lemma trade_blocks: "has_blocking (checkTradePolicy o1 s) \<longleftrightarrow> op_kind o1 = Trade \<and> sn_policyDecision s \<noteq> Some Policy_allowed"
  by (auto simp: checkTradePolicy_def split: option.split PolicyDecision.split)

lemma oracle_blocks: "has_blocking (checkOracle env o1 s th asOf) \<longleftrightarrow> oracle_unusable env o1 s th asOf"
  by (simp add: checkOracle_def oracle_unusable_def Let_def split: option.split)

lemma destination_blocks: "\<not> has_blocking (checkDestination o1 s)"
  by (simp add: checkDestination_def)

lemma fee_blocks: "checkFee o1 a b f = Inr fs \<Longrightarrow> \<not> has_blocking fs"
  by (auto simp: checkFee_def bind_result_def split: sum.splits if_splits)

lemma allowance_blocks:
  assumes "isDecimalString (op_amount o1)" "\<And>a. map_get (sn_allowances s) (op_asset o1) = Some a \<Longrightarrow> isDecimalString a"
  shows "\<exists>fs. checkAllowance o1 s = Inr fs \<and>
    (has_blocking fs \<longleftrightarrow> (\<exists>a. map_get (sn_allowances s) (op_asset o1) = Some a \<and> dval (op_amount o1) > dval a))"
  using assms by (auto simp: checkAllowance_def Let_def bind_result_def dec.cmp_val split: option.split)

lemma balance_blocks:
  assumes amount: "isDecimalString (op_amount o1)"
    and bal: "\<And>a. map_get (sn_balances s) (op_asset o1) = Some a \<Longrightarrow> isDecimalString a"
    and ret: "checkBalanceAndFee o1 s = Inr fs"
  shows "has_blocking fs \<longleftrightarrow> op_kind o1 \<noteq> Oracle_submission \<and>
    (case map_get (sn_balances s) (op_asset o1) of None \<Rightarrow> True | Some b \<Rightarrow> dval (op_amount o1) > dval b)"
proof (cases "map_get (sn_balances s) (op_asset o1)")
  case None
  with ret show ?thesis by (auto simp: checkBalanceAndFee_def Let_def split: if_splits)
next
  case (Some b)
  note cmp = dec.cmp_val [OF amount bal [OF Some]]
  from Some ret cmp show ?thesis
    by (auto simp: checkBalanceAndFee_def Let_def bind_result_def split: if_splits option.splits sum.splits dest: fee_blocks)
qed

lemma normal_op_simps [simp]:
  "op_amount (normalizeOperation o1) = safeNormalize (op_amount o1)"
  "op_estimatedFee (normalizeOperation o1) = map_option safeNormalize (op_estimatedFee o1)"
  by (simp_all add: normalizeOperation_def)

lemma normal_snapshot_decimal:
  "map_get (sn_balances (normalizeSnapshot s)) a = Some v \<Longrightarrow> isDecimalString v"
  "map_get (sn_allowances (normalizeSnapshot s)) a = Some v \<Longrightarrow> isDecimalString v"
  by (simp_all add: normalizeSnapshot_def normalizeAssetMap_decimal)

lemma assemble_status:
  "pr_status (assemble env o1 s asOf fs) = Status_blocking \<longleftrightarrow> has_blocking fs"
  using count_blocking [of fs] by (simp add: assemble_def Let_def)

lemma runChecks_blocks:
  assumes ret: "runChecks env (normalizeOperation o1) (normalizeSnapshot s) th asOf = Inr fs"
    and amount: "isDecimalString (op_amount o1)"
  shows "has_blocking fs \<longleftrightarrow>
    (let o2 = normalizeOperation o1; s2 = normalizeSnapshot s; digest = buildOperationDigest env o1
     in expired env o2 asOf \<or> version_mismatch o2 s2 \<or>
        age_gt (ageSeconds env asOf (sn_observedAt s2)) (th_maxSnapshotAgeSeconds th) \<or>
        digest \<in> set (sn_consumedDigests s2) \<or> key_conflict o2 digest s2 \<or> not_covered o2 s2 \<or>
        (op_kind o2 = Trade \<and> sn_policyDecision s2 \<noteq> Some Policy_allowed) \<or> oracle_unusable env o2 s2 th asOf)"
proof -
  let ?o = "normalizeOperation o1" and ?s = "normalizeSnapshot s"
  obtain bs as where bs: "checkBalanceAndFee ?o ?s = Inr bs" and as: "checkAllowance ?o ?s = Inr as"
    and fs: "fs = (checkExpiry env ?o asOf @ checkStateVersion ?o ?s @ checkSnapshotFreshness env ?s th asOf @
      checkDuplicate (buildOperationDigest env o1) ?s @ checkIdempotency ?o (buildOperationDigest env o1) ?s) @
      bs @ as @ checkTradePolicy ?o ?s @ checkOracle env ?o ?s th asOf @ checkDestination ?o ?s"
    using ret by (auto simp: runChecks_def Let_def bind_result_def buildOperationDigest_normal split: sum.splits)
  have amt: "isDecimalString (op_amount ?o)" using amount by simp
  have bal: "isDecimalString v" if "map_get (sn_balances ?s) (op_asset ?o) = Some v" for v
    by (rule normal_snapshot_decimal(1) [OF that])
  have alw: "isDecimalString v" if "map_get (sn_allowances ?s) (op_asset ?o) = Some v" for v
    by (rule normal_snapshot_decimal(2) [OF that])
  have "has_blocking as \<longleftrightarrow> (\<exists>a. map_get (sn_allowances ?s) (op_asset ?o) = Some a \<and> dval (op_amount ?o) > dval a)"
    using allowance_blocks [where s = ?s, OF amt alw] as by auto
  moreover have "has_blocking bs \<longleftrightarrow> op_kind ?o \<noteq> Oracle_submission \<and>
      (case map_get (sn_balances ?s) (op_asset ?o) of None \<Rightarrow> True | Some b \<Rightarrow> dval (op_amount ?o) > dval b)"
    by (rule balance_blocks [OF amt bal bs])
  ultimately show ?thesis
    unfolding fs Let_def not_covered_def
    by (simp only: has_blocking_simps expiry_blocks version_blocks freshness_blocks duplicate_blocks
        idempotency_blocks trade_blocks oracle_blocks destination_blocks) blast
qed

section \<open>When the evaluation returns\<close>

lemma checkFee_returns:
  assumes "isDecimalString (op_amount o1)" "isDecimalString b" "isDecimalString f" "dval (op_amount o1) \<le> dval b"
  shows "\<exists>fs. checkFee o1 a b f = Inr fs"
proof -
  obtain r where r: "subtractDecimal b (op_amount o1) = Inr r" "isDecimalString r"
    using dec.sub_val [OF assms(2,1,4)] by blast
  show ?thesis
  proof (cases "dval r \<le> dval f")
    case True
    obtain t where "subtractDecimal f r = Inr t" using dec.sub_val [OF assms(3) r(2) True] by blast
    with r show ?thesis by (simp add: checkFee_def bind_result_def dec.cmp_val assms(3))
  next
    case False
    with r show ?thesis by (simp add: checkFee_def bind_result_def dec.cmp_val assms(3))
  qed
qed

lemma checkBalanceAndFee_returns:
  assumes amount: "isDecimalString (op_amount o1)"
    and bal: "\<And>a. map_get (sn_balances s) (op_asset o1) = Some a \<Longrightarrow> isDecimalString a"
    and fee: "\<And>f. op_estimatedFee o1 = Some f \<Longrightarrow> isDecimalString f"
  shows "\<exists>fs. checkBalanceAndFee o1 s = Inr fs"
proof (cases "map_get (sn_balances s) (op_asset o1)")
  case None
  then show ?thesis by (simp add: checkBalanceAndFee_def Let_def)
next
  case (Some b)
  note b = bal [OF Some]
  show ?thesis
  proof (cases "dval (op_amount o1) > dval b")
    case True
    then obtain t where "subtractDecimal (op_amount o1) b = Inr t" using dec.sub_val [OF amount b] by auto
    with True Some show ?thesis by (simp add: checkBalanceAndFee_def Let_def bind_result_def dec.cmp_val [OF amount b])
  next
    case False
    then have "\<exists>fs. checkFee o1 (op_asset o1) b f = Inr fs" if "op_estimatedFee o1 = Some f" for f
      using checkFee_returns [OF amount b fee [OF that]] by simp
    with False Some fee show ?thesis
      by (cases "op_estimatedFee o1")
        (auto simp: checkBalanceAndFee_def Let_def bind_result_def dec.cmp_val [OF amount b] dec.cmp_val zero_decimal)
  qed
qed

lemma evaluate_returns:
  assumes "\<And>f. op_estimatedFee (in_operation i) = Some f \<Longrightarrow> isDecimalString f"
  shows "\<exists>r. evaluatePreflight env i = Inr r"
proof (cases "isDecimalString (op_amount (in_operation i))")
  case True
  let ?o = "normalizeOperation (in_operation i)" and ?s = "normalizeSnapshot (in_snapshot i)"
  have amt: "isDecimalString (op_amount ?o)" using True by simp
  have bal: "isDecimalString v" if "map_get (sn_balances ?s) (op_asset ?o) = Some v" for v
    by (rule normal_snapshot_decimal(1) [OF that])
  have alw: "isDecimalString v" if "map_get (sn_allowances ?s) (op_asset ?o) = Some v" for v
    by (rule normal_snapshot_decimal(2) [OF that])
  have fee: "isDecimalString f" if "op_estimatedFee ?o = Some f" for f
    using that assms by auto
  obtain as where "checkAllowance ?o ?s = Inr as"
    using allowance_blocks [where s = ?s, OF amt alw] by blast
  moreover obtain bs where "checkBalanceAndFee ?o ?s = Inr bs"
    using checkBalanceAndFee_returns [where s = ?s, OF amt bal fee] by blast
  ultimately show ?thesis by (simp add: evaluatePreflight_def runChecks_def Let_def bind_result_def)
qed (simp add: evaluatePreflight_def Let_def bind_result_def)

section \<open>Independence of the order of the snapshot\<close>

text \<open>Snapshots that agree up to the order of their collections.\<close>

definition same_snapshot :: "PreflightStateSnapshot \<Rightarrow> PreflightStateSnapshot \<Rightarrow> bool" where
  "same_snapshot s t \<longleftrightarrow>
     sn_version s = sn_version t \<and> sn_observedAt s = sn_observedAt t \<and> sn_policyDecision s = sn_policyDecision t \<and>
     mset (sn_balances s) = mset (sn_balances t) \<and> distinct (map (asset_key \<circ> fst) (sn_balances t)) \<and>
     mset (sn_allowances s) = mset (sn_allowances t) \<and> distinct (map (asset_key \<circ> fst) (sn_allowances t)) \<and>
     set (sn_consumedDigests s) = set (sn_consumedDigests t) \<and>
     set (sn_verifiedDestinations s) = set (sn_verifiedDestinations t) \<and>
     mset (sn_idempotencyRecords s) = mset (sn_idempotencyRecords t) \<and> distinct (map ir_key (sn_idempotencyRecords t)) \<and>
     mset (sn_oracle s) = mset (sn_oracle t) \<and> distinct (map (asset_key \<circ> or_asset) (sn_oracle t))"

lemma same_snapshot_normal:
  assumes "same_snapshot s t"
  shows "map_of (sn_balances (normalizeSnapshot s)) = map_of (sn_balances (normalizeSnapshot t))"
    "map_of (sn_allowances (normalizeSnapshot s)) = map_of (sn_allowances (normalizeSnapshot t))"
    "sn_version (normalizeSnapshot s) = sn_version (normalizeSnapshot t)"
    "sn_observedAt (normalizeSnapshot s) = sn_observedAt (normalizeSnapshot t)"
    "sn_policyDecision (normalizeSnapshot s) = sn_policyDecision (normalizeSnapshot t)"
    "sn_consumedDigests (normalizeSnapshot s) = sn_consumedDigests (normalizeSnapshot t)"
    "sn_verifiedDestinations (normalizeSnapshot s) = sn_verifiedDestinations (normalizeSnapshot t)"
    "sn_idempotencyRecords (normalizeSnapshot s) = sn_idempotencyRecords (normalizeSnapshot t)"
    "sn_oracle (normalizeSnapshot s) = sn_oracle (normalizeSnapshot t)"
proof -
  let ?f = "\<lambda>e. e\<lparr>or_asset := asset_key (or_asset e)\<rparr>"
  have bal: "mset (sn_balances s) = mset (sn_balances t)" "distinct (map (asset_key \<circ> fst) (sn_balances t))"
    and alw: "mset (sn_allowances s) = mset (sn_allowances t)" "distinct (map (asset_key \<circ> fst) (sn_allowances t))"
    and idem: "mset (sn_idempotencyRecords s) = mset (sn_idempotencyRecords t)" "distinct (map ir_key (sn_idempotencyRecords t))"
    and dig: "set (sn_consumedDigests s) = set (sn_consumedDigests t)"
    and dst: "set (sn_verifiedDestinations s) = set (sn_verifiedDestinations t)"
    and orc: "mset (sn_oracle s) = mset (sn_oracle t)" "distinct (map (asset_key \<circ> or_asset) (sn_oracle t))"
    and same: "sn_version s = sn_version t" "sn_observedAt s = sn_observedAt t" "sn_policyDecision s = sn_policyDecision t"
    using assms unfolding same_snapshot_def by blast+
  have "mset (map ?f (sn_oracle s)) = mset (map ?f (sn_oracle t))" using orc(1) by simp
  moreover have "distinct (map or_asset (map ?f (sn_oracle t)))" using orc(2) by (simp add: comp_def)
  ultimately show "sn_oracle (normalizeSnapshot s) = sn_oracle (normalizeSnapshot t)"
    using sort_by_key_perm [of "map ?f (sn_oracle s)" "map ?f (sn_oracle t)" or_asset]
    by (simp add: normalizeSnapshot_def)
  show "map_of (sn_balances (normalizeSnapshot s)) = map_of (sn_balances (normalizeSnapshot t))"
    using normalizeAssetMap_perm [OF bal] by (simp add: normalizeSnapshot_def)
  show "map_of (sn_allowances (normalizeSnapshot s)) = map_of (sn_allowances (normalizeSnapshot t))"
    using normalizeAssetMap_perm [OF alw] by (simp add: normalizeSnapshot_def)
  show "sn_idempotencyRecords (normalizeSnapshot s) = sn_idempotencyRecords (normalizeSnapshot t)"
    using sort_by_key_perm [OF idem] by (simp add: normalizeSnapshot_def)
  show "sn_consumedDigests (normalizeSnapshot s) = sn_consumedDigests (normalizeSnapshot t)"
    using sort_set_eq [OF dig] by (simp add: normalizeSnapshot_def)
  show "sn_verifiedDestinations (normalizeSnapshot s) = sn_verifiedDestinations (normalizeSnapshot t)"
    using sort_set_eq [OF dst] by (simp add: normalizeSnapshot_def)
  show "sn_version (normalizeSnapshot s) = sn_version (normalizeSnapshot t)"
    "sn_observedAt (normalizeSnapshot s) = sn_observedAt (normalizeSnapshot t)"
    "sn_policyDecision (normalizeSnapshot s) = sn_policyDecision (normalizeSnapshot t)"
    using same by (simp_all add: normalizeSnapshot_def)
qed

lemma runChecks_cong:
  assumes "map_of (sn_balances s) = map_of (sn_balances t)" "map_of (sn_allowances s) = map_of (sn_allowances t)"
    "sn_version s = sn_version t" "sn_observedAt s = sn_observedAt t" "sn_policyDecision s = sn_policyDecision t"
    "sn_consumedDigests s = sn_consumedDigests t" "sn_verifiedDestinations s = sn_verifiedDestinations t"
    "sn_idempotencyRecords s = sn_idempotencyRecords t" "sn_oracle s = sn_oracle t"
  shows "runChecks env o1 s th asOf = runChecks env o1 t th asOf" "assemble env o1 s asOf = assemble env o1 t asOf"
proof -
  note eqs = assms
  have "checkStateVersion o1 s = checkStateVersion o1 t" by (simp only: checkStateVersion_def eqs)
  moreover have "checkSnapshotFreshness env s th asOf = checkSnapshotFreshness env t th asOf"
    by (simp only: checkSnapshotFreshness_def eqs)
  moreover have "checkDuplicate d s = checkDuplicate d t" for d by (simp only: checkDuplicate_def eqs)
  moreover have "checkIdempotency o1 d s = checkIdempotency o1 d t" for d by (simp only: checkIdempotency_def eqs)
  moreover have "checkBalanceAndFee o1 s = checkBalanceAndFee o1 t" by (simp only: checkBalanceAndFee_def eqs)
  moreover have "checkAllowance o1 s = checkAllowance o1 t" by (simp only: checkAllowance_def eqs)
  moreover have "checkTradePolicy o1 s = checkTradePolicy o1 t" by (simp only: checkTradePolicy_def eqs)
  moreover have "checkOracle env o1 s th asOf = checkOracle env o1 t th asOf" by (simp only: checkOracle_def eqs)
  moreover have "checkDestination o1 s = checkDestination o1 t" by (simp only: checkDestination_def eqs)
  ultimately show "runChecks env o1 s th asOf = runChecks env o1 t th asOf" by (simp only: runChecks_def)
  show "assemble env o1 s asOf = assemble env o1 t asOf" by (rule ext) (simp only: assemble_def eqs)
qed

lemma evaluate_same_snapshot:
  assumes "same_snapshot s t"
  shows "evaluatePreflight env (i\<lparr>in_snapshot := s\<rparr>) = evaluatePreflight env (i\<lparr>in_snapshot := t\<rparr>)"
  using runChecks_cong [OF same_snapshot_normal [OF assms]]
  by (simp add: evaluatePreflight_def Let_def)

section \<open>Order of the findings\<close>

lemma finding_le_total: "finding_le a b \<or> finding_le b a"
  using string_le_total [of "code_value (pf_code a)" "code_value (pf_code b)"]
    string_le_total [of "field_text a" "field_text b"] string_le_total [of "pf_message a" "pf_message b"]
  unfolding finding_le_def by (cases "SEVERITY_RANK (pf_severity a) = SEVERITY_RANK (pf_severity b)") auto

lemma finding_le_trans: "finding_le a b \<Longrightarrow> finding_le b c \<Longrightarrow> finding_le a c"
  unfolding finding_le_def
  by (auto split: if_splits dest: string_le_trans string_le_antisym)

lemma evaluate_assembles:
  assumes "evaluatePreflight env i = Inr r"
  obtains fs where "r = assemble env (normalizeOperation (in_operation i)) (normalizeSnapshot (in_snapshot i))
      (toIsoOrRaw env (in_asOf i)) fs"
    "if isDecimalString (op_amount (in_operation i))
     then runChecks env (normalizeOperation (in_operation i)) (normalizeSnapshot (in_snapshot i)) (in_thresholds i)
       (toIsoOrRaw env (in_asOf i)) = Inr fs
     else fs = [invalidAmount]"
  using assms by (auto simp: evaluatePreflight_def Let_def bind_result_def split: sum.splits if_splits)

lemma evaluate_blocks:
  assumes "evaluatePreflight env i = Inr r"
  shows "pr_status r = Status_blocking \<longleftrightarrow> must_block env i"
proof -
  obtain fs where r: "r = assemble env (normalizeOperation (in_operation i)) (normalizeSnapshot (in_snapshot i))
      (toIsoOrRaw env (in_asOf i)) fs"
    and fs: "if isDecimalString (op_amount (in_operation i))
     then runChecks env (normalizeOperation (in_operation i)) (normalizeSnapshot (in_snapshot i)) (in_thresholds i)
       (toIsoOrRaw env (in_asOf i)) = Inr fs
     else fs = [invalidAmount]" by (rule evaluate_assembles [OF assms])
  show ?thesis
  proof (cases "isDecimalString (op_amount (in_operation i))")
    case True
    with fs have "runChecks env (normalizeOperation (in_operation i)) (normalizeSnapshot (in_snapshot i)) (in_thresholds i)
       (toIsoOrRaw env (in_asOf i)) = Inr fs" by simp
    from runChecks_blocks [OF this True] True show ?thesis
      by (simp only: r assemble_status must_block_def Let_def simp_thms)
  next
    case False
    with fs have "has_blocking fs" by (simp add: invalidAmount_def)
    with False show ?thesis by (simp add: r assemble_status must_block_def Let_def)
  qed
qed

lemma evaluate_bad_fee:
  assumes amount: "isDecimalString (op_amount (in_operation i))"
    and kind: "op_kind (in_operation i) \<noteq> Oracle_submission"
    and bal: "map_get (sn_balances (normalizeSnapshot (in_snapshot i))) (asset_key (op_asset (in_operation i))) = Some b"
    and covered: "dval (op_amount (in_operation i)) \<le> dval b"
    and fee: "op_estimatedFee (in_operation i) = Some f" "\<not> isDecimalString f" "compareDecimal f ''0'' = Inl e"
  shows "evaluatePreflight env i = Inl e"
proof -
  let ?o = "normalizeOperation (in_operation i)" and ?s = "normalizeSnapshot (in_snapshot i)"
  have b: "isDecimalString b" by (rule normal_snapshot_decimal(1) [OF bal])
  have amt: "isDecimalString (op_amount ?o)" "dval (op_amount ?o) = dval (op_amount (in_operation i))"
    using amount safeNormalize_value(3) [OF amount] by simp_all
  have o: "op_kind ?o \<noteq> Oracle_submission" "map_get (sn_balances ?s) (op_asset ?o) = Some b" "op_estimatedFee ?o = Some f"
    using kind bal fee by (simp_all add: normalizeOperation_def safeNormalize_def)
  have "\<exists>c. compareDecimal (op_amount ?o) b = Inr c \<and> \<not> c > 0"
    using dec.cmp_val [OF amt(1) b] amt(2) covered by auto
  then have "checkBalanceAndFee ?o ?s = Inl e"
    using o fee(3) by (auto simp: checkBalanceAndFee_def Let_def bind_result_def)
  with amt(1) show ?thesis by (simp add: evaluatePreflight_def runChecks_def Let_def bind_result_def)
qed

lemma normalizeOperation_equal:
  assumes "isDecimalString (op_amount o1)" "isDecimalString (op_amount o2)" "dval (op_amount o1) = dval (op_amount o2)"
    "asset_key (op_asset o1) = asset_key (op_asset o2)"
    "o2 = o1\<lparr>op_asset := op_asset o2, op_amount := op_amount o2\<rparr>"
  shows "normalizeOperation o1 = normalizeOperation o2"
proof -
  have "normalizeDecimal (op_amount o1) = normalizeDecimal (op_amount o2)"
    using assms(1-3) by (simp add: dec.norm_eq_iff)
  then have "safeNormalize (op_amount o1) = safeNormalize (op_amount o2)"
    using assms(1,2) by (simp add: safeNormalize_def)
  with assms(4) have "normalizeOperation o1 = normalizeOperation (o1\<lparr>op_asset := op_asset o2, op_amount := op_amount o2\<rparr>)"
    by (simp add: normalizeOperation_def)
  with assms(5) show ?thesis by metis
qed

section \<open>Properties\<close>

text \<open>
  A concrete payment for the witnesses: a clock that reads every timestamp as the epoch and a digest that
  is the identity.
\<close>

definition sample_env :: preflight_env where
  "sample_env = \<lparr>pe_dateParse = (\<lambda>_. Some 0), pe_toISOString = (\<lambda>_. ''1970-01-01T00:00:00.000Z''), pe_sha256 = (\<lambda>s. s)\<rparr>"

definition sample_operation :: "string \<Rightarrow> string option \<Rightarrow> PreflightOperation" where
  "sample_operation amount fee =
     \<lparr>op_kind = Payment_transfer, op_asset = ''xlm'', op_amount = amount, op_side = None, op_destination = None,
      op_idempotencyKey = None, op_requiresOraclePrice = None, op_expectedStateVersion = None, op_expiresAt = None,
      op_estimatedFee = fee\<rparr>"

definition sample_snapshot :: "(string, string) jsmap \<Rightarrow> string list \<Rightarrow> PreflightStateSnapshot" where
  "sample_snapshot balances digests =
     \<lparr>sn_version = ''v1'', sn_observedAt = ''now'', sn_balances = balances, sn_allowances = [], sn_consumedDigests = digests,
      sn_idempotencyRecords = [], sn_verifiedDestinations = [], sn_oracle = [], sn_policyDecision = None\<rparr>"

definition sample_input :: "PreflightOperation \<Rightarrow> PreflightStateSnapshot \<Rightarrow> PreflightEvaluationInput" where
  "sample_input o1 s =
     \<lparr>in_operation = o1, in_snapshot = s, in_thresholds = defaultPreflightThresholds, in_asOf = ''now''\<rparr>"

lemmas decimal_eval = isDecimalString_def decimal_pattern_def trim_def is_space_def is_digit_def
  dval_def mantissa_def places_def splitDecimal_def nat_of_digits_def digit_val_def

lemma asset_key_sample: "asset_key ''xlm'' = ''XLM''" "asset_key ''XLM'' = ''XLM''" "asset_key '' XLM'' = ''XLM''"
  by code_simp+

text \<open>
  C3.  The preflight refuses exactly what it must.  When the estimated fee is absent or a decimal
  string the evaluation returns, and its status is blocking if and only if the amount is not a decimal, or
  the operation has expired, names another state version, was evaluated on a snapshot that is too old, was
  already consumed, conflicts with its idempotency key, exceeds the balance or the allowance in exact
  arithmetic, is a trade the policy did not allow, or needs an oracle price that is missing or stale.
\<close>

theorem preflight_blocks_iff:
  assumes "\<And>f. op_estimatedFee (in_operation i) = Some f \<Longrightarrow> isDecimalString f"
  shows "\<exists>r. evaluatePreflight env i = Inr r \<and> (pr_status r = Status_blocking \<longleftrightarrow> must_block env i)"
proof -
  obtain r where "evaluatePreflight env i = Inr r" using evaluate_returns [OF assms] by blast
  with evaluate_blocks [OF this] show ?thesis by blast
qed

theorem preflight_blocks_iff_witness:
  "\<exists>r. evaluatePreflight sample_env (sample_input (sample_operation ''7.5'' None) (sample_snapshot [] [])) = Inr r \<and>
     pr_status r = Status_blocking"
proof -
  let ?i = "sample_input (sample_operation ''7.5'' None) (sample_snapshot [] [])"
  have "must_block sample_env ?i"
    by (simp add: must_block_def Let_def not_covered_def sample_input_def sample_operation_def sample_snapshot_def
        normalizeOperation_def normalizeSnapshot_def normalizeAssetMap_def)
  moreover have "isDecimalString f" if "op_estimatedFee (in_operation ?i) = Some f" for f
    using that by (simp add: sample_input_def sample_operation_def)
  ultimately show ?thesis using preflight_blocks_iff [where i = ?i and env = sample_env] by blast
qed

text \<open>
  The evaluation is not total.  For a transfer or a trade whose amount the balance covers, an
  estimated fee that \<open>BigInt\<close> cannot read makes the evaluation throw the \<open>SyntaxError\<close> of \<open>compareDecimal\<close>.
\<close>

theorem preflight_throws_on_bad_fee:
  assumes "isDecimalString (op_amount (in_operation i))" "op_kind (in_operation i) \<noteq> Oracle_submission"
    "map_get (sn_balances (normalizeSnapshot (in_snapshot i))) (asset_key (op_asset (in_operation i))) = Some b"
    "dval (op_amount (in_operation i)) \<le> dval b"
    "op_estimatedFee (in_operation i) = Some f" "\<not> isDecimalString f" "compareDecimal f ''0'' = Inl e"
  shows "evaluatePreflight env i = Inl e"
  by (rule evaluate_bad_fee [OF assms])

theorem preflight_throws_on_bad_fee_witness:
  "evaluatePreflight sample_env (sample_input (sample_operation ''1'' (Some ''free'')) (sample_snapshot [(''XLM'', ''2'')] []))
     = Inl (SyntaxError ''Cannot convert free to a BigInt'')"
proof (rule preflight_throws_on_bad_fee [where b = "safeNormalize ''2''" and f = "''free''"])
  let ?i = "sample_input (sample_operation ''1'' (Some ''free'')) (sample_snapshot [(''XLM'', ''2'')] [])"
  have two: "isDecimalString ''2''" by (simp add: decimal_eval)
  show "isDecimalString (op_amount (in_operation ?i))"
    by (simp add: sample_input_def sample_operation_def decimal_eval)
  show "op_kind (in_operation ?i) \<noteq> Oracle_submission" "op_estimatedFee (in_operation ?i) = Some ''free''"
    by (simp_all add: sample_input_def sample_operation_def)
  show "map_get (sn_balances (normalizeSnapshot (in_snapshot ?i))) (asset_key (op_asset (in_operation ?i))) = Some (safeNormalize ''2'')"
    using two by (simp add: sample_input_def sample_operation_def sample_snapshot_def normalizeSnapshot_def
        normalizeAssetMap_def safeNormalize_def asset_key_sample)
  show "dval (op_amount (in_operation ?i)) \<le> dval (safeNormalize ''2'')"
    using safeNormalize_value(3) [OF two] by (simp add: sample_input_def sample_operation_def decimal_eval)
  show "\<not> isDecimalString ''free''" by (simp add: decimal_eval)
  show "compareDecimal ''free'' ''0'' = Inl (SyntaxError ''Cannot convert free to a BigInt'')"
    by (simp add: compareDecimal_def scaledParts_def splitDecimal_def BigInt_def trim_def is_space_def is_digit_def padEnd_def Let_def)
qed

text \<open>
  The evaluation does not depend on the order of the snapshot's collections: snapshots with
  the same balances, allowances, digests, destinations, idempotency records and oracle prices, in any order
  and with repeated digests or destinations, give the same result, digest and identifier included.
\<close>

theorem preflight_ignores_snapshot_order:
  assumes "same_snapshot s t"
  shows "evaluatePreflight env (i\<lparr>in_snapshot := s\<rparr>) = evaluatePreflight env (i\<lparr>in_snapshot := t\<rparr>)"
  by (rule evaluate_same_snapshot [OF assms])

theorem preflight_ignores_snapshot_order_witness:
  "evaluatePreflight sample_env (sample_input (sample_operation ''1'' None) (sample_snapshot [(''a'', ''1''), (''b'', ''2'')] [''d'', ''e''])) =
   evaluatePreflight sample_env (sample_input (sample_operation ''1'' None) (sample_snapshot [(''b'', ''2''), (''a'', ''1'')] [''e'', ''d'', ''e'']))"
proof -
  have "same_snapshot (sample_snapshot [(''a'', ''1''), (''b'', ''2'')] [''d'', ''e''])
      (sample_snapshot [(''b'', ''2''), (''a'', ''1'')] [''e'', ''d'', ''e''])"
    by (auto simp: same_snapshot_def sample_snapshot_def toUpperCase_def char_upper_def trim_def is_space_def)
  from preflight_ignores_snapshot_order [OF this, where i = "sample_input (sample_operation ''1'' None) (sample_snapshot [] [])"]
  show ?thesis by (simp add: sample_input_def)
qed

text \<open>
  The report is consistent: the findings are in the canonical order, the counts are those of
  the findings, and the status is blocking, warning or success according to the counts.
\<close>

theorem preflight_report_consistent:
  assumes "evaluatePreflight env i = Inr r"
  shows "sorted_wrt finding_le (pr_findings r) \<and>
    pr_blockingCount r = count_severity Sev_blocking (pr_findings r) \<and>
    pr_warningCount r = count_severity Sev_warning (pr_findings r) \<and>
    pr_status r = (if pr_blockingCount r > 0 then Status_blocking else if pr_warningCount r > 0 then Status_warning else Status_success)"
proof -
  obtain fs where "r = assemble env (normalizeOperation (in_operation i)) (normalizeSnapshot (in_snapshot i))
      (toIsoOrRaw env (in_asOf i)) fs" by (rule evaluate_assembles [OF assms])
  moreover have "sorted_wrt finding_le (sortFindings fs)"
    unfolding sortFindings_def by (rule sorted_js_sort) (rule finding_le_total, rule finding_le_trans)
  ultimately show ?thesis by (simp add: assemble_def Let_def)
qed

theorem preflight_report_consistent_witness:
  "\<exists>r. evaluatePreflight sample_env (sample_input (sample_operation ''many'' None) (sample_snapshot [] [])) = Inr r \<and>
     sorted_wrt finding_le (pr_findings r)"
proof -
  have "\<exists>r. evaluatePreflight sample_env (sample_input (sample_operation ''many'' None) (sample_snapshot [] [])) = Inr r"
    by (rule evaluate_returns) (simp add: sample_input_def sample_operation_def)
  with preflight_report_consistent show ?thesis by blast
qed

text \<open>
  Equal operations have the same fingerprint: writing the amount with other leading or
  trailing zeros, or the asset with other case or surrounding blanks, does not change the operation digest,
  so a retry is recognised as the same request.
\<close>

theorem equal_operations_same_digest:
  assumes "isDecimalString (op_amount o1)" "isDecimalString (op_amount o2)" "dval (op_amount o1) = dval (op_amount o2)"
    "asset_key (op_asset o1) = asset_key (op_asset o2)"
    "o2 = o1\<lparr>op_asset := op_asset o2, op_amount := op_amount o2\<rparr>"
  shows "buildOperationDigest env o1 = buildOperationDigest env o2"
  using normalizeOperation_equal [OF assms] by (simp add: buildOperationDigest_def)

theorem equal_operations_same_digest_witness:
  "buildOperationDigest sample_env (sample_operation ''10.50'' None) =
   buildOperationDigest sample_env ((sample_operation ''010.5'' None)\<lparr>op_asset := '' XLM''\<rparr>)"
  by (rule equal_operations_same_digest)
    (simp_all add: sample_operation_def asset_key_sample, simp_all add: decimal_eval)

end
