(* ===== verification/Trading_Policy.thy ===== *)
theory Trading_Policy
  imports Preflight
begin

text \<open>
  The trading policy: \<open>src/policy/policy.service.ts\<close>.  The configuration service is a record of the typed
  values it returns (\<open>None\<close> when a key is not set), or is itself absent.  Numbers are the rationals the
  doubles denote, with the three special values; \<open>Number(...)\<close> of a string and \<open>Number.prototype.toString\<close>
  are the fields of \<open>number_env\<close>.
\<close>

section \<open>Types\<close>

datatype js_number = Fin rat | PosInfinity | NegInfinity | NotANumber

record number_env =
  ne_Number :: "string \<Rightarrow> js_number"
  ne_toString :: "rat \<Rightarrow> string"

record trading_config =
  cf_TRADING_ENABLED :: "bool option"
  cf_TRADING_MAX_ORDER_AMOUNT :: "js_number option"
  cf_TRADING_ALLOWED_ASSETS :: "string option"
  cf_TRADING_ALLOWED_SIDES :: "string option"

record TradingPolicy =
  tp_enabled :: bool
  tp_maxOrderAmount :: rat
  tp_allowedAssets :: "string list option"
  tp_allowedSides :: "string list"

record TradePolicyInput =
  ti_asset :: string
  ti_amount :: js_number
  ti_side :: string

section \<open>Operations\<close>

definition DEFAULT_TRADING_POLICY :: TradingPolicy where
  "DEFAULT_TRADING_POLICY =
     \<lparr>tp_enabled = True, tp_maxOrderAmount = 100000, tp_allowedAssets = None, tp_allowedSides = [''buy'', ''sell'']\<rparr>"

text \<open>\<open>configService?.get(key, fallback) ?? fallback\<close>.\<close>

definition config_get :: "(trading_config \<Rightarrow> 'a option) \<Rightarrow> trading_config option \<Rightarrow> 'a \<Rightarrow> 'a" where
  "config_get key config fallback =
     (case config of None \<Rightarrow> fallback | Some c \<Rightarrow> (case key c of None \<Rightarrow> fallback | Some v \<Rightarrow> v))"

definition readList :: "(trading_config \<Rightarrow> string option) \<Rightarrow> trading_config option \<Rightarrow> string list" where
  "readList key config =
     filter (\<lambda>item. item \<noteq> []) (map (\<lambda>item. toUpperCase (trim item)) (split_on CHR '','' (config_get key config [])))"

definition getTradingPolicy :: "trading_config option \<Rightarrow> TradingPolicy" where
  "getTradingPolicy config =
     (let configuredLimit = config_get cf_TRADING_MAX_ORDER_AMOUNT config (Fin (tp_maxOrderAmount DEFAULT_TRADING_POLICY));
          configuredAssets = readList cf_TRADING_ALLOWED_ASSETS config;
          configuredSides = readList cf_TRADING_ALLOWED_SIDES config
      in \<lparr>tp_enabled = config_get cf_TRADING_ENABLED config (tp_enabled DEFAULT_TRADING_POLICY),
          tp_maxOrderAmount =
            (case configuredLimit of
               Fin q \<Rightarrow> if q > 0 then q else tp_maxOrderAmount DEFAULT_TRADING_POLICY
             | _ \<Rightarrow> tp_maxOrderAmount DEFAULT_TRADING_POLICY),
          tp_allowedAssets = (if configuredAssets \<noteq> [] then Some configuredAssets else None),
          tp_allowedSides = (if configuredSides \<noteq> [] then configuredSides else tp_allowedSides DEFAULT_TRADING_POLICY)\<rparr>)"

definition reject ::
  "PolicyViolationCode \<Rightarrow> string \<Rightarrow> string \<Rightarrow> js_num option \<Rightarrow> string list option \<Rightarrow> PolicyDecision" where
  "reject code field message limit allowedValues =
     Policy_denied \<lparr>pv_code = code, pv_message = message, pv_field = field, pv_limit = limit, pv_allowedValues = allowedValues\<rparr>"

text \<open>A number as the value of a report: the digits of an integer below \<open>10\<^sup>2\<^sup>1\<close>, the rendering of any other.\<close>

definition report_number :: "number_env \<Rightarrow> rat \<Rightarrow> js_num" where
  "report_number ne q =
     (if of_int \<lfloor>q\<rfloor> = q \<and> \<bar>q\<bar> < 10 ^ 21 then JInt \<lfloor>q\<rfloor> else JFrac (ne_toString ne q))"

definition evaluateTrade :: "number_env \<Rightarrow> trading_config option \<Rightarrow> TradePolicyInput \<Rightarrow> PolicyDecision" where
  "evaluateTrade ne config input =
     (let policy = getTradingPolicy config in
      if \<not> tp_enabled policy
      then reject PV_TRADING_DISABLED ''asset'' ''Trading is temporarily unavailable.'' None None
      else case ti_amount input of
        Fin amount \<Rightarrow>
          if amount \<le> 0
          then reject PV_INVALID_TRADE_AMOUNT ''amount'' ''Trade amount must be greater than zero.'' None None
          else if amount > tp_maxOrderAmount policy
          then reject PV_TRADE_AMOUNT_LIMIT_EXCEEDED ''amount''
            (''Trade amount exceeds the maximum allowed amount of '' @ show_num (report_number ne (tp_maxOrderAmount policy)) @ ''.'')
            (Some (report_number ne (tp_maxOrderAmount policy))) None
          else
            let asset = toUpperCase (trim (ti_asset input)) in
            if (case tp_allowedAssets policy of None \<Rightarrow> False | Some assets \<Rightarrow> asset \<notin> set assets)
            then reject PV_ASSET_NOT_ALLOWED ''asset'' ''This asset is not available for trading.'' None (tp_allowedAssets policy)
            else if ti_side input \<notin> set (tp_allowedSides policy)
            then reject PV_TRADE_SIDE_NOT_ALLOWED ''side'' ''This trade side is not available.'' None (Some (tp_allowedSides policy))
            else Policy_allowed
      | _ \<Rightarrow> reject PV_INVALID_TRADE_AMOUNT ''amount'' ''Trade amount must be greater than zero.'' None None)"

section \<open>What the policy promises\<close>

text \<open>The five rules, in the order they are tried; a decision names the first one that fails.\<close>

definition amount_valid :: "TradePolicyInput \<Rightarrow> bool" where
  "amount_valid i \<longleftrightarrow> (\<exists>q. ti_amount i = Fin q \<and> q > 0)"

definition amount_within :: "TradingPolicy \<Rightarrow> TradePolicyInput \<Rightarrow> bool" where
  "amount_within p i \<longleftrightarrow> (\<exists>q. ti_amount i = Fin q \<and> q \<le> tp_maxOrderAmount p)"

definition asset_allowed :: "TradingPolicy \<Rightarrow> TradePolicyInput \<Rightarrow> bool" where
  "asset_allowed p i \<longleftrightarrow> (\<forall>assets. tp_allowedAssets p = Some assets \<longrightarrow> asset_key (ti_asset i) \<in> set assets)"

definition side_allowed :: "TradingPolicy \<Rightarrow> TradePolicyInput \<Rightarrow> bool" where
  "side_allowed p i \<longleftrightarrow> ti_side i \<in> set (tp_allowedSides p)"

definition first_failure :: "TradingPolicy \<Rightarrow> TradePolicyInput \<Rightarrow> PolicyViolationCode option" where
  "first_failure p i =
     map_option snd (List.find (\<lambda>(ok, _). \<not> ok)
       [(tp_enabled p, PV_TRADING_DISABLED), (amount_valid i, PV_INVALID_TRADE_AMOUNT),
        (amount_within p i, PV_TRADE_AMOUNT_LIMIT_EXCEEDED), (asset_allowed p i, PV_ASSET_NOT_ALLOWED),
        (side_allowed p i, PV_TRADE_SIDE_NOT_ALLOWED)])"

fun decision_code :: "PolicyDecision \<Rightarrow> PolicyViolationCode option" where
  "decision_code Policy_allowed = None"
| "decision_code (Policy_denied v) = Some (pv_code v)"

lemma decision_code_reject [simp]: "decision_code (reject c f m l a) = Some c"
  by (simp add: reject_def)

lemma decision_code_None: "decision_code d = None \<longleftrightarrow> d = Policy_allowed"
  by (cases d) auto

lemma evaluateTrade_code: "decision_code (evaluateTrade ne config i) = first_failure (getTradingPolicy config) i"
proof (cases "ti_amount i")
  case (Fin q)
  then show ?thesis
    by (cases "tp_allowedAssets (getTradingPolicy config)")
      (simp_all add: evaluateTrade_def first_failure_def Let_def amount_valid_def amount_within_def asset_allowed_def
        side_allowed_def not_le not_less)
qed (simp_all add: evaluateTrade_def first_failure_def Let_def amount_valid_def)

lemma first_failure_None:
  "first_failure p i = None \<longleftrightarrow>
     tp_enabled p \<and> amount_valid i \<and> amount_within p i \<and> asset_allowed p i \<and> side_allowed p i"
  by (simp add: first_failure_def)

lemma evaluateTrade_allowed:
  "evaluateTrade ne config i = Policy_allowed \<longleftrightarrow>
     (let p = getTradingPolicy config in
      tp_enabled p \<and> amount_valid i \<and> amount_within p i \<and> asset_allowed p i \<and> side_allowed p i)"
  using evaluateTrade_code [of ne config i] decision_code_None first_failure_None by (metis (full_types))

text \<open>The policy read from any configuration is usable: a positive limit and at least one side.\<close>

lemma getTradingPolicy_usable:
  "tp_maxOrderAmount (getTradingPolicy config) > 0" "tp_allowedSides (getTradingPolicy config) \<noteq> []"
  "tp_allowedAssets (getTradingPolicy config) \<noteq> Some []"
  by (auto simp: getTradingPolicy_def DEFAULT_TRADING_POLICY_def Let_def split: js_number.split)

lemma char_upper_not_lower: "\<not> (97 \<le> (of_char (char_upper c) :: nat) \<and> (of_char (char_upper c) :: nat) \<le> 122)"
  by (auto simp: char_upper_def Let_def)

lemma readList_upper:
  assumes "item \<in> set (readList key config)" "c \<in> set item"
  shows "\<not> (97 \<le> (of_char c :: nat) \<and> (of_char c :: nat) \<le> 122)"
proof -
  obtain s where "item = toUpperCase s" using assms(1) by (auto simp: readList_def)
  then show ?thesis using assms(2) char_upper_not_lower by (auto simp: toUpperCase_def)
qed

section \<open>Properties\<close>

text \<open>A number environment for the witnesses.\<close>

definition sample_numbers :: number_env where
  "sample_numbers = \<lparr>ne_Number = (\<lambda>s. if isDecimalString s then Fin (dval s) else NotANumber), ne_toString = (\<lambda>_. [])\<rparr>"

text \<open>
  The policy decision is exact: a trade is allowed precisely when trading is enabled, the
  amount is a positive finite number within the limit, the asset is on the list when there is one, and the
  side is allowed; a denied trade reports the first of these rules that fails, in this order.
\<close>

theorem evaluateTrade_decides:
  "decision_code (evaluateTrade ne config i) = first_failure (getTradingPolicy config) i \<and>
   (evaluateTrade ne config i = Policy_allowed) =
     (let p = getTradingPolicy config in
      tp_enabled p \<and> amount_valid i \<and> amount_within p i \<and> asset_allowed p i \<and> side_allowed p i)"
  using evaluateTrade_code evaluateTrade_allowed by blast

text \<open>
  Once \<open>TRADING_ALLOWED_SIDES\<close> names any side, no trade on the side \<open>buy\<close> or \<open>sell\<close> is ever
  allowed: the configured sides are put into upper case and compared with the lower-case side as it is.
\<close>

theorem configured_sides_lock_out_trading:
  assumes "readList cf_TRADING_ALLOWED_SIDES config \<noteq> []" "ti_side i \<in> {''buy'', ''sell''}"
  shows "evaluateTrade ne config i \<noteq> Policy_allowed"
proof -
  have sides: "tp_allowedSides (getTradingPolicy config) = readList cf_TRADING_ALLOWED_SIDES config"
    using assms(1) by (simp add: getTradingPolicy_def Let_def)
  have "\<exists>c \<in> set (ti_side i). 97 \<le> (of_char c :: nat) \<and> (of_char c :: nat) \<le> 122"
    using assms(2) by auto
  then have "\<not> side_allowed (getTradingPolicy config) i"
    using readList_upper unfolding side_allowed_def sides by blast
  then show ?thesis by (simp add: evaluateTrade_allowed Let_def)
qed

theorem configured_sides_lock_out_trading_witness:
  "evaluateTrade sample_numbers (Some \<lparr>cf_TRADING_ENABLED = None, cf_TRADING_MAX_ORDER_AMOUNT = None, cf_TRADING_ALLOWED_ASSETS = None,
       cf_TRADING_ALLOWED_SIDES = Some ''buy,sell''\<rparr>) \<lparr>ti_asset = ''XLM'', ti_amount = Fin 1, ti_side = ''sell''\<rparr> \<noteq> Policy_allowed"
  by (rule configured_sides_lock_out_trading) (simp_all add: readList_def config_get_def trim_def is_space_def toUpperCase_def)

end
