(* ===== verification/Preflight_Service.thy ===== *)
theory Preflight_Service
  imports Trading_Policy
begin

text \<open>
  The preflight service: \<open>src/preflight/preflight.service.ts\<close>, the default state provider
  \<open>preflight.state.ts\<close>, the exception \<open>preflight.errors.ts\<close> and the drift check \<open>state-drift.ts\<close>.  The state
  provider is an interface of the code and a locale here, with the default provider as its interpretation.
  The server clock and the configuration (the raw text of each variable) are arguments.
\<close>

section \<open>State provider\<close>

record PreflightStateInput =
  si_observedAt :: "string option"
  si_balances :: "(string, string) jsmap option"
  si_allowances :: "(string, string) jsmap option"
  si_consumedDigests :: "string list option"
  si_idempotencyRecords :: "PreflightIdempotencyRecord list option"
  si_verifiedDestinations :: "string list option"
  si_oracle :: "PreflightOraclePrice list option"

record PreflightSnapshotContext =
  cx_version :: string
  cx_asOf :: string
  cx_state :: "PreflightStateInput option"

text \<open>\<open>value ?? fallback\<close>.\<close>

definition orElse :: "'a option \<Rightarrow> 'a \<Rightarrow> 'a" where
  "orElse v fallback = (case v of None \<Rightarrow> fallback | Some x \<Rightarrow> x)"

definition empty_state :: PreflightStateInput where
  "empty_state = \<lparr>si_observedAt = None, si_balances = None, si_allowances = None, si_consumedDigests = None,
     si_idempotencyRecords = None, si_verifiedDestinations = None, si_oracle = None\<rparr>"

definition trade_input :: "number_env \<Rightarrow> PreflightOperation \<Rightarrow> TradePolicyInput" where
  "trade_input ne operation =
     \<lparr>ti_asset = op_asset operation, ti_amount = ne_Number ne (op_amount operation), ti_side = orElse (op_side operation) []\<rparr>"

definition loadSnapshot ::
  "number_env \<Rightarrow> trading_config option \<Rightarrow> PreflightOperation \<Rightarrow> PreflightSnapshotContext \<Rightarrow> PreflightStateSnapshot" where
  "loadSnapshot ne config operation context =
     (let state = orElse (cx_state context) empty_state
      in \<lparr>sn_version = cx_version context,
          sn_observedAt = orElse (si_observedAt state) (cx_asOf context),
          sn_balances = orElse (si_balances state) [],
          sn_allowances = orElse (si_allowances state) [],
          sn_consumedDigests = orElse (si_consumedDigests state) [],
          sn_idempotencyRecords = orElse (si_idempotencyRecords state) [],
          sn_verifiedDestinations = orElse (si_verifiedDestinations state) [],
          sn_oracle = orElse (si_oracle state) [],
          sn_policyDecision =
            (if op_kind operation = Trade then Some (evaluateTrade ne config (trade_input ne operation)) else None)\<rparr>)"

section \<open>Service\<close>

type_synonym state_provider = "PreflightOperation \<Rightarrow> PreflightSnapshotContext \<Rightarrow> PreflightStateSnapshot"

definition PREFLIGHT_MAX_SNAPSHOT_AGE_ENV :: string where
  "PREFLIGHT_MAX_SNAPSHOT_AGE_ENV = ''PREFLIGHT_MAX_SNAPSHOT_AGE_SECONDS''"

definition PREFLIGHT_WARN_SNAPSHOT_AGE_ENV :: string where
  "PREFLIGHT_WARN_SNAPSHOT_AGE_ENV = ''PREFLIGHT_WARN_SNAPSHOT_AGE_SECONDS''"

definition PREFLIGHT_MAX_ORACLE_AGE_ENV :: string where
  "PREFLIGHT_MAX_ORACLE_AGE_ENV = ''PREFLIGHT_MAX_ORACLE_AGE_SECONDS''"

definition readSeconds :: "number_env \<Rightarrow> (string \<Rightarrow> string option) \<Rightarrow> string \<Rightarrow> int \<Rightarrow> int" where
  "readSeconds ne config key fallback =
     (case map_option (ne_Number ne) (config key) of
        Some (Fin raw) \<Rightarrow> if raw > 0 then \<lfloor>raw\<rfloor> else fallback
      | _ \<Rightarrow> fallback)"

definition resolveThresholds :: "number_env \<Rightarrow> (string \<Rightarrow> string option) \<Rightarrow> PreflightThresholds" where
  "resolveThresholds ne config =
     (let defaults = defaultPreflightThresholds;
          maxSnapshotAgeSeconds = readSeconds ne config PREFLIGHT_MAX_SNAPSHOT_AGE_ENV (th_maxSnapshotAgeSeconds defaults);
          warnSnapshotAgeSeconds =
            min (readSeconds ne config PREFLIGHT_WARN_SNAPSHOT_AGE_ENV (th_warnSnapshotAgeSeconds defaults)) maxSnapshotAgeSeconds
      in \<lparr>th_maxSnapshotAgeSeconds = maxSnapshotAgeSeconds, th_warnSnapshotAgeSeconds = warnSnapshotAgeSeconds,
          th_maxOracleAgeSeconds = readSeconds ne config PREFLIGHT_MAX_ORACLE_AGE_ENV (th_maxOracleAgeSeconds defaults)\<rparr>)"

definition evaluateOperation ::
  "preflight_env \<Rightarrow> state_provider \<Rightarrow> PreflightOperation \<Rightarrow> PreflightSnapshotContext \<Rightarrow> PreflightThresholds \<Rightarrow>
   (decimal_error, PreflightResult) result" where
  "evaluateOperation env provider operation context thresholds =
     evaluatePreflight env \<lparr>in_operation = operation, in_snapshot = provider operation context,
       in_thresholds = thresholds, in_asOf = cx_asOf context\<rparr>"

text \<open>The request carries the fields of the operation, the state version, the instant and the state.\<close>

record PreflightRequestDto = PreflightOperation +
  dto_stateVersion :: string
  dto_asOf :: "string option"
  dto_state :: "PreflightStateInput option"

definition toOperation :: "PreflightRequestDto \<Rightarrow> PreflightOperation" where
  "toOperation dto =
     \<lparr>op_kind = op_kind dto, op_asset = op_asset dto, op_amount = op_amount dto, op_side = op_side dto,
      op_destination = op_destination dto, op_idempotencyKey = op_idempotencyKey dto,
      op_requiresOraclePrice = op_requiresOraclePrice dto, op_expectedStateVersion = op_expectedStateVersion dto,
      op_expiresAt = op_expiresAt dto, op_estimatedFee = op_estimatedFee dto\<rparr>"

definition preflight ::
  "preflight_env \<Rightarrow> number_env \<Rightarrow> (string \<Rightarrow> string option) \<Rightarrow> state_provider \<Rightarrow> string \<Rightarrow> PreflightRequestDto \<Rightarrow>
   (decimal_error, PreflightResult) result" where
  "preflight env ne config provider now dto =
     (let asOf = orElse (dto_asOf dto) now
      in evaluateOperation env provider (toOperation dto)
           \<lparr>cx_version = dto_stateVersion dto, cx_asOf = asOf, cx_state = dto_state dto\<rparr> (resolveThresholds ne config))"

record PreflightBlockedException =
  be_message :: string
  be_errorCode :: ErrorCode
  be_retryable :: bool
  be_recoveryGuidance :: string
  be_preflightId :: string
  be_findings :: "PreflightFinding list"

definition blockedException :: "PreflightResult \<Rightarrow> PreflightBlockedException" where
  "blockedException r =
     (let blockers = filter (\<lambda>f. pf_severity f = Sev_blocking) (pr_findings r);
          joined = join '' '' (map pf_message blockers);
          message = (if joined \<noteq> [] then joined else ''Preflight blocked this operation.'');
          guidance = (case List.find (\<lambda>f. pf_remediation f \<noteq> []) blockers of
              None \<Rightarrow> ''Resolve the blocking findings, rebuild the operation and preflight it again.''
            | Some f \<Rightarrow> pf_remediation f)
      in \<lparr>be_message = message, be_errorCode = PRECONDITION_FAILED, be_retryable = False, be_recoveryGuidance = guidance,
          be_preflightId = pr_preflightId r, be_findings = pr_findings r\<rparr>)"

definition assertProceedable :: "PreflightResult \<Rightarrow> (PreflightBlockedException, PreflightResult) result" where
  "assertProceedable r = (if pr_status r = Status_blocking then Inl (blockedException r) else Inr r)"

section \<open>State drift\<close>

datatype StateDriftField = Network | WalletAddress | LedgerSequence | CacheVersion

record StateDriftSnapshot =
  ds_network :: string
  ds_walletAddress :: string
  ds_ledgerSequence :: int
  ds_cacheVersion :: string

datatype Remediation = Refresh | Resimulate | Restart

record StateDriftResult =
  dr_stale :: bool
  dr_fields :: "StateDriftField list"
  dr_remediation :: Remediation

text \<open>\<open>expected[field] !== current[field]\<close>; \<open>keys\<close> is \<open>Object.keys(expected)\<close>, the four fields in creation order.\<close>

fun field_differs :: "StateDriftSnapshot \<Rightarrow> StateDriftSnapshot \<Rightarrow> StateDriftField \<Rightarrow> bool" where
  "field_differs e c Network = (ds_network e \<noteq> ds_network c)"
| "field_differs e c WalletAddress = (ds_walletAddress e \<noteq> ds_walletAddress c)"
| "field_differs e c LedgerSequence = (ds_ledgerSequence e \<noteq> ds_ledgerSequence c)"
| "field_differs e c CacheVersion = (ds_cacheVersion e \<noteq> ds_cacheVersion c)"

definition detectStateDrift :: "StateDriftField list \<Rightarrow> StateDriftSnapshot \<Rightarrow> StateDriftSnapshot \<Rightarrow> StateDriftResult" where
  "detectStateDrift keys expected current =
     (let fields = filter (field_differs expected current) keys;
          remediation =
            (if Network \<in> set fields \<or> WalletAddress \<in> set fields then Restart
             else if LedgerSequence \<in> set fields then Resimulate else Refresh)
      in \<lparr>dr_stale = length fields > 0, dr_fields = fields, dr_remediation = remediation\<rparr>)"

section \<open>The provider interface\<close>

text \<open>
  What the service relies on: the snapshot carries the version it was asked for, and the policy decision of a
  trade is the one of the policy engine.  A provider backed by a database promises the same.
\<close>

locale policy_backed_provider =
  fixes load :: state_provider and decide :: "PreflightOperation \<Rightarrow> PolicyDecision"
  assumes load_version: "sn_version (load o1 c) = cx_version c"
    and load_policy: "op_kind o1 = Trade \<Longrightarrow> sn_policyDecision (load o1 c) = Some (decide o1)"
begin

definition accepted :: "preflight_env \<Rightarrow> PreflightOperation \<Rightarrow> PreflightSnapshotContext \<Rightarrow> PreflightThresholds \<Rightarrow> PreflightResult \<Rightarrow> bool" where
  "accepted env o1 c th r \<longleftrightarrow> evaluateOperation env load o1 c th = Inr r \<and> assertProceedable r = Inr r"

lemma accepted_not_blocked:
  assumes "accepted env o1 c th r"
  shows "\<not> must_block env \<lparr>in_operation = o1, in_snapshot = load o1 c, in_thresholds = th, in_asOf = cx_asOf c\<rparr>"
proof -
  have "pr_status r \<noteq> Status_blocking"
    using assms by (auto simp: accepted_def assertProceedable_def split: if_splits)
  moreover have "evaluatePreflight env \<lparr>in_operation = o1, in_snapshot = load o1 c, in_thresholds = th, in_asOf = cx_asOf c\<rparr> = Inr r"
    using assms by (simp add: accepted_def evaluateOperation_def)
  ultimately show ?thesis using evaluate_blocks by blast
qed

lemma accepted_trade_allowed:
  assumes "accepted env o1 c th r" "op_kind o1 = Trade"
  shows "decide o1 = Policy_allowed"
  using accepted_not_blocked [OF assms(1)] load_policy [OF assms(2)] assms(2)
  by (auto simp: must_block_def Let_def normalizeOperation_def normalizeSnapshot_def)

lemma accepted_version:
  assumes "accepted env o1 c th r" "op_expectedStateVersion o1 = Some v" "v \<noteq> []"
  shows "v = cx_version c"
  using accepted_not_blocked [OF assms(1)] assms(2,3) load_version [of o1 c]
  by (auto simp: must_block_def Let_def version_mismatch_def normalizeOperation_def normalizeSnapshot_def)

end

interpretation default_provider: policy_backed_provider "loadSnapshot ne config"
  "\<lambda>o1. evaluateTrade ne config (trade_input ne o1)" for ne config
  by unfold_locales (simp_all add: loadSnapshot_def Let_def)

section \<open>Thresholds\<close>

lemma readSeconds_nonneg: "0 \<le> fallback \<Longrightarrow> 0 \<le> readSeconds ne config key fallback"
  by (auto simp: readSeconds_def split: option.split js_number.split)

lemma resolveThresholds_ordered:
  "th_warnSnapshotAgeSeconds (resolveThresholds ne config) \<le> th_maxSnapshotAgeSeconds (resolveThresholds ne config)"
  "0 \<le> th_warnSnapshotAgeSeconds (resolveThresholds ne config)"
  "0 \<le> th_maxOracleAgeSeconds (resolveThresholds ne config)"
  by (simp_all add: resolveThresholds_def Let_def readSeconds_nonneg defaultPreflightThresholds_def)

lemma resolveThresholds_default: "resolveThresholds ne (\<lambda>_. None) = defaultPreflightThresholds"
  by (simp add: resolveThresholds_def readSeconds_def Let_def defaultPreflightThresholds_def)

text \<open>The operation of a request is the part of it that is an operation.\<close>

lemma toOperation_fields:
  "toOperation (PreflightOperation.extend o1 (PreflightRequestDto.fields v a s)) = o1"
  by (simp add: toOperation_def PreflightOperation.defs PreflightRequestDto.defs)

section \<open>Drift\<close>

lemma StateDriftField_all: "(\<forall>f. P f) \<longleftrightarrow> P Network \<and> P WalletAddress \<and> P LedgerSequence \<and> P CacheVersion"
  by (metis StateDriftField.exhaust)

lemma no_difference_iff: "(\<forall>f. \<not> field_differs e c f) \<longleftrightarrow> e = c"
  by (auto simp: StateDriftField_all)

section \<open>Properties\<close>


definition sample_trade :: PreflightOperation where
  "sample_trade = (sample_operation ''1'' None)\<lparr>op_kind := Trade, op_side := Some ''buy'', op_requiresOraclePrice := Some False\<rparr>"

definition sample_context :: PreflightSnapshotContext where
  "sample_context = \<lparr>cx_version = ''v1'', cx_asOf = ''now'', cx_state = Some (empty_state\<lparr>si_balances := Some [(''XLM'', ''2'')]\<rparr>)\<rparr>"

lemma sample_numbers_one: "ne_Number sample_numbers ''1'' = Fin 1"
  by (simp add: sample_numbers_def decimal_eval)

lemma sample_trade_allowed: "evaluateTrade sample_numbers None (trade_input sample_numbers sample_trade) = Policy_allowed"
  using sample_numbers_one
  by (simp add: evaluateTrade_def trade_input_def sample_trade_def sample_operation_def getTradingPolicy_def
      DEFAULT_TRADING_POLICY_def config_get_def readList_def orElse_def Let_def trim_def toUpperCase_def)

lemma sample_trade_free:
  "\<not> must_block sample_env \<lparr>in_operation = sample_trade, in_snapshot = loadSnapshot sample_numbers None sample_trade sample_context,
     in_thresholds = defaultPreflightThresholds, in_asOf = ''now''\<rparr>"
proof -
  have dec: "isDecimalString ''1''" "isDecimalString ''2''" "dval ''1'' = 1" "dval ''2'' = 2"
    by (simp_all add: decimal_eval)
  note vals = safeNormalize_value(3) [OF dec(1)] safeNormalize_value(3) [OF dec(2)]
  have "loadSnapshot sample_numbers None sample_trade sample_context =
      (sample_snapshot [(''XLM'', ''2'')] [])\<lparr>sn_policyDecision := Some Policy_allowed, sn_observedAt := ''now''\<rparr>"
    using sample_trade_allowed
    by (simp add: loadSnapshot_def sample_context_def empty_state_def orElse_def sample_snapshot_def Let_def)
      (simp add: sample_trade_def)
  moreover have "normalizeAssetMap [(''XLM'', ''2'')] = [(''XLM'', safeNormalize ''2'')]"
    using dec by (simp add: normalizeAssetMap_def safeNormalize_def asset_key_sample)
  ultimately show ?thesis
    using dec vals
    by (simp add: must_block_def Let_def expired_def version_mismatch_def key_conflict_def not_covered_def oracle_unusable_def
        requiresOraclePrice_def normalizeOperation_def normalizeSnapshot_def sample_trade_def sample_operation_def
        sample_snapshot_def ageSeconds_def parseTime_def age_gt_def sample_env_def defaultPreflightThresholds_def
        asset_key_sample normalizeAssetMap_def)
qed


text \<open>
  The drift check is exact: it reports stale precisely when the two states differ, names
  exactly the fields that differ, and asks for a restart when the network or the wallet changed, else for a
  new simulation when the ledger moved, else for a refresh.
\<close>

theorem state_drift_exact:
  assumes "set keys = UNIV"
  shows "let d = detectStateDrift keys expected current in
    (dr_stale d \<longleftrightarrow> expected \<noteq> current) \<and> (\<forall>f. f \<in> set (dr_fields d) \<longleftrightarrow> field_differs expected current f) \<and>
    dr_remediation d =
      (if ds_network expected \<noteq> ds_network current \<or> ds_walletAddress expected \<noteq> ds_walletAddress current then Restart
       else if ds_ledgerSequence expected \<noteq> ds_ledgerSequence current then Resimulate else Refresh)"
  using assms no_difference_iff [of expected current]
  by (auto simp: detectStateDrift_def Let_def filter_empty_conv)

theorem state_drift_exact_witness:
  "dr_stale (detectStateDrift [Network, WalletAddress, LedgerSequence, CacheVersion]
     \<lparr>ds_network = ''testnet'', ds_walletAddress = ''G1'', ds_ledgerSequence = 7, ds_cacheVersion = ''a''\<rparr>
     \<lparr>ds_network = ''testnet'', ds_walletAddress = ''G1'', ds_ledgerSequence = 8, ds_cacheVersion = ''a''\<rparr>)"
proof -
  have "set [Network, WalletAddress, LedgerSequence, CacheVersion] = UNIV"
    using StateDriftField.exhaust by (auto simp: set_eq_iff)
  from state_drift_exact [OF this] show ?thesis by (auto simp: Let_def)
qed

end
