(* ===== verification/Backfill_Job.thy ===== *)
theory Backfill_Job
  imports Roles
begin

text \<open>
  The resumable backfill job: \<open>src/common/backfill/backfill-job.ts\<close>.  The adapter of the domain and the
  checkpoint store are interfaces of the code and arguments here: records of functions on a world \<open>'w\<close>, each
  of which may throw (\<open>Inl message\<close>) and may change the world even then.  \<open>'r\<close> is the type of the records and
  \<open>'u\<close> the one of the values of a change, JSON values, on which \<open>clone\<close> is the identity.  The calls that write
  outside the process are kept in a trace, in order: what a crash leaves behind is what a prefix of the
  trace has done.  The paging loop runs on fuel, one unit for a page.
\<close>

section \<open>Types\<close>

record BackfillActor =
  ba_id :: string
  ba_roles :: "Role list"

record 'u BackfillChange =
  ch_recordId :: string
  ch_field :: string
  ch_before :: 'u
  ch_after :: 'u
  ch_reason :: "string option"

datatype BackfillStatus = Bf_running | Bf_completed | Bf_failed | Bf_rolled_back

datatype BackfillFailurePhase = Phase_plan | Phase_apply

record 'u BackfillDiffEntry =
  df_recordId :: string
  df_field :: string
  df_before :: 'u
  df_after :: 'u

record BackfillFailure =
  bf_recordId :: string
  bf_phase :: BackfillFailurePhase
  bf_error :: string

record 'u BackfillJournalEntry =
  je_recordId :: string
  je_before :: 'u
  je_after :: 'u

record 'u BackfillCheckpoint =
  cp_jobId :: string
  cp_job :: string
  cp_status :: BackfillStatus
  cp_dryRun :: bool
  cp_cursor :: "string option"
  cp_scanned :: int
  cp_planned :: int
  cp_applied :: int
  cp_skipped :: int
  cp_conflicts :: int
  cp_diffs :: "'u BackfillDiffEntry list"
  cp_diffTruncated :: int
  cp_failures :: "BackfillFailure list"
  cp_journal :: "'u BackfillJournalEntry list"
  cp_error :: "string option"

text \<open>\<open>apply\<close> answers \<open>True\<close> for \<open>BACKFILL_CONFLICT\<close>.\<close>

record ('r, 'u, 'w) BackfillAdapter =
  ad_scan :: "string option \<Rightarrow> int \<Rightarrow> 'w \<Rightarrow> (string, 'r list \<times> string option) result \<times> 'w"
  ad_recordId :: "'r \<Rightarrow> string"
  ad_plan :: "'r \<Rightarrow> (string, 'u BackfillChange option) result"
  ad_apply :: "'r \<Rightarrow> 'u BackfillChange \<Rightarrow> 'w \<Rightarrow> (string, bool) result \<times> 'w"
  ad_restore :: "string \<Rightarrow> 'u \<times> 'u \<Rightarrow> 'w \<Rightarrow> (string, unit) result \<times> 'w"

record ('u, 'w) BackfillCheckpointStore =
  st_load :: "string \<Rightarrow> 'w \<Rightarrow> (string, 'u BackfillCheckpoint option) result \<times> 'w"
  st_save :: "'u BackfillCheckpoint \<Rightarrow> 'w \<Rightarrow> (string, unit) result \<times> 'w"

record BackfillRunOptions =
  ro_dryRun :: "bool option"
  ro_batchSize :: "int option"
  ro_maxApplyRetries :: "int option"
  ro_diffLimit :: "int option"

record BackfillJobOptions =
  jo_requiredPermission :: "Permission option"
  jo_jobName :: "string option"

datatype backfill_error = ConflictException string | ForbiddenError string | Thrown string

datatype apply_reply = Reply_applied | Reply_conflict | Reply_threw string

datatype 'u event =
    Ev_save "'u BackfillCheckpoint" bool
  | Ev_apply string apply_reply
  | Ev_restore "'u BackfillJournalEntry" bool

text \<open>The world, the trace of the calls that write, and the job ids of the in-process lock.\<close>

record ('u, 'w) backfill_sys =
  bs_world :: 'w
  bs_trace :: "'u event list"
  bs_active :: "string list"

text \<open>The local variables of \<open>run\<close>: the checkpoint in memory and the last one that was saved.\<close>

record ('u, 'w) running =
  rn_cp :: "'u BackfillCheckpoint"
  rn_committed :: "'u BackfillCheckpoint"
  rn_sys :: "('u, 'w) backfill_sys"

section \<open>Bookkeeping\<close>

definition journal :: "'u BackfillChange \<Rightarrow> 'u BackfillCheckpoint \<Rightarrow> 'u BackfillCheckpoint" where
  "journal change cp =
     (if list_ex (\<lambda>entry. je_recordId entry = ch_recordId change) (cp_journal cp) then cp
      else cp\<lparr>cp_journal := cp_journal cp @
        [\<lparr>je_recordId = ch_recordId change, je_before = ch_before change, je_after = ch_after change\<rparr>]\<rparr>)"

definition dropJournal :: "string \<Rightarrow> 'u BackfillCheckpoint \<Rightarrow> 'u BackfillCheckpoint" where
  "dropJournal recordId cp = cp\<lparr>cp_journal := filter (\<lambda>entry. je_recordId entry \<noteq> recordId) (cp_journal cp)\<rparr>"

definition recordDiff :: "'u BackfillChange \<Rightarrow> int \<Rightarrow> 'u BackfillCheckpoint \<Rightarrow> 'u BackfillCheckpoint" where
  "recordDiff change diffLimit cp =
     (if int (length (cp_diffs cp)) < diffLimit
      then cp\<lparr>cp_diffs := cp_diffs cp @ [\<lparr>df_recordId = ch_recordId change, df_field = ch_field change,
        df_before = ch_before change, df_after = ch_after change\<rparr>]\<rparr>
      else cp\<lparr>cp_diffTruncated := cp_diffTruncated cp + 1\<rparr>)"

definition recordFailure ::
  "string \<Rightarrow> BackfillFailurePhase \<Rightarrow> string \<Rightarrow> 'u BackfillCheckpoint \<Rightarrow> 'u BackfillCheckpoint" where
  "recordFailure recordId phase message cp =
     cp\<lparr>cp_failures := filter (\<lambda>f. \<not> (bf_recordId f = recordId \<and> bf_phase f = phase)) (cp_failures cp) @
       [\<lparr>bf_recordId = recordId, bf_phase = phase, bf_error = message\<rparr>]\<rparr>"

section \<open>Calls to the adapter and to the store\<close>

definition log_event :: "'u event \<Rightarrow> 'w \<Rightarrow> ('u, 'w) backfill_sys \<Rightarrow> ('u, 'w) backfill_sys" where
  "log_event e w s = s\<lparr>bs_world := w, bs_trace := bs_trace s @ [e]\<rparr>"

definition call_save ::
  "('u, 'w) BackfillCheckpointStore \<Rightarrow> 'u BackfillCheckpoint \<Rightarrow> ('u, 'w) backfill_sys \<Rightarrow>
   (string, unit) result \<times> ('u, 'w) backfill_sys" where
  "call_save st cp s =
     (case st_save st cp (bs_world s) of
        (Inl e, w) \<Rightarrow> (Inl e, log_event (Ev_save cp False) w s)
      | (Inr u, w) \<Rightarrow> (Inr u, log_event (Ev_save cp True) w s))"

definition call_apply ::
  "('r, 'u, 'w) BackfillAdapter \<Rightarrow> 'r \<Rightarrow> 'u BackfillChange \<Rightarrow> ('u, 'w) backfill_sys \<Rightarrow>
   apply_reply \<times> ('u, 'w) backfill_sys" where
  "call_apply ad record change s =
     (case ad_apply ad record change (bs_world s) of
        (answer, w) \<Rightarrow>
          let reply = (case answer of Inl e \<Rightarrow> Reply_threw e | Inr conflict \<Rightarrow> if conflict then Reply_conflict else Reply_applied)
          in (reply, log_event (Ev_apply (ch_recordId change) reply) w s))"

definition call_restore ::
  "('r, 'u, 'w) BackfillAdapter \<Rightarrow> 'u BackfillJournalEntry \<Rightarrow> ('u, 'w) backfill_sys \<Rightarrow>
   (string, unit) result \<times> ('u, 'w) backfill_sys" where
  "call_restore ad entry s =
     (case ad_restore ad (je_recordId entry) (je_before entry, je_after entry) (bs_world s) of
        (Inl e, w) \<Rightarrow> (Inl e, log_event (Ev_restore entry False) w s)
      | (Inr u, w) \<Rightarrow> (Inr u, log_event (Ev_restore entry True) w s))"

section \<open>Running the job\<close>

definition persist ::
  "('u, 'w) BackfillCheckpointStore \<Rightarrow> int \<Rightarrow> ('u, 'w) running \<Rightarrow> (string, unit) result \<times> ('u, 'w) running" where
  "persist st scanned rn =
     (let next = (rn_cp rn)\<lparr>cp_scanned := scanned\<rparr>
      in case call_save st next (rn_sys rn) of
           (Inl e, s) \<Rightarrow> (Inl e, rn\<lparr>rn_sys := s\<rparr>)
         | (Inr _, s) \<Rightarrow> (Inr (), rn\<lparr>rn_committed := next, rn_sys := s\<rparr>))"

text \<open>The attempts of \<open>applyOne\<close>; the last reply is the one that counts.\<close>

fun applyAttempts ::
  "('r, 'u, 'w) BackfillAdapter \<Rightarrow> 'r \<Rightarrow> 'u BackfillChange \<Rightarrow> nat \<Rightarrow> string \<Rightarrow> ('u, 'w) backfill_sys \<Rightarrow>
   apply_reply \<times> ('u, 'w) backfill_sys" where
  "applyAttempts ad record change 0 lastError s = (Reply_threw lastError, s)"
| "applyAttempts ad record change (Suc n) lastError s =
     (case call_apply ad record change s of
        (Reply_threw e, s1) \<Rightarrow> applyAttempts ad record change n e s1
      | (reply, s1) \<Rightarrow> (reply, s1))"

definition applyOne ::
  "('r, 'u, 'w) BackfillAdapter \<Rightarrow> 'r \<Rightarrow> 'u BackfillChange \<Rightarrow> int \<Rightarrow> int \<Rightarrow> ('u, 'w) running \<Rightarrow> ('u, 'w) running" where
  "applyOne ad record change retries diffLimit rn =
     (case applyAttempts ad record change (nat (retries + 1)) [] (rn_sys rn) of
        (reply, s) \<Rightarrow>
          let cp = rn_cp rn
          in rn\<lparr>rn_sys := s,
                rn_cp := (case reply of
                    Reply_conflict \<Rightarrow> dropJournal (ch_recordId change) (cp\<lparr>cp_conflicts := cp_conflicts cp + 1\<rparr>)
                  | Reply_applied \<Rightarrow> recordDiff change diffLimit (cp\<lparr>cp_applied := cp_applied cp + 1\<rparr>)
                  | Reply_threw e \<Rightarrow> recordFailure (ch_recordId change) Phase_apply e cp)\<rparr>)"

fun runRecords ::
  "('r, 'u, 'w) BackfillAdapter \<Rightarrow> ('u, 'w) BackfillCheckpointStore \<Rightarrow> int \<Rightarrow> int \<Rightarrow> int \<Rightarrow> 'r list \<Rightarrow>
   ('u, 'w) running \<Rightarrow> (string, unit) result \<times> ('u, 'w) running" where
  "runRecords ad st retries diffLimit start [] rn = (Inr (), rn)"
| "runRecords ad st retries diffLimit start (record # records) rn =
     (let cp = (rn_cp rn)\<lparr>cp_scanned := cp_scanned (rn_cp rn) + 1\<rparr>;
          continue = runRecords ad st retries diffLimit start records
      in case ad_plan ad record of
           Inl e \<Rightarrow> continue (rn\<lparr>rn_cp := recordFailure (ad_recordId ad record) Phase_plan e cp\<rparr>)
         | Inr None \<Rightarrow> continue (rn\<lparr>rn_cp := cp\<lparr>cp_skipped := cp_skipped cp + 1\<rparr>\<rparr>)
         | Inr (Some change) \<Rightarrow>
             let cp1 = cp\<lparr>cp_planned := cp_planned cp + 1\<rparr>
             in if cp_dryRun cp1 then continue (rn\<lparr>rn_cp := recordDiff change diffLimit cp1\<rparr>)
                else case persist st start (rn\<lparr>rn_cp := journal change cp1\<rparr>) of
                    (Inl e, rn1) \<Rightarrow> (Inl e, rn1)
                  | (Inr _, rn1) \<Rightarrow> continue (applyOne ad record change retries diffLimit rn1))"

definition runPage ::
  "('r, 'u, 'w) BackfillAdapter \<Rightarrow> ('u, 'w) BackfillCheckpointStore \<Rightarrow> int \<Rightarrow> int \<Rightarrow> int \<Rightarrow> ('u, 'w) running \<Rightarrow>
   (string, unit) result \<times> ('u, 'w) running" where
  "runPage ad st batchSize retries diffLimit rn =
     (case ad_scan ad (cp_cursor (rn_cp rn)) batchSize (bs_world (rn_sys rn)) of
        (Inl e, w) \<Rightarrow> (Inl e, rn\<lparr>rn_sys := (rn_sys rn)\<lparr>bs_world := w\<rparr>\<rparr>)
      | (Inr (records, nextCursor), w) \<Rightarrow>
          (case runRecords ad st retries diffLimit (cp_scanned (rn_cp rn)) records
                  (rn\<lparr>rn_sys := (rn_sys rn)\<lparr>bs_world := w\<rparr>\<rparr>) of
             (Inl e, rn1) \<Rightarrow> (Inl e, rn1)
           | (Inr _, rn1) \<Rightarrow>
               let cp = (rn_cp rn1)\<lparr>cp_cursor := nextCursor\<rparr>;
                   cp1 = (if nextCursor = None then cp\<lparr>cp_status := Bf_completed\<rparr> else cp)
               in persist st (cp_scanned cp1) (rn1\<lparr>rn_cp := cp1\<rparr>)))"

fun runPages ::
  "nat \<Rightarrow> ('r, 'u, 'w) BackfillAdapter \<Rightarrow> ('u, 'w) BackfillCheckpointStore \<Rightarrow> int \<Rightarrow> int \<Rightarrow> int \<Rightarrow> ('u, 'w) running \<Rightarrow>
   ((string, unit) result \<times> ('u, 'w) running) option" where
  "runPages 0 ad st batchSize retries diffLimit rn = None"
| "runPages (Suc fuel) ad st batchSize retries diffLimit rn =
     (case runPage ad st batchSize retries diffLimit rn of
        (Inl e, rn1) \<Rightarrow> Some (Inl e, rn1)
      | (Inr _, rn1) \<Rightarrow>
          if cp_cursor (rn_cp rn1) \<noteq> None then runPages fuel ad st batchSize retries diffLimit rn1 else Some (Inr (), rn1))"

definition DEFAULT_BATCH_SIZE :: int where "DEFAULT_BATCH_SIZE = 100"

definition DEFAULT_MAX_RETRIES :: int where "DEFAULT_MAX_RETRIES = 2"

definition DEFAULT_DIFF_LIMIT :: int where "DEFAULT_DIFF_LIMIT = 500"

definition newCheckpoint :: "string \<Rightarrow> string \<Rightarrow> bool \<Rightarrow> 'u BackfillCheckpoint" where
  "newCheckpoint jobId jobName dryRun =
     \<lparr>cp_jobId = jobId, cp_job = jobName, cp_status = Bf_running, cp_dryRun = dryRun, cp_cursor = None, cp_scanned = 0,
      cp_planned = 0, cp_applied = 0, cp_skipped = 0, cp_conflicts = 0, cp_diffs = [], cp_diffTruncated = 0,
      cp_failures = [], cp_journal = [], cp_error = None\<rparr>"

text \<open>Why an existing checkpoint cannot be continued.\<close>

definition refusal :: "string \<Rightarrow> string \<Rightarrow> bool option \<Rightarrow> 'u BackfillCheckpoint \<Rightarrow> string option" where
  "refusal jobId jobName dryRun existing =
     (if cp_status existing = Bf_rolled_back
      then Some (''Backfill job '' @ jobId @ '' was rolled back; use a new job id'')
      else if cp_job existing \<noteq> jobName
      then Some (''Backfill job '' @ jobId @ '' belongs to '' @ [CHR 0x27] @ cp_job existing @ [CHR 0x27] @ '', not ''
        @ [CHR 0x27] @ jobName @ [CHR 0x27] @ ''; use a new job id'')
      else if (case dryRun of None \<Rightarrow> False | Some d \<Rightarrow> cp_dryRun existing \<noteq> d)
      then Some (if cp_dryRun existing
        then ''Backfill job '' @ jobId @ '' was a dry-run preview; use a new job id to apply''
        else ''Backfill job '' @ jobId @ '' was started with dryRun=false; use a new job id to preview'')
      else None)"

definition authorize :: "BackfillJobOptions \<Rightarrow> BackfillActor \<Rightarrow> (backfill_error, unit) result" where
  "authorize options actor =
     (let required = (case jo_requiredPermission options of None \<Rightarrow> SYSTEM_MAINTENANCE | Some p \<Rightarrow> p)
      in if \<not> hasPermission (ba_roles actor) required then Inl (ForbiddenError ''Not allowed to run backfill jobs'') else Inr ())"

text \<open>The body of \<open>run\<close> on a checkpoint that is not finished, with its \<open>catch\<close> block.\<close>

definition runCheckpoint ::
  "nat \<Rightarrow> ('r, 'u, 'w) BackfillAdapter \<Rightarrow> ('u, 'w) BackfillCheckpointStore \<Rightarrow> BackfillRunOptions \<Rightarrow>
   'u BackfillCheckpoint \<Rightarrow> ('u, 'w) backfill_sys \<Rightarrow>
   ((backfill_error, 'u BackfillCheckpoint) result \<times> ('u, 'w) backfill_sys) option" where
  "runCheckpoint fuel ad st options checkpoint s =
     (let batchSize = (case ro_batchSize options of None \<Rightarrow> DEFAULT_BATCH_SIZE | Some n \<Rightarrow> n);
          retries = (case ro_maxApplyRetries options of None \<Rightarrow> DEFAULT_MAX_RETRIES | Some n \<Rightarrow> n);
          diffLimit = (case ro_diffLimit options of None \<Rightarrow> DEFAULT_DIFF_LIMIT | Some n \<Rightarrow> n)
      in case runPages fuel ad st batchSize retries diffLimit
                \<lparr>rn_cp = checkpoint, rn_committed = checkpoint, rn_sys = s\<rparr> of
           None \<Rightarrow> None
         | Some (Inr _, rn) \<Rightarrow> Some (Inr (rn_cp rn), rn_sys rn)
         | Some (Inl message, rn) \<Rightarrow>
             Some (Inl (Thrown message),
               snd (call_save st ((rn_committed rn)\<lparr>cp_status := Bf_failed, cp_error := Some message\<rparr>) (rn_sys rn))))"

definition run_locked ::
  "nat \<Rightarrow> ('r, 'u, 'w) BackfillAdapter \<Rightarrow> ('u, 'w) BackfillCheckpointStore \<Rightarrow> BackfillJobOptions \<Rightarrow> string \<Rightarrow>
   BackfillRunOptions \<Rightarrow> ('u, 'w) backfill_sys \<Rightarrow>
   ((backfill_error, 'u BackfillCheckpoint) result \<times> ('u, 'w) backfill_sys) option" where
  "run_locked fuel ad st jobOptions jobId options s =
     (let jobName = (case jo_jobName jobOptions of None \<Rightarrow> ''backfill'' | Some n \<Rightarrow> n)
      in case st_load st jobId (bs_world s) of
           (Inl e, w) \<Rightarrow> Some (Inl (Thrown e), s\<lparr>bs_world := w\<rparr>)
         | (Inr None, w) \<Rightarrow>
             runCheckpoint fuel ad st options
               (newCheckpoint jobId jobName (case ro_dryRun options of None \<Rightarrow> False | Some d \<Rightarrow> d)) (s\<lparr>bs_world := w\<rparr>)
         | (Inr (Some existing), w) \<Rightarrow>
             (case refusal jobId jobName (ro_dryRun options) existing of
                Some message \<Rightarrow> Some (Inl (ConflictException message), s\<lparr>bs_world := w\<rparr>)
              | None \<Rightarrow>
                  if cp_status existing = Bf_completed then Some (Inr existing, s\<lparr>bs_world := w\<rparr>)
                  else runCheckpoint fuel ad st options (existing\<lparr>cp_status := Bf_running, cp_error := None\<rparr>)
                         (s\<lparr>bs_world := w\<rparr>)))"

text \<open>\<open>exclusive\<close>: refuse a job that is already running, and release the lock however the work ends.\<close>

definition exclusive ::
  "string \<Rightarrow> (('u, 'w) backfill_sys \<Rightarrow> ((backfill_error, 'a) result \<times> ('u, 'w) backfill_sys) option) \<Rightarrow>
   ('u, 'w) backfill_sys \<Rightarrow> ((backfill_error, 'a) result \<times> ('u, 'w) backfill_sys) option" where
  "exclusive jobId work s =
     (if jobId \<in> set (bs_active s)
      then Some (Inl (ConflictException (''Backfill job '' @ jobId @ '' is already running'')), s)
      else map_option (\<lambda>(r, s1). (r, s1\<lparr>bs_active := removeAll jobId (bs_active s1)\<rparr>))
             (work (s\<lparr>bs_active := bs_active s @ [jobId]\<rparr>)))"

definition run_job ::
  "nat \<Rightarrow> ('r, 'u, 'w) BackfillAdapter \<Rightarrow> ('u, 'w) BackfillCheckpointStore \<Rightarrow> BackfillJobOptions \<Rightarrow> BackfillActor \<Rightarrow>
   string \<Rightarrow> BackfillRunOptions \<Rightarrow> ('u, 'w) backfill_sys \<Rightarrow>
   ((backfill_error, 'u BackfillCheckpoint) result \<times> ('u, 'w) backfill_sys) option" where
  "run_job fuel ad st jobOptions actor jobId options s =
     (case authorize jobOptions actor of
        Inl e \<Rightarrow> Some (Inl e, s)
      | Inr _ \<Rightarrow> exclusive jobId (run_locked fuel ad st jobOptions jobId options) s)"

definition report ::
  "('u, 'w) BackfillCheckpointStore \<Rightarrow> BackfillJobOptions \<Rightarrow> BackfillActor \<Rightarrow> string \<Rightarrow> ('u, 'w) backfill_sys \<Rightarrow>
   (backfill_error, 'u BackfillCheckpoint option) result \<times> ('u, 'w) backfill_sys" where
  "report st jobOptions actor jobId s =
     (case authorize jobOptions actor of
        Inl e \<Rightarrow> (Inl e, s)
      | Inr _ \<Rightarrow> (case st_load st jobId (bs_world s) of
            (Inl e, w) \<Rightarrow> (Inl (Thrown e), s\<lparr>bs_world := w\<rparr>)
          | (Inr cp, w) \<Rightarrow> (Inr cp, s\<lparr>bs_world := w\<rparr>)))"

section \<open>Rolling back\<close>

text \<open>The entries are restored from the end of the journal; \<open>rest\<close> is the journal in reverse.\<close>

fun restoreEntries ::
  "('r, 'u, 'w) BackfillAdapter \<Rightarrow> ('u, 'w) BackfillCheckpointStore \<Rightarrow> 'u BackfillCheckpoint \<Rightarrow>
   'u BackfillJournalEntry list \<Rightarrow> ('u, 'w) backfill_sys \<Rightarrow> (string, unit) result \<times> ('u, 'w) backfill_sys" where
  "restoreEntries ad st cp [] s = (Inr (), s)"
| "restoreEntries ad st cp (entry # rest) s =
     (case call_restore ad entry s of
        (Inl e, s1) \<Rightarrow> (Inl e, s1)
      | (Inr _, s1) \<Rightarrow>
          (case call_save st (cp\<lparr>cp_journal := rev rest\<rparr>) s1 of
             (Inl e, s2) \<Rightarrow> (Inl e, s2)
           | (Inr _, s2) \<Rightarrow> restoreEntries ad st cp rest s2))"

definition rollback_locked ::
  "('r, 'u, 'w) BackfillAdapter \<Rightarrow> ('u, 'w) BackfillCheckpointStore \<Rightarrow> string \<Rightarrow> ('u, 'w) backfill_sys \<Rightarrow>
   (backfill_error, 'u BackfillCheckpoint) result \<times> ('u, 'w) backfill_sys" where
  "rollback_locked ad st jobId s =
     (case st_load st jobId (bs_world s) of
        (Inl e, w) \<Rightarrow> (Inl (Thrown e), s\<lparr>bs_world := w\<rparr>)
      | (Inr None, w) \<Rightarrow> (Inl (ConflictException (''Backfill job '' @ jobId @ '' does not exist'')), s\<lparr>bs_world := w\<rparr>)
      | (Inr (Some checkpoint), w) \<Rightarrow>
          (case restoreEntries ad st checkpoint (rev (cp_journal checkpoint)) (s\<lparr>bs_world := w\<rparr>) of
             (Inl e, s1) \<Rightarrow> (Inl (Thrown e), s1)
           | (Inr _, s1) \<Rightarrow>
               let finished = checkpoint\<lparr>cp_status := Bf_rolled_back, cp_journal := [], cp_applied := 0\<rparr>
               in (case call_save st finished s1 of
                     (Inl e, s2) \<Rightarrow> (Inl (Thrown e), s2)
                   | (Inr _, s2) \<Rightarrow> (Inr finished, s2))))"

definition rollback ::
  "('r, 'u, 'w) BackfillAdapter \<Rightarrow> ('u, 'w) BackfillCheckpointStore \<Rightarrow> BackfillJobOptions \<Rightarrow> BackfillActor \<Rightarrow> string \<Rightarrow>
   ('u, 'w) backfill_sys \<Rightarrow> ((backfill_error, 'u BackfillCheckpoint) result \<times> ('u, 'w) backfill_sys) option" where
  "rollback ad st jobOptions actor jobId s =
     (case authorize jobOptions actor of
        Inl e \<Rightarrow> Some (Inl e, s)
      | Inr _ \<Rightarrow> exclusive jobId (\<lambda>s1. Some (rollback_locked ad st jobId s1)) s)"

section \<open>Write-ahead journaling\<close>

text \<open>
  What a trace tells: the checkpoint that is on disk, and the records the job may have written, which are
  those whose last attempt was not answered by a conflict and that were not restored since.
\<close>

definition save_effect :: "'u event \<Rightarrow> 'u BackfillCheckpoint option \<Rightarrow> 'u BackfillCheckpoint option" where
  "save_effect e stored = (case e of Ev_save c True \<Rightarrow> Some c | _ \<Rightarrow> stored)"

definition write_effect :: "'u event \<Rightarrow> string set \<Rightarrow> string set" where
  "write_effect e W =
     (case e of
        Ev_apply rid reply \<Rightarrow> if reply = Reply_conflict then W - {rid} else insert rid W
      | Ev_restore entry True \<Rightarrow> W - {je_recordId entry}
      | _ \<Rightarrow> W)"

definition last_saved :: "'u event list \<Rightarrow> 'u BackfillCheckpoint option" where
  "last_saved tr = fold save_effect tr None"

definition written :: "'u event list \<Rightarrow> string set" where
  "written tr = fold write_effect tr {}"

definition journaled :: "'u BackfillCheckpoint \<Rightarrow> string set" where
  "journaled cp = je_recordId ` set (cp_journal cp)"

definition on_disk :: "'u event list \<Rightarrow> string set" where
  "on_disk tr = (case last_saved tr of None \<Rightarrow> {} | Some c \<Rightarrow> journaled c)"

definition covered :: "'u event list \<Rightarrow> bool" where
  "covered tr \<longleftrightarrow> written tr \<subseteq> on_disk tr"

text \<open>
  The write-ahead discipline: at every point of the trace the journal on disk covers what may have been
  written, and a record is journaled on disk before the adapter is asked to write it.
\<close>

definition write_ahead :: "'u event list \<Rightarrow> bool" where
  "write_ahead tr \<longleftrightarrow>
     (\<forall>xs ys. tr = xs @ ys \<longrightarrow> covered xs) \<and>
     (\<forall>xs rid reply ys. tr = xs @ Ev_apply rid reply # ys \<longrightarrow> rid \<in> on_disk xs)"

lemma trace_simps [simp]:
  "last_saved [] = None" "written [] = {}" "on_disk [] = {}"
  "last_saved (tr @ [e]) = save_effect e (last_saved tr)"
  "written (tr @ [e]) = write_effect e (written tr)"
  by (simp_all add: last_saved_def written_def on_disk_def)

lemma write_ahead_Nil [simp]: "write_ahead []"
  by (simp add: write_ahead_def covered_def)

lemma write_ahead_covered: "write_ahead tr \<Longrightarrow> covered tr"
  by (simp add: write_ahead_def)

lemma write_ahead_snoc:
  assumes "write_ahead tr" "covered (tr @ [e])" "\<And>rid reply. e = Ev_apply rid reply \<Longrightarrow> rid \<in> on_disk tr"
  shows "write_ahead (tr @ [e])"
  unfolding write_ahead_def
proof (intro conjI allI impI)
  fix xs ys assume eq: "tr @ [e] = xs @ ys"
  show "covered xs"
  proof (cases ys rule: rev_cases)
    case Nil
    then show ?thesis using eq assms(2) by simp
  next
    case (snoc zs z)
    then have "tr = xs @ zs" using eq by simp
    then show ?thesis using assms(1) by (auto simp: write_ahead_def)
  qed
next
  fix xs rid reply ys assume eq: "tr @ [e] = xs @ Ev_apply rid reply # ys"
  show "rid \<in> on_disk xs"
  proof (cases ys rule: rev_cases)
    case Nil
    then show ?thesis using eq assms(3) [of rid reply] by simp
  next
    case (snoc zs z)
    then have "tr = xs @ Ev_apply rid reply # zs" using eq by simp
    then show ?thesis using assms(1) by (auto simp: write_ahead_def)
  qed
qed

lemma write_ahead_save:
  assumes "write_ahead tr" "ok \<Longrightarrow> written tr \<subseteq> journaled c"
  shows "write_ahead (tr @ [Ev_save c ok])"
proof (rule write_ahead_snoc [OF assms(1)])
  show "covered (tr @ [Ev_save c ok])"
    using assms write_ahead_covered [OF assms(1)]
    by (cases ok) (simp_all add: covered_def on_disk_def save_effect_def write_effect_def)
qed simp

lemma write_ahead_apply:
  assumes "write_ahead tr" "rid \<in> on_disk tr"
  shows "write_ahead (tr @ [Ev_apply rid reply])"
proof (rule write_ahead_snoc [OF assms(1)])
  show "covered (tr @ [Ev_apply rid reply])"
    using assms(2) write_ahead_covered [OF assms(1)]
    by (auto simp: covered_def on_disk_def save_effect_def write_effect_def)
  show "\<And>r q. Ev_apply rid reply = Ev_apply r q \<Longrightarrow> r \<in> on_disk tr"
    using assms(2) by simp
qed

lemma write_ahead_restore:
  assumes "write_ahead tr"
  shows "write_ahead (tr @ [Ev_restore entry ok])"
proof (rule write_ahead_snoc [OF assms])
  show "covered (tr @ [Ev_restore entry ok])"
    using write_ahead_covered [OF assms]
    by (cases ok) (auto simp: covered_def on_disk_def save_effect_def write_effect_def)
qed simp

section \<open>Invariants of a run\<close>

text \<open>
  An invariant of the loop is one that the pure updates of the checkpoint, a scan, a save, and a journaled
  write keep; this is what every proof about \<open>run\<close> below rests on.
\<close>

definition same_books :: "'u BackfillCheckpoint \<Rightarrow> 'u BackfillCheckpoint \<Rightarrow> bool" where
  "same_books c d \<longleftrightarrow> cp_journal c = cp_journal d \<and> cp_jobId c = cp_jobId d \<and> cp_dryRun c = cp_dryRun d"

lemma same_books_updates [simp]:
  "same_books cp cp"
  "same_books (cp\<lparr>cp_scanned := n\<rparr>) d = same_books cp d" "same_books (cp\<lparr>cp_skipped := n\<rparr>) d = same_books cp d"
  "same_books (cp\<lparr>cp_planned := n\<rparr>) d = same_books cp d" "same_books (cp\<lparr>cp_applied := n\<rparr>) d = same_books cp d"
  "same_books (cp\<lparr>cp_conflicts := n\<rparr>) d = same_books cp d" "same_books (cp\<lparr>cp_cursor := c\<rparr>) d = same_books cp d"
  "same_books (cp\<lparr>cp_status := st\<rparr>) d = same_books cp d" "same_books (cp\<lparr>cp_error := er\<rparr>) d = same_books cp d"
  "same_books (recordDiff change k cp) d = same_books cp d" "same_books (recordFailure rid ph e cp) d = same_books cp d"
  by (simp_all add: same_books_def recordDiff_def recordFailure_def)

locale run_invariant =
  fixes ad :: "('r, 'u, 'w) BackfillAdapter" and st :: "('u, 'w) BackfillCheckpointStore" and I :: "('u, 'w) running \<Rightarrow> bool"
  assumes I_scan: "I rn \<Longrightarrow> ad_scan ad c n (bs_world (rn_sys rn)) = (q, w) \<Longrightarrow> I (rn\<lparr>rn_sys := (rn_sys rn)\<lparr>bs_world := w\<rparr>\<rparr>)"
    and I_books: "I rn \<Longrightarrow> same_books cp (rn_cp rn) \<Longrightarrow> I (rn\<lparr>rn_cp := cp\<rparr>)"
    and I_persist: "I rn \<Longrightarrow> persist st n rn = (r, rn') \<Longrightarrow> I rn'"
    and I_journal: "I rn \<Longrightarrow> \<not> cp_dryRun (rn_cp rn) \<Longrightarrow> I (rn\<lparr>rn_cp := journal change (rn_cp rn)\<rparr>)"
    and I_apply: "I rn \<Longrightarrow> \<not> cp_dryRun (rn_cp rn) \<Longrightarrow> persist st n (rn\<lparr>rn_cp := journal change (rn_cp rn)\<rparr>) = (Inr u, rn1) \<Longrightarrow>
      I (applyOne ad x change retries diffLimit rn1)"
begin

lemma records_keep:
  assumes "I rn" "runRecords ad st retries diffLimit start records rn = (r, rn')"
  shows "I rn'"
  using assms
proof (induction records arbitrary: rn)
  case (Cons x xs)
  let ?cp = "(rn_cp rn)\<lparr>cp_scanned := cp_scanned (rn_cp rn) + 1\<rparr>"
  note upd = I_books [OF Cons.prems(1)]
  show ?case
  proof (cases "ad_plan ad x")
    case (Inl e)
    have "I (rn\<lparr>rn_cp := recordFailure (ad_recordId ad x) Phase_plan e ?cp\<rparr>)" by (rule upd) simp
    from Cons.IH [OF this] Cons.prems(2) Inl show ?thesis by (simp add: Let_def)
  next
    case (Inr planned)
    show ?thesis
    proof (cases planned)
      case None
      have "I (rn\<lparr>rn_cp := ?cp\<lparr>cp_skipped := cp_skipped ?cp + 1\<rparr>\<rparr>)" by (rule upd) simp
      from Cons.IH [OF this] Cons.prems(2) Inr None show ?thesis by (simp add: Let_def)
    next
      case (Some change)
      let ?rn = "rn\<lparr>rn_cp := ?cp\<lparr>cp_planned := cp_planned ?cp + 1\<rparr>\<rparr>"
      have inv: "I ?rn" by (rule upd) simp
      show ?thesis
      proof (cases "cp_dryRun (rn_cp rn)")
        case True
        have "I (rn\<lparr>rn_cp := recordDiff change diffLimit (rn_cp ?rn)\<rparr>)" by (rule upd) simp
        from Cons.IH [OF this] Cons.prems(2) Inr Some True show ?thesis by (simp add: Let_def)
      next
        case False
        obtain q rn1 where ps: "persist st start (?rn\<lparr>rn_cp := journal change (rn_cp ?rn)\<rparr>) = (q, rn1)" by fastforce
        have "I rn1" by (rule I_persist [OF I_journal [OF inv] ps]) (simp add: False)
        moreover have "I (applyOne ad x change retries diffLimit rn1)" if "q = Inr u" for u
          by (rule I_apply [OF inv _ ps [unfolded that]]) (simp add: False)
        ultimately show ?thesis
          using Cons.IH Cons.prems(2) Inr Some False ps by (auto simp: Let_def split: sum.splits)
      qed
    qed
  qed
qed simp

lemma page_keeps:
  assumes "I rn" "runPage ad st batchSize retries diffLimit rn = (r, rn')"
  shows "I rn'"
proof -
  obtain q w where scan: "ad_scan ad (cp_cursor (rn_cp rn)) batchSize (bs_world (rn_sys rn)) = (q, w)" by fastforce
  let ?rn = "rn\<lparr>rn_sys := (rn_sys rn)\<lparr>bs_world := w\<rparr>\<rparr>"
  have inv: "I ?rn" by (rule I_scan [OF assms(1) scan])
  show ?thesis
  proof (cases q)
    case (Inl e)
    with assms(2) scan inv show ?thesis by (simp add: runPage_def)
  next
    case (Inr page)
    obtain records nextCursor where page: "page = (records, nextCursor)" by fastforce
    obtain q1 rn1 where recs: "runRecords ad st retries diffLimit (cp_scanned (rn_cp rn)) records ?rn = (q1, rn1)" by fastforce
    note inv1 = records_keep [OF inv recs]
    let ?cp = "(rn_cp rn1)\<lparr>cp_cursor := nextCursor\<rparr>"
    let ?cp1 = "if nextCursor = None then ?cp\<lparr>cp_status := Bf_completed\<rparr> else ?cp"
    have "I (rn1\<lparr>rn_cp := ?cp1\<rparr>)" by (rule I_books [OF inv1]) simp
    from I_persist [OF this] inv1 assms(2) scan Inr page recs show ?thesis
      by (cases q1) (auto simp: runPage_def Let_def)
  qed
qed

lemma pages_keep:
  assumes "I rn" "runPages fuel ad st batchSize retries diffLimit rn = Some (r, rn')"
  shows "I rn'"
  using assms
proof (induction fuel arbitrary: rn)
  case (Suc fuel)
  obtain q rn1 where pg: "runPage ad st batchSize retries diffLimit rn = (q, rn1)" by fastforce
  from page_keeps [OF Suc.prems(1) pg] Suc.IH [of rn1] Suc.prems(2) pg show ?case
    by (auto split: sum.splits if_splits)
qed simp

text \<open>At the end of a run: the state in which the loop stopped, followed by the save of a failure.\<close>

lemma checkpoint_ends:
  assumes "I \<lparr>rn_cp = cp, rn_committed = cp, rn_sys = s\<rparr>" "runCheckpoint fuel ad st options cp s = Some (r, s')"
  obtains rn where "I rn" "r = Inr (rn_cp rn)" "s' = rn_sys rn"
  | rn message where "I rn" "r = Inl (Thrown message)"
      "s' = snd (call_save st ((rn_committed rn)\<lparr>cp_status := Bf_failed, cp_error := Some message\<rparr>) (rn_sys rn))"
proof -
  define b where "b = (case ro_batchSize options of None \<Rightarrow> DEFAULT_BATCH_SIZE | Some n \<Rightarrow> n)"
  define m where "m = (case ro_maxApplyRetries options of None \<Rightarrow> DEFAULT_MAX_RETRIES | Some n \<Rightarrow> n)"
  define d where "d = (case ro_diffLimit options of None \<Rightarrow> DEFAULT_DIFF_LIMIT | Some n \<Rightarrow> n)"
  note run = assms(2) [unfolded runCheckpoint_def Let_def, folded b_def m_def d_def]
  from run obtain q rn where pages: "runPages fuel ad st b m d \<lparr>rn_cp = cp, rn_committed = cp, rn_sys = s\<rparr> = Some (q, rn)"
    by (auto split: option.splits)
  note inv = pages_keep [OF assms(1) pages]
  show ?thesis
  proof (cases q)
    case (Inl message)
    with run pages show ?thesis by (intro that(2) [OF inv, of message]) simp_all
  next
    case (Inr u)
    with run pages show ?thesis by (intro that(1) [OF inv]) simp_all
  qed
qed

end

section \<open>The run keeps the discipline\<close>

lemma log_event_simps [simp]:
  "bs_trace (log_event e w s) = bs_trace s @ [e]" "bs_active (log_event e w s) = bs_active s"
  by (simp_all add: log_event_def)

lemma journal_sets [simp]:
  "journaled (journal change cp) = insert (ch_recordId change) (journaled cp)"
  "journaled (dropJournal rid cp) = journaled cp - {rid}"
  "journaled (recordDiff change n cp) = journaled cp"
  "journaled (recordFailure rid ph e cp) = journaled cp"
  by (auto simp: journaled_def journal_def dropJournal_def recordDiff_def recordFailure_def list_ex_iff intro: rev_image_eqI)

lemma journaled_simps [simp]:
  "journaled (cp\<lparr>cp_scanned := n\<rparr>) = journaled cp" "journaled (cp\<lparr>cp_skipped := n\<rparr>) = journaled cp"
  "journaled (cp\<lparr>cp_planned := n\<rparr>) = journaled cp" "journaled (cp\<lparr>cp_applied := n\<rparr>) = journaled cp"
  "journaled (cp\<lparr>cp_conflicts := n\<rparr>) = journaled cp" "journaled (cp\<lparr>cp_cursor := c\<rparr>) = journaled cp"
  "journaled (cp\<lparr>cp_status := st\<rparr>) = journaled cp" "journaled (cp\<lparr>cp_error := er\<rparr>) = journaled cp"
  by (simp_all add: journaled_def)

text \<open>The invariant of the loop: what may have been written is in the journal of both checkpoints.\<close>

definition run_inv :: "('u, 'w) running \<Rightarrow> bool" where
  "run_inv rn \<longleftrightarrow>
     write_ahead (bs_trace (rn_sys rn)) \<and> written (bs_trace (rn_sys rn)) \<subseteq> journaled (rn_cp rn) \<and>
     written (bs_trace (rn_sys rn)) \<subseteq> journaled (rn_committed rn)"

lemma persist_inv:
  assumes "run_inv rn" "persist st n rn = (r, rn')"
  shows "run_inv rn'" "rn_cp rn' = rn_cp rn"
    "r = Inr () \<Longrightarrow> on_disk (bs_trace (rn_sys rn')) = journaled (rn_cp rn)"
  using assms write_ahead_save [of "bs_trace (rn_sys rn)"]
  by (auto simp: run_inv_def persist_def call_save_def Let_def write_effect_def on_disk_def save_effect_def
      split: prod.splits sum.splits)

lemma on_disk_apply [simp]: "on_disk (tr @ [Ev_apply rid reply]) = on_disk tr"
  by (simp add: on_disk_def save_effect_def)

lemma applyAttempts_inv:
  assumes "write_ahead (bs_trace s)" "ch_recordId change \<in> on_disk (bs_trace s)"
    and "applyAttempts ad record change n e s = (reply, s')"
  shows "write_ahead (bs_trace s') \<and> written (bs_trace s') \<subseteq> insert (ch_recordId change) (written (bs_trace s)) \<and>
    (reply = Reply_conflict \<longrightarrow> ch_recordId change \<notin> written (bs_trace s'))"
  using assms
proof (induction n arbitrary: e s)
  case (Suc n)
  obtain q s1 where call: "call_apply ad record change s = (q, s1)" by fastforce
  have tr: "bs_trace s1 = bs_trace s @ [Ev_apply (ch_recordId change) q]"
    using call by (auto simp: call_apply_def Let_def split: prod.splits)
  have wa: "write_ahead (bs_trace s1)" unfolding tr by (rule write_ahead_apply [OF Suc.prems(1,2)])
  have disk: "ch_recordId change \<in> on_disk (bs_trace s1)" using Suc.prems(2) by (simp add: tr)
  have wr: "written (bs_trace s1) \<subseteq> insert (ch_recordId change) (written (bs_trace s))"
    by (auto simp: tr write_effect_def)
  show ?case
  proof (cases q)
    case (Reply_threw e1)
    have "applyAttempts ad record change n e1 s1 = (reply, s')"
      using Suc.prems(3) call Reply_threw by simp
    from Suc.IH [OF wa disk this] wr show ?thesis by blast
  qed (use Suc.prems(3) call wa wr tr in \<open>auto simp: write_effect_def\<close>)
qed auto

lemma applyOne_inv:
  assumes "run_inv rn" "ch_recordId change \<in> on_disk (bs_trace (rn_sys rn))"
    "ch_recordId change \<in> journaled (rn_cp rn)" "ch_recordId change \<in> journaled (rn_committed rn)"
  shows "run_inv (applyOne ad record change retries diffLimit rn)"
proof -
  obtain reply s where att: "applyAttempts ad record change (nat (retries + 1)) [] (rn_sys rn) = (reply, s)" by fastforce
  have inv: "write_ahead (bs_trace (rn_sys rn))" "written (bs_trace (rn_sys rn)) \<subseteq> journaled (rn_cp rn)"
    "written (bs_trace (rn_sys rn)) \<subseteq> journaled (rn_committed rn)"
    using assms(1) by (simp_all add: run_inv_def)
  from applyAttempts_inv [OF inv(1) assms(2) att] inv assms(3,4) show ?thesis
    by (cases reply) (auto simp: run_inv_def applyOne_def att Let_def)
qed

interpretation discipline: run_invariant ad st run_inv for ad :: "('r, 'u, 'w) BackfillAdapter" and st
proof unfold_locales
  fix rn rn1 :: "('u, 'w) running" and change :: "'u BackfillChange" and n x retries diffLimit u
  assume inv: "run_inv rn" and ps: "persist st n (rn\<lparr>rn_cp := journal change (rn_cp rn)\<rparr>) = (Inr u, rn1)"
  have inv0: "run_inv (rn\<lparr>rn_cp := journal change (rn_cp rn)\<rparr>)" using inv by (auto simp: run_inv_def)
  note p = persist_inv [OF inv0 ps]
  have "journaled (rn_committed rn1) = journaled (rn_cp rn1)"
    using ps p(2) by (auto simp: persist_def Let_def split: prod.splits sum.splits)
  then show "run_inv (applyOne ad x change retries diffLimit rn1)"
    using p by (intro applyOne_inv) auto
next
  fix rn :: "('u, 'w) running" and cp assume "run_inv rn" "same_books cp (rn_cp rn)"
  then show "run_inv (rn\<lparr>rn_cp := cp\<rparr>)" by (simp add: run_inv_def same_books_def journaled_def)
next
  fix rn rn' :: "('u, 'w) running" and n r assume "run_inv rn" "persist st n rn = (r, rn')"
  then show "run_inv rn'" by (rule persist_inv(1))
qed (auto simp: run_inv_def)

lemma runCheckpoint_write_ahead:
  assumes "write_ahead (bs_trace s)" "written (bs_trace s) \<subseteq> journaled cp"
    and "runCheckpoint fuel ad st options cp s = Some (r, s')"
  shows "write_ahead (bs_trace s')"
proof -
  have "run_inv \<lparr>rn_cp = cp, rn_committed = cp, rn_sys = s\<rparr>" using assms(1,2) by (simp add: run_inv_def)
  from discipline.checkpoint_ends [OF this assms(3)] show ?thesis
  proof cases
    case (2 rn message)
    then show ?thesis
      using write_ahead_save [of "bs_trace (rn_sys rn)"]
      by (auto simp: run_inv_def call_save_def split: prod.splits sum.splits)
  qed (simp add: run_inv_def)
qed

lemma run_locked_write_ahead:
  assumes wa: "write_ahead (bs_trace s)"
    and load: "\<And>x w. st_load st jobId (bs_world s) = (Inr x, w) \<Longrightarrow> x = last_saved (bs_trace s)"
    and run: "run_locked fuel ad st jobOptions jobId options s = Some (r, s')"
  shows "write_ahead (bs_trace s')"
proof -
  obtain q w where ld: "st_load st jobId (bs_world s) = (q, w)" by fastforce
  have cov: "written (bs_trace s) \<subseteq> on_disk (bs_trace s)" using write_ahead_covered [OF wa] by (simp add: covered_def)
  have wa': "write_ahead (bs_trace (s\<lparr>bs_world := w\<rparr>))" using wa by simp
  have go: "write_ahead (bs_trace s')" if "on_disk (bs_trace s) \<subseteq> journaled cp"
    "runCheckpoint fuel ad st options cp (s\<lparr>bs_world := w\<rparr>) = Some (r, s')" for cp
    using cov that(1) by (intro runCheckpoint_write_ahead [OF wa' _ that(2)]) simp
  show ?thesis
  proof (cases q)
    case (Inl e)
    with run ld wa show ?thesis by (auto simp: run_locked_def)
  next
    case (Inr found)
    then have disk: "on_disk (bs_trace s) = (case found of None \<Rightarrow> {} | Some c \<Rightarrow> journaled c)"
      using load ld by (simp add: on_disk_def)
    show ?thesis
    proof (cases found)
      case None
      with run ld Inr disk go show ?thesis by (auto simp: run_locked_def Let_def)
    next
      case (Some existing)
      have "on_disk (bs_trace s) \<subseteq> journaled (existing\<lparr>cp_status := Bf_running, cp_error := None\<rparr>)"
        using disk Some by simp
      from go [OF this] run ld Inr Some wa show ?thesis
        by (auto simp: run_locked_def Let_def split: option.splits if_splits)
    qed
  qed
qed

lemma restoreEntries_write_ahead:
  assumes "write_ahead (bs_trace s)" "written (bs_trace s) \<subseteq> je_recordId ` set entries"
    and "restoreEntries ad st cp entries s = (r, s')"
  shows "write_ahead (bs_trace s') \<and> (r = Inr () \<longrightarrow> written (bs_trace s') = {})"
  using assms
proof (induction entries arbitrary: s)
  case (Cons entry rest)
  obtain q s1 where rs: "call_restore ad entry s = (q, s1)" by fastforce
  have wa1: "write_ahead (bs_trace s1)"
    using rs write_ahead_restore [OF Cons.prems(1)] by (auto simp: call_restore_def split: prod.splits sum.splits)
  show ?case
  proof (cases q)
    case (Inl e)
    with rs wa1 Cons.prems(3) show ?thesis by auto
  next
    case q: (Inr u)
    have wr: "written (bs_trace s1) \<subseteq> je_recordId ` set rest"
      using rs q Cons.prems(2) by (auto simp: call_restore_def write_effect_def split: prod.splits sum.splits)
    obtain q2 s2 where sv: "call_save st (cp\<lparr>cp_journal := rev rest\<rparr>) s1 = (q2, s2)" by fastforce
    have "written (bs_trace s1) \<subseteq> journaled (cp\<lparr>cp_journal := rev rest\<rparr>)" using wr by (simp add: journaled_def)
    then have wa2: "write_ahead (bs_trace s2)"
      using sv write_ahead_save [OF wa1] by (auto simp: call_save_def split: prod.splits sum.splits)
    have wr2: "written (bs_trace s2) \<subseteq> je_recordId ` set rest"
      using sv wr by (auto simp: call_save_def write_effect_def split: prod.splits sum.splits)
    show ?thesis
      using Cons.IH [OF wa2 wr2] Cons.prems(3) rs q sv wa2 by (auto split: sum.splits)
  qed
qed simp

lemma rollback_locked_write_ahead:
  assumes wa: "write_ahead (bs_trace s)"
    and load: "\<And>x w. st_load st jobId (bs_world s) = (Inr x, w) \<Longrightarrow> x = last_saved (bs_trace s)"
    and run: "rollback_locked ad st jobId s = (r, s')"
  shows "write_ahead (bs_trace s')"
proof -
  obtain q w where ld: "st_load st jobId (bs_world s) = (q, w)" by fastforce
  show ?thesis
  proof (cases "\<exists>cp. q = Inr (Some cp)")
    case False
    with run ld wa show ?thesis by (auto simp: rollback_locked_def split: sum.splits option.splits)
  next
    case True
    then obtain cp where q: "q = Inr (Some cp)" by blast
    have "last_saved (bs_trace s) = Some cp" using load ld q by simp
    then have wr: "written (bs_trace (s\<lparr>bs_world := w\<rparr>)) \<subseteq> je_recordId ` set (rev (cp_journal cp))"
      using write_ahead_covered [OF wa] by (simp add: covered_def on_disk_def journaled_def)
    obtain q1 s1 where rs: "restoreEntries ad st cp (rev (cp_journal cp)) (s\<lparr>bs_world := w\<rparr>) = (q1, s1)" by fastforce
    have "write_ahead (bs_trace (s\<lparr>bs_world := w\<rparr>))" using wa by simp
    from restoreEntries_write_ahead [OF this wr rs]
    have r1: "write_ahead (bs_trace s1)" "q1 = Inr () \<Longrightarrow> written (bs_trace s1) = {}" by blast+
    show ?thesis
    proof (cases q1)
      case (Inl e)
      with run ld q rs r1(1) show ?thesis by (auto simp: rollback_locked_def)
    next
      case (Inr u)
      with run ld q rs r1 write_ahead_save [OF r1(1)] show ?thesis
        by (auto simp: rollback_locked_def Let_def call_save_def split: prod.splits sum.splits)
    qed
  qed
qed

section \<open>Any number of runs, rollbacks and crashes\<close>

text \<open>
  The life of one job: runs and rollbacks by any actor with any options, reports, crashes of the process, which
  lose the lock and nothing else, and whatever other writers do to the world as far as \<open>keeps\<close> allows it.
\<close>

inductive job_step ::
  "('w \<Rightarrow> 'w \<Rightarrow> bool) \<Rightarrow> ('r, 'u, 'w) BackfillAdapter \<Rightarrow> ('u, 'w) BackfillCheckpointStore \<Rightarrow> BackfillJobOptions \<Rightarrow> string \<Rightarrow>
   ('u, 'w) backfill_sys \<Rightarrow> ('u, 'w) backfill_sys \<Rightarrow> bool"
  for keeps ad st jobOptions jobId where
  step_run: "run_job fuel ad st jobOptions actor jobId options s = Some (r, s') \<Longrightarrow> job_step keeps ad st jobOptions jobId s s'"
| step_rollback: "rollback ad st jobOptions actor jobId s = Some (r, s') \<Longrightarrow> job_step keeps ad st jobOptions jobId s s'"
| step_report: "report st jobOptions actor jobId s = (r, s') \<Longrightarrow> job_step keeps ad st jobOptions jobId s s'"
| step_crash: "job_step keeps ad st jobOptions jobId s (s\<lparr>bs_active := []\<rparr>)"
| step_others: "keeps (bs_world s) w \<Longrightarrow> job_step keeps ad st jobOptions jobId s (s\<lparr>bs_world := w\<rparr>)"

inductive job_reach ::
  "('w \<Rightarrow> 'w \<Rightarrow> bool) \<Rightarrow> ('r, 'u, 'w) BackfillAdapter \<Rightarrow> ('u, 'w) BackfillCheckpointStore \<Rightarrow> BackfillJobOptions \<Rightarrow> string \<Rightarrow>
   ('u, 'w) backfill_sys \<Rightarrow> ('u, 'w) backfill_sys \<Rightarrow> bool"
  for keeps ad st jobOptions jobId where
  reach_start: "job_reach keeps ad st jobOptions jobId s s"
| reach_step: "job_reach keeps ad st jobOptions jobId s t \<Longrightarrow> job_step keeps ad st jobOptions jobId t u \<Longrightarrow>
    job_reach keeps ad st jobOptions jobId s u"

text \<open>
  What the store promises: \<open>view w j\<close> is the checkpoint of job \<open>j\<close>; a save that succeeds replaces it, one that
  fails leaves it, a load returns it, and the adapter does not touch it.
\<close>

locale durable_store =
  fixes ad :: "('r, 'u, 'w) BackfillAdapter" and st :: "('u, 'w) BackfillCheckpointStore"
    and view :: "'w \<Rightarrow> string \<Rightarrow> 'u BackfillCheckpoint option"
  assumes load_keeps: "st_load st j w = (r, w') \<Longrightarrow> view w' = view w"
    and load_view: "st_load st j w = (Inr found, w') \<Longrightarrow> found = view w j"
    and save_view: "st_save st c w = (Inr u, w') \<Longrightarrow> view w' = (view w)(cp_jobId c \<mapsto> c)"
    and save_keeps: "st_save st c w = (Inl e, w') \<Longrightarrow> view w' = view w"
    and scan_keeps: "ad_scan ad cursor n w = (q, w') \<Longrightarrow> view w' = view w"
    and apply_keeps: "ad_apply ad x change w = (a, w') \<Longrightarrow> view w' = view w"
    and restore_keeps: "ad_restore ad rid undo w = (b, w') \<Longrightarrow> view w' = view w"
begin

text \<open>The trace and the store agree on the checkpoint of the job, and every checkpoint has the job's id.\<close>

definition synced :: "string \<Rightarrow> ('u, 'w) backfill_sys \<Rightarrow> bool" where
  "synced j s \<longleftrightarrow> view (bs_world s) j = last_saved (bs_trace s) \<and> (\<forall>c. last_saved (bs_trace s) = Some c \<longrightarrow> cp_jobId c = j)"

definition sync_inv :: "string \<Rightarrow> ('u, 'w) running \<Rightarrow> bool" where
  "sync_inv j rn \<longleftrightarrow> synced j (rn_sys rn) \<and> cp_jobId (rn_cp rn) = j \<and> cp_jobId (rn_committed rn) = j"

lemma synced_world: "synced j s \<Longrightarrow> view w = view (bs_world s) \<Longrightarrow> synced j (s\<lparr>bs_world := w\<rparr>)"
  by (simp add: synced_def)

lemma synced_active [simp]: "synced j (s\<lparr>bs_active := a\<rparr>) = synced j s"
  by (simp add: synced_def)

lemma synced_log:
  assumes "synced j s" "view w j = save_effect e (view (bs_world s) j)" "\<And>c. e = Ev_save c True \<Longrightarrow> cp_jobId c = j"
  shows "synced j (log_event e w s)"
proof -
  have "cp_jobId c = j" if "save_effect e (last_saved (bs_trace s)) = Some c" for c
    using that assms(1,3) by (auto simp: synced_def save_effect_def split: event.splits bool.splits)
  then show ?thesis using assms(1,2) by (simp add: synced_def log_event_def)
qed

lemma save_synced:
  assumes "synced j s" "cp_jobId c = j" "call_save st c s = (r, s')"
  shows "synced j s'"
proof -
  obtain q w where sv: "st_save st c (bs_world s) = (q, w)" by fastforce
  show ?thesis
  proof (cases q)
    case (Inl e)
    have "s' = log_event (Ev_save c False) w s" using assms(3) sv Inl by (simp add: call_save_def)
    moreover have "view w = view (bs_world s)" using sv Inl save_keeps by blast
    ultimately show ?thesis by (auto intro!: synced_log [OF assms(1)] simp: save_effect_def)
  next
    case (Inr u)
    have "s' = log_event (Ev_save c True) w s" using assms(3) sv Inr by (simp add: call_save_def)
    moreover have "view w j = Some c" using sv Inr save_view assms(2) by simp
    ultimately show ?thesis using assms(1,2) synced_log [of j s w "Ev_save c True"] by (simp add: save_effect_def)
  qed
qed

lemma apply_synced:
  assumes "synced j s" "call_apply ad x change s = (r, s')"
  shows "synced j s'"
proof -
  obtain q w where ap: "ad_apply ad x change (bs_world s) = (q, w)" by fastforce
  then have "view w = view (bs_world s)" by (rule apply_keeps)
  moreover obtain reply where "s' = log_event (Ev_apply (ch_recordId change) reply) w s"
    using assms(2) ap by (auto simp: call_apply_def Let_def)
  ultimately show ?thesis by (auto intro!: synced_log [OF assms(1)] simp: save_effect_def)
qed

lemma restore_synced:
  assumes "synced j s" "call_restore ad entry s = (r, s')"
  shows "synced j s'"
proof -
  obtain q w where re: "ad_restore ad (je_recordId entry) (je_before entry, je_after entry) (bs_world s) = (q, w)" by fastforce
  then have "view w = view (bs_world s)" by (rule restore_keeps)
  moreover obtain ok where "s' = log_event (Ev_restore entry ok) w s"
    using assms(2) re by (cases q) (auto simp: call_restore_def)
  ultimately show ?thesis by (auto intro!: synced_log [OF assms(1)] simp: save_effect_def)
qed

lemma attempts_synced:
  assumes "synced j s" "applyAttempts ad x change n e s = (r, s')"
  shows "synced j s'"
  using assms
proof (induction n arbitrary: e s)
  case (Suc n)
  obtain q s1 where call: "call_apply ad x change s = (q, s1)" by fastforce
  from Suc.IH [OF apply_synced [OF Suc.prems(1) call]] apply_synced [OF Suc.prems(1) call] Suc.prems(2) call
  show ?case by (cases q) auto
qed simp

lemma persist_synced:
  assumes "sync_inv j rn" "persist st n rn = (r, rn')"
  shows "sync_inv j rn'"
  using assms save_synced [of j "rn_sys rn" "(rn_cp rn)\<lparr>cp_scanned := n\<rparr>"]
  by (auto simp: sync_inv_def persist_def Let_def split: prod.splits sum.splits)

lemma apply_one_synced:
  assumes "sync_inv j rn"
  shows "sync_inv j (applyOne ad x change retries diffLimit rn)"
proof -
  obtain reply s where att: "applyAttempts ad x change (nat (retries + 1)) [] (rn_sys rn) = (reply, s)" by fastforce
  from attempts_synced [OF _ att] assms show ?thesis
    by (cases reply) (auto simp: sync_inv_def applyOne_def att Let_def dropJournal_def recordDiff_def recordFailure_def)
qed

end

sublocale durable_store \<subseteq> sync: run_invariant ad st "sync_inv j" for j
proof unfold_locales
  fix rn rn1 :: "('u, 'w) running" and change :: "'u BackfillChange" and n u and x :: 'r and retries diffLimit
  assume "sync_inv j rn" "persist st n (rn\<lparr>rn_cp := journal change (rn_cp rn)\<rparr>) = (Inr u, rn1)"
  moreover from this(1) have "sync_inv j (rn\<lparr>rn_cp := journal change (rn_cp rn)\<rparr>)"
    by (simp add: sync_inv_def journal_def)
  ultimately show "sync_inv j (applyOne ad x change retries diffLimit rn1)"
    using persist_synced apply_one_synced by blast
next
  fix rn rn' :: "('u, 'w) running" and n r assume "sync_inv j rn" "persist st n rn = (r, rn')"
  then show "sync_inv j rn'" by (rule persist_synced)
qed (auto simp: sync_inv_def same_books_def journal_def dest: scan_keeps intro: synced_world)

context durable_store
begin

lemma checkpoint_synced:
  assumes "synced j s" "cp_jobId cp = j" "runCheckpoint fuel ad st options cp s = Some (r, s')"
  shows "synced j s'"
proof -
  have "sync_inv j \<lparr>rn_cp = cp, rn_committed = cp, rn_sys = s\<rparr>" using assms(1,2) by (simp add: sync_inv_def)
  from sync.checkpoint_ends [OF this assms(3)] show ?thesis
  proof cases
    case (2 rn message)
    then show ?thesis
      using save_synced [of j "rn_sys rn" "(rn_committed rn)\<lparr>cp_status := Bf_failed, cp_error := Some message\<rparr>"]
      by (auto simp: sync_inv_def prod_eq_iff)
  qed (simp add: sync_inv_def)
qed

lemma run_locked_synced:
  assumes "synced j s" "run_locked fuel ad st jobOptions j options s = Some (r, s')"
  shows "synced j s'"
proof -
  obtain q w where ld: "st_load st j (bs_world s) = (q, w)" by fastforce
  have sy: "synced j (s\<lparr>bs_world := w\<rparr>)" by (rule synced_world [OF assms(1) load_keeps [OF ld]])
  show ?thesis
  proof (cases q)
    case (Inl e)
    with assms(2) ld sy show ?thesis by (auto simp: run_locked_def)
  next
    case q: (Inr found)
    show ?thesis
    proof (cases found)
      case None
      have "cp_jobId (newCheckpoint j n d) = j" for n d by (simp add: newCheckpoint_def)
      from checkpoint_synced [OF sy this] assms(2) ld q None show ?thesis by (auto simp: run_locked_def Let_def)
    next
      case (Some c)
      then have "cp_jobId (c\<lparr>cp_status := Bf_running, cp_error := None\<rparr>) = j"
        using load_view [OF ld [unfolded q]] assms(1) by (auto simp: synced_def)
      from checkpoint_synced [OF sy this] sy assms(2) ld q Some show ?thesis
        by (auto simp: run_locked_def Let_def split: option.splits if_splits)
    qed
  qed
qed

lemma restoreEntries_synced:
  assumes "synced j s" "cp_jobId cp = j" "restoreEntries ad st cp entries s = (r, s')"
  shows "synced j s'"
  using assms
proof (induction entries arbitrary: s)
  case (Cons entry rest)
  obtain q s1 where rs: "call_restore ad entry s = (q, s1)" by fastforce
  obtain q2 s2 where sv: "call_save st (cp\<lparr>cp_journal := rev rest\<rparr>) s1 = (q2, s2)" by fastforce
  have s1: "synced j s1" by (rule restore_synced [OF Cons.prems(1) rs])
  have s2: "synced j s2" by (rule save_synced [OF s1 _ sv]) (simp add: Cons.prems(2))
  from Cons.IH [OF s2 Cons.prems(2)] s1 s2 Cons.prems(3) rs sv show ?case by (auto split: sum.splits)
qed simp

lemma rollback_locked_synced:
  assumes "synced j s" "rollback_locked ad st j s = (r, s')"
  shows "synced j s'"
proof -
  obtain q w where ld: "st_load st j (bs_world s) = (q, w)" by fastforce
  have sy: "synced j (s\<lparr>bs_world := w\<rparr>)" by (rule synced_world [OF assms(1) load_keeps [OF ld]])
  show ?thesis
  proof (cases "\<exists>cp. q = Inr (Some cp)")
    case False
    with assms(2) ld sy show ?thesis by (auto simp: rollback_locked_def split: sum.splits option.splits)
  next
    case True
    then obtain cp where q: "q = Inr (Some cp)" by blast
    have id: "cp_jobId cp = j" using load_view [OF ld [unfolded q]] assms(1) by (auto simp: synced_def)
    obtain q1 s1 where rs: "restoreEntries ad st cp (rev (cp_journal cp)) (s\<lparr>bs_world := w\<rparr>) = (q1, s1)" by fastforce
    let ?fin = "cp\<lparr>cp_status := Bf_rolled_back, cp_journal := [], cp_applied := 0\<rparr>"
    obtain q2 s2 where sv: "call_save st ?fin s1 = (q2, s2)" by fastforce
    have s1: "synced j s1" by (rule restoreEntries_synced [OF sy id rs])
    have "synced j s2" by (rule save_synced [OF s1 _ sv]) (simp add: id)
    with s1 assms(2) ld q rs sv show ?thesis
      by (auto simp: rollback_locked_def Let_def split: sum.splits)
  qed
qed

definition sound :: "string \<Rightarrow> ('u, 'w) backfill_sys \<Rightarrow> bool" where
  "sound j s \<longleftrightarrow> write_ahead (bs_trace s) \<and> synced j s"

lemma sound_active [simp]: "sound j (s\<lparr>bs_active := a\<rparr>) = sound j s"
  by (simp add: sound_def)

lemma sound_load: "sound j s \<Longrightarrow> st_load st j (bs_world s) = (Inr found, w) \<Longrightarrow> found = last_saved (bs_trace s)"
  using load_view by (auto simp: sound_def synced_def)

lemma step_sound:
  assumes "job_step (\<lambda>w w'. view w' = view w) ad st jobOptions j s s'" "sound j s"
  shows "sound j s'"
  using assms
proof (induction rule: job_step.induct)
  case (step_run fuel actor options s r s')
  have keep: "sound j s1" if "sound j s0" "run_locked fuel ad st jobOptions j options s0 = Some (q, s1)" for s0 s1 q
    using that run_locked_write_ahead [OF _ sound_load [OF that(1)] that(2)] run_locked_synced [OF _ that(2)]
    by (auto simp: sound_def)
  from step_run keep [of "s\<lparr>bs_active := bs_active s @ [j]\<rparr>"] show ?case
    by (auto simp: run_job_def exclusive_def split: sum.splits if_splits)
next
  case (step_rollback actor s r s')
  have keep: "sound j s1" if "sound j s0" "rollback_locked ad st j s0 = (q, s1)" for s0 s1 q
    using that rollback_locked_write_ahead [OF _ sound_load [OF that(1)] that(2)] rollback_locked_synced [OF _ that(2)]
    by (auto simp: sound_def)
  from step_rollback keep [of "s\<lparr>bs_active := bs_active s @ [j]\<rparr>"] show ?case
    by (auto simp: rollback_def exclusive_def split: sum.splits if_splits prod.splits)
next
  case (step_report actor s r s')
  then show ?case
    using load_keeps by (auto simp: report_def sound_def intro: synced_world split: sum.splits prod.splits)
next
  case (step_others s w)
  then show ?case by (auto simp: sound_def intro: synced_world)
qed simp

lemma reach_sound:
  assumes "job_reach (\<lambda>w w'. view w' = view w) ad st jobOptions j s s'" "sound j s"
  shows "sound j s'"
  using assms by (induction rule: job_reach.induct) (auto intro: step_sound)

end

section \<open>Dry runs\<close>

definition only_saves :: "'u event list \<Rightarrow> bool" where
  "only_saves tr \<longleftrightarrow> (\<forall>e \<in> set tr. \<exists>c ok. e = Ev_save c ok)"

definition dry_inv :: "'u event list \<Rightarrow> ('u, 'w) running \<Rightarrow> bool" where
  "dry_inv tr rn \<longleftrightarrow> cp_dryRun (rn_cp rn) \<and> (\<exists>tr1. bs_trace (rn_sys rn) = tr @ tr1 \<and> only_saves tr1)"

lemma only_saves_snoc: "only_saves tr \<Longrightarrow> only_saves (tr @ [Ev_save c ok])"
  by (simp add: only_saves_def)

lemma call_save_trace:
  assumes "call_save st c s = (r, s')"
  shows "bs_trace s' = bs_trace s @ [Ev_save c (\<exists>u. r = Inr u)]"
  using assms by (auto simp: call_save_def split: prod.splits sum.splits)

interpretation dry: run_invariant ad st "dry_inv tr" for ad :: "('r, 'u, 'w) BackfillAdapter" and st tr
proof unfold_locales
  fix rn rn' :: "('u, 'w) running" and n r
  assume dry: "dry_inv tr rn" and ps: "persist st n rn = (r, rn')"
  obtain q s1 where sv: "call_save st ((rn_cp rn)\<lparr>cp_scanned := n\<rparr>) (rn_sys rn) = (q, s1)" by fastforce
  have "bs_trace s1 = bs_trace (rn_sys rn) @ [Ev_save ((rn_cp rn)\<lparr>cp_scanned := n\<rparr>) (\<exists>u. q = Inr u)]"
    by (rule call_save_trace [OF sv])
  moreover have "rn_sys rn' = s1" "rn_cp rn' = rn_cp rn"
    using ps sv by (auto simp: persist_def Let_def split: sum.splits)
  moreover obtain tr1 where "bs_trace (rn_sys rn) = tr @ tr1" "only_saves tr1" "cp_dryRun (rn_cp rn)"
    using dry by (auto simp: dry_inv_def)
  ultimately show "dry_inv tr rn'" using only_saves_snoc by (auto simp: dry_inv_def)
qed (auto simp: dry_inv_def same_books_def)

lemma runCheckpoint_dry:
  assumes "cp_dryRun cp" "runCheckpoint fuel ad st options cp s = Some (r, s')"
  shows "\<exists>tr. bs_trace s' = bs_trace s @ tr \<and> only_saves tr"
proof -
  have "dry_inv (bs_trace s) \<lparr>rn_cp = cp, rn_committed = cp, rn_sys = s\<rparr>"
    using assms(1) by (simp add: dry_inv_def only_saves_def)
  from dry.checkpoint_ends [OF this assms(2)] show ?thesis
  proof cases
    case (2 rn message)
    obtain q s1 where sv: "call_save st ((rn_committed rn)\<lparr>cp_status := Bf_failed, cp_error := Some message\<rparr>) (rn_sys rn) = (q, s1)"
      by fastforce
    obtain tr where "bs_trace (rn_sys rn) = bs_trace s @ tr" "only_saves tr" using 2(1) by (auto simp: dry_inv_def)
    moreover have "s' = s1" using 2(3) sv by simp
    ultimately show ?thesis using call_save_trace [OF sv] only_saves_snoc by auto
  qed (auto simp: dry_inv_def)
qed

text \<open>A checkpoint of the other kind is refused, so a run asked to be dry is one.\<close>

lemma refusal_None:
  "refusal jobId jobName d cp = None \<longleftrightarrow>
     cp_status cp \<noteq> Bf_rolled_back \<and> cp_job cp = jobName \<and> d \<in> {None, Some (cp_dryRun cp)}"
  by (auto simp: refusal_def split: option.splits)

lemma run_locked_dry:
  assumes dry: "ro_dryRun options = Some True" and run: "run_locked fuel ad st jobOptions jobId options s = Some (r, s')"
  shows "\<exists>tr. bs_trace s' = bs_trace s @ tr \<and> only_saves tr"
proof -
  obtain q w where ld: "st_load st jobId (bs_world s) = (q, w)" by fastforce
  show ?thesis
  proof (cases q)
    case (Inl e)
    with run ld show ?thesis by (auto simp: run_locked_def only_saves_def)
  next
    case q: (Inr found)
    show ?thesis
    proof (cases found)
      case None
      have "cp_dryRun (newCheckpoint jobId n True)" for n by (simp add: newCheckpoint_def)
      from runCheckpoint_dry [OF this] run ld q None dry show ?thesis by (fastforce simp: run_locked_def Let_def)
    next
      case (Some c)
      show ?thesis
      proof (cases "\<exists>m. refusal jobId (case jo_jobName jobOptions of None \<Rightarrow> ''backfill'' | Some n \<Rightarrow> n) (ro_dryRun options) c = Some m
          \<or> cp_status c = Bf_completed")
        case True
        with run ld q Some show ?thesis
          by (auto simp: run_locked_def Let_def only_saves_def split: option.splits if_splits)
      next
        case False
        then have free: "refusal jobId (case jo_jobName jobOptions of None \<Rightarrow> ''backfill'' | Some n \<Rightarrow> n) (ro_dryRun options) c = None"
          "cp_status c \<noteq> Bf_completed" by auto
        then have "cp_dryRun (c\<lparr>cp_status := Bf_running, cp_error := None\<rparr>)" using dry by (simp add: refusal_None)
        from runCheckpoint_dry [OF this] run ld q Some free show ?thesis
          by (fastforce simp: run_locked_def Let_def)
      qed
    qed
  qed
qed

section \<open>Termination\<close>

text \<open>
  Paging ends when every page moves the cursor: \<open>rank\<close> decreases from a cursor to the next one, in whatever
  world the page is read.
\<close>

definition paging_ends :: "(string option \<Rightarrow> nat) \<Rightarrow> ('r, 'u, 'w) BackfillAdapter \<Rightarrow> bool" where
  "paging_ends rank ad \<longleftrightarrow>
     (\<forall>c n w records next w'. ad_scan ad c n w = (Inr (records, Some next), w') \<longrightarrow> rank (Some next) < rank c)"

lemma persist_cp: "rn_cp (snd (persist st n rn)) = rn_cp rn"
  by (simp add: persist_def Let_def split: prod.splits sum.splits)

lemma runPage_cursor:
  assumes "runPage ad st batchSize retries diffLimit rn = (Inr u, rn')"
  obtains records w where "ad_scan ad (cp_cursor (rn_cp rn)) batchSize (bs_world (rn_sys rn)) = (Inr (records, cp_cursor (rn_cp rn')), w)"
proof -
  obtain q w where scan: "ad_scan ad (cp_cursor (rn_cp rn)) batchSize (bs_world (rn_sys rn)) = (q, w)" by fastforce
  from assms scan obtain records nextCursor where q: "q = Inr (records, nextCursor)"
    by (cases q) (auto simp: runPage_def)
  obtain q1 rn1 where recs: "runRecords ad st retries diffLimit (cp_scanned (rn_cp rn)) records
      (rn\<lparr>rn_sys := (rn_sys rn)\<lparr>bs_world := w\<rparr>\<rparr>) = (q1, rn1)" by fastforce
  let ?cp = "(rn_cp rn1)\<lparr>cp_cursor := nextCursor\<rparr>"
  let ?cp1 = "if nextCursor = None then ?cp\<lparr>cp_status := Bf_completed\<rparr> else ?cp"
  have "persist st (cp_scanned ?cp1) (rn1\<lparr>rn_cp := ?cp1\<rparr>) = (Inr u, rn')"
    using assms scan q recs by (cases q1) (simp_all add: runPage_def Let_def)
  from persist_cp [of st "cp_scanned ?cp1" "rn1\<lparr>rn_cp := ?cp1\<rparr>", unfolded this]
  have "cp_cursor (rn_cp rn') = nextCursor" by simp
  with that scan q show ?thesis by blast
qed

lemma runPages_ends:
  assumes "paging_ends rank ad" "rank (cp_cursor (rn_cp rn)) < fuel"
  shows "\<exists>r rn'. runPages fuel ad st batchSize retries diffLimit rn = Some (r, rn')"
  using assms(2)
proof (induction fuel arbitrary: rn)
  case (Suc fuel)
  obtain q rn1 where pg: "runPage ad st batchSize retries diffLimit rn = (q, rn1)" by fastforce
  show ?case
  proof (cases q)
    case q: (Inr u)
    show ?thesis
    proof (cases "cp_cursor (rn_cp rn1)")
      case (Some c)
      obtain records w where "ad_scan ad (cp_cursor (rn_cp rn)) batchSize (bs_world (rn_sys rn)) = (Inr (records, Some c), w)"
        using runPage_cursor [OF pg [unfolded q]] Some by metis
      then have "rank (cp_cursor (rn_cp rn1)) < rank (cp_cursor (rn_cp rn))"
        using assms(1) Some unfolding paging_ends_def by metis
      with Suc.prems Suc.IH [of rn1] pg q Some show ?thesis by auto
    qed (use pg q in auto)
  qed (use pg in auto)
qed simp

lemma runCheckpoint_ends:
  assumes "paging_ends rank ad" "rank (cp_cursor cp) < fuel"
  shows "\<exists>r s'. runCheckpoint fuel ad st options cp s = Some (r, s')"
proof -
  have "rank (cp_cursor (rn_cp \<lparr>rn_cp = cp, rn_committed = cp, rn_sys = s\<rparr>)) < fuel" using assms(2) by simp
  from runPages_ends [OF assms(1) this, of st "case ro_batchSize options of None \<Rightarrow> DEFAULT_BATCH_SIZE | Some n \<Rightarrow> n"
      "case ro_maxApplyRetries options of None \<Rightarrow> DEFAULT_MAX_RETRIES | Some n \<Rightarrow> n"
      "case ro_diffLimit options of None \<Rightarrow> DEFAULT_DIFF_LIMIT | Some n \<Rightarrow> n"]
  obtain q rn where "runPages fuel ad st (case ro_batchSize options of None \<Rightarrow> DEFAULT_BATCH_SIZE | Some n \<Rightarrow> n)
      (case ro_maxApplyRetries options of None \<Rightarrow> DEFAULT_MAX_RETRIES | Some n \<Rightarrow> n)
      (case ro_diffLimit options of None \<Rightarrow> DEFAULT_DIFF_LIMIT | Some n \<Rightarrow> n)
      \<lparr>rn_cp = cp, rn_committed = cp, rn_sys = s\<rparr> = Some (q, rn)" by blast
  then show ?thesis by (cases q) (simp_all add: runCheckpoint_def Let_def)
qed

lemma run_locked_ends:
  assumes "paging_ends rank ad" "\<And>c. rank c < fuel"
  shows "\<exists>r s'. run_locked fuel ad st jobOptions jobId options s = Some (r, s')"
proof -
  obtain q w where ld: "st_load st jobId (bs_world s) = (q, w)" by fastforce
  note ends = runCheckpoint_ends [OF assms]
  show ?thesis
    by (cases q) (auto simp: run_locked_def ld Let_def ends split: option.split)
qed

section \<open>What a rollback restores\<close>

definition restored :: "'u event list \<Rightarrow> 'u BackfillJournalEntry list" where
  "restored tr = concat (map (\<lambda>e. case e of Ev_restore entry True \<Rightarrow> [entry] | _ \<Rightarrow> []) tr)"

lemma restored_simps [simp]:
  "restored [] = []" "restored (a @ b) = restored a @ restored b"
  "restored [Ev_save c ok] = []" "restored [Ev_restore entry ok] = (if ok then [entry] else [])"
  by (simp_all add: restored_def)

definition saves_keep :: "'u BackfillJournalEntry list \<Rightarrow> 'u event list \<Rightarrow> bool" where
  "saves_keep rest tr \<longleftrightarrow> (\<forall>c. Ev_save c True \<in> set tr \<longrightarrow> set rest \<subseteq> set (cp_journal c))"

lemma call_restore_trace:
  assumes "call_restore ad entry s = (r, s')"
  shows "bs_trace s' = bs_trace s @ [Ev_restore entry (\<exists>u. r = Inr u)]"
  using assms by (auto simp: call_restore_def split: prod.splits sum.splits)

lemma restoreEntries_progress:
  assumes "restoreEntries ad st cp entries s = (r, s')"
  shows "\<exists>tr undone rest. bs_trace s' = bs_trace s @ tr \<and> entries = undone @ rest \<and> restored tr = undone \<and>
    saves_keep rest tr \<and> (r = Inr () \<longrightarrow> rest = [])"
  using assms
proof (induction entries arbitrary: s)
  case Nil
  then show ?case by (auto simp: saves_keep_def)
next
  case (Cons entry es)
  obtain q s1 where rs: "call_restore ad entry s = (q, s1)" by fastforce
  note tr1 = call_restore_trace [OF rs]
  show ?case
  proof (cases q)
    case (Inl e)
    then have "bs_trace s' = bs_trace s @ [Ev_restore entry False]" "r = Inl e" using Cons.prems rs tr1 by auto
    then show ?thesis by (intro exI [of _ "[Ev_restore entry False]"] exI [of _ "[]"] exI [of _ "entry # es"]) (simp add: saves_keep_def)
  next
    case q: (Inr u)
    obtain q2 s2 where sv: "call_save st (cp\<lparr>cp_journal := rev es\<rparr>) s1 = (q2, s2)" by fastforce
    note tr2 = call_save_trace [OF sv]
    show ?thesis
    proof (cases q2)
      case (Inl e)
      then have "bs_trace s' = bs_trace s @ [Ev_restore entry True, Ev_save (cp\<lparr>cp_journal := rev es\<rparr>) False]" "r = Inl e"
        using Cons.prems rs q sv tr1 tr2 by auto
      then show ?thesis
        by (intro exI [of _ "[Ev_restore entry True, Ev_save (cp\<lparr>cp_journal := rev es\<rparr>) False]"] exI [of _ "[entry]"] exI [of _ es])
          (simp add: saves_keep_def restored_def)
    next
      case (Inr u2)
      with Cons.prems rs q sv have "restoreEntries ad st cp es s2 = (r, s')" by simp
      from Cons.IH [OF this] obtain tr undone rest where ih: "bs_trace s' = bs_trace s2 @ tr" "es = undone @ rest"
        "restored tr = undone" "saves_keep rest tr" "r = Inr () \<longrightarrow> rest = []" by blast
      have "bs_trace s' = bs_trace s @ ([Ev_restore entry True, Ev_save (cp\<lparr>cp_journal := rev es\<rparr>) True] @ tr)"
        using ih(1) tr1 tr2 q Inr by simp
      moreover have "saves_keep rest ([Ev_restore entry True, Ev_save (cp\<lparr>cp_journal := rev es\<rparr>) True] @ tr)"
        using ih(2,4) by (auto simp: saves_keep_def)
      moreover have "restored ([Ev_restore entry True, Ev_save (cp\<lparr>cp_journal := rev es\<rparr>) True] @ tr) = entry # undone"
        using ih(3) by (simp add: restored_def)
      ultimately show ?thesis using ih(2,5) by (metis append_Cons)
    qed
  qed
qed

lemma rollback_locked_progress:
  assumes ld: "st_load st jobId (bs_world s) = (Inr (Some cp), w)" and run: "rollback_locked ad st jobId s = (r, s')"
  shows "\<exists>tr undone rest. bs_trace s' = bs_trace s @ tr \<and> rev (cp_journal cp) = undone @ rest \<and> restored tr = undone \<and>
    saves_keep rest tr \<and> (\<forall>c. r = Inr c \<longrightarrow> rest = [] \<and> cp_status c = Bf_rolled_back \<and> cp_journal c = [] \<and> last_saved (bs_trace s') = Some c)"
proof -
  obtain q1 s1 where rs: "restoreEntries ad st cp (rev (cp_journal cp)) (s\<lparr>bs_world := w\<rparr>) = (q1, s1)" by fastforce
  from restoreEntries_progress [OF rs] obtain tr undone rest where p: "bs_trace s1 = bs_trace s @ tr"
    "rev (cp_journal cp) = undone @ rest" "restored tr = undone" "saves_keep rest tr" "q1 = Inr () \<longrightarrow> rest = []" by auto
  let ?fin = "cp\<lparr>cp_status := Bf_rolled_back, cp_journal := [], cp_applied := 0\<rparr>"
  obtain q2 s2 where sv: "call_save st ?fin s1 = (q2, s2)" by fastforce
  note tr2 = call_save_trace [OF sv]
  show ?thesis
  proof (cases q1)
    case (Inl e)
    with p run ld rs show ?thesis by (auto simp: rollback_locked_def)
  next
    case (Inr u)
    with p(5) have rest: "rest = []" by simp
    have fin: "s' = s2" "r = (case q2 of Inl e \<Rightarrow> Inl (Thrown e) | Inr _ \<Rightarrow> Inr ?fin)"
      using run ld rs Inr sv by (auto simp: rollback_locked_def Let_def split: sum.splits)
    have "bs_trace s' = bs_trace s @ (tr @ [Ev_save ?fin (\<exists>u. q2 = Inr u)])" using p(1) tr2 fin(1) by simp
    moreover have "restored (tr @ [Ev_save ?fin (\<exists>u. q2 = Inr u)]) = undone" using p(3) by simp
    moreover have "saves_keep rest (tr @ [Ev_save ?fin (\<exists>u. q2 = Inr u)])" using rest by (simp add: saves_keep_def)
    moreover have "\<forall>c. r = Inr c \<longrightarrow> rest = [] \<and> cp_status c = Bf_rolled_back \<and> cp_journal c = [] \<and> last_saved (bs_trace s') = Some c"
      using rest fin tr2 by (auto simp: save_effect_def split: sum.splits)
    ultimately show ?thesis using p(2) by blast
  qed
qed

section \<open>Properties\<close>

lemma exclusive_run:
  assumes "exclusive jobId work s = Some (r, s')"
  obtains "s' = s" | s1 where "work (s\<lparr>bs_active := bs_active s @ [jobId]\<rparr>) = Some (r, s1)" "bs_trace s' = bs_trace s1"
  using assms by (auto simp: exclusive_def split: if_splits)

lemma run_job_cases:
  assumes "run_job fuel ad st jobOptions actor jobId options s = Some (r, s')"
  obtains "s' = s"
  | s0 s1 where "bs_trace s0 = bs_trace s" "run_locked fuel ad st jobOptions jobId options s0 = Some (r, s1)" "bs_trace s' = bs_trace s1"
proof (cases "authorize jobOptions actor")
  case (Inl e)
  with assms that(1) show ?thesis by (simp add: run_job_def)
next
  case (Inr u)
  with assms have "exclusive jobId (run_locked fuel ad st jobOptions jobId options) s = Some (r, s')" by (simp add: run_job_def)
  then show ?thesis
  proof (rule exclusive_run)
    fix s1
    assume "run_locked fuel ad st jobOptions jobId options (s\<lparr>bs_active := bs_active s @ [jobId]\<rparr>) = Some (r, s1)"
      "bs_trace s' = bs_trace s1"
    then show ?thesis by (rule that(2) [rotated]) simp
  qed (rule that(1))
qed

lemma run_locked_fresh:
  assumes "bs_trace s = []" "run_locked fuel ad st jobOptions jobId options s = Some (r, s')"
  shows "write_ahead (bs_trace s')"
proof -
  obtain q w where ld: "st_load st jobId (bs_world s) = (q, w)" by fastforce
  have go: "write_ahead (bs_trace s')" if "runCheckpoint fuel ad st options cp (s\<lparr>bs_world := w\<rparr>) = Some (r, s')" for cp
    by (rule runCheckpoint_write_ahead [OF _ _ that]) (simp_all add: assms(1))
  show ?thesis
  proof (cases q)
    case (Inl e)
    with assms ld show ?thesis by (auto simp: run_locked_def)
  next
    case (Inr found)
    with assms ld go show ?thesis
      by (cases found) (auto simp: run_locked_def Let_def split: option.splits if_splits)
  qed
qed

text \<open>A job on one record, with a store that keeps the checkpoint in the world, for the witnesses.\<close>

definition sample_change :: "bool BackfillChange" where
  "sample_change = \<lparr>ch_recordId = ''r1'', ch_field = ''done'', ch_before = False, ch_after = True, ch_reason = None\<rparr>"

definition sample_adapter :: "(string, bool, bool BackfillCheckpoint option) BackfillAdapter" where
  "sample_adapter =
     \<lparr>ad_scan = (\<lambda>c n w. (Inr ([''r1''], None), w)), ad_recordId = (\<lambda>r. r), ad_plan = (\<lambda>r. Inr (Some sample_change)),
      ad_apply = (\<lambda>r c w. (Inr False, w)), ad_restore = (\<lambda>r u w. (Inr (), w))\<rparr>"

definition sample_store :: "(bool, bool BackfillCheckpoint option) BackfillCheckpointStore" where
  "sample_store = \<lparr>st_load = (\<lambda>j w. (Inr w, w)), st_save = (\<lambda>c w. (Inr (), Some c))\<rparr>"

definition sample_actor :: BackfillActor where
  "sample_actor = \<lparr>ba_id = ''op'', ba_roles = [ADMIN]\<rparr>"

definition sample_job :: BackfillJobOptions where
  "sample_job = \<lparr>jo_requiredPermission = None, jo_jobName = None\<rparr>"

definition sample_options :: "bool \<Rightarrow> BackfillRunOptions" where
  "sample_options dry = \<lparr>ro_dryRun = Some dry, ro_batchSize = None, ro_maxApplyRetries = None, ro_diffLimit = None\<rparr>"

definition sample_sys :: "bool BackfillCheckpoint option \<Rightarrow> (bool, bool BackfillCheckpoint option) backfill_sys" where
  "sample_sys cp = \<lparr>bs_world = cp, bs_trace = [], bs_active = []\<rparr>"

lemma paging_ends_sample: "paging_ends (\<lambda>_. 0) sample_adapter"
  by (simp add: paging_ends_def sample_adapter_def)

lemma sample_runs: "\<exists>r s'. run_job 1 sample_adapter sample_store sample_job sample_actor ''j'' options (sample_sys cp) = Some (r, s')"
proof -
  have "\<exists>r s'. run_locked 1 sample_adapter sample_store sample_job ''j'' options s = Some (r, s')" for s
    by (rule run_locked_ends [OF paging_ends_sample]) simp
  then show ?thesis
    by (simp add: run_job_def exclusive_def authorize_def sample_job_def sample_actor_def hasPermission_def sample_sys_def Let_def)
qed



text \<open>
  A dry run writes nothing but checkpoints: whatever the store holds for the job, a run asked to
  be a preview never asks the adapter to write or to restore a record.
\<close>

theorem dry_run_writes_nothing:
  assumes "ro_dryRun options = Some True" "run_job fuel ad st jobOptions actor jobId options s = Some (r, s')"
  shows "\<exists>tr. bs_trace s' = bs_trace s @ tr \<and> only_saves tr"
  using assms(2)
proof (rule run_job_cases)
  fix s0 s1
  assume "bs_trace s0 = bs_trace s" "run_locked fuel ad st jobOptions jobId options s0 = Some (r, s1)" "bs_trace s' = bs_trace s1"
  with run_locked_dry [OF assms(1), of fuel ad st jobOptions jobId s0] show ?thesis by auto
qed (simp add: only_saves_def)

theorem dry_run_writes_nothing_witness:
  "\<exists>r s'. run_job 1 sample_adapter sample_store sample_job sample_actor ''j'' (sample_options True) (sample_sys None) = Some (r, s') \<and>
     only_saves (bs_trace s')"
proof -
  obtain r s' where run: "run_job 1 sample_adapter sample_store sample_job sample_actor ''j'' (sample_options True) (sample_sys None) = Some (r, s')"
    using sample_runs by blast
  have "ro_dryRun (sample_options True) = Some True" by (simp add: sample_options_def)
  from dry_run_writes_nothing [OF this run] run show ?thesis by (auto simp: sample_sys_def)
qed



text \<open>
  C31.  A rollback undoes the journal newest first and can be resumed.  However it ends, the entries
  restored are a final part of the journal, in reverse order and once each, and every checkpoint it saves still
  journals all the others; when it returns, all are restored and the saved checkpoint is rolled back, with an
  empty journal.
\<close>

theorem rollback_restores_journal:
  assumes "st_load st jobId (bs_world s) = (Inr (Some cp), w)" "authorize jobOptions actor = Inr ()" "jobId \<notin> set (bs_active s)"
    "rollback ad st jobOptions actor jobId s = Some (r, s')"
  shows "\<exists>tr undone rest. bs_trace s' = bs_trace s @ tr \<and> rev (cp_journal cp) = undone @ rest \<and> restored tr = undone \<and>
    saves_keep rest tr \<and>
    (\<forall>c. r = Inr c \<longrightarrow> rest = [] \<and> cp_status c = Bf_rolled_back \<and> cp_journal c = [] \<and> last_saved (bs_trace s') = Some c)"
proof -
  obtain s1 where "rollback_locked ad st jobId (s\<lparr>bs_active := bs_active s @ [jobId]\<rparr>) = (r, s1)" "bs_trace s' = bs_trace s1"
    using assms(2-4) by (auto simp: rollback_def exclusive_def split: prod.splits)
  then show ?thesis
    using rollback_locked_progress [of st jobId "s\<lparr>bs_active := bs_active s @ [jobId]\<rparr>" cp w ad r s1] assms(1) by simp
qed

theorem rollback_restores_journal_witness:
  "\<exists>r s'. rollback sample_adapter sample_store sample_job sample_actor ''j''
       (sample_sys (Some ((newCheckpoint ''j'' ''backfill'' False)
         \<lparr>cp_journal := [\<lparr>je_recordId = ''a'', je_before = False, je_after = True\<rparr>, \<lparr>je_recordId = ''b'', je_before = False, je_after = True\<rparr>]\<rparr>)))
     = Some (Inr r, s') \<and> map je_recordId (restored (bs_trace s')) = [''b'', ''a'']"
proof -
  let ?cp = "(newCheckpoint ''j'' ''backfill'' False)
    \<lparr>cp_journal := [\<lparr>je_recordId = ''a'', je_before = False, je_after = True\<rparr>, \<lparr>je_recordId = ''b'', je_before = False, je_after = True\<rparr>]\<rparr>"
  have auth: "authorize sample_job sample_actor = Inr ()"
    by (simp add: authorize_def sample_job_def sample_actor_def hasPermission_def Let_def)
  have ld: "st_load sample_store ''j'' (bs_world (sample_sys (Some ?cp))) = (Inr (Some ?cp), Some ?cp)"
    by (simp add: sample_store_def sample_sys_def)
  obtain r s' where run: "rollback sample_adapter sample_store sample_job sample_actor ''j'' (sample_sys (Some ?cp)) = Some (Inr r, s')"
    by (simp add: rollback_def auth exclusive_def sample_sys_def rollback_locked_def sample_store_def newCheckpoint_def
        sample_adapter_def call_restore_def call_save_def log_event_def Let_def)
  have "''j'' \<notin> set (bs_active (sample_sys (Some ?cp)))" by (simp add: sample_sys_def)
  from rollback_restores_journal [OF ld auth this run] run show ?thesis
    by (auto simp: sample_sys_def)
qed

text \<open>
  A lost reply loses the rollback data.  When the first attempt to write a record throws after
  its write took effect and the second one is answered by a conflict, as a guarded write is once its row has
  changed, the record is counted as a conflict and dropped from the journal, although it was written.
\<close>

theorem lost_reply_loses_undo:
  assumes "ad_apply ad x change (bs_world (rn_sys rn)) = (Inl e, written_world)"
    and "ad_apply ad x change written_world = (Inr True, written_world)" and "1 \<le> retries"
  shows "let rn' = applyOne ad x change retries diffLimit rn in
    bs_world (rn_sys rn') = written_world \<and> ch_recordId change \<notin> journaled (rn_cp rn') \<and>
    cp_conflicts (rn_cp rn') = cp_conflicts (rn_cp rn) + 1 \<and> cp_failures (rn_cp rn') = cp_failures (rn_cp rn)"
proof -
  have n: "nat (retries + 1) = Suc (Suc (nat (retries - 1)))" using assms(3) by linarith
  have "applyAttempts ad x change (nat (retries + 1)) [] (rn_sys rn) =
      (Reply_conflict, log_event (Ev_apply (ch_recordId change) Reply_conflict) written_world
        (log_event (Ev_apply (ch_recordId change) (Reply_threw e)) written_world (rn_sys rn)))"
    by (simp add: n call_apply_def assms(1,2) log_event_def Let_def)
  then show ?thesis by (simp add: applyOne_def Let_def) (simp add: log_event_def dropJournal_def)
qed

text \<open>A guarded write on a row that loses its first reply; the world says whether the row was written.\<close>

definition lossy_adapter :: "(string, bool, bool) BackfillAdapter" where
  "lossy_adapter =
     \<lparr>ad_scan = (\<lambda>c n w. (Inr ([''r1''], None), w)), ad_recordId = (\<lambda>r. r), ad_plan = (\<lambda>r. Inr (Some sample_change)),
      ad_apply = (\<lambda>r c w. if w then (Inr True, w) else (Inl ''connection lost'', True)), ad_restore = (\<lambda>r u w. (Inr (), False))\<rparr>"

theorem lost_reply_loses_undo_witness:
  "let rn' = applyOne lossy_adapter ''r1'' sample_change 2 500
       \<lparr>rn_cp = journal sample_change (newCheckpoint ''j'' ''backfill'' False), rn_committed = newCheckpoint ''j'' ''backfill'' False,
        rn_sys = \<lparr>bs_world = False, bs_trace = [], bs_active = []\<rparr>\<rparr>
   in bs_world (rn_sys rn') \<and> ''r1'' \<notin> journaled (rn_cp rn')"
proof -
  let ?rn = "\<lparr>rn_cp = journal sample_change (newCheckpoint ''j'' ''backfill'' False), rn_committed = newCheckpoint ''j'' ''backfill'' False,
        rn_sys = \<lparr>bs_world = False, bs_trace = [], bs_active = []\<rparr>\<rparr>"
  have "ad_apply lossy_adapter ''r1'' sample_change (bs_world (rn_sys ?rn)) = (Inl ''connection lost'', True)"
    "ad_apply lossy_adapter ''r1'' sample_change True = (Inr True, True)"
    by (simp_all add: lossy_adapter_def)
  from lost_reply_loses_undo [OF this, of 2 500] show ?thesis by (simp add: Let_def sample_change_def)
qed

end
