(* ===== verification/Backfill_Store.thy ===== *)
theory Backfill_Store
  imports Backfill_Job
begin

text \<open>
  The checkpoint store and the first job of the backfill tool:
  \<open>src/common/backfill/file-checkpoint-store.ts\<close> and the adapter of
  \<open>src/notifications/backfill/notification-channels.backfill.ts\<close>.  The files are a map from paths to texts,
  and a text is given by what \<open>JSON.parse\<close> makes of it.  Each call to the file system takes the next entry of a
  list of faults, so that any of them may fail.  The repository of the adapter is an interface of the code and
  an argument.
\<close>

section \<open>Files\<close>

datatype 'u file_text = Json_checkpoint "'u BackfillCheckpoint" | Json_other | Not_json

text \<open>The \<open>tag\<close> is the process id and the clock, which make up the name of a temporary file; \<open>db\<close> is the rest.\<close>

record ('u, 'd) fs_world =
  fw_files :: "string \<Rightarrow> 'u file_text option"
  fw_faults :: "string option list"
  fw_tag :: string
  fw_db :: 'd

definition next_fault :: "('u, 'd) fs_world \<Rightarrow> string option \<times> ('u, 'd) fs_world" where
  "next_fault w = (case fw_faults w of [] \<Rightarrow> (None, w) | f # fs \<Rightarrow> (f, w\<lparr>fw_faults := fs\<rparr>))"

section \<open>FileCheckpointStore\<close>

definition is_letter :: "char \<Rightarrow> bool" where
  "is_letter c \<longleftrightarrow> (let n = of_char c :: nat in (65 \<le> n \<and> n \<le> 90) \<or> (97 \<le> n \<and> n \<le> 122))"

definition is_number :: "char \<Rightarrow> bool" where
  "is_number c \<longleftrightarrow> (let n = of_char c :: nat in 48 \<le> n \<and> n \<le> 57)"

text \<open>The pattern \<open>^[A-Za-z0-9][A-Za-z0-9._-]{0,63}$\<close>.\<close>

definition JOB_ID_PATTERN :: "string \<Rightarrow> bool" where
  "JOB_ID_PATTERN s =
     (case s of
        [] \<Rightarrow> False
      | c # cs \<Rightarrow> (is_letter c \<or> is_number c) \<and> length cs \<le> 63 \<and>
          list_all (\<lambda>d. is_letter d \<or> is_number d \<or> d \<in> set ''._-'') cs)"

text \<open>\<open>path.join(dir, name)\<close> for a directory in normal form and a name without separators.\<close>

definition path_join :: "string \<Rightarrow> string \<Rightarrow> string" where
  "path_join dir name = dir @ ''/'' @ name"

definition fileFor :: "string \<Rightarrow> string \<Rightarrow> (string, string) result" where
  "fileFor dir jobId =
     (if \<not> JOB_ID_PATTERN jobId
      then Inl (''Invalid backfill job id '' @ [CHR 0x27] @ jobId @ [CHR 0x27] @
        ''; use 1-64 characters from [A-Za-z0-9._-] starting with a letter or digit'')
      else Inr (path_join dir (jobId @ ''.json'')))"

definition recovery_hint :: string where
  "recovery_hint = ''; restore it from a backup or delete it to start over with --restart --force''"

definition file_load ::
  "string \<Rightarrow> string \<Rightarrow> ('u, 'd) fs_world \<Rightarrow> (string, 'u BackfillCheckpoint option) result \<times> ('u, 'd) fs_world" where
  "file_load dir jobId w =
     (case fileFor dir jobId of
        Inl e \<Rightarrow> (Inl e, w)
      | Inr file \<Rightarrow>
          (case next_fault w of
             (Some e, w1) \<Rightarrow> (Inl e, w1)
           | (None, w1) \<Rightarrow>
               (case fw_files w1 file of
                  None \<Rightarrow> (Inr None, w1)
                | Some Not_json \<Rightarrow> (Inl (''Backfill checkpoint '' @ file @ '' is not valid JSON'' @ recovery_hint), w1)
                | Some Json_other \<Rightarrow> (Inl (''Backfill checkpoint '' @ file @ '' is corrupt (jobId mismatch)'' @ recovery_hint), w1)
                | Some (Json_checkpoint cp) \<Rightarrow>
                    if cp_jobId cp \<noteq> jobId
                    then (Inl (''Backfill checkpoint '' @ file @ '' is corrupt (jobId mismatch)'' @ recovery_hint), w1)
                    else (Inr (Some cp), w1))))"

text \<open>
  \<open>rmSync\<close> of the temporary file, then the error is thrown again; if the removal itself fails, its error is thrown.
\<close>

definition drop_tmp :: "string \<Rightarrow> string \<Rightarrow> ('u, 'd) fs_world \<Rightarrow> (string, unit) result \<times> ('u, 'd) fs_world" where
  "drop_tmp tmp error w =
     (case next_fault w of
        (Some e, w1) \<Rightarrow> (Inl e, w1)
      | (None, w1) \<Rightarrow> (Inl error, w1\<lparr>fw_files := (fw_files w1)(tmp := None)\<rparr>))"

definition tmp_path :: "string \<Rightarrow> string \<Rightarrow> string" where
  "tmp_path file tag = file @ ''.'' @ tag @ ''.tmp''"

text \<open>A write that fails may leave a part of the text in the temporary file.\<close>

definition file_save ::
  "string \<Rightarrow> 'u BackfillCheckpoint \<Rightarrow> ('u, 'd) fs_world \<Rightarrow> (string, unit) result \<times> ('u, 'd) fs_world" where
  "file_save dir checkpoint w =
     (case fileFor dir (cp_jobId checkpoint) of
        Inl e \<Rightarrow> (Inl e, w)
      | Inr file \<Rightarrow>
          (case next_fault w of
             (Some e, w1) \<Rightarrow> (Inl e, w1)
           | (None, w1) \<Rightarrow>
               let tmp = tmp_path file (fw_tag w1) in
               (case next_fault w1 of
                  (Some e, w2) \<Rightarrow> drop_tmp tmp e (w2\<lparr>fw_files := (fw_files w2)(tmp := Some Not_json)\<rparr>)
                | (None, w2) \<Rightarrow>
                    let w3 = w2\<lparr>fw_files := (fw_files w2)(tmp := Some (Json_checkpoint checkpoint))\<rparr> in
                    (case next_fault w3 of
                       (Some e, w4) \<Rightarrow> drop_tmp tmp e w4
                     | (None, w4) \<Rightarrow>
                         (Inr (), w4\<lparr>fw_files := (fw_files w4)(tmp := None, file := Some (Json_checkpoint checkpoint))\<rparr>)))))"

definition file_delete :: "string \<Rightarrow> string \<Rightarrow> ('u, 'd) fs_world \<Rightarrow> (string, unit) result \<times> ('u, 'd) fs_world" where
  "file_delete dir jobId w =
     (case fileFor dir jobId of
        Inl e \<Rightarrow> (Inl e, w)
      | Inr file \<Rightarrow>
          (case next_fault w of
             (Some e, w1) \<Rightarrow> (Inl e, w1)
           | (None, w1) \<Rightarrow> (Inr (), w1\<lparr>fw_files := (fw_files w1)(file := None)\<rparr>)))"

definition FileCheckpointStore :: "string \<Rightarrow> ('u, ('u, 'd) fs_world) BackfillCheckpointStore" where
  "FileCheckpointStore dir = \<lparr>st_load = file_load dir, st_save = file_save dir\<rparr>"

section \<open>The notification-channels adapter\<close>

record NotificationChannelRow =
  nc_id :: string
  nc_channels :: "string list option"
  nc_primaryChannel :: string

record 'd NotificationChannelsRepository =
  nr_page :: "string option \<Rightarrow> int \<Rightarrow> 'd \<Rightarrow> (string, NotificationChannelRow list) result \<times> 'd"
  nr_setChannels :: "string \<Rightarrow> string list option \<Rightarrow> 'd \<Rightarrow> (string, bool) result \<times> 'd"
  nr_restoreChannels :: "string \<Rightarrow> string list option \<Rightarrow> 'd \<Rightarrow> (string, bool) result \<times> 'd"

type_synonym channels = "string list option"

definition NOTIFICATION_CHANNELS_JOB :: string where
  "NOTIFICATION_CHANNELS_JOB = ''notification-channels''"

text \<open>A call to the repository works on its part of the world.\<close>

definition on_db :: "('d \<Rightarrow> 'a \<times> 'd) \<Rightarrow> ('u, 'd) fs_world \<Rightarrow> 'a \<times> ('u, 'd) fs_world" where
  "on_db f w = (case f (fw_db w) of (a, d) \<Rightarrow> (a, w\<lparr>fw_db := d\<rparr>))"

definition channels_scan ::
  "'d NotificationChannelsRepository \<Rightarrow> string option \<Rightarrow> int \<Rightarrow> 'd \<Rightarrow>
   (string, NotificationChannelRow list \<times> string option) result \<times> 'd" where
  "channels_scan repo cursor limit d =
     (case nr_page repo cursor limit d of
        (Inl e, d1) \<Rightarrow> (Inl e, d1)
      | (Inr records, d1) \<Rightarrow>
          if int (length records) < limit then (Inr (records, None), d1)
          else if records = [] then (Inl (''Cannot read properties of undefined (reading '' @ [CHR 0x27] @ ''id'' @ [CHR 0x27] @ '')''), d1)
          else (Inr (records, Some (nc_id (last records))), d1))"

definition channels_plan :: "NotificationChannelRow \<Rightarrow> (string, channels BackfillChange option) result" where
  "channels_plan record =
     (if nc_channels record \<noteq> None then Inr None
      else if nc_primaryChannel record = []
      then Inl (''notification '' @ nc_id record @ '' has no primaryChannel to derive channels from'')
      else Inr (Some \<lparr>ch_recordId = nc_id record, ch_field = ''channels'', ch_before = None,
        ch_after = Some [nc_primaryChannel record], ch_reason = Some ''legacy row predates the channels column''\<rparr>))"

definition channels_apply ::
  "'d NotificationChannelsRepository \<Rightarrow> NotificationChannelRow \<Rightarrow> channels BackfillChange \<Rightarrow> 'd \<Rightarrow> (string, bool) result \<times> 'd" where
  "channels_apply repo record change d =
     (case nr_setChannels repo (nc_id record) (ch_after change) d of
        (Inl e, d1) \<Rightarrow> (Inl e, d1)
      | (Inr updated, d1) \<Rightarrow> (Inr (\<not> updated), d1))"

definition channels_restore ::
  "'d NotificationChannelsRepository \<Rightarrow> string \<Rightarrow> channels \<times> channels \<Rightarrow> 'd \<Rightarrow> (string, unit) result \<times> 'd" where
  "channels_restore repo recordId undo d =
     (case nr_restoreChannels repo recordId (snd undo) d of
        (Inl e, d1) \<Rightarrow> (Inl e, d1)
      | (Inr _, d1) \<Rightarrow> (Inr (), d1))"

definition NotificationChannelsBackfillAdapter ::
  "'d NotificationChannelsRepository \<Rightarrow> (NotificationChannelRow, channels, (channels, 'd) fs_world) BackfillAdapter" where
  "NotificationChannelsBackfillAdapter repo =
     \<lparr>ad_scan = (\<lambda>cursor limit. on_db (channels_scan repo cursor limit)), ad_recordId = nc_id, ad_plan = channels_plan,
      ad_apply = (\<lambda>record change. on_db (channels_apply repo record change)),
      ad_restore = (\<lambda>recordId undo. on_db (channels_restore repo recordId undo))\<rparr>"

section \<open>The store is durable\<close>

definition checkpoint_view :: "string \<Rightarrow> ('u, 'd) fs_world \<Rightarrow> string \<Rightarrow> 'u BackfillCheckpoint option" where
  "checkpoint_view dir w j =
     (if \<not> JOB_ID_PATTERN j then None
      else case fw_files w (path_join dir (j @ ''.json'')) of
          Some (Json_checkpoint cp) \<Rightarrow> if cp_jobId cp = j then Some cp else None
        | _ \<Rightarrow> None)"

lemma next_fault_files [simp]:
  assumes "next_fault w = (f, w')"
  shows "fw_files w' = fw_files w" "fw_db w' = fw_db w" "fw_tag w' = fw_tag w"
  using assms by (auto simp: next_fault_def split: list.splits)

lemma path_json_inj: "path_join dir (j @ ''.json'') = path_join dir (k @ ''.json'') \<longleftrightarrow> j = k"
  by (simp add: path_join_def)

lemma path_tmp: "path_join dir (j @ ''.json'') \<noteq> tmp_path file tag"
proof
  assume "path_join dir (j @ ''.json'') = tmp_path file tag"
  then have "last (path_join dir (j @ ''.json'')) = last (tmp_path file tag)" by simp
  then show False by (simp add: path_join_def tmp_path_def)
qed

lemma view_cong: "fw_files w' = fw_files w \<Longrightarrow> checkpoint_view dir w' = checkpoint_view dir w"
  by (simp add: checkpoint_view_def fun_eq_iff)

text \<open>Only the files of jobs matter to the view; temporary files have other names.\<close>

lemma view_files:
  assumes "\<And>j. fw_files w' (path_join dir (j @ ''.json'')) = fw_files w (path_join dir (j @ ''.json''))"
  shows "checkpoint_view dir w' = checkpoint_view dir w"
  using assms by (simp add: checkpoint_view_def fun_eq_iff)

lemma load_spec:
  assumes "file_load dir j w = (r, w')"
  shows "checkpoint_view dir w' = checkpoint_view dir w" "r = Inr found \<Longrightarrow> found = checkpoint_view dir w j"
  using assms
  by (auto simp: file_load_def fileFor_def checkpoint_view_def fun_eq_iff split: if_splits prod.splits option.splits file_text.splits)

lemma drop_tmp_files:
  assumes "drop_tmp (tmp_path file tag) e w = (r, w')"
  shows "\<exists>e'. r = Inl e'" "fw_files w' (path_join dir (j @ ''.json'')) = fw_files w (path_join dir (j @ ''.json''))"
  using assms by (auto simp: drop_tmp_def path_tmp split: prod.splits option.splits)

lemma save_failed_files:
  assumes "file_save dir cp w = (Inl e, w')"
  shows "fw_files w' (path_join d (j @ ''.json'')) = fw_files w (path_join d (j @ ''.json''))"
  using assms drop_tmp_files(2) [of _ _ _ _ "Inl e" w' d j]
  by (auto simp: file_save_def Let_def path_tmp split: sum.splits prod.splits option.splits)

lemma save_ok_files:
  assumes "file_save dir cp w = (Inr u, w')"
  shows "JOB_ID_PATTERN (cp_jobId cp) \<and>
    fw_files w' (path_join dir (j @ ''.json'')) =
      (if j = cp_jobId cp then Some (Json_checkpoint cp) else fw_files w (path_join dir (j @ ''.json'')))"
  using assms drop_tmp_files(1) [of _ _ _ _ "Inr u" w']
  by (auto simp: file_save_def fileFor_def Let_def path_tmp path_json_inj split: sum.splits prod.splits option.splits if_splits)

interpretation file_store: durable_store "NotificationChannelsBackfillAdapter repo" "FileCheckpointStore dir" "checkpoint_view dir"
  for repo dir
proof unfold_locales
  fix c :: "channels BackfillCheckpoint" and w w' :: "(channels, 'a) fs_world" and u
  assume "st_save (FileCheckpointStore dir) c w = (Inr u, w')"
  then have "file_save dir c w = (Inr u, w')" by (simp add: FileCheckpointStore_def)
  from save_ok_files [OF this] show "checkpoint_view dir w' = (checkpoint_view dir w)(cp_jobId c \<mapsto> c)"
    by (auto simp: checkpoint_view_def fun_eq_iff)
next
  fix c :: "channels BackfillCheckpoint" and w w' :: "(channels, 'a) fs_world" and e
  assume "st_save (FileCheckpointStore dir) c w = (Inl e, w')"
  then have "file_save dir c w = (Inl e, w')" by (simp add: FileCheckpointStore_def)
  from save_failed_files [OF this] show "checkpoint_view dir w' = checkpoint_view dir w" by (rule view_files)
qed (auto simp: FileCheckpointStore_def NotificationChannelsBackfillAdapter_def on_db_def load_spec
    intro!: view_cong split: prod.splits)

text \<open>A checkpoint path stays in the directory: its name has no separator and does not start with a dot.\<close>

lemma fileFor_inside:
  assumes "fileFor dir jobId = Inr file"
  shows "\<exists>name. file = dir @ ''/'' @ name \<and> CHR ''/'' \<notin> set name \<and> hd name \<noteq> CHR ''.''"
proof -
  from assms obtain c cs where j: "jobId = c # cs" "is_letter c \<or> is_number c"
    "list_all (\<lambda>d. is_letter d \<or> is_number d \<or> d \<in> set ''._-'') cs" and name: "file = dir @ ''/'' @ (jobId @ ''.json'')"
    by (auto simp: fileFor_def JOB_ID_PATTERN_def path_join_def split: if_splits list.splits)
  have "CHR ''/'' \<notin> set cs" using j(3) by (auto simp: list_all_iff is_letter_def is_number_def)
  with j name show ?thesis
    by (intro exI [of _ "jobId @ ''.json''"]) (auto simp: is_letter_def is_number_def)
qed

section \<open>Properties\<close>

definition empty_world :: "'d \<Rightarrow> ('u, 'd) fs_world" where
  "empty_world d = \<lparr>fw_files = (\<lambda>_. None), fw_faults = [], fw_tag = [], fw_db = d\<rparr>"

definition no_rows :: "unit NotificationChannelsRepository" where
  "no_rows = \<lparr>nr_page = (\<lambda>c n d. (Inr [], d)), nr_setChannels = (\<lambda>i c d. (Inr False, d)), nr_restoreChannels = (\<lambda>i c d. (Inr False, d))\<rparr>"



end
