(* ===== verification/Domain_Events.thy ===== *)
theory Domain_Events
  imports Canonical_Json
begin

text \<open>
  Versioned domain events, \<open>src/common/events/domain-event-schema.ts\<close>: the event envelope, the schema
  registry with its default schemas and producer-side validation, the producer, the versioned consumer
  with its fallback handlers, and the tamper-evident ledger (append, verify, export).

  A payload is a JavaScript value.  SHA-256 is an argument of the ledger operations.  The transport of
  the producer and the handlers of the consumer are arguments too: functions on a world that may throw.
  Property reads see the own properties of a value (and the length and the elements of arrays and
  strings), not those of a prototype.
\<close>

section \<open>Errors\<close>

datatype event_error =
    DomainEventValidationError string string "string list"
  | UnknownEventVersionError string string
  | UpcastError string string string string
  | TypeError string
  | OtherError string

definition errors_shown :: "string list \<Rightarrow> string" where
  "errors_shown fields = join '', '' fields"

fun error_message :: "event_error \<Rightarrow> string" where
  "error_message (DomainEventValidationError eventName schemaVersion fields) =
     ''Domain event validation failed for '' @ [CHR 0x27] @ eventName @ [CHR 0x27] @ '' (v'' @ schemaVersion @ ''): ''
     @ ''Invalid or missing fields: '' @ errors_shown fields"
| "error_message (UnknownEventVersionError eventName schemaVersion) =
     ''Unknown or unsupported schema version '' @ [CHR 0x27] @ schemaVersion @ [CHR 0x27] @ '' for event ''
     @ [CHR 0x27] @ eventName @ [CHR 0x27, CHR ''.'']"
| "error_message (UpcastError eventName fromVersion targetVersion message) = message"
| "error_message (TypeError message) = message"
| "error_message (OtherError message) = message"

section \<open>The envelope\<close>

record DomainEventEnvelope =
  ev_eventId :: string
  ev_eventName :: string
  ev_schemaVersion :: string
  ev_timestamp :: string
  ev_producer :: string
  ev_payload :: js_value
  ev_previousHash :: "string option"
  ev_hash :: "string option"

section \<open>Reading JavaScript values\<close>

text \<open>\<open>typeof\<close>, truthiness, and reading an own property.\<close>

fun js_typeof :: "js_value \<Rightarrow> string" where
  "js_typeof JUndefined = ''undefined''"
| "js_typeof (JStr s) = ''string''"
| "js_typeof (JNum n) = ''number''"
| "js_typeof (JBool b) = ''boolean''"
| "js_typeof (JBigint i) = ''bigint''"
| "js_typeof (JOther ty) = (if ty = ''symbol'' then ''symbol'' else ''function'')"
| "js_typeof _ = ''object''"

fun js_truthy :: "js_value \<Rightarrow> bool" where
  "js_truthy JNull = False"
| "js_truthy JUndefined = False"
| "js_truthy (JStr s) = (s \<noteq> [])"
| "js_truthy (JNum n) = (n \<noteq> JInt 0 \<and> n \<noteq> JNegZero \<and> n \<noteq> JNaN)"
| "js_truthy (JBool b) = b"
| "js_truthy (JBigint i) = (i \<noteq> 0)"
| "js_truthy _ = True"

definition is_nullish :: "js_value \<Rightarrow> bool" where
  "is_nullish v \<longleftrightarrow> v = JUndefined \<or> v = JNull"

definition indexed :: "js_value option list \<Rightarrow> (string \<times> js_value) list" where
  "indexed xs = [(show_nat (fst p), the (snd p)). p \<leftarrow> enumerate 0 xs, snd p \<noteq> None]"

text \<open>The own enumerable properties, as object spread copies them.\<close>

fun js_entries :: "js_value \<Rightarrow> (string \<times> js_value) list" where
  "js_entries (JObj pl entries) = entries"
| "js_entries (JArr xs) = indexed xs"
| "js_entries (JStr s) = indexed (map (\<lambda>c. Some (JStr [c])) s)"
| "js_entries _ = []"

definition js_prop :: "js_value \<Rightarrow> string \<Rightarrow> js_value" where
  "js_prop v k =
     (case map_of (js_entries v) k of
        Some x \<Rightarrow> x
      | None \<Rightarrow>
          (case v of
             JArr xs \<Rightarrow> if k = ''length'' then JNum (JInt (int (length xs))) else JUndefined
           | JStr s \<Rightarrow> if k = ''length'' then JNum (JInt (int (length s))) else JUndefined
           | _ \<Rightarrow> JUndefined))"

section \<open>Schemas\<close>

datatype FieldType = Ft_string | Ft_number | Ft_boolean | Ft_object | Ft_array

fun show_type :: "FieldType \<Rightarrow> string" where
  "show_type Ft_string = ''string''"
| "show_type Ft_number = ''number''"
| "show_type Ft_boolean = ''boolean''"
| "show_type Ft_object = ''object''"
| "show_type Ft_array = ''array''"

record FieldDefinition =
  fd_name :: string
  fd_type :: FieldType
  fd_required :: bool

record DomainEventSchema =
  ds_eventName :: string
  ds_version :: string
  ds_fields :: "FieldDefinition list"

type_synonym DomainEventRegistry = "(string, (string, DomainEventSchema) jsmap) jsmap"

definition registerSchema :: "DomainEventSchema \<Rightarrow> DomainEventRegistry \<Rightarrow> DomainEventRegistry" where
  "registerSchema schema reg =
     (let versions = (case map_get reg (ds_eventName schema) of None \<Rightarrow> [] | Some m \<Rightarrow> m)
      in map_set (ds_eventName schema) (map_set (ds_version schema) schema versions) reg)"

definition getSchema :: "DomainEventRegistry \<Rightarrow> string \<Rightarrow> string \<Rightarrow> DomainEventSchema option" where
  "getSchema reg eventName version =
     (case map_get reg eventName of None \<Rightarrow> None | Some m \<Rightarrow> map_get m version)"

text \<open>The complaint about one field of the payload, if there is one.\<close>

definition field_complaint :: "js_value \<Rightarrow> FieldDefinition \<Rightarrow> string list" where
  "field_complaint payload fd =
     (let val = js_prop payload (fd_name fd) in
      if fd_required fd \<and> (val = JUndefined \<or> val = JNull \<or> val = JStr []) then [fd_name fd]
      else if val \<noteq> JUndefined \<and> val \<noteq> JNull then
        if fd_type fd = Ft_array \<and> \<not> (case val of JArr _ \<Rightarrow> True | _ \<Rightarrow> False)
        then [fd_name fd @ '' (expected array)'']
        else if fd_type fd \<noteq> Ft_array \<and> js_typeof val \<noteq> show_type (fd_type fd)
        then [fd_name fd @ '' (expected '' @ show_type (fd_type fd) @ '')'']
        else []
      else [])"

definition or_else :: "string \<Rightarrow> string \<Rightarrow> string" where
  "or_else s d = (if s = [] then d else s)"

definition validateProducerEvent ::
  "DomainEventRegistry \<Rightarrow> 'a DomainEventEnvelope_scheme \<Rightarrow> (event_error, unit) result" where
  "validateProducerEvent reg event =
     (if ev_eventName event = [] \<or> ev_schemaVersion event = [] \<or> \<not> js_truthy (ev_payload event)
      then Inl (DomainEventValidationError (or_else (ev_eventName event) ''UNKNOWN '')
             (or_else (ev_schemaVersion event) ''UNKNOWN'') [''envelope_structure''])
      else case getSchema reg (ev_eventName event) (ev_schemaVersion event) of
        None \<Rightarrow> Inl (UnknownEventVersionError (ev_eventName event) (ev_schemaVersion event))
      | Some schema \<Rightarrow>
          let missingOrInvalid = concat (map (field_complaint (ev_payload event)) (ds_fields schema)) in
          if missingOrInvalid \<noteq> []
          then Inl (DomainEventValidationError (ev_eventName event) (ev_schemaVersion event) missingOrInvalid)
          else Inr ())"

definition required_field :: "string \<Rightarrow> FieldType \<Rightarrow> FieldDefinition" where
  "required_field nm ty = \<lparr>fd_name = nm, fd_type = ty, fd_required = True\<rparr>"

definition default_schemas :: "DomainEventSchema list" where
  "default_schemas =
    [\<lparr>ds_eventName = ''user.created'', ds_version = ''1.0'', ds_fields =
       [required_field ''userId'' Ft_string, required_field ''email'' Ft_string, required_field ''role'' Ft_string]\<rparr>,
     \<lparr>ds_eventName = ''user.created'', ds_version = ''2.0'', ds_fields =
       [required_field ''userId'' Ft_string, required_field ''email'' Ft_string, required_field ''role'' Ft_string,
        required_field ''kycTier'' Ft_string]\<rparr>,
     \<lparr>ds_eventName = ''payment.completed'', ds_version = ''1.0'', ds_fields =
       [required_field ''transactionId'' Ft_string, required_field ''amount'' Ft_number,
        required_field ''currency'' Ft_string]\<rparr>,
     \<lparr>ds_eventName = ''portfolio.duplicate.detected'', ds_version = ''1.0'', ds_fields =
       [required_field ''candidateId'' Ft_string, required_field ''primaryEntityId'' Ft_string,
        required_field ''duplicateEntityId'' Ft_string, required_field ''confidence'' Ft_number,
        required_field ''matchRules'' Ft_array, required_field ''detectorVersion'' Ft_string]\<rparr>,
     \<lparr>ds_eventName = ''portfolio.duplicate.merge.reviewed'', ds_version = ''1.0'', ds_fields =
       [required_field ''candidateId'' Ft_string, required_field ''decision'' Ft_string,
        required_field ''reviewerId'' Ft_string, required_field ''reversible'' Ft_boolean]\<rparr>,
     \<lparr>ds_eventName = ''portfolio.duplicate.merge.applied'', ds_version = ''1.0'', ds_fields =
       [required_field ''candidateId'' Ft_string, required_field ''primaryEntityId'' Ft_string,
        required_field ''duplicateEntityId'' Ft_string, required_field ''mergedEntityId'' Ft_string,
        required_field ''reversible'' Ft_boolean]\<rparr>,
     \<lparr>ds_eventName = ''portfolio.duplicate.merge.reversed'', ds_version = ''1.0'', ds_fields =
       [required_field ''candidateId'' Ft_string, required_field ''mergedEntityId'' Ft_string,
        required_field ''reversedEntityId'' Ft_string, required_field ''reversedBy'' Ft_string]\<rparr>]"

definition registerDefaultSchemas :: "DomainEventRegistry \<Rightarrow> DomainEventRegistry" where
  "registerDefaultSchemas reg = fold registerSchema default_schemas reg"

definition default_registry :: DomainEventRegistry where
  "default_registry = registerDefaultSchemas []"

section \<open>Producer and consumer\<close>

type_synonym ('w, 'r) effect = "'w \<Rightarrow> (event_error, 'r) result \<times> 'w"

definition publish ::
  "DomainEventRegistry \<Rightarrow> (DomainEventEnvelope \<Rightarrow> ('w, unit) effect) option \<Rightarrow> DomainEventEnvelope
    \<Rightarrow> ('w, DomainEventEnvelope) effect" where
  "publish reg publishTransport event w =
     (case validateProducerEvent reg event of
        Inl e \<Rightarrow> (Inl e, w)
      | Inr _ \<Rightarrow>
          (case publishTransport of
             None \<Rightarrow> (Inr event, w)
           | Some transport \<Rightarrow>
               (case transport event w of
                  (Inl e, w1) \<Rightarrow> (Inl e, w1)
                | (Inr _, w1) \<Rightarrow> (Inr event, w1))))"

record ('w, 'r) VersionedDomainEventConsumer =
  vc_handlers :: "(string, (string, DomainEventEnvelope \<Rightarrow> ('w, 'r) effect) jsmap) jsmap"
  vc_fallbackHandlers :: "(string, DomainEventEnvelope \<Rightarrow> ('w, 'r) effect) jsmap"

definition registerHandler ::
  "string \<Rightarrow> string \<Rightarrow> (DomainEventEnvelope \<Rightarrow> ('w, 'r) effect) \<Rightarrow> ('w, 'r) VersionedDomainEventConsumer
    \<Rightarrow> ('w, 'r) VersionedDomainEventConsumer" where
  "registerHandler eventName schemaVersion handler c =
     (let versions = (case map_get (vc_handlers c) eventName of None \<Rightarrow> [] | Some m \<Rightarrow> m)
      in c\<lparr>vc_handlers := map_set eventName (map_set schemaVersion handler versions) (vc_handlers c)\<rparr>)"

definition registerFallbackHandler ::
  "string \<Rightarrow> (DomainEventEnvelope \<Rightarrow> ('w, 'r) effect) \<Rightarrow> ('w, 'r) VersionedDomainEventConsumer
    \<Rightarrow> ('w, 'r) VersionedDomainEventConsumer" where
  "registerFallbackHandler eventName handler c =
     c\<lparr>vc_fallbackHandlers := map_set eventName handler (vc_fallbackHandlers c)\<rparr>"

record 'r consumed =
  co_handled :: bool
  co_result :: 'r
  co_usedFallback :: bool

definition call_handler ::
  "(DomainEventEnvelope \<Rightarrow> ('w, 'r) effect) \<Rightarrow> bool \<Rightarrow> DomainEventEnvelope \<Rightarrow> ('w, 'r consumed) effect" where
  "call_handler handler usedFallback event w =
     (case handler event w of
        (Inl e, w1) \<Rightarrow> (Inl e, w1)
      | (Inr r, w1) \<Rightarrow> (Inr \<lparr>co_handled = True, co_result = r, co_usedFallback = usedFallback\<rparr>, w1))"

definition consume ::
  "('w, 'r) VersionedDomainEventConsumer \<Rightarrow> DomainEventEnvelope \<Rightarrow> ('w, 'r consumed) effect" where
  "consume c event w =
     (case (case map_get (vc_handlers c) (ev_eventName event) of
              None \<Rightarrow> None | Some m \<Rightarrow> map_get m (ev_schemaVersion event)) of
        Some handler \<Rightarrow> call_handler handler False event w
      | None \<Rightarrow>
          (case map_get (vc_fallbackHandlers c) (ev_eventName event) of
             Some fallback \<Rightarrow> call_handler fallback True event w
           | None \<Rightarrow> (Inl (UnknownEventVersionError (ev_eventName event) (ev_schemaVersion event)), w)))"

section \<open>The ledger\<close>

text \<open>
  \<open>JSON.stringify\<close> of a value that is not an object: \<^const>\<open>None\<close> stands for the result
  \<open>undefined\<close>, which a template literal shows as the word and \<open>join\<close> as nothing; a bigint throws.
\<close>

fun stringify_scalar :: "js_value \<Rightarrow> (event_error, string option) result" where
  "stringify_scalar JNull = Inr (Some ''null'')"
| "stringify_scalar (JStr s) = Inr (Some (json_string s))"
| "stringify_scalar (JNum (JInt i)) = Inr (Some (show_int i))"
| "stringify_scalar (JNum JNegZero) = Inr (Some ''0'')"
| "stringify_scalar (JNum (JFrac f)) = Inr (Some f)"
| "stringify_scalar (JNum _) = Inr (Some ''null'')"
| "stringify_scalar (JBool b) = Inr (Some (if b then ''true'' else ''false''))"
| "stringify_scalar (JBigint i) = Inl (TypeError ''Do not know how to serialize a BigInt'')"
| "stringify_scalar _ = Inr None"

definition in_template :: "string option \<Rightarrow> string" where
  "in_template s = (case s of None \<Rightarrow> ''undefined'' | Some t \<Rightarrow> t)"

definition in_join :: "string option \<Rightarrow> string" where
  "in_join s = (case s of None \<Rightarrow> [] | Some t \<Rightarrow> t)"

definition map_result :: "('a \<Rightarrow> 'b) \<Rightarrow> ('e, 'a) result \<Rightarrow> ('e, 'b) result" where
  "map_result f r = (case r of Inl e \<Rightarrow> Inl e | Inr x \<Rightarrow> Inr (f x))"

text \<open>An array of rendered elements, and an object whose entries are rendered in key order.\<close>

definition render_array :: "(event_error, string option) result list \<Rightarrow> (event_error, string option) result" where
  "render_array rs = map_result (\<lambda>items. Some (''['' @ join '','' (map in_join items) @ '']'')) (sequence rs)"

definition render_object ::
  "(string \<times> (event_error, string option) result) list \<Rightarrow> (event_error, string option) result" where
  "render_object es =
     map_result (\<lambda>items. Some (''{'' @ join '','' items @ ''}''))
       (sequence (map (\<lambda>(k, r). map_result (\<lambda>s. json_string k @ '':'' @ in_template s) r) (js_sort by_key es)))"

fun ledger_canonicalize :: "js_value \<Rightarrow> (event_error, string option) result" where
  "ledger_canonicalize (JArr xs) =
     render_array (map (\<lambda>x. case x of None \<Rightarrow> Inr None | Some v \<Rightarrow> ledger_canonicalize v) xs)"
| "ledger_canonicalize (JObj pl entries) = render_object (map (\<lambda>(k, v). (k, ledger_canonicalize v)) entries)"
| "ledger_canonicalize (JDate t) = Inr (Some ''{}'')"
| "ledger_canonicalize v = stringify_scalar v"

text \<open>\<open>createHash(...).update(x)\<close> throws for \<open>undefined\<close>.\<close>

definition sha256 :: "(string \<Rightarrow> string) \<Rightarrow> string option \<Rightarrow> (event_error, string) result" where
  "sha256 sha input =
     (case input of
        None \<Rightarrow> Inl (TypeError ''The data argument must be of type string'')
      | Some s \<Rightarrow> Inr (sha s))"

definition payload_hash :: "(string \<Rightarrow> string) \<Rightarrow> js_value \<Rightarrow> (event_error, string) result" where
  "payload_hash sha payload =
     (case ledger_canonicalize payload of Inl e \<Rightarrow> Inl e | Inr c \<Rightarrow> sha256 sha c)"

definition chain_text :: "int \<Rightarrow> string option \<Rightarrow> string \<Rightarrow> string" where
  "chain_text seq previousHash payloadHash =
     show_int seq @ '':'' @ in_join previousHash @ '':'' @ payloadHash"

definition computeEntryHash :: "(string \<Rightarrow> string) \<Rightarrow> int \<Rightarrow> string option \<Rightarrow> string \<Rightarrow> string" where
  "computeEntryHash sha seq previousHash payloadHash = sha (chain_text seq previousHash payloadHash)"

record LedgerEntryInput =
  li_eventName :: string
  li_schemaVersion :: string
  li_producer :: string
  li_payload :: js_value
  li_timestamp :: "string option"

record LedgerEntry =
  le_sequence :: int
  le_eventId :: string
  le_eventName :: string
  le_schemaVersion :: string
  le_producer :: string
  le_timestamp :: string
  le_payload :: js_value
  le_previousHash :: "string option"
  le_hash :: string

definition append_entry ::
  "(string \<Rightarrow> string) \<Rightarrow> string \<Rightarrow> LedgerEntryInput \<Rightarrow> LedgerEntry list
    \<Rightarrow> (event_error, LedgerEntry) result \<times> LedgerEntry list" where
  "append_entry sha now input entries =
     (let seq = int (length entries) + 1;
          previousHash = (if entries = [] then None else Some (le_hash (last entries)));
          timestamp = (case li_timestamp input of None \<Rightarrow> now | Some t \<Rightarrow> t)
      in case ledger_canonicalize (li_payload input) of
           Inl e \<Rightarrow> (Inl e, entries)
         | Inr c \<Rightarrow>
             (case payload_hash sha (li_payload input) of
                Inl e \<Rightarrow> (Inl e, entries)
              | Inr payloadHash \<Rightarrow>
                  let eventId = sha (show_int seq @ '':'' @ li_eventName input @ '':'' @ timestamp @ '':'' @ in_template c);
                      entry = \<lparr>le_sequence = seq, le_eventId = eventId, le_eventName = li_eventName input,
                        le_schemaVersion = li_schemaVersion input, le_producer = li_producer input,
                        le_timestamp = timestamp, le_payload = li_payload input,
                        le_previousHash = previousHash, le_hash = computeEntryHash sha seq previousHash payloadHash\<rparr>
                  in (Inr entry, entries @ [entry])))"

record LedgerVerificationResult =
  lv_valid :: bool
  lv_entriesChecked :: nat
  lv_brokenAtSequence :: "int option"
  lv_reason :: "string option"

definition broken :: "nat \<Rightarrow> LedgerEntry \<Rightarrow> string \<Rightarrow> LedgerVerificationResult" where
  "broken n entry reason = \<lparr>lv_valid = False, lv_entriesChecked = n,
     lv_brokenAtSequence = Some (le_sequence entry), lv_reason = Some reason\<rparr>"

fun verify_from ::
  "(string \<Rightarrow> string) \<Rightarrow> nat \<Rightarrow> string option \<Rightarrow> int \<Rightarrow> LedgerEntry list
    \<Rightarrow> (event_error, LedgerVerificationResult) result" where
  "verify_from sha n previousHash expectedSequence [] =
     Inr \<lparr>lv_valid = True, lv_entriesChecked = n, lv_brokenAtSequence = None, lv_reason = None\<rparr>"
| "verify_from sha n previousHash expectedSequence (entry # rest) =
     (if le_sequence entry \<noteq> expectedSequence then
        Inr (broken n entry (''sequence gap: expected '' @ show_int expectedSequence @ '', got '' @ show_int (le_sequence entry)))
      else if le_previousHash entry \<noteq> previousHash then
        Inr (broken n entry ''previous hash mismatch'')
      else case payload_hash sha (le_payload entry) of
        Inl e \<Rightarrow> Inl e
      | Inr payloadHash \<Rightarrow>
          if computeEntryHash sha (le_sequence entry) (le_previousHash entry) payloadHash \<noteq> le_hash entry
          then Inr (broken n entry ''chain hash mismatch'')
          else verify_from sha n (Some (le_hash entry)) (expectedSequence + 1) rest)"

definition verify :: "(string \<Rightarrow> string) \<Rightarrow> LedgerEntry list \<Rightarrow> (event_error, LedgerVerificationResult) result" where
  "verify sha entries = verify_from sha (length entries) None 1 entries"

record LedgerExport =
  lx_generatedAt :: string
  lx_entries :: "LedgerEntry list"
  lx_verification :: LedgerVerificationResult

definition export :: "(string \<Rightarrow> string) \<Rightarrow> string \<Rightarrow> LedgerEntry list \<Rightarrow> (event_error, LedgerExport) result" where
  "export sha now entries =
     (case verify sha entries of
        Inl e \<Rightarrow> Inl e
      | Inr v \<Rightarrow> Inr \<lparr>lx_generatedAt = now, lx_entries = entries, lx_verification = v\<rparr>)"


definition getEntries :: "LedgerEntry list \<Rightarrow> LedgerEntry list" where
  "getEntries entries = map (\<lambda>entry. entry) entries"

section \<open>Validation, field by field\<close>

text \<open>What a schema asks of one field.\<close>

definition conforms :: "js_value \<Rightarrow> FieldType \<Rightarrow> bool" where
  "conforms val ty \<longleftrightarrow>
     (if ty = Ft_array then (\<exists>xs. val = JArr xs) else js_typeof val = show_type ty)"

definition field_ok :: "js_value \<Rightarrow> FieldDefinition \<Rightarrow> bool" where
  "field_ok payload fd \<longleftrightarrow>
     (let val = js_prop payload (fd_name fd)
      in if is_nullish val then \<not> fd_required fd
         else (fd_required fd \<longrightarrow> val \<noteq> JStr []) \<and> conforms val (fd_type fd))"

lemma is_array_iff: "(case v of JArr _ \<Rightarrow> True | _ \<Rightarrow> False) \<longleftrightarrow> (\<exists>xs. v = JArr xs)"
  by (cases v) auto

lemma field_complaint_none: "field_complaint payload fd = [] \<longleftrightarrow> field_ok payload fd"
  by (auto simp: field_complaint_def field_ok_def conforms_def is_nullish_def Let_def is_array_iff)

lemma complaints_none: "concat (map (field_complaint p) fs) = [] \<longleftrightarrow> (\<forall>f \<in> set fs. field_ok p f)"
  by (auto simp: field_complaint_none)

lemma required_string_ok:
  "field_ok payload (required_field k Ft_string) \<longleftrightarrow> (\<exists>s. js_prop payload k = JStr s \<and> s \<noteq> [])"
  by (cases "js_prop payload k") (auto simp: field_ok_def required_field_def conforms_def is_nullish_def)

lemma getSchema_register:
  "getSchema (registerSchema schema reg) n v =
     (if n = ds_eventName schema \<and> v = ds_version schema then Some schema else getSchema reg n v)"
  by (auto simp: getSchema_def registerSchema_def Let_def js_simps split: option.splits)

lemma validate_iff:
  "validateProducerEvent reg event = Inr () \<longleftrightarrow>
     ev_eventName event \<noteq> [] \<and> ev_schemaVersion event \<noteq> [] \<and> js_truthy (ev_payload event) \<and>
     (\<exists>schema. getSchema reg (ev_eventName event) (ev_schemaVersion event) = Some schema \<and>
        (\<forall>f \<in> set (ds_fields schema). field_ok (ev_payload event) f))"
  by (auto simp: validateProducerEvent_def Let_def field_complaint_none split: option.splits)

section \<open>Chains of hashes\<close>

text \<open>The text that is hashed determines its three parts, as no part before the last has a colon.\<close>

lemma append_sep_inj:
  assumes "c \<notin> set a" "c \<notin> set a'"
  shows "a @ c # b = a' @ c # b' \<longleftrightarrow> a = a' \<and> b = b'"
  using assms
proof (induction a arbitrary: a')
  case Nil
  then show ?case by (cases a') auto
next
  case (Cons x a)
  then show ?case by (cases a') auto
qed

lemma digit_not_sign: "is_digit c \<Longrightarrow> c \<noteq> CHR '':'' \<and> c \<noteq> CHR ''-'' \<and> c \<noteq> CHR ''@''"
  by (auto simp: is_digit_def)

lemma show_nat_chars: "c \<in> set (show_nat n) \<Longrightarrow> c \<noteq> CHR '':'' \<and> c \<noteq> CHR ''-'' \<and> c \<noteq> CHR ''@''"
  using show_nat_props [of n] digit_not_sign by (auto simp: list_all_iff)

lemma show_int_chars: "CHR '':'' \<notin> set (show_int i) \<and> CHR ''@'' \<notin> set (show_int i)"
  using show_nat_chars [of _ "nat i"] show_nat_chars [of _ "nat (- i)"]
  by (auto simp: show_int_def simp del: show_nat.simps)

lemmas show_int_colon = show_int_chars [THEN conjunct1] and show_int_at = show_int_chars [THEN conjunct2]

lemma show_nat_inj: "show_nat m = show_nat n \<Longrightarrow> m = n"
  by (metis show_nat_value)

lemma show_nat_no_sign: "show_nat m \<noteq> CHR ''-'' # s"
  using show_nat_chars [of "CHR ''-''" m] by (metis list.set_intros(1))

lemma show_int_inj: "show_int i = show_int j \<Longrightarrow> i = j"
  using show_nat_no_sign [of "nat i"] show_nat_no_sign [of "nat j"]
  by (auto simp: show_int_def split: if_splits dest: show_nat_inj dest!: sym [of "CHR ''-'' # _"])

lemma chain_text_inj:
  assumes "CHR '':'' \<notin> set (in_join p)" "CHR '':'' \<notin> set (in_join q)"
    and "chain_text i p x = chain_text j q y"
  shows "i = j \<and> in_join p = in_join q \<and> x = y"
  using assms show_int_colon append_sep_inj [of "CHR '':''"] by (auto simp: chain_text_def dest: show_int_inj)

section \<open>What a ledger promises\<close>

definition head_hash :: "LedgerEntry list \<Rightarrow> string option" where
  "head_hash es = (if es = [] then None else Some (le_hash (last es)))"

definition entry_sound :: "(string \<Rightarrow> string) \<Rightarrow> string option \<Rightarrow> int \<Rightarrow> LedgerEntry \<Rightarrow> bool" where
  "entry_sound sha prev seq e \<longleftrightarrow> le_sequence e = seq \<and> le_previousHash e = prev \<and>
     (\<exists>c. ledger_canonicalize (le_payload e) = Inr (Some c) \<and> le_hash e = sha (chain_text seq prev (sha c)))"

definition chained :: "(string \<Rightarrow> string) \<Rightarrow> LedgerEntry list \<Rightarrow> bool" where
  "chained sha es \<longleftrightarrow> (\<forall>i < length es. entry_sound sha (head_hash (take i es)) (int i + 1) (es ! i))"

lemma head_hash_simps [simp]: "head_hash [] = None" "head_hash (es @ [e]) = Some (le_hash e)"
  by (simp_all add: head_hash_def)

lemma chained_Nil [simp]: "chained sha []"
  by (simp add: chained_def)

lemma chained_snoc [simp]:
  "chained sha (es @ [e]) \<longleftrightarrow> chained sha es \<and> entry_sound sha (head_hash es) (int (length es) + 1) e"
  by (auto simp: chained_def nth_append less_Suc_eq)

lemma chained_single [simp]: "chained sha [e] \<longleftrightarrow> entry_sound sha None 1 e"
  using chained_snoc [of sha "[]" e] by simp

lemma chained_prefix: "chained sha (es @ fs) \<Longrightarrow> chained sha es"
  by (induction fs rule: rev_induct) (simp_all flip: append_assoc)

lemma payload_hash_Inr:
  "payload_hash sha p = Inr h \<longleftrightarrow> (\<exists>c. ledger_canonicalize p = Inr (Some c) \<and> h = sha c)"
  by (auto simp: payload_hash_def sha256_def split: sum.splits option.splits)

text \<open>Verification of a list that continues a chained one.\<close>

lemma verify_from_chained:
  assumes "chained sha done_es"
  shows "(\<exists>v. verify_from sha n (head_hash done_es) (int (length done_es) + 1) es = Inr v \<and> lv_valid v)
    \<longleftrightarrow> chained sha (done_es @ es)"
  using assms
proof (induction es arbitrary: done_es)
  case (Cons e es)
  let ?prev = "head_hash done_es" and ?seq = "int (length done_es) + 1"
  have split: "chained sha (done_es @ e # es) \<Longrightarrow> entry_sound sha ?prev ?seq e"
    using chained_prefix [of sha "done_es @ [e]" es] by simp
  show ?case
  proof (cases "entry_sound sha ?prev ?seq e")
    case True
    then obtain c where e: "le_sequence e = ?seq" "le_previousHash e = ?prev" "payload_hash sha (le_payload e) = Inr (sha c)"
      "computeEntryHash sha ?seq ?prev (sha c) = le_hash e"
      by (auto simp: entry_sound_def payload_hash_Inr computeEntryHash_def)
    from True Cons.prems have "chained sha (done_es @ [e])" by simp
    from Cons.IH [OF this] e show ?thesis by (simp add: add.commute)
  next
    case False
    with split have "\<not> chained sha (done_es @ e # es)" by blast
    moreover have "\<not> (\<exists>v. verify_from sha n ?prev ?seq (e # es) = Inr v \<and> lv_valid v)"
      using False by (auto simp: broken_def entry_sound_def payload_hash_Inr computeEntryHash_def split: sum.splits if_splits)
    ultimately show ?thesis by blast
  qed
qed simp

lemma verify_chained: "(\<exists>v. verify sha es = Inr v \<and> lv_valid v) \<longleftrightarrow> chained sha es"
  using verify_from_chained [of sha "[]"] by (simp add: verify_def)

lemma verify_from_count: "verify_from sha n p s es = Inr v \<Longrightarrow> lv_entriesChecked v = n"
  by (induction sha n p s es rule: verify_from.induct) (auto simp: broken_def Let_def split: sum.splits if_splits)

lemma append_chained:
  assumes "chained sha es"
  shows "chained sha (snd (append_entry sha now input es))"
  using assms
  by (auto simp: append_entry_def Let_def entry_sound_def payload_hash_Inr head_hash_def computeEntryHash_def
      split: sum.splits option.splits)

definition append_step :: "(string \<Rightarrow> string) \<Rightarrow> string \<times> LedgerEntryInput \<Rightarrow> LedgerEntry list \<Rightarrow> LedgerEntry list" where
  "append_step sha x es = snd (append_entry sha (fst x) (snd x) es)"

interpretation ledger: invariant_system "append_step sha" "chained sha" for sha
  by unfold_locales (simp add: append_step_def append_chained)


section \<open>Two ledgers with the same head\<close>

text \<open>The texts hashed for one entry, and for a ledger.\<close>

definition hashed_texts :: "(string \<Rightarrow> string) \<Rightarrow> LedgerEntry list \<Rightarrow> string set" where
  "hashed_texts sha es = (\<Union>e \<in> set es. case ledger_canonicalize (le_payload e) of
     Inr (Some c) \<Rightarrow> {c, chain_text (le_sequence e) (le_previousHash e) (sha c)} | _ \<Rightarrow> {})"

definition no_collision :: "(string \<Rightarrow> string) \<Rightarrow> string set \<Rightarrow> string set \<Rightarrow> bool" where
  "no_collision sha A B \<longleftrightarrow> (\<forall>s \<in> A. \<forall>t \<in> B. sha s = sha t \<longrightarrow> s = t)"

definition no_colon :: "(string \<Rightarrow> string) \<Rightarrow> bool" where
  "no_colon sha \<longleftrightarrow> (\<forall>s. CHR '':'' \<notin> set (sha s))"

definition same_entry :: "LedgerEntry \<Rightarrow> LedgerEntry \<Rightarrow> bool" where
  "same_entry x y \<longleftrightarrow> le_sequence x = le_sequence y \<and> le_previousHash x = le_previousHash y \<and>
     le_hash x = le_hash y \<and> ledger_canonicalize (le_payload x) = ledger_canonicalize (le_payload y)"

lemma hashed_texts_snoc: "hashed_texts sha (es @ [e]) = hashed_texts sha es \<union> hashed_texts sha [e]"
  by (auto simp: hashed_texts_def)

lemma head_hash_colon: "chained sha es \<Longrightarrow> no_colon sha \<Longrightarrow> CHR '':'' \<notin> set (in_join (head_hash es))"
  by (cases es rule: rev_cases) (auto simp: in_join_def no_colon_def entry_sound_def)

lemma last_entries_same:
  assumes "entry_sound sha p i x" "entry_sound sha q j y" "le_hash x = le_hash y"
    and "CHR '':'' \<notin> set (in_join p)" "CHR '':'' \<notin> set (in_join q)"
    and "no_collision sha (hashed_texts sha [x]) (hashed_texts sha [y])"
  shows "i = j \<and> in_join p = in_join q \<and> ledger_canonicalize (le_payload x) = ledger_canonicalize (le_payload y)"
proof -
  obtain c where c: "ledger_canonicalize (le_payload x) = Inr (Some c)" "le_hash x = sha (chain_text i p (sha c))"
    "le_sequence x = i" "le_previousHash x = p"
    using assms(1) by (auto simp: entry_sound_def)
  obtain d where d: "ledger_canonicalize (le_payload y) = Inr (Some d)" "le_hash y = sha (chain_text j q (sha d))"
    "le_sequence y = j" "le_previousHash y = q"
    using assms(2) by (auto simp: entry_sound_def)
  have texts: "{c, chain_text i p (sha c)} \<subseteq> hashed_texts sha [x]" "{d, chain_text j q (sha d)} \<subseteq> hashed_texts sha [y]"
    using c d by (simp_all add: hashed_texts_def)
  then have "chain_text i p (sha c) = chain_text j q (sha d)"
    using assms(3,6) c d by (auto simp: no_collision_def)
  from chain_text_inj [OF assms(4,5) this] have *: "i = j" "in_join p = in_join q" "sha c = sha d" by auto
  with texts assms(6) have "c = d" by (auto simp: no_collision_def)
  with * c d show ?thesis by simp
qed

lemma same_head_same_ledger:
  assumes "chained sha xs" "chained sha ys" "head_hash xs = head_hash ys" "xs \<noteq> [] \<longleftrightarrow> ys \<noteq> []"
    and "no_collision sha (hashed_texts sha xs) (hashed_texts sha ys)" "no_colon sha"
  shows "list_all2 same_entry xs ys"
  using assms
proof (induction xs arbitrary: ys rule: rev_induct)
  case (snoc x xs)
  then obtain zs y where ys: "ys = zs @ [y]" by (cases ys rule: rev_cases) auto
  have x: "chained sha xs" "entry_sound sha (head_hash xs) (int (length xs) + 1) x" using snoc.prems(1) by auto
  have y: "chained sha zs" "entry_sound sha (head_hash zs) (int (length zs) + 1) y" using snoc.prems(2) ys by auto
  have nc: "no_collision sha (hashed_texts sha [x]) (hashed_texts sha [y])"
    "no_collision sha (hashed_texts sha xs) (hashed_texts sha zs)"
    using snoc.prems(5) ys by (auto simp: no_collision_def hashed_texts_snoc)
  have same: "length xs = length zs \<and> in_join (head_hash xs) = in_join (head_hash zs) \<and>
    ledger_canonicalize (le_payload x) = ledger_canonicalize (le_payload y)"
    using last_entries_same [OF x(2) y(2) _ head_hash_colon [OF x(1)] head_hash_colon [OF y(1)] nc(1)]
      snoc.prems(3,6) ys by auto
  then have ne: "xs \<noteq> [] \<longleftrightarrow> zs \<noteq> []" by auto
  with same have "head_hash xs = head_hash zs" by (auto simp: head_hash_def in_join_def)
  moreover from this have "same_entry x y"
    using x(2) y(2) same snoc.prems(3) ys by (auto simp: same_entry_def entry_sound_def)
  moreover from calculation(1) have "list_all2 same_entry xs zs"
    using snoc.IH [OF x(1) y(1) _ ne nc(2) snoc.prems(6)] by blast
  ultimately show ?case using ys same by (simp add: list_all2_appendI)
qed simp

section \<open>Properties\<close>

text \<open>
  Producer-side validation accepts an event exactly when its name, version and payload are given,
  the version is registered, and every field of the schema conforms: a required field is there and not
  the empty string, and a field that is there has the declared type; otherwise it throws.
\<close>

theorem validation_decides:
  "validateProducerEvent reg event = Inr () \<longleftrightarrow>
     ev_eventName event \<noteq> [] \<and> ev_schemaVersion event \<noteq> [] \<and> js_truthy (ev_payload event) \<and>
     (case getSchema reg (ev_eventName event) (ev_schemaVersion event) of
        None \<Rightarrow> False
      | Some schema \<Rightarrow> list_all (field_ok (ev_payload event)) (ds_fields schema))"
  by (auto simp: validate_iff list_all_iff split: option.splits)

text \<open>
  However entries are appended to an empty ledger, also when some appends throw, verification
  returns, finds the ledger valid and has checked every entry.
\<close>

theorem appended_ledger_verifies:
  "let es = run (append_step sha) inputs []
   in \<exists>v. verify sha es = Inr v \<and> lv_valid v \<and> lv_entriesChecked v = length es"
proof -
  have "chained sha (run (append_step sha) inputs [])" by (rule ledger.run_inv) simp
  then obtain v where "verify sha (run (append_step sha) inputs []) = Inr v" "lv_valid v"
    using verify_chained by blast
  then show ?thesis using verify_from_count by (auto simp: Let_def verify_def)
qed

text \<open>
  C20.  A ledger is pinned by its last hash.  Two ledgers that both verify and end with the same hash
  have the same entries up to what is hashed: the same number of entries and, at each position, the
  same sequence number, previous hash, hash and canonical payload.  So an entry that was changed,
  dropped or inserted shows against a last hash kept elsewhere.  SHA-256 is assumed to have no
  collision among the texts the two verifications hash, and digests have no colon.
\<close>

theorem ledger_tamper_evident:
  assumes "verify sha xs = Inr v" "lv_valid v" "verify sha ys = Inr v'" "lv_valid v'"
    and "xs \<noteq> []" "ys \<noteq> []" "le_hash (last xs) = le_hash (last ys)"
    and "no_collision sha (hashed_texts sha xs) (hashed_texts sha ys)" "no_colon sha"
  shows "list_all2 same_entry xs ys"
  using assms verify_chained by (intro same_head_same_ledger) (auto simp: head_hash_def)

theorem ledger_tamper_evident_witness:
  "let sha = (\<lambda>s. map (\<lambda>c. if c = CHR '':'' then CHR ''.'' else c) s);
       input = \<lparr>li_eventName = ''x'', li_schemaVersion = ''1'', li_producer = ''p'',
         li_payload = JObj True [(''a'', JNull)], li_timestamp = None\<rparr>;
       xs = run (append_step sha) [(''t'', input), (''t'', input)] [];
       ys = run (append_step sha) [(''u'', input), (''u'', input)] []
   in xs \<noteq> ys \<and> list_all2 same_entry xs ys"
proof -
  define sha where "sha = (\<lambda>s. map (\<lambda>c. if c = CHR '':'' then CHR ''.'' else c) s)"
  define input where "input = \<lparr>li_eventName = ''x'', li_schemaVersion = ''1'', li_producer = ''p'',
    li_payload = JObj True [(''a'', JNull)], li_timestamp = None\<rparr>"
  define xs where "xs = run (append_step sha) [(''t'', input), (''t'', input)] []"
  define ys where "ys = run (append_step sha) [(''u'', input), (''u'', input)] []"
  note evals = xs_def ys_def input_def sha_def append_step_def append_entry_def payload_hash_def sha256_def
    computeEntryHash_def chain_text_def in_join_def in_template_def render_object_def map_result_def
    json_string_def json_char_def show_int_def Let_def
  obtain v where v: "verify sha xs = Inr v" "lv_valid v"
    using verify_chained [of sha xs] ledger.run_inv [OF chained_Nil] unfolding xs_def by blast
  obtain v' where v': "verify sha ys = Inr v'" "lv_valid v'"
    using verify_chained [of sha ys] ledger.run_inv [OF chained_Nil] unfolding ys_def by blast
  have ne: "xs \<noteq> []" "ys \<noteq> []" "le_hash (last xs) = le_hash (last ys)" "xs \<noteq> ys"
    by (simp_all add: evals)
  have nc: "no_collision sha (hashed_texts sha xs) (hashed_texts sha ys)" "no_colon sha"
    by (auto simp: no_collision_def hashed_texts_def no_colon_def evals)
  show ?thesis
    using ledger_tamper_evident [OF v v' ne(1-3) nc] ne(4)
    by (simp add: xs_def ys_def sha_def input_def Let_def)
qed

text \<open>
  What verification alone cannot see.  It accepts what is left of an appended ledger when its
  last entries are cut off, and it returns the same for a ledger in which the event name, the schema version, the producer, the
  timestamp and the event id of any entries were replaced: the chain covers the sequence numbers and
  the payloads only.
\<close>

theorem ledger_verify_blind_spots:
  "(\<exists>v. verify sha (take k (run (append_step sha) inputs [])) = Inr v \<and> lv_valid v) \<and>
   verify sha (map (\<lambda>e. e\<lparr>le_eventId := i e, le_eventName := n e, le_schemaVersion := s e, le_producer := p e,
     le_timestamp := t e\<rparr>) es) = verify sha es"
proof -
  have "verify_from sha k prev seq (map (\<lambda>e. e\<lparr>le_eventId := i e, le_eventName := n e, le_schemaVersion := s e,
      le_producer := p e, le_timestamp := t e\<rparr>) es) = verify_from sha k prev seq es" for k prev seq
    by (induction es arbitrary: prev seq) (auto simp: broken_def split: sum.splits)
  moreover have "chained sha (run (append_step sha) inputs [])" by (rule ledger.run_inv) simp
  then have "chained sha (take k (run (append_step sha) inputs []))"
    by (metis append_take_drop_id chained_prefix)
  ultimately show ?thesis by (simp add: verify_chained) (simp add: verify_def)
qed

end
