(* ===== verification/Event_Upcaster.thy ===== *)
theory Event_Upcaster
  imports Domain_Events
begin

text \<open>
  Schema upcasting, \<open>src/common/events/replay/event-upcaster.ts\<close>: the registry of upcast steps, the
  loop that takes an event step by step to a target version, and the default steps.  The function of a
  step is an argument that may throw.  The loop ends because every step it takes adds a version that was
  not seen before, and there are no more of them than registered steps.
\<close>

section \<open>The registry\<close>

record EventUpcaster =
  uc_eventName :: string
  uc_fromVersion :: string
  uc_toVersion :: string
  uc_upcast :: "js_value \<Rightarrow> (event_error, js_value) result"

type_synonym upcast_steps = "(string, EventUpcaster) jsmap"

definition step_key :: "string \<Rightarrow> string \<Rightarrow> string" where
  "step_key eventName version = eventName @ ''@'' @ version"

definition register_upcaster :: "EventUpcaster \<Rightarrow> upcast_steps \<Rightarrow> (event_error, upcast_steps) result" where
  "register_upcaster upcaster steps =
     (if uc_fromVersion upcaster = uc_toVersion upcaster
      then Inl (OtherError (''Upcaster for '' @ uc_eventName upcaster @ '' must change the version''))
      else let key = step_key (uc_eventName upcaster) (uc_fromVersion upcaster) in
        if map_has steps key then Inl (OtherError (''Duplicate upcaster for '' @ key))
        else Inr (map_set key upcaster steps))"

section \<open>The loop\<close>

definition targets :: "upcast_steps \<Rightarrow> string set" where
  "targets steps = uc_toVersion ` snd ` set steps"

lemma finite_targets [simp, intro]: "finite (targets steps)"
  by (simp add: targets_def)

lemma step_target: "map_get steps k = Some st \<Longrightarrow> uc_toVersion st \<in> targets steps"
  by (auto simp: targets_def dest!: map_get_mem intro!: rev_image_eqI)

text \<open>
  The loop carries the event, the versions passed through (\<open>path\<close>) and the versions seen; \<open>from\<close> is
  the version the event had at the start, which the errors name.
\<close>

function upcast_loop ::
  "upcast_steps \<Rightarrow> string \<Rightarrow> string \<Rightarrow> 'a DomainEventEnvelope_scheme \<Rightarrow> string list \<Rightarrow> string list
    \<Rightarrow> (event_error, 'a DomainEventEnvelope_scheme \<times> string list) result" where
  "upcast_loop steps start target current path seen =
     (if ev_schemaVersion current = target then Inr (current, path)
      else case map_get steps (step_key (ev_eventName current) (ev_schemaVersion current)) of
        None \<Rightarrow> Inl (UpcastError (ev_eventName current) start target
          (''No upcast path from '' @ ev_eventName current @ '' v'' @ ev_schemaVersion current @ '' to v'' @ target))
      | Some step \<Rightarrow>
          if uc_toVersion step \<in> set seen
          then Inl (UpcastError (ev_eventName current) start target
            (''Upcaster cycle for '' @ ev_eventName current @ '' at v'' @ uc_toVersion step))
          else case uc_upcast step (ev_payload current) of
            Inl e \<Rightarrow> Inl e
          | Inr payload \<Rightarrow>
              upcast_loop steps start target
                (current\<lparr>ev_schemaVersion := uc_toVersion step, ev_payload := payload\<rparr>)
                (path @ [uc_toVersion step]) (set_add (uc_toVersion step) seen))"
  by pat_completeness auto

termination upcast_loop
proof (relation "measure (\<lambda>(steps, start, target, current, path, seen). card (targets steps - set seen))")
  fix steps :: upcast_steps and start target and current :: "'a DomainEventEnvelope_scheme" and path seen step payload
  assume "map_get steps (step_key (ev_eventName current) (ev_schemaVersion current)) = Some step"
    and "uc_toVersion step \<notin> set seen"
  then have "targets steps - set (set_add (uc_toVersion step) seen) \<subset> targets steps - set seen"
    using step_target by auto
  then have "card (targets steps - set (set_add (uc_toVersion step) seen)) < card (targets steps - set seen)"
    by (intro psubset_card_mono) auto
  then show "((steps, start, target, current\<lparr>ev_schemaVersion := uc_toVersion step, ev_payload := payload\<rparr>,
      path @ [uc_toVersion step], set_add (uc_toVersion step) seen), (steps, start, target, current, path, seen))
    \<in> measure (\<lambda>(steps, start, target, current, path, seen). card (targets steps - set seen))"
    by simp
qed simp

declare upcast_loop.simps [simp del]

definition upcast ::
  "DomainEventRegistry \<Rightarrow> upcast_steps \<Rightarrow> 'a DomainEventEnvelope_scheme \<Rightarrow> string
    \<Rightarrow> (event_error, 'a DomainEventEnvelope_scheme \<times> string list) result" where
  "upcast schemas steps event targetVersion =
     (if ev_schemaVersion event = targetVersion then Inr (event, [])
      else case upcast_loop steps (ev_schemaVersion event) targetVersion event
                  [ev_schemaVersion event] [ev_schemaVersion event] of
        Inl e \<Rightarrow> Inl e
      | Inr (current, path) \<Rightarrow>
          if getSchema schemas (ev_eventName current) targetVersion \<noteq> None
          then (case validateProducerEvent schemas current of
                  Inl e \<Rightarrow> Inl e
                | Inr _ \<Rightarrow> Inr (current, path))
          else Inr (current, path))"

section \<open>The default steps\<close>

definition user_created_v2 :: EventUpcaster where
  "user_created_v2 = \<lparr>uc_eventName = ''user.created'', uc_fromVersion = ''1.0'', uc_toVersion = ''2.0'',
     uc_upcast = (\<lambda>payload.
       let tier = js_prop payload ''kycTier''
       in Inr (JObj True (map_set ''kycTier'' (if is_nullish tier then JStr ''unverified'' else tier) (js_entries payload))))\<rparr>"

definition DEFAULT_UPCASTERS :: "EventUpcaster list" where
  "DEFAULT_UPCASTERS = [user_created_v2]"

fun register_all :: "EventUpcaster list \<Rightarrow> upcast_steps \<Rightarrow> (event_error, upcast_steps) result" where
  "register_all [] steps = Inr steps"
| "register_all (u # us) steps =
     (case register_upcaster u steps of Inl e \<Rightarrow> Inl e | Inr steps' \<Rightarrow> register_all us steps')"

definition default_steps :: upcast_steps where
  "default_steps = (case register_all DEFAULT_UPCASTERS [] of Inl e \<Rightarrow> [] | Inr steps \<Rightarrow> steps)"

section \<open>Paths\<close>

lemma unchanged_envelope: "ev_schemaVersion e = v \<Longrightarrow> \<exists>p. e = e\<lparr>ev_schemaVersion := v, ev_payload := p\<rparr>"
  by (rule exI [of _ "ev_payload e"]) simp

text \<open>A loop only changes the version and the payload, and extends a path of distinct versions.\<close>

lemma upcast_loop_path:
  assumes "upcast_loop steps start target current path seen = Inr (result, path')"
    and "set path = set seen" "distinct path" "path \<noteq> []" "last path = ev_schemaVersion current"
  shows "distinct path' \<and> hd path' = hd path \<and> last path' = target \<and> path' \<noteq> [] \<and> ev_schemaVersion result = target
    \<and> set path' \<subseteq> set path \<union> targets steps
    \<and> (\<exists>p. result = current\<lparr>ev_schemaVersion := target, ev_payload := p\<rparr>)"
  using assms
proof (induction steps start target current path seen arbitrary: result path' rule: upcast_loop.induct)
  case (1 steps start target current path seen)
  show ?case
  proof (cases "ev_schemaVersion current = target")
    case True
    with 1(2) have "result = current" "path' = path" by (auto simp: upcast_loop.simps)
    then show ?thesis using 1(3-) True unchanged_envelope [OF True] by auto
  next
    case False
    with 1(2) obtain step p where st: "map_get steps (step_key (ev_eventName current) (ev_schemaVersion current)) = Some step"
      "uc_toVersion step \<notin> set seen" "uc_upcast step (ev_payload current) = Inr p"
      and rest: "upcast_loop steps start target (current\<lparr>ev_schemaVersion := uc_toVersion step, ev_payload := p\<rparr>)
        (path @ [uc_toVersion step]) (set_add (uc_toVersion step) seen) = Inr (result, path')"
      by (subst (asm) upcast_loop.simps) (auto split: option.splits sum.splits if_splits)
    from 1(1) [OF False st rest] 1(3-) st step_target [OF st(1)] show ?thesis by (auto simp: hd_append)
  qed
qed

lemma upcast_cases:
  assumes "upcast schemas steps event target = Inr (result, path)"
  shows "(path = [] \<and> result = event \<and> ev_schemaVersion event = target) \<or>
    (upcast_loop steps (ev_schemaVersion event) target event [ev_schemaVersion event] [ev_schemaVersion event] = Inr (result, path)
     \<and> ev_schemaVersion event \<noteq> target
     \<and> (getSchema schemas (ev_eventName result) target \<noteq> None \<longrightarrow> validateProducerEvent schemas result = Inr ()))"
  using assms by (auto simp: upcast_def split: if_splits sum.splits)

lemma upcast_only_version_payload:
  assumes "upcast schemas steps event target = Inr (result, path)"
  shows "\<exists>p. result = event\<lparr>ev_schemaVersion := target, ev_payload := p\<rparr>"
  using upcast_cases [OF assms]
proof
  assume "path = [] \<and> result = event \<and> ev_schemaVersion event = target"
  then show ?thesis using unchanged_envelope [of event target] by simp
next
  assume "upcast_loop steps (ev_schemaVersion event) target event [ev_schemaVersion event] [ev_schemaVersion event] = Inr (result, path)
     \<and> ev_schemaVersion event \<noteq> target
     \<and> (getSchema schemas (ev_eventName result) target \<noteq> None \<longrightarrow> validateProducerEvent schemas result = Inr ())"
  then show ?thesis using upcast_loop_path by fastforce
qed

lemma card_targets: "card (targets steps) \<le> length steps"
  unfolding targets_def by (metis card_image_le card_length finite_imageI finite_set le_trans)

lemma upcast_loop_length:
  assumes "upcast_loop steps v target event [v] [v] = Inr (result, path)" "ev_schemaVersion event = v"
  shows "length path \<le> Suc (length steps)"
proof -
  from upcast_loop_path [OF assms(1)] assms(2) have "distinct path" "set path \<subseteq> insert v (targets steps)" by auto
  then have "length path \<le> card (insert v (targets steps))"
    by (metis card_mono distinct_card finite_insert finite_targets)
  also have "\<dots> \<le> Suc (card (targets steps))" by (simp add: card_insert_if)
  finally show ?thesis using card_targets [of steps] by simp
qed

section \<open>Properties\<close>

text \<open>
  An upcast that returns changes nothing of the event but its version, which is the target, and its
  payload.  The versions it passed through start with the stored one, end with the target, do not
  repeat and are at most one more than the registered steps; when there was a step and the target has
  a schema, the result satisfies it.
\<close>

theorem upcast_reaches_target:
  assumes "upcast schemas steps event target = Inr (result, path)"
  shows "result = event\<lparr>ev_schemaVersion := target, ev_payload := ev_payload result\<rparr> \<and>
    (if ev_schemaVersion event = target then path = [] \<and> result = event
     else hd path = ev_schemaVersion event \<and> last path = target \<and> distinct path \<and> length path \<le> Suc (length steps) \<and>
       (getSchema schemas (ev_eventName event) target \<noteq> None \<longrightarrow> validateProducerEvent schemas result = Inr ()))"
proof -
  obtain p where p: "result = event\<lparr>ev_schemaVersion := target, ev_payload := p\<rparr>"
    using upcast_only_version_payload [OF assms] by blast
  then have "result = event\<lparr>ev_schemaVersion := target, ev_payload := ev_payload result\<rparr>" by simp
  moreover from p have "ev_eventName result = ev_eventName event" by simp
  ultimately show ?thesis
    using upcast_cases [OF assms] upcast_loop_path upcast_loop_length by (auto simp: Let_def) fastforce+
qed

definition stored_user :: "string \<Rightarrow> js_value \<Rightarrow> DomainEventEnvelope" where
  "stored_user version payload = \<lparr>ev_eventId = ''e1'', ev_eventName = ''user.created'', ev_schemaVersion = version,
     ev_timestamp = ''t'', ev_producer = ''auth'', ev_payload = payload, ev_previousHash = None, ev_hash = None\<rparr>"

lemmas registry_evals = default_registry_def registerDefaultSchemas_def default_schemas_def getSchema_register
  required_field_def

lemma getSchema_Nil [simp]: "getSchema [] n v = None"
  by (simp add: getSchema_def)

lemma default_steps_eq: "default_steps = [(''user.created@1.0'', user_created_v2)]"
  by (simp add: default_steps_def DEFAULT_UPCASTERS_def register_upcaster_def user_created_v2_def step_key_def Let_def)

theorem upcast_reaches_target_witness:
  "let payload = JObj True [(''userId'', JStr ''u''), (''email'', JStr ''m''), (''role'', JStr ''user'')];
       r = upcast default_registry default_steps (stored_user ''1.0'' payload) ''2.0''
   in (\<exists>result path. r = Inr (result, path) \<and> hd path = ''1.0'' \<and> last path = ''2.0'' \<and> distinct path \<and>
     validateProducerEvent default_registry result = Inr ())"
proof -
  define payload where "payload = JObj True [(''userId'', JStr ''u''), (''email'', JStr ''m''), (''role'', JStr ''user'')]"
  obtain result path where r: "upcast default_registry default_steps (stored_user ''1.0'' payload) ''2.0'' = Inr (result, path)"
    by (simp add: upcast_def stored_user_def payload_def default_steps_eq step_key_def upcast_loop.simps user_created_v2_def
        js_prop_def is_nullish_def Let_def registry_evals validateProducerEvent_def field_complaint_def)
  have "getSchema default_registry ''user.created'' ''2.0'' \<noteq> None" by (simp add: registry_evals)
  with upcast_reaches_target [OF r] r show ?thesis by (simp add: payload_def stored_user_def Let_def)
qed

text \<open>
  The default step brings stored users forward.  A \<open>user.created\<close> event that is valid in version
  1.0 can be upcast to 2.0 exactly when it has no tier yet, which then is \<open>unverified\<close>, or carries a
  tier that is a non-empty string, which it keeps; the other properties of its payload are kept.
\<close>

theorem default_upcast_exact:
  assumes "validateProducerEvent default_registry (event::DomainEventEnvelope) = Inr ()"
    and "ev_eventName event = ''user.created''" "ev_schemaVersion event = ''1.0''"
  shows "let tier = js_prop (ev_payload event) ''kycTier'';
             r = upcast default_registry default_steps event ''2.0''
         in (if is_nullish tier \<or> (\<exists>s. tier = JStr s \<and> s \<noteq> [])
             then (\<exists>p. r = Inr (event\<lparr>ev_schemaVersion := ''2.0'', ev_payload := p\<rparr>, [''1.0'', ''2.0'']) \<and>
               js_prop p ''kycTier'' = (if is_nullish tier then JStr ''unverified'' else tier) \<and>
               (\<forall>k. k \<noteq> ''kycTier'' \<longrightarrow> map_of (js_entries p) k = map_of (js_entries (ev_payload event)) k))
             else \<exists>fields. r = Inl (DomainEventValidationError ''user.created'' ''2.0'' fields))"
proof -
  define payload where "payload = ev_payload event"
  define tier where "tier = js_prop payload ''kycTier''"
  define p where "p = JObj True (map_set ''kycTier'' (if is_nullish tier then JStr ''unverified'' else tier) (js_entries payload))"
  have ok: "field_ok payload (required_field k Ft_string)" if "k \<in> {''userId'', ''email'', ''role''}" for k
    using assms that by (auto simp: validate_iff payload_def registry_evals)
  have own: "js_prop payload k = (case map_of (js_entries payload) k of Some x \<Rightarrow> x | None \<Rightarrow> JUndefined)" if "k \<noteq> ''length''" for k
    using that by (auto simp: js_prop_def split: option.splits js_value.splits)
  have read: "js_prop p k = (if k = ''kycTier'' then if is_nullish tier then JStr ''unverified'' else tier else js_prop payload k)"
    if "k \<noteq> ''length''" for k
    using that own [OF that] by (simp add: p_def js_prop_def js_simps split: option.splits)
  have fields_ok: "field_complaint p (required_field k Ft_string) = []" if "k \<in> {''userId'', ''email'', ''role''}" for k
    using ok [OF that] read [of k] that by (auto simp: field_complaint_none required_string_ok)
  have tier_ok: "field_ok p (required_field ''kycTier'' Ft_string) \<longleftrightarrow> is_nullish tier \<or> (\<exists>s. tier = JStr s \<and> s \<noteq> [])"
    using read [of "''kycTier''"] by (auto simp: required_string_ok)
  let ?result = "event\<lparr>ev_schemaVersion := ''2.0'', ev_payload := p\<rparr>"
  have loop: "upcast_loop default_steps ''1.0'' ''2.0'' event [''1.0''] [''1.0''] = Inr (?result, [''1.0'', ''2.0''])"
    using assms(2,3)
    by (simp add: upcast_loop.simps default_steps_eq step_key_def user_created_v2_def p_def tier_def payload_def Let_def)
  have val: "validateProducerEvent default_registry ?result =
    (if field_ok p (required_field ''kycTier'' Ft_string) then Inr ()
     else Inl (DomainEventValidationError ''user.created'' ''2.0'' (field_complaint p (required_field ''kycTier'' Ft_string))))"
    using assms(2) fields_ok [of "''userId''"] fields_ok [of "''email''"] fields_ok [of "''role''"]
    by (simp add: validateProducerEvent_def registry_evals p_def [symmetric] field_complaint_none [symmetric] Let_def)
      (simp add: p_def)
  have "upcast default_registry default_steps event ''2.0'' =
    (case validateProducerEvent default_registry ?result of Inl e \<Rightarrow> Inl e | Inr _ \<Rightarrow> Inr (?result, [''1.0'', ''2.0'']))"
    using assms(2,3) loop by (simp add: upcast_def registry_evals)
  moreover have "js_prop p ''kycTier'' = (if is_nullish tier then JStr ''unverified'' else tier)" using read [of "''kycTier''"] by simp
  moreover have "\<forall>k. k \<noteq> ''kycTier'' \<longrightarrow> map_of (js_entries p) k = map_of (js_entries payload) k"
    by (simp add: p_def js_simps)
  ultimately show ?thesis using val tier_ok by (auto simp: Let_def payload_def tier_def)
qed

theorem default_upcast_exact_witness:
  "let payload = JObj True [(''userId'', JStr ''u''), (''email'', JStr ''m''), (''role'', JStr ''user''), (''kycTier'', JStr [])]
   in \<exists>fields. upcast default_registry default_steps (stored_user ''1.0'' payload) ''2.0'' =
     Inl (DomainEventValidationError ''user.created'' ''2.0'' fields)"
proof -
  define payload where "payload = JObj True [(''userId'', JStr ''u''), (''email'', JStr ''m''), (''role'', JStr ''user''), (''kycTier'', JStr [])]"
  have "validateProducerEvent default_registry (stored_user ''1.0'' payload) = Inr ()"
    by (simp add: stored_user_def payload_def js_prop_def Let_def registry_evals validateProducerEvent_def field_complaint_def)
  from default_upcast_exact [OF this] show ?thesis
    by (simp add: stored_user_def payload_def js_prop_def is_nullish_def Let_def)
qed

end
