(* ===== verification/Event_Replay.thy ===== *)
theory Event_Replay
  imports Event_Upcaster
begin

text \<open>
  Rebuilding projections from stored events, \<open>src/common/events/replay/event-replay.ts\<close>: the replay
  engine (ordering, ledger checks, upcasting, retries, the poison policy, checkpoints, publication), the
  in-memory checkpoint and projection stores, the array source, the operator facade
  \<open>projection-replay.service.ts\<close> and the \<open>user-directory\<close> projection.

  The stores are arguments of the engine: operations on a world that may throw.  A source yields a list
  of events and then ends or throws.  A projection's \<open>apply\<close> is an argument that may throw and may do
  so on some attempts only.  Its state is any type, with the JavaScript value that is hashed for it.
  SHA-256 and the two readings of the clock a run reports are arguments.  \<open>structuredClone\<close> copies: in
  the model values are never shared.
\<close>

section \<open>Data\<close>

record StoredEvent = DomainEventEnvelope +
  se_sequence :: int

type_synonym EventSource = "int \<Rightarrow> StoredEvent list \<times> event_error option"

record 's ProjectionDefinition =
  pd_name :: string
  pd_version :: int
  pd_handles :: "(string, string) jsmap"
  pd_initialState :: 's
  pd_apply :: "nat \<Rightarrow> 's \<Rightarrow> StoredEvent \<Rightarrow> (event_error, 's) result"
  pd_json :: "'s \<Rightarrow> js_value"

record 's ProjectionCheckpoint =
  ck_projection :: string
  ck_version :: int
  ck_sequence :: int
  ck_state :: 's
  ck_savedAt :: string

record 's PublishedProjection =
  pp_projection :: string
  pp_version :: int
  pp_sequence :: int
  pp_state :: 's
  pp_stateHash :: string
  pp_publishedAt :: string

record ('w, 's) CheckpointStore =
  cs_load :: "string \<Rightarrow> int \<Rightarrow> ('w, 's ProjectionCheckpoint option) effect"
  cs_save :: "'s ProjectionCheckpoint \<Rightarrow> ('w, unit) effect"
  cs_clear :: "string \<Rightarrow> int \<Rightarrow> ('w, unit) effect"

record ('w, 's) ProjectionStore =
  ps_getActive :: "string \<Rightarrow> ('w, 's PublishedProjection option) effect"
  ps_swap :: "'s PublishedProjection \<Rightarrow> ('w, 's PublishedProjection option) effect"
  ps_rollback :: "string \<Rightarrow> ('w, 's PublishedProjection option) effect"

datatype PoisonPolicy = Policy_halt | Policy_skip

record ReplayOptions =
  ro_resume :: "bool option"
  ro_checkpointEvery :: "int option"
  ro_onPoisonEvent :: "PoisonPolicy option"
  ro_maxApplyAttempts :: "int option"
  ro_dryRun :: "bool option"
  ro_limit :: "int option"

record PoisonEventRecord =
  pe_sequence :: int
  pe_eventId :: string
  pe_eventName :: string
  pe_schemaVersion :: string
  pe_reason :: string

datatype ReplayOutcome = Published | Dry_run | Halted | Aborted

record ReplayReport =
  rp_projection :: string
  rp_version :: int
  rp_outcome :: ReplayOutcome
  rp_resumedFromSequence :: int
  rp_lastSequence :: int
  rp_eventsRead :: nat
  rp_applied :: nat
  rp_ignored :: nat
  rp_duplicates :: nat
  rp_upcasts :: "(string, nat) jsmap"
  rp_poisonEvents :: "PoisonEventRecord list"
  rp_checkpoints :: nat
  rp_stateHash :: "string option"
  rp_durationMs :: int
  rp_error :: "string option"

datatype replay_error =
    ReplayAbortedError string ReplayReport
  | ReplayInProgressError string
  | Raised event_error
  | NotFoundException string
  | PlainError string

section \<open>Hashes\<close>

fun replay_canonicalize :: "js_value \<Rightarrow> (event_error, string option) result" where
  "replay_canonicalize JUndefined = Inr (Some ''null'')"
| "replay_canonicalize (JArr xs) =
     render_array (map (\<lambda>x. case x of None \<Rightarrow> Inr None | Some v \<Rightarrow> replay_canonicalize v) xs)"
| "replay_canonicalize (JObj pl entries) =
     render_object (map (\<lambda>(k, v, r). (k, r))
       (filter (\<lambda>(k, v, r). v \<noteq> JUndefined) (map (\<lambda>(k, v). (k, v, replay_canonicalize v)) entries)))"
| "replay_canonicalize (JDate t) = Inr (Some ''{}'')"
| "replay_canonicalize v = stringify_scalar v"

definition digest :: "(string \<Rightarrow> string) \<Rightarrow> js_value \<Rightarrow> (event_error, string) result" where
  "digest sha v = (case replay_canonicalize v of Inl e \<Rightarrow> Inl e | Inr c \<Rightarrow> sha256 sha c)"

definition hashState :: "(string \<Rightarrow> string) \<Rightarrow> js_value \<Rightarrow> (event_error, string) result" where
  "hashState sha state = digest sha state"

definition ledgerHash :: "(string \<Rightarrow> string) \<Rightarrow> StoredEvent \<Rightarrow> (event_error, string) result" where
  "ledgerHash sha event =
     (case digest sha (ev_payload event) of
        Inl e \<Rightarrow> Inl e
      | Inr payloadHash \<Rightarrow> Inr (sha (chain_text (se_sequence event) (ev_previousHash event) payloadHash)))"

section \<open>The engine\<close>

record ('w, 's) EventReplayEngine =
  en_checkpoints :: "('w, 's) CheckpointStore"
  en_projections :: "('w, 's) ProjectionStore"
  en_upcasters :: upcast_steps
  en_schemas :: DomainEventRegistry
  en_sha :: "string \<Rightarrow> string"
  en_now :: string
  en_elapsed :: int

text \<open>The settings of a run after the defaults.\<close>

definition checkpointEvery :: "ReplayOptions \<Rightarrow> int" where
  "checkpointEvery options = max 1 (case ro_checkpointEvery options of None \<Rightarrow> 500 | Some n \<Rightarrow> n)"

definition maxApplyAttempts :: "ReplayOptions \<Rightarrow> int" where
  "maxApplyAttempts options = max 1 (case ro_maxApplyAttempts options of None \<Rightarrow> 3 | Some n \<Rightarrow> n)"

definition poison_policy :: "ReplayOptions \<Rightarrow> PoisonPolicy" where
  "poison_policy options = (case ro_onPoisonEvent options of None \<Rightarrow> Policy_halt | Some p \<Rightarrow> p)"

definition dryRun :: "ReplayOptions \<Rightarrow> bool" where
  "dryRun options = (case ro_dryRun options of None \<Rightarrow> False | Some b \<Rightarrow> b)"

text \<open>The variables of a run.\<close>

record 's replay_run =
  rr_state :: 's
  rr_lastSequence :: int
  rr_lastHash :: "string option"
  rr_sinceCheckpoint :: int
  rr_progressed :: bool
  rr_report :: ReplayReport

definition new_report :: "'s ProjectionDefinition \<Rightarrow> int \<Rightarrow> ReplayReport" where
  "new_report projection lastSequence =
     \<lparr>rp_projection = pd_name projection, rp_version = pd_version projection, rp_outcome = Published,
      rp_resumedFromSequence = lastSequence, rp_lastSequence = lastSequence, rp_eventsRead = 0, rp_applied = 0,
      rp_ignored = 0, rp_duplicates = 0, rp_upcasts = [], rp_poisonEvents = [], rp_checkpoints = 0,
      rp_stateHash = None, rp_durationMs = 0, rp_error = None\<rparr>"

definition new_run :: "'s ProjectionDefinition \<Rightarrow> 's ProjectionCheckpoint option \<Rightarrow> 's replay_run" where
  "new_run projection checkpoint =
     (let lastSequence = (case checkpoint of None \<Rightarrow> 0 | Some c \<Rightarrow> ck_sequence c)
      in \<lparr>rr_state = (case checkpoint of None \<Rightarrow> pd_initialState projection | Some c \<Rightarrow> ck_state c),
          rr_lastSequence = lastSequence, rr_lastHash = None, rr_sinceCheckpoint = 0, rr_progressed = False,
          rr_report = new_report projection lastSequence\<rparr>)"

definition finish ::
  "('w, 's) EventReplayEngine \<Rightarrow> 's ProjectionDefinition \<Rightarrow> 's replay_run \<Rightarrow> ReplayOutcome \<Rightarrow> string option
    \<Rightarrow> (event_error, ReplayReport) result" where
  "finish en projection rr outcome err =
     (case hashState (en_sha en) (pd_json projection (rr_state rr)) of
        Inl e \<Rightarrow> Inl e
      | Inr h \<Rightarrow> Inr ((rr_report rr)\<lparr>rp_outcome := outcome, rp_lastSequence := rr_lastSequence rr,
          rp_stateHash := Some h, rp_durationMs := en_elapsed en,
          rp_error := (case err of None \<Rightarrow> rp_error (rr_report rr) | Some m \<Rightarrow> Some m)\<rparr>))"

definition abort ::
  "('w, 's) EventReplayEngine \<Rightarrow> 's ProjectionDefinition \<Rightarrow> 's replay_run \<Rightarrow> string \<Rightarrow> string \<Rightarrow> replay_error" where
  "abort en projection rr message reason =
     (case finish en projection rr Aborted (Some reason) of
        Inl e \<Rightarrow> Raised e
      | Inr report \<Rightarrow> ReplayAbortedError message report)"

text \<open>The tamper check: the error to throw, if any.\<close>

definition ledger_check ::
  "('w, 's) EventReplayEngine \<Rightarrow> 's ProjectionDefinition \<Rightarrow> StoredEvent \<Rightarrow> 's replay_run \<Rightarrow> (replay_error, 's replay_run) result" where
  "ledger_check en projection event rr =
     (case ev_hash event of
        None \<Rightarrow> Inr rr
      | Some h \<Rightarrow>
          if h = [] then Inr rr
          else if rr_lastHash rr \<noteq> None \<and> ev_previousHash event \<noteq> rr_lastHash rr
          then Inl (abort en projection rr (''Ledger chain broken at sequence '' @ show_int (se_sequence event)) ''ledger chain mismatch'')
          else case ledgerHash (en_sha en) event of
            Inl e \<Rightarrow> Inl (Raised e)
          | Inr h' \<Rightarrow>
              if h' \<noteq> h
              then Inl (abort en projection rr (''Ledger hash mismatch at sequence '' @ show_int (se_sequence event)) ''ledger hash mismatch'')
              else Inr (rr\<lparr>rr_lastHash := Some h\<rparr>))"

text \<open>Attempts \<open>attempt\<close>, \<open>attempt + 1\<close>, \dots, as many as are left.\<close>

fun apply_attempts ::
  "'s ProjectionDefinition \<Rightarrow> 's \<Rightarrow> StoredEvent \<Rightarrow> nat \<Rightarrow> nat \<Rightarrow> event_error \<Rightarrow> (event_error, 's) result" where
  "apply_attempts projection state event attempt 0 lastError = Inl lastError"
| "apply_attempts projection state event attempt (Suc left) lastError =
     (case pd_apply projection attempt state event of
        Inr state' \<Rightarrow> Inr state'
      | Inl e \<Rightarrow> apply_attempts projection state event (Suc attempt) left e)"

definition applyWithRetry ::
  "'s ProjectionDefinition \<Rightarrow> 's \<Rightarrow> StoredEvent \<Rightarrow> int \<Rightarrow> (event_error, 's) result" where
  "applyWithRetry projection state event maxAttempts =
     apply_attempts projection state event 1 (nat maxAttempts) (OtherError ''undefined'')"

definition upcast_label :: "StoredEvent \<Rightarrow> string list \<Rightarrow> string" where
  "upcast_label event path = ev_eventName event @ '' '' @ hd path @ ''->'' @ last path"

definition count_upcast :: "StoredEvent \<Rightarrow> string list \<Rightarrow> ReplayReport \<Rightarrow> ReplayReport" where
  "count_upcast event path report =
     (if path = [] then report
      else let key = upcast_label event path
           in report\<lparr>rp_upcasts := map_set key
                (Suc (case map_get (rp_upcasts report) key of None \<Rightarrow> 0 | Some n \<Rightarrow> n)) (rp_upcasts report)\<rparr>)"

text \<open>
  The body of the \<open>try\<close>: validate as stored, upcast, apply.  The report already counts an upcast when
  the handler fails after it.
\<close>

definition apply_event ::
  "('w, 's) EventReplayEngine \<Rightarrow> 's ProjectionDefinition \<Rightarrow> ReplayOptions \<Rightarrow> string \<Rightarrow> StoredEvent \<Rightarrow> 's \<Rightarrow> ReplayReport
    \<Rightarrow> (event_error, 's) result \<times> ReplayReport" where
  "apply_event en projection options targetVersion event state report =
     (if getSchema (en_schemas en) (ev_eventName event) (ev_schemaVersion event) = None
      then (Inl (UnknownEventVersionError (ev_eventName event) (ev_schemaVersion event)), report)
      else case validateProducerEvent (en_schemas en) event of
        Inl e \<Rightarrow> (Inl e, report)
      | Inr _ \<Rightarrow>
          (case upcast (en_schemas en) (en_upcasters en) event targetVersion of
             Inl e \<Rightarrow> (Inl e, report)
           | Inr (up, path) \<Rightarrow>
               let report1 = count_upcast event path report in
               (case applyWithRetry projection state (up\<lparr>se_sequence := se_sequence event\<rparr>) (maxApplyAttempts options) of
                  Inl e \<Rightarrow> (Inl e, report1)
                | Inr state' \<Rightarrow> (Inr state', report1\<lparr>rp_applied := Suc (rp_applied report1)\<rparr>))))"

fun poison_reason :: "event_error \<Rightarrow> string" where
  "poison_reason (TypeError m) = ''apply failed: '' @ m"
| "poison_reason (OtherError m) = ''apply failed: '' @ m"
| "poison_reason e = error_message e"

definition poison_record :: "StoredEvent \<Rightarrow> string \<Rightarrow> PoisonEventRecord" where
  "poison_record event reason = \<lparr>pe_sequence = se_sequence event, pe_eventId = ev_eventId event,
     pe_eventName = ev_eventName event, pe_schemaVersion = ev_schemaVersion event, pe_reason = reason\<rparr>"

text \<open>After an event: go on, leave the loop, or end the run with a report or an exception.\<close>

datatype ('w, 's) step_result =
    Continue "'s replay_run" 'w
  | Break "'s replay_run" 'w
  | Return "(replay_error, ReplayReport) result" 'w

definition save_checkpoint ::
  "('w, 's) EventReplayEngine \<Rightarrow> 's ProjectionDefinition \<Rightarrow> ReplayOptions \<Rightarrow> 's replay_run \<Rightarrow> 'w \<Rightarrow> ('w, 's) step_result" where
  "save_checkpoint en projection options rr w =
     (if \<not> dryRun options \<and> rr_sinceCheckpoint rr \<ge> checkpointEvery options then
        (case cs_save (en_checkpoints en)
            \<lparr>ck_projection = pd_name projection, ck_version = pd_version projection, ck_sequence = rr_lastSequence rr,
             ck_state = rr_state rr, ck_savedAt = en_now en\<rparr> w of
           (Inl e, w1) \<Rightarrow> Return (Inl (Raised e)) w1
         | (Inr _, w1) \<Rightarrow>
             Continue (rr\<lparr>rr_report := (rr_report rr)\<lparr>rp_checkpoints := Suc (rp_checkpoints (rr_report rr))\<rparr>,
               rr_sinceCheckpoint := 0\<rparr>) w1)
      else Continue rr w)"

definition handle_event ::
  "('w, 's) EventReplayEngine \<Rightarrow> 's ProjectionDefinition \<Rightarrow> ReplayOptions \<Rightarrow> string \<Rightarrow> StoredEvent \<Rightarrow> 's replay_run \<Rightarrow> 'w
    \<Rightarrow> ('w, 's) step_result" where
  "handle_event en projection options targetVersion event rr w =
     (let applied = apply_event en projection options targetVersion event (rr_state rr) (rr_report rr);
          report = snd applied
      in case fst applied of
           Inr state \<Rightarrow>
             save_checkpoint en projection options
               (rr\<lparr>rr_state := state, rr_report := report, rr_lastSequence := se_sequence event,
                  rr_sinceCheckpoint := rr_sinceCheckpoint rr + 1\<rparr>) w
         | Inl e \<Rightarrow>
             let reason = poison_reason e;
                 rr1 = rr\<lparr>rr_report := report\<lparr>rp_poisonEvents := rp_poisonEvents report @ [poison_record event reason]\<rparr>\<rparr>
             in if poison_policy options = Policy_halt
                then Return (case finish en projection rr1 Halted
                         (Some (''halted at sequence '' @ show_int (se_sequence event) @ '': '' @ reason)) of
                       Inl e' \<Rightarrow> Inl (Raised e') | Inr rep \<Rightarrow> Inr rep) w
                else save_checkpoint en projection options
                       (rr1\<lparr>rr_lastSequence := se_sequence event, rr_sinceCheckpoint := rr_sinceCheckpoint rr + 1\<rparr>) w)"

definition bump_read :: "'s replay_run \<Rightarrow> 's replay_run" where
  "bump_read rr = rr\<lparr>rr_report := (rr_report rr)\<lparr>rp_eventsRead := Suc (rp_eventsRead (rr_report rr))\<rparr>\<rparr>"

definition bump_duplicates :: "'s replay_run \<Rightarrow> 's replay_run" where
  "bump_duplicates rr = rr\<lparr>rr_report := (rr_report rr)\<lparr>rp_duplicates := Suc (rp_duplicates (rr_report rr))\<rparr>\<rparr>"

definition bump_ignored :: "'s replay_run \<Rightarrow> 's replay_run" where
  "bump_ignored rr = rr\<lparr>rr_report := (rr_report rr)\<lparr>rp_ignored := Suc (rp_ignored (rr_report rr))\<rparr>\<rparr>"

definition limit_reached :: "ReplayOptions \<Rightarrow> 's replay_run \<Rightarrow> bool" where
  "limit_reached options rr =
     (case ro_limit options of None \<Rightarrow> False | Some l \<Rightarrow> int (rp_eventsRead (rr_report rr)) \<ge> l)"

definition replay_event ::
  "('w, 's) EventReplayEngine \<Rightarrow> 's ProjectionDefinition \<Rightarrow> ReplayOptions \<Rightarrow> StoredEvent \<Rightarrow> 's replay_run \<Rightarrow> 'w
    \<Rightarrow> ('w, 's) step_result" where
  "replay_event en projection options event rr w =
     (if limit_reached options rr then Break rr w
      else let rr1 = bump_read rr in
        if se_sequence event \<le> rr_lastSequence rr1 then
          if se_sequence event = rr_lastSequence rr1 \<or> \<not> rr_progressed rr1
          then Continue (bump_duplicates rr1) w
          else Return (Inl (abort en projection rr1
            (''Event stream went backwards at sequence '' @ show_int (se_sequence event) @ '' (after ''
              @ show_int (rr_lastSequence rr1) @ '')'') ''sequence regression'')) w
        else case ledger_check en projection event rr1 of
          Inl e \<Rightarrow> Return (Inl e) w
        | Inr rr2 \<Rightarrow>
            let rr3 = rr2\<lparr>rr_progressed := True\<rparr> in
            (case map_get (pd_handles projection) (ev_eventName event) of
               None \<Rightarrow> Continue ((bump_ignored rr3)\<lparr>rr_lastSequence := se_sequence event\<rparr>) w
             | Some targetVersion \<Rightarrow> handle_event en projection options targetVersion event rr3 w))"

text \<open>The loop over what the source yields; \<open>failure\<close> is what the source throws at the end.\<close>

fun replay_loop ::
  "('w, 's) EventReplayEngine \<Rightarrow> 's ProjectionDefinition \<Rightarrow> ReplayOptions \<Rightarrow> StoredEvent list \<Rightarrow> event_error option
    \<Rightarrow> 's replay_run \<Rightarrow> 'w \<Rightarrow> ('w, 's) step_result" where
  "replay_loop en projection options [] failure rr w =
     (case failure of None \<Rightarrow> Continue rr w | Some e \<Rightarrow> Return (Inl (Raised e)) w)"
| "replay_loop en projection options (event # events) failure rr w =
     (case replay_event en projection options event rr w of
        Continue rr1 w1 \<Rightarrow> replay_loop en projection options events failure rr1 w1
      | Break rr1 w1 \<Rightarrow> Break rr1 w1
      | Return r w1 \<Rightarrow> Return r w1)"

definition publish_run ::
  "('w, 's) EventReplayEngine \<Rightarrow> 's ProjectionDefinition \<Rightarrow> ReplayOptions \<Rightarrow> 's replay_run \<Rightarrow> 'w
    \<Rightarrow> (replay_error, ReplayReport) result \<times> 'w" where
  "publish_run en projection options rr w =
     (if dryRun options
      then (case finish en projection rr Dry_run None of Inl e \<Rightarrow> (Inl (Raised e), w) | Inr rep \<Rightarrow> (Inr rep, w))
      else case finish en projection rr Published None of
        Inl e \<Rightarrow> (Inl (Raised e), w)
      | Inr rep \<Rightarrow>
          (case ps_swap (en_projections en)
              \<lparr>pp_projection = pd_name projection, pp_version = pd_version projection, pp_sequence = rr_lastSequence rr,
               pp_state = rr_state rr, pp_stateHash = the (rp_stateHash rep), pp_publishedAt = en_now en\<rparr> w of
             (Inl e, w1) \<Rightarrow> (Inl (Raised e), w1)
           | (Inr _, w1) \<Rightarrow>
               (case cs_clear (en_checkpoints en) (pd_name projection) (pd_version projection) w1 of
                  (Inl e, w2) \<Rightarrow> (Inl (Raised e), w2)
                | (Inr _, w2) \<Rightarrow> (Inr rep, w2))))"

definition run_from ::
  "('w, 's) EventReplayEngine \<Rightarrow> 's ProjectionDefinition \<Rightarrow> EventSource \<Rightarrow> ReplayOptions \<Rightarrow> 's ProjectionCheckpoint option
    \<Rightarrow> 'w \<Rightarrow> (replay_error, ReplayReport) result \<times> 'w" where
  "run_from en projection source options checkpoint w =
     (let rr = new_run projection checkpoint;
          (events, failure) = source (rr_lastSequence rr)
      in case replay_loop en projection options events failure rr w of
           Return r w1 \<Rightarrow> (r, w1)
         | Break rr1 w1 \<Rightarrow> publish_run en projection options rr1 w1
         | Continue rr1 w1 \<Rightarrow> publish_run en projection options rr1 w1)"

definition run_replay ::
  "('w, 's) EventReplayEngine \<Rightarrow> 's ProjectionDefinition \<Rightarrow> EventSource \<Rightarrow> ReplayOptions \<Rightarrow> 'w
    \<Rightarrow> (replay_error, ReplayReport) result \<times> 'w" where
  "run_replay en projection source options w =
     (if ro_resume options = Some False \<or> dryRun options
      then run_from en projection source options None w
      else case cs_load (en_checkpoints en) (pd_name projection) (pd_version projection) w of
        (Inl e, w1) \<Rightarrow> (Inl (Raised e), w1)
      | (Inr checkpoint, w1) \<Rightarrow> run_from en projection source options checkpoint w1)"

text \<open>
  \<open>rebuild\<close> with the set of projections being rebuilt.  The set holds the name while the run is under
  way, and loses it however the run ends.
\<close>

definition rebuild ::
  "('w, 's) EventReplayEngine \<Rightarrow> 's ProjectionDefinition \<Rightarrow> EventSource \<Rightarrow> ReplayOptions \<Rightarrow> string list \<times> 'w
    \<Rightarrow> (replay_error, ReplayReport) result \<times> string list \<times> 'w" where
  "rebuild en projection source options = (\<lambda>(running, w).
     if pd_name projection \<in> set running then (Inl (ReplayInProgressError (pd_name projection)), running, w)
     else let running1 = set_add (pd_name projection) running in
       (case run_replay en projection source options w of
          (r, w1) \<Rightarrow> (r, removeAll (pd_name projection) running1, w1)))"

definition rollback_projection ::
  "('w, 's) EventReplayEngine \<Rightarrow> string \<Rightarrow> ('w, 's PublishedProjection option) effect" where
  "rollback_projection en name w = ps_rollback (en_projections en) name w"

section \<open>In-memory stores\<close>

record 's mem_world =
  mw_checkpoints :: "(string, 's ProjectionCheckpoint) jsmap"
  mw_active :: "(string, 's PublishedProjection) jsmap"
  mw_previous :: "(string, 's PublishedProjection) jsmap"

definition checkpoint_key :: "string \<Rightarrow> int \<Rightarrow> string" where
  "checkpoint_key projection version = projection @ ''@'' @ show_int version"

definition mem_load :: "string \<Rightarrow> int \<Rightarrow> ('s mem_world, 's ProjectionCheckpoint option) effect" where
  "mem_load projection version w = (Inr (map_get (mw_checkpoints w) (checkpoint_key projection version)), w)"

definition mem_save :: "'s ProjectionCheckpoint \<Rightarrow> ('s mem_world, unit) effect" where
  "mem_save c w =
     (Inr (), w\<lparr>mw_checkpoints := map_set (checkpoint_key (ck_projection c) (ck_version c)) c (mw_checkpoints w)\<rparr>)"

definition mem_clear :: "string \<Rightarrow> int \<Rightarrow> ('s mem_world, unit) effect" where
  "mem_clear projection version w =
     (Inr (), w\<lparr>mw_checkpoints := map_delete (checkpoint_key projection version) (mw_checkpoints w)\<rparr>)"

definition mem_getActive :: "string \<Rightarrow> ('s mem_world, 's PublishedProjection option) effect" where
  "mem_getActive projection w = (Inr (map_get (mw_active w) projection), w)"

definition mem_swap :: "'s PublishedProjection \<Rightarrow> ('s mem_world, 's PublishedProjection option) effect" where
  "mem_swap nxt w =
     (let current = map_get (mw_active w) (pp_projection nxt);
          w1 = (case current of
                  None \<Rightarrow> w
                | Some c \<Rightarrow> w\<lparr>mw_previous := map_set (pp_projection nxt) c (mw_previous w)\<rparr>)
      in (Inr current, w1\<lparr>mw_active := map_set (pp_projection nxt) nxt (mw_active w1)\<rparr>))"

definition mem_rollback :: "string \<Rightarrow> ('s mem_world, 's PublishedProjection option) effect" where
  "mem_rollback projection w =
     (case map_get (mw_previous w) projection of
        None \<Rightarrow> (Inr None, w)
      | Some prior \<Rightarrow>
          (Inr (Some prior), w\<lparr>mw_active := map_set projection prior (mw_active w),
             mw_previous := map_delete projection (mw_previous w)\<rparr>))"

definition InMemoryCheckpointStore :: "('s mem_world, 's) CheckpointStore" where
  "InMemoryCheckpointStore = \<lparr>cs_load = mem_load, cs_save = mem_save, cs_clear = mem_clear\<rparr>"

definition InMemoryProjectionStore :: "('s mem_world, 's) ProjectionStore" where
  "InMemoryProjectionStore = \<lparr>ps_getActive = mem_getActive, ps_swap = mem_swap, ps_rollback = mem_rollback\<rparr>"

definition arraySource :: "StoredEvent list \<Rightarrow> EventSource" where
  "arraySource events afterSequence = (filter (\<lambda>event. afterSequence < se_sequence event) events, None)"

section \<open>The reference: a fold over the new events\<close>

text \<open>
  A stream is read as the events that move the sequence forward.  The reference checks the ledger
  links of these events and folds the projection over them.
\<close>

fun effective :: "int \<Rightarrow> StoredEvent list \<Rightarrow> StoredEvent list" where
  "effective lst [] = []"
| "effective lst (e # es) = (if se_sequence e \<le> lst then effective lst es else e # effective (se_sequence e) es)"

definition chain_step :: "(string \<Rightarrow> string) \<Rightarrow> string option \<Rightarrow> StoredEvent \<Rightarrow> string option option" where
  "chain_step sha lst e =
     (case ev_hash e of
        None \<Rightarrow> Some lst
      | Some h \<Rightarrow>
          if h = [] then Some lst
          else if (lst = None \<or> ev_previousHash e = lst) \<and> ledgerHash sha e = Inr h then Some (Some h)
          else None)"

fun chain_ok :: "(string \<Rightarrow> string) \<Rightarrow> string option \<Rightarrow> StoredEvent list \<Rightarrow> bool" where
  "chain_ok sha lst [] = True"
| "chain_ok sha lst (e # es) = (case chain_step sha lst e of None \<Rightarrow> False | Some h \<Rightarrow> chain_ok sha h es)"

definition event_result ::
  "('w, 's) EventReplayEngine \<Rightarrow> 's ProjectionDefinition \<Rightarrow> ReplayOptions \<Rightarrow> string \<Rightarrow> StoredEvent \<Rightarrow> 's \<Rightarrow> (event_error, 's) result" where
  "event_result en pr opts tv e s = fst (apply_event en pr opts tv e s (new_report pr 0))"

definition project_event ::
  "('w, 's) EventReplayEngine \<Rightarrow> 's ProjectionDefinition \<Rightarrow> ReplayOptions \<Rightarrow> StoredEvent \<Rightarrow> 's \<Rightarrow> 's option" where
  "project_event en pr opts e s =
     (case map_get (pd_handles pr) (ev_eventName e) of
        None \<Rightarrow> Some s
      | Some tv \<Rightarrow>
          (case event_result en pr opts tv e s of
             Inr s' \<Rightarrow> Some s'
           | Inl _ \<Rightarrow> if poison_policy opts = Policy_halt then None else Some s))"

fun project ::
  "('w, 's) EventReplayEngine \<Rightarrow> 's ProjectionDefinition \<Rightarrow> ReplayOptions \<Rightarrow> StoredEvent list \<Rightarrow> 's \<Rightarrow> 's option" where
  "project en pr opts [] s = Some s"
| "project en pr opts (e # es) s =
     (case project_event en pr opts e s of None \<Rightarrow> None | Some s' \<Rightarrow> project en pr opts es s')"

definition last_seq :: "int \<Rightarrow> StoredEvent list \<Rightarrow> int" where
  "last_seq lst es = (if es = [] then lst else se_sequence (last es))"

definition rising :: "int \<Rightarrow> StoredEvent list \<Rightarrow> bool" where
  "rising lst es \<longleftrightarrow> sorted_wrt (<) (lst # map se_sequence es)"

lemma rising_simps [simp]:
  "rising lst []"
  "rising lst (e # es) \<longleftrightarrow> lst < se_sequence e \<and> rising (se_sequence e) es"
  by (auto simp: rising_def)

lemma rising_effective: "rising lst es \<Longrightarrow> effective lst es = es"
  by (induction es arbitrary: lst) auto

lemma effective_rising: "rising lst (effective lst es)"
  by (induction es arbitrary: lst) auto

lemma last_seq_simps [simp]:
  "last_seq lst [] = lst"
  "last_seq lst (e # es) = last_seq (se_sequence e) es"
  by (auto simp: last_seq_def)

lemma project_append:
  "project en pr opts (xs @ ys) s = (case project en pr opts xs s of None \<Rightarrow> None | Some s' \<Rightarrow> project en pr opts ys s')"
  by (induction xs arbitrary: s) (auto split: option.splits)

lemma chain_ok_forget: "chain_ok sha lst es \<Longrightarrow> chain_ok sha None es"
proof (induction es arbitrary: lst)
  case (Cons e es)
  then obtain h where h: "chain_step sha lst e = Some h" "chain_ok sha h es" by (auto split: option.splits)
  then have "chain_step sha None e = Some h \<or> chain_step sha None e = Some None"
    by (auto simp: chain_step_def split: option.splits if_splits)
  with h(2) Cons.IH [OF h(2)] show ?case by auto
qed simp

lemma chain_ok_append:
  "chain_ok sha lst (xs @ ys) \<Longrightarrow> chain_ok sha lst xs \<and> (\<exists>h. chain_ok sha h ys)"
  by (induction xs arbitrary: lst) (auto split: option.splits)

lemma rising_append: "rising q (xs @ ys) \<longleftrightarrow> rising q xs \<and> rising (last_seq q xs) ys"
  by (induction xs arbitrary: q) auto

lemma rising_last_seq: "rising q xs \<Longrightarrow> q \<le> last_seq q xs \<and> (\<forall>e \<in> set xs. se_sequence e \<le> last_seq q xs)"
  by (induction xs arbitrary: q) fastforce+

lemma rising_above: "rising q xs \<Longrightarrow> e \<in> set xs \<Longrightarrow> q < se_sequence e"
  by (induction xs arbitrary: q) fastforce+

lemma arraySource_suffix:
  assumes "rising q (xs @ ys)"
  shows "arraySource (xs @ ys) (last_seq q xs) = (ys, None)"
proof -
  have "filter (\<lambda>e. last_seq q xs < se_sequence e) xs = []"
    using assms rising_last_seq [of q xs] by (auto simp: rising_append filter_empty_conv)
  moreover have "filter (\<lambda>e. last_seq q xs < se_sequence e) ys = ys"
    using assms rising_above [of "last_seq q xs" ys] by (auto simp: rising_append filter_id_conv)
  ultimately show ?thesis by (simp add: arraySource_def)
qed

section \<open>One event\<close>

lemma apply_event_result: "fst (apply_event en pr opts tv e s r) = event_result en pr opts tv e s"
  by (auto simp: event_result_def apply_event_def Let_def split: sum.splits)

lemma handle_event_cases:
  obtains (applied) s' r where "event_result en pr opts tv e (rr_state rr) = Inr s'"
      "handle_event en pr opts tv e rr w = save_checkpoint en pr opts
         (rr\<lparr>rr_state := s', rr_report := r, rr_lastSequence := se_sequence e, rr_sinceCheckpoint := rr_sinceCheckpoint rr + 1\<rparr>) w"
    | (halted) x rr1 m where "event_result en pr opts tv e (rr_state rr) = Inl x" "poison_policy opts = Policy_halt"
      "handle_event en pr opts tv e rr w = Return (case finish en pr rr1 Halted (Some m) of
         Inl e' \<Rightarrow> Inl (Raised e') | Inr rep \<Rightarrow> Inr rep) w"
    | (skipped) x r where "event_result en pr opts tv e (rr_state rr) = Inl x" "poison_policy opts \<noteq> Policy_halt"
      "handle_event en pr opts tv e rr w = save_checkpoint en pr opts
         (rr\<lparr>rr_report := r, rr_lastSequence := se_sequence e, rr_sinceCheckpoint := rr_sinceCheckpoint rr + 1\<rparr>) w"
proof (cases "event_result en pr opts tv e (rr_state rr)")
  case (Inr s')
  then show thesis by (intro applied) (auto simp: handle_event_def Let_def apply_event_result)
next
  case (Inl x)
  show thesis
  proof (cases "poison_policy opts = Policy_halt")
    case True
    then show thesis using Inl by (intro halted) (auto simp: handle_event_def Let_def apply_event_result)
  next
    case False
    then show thesis using Inl by (intro skipped) (auto simp: handle_event_def Let_def apply_event_result)
  qed
qed

lemma ledger_check_chain:
  "(case chain_step (en_sha en) (rr_lastHash rr) e of
      None \<Rightarrow> \<exists>x. ledger_check en pr e rr = Inl x
    | Some h \<Rightarrow> ledger_check en pr e rr = Inr (rr\<lparr>rr_lastHash := h\<rparr>))"
  by (cases rr) (auto simp: ledger_check_def chain_step_def split: option.splits sum.splits if_splits)

lemma unlimited: "ro_limit opts = None \<Longrightarrow> \<not> limit_reached opts rr"
  by (simp add: limit_reached_def)

lemma finish_outcome: "finish en pr rr oc err = Inr rep \<Longrightarrow> rp_outcome rep = oc"
  by (auto simp: finish_def split: sum.splits)

text \<open>A dry run calls neither store.\<close>

definition left_alone :: "'w \<Rightarrow> ('w, 's) step_result \<Rightarrow> bool" where
  "left_alone w r \<longleftrightarrow>
     (case r of
        Continue rr' w' \<Rightarrow> w' = w
      | Break rr' w' \<Rightarrow> w' = w
      | Return x w' \<Rightarrow> w' = w \<and> (\<forall>rep. x = Inr rep \<longrightarrow> rp_outcome rep = Halted))"

lemma handle_event_dry: "dryRun opts \<Longrightarrow> left_alone w (handle_event en pr opts tv e rr w)"
  by (cases rule: handle_event_cases [of en pr opts tv e rr w])
    (auto simp: left_alone_def save_checkpoint_def split: sum.splits dest: finish_outcome)

lemma replay_event_dry: "dryRun opts \<Longrightarrow> left_alone w (replay_event en pr opts e rr w)"
  using handle_event_dry
  by (auto simp: replay_event_def Let_def left_alone_def split: sum.splits option.splits)

lemma replay_loop_dry: "dryRun opts \<Longrightarrow> left_alone w (replay_loop en pr opts es f rr w)"
proof (induction es arbitrary: rr)
  case Nil
  then show ?case by (auto simp: left_alone_def split: option.splits)
next
  case (Cons e es)
  from replay_event_dry [OF Cons.prems, of w en pr e rr] Cons.IH [OF Cons.prems] show ?case
    by (cases "replay_event en pr opts e rr w") (auto simp: left_alone_def)
qed

lemma dry_run_left_alone:
  assumes "dryRun opts" "run_replay en pr source opts w = (r, w')"
  shows "w' = w \<and> (\<forall>rep. r = Inr rep \<longrightarrow> rp_outcome rep \<noteq> Published)"
proof -
  define rr where "rr = new_run pr None"
  obtain es f where src: "source (rr_lastSequence rr) = (es, f)" by fastforce
  from replay_loop_dry [OF assms(1), of w en pr es f rr] assms src show ?thesis
    by (cases "replay_loop en pr opts es f rr w")
      (auto simp: run_replay_def run_from_def rr_def [symmetric] left_alone_def publish_run_def
        split: sum.splits dest!: finish_outcome)
qed

section \<open>The stores the engine relies on\<close>

text \<open>
  What a checkpoint store and a projection store promise: a load returns what was saved last for the
  projection and its version, a swap makes the new version active, and neither store touches the
  other's data.
\<close>

locale replay_stores =
  fixes en :: "('w, 's) EventReplayEngine"
    and saved :: "'w \<Rightarrow> string \<Rightarrow> int \<Rightarrow> 's ProjectionCheckpoint option"
    and shown :: "'w \<Rightarrow> string \<Rightarrow> 's PublishedProjection option \<times> 's PublishedProjection option"
  assumes load_saved: "cs_load (en_checkpoints en) n v w = (Inr (saved w n v), w)"
    and save_saved: "\<exists>w'. cs_save (en_checkpoints en) c w = (Inr (), w') \<and> shown w' = shown w \<and>
      (\<forall>n v. saved w' n v = (if n = ck_projection c \<and> v = ck_version c then Some c else saved w n v))"
    and clear_saved: "\<exists>w'. cs_clear (en_checkpoints en) n v w = (Inr (), w') \<and> shown w' = shown w \<and>
      (\<forall>n' v'. saved w' n' v' = (if n' = n \<and> v' = v then None else saved w n' v'))"
    and swap_shown: "\<exists>r w'. ps_swap (en_projections en) nxt w = (Inr r, w') \<and> saved w' = saved w \<and>
      shown w' = (shown w)(pp_projection nxt := (Some nxt, case fst (shown w (pp_projection nxt)) of
        None \<Rightarrow> snd (shown w (pp_projection nxt)) | Some c \<Rightarrow> Some c))"
    and rollback_none: "snd (shown w n) = None \<Longrightarrow> ps_rollback (en_projections en) n w = (Inr None, w)"
    and rollback_some: "snd (shown w n) = Some p \<Longrightarrow> \<exists>w'. ps_rollback (en_projections en) n w = (Inr (Some p), w') \<and>
      shown w' = (shown w)(n := (Some p, None))"
begin

text \<open>A saved checkpoint is the one of a run.\<close>

definition marks :: "'s ProjectionDefinition \<Rightarrow> 's ProjectionCheckpoint \<Rightarrow> int \<Rightarrow> 's \<Rightarrow> bool" where
  "marks pr c q s \<longleftrightarrow> ck_sequence c = q \<and> ck_state c = s"

definition saved_by :: "'s ProjectionDefinition \<Rightarrow> 'w \<Rightarrow> 'w \<Rightarrow> int \<Rightarrow> 's \<Rightarrow> bool" where
  "saved_by pr w w' q s \<longleftrightarrow> saved w' (pd_name pr) (pd_version pr) = saved w (pd_name pr) (pd_version pr) \<or>
     (\<exists>c. saved w' (pd_name pr) (pd_version pr) = Some c \<and> marks pr c q s)"

lemma save_checkpoint_continues:
  "\<exists>rr' w'. save_checkpoint en pr opts rr w = Continue rr' w' \<and> rr_state rr' = rr_state rr \<and>
     rr_lastSequence rr' = rr_lastSequence rr \<and> rr_lastHash rr' = rr_lastHash rr \<and> rr_progressed rr' = rr_progressed rr \<and>
     shown w' = shown w \<and> saved_by pr w w' (rr_lastSequence rr) (rr_state rr)"
proof -
  define c where "c = \<lparr>ck_projection = pd_name pr, ck_version = pd_version pr, ck_sequence = rr_lastSequence rr,
    ck_state = rr_state rr, ck_savedAt = en_now en\<rparr>"
  obtain w' where "cs_save (en_checkpoints en) c w = (Inr (), w')" "shown w' = shown w"
    "saved w' (pd_name pr) (pd_version pr) = Some c"
    using save_saved [of c w] by (auto simp: c_def)
  then show ?thesis by (auto simp: save_checkpoint_def c_def [symmetric] saved_by_def marks_def) (simp_all add: c_def)
qed

text \<open>An event past the last sequence number.\<close>

lemma replay_event_new:
  assumes "\<not> limit_reached opts rr" "rr_lastSequence rr < se_sequence e"
  shows "case chain_step (en_sha en) (rr_lastHash rr) e of
      None \<Rightarrow> \<exists>x. replay_event en pr opts e rr w = Return (Inl x) w
    | Some h \<Rightarrow>
        (case project_event en pr opts e (rr_state rr) of
           None \<Rightarrow> \<exists>r. replay_event en pr opts e rr w = Return r w \<and> (\<forall>rep. r = Inr rep \<longrightarrow> rp_outcome rep = Halted)
         | Some s \<Rightarrow> \<exists>rr' w'. replay_event en pr opts e rr w = Continue rr' w' \<and> rr_state rr' = s \<and>
             rr_lastSequence rr' = se_sequence e \<and> rr_lastHash rr' = h \<and> rr_progressed rr' \<and>
             shown w' = shown w \<and> saved_by pr w w' (se_sequence e) s)"
proof (cases "chain_step (en_sha en) (rr_lastHash rr) e")
  case None
  then obtain x where "ledger_check en pr e (bump_read rr) = Inl x"
    using ledger_check_chain [where en = en and rr = "bump_read rr" and e = e and pr = pr] by (auto simp: bump_read_def)
  with None assms show ?thesis by (simp add: replay_event_def bump_read_def Let_def)
next
  case (Some h)
  define rr3 where "rr3 = (bump_read rr)\<lparr>rr_lastHash := h, rr_progressed := True\<rparr>"
  have rr3: "rr_state rr3 = rr_state rr" "rr_lastHash rr3 = h" "rr_progressed rr3"
    by (simp_all add: rr3_def bump_read_def)
  have lc: "ledger_check en pr e (bump_read rr) = Inr ((bump_read rr)\<lparr>rr_lastHash := h\<rparr>)"
    using Some ledger_check_chain [where en = en and rr = "bump_read rr" and e = e and pr = pr] by (auto simp: bump_read_def)
  have ev: "replay_event en pr opts e rr w =
    (case map_get (pd_handles pr) (ev_eventName e) of
       None \<Rightarrow> Continue ((bump_ignored rr3)\<lparr>rr_lastSequence := se_sequence e\<rparr>) w
     | Some tv \<Rightarrow> handle_event en pr opts tv e rr3 w)"
  proof -
    have "rr_lastSequence (bump_read rr) = rr_lastSequence rr" by (simp add: bump_read_def)
    with assms lc show ?thesis unfolding rr3_def by (simp add: replay_event_def Let_def)
  qed
  show ?thesis
  proof (cases "map_get (pd_handles pr) (ev_eventName e)")
    case None
    then show ?thesis using Some rr3 ev by (simp add: project_event_def bump_ignored_def saved_by_def)
  next
    case tv: (Some tv)
    show ?thesis
    proof (cases rule: handle_event_cases [of en pr opts tv e rr3 w])
      case (applied s' r)
      then show ?thesis using Some rr3 ev tv save_checkpoint_continues [of pr opts _ w]
        by (simp add: project_event_def) fastforce
    next
      case (halted x rr1 m)
      then show ?thesis using Some rr3 ev tv
        by (auto simp: project_event_def split: sum.splits dest: finish_outcome)
    next
      case (skipped x r)
      then show ?thesis using Some rr3 ev tv save_checkpoint_continues [of pr opts _ w]
        by (simp add: project_event_def) fastforce
    qed
  qed
qed

text \<open>A whole stream: what a loop that reaches the end has done.\<close>

lemma replay_event_old:
  assumes "\<not> limit_reached opts rr" "se_sequence e \<le> rr_lastSequence rr"
  shows "replay_event en pr opts e rr w = Continue (bump_duplicates (bump_read rr)) w \<or>
    (\<exists>x. replay_event en pr opts e rr w = Return (Inl x) w)"
  using assms by (auto simp: replay_event_def Let_def bump_read_def)

lemma loop_continues:
  assumes "ro_limit opts = None" "replay_loop en pr opts es f rr w = Continue rr' w'"
  shows "f = None \<and> chain_ok (en_sha en) (rr_lastHash rr) (effective (rr_lastSequence rr) es) \<and>
    project en pr opts (effective (rr_lastSequence rr) es) (rr_state rr) = Some (rr_state rr') \<and>
    rr_lastSequence rr' = last_seq (rr_lastSequence rr) (effective (rr_lastSequence rr) es)"
  using assms(2)
proof (induction es arbitrary: rr w)
  case Nil
  then show ?case by (auto split: option.splits)
next
  case (Cons e es)
  then obtain rr1 w1 where ev: "replay_event en pr opts e rr w = Continue rr1 w1"
    and rest: "replay_loop en pr opts es f rr1 w1 = Continue rr' w'"
    by (auto split: step_result.splits)
  show ?case
  proof (cases "se_sequence e \<le> rr_lastSequence rr")
    case True
    from replay_event_old [OF unlimited [OF assms(1)] True, of pr w] ev have "rr1 = bump_duplicates (bump_read rr)" by auto
    then have "rr_lastSequence rr1 = rr_lastSequence rr" "rr_state rr1 = rr_state rr" "rr_lastHash rr1 = rr_lastHash rr"
      by (simp_all add: bump_duplicates_def bump_read_def)
    with Cons.IH [OF rest] True show ?thesis by simp
  next
    case False
    then have new: "rr_lastSequence rr < se_sequence e" by simp
    from replay_event_new [OF unlimited [OF assms(1)] new, of pr w] ev
    have "\<exists>h. chain_step (en_sha en) (rr_lastHash rr) e = Some h \<and> project_event en pr opts e (rr_state rr) = Some (rr_state rr1) \<and>
        rr_lastSequence rr1 = se_sequence e \<and> rr_lastHash rr1 = h"
      by (auto split: option.splits)
    with Cons.IH [OF rest] False show ?thesis by auto
  qed
qed

text \<open>Conversely, a rising stream that the reference accepts is read to its end.\<close>

definition stop_at :: "event_error option \<Rightarrow> 's replay_run \<Rightarrow> 'w \<Rightarrow> ('w, 's) step_result" where
  "stop_at f rr w = (case f of None \<Rightarrow> Continue rr w | Some e \<Rightarrow> Return (Inl (Raised e)) w)"

definition checkpoint_of :: "'s ProjectionDefinition \<Rightarrow> ReplayOptions \<Rightarrow> int \<Rightarrow> 's \<Rightarrow> StoredEvent list \<Rightarrow> 'w \<Rightarrow> 'w \<Rightarrow> bool" where
  "checkpoint_of pr opts q s es w w' \<longleftrightarrow> saved w' (pd_name pr) (pd_version pr) = saved w (pd_name pr) (pd_version pr) \<or>
     (\<exists>c xs ys s'. saved w' (pd_name pr) (pd_version pr) = Some c \<and> es = xs @ ys \<and> xs \<noteq> [] \<and>
        project en pr opts xs s = Some s' \<and> marks pr c (last_seq q xs) s')"

lemma loop_runs:
  assumes "ro_limit opts = None" "rising (rr_lastSequence rr) es" "chain_ok (en_sha en) (rr_lastHash rr) es"
    and "project en pr opts es (rr_state rr) = Some s"
  shows "\<exists>rr' w'. replay_loop en pr opts es f rr w = stop_at f rr' w' \<and> rr_state rr' = s \<and>
    rr_lastSequence rr' = last_seq (rr_lastSequence rr) es \<and> shown w' = shown w \<and>
    checkpoint_of pr opts (rr_lastSequence rr) (rr_state rr) es w w'"
  using assms(2-)
proof (induction es arbitrary: rr w)
  case Nil
  then show ?case by (auto simp: stop_at_def checkpoint_of_def split: option.splits)
next
  case (Cons e es)
  then have new: "rr_lastSequence rr < se_sequence e" by simp
  from Cons.prems obtain h s1 where h: "chain_step (en_sha en) (rr_lastHash rr) e = Some h" "chain_ok (en_sha en) h es"
    and s1: "project_event en pr opts e (rr_state rr) = Some s1" "project en pr opts es s1 = Some s"
    by (auto split: option.splits)
  from replay_event_new [OF unlimited [OF assms(1)] new, of pr w] h s1
  obtain rr1 w1 where ev: "replay_event en pr opts e rr w = Continue rr1 w1" "rr_state rr1 = s1"
    "rr_lastSequence rr1 = se_sequence e" "rr_lastHash rr1 = h" "shown w1 = shown w"
    and by1: "saved_by pr w w1 (se_sequence e) s1" by auto
  from Cons.IH [of rr1 w1] Cons.prems ev h s1
  obtain rr' w' where rest: "replay_loop en pr opts es f rr1 w1 = stop_at f rr' w'" "rr_state rr' = s"
    "rr_lastSequence rr' = last_seq (se_sequence e) es" "shown w' = shown w1"
    and ck: "checkpoint_of pr opts (se_sequence e) s1 es w1 w'" by auto
  have "checkpoint_of pr opts (rr_lastSequence rr) (rr_state rr) (e # es) w w'"
  proof (cases "saved w' (pd_name pr) (pd_version pr) = saved w1 (pd_name pr) (pd_version pr)")
    case True
    have "e # es = [e] @ es" "project en pr opts [e] (rr_state rr) = Some s1" using s1 by simp_all
    with True by1 show ?thesis unfolding checkpoint_of_def saved_by_def by (metis last_seq_simps not_Cons_self2)
  next
    case False
    with ck obtain c xs ys s' where c: "saved w' (pd_name pr) (pd_version pr) = Some c" "es = xs @ ys"
      "project en pr opts xs s1 = Some s'" "marks pr c (last_seq (se_sequence e) xs) s'"
      by (auto simp: checkpoint_of_def)
    then have "e # es = (e # xs) @ ys" "project en pr opts (e # xs) (rr_state rr) = Some s'" using s1 by simp_all
    with c show ?thesis unfolding checkpoint_of_def by (metis last_seq_simps(2) list.discI)
  qed
  with ev rest show ?case by auto
qed

lemma publish_run_exact:
  assumes "\<not> dryRun opts" "hashState (en_sha en) (pd_json pr (rr_state rr)) = Inr h"
  shows "\<exists>rep w'. publish_run en pr opts rr w = (Inr rep, w') \<and> rp_outcome rep = Published \<and>
    shown w' = (shown w)(pd_name pr := (Some \<lparr>pp_projection = pd_name pr, pp_version = pd_version pr,
      pp_sequence = rr_lastSequence rr, pp_state = rr_state rr, pp_stateHash = h, pp_publishedAt = en_now en\<rparr>,
      case fst (shown w (pd_name pr)) of None \<Rightarrow> snd (shown w (pd_name pr)) | Some c \<Rightarrow> Some c)) \<and>
    saved w' (pd_name pr) (pd_version pr) = None"
proof -
  define nxt where "nxt = \<lparr>pp_projection = pd_name pr, pp_version = pd_version pr,
      pp_sequence = rr_lastSequence rr, pp_state = rr_state rr, pp_stateHash = h, pp_publishedAt = en_now en\<rparr>"
  obtain rep where rep: "finish en pr rr Published None = Inr rep" "rp_stateHash rep = Some h" "rp_outcome rep = Published"
    using assms(2) by (auto simp: finish_def)
  have nm: "pp_projection nxt = pd_name pr" by (simp add: nxt_def)
  obtain r w1 where w1: "ps_swap (en_projections en) nxt w = (Inr r, w1)"
    "shown w1 = (shown w)(pd_name pr := (Some nxt, case fst (shown w (pd_name pr)) of None \<Rightarrow> snd (shown w (pd_name pr)) | Some c \<Rightarrow> Some c))"
    using swap_shown [of nxt w] unfolding nm by auto
  obtain w2 where w2: "cs_clear (en_checkpoints en) (pd_name pr) (pd_version pr) w1 = (Inr (), w2)" "shown w2 = shown w1"
    "saved w2 (pd_name pr) (pd_version pr) = None"
    using clear_saved [of "pd_name pr" "pd_version pr" w1] by auto
  have "publish_run en pr opts rr w = (Inr rep, w2)"
    using assms(1) rep w1 w2 unfolding publish_run_def by (simp add: nxt_def)
  with rep w1 w2 show ?thesis unfolding nxt_def by simp
qed

lemma publish_run_fails:
  assumes "hashState (en_sha en) (pd_json pr (rr_state rr)) = Inl e"
  shows "publish_run en pr opts rr w = (Inl (Raised e), w)"
  using assms by (simp add: publish_run_def finish_def)

lemma publish_run_dry:
  assumes "dryRun opts"
  shows "\<exists>r. publish_run en pr opts rr w = (r, w) \<and> (\<forall>rep. r = Inr rep \<longrightarrow> rp_outcome rep = Dry_run)"
  using assms by (auto simp: publish_run_def split: sum.splits dest: finish_outcome)

text \<open>Reading events never changes what is published.\<close>

definition unpublished :: "'w \<Rightarrow> ('w, 's) step_result \<Rightarrow> bool" where
  "unpublished w r \<longleftrightarrow>
     (case r of
        Continue rr' w' \<Rightarrow> shown w' = shown w
      | Break rr' w' \<Rightarrow> shown w' = shown w
      | Return x w' \<Rightarrow> shown w' = shown w \<and> (\<forall>rep. x = Inr rep \<longrightarrow> rp_outcome rep = Halted))"

lemma replay_event_unpublished: "unpublished w (replay_event en pr opts e rr w)"
proof -
  consider (limit) "limit_reached opts rr"
    | (old) "\<not> limit_reached opts rr" "se_sequence e \<le> rr_lastSequence rr"
    | (new) "\<not> limit_reached opts rr" "rr_lastSequence rr < se_sequence e" by linarith
  then show ?thesis
  proof cases
    case limit
    then show ?thesis by (simp add: replay_event_def unpublished_def)
  next
    case old
    from replay_event_old [OF this, of pr w] show ?thesis by (auto simp: unpublished_def)
  next
    case new
    from replay_event_new [OF this, of pr w] show ?thesis by (auto simp: unpublished_def split: option.splits)
  qed
qed

lemma loop_unpublished: "unpublished w (replay_loop en pr opts es f rr w)"
proof (induction es arbitrary: rr w)
  case Nil
  then show ?case by (auto simp: unpublished_def split: option.splits)
next
  case (Cons e es)
  show ?case
  proof (cases "replay_event en pr opts e rr w")
    case (Continue rr1 w1)
    with replay_event_unpublished [of w pr opts e rr] have "shown w1 = shown w" by (simp add: unpublished_def)
    with Continue Cons.IH [of w1 rr1] show ?thesis by (simp add: unpublished_def split: step_result.splits)
  next
    case (Break rr1 w1)
    with replay_event_unpublished [of w pr opts e rr] show ?thesis by simp
  next
    case (Return x w1)
    with replay_event_unpublished [of w pr opts e rr] show ?thesis by simp
  qed
qed

lemma publish_run_unpublished:
  assumes "publish_run en pr opts rr w = (r, w')" "\<forall>rep. r = Inr rep \<longrightarrow> rp_outcome rep \<noteq> Published"
  shows "shown w' = shown w"
proof (cases "dryRun opts")
  case True
  with publish_run_dry [of opts pr rr w] assms show ?thesis by auto
next
  case False
  show ?thesis
  proof (cases "hashState (en_sha en) (pd_json pr (rr_state rr))")
    case (Inl e)
    with publish_run_fails [of pr rr e opts w] assms show ?thesis by simp
  next
    case (Inr h)
    with publish_run_exact [OF False Inr, of w] assms show ?thesis by auto
  qed
qed

lemma run_from_unpublished:
  assumes "run_from en pr source opts ck w = (r, w')" "\<forall>rep. r = Inr rep \<longrightarrow> rp_outcome rep \<noteq> Published"
  shows "shown w' = shown w"
proof -
  define rr where "rr = new_run pr ck"
  obtain es f where src: "source (rr_lastSequence rr) = (es, f)" by fastforce
  have un: "unpublished w (replay_loop en pr opts es f rr w)" by (rule loop_unpublished)
  show ?thesis
  proof (cases "replay_loop en pr opts es f rr w")
    case (Return x w1)
    with un assms(1) src show ?thesis by (simp add: run_from_def rr_def [symmetric] unpublished_def Let_def)
  next
    case (Break rr1 w1)
    with un assms src publish_run_unpublished [of pr opts rr1 w1 r w'] show ?thesis
      by (simp add: run_from_def rr_def [symmetric] unpublished_def Let_def)
  next
    case (Continue rr1 w1)
    with un assms src publish_run_unpublished [of pr opts rr1 w1 r w'] show ?thesis
      by (simp add: run_from_def rr_def [symmetric] unpublished_def Let_def)
  qed
qed

lemma run_unpublished:
  assumes "run_replay en pr source opts w = (r, w')" "\<forall>rep. r = Inr rep \<longrightarrow> rp_outcome rep \<noteq> Published"
  shows "shown w' = shown w"
  using assms run_from_unpublished by (auto simp: run_replay_def load_saved split: if_splits)

text \<open>The checkpoint a run starts from.\<close>

definition start_checkpoint :: "'s ProjectionDefinition \<Rightarrow> ReplayOptions \<Rightarrow> 'w \<Rightarrow> 's ProjectionCheckpoint option" where
  "start_checkpoint pr opts w = (if ro_resume opts = Some False then None else saved w (pd_name pr) (pd_version pr))"

lemma run_replay_from:
  "\<not> dryRun opts \<Longrightarrow> run_replay en pr source opts w = run_from en pr source opts (start_checkpoint pr opts w) w"
  by (simp add: run_replay_def start_checkpoint_def load_saved)

lemma run_from_published:
  assumes "run_from en pr source opts ck w = (Inr rep, w')" "rp_outcome rep = Published"
    and "\<not> dryRun opts" "ro_limit opts = None"
  shows "\<exists>s h. let q = rr_lastSequence (new_run pr ck); es = effective q (fst (source q)) in
    project en pr opts es (rr_state (new_run pr ck)) = Some s \<and> chain_ok (en_sha en) None es \<and>
    hashState (en_sha en) (pd_json pr s) = Inr h \<and> fst (shown w' (pd_name pr)) =
      Some \<lparr>pp_projection = pd_name pr, pp_version = pd_version pr, pp_sequence = last_seq q es, pp_state = s,
        pp_stateHash = h, pp_publishedAt = en_now en\<rparr>"
proof -
  define rr where "rr = new_run pr ck"
  obtain es f where src: "source (rr_lastSequence rr) = (es, f)" by fastforce
  have un: "unpublished w (replay_loop en pr opts es f rr w)" by (rule loop_unpublished)
  have "replay_loop en pr opts es f rr w \<noteq> Break rr1 w1" for rr1 w1
  proof (induction es arbitrary: rr w)
    case (Cons e es)
    have "replay_event en pr opts e rr w \<noteq> Break rr1 w1" for rr1 w1
      using replay_event_new [OF unlimited [OF assms(4)], of rr e pr w] replay_event_old [OF unlimited [OF assms(4)], of e rr pr w]
      by (cases "se_sequence e \<le> rr_lastSequence rr") (auto split: option.splits)
    with Cons.IH show ?case by (auto split: step_result.splits)
  qed (auto split: option.splits)
  moreover have "replay_loop en pr opts es f rr w \<noteq> Return x w1" for x w1
    using un assms(1,2) src by (auto simp: run_from_def rr_def [symmetric] unpublished_def)
  ultimately obtain rr1 w1 where loop: "replay_loop en pr opts es f rr w = Continue rr1 w1"
    by (cases "replay_loop en pr opts es f rr w") auto
  then have pub: "publish_run en pr opts rr1 w1 = (Inr rep, w')"
    using assms(1) src by (simp add: run_from_def rr_def [symmetric])
  with publish_run_fails [of pr rr1 _ opts w1] obtain h where h: "hashState (en_sha en) (pd_json pr (rr_state rr1)) = Inr h"
    by (cases "hashState (en_sha en) (pd_json pr (rr_state rr1))") auto
  have "rr_lastHash rr = None" by (simp add: rr_def new_run_def Let_def)
  with loop_continues [OF assms(4) loop] publish_run_exact [OF assms(3) h, of w1] pub h src
  show ?thesis by (simp add: Let_def rr_def [symmetric])
qed

text \<open>A run on a rising stream that the reference accepts publishes its result.\<close>

lemma run_from_reference:
  assumes "\<not> dryRun opts" "ro_limit opts = None"
    and "rr_lastSequence (new_run pr ck) = q" "rr_state (new_run pr ck) = s0" "source q = (es, None)"
    and "rising q es" "chain_ok (en_sha en) None es" "project en pr opts es s0 = Some s"
    and "hashState (en_sha en) (pd_json pr s) = Inr h"
  shows "\<exists>rep w'. run_from en pr source opts ck w = (Inr rep, w') \<and> rp_outcome rep = Published \<and>
    fst (shown w' (pd_name pr)) = Some \<lparr>pp_projection = pd_name pr, pp_version = pd_version pr,
      pp_sequence = last_seq q es, pp_state = s, pp_stateHash = h, pp_publishedAt = en_now en\<rparr>"
proof -
  define rr where "rr = new_run pr ck"
  have rr: "rr_lastSequence rr = q" "rr_state rr = s0" "rr_lastHash rr = None"
    using assms(3,4) by (simp_all add: rr_def new_run_def Let_def)
  obtain rr1 w1 where loop: "replay_loop en pr opts es None rr w = Continue rr1 w1" "rr_state rr1 = s"
    "rr_lastSequence rr1 = last_seq q es"
    using loop_runs [OF assms(2), of rr es pr s None w] assms(6-8) rr by (auto simp: stop_at_def)
  have "run_from en pr source opts ck w = publish_run en pr opts rr1 w1"
    using loop(1) rr(1) assms(5) by (simp add: run_from_def rr_def [symmetric])
  with publish_run_exact [OF assms(1), of pr rr1 h w1] assms(9) loop(2,3) show ?thesis by auto
qed

lemma resume_from_checkpoint:
  assumes opts: "\<not> dryRun opts" "ro_limit opts = None"
    and es: "rising 0 (us @ vs)" "chain_ok (en_sha en) None (us @ vs)" "project en pr opts (us @ vs) (pd_initialState pr) = Some s"
    and "hashState (en_sha en) (pd_json pr s) = Inr h"
    and us: "project en pr opts us (pd_initialState pr) = Some s'" "marks pr c (last_seq 0 us) s'"
  shows "\<exists>rep w'. run_from en pr (arraySource (us @ vs)) opts (Some c) w = (Inr rep, w') \<and> rp_outcome rep = Published \<and>
    fst (shown w' (pd_name pr)) = Some \<lparr>pp_projection = pd_name pr, pp_version = pd_version pr,
      pp_sequence = last_seq 0 (us @ vs), pp_state = s, pp_stateHash = h, pp_publishedAt = en_now en\<rparr>"
proof -
  have new: "rr_lastSequence (new_run pr (Some c)) = last_seq 0 us" "rr_state (new_run pr (Some c)) = s'"
    using us(2) by (simp_all add: new_run_def marks_def Let_def)
  have rest: "rising (last_seq 0 us) vs" using es(1) by (simp only: rising_append)
  have chain: "chain_ok (en_sha en) None vs"
    using es(2) chain_ok_append [of "en_sha en" None us vs] chain_ok_forget by blast
  have proj: "project en pr opts vs s' = Some s" using es(3) us(1) by (simp add: project_append)
  have "last_seq (last_seq 0 us) vs = last_seq 0 (us @ vs)" by (simp add: last_seq_def)
  with run_from_reference [where source = "arraySource (us @ vs)", OF opts new arraySource_suffix [OF es(1)] rest chain proj assms(6), of w]
  show ?thesis by simp
qed

lemma crash_then_resume:
  assumes opts: "\<not> dryRun opts" "ro_limit opts = None" "ro_resume opts \<noteq> Some False"
    and "rising 0 es" "saved w (pd_name pr) (pd_version pr) = None"
    and full: "run_replay en pr (arraySource es) opts w = (Inr rep, w1)" "rp_outcome rep = Published"
    and crash: "run_replay en pr (\<lambda>q. (take k (fst (arraySource es q)), Some err)) opts w = (r, w2)"
  shows "r = Inl (Raised err) \<and> (\<exists>rep' w3. run_replay en pr (arraySource es) opts w2 = (Inr rep', w3) \<and>
    rp_outcome rep' = Published \<and> fst (shown w3 (pd_name pr)) = fst (shown w1 (pd_name pr)))"
proof -
  let ?init = "pd_initialState pr"
  have start: "start_checkpoint pr opts w = None" using assms(5) by (simp add: start_checkpoint_def)
  have fresh: "rr_lastSequence (new_run pr None) = 0" "rr_state (new_run pr None) = ?init" "rr_lastHash (new_run pr None) = None"
    by (simp_all add: new_run_def Let_def)
  have src: "arraySource es 0 = (es, None)" using arraySource_suffix [of 0 "[]" es] assms(4) by simp
  have "run_from en pr (arraySource es) opts None w = (Inr rep, w1)" using full(1) start by (simp add: run_replay_from opts)
  from run_from_published [OF this full(2) opts(1,2)] src fresh assms(4) obtain s h where
    ref: "project en pr opts es ?init = Some s" "chain_ok (en_sha en) None es" "hashState (en_sha en) (pd_json pr s) = Inr h"
    and act: "fst (shown w1 (pd_name pr)) = Some \<lparr>pp_projection = pd_name pr, pp_version = pd_version pr,
      pp_sequence = last_seq 0 es, pp_state = s, pp_stateHash = h, pp_publishedAt = en_now en\<rparr>"
    by (auto simp: Let_def rising_effective)
  define xs where "xs = take k es"
  obtain ys where es: "es = xs @ ys" unfolding xs_def by (metis append_take_drop_id)
  from ref(1) obtain s1 where s1: "project en pr opts xs ?init = Some s1" by (auto simp: es project_append split: option.splits)
  have "rising 0 xs" "chain_ok (en_sha en) None xs" using assms(4) ref(2) chain_ok_append es by (auto simp: rising_append)
  with loop_runs [OF opts(2), of "new_run pr None" xs pr s1 "Some err" w] s1 fresh obtain rr1 w' where
    loop: "replay_loop en pr opts xs (Some err) (new_run pr None) w = Return (Inl (Raised err)) w'"
    and ck: "checkpoint_of pr opts 0 ?init xs w w'"
    by (auto simp: stop_at_def)
  have "run_replay en pr (\<lambda>q. (take k (fst (arraySource es q)), Some err)) opts w = (Inl (Raised err), w')"
    using loop start fresh(1) src by (simp add: run_replay_from opts run_from_def xs_def)
  with crash have r: "r = Inl (Raised err)" "w2 = w'" by simp_all
  have "\<exists>rep' w3. run_from en pr (arraySource es) opts (start_checkpoint pr opts w2) w2 = (Inr rep', w3) \<and>
    rp_outcome rep' = Published \<and> fst (shown w3 (pd_name pr)) = fst (shown w1 (pd_name pr))"
  proof (cases "saved w2 (pd_name pr) (pd_version pr)")
    case None
    then have "start_checkpoint pr opts w2 = None" by (simp add: start_checkpoint_def)
    with run_from_reference [where source = "arraySource es", OF opts(1,2) fresh(1,2) src assms(4) ref(2,1,3), of w2] act
    show ?thesis by simp
  next
    case (Some c)
    with ck assms(5) r obtain us vs s' where us: "xs = us @ vs" "project en pr opts us ?init = Some s'"
      "marks pr c (last_seq 0 us) s'" by (auto simp: checkpoint_of_def)
    have es2: "es = us @ (vs @ ys)" using us(1) es by simp
    from Some opts(3) have "start_checkpoint pr opts w2 = Some c" by (simp add: start_checkpoint_def)
    with resume_from_checkpoint [OF opts(1,2) assms(4) [unfolded es2] ref(2) [unfolded es2] ref(1) [unfolded es2] ref(3) us(2,3), of w2]
    show ?thesis using act unfolding es2 by simp
  qed
  with r show ?thesis by (simp add: run_replay_from opts)
qed

text \<open>A published version can be rolled back to the one that was active before.\<close>

lemma rollback_after_publish:
  assumes "run_from en pr source opts ck w = (Inr rep, w')" "rp_outcome rep = Published" "\<not> dryRun opts"
    and "fst (shown w (pd_name pr)) = Some prior"
  shows "\<exists>w2. ps_rollback (en_projections en) (pd_name pr) w' = (Inr (Some prior), w2) \<and>
    fst (shown w2 (pd_name pr)) = Some prior \<and> (\<forall>n. n \<noteq> pd_name pr \<longrightarrow> shown w2 n = shown w n) \<and>
    ps_rollback (en_projections en) (pd_name pr) w2 = (Inr None, w2)"
proof -
  define rr where "rr = new_run pr ck"
  obtain es f where src: "source (rr_lastSequence rr) = (es, f)" by fastforce
  have un: "unpublished w (replay_loop en pr opts es f rr w)" by (rule loop_unpublished)
  then obtain rr1 w1 where pub: "publish_run en pr opts rr1 w1 = (Inr rep, w')" "shown w1 = shown w"
    using assms(1,2) src
    by (cases "replay_loop en pr opts es f rr w") (auto simp: run_from_def rr_def [symmetric] unpublished_def)
  with publish_run_fails [of pr rr1 _ opts w1] obtain h where h: "hashState (en_sha en) (pd_json pr (rr_state rr1)) = Inr h"
    by (cases "hashState (en_sha en) (pd_json pr (rr_state rr1))") auto
  from publish_run_exact [OF assms(3) h, of w1] pub assms(4)
  have prev: "snd (shown w' (pd_name pr)) = Some prior" "\<forall>n. n \<noteq> pd_name pr \<longrightarrow> shown w' n = shown w n" by auto
  then obtain w2 where w2: "ps_rollback (en_projections en) (pd_name pr) w' = (Inr (Some prior), w2)"
    "shown w2 = (shown w')(pd_name pr := (Some prior, None))" using rollback_some by blast
  with prev rollback_none [of w2 "pd_name pr"] show ?thesis by auto
qed

end

section \<open>The in-memory stores keep the promise\<close>

text \<open>The keys \<open>name@version\<close> of different projections or versions differ: a version has no at sign.\<close>

lemma checkpoint_key_inj: "checkpoint_key n v = checkpoint_key n' v' \<longleftrightarrow> n = n' \<and> v = v'"
proof
  assume "checkpoint_key n v = checkpoint_key n' v'"
  then have "rev (show_int v) @ CHR ''@'' # rev n = rev (show_int v') @ CHR ''@'' # rev n'"
    by (metis checkpoint_key_def append.assoc append_Cons append_Nil rev.simps(2) rev_append)
  moreover have "CHR ''@'' \<notin> set (rev (show_int v))" "CHR ''@'' \<notin> set (rev (show_int v'))"
    using show_int_at by simp_all
  ultimately show "n = n' \<and> v = v'"
    by (metis append_sep_inj rev_rev_ident show_int_inj)
qed simp

definition mem_engine :: "('s mem_world, 's) EventReplayEngine \<Rightarrow> ('s mem_world, 's) EventReplayEngine" where
  "mem_engine en = en\<lparr>en_checkpoints := InMemoryCheckpointStore, en_projections := InMemoryProjectionStore\<rparr>"

definition mem_saved :: "'s mem_world \<Rightarrow> string \<Rightarrow> int \<Rightarrow> 's ProjectionCheckpoint option" where
  "mem_saved w n v = map_get (mw_checkpoints w) (checkpoint_key n v)"

definition mem_shown :: "'s mem_world \<Rightarrow> string \<Rightarrow> 's PublishedProjection option \<times> 's PublishedProjection option" where
  "mem_shown w n = (map_get (mw_active w) n, map_get (mw_previous w) n)"

lemma mem_engine_simps [simp]:
  "en_checkpoints (mem_engine en) = InMemoryCheckpointStore" "en_projections (mem_engine en) = InMemoryProjectionStore"
  "en_sha (mem_engine en) = en_sha en" "en_now (mem_engine en) = en_now en"
  by (simp_all add: mem_engine_def)

interpretation mem: replay_stores "mem_engine en" mem_saved mem_shown for en
proof
  fix n v and w :: "'a mem_world" and c p :: "'a ProjectionCheckpoint" and nxt :: "'a PublishedProjection"
  show "cs_load (en_checkpoints (mem_engine en)) n v w = (Inr (mem_saved w n v), w)"
    by (simp add: InMemoryCheckpointStore_def mem_load_def mem_saved_def)
  show "\<exists>w'. cs_save (en_checkpoints (mem_engine en)) c w = (Inr (), w') \<and> mem_shown w' = mem_shown w \<and>
      (\<forall>n v. mem_saved w' n v = (if n = ck_projection c \<and> v = ck_version c then Some c else mem_saved w n v))"
    by (auto simp: InMemoryCheckpointStore_def mem_save_def mem_saved_def mem_shown_def js_simps checkpoint_key_inj)
  show "\<exists>w'. cs_clear (en_checkpoints (mem_engine en)) n v w = (Inr (), w') \<and> mem_shown w' = mem_shown w \<and>
      (\<forall>n' v'. mem_saved w' n' v' = (if n' = n \<and> v' = v then None else mem_saved w n' v'))"
    by (auto simp: InMemoryCheckpointStore_def mem_clear_def mem_saved_def mem_shown_def js_simps checkpoint_key_inj)
  show "\<exists>r w'. ps_swap (en_projections (mem_engine en)) nxt w = (Inr r, w') \<and> mem_saved w' = mem_saved w \<and>
      mem_shown w' = (mem_shown w)(pp_projection nxt := (Some nxt, case fst (mem_shown w (pp_projection nxt)) of
        None \<Rightarrow> snd (mem_shown w (pp_projection nxt)) | Some c \<Rightarrow> Some c))"
    by (auto simp: InMemoryProjectionStore_def mem_swap_def mem_saved_def mem_shown_def js_simps Let_def fun_eq_iff
        split: option.splits)
next
  fix n and w :: "'a mem_world" and p :: "'a PublishedProjection"
  show "snd (mem_shown w n) = None \<Longrightarrow> ps_rollback (en_projections (mem_engine en)) n w = (Inr None, w)"
    by (simp add: InMemoryProjectionStore_def mem_rollback_def mem_shown_def)
  show "snd (mem_shown w n) = Some p \<Longrightarrow> \<exists>w'. ps_rollback (en_projections (mem_engine en)) n w = (Inr (Some p), w') \<and>
      mem_shown w' = (mem_shown w)(n := (Some p, None))"
    by (auto simp: InMemoryProjectionStore_def mem_rollback_def mem_shown_def js_simps fun_eq_iff)
qed

end
