(* ===== verification/Projection_Replay.thy ===== *)
theory Projection_Replay
  imports Event_Replay
begin

text \<open>
  The operator facade \<open>src/common/events/replay/projection-replay.service.ts\<close>, the \<open>user-directory\<close>
  projection of \<open>projections/user-directory.projection.ts\<close>, and what the replay promises: the published
  state is the fold over the stored events, an interrupted rebuild resumes to the same state, nothing is
  published otherwise, and an appended ledger passes the replay's tamper check.
\<close>

section \<open>The service\<close>

record ('w, 's) ProjectionReplayService =
  sv_registered :: "(string, 's ProjectionDefinition \<times> EventSource) jsmap"
  sv_engine :: "('w, 's) EventReplayEngine"
  sv_running :: "string list"

record ProjectionStatus =
  st_name :: string
  st_version :: int
  st_activeVersion :: "int option"
  st_activeSequence :: "int option"
  st_activeStateHash :: "string option"
  st_stale :: bool
  st_running :: bool

text \<open>The constructor, with stores that default to the in-memory ones.\<close>

definition new_service ::
  "(string \<Rightarrow> string) \<Rightarrow> string \<Rightarrow> int \<Rightarrow> ('s mem_world, 's) CheckpointStore option \<Rightarrow> ('s mem_world, 's) ProjectionStore option
    \<Rightarrow> ('s mem_world, 's) ProjectionReplayService" where
  "new_service sha now elapsed checkpoints store =
     \<lparr>sv_registered = [],
      sv_engine = \<lparr>en_checkpoints = (case checkpoints of None \<Rightarrow> InMemoryCheckpointStore | Some c \<Rightarrow> c),
        en_projections = (case store of None \<Rightarrow> InMemoryProjectionStore | Some p \<Rightarrow> p),
        en_upcasters = default_steps, en_schemas = default_registry, en_sha = sha, en_now = now, en_elapsed = elapsed\<rparr>,
      sv_running = []\<rparr>"

definition register_projection ::
  "'s ProjectionDefinition \<Rightarrow> EventSource \<Rightarrow> ('w, 's) ProjectionReplayService
    \<Rightarrow> (replay_error, ('w, 's) ProjectionReplayService) result" where
  "register_projection projection source sv =
     (if map_has (sv_registered sv) (pd_name projection)
      then Inl (PlainError (''Projection '' @ [CHR 0x27] @ pd_name projection @ [CHR 0x27] @ '' is already registered''))
      else Inr (sv\<lparr>sv_registered := map_set (pd_name projection) (projection, source) (sv_registered sv)\<rparr>))"

definition get_registered ::
  "('w, 's) ProjectionReplayService \<Rightarrow> string \<Rightarrow> (replay_error, 's ProjectionDefinition \<times> EventSource) result" where
  "get_registered sv name =
     (case map_get (sv_registered sv) name of
        None \<Rightarrow> Inl (NotFoundException (''Unknown projection '' @ [CHR 0x27] @ name @ [CHR 0x27]))
      | Some found \<Rightarrow> Inr found)"

definition status ::
  "('w, 's) ProjectionReplayService \<Rightarrow> string \<Rightarrow> 'w \<Rightarrow> (replay_error, ProjectionStatus) result \<times> 'w" where
  "status sv name w =
     (case get_registered sv name of
        Inl e \<Rightarrow> (Inl e, w)
      | Inr (projection, _) \<Rightarrow>
          (case ps_getActive (en_projections (sv_engine sv)) name w of
             (Inl e, w1) \<Rightarrow> (Inl (Raised e), w1)
           | (Inr act, w1) \<Rightarrow>
               (Inr \<lparr>st_name = name, st_version = pd_version projection,
                  st_activeVersion = map_option pp_version act, st_activeSequence = map_option pp_sequence act,
                  st_activeStateHash = map_option pp_stateHash act,
                  st_stale = (map_option pp_version act \<noteq> Some (pd_version projection)),
                  st_running = (name \<in> set (sv_running sv))\<rparr>, w1)))"

text \<open>\<open>Promise.all\<close> over the registered names, in order; the first failure is the result.\<close>

fun status_all ::
  "('w, 's) ProjectionReplayService \<Rightarrow> string list \<Rightarrow> 'w \<Rightarrow> (replay_error, ProjectionStatus list) result \<times> 'w" where
  "status_all sv [] w = (Inr [], w)"
| "status_all sv (name # names) w =
     (case status sv name w of
        (r, w1) \<Rightarrow>
          (case status_all sv names w1 of
             (rs, w2) \<Rightarrow>
               ((case r of
                   Inl e \<Rightarrow> Inl e
                 | Inr st \<Rightarrow> (case rs of Inl e \<Rightarrow> Inl e | Inr sts \<Rightarrow> Inr (st # sts))), w2)))"

definition list_projections ::
  "('w, 's) ProjectionReplayService \<Rightarrow> 'w \<Rightarrow> (replay_error, ProjectionStatus list) result \<times> 'w" where
  "list_projections sv w = status_all sv (map_keys (sv_registered sv)) w"

definition service_rebuild ::
  "('w, 's) ProjectionReplayService \<Rightarrow> string \<Rightarrow> ReplayOptions \<Rightarrow> 'w
    \<Rightarrow> (replay_error, ReplayReport) result \<times> ('w, 's) ProjectionReplayService \<times> 'w" where
  "service_rebuild sv name options w =
     (case get_registered sv name of
        Inl e \<Rightarrow> (Inl e, sv, w)
      | Inr (projection, source) \<Rightarrow>
          (case rebuild (sv_engine sv) projection source options (sv_running sv, w) of
             (r, running, w1) \<Rightarrow> (r, sv\<lparr>sv_running := running\<rparr>, w1)))"

definition service_rollback ::
  "('w, 's) ProjectionReplayService \<Rightarrow> string \<Rightarrow> 'w \<Rightarrow> (replay_error, 's PublishedProjection option) result \<times> 'w" where
  "service_rollback sv name w =
     (case get_registered sv name of
        Inl e \<Rightarrow> (Inl e, w)
      | Inr _ \<Rightarrow>
          (case rollback_projection (sv_engine sv) name w of
             (Inl e, w1) \<Rightarrow> (Inl (Raised e), w1)
           | (Inr r, w1) \<Rightarrow> (Inr r, w1)))"

definition service_getActive ::
  "('w, 's) ProjectionReplayService \<Rightarrow> string \<Rightarrow> 'w \<Rightarrow> (replay_error, 's PublishedProjection option) result \<times> 'w" where
  "service_getActive sv name w =
     (case get_registered sv name of
        Inl e \<Rightarrow> (Inl e, w)
      | Inr _ \<Rightarrow>
          (case ps_getActive (en_projections (sv_engine sv)) name w of
             (Inl e, w1) \<Rightarrow> (Inl (Raised e), w1)
           | (Inr r, w1) \<Rightarrow> (Inr r, w1)))"

section \<open>The user directory\<close>

text \<open>
  A value used as a property name is converted to a string; \<open>str\<close> is \<open>String(v)\<close> for a value that is
  not a string already.
\<close>

definition js_key :: "(js_value \<Rightarrow> string) \<Rightarrow> js_value \<Rightarrow> string" where
  "js_key str v = (case v of JStr s \<Rightarrow> s | _ \<Rightarrow> str v)"

record UserEntry =
  ue_role :: js_value
  ue_kycTier :: js_value

record UserDirectoryState =
  ud_users :: "(string, UserEntry) jsmap"
  ud_countsByTier :: "(string, int) jsmap"

definition count_of :: "(string, int) jsmap \<Rightarrow> string \<Rightarrow> int \<Rightarrow> int" where
  "count_of counts tier d = (case map_get counts tier of None \<Rightarrow> d | Some n \<Rightarrow> n)"

definition user_directory_apply :: "(js_value \<Rightarrow> string) \<Rightarrow> UserDirectoryState \<Rightarrow> StoredEvent \<Rightarrow> UserDirectoryState" where
  "user_directory_apply str state event =
     (let payload = ev_payload event;
          userId = js_key str (js_prop payload ''userId'');
          role = js_prop payload ''role'';
          kycTier = js_prop payload ''kycTier'';
          counts = (case map_get (ud_users state) userId of
              None \<Rightarrow> ud_countsByTier state
            | Some previous \<Rightarrow>
                let t = js_key str (ue_kycTier previous)
                in map_set t (max 0 (count_of (ud_countsByTier state) t 1 - 1)) (ud_countsByTier state));
          tier = js_key str kycTier
      in \<lparr>ud_users = map_set userId \<lparr>ue_role = role, ue_kycTier = kycTier\<rparr> (ud_users state),
          ud_countsByTier = map_set tier (count_of counts tier 0 + 1) counts\<rparr>)"

definition user_directory_json :: "UserDirectoryState \<Rightarrow> js_value" where
  "user_directory_json state = JObj True
     [(''users'', JObj True (map (\<lambda>(k, u). (k, JObj True [(''role'', ue_role u), (''kycTier'', ue_kycTier u)])) (ud_users state))),
      (''countsByTier'', JObj True (map (\<lambda>(k, n). (k, JNum (JInt n))) (ud_countsByTier state)))]"

definition userDirectoryProjection :: "(js_value \<Rightarrow> string) \<Rightarrow> UserDirectoryState ProjectionDefinition" where
  "userDirectoryProjection str = \<lparr>pd_name = ''user-directory'', pd_version = 1, pd_handles = [(''user.created'', ''2.0'')],
     pd_initialState = \<lparr>ud_users = [], ud_countsByTier = []\<rparr>,
     pd_apply = (\<lambda>attempt state event. Inr (user_directory_apply str state event)), pd_json = user_directory_json\<rparr>"

text \<open>Every tier is counted with its users.\<close>

definition tier_users :: "(js_value \<Rightarrow> string) \<Rightarrow> UserDirectoryState \<Rightarrow> string \<Rightarrow> nat" where
  "tier_users str st t = length (filter (\<lambda>(k, u). js_key str (ue_kycTier u) = t) (ud_users st))"

definition counts_match :: "(js_value \<Rightarrow> string) \<Rightarrow> UserDirectoryState \<Rightarrow> bool" where
  "counts_match str st \<longleftrightarrow> map_wf (ud_users st) \<and> (\<forall>t. count_of (ud_countsByTier st) t 0 = int (tier_users str st t))"

lemma filter_update_length:
  assumes "map_wf m"
  shows "int (length (filter (\<lambda>(k, u). P u) (map_set k v m))) =
    int (length (filter (\<lambda>(k, u). P u) m))
      - (case map_get m k of Some u \<Rightarrow> (if P u then 1 else 0) | None \<Rightarrow> 0) + (if P v then 1 else 0)"
  using assms
proof (induction m)
  case (Cons x m)
  obtain k' u where x: "x = (k', u)" by fastforce
  with Cons.prems have wf: "map_wf m" "k' \<notin> fst ` set m" by (auto simp: map_wf_def)
  show ?case
  proof (cases "k' = k")
    case True
    then show ?thesis using x wf by simp
  next
    case False
    then show ?thesis using x Cons.IH [OF wf(1)] by simp
  qed
qed simp

lemma tier_users_update:
  assumes "map_wf (ud_users st)"
  shows "int (tier_users str (st\<lparr>ud_users := map_set k v (ud_users st)\<rparr>) t) = int (tier_users str st t)
    - (case map_get (ud_users st) k of Some u \<Rightarrow> (if js_key str (ue_kycTier u) = t then 1 else 0) | None \<Rightarrow> 0)
    + (if js_key str (ue_kycTier v) = t then 1 else 0)"
  using filter_update_length [OF assms, of "\<lambda>u. js_key str (ue_kycTier u) = t"] by (simp add: tier_users_def)

lemma count_of_set: "count_of (map_set k n m) t d = (if t = k then n else count_of m t d)"
  by (simp add: count_of_def js_simps)

lemma tier_users_pos:
  assumes "map_get (ud_users st) k = Some u"
  shows "0 < tier_users str st (js_key str (ue_kycTier u))"
  using map_get_mem [OF assms] by (fastforce simp: tier_users_def filter_empty_conv)

lemma user_directory_counts:
  assumes "counts_match str st"
  shows "counts_match str (user_directory_apply str st event)"
proof -
  define k where "k = js_key str (js_prop (ev_payload event) ''userId'')"
  define v where "v = \<lparr>ue_role = js_prop (ev_payload event) ''role'', ue_kycTier = js_prop (ev_payload event) ''kycTier''\<rparr>"
  define counts where "counts = (case map_get (ud_users st) k of None \<Rightarrow> ud_countsByTier st
    | Some p \<Rightarrow> map_set (js_key str (ue_kycTier p)) (max 0 (count_of (ud_countsByTier st) (js_key str (ue_kycTier p)) 1 - 1)) (ud_countsByTier st))"
  have wf: "map_wf (ud_users st)" and old: "\<And>t. count_of (ud_countsByTier st) t 0 = int (tier_users str st t)"
    using assms by (auto simp: counts_match_def)
  have users: "ud_users (user_directory_apply str st event) = map_set k v (ud_users st)"
    and new: "ud_countsByTier (user_directory_apply str st event) =
      map_set (js_key str (ue_kycTier v)) (count_of counts (js_key str (ue_kycTier v)) 0 + 1) counts"
    unfolding user_directory_apply_def k_def v_def counts_def Let_def by simp_all
  have counts: "count_of counts t 0 = int (tier_users str st t)
    - (case map_get (ud_users st) k of Some u \<Rightarrow> (if js_key str (ue_kycTier u) = t then 1 else 0) | None \<Rightarrow> 0)" for t
  proof (cases "map_get (ud_users st) k")
    case None
    then show ?thesis using old by (simp add: counts_def)
  next
    case (Some u)
    define t' where "t' = js_key str (ue_kycTier u)"
    have "0 < count_of (ud_countsByTier st) t' 0" using tier_users_pos [OF Some] old [of t'] by (simp add: t'_def)
    then have "count_of (ud_countsByTier st) t' 1 = count_of (ud_countsByTier st) t' 0" "1 \<le> count_of (ud_countsByTier st) t' 0"
      by (auto simp: count_of_def split: option.splits)
    then have "count_of counts t 0 = (if t = t' then count_of (ud_countsByTier st) t' 0 - 1 else count_of (ud_countsByTier st) t 0)"
      using Some by (simp add: counts_def t'_def count_of_set)
    with Some old show ?thesis by (simp add: t'_def)
  qed
  have "tier_users str (user_directory_apply str st event) t = tier_users str (st\<lparr>ud_users := map_set k v (ud_users st)\<rparr>) t" for t
    using users by (simp add: tier_users_def)
  then show ?thesis
    using wf users counts tier_users_update [OF wf, of str k v] by (auto simp: counts_match_def new count_of_set)
qed

interpretation user_directory: invariant_system "\<lambda>event st. user_directory_apply str st event" "counts_match str" for str
  by unfold_locales (rule user_directory_counts)

section \<open>Accounting\<close>

definition accounted :: "ReplayReport \<Rightarrow> bool" where
  "accounted r \<longleftrightarrow> rp_eventsRead r = rp_applied r + rp_ignored r + rp_duplicates r + length (rp_poisonEvents r)"

definition step_accounted :: "('w, 's) step_result \<Rightarrow> bool" where
  "step_accounted x \<longleftrightarrow>
     (case x of
        Continue rr w \<Rightarrow> accounted (rr_report rr)
      | Break rr w \<Rightarrow> accounted (rr_report rr)
      | Return r w \<Rightarrow> (\<forall>rep. r = Inr rep \<longrightarrow> accounted rep))"

lemma count_upcast_keeps [simp]:
  "rp_eventsRead (count_upcast e path r) = rp_eventsRead r" "rp_applied (count_upcast e path r) = rp_applied r"
  "rp_ignored (count_upcast e path r) = rp_ignored r" "rp_duplicates (count_upcast e path r) = rp_duplicates r"
  "rp_poisonEvents (count_upcast e path r) = rp_poisonEvents r"
  by (simp_all add: count_upcast_def Let_def)

lemma apply_event_report:
  assumes "apply_event en pr opts tv e s r = (x, r')"
  shows "rp_eventsRead r' = rp_eventsRead r \<and> rp_ignored r' = rp_ignored r \<and> rp_duplicates r' = rp_duplicates r \<and>
    rp_poisonEvents r' = rp_poisonEvents r \<and> rp_applied r' = (case x of Inl _ \<Rightarrow> rp_applied r | Inr _ \<Rightarrow> Suc (rp_applied r))"
  using assms by (auto simp: apply_event_def Let_def split: if_splits sum.splits)

lemma save_checkpoint_accounted: "accounted (rr_report rr) \<Longrightarrow> step_accounted (save_checkpoint en pr opts rr w)"
  by (auto simp: save_checkpoint_def step_accounted_def accounted_def split: prod.splits sum.splits)

lemma finish_accounted: "finish en pr rr oc err = Inr rep \<Longrightarrow> accounted rep \<longleftrightarrow> accounted (rr_report rr)"
  by (auto simp: finish_def accounted_def split: sum.splits)

text \<open>The event was counted as read; handling it makes it applied or poisoned.\<close>

lemma handle_event_accounted:
  assumes "rp_eventsRead (rr_report rr) =
    Suc (rp_applied (rr_report rr) + rp_ignored (rr_report rr) + rp_duplicates (rr_report rr) + length (rp_poisonEvents (rr_report rr)))"
  shows "step_accounted (handle_event en pr opts tv e rr w)"
proof -
  obtain x r where ap: "apply_event en pr opts tv e (rr_state rr) (rr_report rr) = (x, r)" by fastforce
  note counts = apply_event_report [OF ap]
  show ?thesis
  proof (cases x)
    case (Inr s)
    with ap counts assms show ?thesis
      by (simp add: handle_event_def Let_def) (rule save_checkpoint_accounted, simp add: accounted_def)
  next
    case (Inl e')
    define rr1 where "rr1 = rr\<lparr>rr_report := r\<lparr>rp_poisonEvents := rp_poisonEvents r @ [poison_record e (poison_reason e')]\<rparr>\<rparr>"
    have ok: "accounted (rr_report rr1)" using Inl counts assms by (simp add: rr1_def accounted_def)
    show ?thesis
    proof (cases "poison_policy opts = Policy_halt")
      case True
      with Inl ap ok show ?thesis
        by (auto simp: handle_event_def Let_def rr1_def [symmetric] step_accounted_def finish_accounted split: sum.splits)
    next
      case False
      with Inl ap ok show ?thesis
        by (simp add: handle_event_def Let_def rr1_def [symmetric]) (rule save_checkpoint_accounted, simp add: rr1_def)
    qed
  qed
qed

lemma ledger_check_report: "ledger_check en pr e rr = Inr rr' \<Longrightarrow> rr_report rr' = rr_report rr"
  by (auto simp: ledger_check_def split: option.splits if_splits sum.splits)

lemma replay_event_accounted:
  assumes "accounted (rr_report rr)"
  shows "step_accounted (replay_event en pr opts e rr w)"
proof -
  consider (limit) "limit_reached opts rr"
    | (old) "\<not> limit_reached opts rr" "se_sequence e \<le> rr_lastSequence rr"
    | (new) "\<not> limit_reached opts rr" "rr_lastSequence rr < se_sequence e" by linarith
  then show ?thesis
  proof cases
    case limit
    then show ?thesis using assms by (simp add: replay_event_def step_accounted_def)
  next
    case old
    then show ?thesis using assms
      by (auto simp: replay_event_def Let_def bump_read_def bump_duplicates_def step_accounted_def accounted_def)
  next
    case new
    have eq: "replay_event en pr opts e rr w = (case ledger_check en pr e (bump_read rr) of
          Inl x \<Rightarrow> Return (Inl x) w
        | Inr rr2 \<Rightarrow> (case map_get (pd_handles pr) (ev_eventName e) of
            None \<Rightarrow> Continue ((bump_ignored (rr2\<lparr>rr_progressed := True\<rparr>))\<lparr>rr_lastSequence := se_sequence e\<rparr>) w
          | Some tv \<Rightarrow> handle_event en pr opts tv e (rr2\<lparr>rr_progressed := True\<rparr>) w))"
      using new unfolding replay_event_def Let_def by (simp add: bump_read_def)
    show ?thesis
    proof (cases "ledger_check en pr e (bump_read rr)")
      case (Inl x)
      then show ?thesis by (simp add: eq step_accounted_def)
    next
      case (Inr rr2)
      then have r2: "rr_report rr2 = (rr_report rr)\<lparr>rp_eventsRead := Suc (rp_eventsRead (rr_report rr))\<rparr>"
        using ledger_check_report by (fastforce simp: bump_read_def)
      have "step_accounted (handle_event en pr opts tv e (rr2\<lparr>rr_progressed := True\<rparr>) w)" for tv
        by (rule handle_event_accounted) (use assms r2 in \<open>simp add: accounted_def\<close>)
      with Inr r2 assms show ?thesis
        by (auto simp: eq step_accounted_def bump_ignored_def accounted_def split: option.splits)
    qed
  qed
qed

lemma replay_loop_accounted:
  "accounted (rr_report rr) \<Longrightarrow> step_accounted (replay_loop en pr opts es f rr w)"
proof (induction es arbitrary: rr w)
  case Nil
  then show ?case by (auto simp: step_accounted_def split: option.splits)
next
  case (Cons e es)
  from replay_event_accounted [OF Cons.prems, of en pr opts e w] Cons.IH show ?case
    by (cases "replay_event en pr opts e rr w") (auto simp: step_accounted_def)
qed

lemma publish_run_accounted:
  "publish_run en pr opts rr w = (Inr rep, w') \<Longrightarrow> accounted (rr_report rr) \<Longrightarrow> accounted rep"
  by (auto simp: publish_run_def finish_accounted split: if_splits sum.splits prod.splits)

lemma run_from_accounted:
  assumes "run_from en pr source opts ck w = (Inr rep, w')"
  shows "accounted rep"
proof -
  define rr where "rr = new_run pr ck"
  obtain es f where src: "source (rr_lastSequence rr) = (es, f)" by fastforce
  have "accounted (rr_report rr)" by (simp add: rr_def new_run_def new_report_def accounted_def Let_def)
  from replay_loop_accounted [OF this, of en pr opts es f w] assms src show ?thesis
    by (cases "replay_loop en pr opts es f rr w")
      (auto simp: run_from_def rr_def [symmetric] step_accounted_def dest: publish_run_accounted)
qed

section \<open>Ledger entries as events\<close>

text \<open>A ledger entry has the fields of a stored event.\<close>

definition stored_entry :: "LedgerEntry \<Rightarrow> StoredEvent" where
  "stored_entry e = \<lparr>ev_eventId = le_eventId e, ev_eventName = le_eventName e, ev_schemaVersion = le_schemaVersion e,
     ev_timestamp = le_timestamp e, ev_producer = le_producer e, ev_payload = le_payload e,
     ev_previousHash = le_previousHash e, ev_hash = Some (le_hash e), se_sequence = le_sequence e\<rparr>"

text \<open>The two canonical forms agree on values without \<open>undefined\<close>.\<close>

fun no_undefined :: "js_value \<Rightarrow> bool" where
  "no_undefined JUndefined = False"
| "no_undefined (JArr xs) = list_all (\<lambda>x. case x of None \<Rightarrow> True | Some v \<Rightarrow> no_undefined v) xs"
| "no_undefined (JObj pl entries) = list_all (\<lambda>(k, v). no_undefined v) entries"
| "no_undefined _ = True"

lemma canonical_forms_agree: "no_undefined v \<Longrightarrow> replay_canonicalize v = ledger_canonicalize v"
proof (induction v rule: ledger_canonicalize.induct)
  case (1 xs)
  have "map (\<lambda>x. case x of None \<Rightarrow> Inr None | Some v \<Rightarrow> replay_canonicalize v) xs =
    map (\<lambda>x. case x of None \<Rightarrow> Inr None | Some v \<Rightarrow> ledger_canonicalize v) xs"
    using 1 by (auto simp: list_all_iff split: option.splits)
  then show ?case by (simp only: replay_canonicalize.simps ledger_canonicalize.simps)
next
  case (2 pl entries)
  have "filter (\<lambda>(k, v, r). v \<noteq> JUndefined) (map (\<lambda>(k, v). (k, v, replay_canonicalize v)) entries) =
    map (\<lambda>(k, v). (k, v, replay_canonicalize v)) entries"
    using 2(2) by (force simp: filter_id_conv list_all_iff)
  then have "replay_canonicalize (JObj pl entries) = render_object (map (\<lambda>(k, v). (k, replay_canonicalize v)) entries)"
    by (simp add: case_prod_unfold comp_def)
  also have "map (\<lambda>(k, v). (k, replay_canonicalize v)) entries = map (\<lambda>(k, v). (k, ledger_canonicalize v)) entries"
    using 2 by (auto simp: list_all_iff)
  finally show ?case by simp
qed simp_all

lemma ledgerHash_stored:
  assumes "entry_sound sha prev seq e" "no_undefined (le_payload e)"
  shows "ledgerHash sha (stored_entry e) = Inr (le_hash e)"
  using assms by (auto simp: entry_sound_def ledgerHash_def digest_def sha256_def stored_entry_def canonical_forms_agree)

lemma chain_ok_snoc:
  "chain_ok sha lst (es @ [e]) \<longleftrightarrow> chain_ok sha lst es \<and>
    chain_ok sha (fold (\<lambda>e l. case ev_hash e of None \<Rightarrow> l | Some h \<Rightarrow> if h = [] then l else Some h) es lst) [e]"
proof (induction es arbitrary: lst)
  case (Cons x es)
  have "chain_step sha lst x = Some h \<Longrightarrow> h = (case ev_hash x of None \<Rightarrow> lst | Some h \<Rightarrow> if h = [] then lst else Some h)" for h
    by (auto simp: chain_step_def split: option.splits if_splits)
  then show ?case using Cons.IH by (auto split: option.splits)
qed simp

lemma chained_replays:
  assumes "chained sha es" "\<forall>e \<in> set es. no_undefined (le_payload e)" "\<forall>t. sha t \<noteq> []"
  shows "chain_ok sha None (map stored_entry es) \<and> rising 0 (map stored_entry es) \<and>
    last_seq 0 (map stored_entry es) = int (length es) \<and>
    fold (\<lambda>e l. case ev_hash e of None \<Rightarrow> l | Some h \<Rightarrow> if h = [] then l else Some h) (map stored_entry es) None = head_hash es"
  using assms
proof (induction es rule: rev_induct)
  case (snoc e es)
  then have sound: "entry_sound sha (head_hash es) (int (length es) + 1) e" by simp
  then have e: "le_previousHash e = head_hash es" "le_sequence e = int (length es) + 1" "le_hash e \<noteq> []"
    using snoc.prems(3) by (auto simp: entry_sound_def) metis
  have hash: "ledgerHash sha (stored_entry e) = Inr (le_hash e)" using ledgerHash_stored [OF sound] snoc.prems(2) by simp
  from snoc e hash show ?case
    by (auto simp: chain_ok_snoc rising_append chain_step_def last_seq_def) (auto simp: stored_entry_def)
qed simp

section \<open>Properties\<close>


definition payment :: "int \<Rightarrow> StoredEvent" where
  "payment n = \<lparr>ev_eventId = ''e'', ev_eventName = ''payment.completed'', ev_schemaVersion = ''1.0'', ev_timestamp = ''t'',
     ev_producer = ''payments'', ev_payload = JObj True [(''transactionId'', JStr ''tx''), (''amount'', JNum (JInt 5)),
       (''currency'', JStr ''USD'')], ev_previousHash = None, ev_hash = None, se_sequence = n\<rparr>"

definition payment_count :: "int ProjectionDefinition" where
  "payment_count = \<lparr>pd_name = ''payments'', pd_version = 1, pd_handles = [(''payment.completed'', ''1.0'')], pd_initialState = 0,
     pd_apply = (\<lambda>attempt s e. Inr (s + 1)), pd_json = (\<lambda>s. JNum (JInt s))\<rparr>"

definition sample_engine :: "(int mem_world, int) EventReplayEngine" where
  "sample_engine = sv_engine (new_service (\<lambda>s. ''h'' @ s) ''now'' 0 None None)"

definition sample_options :: ReplayOptions where
  "sample_options = \<lparr>ro_resume = None, ro_checkpointEvery = Some 1, ro_onPoisonEvent = None, ro_maxApplyAttempts = None,
     ro_dryRun = None, ro_limit = None\<rparr>"

definition empty_world :: "'s mem_world" where
  "empty_world = \<lparr>mw_checkpoints = [], mw_active = [], mw_previous = []\<rparr>"

lemma payment_counts [simp]:
  "event_result (mem_engine sample_engine) payment_count sample_options ''1.0'' (payment n) s = Inr (s + 1)"
proof -
  have one: "nat (maxApplyAttempts sample_options) = Suc (Suc (Suc 0))" by (simp add: maxApplyAttempts_def sample_options_def)
  have schema: "getSchema default_registry ''payment.completed'' ''1.0'' \<noteq> None" by (simp add: registry_evals)
  have valid: "validateProducerEvent default_registry (payment n) = Inr ()"
    by (simp add: validateProducerEvent_def registry_evals payment_def js_prop_def field_complaint_def)
  have "en_schemas (mem_engine sample_engine) = default_registry" "ev_eventName (payment n) = ''payment.completed''"
    "ev_schemaVersion (payment n) = ''1.0''"
    by (simp_all add: sample_engine_def new_service_def mem_engine_def payment_def)
  with one schema valid show ?thesis
    by (simp add: event_result_def apply_event_def upcast_def applyWithRetry_def payment_count_def Let_def)
qed

lemma payment_fields [simp]:
  "ev_hash (payment n) = None" "se_sequence (payment n) = n"
  "map_get (pd_handles payment_count) (ev_eventName (payment n)) = Some ''1.0''"
  by (simp_all add: payment_def payment_count_def)

lemma payment_project [simp]:
  "project (mem_engine sample_engine) payment_count sample_options (map payment ns) s = Some (s + int (length ns))"
  by (induction ns arbitrary: s) (simp_all add: project_event_def)

lemma payment_chain [simp]: "chain_ok sha l (map payment ns)"
  by (induction ns) (simp_all add: chain_step_def)

lemma payment_rising [simp]: "rising q (map payment ns) \<longleftrightarrow> sorted_wrt (<) (q # ns)"
  by (simp add: rising_def comp_def)

lemma sample_options_simps [simp]:
  "\<not> dryRun sample_options" "ro_limit sample_options = None" "ro_resume sample_options = None"
  by (simp_all add: sample_options_def dryRun_def)

text \<open>A fresh rebuild of the sample projection.\<close>

lemma sample_rebuild:
  assumes "sorted_wrt (<) (0 # ns)" "mem_saved w ''payments'' 1 = None"
  shows "\<exists>rep w'. run_replay (mem_engine sample_engine) payment_count (arraySource (map payment ns)) sample_options w = (Inr rep, w') \<and>
    rp_outcome rep = Published"
proof -
  have fresh: "rr_lastSequence (new_run payment_count None) = 0" "rr_state (new_run payment_count None) = 0"
    by (simp_all add: new_run_def payment_count_def Let_def)
  have rise: "rising 0 (map payment ns)" using assms(1) by simp
  then have src: "arraySource (map payment ns) 0 = (map payment ns, None)" using arraySource_suffix [of 0 "[]"] by simp
  obtain h where h: "hashState (en_sha (mem_engine sample_engine)) (pd_json payment_count (0 + int (length ns))) = Inr h"
    by (simp add: hashState_def digest_def sha256_def payment_count_def)
  have "mem.start_checkpoint payment_count sample_options w = None"
    using assms(2) by (simp add: mem.start_checkpoint_def payment_count_def)
  with mem.run_from_reference [where source = "arraySource (map payment ns)", OF sample_options_simps(1,2) fresh src rise
      payment_chain payment_project h, of w]
  show ?thesis by (auto simp: mem.run_replay_from)
qed




text \<open>
  Nothing but a published rebuild changes what is served.  When a rebuild throws, is refused because
  one is running, halts on a poison event or was a dry run, the active and the previous version of
  every projection are the ones from before; a dry run leaves the checkpoints alone too.  The name is
  no longer marked as running when the rebuild was not refused.
\<close>

theorem unpublished_rebuild_changes_nothing:
  assumes "rebuild (mem_engine en) pr source opts (running, w) = (r, running', w')"
    and "\<forall>rep. r = Inr rep \<longrightarrow> rp_outcome rep \<noteq> Published"
  shows "map_get (mw_active w') n = map_get (mw_active w) n \<and> map_get (mw_previous w') n = map_get (mw_previous w) n \<and>
    (dryRun opts \<longrightarrow> w' = w) \<and>
    (if pd_name pr \<in> set running then r = Inl (ReplayInProgressError (pd_name pr)) \<and> running' = running
     else set running' = set running)"
proof (cases "pd_name pr \<in> set running")
  case True
  with assms show ?thesis by (simp add: rebuild_def)
next
  case False
  with assms(1) have run: "run_replay (mem_engine en) pr source opts w = (r, w')" "set running' = set running"
    by (auto simp: rebuild_def split: prod.splits)
  from mem.run_unpublished [OF run(1) assms(2)] have "mem_shown w' n = mem_shown w n" by simp
  with False run dry_run_left_alone [OF _ run(1)] show ?thesis by (simp add: mem_shown_def)
qed

theorem unpublished_rebuild_changes_nothing_witness:
  "let source = (\<lambda>q. (take 1 (fst (arraySource (map payment [1]) q)), Some (OtherError ''lost'')))
   in \<exists>r w'. rebuild (mem_engine sample_engine) payment_count source sample_options ([], empty_world) = (Inl r, [], w')
     \<and> map_get (mw_active w') ''payments'' = None"
proof -
  define source :: EventSource where "source = (\<lambda>q. (take 1 (fst (arraySource (map payment [1]) q)), Some (OtherError ''lost'')))"
  obtain rep w1 where full: "run_replay (mem_engine sample_engine) payment_count (arraySource (map payment [1])) sample_options empty_world = (Inr rep, w1)"
    "rp_outcome rep = Published"
    using sample_rebuild [of "[1]" empty_world] by (auto simp: mem_saved_def empty_world_def)
  obtain r w' where crash: "run_replay (mem_engine sample_engine) payment_count source sample_options empty_world = (r, w')" by fastforce
  have "mem_saved (empty_world :: int mem_world) (pd_name payment_count) (pd_version payment_count) = None" "rising 0 (map payment [1])"
    by (simp_all add: mem_saved_def empty_world_def)
  with mem.crash_then_resume [OF sample_options_simps(1,2) _ _ _ full crash [unfolded source_def]]
  have "r = Inl (Raised (OtherError ''lost''))" by simp
  with crash have reb: "rebuild (mem_engine sample_engine) payment_count source sample_options ([], empty_world)
    = (Inl (Raised (OtherError ''lost'')), [], w')" by (simp add: rebuild_def set_add_def)
  with unpublished_rebuild_changes_nothing [OF this, of "''payments''"] show ?thesis
    by (simp add: source_def Let_def empty_world_def)
qed

text \<open>
  Publishing can be undone once.  After a rebuild replaced an active version, rolling back returns
  that version and makes it active again, no other projection is touched, and a second rollback
  finds nothing to restore.
\<close>

theorem publish_then_rollback:
  assumes "run_replay (mem_engine en) pr source opts w = (Inr rep, w')" "rp_outcome rep = Published"
    and "map_get (mw_active w) (pd_name pr) = Some prior"
  shows "\<exists>w2. rollback_projection (mem_engine en) (pd_name pr) w' = (Inr (Some prior), w2) \<and>
    map_get (mw_active w2) (pd_name pr) = Some prior \<and>
    (\<forall>n. n \<noteq> pd_name pr \<longrightarrow> map_get (mw_active w2) n = map_get (mw_active w) n) \<and>
    rollback_projection (mem_engine en) (pd_name pr) w2 = (Inr None, w2)"
proof -
  have dry: "\<not> dryRun opts" using dry_run_left_alone [OF _ assms(1)] assms(2) by blast
  have "run_from (mem_engine en) pr source opts (mem.start_checkpoint pr opts w) w = (Inr rep, w')"
    using assms(1) mem.run_replay_from [OF dry, of en pr source w] by simp
  from mem.rollback_after_publish [OF this assms(2) dry] assms(3) show ?thesis
    by (auto simp: mem_shown_def rollback_projection_def)
qed

theorem publish_then_rollback_witness:
  "let prior = \<lparr>pp_projection = ''payments'', pp_version = 0, pp_sequence = 0, pp_state = 7 :: int, pp_stateHash = ''x'', pp_publishedAt = ''t''\<rparr>;
       w = empty_world\<lparr>mw_active := [(''payments'', prior)]\<rparr>
   in \<exists>rep w' w2. run_replay (mem_engine sample_engine) payment_count (arraySource (map payment [1])) sample_options w = (Inr rep, w') \<and>
      rollback_projection (mem_engine sample_engine) ''payments'' w' = (Inr (Some prior), w2)"
proof -
  define prior where "prior = \<lparr>pp_projection = ''payments'', pp_version = 0, pp_sequence = 0, pp_state = 7 :: int, pp_stateHash = ''x'', pp_publishedAt = ''t''\<rparr>"
  define w where "w = empty_world\<lparr>mw_active := [(''payments'', prior)]\<rparr>"
  obtain rep w' where r: "run_replay (mem_engine sample_engine) payment_count (arraySource (map payment [1])) sample_options w = (Inr rep, w')"
    "rp_outcome rep = Published"
    using sample_rebuild [of "[1]" w] by (auto simp: mem_saved_def empty_world_def w_def)
  have "map_get (mw_active w) (pd_name payment_count) = Some prior" by (simp add: w_def payment_count_def)
  from publish_then_rollback [OF r this] r show ?thesis
    unfolding w_def prior_def Let_def by (auto simp: payment_count_def)
qed

text \<open>
  The report accounts for every event: of a run that returns a report, the events read are those
  applied, ignored, skipped as duplicates or recorded as poison.
\<close>

theorem replay_report_accounts:
  assumes "run_replay en pr source opts w = (Inr rep, w')"
  shows "rp_eventsRead rep = rp_applied rep + rp_ignored rep + rp_duplicates rep + length (rp_poisonEvents rep)"
  using assms run_from_accounted
  by (auto simp: run_replay_def accounted_def [symmetric] split: if_splits prod.splits sum.splits)

theorem replay_report_accounts_witness:
  "\<exists>rep w'. run_replay (mem_engine sample_engine) payment_count (arraySource (map payment [1, 3])) sample_options empty_world = (Inr rep, w')
     \<and> rp_eventsRead rep = rp_applied rep + rp_ignored rep + rp_duplicates rep + length (rp_poisonEvents rep)"
proof -
  obtain rep w' where r: "run_replay (mem_engine sample_engine) payment_count (arraySource (map payment [1, 3])) sample_options empty_world = (Inr rep, w')"
    using sample_rebuild [of "[1, 3]" empty_world] by (auto simp: mem_saved_def empty_world_def)
  from replay_report_accounts [OF this] r show ?thesis by blast
qed

text \<open>
  The user directory counts its users.  After any events, also repeated or contradicting ones, the
  count of a tier is the number of users the directory has in that tier.
\<close>

theorem directory_counts_users:
  "let st = run (\<lambda>event st. user_directory_apply str st event) events (pd_initialState (userDirectoryProjection str))
   in count_of (ud_countsByTier st) tier 0 = int (tier_users str st tier)"
proof -
  have "counts_match str (pd_initialState (userDirectoryProjection str))"
    by (simp add: counts_match_def userDirectoryProjection_def tier_users_def count_of_def)
  from user_directory.run_inv [OF this] show ?thesis by (simp add: counts_match_def Let_def)
qed

text \<open>
  An appended ledger can be replayed.  The entries of a ledger built by appending, with payloads free
  of \<open>undefined\<close>, pass every check of the replay: their sequence numbers rise and each carries the hash
  the replay computes and the hash of its predecessor.
\<close>

theorem appended_ledger_replays:
  assumes "\<forall>x \<in> set inputs. no_undefined (li_payload (snd x))" "\<forall>t. sha t \<noteq> []"
  shows "let es = map stored_entry (run (append_step sha) inputs []) in chain_ok sha None es \<and> rising 0 es"
proof -
  have "\<forall>e \<in> set (run (append_step sha) inputs []). no_undefined (le_payload e)"
  proof -
    have "\<forall>e \<in> set (run (append_step sha) xs es). no_undefined (le_payload e)"
      if "\<forall>x \<in> set xs. no_undefined (li_payload (snd x))" "\<forall>e \<in> set es. no_undefined (le_payload e)" for xs es
      using that
    proof (induction xs arbitrary: es)
      case (Cons x xs)
      have "\<forall>e \<in> set (append_step sha x es). no_undefined (le_payload e)"
        using Cons.prems by (auto simp: append_step_def append_entry_def Let_def split: sum.splits option.splits)
      with Cons show ?case by simp
    qed simp
    from this [OF assms(1), of "[]"] show ?thesis by simp
  qed
  moreover have "chained sha (run (append_step sha) inputs [])" by (rule ledger.run_inv) simp
  ultimately show ?thesis using chained_replays assms(2) by (simp add: Let_def)
qed

theorem appended_ledger_replays_witness:
  "let input = \<lparr>li_eventName = ''x'', li_schemaVersion = ''1'', li_producer = ''p'', li_payload = JObj True [(''a'', JNull)], li_timestamp = None\<rparr>;
       es = map stored_entry (run (append_step (\<lambda>s. ''h'' @ s)) [(''t'', input), (''u'', input)] [])
   in length es = 2 \<and> chain_ok (\<lambda>s. ''h'' @ s) None es"
proof -
  define input where "input = \<lparr>li_eventName = ''x'', li_schemaVersion = ''1'', li_producer = ''p'', li_payload = JObj True [(''a'', JNull)], li_timestamp = None\<rparr>"
  have "length (map stored_entry (run (append_step (\<lambda>s. ''h'' @ s)) [(''t'', input), (''u'', input)] [])) = 2"
    by (simp add: append_step_def append_entry_def payload_hash_def sha256_def input_def render_object_def map_result_def Let_def)
  with appended_ledger_replays [of "[(''t'', input), (''u'', input)]" "\<lambda>s. ''h'' @ s"] show ?thesis
    by (simp add: input_def Let_def)
qed

text \<open>
  A payload with an \<open>undefined\<close> property is hashed differently by the ledger and by the replay, which
  is meant to follow the ledger's rule: an entry appended for it verifies, and the replay refuses it.
  The hash function is assumed not to be blank and to keep the texts hashed here apart.
\<close>

theorem undefined_payload_not_replayable:
  assumes "append_entry sha now input [] = (Inr entry, es)" "li_payload input = JObj True [(k, JUndefined)]"
    and "sha (''{'' @ json_string k @ '':undefined}'') \<noteq> sha ''{}''"
    and "sha (chain_text 1 None (sha (''{'' @ json_string k @ '':undefined}''))) \<noteq> sha (chain_text 1 None (sha ''{}''))"
    and "\<forall>t. sha t \<noteq> []"
  shows "(\<exists>v. verify sha es = Inr v \<and> lv_valid v) \<and> \<not> chain_ok sha None (map stored_entry es)"
proof -
  let ?t = "''{'' @ json_string k @ '':undefined}''"
  have led: "ledger_canonicalize (JObj True [(k, JUndefined)]) = Inr (Some ?t)"
    by (simp add: render_object_def map_result_def in_template_def)
  have rpl: "replay_canonicalize (JObj True [(k, JUndefined)]) = Inr (Some ''{}'')"
    by (simp add: render_object_def map_result_def)
  have es: "es = [entry]" and entry: "le_sequence entry = 1" "le_previousHash entry = None"
    "le_payload entry = JObj True [(k, JUndefined)]" "le_hash entry = sha (chain_text 1 None (sha ?t))"
    using assms(1,2) led by (auto simp: append_entry_def payload_hash_def sha256_def computeEntryHash_def Let_def split: sum.splits)
  have "ledgerHash sha (stored_entry entry) = Inr (sha (chain_text 1 None (sha ''{}'')))"
    using entry rpl by (simp add: ledgerHash_def digest_def sha256_def stored_entry_def)
  moreover have "le_hash entry \<noteq> []" using entry assms(5) by simp
  ultimately have "\<not> chain_ok sha None (map stored_entry es)"
    using es entry(4) assms(4) by (simp add: chain_step_def) (simp add: stored_entry_def)
  moreover have "chained sha es" using append_chained [of sha "[]" now input] assms(1) by simp
  ultimately show ?thesis using verify_chained by blast
qed

theorem undefined_payload_not_replayable_witness:
  "let sha = (\<lambda>s. ''h'' @ s);
       input = \<lparr>li_eventName = ''x'', li_schemaVersion = ''1'', li_producer = ''p'', li_payload = JObj True [(''a'', JUndefined)], li_timestamp = None\<rparr>
   in \<not> chain_ok sha None (map stored_entry (snd (append_entry sha ''t'' input [])))"
proof -
  define input where "input = \<lparr>li_eventName = ''x'', li_schemaVersion = ''1'', li_producer = ''p'', li_payload = JObj True [(''a'', JUndefined)], li_timestamp = None\<rparr>"
  obtain entry es where ap: "append_entry (\<lambda>s. ''h'' @ s) ''t'' input [] = (Inr entry, es)"
    by (simp add: append_entry_def payload_hash_def sha256_def input_def render_object_def map_result_def Let_def)
  have "li_payload input = JObj True [(''a'', JUndefined)]" by (simp add: input_def)
  from undefined_payload_not_replayable [OF ap this] ap show ?thesis by (simp add: input_def chain_text_def Let_def)
qed

text \<open>
  A resumed rebuild does not check the link to the event before the checkpoint.  Take two ledger
  events whose own hashes are right but where the second does not name the first as its predecessor.
  A rebuild of both never publishes; a rebuild that resumes from a checkpoint at the first event does.
\<close>

theorem resume_skips_link_check:
  assumes "\<not> dryRun opts" "ro_limit opts = None" "ro_resume opts \<noteq> Some False" "rising 0 [e1, e2]"
    and "ev_hash e1 = Some h1" "h1 \<noteq> []" "ledgerHash (en_sha en) e1 = Inr h1"
    and "ev_hash e2 = Some h2" "h2 \<noteq> []" "ledgerHash (en_sha en) e2 = Inr h2" "ev_previousHash e2 \<noteq> Some h1"
    and "mem_saved w (pd_name pr) (pd_version pr) = Some c" "ck_sequence c = se_sequence e1" "ck_state c = s"
    and "project (mem_engine en) pr opts [e2] s = Some s'" "hashState (en_sha en) (pd_json pr s') = Inr h"
  shows "(\<forall>rep w'. run_replay (mem_engine en) pr (arraySource [e1, e2]) (opts\<lparr>ro_resume := Some False\<rparr>) w = (Inr rep, w')
      \<longrightarrow> rp_outcome rep \<noteq> Published) \<and>
    (\<exists>rep w'. run_replay (mem_engine en) pr (arraySource [e1, e2]) opts w = (Inr rep, w') \<and> rp_outcome rep = Published)"
proof
  have src: "arraySource ([] @ [e1, e2]) 0 = ([e1, e2], None)" "arraySource ([e1] @ [e2]) (se_sequence e1) = ([e2], None)"
    using arraySource_suffix [of 0 "[]" "[e1, e2]"] arraySource_suffix [of 0 "[e1]" "[e2]"] assms(4) by simp_all
  have broken_link: "\<not> chain_ok (en_sha en) None (effective 0 [e1, e2])"
    using assms(4-11) by (simp add: chain_step_def)
  show "\<forall>rep w'. run_replay (mem_engine en) pr (arraySource [e1, e2]) (opts\<lparr>ro_resume := Some False\<rparr>) w = (Inr rep, w')
      \<longrightarrow> rp_outcome rep \<noteq> Published"
  proof (intro allI impI notI)
    fix rep w'
    assume run: "run_replay (mem_engine en) pr (arraySource [e1, e2]) (opts\<lparr>ro_resume := Some False\<rparr>) w = (Inr rep, w')"
      "rp_outcome rep = Published"
    have "run_from (mem_engine en) pr (arraySource [e1, e2]) (opts\<lparr>ro_resume := Some False\<rparr>) None w = (Inr rep, w')"
      using run(1) by (simp add: run_replay_def)
    from mem.run_from_published [OF this run(2)] assms(1,2) src(1) broken_link show False
      by (simp add: dryRun_def new_run_def Let_def)
  qed
  have new: "rr_lastSequence (new_run pr (Some c)) = se_sequence e1" "rr_state (new_run pr (Some c)) = s"
    using assms(13,14) by (simp_all add: new_run_def Let_def)
  have "rising (se_sequence e1) [e2]" "chain_ok (en_sha (mem_engine en)) None [e2]"
    using assms(4,8-10) by (simp_all add: chain_step_def)
  with mem.run_from_reference [where source = "arraySource ([e1] @ [e2])", OF assms(1,2) new src(2), of en s' h w] assms(15,16)
  have "\<exists>rep w'. run_from (mem_engine en) pr (arraySource [e1, e2]) opts (Some c) w = (Inr rep, w') \<and> rp_outcome rep = Published"
    by auto
  then show "\<exists>rep w'. run_replay (mem_engine en) pr (arraySource [e1, e2]) opts w = (Inr rep, w') \<and> rp_outcome rep = Published"
    using mem.run_replay_from [OF assms(1), of en pr "arraySource [e1, e2]" w] assms(3,12)
    by (simp add: mem.start_checkpoint_def)
qed

theorem resume_skips_link_check_witness:
  "let sha = (\<lambda>s. ''h''); e1 = (payment 1)\<lparr>ev_hash := Some ''h''\<rparr>;
       e2 = (payment 2)\<lparr>ev_hash := Some ''h'', ev_previousHash := Some ''other''\<rparr>;
       c = \<lparr>ck_projection = ''other-events'', ck_version = 1, ck_sequence = 1, ck_state = 0 :: int, ck_savedAt = ''t''\<rparr>;
       pr = payment_count\<lparr>pd_name := ''other-events'', pd_handles := []\<rparr>;
       en = sample_engine\<lparr>en_sha := sha\<rparr>
   in \<exists>rep w'. run_replay (mem_engine en) pr (arraySource [e1, e2]) sample_options
        (empty_world\<lparr>mw_checkpoints := [(checkpoint_key ''other-events'' 1, c)]\<rparr>) = (Inr rep, w') \<and> rp_outcome rep = Published"
proof -
  define e1 where "e1 = (payment 1)\<lparr>ev_hash := Some ''h''\<rparr>"
  define e2 where "e2 = (payment 2)\<lparr>ev_hash := Some ''h'', ev_previousHash := Some ''other''\<rparr>"
  define c where "c = \<lparr>ck_projection = ''other-events'', ck_version = 1, ck_sequence = 1, ck_state = 0 :: int, ck_savedAt = ''t''\<rparr>"
  define pr where "pr = payment_count\<lparr>pd_name := ''other-events'', pd_handles := []\<rparr>"
  define en where "en = sample_engine\<lparr>en_sha := (\<lambda>s. ''h'')\<rparr>"
  define w where "w = empty_world\<lparr>mw_checkpoints := [(checkpoint_key ''other-events'' 1, c)]\<rparr>"
  have rise: "rising 0 [e1, e2]" by (simp add: e1_def e2_def payment_def)
  have l1: "ledgerHash (en_sha en) e1 = Inr ''h''" "ledgerHash (en_sha en) e2 = Inr ''h''"
    by (simp_all add: ledgerHash_def digest_def sha256_def en_def e1_def e2_def payment_def render_object_def map_result_def)
  have h: "ev_hash e1 = Some ''h''" "ev_hash e2 = Some ''h''" "ev_previousHash e2 \<noteq> Some ''h''" by (simp_all add: e1_def e2_def)
  have c: "mem_saved w (pd_name pr) (pd_version pr) = Some c" "ck_sequence c = se_sequence e1" "ck_state c = 0"
    by (simp_all add: mem_saved_def w_def pr_def payment_count_def c_def e1_def)
  have p: "project (mem_engine en) pr sample_options [e2] 0 = Some 0" by (simp add: project_event_def pr_def)
  have hs: "hashState (en_sha en) (pd_json pr 0) = Inr ''h''"
    by (simp add: hashState_def digest_def sha256_def pr_def payment_count_def en_def)
  from resume_skips_link_check [OF sample_options_simps(1,2) _ rise h(1) _ l1(1) h(2) _ l1(2) h(3) c p hs]
  show ?thesis by (simp add: e1_def e2_def c_def pr_def en_def w_def Let_def)
qed

end
