(* ===== verification/Audit_Sanitizer.thy ===== *)
theory Audit_Sanitizer
  imports Domain_Events
begin

text \<open>
  What may be audited and what an audit row may contain: the catalogue of sensitive actions,
  \<open>src/infrastructure/audit/sensitive-actions/sensitive-action.enum.ts\<close>, and the payload sanitizer,
  \<open>audit-payload.sanitizer.ts\<close>.  A payload is a tree, so the sanitizer's handling of reference cycles
  does not arise.  The path of a redacted value is kept as a list of steps and rendered as the code
  builds it on the way down.
\<close>

section \<open>The catalogue\<close>

datatype SensitiveActionScope =
    Scope_AUTHENTICATION
  | Scope_ACCESS_CONTROL
  | Scope_IDENTITY
  | Scope_TREASURY
  | Scope_BILLING
  | Scope_RECONCILIATION
  | Scope_DATA_EXPORT
  | Scope_PROTOCOL_CONFIG
  | Scope_COMPLIANCE
  | Scope_PORTFOLIO
  | Scope_APPROVAL

fun show_scope :: "SensitiveActionScope \<Rightarrow> string" where
  "show_scope Scope_AUTHENTICATION = ''authentication''"
| "show_scope Scope_ACCESS_CONTROL = ''access-control''"
| "show_scope Scope_IDENTITY = ''identity''"
| "show_scope Scope_TREASURY = ''treasury''"
| "show_scope Scope_BILLING = ''billing''"
| "show_scope Scope_RECONCILIATION = ''reconciliation''"
| "show_scope Scope_DATA_EXPORT = ''data-export''"
| "show_scope Scope_PROTOCOL_CONFIG = ''protocol-config''"
| "show_scope Scope_COMPLIANCE = ''compliance''"
| "show_scope Scope_PORTFOLIO = ''portfolio''"
| "show_scope Scope_APPROVAL = ''approval''"

definition SENSITIVE_ACTIONS :: "string list" where
  "SENSITIVE_ACTIONS =
    [''auth.login.succeeded'',
     ''auth.login.failed'',
     ''auth.sessions.revoked'',
     ''auth.password.changed'',
     ''auth.mfa.enrolled'',
     ''auth.mfa.reset'',
     ''access.role.assigned'',
     ''access.role.revoked'',
     ''access.api-key.created'',
     ''access.api-key.revoked'',
     ''access.impersonation.started'',
     ''access.impersonation.stopped'',
     ''identity.user.suspended'',
     ''identity.user.reactivated'',
     ''identity.user.deleted'',
     ''identity.kyc.decision'',
     ''treasury.withdrawal.approved'',
     ''treasury.withdrawal.rejected'',
     ''treasury.payout.initiated'',
     ''treasury.wallet.whitelisted'',
     ''billing.invoice.marked-paid'',
     ''billing.invoice.voided'',
     ''billing.refund.issued'',
     ''billing.credit.adjusted'',
     ''reconciliation.override'',
     ''reconciliation.invoice.updated'',
     ''data.audit.exported'',
     ''data.user.exported'',
     ''compliance.retention-hold.placed'',
     ''compliance.evidence-bundle.exported'',
     ''config.feature-flag.changed'',
     ''config.emergency-pause.toggled'',
     ''config.contract.upgraded'',
     ''config.maintenance-window.changed'',
     ''config.status-degradation.changed'',
     ''portfolio.record.changed'',
     ''lifecycle.state.transition'',
     ''portfolio.state.transition'',
     ''defi.position.state.transition'',
     ''transaction.state.transition'',
     ''maintainer.action.proposed'',
     ''maintainer.action.cancelled'',
     ''maintainer.action.executed'']"

record SensitiveActionDefinition =
  sd_scope :: SensitiveActionScope
  sd_description :: string
  sd_reasonRequired :: bool
  sd_capturesState :: bool

definition action_def :: "SensitiveActionScope \<Rightarrow> string \<Rightarrow> bool \<Rightarrow> bool \<Rightarrow> SensitiveActionDefinition" where
  "action_def sc descr reasonRequired capturesState =
     \<lparr>sd_scope = sc, sd_description = descr, sd_reasonRequired = reasonRequired, sd_capturesState = capturesState\<rparr>"

definition SENSITIVE_ACTION_CATALOGUE :: "(string \<times> SensitiveActionDefinition) list" where
  "SENSITIVE_ACTION_CATALOGUE =
    [(''auth.login.succeeded'', action_def Scope_AUTHENTICATION ''A user or maintainer authenticated successfully.'' False False),
     (''auth.login.failed'', action_def Scope_AUTHENTICATION ''An authentication attempt was rejected.'' False False),
     (''auth.sessions.revoked'', action_def Scope_AUTHENTICATION ''Every active session for an actor was revoked.'' False False),
     (''auth.password.changed'', action_def Scope_AUTHENTICATION ''An account password was changed.'' False False),
     (''auth.mfa.enrolled'', action_def Scope_AUTHENTICATION ''A second factor was enrolled on an account.'' False False),
     (''auth.mfa.reset'', action_def Scope_AUTHENTICATION ''A second factor was reset by an operator or recovery flow.'' True False),
     (''access.role.assigned'', action_def Scope_ACCESS_CONTROL ''A role was granted to an actor.'' True True),
     (''access.role.revoked'', action_def Scope_ACCESS_CONTROL ''A role was revoked from an actor.'' True True),
     (''access.api-key.created'', action_def Scope_ACCESS_CONTROL ''An API credential was issued.'' False False),
     (''access.api-key.revoked'', action_def Scope_ACCESS_CONTROL ''An API credential was revoked.'' True False),
     (''access.impersonation.started'', action_def Scope_ACCESS_CONTROL ''A maintainer began acting on behalf of another actor.'' True False),
     (''access.impersonation.stopped'', action_def Scope_ACCESS_CONTROL ''An impersonation session ended.'' False False),
     (''identity.user.suspended'', action_def Scope_IDENTITY ''An account was suspended.'' True True),
     (''identity.user.reactivated'', action_def Scope_IDENTITY ''A suspended account was reactivated.'' True True),
     (''identity.user.deleted'', action_def Scope_IDENTITY ''An account was deleted or scheduled for erasure.'' True True),
     (''identity.kyc.decision'', action_def Scope_IDENTITY ''A KYC/AML decision was recorded for an account.'' True True),
     (''treasury.withdrawal.approved'', action_def Scope_TREASURY ''A withdrawal request was approved.'' True True),
     (''treasury.withdrawal.rejected'', action_def Scope_TREASURY ''A withdrawal request was rejected.'' True True),
     (''treasury.payout.initiated'', action_def Scope_TREASURY ''An outbound payout was initiated.'' False True),
     (''treasury.wallet.whitelisted'', action_def Scope_TREASURY ''A destination wallet was added to the payout allow-list.'' True True),
     (''billing.invoice.marked-paid'', action_def Scope_BILLING ''An invoice was manually marked as paid.'' True True),
     (''billing.invoice.voided'', action_def Scope_BILLING ''An invoice was voided.'' True True),
     (''billing.refund.issued'', action_def Scope_BILLING ''A refund was issued to a customer.'' True True),
     (''billing.credit.adjusted'', action_def Scope_BILLING ''An account credit balance was adjusted manually.'' True True),
     (''reconciliation.override'', action_def Scope_RECONCILIATION ''A reconciliation decision was overridden by an operator.'' True True),
     (''reconciliation.invoice.updated'', action_def Scope_RECONCILIATION (''An invoice'' @ [CHR 0x27] @ ''s reconciliation fields were edited.'') True True),
     (''data.audit.exported'', action_def Scope_DATA_EXPORT ''Audit records were exported for review.'' True False),
     (''data.user.exported'', action_def Scope_DATA_EXPORT ''User data was exported (DSAR or support request).'' True False),
     (''compliance.retention-hold.placed'', action_def Scope_COMPLIANCE ''A retention hold was placed to protect records from purge.'' True False),
     (''compliance.evidence-bundle.exported'', action_def Scope_COMPLIANCE ''An audit evidence bundle was exported for a support investigation or compliance audit.'' True True),
     (''config.feature-flag.changed'', action_def Scope_PROTOCOL_CONFIG ''A feature flag was enabled, disabled, or re-weighted.'' True True),
     (''config.emergency-pause.toggled'', action_def Scope_PROTOCOL_CONFIG ''The emergency pause switch was toggled.'' True True),
     (''config.maintenance-window.changed'', action_def Scope_PROTOCOL_CONFIG ''A maintenance window was activated or cleared, changing what the API serves.'' True True),
     (''config.status-degradation.changed'', action_def Scope_PROTOCOL_CONFIG ''An operator declared or cleared a component degradation on the public status.'' True True),
     (''config.contract.upgraded'', action_def Scope_PROTOCOL_CONFIG ''A contract was upgraded or its WASM hash changed.'' True True),
     (''portfolio.record.changed'', action_def Scope_PORTFOLIO ''A portfolio or holding affecting ownership or value changed.'' False True),
     (''portfolio.state.transition'', action_def Scope_PORTFOLIO ''A portfolio transitioned between deterministic lifecycle states.'' False True),
     (''defi.position.state.transition'', action_def Scope_PROTOCOL_CONFIG ''A DeFi position transitioned lifecycle state.'' False True),
     (''transaction.state.transition'', action_def Scope_TREASURY ''A transaction transitioned lifecycle state.'' False True),
     (''lifecycle.state.transition'', action_def Scope_COMPLIANCE ''A core record underwent a deterministic lifecycle state transition.'' False True),
     (''maintainer.action.proposed'', action_def Scope_APPROVAL ''A maintainer declared a signed intent to perform a high-impact action.'' True True),
     (''maintainer.action.cancelled'', action_def Scope_APPROVAL ''A proposed approval intent was withdrawn before it could execute.'' True False),
     (''maintainer.action.executed'', action_def Scope_APPROVAL ''An approval intent reached a terminal state and its signed receipt was recorded.'' False True)]"

definition isSensitiveAction :: "string \<Rightarrow> bool" where
  "isSensitiveAction v = map_has SENSITIVE_ACTION_CATALOGUE v"

definition describeSensitiveAction :: "string \<Rightarrow> SensitiveActionDefinition option" where
  "describeSensitiveAction action = map_get SENSITIVE_ACTION_CATALOGUE action"

section \<open>Secret-looking keys\<close>

text \<open>
  The pattern is a set of alternatives, each a word with optional separators (\<open>[-_]?\<close>), looked for
  anywhere in the key, ignoring the case of letters.
\<close>

datatype key_item = Lit char | Sep

definition word_of :: "string \<Rightarrow> key_item list" where
  "word_of w = map (\<lambda>c. if c = CHR ''?'' then Sep else Lit c) w"

definition SENSITIVE_KEY_PATTERN :: "key_item list list" where
  "SENSITIVE_KEY_PATTERN = map word_of
    [''secret'', ''token'', ''password'', ''passwd'', ''authorization'', ''auth?header'', ''api?key'', ''apikey'',
     ''private?key'', ''secret?key'', ''seed'', ''mnemonic'', ''signature'', ''signed?payload'', ''cookie'',
     ''session?id'', ''otp'', ''totp'', ''pin'', ''card?number'', ''cvv'', ''cvc'', ''iban'', ''ssn'',
     ''routing?number'', ''refresh?token'', ''webhook?secret'']"

fun match_here :: "key_item list \<Rightarrow> string \<Rightarrow> bool" where
  "match_here [] s = True"
| "match_here (Lit c # ps) [] = False"
| "match_here (Lit c # ps) (d # s) = (char_lower d = c \<and> match_here ps s)"
| "match_here (Sep # ps) [] = match_here ps []"
| "match_here (Sep # ps) (d # s) =
     (match_here ps (d # s) \<or> ((d = CHR ''-'' \<or> d = CHR ''_'') \<and> match_here ps s))"

fun match_anywhere :: "key_item list \<Rightarrow> string \<Rightarrow> bool" where
  "match_anywhere ps [] = match_here ps []"
| "match_anywhere ps (d # s) = (match_here ps (d # s) \<or> match_anywhere ps s)"

definition sensitive_key :: "string \<Rightarrow> bool" where
  "sensitive_key key = list_ex (\<lambda>ps. match_anywhere ps key) SENSITIVE_KEY_PATTERN"

section \<open>The sanitizer\<close>

definition REDACTED :: string where
  "REDACTED = ''[REDACTED]''"

record SanitizerLimits =
  sl_maxDepth :: nat
  sl_maxStringLength :: nat
  sl_maxArrayLength :: nat

definition DEFAULT_LIMITS :: SanitizerLimits where
  "DEFAULT_LIMITS = \<lparr>sl_maxDepth = 6, sl_maxStringLength = 500, sl_maxArrayLength = 100\<rparr>"

datatype path_step = At_key string | At_index nat

record SanitizationResult =
  sr_value :: "js_value option"
  sr_redactedPaths :: "string list"
  sr_truncated :: bool

text \<open>What a walk over a value gives: the value or nothing, the redacted paths below it, and whether a limit was hit.\<close>

type_synonym walked = "js_value option \<times> path_step list list \<times> bool"

definition plain :: "js_value \<Rightarrow> walked" where
  "plain v = (Some v, [], False)"

definition below :: "path_step \<Rightarrow> path_step list list \<Rightarrow> path_step list list" where
  "below st paths = map ((#) st) paths"

definition walk_string :: "SanitizerLimits \<Rightarrow> string \<Rightarrow> walked" where
  "walk_string lm s =
     (if length s > sl_maxStringLength lm
      then (Some (JStr (take (sl_maxStringLength lm) s @ ''...[truncated]'')), [], True)
      else plain (JStr s))"

definition collect_items :: "bool \<Rightarrow> walked option list \<Rightarrow> walked" where
  "collect_items over ws =
     (Some (JArr (map Some (List.map_filter (\<lambda>w. case w of None \<Rightarrow> None | Some w' \<Rightarrow> fst w') ws))),
      concat (map (\<lambda>(i, w). case w of None \<Rightarrow> [] | Some w' \<Rightarrow> below (At_index i) (fst (snd w'))) (enumerate 0 ws)),
      over \<or> list_ex (\<lambda>w. case w of None \<Rightarrow> False | Some w' \<Rightarrow> snd (snd w')) ws)"

definition collect_entries :: "(string \<times> walked) list \<Rightarrow> walked" where
  "collect_entries es =
     (Some (JObj True (List.map_filter (\<lambda>(k, w). if sensitive_key k then Some (k, JStr REDACTED) else map_option (Pair k) (fst w)) es)),
      concat (map (\<lambda>(k, w). if sensitive_key k then [[At_key k]] else below (At_key k) (fst (snd w))) es),
      list_ex (\<lambda>(k, w). \<not> sensitive_key k \<and> snd (snd w)) es)"

fun walk :: "SanitizerLimits \<Rightarrow> nat \<Rightarrow> js_value \<Rightarrow> walked" where
  "walk lm depth JNull = plain JNull"
| "walk lm depth JUndefined = plain JNull"
| "walk lm depth (JStr s) = walk_string lm s"
| "walk lm depth (JNum n) = plain (JNum n)"
| "walk lm depth (JBool b) = plain (JBool b)"
| "walk lm depth (JBigint i) = plain (JStr (show_int i))"
| "walk lm depth (JDate t) = plain (JStr t)"
| "walk lm depth (JOther ty) = (None, [], False)"
| "walk lm depth (JArr xs) =
     (if depth \<ge> sl_maxDepth lm then (Some (JStr REDACTED), [], True)
      else collect_items (length xs > sl_maxArrayLength lm)
             (take (sl_maxArrayLength lm)
               (map (\<lambda>x. case x of None \<Rightarrow> None | Some v \<Rightarrow> Some (walk lm (Suc depth) v)) xs)))"
| "walk lm depth (JObj pl entries) =
     (if depth \<ge> sl_maxDepth lm then (Some (JStr REDACTED), [], True)
      else collect_entries (map (\<lambda>(k, v). (k, walk lm (Suc depth) v)) entries))"

definition extend_path :: "path_step \<Rightarrow> string \<Rightarrow> string" where
  "extend_path st path =
     (case st of
        At_key key \<Rightarrow> (if path = [] then key else path @ ''.'' @ key)
      | At_index i \<Rightarrow> path @ ''['' @ show_nat i @ '']'')"

definition render_path :: "path_step list \<Rightarrow> string" where
  "render_path steps = fold extend_path steps []"

definition isPlainObject :: "js_value \<Rightarrow> bool" where
  "isPlainObject v = (case v of JObj _ _ \<Rightarrow> True | JDate _ \<Rightarrow> True | _ \<Rightarrow> False)"

definition sanitizeAuditPayload :: "SanitizerLimits \<Rightarrow> js_value \<Rightarrow> SanitizationResult" where
  "sanitizeAuditPayload lm input =
     (case walk lm 0 input of
        (value, paths, truncated) \<Rightarrow>
          \<lparr>sr_value = (case value of None \<Rightarrow> None | Some v \<Rightarrow> if isPlainObject v then Some v else None),
           sr_redactedPaths = map render_path paths, sr_truncated = truncated\<rparr>)"

section \<open>What may be stored\<close>

text \<open>
  A stored payload is plain JSON within the limits: the value of a secret-looking key is the redaction
  mark, a string is at most the limit and its mark long, an array is within its limit, and objects and
  arrays are nested at most as deep as allowed.
\<close>

fun storable :: "SanitizerLimits \<Rightarrow> nat \<Rightarrow> js_value \<Rightarrow> bool" where
  "storable lm depth JNull = True"
| "storable lm depth (JStr s) = (length s \<le> sl_maxStringLength lm + 14)"
| "storable lm depth (JNum n) = True"
| "storable lm depth (JBool b) = True"
| "storable lm depth (JArr xs) =
     (depth < sl_maxDepth lm \<and> length xs \<le> sl_maxArrayLength lm \<and>
      list_all (\<lambda>x. case x of None \<Rightarrow> False | Some v \<Rightarrow> storable lm (Suc depth) v) xs)"
| "storable lm depth (JObj pl entries) =
     (depth < sl_maxDepth lm \<and> pl \<and>
      list_all (\<lambda>(k, v). if sensitive_key k then v = JStr REDACTED else storable lm (Suc depth) v) entries)"
| "storable lm depth _ = False"

text \<open>Values without dates and big integers too long to show, which are stored in full.\<close>

fun short_scalars :: "SanitizerLimits \<Rightarrow> js_value \<Rightarrow> bool" where
  "short_scalars lm (JBigint i) = (length (show_int i) \<le> sl_maxStringLength lm)"
| "short_scalars lm (JDate t) = (length t \<le> sl_maxStringLength lm)"
| "short_scalars lm (JArr xs) = list_all (\<lambda>x. case x of None \<Rightarrow> True | Some v \<Rightarrow> short_scalars lm v) xs"
| "short_scalars lm (JObj pl entries) = list_all (\<lambda>(k, v). short_scalars lm v) entries"
| "short_scalars lm _ = True"

lemma map_filter_mem: "y \<in> set (List.map_filter f xs) \<longleftrightarrow> (\<exists>x \<in> set xs. f x = Some y)"
  by (induction xs) (auto simp: List.map_filter_simps split: option.splits)

lemma length_map_filter_le: "length (List.map_filter f xs) \<le> length xs"
  by (simp add: List.map_filter_def)

lemma walk_storable:
  assumes "short_scalars lm v" "fst (walk lm depth v) = Some w"
  shows "storable lm depth w"
  using assms
proof (induction lm depth v arbitrary: w rule: walk.induct)
  case (3 lm depth s)
  then show ?case by (auto simp: walk_string_def plain_def split: if_splits)
next
  case (9 lm depth xs)
  show ?case
  proof (cases "depth \<ge> sl_maxDepth lm")
    case True
    with 9 show ?thesis by (auto simp: REDACTED_def)
  next
    case False
    define ws where "ws = take (sl_maxArrayLength lm) (map (\<lambda>x. case x of None \<Rightarrow> None | Some v \<Rightarrow> Some (walk lm (Suc depth) v)) xs)"
    define vs where "vs = List.map_filter (\<lambda>w. case w of None \<Rightarrow> None | Some w' \<Rightarrow> fst w') ws"
    have w: "w = JArr (map Some vs)" using 9(3) False by (auto simp: collect_items_def vs_def ws_def)
    have "length vs \<le> sl_maxArrayLength lm"
      using length_map_filter_le [of "\<lambda>w. case w of None \<Rightarrow> None | Some w' \<Rightarrow> fst w'" ws] by (simp add: vs_def ws_def)
    moreover have "storable lm (Suc depth) u" if "u \<in> set vs" for u
    proof -
      from that obtain y where y: "Some y \<in> set ws" "fst y = Some u"
        by (auto simp: vs_def map_filter_mem split: option.splits)
      from y(1) have "Some y \<in> set (map (\<lambda>x. case x of None \<Rightarrow> None | Some v \<Rightarrow> Some (walk lm (Suc depth) v)) xs)"
        unfolding ws_def by (rule in_set_takeD)
      then obtain v where "Some v \<in> set xs" "y = walk lm (Suc depth) v" by (fastforce split: option.splits)
      with y(2) have v: "Some v \<in> set xs" "fst (walk lm (Suc depth) v) = Some u" by simp_all
      then have "short_scalars lm v" using 9(2) by (auto simp: list_all_iff)
      with 9(1) [of "Some v" v] v False show ?thesis by auto
    qed
    ultimately show ?thesis using w False by (auto simp: list_all_iff)
  qed
next
  case (10 lm depth pl entries)
  show ?case
  proof (cases "depth \<ge> sl_maxDepth lm")
    case True
    with 10 show ?thesis by (auto simp: REDACTED_def)
  next
    case False
    have "if sensitive_key k then u = JStr REDACTED else storable lm (Suc depth) u"
      if mem: "(k, u) \<in> set (List.map_filter (\<lambda>(k, w). if sensitive_key k then Some (k, JStr REDACTED) else map_option (Pair k) (fst w))
        (map (\<lambda>(k, v). (k, walk lm (Suc depth) v)) entries))" for k u
    proof -
      from mem obtain v where v: "(k, v) \<in> set entries"
        "if sensitive_key k then u = JStr REDACTED else fst (walk lm (Suc depth) v) = Some u"
        by (auto simp: map_filter_mem split: if_splits)
      then have "short_scalars lm v" using 10(2) by (auto simp: list_all_iff)
      with 10(1) [of "(k, v)" k v] v False show ?thesis by (auto split: if_splits)
    qed
    then show ?thesis using 10(3) False by (auto simp: collect_entries_def list_all_iff)
  qed
qed (auto simp: plain_def)


text \<open>Plain JSON within the limits that has no secret-looking key.\<close>

fun harmless :: "SanitizerLimits \<Rightarrow> nat \<Rightarrow> js_value \<Rightarrow> bool" where
  "harmless lm depth JNull = True"
| "harmless lm depth (JStr s) = (length s \<le> sl_maxStringLength lm)"
| "harmless lm depth (JNum n) = True"
| "harmless lm depth (JBool b) = True"
| "harmless lm depth (JArr xs) =
     (depth < sl_maxDepth lm \<and> length xs \<le> sl_maxArrayLength lm \<and>
      list_all (\<lambda>x. case x of None \<Rightarrow> False | Some v \<Rightarrow> harmless lm (Suc depth) v) xs)"
| "harmless lm depth (JObj pl entries) =
     (depth < sl_maxDepth lm \<and> pl \<and> list_all (\<lambda>(k, v). \<not> sensitive_key k \<and> harmless lm (Suc depth) v) entries)"
| "harmless lm depth _ = False"

lemma map_filter_all: "(\<And>x. x \<in> set xs \<Longrightarrow> f x = Some (g x)) \<Longrightarrow> List.map_filter f xs = map g xs"
  by (induction xs) (auto simp: List.map_filter_simps)

lemma collect_plain_items: "collect_items False (map (\<lambda>v. Some (plain v)) vs) = (Some (JArr (map Some vs)), [], False)"
proof -
  have "List.map_filter (\<lambda>w. case w of None \<Rightarrow> None | Some w' \<Rightarrow> fst w') (map (\<lambda>v. Some (plain v)) vs) = vs"
    by (induction vs) (auto simp: List.map_filter_simps plain_def)
  moreover have "\<forall>(i, w) \<in> set (enumerate 0 (map (\<lambda>v. Some (plain v)) vs)). \<exists>v. w = Some (plain v)"
    by (auto simp: enumerate_eq_zip dest!: set_zip_rightD)
  ultimately show ?thesis by (fastforce simp: collect_items_def below_def plain_def list_ex_iff)
qed

lemma walk_harmless: "harmless lm depth v \<Longrightarrow> walk lm depth v = plain v"
proof (induction lm depth v rule: walk.induct)
  case (9 lm depth xs)
  then have each: "\<And>x. x \<in> set xs \<Longrightarrow> \<exists>v. x = Some v \<and> walk lm (Suc depth) v = plain v"
    by (auto simp: list_all_iff split: option.splits)
  define vs where "vs = map the xs"
  have xs: "xs = map Some vs" unfolding vs_def using each by (simp add: comp_def) (metis map_idI option.sel)
  have eq: "map (\<lambda>x. case x of None \<Rightarrow> None | Some v \<Rightarrow> Some (walk lm (Suc depth) v)) xs = map (\<lambda>v. Some (plain v)) vs"
    using each unfolding xs by auto
  have lims: "\<not> sl_maxDepth lm \<le> depth" "length xs \<le> sl_maxArrayLength lm" using 9(2) by simp_all
  then have "walk lm depth (JArr xs) = collect_items False (map (\<lambda>v. Some (plain v)) vs)"
    unfolding walk.simps eq by (simp add: vs_def)
  then show ?case unfolding collect_plain_items xs [symmetric] by (simp add: plain_def)
next
  case (10 lm depth pl entries)
  then have each: "\<And>k v. (k, v) \<in> set entries \<Longrightarrow> walk lm (Suc depth) v = plain v \<and> \<not> sensitive_key k"
    by (auto simp: list_all_iff)
  have eq: "map (\<lambda>(k, v). (k, walk lm (Suc depth) v)) entries = map (\<lambda>(k, v). (k, plain v)) entries"
    using each by (intro map_cong [OF refl]) auto
  have "List.map_filter (\<lambda>(k, w). if sensitive_key k then Some (k, JStr REDACTED) else map_option (Pair k) (fst w)) (map (\<lambda>(k, v). (k, plain v)) entries) =
    map (\<lambda>(k, w). (k, the (fst w))) (map (\<lambda>(k, v). (k, plain v)) entries)"
    using each by (intro map_filter_all) (auto simp: plain_def)
  also have "\<dots> = entries" by (simp add: comp_def case_prod_unfold plain_def)
  finally have "collect_entries (map (\<lambda>(k, v). (k, plain v)) entries) = (Some (JObj True entries), [], False)"
    using each by (auto simp: collect_entries_def below_def plain_def list_ex_iff split: if_splits)
  moreover have "walk lm depth (JObj pl entries) = collect_entries (map (\<lambda>(k, v). (k, plain v)) entries)"
    using 10(2) unfolding walk.simps eq by simp
  ultimately show ?case using 10(2) by (simp add: plain_def)
qed (auto simp: walk_string_def)

section \<open>Properties\<close>



text \<open>
  The sanitizer changes nothing else: a payload of plain JSON within the limits and without
  secret-looking keys is stored as it is, and nothing is reported as redacted or truncated.
\<close>

theorem harmless_payload_kept:
  assumes "harmless lm 0 (JObj True entries)"
  shows "sanitizeAuditPayload lm (JObj True entries) =
    \<lparr>sr_value = Some (JObj True entries), sr_redactedPaths = [], sr_truncated = False\<rparr>"
  using walk_harmless [OF assms] by (simp add: sanitizeAuditPayload_def plain_def isPlainObject_def)

theorem harmless_payload_kept_witness:
  "sr_value (sanitizeAuditPayload DEFAULT_LIMITS (JObj True [(''from'', JStr ''user''), (''roles'', JArr [Some (JStr ''admin'')])])) =
   Some (JObj True [(''from'', JStr ''user''), (''roles'', JArr [Some (JStr ''admin'')])])"
proof -
  have "harmless DEFAULT_LIMITS 0 (JObj True [(''from'', JStr ''user''), (''roles'', JArr [Some (JStr ''admin'')])])"
    by (simp add: DEFAULT_LIMITS_def sensitive_key_def SENSITIVE_KEY_PATTERN_def word_of_def char_lower_def)
  from harmless_payload_kept [OF this] show ?thesis by simp
qed

end
