(* ===== verification/Sensitive_Audit.thy ===== *)
theory Sensitive_Audit
  imports Audit_Sanitizer
begin

text \<open>
  The append-only trail of sensitive actions,
  \<open>src/infrastructure/audit/sensitive-actions/sensitive-action-audit.service.ts\<close>: recording an event with
  its hash link, the recorded chain head, and the verification of the whole chain.

  Recording is asynchronous.  A call is cut at its awaits: it reads the latest event, reads the head,
  writes the event and writes the head, and other calls, failures and crashes may come in between.  The
  database is an argument: a record of operations on a world, each of which may fail.  What the service
  relies on of it are the laws of the locale \<open>audit_tables\<close> below: the reads return what is stored, the
  unique index refuses a sequence number twice, and a payload column returns its value through the
  round trip \<open>jb\<close> of the column type.  SHA-256 and the clock are arguments.
\<close>

section \<open>JSON text\<close>

text \<open>\<open>JSON.stringify\<close>, which keeps the order of properties.\<close>

definition stringify_items :: "(event_error, string option) result list \<Rightarrow> (event_error, string option) result" where
  "stringify_items rs =
     map_result (\<lambda>items. Some (''['' @ join '','' (map (\<lambda>s. case s of None \<Rightarrow> ''null'' | Some t \<Rightarrow> t) items) @ '']''))
       (sequence rs)"

definition stringify_entries ::
  "(string \<times> (event_error, string option) result) list \<Rightarrow> (event_error, string option) result" where
  "stringify_entries es =
     map_result (\<lambda>items. Some (''{'' @ join '','' (List.map_filter (\<lambda>x. x) items) @ ''}''))
       (sequence (map (\<lambda>(k, r). map_result (map_option (\<lambda>s. json_string k @ '':'' @ s)) r) es))"

fun json_stringify :: "js_value \<Rightarrow> (event_error, string option) result" where
  "json_stringify (JArr xs) =
     stringify_items (map (\<lambda>x. case x of None \<Rightarrow> Inr None | Some v \<Rightarrow> json_stringify v) xs)"
| "json_stringify (JObj pl entries) = stringify_entries (map (\<lambda>(k, v). (k, json_stringify v)) entries)"
| "json_stringify (JDate t) = Inr (Some (json_string t))"
| "json_stringify v = stringify_scalar v"

section \<open>Data\<close>

datatype AuditActorType = Actor_user | Actor_maintainer | Actor_service | Actor_system

fun show_actor :: "AuditActorType \<Rightarrow> string" where
  "show_actor Actor_user = ''user''"
| "show_actor Actor_maintainer = ''maintainer''"
| "show_actor Actor_service = ''service''"
| "show_actor Actor_system = ''system''"

datatype SensitiveActionStatus = Sas_succeeded | Sas_failed

fun show_sas :: "SensitiveActionStatus \<Rightarrow> string" where
  "show_sas Sas_succeeded = ''succeeded''"
| "show_sas Sas_failed = ''failed''"

record RecordSensitiveActionInput =
  in_action :: string
  in_actorId :: string
  in_actorType :: "AuditActorType option"
  in_actorRole :: "string option"
  in_resourceType :: "string option"
  in_resourceId :: "string option"
  in_reason :: "string option"
  in_beforeState :: "js_value option"
  in_afterState :: "js_value option"
  in_metadata :: "js_value option"
  in_status :: "SensitiveActionStatus option"
  in_ipAddress :: "string option"
  in_userAgent :: "string option"
  in_occurredAt :: "string option"

record SensitiveActionEvent =
  sa_id :: string
  sa_sequence :: int
  sa_action :: string
  sa_scope :: SensitiveActionScope
  sa_actorId :: string
  sa_actorType :: AuditActorType
  sa_actorRole :: "string option"
  sa_resourceType :: "string option"
  sa_resourceId :: "string option"
  sa_reason :: "string option"
  sa_beforeState :: "js_value option"
  sa_afterState :: "js_value option"
  sa_metadata :: "js_value option"
  sa_status :: SensitiveActionStatus
  sa_ipAddress :: "string option"
  sa_userAgent :: "string option"
  sa_redactedPaths :: "string list option"
  sa_occurredAt :: string
  sa_previousHash :: "string option"
  sa_eventHash :: string

record SensitiveActionChainHead =
  ch_sequence :: int
  ch_eventHash :: string
  ch_lastEventId :: string

datatype audit_error =
    BadRequest string
  | Database event_error

section \<open>The hash of an event\<close>

definition js_nullable :: "string option \<Rightarrow> js_value" where
  "js_nullable s = (case s of None \<Rightarrow> JNull | Some t \<Rightarrow> JStr t)"

definition js_state :: "js_value option \<Rightarrow> js_value" where
  "js_state v = (case v of None \<Rightarrow> JNull | Some x \<Rightarrow> x)"

definition buildHashInput :: "SensitiveActionEvent \<Rightarrow> js_value" where
  "buildHashInput event = JObj True
     [(''sequence'', JStr (show_int (sa_sequence event))),
      (''action'', JStr (sa_action event)),
      (''scope'', JStr (show_scope (sa_scope event))),
      (''actorId'', JStr (sa_actorId event)),
      (''actorType'', JStr (show_actor (sa_actorType event))),
      (''actorRole'', js_nullable (sa_actorRole event)),
      (''resourceType'', js_nullable (sa_resourceType event)),
      (''resourceId'', js_nullable (sa_resourceId event)),
      (''reason'', js_nullable (sa_reason event)),
      (''status'', JStr (show_sas (sa_status event))),
      (''beforeState'', js_state (sa_beforeState event)),
      (''afterState'', js_state (sa_afterState event)),
      (''metadata'', js_state (sa_metadata event)),
      (''ipAddress'', js_nullable (sa_ipAddress event)),
      (''userAgent'', js_nullable (sa_userAgent event)),
      (''occurredAt'', JStr (sa_occurredAt event)),
      (''previousHash'', js_nullable (sa_previousHash event))]"

definition computeHash :: "(string \<Rightarrow> string) \<Rightarrow> SensitiveActionEvent \<Rightarrow> (event_error, string) result" where
  "computeHash sha event =
     (case json_stringify (buildHashInput event) of Inl e \<Rightarrow> Inl e | Inr c \<Rightarrow> sha256 sha c)"

section \<open>Recording\<close>

definition clip :: "string option \<Rightarrow> nat \<Rightarrow> string option" where
  "clip v mx = (case v of None \<Rightarrow> None | Some t \<Rightarrow> Some (if length t > mx then take mx t else t))"

definition mergeRedactedPaths :: "string list list \<Rightarrow> string list option" where
  "mergeRedactedPaths groups = (let merged = js_set (concat groups) in if merged = [] then None else Some merged)"

definition nextSequence :: "int \<Rightarrow> int" where
  "nextSequence s = s + 1"

definition trimmed_reason :: "RecordSensitiveActionInput \<Rightarrow> string option" where
  "trimmed_reason input =
     (case in_reason input of None \<Rightarrow> None | Some r \<Rightarrow> if trim r = [] then None else Some (trim r))"

definition build_event ::
  "string \<Rightarrow> RecordSensitiveActionInput \<Rightarrow> SensitiveActionDefinition \<Rightarrow> int \<Rightarrow> string option \<Rightarrow> SensitiveActionEvent" where
  "build_event now input d previousSequence previousHash =
     (let captured = (\<lambda>v. sanitizeAuditPayload DEFAULT_LIMITS (if sd_capturesState d then js_state v else JNull));
          before = captured (in_beforeState input);
          after = captured (in_afterState input);
          metadata = sanitizeAuditPayload DEFAULT_LIMITS (js_state (in_metadata input))
      in \<lparr>sa_id = [], sa_sequence = nextSequence previousSequence, sa_action = in_action input, sa_scope = sd_scope d,
          sa_actorId = the (clip (Some (in_actorId input)) 64),
          sa_actorType = (case in_actorType input of None \<Rightarrow> Actor_user | Some t \<Rightarrow> t),
          sa_actorRole = clip (in_actorRole input) 64, sa_resourceType = clip (in_resourceType input) 100,
          sa_resourceId = clip (in_resourceId input) 255, sa_reason = clip (trimmed_reason input) 2000,
          sa_beforeState = sr_value before, sa_afterState = sr_value after, sa_metadata = sr_value metadata,
          sa_status = (case in_status input of None \<Rightarrow> Sas_succeeded | Some s \<Rightarrow> s),
          sa_ipAddress = clip (in_ipAddress input) 45, sa_userAgent = clip (in_userAgent input) 512,
          sa_redactedPaths = mergeRedactedPaths [sr_redactedPaths before, sr_redactedPaths after, sr_redactedPaths metadata],
          sa_occurredAt = (case in_occurredAt input of None \<Rightarrow> now | Some t \<Rightarrow> if t = [] then now else t),
          sa_previousHash = previousHash, sa_eventHash = []\<rparr>)"

record 'w audit_db =
  db_latest :: "'w \<Rightarrow> (event_error, SensitiveActionEvent option) result"
  db_head :: "'w \<Rightarrow> (event_error, SensitiveActionChainHead option) result"
  db_saveEvent :: "SensitiveActionEvent \<Rightarrow> 'w \<Rightarrow> (event_error, SensitiveActionEvent) result \<times> 'w"
  db_saveHead :: "SensitiveActionChainHead \<Rightarrow> 'w \<Rightarrow> (event_error, unit) result \<times> 'w"
  db_all :: "'w \<Rightarrow> (event_error, SensitiveActionEvent list) result"

text \<open>Where a call stands: what it does when it is resumed.\<close>

datatype audit_call =
    Read_latest RecordSensitiveActionInput SensitiveActionDefinition
  | Read_head RecordSensitiveActionInput SensitiveActionDefinition "SensitiveActionEvent option"
  | Save_event SensitiveActionEvent
  | Save_head SensitiveActionEvent
  | Finished "(audit_error, SensitiveActionEvent) result"

definition recordSensitiveAction :: "RecordSensitiveActionInput \<Rightarrow> audit_call" where
  "recordSensitiveAction input =
     (case (if isSensitiveAction (in_action input) then describeSensitiveAction (in_action input) else None) of
        None \<Rightarrow> Finished (Inl (BadRequest (''Unknown sensitive action: '' @ in_action input)))
      | Some d \<Rightarrow>
          if in_actorId input = []
          then Finished (Inl (BadRequest (''A sensitive action requires an actorId ('' @ in_action input @ '')'')))
          else if sd_reasonRequired d \<and> trimmed_reason input = None
          then Finished (Inl (BadRequest (''A reason is required to record '' @ in_action input)))
          else Read_latest input d)"

definition head_matches :: "SensitiveActionEvent option \<Rightarrow> SensitiveActionChainHead \<Rightarrow> bool" where
  "head_matches latest h =
     (case latest of None \<Rightarrow> False | Some e \<Rightarrow> sa_sequence e = ch_sequence h \<and> sa_eventHash e = ch_eventHash h)"

definition link_event ::
  "(string \<Rightarrow> string) \<Rightarrow> string \<Rightarrow> RecordSensitiveActionInput \<Rightarrow> SensitiveActionDefinition \<Rightarrow> SensitiveActionEvent option
    \<Rightarrow> SensitiveActionChainHead option \<Rightarrow> audit_call" where
  "link_event sha now input d latest hd_row =
     (if latest \<noteq> None \<and> hd_row = None
      then Finished (Inl (BadRequest ''Sensitive action history is missing its recorded chain head; refusing to append.''))
      else if (case hd_row of None \<Rightarrow> False | Some h \<Rightarrow> \<not> head_matches latest h)
      then Finished (Inl (BadRequest ''Sensitive action history does not match its recorded chain head; refusing to append.''))
      else
        let previousSequence = (case hd_row of Some h \<Rightarrow> ch_sequence h | None \<Rightarrow> (case latest of Some e \<Rightarrow> sa_sequence e | None \<Rightarrow> 0));
            previousHash = (case hd_row of Some h \<Rightarrow> Some (ch_eventHash h) | None \<Rightarrow> map_option sa_eventHash latest);
            event = build_event now input d previousSequence previousHash
        in case computeHash sha event of
             Inl e \<Rightarrow> Finished (Inl (Database e))
           | Inr h \<Rightarrow> Save_event (event\<lparr>sa_eventHash := h\<rparr>))"

fun audit_advance ::
  "(string \<Rightarrow> string) \<Rightarrow> 'w audit_db \<Rightarrow> string \<Rightarrow> audit_call \<Rightarrow> 'w \<Rightarrow> audit_call \<times> 'w" where
  "audit_advance sha db now (Read_latest input d) w =
     ((case db_latest db w of Inl e \<Rightarrow> Finished (Inl (Database e)) | Inr latest \<Rightarrow> Read_head input d latest), w)"
| "audit_advance sha db now (Read_head input d latest) w =
     ((case db_head db w of Inl e \<Rightarrow> Finished (Inl (Database e)) | Inr h \<Rightarrow> link_event sha now input d latest h), w)"
| "audit_advance sha db now (Save_event event) w =
     (case db_saveEvent db event w of
        (Inl e, w1) \<Rightarrow> (Finished (Inl (Database e)), w1)
      | (Inr saved, w1) \<Rightarrow> (Save_head saved, w1))"
| "audit_advance sha db now (Save_head saved) w =
     (case db_saveHead db \<lparr>ch_sequence = sa_sequence saved, ch_eventHash = sa_eventHash saved, ch_lastEventId = sa_id saved\<rparr> w of
        (Inl e, w1) \<Rightarrow> (Finished (Inl (Database e)), w1)
      | (Inr _, w1) \<Rightarrow> (Finished (Inr saved), w1))"
| "audit_advance sha db now (Finished r) w = (Finished r, w)"

section \<open>Verification\<close>

record ChainVerificationResult =
  cv_valid :: bool
  cv_verified :: nat
  cv_brokenAt :: "string option"
  cv_reason :: string

definition chain_broken :: "nat \<Rightarrow> string option \<Rightarrow> string \<Rightarrow> ChainVerificationResult" where
  "chain_broken n i reason = \<lparr>cv_valid = False, cv_verified = n, cv_brokenAt = i, cv_reason = reason\<rparr>"

text \<open>The loop over the events: the first fault, or the sequence number and hash at the end.\<close>

fun verify_events ::
  "(string \<Rightarrow> string) \<Rightarrow> nat \<Rightarrow> string option \<Rightarrow> int \<Rightarrow> SensitiveActionEvent list
    \<Rightarrow> (event_error, ChainVerificationResult + (int \<times> string option)) result" where
  "verify_events sha index previousHash previousSequence [] = Inr (Inr (previousSequence, previousHash))"
| "verify_events sha index previousHash previousSequence (event # events) =
     (if sa_sequence event \<noteq> nextSequence previousSequence then
        Inr (Inl (chain_broken index (Some (sa_id event))
          (''Sequence gap or ordering error at sequence '' @ show_int (sa_sequence event) @ ''; expected ''
            @ show_int (nextSequence previousSequence))))
      else if sa_previousHash event \<noteq> previousHash then
        Inr (Inl (chain_broken index (Some (sa_id event)) (''Chain link mismatch at sequence '' @ show_int (sa_sequence event))))
      else case computeHash sha event of
        Inl e \<Rightarrow> Inl e
      | Inr h \<Rightarrow>
          if h \<noteq> sa_eventHash event then
            Inr (Inl (chain_broken index (Some (sa_id event)) (''Event hash mismatch at sequence '' @ show_int (sa_sequence event))))
          else verify_events sha (Suc index) (Some (sa_eventHash event)) (sa_sequence event) events)"

definition verify_head ::
  "SensitiveActionEvent list \<Rightarrow> SensitiveActionChainHead option \<Rightarrow> int \<Rightarrow> string option \<Rightarrow> ChainVerificationResult" where
  "verify_head events hd_row previousSequence previousHash =
     (case hd_row of
        Some h \<Rightarrow>
          if ch_sequence h \<noteq> previousSequence \<or> Some (ch_eventHash h) \<noteq> previousHash
             \<or> events = [] \<or> ch_lastEventId h \<noteq> sa_id (last events)
          then chain_broken (length events) (Some (ch_lastEventId h))
            (''Recorded chain head at sequence '' @ show_int (ch_sequence h) @ '' does not match the event history'')
          else \<lparr>cv_valid = True, cv_verified = length events, cv_brokenAt = None,
            cv_reason = ''Verified '' @ show_nat (length events) @ '' events ending at sequence '' @ show_int previousSequence\<rparr>
      | None \<Rightarrow>
          if events \<noteq> [] then chain_broken (length events) (Some (sa_id (last events))) ''Sensitive action chain head is missing''
          else \<lparr>cv_valid = True, cv_verified = 0, cv_brokenAt = None, cv_reason = ''No sensitive action events recorded yet''\<rparr>)"

definition verifyChain :: "(string \<Rightarrow> string) \<Rightarrow> 'w audit_db \<Rightarrow> 'w \<Rightarrow> (event_error, ChainVerificationResult) result" where
  "verifyChain sha db w =
     (case db_all db w of
        Inl e \<Rightarrow> Inl e
      | Inr events \<Rightarrow>
          (case db_head db w of
             Inl e \<Rightarrow> Inl e
           | Inr hd_row \<Rightarrow>
               (case verify_events sha 0 None 0 events of
                  Inl e \<Rightarrow> Inl e
                | Inr (Inl fault) \<Rightarrow> Inr fault
                | Inr (Inr (s, h)) \<Rightarrow> Inr (verify_head events hd_row s h))))"

section \<open>Calls in flight\<close>

text \<open>
  A run of the service: calls are started, resumed in any order, and lost when their process dies.  A
  lost call stays where it was and is never resumed, so it is removed.
\<close>

datatype audit_move =
    Start_call RecordSensitiveActionInput
  | Resume nat string
  | Lose nat

definition drop_call :: "nat \<Rightarrow> 'a list \<Rightarrow> 'a list" where
  "drop_call i xs = take i xs @ drop (Suc i) xs"

fun audit_step ::
  "(string \<Rightarrow> string) \<Rightarrow> 'w audit_db \<Rightarrow> audit_move \<Rightarrow> audit_call list \<times> 'w \<Rightarrow> audit_call list \<times> 'w" where
  "audit_step sha db (Start_call input) (calls, w) = (calls @ [recordSensitiveAction input], w)"
| "audit_step sha db (Resume i now) (calls, w) =
     (if i < length calls
      then (case audit_advance sha db now (calls ! i) w of (c, w1) \<Rightarrow> (calls[i := c], w1))
      else (calls, w))"
| "audit_step sha db (Lose i) (calls, w) = (drop_call i calls, w)"

text \<open>What the stored events must be: numbered from one, each linked to the one before, each hash right.\<close>

definition last_hash :: "SensitiveActionEvent list \<Rightarrow> string option" where
  "last_hash es = (if es = [] then None else Some (sa_eventHash (last es)))"

definition trail_sound :: "(string \<Rightarrow> string) \<Rightarrow> SensitiveActionEvent list \<Rightarrow> bool" where
  "trail_sound sha es \<longleftrightarrow> (\<forall>i < length es. sa_sequence (es ! i) = int i + 1 \<and>
     sa_previousHash (es ! i) = last_hash (take i es) \<and> computeHash sha (es ! i) = Inr (sa_eventHash (es ! i)))"

lemma trail_sound_Nil [simp]: "trail_sound sha []"
  by (simp add: trail_sound_def)

lemma trail_sound_snoc:
  "trail_sound sha (es @ [e]) \<longleftrightarrow> trail_sound sha es \<and> sa_sequence e = int (length es) + 1 \<and>
    sa_previousHash e = last_hash es \<and> computeHash sha e = Inr (sa_eventHash e)"
  by (auto simp: trail_sound_def nth_append less_Suc_eq)

lemma trail_sound_prefix: "trail_sound sha (es @ fs) \<Longrightarrow> trail_sound sha es"
  by (induction fs rule: rev_induct) (simp_all add: trail_sound_snoc flip: append_assoc)

lemma verify_events_sound:
  assumes "trail_sound sha done_es"
  shows "trail_sound sha (done_es @ es) \<Longrightarrow>
      verify_events sha n (last_hash done_es) (int (length done_es)) es = Inr (Inr (int (length (done_es @ es)), last_hash (done_es @ es)))"
    and "verify_events sha n (last_hash done_es) (int (length done_es)) es = Inr (Inr x) \<Longrightarrow> trail_sound sha (done_es @ es)"
  using assms
proof (induction es arbitrary: done_es n)
  case (Cons e es)
  {
    case 1
    then have snoc: "trail_sound sha (done_es @ [e])" using trail_sound_prefix [of sha "done_es @ [e]" es] by simp
    then have e: "sa_sequence e = int (length (done_es @ [e]))" "last_hash (done_es @ [e]) = Some (sa_eventHash e)"
      by (simp_all add: trail_sound_snoc last_hash_def)
    from Cons.IH(1) [where done_es = "done_es @ [e]"] 1 snoc e show ?case by (simp add: trail_sound_snoc nextSequence_def)
  next
    case 2
    then have snoc: "trail_sound sha (done_es @ [e])"
      by (auto simp: trail_sound_snoc nextSequence_def split: if_splits sum.splits)
    then have e: "sa_sequence e = int (length (done_es @ [e]))" "last_hash (done_es @ [e]) = Some (sa_eventHash e)"
      by (simp_all add: trail_sound_snoc last_hash_def)
    have "verify_events sha (Suc n) (last_hash (done_es @ [e])) (int (length (done_es @ [e]))) es = Inr (Inr x)"
      using 2(1) e by (auto split: if_splits sum.splits)
    with Cons.IH(2) [where done_es = "done_es @ [e]"] snoc show ?case by simp
  }
qed simp_all

section \<open>The database the service relies on\<close>

text \<open>
  The payload columns return a value through the round trip \<open>jb\<close>.  A write that reports an error may
  or may not have taken effect.
\<close>

definition column_trip :: "(js_value \<Rightarrow> js_value) \<Rightarrow> SensitiveActionEvent \<Rightarrow> SensitiveActionEvent" where
  "column_trip jb e = e\<lparr>sa_beforeState := map_option jb (sa_beforeState e), sa_afterState := map_option jb (sa_afterState e),
     sa_metadata := map_option jb (sa_metadata e)\<rparr>"

locale audit_tables =
  fixes db :: "'w audit_db"
    and rows :: "'w \<Rightarrow> SensitiveActionEvent list"
    and head_row :: "'w \<Rightarrow> SensitiveActionChainHead option"
    and jb :: "js_value \<Rightarrow> js_value"
  assumes latest_last: "db_latest db w = Inr x \<Longrightarrow> x = (if rows w = [] then None else Some (last (rows w)))"
    and head_read: "db_head db w = Inr y \<Longrightarrow> y = head_row w"
    and all_rows: "db_all db w = Inr zs \<Longrightarrow> zs = rows w"
    and event_saved: "db_saveEvent db e w = (r, w') \<Longrightarrow> head_row w' = head_row w \<and>
      (rows w' = rows w \<and> (\<forall>s. r \<noteq> Inr s) \<or>
       sa_sequence e \<notin> sa_sequence ` set (rows w) \<and>
       (\<exists>i. (\<forall>s. r = Inr s \<longrightarrow> s = e\<lparr>sa_id := i\<rparr>) \<and>
          ((\<forall>f \<in> set (rows w). sa_sequence f < sa_sequence e) \<longrightarrow> rows w' = rows w @ [column_trip jb (e\<lparr>sa_id := i\<rparr>)])))"
    and head_saved: "db_saveHead db h w = (q, w') \<Longrightarrow> rows w' = rows w \<and>
      (head_row w' = Some h \<or> head_row w' = head_row w \<and> (\<forall>u. q \<noteq> Inr u))"
begin

text \<open>What a call in flight knows: the event it will write continues some part of the trail.\<close>

definition call_linked :: "(string \<Rightarrow> string) \<Rightarrow> SensitiveActionEvent list \<Rightarrow> audit_call \<Rightarrow> bool" where
  "call_linked sha es c \<longleftrightarrow>
     (case c of
        Read_head input d latest \<Rightarrow>
          (case latest of None \<Rightarrow> True | Some e \<Rightarrow> (\<exists>k. 0 < k \<and> k \<le> length es \<and> e = es ! (k - 1)))
      | Save_event e \<Rightarrow>
          (\<exists>k \<le> length es. sa_sequence e = int k + 1 \<and> sa_previousHash e = last_hash (take k es) \<and>
             computeHash sha e = Inr (sa_eventHash e))
      | _ \<Rightarrow> True)"

lemma call_linked_grow: "call_linked sha es c \<Longrightarrow> call_linked sha (es @ fs) c"
  by (auto simp: call_linked_def nth_append split: audit_call.splits option.splits)

lemma trail_sequences: "trail_sound sha es \<Longrightarrow> sa_sequence ` set es = {1 .. int (length es)}"
proof (induction es rule: rev_induct)
  case (snoc e es)
  then show ?case by (auto simp: trail_sound_snoc)
qed simp

lemma link_event_linked:
  assumes "trail_sound sha es" "call_linked sha es (Read_head input d latest)"
  shows "call_linked sha es (link_event sha now input d latest h)"
proof -
  have built: "sa_sequence (build_event now input d q p) = q + 1" "sa_previousHash (build_event now input d q p) = p" for q p
    by (simp_all add: build_event_def nextSequence_def Let_def)
  have hash: "computeHash sha (e\<lparr>sa_eventHash := x\<rparr>) = computeHash sha e" for e x
    by (simp add: computeHash_def buildHashInput_def)
  consider (fresh) "latest = None" "h = None"
    | (follow) e k hr where "latest = Some e" "h = Some hr" "head_matches latest hr" "0 < k" "k \<le> length es" "e = es ! (k - 1)"
    | (refused) "\<exists>x. link_event sha now input d latest h = Finished (Inl x)"
  proof (cases "(latest \<noteq> None \<and> h = None) \<or> (\<exists>hr. h = Some hr \<and> \<not> head_matches latest hr)")
    case True
    then have "\<exists>x. link_event sha now input d latest h = Finished (Inl x)" by (auto simp: link_event_def)
    then show thesis by (rule refused)
  next
    case False
    show thesis
    proof (cases h)
      case None
      with False show thesis by (intro fresh) auto
    next
      case (Some hr)
      with False have m: "head_matches latest hr" by auto
      then obtain e where e: "latest = Some e" by (auto simp: head_matches_def split: option.splits)
      with assms(2) obtain k where "0 < k" "k \<le> length es" "e = es ! (k - 1)" by (auto simp: call_linked_def)
      with e Some m show thesis by (intro follow) auto
    qed
  qed
  then show ?thesis
  proof cases
    case fresh
    then show ?thesis
      using built hash by (auto simp: link_event_def call_linked_def last_hash_def Let_def split: sum.splits intro!: exI [of _ 0])
  next
    case follow
    then have "sa_sequence e = int k" "last_hash (take k es) = Some (sa_eventHash e)"
      using assms(1) by (auto simp: trail_sound_def last_hash_def last_conv_nth)
    moreover have "ch_sequence hr = sa_sequence e" "ch_eventHash hr = sa_eventHash e"
      using follow by (auto simp: head_matches_def)
    ultimately show ?thesis
      using follow built hash by (auto simp: link_event_def call_linked_def Let_def split: sum.splits intro!: exI [of _ k])
  next
    case refused
    then show ?thesis by (auto simp: call_linked_def)
  qed
qed

lemma advance_sound:
  assumes trip: "\<And>e. computeHash sha (column_trip jb e) = computeHash sha e"
    and inv: "trail_sound sha (rows w)" "call_linked sha (rows w) c"
    and step: "audit_advance sha db now c w = (c', w')"
  shows "trail_sound sha (rows w') \<and> (\<exists>fs. rows w' = rows w @ fs) \<and> call_linked sha (rows w') c'"
proof (cases c)
  case (Read_latest input d)
  then show ?thesis using step inv latest_last [of w]
    by (auto simp: call_linked_def last_conv_nth split: sum.splits intro!: exI [of _ "length (rows w)"])
next
  case (Read_head input d latest)
  then have "call_linked sha (rows w) (link_event sha now input d latest h)" for h
    using link_event_linked [OF inv(1)] inv(2) by simp
  then show ?thesis using step inv(1) Read_head by (auto simp: call_linked_def split: sum.splits)
next
  case (Save_event e)
  then obtain r where r: "db_saveEvent db e w = (r, w')" "c' = (case r of Inl x \<Rightarrow> Finished (Inl (Database x)) | Inr s \<Rightarrow> Save_head s)"
    using step by (auto split: prod.splits sum.splits)
  obtain k where k: "k \<le> length (rows w)" "sa_sequence e = int k + 1" "sa_previousHash e = last_hash (take k (rows w))"
    "computeHash sha e = Inr (sa_eventHash e)"
    using inv(2) Save_event by (auto simp: call_linked_def)
  have c': "call_linked sha es c'" for es using r(2) by (auto simp: call_linked_def split: sum.splits)
  show ?thesis
  proof (cases "rows w' = rows w")
    case True
    then show ?thesis using inv(1) c' by simp
  next
    case False
    then obtain i where new: "sa_sequence e \<notin> sa_sequence ` set (rows w)"
      "(\<forall>f \<in> set (rows w). sa_sequence f < sa_sequence e) \<longrightarrow> rows w' = rows w @ [column_trip jb (e\<lparr>sa_id := i\<rparr>)]"
      using event_saved [OF r(1)] by blast
    have all: "sa_sequence ` set (rows w) = {1 .. int (length (rows w))}" by (rule trail_sequences [OF inv(1)])
    with new(1) k(1,2) have kn: "k = length (rows w)" by auto
    with all k(2) have "\<forall>f \<in> set (rows w). sa_sequence f < sa_sequence e" by (auto simp: set_eq_iff image_iff)
    with new(2) have rw: "rows w' = rows w @ [column_trip jb (e\<lparr>sa_id := i\<rparr>)]" by blast
    have "computeHash sha (column_trip jb (e\<lparr>sa_id := i\<rparr>)) = Inr (sa_eventHash e)"
      using trip [of "e\<lparr>sa_id := i\<rparr>"] k(4) by (simp add: computeHash_def buildHashInput_def)
    then have "trail_sound sha (rows w')"
      using inv(1) k kn by (simp add: rw trail_sound_snoc column_trip_def)
    then show ?thesis using rw c' by auto
  qed
next
  case (Save_head saved)
  then show ?thesis using step inv(1) head_saved by (auto simp: call_linked_def split: prod.splits sum.splits)
next
  case (Finished r)
  then show ?thesis using step inv by auto
qed

definition run_inv :: "(string \<Rightarrow> string) \<Rightarrow> audit_call list \<times> 'w \<Rightarrow> bool" where
  "run_inv sha st \<longleftrightarrow> trail_sound sha (rows (snd st)) \<and> list_all (call_linked sha (rows (snd st))) (fst st)"

lemma step_run_inv:
  assumes trip: "\<And>e. computeHash sha (column_trip jb e) = computeHash sha e"
    and "run_inv sha st"
  shows "run_inv sha (audit_step sha db m st)"
proof -
  obtain calls w where st: "st = (calls, w)" by fastforce
  have inv: "trail_sound sha (rows w)" "\<forall>c \<in> set calls. call_linked sha (rows w) c"
    using assms(2) by (auto simp: run_inv_def st list_all_iff)
  show ?thesis
  proof (cases m)
    case (Start_call input)
    then show ?thesis using inv
      by (auto simp: st run_inv_def list_all_iff recordSensitiveAction_def call_linked_def split: option.splits)
  next
    case (Resume i now)
    show ?thesis
    proof (cases "i < length calls")
      case True
      obtain c' w' where adv: "audit_advance sha db now (calls ! i) w = (c', w')" by fastforce
      from True inv(2) have "call_linked sha (rows w) (calls ! i)" by simp
      from advance_sound [OF trip inv(1) this adv] obtain fs where *: "trail_sound sha (rows w')" "rows w' = rows w @ fs"
        "call_linked sha (rows w') c'" by blast
      then have "\<forall>c \<in> set (calls[i := c']). call_linked sha (rows w') c"
        using inv(2) call_linked_grow [of sha "rows w" _ fs] by (auto dest!: set_update_subset_insert [THEN subsetD])
      with * adv True Resume show ?thesis by (simp add: st run_inv_def list_all_iff)
    next
      case False
      with Resume assms(2) show ?thesis by (simp add: st)
    qed
  next
    case (Lose i)
    then show ?thesis using inv by (auto simp: st run_inv_def list_all_iff drop_call_def dest: in_set_takeD in_set_dropD)
  qed
qed

text \<open>The recorded head does not match the last event.\<close>

definition diverged :: "'w \<Rightarrow> bool" where
  "diverged w \<longleftrightarrow> (case head_row w of
     None \<Rightarrow> rows w \<noteq> []
   | Some h \<Rightarrow> \<not> head_matches (if rows w = [] then None else Some (last (rows w))) h)"

definition reading :: "SensitiveActionEvent list \<Rightarrow> audit_call \<Rightarrow> bool" where
  "reading es c \<longleftrightarrow>
     (case c of
        Read_latest input d \<Rightarrow> True
      | Read_head input d latest \<Rightarrow> latest = (if es = [] then None else Some (last es))
      | Finished r \<Rightarrow> (\<forall>e. r \<noteq> Inr e)
      | _ \<Rightarrow> False)"

lemma diverged_advance:
  assumes "diverged w" "reading (rows w) c" "audit_advance sha db now c w = (c', w')"
  shows "w' = w \<and> reading (rows w) c'"
proof (cases c)
  case (Read_latest input d)
  then show ?thesis using assms(3) latest_last [of w] by (auto simp: reading_def split: sum.splits)
next
  case (Read_head input d latest)
  have "\<exists>x. link_event sha now input d latest (head_row w) = Finished (Inl x)"
    using assms(1,2) Read_head
    by (cases "rows w = []"; cases "head_row w") (auto simp: diverged_def reading_def link_event_def)
  then show ?thesis using assms(3) Read_head head_read [of w] by (auto simp: reading_def split: sum.splits)
qed (use assms in \<open>auto simp: reading_def\<close>)

lemma diverged_step:
  assumes "diverged w" "list_all (reading (rows w)) calls"
  shows "\<exists>calls'. audit_step sha db m (calls, w) = (calls', w) \<and> list_all (reading (rows w)) calls'"
proof (cases m)
  case (Start_call input)
  then show ?thesis using assms(2)
    by (auto simp: recordSensitiveAction_def reading_def split: option.splits)
next
  case (Resume i now)
  show ?thesis
  proof (cases "i < length calls")
    case True
    obtain c' w' where adv: "audit_advance sha db now (calls ! i) w = (c', w')" by fastforce
    from True assms(2) have "reading (rows w) (calls ! i)" by (simp add: list_all_length)
    from diverged_advance [OF assms(1) this adv] True adv Resume assms(2) show ?thesis
      by (auto simp: list_all_iff dest!: set_update_subset_insert [THEN subsetD])
  next
    case False
    with Resume assms(2) show ?thesis by simp
  qed
next
  case (Lose i)
  then show ?thesis using assms(2) by (auto simp: list_all_iff drop_call_def dest: in_set_takeD in_set_dropD)
qed

lemma diverged_run:
  assumes "diverged w" "list_all (reading (rows w)) calls"
  shows "\<exists>calls'. run (audit_step sha db) moves (calls, w) = (calls', w) \<and> list_all (reading (rows w)) calls'"
  using assms(2)
proof (induction moves arbitrary: calls)
  case (Cons m moves)
  then show ?case using diverged_step [OF assms(1) Cons.prems, of sha m] by auto
qed simp

end

section \<open>The tables\<close>

record audit_world =
  aw_rows :: "SensitiveActionEvent list"
  aw_head :: "SensitiveActionChainHead option"

definition table_save ::
  "(js_value \<Rightarrow> js_value) \<Rightarrow> (nat \<Rightarrow> string) \<Rightarrow> SensitiveActionEvent \<Rightarrow> audit_world
    \<Rightarrow> (event_error, SensitiveActionEvent) result \<times> audit_world" where
  "table_save jb ids e w =
     (if sa_sequence e \<in> sa_sequence ` set (aw_rows w)
      then (Inl (OtherError ''duplicate key value violates unique constraint''), w)
      else let saved = e\<lparr>sa_id := ids (length (aw_rows w))\<rparr>
           in (Inr saved, w\<lparr>aw_rows := insort_key sa_sequence (column_trip jb saved) (aw_rows w)\<rparr>))"

definition table_db :: "(js_value \<Rightarrow> js_value) \<Rightarrow> (nat \<Rightarrow> string) \<Rightarrow> audit_world audit_db" where
  "table_db jb ids =
     \<lparr>db_latest = (\<lambda>w. Inr (if aw_rows w = [] then None else Some (last (aw_rows w)))),
      db_head = (\<lambda>w. Inr (aw_head w)),
      db_saveEvent = table_save jb ids,
      db_saveHead = (\<lambda>h w. (Inr (), w\<lparr>aw_head := Some h\<rparr>)),
      db_all = (\<lambda>w. Inr (aw_rows w))\<rparr>"

lemma insort_last: "\<forall>y \<in> set ys. f y < f x \<Longrightarrow> insort_key f x ys = ys @ [x]" for f :: "'a \<Rightarrow> int"
  by (induction ys) auto

interpretation tables: audit_tables "table_db jb ids" aw_rows aw_head jb for jb ids
proof
  fix e :: SensitiveActionEvent and w w' :: audit_world and r
  assume "db_saveEvent (table_db jb ids) e w = (r, w')"
  then have save: "table_save jb ids e w = (r, w')" by (simp add: table_db_def)
  define i where "i = ids (length (aw_rows w))"
  have seq: "sa_sequence (column_trip jb (e\<lparr>sa_id := i\<rparr>)) = sa_sequence e" by (simp add: column_trip_def)
  show "aw_head w' = aw_head w \<and>
      (aw_rows w' = aw_rows w \<and> (\<forall>s. r \<noteq> Inr s) \<or>
       sa_sequence e \<notin> sa_sequence ` set (aw_rows w) \<and>
       (\<exists>i. (\<forall>s. r = Inr s \<longrightarrow> s = e\<lparr>sa_id := i\<rparr>) \<and>
          ((\<forall>f \<in> set (aw_rows w). sa_sequence f < sa_sequence e) \<longrightarrow> aw_rows w' = aw_rows w @ [column_trip jb (e\<lparr>sa_id := i\<rparr>)])))"
  proof (cases "sa_sequence e \<in> sa_sequence ` set (aw_rows w)")
    case True
    with save show ?thesis by (auto simp: table_save_def)
  next
    case False
    with save have "r = Inr (e\<lparr>sa_id := i\<rparr>)" "w' = w\<lparr>aw_rows := insort_key sa_sequence (column_trip jb (e\<lparr>sa_id := i\<rparr>)) (aw_rows w)\<rparr>"
      by (auto simp: table_save_def i_def Let_def)
    moreover have "(\<forall>f \<in> set (aw_rows w). sa_sequence f < sa_sequence e) \<longrightarrow>
      insort_key sa_sequence (column_trip jb (e\<lparr>sa_id := i\<rparr>)) (aw_rows w) = aw_rows w @ [column_trip jb (e\<lparr>sa_id := i\<rparr>)]"
      using insort_last [of "aw_rows w" sa_sequence "column_trip jb (e\<lparr>sa_id := i\<rparr>)"] seq by auto
    ultimately show ?thesis using False by (intro conjI disjI2 exI [of _ i]) simp_all
  qed
qed (auto simp: table_db_def)

section \<open>Properties\<close>


definition sample_input :: RecordSensitiveActionInput where
  "sample_input = \<lparr>in_action = ''maintainer.action.proposed'', in_actorId = ''m1'', in_actorType = None, in_actorRole = None,
     in_resourceType = Some ''user'', in_resourceId = Some ''u1'', in_reason = Some ''why'', in_beforeState = None,
     in_afterState = Some (JObj True [(''intentId'', JStr ''i1''), (''status'', JStr ''proposed'')]), in_metadata = None,
     in_status = None, in_ipAddress = None, in_userAgent = None, in_occurredAt = None\<rparr>"

definition sample_moves :: "audit_move list" where
  "sample_moves = Start_call sample_input # replicate 4 (Resume 0 ''now'')"

lemma sample_definition:
  "recordSensitiveAction sample_input = Read_latest sample_input (action_def Scope_APPROVAL
     ''A maintainer declared a signed intent to perform a high-impact action.'' True True)"
  by code_simp


text \<open>
  A crash between the two writes stops the trail for good.  Once an event is stored and its head is
  not, every later recording is refused, however many are tried and however they interleave: no call
  returns an event and nothing is written.
\<close>

theorem lost_head_write_stops_trail:
  assumes "aw_rows w = es @ [e]"
    and "aw_head w = None \<or> (\<exists>h. aw_head w = Some h \<and> ch_sequence h \<noteq> sa_sequence e)"
  shows "let st = run (audit_step sha (table_db jb ids)) moves ([], w)
    in snd st = w \<and> list_all (\<lambda>c. \<forall>x. c \<noteq> Finished (Inr x)) (fst st)"
proof -
  have "tables.diverged w" using assms by (auto simp: tables.diverged_def head_matches_def)
  from tables.diverged_run [OF this, of "[]" sha jb ids moves] obtain calls where
    run: "run (audit_step sha (table_db jb ids)) moves ([], w) = (calls, w)" "list_all (tables.reading (aw_rows w)) calls" by auto
  from run(2) have "list_all (\<lambda>c. \<forall>x. c \<noteq> Finished (Inr x)) calls"
    by (rule list.pred_mono_strong) (auto simp: tables.reading_def)
  with run(1) show ?thesis by (simp add: Let_def)
qed

theorem lost_head_write_stops_trail_witness:
  "let st = run (audit_step (\<lambda>s. ''h'' @ s) (table_db (\<lambda>v. v) show_nat))
       [Start_call sample_input, Resume 0 ''t'', Resume 0 ''t'', Resume 0 ''t'', Lose 0] ([], \<lparr>aw_rows = [], aw_head = None\<rparr>)
   in length (aw_rows (snd st)) = 1 \<and>
      list_all (\<lambda>c. \<forall>x. c \<noteq> Finished (Inr x)) (fst (run (audit_step (\<lambda>s. ''h'' @ s) (table_db (\<lambda>v. v) show_nat)) sample_moves ([], snd st)))"
proof -
  define st where "st = run (audit_step (\<lambda>s. ''h'' @ s) (table_db (\<lambda>v. v) show_nat))
       [Start_call sample_input, Resume 0 ''t'', Resume 0 ''t'', Resume 0 ''t'', Lose 0] ([], \<lparr>aw_rows = [], aw_head = None\<rparr>)"
  have len: "length (aw_rows (snd st)) = 1" and head: "aw_head (snd st) = None"
    unfolding st_def by code_simp+
  then obtain e where "aw_rows (snd st) = [] @ [e]" by (cases "aw_rows (snd st)") auto
  from lost_head_write_stops_trail [OF this, of "\<lambda>s. ''h'' @ s" "\<lambda>v. v" show_nat sample_moves] len head
  show ?thesis unfolding Let_def st_def [symmetric] by blast
qed

text \<open>
  A payload column that reorders keys breaks the chain.  When the first event is recorded and the
  column returns its payloads with another JSON text, so that the hash computed from the stored row is
  not the one that was stored, the recording succeeds and the verification reports the trail as
  tampered with.
\<close>

theorem reordered_payload_breaks_chain:
  assumes "recordSensitiveAction input = Read_latest input d"
    and "e = build_event now input d 0 None"
    and "computeHash sha e = Inr h" "computeHash sha (column_trip jb e) = Inr h'" "h' \<noteq> h"
  shows "let st = run (audit_step sha (table_db jb ids)) (Start_call input # replicate 4 (Resume 0 now)) ([], \<lparr>aw_rows = [], aw_head = None\<rparr>)
    in (\<exists>saved. fst st = [Finished (Inr saved)]) \<and>
       (\<exists>v. verifyChain sha (table_db jb ids) (snd st) = Inr v \<and> \<not> cv_valid v \<and> cv_reason v = ''Event hash mismatch at sequence 1'')"
proof -
  define saved where "saved = e\<lparr>sa_eventHash := h, sa_id := ids 0\<rparr>"
  have link: "link_event sha now input d None None = Save_event (e\<lparr>sa_eventHash := h\<rparr>)"
    using assms(2,3) by (simp add: link_event_def)
  have e: "sa_sequence e = 1" "sa_previousHash e = None" using assms(2) by (simp_all add: build_event_def nextSequence_def Let_def)
  have hash: "computeHash sha (column_trip jb saved) = Inr h'"
    using assms(4) by (simp add: saved_def computeHash_def buildHashInput_def column_trip_def)
  define w where "w = \<lparr>aw_rows = [column_trip jb saved], aw_head = Some \<lparr>ch_sequence = 1, ch_eventHash = h, ch_lastEventId = ids 0\<rparr>\<rparr>"
  have run: "run (audit_step sha (table_db jb ids)) (Start_call input # replicate 4 (Resume 0 now)) ([], \<lparr>aw_rows = [], aw_head = None\<rparr>) =
    ([Finished (Inr saved)], w)"
    using assms(1) link e by (simp add: numeral_eq_Suc table_db_def table_save_def saved_def w_def Let_def)
  have one: "show_int 1 = ''1''" by code_simp
  have "sa_eventHash (column_trip jb saved) = h" "sa_sequence (column_trip jb saved) = 1" "sa_previousHash (column_trip jb saved) = None"
    using e by (simp_all add: column_trip_def saved_def)
  with hash assms(5) have "\<exists>v. verifyChain sha (table_db jb ids) w = Inr v \<and> \<not> cv_valid v \<and> cv_reason v = ''Event hash mismatch at sequence 1''"
    by (simp add: verifyChain_def table_db_def w_def nextSequence_def chain_broken_def one)
  with run show ?thesis by (simp add: Let_def)
qed

text \<open>A column that sorts the keys of an object by their length.\<close>

definition by_length :: "js_value \<Rightarrow> js_value" where
  "by_length v = (case v of JObj pl es \<Rightarrow> JObj pl (js_sort (\<lambda>p q. length (fst p) \<le> length (fst q)) es) | _ \<Rightarrow> v)"

theorem reordered_payload_breaks_chain_witness:
  "let sha = (\<lambda>s. ''h'' @ s);
       st = run (audit_step sha (table_db by_length show_nat)) sample_moves ([], \<lparr>aw_rows = [], aw_head = None\<rparr>)
   in \<exists>v. verifyChain sha (table_db by_length show_nat) (snd st) = Inr v \<and> \<not> cv_valid v"
proof -
  define d where "d = action_def Scope_APPROVAL ''A maintainer declared a signed intent to perform a high-impact action.'' True True"
  define e where "e = build_event ''now'' sample_input d 0 None"
  have "\<exists>h h'. computeHash (\<lambda>s. ''h'' @ s) e = Inr h \<and> computeHash (\<lambda>s. ''h'' @ s) (column_trip by_length e) = Inr h' \<and> h' \<noteq> h"
  proof -
    have r: "\<not> isl (computeHash (\<lambda>s. ''h'' @ s) e)" "\<not> isl (computeHash (\<lambda>s. ''h'' @ s) (column_trip by_length e))"
      unfolding e_def d_def by code_simp+
    have "computeHash (\<lambda>s. ''h'' @ s) e \<noteq> computeHash (\<lambda>s. ''h'' @ s) (column_trip by_length e)"
      unfolding e_def d_def by code_simp
    with r show ?thesis by (metis sum.collapse(2))
  qed
  then obtain h h' where h: "computeHash (\<lambda>s. ''h'' @ s) e = Inr h" "computeHash (\<lambda>s. ''h'' @ s) (column_trip by_length e) = Inr h'" "h' \<noteq> h"
    by blast
  from reordered_payload_breaks_chain [OF sample_definition [folded d_def] e_def h, of show_nat]
  show ?thesis unfolding Let_def sample_moves_def by blast
qed

text \<open>Where the verification succeeds, the head is that of the last event.\<close>

definition head_of :: "SensitiveActionEvent list \<Rightarrow> SensitiveActionChainHead option" where
  "head_of es = (if es = [] then None
     else Some \<lparr>ch_sequence = int (length es), ch_eventHash = sa_eventHash (last es), ch_lastEventId = sa_id (last es)\<rparr>)"

lemma verifyChain_valid:
  "(\<exists>v. verifyChain sha (table_db jb ids) w = Inr v \<and> cv_valid v) \<longleftrightarrow> trail_sound sha (aw_rows w) \<and> aw_head w = head_of (aw_rows w)"
proof -
  define es where "es = aw_rows w"
  have start: "verify_events sha 0 None 0 es = verify_events sha 0 (last_hash []) (int (length ([] :: SensitiveActionEvent list))) es"
    by (simp add: last_hash_def)
  have sound: "verify_events sha 0 None 0 es = Inr (Inr (int (length es), last_hash es))" if "trail_sound sha es"
    using verify_events_sound(1) [of sha "[]" es 0] that unfolding start by simp
  have conv: "trail_sound sha es" if "verify_events sha 0 None 0 es = Inr (Inr x)" for x
    using verify_events_sound(2) [of sha "[]" 0 es x] that unfolding start by simp
  have hd_ok: "cv_valid (verify_head es h (int (length es)) (last_hash es)) \<longleftrightarrow> h = head_of es" for h
  proof (cases h)
    case None
    then show ?thesis by (simp add: verify_head_def head_of_def chain_broken_def)
  next
    case (Some x)
    then show ?thesis by (cases x) (auto simp: verify_head_def head_of_def chain_broken_def last_hash_def)
  qed
  have vc: "verifyChain sha (table_db jb ids) w =
    (case verify_events sha 0 None 0 es of
       Inl e \<Rightarrow> Inl e | Inr (Inl fault) \<Rightarrow> Inr fault | Inr (Inr (q, h)) \<Rightarrow> Inr (verify_head es (aw_head w) q h))"
    unfolding es_def by (simp add: verifyChain_def table_db_def)
  have fault: "\<not> cv_valid f" if "verify_events sha n p q es = Inr (Inl f)" for n p q f
    using that by (induction sha n p q es rule: verify_events.induct) (auto simp: chain_broken_def split: if_splits sum.splits)
  show ?thesis
  proof (cases "trail_sound sha es")
    case True
    then show ?thesis using sound hd_ok by (simp add: vc es_def [symmetric])
  next
    case False
    then show ?thesis using conv fault by (fastforce simp: vc es_def [symmetric] split: sum.splits prod.splits)
  qed
qed

lemma undisturbed_call:
  assumes "recordSensitiveAction input = Read_latest input d"
    and "audit_advance sha db now (Read_latest input d) w = (c1, w1)" "audit_advance sha db now c1 w1 = (c2, w2)"
    and "audit_advance sha db now c2 w2 = (c3, w3)" "audit_advance sha db now c3 w3 = (c4, w4)"
  shows "run (audit_step sha db) (Start_call input # replicate 4 (Resume 0 now)) ([], w) = ([c4], w4)"
  using assms by (simp add: numeral_eq_Suc del: audit_advance.simps)

text \<open>
  An undisturbed recording appends one event and leaves a trail that verifies.  From any state that
  verifies, a call that passes validation writes one event, numbered one higher, and its head, and
  returns it; the earlier events are untouched.
\<close>

theorem recording_extends_trail:
  assumes "\<forall>v. json_stringify (jb v) = json_stringify v"
    and "verifyChain sha (table_db jb ids) w = Inr v" "cv_valid v"
    and "recordSensitiveAction input = Read_latest input d"
    and "\<not> isl (computeHash sha (build_event now input d (int (length (aw_rows w))) (last_hash (aw_rows w))))"
  shows "\<exists>saved w'. run (audit_step sha (table_db jb ids)) (Start_call input # replicate 4 (Resume 0 now)) ([], w) = ([Finished (Inr saved)], w') \<and>
    sa_sequence saved = int (length (aw_rows w)) + 1 \<and> aw_rows w' = aw_rows w @ [column_trip jb saved] \<and>
    (\<exists>v'. verifyChain sha (table_db jb ids) w' = Inr v' \<and> cv_valid v')"
proof -
  define es where "es = aw_rows w"
  define e where "e = build_event now input d (int (length es)) (last_hash es)"
  have ok: "trail_sound sha es" "aw_head w = head_of es" using verifyChain_valid assms(2,3) unfolding es_def by blast+
  obtain h where h: "computeHash sha e = Inr h" using assms(5) by (cases "computeHash sha e") (auto simp: e_def es_def)
  define saved where "saved = e\<lparr>sa_eventHash := h, sa_id := ids (length es)\<rparr>"
  have seq: "sa_sequence e = int (length es) + 1" "sa_previousHash e = last_hash es"
    by (simp_all add: e_def build_event_def nextSequence_def Let_def)
  have less: "\<forall>f \<in> set es. sa_sequence f < sa_sequence e" using ok(1) seq by (fastforce simp: trail_sound_def in_set_conv_nth)
  have link: "link_event sha now input d (if es = [] then None else Some (last es)) (head_of es) = Save_event (e\<lparr>sa_eventHash := h\<rparr>)"
  proof (cases "es = []")
    case True
    with h show ?thesis by (simp add: link_event_def head_of_def e_def last_hash_def)
  next
    case False
    then have "sa_sequence (last es) = int (length es)" using ok(1)
      by (simp add: trail_sound_def last_conv_nth int_ops(6) Suc_le_eq)
    with False h show ?thesis by (simp add: link_event_def head_of_def head_matches_def e_def last_hash_def)
  qed
  define latest where "latest = (if es = [] then None else Some (last es))"
  define w' where "w' = \<lparr>aw_rows = es @ [column_trip jb saved],
    aw_head = Some \<lparr>ch_sequence = int (length es) + 1, ch_eventHash = h, ch_lastEventId = ids (length es)\<rparr>\<rparr>"
  have ins: "insort_key sa_sequence (column_trip jb saved) es = es @ [column_trip jb saved]"
    using less by (intro insort_last) (simp add: column_trip_def saved_def)
  have new: "sa_sequence e \<notin> sa_sequence ` set es" using less by auto
  have wr: "w = \<lparr>aw_rows = es, aw_head = head_of es\<rparr>" using ok(2) by (cases w) (simp add: es_def)
  have step: "table_save jb ids (e\<lparr>sa_eventHash := h\<rparr>) w = (Inr saved, w\<lparr>aw_rows := es @ [column_trip jb saved]\<rparr>)"
    using new ins unfolding wr by (simp add: table_save_def saved_def Let_def)
  have run: "run (audit_step sha (table_db jb ids)) (Start_call input # replicate 4 (Resume 0 now)) ([], w) = ([Finished (Inr saved)], w')"
  proof (rule undisturbed_call [OF assms(4)])
    show "audit_advance sha (table_db jb ids) now (Read_latest input d) w = (Read_head input d latest, w)"
      by (simp add: table_db_def latest_def es_def)
    show "audit_advance sha (table_db jb ids) now (Read_head input d latest) w = (Save_event (e\<lparr>sa_eventHash := h\<rparr>), w)"
      using link by (simp add: table_db_def latest_def ok(2))
    show "audit_advance sha (table_db jb ids) now (Save_event (e\<lparr>sa_eventHash := h\<rparr>)) w = (Save_head saved, w\<lparr>aw_rows := es @ [column_trip jb saved]\<rparr>)"
      using step by (simp add: table_db_def)
    show "audit_advance sha (table_db jb ids) now (Save_head saved) (w\<lparr>aw_rows := es @ [column_trip jb saved]\<rparr>) = (Finished (Inr saved), w')"
      using seq(1) by (simp add: table_db_def wr w'_def saved_def)
  qed
  have same_text: "json_stringify (js_state (map_option jb x)) = json_stringify (js_state x)" for x
    using assms(1) by (cases x) (simp_all add: js_state_def)
  have "computeHash sha (column_trip jb saved) = Inr h"
    using h same_text by (simp add: saved_def computeHash_def buildHashInput_def column_trip_def)
  then have "trail_sound sha (aw_rows w')" "aw_head w' = head_of (aw_rows w')"
    using ok(1) seq by (simp_all add: w'_def trail_sound_snoc column_trip_def saved_def head_of_def)
  then have "\<exists>v'. verifyChain sha (table_db jb ids) w' = Inr v' \<and> cv_valid v'" using verifyChain_valid by blast
  with run seq(1) show ?thesis by (auto simp: w'_def saved_def es_def)
qed

theorem recording_extends_trail_witness:
  "\<exists>saved w'. run (audit_step (\<lambda>s. ''h'' @ s) (table_db (\<lambda>v. v) show_nat)) sample_moves ([], \<lparr>aw_rows = [], aw_head = None\<rparr>) = ([Finished (Inr saved)], w') \<and>
    sa_sequence saved = 1"
proof -
  define w where "w = \<lparr>aw_rows = [], aw_head = None\<rparr>"
  have "trail_sound (\<lambda>s. ''h'' @ s) (aw_rows w) \<and> aw_head w = head_of (aw_rows w)" by (simp add: w_def head_of_def)
  then obtain v where v: "verifyChain (\<lambda>s. ''h'' @ s) (table_db (\<lambda>v. v) show_nat) w = Inr v" "cv_valid v"
    using verifyChain_valid by blast
  have "\<not> isl (computeHash (\<lambda>s. ''h'' @ s) (build_event ''now'' sample_input (action_def Scope_APPROVAL
     ''A maintainer declared a signed intent to perform a high-impact action.'' True True) (int (length (aw_rows w))) (last_hash (aw_rows w))))"
    unfolding w_def by code_simp
  from recording_extends_trail [OF _ v sample_definition this] show ?thesis
    unfolding w_def sample_moves_def by auto
qed

end
