(* ===== verification/Approval_Intents.thy ===== *)
theory Approval_Intents
  imports Sensitive_Audit
begin

text \<open>
  Maintainer approval intents, \<open>src/infrastructure/audit/approval-intents/\<close>: the statuses and their
  transitions (\<open>approval-intent.types.ts\<close>), fingerprints (\<open>approval-intent.fingerprint.ts\<close>), signed
  receipts (\<open>approval-intent.receipt.ts\<close>, \<open>algorithms/export-signing.service.ts\<close>) and the service
  (\<open>approval-intent.service.ts\<close>) that proposes, executes, cancels and expires intents.

  The operations are asynchronous and are cut at their awaits: a call in flight says what it does when
  it is resumed, and calls interleave in any order.  A database call may fail, or take effect and lose
  its reply; recording evidence and the operation that is executed succeed or fail.  The repository is an
  argument with the laws of the locale \<open>intent_table\<close>: reads by id, saving a whole row, and conditional
  updates that are atomic.  SHA-256, HMAC and the rendering of dates are arguments too; times are
  milliseconds.
\<close>

section \<open>Statuses\<close>

datatype ApprovalIntentStatus = PROPOSED | EXECUTING | COMPLETED | FAILED | EXPIRED | CANCELLED

fun show_status :: "ApprovalIntentStatus \<Rightarrow> string" where
  "show_status PROPOSED = ''proposed''"
| "show_status EXECUTING = ''executing''"
| "show_status COMPLETED = ''completed''"
| "show_status FAILED = ''failed''"
| "show_status EXPIRED = ''expired''"
| "show_status CANCELLED = ''cancelled''"

fun ALLOWED_TRANSITIONS :: "ApprovalIntentStatus \<Rightarrow> ApprovalIntentStatus list" where
  "ALLOWED_TRANSITIONS PROPOSED = [EXECUTING, EXPIRED, CANCELLED]"
| "ALLOWED_TRANSITIONS EXECUTING = [COMPLETED, FAILED]"
| "ALLOWED_TRANSITIONS _ = []"

definition TERMINAL_INTENT_STATUSES :: "ApprovalIntentStatus list" where
  "TERMINAL_INTENT_STATUSES = [COMPLETED, FAILED, EXPIRED, CANCELLED]"

definition isTerminalIntentStatus :: "ApprovalIntentStatus \<Rightarrow> bool" where
  "isTerminalIntentStatus s \<longleftrightarrow> s \<in> set TERMINAL_INTENT_STATUSES"

datatype intent_error =
    BadRequestException string
  | ConflictException string
  | ForbiddenException string
  | IntentNotFound string
  | ServiceUnavailableException string
  | Thrown string

definition transitionIntentStatus ::
  "ApprovalIntentStatus \<Rightarrow> ApprovalIntentStatus \<Rightarrow> (intent_error, ApprovalIntentStatus) result" where
  "transitionIntentStatus current nxt =
     (if current = nxt then Inr nxt
      else if nxt \<notin> set (ALLOWED_TRANSITIONS current)
      then Inl (Thrown (''Invalid approval intent transition: '' @ show_status current @ '' -> '' @ show_status nxt))
      else Inr nxt)"

section \<open>Signing\<close>

record intent_env =
  ie_sha :: "string \<Rightarrow> string"
  ie_hmac :: "string \<Rightarrow> string"
  ie_keySet :: bool
  ie_iso :: "int \<Rightarrow> string"

definition sign :: "intent_env \<Rightarrow> string \<Rightarrow> (intent_error, string) result" where
  "sign env payload =
     (if \<not> ie_keySet env then Inl (Thrown ''AUDIT_EXPORT_SIGNING_KEY is not configured'')
      else Inr (ie_hmac env payload))"

text \<open>\<open>Buffer.from(s, "hex")\<close> decodes pairs of digits up to the first that is none.\<close>

definition hex_value :: "char \<Rightarrow> nat option" where
  "hex_value c =
     (let n = of_char c :: nat in
      if 48 \<le> n \<and> n \<le> 57 then Some (n - 48)
      else if 97 \<le> n \<and> n \<le> 102 then Some (n - 87)
      else if 65 \<le> n \<and> n \<le> 70 then Some (n - 55)
      else None)"

fun hex_bytes :: "string \<Rightarrow> nat list" where
  "hex_bytes (a # b # s) =
     (case (hex_value a, hex_value b) of
        (Some x, Some y) \<Rightarrow> (16 * x + y) # hex_bytes s
      | _ \<Rightarrow> [])"
| "hex_bytes _ = []"

definition verify_signature :: "intent_env \<Rightarrow> string \<Rightarrow> string \<Rightarrow> (intent_error, bool) result" where
  "verify_signature env payload signature =
     (case sign env payload of
        Inl e \<Rightarrow> Inl e
      | Inr expected \<Rightarrow>
          if length (hex_bytes expected) \<noteq> length (hex_bytes signature)
          then Inl (Thrown ''Input buffers must have the same byte length'')
          else Inr (hex_bytes expected = hex_bytes signature))"

section \<open>Fingerprints and receipts\<close>

definition APPROVAL_INTENT_SCHEMA :: string where
  "APPROVAL_INTENT_SCHEMA = ''trellis.audit.approval-intent.v1''"

definition APPROVAL_INTENT_SIGNATURE_ALGORITHM :: string where
  "APPROVAL_INTENT_SIGNATURE_ALGORITHM = ''HMAC-SHA256''"

record IntentCommitment =
  co_action :: string
  co_actorId :: string
  co_resourceType :: string
  co_resourceId :: string
  co_reason :: string
  co_payload :: js_value

definition lift_json :: "(json_error, 'a) result \<Rightarrow> (intent_error, 'a) result" where
  "lift_json r = (case r of Inl (TypeErr m) \<Rightarrow> Inl (Thrown m) | Inr x \<Rightarrow> Inr x)"

definition intentCommitmentDocument :: "IntentCommitment \<Rightarrow> (intent_error, string) result" where
  "intentCommitmentDocument c = lift_json (canonicalJson (JObj True
     [(''schema'', JStr APPROVAL_INTENT_SCHEMA), (''action'', JStr (co_action c)), (''actorId'', JStr (co_actorId c)),
      (''resourceType'', JStr (co_resourceType c)), (''resourceId'', JStr (co_resourceId c)),
      (''reason'', JStr (co_reason c)), (''payload'', co_payload c)]))"

definition approvalIntentFingerprint :: "intent_env \<Rightarrow> IntentCommitment \<Rightarrow> (intent_error, string) result" where
  "approvalIntentFingerprint env c = map_result (ie_sha env) (intentCommitmentDocument c)"

definition intentPayloadHash :: "intent_env \<Rightarrow> js_value \<Rightarrow> (intent_error, string) result" where
  "intentPayloadHash env payload = map_result (ie_sha env) (lift_json (canonicalJson payload))"

record SignedIntentReceipt =
  rc_schema :: string
  rc_intentId :: string
  rc_fingerprint :: string
  rc_action :: string
  rc_actorId :: string
  rc_actorRole :: "string option"
  rc_approverId :: "string option"
  rc_resourceType :: string
  rc_resourceId :: string
  rc_reason :: string
  rc_payloadHash :: string
  rc_status :: ApprovalIntentStatus
  rc_failureReason :: "string option"
  rc_requestedAt :: string
  rc_completedAt :: string
  rc_signedAt :: string

definition receipt_json :: "SignedIntentReceipt \<Rightarrow> js_value" where
  "receipt_json r = JObj True
     [(''schema'', JStr (rc_schema r)), (''intentId'', JStr (rc_intentId r)), (''fingerprint'', JStr (rc_fingerprint r)),
      (''action'', JStr (rc_action r)), (''actorId'', JStr (rc_actorId r)), (''actorRole'', js_nullable (rc_actorRole r)),
      (''approverId'', js_nullable (rc_approverId r)), (''resourceType'', JStr (rc_resourceType r)),
      (''resourceId'', JStr (rc_resourceId r)), (''reason'', JStr (rc_reason r)), (''payloadHash'', JStr (rc_payloadHash r)),
      (''status'', JStr (show_status (rc_status r))), (''failureReason'', js_nullable (rc_failureReason r)),
      (''requestedAt'', JStr (rc_requestedAt r)), (''completedAt'', JStr (rc_completedAt r)), (''signedAt'', JStr (rc_signedAt r))]"

definition receiptCanonicalBytes :: "SignedIntentReceipt \<Rightarrow> (intent_error, string) result" where
  "receiptCanonicalBytes receipt = lift_json (canonicalJson (receipt_json receipt))"

definition hashReceipt :: "intent_env \<Rightarrow> SignedIntentReceipt \<Rightarrow> (intent_error, string) result" where
  "hashReceipt env receipt = map_result (ie_sha env) (receiptCanonicalBytes receipt)"

record ReceiptIntegrity =
  ri_receiptHash :: string
  ri_signature :: string
  ri_signingAlgorithm :: string

definition signReceipt :: "intent_env \<Rightarrow> SignedIntentReceipt \<Rightarrow> (intent_error, ReceiptIntegrity) result" where
  "signReceipt env receipt =
     (if rc_status receipt \<noteq> COMPLETED \<and> rc_status receipt \<noteq> FAILED
      then Inl (Thrown (''Receipts are only issued for executed intents, not '' @ show_status (rc_status receipt)))
      else case hashReceipt env receipt of
        Inl e \<Rightarrow> Inl e
      | Inr receiptHash \<Rightarrow>
          (case sign env receiptHash of
             Inl e \<Rightarrow> Inl e
           | Inr sg \<Rightarrow> Inr \<lparr>ri_receiptHash = receiptHash, ri_signature = sg,
               ri_signingAlgorithm = APPROVAL_INTENT_SIGNATURE_ALGORITHM\<rparr>))"

record ReceiptVerification =
  rv_valid :: bool
  rv_recomputedHash :: string
  rv_errors :: "string list"

fun thrown_message :: "intent_error \<Rightarrow> string" where
  "thrown_message (BadRequestException m) = m"
| "thrown_message (ConflictException m) = m"
| "thrown_message (ForbiddenException m) = m"
| "thrown_message (IntentNotFound m) = m"
| "thrown_message (ServiceUnavailableException m) = m"
| "thrown_message (Thrown m) = m"

definition quoted :: "string \<Rightarrow> string" where
  "quoted s = [CHR 0x22] @ s @ [CHR 0x22]"

definition verifyReceipt ::
  "intent_env \<Rightarrow> SignedIntentReceipt \<Rightarrow> ReceiptIntegrity \<Rightarrow> (intent_error, ReceiptVerification) result" where
  "verifyReceipt env receipt integrity =
     (case hashReceipt env receipt of
        Inl e \<Rightarrow> Inl e
      | Inr recomputedHash \<Rightarrow>
          let e1 = (if rc_schema receipt \<noteq> APPROVAL_INTENT_SCHEMA
                    then [''Unknown receipt schema '' @ quoted (rc_schema receipt) @ ''; expected '' @ quoted APPROVAL_INTENT_SCHEMA] else []);
              e2 = (if ri_receiptHash integrity \<noteq> recomputedHash
                    then [''Receipt hash mismatch: recorded '' @ ri_receiptHash integrity @ '', recomputed '' @ recomputedHash] else []);
              e3 = (if ri_signingAlgorithm integrity \<noteq> APPROVAL_INTENT_SIGNATURE_ALGORITHM
                    then [''Unexpected signing algorithm '' @ quoted (ri_signingAlgorithm integrity)] else []);
              e4 = (case verify_signature env recomputedHash (ri_signature integrity) of
                      Inl e \<Rightarrow> [''Signature verification error: '' @ thrown_message e]
                    | Inr ok \<Rightarrow> if ok then [] else [''Invalid HMAC-SHA256 signature over the receipt hash'']);
              errors = e1 @ e2 @ e3 @ e4
          in Inr \<lparr>rv_valid = (errors = []), rv_recomputedHash = recomputedHash, rv_errors = errors\<rparr>)"

section \<open>Intents\<close>

record ApprovalIntent =
  ai_id :: string
  ai_action :: string
  ai_actorId :: string
  ai_actorRole :: "string option"
  ai_actorType :: string
  ai_approverId :: "string option"
  ai_resourceType :: string
  ai_resourceId :: string
  ai_reason :: string
  ai_payload :: js_value
  ai_payloadHash :: string
  ai_fingerprint :: string
  ai_status :: ApprovalIntentStatus
  ai_expiresAt :: int
  ai_requestedAt :: int
  ai_startedAt :: "int option"
  ai_completedAt :: "int option"
  ai_intentSignature :: string
  ai_receiptHash :: "string option"
  ai_receiptSignature :: "string option"
  ai_receipt :: "SignedIntentReceipt option"
  ai_signedAt :: "int option"
  ai_signatureAlgorithm :: string
  ai_failureReason :: "string option"
  ai_metadata :: "js_value option"
  ai_ipAddress :: "string option"
  ai_userAgent :: "string option"

record ApprovalIntentActor =
  ac_id :: string
  ac_role :: "string option"
  ac_type :: "string option"
  ac_ipAddress :: "string option"
  ac_userAgent :: "string option"

record ProposeIntentInput =
  pi_action :: string
  pi_actor :: ApprovalIntentActor
  pi_resourceType :: string
  pi_resourceId :: string
  pi_reason :: "string option"
  pi_payload :: "js_value option"
  pi_approverId :: "string option"
  pi_metadata :: "js_value option"
  pi_ttlSeconds :: "int option"

record IntentExecutor =
  ex_id :: string
  ex_role :: "string option"

record ApprovalIntentOptions =
  op_defaultTtlSeconds :: "int option"
  op_maxTtlSeconds :: "int option"

definition defaultTtlSeconds :: "ApprovalIntentOptions \<Rightarrow> int" where
  "defaultTtlSeconds o1 = max 60 (case op_defaultTtlSeconds o1 of None \<Rightarrow> 900 | Some n \<Rightarrow> n)"

definition maxTtlSeconds :: "ApprovalIntentOptions \<Rightarrow> int" where
  "maxTtlSeconds o1 = max (defaultTtlSeconds o1) (case op_maxTtlSeconds o1 of None \<Rightarrow> 604800 | Some n \<Rightarrow> n)"

definition resolveTtl :: "ApprovalIntentOptions \<Rightarrow> int option \<Rightarrow> (intent_error, int) result" where
  "resolveTtl o1 ttl =
     (case ttl of
        None \<Rightarrow> Inr (defaultTtlSeconds o1)
      | Some n \<Rightarrow>
          if n < 60 then Inl (BadRequestException ''ttlSeconds must be at least 60'')
          else Inr (min n (maxTtlSeconds o1)))"

definition isMaintainerApprovalEnforced :: "string option \<Rightarrow> bool" where
  "isMaintainerApprovalEnforced flag =
     (case flag of
        None \<Rightarrow> False
      | Some v \<Rightarrow> let raw = toLowerCase (trim v) in raw = ''true'' \<or> raw = ''1'' \<or> raw = ''yes'')"

definition APPROVAL_INTENT_EXECUTOR_ROLES :: "string list" where
  "APPROVAL_INTENT_EXECUTOR_ROLES = [''ADMIN'', ''MAINTAINER'']"

definition assertExecutorAllowed :: "ApprovalIntent \<Rightarrow> IntentExecutor \<Rightarrow> (intent_error, unit) result" where
  "assertExecutorAllowed intent executor =
     (if ex_id executor = [] then Inl (ForbiddenException ''An executor id is required'')
      else case (case ai_approverId intent of Some [] \<Rightarrow> None | a \<Rightarrow> a) of
        Some approver \<Rightarrow>
          if ex_id executor \<noteq> approver
          then Inl (ForbiddenException (''Intent '' @ ai_id intent @ '' designates '' @ approver @ '' as its only executor''))
          else Inr ()
      | None \<Rightarrow>
          (case map_option toUpperCase (ex_role executor) of
             None \<Rightarrow> Inl (ForbiddenException ''Insufficient role to execute a maintainer approval intent'')
           | Some role \<Rightarrow>
               if role = [] \<or> role \<notin> set APPROVAL_INTENT_EXECUTOR_ROLES
               then Inl (ForbiddenException ''Insufficient role to execute a maintainer approval intent'')
               else Inr ()))"

section \<open>The service\<close>

record 't intent_repo =
  ir_find :: "string \<Rightarrow> 't \<Rightarrow> ApprovalIntent option"
  ir_findProposed :: "string \<Rightarrow> 't \<Rightarrow> ApprovalIntent option"
  ir_put :: "ApprovalIntent \<Rightarrow> 't \<Rightarrow> 't"
  ir_updateProposed :: "string \<Rightarrow> (ApprovalIntent \<Rightarrow> ApprovalIntent) \<Rightarrow> 't \<Rightarrow> nat \<times> 't"
  ir_updateDue :: "int \<Rightarrow> (ApprovalIntent \<Rightarrow> ApprovalIntent) \<Rightarrow> 't \<Rightarrow> nat \<times> 't"

datatype intent_outcome =
    Out_intent ApprovalIntent
  | Out_count nat

text \<open>Where a call stands: what it awaits, and what it knows.\<close>

datatype intent_call =
    Prop_find ProposeIntentInput string string \<comment> \<open>the request, its trimmed reason, its fingerprint\<close>
  | Prop_save ApprovalIntent
  | Prop_evidence ApprovalIntent
  | Prop_cancel ApprovalIntent
  | Exec_get string IntentExecutor
  | Exec_expire ApprovalIntent
  | Exec_claim ApprovalIntent IntentExecutor int
  | Exec_lost string
  | Exec_run ApprovalIntent IntentExecutor
  | Exec_save ApprovalIntent "intent_error option" \<comment> \<open>the row to write, and the error to rethrow\<close>
  | Exec_evidence ApprovalIntent "intent_error option"
  | Cancel_get string IntentExecutor string
  | Cancel_claim ApprovalIntent int
  | Cancel_lost string
  | Cancel_evidence ApprovalIntent
  | Expire_get string
  | Expire_claim ApprovalIntent int
  | Expire_lost string
  | Sweep int
  | Ended "(intent_error, intent_outcome) result"

text \<open>What comes back from an await: a reply, a failure, or an effect whose reply was lost.\<close>

datatype reply = Ok | Fail string | Lost string

definition commitment_of :: "ProposeIntentInput \<Rightarrow> string \<Rightarrow> IntentCommitment" where
  "commitment_of request reason = \<lparr>co_action = pi_action request, co_actorId = ac_id (pi_actor request),
     co_resourceType = pi_resourceType request, co_resourceId = pi_resourceId request, co_reason = reason,
     co_payload = (case pi_payload request of None \<Rightarrow> JObj True [] | Some p \<Rightarrow> p)\<rparr>"

definition propose :: "intent_env \<Rightarrow> ProposeIntentInput \<Rightarrow> intent_call" where
  "propose env request =
     (if ac_id (pi_actor request) = [] then Ended (Inl (BadRequestException ''An intent requires an actor id''))
      else if \<not> isSensitiveAction (pi_action request)
      then Ended (Inl (BadRequestException (''Unknown sensitive action: '' @ pi_action request)))
      else
        let reason = (case pi_reason request of None \<Rightarrow> [] | Some r \<Rightarrow> trim r) in
        if reason = [] then Ended (Inl (BadRequestException (''A reason is required to propose '' @ pi_action request)))
        else if pi_approverId request \<noteq> Some [] \<and> pi_approverId request = Some (ac_id (pi_actor request))
        then Ended (Inl (BadRequestException ''An approver must differ from the actor proposing the intent''))
        else case approvalIntentFingerprint env (commitment_of request reason) of
          Inl e \<Rightarrow> Ended (Inl e)
        | Inr fingerprint \<Rightarrow> Prop_find request reason fingerprint)"

definition build_intent ::
  "intent_env \<Rightarrow> ApprovalIntentOptions \<Rightarrow> int \<Rightarrow> ProposeIntentInput \<Rightarrow> string \<Rightarrow> string \<Rightarrow> (intent_error, ApprovalIntent) result" where
  "build_intent env o1 now request reason fingerprint =
     (case resolveTtl o1 (pi_ttlSeconds request) of
        Inl e \<Rightarrow> Inl e
      | Inr ttlSeconds \<Rightarrow>
          (case intentPayloadHash env (co_payload (commitment_of request reason)) of
             Inl e \<Rightarrow> Inl e
           | Inr payloadHash \<Rightarrow>
               (case sign env fingerprint of
                  Inl e \<Rightarrow> Inl e
                | Inr intentSignature \<Rightarrow>
                    Inr \<lparr>ai_id = [], ai_action = pi_action request, ai_actorId = ac_id (pi_actor request),
                      ai_actorRole = ac_role (pi_actor request),
                      ai_actorType = (case ac_type (pi_actor request) of None \<Rightarrow> ''maintainer'' | Some t \<Rightarrow> t),
                      ai_approverId = pi_approverId request, ai_resourceType = pi_resourceType request,
                      ai_resourceId = pi_resourceId request, ai_reason = reason,
                      ai_payload = co_payload (commitment_of request reason), ai_payloadHash = payloadHash,
                      ai_fingerprint = fingerprint, ai_status = PROPOSED, ai_expiresAt = now + ttlSeconds * 1000,
                      ai_requestedAt = now, ai_startedAt = None, ai_completedAt = None, ai_intentSignature = intentSignature,
                      ai_receiptHash = None, ai_receiptSignature = None, ai_receipt = None, ai_signedAt = None,
                      ai_signatureAlgorithm = ''HMAC-SHA256'', ai_failureReason = None, ai_metadata = pi_metadata request,
                      ai_ipAddress = ac_ipAddress (pi_actor request), ai_userAgent = ac_userAgent (pi_actor request)\<rparr>)))"

definition after_find ::
  "intent_env \<Rightarrow> ApprovalIntentOptions \<Rightarrow> int \<Rightarrow> ProposeIntentInput \<Rightarrow> string \<Rightarrow> string \<Rightarrow> ApprovalIntent option \<Rightarrow> intent_call" where
  "after_find env o1 now request reason fingerprint existing =
     (case existing of
        Some x \<Rightarrow> Ended (Inl (ConflictException (''An identical intent is already proposed as '' @ ai_id x
          @ ''; execute or cancel it before proposing another'')))
      | None \<Rightarrow>
          (case build_intent env o1 now request reason fingerprint of
             Inl e \<Rightarrow> Ended (Inl e)
           | Inr intent \<Rightarrow> Prop_save intent))"

definition UNEVIDENCED :: string where
  "UNEVIDENCED = ''The approval intent was not proposed because its evidence record could not be written''"

definition evidence_failed :: "ApprovalIntent \<Rightarrow> intent_call" where
  "evidence_failed saved =
     (case transitionIntentStatus (ai_status saved) CANCELLED of
        Inl e \<Rightarrow> Ended (Inl (ServiceUnavailableException UNEVIDENCED))
      | Inr s \<Rightarrow> Prop_cancel (saved\<lparr>ai_status := s\<rparr>))"

definition not_found :: "string \<Rightarrow> intent_error" where
  "not_found intentId = IntentNotFound (''Approval intent '' @ intentId @ '' was not found'')"

definition no_longer :: "string \<Rightarrow> ApprovalIntentStatus \<Rightarrow> intent_error" where
  "no_longer intentId st = ConflictException (''Intent '' @ intentId @ '' is '' @ show_status st @ '' and can no longer execute'')"

definition only_proposed :: "string \<Rightarrow> string \<Rightarrow> ApprovalIntentStatus \<Rightarrow> intent_error" where
  "only_proposed what intentId st =
     ConflictException (''Only proposed intents can be '' @ what @ ''; '' @ intentId @ '' is '' @ show_status st)"

definition after_exec_get :: "intent_env \<Rightarrow> int \<Rightarrow> string \<Rightarrow> IntentExecutor \<Rightarrow> ApprovalIntent option \<Rightarrow> intent_call" where
  "after_exec_get env now intentId executor found =
     (case found of
        None \<Rightarrow> Ended (Inl (not_found intentId))
      | Some intent \<Rightarrow>
          if ai_status intent \<noteq> PROPOSED then Ended (Inl (no_longer intentId (ai_status intent)))
          else if ai_expiresAt intent \<le> now then Exec_expire intent
          else case assertExecutorAllowed intent executor of
            Inl e \<Rightarrow> Ended (Inl e)
          | Inr _ \<Rightarrow> Exec_claim intent executor now)"

definition after_exec_lost :: "string \<Rightarrow> ApprovalIntent option \<Rightarrow> intent_call" where
  "after_exec_lost intentId found =
     Ended (Inl (case found of
        None \<Rightarrow> not_found intentId
      | Some current \<Rightarrow>
          if ai_status current \<in> {COMPLETED, FAILED, CANCELLED, EXPIRED} then no_longer intentId (ai_status current)
          else ConflictException (''Intent '' @ intentId @ '' was claimed by another execution'')))"

definition receiptDocument ::
  "intent_env \<Rightarrow> ApprovalIntent \<Rightarrow> ApprovalIntentStatus \<Rightarrow> string option \<Rightarrow> int \<Rightarrow> SignedIntentReceipt" where
  "receiptDocument env intent outcome failureReason completedAt =
     \<lparr>rc_schema = APPROVAL_INTENT_SCHEMA, rc_intentId = ai_id intent, rc_fingerprint = ai_fingerprint intent,
      rc_action = ai_action intent, rc_actorId = ai_actorId intent, rc_actorRole = ai_actorRole intent,
      rc_approverId = ai_approverId intent, rc_resourceType = ai_resourceType intent, rc_resourceId = ai_resourceId intent,
      rc_reason = ai_reason intent, rc_payloadHash = ai_payloadHash intent, rc_status = outcome,
      rc_failureReason = failureReason, rc_requestedAt = ie_iso env (ai_requestedAt intent),
      rc_completedAt = ie_iso env completedAt, rc_signedAt = ie_iso env completedAt\<rparr>"

definition finish_intent ::
  "intent_env \<Rightarrow> int \<Rightarrow> ApprovalIntent \<Rightarrow> ApprovalIntentStatus \<Rightarrow> string option \<Rightarrow> intent_error option \<Rightarrow> intent_call" where
  "finish_intent env now intent outcome failureReason rethrow =
     (let receipt = receiptDocument env intent outcome failureReason now in
      case signReceipt env receipt of
        Inl e \<Rightarrow> Ended (Inl e)
      | Inr integrity \<Rightarrow>
          Exec_save (intent\<lparr>ai_status := outcome, ai_completedAt := Some now, ai_signedAt := Some now,
            ai_receiptHash := Some (ri_receiptHash integrity), ai_receiptSignature := Some (ri_signature integrity),
            ai_signatureAlgorithm := ri_signingAlgorithm integrity, ai_receipt := Some receipt,
            ai_failureReason := failureReason\<rparr>) rethrow)"

definition ended_with :: "ApprovalIntent \<Rightarrow> intent_error option \<Rightarrow> intent_call" where
  "ended_with intent rethrow =
     (case rethrow of None \<Rightarrow> Ended (Inr (Out_intent intent)) | Some e \<Rightarrow> Ended (Inl e))"

definition after_withdraw_get ::
  "string \<Rightarrow> (ApprovalIntent \<Rightarrow> intent_call) \<Rightarrow> string \<Rightarrow> ApprovalIntent option \<Rightarrow> intent_call" where
  "after_withdraw_get what claim intentId found =
     (case found of
        None \<Rightarrow> Ended (Inl (not_found intentId))
      | Some intent \<Rightarrow>
          if ai_status intent \<noteq> PROPOSED then Ended (Inl (only_proposed what intentId (ai_status intent)))
          else claim intent)"

definition after_withdraw_lost :: "string \<Rightarrow> string \<Rightarrow> ApprovalIntent option \<Rightarrow> intent_call" where
  "after_withdraw_lost what intentId found =
     Ended (Inl (case found of None \<Rightarrow> not_found intentId | Some current \<Rightarrow> only_proposed what intentId (ai_status current)))"

text \<open>
  Resuming a call.  \<open>save\<close> writes the columns an entity has set: all of them for a row that was
  read before, and for the entity \<open>propose\<close> built, whose later columns are unset, the status that changed.
  \<open>newId\<close> is the id the database would give to a row inserted now; an id that is
  taken violates the primary key.
\<close>

fun intent_advance ::
  "intent_env \<Rightarrow> ApprovalIntentOptions \<Rightarrow> 't intent_repo \<Rightarrow> reply \<Rightarrow> int \<Rightarrow> string \<Rightarrow> intent_call \<Rightarrow> 't \<Rightarrow> intent_call \<times> 't" where
  "intent_advance env o1 db r now newId (Prop_find request reason fp) t =
     ((case r of Ok \<Rightarrow> after_find env o1 now request reason fp (ir_findProposed db fp t) | Fail m \<Rightarrow> Ended (Inl (Thrown m))
        | Lost m \<Rightarrow> Ended (Inl (Thrown m))), t)"
| "intent_advance env o1 db r now newId (Prop_save intent) t =
     (let row = intent\<lparr>ai_id := newId\<rparr> in
      if ir_find db newId t \<noteq> None then (Ended (Inl (Thrown ''duplicate key'')), t)
      else case r of
        Ok \<Rightarrow> (Prop_evidence row, ir_put db row t)
      | Fail m \<Rightarrow> (Ended (Inl (Thrown m)), t)
      | Lost m \<Rightarrow> (Ended (Inl (Thrown m)), ir_put db row t))"
| "intent_advance env o1 db r now newId (Prop_evidence saved) t =
     ((case r of Ok \<Rightarrow> Ended (Inr (Out_intent saved)) | _ \<Rightarrow> evidence_failed saved), t)"
| "intent_advance env o1 db r now newId (Prop_cancel saved) t =
     (Ended (Inl (ServiceUnavailableException UNEVIDENCED)),
      (case r of Fail _ \<Rightarrow> t
       | _ \<Rightarrow> ir_put db (case ir_find db (ai_id saved) t of None \<Rightarrow> saved | Some row \<Rightarrow> row\<lparr>ai_status := ai_status saved\<rparr>) t))"
| "intent_advance env o1 db r now newId (Exec_get intentId executor) t =
     ((case r of Ok \<Rightarrow> after_exec_get env now intentId executor (ir_find db intentId t) | Fail m \<Rightarrow> Ended (Inl (Thrown m))
        | Lost m \<Rightarrow> Ended (Inl (Thrown m))), t)"
| "intent_advance env o1 db r now newId (Exec_expire intent) t =
     (let t1 = snd (ir_updateProposed db (ai_id intent) (\<lambda>x. x\<lparr>ai_status := EXPIRED\<rparr>) t) in
      case r of
        Ok \<Rightarrow> (Ended (Inl (ConflictException (''Intent '' @ ai_id intent @ '' expired at '' @ ie_iso env (ai_expiresAt intent)))), t1)
      | Fail m \<Rightarrow> (Ended (Inl (Thrown m)), t)
      | Lost m \<Rightarrow> (Ended (Inl (Thrown m)), t1))"
| "intent_advance env o1 db r now newId (Exec_claim intent executor startedAt) t =
     (let (n, t1) = ir_updateProposed db (ai_id intent) (\<lambda>x. x\<lparr>ai_status := EXECUTING, ai_startedAt := Some startedAt\<rparr>) t in
      case r of
        Ok \<Rightarrow> (if n = 0 then Exec_lost (ai_id intent)
                else Exec_run (intent\<lparr>ai_status := EXECUTING, ai_startedAt := Some startedAt\<rparr>) executor, t1)
      | Fail m \<Rightarrow> (Ended (Inl (Thrown m)), t)
      | Lost m \<Rightarrow> (Ended (Inl (Thrown m)), t1))"
| "intent_advance env o1 db r now newId (Exec_lost intentId) t =
     ((case r of Ok \<Rightarrow> after_exec_lost intentId (ir_find db intentId t) | Fail m \<Rightarrow> Ended (Inl (Thrown m))
        | Lost m \<Rightarrow> Ended (Inl (Thrown m))), t)"
| "intent_advance env o1 db r now newId (Exec_run intent executor) t =
     ((case r of
         Ok \<Rightarrow> finish_intent env now intent COMPLETED None None
       | Fail m \<Rightarrow> finish_intent env now intent FAILED (Some m) (Some (Thrown m))
       | Lost m \<Rightarrow> finish_intent env now intent FAILED (Some m) (Some (Thrown m))), t)"
| "intent_advance env o1 db r now newId (Exec_save intent rethrow) t =
     (case r of
        Ok \<Rightarrow> (Exec_evidence intent rethrow, ir_put db intent t)
      | Fail m \<Rightarrow> (Ended (Inl (Thrown m)), t)
      | Lost m \<Rightarrow> (Ended (Inl (Thrown m)), ir_put db intent t))"
| "intent_advance env o1 db r now newId (Exec_evidence intent rethrow) t = (ended_with intent rethrow, t)"
| "intent_advance env o1 db r now newId (Cancel_get intentId actor reason) t =
     ((case r of
         Ok \<Rightarrow> (case ir_find db intentId t of
                   None \<Rightarrow> Ended (Inl (not_found intentId))
                 | Some intent \<Rightarrow>
                     if trim reason = [] then Ended (Inl (BadRequestException ''A cancellation reason is required''))
                     else after_withdraw_get ''cancelled''
                       (\<lambda>intent. Cancel_claim (intent\<lparr>ai_status := CANCELLED, ai_completedAt := Some now\<rparr>) now) intentId (Some intent))
       | Fail m \<Rightarrow> Ended (Inl (Thrown m)) | Lost m \<Rightarrow> Ended (Inl (Thrown m))), t)"
| "intent_advance env o1 db r now newId (Cancel_claim intent stamp) t =
     (let (n, t1) = ir_updateProposed db (ai_id intent) (\<lambda>x. x\<lparr>ai_status := CANCELLED, ai_completedAt := Some stamp\<rparr>) t in
      case r of
        Ok \<Rightarrow> (if n = 0 then Cancel_lost (ai_id intent) else Cancel_evidence intent, t1)
      | Fail m \<Rightarrow> (Ended (Inl (Thrown m)), t)
      | Lost m \<Rightarrow> (Ended (Inl (Thrown m)), t1))"
| "intent_advance env o1 db r now newId (Cancel_lost intentId) t =
     ((case r of Ok \<Rightarrow> after_withdraw_lost ''cancelled'' intentId (ir_find db intentId t) | Fail m \<Rightarrow> Ended (Inl (Thrown m))
        | Lost m \<Rightarrow> Ended (Inl (Thrown m))), t)"
| "intent_advance env o1 db r now newId (Cancel_evidence intent) t = (Ended (Inr (Out_intent intent)), t)"
| "intent_advance env o1 db r now newId (Expire_get intentId) t =
     ((case r of
         Ok \<Rightarrow> after_withdraw_get ''expired''
           (\<lambda>intent. Expire_claim (intent\<lparr>ai_status := EXPIRED, ai_completedAt := Some now\<rparr>) now) intentId (ir_find db intentId t)
       | Fail m \<Rightarrow> Ended (Inl (Thrown m)) | Lost m \<Rightarrow> Ended (Inl (Thrown m))), t)"
| "intent_advance env o1 db r now newId (Expire_claim intent stamp) t =
     (let (n, t1) = ir_updateProposed db (ai_id intent) (\<lambda>x. x\<lparr>ai_status := EXPIRED, ai_completedAt := Some stamp\<rparr>) t in
      case r of
        Ok \<Rightarrow> (if n = 0 then Expire_lost (ai_id intent) else Ended (Inr (Out_intent intent)), t1)
      | Fail m \<Rightarrow> (Ended (Inl (Thrown m)), t)
      | Lost m \<Rightarrow> (Ended (Inl (Thrown m)), t1))"
| "intent_advance env o1 db r now newId (Expire_lost intentId) t =
     ((case r of Ok \<Rightarrow> after_withdraw_lost ''expired'' intentId (ir_find db intentId t) | Fail m \<Rightarrow> Ended (Inl (Thrown m))
        | Lost m \<Rightarrow> Ended (Inl (Thrown m))), t)"
| "intent_advance env o1 db r now newId (Sweep stamp) t =
     (let (n, t1) = ir_updateDue db stamp (\<lambda>x. x\<lparr>ai_status := EXPIRED\<rparr>) t in
      case r of
        Ok \<Rightarrow> (Ended (Inr (Out_count n)), t1)
      | Fail m \<Rightarrow> (Ended (Inl (Thrown m)), t)
      | Lost m \<Rightarrow> (Ended (Inl (Thrown m)), t1))"
| "intent_advance env o1 db r now newId (Ended x) t = (Ended x, t)"

record StoredReceiptVerification =
  sv_intentId :: string
  sv_status :: ApprovalIntentStatus
  sv_verification :: ReceiptVerification

definition verify_intent :: "intent_env \<Rightarrow> ApprovalIntent \<Rightarrow> (intent_error, StoredReceiptVerification) result" where
  "verify_intent env intent =
     (case ai_receipt intent of
        None \<Rightarrow> Inr \<lparr>sv_intentId = ai_id intent, sv_status = ai_status intent, sv_verification =
          \<lparr>rv_valid = False, rv_recomputedHash = [], rv_errors =
            [''Intent '' @ ai_id intent @ '' has no signed receipt (status: '' @ show_status (ai_status intent) @ '')'']\<rparr>\<rparr>
      | Some receipt \<Rightarrow>
          (case verifyReceipt env receipt \<lparr>ri_receiptHash = in_join (ai_receiptHash intent),
               ri_signature = in_join (ai_receiptSignature intent), ri_signingAlgorithm = ai_signatureAlgorithm intent\<rparr> of
             Inl e \<Rightarrow> Inl e
           | Inr v \<Rightarrow> Inr \<lparr>sv_intentId = ai_id intent, sv_status = ai_status intent, sv_verification = v\<rparr>))"

end
