(* ===== verification/Approval_Runs.thy ===== *)
theory Approval_Runs
  imports Approval_Intents
begin

text \<open>
  Approval intents in operation: any number of calls to the service of \<open>approval-intent.service.ts\<close>
  in flight at once, resumed in any order.  What the service relies on of its table is the locale
  \<open>intent_table\<close>; inside it, an invariant of the rows and of the calls is kept by every move.  The locale is
  interpreted on a table of rows keyed by id, and the properties are about runs of the service on it.
\<close>

section \<open>Calls in flight\<close>

datatype intent_request =
    Do_propose ProposeIntentInput
  | Do_execute string IntentExecutor
  | Do_cancel string IntentExecutor string
  | Do_expireIntent string
  | Do_expireDueIntents int

fun start_request :: "intent_env \<Rightarrow> intent_request \<Rightarrow> intent_call" where
  "start_request env (Do_propose request) = propose env request"
| "start_request env (Do_execute intentId executor) = Exec_get intentId executor"
| "start_request env (Do_cancel intentId actor reason) = Cancel_get intentId actor reason"
| "start_request env (Do_expireIntent intentId) = Expire_get intentId"
| "start_request env (Do_expireDueIntents now) = Sweep now"

text \<open>The log of operations that were started is kept beside the calls and the table.\<close>

record intent_run =
  run_intent :: ApprovalIntent
  run_executor :: IntentExecutor

record 't intent_world =
  iw_calls :: "intent_call list"
  iw_table :: 't
  iw_runs :: "intent_run list"

datatype intent_move =
    Begin intent_request
  | Continue nat reply int string \<comment> \<open>the call, what its await gave, the time, the next id\<close>

fun started :: "intent_call \<Rightarrow> intent_call \<Rightarrow> intent_run list" where
  "started (Exec_claim _ _ _) (Exec_run intent executor) = [\<lparr>run_intent = intent, run_executor = executor\<rparr>]"
| "started _ _ = []"

fun intent_step ::
  "intent_env \<Rightarrow> ApprovalIntentOptions \<Rightarrow> 't intent_repo \<Rightarrow> intent_move \<Rightarrow> 't intent_world \<Rightarrow> 't intent_world" where
  "intent_step env o1 db (Begin q) w = w\<lparr>iw_calls := iw_calls w @ [start_request env q]\<rparr>"
| "intent_step env o1 db (Continue i r now newId) w =
     (if i < length (iw_calls w)
      then let (c, t) = intent_advance env o1 db r now newId (iw_calls w ! i) (iw_table w) in
           w\<lparr>iw_calls := (iw_calls w)[i := c], iw_table := t, iw_runs := iw_runs w @ started (iw_calls w ! i) c\<rparr>
      else w)"

section \<open>What the columns of an intent say\<close>

text \<open>The columns a proposal writes, which no later write changes.\<close>

definition row_commitment :: "ApprovalIntent \<Rightarrow> IntentCommitment" where
  "row_commitment x = \<lparr>co_action = ai_action x, co_actorId = ai_actorId x, co_resourceType = ai_resourceType x,
     co_resourceId = ai_resourceId x, co_reason = ai_reason x, co_payload = ai_payload x\<rparr>"

definition properly_proposed :: "intent_env \<Rightarrow> ApprovalIntentOptions \<Rightarrow> ApprovalIntent \<Rightarrow> bool" where
  "properly_proposed env o1 x \<longleftrightarrow>
     isSensitiveAction (ai_action x) \<and> ai_actorId x \<noteq> [] \<and> ai_reason x \<noteq> [] \<and>
     (ai_approverId x = Some (ai_actorId x) \<longrightarrow> ai_approverId x = Some []) \<and>
     approvalIntentFingerprint env (row_commitment x) = Inr (ai_fingerprint x) \<and>
     sign env (ai_fingerprint x) = Inr (ai_intentSignature x) \<and>
     ai_requestedAt x + 60000 \<le> ai_expiresAt x \<and> ai_expiresAt x \<le> ai_requestedAt x + maxTtlSeconds o1 * 1000"

definition receipt_valid :: "intent_env \<Rightarrow> ApprovalIntent \<Rightarrow> bool" where
  "receipt_valid env x \<longleftrightarrow>
     (case (ai_receipt x, verify_intent env x) of
        (Some rc, Inr v) \<Rightarrow>
          rv_valid (sv_verification v) \<and> rc_intentId rc = ai_id x \<and> rc_status rc = ai_status x \<and>
          rc_fingerprint rc = ai_fingerprint x \<and> rc_actorId rc = ai_actorId x \<and> rc_action rc = ai_action x \<and>
          rc_failureReason rc = ai_failureReason x
      | _ \<Rightarrow> False)"

definition row_ok :: "intent_env \<Rightarrow> ApprovalIntentOptions \<Rightarrow> ApprovalIntent \<Rightarrow> bool" where
  "row_ok env o1 x \<longleftrightarrow>
     properly_proposed env o1 x \<and> (ai_status x \<in> {COMPLETED, FAILED} \<longrightarrow> receipt_valid env x)"

text \<open>What a call in flight knows.\<close>

fun call_ok :: "intent_env \<Rightarrow> ApprovalIntentOptions \<Rightarrow> intent_call \<Rightarrow> bool" where
  "call_ok env o1 (Prop_find request reason fp) \<longleftrightarrow>
     isSensitiveAction (pi_action request) \<and> ac_id (pi_actor request) \<noteq> [] \<and> reason \<noteq> [] \<and>
     (pi_approverId request = Some (ac_id (pi_actor request)) \<longrightarrow> pi_approverId request = Some []) \<and>
     approvalIntentFingerprint env (commitment_of request reason) = Inr fp"
| "call_ok env o1 (Prop_save intent) \<longleftrightarrow> ai_status intent = PROPOSED \<and> properly_proposed env o1 intent"
| "call_ok env o1 (Prop_evidence saved) \<longleftrightarrow> ai_status saved = PROPOSED \<and> properly_proposed env o1 saved"
| "call_ok env o1 (Prop_cancel saved) \<longleftrightarrow> ai_status saved = CANCELLED \<and> properly_proposed env o1 saved"
| "call_ok env o1 (Exec_claim intent executor stamp) \<longleftrightarrow>
     ai_status intent = PROPOSED \<and> properly_proposed env o1 intent \<and>
     assertExecutorAllowed intent executor = Inr () \<and> stamp < ai_expiresAt intent"
| "call_ok env o1 (Exec_run intent executor) \<longleftrightarrow> ai_status intent = EXECUTING \<and> properly_proposed env o1 intent"
| "call_ok env o1 (Exec_save intent rethrow) \<longleftrightarrow> ai_status intent \<in> {COMPLETED, FAILED} \<and> row_ok env o1 intent"
| "call_ok env o1 _ \<longleftrightarrow> True"

definition run_ok :: "intent_env \<Rightarrow> ApprovalIntentOptions \<Rightarrow> intent_run \<Rightarrow> bool" where
  "run_ok env o1 rn \<longleftrightarrow>
     properly_proposed env o1 (run_intent rn) \<and> assertExecutorAllowed (run_intent rn) (run_executor rn) = Inr () \<and>
     (case ai_startedAt (run_intent rn) of None \<Rightarrow> False | Some stamp \<Rightarrow> stamp < ai_expiresAt (run_intent rn))"

section \<open>Receipts\<close>

lemma verify_signed:
  assumes "signReceipt env receipt = Inr integrity" "rc_schema receipt = APPROVAL_INTENT_SCHEMA"
  shows "verifyReceipt env receipt integrity = Inr \<lparr>rv_valid = True, rv_recomputedHash = ri_receiptHash integrity, rv_errors = []\<rparr>"
proof -
  obtain h sg where h: "hashReceipt env receipt = Inr h" "sign env h = Inr sg"
    and i: "integrity = \<lparr>ri_receiptHash = h, ri_signature = sg, ri_signingAlgorithm = APPROVAL_INTENT_SIGNATURE_ALGORITHM\<rparr>"
    using assms(1) by (auto simp: signReceipt_def split: if_splits sum.splits)
  then show ?thesis using assms(2) by (simp add: verifyReceipt_def verify_signature_def)
qed

lemma assertExecutorAllowed_started [simp]:
  "assertExecutorAllowed (x\<lparr>ai_status := st, ai_startedAt := sa\<rparr>) e = assertExecutorAllowed x e"
  by (simp add: assertExecutorAllowed_def split: option.splits list.splits)

lemma properly_proposed_updates [simp]:
  "properly_proposed env o1 (x\<lparr>ai_id := j\<rparr>) = properly_proposed env o1 x"
  "properly_proposed env o1 (x\<lparr>ai_status := st\<rparr>) = properly_proposed env o1 x"
  "properly_proposed env o1 (x\<lparr>ai_startedAt := sa\<rparr>) = properly_proposed env o1 x"
  "properly_proposed env o1 (x\<lparr>ai_completedAt := ca\<rparr>) = properly_proposed env o1 x"
  "properly_proposed env o1 (x\<lparr>ai_signedAt := ca\<rparr>) = properly_proposed env o1 x"
  "properly_proposed env o1 (x\<lparr>ai_receiptHash := rh\<rparr>) = properly_proposed env o1 x"
  "properly_proposed env o1 (x\<lparr>ai_receiptSignature := rs\<rparr>) = properly_proposed env o1 x"
  "properly_proposed env o1 (x\<lparr>ai_signatureAlgorithm := sa'\<rparr>) = properly_proposed env o1 x"
  "properly_proposed env o1 (x\<lparr>ai_receipt := rc\<rparr>) = properly_proposed env o1 x"
  "properly_proposed env o1 (x\<lparr>ai_failureReason := fr\<rparr>) = properly_proposed env o1 x"
  by (simp_all add: properly_proposed_def row_commitment_def)

lemma in_join_Some [simp]: "in_join (Some s) = s"
  by (simp add: in_join_def)

lemma receiptDocument_fields [simp]:
  "rc_schema (receiptDocument env x outcome fr now) = APPROVAL_INTENT_SCHEMA"
  "rc_intentId (receiptDocument env x outcome fr now) = ai_id x"
  "rc_status (receiptDocument env x outcome fr now) = outcome"
  "rc_fingerprint (receiptDocument env x outcome fr now) = ai_fingerprint x"
  "rc_actorId (receiptDocument env x outcome fr now) = ai_actorId x"
  "rc_action (receiptDocument env x outcome fr now) = ai_action x"
  "rc_failureReason (receiptDocument env x outcome fr now) = fr"
  by (simp_all add: receiptDocument_def)

lemma integrity_fields [simp]:
  "\<lparr>ri_receiptHash = ri_receiptHash i, ri_signature = ri_signature i, ri_signingAlgorithm = ri_signingAlgorithm i\<rparr> = i"
  by simp

lemma finish_call_ok:
  assumes "properly_proposed env o1 intent" "outcome \<in> {COMPLETED, FAILED}"
  shows "call_ok env o1 (finish_intent env now intent outcome fr rethrow)"
proof (cases "signReceipt env (receiptDocument env intent outcome fr now)")
  case Inl
  then show ?thesis by (simp add: finish_intent_def)
next
  case (Inr integrity)
  show ?thesis using assms Inr verify_signed[OF Inr]
    by (auto simp: finish_intent_def row_ok_def receipt_valid_def verify_intent_def Let_def)
qed

lemma propose_call_ok: "call_ok env o1 (propose env request)"
  by (auto simp: propose_def Let_def split: sum.splits)

lemma resolveTtl_bounds:
  "resolveTtl o1 ttl = Inr n \<Longrightarrow> 60 \<le> n \<and> n \<le> maxTtlSeconds o1"
  by (auto simp: resolveTtl_def maxTtlSeconds_def defaultTtlSeconds_def split: option.splits if_splits)

lemma build_call_ok:
  assumes "call_ok env o1 (Prop_find request reason fp)"
  shows "call_ok env o1 (after_find env o1 now request reason fp found)"
proof (cases "found = None \<and> (\<exists>intent. build_intent env o1 now request reason fp = Inr intent)")
  case True
  then obtain intent where f: "found = None" and b: "build_intent env o1 now request reason fp = Inr intent" by auto
  then obtain ttl ph sg where p: "resolveTtl o1 (pi_ttlSeconds request) = Inr ttl" "sign env fp = Inr sg"
    and i: "ai_action intent = pi_action request" "ai_actorId intent = ac_id (pi_actor request)" "ai_reason intent = reason"
      "ai_approverId intent = pi_approverId request" "ai_fingerprint intent = fp" "ai_intentSignature intent = sg"
      "ai_status intent = PROPOSED" "ai_requestedAt intent = now" "ai_expiresAt intent = now + ttl * 1000"
      "row_commitment intent = commitment_of request reason"
    by (auto simp: build_intent_def row_commitment_def commitment_of_def split: sum.splits)
  from resolveTtl_bounds[OF p(1)] show ?thesis using assms p i f b
    by (auto simp: after_find_def properly_proposed_def)
next
  case False
  then show ?thesis by (auto simp: after_find_def split: option.splits sum.splits)
qed

section \<open>The table, and what every move keeps\<close>

fun owned :: "intent_call \<Rightarrow> string list" where
  "owned (Exec_run intent _) = [ai_id intent]"
| "owned (Exec_save intent _) = [ai_id intent]"
| "owned _ = []"

fun evidenced :: "intent_call \<Rightarrow> bool" where
  "evidenced (Prop_cancel _) = False"
| "evidenced (Ended (Inl (ServiceUnavailableException _))) = False"
| "evidenced _ = True"

definition status_step :: "ApprovalIntentStatus option \<Rightarrow> ApprovalIntentStatus option \<Rightarrow> bool" where
  "status_step before after =
     (case (before, after) of
        (None, None) \<Rightarrow> True
      | (None, Some y) \<Rightarrow> y = PROPOSED
      | (Some x, Some y) \<Rightarrow> y = x \<or> y \<in> set (ALLOWED_TRANSITIONS x)
      | (Some x, None) \<Rightarrow> False)"

fun patch_if :: "bool \<Rightarrow> (ApprovalIntent \<Rightarrow> ApprovalIntent) \<Rightarrow> ApprovalIntent \<Rightarrow> ApprovalIntent" where
  "patch_if b f x = (if b \<and> ai_status x = PROPOSED then f x else x)"

locale intent_table =
  fixes db :: "'t intent_repo"
  assumes find_id: "ir_find db j t = Some x \<Longrightarrow> ai_id x = j"
    and find_put: "ir_find db j (ir_put db x t) = (if j = ai_id x then Some x else ir_find db j t)"
    and find_updateProposed: "(\<And>x. ai_id (f x) = ai_id x) \<Longrightarrow>
      ir_find db k (snd (ir_updateProposed db j f t)) = map_option (patch_if (k = j) f) (ir_find db k t)"
    and count_updateProposed: "fst (ir_updateProposed db j f t) = (case ir_find db j t of None \<Rightarrow> 0 | Some x \<Rightarrow> if ai_status x = PROPOSED then 1 else 0)"
    and find_updateDue: "(\<And>x. ai_id (f x) = ai_id x) \<Longrightarrow>
      ir_find db k (snd (ir_updateDue db now f t)) = map_option (\<lambda>x. patch_if (ai_expiresAt x < now) f x) (ir_find db k t)"
    and findProposed_Some: "ir_findProposed db fp t = Some x \<Longrightarrow>
      ai_fingerprint x = fp \<and> ai_status x = PROPOSED \<and> ir_find db (ai_id x) t = Some x"
    and findProposed_None: "ir_findProposed db fp t = None \<Longrightarrow> ir_find db j t = Some x \<Longrightarrow>
      ai_fingerprint x = fp \<Longrightarrow> ai_status x \<noteq> PROPOSED"
begin

definition rows_ok :: "intent_env \<Rightarrow> ApprovalIntentOptions \<Rightarrow> 't \<Rightarrow> bool" where
  "rows_ok env o1 t \<longleftrightarrow> (\<forall>j x. ir_find db j t = Some x \<longrightarrow> row_ok env o1 x)"

definition settled :: "'t \<Rightarrow> string \<Rightarrow> bool" where
  "settled t j \<longleftrightarrow> (\<exists>x. ir_find db j t = Some x \<and> ai_status x \<noteq> PROPOSED)"

lemma put_rows_ok: "rows_ok env o1 t \<Longrightarrow> row_ok env o1 x \<Longrightarrow> rows_ok env o1 (ir_put db x t)"
  by (auto simp: rows_ok_def find_put)

lemma put_settled: "settled t j \<Longrightarrow> j \<noteq> ai_id x \<or> ai_status x \<noteq> PROPOSED \<Longrightarrow> settled (ir_put db x t) j"
  by (auto simp: settled_def find_put)

lemma patch_row_ok:
  assumes "row_ok env o1 x" "properly_proposed env o1 (f x) = properly_proposed env o1 x" "ai_status (f x) \<notin> {COMPLETED, FAILED}"
  shows "row_ok env o1 (patch_if b f x)"
  using assms by (auto simp: row_ok_def)

lemma updateProposed_rows_ok:
  assumes "rows_ok env o1 t" "\<And>x. ai_id (f x) = ai_id x" "\<And>x. properly_proposed env o1 (f x) = properly_proposed env o1 x"
    "\<And>x. ai_status (f x) \<notin> {COMPLETED, FAILED}"
  shows "rows_ok env o1 (snd (ir_updateProposed db j f t))"
  unfolding rows_ok_def find_updateProposed[of f, OF assms(2)]
  using assms(1) by (auto simp: rows_ok_def simp del: patch_if.simps intro!: patch_row_ok assms(3,4))

lemma updateDue_rows_ok:
  assumes "rows_ok env o1 t" "\<And>x. ai_id (f x) = ai_id x" "\<And>x. properly_proposed env o1 (f x) = properly_proposed env o1 x"
    "\<And>x. ai_status (f x) \<notin> {COMPLETED, FAILED}"
  shows "rows_ok env o1 (snd (ir_updateDue db now f t))"
  unfolding rows_ok_def find_updateDue[of f, OF assms(2)]
  using assms(1) by (auto simp: rows_ok_def simp del: patch_if.simps intro!: patch_row_ok assms(3,4))

lemma updateProposed_settled:
  assumes "settled t k" "\<And>x. ai_id (f x) = ai_id x"
  shows "settled (snd (ir_updateProposed db j f t)) k"
  using assms by (auto simp: settled_def find_updateProposed)

lemma updateDue_settled:
  assumes "settled t k" "\<And>x. ai_id (f x) = ai_id x"
  shows "settled (snd (ir_updateDue db now f t)) k"
  using assms by (auto simp: settled_def find_updateDue)

lemmas table_intros = put_rows_ok put_settled updateProposed_rows_ok updateDue_rows_ok updateProposed_settled updateDue_settled

lemma advance_call_ok:
  assumes "rows_ok env o1 t" "call_ok env o1 c"
  shows "call_ok env o1 (fst (intent_advance env o1 db r now newId c t))"
proof (cases c)
  case (Prop_find request reason fp)
  then show ?thesis using assms build_call_ok by (auto split: reply.splits)
next
  case (Prop_save x2)
  then show ?thesis using assms by (auto simp: Let_def split: reply.splits)
next
  case (Prop_evidence x3)
  then show ?thesis using assms by (auto simp: evidence_failed_def transitionIntentStatus_def split: reply.splits)
next
  case (Exec_get j ex)
  then show ?thesis using assms by (auto simp: after_exec_get_def rows_ok_def row_ok_def split: reply.splits option.splits sum.splits)
next
  case (Exec_claim x ex stamp)
  then show ?thesis using assms by (auto simp: split_beta Let_def split: reply.splits)
next
  case (Exec_run x ex)
  then show ?thesis using assms by (auto intro!: finish_call_ok split: reply.splits)
qed (auto simp: Let_def split_beta after_exec_lost_def ended_with_def after_withdraw_get_def after_withdraw_lost_def
      split: reply.splits option.splits)

lemma advance_rows_ok:
  assumes "rows_ok env o1 t" "call_ok env o1 c"
  shows "rows_ok env o1 (snd (intent_advance env o1 db r now newId c t))"
proof (cases c)
  case (Prop_cancel saved)
  then have "row_ok env o1 (case ir_find db (ai_id saved) t of None \<Rightarrow> saved | Some row \<Rightarrow> row\<lparr>ai_status := ai_status saved\<rparr>)"
    using assms by (auto simp: row_ok_def rows_ok_def split: option.splits)
  then show ?thesis using Prop_cancel assms(1) by (auto intro: put_rows_ok split: reply.splits)
next
  case (Prop_save x)
  then show ?thesis using assms by (auto simp: Let_def row_ok_def intro!: put_rows_ok split: reply.splits)
qed (use assms in \<open>auto simp: Let_def split_beta intro!: table_intros split: reply.splits\<close>)

lemma advance_settled:
  assumes "call_ok env o1 c" "settled t j"
  shows "settled (snd (intent_advance env o1 db r now newId c t)) j"
proof (cases c)
  case (Prop_save x)
  then show ?thesis using assms(2) by (auto simp: Let_def settled_def find_put split: reply.splits)
next
  case (Prop_cancel saved)
  then show ?thesis using assms by (auto simp: settled_def find_put split: reply.splits option.splits dest: find_id)
qed (use assms in \<open>auto simp: Let_def split_beta intro!: table_intros split: reply.splits\<close>)

lemma advance_started:
  assumes "call_ok env o1 c" "intent_advance env o1 db r now newId c t = (c', t')" "rn \<in> set (started c c')"
  shows "run_ok env o1 rn" "\<not> settled t (ai_id (run_intent rn))" "settled t' (ai_id (run_intent rn))" "started c c' = [rn]"
proof -
  from assms(3) obtain x ex stamp y ex' where c: "c = Exec_claim x ex stamp" "c' = Exec_run y ex'"
    and rn: "rn = \<lparr>run_intent = y, run_executor = ex'\<rparr>"
    by (cases "(c, c')" rule: started.cases) auto
  define f where "f = (\<lambda>x :: ApprovalIntent. x\<lparr>ai_status := EXECUTING, ai_startedAt := Some stamp\<rparr>)"
  have f: "\<And>z. ai_id (f z) = ai_id z" "\<And>z. ai_status (f z) = EXECUTING" by (simp_all add: f_def)
  have u: "fst (ir_updateProposed db (ai_id x) f t) \<noteq> 0" "y = f x" "ex' = ex" "t' = snd (ir_updateProposed db (ai_id x) f t)"
    using assms(2) by (auto simp: c f_def Let_def split_beta split: reply.splits if_splits)
  then obtain z where z: "ir_find db (ai_id x) t = Some z" "ai_status z = PROPOSED"
    by (auto simp: count_updateProposed split: option.splits if_splits)
  show "run_ok env o1 rn" using assms(1) by (simp add: c u rn run_ok_def f_def)
  show "\<not> settled t (ai_id (run_intent rn))" using z by (simp add: rn u f settled_def)
  show "settled t' (ai_id (run_intent rn))" using z by (simp add: rn u f settled_def find_updateProposed)
  show "started c c' = [rn]" using c rn by simp
qed

definition world_ok :: "intent_env \<Rightarrow> ApprovalIntentOptions \<Rightarrow> 't intent_world \<Rightarrow> bool" where
  "world_ok env o1 w \<longleftrightarrow>
     rows_ok env o1 (iw_table w) \<and> list_all (call_ok env o1) (iw_calls w) \<and> list_all (run_ok env o1) (iw_runs w) \<and>
     distinct (map (ai_id \<circ> run_intent) (iw_runs w)) \<and> list_all (\<lambda>rn. settled (iw_table w) (ai_id (run_intent rn))) (iw_runs w)"

lemma start_call_ok: "call_ok env o1 (start_request env q)"
  by (cases q) (simp_all add: propose_call_ok)

lemma step_world_ok:
  assumes "world_ok env o1 w"
  shows "world_ok env o1 (intent_step env o1 db m w)"
proof (cases m)
  case (Begin q)
  then show ?thesis using assms by (simp add: world_ok_def start_call_ok)
next
  case (Continue i r now newId)
  obtain c' t' where adv: "intent_advance env o1 db r now newId (iw_calls w ! i) (iw_table w) = (c', t')" by fastforce
  show ?thesis
  proof (cases "i < length (iw_calls w)")
    case True
    have c: "call_ok env o1 (iw_calls w ! i)" using assms True by (auto simp: world_ok_def list_all_length)
    have t: "rows_ok env o1 (iw_table w)" using assms by (simp add: world_ok_def)
    have kept: "settled t' (ai_id (run_intent rn))" if "rn \<in> set (iw_runs w)" for rn
      using advance_settled[OF c, of "iw_table w" "ai_id (run_intent rn)" r now newId] that assms adv by (auto simp: world_ok_def list_all_iff)
    have calls: "list_all (call_ok env o1) ((iw_calls w)[i := c'])"
      using advance_call_ok[OF t c, of r now newId] assms adv set_update_subset_insert[of "iw_calls w" i c']
      by (auto simp: world_ok_def list_all_iff)
    have new: "run_ok env o1 rn \<and> \<not> settled (iw_table w) (ai_id (run_intent rn)) \<and> settled t' (ai_id (run_intent rn)) \<and> started (iw_calls w ! i) c' = [rn]"
      if "rn \<in> set (started (iw_calls w ! i) c')" for rn
      using advance_started[OF c adv that] by blast
    note rows = advance_rows_ok[OF t c, of r now newId]
    consider "started (iw_calls w ! i) c' = []" | rn where "started (iw_calls w ! i) c' = [rn]"
      using new by (cases "started (iw_calls w ! i) c'") auto
    then show ?thesis
    proof cases
      case 1
      then show ?thesis using assms True Continue adv calls kept rows by (auto simp: world_ok_def list_all_iff)
    next
      case (2 rn)
      have "ai_id (run_intent rn) \<notin> (ai_id \<circ> run_intent) ` set (iw_runs w)"
        using new[of rn] 2 assms by (auto simp: world_ok_def list_all_iff)
      then show ?thesis using 2 assms True Continue adv calls kept rows new[of rn] by (auto simp: world_ok_def list_all_iff)
    qed
  qed (use Continue assms in simp)
qed

end

sublocale intent_table \<subseteq> world: invariant_system "intent_step env o1 db" "world_ok env o1" for env o1
  by unfold_locales (rule step_world_ok)

context intent_table
begin

text \<open>
  Executions own the row they have claimed.  As long as no proposal had to be withdrawn for want of
  evidence, an owned row stays \<open>executing\<close> until its owner writes the outcome.
\<close>

definition executing :: "'t \<Rightarrow> string \<Rightarrow> bool" where
  "executing t j \<longleftrightarrow> (\<exists>x. ir_find db j t = Some x \<and> ai_status x = EXECUTING)"

definition legal :: "'t \<Rightarrow> 't \<Rightarrow> bool" where
  "legal t t' \<longleftrightarrow> (\<forall>j. status_step (map_option ai_status (ir_find db j t)) (map_option ai_status (ir_find db j t')))"

lemma legal_refl [simp]: "legal t t"
  by (auto simp: legal_def status_step_def split: option.splits)

lemma advance_legal:
  assumes "call_ok env o1 c" "evidenced c" "\<And>j. j \<in> set (owned c) \<Longrightarrow> executing t j"
  shows "legal t (snd (intent_advance env o1 db r now newId c t))"
proof (cases c)
  case (Prop_save x)
  then show ?thesis using assms by (auto simp: Let_def legal_def find_put status_step_def split: reply.splits option.splits)
next
  case (Exec_save x e)
  then show ?thesis using assms
    by (auto simp: legal_def executing_def find_put status_step_def split: reply.splits option.splits)
qed (use assms in \<open>auto simp: Let_def split_beta legal_def find_updateProposed find_updateDue status_step_def split: reply.splits option.splits\<close>)

lemma advance_executing:
  assumes "evidenced c" "executing t j" "j \<notin> set (owned c)"
  shows "executing (snd (intent_advance env o1 db r now newId c t)) j"
proof -
  obtain x where x: "ir_find db j t = Some x" "ai_status x = EXECUTING" using assms(2) by (auto simp: executing_def)
  show ?thesis
  proof (cases c)
    case (Prop_save y)
    then show ?thesis using x by (auto simp: Let_def executing_def find_put split: reply.splits)
  qed (use assms(1,3) in \<open>auto simp: x Let_def split_beta executing_def find_put find_updateProposed find_updateDue split: reply.splits\<close>)
qed

lemma advance_owned:
  assumes "intent_advance env o1 db r now newId c t = (c', t')"
  shows "owned c' = [] \<or> owned c' = owned c \<and> t' = t \<or> (\<exists>j. owned c' = [j] \<and> \<not> executing t j \<and> executing t' j)"
proof (cases c)
  case (Exec_claim x ex stamp)
  define f where "f = (\<lambda>x :: ApprovalIntent. x\<lparr>ai_status := EXECUTING, ai_startedAt := Some stamp\<rparr>)"
  have f: "\<And>z. ai_id (f z) = ai_id z" "\<And>z. ai_status (f z) = EXECUTING" by (simp_all add: f_def)
  have "intent_advance env o1 db r now newId c t =
      (let (n, t1) = ir_updateProposed db (ai_id x) f t in
       case r of Ok \<Rightarrow> (if n = 0 then Exec_lost (ai_id x) else Exec_run (f x) ex, t1)
       | Fail m \<Rightarrow> (Ended (Inl (Thrown m)), t) | Lost m \<Rightarrow> (Ended (Inl (Thrown m)), t1))"
    by (simp add: Exec_claim f_def split_beta split: reply.split)
  then show ?thesis using assms count_updateProposed[of "ai_id x" f t] find_updateProposed[of f "ai_id x" "ai_id x" t, OF f(1)]
    by (auto simp: executing_def f Let_def split_beta split: reply.splits option.splits if_splits)
qed (use assms in \<open>auto simp: Let_def split_beta after_find_def evidence_failed_def after_exec_get_def after_exec_lost_def
    finish_intent_def ended_with_def after_withdraw_get_def after_withdraw_lost_def
    split: reply.splits option.splits sum.splits if_splits\<close>)

definition owners_ok :: "'t intent_world \<Rightarrow> bool" where
  "owners_ok w \<longleftrightarrow>
     (\<forall>i < length (iw_calls w). \<forall>j \<in> set (owned (iw_calls w ! i)). executing (iw_table w) j) \<and>
     (\<forall>i < length (iw_calls w). \<forall>k < length (iw_calls w). i \<noteq> k \<longrightarrow> set (owned (iw_calls w ! i)) \<inter> set (owned (iw_calls w ! k)) = {})"

lemma step_owners_ok:
  assumes "owners_ok w" "list_all evidenced (iw_calls w)"
  shows "owners_ok (intent_step env o1 db m w)"
proof (cases m)
  case (Begin q)
  have "owned (start_request env q) = []" by (cases q) (auto simp: propose_def Let_def split: sum.splits)
  then show ?thesis using assms(1) Begin by (auto simp: owners_ok_def nth_append less_Suc_eq)
next
  case (Continue i r now newId)
  obtain c' t' where adv: "intent_advance env o1 db r now newId (iw_calls w ! i) (iw_table w) = (c', t')" by fastforce
  show ?thesis
  proof (cases "i < length (iw_calls w)")
    case True
    let ?cs = "iw_calls w" and ?c = "iw_calls w ! i"
    have held: "executing (iw_table w) j" if "k < length ?cs" "j \<in> set (owned (?cs ! k))" for k j
      using assms(1) that by (auto simp: owners_ok_def)
    have apart: "set (owned (?cs ! k)) \<inter> set (owned ?c) = {}" if "k < length ?cs" "k \<noteq> i" for k
      using assms(1) that True unfolding owners_ok_def by blast
    have others: "executing t' j" if "k < length ?cs" "k \<noteq> i" "j \<in> set (owned (?cs ! k))" for k j
      using advance_executing[of ?c "iw_table w" j env o1 r now newId] held[OF that(1,3)] apart[OF that(1,2)] that(3) adv assms(2) True
      by (auto simp: list_all_length)
    have mine: "executing t' j" if "j \<in> set (owned c')" for j
      using advance_owned[OF adv] that held[OF True, of j] by auto
    have disj: "set (owned (?cs ! k)) \<inter> set (owned c') = {}" if "k < length ?cs" "k \<noteq> i" for k
      using advance_owned[OF adv] apart[OF that] held[OF that(1)] by auto
    have apart': "set (owned (?cs ! k)) \<inter> set (owned (?cs ! l)) = {}" if "k < length ?cs" "l < length ?cs" "k \<noteq> l" for k l
      using assms(1) that unfolding owners_ok_def by blast
    have "set (owned (?cs[i := c'] ! k)) \<inter> set (owned (?cs[i := c'] ! l)) = {}" if "k < length ?cs" "l < length ?cs" "k \<noteq> l" for k l
      using disj[of k] disj[of l] apart'[OF that] that by (cases "k = i"; cases "l = i") auto
    moreover have "executing t' j" if "k < length ?cs" "j \<in> set (owned (?cs[i := c'] ! k))" for k j
      using others[OF that(1)] mine that by (cases "k = i") auto
    ultimately have "owners_ok \<lparr>iw_calls = ?cs[i := c'], iw_table = t', iw_runs = rs\<rparr>" for rs
      unfolding owners_ok_def by simp
    then show ?thesis using True Continue adv by (cases w) (simp add: owners_ok_def)
  qed (use Continue assms in simp)
qed

lemma step_evidenced:
  assumes "list_all evidenced (iw_calls (intent_step env o1 db m w))"
  shows "list_all evidenced (iw_calls w)"
proof (cases m)
  case (Continue i r now newId)
  obtain c' t' where adv: "intent_advance env o1 db r now newId (iw_calls w ! i) (iw_table w) = (c', t')" by fastforce
  have "evidenced (iw_calls w ! i)" if "evidenced c'"
    using that adv by (cases "iw_calls w ! i" rule: evidenced.cases) auto
  then show ?thesis using assms Continue adv
    by (auto simp: list_all_length nth_list_update split: if_splits)
qed (use assms in simp)

lemma step_legal:
  assumes "world_ok env o1 w" "owners_ok w" "list_all evidenced (iw_calls w)"
  shows "legal (iw_table w) (iw_table (intent_step env o1 db m w))"
proof (cases m)
  case (Continue i r now newId)
  show ?thesis
  proof (cases "i < length (iw_calls w)")
    case True
    then have "call_ok env o1 (iw_calls w ! i)" "evidenced (iw_calls w ! i)" "\<And>j. j \<in> set (owned (iw_calls w ! i)) \<Longrightarrow> executing (iw_table w) j"
      using assms by (auto simp: world_ok_def owners_ok_def list_all_length)
    from advance_legal[OF this] show ?thesis using True Continue by (simp add: split_beta Let_def)
  qed (use Continue in simp)
qed simp

lemma run_owners_ok:
  "owners_ok w \<Longrightarrow> list_all evidenced (iw_calls (run (intent_step env o1 db) ms w)) \<Longrightarrow> owners_ok (run (intent_step env o1 db) ms w)"
proof (induction ms rule: rev_induct)
  case (snoc m ms)
  then show ?case using step_owners_ok step_evidenced by (fastforce simp: run_append)
qed simp

lemma run_legal:
  assumes "world_ok env o1 w" "owners_ok w" "list_all evidenced (iw_calls (run (intent_step env o1 db) (ms @ [m]) w))"
  shows "legal (iw_table (run (intent_step env o1 db) ms w)) (iw_table (run (intent_step env o1 db) (ms @ [m]) w))"
  using assms world.run_inv run_owners_ok step_legal step_evidenced by (fastforce simp: run_append)

end

section \<open>Rows keyed by id\<close>

definition row_find :: "string \<Rightarrow> (string, ApprovalIntent) jsmap \<Rightarrow> ApprovalIntent option" where
  "row_find j t = map_option (\<lambda>x. x\<lparr>ai_id := j\<rparr>) (map_get t j)"

definition row_proposed :: "string \<Rightarrow> (string, ApprovalIntent) jsmap \<Rightarrow> bool" where
  "row_proposed j t \<longleftrightarrow> map_option ai_status (map_get t j) = Some PROPOSED"

definition rows_db :: "(string, ApprovalIntent) jsmap intent_repo" where
  "rows_db =
     \<lparr>ir_find = row_find,
      ir_findProposed = (\<lambda>fp t.
        (case filter (\<lambda>j. row_proposed j t \<and> map_option ai_fingerprint (map_get t j) = Some fp) (map_keys t) of
           [] \<Rightarrow> None | j # _ \<Rightarrow> row_find j t)),
      ir_put = (\<lambda>x t. map_set (ai_id x) x t),
      ir_updateProposed = (\<lambda>j f t.
        (case row_find j t of
           None \<Rightarrow> (0, t)
         | Some x \<Rightarrow> if ai_status x = PROPOSED then (1, map_set j (f x) t) else (0, t))),
      ir_updateDue = (\<lambda>now f t.
        (length (filter (\<lambda>(j, x). ai_status x = PROPOSED \<and> ai_expiresAt x < now) t),
         map (\<lambda>(j, x). (j, if ai_status x = PROPOSED \<and> ai_expiresAt x < now then f (x\<lparr>ai_id := j\<rparr>) else x)) t))\<rparr>"

lemma same_id: "(x :: ApprovalIntent)\<lparr>ai_id := ai_id x\<rparr> = x"
  by simp

lemma keep_id: "ai_id x = j \<Longrightarrow> (x :: ApprovalIntent)\<lparr>ai_id := j\<rparr> = x"
  by (erule subst) (rule same_id)

lemma row_find_set:
  assumes "ai_id x = j"
  shows "row_find k (map_set j x t) = (if k = j then Some x else row_find k t)"
proof -
  have "x\<lparr>ai_id := j\<rparr> = x" using assms by (rule keep_id)
  then show ?thesis by (simp add: row_find_def map_get_set)
qed

lemma row_find_id: "row_find j t = Some x \<Longrightarrow> ai_id x = j"
  by (auto simp: row_find_def)

lemma map_of_patched: "map_of (map (\<lambda>(j, x). (j, g j x)) t) k = map_option (g k) (map_of t k)"
  by (induction t) auto

lemma rows_find [simp]: "ir_find rows_db = row_find"
  by (simp add: rows_db_def)

interpretation rows: intent_table rows_db
proof unfold_locales
  fix j k :: string and t and x and fp :: string and now :: int and f :: "ApprovalIntent \<Rightarrow> ApprovalIntent"
  show "ir_find rows_db j t = Some x \<Longrightarrow> ai_id x = j" by (simp add: rows_db_def row_find_id)
  show "ir_find rows_db j (ir_put rows_db x t) = (if j = ai_id x then Some x else ir_find rows_db j t)"
    unfolding rows_db_def by (simp add: row_find_set)
  show "fst (ir_updateProposed rows_db j f t) =
      (case ir_find rows_db j t of None \<Rightarrow> 0 | Some x \<Rightarrow> if ai_status x = PROPOSED then 1 else 0)"
    by (auto simp: rows_db_def split: option.splits)
  show "ir_find rows_db k (snd (ir_updateProposed rows_db j f t)) = map_option (patch_if (k = j) f) (ir_find rows_db k t)"
    if "\<And>x. ai_id (f x) = ai_id x"
  proof (cases "row_find j t")
    case None
    then show ?thesis by (cases "k = j") (auto simp: rows_db_def option.map_ident_strong)
  next
    case (Some y)
    then have "ai_id (f y) = j" using that row_find_id by simp
    then show ?thesis using Some by (cases "k = j") (auto simp: rows_db_def row_find_set option.map_ident_strong)
  qed
  show "ir_find rows_db k (snd (ir_updateDue rows_db now f t)) = map_option (\<lambda>x. patch_if (ai_expiresAt x < now) f x) (ir_find rows_db k t)"
    if "\<And>x. ai_id (f x) = ai_id x"
  proof (cases "map_get t k")
    case (Some y)
    define z where "z = y\<lparr>ai_id := k\<rparr>"
    have "(f z)\<lparr>ai_id := k\<rparr> = f z" by (rule keep_id) (simp add: that z_def)
    moreover have "ir_find rows_db k (snd (ir_updateDue rows_db now f t)) =
        Some ((if ai_status y = PROPOSED \<and> ai_expiresAt y < now then f z else y)\<lparr>ai_id := k\<rparr>)"
      using Some by (simp add: rows_db_def row_find_def map_of_patched z_def)
    moreover have "ir_find rows_db k t = Some z" using Some by (simp add: rows_db_def row_find_def z_def)
    moreover have "ai_status z = ai_status y" "ai_expiresAt z = ai_expiresAt y" "y\<lparr>ai_id := k\<rparr> = z" by (simp_all add: z_def)
    ultimately show ?thesis by simp
  qed (simp add: rows_db_def row_find_def map_of_patched)
  show "ir_findProposed rows_db fp t = Some x \<Longrightarrow> ai_fingerprint x = fp \<and> ai_status x = PROPOSED \<and> ir_find rows_db (ai_id x) t = Some x"
    by (auto simp: rows_db_def row_find_def row_proposed_def filter_eq_Cons_iff split: list.splits)
  show "ai_status x \<noteq> PROPOSED" if none: "ir_findProposed rows_db fp t = None"
    and row: "ir_find rows_db j t = Some x" and fp: "ai_fingerprint x = fp"
  proof
    assume p: "ai_status x = PROPOSED"
    obtain y where y: "map_get t j = Some y" "x = y\<lparr>ai_id := j\<rparr>" using row by (auto simp: rows_db_def row_find_def)
    from y(1) have j: "j \<in> set (map_keys t)" by (force dest: map_of_SomeD)
    let ?P = "\<lambda>k. row_proposed k t \<and> map_option ai_fingerprint (map_get t k) = Some fp"
    have "filter ?P (map_keys t) \<noteq> []" using y j p fp by (auto simp: row_proposed_def filter_empty_conv)
    then obtain k ks where ks: "filter ?P (map_keys t) = k # ks" by (cases "filter ?P (map_keys t)") auto
    then have "k \<in> set (filter ?P (map_keys t))" by (simp only: list.set_intros)
    then have "?P k" by (simp only: set_filter mem_Collect_eq)
    then show False using none ks by (auto simp: rows_db_def row_find_def)
  qed
qed

definition idle :: "(string, ApprovalIntent) jsmap intent_world" where
  "idle = \<lparr>iw_calls = [], iw_table = [], iw_runs = []\<rparr>"

abbreviation intents_after ::
  "intent_env \<Rightarrow> ApprovalIntentOptions \<Rightarrow> intent_move list \<Rightarrow> (string, ApprovalIntent) jsmap intent_world" where
  "intents_after env o1 ms \<equiv> run (intent_step env o1 rows_db) ms idle"

lemma idle_ok: "rows.world_ok env o1 idle" "rows.owners_ok idle"
  by (simp_all add: rows.world_ok_def rows.rows_ok_def rows.owners_ok_def idle_def row_find_def)

lemmas after_ok = rows.world.run_inv[OF idle_ok(1)]

text \<open>A proposal, executed by an administrator.\<close>

definition sample_env :: intent_env where
  "sample_env = \<lparr>ie_sha = (\<lambda>s. ''aa''), ie_hmac = (\<lambda>s. ''0f''), ie_keySet = True, ie_iso = show_int\<rparr>"

definition sample_options :: ApprovalIntentOptions where
  "sample_options = \<lparr>op_defaultTtlSeconds = None, op_maxTtlSeconds = None\<rparr>"

definition sample_request :: ProposeIntentInput where
  "sample_request = \<lparr>pi_action = ''access.role.assigned'',
     pi_actor = \<lparr>ac_id = ''m1'', ac_role = Some ''MAINTAINER'', ac_type = None, ac_ipAddress = None, ac_userAgent = None\<rparr>,
     pi_resourceType = ''user'', pi_resourceId = ''u7'', pi_reason = Some ''ticket 12'', pi_payload = None,
     pi_approverId = None, pi_metadata = None, pi_ttlSeconds = None\<rparr>"

definition sample_executor :: IntentExecutor where
  "sample_executor = \<lparr>ex_id = ''a1'', ex_role = Some ''admin''\<rparr>"

definition sample_proposal :: "intent_move list" where
  "sample_proposal = [Begin (Do_propose sample_request), Continue 0 Ok 1000 [], Continue 0 Ok 1001 ''i1'']"

definition sample_execution :: "intent_move list" where
  "sample_execution = [Begin (Do_execute ''i1'' sample_executor), Continue 1 Ok 2000 [], Continue 1 Ok 2001 []]"

definition sample_finish :: "intent_move list" where
  "sample_finish = [Continue 1 Ok 2002 [], Continue 1 Ok 2003 []]"

lemma executor_admitted:
  assumes "assertExecutorAllowed x e = Inr ()" "ai_approverId x = Some (ai_actorId x) \<longrightarrow> ai_approverId x = Some []"
  shows "case ai_approverId x of
      Some (a # as) \<Rightarrow> ex_id e = a # as \<and> a # as \<noteq> ai_actorId x
    | _ \<Rightarrow> map_option toUpperCase (ex_role e) \<in> {Some ''ADMIN'', Some ''MAINTAINER''}"
proof (cases "ai_approverId x")
  case None
  then show ?thesis using assms(1)
    by (auto simp: assertExecutorAllowed_def APPROVAL_INTENT_EXECUTOR_ROLES_def split: if_splits option.splits)
next
  case (Some a)
  then show ?thesis using assms
    by (cases a) (auto simp: assertExecutorAllowed_def APPROVAL_INTENT_EXECUTOR_ROLES_def split: if_splits option.splits)
qed

section \<open>Properties\<close>

text \<open>C5.
  Exactly-once execution.  However proposals, executions, cancellations, expiries and sweeps interleave,
  and whatever replies fail or are lost on the way, the operation behind an intent is started at most
  once, and from then on its row is no longer \<open>proposed\<close>.
\<close>
theorem intent_runs_at_most_once:
  "let w = intents_after env o1 ms in
   distinct (map (ai_id \<circ> run_intent) (iw_runs w)) \<and>
   list_all (\<lambda>rn. \<exists>x. row_find (ai_id (run_intent rn)) (iw_table w) = Some x \<and> ai_status x \<noteq> PROPOSED) (iw_runs w)"
  using after_ok[of env o1 ms] by (simp add: rows.world_ok_def rows.settled_def Let_def)


text \<open>C24.
  Every row that says it was executed carries a receipt that verifies: the stored document hashes to
  the stored hash, the signature is the signature of that hash, and the document names this intent, its
  outcome, its action, its actor and its fingerprint.
\<close>
theorem executed_intents_have_receipts:
  assumes "row_find j (iw_table (intents_after env o1 ms)) = Some x" "ai_status x \<in> {COMPLETED, FAILED}"
  shows "\<exists>rc v. ai_receipt x = Some rc \<and> verify_intent env x = Inr v \<and> rv_valid (sv_verification v) \<and> rv_errors (sv_verification v) = [] \<and>
    rc_intentId rc = j \<and> rc_status rc = ai_status x \<and> rc_action rc = ai_action x \<and> rc_actorId rc = ai_actorId x \<and>
    rc_fingerprint rc = ai_fingerprint x"
proof -
  have "receipt_valid env x"
    using after_ok[of env o1 ms] assms by (auto simp: rows.world_ok_def rows.rows_ok_def row_ok_def)
  moreover have "rv_errors v = []" if "verifyReceipt env rc i = Inr v" "rv_valid v" for rc i v
    using that by (auto simp: verifyReceipt_def Let_def split: sum.splits)
  ultimately show ?thesis using row_find_id[OF assms(1)]
    by (auto simp: receipt_valid_def verify_intent_def split: option.splits sum.splits)
qed

lemma sample_executed:
  "map_option ai_status (row_find ''i1'' (iw_table (intents_after sample_env sample_options (sample_proposal @ sample_execution @ sample_finish))))
     = Some COMPLETED"
  by code_simp

theorem executed_intents_have_receipts_witness:
  "\<exists>x rc v. row_find ''i1'' (iw_table (intents_after sample_env sample_options (sample_proposal @ sample_execution @ sample_finish))) = Some x \<and>
     ai_receipt x = Some rc \<and> verify_intent sample_env x = Inr v \<and> rv_valid (sv_verification v) \<and> rc_status rc = COMPLETED"
proof -
  obtain x where x: "row_find ''i1'' (iw_table (intents_after sample_env sample_options (sample_proposal @ sample_execution @ sample_finish))) = Some x"
    "ai_status x = COMPLETED" using sample_executed by blast
  show ?thesis using executed_intents_have_receipts[OF x(1)] x by auto
qed

text \<open>C28.
  While no proposal is withdrawn for want of evidence, every row moves only along the declared
  transitions: a new row is \<open>proposed\<close>, a row is never deleted, and a terminal row never changes again.
\<close>
theorem intent_status_changes_allowed:
  assumes "list_all evidenced (iw_calls (intents_after env o1 (ms @ [m])))"
  shows "status_step (map_option ai_status (row_find j (iw_table (intents_after env o1 ms))))
    (map_option ai_status (row_find j (iw_table (intents_after env o1 (ms @ [m])))))"
  using rows.run_legal[OF idle_ok assms] by (simp add: rows.legal_def)

lemma sample_evidenced:
  "list_all evidenced (iw_calls (intents_after sample_env sample_options ((sample_proposal @ sample_execution) @ [Continue 1 Ok 2002 []])))"
  by code_simp

theorem intent_status_changes_allowed_witness:
  "status_step (map_option ai_status (row_find ''i1'' (iw_table (intents_after sample_env sample_options (sample_proposal @ sample_execution)))))
    (map_option ai_status (row_find ''i1'' (iw_table (intents_after sample_env sample_options ((sample_proposal @ sample_execution) @ [Continue 1 Ok 2002 []])))))"
  by (rule intent_status_changes_allowed[OF sample_evidenced])

text \<open>C39.
  The withdrawal is not such a move.  An intent can be executed as soon as its row is saved, before its
  evidence is; when the evidence then fails, \<open>propose\<close> saves the row as \<open>cancelled\<close> whatever state it
  is in, and answers that the intent was not proposed, while its operation is running; the execution
  then turns the cancelled row into a completed one.
\<close>
theorem withdrawal_overwrites_execution:
  "let withdrawn = sample_proposal @ sample_execution @ [Continue 0 (Fail ''audit down'') 2002 [], Continue 0 Ok 2003 []];
       status = (\<lambda>ms. map_option ai_status (row_find ''i1'' (iw_table (intents_after sample_env sample_options ms))))
   in status (sample_proposal @ sample_execution) = Some EXECUTING \<and>
      status withdrawn = Some CANCELLED \<and>
      iw_calls (intents_after sample_env sample_options withdrawn) ! 0 = Ended (Inl (ServiceUnavailableException UNEVIDENCED)) \<and>
      status (withdrawn @ sample_finish) = Some COMPLETED \<and> COMPLETED \<notin> set (ALLOWED_TRANSITIONS CANCELLED)"
  by code_simp

text \<open>
  A proposal whose commitment is that of a row still \<open>proposed\<close> is refused as a conflict that names
  such a row, and leaves the table as it was.
\<close>
theorem standing_proposal_refused:
  assumes "propose env request = Prop_find request reason fp" "row_find j t = Some x" "ai_status x = PROPOSED"
    "approvalIntentFingerprint env (row_commitment x) = Inr (ai_fingerprint x)" "row_commitment x = commitment_of request reason"
  shows "\<exists>k y. row_find k t = Some y \<and> ai_status y = PROPOSED \<and> ai_fingerprint y = fp \<and>
    intent_advance env o1 rows_db Ok now newId (propose env request) t =
      (Ended (Inl (ConflictException (''An identical intent is already proposed as '' @ k @ ''; execute or cancel it before proposing another''))), t)"
proof -
  have fp: "ai_fingerprint x = fp" using propose_call_ok[of env o1 request] assms(1,4,5) by simp
  then obtain y where y: "ir_findProposed rows_db fp t = Some y"
    using rows.findProposed_None[of fp t j x] assms(2,3) by (cases "ir_findProposed rows_db fp t") auto
  then show ?thesis using rows.findProposed_Some[OF y] assms(1) by (auto simp: after_find_def)
qed

definition sample_row :: ApprovalIntent where
  "sample_row = (case row_find ''i1'' (iw_table (intents_after sample_env sample_options sample_proposal)) of Some x \<Rightarrow> x)"

theorem standing_proposal_refused_witness:
  "\<exists>k y. row_find k [(''i1'', sample_row)] = Some y \<and> ai_status y = PROPOSED \<and> ai_fingerprint y = ''aa'' \<and>
    intent_advance sample_env sample_options rows_db Ok 5 ''i2'' (propose sample_env sample_request) [(''i1'', sample_row)] =
      (Ended (Inl (ConflictException (''An identical intent is already proposed as '' @ k @ ''; execute or cancel it before proposing another''))), [(''i1'', sample_row)])"
proof (rule standing_proposal_refused)
  show "propose sample_env sample_request = Prop_find sample_request ''ticket 12'' ''aa''" by code_simp
  show "row_find ''i1'' [(''i1'', sample_row)] = Some sample_row" by code_simp
  show "ai_status sample_row = PROPOSED" by code_simp
  show "approvalIntentFingerprint sample_env (row_commitment sample_row) = Inr (ai_fingerprint sample_row)" by code_simp
  show "row_commitment sample_row = commitment_of sample_request ''ticket 12''" by code_simp
qed

text \<open>
  That holds only when the lookup sees the other proposal: of two identical proposals that look before
  either saves, both are stored, and both rows are executable.
\<close>
theorem identical_proposals_race:
  "let w = intents_after sample_env sample_options
         [Begin (Do_propose sample_request), Begin (Do_propose sample_request), Continue 0 Ok 1 [], Continue 1 Ok 1 [],
          Continue 0 Ok 2 ''i1'', Continue 1 Ok 2 ''i2'', Continue 0 Ok 3 [], Continue 1 Ok 3 []]
   in map (\<lambda>j. map_option (\<lambda>x. (ai_status x, row_commitment x)) (row_find j (iw_table w))) [''i1'', ''i2'']
        = replicate 2 (Some (PROPOSED, commitment_of sample_request ''ticket 12''))"
  by code_simp

end
