(* ===== verification/Redlock.thy ===== *)
theory Redlock
  imports Trellis_Prelude
begin

text \<open>
  Distributed locks, \<open>src/infrastructure/distributed-lock/\<close>: the Redlock manager (\<open>redlock.ts\<close>) and the
  decorator that runs a method under a lock and keeps it extended (\<open>distributed-lock.decorator.ts\<close>).

  A lock is taken by sending \<open>SET NX PX\<close> to every Redis node and counting the votes that come back.  Each
  request to a node is a message that arrives at any later time, also after its sender stopped waiting; its answer
  may be lost.  Time is milliseconds on one line.  A node drops a key when its time to live is over on the
  node's own clock, which may run fast by as much as the drift the manager allows for.  Tokens come from the
  random source; the properties take them to be different.
\<close>

section \<open>Nodes\<close>

record lock_entry =
  en_token :: string
  en_until :: int
  en_ttl :: int

type_synonym node = "(string, lock_entry) jsmap"

datatype node_op =
    Set_nx string string int
  | Release_script string string
  | Extend_script string string int

fun op_token :: "node_op \<Rightarrow> string" where
  "op_token (Set_nx _ t _) = t"
| "op_token (Release_script _ t) = t"
| "op_token (Extend_script _ t _) = t"

definition holds_token :: "node \<Rightarrow> string \<Rightarrow> string \<Rightarrow> bool" where
  "holds_token n key token \<longleftrightarrow> map_option en_token (map_get n key) = Some token"

text \<open>What a node does with a request, and whether it counts as a vote.\<close>

fun node_do :: "int \<Rightarrow> node_op \<Rightarrow> node \<Rightarrow> bool \<times> node" where
  "node_do now (Set_nx key token ttl) n =
     (if map_get n key = None then (True, map_set key \<lparr>en_token = token, en_until = now + ttl, en_ttl = ttl\<rparr> n) else (False, n))"
| "node_do now (Release_script key token) n =
     (if holds_token n key token then (True, map_delete key n) else (True, n))"
| "node_do now (Extend_script key token ttl) n =
     (if holds_token n key token then (True, map_set key \<lparr>en_token = token, en_until = now + ttl, en_ttl = ttl\<rparr> n) else (False, n))"

section \<open>The manager\<close>

record RedlockOptions =
  ro_drift_num :: int \<comment> \<open>\<open>driftFactor\<close> is a fraction\<close>
  ro_drift_den :: int

definition DEFAULTS :: RedlockOptions where
  "DEFAULTS = \<lparr>ro_drift_num = 1, ro_drift_den = 100\<rparr>"

definition drift :: "RedlockOptions \<Rightarrow> int \<Rightarrow> int" where
  "drift o1 ttl = (ttl * ro_drift_num o1) div ro_drift_den o1 + 2"

definition quorum :: "'a list \<Rightarrow> nat" where
  "quorum nodes = length nodes div 2 + 1"

text \<open>
  Where a run of a decorated method stands.  \<open>Trying\<close> waits for the votes of one attempt; \<open>Undoing\<close> has
  withdrawn it; \<open>Running\<close> holds a lock, with the nodes that voted for its expiry and the extensions
  that are in flight.
\<close>

datatype wave = Wave int int "nat list" \<comment> \<open>start, time to live, votes\<close>

datatype phase =
    Trying nat string int "nat list" \<comment> \<open>attempts left, token, start, votes\<close>
  | Undoing nat
  | Running string int "nat list" nat "(nat, wave) jsmap" \<comment> \<open>token, expiry, its voters, next number, extensions\<close>
  | Releasing
  | Done bool \<comment> \<open>whether the method ran\<close>

record lock_run =
  lr_key :: string
  lr_ttl :: int
  lr_phase :: phase

datatype reply_to = To_attempt nat | To_extension nat nat | To_nobody

record lock_message =
  ms_node :: nat
  ms_op :: node_op
  ms_reply :: reply_to

record lock_world =
  lw_now :: int
  lw_nodes :: "node list"
  lw_runs :: "lock_run list"
  lw_messages :: "lock_message list"

definition onAllNodes :: "node_op \<Rightarrow> reply_to \<Rightarrow> lock_world \<Rightarrow> lock_world" where
  "onAllNodes opn to w = w\<lparr>lw_messages := lw_messages w @
     map (\<lambda>n. \<lparr>ms_node = n, ms_op = opn, ms_reply = to\<rparr>) [0..<length (lw_nodes w)]\<rparr>"

definition set_phase :: "nat \<Rightarrow> phase \<Rightarrow> lock_world \<Rightarrow> lock_world" where
  "set_phase i p w = w\<lparr>lw_runs := (lw_runs w)[i := (lw_runs w ! i)\<lparr>lr_phase := p\<rparr>]\<rparr>"

definition attempt :: "nat \<Rightarrow> nat \<Rightarrow> string \<Rightarrow> lock_world \<Rightarrow> lock_world" where
  "attempt i retries token w =
     onAllNodes (Set_nx (lr_key (lw_runs w ! i)) token (lr_ttl (lw_runs w ! i))) (To_attempt i)
       (set_phase i (Trying retries token (lw_now w) []) w)"

text \<open>All the votes of an attempt that will come have come.\<close>

definition conclude_attempt :: "RedlockOptions \<Rightarrow> nat \<Rightarrow> lock_world \<Rightarrow> lock_world" where
  "conclude_attempt o1 i w =
     (let r = lw_runs w ! i in
      case lr_phase r of
        Trying retries token start votes \<Rightarrow>
          let expiresAt = start + lr_ttl r - drift o1 (lr_ttl r) in
          if length votes \<ge> quorum (lw_nodes w) \<and> lw_now w < expiresAt
          then set_phase i (Running token expiresAt votes 0 []) w
          else onAllNodes (Release_script (lr_key r) token) To_nobody (set_phase i (Undoing retries) w)
      | _ \<Rightarrow> w)"

definition retry :: "nat \<Rightarrow> string \<Rightarrow> lock_world \<Rightarrow> lock_world" where
  "retry i token w =
     (case lr_phase (lw_runs w ! i) of
        Undoing 0 \<Rightarrow> set_phase i (Done False) w
      | Undoing (Suc n) \<Rightarrow> attempt i n token w
      | _ \<Rightarrow> w)"

definition extend :: "nat \<Rightarrow> int \<Rightarrow> lock_world \<Rightarrow> lock_world" where
  "extend i ttl w =
     (case lr_phase (lw_runs w ! i) of
        Running token expiresAt holders n waves \<Rightarrow>
          onAllNodes (Extend_script (lr_key (lw_runs w ! i)) token ttl) (To_extension i n)
            (set_phase i (Running token expiresAt holders (Suc n) (map_set n (Wave (lw_now w) ttl []) waves)) w)
      | _ \<Rightarrow> w)"

definition conclude_extension :: "RedlockOptions \<Rightarrow> nat \<Rightarrow> nat \<Rightarrow> lock_world \<Rightarrow> lock_world" where
  "conclude_extension o1 i k w =
     (case lr_phase (lw_runs w ! i) of
        Running token expiresAt holders n waves \<Rightarrow>
          (case map_get waves k of
             None \<Rightarrow> w
           | Some (Wave start ttl votes) \<Rightarrow>
               let expiresAt' = start + ttl - drift o1 ttl in
               if length votes \<ge> quorum (lw_nodes w) \<and> lw_now w < expiresAt'
               then set_phase i (Running token expiresAt' votes n (map_delete k waves)) w
               else set_phase i (Running token expiresAt holders n (map_delete k waves)) w)
      | _ \<Rightarrow> w)"

definition release :: "nat \<Rightarrow> lock_world \<Rightarrow> lock_world" where
  "release i w =
     (case lr_phase (lw_runs w ! i) of
        Running token expiresAt holders n waves \<Rightarrow>
          onAllNodes (Release_script (lr_key (lw_runs w ! i)) token) To_nobody (set_phase i Releasing w)
      | _ \<Rightarrow> w)"

definition vote :: "nat \<Rightarrow> string \<Rightarrow> reply_to \<Rightarrow> lock_world \<Rightarrow> lock_world" where
  "vote n token to w =
     (case to of
        To_nobody \<Rightarrow> w
      | To_attempt i \<Rightarrow>
          (case lr_phase (lw_runs w ! i) of
             Trying retries token' start votes \<Rightarrow>
               if token' = token then set_phase i (Trying retries token start (set_add n votes)) w else w
           | _ \<Rightarrow> w)
      | To_extension i k \<Rightarrow>
          (case lr_phase (lw_runs w ! i) of
             Running token' expiresAt holders m waves \<Rightarrow>
               (case map_get waves k of
                  Some (Wave start ttl votes) \<Rightarrow>
                    if token' = token then set_phase i (Running token expiresAt holders m (map_set k (Wave start ttl (set_add n votes)) waves)) w
                    else w
                | None \<Rightarrow> w)
           | _ \<Rightarrow> w))"

section \<open>Runs\<close>

datatype lock_move =
    Start string int nat string \<comment> \<open>key, time to live, retries, token\<close>
  | Deliver nat bool \<comment> \<open>the message, and whether its answer is seen\<close>
  | Conclude nat
  | Retry nat string
  | Auto_extend nat
  | Direct_extend nat int
  | Conclude_extend nat nat
  | Settle nat
  | Finish nat
  | Expire nat string
  | Tick nat

definition deliver :: "nat \<Rightarrow> bool \<Rightarrow> lock_world \<Rightarrow> lock_world" where
  "deliver m seen w =
     (if m < length (lw_messages w) then
        let msg = lw_messages w ! m;
            (ok, node) = node_do (lw_now w) (ms_op msg) (lw_nodes w ! ms_node msg);
            w1 = w\<lparr>lw_messages := take m (lw_messages w) @ drop (Suc m) (lw_messages w),
                   lw_nodes := (lw_nodes w)[ms_node msg := node]\<rparr>
        in if ok \<and> seen then vote (ms_node msg) (op_token (ms_op msg)) (ms_reply msg) w1 else w1
      else w)"

definition expire :: "RedlockOptions \<Rightarrow> nat \<Rightarrow> string \<Rightarrow> lock_world \<Rightarrow> lock_world" where
  "expire o1 n key w =
     (if n < length (lw_nodes w) then
        case map_get (lw_nodes w ! n) key of
          Some e \<Rightarrow> if en_until e - drift o1 (en_ttl e) \<le> lw_now w
                    then w\<lparr>lw_nodes := (lw_nodes w)[n := map_delete key (lw_nodes w ! n)]\<rparr> else w
        | None \<Rightarrow> w
      else w)"

fun lock_step :: "RedlockOptions \<Rightarrow> lock_move \<Rightarrow> lock_world \<Rightarrow> lock_world" where
  "lock_step o1 (Start key ttl retries token) w =
     (if ttl \<le> 0 then w
      else attempt (length (lw_runs w)) retries token
        (w\<lparr>lw_runs := lw_runs w @ [\<lparr>lr_key = key, lr_ttl = ttl, lr_phase = Undoing retries\<rparr>]\<rparr>))"
| "lock_step o1 (Deliver m seen) w = deliver m seen w"
| "lock_step o1 (Conclude i) w = (if i < length (lw_runs w) then conclude_attempt o1 i w else w)"
| "lock_step o1 (Retry i token) w = (if i < length (lw_runs w) then retry i token w else w)"
| "lock_step o1 (Auto_extend i) w = (if i < length (lw_runs w) then extend i (lr_ttl (lw_runs w ! i)) w else w)"
| "lock_step o1 (Direct_extend i ttl) w = (if i < length (lw_runs w) then extend i ttl w else w)"
| "lock_step o1 (Conclude_extend i k) w = (if i < length (lw_runs w) then conclude_extension o1 i k w else w)"
| "lock_step o1 (Settle i) w = (if i < length (lw_runs w) then release i w else w)"
| "lock_step o1 (Finish i) w =
     (if i < length (lw_runs w) \<and> lr_phase (lw_runs w ! i) = Releasing then set_phase i (Done True) w else w)"
| "lock_step o1 (Expire n key) w = expire o1 n key w"
| "lock_step o1 (Tick d) w = w\<lparr>lw_now := lw_now w + int d\<rparr>"

definition isValid :: "int \<Rightarrow> lock_run \<Rightarrow> bool" where
  "isValid now r = (case lr_phase r of Running token expiresAt holders n waves \<Rightarrow> now < expiresAt | _ \<Rightarrow> False)"

definition valid_locks :: "string \<Rightarrow> lock_world \<Rightarrow> lock_run list" where
  "valid_locks key w = filter (\<lambda>r. lr_key r = key \<and> isValid (lw_now w) r) (lw_runs w)"

definition no_locks :: "nat \<Rightarrow> lock_world" where
  "no_locks n = \<lparr>lw_now = 0, lw_nodes = replicate n [], lw_runs = [], lw_messages = []\<rparr>"

fun drawn :: "lock_move \<Rightarrow> string list" where
  "drawn (Start key ttl retries token) = [token]"
| "drawn (Retry i token) = [token]"
| "drawn _ = []"

fun automatic :: "lock_move \<Rightarrow> bool" where
  "automatic (Direct_extend i ttl) = False"
| "automatic _ = True"

section \<open>What votes promise\<close>

fun token_of :: "phase \<Rightarrow> string option" where
  "token_of (Trying _ token _ _) = Some token"
| "token_of (Running token _ _ _ _) = Some token"
| "token_of _ = None"

abbreviation run_token :: "lock_run \<Rightarrow> string option" where
  "run_token r \<equiv> token_of (lr_phase r)"

text \<open>A node that voted keeps the key for the token at least until the expiry that was computed from the vote.\<close>

fun wave_owes :: "RedlockOptions \<Rightarrow> nat \<Rightarrow> int \<Rightarrow> wave \<Rightarrow> bool" where
  "wave_owes o1 n expiry (Wave start t votes) \<longleftrightarrow> n \<in> set votes \<and> expiry = start + t - drift o1 t"

fun wave_ok :: "int \<Rightarrow> int \<Rightarrow> wave \<Rightarrow> bool" where
  "wave_ok now ttl (Wave start t votes) \<longleftrightarrow> start \<le> now \<and> t = ttl \<and> distinct votes"

fun owes :: "RedlockOptions \<Rightarrow> int \<Rightarrow> phase \<Rightarrow> nat \<Rightarrow> int \<Rightarrow> bool" where
  "owes o1 ttl (Trying _ _ start votes) n expiry \<longleftrightarrow> n \<in> set votes \<and> expiry = start + ttl - drift o1 ttl"
| "owes o1 ttl (Running _ expiresAt holders _ waves) n expiry \<longleftrightarrow>
     n \<in> set holders \<and> expiry = expiresAt \<or>
     (\<exists>k wave. map_get waves k = Some wave \<and> wave_owes o1 n expiry wave)"
| "owes o1 ttl _ n expiry \<longleftrightarrow> False"

definition kept :: "RedlockOptions \<Rightarrow> int \<Rightarrow> node \<Rightarrow> string \<Rightarrow> string \<Rightarrow> int \<Rightarrow> bool" where
  "kept o1 now nd key token expiry \<longleftrightarrow>
     expiry \<le> now \<or> (\<exists>e. map_get nd key = Some e \<and> en_token e = token \<and> expiry \<le> en_until e - drift o1 (en_ttl e))"

fun phase_ok :: "int \<Rightarrow> int \<Rightarrow> nat \<Rightarrow> phase \<Rightarrow> bool" where
  "phase_ok now ttl q (Trying _ _ start votes) \<longleftrightarrow> start \<le> now \<and> distinct votes"
| "phase_ok now ttl q (Running _ _ holders _ waves) \<longleftrightarrow>
     distinct holders \<and> q \<le> length holders \<and>
     (\<forall>k wave. map_get waves k = Some wave \<longrightarrow> wave_ok now ttl wave)"
| "phase_ok now ttl q _ \<longleftrightarrow> True"

definition run_ok :: "RedlockOptions \<Rightarrow> int \<Rightarrow> node list \<Rightarrow> lock_run \<Rightarrow> bool" where
  "run_ok o1 now nodes r \<longleftrightarrow>
     phase_ok now (lr_ttl r) (quorum nodes) (lr_phase r) \<and>
     (\<forall>token n expiry. run_token r = Some token \<longrightarrow> owes o1 (lr_ttl r) (lr_phase r) n expiry \<longrightarrow>
        n < length nodes \<and> kept o1 now (nodes ! n) (lr_key r) token expiry \<and>
        expiry \<le> now + lr_ttl r - drift o1 (lr_ttl r))"

lemma run_okI:
  assumes "phase_ok now (lr_ttl r) (quorum nodes) (lr_phase r)"
    and "\<And>token n expiry. run_token r = Some token \<Longrightarrow> owes o1 (lr_ttl r) (lr_phase r) n expiry \<Longrightarrow>
      n < length nodes \<and> kept o1 now (nodes ! n) (lr_key r) token expiry \<and> expiry \<le> now + lr_ttl r - drift o1 (lr_ttl r)"
  shows "run_ok o1 now nodes r"
  using assms by (simp add: run_ok_def)

lemma run_ok_phase: "run_ok o1 now nodes r \<Longrightarrow> phase_ok now (lr_ttl r) (quorum nodes) (lr_phase r)"
  by (simp add: run_ok_def)

lemma phase_ok_later: "phase_ok now ttl q p \<Longrightarrow> now \<le> later \<Longrightarrow> phase_ok later ttl q p"
proof (cases p)
  case (Running token e hs m waves)
  have "wave_ok now ttl wave \<Longrightarrow> now \<le> later \<Longrightarrow> wave_ok later ttl wave" for wave by (cases wave) simp
  then show "phase_ok now ttl q p \<Longrightarrow> now \<le> later \<Longrightarrow> phase_ok later ttl q p" using Running by auto
qed auto

lemma run_okD:
  assumes "run_ok o1 now nodes r" "run_token r = Some token" "owes o1 (lr_ttl r) (lr_phase r) n expiry"
  shows "n < length nodes \<and> kept o1 now (nodes ! n) (lr_key r) token expiry \<and> expiry \<le> now + lr_ttl r - drift o1 (lr_ttl r)"
  using assms by (simp add: run_ok_def)

lemma run_ok_narrow:
  assumes "run_ok o1 now nodes r" "token_of p = run_token r" "phase_ok now (lr_ttl r) (quorum nodes) p"
    and "\<And>n expiry. owes o1 (lr_ttl r) p n expiry \<Longrightarrow> owes o1 (lr_ttl r) (lr_phase r) n expiry"
  shows "run_ok o1 now nodes (r\<lparr>lr_phase := p\<rparr>)"
proof (rule run_okI)
  fix token n expiry
  assume "run_token (r\<lparr>lr_phase := p\<rparr>) = Some token" "owes o1 (lr_ttl (r\<lparr>lr_phase := p\<rparr>)) (lr_phase (r\<lparr>lr_phase := p\<rparr>)) n expiry"
  then show "n < length nodes \<and> kept o1 now (nodes ! n) (lr_key (r\<lparr>lr_phase := p\<rparr>)) token expiry \<and>
      expiry \<le> now + lr_ttl (r\<lparr>lr_phase := p\<rparr>) - drift o1 (lr_ttl (r\<lparr>lr_phase := p\<rparr>))"
    using run_okD[OF assms(1), of token n expiry] assms(2,4) by simp
qed (use assms(3) in simp)

lemma run_ok_idle: "token_of p = None \<Longrightarrow> run_ok o1 now nodes (r\<lparr>lr_phase := p\<rparr>)"
  by (cases p) (auto simp: run_ok_def)

fun op_ok :: "lock_run list \<Rightarrow> node_op \<Rightarrow> bool" where
  "op_ok runs (Release_script key token) \<longleftrightarrow> (\<forall>r \<in> set runs. run_token r \<noteq> Some token)"
| "op_ok runs (Set_nx key token ttl) \<longleftrightarrow> (\<forall>r \<in> set runs. run_token r = Some token \<longrightarrow> lr_key r = key \<and> lr_ttl r = ttl)"
| "op_ok runs (Extend_script key token ttl) \<longleftrightarrow> (\<forall>r \<in> set runs. run_token r = Some token \<longrightarrow> lr_key r = key \<and> lr_ttl r = ttl)"

definition message_ok :: "string set \<Rightarrow> lock_world \<Rightarrow> lock_message \<Rightarrow> bool" where
  "message_ok used w m \<longleftrightarrow>
     ms_node m < length (lw_nodes w) \<and> op_token (ms_op m) \<in> used \<and> op_ok (lw_runs w) (ms_op m) \<and>
     ((\<exists>key token. ms_op m = Release_script key token) \<longrightarrow> ms_reply m = To_nobody)"

definition tokens_apart :: "lock_run list \<Rightarrow> bool" where
  "tokens_apart runs \<longleftrightarrow> (\<forall>i < length runs. \<forall>j < length runs. i \<noteq> j \<longrightarrow> run_token (runs ! i) \<noteq> None \<longrightarrow> run_token (runs ! i) \<noteq> run_token (runs ! j))"

definition lock_inv :: "RedlockOptions \<Rightarrow> string set \<Rightarrow> lock_world \<Rightarrow> bool" where
  "lock_inv o1 used w \<longleftrightarrow>
     (\<forall>r \<in> set (lw_runs w). run_ok o1 (lw_now w) (lw_nodes w) r) \<and>
     (\<forall>r \<in> set (lw_runs w). \<forall>token. run_token r = Some token \<longrightarrow> token \<in> used) \<and>
     tokens_apart (lw_runs w) \<and> (\<forall>m \<in> set (lw_messages w). message_ok used w m)"

lemma lock_invD:
  assumes "lock_inv o1 used w" "i < length (lw_runs w)"
  shows "run_ok o1 (lw_now w) (lw_nodes w) (lw_runs w ! i)" "run_token (lw_runs w ! i) = Some token \<Longrightarrow> token \<in> used"
  using assms by (auto simp: lock_inv_def)

lemma op_ok_mono:
  assumes "op_ok runs op" "\<And>r. r \<in> set runs' \<Longrightarrow> run_token r = Some (op_token op) \<Longrightarrow> \<exists>r0 \<in> set runs. run_token r0 = run_token r \<and> lr_key r0 = lr_key r \<and> lr_ttl r0 = lr_ttl r"
  shows "op_ok runs' op"
  using assms by (cases op) fastforce+

subsection \<open>Requests\<close>

lemma send_inv:
  assumes "lock_inv o1 used w" "op_token opn \<in> used" "op_ok (lw_runs w) opn"
    "(\<exists>key token. opn = Release_script key token) \<longrightarrow> to = To_nobody"
  shows "lock_inv o1 used (onAllNodes opn to w)"
  using assms by (auto simp: lock_inv_def onAllNodes_def message_ok_def)

subsection \<open>Phases\<close>

lemma set_phase_runs [simp]:
  "lw_now (set_phase i p w) = lw_now w" "lw_nodes (set_phase i p w) = lw_nodes w" "lw_messages (set_phase i p w) = lw_messages w"
  "length (lw_runs (set_phase i p w)) = length (lw_runs w)"
  "i < length (lw_runs w) \<Longrightarrow> lw_runs (set_phase i p w) ! i = (lw_runs w ! i)\<lparr>lr_phase := p\<rparr>"
  "j \<noteq> i \<Longrightarrow> lw_runs (set_phase i p w) ! j = lw_runs w ! j"
  by (simp_all add: set_phase_def)

lemma set_phase_set:
  "i < length (lw_runs w) \<Longrightarrow> r \<in> set (lw_runs (set_phase i p w)) \<Longrightarrow> r = (lw_runs w ! i)\<lparr>lr_phase := p\<rparr> \<or> (\<exists>j < length (lw_runs w). j \<noteq> i \<and> r = lw_runs w ! j)"
  by (auto simp: in_set_conv_nth nth_list_update set_phase_def split: if_splits)

lemma phase_inv:
  assumes inv: "lock_inv o1 used w" and i: "i < length (lw_runs w)"
    and tok: "token_of p = None \<or> token_of p = run_token (lw_runs w ! i)"
    and ok: "run_ok o1 (lw_now w) (lw_nodes w) ((lw_runs w ! i)\<lparr>lr_phase := p\<rparr>)"
  shows "lock_inv o1 used (set_phase i p w)"
proof -
  have tokj: "run_token (lw_runs (set_phase i p w) ! j) = None \<or> run_token (lw_runs (set_phase i p w) ! j) = run_token (lw_runs w ! j)" for j
    using tok i by (cases "j = i") auto
  have "tokens_apart (lw_runs (set_phase i p w))"
    using inv tokj unfolding lock_inv_def tokens_apart_def set_phase_runs(4) by metis
  moreover have "message_ok used (set_phase i p w) m" if "m \<in> set (lw_messages w)" for m
  proof -
    have "message_ok used w m" using inv that by (simp add: lock_inv_def)
    moreover have "op_ok (lw_runs (set_phase i p w)) (ms_op m)" if "op_ok (lw_runs w) (ms_op m)"
      using that
    proof (rule op_ok_mono)
      fix r assume "r \<in> set (lw_runs (set_phase i p w))" "run_token r = Some (op_token (ms_op m))"
      then show "\<exists>r0 \<in> set (lw_runs w). run_token r0 = run_token r \<and> lr_key r0 = lr_key r \<and> lr_ttl r0 = lr_ttl r"
        using set_phase_set[OF i] tok i by (fastforce intro: bexI[of _ "lw_runs w ! i"])
    qed
    ultimately show ?thesis by (simp add: message_ok_def)
  qed
  moreover have "run_ok o1 (lw_now w) (lw_nodes w) r \<and> (\<forall>token. run_token r = Some token \<longrightarrow> token \<in> used)"
    if "r \<in> set (lw_runs (set_phase i p w))" for r
    using set_phase_set[OF i that] ok tok lock_invD[OF inv] i by auto
  ultimately show ?thesis by (auto simp: lock_inv_def)
qed

lemma used_mono: "lock_inv o1 used w \<Longrightarrow> used \<subseteq> used' \<Longrightarrow> lock_inv o1 used' w"
  unfolding lock_inv_def message_ok_def by blast

lemma fresh_inv:
  assumes inv: "lock_inv o1 used w" and i: "i < length (lw_runs w)" and fresh: "token \<notin> used"
  shows "lock_inv o1 (insert token used) (set_phase i (Trying retries token (lw_now w) []) w)"
proof -
  let ?p = "Trying retries token (lw_now w) []"
  have old: "run_token (lw_runs w ! j) \<noteq> Some token" if "j < length (lw_runs w)" for j
    using lock_invD(2)[OF inv that] fresh by blast
  have "tokens_apart (lw_runs (set_phase i ?p w))"
    unfolding tokens_apart_def
  proof (intro allI impI)
    fix j k assume jk: "j < length (lw_runs (set_phase i ?p w))" "k < length (lw_runs (set_phase i ?p w))" "j \<noteq> k"
      "run_token (lw_runs (set_phase i ?p w) ! j) \<noteq> None"
    then show "run_token (lw_runs (set_phase i ?p w) ! j) \<noteq> run_token (lw_runs (set_phase i ?p w) ! k)"
      using inv old[of j] old[of k] i by (cases "j = i"; cases "k = i") (auto simp: lock_inv_def tokens_apart_def)
  qed
  moreover have "message_ok (insert token used) (set_phase i ?p w) m" if "m \<in> set (lw_messages w)" for m
  proof -
    have m: "message_ok used w m" using inv that by (simp add: lock_inv_def)
    then have "op_token (ms_op m) \<noteq> token" using fresh by (auto simp: message_ok_def)
    have "op_ok (lw_runs (set_phase i ?p w)) (ms_op m)"
    proof (rule op_ok_mono)
      show "op_ok (lw_runs w) (ms_op m)" using m by (simp add: message_ok_def)
      fix r assume "r \<in> set (lw_runs (set_phase i ?p w))" "run_token r = Some (op_token (ms_op m))"
      then show "\<exists>r0 \<in> set (lw_runs w). run_token r0 = run_token r \<and> lr_key r0 = lr_key r \<and> lr_ttl r0 = lr_ttl r"
        using set_phase_set[OF i] \<open>op_token (ms_op m) \<noteq> token\<close> by force
    qed
    then show ?thesis using m by (simp add: message_ok_def)
  qed
  moreover have "run_ok o1 (lw_now w) (lw_nodes w) r \<and> (\<forall>t. run_token r = Some t \<longrightarrow> t \<in> insert token used)"
    if "r \<in> set (lw_runs (set_phase i ?p w))" for r
  proof -
    have "run_ok o1 (lw_now w) (lw_nodes w) ((lw_runs w ! i)\<lparr>lr_phase := ?p\<rparr>)" by (simp add: run_ok_def)
    then show ?thesis using set_phase_set[OF i that] lock_invD[OF inv] by auto
  qed
  ultimately show ?thesis by (auto simp: lock_inv_def)
qed

lemma attempt_inv:
  assumes "lock_inv o1 used w" "i < length (lw_runs w)" "token \<notin> used"
  shows "lock_inv o1 (insert token used) (attempt i retries token w)"
  unfolding attempt_def
proof (rule send_inv[OF fresh_inv[OF assms]])
  have "run_token (lw_runs w ! j) \<noteq> Some token" if "j < length (lw_runs w)" for j
    using lock_invD(2)[OF assms(1) that] assms(3) by blast
  then show "op_ok (lw_runs (set_phase i (Trying retries token (lw_now w) []) w)) (Set_nx (lr_key (lw_runs w ! i)) token (lr_ttl (lw_runs w ! i)))"
    using set_phase_set[OF assms(2)] by fastforce
qed auto

subsection \<open>Nodes\<close>

lemma node_do_kept:
  assumes "kept o1 now nd key token expiry" "expiry \<le> now + ttl - drift o1 ttl"
    and "op_token opn = token \<Longrightarrow> (\<exists>k. opn = Set_nx k token ttl \<or> opn = Extend_script k token ttl)"
  shows "kept o1 now (snd (node_do now opn nd)) key token expiry"
proof (cases opn)
  case (Set_nx k t l)
  then show ?thesis using assms(1) by (auto simp: kept_def js_simps)
next
  case (Release_script k t)
  then have "t \<noteq> token" using assms(3) by auto
  then show ?thesis using assms(1) Release_script by (auto simp: kept_def js_simps holds_token_def)
next
  case (Extend_script k t l)
  then show ?thesis using assms by (auto simp: kept_def js_simps holds_token_def)
qed

lemma run_ok_nodes:
  assumes "run_ok o1 now nodes r" "length nodes' = length nodes"
    and "\<And>token n expiry. run_token r = Some token \<Longrightarrow> n < length nodes \<Longrightarrow> expiry \<le> now + lr_ttl r - drift o1 (lr_ttl r) \<Longrightarrow>
      kept o1 now (nodes ! n) (lr_key r) token expiry \<Longrightarrow> kept o1 now (nodes' ! n) (lr_key r) token expiry"
  shows "run_ok o1 now nodes' r"
  using assms unfolding run_ok_def quorum_def by auto

lemma op_ok_live:
  assumes "op_ok runs opn" "r \<in> set runs" "run_token r = Some (op_token opn)"
  shows "opn = Set_nx (lr_key r) (op_token opn) (lr_ttl r) \<or> opn = Extend_script (lr_key r) (op_token opn) (lr_ttl r)"
  using assms by (cases opn) auto

lemma nodes_inv:
  assumes "lock_inv o1 used w" "length nodes = length (lw_nodes w)" "set ms \<subseteq> set (lw_messages w)"
    and "\<And>r. r \<in> set (lw_runs w) \<Longrightarrow> run_ok o1 (lw_now w) nodes r"
  shows "lock_inv o1 used (w\<lparr>lw_messages := ms, lw_nodes := nodes\<rparr>)"
  using assms unfolding lock_inv_def message_ok_def by auto

lemma do_inv:
  assumes inv: "lock_inv o1 used w" and opn: "op_ok (lw_runs w) opn" and ms: "set ms \<subseteq> set (lw_messages w)"
  shows "lock_inv o1 used (w\<lparr>lw_messages := ms, lw_nodes := (lw_nodes w)[n := snd (node_do (lw_now w) opn (lw_nodes w ! n))]\<rparr>)"
proof (rule nodes_inv[OF inv _ ms])
  fix r assume r: "r \<in> set (lw_runs w)"
  show "run_ok o1 (lw_now w) ((lw_nodes w)[n := snd (node_do (lw_now w) opn (lw_nodes w ! n))]) r"
  proof (rule run_ok_nodes)
    show "run_ok o1 (lw_now w) (lw_nodes w) r" using inv r by (simp add: lock_inv_def)
    fix token k expiry
    assume t: "run_token r = Some token" and k: "k < length (lw_nodes w)"
      and e: "expiry \<le> lw_now w + lr_ttl r - drift o1 (lr_ttl r)" and kp: "kept o1 (lw_now w) (lw_nodes w ! k) (lr_key r) token expiry"
    have "\<exists>l. opn = Set_nx l token (lr_ttl r) \<or> opn = Extend_script l token (lr_ttl r)" if "op_token opn = token"
      using op_ok_live[OF opn r] t that by auto
    from node_do_kept[OF kp e this]
    show "kept o1 (lw_now w) ((lw_nodes w)[n := snd (node_do (lw_now w) opn (lw_nodes w ! n))] ! k) (lr_key r) token expiry"
      using kp k by (cases "k = n") auto
  qed simp
qed simp

lemma expire_inv: "lock_inv o1 used w \<Longrightarrow> lock_inv o1 used (expire o1 n key w)"
proof -
  assume inv: "lock_inv o1 used w"
  show ?thesis
  proof (cases "n < length (lw_nodes w) \<and> (\<exists>e. map_get (lw_nodes w ! n) key = Some e \<and> en_until e - drift o1 (en_ttl e) \<le> lw_now w)")
    case True
    then obtain e where e: "n < length (lw_nodes w)" "map_get (lw_nodes w ! n) key = Some e" "en_until e - drift o1 (en_ttl e) \<le> lw_now w" by auto
    let ?nodes = "(lw_nodes w)[n := map_delete key (lw_nodes w ! n)]"
    have "lock_inv o1 used (w\<lparr>lw_messages := lw_messages w, lw_nodes := ?nodes\<rparr>)"
    proof (rule nodes_inv[OF inv])
      fix r assume "r \<in> set (lw_runs w)"
      then have "run_ok o1 (lw_now w) (lw_nodes w) r" using inv by (simp add: lock_inv_def)
      then show "run_ok o1 (lw_now w) ?nodes r"
        by (rule run_ok_nodes) (use e in \<open>auto simp: kept_def nth_list_update js_simps\<close>)
    qed auto
    then show ?thesis using e by (simp add: expire_def)
  next
    case False
    then show ?thesis using inv by (auto simp: expire_def split: option.splits)
  qed
qed

lemma kept_later: "kept o1 now nd key token expiry \<Longrightarrow> now \<le> later \<Longrightarrow> kept o1 later nd key token expiry"
  by (auto simp: kept_def)

lemma tick_inv: "lock_inv o1 used w \<Longrightarrow> lock_inv o1 used (w\<lparr>lw_now := lw_now w + int d\<rparr>)"
proof -
  assume inv: "lock_inv o1 used w"
  have "run_ok o1 (lw_now w + int d) (lw_nodes w) r" if "r \<in> set (lw_runs w)" for r
  proof -
    have r: "run_ok o1 (lw_now w) (lw_nodes w) r" using inv that by (simp add: lock_inv_def)
    then have "phase_ok (lw_now w + int d) (lr_ttl r) (quorum (lw_nodes w)) (lr_phase r)"
      using phase_ok_later[OF run_ok_phase] by simp
    then show ?thesis by (intro run_okI) (auto intro: kept_later[of o1 "lw_now w"] dest!: run_okD[OF r])
  qed
  then show ?thesis using inv by (simp add: lock_inv_def message_ok_def)
qed

subsection \<open>Votes\<close>

definition granted :: "lock_world \<Rightarrow> nat \<Rightarrow> lock_run \<Rightarrow> string \<Rightarrow> bool" where
  "granted w n r token \<longleftrightarrow> n < length (lw_nodes w) \<and>
     map_get (lw_nodes w ! n) (lr_key r) = Some \<lparr>en_token = token, en_until = lw_now w + lr_ttl r, en_ttl = lr_ttl r\<rparr>"

lemma granted_kept:
  assumes "granted w n r token" "start \<le> lw_now w"
  shows "kept o1 (lw_now w) (lw_nodes w ! n) (lr_key r) token (start + lr_ttl r - drift o1 (lr_ttl r))"
  using assms by (auto simp: granted_def kept_def)

lemma extension_run_ok:
  assumes r: "run_ok o1 now nodes r" and p: "lr_phase r = Running token e hs m waves" and k: "map_get waves k = Some (Wave start ttl votes)"
    and n: "n < length nodes" and kp: "kept o1 now (nodes ! n) (lr_key r) token (start + ttl - drift o1 ttl)"
  shows "run_ok o1 now nodes (r\<lparr>lr_phase := Running token e hs m (map_set k (Wave start ttl (set_add n votes)) waves)\<rparr>)"
proof -
  have wave: "wave_ok now (lr_ttl r) wv" if "map_get waves j = Some wv" for j wv
    using run_ok_phase[OF r] that by (simp add: p)
  have ph: "phase_ok now (lr_ttl r) (quorum nodes) (Running token e hs m (map_set k (Wave start ttl (set_add n votes)) waves))"
    using run_ok_phase[OF r] wave[OF k] by (auto simp: p js_simps split: if_splits)
  have "j < length nodes \<and> kept o1 now (nodes ! j) (lr_key r) token expiry \<and> expiry \<le> now + lr_ttl r - drift o1 (lr_ttl r)"
    if ow: "owes o1 (lr_ttl r) (Running token e hs m (map_set k (Wave start ttl (set_add n votes)) waves)) j expiry" for j expiry
  proof -
    consider "owes o1 (lr_ttl r) (lr_phase r) j expiry" | "j = n" "expiry = start + ttl - drift o1 ttl"
      using ow k by (fastforce simp: p js_simps split: if_splits)
    then show ?thesis
    proof cases
      case 1
      then show ?thesis using run_okD[OF r _ 1] by (simp add: p)
    next
      case 2
      then show ?thesis using n kp wave[OF k] by simp
    qed
  qed
  with ph show ?thesis by (intro run_okI) auto
qed

lemma vote_inv:
  assumes inv: "lock_inv o1 used w"
    and grant: "\<And>i. i < length (lw_runs w) \<Longrightarrow> run_token (lw_runs w ! i) = Some token \<Longrightarrow> granted w n (lw_runs w ! i) token"
  shows "lock_inv o1 used (vote n token to w)"
proof -
  have attempt: "lock_inv o1 used (set_phase i (Trying retries token start (set_add n votes)) w)"
    if i: "i < length (lw_runs w)" and p: "lr_phase (lw_runs w ! i) = Trying retries token start votes" for i retries start votes
  proof (rule phase_inv[OF inv i])
    have r: "run_ok o1 (lw_now w) (lw_nodes w) (lw_runs w ! i)" using lock_invD(1)[OF inv i] .
    from run_ok_phase[OF r] have "start \<le> lw_now w" by (simp add: p)
    note g = granted_kept[OF grant[OF i] this, of o1]
    show "run_ok o1 (lw_now w) (lw_nodes w) ((lw_runs w ! i)\<lparr>lr_phase := Trying retries token start (set_add n votes)\<rparr>)"
    proof (rule run_okI)
      fix token' k expiry
      assume "run_token ((lw_runs w ! i)\<lparr>lr_phase := Trying retries token start (set_add n votes)\<rparr>) = Some token'"
        "owes o1 (lr_ttl ((lw_runs w ! i)\<lparr>lr_phase := Trying retries token start (set_add n votes)\<rparr>))
           (lr_phase ((lw_runs w ! i)\<lparr>lr_phase := Trying retries token start (set_add n votes)\<rparr>)) k expiry"
      then show "k < length (lw_nodes w) \<and> kept o1 (lw_now w) (lw_nodes w ! k) (lr_key ((lw_runs w ! i)\<lparr>lr_phase := Trying retries token start (set_add n votes)\<rparr>)) token' expiry \<and>
          expiry \<le> lw_now w + lr_ttl ((lw_runs w ! i)\<lparr>lr_phase := Trying retries token start (set_add n votes)\<rparr>) - drift o1 (lr_ttl ((lw_runs w ! i)\<lparr>lr_phase := Trying retries token start (set_add n votes)\<rparr>))"
        using run_okD[OF r] g grant[OF i] \<open>start \<le> lw_now w\<close> by (auto simp: p granted_def)
    qed (use run_ok_phase[OF r] in \<open>simp add: p\<close>)
  qed (simp add: p)
  have extension: "lock_inv o1 used (set_phase i (Running token e hs m (map_set k (Wave start ttl (set_add n votes)) waves)) w)"
    if i: "i < length (lw_runs w)" and p: "lr_phase (lw_runs w ! i) = Running token e hs m waves"
      and k: "map_get waves k = Some (Wave start ttl votes)" for i e hs m waves k start ttl votes
  proof (rule phase_inv[OF inv i])
    have r: "run_ok o1 (lw_now w) (lw_nodes w) (lw_runs w ! i)" using lock_invD(1)[OF inv i] .
    have st: "start \<le> lw_now w" "ttl = lr_ttl (lw_runs w ! i)" "distinct votes" using run_ok_phase[OF r] k by (auto simp: p dest!: spec[of _ k])
    note g = granted_kept[OF grant[OF i] st(1), of o1]
    show "run_ok o1 (lw_now w) (lw_nodes w) ((lw_runs w ! i)\<lparr>lr_phase := Running token e hs m (map_set k (Wave start ttl (set_add n votes)) waves)\<rparr>)"
    proof (rule extension_run_ok[OF r p k])
      show "n < length (lw_nodes w)" using grant[OF i] by (simp add: p granted_def)
      show "kept o1 (lw_now w) (lw_nodes w ! n) (lr_key (lw_runs w ! i)) token (start + ttl - drift o1 ttl)" using g p st by simp
    qed
  qed (simp add: p)
  show ?thesis
  proof (cases to)
    case (To_attempt i)
    then show ?thesis using inv attempt by (cases "i < length (lw_runs w)")
      (auto simp: vote_def set_phase_def list_update_beyond split: phase.splits)
  next
    case (To_extension i k)
    then show ?thesis using inv extension by (cases "i < length (lw_runs w)")
      (auto simp: vote_def set_phase_def list_update_beyond split: phase.splits option.splits wave.splits)
  qed (simp add: vote_def inv)
qed

lemma node_do_grants:
  assumes "fst (node_do now opn nd)" "opn = Set_nx key token ttl \<or> opn = Extend_script key token ttl"
  shows "map_get (snd (node_do now opn nd)) key = Some \<lparr>en_token = token, en_until = now + ttl, en_ttl = ttl\<rparr>"
  using assms by (auto simp: js_simps split: if_splits)

lemma deliver_inv:
  assumes inv: "lock_inv o1 used w"
  shows "lock_inv o1 used (deliver m seen w)"
proof (cases "m < length (lw_messages w)")
  case True
  let ?msg = "lw_messages w ! m"
  let ?n = "ms_node ?msg" and ?ms = "take m (lw_messages w) @ drop (Suc m) (lw_messages w)"
  obtain ok nd where d: "node_do (lw_now w) (ms_op ?msg) (lw_nodes w ! ?n) = (ok, nd)" by fastforce
  define w1 where "w1 = w\<lparr>lw_messages := ?ms, lw_nodes := (lw_nodes w)[?n := nd]\<rparr>"
  have msg: "message_ok used w ?msg" using inv True by (simp add: lock_inv_def)
  have "set ?ms \<subseteq> set (lw_messages w)" by (auto dest: in_set_takeD in_set_dropD)
  from do_inv[OF inv _ this, of "ms_op ?msg" ?n] msg d have inv1: "lock_inv o1 used w1"
    by (simp add: message_ok_def w1_def)
  have runs: "lw_runs w1 = lw_runs w" "lw_now w1 = lw_now w" by (simp_all add: w1_def)
  have "lock_inv o1 used (vote ?n (op_token (ms_op ?msg)) (ms_reply ?msg) w1)" if ok
  proof (rule vote_inv[OF inv1])
    fix i assume i: "i < length (lw_runs w1)" "run_token (lw_runs w1 ! i) = Some (op_token (ms_op ?msg))"
    have "op_ok (lw_runs w) (ms_op ?msg)" "?n < length (lw_nodes w)" using msg by (auto simp: message_ok_def)
    from op_ok_live[OF this(1), of "lw_runs w ! i"] i
    have "ms_op ?msg = Set_nx (lr_key (lw_runs w ! i)) (op_token (ms_op ?msg)) (lr_ttl (lw_runs w ! i)) \<or>
        ms_op ?msg = Extend_script (lr_key (lw_runs w ! i)) (op_token (ms_op ?msg)) (lr_ttl (lw_runs w ! i))"
      by (auto simp: runs)
    from node_do_grants[OF _ this, of "lw_now w" "lw_nodes w ! ?n"] that d \<open>?n < length (lw_nodes w)\<close>
    show "granted w1 ?n (lw_runs w1 ! i) (op_token (ms_op ?msg))" by (simp add: granted_def w1_def)
  qed
  then show ?thesis using True d inv1 by (simp add: deliver_def Let_def w1_def)
qed (simp add: deliver_def inv)

subsection \<open>Moves\<close>

lemma live_elsewhere:
  assumes inv: "lock_inv o1 used w" and i: "i < length (lw_runs w)" "run_token (lw_runs w ! i) = Some token"
    and r: "r \<in> set (lw_runs (set_phase i p w))" "run_token r = Some token"
  shows "r = (lw_runs w ! i)\<lparr>lr_phase := p\<rparr>"
proof -
  have "run_token (lw_runs w ! j) \<noteq> Some token" if "j < length (lw_runs w)" "j \<noteq> i" for j
    using inv i that unfolding lock_inv_def tokens_apart_def by (metis option.distinct(1))
  then show ?thesis using set_phase_set[OF i(1) r(1)] r(2) by auto
qed

lemma withdraw_inv:
  assumes inv: "lock_inv o1 used w" and i: "i < length (lw_runs w)" "run_token (lw_runs w ! i) = Some token" and p: "token_of p = None"
  shows "lock_inv o1 used (onAllNodes (Release_script key token) To_nobody (set_phase i p w))"
proof (rule send_inv[OF phase_inv[OF inv i(1)]])
  show "run_ok o1 (lw_now w) (lw_nodes w) ((lw_runs w ! i)\<lparr>lr_phase := p\<rparr>)" using p by (rule run_ok_idle)
  show "op_token (Release_script key token) \<in> used" using lock_invD(2)[OF inv i] by simp
  show "op_ok (lw_runs (set_phase i p w)) (Release_script key token)"
    using live_elsewhere[OF inv i] p by fastforce
qed (auto simp: p)

lemma conclude_attempt_inv:
  assumes inv: "lock_inv o1 used w" and i: "i < length (lw_runs w)"
  shows "lock_inv o1 used (conclude_attempt o1 i w)"
proof (cases "lr_phase (lw_runs w ! i)")
  case (Trying retries token start votes)
  note r = lock_invD(1)[OF inv i]
  let ?e = "start + lr_ttl (lw_runs w ! i) - drift o1 (lr_ttl (lw_runs w ! i))"
  have "lock_inv o1 used (set_phase i (Running token ?e votes 0 []) w)" if "quorum (lw_nodes w) \<le> length votes"
  proof (rule phase_inv[OF inv i])
    have ph: "phase_ok (lw_now w) (lr_ttl (lw_runs w ! i)) (quorum (lw_nodes w)) (Running token ?e votes 0 [])"
      using run_ok_phase[OF r] that by (simp add: Trying)
    show "run_ok o1 (lw_now w) (lw_nodes w) ((lw_runs w ! i)\<lparr>lr_phase := Running token ?e votes 0 []\<rparr>)"
      using r _ ph by (rule run_ok_narrow) (simp_all add: Trying)
  qed (simp add: Trying)
  then show ?thesis using Trying withdraw_inv[OF inv i] by (auto simp: conclude_attempt_def Let_def)
qed (simp_all add: conclude_attempt_def inv)

lemma extend_inv:
  assumes inv: "lock_inv o1 used w" and i: "i < length (lw_runs w)"
  shows "lock_inv o1 used (extend i (lr_ttl (lw_runs w ! i)) w)"
proof (cases "lr_phase (lw_runs w ! i)")
  case (Running token e hs m waves)
  note r = lock_invD(1)[OF inv i]
  let ?p = "Running token e hs (Suc m) (map_set m (Wave (lw_now w) (lr_ttl (lw_runs w ! i)) []) waves)"
  have "lock_inv o1 used (onAllNodes (Extend_script (lr_key (lw_runs w ! i)) token (lr_ttl (lw_runs w ! i))) (To_extension i m) (set_phase i ?p w))"
  proof (rule send_inv[OF phase_inv[OF inv i]])
    have "owes o1 ttl ?p n expiry \<Longrightarrow> owes o1 ttl (lr_phase (lw_runs w ! i)) n expiry" for ttl n expiry
      by (auto simp: Running js_simps split: if_splits)
    moreover have "phase_ok (lw_now w) (lr_ttl (lw_runs w ! i)) (quorum (lw_nodes w)) ?p"
      using run_ok_phase[OF r] by (auto simp: Running js_simps split: if_splits)
    ultimately show "run_ok o1 (lw_now w) (lw_nodes w) ((lw_runs w ! i)\<lparr>lr_phase := ?p\<rparr>)"
      by (intro run_ok_narrow[OF r]) (simp_all add: Running del: owes.simps)
    show "op_ok (lw_runs (set_phase i ?p w)) (Extend_script (lr_key (lw_runs w ! i)) token (lr_ttl (lw_runs w ! i)))"
      using live_elsewhere[OF inv i, of token _ ?p] by (fastforce simp: Running)
    show "op_token (Extend_script (lr_key (lw_runs w ! i)) token (lr_ttl (lw_runs w ! i))) \<in> used"
      using lock_invD(2)[OF inv i] by (simp add: Running)
  qed (auto simp: Running)
  then show ?thesis by (simp add: extend_def Running)
qed (simp_all add: extend_def inv)

lemma conclude_extension_inv:
  assumes inv: "lock_inv o1 used w" and i: "i < length (lw_runs w)"
  shows "lock_inv o1 used (conclude_extension o1 i k w)"
proof (cases "lr_phase (lw_runs w ! i)")
  case (Running token e hs m waves)
  note r = lock_invD(1)[OF inv i]
  show ?thesis
  proof (cases "map_get waves k")
    case (Some wv)
    then obtain start ttl votes where wv: "wv = Wave start ttl votes" by (cases wv) auto
    have part: "lock_inv o1 used (set_phase i (Running token e' hs' m (map_delete k waves)) w)"
      if "\<And>n. n \<in> set hs' \<Longrightarrow> owes o1 (lr_ttl (lw_runs w ! i)) (lr_phase (lw_runs w ! i)) n e'"
        and hs: "distinct hs'" "quorum (lw_nodes w) \<le> length hs'" for e' hs'
    proof (rule phase_inv[OF inv i])
      let ?p = "Running token e' hs' m (map_delete k waves)"
      have "owes o1 ttl' ?p n expiry \<Longrightarrow> ttl' = lr_ttl (lw_runs w ! i) \<Longrightarrow> owes o1 ttl' (lr_phase (lw_runs w ! i)) n expiry" for ttl' n expiry
        using that(1)[of n] by (auto simp: Running js_simps split: if_splits)
      moreover have "phase_ok (lw_now w) (lr_ttl (lw_runs w ! i)) (quorum (lw_nodes w)) ?p"
        using run_ok_phase[OF r] hs by (auto simp: Running js_simps split: if_splits)
      ultimately show "run_ok o1 (lw_now w) (lw_nodes w) ((lw_runs w ! i)\<lparr>lr_phase := ?p\<rparr>)"
        by (intro run_ok_narrow[OF r]) (simp_all add: Running del: owes.simps)
    qed (simp add: Running)
    have "wave_ok (lw_now w) (lr_ttl (lw_runs w ! i)) (Wave start ttl votes)" "distinct hs" "quorum (lw_nodes w) \<le> length hs"
      using run_ok_phase[OF r] Some wv by (simp_all add: Running del: wave_ok.simps)
    moreover have "owes o1 (lr_ttl (lw_runs w ! i)) (lr_phase (lw_runs w ! i)) n (start + ttl - drift o1 ttl)" if "n \<in> set votes" for n
      using Some wv that by (auto simp: Running intro!: exI[of _ k])
    ultimately have "lock_inv o1 used (set_phase i (Running token e hs m (map_delete k waves)) w)"
      "quorum (lw_nodes w) \<le> length votes \<Longrightarrow>
        lock_inv o1 used (set_phase i (Running token (start + ttl - drift o1 ttl) votes m (map_delete k waves)) w)"
      by (auto simp: Running simp del: owes.simps intro!: part) (simp add: Running)
    then show ?thesis using Some wv by (auto simp: conclude_extension_def Running Let_def)
  qed (simp add: conclude_extension_def Running inv)
qed (simp_all add: conclude_extension_def inv)

lemma release_inv:
  assumes "lock_inv o1 used w" "i < length (lw_runs w)"
  shows "lock_inv o1 used (release i w)"
  using assms withdraw_inv[OF assms] by (cases "lr_phase (lw_runs w ! i)") (simp_all add: release_def)

lemma settle_inv:
  assumes "lock_inv o1 used w" "i < length (lw_runs w)" "token_of p = None"
  shows "lock_inv o1 used (set_phase i p w)"
  using assms by (intro phase_inv run_ok_idle) auto

lemma start_inv:
  assumes inv: "lock_inv o1 used w"
  shows "lock_inv o1 used (w\<lparr>lw_runs := lw_runs w @ [\<lparr>lr_key = key, lr_ttl = ttl, lr_phase = Undoing n\<rparr>]\<rparr>)"
proof -
  have "op_ok (lw_runs w @ [\<lparr>lr_key = key, lr_ttl = ttl, lr_phase = Undoing n\<rparr>]) opn" if "op_ok (lw_runs w) opn" for opn
    using that by (cases opn) auto
  moreover have "tokens_apart (lw_runs w @ [\<lparr>lr_key = key, lr_ttl = ttl, lr_phase = Undoing n\<rparr>])"
    using inv by (auto simp: lock_inv_def tokens_apart_def nth_append less_Suc_eq)
  ultimately show ?thesis using inv by (auto simp: lock_inv_def message_ok_def run_ok_def)
qed

lemma step_inv:
  assumes inv: "lock_inv o1 used w" and m: "automatic m" "set (drawn m) \<inter> used = {}"
  shows "lock_inv o1 (used \<union> set (drawn m)) (lock_step o1 m w)"
proof (cases m)
  case (Start key ttl retries token)
  then show ?thesis using m attempt_inv[OF start_inv[OF inv, of key ttl retries], of "length (lw_runs w)" token] used_mono[OF inv, of "insert token used"]
    by auto
next
  case (Retry i token)
  have "lock_inv o1 (insert token used) (set_phase i (Done False) w)" if "i < length (lw_runs w)"
    using used_mono[OF settle_inv[OF inv that, of "Done False"], of "insert token used"] by auto
  then show ?thesis using Retry m attempt_inv[OF inv, of i token] used_mono[OF inv, of "insert token used"]
    by (cases "lr_phase (lw_runs w ! i)") (auto simp: retry_def split: nat.splits)
next
  case (Direct_extend i ttl)
  then show ?thesis using m by simp
qed (use inv in \<open>auto simp: deliver_inv expire_inv tick_inv conclude_attempt_inv extend_inv conclude_extension_inv release_inv settle_inv\<close>)

lemma lock_run_inv:
  assumes "lock_inv o1 used w" "list_all automatic ms" "distinct (concat (map drawn ms))" "set (concat (map drawn ms)) \<inter> used = {}"
  shows "\<exists>used'. lock_inv o1 used' (run (lock_step o1) ms w)"
  using assms
proof (induction ms arbitrary: used w)
  case (Cons m ms)
  then have "lock_inv o1 (used \<union> set (drawn m)) (lock_step o1 m w)" by (intro step_inv) auto
  then show ?case using Cons.IH[of "used \<union> set (drawn m)" "lock_step o1 m w"] Cons.prems by auto
qed auto

lemma no_locks_inv: "lock_inv o1 {} (no_locks n)"
  by (simp add: lock_inv_def no_locks_def tokens_apart_def)

subsection \<open>Majorities\<close>

lemma majorities_meet:
  assumes "distinct xs" "distinct ys" "set xs \<subseteq> {..<n}" "set ys \<subseteq> {..<n}" "n div 2 + 1 \<le> length xs" "n div 2 + 1 \<le> length ys"
  shows "set xs \<inter> set ys \<noteq> {}"
proof
  assume "set xs \<inter> set ys = {}"
  then have "card (set xs \<union> set ys) = length xs + length ys" using assms(1,2) by (simp add: card_Un_disjoint distinct_card)
  moreover have "card (set xs \<union> set ys) \<le> n" using assms(3,4) card_mono[of "{..<n}" "set xs \<union> set ys"] by auto
  ultimately show False using assms(5,6) by linarith
qed

lemma valid_locks_meet:
  assumes inv: "lock_inv o1 used w" and i: "i < length (lw_runs w)" "j < length (lw_runs w)"
    and key: "lr_key (lw_runs w ! i) = lr_key (lw_runs w ! j)"
    and valid: "isValid (lw_now w) (lw_runs w ! i)" "isValid (lw_now w) (lw_runs w ! j)"
  shows "i = j"
proof -
  obtain t1 e1 h1 m1 v1 where p1: "lr_phase (lw_runs w ! i) = Running t1 e1 h1 m1 v1" "lw_now w < e1"
    using valid(1) by (auto simp: isValid_def split: phase.splits)
  obtain t2 e2 h2 m2 v2 where p2: "lr_phase (lw_runs w ! j) = Running t2 e2 h2 m2 v2" "lw_now w < e2"
    using valid(2) by (auto simp: isValid_def split: phase.splits)
  have k1: "n < length (lw_nodes w) \<and> kept o1 (lw_now w) (lw_nodes w ! n) (lr_key (lw_runs w ! i)) t1 e1" if "n \<in> set h1" for n
    using run_okD[OF lock_invD(1)[OF inv i(1)], of t1 n e1] that by (auto simp: p1)
  have k2: "n < length (lw_nodes w) \<and> kept o1 (lw_now w) (lw_nodes w ! n) (lr_key (lw_runs w ! i)) t2 e2" if "n \<in> set h2" for n
    using run_okD[OF lock_invD(1)[OF inv i(2)], of t2 n e2] that key by (auto simp: p2)
  have q: "distinct h1" "quorum (lw_nodes w) \<le> length h1" "distinct h2" "quorum (lw_nodes w) \<le> length h2"
    using run_ok_phase[OF lock_invD(1)[OF inv i(1)]] run_ok_phase[OF lock_invD(1)[OF inv i(2)]] by (auto simp: p1 p2)
  obtain n where "n \<in> set h1" "n \<in> set h2"
    using majorities_meet[of h1 h2 "length (lw_nodes w)"] q k1 k2 by (auto simp: quorum_def)
  with k1 k2 p1(2) p2(2) have "t1 = t2" by (fastforce simp: kept_def)
  then have "run_token (lw_runs w ! i) = run_token (lw_runs w ! j)" "run_token (lw_runs w ! i) \<noteq> None" by (simp_all add: p1 p2)
  then show ?thesis using inv i unfolding lock_inv_def tokens_apart_def by blast
qed

lemma at_most_one:
  assumes "\<And>i j. i < length xs \<Longrightarrow> j < length xs \<Longrightarrow> P (xs ! i) \<Longrightarrow> P (xs ! j) \<Longrightarrow> i = j"
  shows "length (filter P xs) \<le> 1"
proof -
  have "card {i. i < length xs \<and> P (xs ! i)} \<le> 1" using assms by (subst card_le_Suc0_iff_eq[unfolded One_nat_def[symmetric]]) auto
  then show ?thesis by (simp add: length_filter_conv_card)
qed

section \<open>Properties\<close>

text \<open>C1.
  Mutual exclusion.  Whatever runs of decorated methods compete for a key, however their requests to the
  nodes are delayed, reordered or left unanswered, and however early within the allowed drift a node drops
  a key, at most one of them holds a lock on the key that is still valid.
\<close>
theorem redlock_mutual_exclusion:
  assumes "distinct (concat (map drawn ms))" "list_all automatic ms"
  shows "length (valid_locks key (run (lock_step o1) ms (no_locks n))) \<le> 1"
proof -
  obtain used where inv: "lock_inv o1 used (run (lock_step o1) ms (no_locks n))"
    using lock_run_inv[OF no_locks_inv assms(2,1), of o1 n] by auto
  then show ?thesis unfolding valid_locks_def by (intro at_most_one valid_locks_meet[OF inv]) auto
qed

definition sample_locking :: "lock_move list" where
  "sample_locking = [Start ''job'' 1000 0 ''a'', Start ''job'' 1000 1 ''b'', Deliver 0 True, Deliver 2 True, Deliver 1 True, Tick 5,
     Deliver 0 True, Conclude 0, Conclude 1]"

theorem redlock_mutual_exclusion_witness:
  "length (valid_locks ''job'' (run (lock_step DEFAULTS) sample_locking (no_locks 3))) \<le> 1 \<and>
   valid_locks ''job'' (run (lock_step DEFAULTS) sample_locking (no_locks 3)) \<noteq> []"
proof
  show "length (valid_locks ''job'' (run (lock_step DEFAULTS) sample_locking (no_locks 3))) \<le> 1"
    by (rule redlock_mutual_exclusion) code_simp+
  show "valid_locks ''job'' (run (lock_step DEFAULTS) sample_locking (no_locks 3)) \<noteq> []" by code_simp
qed


end
