(* ===== verification/Idempotency.thy ===== *)
theory Idempotency
  imports Canonical_Json
begin

text \<open>
  Replay protection for mutating requests, \<open>src/common/idempotency/idempotency.service.ts\<close>: keys and
  scopes, the hash of a request, the claim of a key, and the replay of a stored response.

  \<open>execute\<close> is cut at its awaits.  A call in flight says what it does when it is resumed; calls interleave in any
  order, a process may die between two steps, and a database call may fail, or take effect and lose its
  reply.  The table is the database's: reads by scope and key, a unique index over them, and writes of a
  whole row by id.  Ids are the database's and are taken to be different; SHA-256 is an argument; times
  are milliseconds.
\<close>

section \<open>Keys, scopes and hashes\<close>

datatype idem_error =
    Idem_BadRequest string
  | Idem_Conflict string
  | Unique_violation
  | Idem_Thrown string

definition IDEMPOTENT_METHODS :: "string list" where
  "IDEMPOTENT_METHODS = [''POST'', ''PUT'', ''PATCH'', ''DELETE'']"

definition IDEMPOTENCY_KEY_MIN_LENGTH :: nat where
  "IDEMPOTENCY_KEY_MIN_LENGTH = 8"

definition IDEMPOTENCY_KEY_MAX_LENGTH :: nat where
  "IDEMPOTENCY_KEY_MAX_LENGTH = 128"

definition DEFAULT_IDEMPOTENCY_TTL_SECONDS :: int where
  "DEFAULT_IDEMPOTENCY_TTL_SECONDS = 24 * 60 * 60"

definition MAX_IDEMPOTENCY_TTL_SECONDS :: int where
  "MAX_IDEMPOTENCY_TTL_SECONDS = 7 * 24 * 60 * 60"

definition key_char :: "char \<Rightarrow> bool" where
  "key_char c =
     (let n = of_char c :: nat in
      48 \<le> n \<and> n \<le> 57 \<or> 65 \<le> n \<and> n \<le> 90 \<or> 97 \<le> n \<and> n \<le> 122 \<or> c \<in> set ''._:+-'')"

definition isIdempotentMethod :: "string \<Rightarrow> bool" where
  "isIdempotentMethod m = (toUpperCase m \<in> set IDEMPOTENT_METHODS)"

definition drop_slashes :: "string \<Rightarrow> string" where
  "drop_slashes s = rev (dropWhile (\<lambda>c. c = CHR ''/'') (rev s))"

definition buildScope :: "string \<Rightarrow> string option \<Rightarrow> string option \<Rightarrow> string" where
  "buildScope m route actor =
     (let path = drop_slashes (hd (split_on CHR ''?'' (case route of None \<Rightarrow> [] | Some r \<Rightarrow> r)));
          normalizedRoute = (if path = [] then ''/'' else path);
          normalizedActor = (case actor of None \<Rightarrow> ''anonymous'' | Some a \<Rightarrow> if a = [] then ''anonymous'' else a)
      in take 255 (toUpperCase m @ '':'' @ normalizedRoute @ '':'' @ normalizedActor))"

fun idem_canonicalize :: "js_value \<Rightarrow> string" where
  "idem_canonicalize JNull = ''null''"
| "idem_canonicalize JUndefined = ''null''"
| "idem_canonicalize (JStr s) = json_string s"
| "idem_canonicalize (JNum (JInt i)) = show_int i"
| "idem_canonicalize (JNum JNegZero) = ''0''"
| "idem_canonicalize (JNum (JFrac f)) = f"
| "idem_canonicalize (JNum JNaN) = ''null''"
| "idem_canonicalize (JNum JInfinity) = ''null''"
| "idem_canonicalize (JBool b) = (if b then ''true'' else ''false'')"
| "idem_canonicalize (JBigint i) = json_string (show_int i)"
| "idem_canonicalize (JDate t) = json_string t"
| "idem_canonicalize (JOther ty) = ''null''"
| "idem_canonicalize (JArr xs) = ''['' @ join '','' (map (\<lambda>x. case x of None \<Rightarrow> [] | Some v \<Rightarrow> idem_canonicalize v) xs) @ '']''"
| "idem_canonicalize (JObj pl entries) =
     ''{'' @ join '','' (map (\<lambda>(k, r). json_string k @ '':'' @ r)
       (js_sort by_key (map (\<lambda>(k, v). (k, idem_canonicalize v)) entries))) @ ''}''"

definition hashRequest :: "(string \<Rightarrow> string) \<Rightarrow> js_value \<Rightarrow> string" where
  "hashRequest sha payload = sha (idem_canonicalize payload)"

definition assertValidKey :: "string \<Rightarrow> (idem_error, string) result" where
  "assertValidKey key =
     (let v = trim key in
      if v = [] then Inl (Idem_BadRequest ''Missing Idempotency-Key header for a mutating request'')
      else if length v < IDEMPOTENCY_KEY_MIN_LENGTH
      then Inl (Idem_BadRequest (''Idempotency-Key must be at least '' @ show_int (int IDEMPOTENCY_KEY_MIN_LENGTH) @ '' characters''))
      else if length v > IDEMPOTENCY_KEY_MAX_LENGTH
      then Inl (Idem_BadRequest (''Idempotency-Key must be at most '' @ show_int (int IDEMPOTENCY_KEY_MAX_LENGTH) @ '' characters''))
      else if \<not> list_all key_char v
      then Inl (Idem_BadRequest ''Idempotency-Key may only contain letters, digits, and . _ : + -'')
      else Inr v)"

text \<open>\<open>env\<close> is the number the variable \<open>IDEMPOTENCY_TTL_SECONDS\<close> holds, when it holds one.\<close>

definition idem_resolveTtl :: "int option \<Rightarrow> int option \<Rightarrow> int" where
  "idem_resolveTtl env ttlSeconds =
     (case ttlSeconds of
        Some n \<Rightarrow> min (max n 1) MAX_IDEMPOTENCY_TTL_SECONDS
      | None \<Rightarrow> (case env of
                  Some n \<Rightarrow> if n > 0 then min n MAX_IDEMPOTENCY_TTL_SECONDS else DEFAULT_IDEMPOTENCY_TTL_SECONDS
                | None \<Rightarrow> DEFAULT_IDEMPOTENCY_TTL_SECONDS))"

section \<open>Records\<close>

datatype IdempotencyRecordStatus = IN_PROGRESS | COMPLETED | FAILED

record IdempotencyRecord =
  id_id :: string
  id_scope :: string
  id_key :: string
  id_requestHash :: string
  id_status :: IdempotencyRecordStatus
  id_responseCode :: "int option"
  id_responseBody :: "js_value option"
  id_failureReason :: "string option"
  id_expiresAt :: int

record IdempotentOutcome =
  oc_replayed :: bool
  oc_statusCode :: int
  oc_body :: js_value
  oc_key :: string

record ExecuteIdempotentParams =
  ep_key :: string
  ep_scope :: string
  ep_requestHash :: string
  ep_ttlSeconds :: "int option"

definition isExpired :: "int \<Rightarrow> IdempotencyRecord \<Rightarrow> bool" where
  "isExpired now r = (id_expiresAt r \<le> now)"

definition readStoredBody :: "IdempotencyRecord \<Rightarrow> js_value" where
  "readStoredBody r = (case id_responseBody r of None \<Rightarrow> JUndefined | Some b \<Rightarrow> b)"

text \<open>The table: rows by id, and what the unique index over scope and key allows.\<close>

type_synonym idem_table = "IdempotencyRecord list"

definition idem_find :: "string \<Rightarrow> string \<Rightarrow> idem_table \<Rightarrow> IdempotencyRecord option" where
  "idem_find scope key t = find (\<lambda>r. id_scope r = scope \<and> id_key r = key) t"

definition idem_remove :: "string \<Rightarrow> idem_table \<Rightarrow> idem_table" where
  "idem_remove i t = filter (\<lambda>r. id_id r \<noteq> i) t"

definition idem_save :: "IdempotencyRecord \<Rightarrow> idem_table \<Rightarrow> idem_table option" where
  "idem_save r t =
     (if list_ex (\<lambda>x. id_id x = id_id r) t then Some (map (\<lambda>x. if id_id x = id_id r then r else x) t)
      else if list_ex (\<lambda>x. id_scope x = id_scope r \<and> id_key x = id_key r) t then None
      else Some (t @ [r]))"

section \<open>Execution\<close>

datatype idem_call =
    I_find nat ExecuteIdempotentParams
  | I_remove nat ExecuteIdempotentParams IdempotencyRecord
  | I_insert nat ExecuteIdempotentParams IdempotencyRecord
  | I_run IdempotencyRecord
  | I_complete IdempotencyRecord int js_value
  | I_fail IdempotencyRecord idem_error
  | I_purge
  | I_purging "string list"
  | I_done "(idem_error, IdempotentOutcome) result"
  | I_purged nat

datatype db_reply = Db_ok | Db_fail string | Db_lost string

definition execute :: "ExecuteIdempotentParams \<Rightarrow> idem_call" where
  "execute params =
     (case assertValidKey (ep_key params) of
        Inl e \<Rightarrow> I_done (Inl e)
      | Inr key \<Rightarrow> I_find 0 (params\<lparr>ep_key := key\<rparr>))"

definition in_progress :: idem_error where
  "in_progress = Idem_Conflict ''A request with this Idempotency-Key is already in progress''"

text \<open>The body of the claim loop for one attempt; two are made.\<close>

definition claim_key :: "int option \<Rightarrow> int \<Rightarrow> nat \<Rightarrow> ExecuteIdempotentParams \<Rightarrow> idem_call" where
  "claim_key env now n params =
     I_insert n params \<lparr>id_id = [], id_scope = ep_scope params, id_key = ep_key params, id_requestHash = ep_requestHash params,
       id_status = IN_PROGRESS, id_responseCode = None, id_responseBody = None, id_failureReason = None,
       id_expiresAt = now + idem_resolveTtl env (ep_ttlSeconds params) * 1000\<rparr>"

definition resolveExisting :: "int \<Rightarrow> nat \<Rightarrow> ExecuteIdempotentParams \<Rightarrow> IdempotencyRecord \<Rightarrow> idem_call" where
  "resolveExisting now n params existing =
     (if id_requestHash existing \<noteq> ep_requestHash params
      then I_done (Inl (Idem_Conflict ''Idempotency-Key was already used for a different request payload''))
      else if isExpired now existing then I_remove n params existing
      else case id_status existing of
        COMPLETED \<Rightarrow> I_done (Inr \<lparr>oc_replayed = True,
          oc_statusCode = (case id_responseCode existing of None \<Rightarrow> 200 | Some c \<Rightarrow> c),
          oc_body = readStoredBody existing, oc_key = ep_key params\<rparr>)
      | IN_PROGRESS \<Rightarrow> I_done (Inl in_progress)
      | FAILED \<Rightarrow> I_remove n params existing)"

definition next_attempt :: "nat \<Rightarrow> ExecuteIdempotentParams \<Rightarrow> idem_call" where
  "next_attempt n params = (if n + 1 < 2 then I_find (n + 1) params else I_done (Inl in_progress))"

definition mark_failed :: "IdempotencyRecord \<Rightarrow> idem_error \<Rightarrow> string \<Rightarrow> idem_call" where
  "mark_failed r e message = I_fail (r\<lparr>id_status := FAILED, id_responseCode := None, id_failureReason := Some message\<rparr>) e"

definition mark_completed :: "IdempotencyRecord \<Rightarrow> int \<Rightarrow> js_value \<Rightarrow> idem_call" where
  "mark_completed r code body =
     I_complete (r\<lparr>id_status := COMPLETED, id_responseCode := Some code,
       id_responseBody := Some (if body = JUndefined then JNull else body)\<rparr>) code body"

text \<open>A write: what the call sees, and the table after it.\<close>

definition db_write :: "db_reply \<Rightarrow> idem_table option \<Rightarrow> idem_table \<Rightarrow> (idem_error, unit) result \<times> idem_table" where
  "db_write r effect t =
     (case r of
        Db_fail m \<Rightarrow> (Inl (Idem_Thrown m), t)
      | Db_lost m \<Rightarrow> (Inl (Idem_Thrown m), case effect of None \<Rightarrow> t | Some t' \<Rightarrow> t')
      | Db_ok \<Rightarrow> (case effect of None \<Rightarrow> (Inl Unique_violation, t) | Some t' \<Rightarrow> (Inr (), t')))"

fun error_message :: "idem_error \<Rightarrow> string" where
  "error_message (Idem_BadRequest m) = m"
| "error_message (Idem_Conflict m) = m"
| "error_message Unique_violation = ''duplicate key value violates unique constraint''"
| "error_message (Idem_Thrown m) = m"

fun idem_advance ::
  "int option \<Rightarrow> db_reply \<Rightarrow> int \<Rightarrow> string \<Rightarrow> idem_call \<Rightarrow> idem_table \<Rightarrow> idem_call \<times> idem_table" where
  "idem_advance env r now newId (I_find n params) t =
     ((case r of
         Db_ok \<Rightarrow> (case idem_find (ep_scope params) (ep_key params) t of
                     None \<Rightarrow> claim_key env now n params
                   | Some existing \<Rightarrow> resolveExisting now n params existing)
       | Db_fail m \<Rightarrow> I_done (Inl (Idem_Thrown m)) | Db_lost m \<Rightarrow> I_done (Inl (Idem_Thrown m))), t)"
| "idem_advance env r now newId (I_remove n params existing) t =
     (case db_write r (Some (idem_remove (id_id existing) t)) t of
        (Inl e, t1) \<Rightarrow> (I_done (Inl e), t1)
      | (Inr _, t1) \<Rightarrow> (claim_key env now n params, t1))"
| "idem_advance env r now newId (I_insert n params claim) t =
     (case db_write r (idem_save (claim\<lparr>id_id := newId\<rparr>) t) t of
        (Inr _, t1) \<Rightarrow> (I_run (claim\<lparr>id_id := newId\<rparr>), t1)
      | (Inl e, t1) \<Rightarrow> (if e = Unique_violation then next_attempt n params else I_done (Inl e), t1))"
| "idem_advance env r now newId (I_run rec) t = (I_run rec, t)"
| "idem_advance env r now newId (I_complete rec code body) t =
     (case db_write r (idem_save rec t) t of
        (Inr _, t1) \<Rightarrow> (I_done (Inr \<lparr>oc_replayed = False, oc_statusCode = code, oc_body = body, oc_key = id_key rec\<rparr>), t1)
      | (Inl e, t1) \<Rightarrow> (mark_failed rec e (error_message e), t1))"
| "idem_advance env r now newId (I_fail rec e) t =
     (case db_write r (idem_save rec t) t of
        (Inr _, t1) \<Rightarrow> (I_done (Inl e), t1)
      | (Inl e1, t1) \<Rightarrow> (I_done (Inl e1), t1))"
| "idem_advance env r now newId I_purge t =
     ((case r of
         Db_ok \<Rightarrow> (case filter (\<lambda>x. id_expiresAt x < now) t of [] \<Rightarrow> I_purged 0 | xs \<Rightarrow> I_purging (map id_id xs))
       | Db_fail m \<Rightarrow> I_done (Inl (Idem_Thrown m)) | Db_lost m \<Rightarrow> I_done (Inl (Idem_Thrown m))), t)"
| "idem_advance env r now newId (I_purging ids) t =
     (case db_write r (Some (filter (\<lambda>x. id_id x \<notin> set ids) t)) t of
        (Inl e, t1) \<Rightarrow> (I_done (Inl e), t1)
      | (Inr _, t1) \<Rightarrow> (I_purged (length ids), t1))"
| "idem_advance env r now newId (I_done x) t = (I_done x, t)"
| "idem_advance env r now newId (I_purged n) t = (I_purged n, t)"

text \<open>The handler settles.\<close>

fun handler_settles :: "(string, int \<times> js_value) result \<Rightarrow> idem_call \<Rightarrow> idem_call" where
  "handler_settles (Inr (code, body)) (I_run rec) = mark_completed rec code body"
| "handler_settles (Inl m) (I_run rec) = mark_failed rec (Idem_Thrown m) m"
| "handler_settles _ c = c"

section \<open>Calls in flight\<close>

text \<open>Beside the calls and the table, a log of the handlers that were started and of those that threw.\<close>

record handler_run =
  hr_record :: IdempotencyRecord
  hr_started :: int
  hr_failed :: bool

record idem_world =
  mw_now :: int
  mw_calls :: "idem_call list"
  mw_table :: idem_table
  mw_log :: "handler_run list"

datatype idem_move =
    Submit ExecuteIdempotentParams
  | Purge
  | Db nat db_reply string \<comment> \<open>the call, the reply, the id of a row inserted now\<close>
  | Handle nat "(string, int \<times> js_value) result"
  | Pass nat

fun entered :: "int \<Rightarrow> idem_call \<Rightarrow> idem_call \<Rightarrow> handler_run list" where
  "entered now (I_insert _ _ _) (I_run rec) = [\<lparr>hr_record = rec, hr_started = now, hr_failed = False\<rparr>]"
| "entered now _ _ = []"

fun threw :: "(string, int \<times> js_value) result \<Rightarrow> idem_call \<Rightarrow> handler_run \<Rightarrow> handler_run" where
  "threw (Inl m) (I_run rec) g = (if id_id (hr_record g) = id_id rec then g\<lparr>hr_failed := True\<rparr> else g)"
| "threw _ _ g = g"

fun idem_step :: "int option \<Rightarrow> idem_move \<Rightarrow> idem_world \<Rightarrow> idem_world" where
  "idem_step env (Submit params) w = w\<lparr>mw_calls := mw_calls w @ [execute params]\<rparr>"
| "idem_step env Purge w = w\<lparr>mw_calls := mw_calls w @ [I_purge]\<rparr>"
| "idem_step env (Db i r newId) w =
     (if i < length (mw_calls w)
      then let (c, t) = idem_advance env r (mw_now w) newId (mw_calls w ! i) (mw_table w) in
           w\<lparr>mw_calls := (mw_calls w)[i := c], mw_table := t, mw_log := mw_log w @ entered (mw_now w) (mw_calls w ! i) c\<rparr>
      else w)"
| "idem_step env (Handle i res) w =
     (if i < length (mw_calls w)
      then w\<lparr>mw_calls := (mw_calls w)[i := handler_settles res (mw_calls w ! i)],
             mw_log := map (threw res (mw_calls w ! i)) (mw_log w)\<rparr>
      else w)"
| "idem_step env (Pass d) w = w\<lparr>mw_now := mw_now w + int d\<rparr>"

definition no_requests :: idem_world where
  "no_requests = \<lparr>mw_now = 0, mw_calls = [], mw_table = [], mw_log = []\<rparr>"

fun answered :: "idem_move \<Rightarrow> bool" where
  "answered (Db i r newId) = (r = Db_ok)"
| "answered _ = True"

fun new_ids :: "idem_move \<Rightarrow> string list" where
  "new_ids (Db i r newId) = [newId]"
| "new_ids _ = []"

section \<open>What the table remembers\<close>

abbreviation same_key :: "IdempotencyRecord \<Rightarrow> IdempotencyRecord \<Rightarrow> bool" where
  "same_key r s \<equiv> id_scope r = id_scope s \<and> id_key r = id_key s"

definition over :: "int \<Rightarrow> handler_run \<Rightarrow> bool" where
  "over now g \<longleftrightarrow> hr_failed g \<or> id_expiresAt (hr_record g) \<le> now"

definition dead :: "int \<Rightarrow> handler_run list \<Rightarrow> string \<Rightarrow> bool" where
  "dead now gs i \<longleftrightarrow> (\<forall>g \<in> set gs. id_id (hr_record g) = i \<longrightarrow> over now g)"

definition agrees :: "handler_run list \<Rightarrow> IdempotencyRecord \<Rightarrow> bool" where
  "agrees gs r \<longleftrightarrow> (\<forall>g \<in> set gs. id_id (hr_record g) = id_id r \<longrightarrow> same_key (hr_record g) r \<and> id_expiresAt (hr_record g) = id_expiresAt r)"

definition unique_rows :: "idem_table \<Rightarrow> bool" where
  "unique_rows t \<longleftrightarrow> distinct (map id_id t) \<and> distinct (map (\<lambda>r. (id_scope r, id_key r)) t)"

definition row_ok :: "string set \<Rightarrow> int \<Rightarrow> handler_run list \<Rightarrow> IdempotencyRecord \<Rightarrow> bool" where
  "row_ok used now gs r \<longleftrightarrow> id_id r \<in> used \<and> (\<exists>g \<in> set gs. id_id (hr_record g) = id_id r) \<and> agrees gs r \<and> (id_status r = FAILED \<longrightarrow> dead now gs (id_id r))"

fun call_ok :: "string set \<Rightarrow> int \<Rightarrow> handler_run list \<Rightarrow> idem_call \<Rightarrow> bool" where
  "call_ok used now gs (I_remove n params existing) \<longleftrightarrow> id_id existing \<in> used \<and> dead now gs (id_id existing)"
| "call_ok used now gs (I_purging ids) \<longleftrightarrow> (\<forall>i \<in> set ids. i \<in> used \<and> dead now gs i)"
| "call_ok used now gs (I_insert n params claim) \<longleftrightarrow> id_status claim = IN_PROGRESS"
| "call_ok used now gs (I_run rec) \<longleftrightarrow> row_ok used now gs rec \<and> id_status rec = IN_PROGRESS"
| "call_ok used now gs (I_complete rec code body) \<longleftrightarrow> row_ok used now gs rec \<and> id_status rec = COMPLETED"
| "call_ok used now gs (I_fail rec e) \<longleftrightarrow> row_ok used now gs rec \<and> id_status rec = FAILED"
| "call_ok used now gs _ \<longleftrightarrow> True"

definition remembered :: "int \<Rightarrow> idem_table \<Rightarrow> handler_run \<Rightarrow> bool" where
  "remembered now t g \<longleftrightarrow> over now g \<or>
     (\<exists>row \<in> set t. id_id row = id_id (hr_record g) \<and> same_key row (hr_record g) \<and> id_status row \<noteq> FAILED)"

definition apart :: "handler_run \<Rightarrow> handler_run \<Rightarrow> bool" where
  "apart g h \<longleftrightarrow> (same_key (hr_record g) (hr_record h) \<longrightarrow> hr_failed g \<or> id_expiresAt (hr_record g) \<le> hr_started h)"

definition idem_inv :: "string set \<Rightarrow> idem_world \<Rightarrow> bool" where
  "idem_inv used w \<longleftrightarrow>
     unique_rows (mw_table w) \<and>
     (\<forall>r \<in> set (mw_table w). row_ok used (mw_now w) (mw_log w) r) \<and>
     (\<forall>c \<in> set (mw_calls w). call_ok used (mw_now w) (mw_log w) c) \<and>
     (\<forall>g \<in> set (mw_log w). id_id (hr_record g) \<in> used \<and> remembered (mw_now w) (mw_table w) g) \<and>
     sorted_wrt apart (mw_log w)"

lemma over_later: "over now g \<Longrightarrow> now \<le> later \<Longrightarrow> over later g"
  by (auto simp: over_def)

lemma dead_later: "dead now gs i \<Longrightarrow> now \<le> later \<Longrightarrow> dead later gs i"
  by (auto simp: dead_def intro: over_later)

lemma row_ok_later: "row_ok used now gs r \<Longrightarrow> now \<le> later \<Longrightarrow> row_ok used later gs r"
  by (auto simp: row_ok_def intro: dead_later)

lemma call_ok_later: "call_ok used now gs c \<Longrightarrow> now \<le> later \<Longrightarrow> call_ok used later gs c"
  by (cases c) (auto intro: dead_later row_ok_later)

lemma remembered_later: "remembered now t g \<Longrightarrow> now \<le> later \<Longrightarrow> remembered later t g"
  by (auto simp: remembered_def intro: over_later)

lemma threw_fields [simp]:
  "hr_record (threw res c g) = hr_record g" "hr_started (threw res c g) = hr_started g"
  by (cases "(res, c, g)" rule: threw.cases; simp)+

lemma threw_returned: "map (threw (Inr x) c) gs = gs"
  by (induction gs) (auto intro: threw.cases)

lemma threw_over: "over now g \<Longrightarrow> over now (threw res c g)"
  by (cases "(res, c, g)" rule: threw.cases) (auto simp: over_def)

lemma dead_threw: "dead now gs i \<Longrightarrow> dead now (map (threw res c) gs) i"
  by (auto simp: dead_def intro: threw_over)

lemma row_ok_threw: "row_ok used now gs r \<Longrightarrow> row_ok used now (map (threw res c) gs) r"
  by (auto simp: row_ok_def agrees_def intro: dead_threw)

lemma call_ok_threw: "call_ok used now gs d \<Longrightarrow> call_ok used now (map (threw res c) gs) d"
  by (cases d) (auto intro: dead_threw row_ok_threw)

lemma dead_snoc: "dead now gs i \<Longrightarrow> id_id (hr_record g) \<noteq> i \<Longrightarrow> dead now (gs @ [g]) i"
  by (auto simp: dead_def)

lemma row_ok_snoc: "row_ok used now gs r \<Longrightarrow> id_id (hr_record g) \<notin> used \<Longrightarrow> row_ok (insert (id_id (hr_record g)) used) now (gs @ [g]) r"
  by (auto simp: row_ok_def agrees_def intro: dead_snoc)

lemma call_ok_snoc: "call_ok used now gs c \<Longrightarrow> id_id (hr_record g) \<notin> used \<Longrightarrow> call_ok (insert (id_id (hr_record g)) used) now (gs @ [g]) c"
  by (cases c) (auto intro: dead_snoc row_ok_snoc)

lemma row_ok_used: "row_ok used now gs r \<Longrightarrow> used \<subseteq> used' \<Longrightarrow> row_ok used' now gs r"
  by (auto simp: row_ok_def)

lemma call_ok_used: "call_ok used now gs c \<Longrightarrow> used \<subseteq> used' \<Longrightarrow> call_ok used' now gs c"
  by (cases c) (auto intro: row_ok_used)

lemma inv_used: "idem_inv used w \<Longrightarrow> used \<subseteq> used' \<Longrightarrow> idem_inv used' w"
  unfolding idem_inv_def by (blast intro: row_ok_used call_ok_used)

subsection \<open>Writes\<close>

lemma save_rows: "idem_save r t = Some t' \<Longrightarrow> x \<in> set t' \<Longrightarrow> x = r \<or> x \<in> set t \<and> id_id x \<noteq> id_id r"
  by (auto simp: idem_save_def list_ex_iff split: if_splits)

lemma save_keeps: "idem_save r t = Some t' \<Longrightarrow> r \<in> set t' \<and> (\<forall>x \<in> set t. id_id x \<noteq> id_id r \<longrightarrow> x \<in> set t')"
  by (auto simp: idem_save_def list_ex_iff split: if_splits)

lemma save_unique:
  assumes "idem_save r t = Some t'" "unique_rows t" "\<And>x. x \<in> set t \<Longrightarrow> id_id x = id_id r \<Longrightarrow> same_key x r"
  shows "unique_rows t'"
proof (cases "list_ex (\<lambda>x. id_id x = id_id r) t")
  case True
  then have t': "t' = map (\<lambda>x. if id_id x = id_id r then r else x) t" using assms(1) by (simp add: idem_save_def)
  have "map id_id t' = map id_id t" "map (\<lambda>r. (id_scope r, id_key r)) t' = map (\<lambda>r. (id_scope r, id_key r)) t"
    using assms(3) by (auto simp: t')
  then show ?thesis using assms(2) by (simp add: unique_rows_def)
next
  case False
  then have "t' = t @ [r]" "\<forall>x \<in> set t. id_id x \<noteq> id_id r" "\<forall>x \<in> set t. \<not> same_key x r"
    using assms(1) by (auto simp: idem_save_def list_ex_iff split: if_splits)
  then show ?thesis using assms(2) by (force simp: unique_rows_def)
qed

lemma filter_unique: "unique_rows t \<Longrightarrow> unique_rows (filter P t)"
  by (auto simp: unique_rows_def distinct_map inj_on_def)

lemma rows_agree:
  assumes "row_ok used now gs x" "row_ok used now gs r" "id_id x = id_id r"
  shows "same_key x r"
  using assms by (auto simp: row_ok_def agrees_def)

lemma dead_expired: "row_ok used now gs r \<Longrightarrow> id_expiresAt r \<le> now \<Longrightarrow> dead now gs (id_id r)"
  by (auto simp: row_ok_def agrees_def dead_def over_def)

lemma table_inv:
  assumes inv: "idem_inv used w" and i: "i < length (mw_calls w)" and c: "call_ok used (mw_now w) (mw_log w) c"
    and t: "unique_rows t" "\<And>r. r \<in> set t \<Longrightarrow> row_ok used (mw_now w) (mw_log w) r"
      "\<And>g. g \<in> set (mw_log w) \<Longrightarrow> remembered (mw_now w) t g"
  shows "idem_inv used (w\<lparr>mw_calls := (mw_calls w)[i := c], mw_table := t, mw_log := mw_log w\<rparr>)"
  using inv c t set_update_subset_insert[of "mw_calls w" i c] unfolding idem_inv_def by auto

lemma remove_inv:
  assumes inv: "idem_inv used w" and i: "i < length (mw_calls w)" and c: "call_ok used (mw_now w) (mw_log w) c"
    and d: "\<And>j. j \<in> ids \<Longrightarrow> dead (mw_now w) (mw_log w) j"
  shows "idem_inv used (w\<lparr>mw_calls := (mw_calls w)[i := c], mw_table := filter (\<lambda>x. id_id x \<notin> ids) (mw_table w), mw_log := mw_log w\<rparr>)"
proof (rule table_inv[OF inv i c])
  show "unique_rows (filter (\<lambda>x. id_id x \<notin> ids) (mw_table w))" using inv by (simp add: idem_inv_def filter_unique)
  show "row_ok used (mw_now w) (mw_log w) r" if "r \<in> set (filter (\<lambda>x. id_id x \<notin> ids) (mw_table w))" for r
    using inv that by (simp add: idem_inv_def)
  show "remembered (mw_now w) (filter (\<lambda>x. id_id x \<notin> ids) (mw_table w)) g" if g: "g \<in> set (mw_log w)" for g
  proof (cases "id_id (hr_record g) \<in> ids")
    case True
    then show ?thesis using d g by (auto simp: dead_def remembered_def)
  next
    case False
    have "remembered (mw_now w) (mw_table w) g" using inv g by (simp add: idem_inv_def)
    then show ?thesis using False by (auto simp: remembered_def)
  qed
qed

lemma save_inv:
  assumes inv: "idem_inv used w" and i: "i < length (mw_calls w)" and c: "call_ok used (mw_now w) (mw_log w) c"
    and r: "row_ok used (mw_now w) (mw_log w) r" and s: "idem_save r (mw_table w) = Some t"
  shows "idem_inv used (w\<lparr>mw_calls := (mw_calls w)[i := c], mw_table := t, mw_log := mw_log w\<rparr>)"
proof (rule table_inv[OF inv i c])
  have rows: "row_ok used (mw_now w) (mw_log w) x" if "x \<in> set (mw_table w)" for x using inv that by (simp add: idem_inv_def)
  show "unique_rows t" using save_unique[OF s] rows_agree[OF rows r] inv by (simp add: idem_inv_def)
  show "row_ok used (mw_now w) (mw_log w) x" if "x \<in> set t" for x using save_rows[OF s that] rows r by auto
  show "remembered (mw_now w) t g" if g: "g \<in> set (mw_log w)" for g
  proof (cases "id_id (hr_record g) = id_id r")
    case True
    then show ?thesis using r g save_keeps[OF s] by (auto simp: row_ok_def agrees_def dead_def remembered_def)
  next
    case False
    have "remembered (mw_now w) (mw_table w) g" using inv g by (simp add: idem_inv_def)
    then show ?thesis using False save_keeps[OF s] by (fastforce simp: remembered_def)
  qed
qed

lemma insert_inv:
  assumes inv: "idem_inv used w" and i: "i < length (mw_calls w)" and fresh: "id_id r \<notin> used"
    and st: "id_status r = IN_PROGRESS" and s: "idem_save r (mw_table w) = Some t"
  shows "idem_inv (insert (id_id r) used) (w\<lparr>mw_calls := (mw_calls w)[i := I_run r], mw_table := t,
    mw_log := mw_log w @ [\<lparr>hr_record = r, hr_started = mw_now w, hr_failed = False\<rparr>]\<rparr>)"
proof -
  let ?g = "\<lparr>hr_record = r, hr_started = mw_now w, hr_failed = False\<rparr>"
  have g: "id_id (hr_record ?g) \<notin> used" using fresh by simp
  have rows: "row_ok used (mw_now w) (mw_log w) x" if "x \<in> set (mw_table w)" for x using inv that by (simp add: idem_inv_def)
  then have ids: "id_id x \<noteq> id_id r" if "x \<in> set (mw_table w)" for x using fresh that unfolding row_ok_def by metis
  then have t: "t = mw_table w @ [r]" and free: "\<And>x. x \<in> set (mw_table w) \<Longrightarrow> \<not> same_key x r"
    using s by (auto simp: idem_save_def list_ex_iff split: if_splits)
  have log: "id_id (hr_record x) \<in> used" "remembered (mw_now w) (mw_table w) x" if "x \<in> set (mw_log w)" for x
    using inv that by (auto simp: idem_inv_def)
  have new: "row_ok (insert (id_id r) used) (mw_now w) (mw_log w @ [?g]) r"
  proof -
    have other: "id_id (hr_record x) \<noteq> id_id r" if "x \<in> set (mw_log w)" for x using log(1)[OF that] fresh by metis
    then have "agrees (mw_log w @ [?g]) r" by (auto simp: agrees_def)
    then show ?thesis using st by (auto simp: row_ok_def)
  qed
  have "apart x ?g" if "x \<in> set (mw_log w)" for x
    using log(2)[OF that] free by (auto simp: apart_def remembered_def over_def)
  then have "sorted_wrt apart (mw_log w @ [?g])" using inv by (simp add: idem_inv_def sorted_wrt_append)
  moreover have "unique_rows t" using save_unique[OF s] ids inv by (auto simp: idem_inv_def)
  moreover have "row_ok (insert (id_id r) used) (mw_now w) (mw_log w @ [?g]) x" if "x \<in> set t" for x
    using that t new row_ok_snoc[OF rows g] by auto
  moreover have "call_ok (insert (id_id r) used) (mw_now w) (mw_log w @ [?g]) c" if "c \<in> set ((mw_calls w)[i := I_run r])" for c
  proof -
    have "call_ok used (mw_now w) (mw_log w) c" if "c \<in> set (mw_calls w)" for c using inv that by (simp add: idem_inv_def)
    then show ?thesis using that set_update_subset_insert[of "mw_calls w" i "I_run r"] new st call_ok_snoc[OF _ g] by fastforce
  qed
  moreover have "id_id (hr_record x) \<in> insert (id_id r) used \<and> remembered (mw_now w) t x" if "x \<in> set (mw_log w @ [?g])" for x
    using that log t st by (auto simp: remembered_def)
  ultimately show ?thesis by (simp add: idem_inv_def)
qed

subsection \<open>Moves\<close>

lemma resolve_call_ok:
  assumes "row_ok used now gs existing"
  shows "call_ok used now gs (resolveExisting now n params existing)"
  using assms dead_expired[OF assms]
  by (auto simp: resolveExisting_def isExpired_def row_ok_def split: IdempotencyRecordStatus.splits)

lemma find_mem: "idem_find scope key t = Some r \<Longrightarrow> r \<in> set t"
  by (auto simp: idem_find_def find_Some_iff)

lemma execute_call_ok: "call_ok used now gs (execute params)"
  by (auto simp: execute_def split: sum.splits)

lemma claim_call_ok: "call_ok used now gs (claim_key env t n params)"
  by (simp add: claim_key_def)

lemma next_call_ok: "call_ok used now gs (next_attempt n params)"
  by (simp add: next_attempt_def)

lemma mark_failed_ok: "row_ok used now gs r \<Longrightarrow> dead now gs (id_id r) \<Longrightarrow> call_ok used now gs (mark_failed r e m)"
  by (auto simp: mark_failed_def row_ok_def agrees_def)

lemma entered_waits [simp]: "entered now c (next_attempt n params) = []"
  by (simp add: next_attempt_def)

lemma same_world: "(w :: idem_world)\<lparr>mw_calls := cs, mw_table := mw_table w, mw_log := mw_log w\<rparr> = w\<lparr>mw_calls := cs\<rparr>"
  by simp

lemma call_inv:
  assumes "idem_inv used w" "i < length (mw_calls w)" "call_ok used (mw_now w) (mw_log w) c"
  shows "idem_inv used (w\<lparr>mw_calls := (mw_calls w)[i := c]\<rparr>)"
  using table_inv[OF assms, of "mw_table w"] assms(1) unfolding same_world by (simp add: idem_inv_def)

lemma unsaved_dead:
  assumes inv: "idem_inv used w" and r: "row_ok used (mw_now w) (mw_log w) r" and s: "idem_save r (mw_table w) = None"
  shows "dead (mw_now w) (mw_log w) (id_id r)"
  using inv s unfolding dead_def idem_inv_def remembered_def by (fastforce simp: idem_save_def list_ex_iff split: if_splits)

lemma db_inv:
  assumes inv: "idem_inv used w" and i: "i < length (mw_calls w)" and fresh: "newId \<notin> used"
  shows "idem_inv (insert newId used) (idem_step env (Db i Db_ok newId) w)"
proof -
  have c: "call_ok used (mw_now w) (mw_log w) (mw_calls w ! i)" using inv i by (simp add: idem_inv_def)
  have rows: "row_ok used (mw_now w) (mw_log w) x" if "x \<in> set (mw_table w)" for x using inv that by (simp add: idem_inv_def)
  note weaken = inv_used[OF _ subset_insertI]
  show ?thesis
  proof (cases "mw_calls w ! i")
    case (I_find n params)
    define c' where "c' = (case idem_find (ep_scope params) (ep_key params) (mw_table w) of
        None \<Rightarrow> claim_key env (mw_now w) n params | Some existing \<Rightarrow> resolveExisting (mw_now w) n params existing)"
    have "call_ok used (mw_now w) (mw_log w) c'"
      using resolve_call_ok rows find_mem claim_call_ok by (auto simp: c'_def split: option.splits)
    from weaken[OF call_inv[OF inv i this]] show ?thesis using i I_find by (simp add: c'_def)
  next
    case (I_remove n params existing)
    have "idem_inv used (w\<lparr>mw_calls := (mw_calls w)[i := claim_key env (mw_now w) n params],
        mw_table := filter (\<lambda>x. id_id x \<notin> {id_id existing}) (mw_table w), mw_log := mw_log w\<rparr>)"
      using c I_remove by (intro remove_inv[OF inv i claim_call_ok]) auto
    from weaken[OF this] show ?thesis using i I_remove by (simp add: db_write_def idem_remove_def)
  next
    case (I_insert n params claim)
    show ?thesis
    proof (cases "idem_save (claim\<lparr>id_id := newId\<rparr>) (mw_table w)")
      case None
      then show ?thesis using weaken[OF call_inv[OF inv i next_call_ok, of n params]] i I_insert
        by (simp add: db_write_def entered_waits)
    next
      case (Some t)
      have "idem_inv (insert newId used) (w\<lparr>mw_calls := (mw_calls w)[i := I_run (claim\<lparr>id_id := newId\<rparr>)], mw_table := t,
          mw_log := mw_log w @ [\<lparr>hr_record = claim\<lparr>id_id := newId\<rparr>, hr_started = mw_now w, hr_failed = False\<rparr>]\<rparr>)"
        using insert_inv[OF inv i, of "claim\<lparr>id_id := newId\<rparr>" t] fresh c I_insert Some by simp
      then show ?thesis using i I_insert Some by (simp add: db_write_def)
    qed
  next
    case (I_complete rec code body)
    show ?thesis
    proof (cases "idem_save rec (mw_table w)")
      case None
      have "call_ok used (mw_now w) (mw_log w) (mark_failed rec Unique_violation (error_message Unique_violation))"
        using c I_complete unsaved_dead[OF inv _ None] by (intro mark_failed_ok) auto
      from weaken[OF call_inv[OF inv i this]] show ?thesis using i I_complete None by (simp add: db_write_def mark_failed_def)
    next
      case (Some t)
      then show ?thesis using weaken[OF save_inv[OF inv i _ _ Some]] c i I_complete by (simp add: db_write_def)
    qed
  next
    case (I_fail rec e)
    show ?thesis
    proof (cases "idem_save rec (mw_table w)")
      case None
      then show ?thesis using weaken[OF call_inv[OF inv i]] i I_fail by (simp add: db_write_def)
    next
      case (Some t)
      then show ?thesis using weaken[OF save_inv[OF inv i _ _ Some]] c i I_fail by (simp add: db_write_def)
    qed
  next
    case I_purge
    define xs where "xs = filter (\<lambda>x. id_expiresAt x < mw_now w) (mw_table w)"
    define c' where "c' = (case xs of [] \<Rightarrow> I_purged 0 | xs \<Rightarrow> I_purging (map id_id xs))"
    have old: "id_id x \<in> used \<and> dead (mw_now w) (mw_log w) (id_id x)" if "x \<in> set xs" for x
      using dead_expired[OF rows, of x] rows[of x] that by (auto simp: xs_def row_ok_def)
    have "call_ok used (mw_now w) (mw_log w) c'" using old by (cases xs) (auto simp: c'_def)
    from weaken[OF call_inv[OF inv i this]] show ?thesis
      using i I_purge by (cases xs) (simp_all add: c'_def flip: xs_def)
  next
    case (I_purging ids)
    have "idem_inv used (w\<lparr>mw_calls := (mw_calls w)[i := I_purged (length ids)],
        mw_table := filter (\<lambda>x. id_id x \<notin> set ids) (mw_table w), mw_log := mw_log w\<rparr>)"
      using c I_purging by (intro remove_inv[OF inv i]) auto
    from weaken[OF this] show ?thesis using i I_purging by (simp add: db_write_def)
  qed (use weaken[OF call_inv[OF inv i c]] i in simp_all)
qed

lemma append_call_inv:
  assumes "idem_inv used w" "\<And>now gs. call_ok used now gs c"
  shows "idem_inv used (w\<lparr>mw_calls := mw_calls w @ [c]\<rparr>)"
  using assms by (auto simp: idem_inv_def)

lemma handle_inv:
  assumes inv: "idem_inv used w" and i: "i < length (mw_calls w)"
  shows "idem_inv used (idem_step env (Handle i res) w)"
proof -
  let ?f = "threw res (mw_calls w ! i)"
  have c: "call_ok used (mw_now w) (mw_log w) (mw_calls w ! i)" using inv i by (simp add: idem_inv_def)
  have new: "call_ok used (mw_now w) (map ?f (mw_log w)) (handler_settles res (mw_calls w ! i))"
  proof (cases "(res, mw_calls w ! i)" rule: handler_settles.cases)
    case (1 code body rec)
    then show ?thesis using call_ok_threw[OF c, of res "mw_calls w ! i"] by (auto simp: mark_completed_def row_ok_def agrees_def)
  next
    case (2 m rec)
    have "dead (mw_now w) (map ?f (mw_log w)) (id_id rec)" using 2 by (auto simp: dead_def over_def)
    then show ?thesis using 2 call_ok_threw[OF c, of res "mw_calls w ! i"] by (auto intro: mark_failed_ok)
  qed (use call_ok_threw[OF c, of res "mw_calls w ! i"] in auto)
  have "apart g h \<Longrightarrow> apart (?f g) (?f h)" for g h by (cases "(res, mw_calls w ! i, g)" rule: threw.cases) (auto simp: apart_def)
  then have "sorted_wrt apart (map ?f (mw_log w))" using inv unfolding idem_inv_def sorted_wrt_map by (auto elim: sorted_wrt_mono_rel[rotated])
  moreover have "remembered (mw_now w) (mw_table w) (?f g)" if "remembered (mw_now w) (mw_table w) g" for g
    using that threw_over[of "mw_now w" g] by (auto simp: remembered_def)
  moreover have "call_ok used (mw_now w) (map ?f (mw_log w)) d" if "d \<in> set ((mw_calls w)[i := handler_settles res (mw_calls w ! i)])" for d
  proof -
    have "d = handler_settles res (mw_calls w ! i) \<or> d \<in> set (mw_calls w)" using that set_update_subset_insert by fast
    moreover have "call_ok used (mw_now w) (mw_log w) d" if "d \<in> set (mw_calls w)" using inv that by (simp add: idem_inv_def)
    ultimately show ?thesis using new call_ok_threw by blast
  qed
  ultimately show ?thesis using inv i by (auto simp: idem_inv_def intro: row_ok_threw)
qed

lemma idem_step_inv:
  assumes inv: "idem_inv used w" and m: "answered m" "set (new_ids m) \<inter> used = {}"
  shows "idem_inv (used \<union> set (new_ids m)) (idem_step env m w)"
proof (cases m)
  case (Submit params)
  then show ?thesis using append_call_inv[OF inv execute_call_ok] by simp
next
  case Purge
  then show ?thesis using append_call_inv[OF inv, of I_purge] by simp
next
  case (Db i r newId)
  then show ?thesis using m db_inv[OF inv, of i newId env] inv_used[OF inv, of "insert newId used"] by (cases "i < length (mw_calls w)") auto
next
  case (Handle i res)
  then show ?thesis using handle_inv[OF inv, of i env res] inv by (cases "i < length (mw_calls w)") auto
next
  case (Pass d)
  then show ?thesis using inv by (auto simp: idem_inv_def intro: row_ok_later call_ok_later remembered_later)
qed

lemma idem_run_inv:
  assumes "idem_inv used w" "list_all answered ms" "distinct (concat (map new_ids ms))" "set (concat (map new_ids ms)) \<inter> used = {}"
  shows "\<exists>used'. idem_inv used' (run (idem_step env) ms w)"
  using assms
proof (induction ms arbitrary: used w)
  case (Cons m ms)
  then have "idem_inv (used \<union> set (new_ids m)) (idem_step env m w)" by (intro idem_step_inv) auto
  then show ?case using Cons.IH[of "used \<union> set (new_ids m)" "idem_step env m w"] Cons.prems by auto
qed auto

section \<open>Guarantees\<close>

lemma no_requests_inv: "idem_inv {} no_requests"
  by (simp add: idem_inv_def no_requests_def unique_rows_def)

text \<open>
  C2. Two handlers that ran for one scope and key never overlap within the life of a record: whatever the
  interleaving of the calls, and whichever of them die on the way, a handler that has not thrown has had its record
  expire before the next handler for the same scope and key starts.  It holds as long as the database
  answers every call it receives, and gives new rows new ids.
\<close>

theorem handler_once_while_fresh:
  assumes "list_all answered ms" "distinct (concat (map new_ids ms))" "w = run (idem_step env) ms no_requests"
    "i < j" "j < length (mw_log w)" "same_key (hr_record (mw_log w ! i)) (hr_record (mw_log w ! j))" "\<not> hr_failed (mw_log w ! i)"
  shows "id_expiresAt (hr_record (mw_log w ! i)) \<le> hr_started (mw_log w ! j)"
proof -
  obtain used where "idem_inv used w" using idem_run_inv[OF no_requests_inv assms(1,2)] assms(3) by auto
  then have "apart (mw_log w ! i) (mw_log w ! j)" using assms(4,5) by (simp add: idem_inv_def sorted_wrt_iff_nth_less)
  then show ?thesis using assms(6,7) by (simp add: apart_def)
qed

text \<open>Two calls race for a key, the loser is refused; the record expires and a third call runs.\<close>

abbreviation charge :: ExecuteIdempotentParams where
  "charge \<equiv> \<lparr>ep_key = ''charge-0001'', ep_scope = ''POST:/pay:u1'', ep_requestHash = ''h'', ep_ttlSeconds = Some 1\<rparr>"

definition raced :: "idem_move list" where
  "raced = [Submit charge, Submit charge, Db 0 Db_ok ''a'', Db 1 Db_ok ''b'', Db 0 Db_ok ''c'', Db 1 Db_ok ''d'', Db 1 Db_ok ''e'',
     Handle 0 (Inr (201, JNull)), Db 0 Db_ok ''f'', Pass 1000, Submit charge, Db 2 Db_ok ''g'', Db 2 Db_ok ''h'', Db 2 Db_ok ''i'']"

theorem handler_once_while_fresh_witness:
  "map hr_started (mw_log (run (idem_step None) raced no_requests)) = [0, 1000] \<and>
   id_expiresAt (hr_record (mw_log (run (idem_step None) raced no_requests) ! 0)) \<le> hr_started (mw_log (run (idem_step None) raced no_requests) ! 1)"
proof
  show "map hr_started (mw_log (run (idem_step None) raced no_requests)) = [0, 1000]" by code_simp
  show "id_expiresAt (hr_record (mw_log (run (idem_step None) raced no_requests) ! 0)) \<le> hr_started (mw_log (run (idem_step None) raced no_requests) ! 1)"
    by (rule handler_once_while_fresh[OF _ _ refl]) code_simp+
qed

lemma find_saved:
  assumes "distinct (map id_id t)" "idem_find (id_scope r) (id_key r) t = Some old" "id_id old = id_id r"
  shows "idem_save r t = Some (map (\<lambda>x. if id_id x = id_id r then r else x) t)"
    and "idem_find (id_scope r) (id_key r) (map (\<lambda>x. if id_id x = id_id r then r else x) t) = Some r"
proof -
  show "idem_save r t = Some (map (\<lambda>x. if id_id x = id_id r then r else x) t)"
    using find_mem[OF assms(2)] assms(3) by (auto simp: idem_save_def list_ex_iff)
  show "idem_find (id_scope r) (id_key r) (map (\<lambda>x. if id_id x = id_id r then r else x) t) = Some r"
    using assms
  proof (induction t)
    case (Cons x t)
    show ?case
    proof (cases "same_key x r")
      case False
      then have old: "old \<in> set t" using Cons.prems find_mem[of "id_scope r" "id_key r" t old] by (auto simp: idem_find_def)
      then have "id_id x \<noteq> id_id r" using Cons.prems(1,3) by (auto simp: image_iff)
      then show ?thesis using Cons False by (auto simp: idem_find_def)
    qed (use Cons in \<open>auto simp: idem_find_def\<close>)
  qed (simp add: idem_find_def)
qed

text \<open>
  A response makes the round trip through the table: once a handler's result is saved, the same request
  under the same key is answered with that status and body, marked as replayed, and no handler
  starts; a body that is \<open>undefined\<close> comes back as \<open>null\<close>.
\<close>

theorem response_round_trip:
  assumes i: "i < length (mw_calls w)" "mw_calls w ! i = I_run rec" and n: "n = length (mw_calls w)"
    and row: "distinct (map id_id (mw_table w))" "idem_find (id_scope rec) (id_key rec) (mw_table w) = Some old" "id_id old = id_id rec"
    and again: "assertValidKey (ep_key params) = Inr (id_key rec)" "ep_scope params = id_scope rec" "ep_requestHash params = id_requestHash rec"
    and fresh: "mw_now w < id_expiresAt rec"
    and w': "w' = run (idem_step env) [Handle i (Inr (code, body)), Db i Db_ok a, Submit params, Db n Db_ok b] w"
  shows "mw_calls w' ! i = I_done (Inr \<lparr>oc_replayed = False, oc_statusCode = code, oc_body = body, oc_key = id_key rec\<rparr>)
    \<and> mw_calls w' ! n = I_done (Inr \<lparr>oc_replayed = True, oc_statusCode = code,
        oc_body = (if body = JUndefined then JNull else body), oc_key = id_key rec\<rparr>)
    \<and> mw_log w' = mw_log w"
proof -
  define saved where "saved = rec\<lparr>id_status := COMPLETED, id_responseCode := Some code,
    id_responseBody := Some (if body = JUndefined then JNull else body)\<rparr>"
  define t where "t = map (\<lambda>x. if id_id x = id_id saved then saved else x) (mw_table w)"
  have same: "id_scope saved = id_scope rec" "id_key saved = id_key rec" "id_id saved = id_id rec" by (simp_all add: saved_def)
  have save: "idem_save saved (mw_table w) = Some t" and found: "idem_find (id_scope rec) (id_key rec) t = Some saved"
    using find_saved[of "mw_table w" saved old] row unfolding same t_def by simp_all
  have ran: "idem_step env (Handle i (Inr (code, body))) w = w\<lparr>mw_calls := (mw_calls w)[i := I_complete saved code body]\<rparr>"
    using i by (simp add: mark_completed_def saved_def[symmetric] threw_returned)
  have stored: "idem_step env (Db i Db_ok a) (w\<lparr>mw_calls := (mw_calls w)[i := I_complete saved code body]\<rparr>) =
      w\<lparr>mw_calls := (mw_calls w)[i := I_done (Inr \<lparr>oc_replayed = False, oc_statusCode = code, oc_body = body, oc_key = id_key rec\<rparr>)], mw_table := t\<rparr>"
    using i save by (simp add: db_write_def same)
  have asked: "execute params = I_find 0 (params\<lparr>ep_key := id_key rec\<rparr>)" using again by (simp add: execute_def)
  show ?thesis unfolding w' run_simps ran stored
    using i again fresh found n by (simp add: asked nth_append resolveExisting_def isExpired_def readStoredBody_def saved_def)
qed

text \<open>A payment whose handler is running.\<close>

definition charging :: idem_world where
  "charging = run (idem_step None) [Submit charge, Db 0 Db_ok ''a'', Db 0 Db_ok ''b''] no_requests"

definition charged :: idem_world where
  "charged = run (idem_step None) [Handle 0 (Inr (201, JNum (JInt 5))), Db 0 Db_ok ''c'', Submit charge, Db 1 Db_ok ''d''] charging"

theorem response_round_trip_witness:
  "mw_calls charged ! 0 = I_done (Inr \<lparr>oc_replayed = False, oc_statusCode = 201, oc_body = JNum (JInt 5), oc_key = ''charge-0001''\<rparr>)
   \<and> mw_calls charged ! 1 = I_done (Inr \<lparr>oc_replayed = True, oc_statusCode = 201, oc_body = JNum (JInt 5), oc_key = ''charge-0001''\<rparr>)
   \<and> mw_log charged = mw_log charging"
proof -
  let ?rec = "hd (mw_table charging)"
  have key: "id_key ?rec = ''charge-0001''" by code_simp
  have a1: "0 < length (mw_calls charging)" by code_simp
  have a2: "mw_calls charging ! 0 = I_run ?rec" by code_simp
  have a3: "1 = length (mw_calls charging)" by code_simp
  have a4: "distinct (map id_id (mw_table charging))" by code_simp
  have a5: "idem_find (id_scope ?rec) (id_key ?rec) (mw_table charging) = Some ?rec" by code_simp
  have a6: "assertValidKey (ep_key charge) = Inr (id_key ?rec)" by code_simp
  have a7: "ep_scope charge = id_scope ?rec" by code_simp
  have a8: "ep_requestHash charge = id_requestHash ?rec" by code_simp
  have a9: "mw_now charging < id_expiresAt ?rec" by code_simp
  note trip = response_round_trip[OF a1 a2 a3 a4 a5 refl a6 a7 a8 a9 charged_def]
  from trip show ?thesis unfolding key by simp
qed

text \<open>A payment whose response cannot be saved, and its retry.\<close>

definition unsaved :: "idem_move list" where
  "unsaved = [Submit charge, Db 0 Db_ok ''a'', Db 0 Db_ok ''b'', Handle 0 (Inr (201, JNull)), Db 0 (Db_fail ''connection lost'') ''c'', Db 0 Db_ok ''d'',
     Submit charge, Db 1 Db_ok ''e'', Db 1 Db_ok ''f'', Db 1 Db_ok ''g'', Handle 1 (Inr (201, JNull)), Db 1 Db_ok ''h'']"

text \<open>
  A database error while a response is saved is caught together with the handler's errors: the record is
  marked as failed although its handler succeeded, and a retry within the record's life runs the handler a
  second time, to the end, where the service promises at most one run.
\<close>

theorem lost_save_runs_twice:
  "let w = run (idem_step None) unsaved no_requests in
   map hr_failed (mw_log w) = [False, False] \<and> map (id_key \<circ> hr_record) (mw_log w) = [''charge-0001'', ''charge-0001''] \<and>
   map (id_scope \<circ> hr_record) (mw_log w) = [''POST:/pay:u1'', ''POST:/pay:u1''] \<and>
   hr_started (mw_log w ! 1) < id_expiresAt (hr_record (mw_log w ! 0)) \<and>
   map id_status (mw_table w) = [COMPLETED]"
  by code_simp

text \<open>The scope keeps 255 characters, so behind a long route two actors share their keys.\<close>

lemma long_route_drops_actor:
  assumes "drop_slashes (hd (split_on CHR ''?'' route)) = path" "254 \<le> length m + length path" "path \<noteq> []"
  shows "buildScope m (Some route) a = buildScope m (Some route) b"
proof -
  have "255 \<le> length (toUpperCase m @ '':'' @ path @ '':'')" using assms(2) by (simp add: toUpperCase_def)
  then have "take 255 (toUpperCase m @ '':'' @ path @ '':'' @ x) = take 255 (toUpperCase m @ '':'' @ path @ '':'')" for x :: string
    using take_append[of 255 "toUpperCase m @ '':'' @ path @ '':''" x] by simp
  then show ?thesis unfolding buildScope_def Let_def using assms(1,3) by (simp only: option.case if_False)
qed

text \<open>The payload is compared before the expiry, so an expired key is refused for a new payload until it is purged.\<close>

lemma expired_key_conflicts:
  assumes "idem_find (ep_scope params) (ep_key params) t = Some r" "id_requestHash r \<noteq> ep_requestHash params"
  shows "idem_advance env Db_ok now newId (I_find n params) t =
    (I_done (Inl (Idem_Conflict ''Idempotency-Key was already used for a different request payload'')), t)"
  using assms by (simp add: resolveExisting_def)

end
