(* ===== verification/Js_Values.thy ===== *)
theory Js_Values
  imports Trading_Policy
begin

text \<open>
  JavaScript values where the sources handle them untyped: \<open>dyn\<close>, the conversions to strings, numbers and booleans,
  comparison of numbers, \<open>JSON.stringify\<close>, and doubles.  Numbers are the rationals the doubles denote, with the
  three special values; a quotient and a product of doubles are rounded by \<open>fl64\<close>.  What a host supplies is the record
  \<open>host\<close>: the parsing and rendering of numbers and dates, the collation of \<open>localeCompare\<close>, and SHA-256.
\<close>

section \<open>Values\<close>

record host = number_env +
  hs_parse :: "string \<Rightarrow> int option" \<comment> \<open>\<open>Date.parse\<close>, \<open>None\<close> for NaN\<close>
  hs_now :: string \<comment> \<open>\<open>new Date().toISOString()\<close>\<close>
  hs_localeLe :: "string \<Rightarrow> string \<Rightarrow> bool"
  hs_sha256 :: "string \<Rightarrow> string"

datatype dyn =
    D_undefined
  | D_null
  | D_bool bool
  | D_num js_number
  | D_str string
  | D_list "dyn list"
  | D_obj "(string \<times> dyn) list"

abbreviation sq :: string where
  "sq \<equiv> [CHR 0x27]"

abbreviation show_count :: "nat \<Rightarrow> string" where
  "show_count n \<equiv> show_int (int n)"

fun js_show :: "host \<Rightarrow> js_number \<Rightarrow> string" where
  "js_show h (Fin q) = (if of_int \<lfloor>q\<rfloor> = q \<and> \<bar>\<lfloor>q\<rfloor>\<bar> < 1000000000000000000000 then show_int \<lfloor>q\<rfloor> else ne_toString h q)"
| "js_show h PosInfinity = ''Infinity''"
| "js_show h NegInfinity = ''-Infinity''"
| "js_show h NotANumber = ''NaN''"

fun js_less :: "js_number \<Rightarrow> js_number \<Rightarrow> bool" where
  "js_less (Fin a) (Fin b) = (a < b)"
| "js_less NegInfinity (Fin _) = True"
| "js_less NegInfinity PosInfinity = True"
| "js_less (Fin _) PosInfinity = True"
| "js_less _ _ = False"

definition js_le :: "js_number \<Rightarrow> js_number \<Rightarrow> bool" where
  "js_le a b = (js_less a b \<or> a = b \<and> a \<noteq> NotANumber)"

definition js_max :: "js_number \<Rightarrow> js_number \<Rightarrow> js_number" where
  "js_max a b = (if a = NotANumber \<or> b = NotANumber then NotANumber else if js_less a b then b else a)"

fun isFinite :: "js_number \<Rightarrow> bool" where
  "isFinite (Fin _) = True"
| "isFinite _ = False"

fun js_String :: "host \<Rightarrow> dyn \<Rightarrow> string" where
  "js_String h D_undefined = ''undefined''"
| "js_String h D_null = ''null''"
| "js_String h (D_bool b) = (if b then ''true'' else ''false'')"
| "js_String h (D_num n) = js_show h n"
| "js_String h (D_str s) = s"
| "js_String h (D_list xs) = join '','' (map (\<lambda>x. if x = D_undefined \<or> x = D_null then [] else js_String h x) xs)"
| "js_String h (D_obj _) = ''[object Object]''"

fun js_Number :: "host \<Rightarrow> dyn \<Rightarrow> js_number" where
  "js_Number h D_undefined = NotANumber"
| "js_Number h D_null = Fin 0"
| "js_Number h (D_bool b) = Fin (if b then 1 else 0)"
| "js_Number h (D_num n) = n"
| "js_Number h (D_str s) = ne_Number h s"
| "js_Number h (D_list xs) = ne_Number h (js_String h (D_list xs))"
| "js_Number h (D_obj _) = NotANumber"

fun js_Boolean :: "dyn \<Rightarrow> bool" where
  "js_Boolean D_undefined = False"
| "js_Boolean D_null = False"
| "js_Boolean (D_bool b) = b"
| "js_Boolean (D_num n) = (n \<noteq> Fin 0 \<and> n \<noteq> NotANumber)"
| "js_Boolean (D_str s) = (s \<noteq> [])"
| "js_Boolean (D_list _) = True"
| "js_Boolean (D_obj _) = True"

text \<open>\<open>a ?? null\<close>, and a spread \<open>{...a, ...b}\<close>.\<close>

definition or_null :: "dyn \<Rightarrow> dyn" where
  "or_null v = (if v = D_undefined then D_null else v)"

definition spread :: "(string, dyn) jsmap \<Rightarrow> (string, dyn) jsmap \<Rightarrow> (string, dyn) jsmap" where
  "spread a b = foldl (\<lambda>m (k, v). map_set k v m) a b"

definition dyn_field :: "(string, dyn) jsmap \<Rightarrow> string \<Rightarrow> dyn" where
  "dyn_field raw k = (case map_get raw k of None \<Rightarrow> D_undefined | Some v \<Rightarrow> v)"

text \<open>\<open>JSON.stringify\<close> of a value without cycles: fields that are undefined are left out, in lists they are null.\<close>

fun stringify :: "host \<Rightarrow> dyn \<Rightarrow> string" where
  "stringify h D_undefined = ''null''"
| "stringify h D_null = ''null''"
| "stringify h (D_bool b) = (if b then ''true'' else ''false'')"
| "stringify h (D_num n) = (if isFinite n then js_show h n else ''null'')"
| "stringify h (D_str s) = json_string s"
| "stringify h (D_list xs) = ''['' @ join '','' (map (stringify h) xs) @ '']''"
| "stringify h (D_obj entries) =
     ''{'' @ join '','' (map (\<lambda>(k, v). json_string k @ '':'' @ stringify h v) (filter (\<lambda>(k, v). v \<noteq> D_undefined) entries)) @ ''}''"

text \<open>Digits of large numbers are evaluated on integers.\<close>

function int_digits :: "int \<Rightarrow> string" where
  "int_digits i = (if i < 10 then [digit_char (nat i)] else int_digits (i div 10) @ [digit_char (nat (i mod 10))])"
  by pat_completeness auto

termination
  by (relation "measure nat") auto

declare int_digits.simps [simp del]

lemma show_nat_digits: "0 \<le> i \<Longrightarrow> show_nat (nat i) = int_digits i"
proof (induction i rule: int_digits.induct)
  case (1 i)
  show ?case
  proof (cases "i < 10")
    case True
    then have "nat i < 10" using 1(2) by linarith
    then show ?thesis using True by (simp add: show_nat.simps[of "nat i"] int_digits.simps[of i])
  next
    case False
    then have "nat i div 10 = nat (i div 10)" "nat i mod 10 = nat (i mod 10)" "\<not> nat i < 10" "0 \<le> i div 10"
      using 1(2) by (simp_all add: nat_div_distrib nat_mod_distrib)
    then show ?thesis using 1(1) False by (simp add: show_nat.simps[of "nat i"] int_digits.simps[of i])
  qed
qed

lemma show_int_code [code]: "show_int i = (if i < 0 then ''-'' @ int_digits (- i) else int_digits i)"
  by (simp add: show_int_def show_nat_digits)

subsection \<open>Doubles\<close>

function bits :: "int \<Rightarrow> nat" where
  "bits n = (if n \<le> 0 then 0 else Suc (bits (n div 2)))"
  by pat_completeness auto

termination
  by (relation "measure nat") auto

declare bits.simps [simp del]

definition pow2 :: "int \<Rightarrow> rat" where
  "pow2 e = (if 0 \<le> e then 2 ^ nat e else 1 / 2 ^ nat (- e))"

text \<open>The nearest integer, a half going to the even one; and the nearest double with 53 bits, in the normal range.\<close>

definition round_even :: "rat \<Rightarrow> int" where
  "round_even q =
     (let f = \<lfloor>q\<rfloor>; d = q - of_int f in
      if d < 1 / 2 then f else if d > 1 / 2 then f + 1 else if even f then f else f + 1)"

definition fl64 :: "rat \<Rightarrow> rat" where
  "fl64 q =
     (if q = 0 then 0
      else let (a, b) = quotient_of \<bar>q\<bar>;
               e = int (bits a) - int (bits b) - 53;
               e' = (if \<bar>q\<bar> / pow2 e \<ge> 2 ^ 53 then e + 1 else e)
           in sgn q * of_int (round_even (\<bar>q\<bar> / pow2 e')) * pow2 e')"

definition js_round :: "rat \<Rightarrow> int" where
  "js_round q = \<lfloor>q + 1 / 2\<rfloor>"

definition toFixed2 :: "rat \<Rightarrow> string" where
  "toFixed2 q =
     (let n = \<lfloor>q * 100 + 1 / 2\<rfloor>; c = n mod 100 in
      show_int (n div 100) @ ''.'' @ (if c < 10 then ''0'' else []) @ show_int c)"

definition toFixed1 :: "rat \<Rightarrow> string" where
  "toFixed1 q = (let n = \<lfloor>q * 10 + 1 / 2\<rfloor> in show_int (n div 10) @ ''.'' @ show_int (n mod 10))"

end
