(* ===== verification/Policy_Simulation.thy ===== *)
theory Policy_Simulation
  imports Js_Values
begin

text \<open>
  The preview of a policy change, \<open>src/policy/policy-simulation.rules.ts\<close>: the policies of five domains, the merge of
  a proposal with the current policy, its validation, the records of a population snapshot that the
  change would touch, and the verdict.

  A policy arrives as an object of any values, \<open>dyn\<close>, and leaves normalisation typed.  Arrays that a snapshot leaves
  out are empty.
\<close>

section \<open>Digests\<close>

fun canonicalizeValue :: "host \<Rightarrow> dyn \<Rightarrow> string" where
  "canonicalizeValue h D_undefined = ''null''"
| "canonicalizeValue h D_null = ''null''"
| "canonicalizeValue h (D_bool b) = (if b then ''true'' else ''false'')"
| "canonicalizeValue h (D_num n) = (if isFinite n then js_show h n else ''null'')"
| "canonicalizeValue h (D_str s) = json_string s"
| "canonicalizeValue h (D_list xs) = ''['' @ join '','' (map (canonicalizeValue h) xs) @ '']''"
| "canonicalizeValue h (D_obj entries) =
     ''{'' @ join '','' (map (\<lambda>(k, r). json_string k @ '':'' @ r)
       (js_sort by_key (map (\<lambda>(k, v). (k, canonicalizeValue h v)) (filter (\<lambda>(k, v). v \<noteq> D_undefined) entries)))) @ ''}''"

definition computeDigest :: "host \<Rightarrow> string \<Rightarrow> dyn \<Rightarrow> string" where
  "computeDigest h namespace payload = hs_sha256 h (namespace @ '':'' @ canonicalizeValue h payload)"

section \<open>Policies\<close>

datatype PolicyDomain = Trading | Defi_adapters | Portfolio_rebalancing | Auth_access | Notification_routing

datatype PolicySimulationStatus = Safe_to_apply | Caution_required | High_impact_review_required | Blocked_invalid_policy

datatype PolicyImpactSeverity = Low | Medium | High | Critical

datatype PolicyReversibility = Fully_reversible | Partially_reversible | Irreversible

datatype SnapshotCompleteness = Complete | Partial_sample | Stale_snapshot

record trading_policy =
  st_enabled :: bool
  st_maxOrderAmount :: js_number
  st_allowedAssets :: "string list option"
  st_allowedSides :: "string list"

record DeFiAdapterPolicy =
  dp_enabledAdapters :: "string list"
  dp_allowedChains :: "string list"
  dp_maxSlippageBps :: js_number
  dp_minHealthFactor :: js_number
  dp_emergencyExitOnly :: bool

record PortfolioRebalancingPolicy =
  rp_autoRebalanceEnabled :: bool
  rp_minTradeSizeUsd :: js_number
  rp_maxSingleAssetWeightPct :: js_number
  rp_driftThresholdPct :: js_number

record AuthAccessPolicy =
  ap_requireMfaForSensitiveActions :: bool
  ap_minKycTier :: js_number
  ap_sessionTtlMinutes :: js_number
  ap_revokeUnverifiedSessions :: bool
  ap_disallowedRoles :: "string list"

record NotificationRoutingPolicy =
  np_mandatorySecurityChannels :: "string list"
  np_digestWindowMinutes :: js_number
  np_suppressMarketingChannels :: bool
  np_maxDeliveryRetries :: js_number

record DomainPolicyMap =
  dm_trading :: trading_policy
  dm_defi_adapters :: DeFiAdapterPolicy
  dm_portfolio_rebalancing :: PortfolioRebalancingPolicy
  dm_auth_access :: AuthAccessPolicy
  dm_notification_routing :: NotificationRoutingPolicy

datatype domain_policy =
    P_trading trading_policy
  | P_defi DeFiAdapterPolicy
  | P_portfolio PortfolioRebalancingPolicy
  | P_auth AuthAccessPolicy
  | P_notification NotificationRoutingPolicy

fun domain_name :: "PolicyDomain \<Rightarrow> string" where
  "domain_name Trading = ''trading''"
| "domain_name Defi_adapters = ''defi_adapters''"
| "domain_name Portfolio_rebalancing = ''portfolio_rebalancing''"
| "domain_name Auth_access = ''auth_access''"
| "domain_name Notification_routing = ''notification_routing''"

fun policy_domain :: "domain_policy \<Rightarrow> PolicyDomain" where
  "policy_domain (P_trading _) = Trading"
| "policy_domain (P_defi _) = Defi_adapters"
| "policy_domain (P_portfolio _) = Portfolio_rebalancing"
| "policy_domain (P_auth _) = Auth_access"
| "policy_domain (P_notification _) = Notification_routing"

fun policy_of :: "DomainPolicyMap \<Rightarrow> PolicyDomain \<Rightarrow> domain_policy" where
  "policy_of m Trading = P_trading (dm_trading m)"
| "policy_of m Defi_adapters = P_defi (dm_defi_adapters m)"
| "policy_of m Portfolio_rebalancing = P_portfolio (dm_portfolio_rebalancing m)"
| "policy_of m Auth_access = P_auth (dm_auth_access m)"
| "policy_of m Notification_routing = P_notification (dm_notification_routing m)"

fun set_policy :: "domain_policy \<Rightarrow> DomainPolicyMap \<Rightarrow> DomainPolicyMap" where
  "set_policy (P_trading p) m = m\<lparr>dm_trading := p\<rparr>"
| "set_policy (P_defi p) m = m\<lparr>dm_defi_adapters := p\<rparr>"
| "set_policy (P_portfolio p) m = m\<lparr>dm_portfolio_rebalancing := p\<rparr>"
| "set_policy (P_auth p) m = m\<lparr>dm_auth_access := p\<rparr>"
| "set_policy (P_notification p) m = m\<lparr>dm_notification_routing := p\<rparr>"

definition DEFAULT_MAX_SNAPSHOT_AGE_SECONDS :: int where
  "DEFAULT_MAX_SNAPSHOT_AGE_SECONDS = 300"

definition SIM_DEFAULT_TRADING_POLICY :: trading_policy where
  "SIM_DEFAULT_TRADING_POLICY =
     \<lparr>st_enabled = True, st_maxOrderAmount = Fin 100000, st_allowedAssets = None, st_allowedSides = [''buy'', ''sell'']\<rparr>"

definition DEFAULT_DEFI_ADAPTER_POLICY :: DeFiAdapterPolicy where
  "DEFAULT_DEFI_ADAPTER_POLICY =
     \<lparr>dp_enabledAdapters = [''aave'', ''compound''], dp_allowedChains = [''stellar'', ''ethereum'', ''polygon''],
      dp_maxSlippageBps = Fin 100, dp_minHealthFactor = Fin (5 / 4), dp_emergencyExitOnly = False\<rparr>"

definition DEFAULT_PORTFOLIO_REBALANCING_POLICY :: PortfolioRebalancingPolicy where
  "DEFAULT_PORTFOLIO_REBALANCING_POLICY =
     \<lparr>rp_autoRebalanceEnabled = True, rp_minTradeSizeUsd = Fin 10, rp_maxSingleAssetWeightPct = Fin 75, rp_driftThresholdPct = Fin 5\<rparr>"

definition DEFAULT_AUTH_ACCESS_POLICY :: AuthAccessPolicy where
  "DEFAULT_AUTH_ACCESS_POLICY =
     \<lparr>ap_requireMfaForSensitiveActions = False, ap_minKycTier = Fin 1, ap_sessionTtlMinutes = Fin 60,
      ap_revokeUnverifiedSessions = False, ap_disallowedRoles = []\<rparr>"

definition DEFAULT_NOTIFICATION_ROUTING_POLICY :: NotificationRoutingPolicy where
  "DEFAULT_NOTIFICATION_ROUTING_POLICY =
     \<lparr>np_mandatorySecurityChannels = [''email'', ''in_app''], np_digestWindowMinutes = Fin 15,
      np_suppressMarketingChannels = False, np_maxDeliveryRetries = Fin 3\<rparr>"

definition defaultDomainPolicies :: DomainPolicyMap where
  "defaultDomainPolicies =
     \<lparr>dm_trading = SIM_DEFAULT_TRADING_POLICY, dm_defi_adapters = DEFAULT_DEFI_ADAPTER_POLICY,
      dm_portfolio_rebalancing = DEFAULT_PORTFOLIO_REBALANCING_POLICY, dm_auth_access = DEFAULT_AUTH_ACCESS_POLICY,
      dm_notification_routing = DEFAULT_NOTIFICATION_ROUTING_POLICY\<rparr>"

definition D_strs :: "string list \<Rightarrow> dyn" where
  "D_strs xs = D_list (map D_str xs)"

text \<open>A typed policy as an object.\<close>

fun policy_fields :: "domain_policy \<Rightarrow> (string, dyn) jsmap" where
  "policy_fields (P_trading p) =
     [(''enabled'', D_bool (st_enabled p)), (''maxOrderAmount'', D_num (st_maxOrderAmount p)),
      (''allowedAssets'', case st_allowedAssets p of None \<Rightarrow> D_undefined | Some xs \<Rightarrow> D_strs xs),
      (''allowedSides'', D_strs (st_allowedSides p))]"
| "policy_fields (P_defi p) =
     [(''enabledAdapters'', D_strs (dp_enabledAdapters p)), (''allowedChains'', D_strs (dp_allowedChains p)),
      (''maxSlippageBps'', D_num (dp_maxSlippageBps p)), (''minHealthFactor'', D_num (dp_minHealthFactor p)),
      (''emergencyExitOnly'', D_bool (dp_emergencyExitOnly p))]"
| "policy_fields (P_portfolio p) =
     [(''autoRebalanceEnabled'', D_bool (rp_autoRebalanceEnabled p)), (''minTradeSizeUsd'', D_num (rp_minTradeSizeUsd p)),
      (''maxSingleAssetWeightPct'', D_num (rp_maxSingleAssetWeightPct p)), (''driftThresholdPct'', D_num (rp_driftThresholdPct p))]"
| "policy_fields (P_auth p) =
     [(''requireMfaForSensitiveActions'', D_bool (ap_requireMfaForSensitiveActions p)), (''minKycTier'', D_num (ap_minKycTier p)),
      (''sessionTtlMinutes'', D_num (ap_sessionTtlMinutes p)), (''revokeUnverifiedSessions'', D_bool (ap_revokeUnverifiedSessions p)),
      (''disallowedRoles'', D_strs (ap_disallowedRoles p))]"
| "policy_fields (P_notification p) =
     [(''mandatorySecurityChannels'', D_strs (np_mandatorySecurityChannels p)), (''digestWindowMinutes'', D_num (np_digestWindowMinutes p)),
      (''suppressMarketingChannels'', D_bool (np_suppressMarketingChannels p)), (''maxDeliveryRetries'', D_num (np_maxDeliveryRetries p))]"

text \<open>\<open>Array.isArray(v) ? v.map(...).filter(Boolean) : ...\<close>, with the case of the elements changed by \<open>f\<close>.\<close>

fun clean_list :: "host \<Rightarrow> (string \<Rightarrow> string) \<Rightarrow> dyn \<Rightarrow> string list option" where
  "clean_list h f (D_list xs) = Some (filter (\<lambda>s. s \<noteq> []) (map (\<lambda>x. f (trim (js_String h x))) xs))"
| "clean_list h f _ = None"

abbreviation list_or_empty :: "string list option \<Rightarrow> string list" where
  "list_or_empty x \<equiv> (case x of None \<Rightarrow> [] | Some xs \<Rightarrow> xs)"

fun normalizeForDomain :: "host \<Rightarrow> PolicyDomain \<Rightarrow> (string, dyn) jsmap \<Rightarrow> domain_policy" where
  "normalizeForDomain h Trading raw =
     (let allowedAssets = clean_list h toUpperCase (dyn_field raw ''allowedAssets'') in
      P_trading \<lparr>st_enabled = js_Boolean (dyn_field raw ''enabled''),
        st_maxOrderAmount = js_Number h (dyn_field raw ''maxOrderAmount''),
        st_allowedAssets = (if allowedAssets = Some [] then None else allowedAssets),
        st_allowedSides = list_or_empty (clean_list h toLowerCase (dyn_field raw ''allowedSides''))\<rparr>)"
| "normalizeForDomain h Defi_adapters raw =
     P_defi \<lparr>dp_enabledAdapters = list_or_empty (clean_list h toLowerCase (dyn_field raw ''enabledAdapters'')),
       dp_allowedChains = list_or_empty (clean_list h toLowerCase (dyn_field raw ''allowedChains'')),
       dp_maxSlippageBps = js_Number h (dyn_field raw ''maxSlippageBps''),
       dp_minHealthFactor = js_Number h (dyn_field raw ''minHealthFactor''),
       dp_emergencyExitOnly = js_Boolean (dyn_field raw ''emergencyExitOnly'')\<rparr>"
| "normalizeForDomain h Portfolio_rebalancing raw =
     P_portfolio \<lparr>rp_autoRebalanceEnabled = js_Boolean (dyn_field raw ''autoRebalanceEnabled''),
       rp_minTradeSizeUsd = js_Number h (dyn_field raw ''minTradeSizeUsd''),
       rp_maxSingleAssetWeightPct = js_Number h (dyn_field raw ''maxSingleAssetWeightPct''),
       rp_driftThresholdPct = js_Number h (dyn_field raw ''driftThresholdPct'')\<rparr>"
| "normalizeForDomain h Auth_access raw =
     P_auth \<lparr>ap_requireMfaForSensitiveActions = js_Boolean (dyn_field raw ''requireMfaForSensitiveActions''),
       ap_minKycTier = js_Number h (dyn_field raw ''minKycTier''),
       ap_sessionTtlMinutes = js_Number h (dyn_field raw ''sessionTtlMinutes''),
       ap_revokeUnverifiedSessions = js_Boolean (dyn_field raw ''revokeUnverifiedSessions''),
       ap_disallowedRoles = list_or_empty (clean_list h toUpperCase (dyn_field raw ''disallowedRoles''))\<rparr>"
| "normalizeForDomain h Notification_routing raw =
     P_notification \<lparr>np_mandatorySecurityChannels = list_or_empty (clean_list h toLowerCase (dyn_field raw ''mandatorySecurityChannels'')),
       np_digestWindowMinutes = js_Number h (dyn_field raw ''digestWindowMinutes''),
       np_suppressMarketingChannels = js_Boolean (dyn_field raw ''suppressMarketingChannels''),
       np_maxDeliveryRetries = js_Number h (dyn_field raw ''maxDeliveryRetries'')\<rparr>"

definition resolveEffectivePolicies ::
  "host \<Rightarrow> PolicyDomain \<Rightarrow> (string, dyn) jsmap \<Rightarrow> (string, dyn) jsmap \<Rightarrow> domain_policy \<times> domain_policy" where
  "resolveEffectivePolicies h d currentInput proposedInput =
     (let rawCurrent = spread (policy_fields (policy_of defaultDomainPolicies d)) currentInput;
          rawProposed = spread rawCurrent proposedInput
      in (normalizeForDomain h d rawCurrent, normalizeForDomain h d rawProposed))"

section \<open>Validation\<close>

abbreviation error_if :: "bool \<Rightarrow> string \<Rightarrow> string list" where
  "error_if b m \<equiv> (if b then [m] else [])"

fun validateProposedPolicy :: "domain_policy \<Rightarrow> string list" where
  "validateProposedPolicy (P_trading p) =
     error_if (\<not> isFinite (st_maxOrderAmount p) \<or> js_le (st_maxOrderAmount p) (Fin 0)) ''Trading policy maxOrderAmount must be a finite number > 0.'' @
     (if st_allowedSides p = []
      then [''Trading policy allowedSides must contain at least one side ('' @ sq @ ''buy'' @ sq @ '' or '' @ sq @ ''sell'' @ sq @ '').'']
      else error_if (list_ex (\<lambda>side. side \<noteq> ''buy'' \<and> side \<noteq> ''sell'') (st_allowedSides p))
        (''Trading policy allowedSides may only contain '' @ sq @ ''buy'' @ sq @ '' or '' @ sq @ ''sell'' @ sq @ ''.''))"
| "validateProposedPolicy (P_defi p) =
     error_if (\<not> isFinite (dp_maxSlippageBps p) \<or> js_le (dp_maxSlippageBps p) (Fin 0) \<or> js_less (Fin 5000) (dp_maxSlippageBps p))
       ''DeFi adapter policy maxSlippageBps must be between 1 and 5000 bps.'' @
     error_if (\<not> isFinite (dp_minHealthFactor p) \<or> js_less (dp_minHealthFactor p) (Fin 1) \<or> js_less (Fin 10) (dp_minHealthFactor p))
       ''DeFi adapter policy minHealthFactor must be between 1.0 and 10.0.'' @
     error_if (\<not> dp_emergencyExitOnly p \<and> dp_enabledAdapters p = [])
       ''DeFi adapter policy cannot disable all adapters unless emergencyExitOnly is true.'' @
     error_if (dp_allowedChains p = []) ''DeFi adapter policy allowedChains must include at least one chain.''"
| "validateProposedPolicy (P_portfolio p) =
     error_if (\<not> isFinite (rp_minTradeSizeUsd p) \<or> js_less (rp_minTradeSizeUsd p) (Fin 0))
       ''Portfolio policy minTradeSizeUsd must be a non-negative number.'' @
     error_if (\<not> isFinite (rp_maxSingleAssetWeightPct p) \<or> js_le (rp_maxSingleAssetWeightPct p) (Fin 0) \<or> js_less (Fin 100) (rp_maxSingleAssetWeightPct p))
       ''Portfolio policy maxSingleAssetWeightPct must be > 0 and <= 100.'' @
     error_if (\<not> isFinite (rp_driftThresholdPct p) \<or> js_le (rp_driftThresholdPct p) (Fin 0) \<or> js_less (Fin 50) (rp_driftThresholdPct p))
       ''Portfolio policy driftThresholdPct must be between 0 (exclusive) and 50.''"
| "validateProposedPolicy (P_auth p) =
     error_if (\<not> isFinite (ap_minKycTier p) \<or> js_less (ap_minKycTier p) (Fin 0) \<or> js_less (Fin 3) (ap_minKycTier p))
       ''Auth policy minKycTier must be an integer between 0 and 3.'' @
     error_if (\<not> isFinite (ap_sessionTtlMinutes p) \<or> js_less (ap_sessionTtlMinutes p) (Fin 5) \<or> js_less (Fin 43200) (ap_sessionTtlMinutes p))
       ''Auth policy sessionTtlMinutes must be between 5 and 43200 minutes.'' @
     error_if (''ADMIN'' \<in> set (ap_disallowedRoles p))
       ''Auth policy disallowedRoles cannot lock out the ADMIN role (anti-lockout invariant).''"
| "validateProposedPolicy (P_notification p) =
     error_if (np_mandatorySecurityChannels p = [])
       ''Notification policy mandatorySecurityChannels must retain at least one channel for critical alerts.'' @
     error_if (\<not> isFinite (np_digestWindowMinutes p) \<or> js_less (np_digestWindowMinutes p) (Fin 1) \<or> js_less (Fin 1440) (np_digestWindowMinutes p))
       ''Notification policy digestWindowMinutes must be between 1 and 1440 minutes.'' @
     error_if (\<not> isFinite (np_maxDeliveryRetries p) \<or> js_less (np_maxDeliveryRetries p) (Fin 0) \<or> js_less (Fin 20) (np_maxDeliveryRetries p))
       ''Notification policy maxDeliveryRetries must be between 0 and 20.''"

section \<open>Identifiers and tokens\<close>

definition maskIdentifier :: "string \<Rightarrow> string" where
  "maskIdentifier v =
     (let trimmed = trim v; n = length trimmed in
      if v = [] then ''anonymous''
      else if n \<le> 6 then ''***''
      else if n \<le> 12 then take 3 trimmed @ ''...'' @ drop (n - 2) trimmed
      else take 4 trimmed @ ''...'' @ drop (n - 4) trimmed)"

definition computeCommitToken :: "host \<Rightarrow> PolicyDomain \<Rightarrow> domain_policy \<Rightarrow> domain_policy \<Rightarrow> string \<Rightarrow> string" where
  "computeCommitToken h d current proposed snapshotVersion =
     ''pctk:'' @ domain_name d @ '':'' @ take 24 (computeDigest h ''policy-commit-token:v1''
       (D_obj [(''domain'', D_str (domain_name d)), (''currentPolicy'', D_obj (policy_fields current)),
         (''effectiveProposedPolicy'', D_obj (policy_fields proposed)), (''snapshotVersion'', D_str snapshotVersion)]))"

section \<open>Snapshots and previews\<close>

record SimulatedUserRecord =
  us_userId :: string
  us_role :: string
  us_mfaEnabled :: bool
  us_kycTier :: js_number
  us_activeSessionCount :: int
  us_sessionAgeMinutes :: js_number
  us_apiKeyCount :: "int option"

record SimulatedPendingTradeRecord =
  pt_tradeId :: string
  pt_userId :: string
  pt_portfolioId :: "string option"
  pt_asset :: string
  pt_amount :: js_number
  pt_side :: string

record SimulatedPortfolioRecord =
  pf_portfolioId :: string
  pf_userId :: string
  pf_totalValueUsd :: js_number
  pf_targetAllocations :: "(string, js_number) jsmap"
  pf_currentDriftPct :: js_number
  pf_pendingRebalanceTradeUsd :: "js_number option"
  pf_autoRebalanceOptIn :: bool

record SimulatedDeFiPositionRecord =
  ps_positionId :: string
  ps_userId :: string
  ps_adapterId :: string
  ps_chain :: string
  ps_asset :: string
  ps_suppliedUsd :: js_number
  ps_borrowedUsd :: js_number
  ps_healthFactor :: js_number
  ps_estimatedExitSlippageBps :: js_number

record SimulatedNotificationPreferenceRecord =
  nf_preferenceId :: string
  nf_userId :: string
  nf_enabledChannels :: "string list"
  nf_marketingOptIn :: bool
  nf_digestFrequencyMinutes :: js_number
  nf_pendingDigestCount :: int

record PolicySimulationSnapshot =
  sn_version :: string
  sn_observedAt :: string
  sn_isSampled :: bool
  sn_totalPopulationUsers :: "int option"
  sn_users :: "SimulatedUserRecord list"
  sn_pendingTrades :: "SimulatedPendingTradeRecord list"
  sn_portfolios :: "SimulatedPortfolioRecord list"
  sn_defiPositions :: "SimulatedDeFiPositionRecord list"
  sn_notificationPreferences :: "SimulatedNotificationPreferenceRecord list"

record AffectedRecordPreview =
  ar_recordId :: string
  ar_recordType :: string
  ar_ownerId :: string
  ar_impactType :: string
  ar_reversible :: bool
  ar_reason :: string
  ar_beforeState :: "(string, dyn) jsmap"
  ar_afterState :: "(string, dyn) jsmap"

datatype EffectSeverity = E_info | E_warning | E_high | E_critical

record ExpectedSideEffect =
  ef_code :: string
  ef_severity :: EffectSeverity
  ef_subsystem :: string
  ef_description :: string
  ef_estimatedAffectedCount :: int
  ef_reversible :: bool

record RollbackConstraint =
  rc_code :: string
  rc_reversibility :: PolicyReversibility
  rc_constraint :: string
  rc_preCommitRequirement :: string
  rc_rollbackProcedure :: string
  rc_recoverySteps :: "string list"

text \<open>What an evaluation adds to the four arrays of a preview.\<close>

record impact =
  im_records :: "AffectedRecordPreview list"
  im_effects :: "ExpectedSideEffect list"
  im_constraints :: "RollbackConstraint list"
  im_warnings :: "string list"

abbreviation js_bool :: "bool \<Rightarrow> string" where
  "js_bool b \<equiv> (if b then ''true'' else ''false'')"

abbreviation when_some :: "bool \<Rightarrow> 'a \<Rightarrow> 'a list" where
  "when_some b x \<equiv> (if b then [x] else [])"

definition tally :: "('a \<Rightarrow> bool) \<Rightarrow> 'a list \<Rightarrow> nat" where
  "tally P xs = length (filter P xs)"

definition defaultSimulationSnapshot :: "string \<Rightarrow> PolicySimulationSnapshot" where
  "defaultSimulationSnapshot asOf =
     \<lparr>sn_version = ''snap-default-v1'', sn_observedAt = asOf, sn_isSampled = False, sn_totalPopulationUsers = Some 4,
      sn_users =
       [\<lparr>us_userId = ''user-alpha-0001'', us_role = ''USER'', us_mfaEnabled = True, us_kycTier = Fin 2,
         us_activeSessionCount = 2, us_sessionAgeMinutes = Fin 25, us_apiKeyCount = Some 1\<rparr>,
        \<lparr>us_userId = ''user-bravo-0002'', us_role = ''USER'', us_mfaEnabled = False, us_kycTier = Fin 1,
         us_activeSessionCount = 3, us_sessionAgeMinutes = Fin 95, us_apiKeyCount = Some 2\<rparr>,
        \<lparr>us_userId = ''user-charlie-0003'', us_role = ''OPERATOR'', us_mfaEnabled = False, us_kycTier = Fin 1,
         us_activeSessionCount = 1, us_sessionAgeMinutes = Fin 45, us_apiKeyCount = Some 1\<rparr>,
        \<lparr>us_userId = ''user-delta-0004'', us_role = ''MAINTAINER'', us_mfaEnabled = True, us_kycTier = Fin 3,
         us_activeSessionCount = 1, us_sessionAgeMinutes = Fin 15, us_apiKeyCount = Some 0\<rparr>],
      sn_pendingTrades =
       [\<lparr>pt_tradeId = ''trd-1001'', pt_userId = ''user-alpha-0001'', pt_portfolioId = Some ''port-2001'', pt_asset = ''XLM'',
         pt_amount = Fin 15000, pt_side = ''buy''\<rparr>,
        \<lparr>pt_tradeId = ''trd-1002'', pt_userId = ''user-bravo-0002'', pt_portfolioId = Some ''port-2002'', pt_asset = ''BTC'',
         pt_amount = Fin 65000, pt_side = ''buy''\<rparr>,
        \<lparr>pt_tradeId = ''trd-1003'', pt_userId = ''user-charlie-0003'', pt_portfolioId = Some ''port-2003'', pt_asset = ''USDC'',
         pt_amount = Fin 120000, pt_side = ''sell''\<rparr>],
      sn_portfolios =
       [\<lparr>pf_portfolioId = ''port-2001'', pf_userId = ''user-alpha-0001'', pf_totalValueUsd = Fin 50000,
         pf_targetAllocations = [(''XLM'', Fin 50), (''USDC'', Fin 50)], pf_currentDriftPct = Fin (7 / 2),
         pf_pendingRebalanceTradeUsd = Some (Fin 25), pf_autoRebalanceOptIn = True\<rparr>,
        \<lparr>pf_portfolioId = ''port-2002'', pf_userId = ''user-bravo-0002'', pf_totalValueUsd = Fin 120000,
         pf_targetAllocations = [(''BTC'', Fin 70), (''USDC'', Fin 30)], pf_currentDriftPct = Fin (fl64 (62 / 10)),
         pf_pendingRebalanceTradeUsd = Some (Fin 4500), pf_autoRebalanceOptIn = True\<rparr>,
        \<lparr>pf_portfolioId = ''port-2003'', pf_userId = ''user-charlie-0003'', pf_totalValueUsd = Fin 25000,
         pf_targetAllocations = [(''ETH'', Fin 40), (''XLM'', Fin 35), (''USDC'', Fin 25)], pf_currentDriftPct = Fin (fl64 (42 / 10)),
         pf_pendingRebalanceTradeUsd = Some (Fin 8), pf_autoRebalanceOptIn = True\<rparr>],
      sn_defiPositions =
       [\<lparr>ps_positionId = ''pos-3001'', ps_userId = ''user-alpha-0001'', ps_adapterId = ''aave'', ps_chain = ''ethereum'', ps_asset = ''USDC'',
         ps_suppliedUsd = Fin 40000, ps_borrowedUsd = Fin 20000, ps_healthFactor = Fin (fl64 (165 / 100)), ps_estimatedExitSlippageBps = Fin 45\<rparr>,
        \<lparr>ps_positionId = ''pos-3002'', ps_userId = ''user-bravo-0002'', ps_adapterId = ''compound'', ps_chain = ''polygon'', ps_asset = ''ETH'',
         ps_suppliedUsd = Fin 85000, ps_borrowedUsd = Fin 62000, ps_healthFactor = Fin (fl64 (132 / 100)), ps_estimatedExitSlippageBps = Fin 140\<rparr>],
      sn_notificationPreferences =
       [\<lparr>nf_preferenceId = ''npref-4001'', nf_userId = ''user-alpha-0001'', nf_enabledChannels = [''email'', ''in_app'', ''webhook''],
         nf_marketingOptIn = False, nf_digestFrequencyMinutes = Fin 15, nf_pendingDigestCount = 2\<rparr>,
        \<lparr>nf_preferenceId = ''npref-4002'', nf_userId = ''user-bravo-0002'', nf_enabledChannels = [''in_app''],
         nf_marketingOptIn = True, nf_digestFrequencyMinutes = Fin 60, nf_pendingDigestCount = 5\<rparr>,
        \<lparr>nf_preferenceId = ''npref-4003'', nf_userId = ''user-charlie-0003'', nf_enabledChannels = [''email''],
         nf_marketingOptIn = True, nf_digestFrequencyMinutes = Fin 30, nf_pendingDigestCount = 3\<rparr>]\<rparr>"

section \<open>Trading\<close>

text \<open>\<open>None\<close> when the trade is allowed, otherwise the code and the reason.\<close>

definition isTradeAllowedByPolicy :: "host \<Rightarrow> js_number \<Rightarrow> string \<Rightarrow> string \<Rightarrow> trading_policy \<Rightarrow> (string \<times> string) option" where
  "isTradeAllowedByPolicy h amount asset side p =
     (if \<not> st_enabled p then Some (''TRADING_DISABLED'', ''Trading is disabled globally.'')
      else if \<not> isFinite amount \<or> js_le amount (Fin 0)
      then Some (''INVALID_TRADE_AMOUNT'', ''Trade amount must be greater than zero.'')
      else if js_less (st_maxOrderAmount p) amount
      then Some (''TRADE_AMOUNT_LIMIT_EXCEEDED'',
        ''Trade amount '' @ js_show h amount @ '' exceeds proposed maxOrderAmount of '' @ js_show h (st_maxOrderAmount p) @ ''.'')
      else if (case st_allowedAssets p of None \<Rightarrow> False | Some assets \<Rightarrow> asset \<notin> set assets)
      then Some (''ASSET_NOT_ALLOWED'',
        ''Asset '' @ asset @ '' is not in proposed allowedAssets ('' @ join '', '' (list_or_empty (st_allowedAssets p)) @ '').'')
      else if side \<notin> set (st_allowedSides p)
      then Some (''TRADE_SIDE_NOT_ALLOWED'',
        ''Trade side '' @ sq @ side @ sq @ '' is not in proposed allowedSides ('' @ join '', '' (st_allowedSides p) @ '').'')
      else None)"

definition trade_impact ::
  "host \<Rightarrow> trading_policy \<Rightarrow> trading_policy \<Rightarrow> SimulatedPendingTradeRecord \<Rightarrow> AffectedRecordPreview list" where
  "trade_impact h current proposed trade =
     (let asset = toUpperCase (trim (pt_asset trade)) in
      case (isTradeAllowedByPolicy h (pt_amount trade) asset (pt_side trade) current,
            isTradeAllowedByPolicy h (pt_amount trade) asset (pt_side trade) proposed) of
        (None, Some (code, reason)) \<Rightarrow>
          [\<lparr>ar_recordId = pt_tradeId trade, ar_recordType = ''pending_trade'', ar_ownerId = maskIdentifier (pt_userId trade),
            ar_impactType = ''blocked'', ar_reversible = False, ar_reason = reason,
            ar_beforeState = [(''status'', D_str ''eligible''), (''asset'', D_str asset), (''amount'', D_num (pt_amount trade)), (''side'', D_str (pt_side trade))],
            ar_afterState = [(''status'', D_str ''rejected''), (''violationCode'', D_str code), (''asset'', D_str asset), (''amount'', D_num (pt_amount trade))]\<rparr>]
      | _ \<Rightarrow> [])"

definition disallowed_targets :: "string list \<Rightarrow> SimulatedPortfolioRecord \<Rightarrow> string list" where
  "disallowed_targets assets portfolio =
     map fst (filter (\<lambda>(ticker, w). js_less (Fin 0) w \<and> toUpperCase (trim ticker) \<notin> set assets) (pf_targetAllocations portfolio))"

definition target_impact :: "string list \<Rightarrow> SimulatedPortfolioRecord \<Rightarrow> AffectedRecordPreview list" where
  "target_impact assets portfolio =
     (let blocked = disallowed_targets assets portfolio in
      when_some (blocked \<noteq> [])
        \<lparr>ar_recordId = pf_portfolioId portfolio, ar_recordType = ''portfolio'', ar_ownerId = maskIdentifier (pf_userId portfolio),
         ar_impactType = ''degraded'', ar_reversible = True,
         ar_reason = ''Portfolio holds target allocations in disallowed asset(s): '' @ join '', '' blocked @ ''. Rebalancing trades for these assets will fail.'',
         ar_beforeState = [(''rebalanceable'', D_bool True), (''assets'', D_str (join '','' (map fst (pf_targetAllocations portfolio))))],
         ar_afterState = [(''rebalanceable'', D_bool False), (''blockedAssets'', D_str (join '','' blocked))]\<rparr>)"

definition evaluateTradingPolicyImpact :: "host \<Rightarrow> trading_policy \<Rightarrow> trading_policy \<Rightarrow> PolicySimulationSnapshot \<Rightarrow> impact" where
  "evaluateTradingPolicyImpact h current proposed snapshot =
     (let halted = st_enabled current \<and> \<not> st_enabled proposed;
          rejected = concat (map (trade_impact h current proposed) (sn_pendingTrades snapshot));
          degraded = concat (map (target_impact (list_or_empty (st_allowedAssets proposed)))
            (if list_or_empty (st_allowedAssets proposed) = [] then [] else sn_portfolios snapshot))
      in \<lparr>im_records = rejected @ degraded,
          im_effects =
            when_some halted
              \<lparr>ef_code = ''TRADING_HALTED_GLOBALLY'', ef_severity = E_critical, ef_subsystem = ''trading'',
               ef_description = ''All trade executions via POST /trading/execute and portfolio rebalancing will be rejected with TRADING_DISABLED.'',
               ef_estimatedAffectedCount = int (length (sn_pendingTrades snapshot)), ef_reversible = False\<rparr> @
            when_some (rejected \<noteq> [])
              \<lparr>ef_code = ''PENDING_TRADES_REJECTED'',
               ef_severity = (if length rejected \<ge> 2 \<or> \<not> st_enabled proposed then E_high else E_warning), ef_subsystem = ''trading'',
               ef_description = show_count (length rejected) @ '' pending trade(s) will be rejected under the proposed trading policy.'',
               ef_estimatedAffectedCount = int (length rejected), ef_reversible = False\<rparr> @
            when_some (degraded \<noteq> [])
              \<lparr>ef_code = ''PORTFOLIO_ALLOCATIONS_INVALIDATED'', ef_severity = E_warning, ef_subsystem = ''portfolio'',
               ef_description = show_count (length degraded) @ '' portfolio(s) contain target allocations for assets excluded from TRADING_ALLOWED_ASSETS.'',
               ef_estimatedAffectedCount = int (length degraded), ef_reversible = True\<rparr>,
          im_constraints =
            when_some (rejected \<noteq> [])
              \<lparr>rc_code = ''REJECTED_TRADES_REQUIRE_RESUBMISSION'', rc_reversibility = Partially_reversible,
               rc_constraint = ''Reverting the trading policy restores future trade eligibility, but rejected in-flight orders are not automatically re-submitted.'',
               rc_preCommitRequirement = ''Drain or notify owners of queued orders exceeding the new limit or asset/side restrictions.'',
               rc_rollbackProcedure = ''Revert trading policy parameters and notify clients that rejected idempotency keys can be re-issued with fresh keys.'',
               rc_recoverySteps =
                [''Restore previous TRADING_ENABLED / TRADING_MAX_ORDER_AMOUNT / TRADING_ALLOWED_ASSETS / TRADING_ALLOWED_SIDES values.'',
                 ''Query audit logs for trades rejected with policy violation codes during the active window.'',
                 ''Instruct affected clients or rebalancing workers to resubmit with new idempotency keys.'']\<rparr>,
          im_warnings = when_some halted ''Disabling trading globally will reject all pending and incoming trade executions immediately.''\<rparr>)"

section \<open>DeFi adapters\<close>

record position_flags =
  fl_adapterDisabled :: bool
  fl_chainDisallowed :: bool
  fl_healthBreached :: bool
  fl_slippageBreached :: bool

definition position_flags_of :: "DeFiAdapterPolicy \<Rightarrow> DeFiAdapterPolicy \<Rightarrow> SimulatedDeFiPositionRecord \<Rightarrow> position_flags" where
  "position_flags_of current proposed pos =
     (let adapter = toLowerCase (trim (ps_adapterId pos)); chain = toLowerCase (trim (ps_chain pos)) in
      \<lparr>fl_adapterDisabled = adapter \<in> set (dp_enabledAdapters current) \<and> adapter \<notin> set (dp_enabledAdapters proposed),
       fl_chainDisallowed = chain \<in> set (dp_allowedChains current) \<and> chain \<notin> set (dp_allowedChains proposed),
       fl_healthBreached = js_le (dp_minHealthFactor current) (ps_healthFactor pos) \<and> js_less (ps_healthFactor pos) (dp_minHealthFactor proposed),
       fl_slippageBreached = js_le (ps_estimatedExitSlippageBps pos) (dp_maxSlippageBps current)
         \<and> js_less (dp_maxSlippageBps proposed) (ps_estimatedExitSlippageBps pos)\<rparr>)"

definition triggersUnwind :: "DeFiAdapterPolicy \<Rightarrow> position_flags \<Rightarrow> bool" where
  "triggersUnwind proposed f = (dp_emergencyExitOnly proposed \<or> fl_adapterDisabled f \<or> fl_healthBreached f)"

definition position_affected :: "DeFiAdapterPolicy \<Rightarrow> position_flags \<Rightarrow> bool" where
  "position_affected proposed f =
     (dp_emergencyExitOnly proposed \<or> fl_adapterDisabled f \<or> fl_chainDisallowed f \<or> fl_healthBreached f \<or> fl_slippageBreached f)"

definition position_reasons :: "host \<Rightarrow> DeFiAdapterPolicy \<Rightarrow> DeFiAdapterPolicy \<Rightarrow> SimulatedDeFiPositionRecord \<Rightarrow> string list" where
  "position_reasons h current proposed pos =
     (let f = position_flags_of current proposed pos in
      when_some (dp_emergencyExitOnly proposed \<and> \<not> dp_emergencyExitOnly current) ''emergencyExitOnly mode activated'' @
      when_some (fl_adapterDisabled f) (''adapter '' @ sq @ toLowerCase (trim (ps_adapterId pos)) @ sq @ '' disabled'') @
      when_some (fl_chainDisallowed f) (''chain '' @ sq @ toLowerCase (trim (ps_chain pos)) @ sq @ '' removed from allowedChains'') @
      when_some (fl_healthBreached f) (''position healthFactor '' @ js_show h (ps_healthFactor pos) @
        '' falls below proposed minHealthFactor '' @ js_show h (dp_minHealthFactor proposed)) @
      when_some (fl_slippageBreached f) (''estimated exit slippage '' @ js_show h (ps_estimatedExitSlippageBps pos) @
        ''bps exceeds proposed maxSlippageBps '' @ js_show h (dp_maxSlippageBps proposed) @ ''bps''))"

definition position_impact ::
  "host \<Rightarrow> DeFiAdapterPolicy \<Rightarrow> DeFiAdapterPolicy \<Rightarrow> SimulatedDeFiPositionRecord \<Rightarrow> AffectedRecordPreview list" where
  "position_impact h current proposed pos =
     (let f = position_flags_of current proposed pos;
          unwind = triggersUnwind proposed f;
          state = (\<lambda>status. [(''adapterId'', D_str (toLowerCase (trim (ps_adapterId pos)))), (''chain'', D_str (toLowerCase (trim (ps_chain pos)))),
            (''healthFactor'', D_num (ps_healthFactor pos)), (''status'', D_str status)])
      in when_some (position_affected proposed f)
        \<lparr>ar_recordId = ps_positionId pos, ar_recordType = ''defi_position'', ar_ownerId = maskIdentifier (ps_userId pos),
         ar_impactType = (if unwind then ''force_unwound'' else ''blocked''), ar_reversible = (\<not> unwind),
         ar_reason = ''DeFi position affected: '' @ join ''; '' (position_reasons h current proposed pos) @ ''.'',
         ar_beforeState = state ''active'',
         ar_afterState = state (if unwind then ''emergency_exit_queued'' else ''adapter_blocked'')\<rparr>)"

definition evaluateDeFiAdapterPolicyImpact :: "host \<Rightarrow> DeFiAdapterPolicy \<Rightarrow> DeFiAdapterPolicy \<Rightarrow> PolicySimulationSnapshot \<Rightarrow> impact" where
  "evaluateDeFiAdapterPolicyImpact h current proposed snapshot =
     (let flags = map (position_flags_of current proposed) (sn_defiPositions snapshot);
          affected = filter (position_affected proposed) flags;
          unwound = tally (triggersUnwind proposed) affected;
          stranded = tally (\<lambda>f. \<not> triggersUnwind proposed f) affected;
          unhealthy = tally fl_healthBreached affected
      in \<lparr>im_records = concat (map (position_impact h current proposed) (sn_defiPositions snapshot)),
          im_effects =
            when_some (unwound > 0)
              \<lparr>ef_code = ''DEFI_EMERGENCY_UNWIND_TRIGGERED'', ef_severity = E_critical, ef_subsystem = ''defi'',
               ef_description = show_count unwound @ '' DeFi position(s) trigger on-chain emergency exit / deleveraging Jobs on '' @ sq @ ''defi-emergency-exit'' @ sq @ '' queue.'',
               ef_estimatedAffectedCount = int unwound, ef_reversible = False\<rparr> @
            when_some (stranded > 0)
              \<lparr>ef_code = ''DEFI_ADAPTER_POSITIONS_STRANDED'', ef_severity = E_high, ef_subsystem = ''defi'',
               ef_description = show_count stranded @ '' DeFi position(s) will be blocked from rebalancing or exiting due to chain or slippage constraints.'',
               ef_estimatedAffectedCount = int stranded, ef_reversible = True\<rparr> @
            when_some (unhealthy > 0)
              \<lparr>ef_code = ''DEFI_LIQUIDATION_THRESHOLD_TIGHTENED'', ef_severity = E_high, ef_subsystem = ''defi'',
               ef_description = show_count unhealthy @ '' DeFi position(s) fall below the tightened minHealthFactor ('' @ js_show h (dp_minHealthFactor proposed) @ '').'',
               ef_estimatedAffectedCount = int unhealthy, ef_reversible = False\<rparr>,
          im_constraints =
            when_some (unwound > 0)
              \<lparr>rc_code = ''IRREVERSIBLE_ONCHAIN_DEFI_EXIT'', rc_reversibility = Irreversible,
               rc_constraint = ''On-chain DeFi emergency exits and collateral liquidations settle on external protocols (Aave/Compound) and cannot be rolled back by reverting API config.'',
               rc_preCommitRequirement = ''Verify protocol liquidity, slippage tolerance, and pause '' @ sq @ ''defi-emergency-exit'' @ sq @ '' worker if dry-run only is intended.'',
               rc_rollbackProcedure = ''Revert DeFi adapter policy immediately to stop unsubmitted jobs in '' @ sq @ ''defi-emergency-exit'' @ sq @ '', then reconcile already settled on-chain transactions.'',
               rc_recoverySteps =
                [''Pause '' @ sq @ ''defi-emergency-exit'' @ sq @ '' Bull queue before reverting config to halt in-flight unwinds.'',
                 ''Restore enabledAdapters, minHealthFactor, and emergencyExitOnly to previous values.'',
                 ''Run Stellar/EVM position reconciliation to re-sync positions that already exited on-chain.'']\<rparr>,
          im_warnings = when_some (unwound > 0)
            (show_count unwound @ '' active DeFi position(s) will be queued for irreversible on-chain emergency unwinding or collateral deleveraging.'')\<rparr>)"

section \<open>Portfolio rebalancing\<close>

definition maxWeight :: "SimulatedPortfolioRecord \<Rightarrow> js_number" where
  "maxWeight portfolio = foldl js_max (Fin 0) (map snd (pf_targetAllocations portfolio))"

definition weightViolated :: "PortfolioRebalancingPolicy \<Rightarrow> PortfolioRebalancingPolicy \<Rightarrow> SimulatedPortfolioRecord \<Rightarrow> bool" where
  "weightViolated current proposed portfolio =
     (js_le (maxWeight portfolio) (rp_maxSingleAssetWeightPct current) \<and> js_less (rp_maxSingleAssetWeightPct proposed) (maxWeight portfolio))"

abbreviation pendingTrade :: "SimulatedPortfolioRecord \<Rightarrow> js_number" where
  "pendingTrade portfolio \<equiv> (case pf_pendingRebalanceTradeUsd portfolio of None \<Rightarrow> Fin 0 | Some x \<Rightarrow> x)"

definition triggeringDrift :: "PortfolioRebalancingPolicy \<Rightarrow> SimulatedPortfolioRecord \<Rightarrow> bool" where
  "triggeringDrift p portfolio =
     (rp_autoRebalanceEnabled p \<and> pf_autoRebalanceOptIn portfolio \<and>
      js_le (rp_driftThresholdPct p) (pf_currentDriftPct portfolio) \<and> js_le (rp_minTradeSizeUsd p) (pendingTrade portfolio))"

definition portfolio_reasons ::
  "host \<Rightarrow> PortfolioRebalancingPolicy \<Rightarrow> PortfolioRebalancingPolicy \<Rightarrow> SimulatedPortfolioRecord \<Rightarrow> string list" where
  "portfolio_reasons h current proposed portfolio =
     (let was = triggeringDrift current portfolio; now = triggeringDrift proposed portfolio in
      when_some (weightViolated current proposed portfolio) (''highest target weight '' @ js_show h (maxWeight portfolio) @
        ''% exceeds proposed maxSingleAssetWeightPct '' @ js_show h (rp_maxSingleAssetWeightPct proposed) @ ''%'') @
      when_some (\<not> was \<and> now) (''portfolio drift '' @ js_show h (pf_currentDriftPct portfolio) @
        ''% now triggers automatic rebalancing (threshold lowered to '' @ js_show h (rp_driftThresholdPct proposed) @ ''%)'') @
      when_some (was \<and> \<not> now) (''pending rebalance ($'' @ js_show h (pendingTrade portfolio) @ '', drift '' @
        js_show h (pf_currentDriftPct portfolio) @ ''%) suppressed under proposed policy''))"

definition portfolio_impact ::
  "host \<Rightarrow> PortfolioRebalancingPolicy \<Rightarrow> PortfolioRebalancingPolicy \<Rightarrow> SimulatedPortfolioRecord \<Rightarrow> AffectedRecordPreview list" where
  "portfolio_impact h current proposed portfolio =
     (let violated = weightViolated current proposed portfolio;
          was = triggeringDrift current portfolio; now = triggeringDrift proposed portfolio;
          state = (\<lambda>eligible. [(''maxAssetWeightPct'', D_num (maxWeight portfolio)), (''currentDriftPct'', D_num (pf_currentDriftPct portfolio)),
            (''autoRebalanceEligible'', D_bool eligible)])
      in when_some (violated \<or> was \<noteq> now)
        \<lparr>ar_recordId = pf_portfolioId portfolio, ar_recordType = ''portfolio'', ar_ownerId = maskIdentifier (pf_userId portfolio),
         ar_impactType = (if violated then ''invalidated'' else if now then ''requeued'' else ''blocked''),
         ar_reversible = (\<not> now),
         ar_reason = ''Portfolio affected: '' @ join ''; '' (portfolio_reasons h current proposed portfolio) @ ''.'',
         ar_beforeState = state was,
         ar_afterState = state now @ [(''allocationValid'', D_bool (\<not> violated))]\<rparr>)"

definition evaluatePortfolioPolicyImpact ::
  "host \<Rightarrow> PortfolioRebalancingPolicy \<Rightarrow> PortfolioRebalancingPolicy \<Rightarrow> PolicySimulationSnapshot \<Rightarrow> impact" where
  "evaluatePortfolioPolicyImpact h current proposed snapshot =
     (let portfolios = sn_portfolios snapshot;
          invalidated = tally (weightViolated current proposed) portfolios;
          triggered = tally (\<lambda>x. \<not> triggeringDrift current x \<and> triggeringDrift proposed x) portfolios;
          suppressed = tally (\<lambda>x. triggeringDrift current x \<and> \<not> triggeringDrift proposed x) portfolios
      in \<lparr>im_records = concat (map (portfolio_impact h current proposed) portfolios),
          im_effects =
            when_some (invalidated > 0)
              \<lparr>ef_code = ''PORTFOLIO_ALLOCATIONS_INVALIDATED'', ef_severity = E_high, ef_subsystem = ''portfolio'',
               ef_description = show_count invalidated @ '' portfolio(s) fail target allocation concentration constraints until owners update their target weights.'',
               ef_estimatedAffectedCount = int invalidated, ef_reversible = True\<rparr> @
            when_some (triggered > 0)
              \<lparr>ef_code = ''AUTO_REBALANCE_WAVE_TRIGGERED'', ef_severity = E_warning, ef_subsystem = ''portfolio'',
               ef_description = show_count triggered @ '' portfolio(s) immediately qualify for automated rebalancing trades.'',
               ef_estimatedAffectedCount = int triggered, ef_reversible = False\<rparr> @
            when_some (suppressed > 0)
              \<lparr>ef_code = ''AUTO_REBALANCE_SUPPRESSED'', ef_severity = E_info, ef_subsystem = ''portfolio'',
               ef_description = show_count suppressed @ '' portfolio(s) will have scheduled auto-rebalancing suppressed.'',
               ef_estimatedAffectedCount = int suppressed, ef_reversible = True\<rparr>,
          im_constraints =
            when_some (invalidated > 0)
              \<lparr>rc_code = ''PORTFOLIO_TARGETS_REQUIRE_VERSION_RESTORE'', rc_reversibility = Partially_reversible,
               rc_constraint = ''Portfolios forced to re-save target allocations create new TargetAllocationVersion rows; config rollback restores the limit but does not revert user-modified allocation versions.'',
               rc_preCommitRequirement = ''Snapshot TargetAllocationVersion table or notify affected portfolio owners before tightening concentration limits.'',
               rc_rollbackProcedure = ''Revert maxSingleAssetWeightPct and, if needed, restore prior TargetAllocationVersion per portfolio.'',
               rc_recoverySteps =
                [''Revert portfolio_rebalancing policy configuration.'',
                 ''Inspect GET /portfolio/:portfolioId/allocations/history for versions created after policy commit.'']\<rparr> @
            when_some (triggered > 0)
              \<lparr>rc_code = ''IN_FLIGHT_QUEUE_DRAIN_REQUIRED'', rc_reversibility = Partially_reversible,
               rc_constraint = ''Lowering driftThresholdPct triggers immediate rebalancing trades; trades already executed cannot be reversed by restoring the threshold.'',
               rc_preCommitRequirement = ''Verify trade execution capacity and rate limits before lowering driftThresholdPct.'',
               rc_rollbackProcedure = ''Raise driftThresholdPct back to previous value and drain unexecuted rebalancing jobs.'',
               rc_recoverySteps =
                [''Revert driftThresholdPct / autoRebalanceEnabled to prior values.'',
                 ''Check RebalancingService execution logs for trades executed during the window.'']\<rparr>,
          im_warnings = when_some (invalidated > 0) (show_count invalidated @
            '' portfolio(s) have persisted target allocations exceeding maxSingleAssetWeightPct ('' @ js_show h (rp_maxSingleAssetWeightPct proposed) @ ''%).'')\<rparr>)"

section \<open>Authentication and access\<close>

record user_flags =
  uf_roleNewlyDisallowed :: bool
  uf_kycInsufficient :: bool
  uf_ttlExpired :: bool
  uf_unverifiedRevoked :: bool
  uf_mfaNewlyRequired :: bool

definition user_flags_of :: "AuthAccessPolicy \<Rightarrow> AuthAccessPolicy \<Rightarrow> SimulatedUserRecord \<Rightarrow> user_flags" where
  "user_flags_of current proposed user =
     (let role = toUpperCase (trim (us_role user)) in
      \<lparr>uf_roleNewlyDisallowed = role \<notin> set (ap_disallowedRoles current) \<and> role \<in> set (ap_disallowedRoles proposed),
       uf_kycInsufficient = js_le (ap_minKycTier current) (us_kycTier user) \<and> js_less (us_kycTier user) (ap_minKycTier proposed),
       uf_ttlExpired = js_le (us_sessionAgeMinutes user) (ap_sessionTtlMinutes current) \<and> js_less (ap_sessionTtlMinutes proposed) (us_sessionAgeMinutes user),
       uf_unverifiedRevoked = \<not> ap_revokeUnverifiedSessions current \<and> ap_revokeUnverifiedSessions proposed
         \<and> (\<not> us_mfaEnabled user \<or> js_less (us_kycTier user) (ap_minKycTier proposed)),
       uf_mfaNewlyRequired = \<not> ap_requireMfaForSensitiveActions current \<and> ap_requireMfaForSensitiveActions proposed \<and> \<not> us_mfaEnabled user\<rparr>)"

definition sessionTerminated :: "user_flags \<Rightarrow> bool" where
  "sessionTerminated f = (uf_roleNewlyDisallowed f \<or> uf_ttlExpired f \<or> uf_unverifiedRevoked f)"

definition user_affected :: "user_flags \<Rightarrow> bool" where
  "user_affected f = (sessionTerminated f \<or> uf_kycInsufficient f \<or> uf_mfaNewlyRequired f)"

definition user_reasons :: "host \<Rightarrow> AuthAccessPolicy \<Rightarrow> AuthAccessPolicy \<Rightarrow> SimulatedUserRecord \<Rightarrow> string list" where
  "user_reasons h current proposed user =
     (let f = user_flags_of current proposed user in
      when_some (uf_roleNewlyDisallowed f) (''role '' @ sq @ toUpperCase (trim (us_role user)) @ sq @ '' added to disallowedRoles'') @
      when_some (uf_unverifiedRevoked f) (''active sessions ('' @ show_int (us_activeSessionCount user) @ '') revoked due to revokeUnverifiedSessions'') @
      when_some (uf_ttlExpired f) (''session age '' @ js_show h (us_sessionAgeMinutes user) @ ''m exceeds reduced sessionTtlMinutes '' @ js_show h (ap_sessionTtlMinutes proposed) @ ''m'') @
      when_some (uf_kycInsufficient f) (''user kycTier '' @ js_show h (us_kycTier user) @ '' is below proposed minKycTier '' @ js_show h (ap_minKycTier proposed)) @
      when_some (uf_mfaNewlyRequired f) ''MFA step-up required for sensitive operations'')"

definition user_impact :: "host \<Rightarrow> AuthAccessPolicy \<Rightarrow> AuthAccessPolicy \<Rightarrow> SimulatedUserRecord \<Rightarrow> AffectedRecordPreview list" where
  "user_impact h current proposed user =
     (let f = user_flags_of current proposed user;
          terminated = sessionTerminated f;
          state = (\<lambda>sessions. [(''role'', D_str (toUpperCase (trim (us_role user)))), (''mfaEnabled'', D_bool (us_mfaEnabled user)),
            (''kycTier'', D_num (us_kycTier user)), (''activeSessions'', D_num (Fin (of_int sessions)))])
      in when_some (user_affected f)
        \<lparr>ar_recordId = ''sess:'' @ maskIdentifier (us_userId user), ar_recordType = ''user_session'', ar_ownerId = maskIdentifier (us_userId user),
         ar_impactType = (if terminated then ''invalidated'' else ''blocked''), ar_reversible = (\<not> terminated),
         ar_reason = ''Auth access impact: '' @ join ''; '' (user_reasons h current proposed user) @ ''.'',
         ar_beforeState = state (us_activeSessionCount user),
         ar_afterState = state (if terminated then 0 else us_activeSessionCount user)
           @ [(''requiresStepUp'', D_bool (uf_mfaNewlyRequired f \<or> uf_kycInsufficient f))]\<rparr>)"

definition evaluateAuthAccessPolicyImpact :: "host \<Rightarrow> AuthAccessPolicy \<Rightarrow> AuthAccessPolicy \<Rightarrow> PolicySimulationSnapshot \<Rightarrow> impact" where
  "evaluateAuthAccessPolicyImpact h current proposed snapshot =
     (let users = sn_users snapshot;
          flags = user_flags_of current proposed;
          revoked = sum_list (map us_activeSessionCount (filter (\<lambda>u. sessionTerminated (flags u) \<and> us_activeSessionCount u > 0) users));
          mfaEnforced = tally (\<lambda>u. uf_mfaNewlyRequired (flags u)) users;
          restricted = tally (\<lambda>u. uf_roleNewlyDisallowed (flags u)) users
      in \<lparr>im_records = concat (map (user_impact h current proposed) users),
          im_effects =
            when_some (revoked > 0)
              \<lparr>ef_code = ''ACTIVE_SESSIONS_REVOKED'', ef_severity = E_critical, ef_subsystem = ''auth'',
               ef_description = show_int revoked @ '' active JWT/session(s) will be terminated immediately.'',
               ef_estimatedAffectedCount = revoked, ef_reversible = False\<rparr> @
            when_some (mfaEnforced > 0)
              \<lparr>ef_code = ''MFA_STEP_UP_ENFORCED'', ef_severity = E_warning, ef_subsystem = ''auth'',
               ef_description = show_count mfaEnforced @ '' user(s) without MFA enabled will be challenged or blocked on sensitive actions.'',
               ef_estimatedAffectedCount = int mfaEnforced, ef_reversible = True\<rparr> @
            when_some (restricted > 0)
              \<lparr>ef_code = ''PRIVILEGED_ROLES_RESTRICTED'', ef_severity = E_high, ef_subsystem = ''auth'',
               ef_description = show_count restricted @ '' user(s) hold roles newly restricted by disallowedRoles.'',
               ef_estimatedAffectedCount = int restricted, ef_reversible = False\<rparr>,
          im_constraints =
            when_some (revoked > 0)
              \<lparr>rc_code = ''IRREVERSIBLE_SESSION_REVOCATION'', rc_reversibility = Irreversible,
               rc_constraint = ''Revoked sessions and invalidated JWT/refresh tokens cannot be silently restored by rolling back auth policy configuration; users must re-authenticate.'',
               rc_preCommitRequirement = ''Confirm communications banner is scheduled and verify that service actors / admin accounts are not using short-lived interactive sessions.'',
               rc_rollbackProcedure = ''Revert auth_access policy settings to allow affected users to log back in without friction.'',
               rc_recoverySteps =
                [''Revert revokeUnverifiedSessions, sessionTtlMinutes, or disallowedRoles to previous values.'',
                 ''Clear auth rate-limit buckets so returning users are not throttled during re-login.'',
                 ''Monitor /auth/verify and /auth/challenge error rates.'']\<rparr>,
          im_warnings = when_some (revoked > 0)
            (show_int revoked @ '' active user session(s) will be immediately invalidated; affected users must re-authenticate.'')\<rparr>)"

section \<open>Notification routing\<close>

definition newlyForcedChannels ::
  "NotificationRoutingPolicy \<Rightarrow> NotificationRoutingPolicy \<Rightarrow> SimulatedNotificationPreferenceRecord \<Rightarrow> string list" where
  "newlyForcedChannels current proposed pref =
     filter (\<lambda>ch. ch \<notin> set (np_mandatorySecurityChannels current))
       (filter (\<lambda>ch. ch \<notin> set (nf_enabledChannels pref)) (np_mandatorySecurityChannels proposed))"

definition marketingSuppressed ::
  "NotificationRoutingPolicy \<Rightarrow> NotificationRoutingPolicy \<Rightarrow> SimulatedNotificationPreferenceRecord \<Rightarrow> bool" where
  "marketingSuppressed current proposed pref =
     (\<not> np_suppressMarketingChannels current \<and> np_suppressMarketingChannels proposed \<and> nf_marketingOptIn pref)"

text \<open>\<open>!==\<close> holds between NaN and itself.\<close>

definition digestChanged ::
  "NotificationRoutingPolicy \<Rightarrow> NotificationRoutingPolicy \<Rightarrow> SimulatedNotificationPreferenceRecord \<Rightarrow> bool" where
  "digestChanged current proposed pref =
     ((np_digestWindowMinutes current \<noteq> np_digestWindowMinutes proposed \<or> np_digestWindowMinutes current = NotANumber)
      \<and> nf_pendingDigestCount pref > 0)"

definition preference_reasons ::
  "host \<Rightarrow> NotificationRoutingPolicy \<Rightarrow> NotificationRoutingPolicy \<Rightarrow> SimulatedNotificationPreferenceRecord \<Rightarrow> string list" where
  "preference_reasons h current proposed pref =
     (let forced = newlyForcedChannels current proposed pref in
      when_some (forced \<noteq> []) (''mandatory security channel(s) ['' @ join '', '' forced @ ''] enforced over user preference'') @
      when_some (marketingSuppressed current proposed pref) ''marketing notifications suppressed globally'' @
      when_some (digestChanged current proposed pref) (show_int (nf_pendingDigestCount pref) @ '' pending digest item(s) re-windowed from '' @
        js_show h (np_digestWindowMinutes current) @ ''m to '' @ js_show h (np_digestWindowMinutes proposed) @ ''m''))"

definition preference_impact ::
  "host \<Rightarrow> NotificationRoutingPolicy \<Rightarrow> NotificationRoutingPolicy \<Rightarrow> SimulatedNotificationPreferenceRecord \<Rightarrow> AffectedRecordPreview list" where
  "preference_impact h current proposed pref =
     (let overridden = newlyForcedChannels current proposed pref \<noteq> [] \<or> marketingSuppressed current proposed pref in
      when_some (overridden \<or> digestChanged current proposed pref)
        \<lparr>ar_recordId = nf_preferenceId pref, ar_recordType = ''notification_preference'', ar_ownerId = maskIdentifier (nf_userId pref),
         ar_impactType = (if overridden then ''overridden'' else ''requeued''), ar_reversible = True,
         ar_reason = ''Notification routing impact: '' @ join ''; '' (preference_reasons h current proposed pref) @ ''.'',
         ar_beforeState = [(''enabledChannels'', D_str (join '','' (nf_enabledChannels pref))), (''marketingOptIn'', D_bool (nf_marketingOptIn pref)),
           (''digestWindowMinutes'', D_num (np_digestWindowMinutes current))],
         ar_afterState = [(''effectiveChannels'', D_str (join '','' (js_set (nf_enabledChannels pref @ np_mandatorySecurityChannels proposed)))),
           (''effectiveMarketing'', D_bool (if np_suppressMarketingChannels proposed then False else nf_marketingOptIn pref)),
           (''digestWindowMinutes'', D_num (np_digestWindowMinutes proposed))]\<rparr>)"

definition evaluateNotificationPolicyImpact ::
  "host \<Rightarrow> NotificationRoutingPolicy \<Rightarrow> NotificationRoutingPolicy \<Rightarrow> PolicySimulationSnapshot \<Rightarrow> impact" where
  "evaluateNotificationPolicyImpact h current proposed snapshot =
     (let prefs = sn_notificationPreferences snapshot;
          overridden = tally (\<lambda>x. newlyForcedChannels current proposed x \<noteq> []) prefs + tally (marketingSuppressed current proposed) prefs;
          rebatched = sum_list (map nf_pendingDigestCount (filter (digestChanged current proposed) prefs))
      in \<lparr>im_records = concat (map (preference_impact h current proposed) prefs),
          im_effects =
            when_some (overridden > 0)
              \<lparr>ef_code = ''NOTIFICATION_PREFERENCES_OVERRIDDEN'', ef_severity = E_warning, ef_subsystem = ''notifications'',
               ef_description = show_count overridden @ '' user preference(s) overridden to enforce mandatory security channels or marketing suppression.'',
               ef_estimatedAffectedCount = int overridden, ef_reversible = True\<rparr> @
            when_some (rebatched > 0)
              \<lparr>ef_code = ''NOTIFICATION_DIGEST_REBATCHED'', ef_severity = E_info, ef_subsystem = ''notifications'',
               ef_description = show_int rebatched @ '' pending notification aggregation item(s) will be re-windowed to '' @ js_show h (np_digestWindowMinutes proposed) @ ''m.'',
               ef_estimatedAffectedCount = rebatched, ef_reversible = True\<rparr>,
          im_constraints =
            when_some (overridden > 0)
              \<lparr>rc_code = ''NOTIFICATION_OVERRIDES_REQUIRE_SNAPSHOT_RESTORE'', rc_reversibility = Partially_reversible,
               rc_constraint = ''Notifications already dispatched via mandatory channels cannot be recalled, though user channel preferences remain intact on policy revert.'',
               rc_preCommitRequirement = ''Ensure notification templates exist for all mandatorySecurityChannels before committing.'',
               rc_rollbackProcedure = ''Revert notification_routing policy to restore user-selected channel filtering.'',
               rc_recoverySteps =
                [''Revert mandatorySecurityChannels and suppressMarketingChannels to previous configuration.'',
                 ''Verify NotificationPreference entities were not destructively overwritten in storage.'']\<rparr>,
          im_warnings = when_some (overridden > 0) (show_count overridden @
            '' user notification preference record(s) will be overridden by mandatory security routing or marketing suppression.'')\<rparr>)"

section \<open>Differences and verdicts\<close>

record PolicyFieldDiff =
  df_field :: string
  df_previousValue :: dyn
  df_proposedValue :: dyn
  df_changeType :: string
  df_summary :: string

definition number_change :: "string \<Rightarrow> js_number \<Rightarrow> js_number \<Rightarrow> string" where
  "number_change field prev next =
     (if field \<in> set [''maxOrderAmount'', ''maxSlippageBps'', ''maxSingleAssetWeightPct'', ''sessionTtlMinutes'', ''maxDeliveryRetries'']
      then (if js_less next prev then ''tightened'' else ''relaxed'')
      else if field \<in> set [''minHealthFactor'', ''minKycTier'', ''minTradeSizeUsd'']
      then (if js_less prev next then ''tightened'' else ''relaxed'')
      else ''modified'')"

definition list_change :: "string \<Rightarrow> nat \<Rightarrow> nat \<Rightarrow> string" where
  "list_change field prev next =
     (if field = ''disallowedRoles'' \<or> field = ''mandatorySecurityChannels''
      then (if next > prev then ''tightened'' else ''relaxed'')
      else (if next < prev then ''tightened'' else ''relaxed''))"

fun change_type :: "string \<Rightarrow> dyn \<Rightarrow> dyn \<Rightarrow> string" where
  "change_type field (D_bool _) (D_bool _) = ''toggled''"
| "change_type field (D_num a) (D_num b) = number_change field a b"
| "change_type field (D_list xs) (D_list ys) = list_change field (length xs) (length ys)"
| "change_type field D_undefined (D_list _) = (if field = ''allowedAssets'' then ''tightened'' else ''modified'')"
| "change_type field (D_list _) D_undefined = (if field = ''allowedAssets'' then ''relaxed'' else ''modified'')"
| "change_type field _ _ = ''modified''"

text \<open>The values of a typed policy are flat, so \<open>JSON.stringify\<close> and \<open>canonicalizeValue\<close> agree on them.\<close>

definition field_diff :: "host \<Rightarrow> string \<Rightarrow> string \<Rightarrow> dyn \<Rightarrow> dyn \<Rightarrow> PolicyFieldDiff" where
  "field_diff h d field prev next =
     (if canonicalizeValue h prev = canonicalizeValue h next
      then \<lparr>df_field = field, df_previousValue = or_null prev, df_proposedValue = or_null next, df_changeType = ''unchanged'',
            df_summary = d @ ''.'' @ field @ '' remains unchanged.''\<rparr>
      else \<lparr>df_field = field, df_previousValue = or_null prev, df_proposedValue = or_null next, df_changeType = change_type field prev next,
            df_summary = d @ ''.'' @ field @ '' changed from '' @ canonicalizeValue h (or_null prev) @ '' to '' @
              canonicalizeValue h (or_null next) @ '' ('' @ change_type field prev next @ '').''\<rparr>)"

definition computePolicyDiffs :: "host \<Rightarrow> PolicyDomain \<Rightarrow> domain_policy \<Rightarrow> domain_policy \<Rightarrow> PolicyFieldDiff list" where
  "computePolicyDiffs h d current proposed =
     (let c = policy_fields current; p = policy_fields proposed in
      map (\<lambda>field. field_diff h (domain_name d) field (dyn_field c field) (dyn_field p field))
        (js_sort string_le (js_set (map fst c @ map fst p))))"

definition deriveReversibility ::
  "AffectedRecordPreview list \<Rightarrow> ExpectedSideEffect list \<Rightarrow> RollbackConstraint list \<Rightarrow> PolicyReversibility" where
  "deriveReversibility records effects constraints =
     (if list_ex (\<lambda>c. rc_reversibility c = Irreversible) constraints \<or> list_ex (\<lambda>e. \<not> ef_reversible e \<and> ef_severity e = E_critical) effects
      then Irreversible
      else if list_ex (\<lambda>c. rc_reversibility c = Partially_reversible) constraints \<or> list_ex (\<lambda>r. \<not> ar_reversible r) records
        \<or> list_ex (\<lambda>e. \<not> ef_reversible e) effects
      then Partially_reversible
      else Fully_reversible)"

definition deriveImpactSeverity ::
  "string list \<Rightarrow> nat \<Rightarrow> ExpectedSideEffect list \<Rightarrow> PolicyReversibility \<Rightarrow> PolicyImpactSeverity" where
  "deriveImpactSeverity validationErrors affectedRecordCount effects reversibility =
     (if validationErrors \<noteq> [] \<or> reversibility = Irreversible \<or> list_ex (\<lambda>e. ef_severity e = E_critical) effects then Critical
      else if list_ex (\<lambda>e. ef_severity e = E_high) effects \<or> affectedRecordCount \<ge> 3 \<or> reversibility = Partially_reversible then High
      else if list_ex (\<lambda>e. ef_severity e = E_warning) effects \<or> affectedRecordCount > 0 then Medium
      else Low)"

definition deriveSimulationStatus ::
  "string list \<Rightarrow> SnapshotCompleteness \<Rightarrow> PolicyImpactSeverity \<Rightarrow> PolicyReversibility \<Rightarrow> nat \<Rightarrow> PolicySimulationStatus" where
  "deriveSimulationStatus validationErrors completeness severity reversibility affectedRecordCount =
     (if validationErrors \<noteq> [] then Blocked_invalid_policy
      else if reversibility = Irreversible \<or> severity = Critical \<or> severity = High \<or> completeness = Stale_snapshot
      then High_impact_review_required
      else if reversibility = Partially_reversible \<or> severity = Medium \<or> affectedRecordCount > 0 \<or> completeness = Partial_sample
      then Caution_required
      else Safe_to_apply)"

section \<open>The preview\<close>

record AffectedPopulationSummary =
  as_totalUsersEvaluated :: nat
  as_affectedUserIds :: "string list"
  as_totalRecordsEvaluated :: nat
  as_affectedRecordsByType :: "(string, nat) jsmap"
  as_affectedRecords :: "AffectedRecordPreview list"
  as_completeness :: SnapshotCompleteness
  as_estimatedTotalAffectedUsers :: int

record PolicySimulationInput =
  pi_domain :: PolicyDomain
  pi_currentPolicy :: "(string, dyn) jsmap option"
  pi_proposedPolicy :: "(string, dyn) jsmap"
  pi_snapshot :: "PolicySimulationSnapshot option"
  pi_asOf :: "string option"
  pi_maxSnapshotAgeSeconds :: "js_number option"

record PolicySimulationPreviewResult =
  pr_simulationId :: string
  pr_domain :: PolicyDomain
  pr_asOf :: string
  pr_snapshotVersion :: string
  pr_snapshotObservedAt :: string
  pr_status :: PolicySimulationStatus
  pr_impactSeverity :: PolicyImpactSeverity
  pr_reversibility :: PolicyReversibility
  pr_requiresCommitToken :: bool
  pr_commitToken :: string
  pr_currentPolicy :: domain_policy
  pr_effectiveProposedPolicy :: domain_policy
  pr_diffs :: "PolicyFieldDiff list"
  pr_affectedSummary :: AffectedPopulationSummary
  pr_expectedSideEffects :: "ExpectedSideEffect list"
  pr_rollbackConstraints :: "RollbackConstraint list"
  pr_warnings :: "string list"
  pr_validationErrors :: "string list"
  pr_digest :: string

text \<open>The age in seconds; \<open>None\<close> is infinity.\<close>

definition computeAgeSeconds :: "host \<Rightarrow> string \<Rightarrow> string \<Rightarrow> rat option" where
  "computeAgeSeconds h asOf observedAt =
     (case (hs_parse h asOf, hs_parse h observedAt) of
        (Some nowMs, Some obsMs) \<Rightarrow> Some (max 0 (fl64 (of_int (nowMs - obsMs) / 1000)))
      | _ \<Rightarrow> None)"

definition rounded_age :: "rat option \<Rightarrow> string" where
  "rounded_age age = (case age of None \<Rightarrow> ''Infinity'' | Some a \<Rightarrow> show_int (js_round a))"

definition is_stale :: "rat option \<Rightarrow> js_number \<Rightarrow> bool" where
  "is_stale age limit = js_less limit (case age of None \<Rightarrow> PosInfinity | Some a \<Rightarrow> Fin a)"

definition stale_impact :: "host \<Rightarrow> PolicySimulationSnapshot \<Rightarrow> rat option \<Rightarrow> js_number \<Rightarrow> impact" where
  "stale_impact h snapshot age limit =
     \<lparr>im_records = [],
      im_effects = [\<lparr>ef_code = ''STALE_SNAPSHOT_UNCERTAINTY'', ef_severity = E_high, ef_subsystem = ''observability'',
        ef_description = ''Simulation evaluated against a snapshot aged '' @ rounded_age age @ ''s; actual affected record count may have drifted.'',
        ef_estimatedAffectedCount = 0, ef_reversible = True\<rparr>],
      im_constraints = [\<lparr>rc_code = ''STALE_SNAPSHOT_BLOCKS_UNSAFE_COMMIT'', rc_reversibility = Partially_reversible,
        rc_constraint = ''Snapshot age exceeds freshness threshold; committing without a fresh snapshot risks unpreviewed user impact.'',
        rc_preCommitRequirement = ''Re-run simulation preview with a fresh population snapshot observed within the last 300 seconds.'',
        rc_rollbackProcedure = ''Capture a fresh point-in-time snapshot before applying or rolling back the policy.'',
        rc_recoverySteps = [''Fetch latest population state from active repositories.'',
          ''Re-run POST /policy/simulations/preview to obtain a fresh commitToken.'']\<rparr>],
      im_warnings = [''Population snapshot '' @ sq @ sn_version snapshot @ sq @ '' is stale ('' @ rounded_age age @ ''s old > '' @
        js_show h limit @ ''s limit). Refresh snapshot before committing high-impact changes.'']\<rparr>"

definition sample_warning :: "PolicySimulationSnapshot \<Rightarrow> string" where
  "sample_warning snapshot =
     ''Simulation evaluated against a sampled population snapshot ('' @ show_count (length (sn_users snapshot)) @ '' of '' @
     (case sn_totalPopulationUsers snapshot of None \<Rightarrow> ''unknown'' | Some n \<Rightarrow> show_int n) @ '' users).''"

definition completeness_impact ::
  "host \<Rightarrow> PolicySimulationSnapshot \<Rightarrow> rat option \<Rightarrow> js_number \<Rightarrow> SnapshotCompleteness \<times> impact" where
  "completeness_impact h snapshot age limit =
     (if is_stale age limit then (Stale_snapshot, stale_impact h snapshot age limit)
      else if sn_isSampled snapshot
      then (Partial_sample, \<lparr>im_records = [], im_effects = [], im_constraints = [], im_warnings = [sample_warning snapshot]\<rparr>)
      else (Complete, \<lparr>im_records = [], im_effects = [], im_constraints = [], im_warnings = []\<rparr>))"

fun domain_impact :: "host \<Rightarrow> domain_policy \<Rightarrow> domain_policy \<Rightarrow> PolicySimulationSnapshot \<Rightarrow> impact" where
  "domain_impact h (P_trading c) (P_trading p) snapshot = evaluateTradingPolicyImpact h c p snapshot"
| "domain_impact h (P_defi c) (P_defi p) snapshot = evaluateDeFiAdapterPolicyImpact h c p snapshot"
| "domain_impact h (P_portfolio c) (P_portfolio p) snapshot = evaluatePortfolioPolicyImpact h c p snapshot"
| "domain_impact h (P_auth c) (P_auth p) snapshot = evaluateAuthAccessPolicyImpact h c p snapshot"
| "domain_impact h (P_notification c) (P_notification p) snapshot = evaluateNotificationPolicyImpact h c p snapshot"
| "domain_impact h _ _ snapshot = \<lparr>im_records = [], im_effects = [], im_constraints = [], im_warnings = []\<rparr>"

definition revert_supported :: RollbackConstraint where
  "revert_supported =
     \<lparr>rc_code = ''CONFIG_REVERT_FULLY_SUPPORTED'', rc_reversibility = Fully_reversible,
      rc_constraint = ''No destructive or one-way state transitions detected; configuration can be reverted cleanly.'',
      rc_preCommitRequirement = ''Verify diffs and record current configuration version in audit log.'',
      rc_rollbackProcedure = ''Invoke POST /policy/simulations/rollback/:commitId or restore previous policy configuration values.'',
      rc_recoverySteps = [''Revert policy configuration to previous snapshot values.'', ''Verify /policy/simulations/active matches prior digest.'']\<rparr>"

text \<open>The users a sample stands for, when the population is known: the estimate and its side effect.\<close>

definition extrapolate :: "PolicySimulationSnapshot \<Rightarrow> nat \<Rightarrow> int \<times> ExpectedSideEffect list" where
  "extrapolate snapshot affectedUsers =
     (case sn_totalPopulationUsers snapshot of
        Some population \<Rightarrow>
          if sn_isSampled snapshot \<and> population \<noteq> 0 \<and> sn_users snapshot \<noteq> []
          then let scale = fl64 (of_int population / of_nat (length (sn_users snapshot)));
                   estimate = js_round (fl64 (of_nat affectedUsers * scale))
               in (estimate, [\<lparr>ef_code = ''PARTIAL_SAMPLE_EXTRAPOLATION'', ef_severity = E_info, ef_subsystem = ''observability'',
                 ef_description = ''Extrapolated '' @ show_int estimate @ '' affected users across total population of '' @ show_int population @
                   '' from sample ratio '' @ toFixed2 scale @ ''x.'',
                 ef_estimatedAffectedCount = estimate, ef_reversible = True\<rparr>])
          else (int affectedUsers, [])
      | None \<Rightarrow> (int affectedUsers, []))"

definition summarize ::
  "host \<Rightarrow> PolicySimulationSnapshot \<Rightarrow> SnapshotCompleteness \<Rightarrow> AffectedRecordPreview list \<Rightarrow> AffectedPopulationSummary" where
  "summarize h snapshot completeness records =
     (let affected = js_sort (\<lambda>a b. hs_localeLe h (ar_recordId a) (ar_recordId b)) records;
          userIds = js_sort string_le (js_set (map ar_ownerId affected))
      in \<lparr>as_totalUsersEvaluated = length (sn_users snapshot), as_affectedUserIds = userIds,
          as_totalRecordsEvaluated = length (sn_users snapshot) + length (sn_pendingTrades snapshot) + length (sn_portfolios snapshot)
            + length (sn_defiPositions snapshot) + length (sn_notificationPreferences snapshot),
          as_affectedRecordsByType = foldl (\<lambda>m r. map_set (ar_recordType r)
            ((case map_get m (ar_recordType r) of None \<Rightarrow> 0 | Some n \<Rightarrow> n) + 1) m) [] affected,
          as_affectedRecords = affected, as_completeness = completeness,
          as_estimatedTotalAffectedUsers = fst (extrapolate snapshot (length userIds))\<rparr>)"

subsection \<open>What the digest covers\<close>

fun status_name :: "PolicySimulationStatus \<Rightarrow> string" where
  "status_name Safe_to_apply = ''safe_to_apply''"
| "status_name Caution_required = ''caution_required''"
| "status_name High_impact_review_required = ''high_impact_review_required''"
| "status_name Blocked_invalid_policy = ''blocked_invalid_policy''"

fun severity_name :: "PolicyImpactSeverity \<Rightarrow> string" where
  "severity_name Low = ''low''"
| "severity_name Medium = ''medium''"
| "severity_name High = ''high''"
| "severity_name Critical = ''critical''"

fun reversibility_name :: "PolicyReversibility \<Rightarrow> string" where
  "reversibility_name Fully_reversible = ''fully_reversible''"
| "reversibility_name Partially_reversible = ''partially_reversible''"
| "reversibility_name Irreversible = ''irreversible''"

fun completeness_name :: "SnapshotCompleteness \<Rightarrow> string" where
  "completeness_name Complete = ''complete''"
| "completeness_name Partial_sample = ''partial_sample''"
| "completeness_name Stale_snapshot = ''stale_snapshot''"

fun effect_severity_name :: "EffectSeverity \<Rightarrow> string" where
  "effect_severity_name E_info = ''info''"
| "effect_severity_name E_warning = ''warning''"
| "effect_severity_name E_high = ''high''"
| "effect_severity_name E_critical = ''critical''"

abbreviation D_int :: "int \<Rightarrow> dyn" where
  "D_int n \<equiv> D_num (Fin (of_int n))"

definition diff_value :: "PolicyFieldDiff \<Rightarrow> dyn" where
  "diff_value d = D_obj [(''field'', D_str (df_field d)), (''previousValue'', df_previousValue d), (''proposedValue'', df_proposedValue d),
     (''changeType'', D_str (df_changeType d)), (''summary'', D_str (df_summary d))]"

definition record_value :: "AffectedRecordPreview \<Rightarrow> dyn" where
  "record_value r = D_obj [(''recordId'', D_str (ar_recordId r)), (''recordType'', D_str (ar_recordType r)), (''ownerId'', D_str (ar_ownerId r)),
     (''impactType'', D_str (ar_impactType r)), (''reversible'', D_bool (ar_reversible r)), (''reason'', D_str (ar_reason r)),
     (''beforeState'', D_obj (ar_beforeState r)), (''afterState'', D_obj (ar_afterState r))]"

definition summary_value :: "AffectedPopulationSummary \<Rightarrow> dyn" where
  "summary_value a = D_obj [(''totalUsersEvaluated'', D_int (int (as_totalUsersEvaluated a))),
     (''affectedUserCount'', D_int (int (length (as_affectedUserIds a)))), (''affectedUserIds'', D_strs (as_affectedUserIds a)),
     (''totalRecordsEvaluated'', D_int (int (as_totalRecordsEvaluated a))),
     (''affectedRecordCount'', D_int (int (length (as_affectedRecords a)))),
     (''affectedRecordsByType'', D_obj (map (\<lambda>(k, n). (k, D_int (int n))) (as_affectedRecordsByType a))),
     (''affectedRecords'', D_list (map record_value (as_affectedRecords a))),
     (''completeness'', D_str (completeness_name (as_completeness a))),
     (''estimatedTotalAffectedUsers'', D_int (as_estimatedTotalAffectedUsers a))]"

definition effect_value :: "ExpectedSideEffect \<Rightarrow> dyn" where
  "effect_value e = D_obj [(''code'', D_str (ef_code e)), (''severity'', D_str (effect_severity_name (ef_severity e))),
     (''subsystem'', D_str (ef_subsystem e)), (''description'', D_str (ef_description e)),
     (''estimatedAffectedCount'', D_int (ef_estimatedAffectedCount e)), (''reversible'', D_bool (ef_reversible e))]"

definition constraint_value :: "RollbackConstraint \<Rightarrow> dyn" where
  "constraint_value c = D_obj [(''code'', D_str (rc_code c)), (''reversibility'', D_str (reversibility_name (rc_reversibility c))),
     (''constraint'', D_str (rc_constraint c)), (''preCommitRequirement'', D_str (rc_preCommitRequirement c)),
     (''rollbackProcedure'', D_str (rc_rollbackProcedure c)), (''recoverySteps'', D_strs (rc_recoverySteps c))]"

definition core_payload :: "PolicySimulationPreviewResult \<Rightarrow> dyn" where
  "core_payload r = D_obj [(''domain'', D_str (domain_name (pr_domain r))), (''asOf'', D_str (pr_asOf r)),
     (''snapshotVersion'', D_str (pr_snapshotVersion r)), (''snapshotObservedAt'', D_str (pr_snapshotObservedAt r)),
     (''status'', D_str (status_name (pr_status r))), (''impactSeverity'', D_str (severity_name (pr_impactSeverity r))),
     (''reversibility'', D_str (reversibility_name (pr_reversibility r))), (''requiresCommitToken'', D_bool (pr_requiresCommitToken r)),
     (''commitToken'', D_str (pr_commitToken r)), (''currentPolicy'', D_obj (policy_fields (pr_currentPolicy r))),
     (''effectiveProposedPolicy'', D_obj (policy_fields (pr_effectiveProposedPolicy r))), (''diffs'', D_list (map diff_value (pr_diffs r))),
     (''affectedSummary'', summary_value (pr_affectedSummary r)), (''expectedSideEffects'', D_list (map effect_value (pr_expectedSideEffects r))),
     (''rollbackConstraints'', D_list (map constraint_value (pr_rollbackConstraints r))), (''warnings'', D_strs (pr_warnings r)),
     (''validationErrors'', D_strs (pr_validationErrors r))]"

definition with_digest :: "host \<Rightarrow> PolicySimulationPreviewResult \<Rightarrow> PolicySimulationPreviewResult" where
  "with_digest h r =
     (let digest = computeDigest h ''policy-simulation-preview:v1'' (core_payload r) in
      r\<lparr>pr_digest := digest, pr_simulationId := ''psim:'' @ domain_name (pr_domain r) @ '':'' @ take 16 digest\<rparr>)"

text \<open>\<open>corePayload\<close>, as a preview whose id and digest are still empty.\<close>

definition corePayload :: "host \<Rightarrow> PolicySimulationInput \<Rightarrow> PolicySimulationPreviewResult" where
  "corePayload h input =
     (let asOf = (case pi_asOf input of None \<Rightarrow> hs_now h | Some t \<Rightarrow> t);
          limit = (case pi_maxSnapshotAgeSeconds input of None \<Rightarrow> Fin (of_int DEFAULT_MAX_SNAPSHOT_AGE_SECONDS) | Some n \<Rightarrow> n);
          snapshot = (case pi_snapshot input of None \<Rightarrow> defaultSimulationSnapshot asOf | Some s \<Rightarrow> s);
          (current, proposed) = resolveEffectivePolicies h (pi_domain input)
            (case pi_currentPolicy input of None \<Rightarrow> [] | Some c \<Rightarrow> c) (pi_proposedPolicy input);
          validationErrors = validateProposedPolicy proposed;
          (completeness, stale) = completeness_impact h snapshot (computeAgeSeconds h asOf (sn_observedAt snapshot)) limit;
          found = domain_impact h current proposed snapshot;
          constraints = im_constraints stale @ im_constraints found;
          constraints = (if constraints = [] then [revert_supported] else constraints);
          summary = summarize h snapshot completeness (im_records found);
          effects = im_effects stale @ im_effects found @ snd (extrapolate snapshot (length (as_affectedUserIds summary)));
          affectedRecordCount = length (as_affectedRecords summary);
          reversibility = deriveReversibility (as_affectedRecords summary) effects constraints;
          severity = deriveImpactSeverity validationErrors affectedRecordCount effects reversibility;
          status = deriveSimulationStatus validationErrors completeness severity reversibility affectedRecordCount
      in \<lparr>pr_simulationId = [], pr_domain = pi_domain input, pr_asOf = asOf, pr_snapshotVersion = sn_version snapshot,
         pr_snapshotObservedAt = sn_observedAt snapshot, pr_status = status, pr_impactSeverity = severity, pr_reversibility = reversibility,
         pr_requiresCommitToken = (status = High_impact_review_required \<or> reversibility \<noteq> Fully_reversible \<or> severity = High \<or> severity = Critical),
         pr_commitToken = computeCommitToken h (pi_domain input) current proposed (sn_version snapshot),
         pr_currentPolicy = current, pr_effectiveProposedPolicy = proposed, pr_diffs = computePolicyDiffs h (pi_domain input) current proposed,
         pr_affectedSummary = summary, pr_expectedSideEffects = effects, pr_rollbackConstraints = constraints,
         pr_warnings = im_warnings stale @ im_warnings found, pr_validationErrors = validationErrors, pr_digest = []\<rparr>)"

definition simulatePolicyChange :: "host \<Rightarrow> PolicySimulationInput \<Rightarrow> PolicySimulationPreviewResult" where
  "simulatePolicyChange h input = with_digest h (corePayload h input)"

end
