(* ===== verification/Policy_Commits.thy ===== *)
theory Policy_Commits
  imports Policy_Simulation
begin

text \<open>
  Committing and rolling back policy changes, \<open>src/policy/policy-simulation.service.ts\<close>, on top of the preview.

  A request awaits the population snapshot and then runs in three pieces, the preview, the check of what
  may proceed, and the commit, between which pieces of other requests may run.  A rollback is one piece.  The
  trading policy service is a \<open>trading_config\<close> (\<open>Trading_Policy\<close>), or absent; the population provider is
  what it answers, \<open>None\<close> when it fails.  Events are kept in a list.
\<close>

section \<open>State\<close>

record PolicyCommitRecord =
  cm_commitId :: string
  cm_domain :: PolicyDomain
  cm_actorId :: string
  cm_reason :: string
  cm_committedAt :: string
  cm_simulationId :: string
  cm_previewDigest :: string
  cm_previousPolicy :: domain_policy
  cm_appliedPolicy :: domain_policy
  cm_reversibility :: PolicyReversibility
  cm_impactSeverity :: PolicyImpactSeverity
  cm_rollbackAvailable :: bool
  cm_rolledBackAt :: "string option"
  cm_rolledBackBy :: "string option"
  cm_rollbackReason :: "string option"
  cm_rollbackConstraints :: "RollbackConstraint list"

datatype policy_event =
    Previewed string PolicyDomain string \<comment> \<open>simulation, domain, actor\<close>
  | Committed string string PolicyDomain string \<comment> \<open>commit, simulation, domain, actor\<close>
  | Commit_blocked string PolicyDomain string string \<comment> \<open>simulation, domain, actor, reason code\<close>
  | Rolled_back string PolicyDomain string string bool \<comment> \<open>commit, domain, actor, reason, manual recovery\<close>

record PolicySimulationMetrics =
  mt_totalSimulations :: nat
  mt_totalCommits :: nat
  mt_totalBlockedCommits :: nat
  mt_totalRollbacks :: nat
  mt_byDomain :: "PolicyDomain \<Rightarrow> nat"
  mt_byStatus :: "PolicySimulationStatus \<Rightarrow> nat"
  mt_byImpactSeverity :: "PolicyImpactSeverity \<Rightarrow> nat"
  mt_byReversibility :: "PolicyReversibility \<Rightarrow> nat"

record policy_state =
  sv_activePolicies :: DomainPolicyMap
  sv_commitHistory :: "(string, PolicyCommitRecord) jsmap"
  sv_metrics :: PolicySimulationMetrics
  sv_events :: "policy_event list"

record SimulatePolicyChangeDto =
  sd_domain :: PolicyDomain
  sd_proposedPolicy :: "(string, dyn) jsmap"
  sd_currentPolicy :: "(string, dyn) jsmap option"
  sd_snapshot :: "PolicySimulationSnapshot option"
  sd_asOf :: "string option"
  sd_maxSnapshotAgeSeconds :: "js_number option"

record CommitPolicyChangeDto = SimulatePolicyChangeDto +
  sd_reason :: string
  sd_commitToken :: "string option"

datatype policy_error =
    Validation_failed "string list"
  | Snapshot_stale
  | Commit_token_required string \<comment> \<open>the expected token\<close>
  | Reason_required
  | Commit_not_found string
  | Already_rolled_back string

section \<open>Operations\<close>

definition of_TradingPolicy :: "TradingPolicy \<Rightarrow> trading_policy" where
  "of_TradingPolicy p =
     \<lparr>st_enabled = tp_enabled p, st_maxOrderAmount = Fin (tp_maxOrderAmount p), st_allowedAssets = tp_allowedAssets p, st_allowedSides = tp_allowedSides p\<rparr>"

text \<open>The configuration: no policy service, or one with its configuration service, if any.\<close>

type_synonym policy_config = "trading_config option option"

definition new_service :: "policy_config \<Rightarrow> policy_state" where
  "new_service cfg =
     \<lparr>sv_activePolicies = (case cfg of None \<Rightarrow> defaultDomainPolicies
        | Some c \<Rightarrow> defaultDomainPolicies\<lparr>dm_trading := of_TradingPolicy (getTradingPolicy c)\<rparr>),
      sv_commitHistory = [],
      sv_metrics = \<lparr>mt_totalSimulations = 0, mt_totalCommits = 0, mt_totalBlockedCommits = 0, mt_totalRollbacks = 0,
        mt_byDomain = (\<lambda>_. 0), mt_byStatus = (\<lambda>_. 0), mt_byImpactSeverity = (\<lambda>_. 0), mt_byReversibility = (\<lambda>_. 0)\<rparr>,
      sv_events = []\<rparr>"

definition emit :: "policy_event \<Rightarrow> policy_state \<Rightarrow> policy_state" where
  "emit e s = s\<lparr>sv_events := sv_events s @ [e]\<rparr>"

definition getActivePolicy :: "policy_config \<Rightarrow> PolicyDomain \<Rightarrow> policy_state \<Rightarrow> domain_policy \<times> policy_state" where
  "getActivePolicy cfg d s =
     (let s1 = (case (d, cfg) of
                  (Trading, Some c) \<Rightarrow>
                    if list_ex (\<lambda>(_, r). cm_domain r = Trading) (sv_commitHistory s) then s
                    else s\<lparr>sv_activePolicies := (sv_activePolicies s)\<lparr>dm_trading := of_TradingPolicy (getTradingPolicy c)\<rparr>\<rparr>
                | _ \<Rightarrow> s)
      in (policy_of (sv_activePolicies s1) d, s1))"

definition getActivePolicies :: "policy_config \<Rightarrow> policy_state \<Rightarrow> DomainPolicyMap \<times> policy_state" where
  "getActivePolicies cfg s = (let s1 = snd (getActivePolicy cfg Trading s) in (sv_activePolicies s1, s1))"

definition getCommitHistory :: "PolicyDomain option \<Rightarrow> policy_state \<Rightarrow> PolicyCommitRecord list" where
  "getCommitHistory d s =
     rev (filter (\<lambda>r. case d of None \<Rightarrow> True | Some x \<Rightarrow> cm_domain r = x) (map snd (sv_commitHistory s)))"

definition resolveSnapshot ::
  "string \<Rightarrow> PolicySimulationSnapshot option \<Rightarrow> PolicySimulationSnapshot option \<Rightarrow> PolicySimulationSnapshot" where
  "resolveSnapshot asOf explicit provided =
     (case explicit of Some s \<Rightarrow> s | None \<Rightarrow> (case provided of Some s \<Rightarrow> s | None \<Rightarrow> defaultSimulationSnapshot asOf))"

definition recordSimulationMetrics :: "PolicySimulationPreviewResult \<Rightarrow> policy_state \<Rightarrow> policy_state" where
  "recordSimulationMetrics r s =
     (let m = sv_metrics s in
      s\<lparr>sv_metrics := m\<lparr>mt_totalSimulations := mt_totalSimulations m + 1,
        mt_byDomain := (mt_byDomain m)(pr_domain r := mt_byDomain m (pr_domain r) + 1),
        mt_byStatus := (mt_byStatus m)(pr_status r := mt_byStatus m (pr_status r) + 1),
        mt_byImpactSeverity := (mt_byImpactSeverity m)(pr_impactSeverity r := mt_byImpactSeverity m (pr_impactSeverity r) + 1),
        mt_byReversibility := (mt_byReversibility m)(pr_reversibility r := mt_byReversibility m (pr_reversibility r) + 1)\<rparr>\<rparr>)"

definition dto_asOf :: "host \<Rightarrow> 'a SimulatePolicyChangeDto_scheme \<Rightarrow> string" where
  "dto_asOf h dto = (case sd_asOf dto of None \<Rightarrow> hs_now h | Some t \<Rightarrow> t)"

text \<open>The part of \<open>preview\<close> after the snapshot has arrived.\<close>

definition preview ::
  "host \<Rightarrow> policy_config \<Rightarrow> 'a SimulatePolicyChangeDto_scheme \<Rightarrow> string \<Rightarrow> PolicySimulationSnapshot option \<Rightarrow> policy_state
    \<Rightarrow> PolicySimulationPreviewResult \<times> policy_state" where
  "preview h cfg dto actorId provided s =
     (let asOf = dto_asOf h dto;
          (currentPolicy, s1) = (case sd_currentPolicy dto of
             Some c \<Rightarrow> (c, s)
           | None \<Rightarrow> (let (p, s1) = getActivePolicy cfg (sd_domain dto) s in (policy_fields p, s1)));
          r = simulatePolicyChange h \<lparr>pi_domain = sd_domain dto, pi_currentPolicy = Some currentPolicy, pi_proposedPolicy = sd_proposedPolicy dto,
            pi_snapshot = Some (resolveSnapshot asOf (sd_snapshot dto) provided), pi_asOf = Some asOf, pi_maxSnapshotAgeSeconds = sd_maxSnapshotAgeSeconds dto\<rparr>
      in (r, emit (Previewed (pr_simulationId r) (pr_domain r) actorId) (recordSimulationMetrics r s1)))"

text \<open>The checks of \<open>assertProceedable\<close>: the error and the code of the event, if one fails.\<close>

definition proceed_error :: "CommitPolicyChangeDto \<Rightarrow> PolicySimulationPreviewResult \<Rightarrow> (policy_error \<times> string) option" where
  "proceed_error dto r =
     (if pr_validationErrors r \<noteq> [] then Some (Validation_failed (pr_validationErrors r), ''VALIDATION_FAILED'')
      else if as_completeness (pr_affectedSummary r) = Stale_snapshot then Some (Snapshot_stale, ''STALE_POPULATION_SNAPSHOT'')
      else if pr_requiresCommitToken r \<and> (case sd_commitToken dto of None \<Rightarrow> True | Some t \<Rightarrow> t = [] \<or> trim t \<noteq> pr_commitToken r)
      then Some (Commit_token_required (pr_commitToken r), ''MISSING_OR_MISMATCHED_COMMIT_TOKEN'')
      else None)"

definition assertProceedable ::
  "CommitPolicyChangeDto \<Rightarrow> string \<Rightarrow> PolicySimulationPreviewResult \<Rightarrow> policy_state \<Rightarrow> (policy_error, PolicySimulationPreviewResult) result \<times> policy_state" where
  "assertProceedable dto actorId r s =
     (case proceed_error dto r of
        None \<Rightarrow> (Inr r, s)
      | Some (e, code) \<Rightarrow> (Inl e, emit (Commit_blocked (pr_simulationId r) (pr_domain r) actorId code)
          (s\<lparr>sv_metrics := (sv_metrics s)\<lparr>mt_totalBlockedCommits := mt_totalBlockedCommits (sv_metrics s) + 1\<rparr>\<rparr>)))"

definition commit_id :: "host \<Rightarrow> PolicySimulationPreviewResult \<Rightarrow> string \<Rightarrow> string \<Rightarrow> nat \<Rightarrow> string" where
  "commit_id h r actorId committedAt n =
     ''pcmt:'' @ domain_name (pr_domain r) @ '':'' @ take 16 (computeDigest h ''policy-commit-record:v1''
       (D_obj [(''domain'', D_str (domain_name (pr_domain r))), (''simulationId'', D_str (pr_simulationId r)), (''previewDigest'', D_str (pr_digest r)),
         (''actorId'', D_str actorId), (''committedAt'', D_str committedAt), (''seq'', D_int (int n))]))"

text \<open>The part of \<open>commitPolicyChange\<close> after the checks.\<close>

definition apply_commit ::
  "host \<Rightarrow> CommitPolicyChangeDto \<Rightarrow> string \<Rightarrow> PolicySimulationPreviewResult \<Rightarrow> policy_state \<Rightarrow> PolicyCommitRecord \<times> policy_state" where
  "apply_commit h dto actorId r s =
     (let committedAt = dto_asOf h dto;
          i = commit_id h r actorId committedAt (mt_totalCommits (sv_metrics s) + 1);
          rec = \<lparr>cm_commitId = i, cm_domain = pr_domain r, cm_actorId = actorId, cm_reason = trim (sd_reason dto), cm_committedAt = committedAt,
            cm_simulationId = pr_simulationId r, cm_previewDigest = pr_digest r, cm_previousPolicy = pr_currentPolicy r,
            cm_appliedPolicy = pr_effectiveProposedPolicy r, cm_reversibility = pr_reversibility r, cm_impactSeverity = pr_impactSeverity r,
            cm_rollbackAvailable = True, cm_rolledBackAt = None, cm_rolledBackBy = None, cm_rollbackReason = None,
            cm_rollbackConstraints = pr_rollbackConstraints r\<rparr>
      in (rec, emit (Committed i (pr_simulationId r) (pr_domain r) actorId)
        (s\<lparr>sv_activePolicies := set_policy (pr_effectiveProposedPolicy r) (sv_activePolicies s),
           sv_commitHistory := map_set i rec (sv_commitHistory s),
           sv_metrics := (sv_metrics s)\<lparr>mt_totalCommits := mt_totalCommits (sv_metrics s) + 1\<rparr>\<rparr>)))"

record rollback_result =
  rb_commit :: PolicyCommitRecord
  rb_restoredPolicy :: domain_policy
  rb_manualRecoveryRequired :: bool
  rb_recoveryConstraints :: "RollbackConstraint list"

definition rollbackPolicyChange ::
  "host \<Rightarrow> string \<Rightarrow> string \<Rightarrow> string \<Rightarrow> policy_state \<Rightarrow> (policy_error, rollback_result) result \<times> policy_state" where
  "rollbackPolicyChange h commitId reason actorId s =
     (case map_get (sv_commitHistory s) commitId of
        None \<Rightarrow> (Inl (Commit_not_found commitId), s)
      | Some rec \<Rightarrow>
          if \<not> cm_rollbackAvailable rec \<or> cm_rolledBackAt rec \<noteq> None then (Inl (Already_rolled_back commitId), s)
          else if length (trim reason) < 3 then (Inl Reason_required, s)
          else
            let rec1 = rec\<lparr>cm_rollbackAvailable := False, cm_rolledBackAt := Some (hs_now h), cm_rolledBackBy := Some actorId, cm_rollbackReason := Some (trim reason)\<rparr>;
                recovery = filter (\<lambda>c. rc_reversibility c \<noteq> Fully_reversible) (cm_rollbackConstraints rec);
                manual = (cm_reversibility rec \<noteq> Fully_reversible \<or> recovery \<noteq> [])
            in (Inr \<lparr>rb_commit = rec1, rb_restoredPolicy = cm_previousPolicy rec, rb_manualRecoveryRequired = manual, rb_recoveryConstraints = recovery\<rparr>,
                emit (Rolled_back commitId (cm_domain rec) actorId (trim reason) manual)
                  (s\<lparr>sv_activePolicies := set_policy (cm_previousPolicy rec) (sv_activePolicies s),
                     sv_commitHistory := map_set commitId rec1 (sv_commitHistory s),
                     sv_metrics := (sv_metrics s)\<lparr>mt_totalRollbacks := mt_totalRollbacks (sv_metrics s) + 1\<rparr>\<rparr>)))"

section \<open>Requests in flight\<close>

datatype policy_call =
    Waiting CommitPolicyChangeDto string \<comment> \<open>for the snapshot; the actor\<close>
  | Simulated CommitPolicyChangeDto string PolicySimulationPreviewResult
  | Passed CommitPolicyChangeDto string PolicySimulationPreviewResult
  | Answered "(policy_error, PolicyCommitRecord) result"

record policy_world =
  wd_state :: policy_state
  wd_calls :: "policy_call list"

definition commitPolicyChange :: "CommitPolicyChangeDto \<Rightarrow> string \<Rightarrow> policy_call" where
  "commitPolicyChange dto actorId =
     (if length (trim (sd_reason dto)) < 3 then Answered (Inl Reason_required) else Waiting dto actorId)"

fun resume_commit ::
  "host \<Rightarrow> policy_config \<Rightarrow> PolicySimulationSnapshot option \<Rightarrow> policy_call \<Rightarrow> policy_state \<Rightarrow> policy_call \<times> policy_state" where
  "resume_commit h cfg provided (Waiting dto actorId) s =
     (let (r, s1) = preview h cfg dto actorId provided s in (Simulated dto actorId r, s1))"
| "resume_commit h cfg provided (Simulated dto actorId r) s =
     (case assertProceedable dto actorId r s of
        (Inl e, s1) \<Rightarrow> (Answered (Inl e), s1)
      | (Inr r1, s1) \<Rightarrow> (Passed dto actorId r1, s1))"
| "resume_commit h cfg provided (Passed dto actorId r) s =
     (let (rec, s1) = apply_commit h dto actorId r s in (Answered (Inr rec), s1))"
| "resume_commit h cfg provided (Answered x) s = (Answered x, s)"

datatype policy_move =
    Preview_only SimulatePolicyChangeDto string "PolicySimulationSnapshot option"
  | Commit CommitPolicyChangeDto string
  | Resume nat "PolicySimulationSnapshot option"
  | Rollback string string string
  | Read_active PolicyDomain

fun policy_step :: "host \<Rightarrow> policy_config \<Rightarrow> policy_move \<Rightarrow> policy_world \<Rightarrow> policy_world" where
  "policy_step h cfg (Preview_only dto actorId provided) w = w\<lparr>wd_state := snd (preview h cfg dto actorId provided (wd_state w))\<rparr>"
| "policy_step h cfg (Commit dto actorId) w = w\<lparr>wd_calls := wd_calls w @ [commitPolicyChange dto actorId]\<rparr>"
| "policy_step h cfg (Resume i provided) w =
     (if i < length (wd_calls w)
      then let (c, s) = resume_commit h cfg provided (wd_calls w ! i) (wd_state w) in w\<lparr>wd_state := s, wd_calls := (wd_calls w)[i := c]\<rparr>
      else w)"
| "policy_step h cfg (Rollback commitId reason actorId) w = w\<lparr>wd_state := snd (rollbackPolicyChange h commitId reason actorId (wd_state w))\<rparr>"
| "policy_step h cfg (Read_active d) w = w\<lparr>wd_state := snd (getActivePolicy cfg d (wd_state w))\<rparr>"

definition no_commits :: "policy_config \<Rightarrow> policy_world" where
  "no_commits cfg = \<lparr>wd_state = new_service cfg, wd_calls = []\<rparr>"

section \<open>Normal policies\<close>

lemma char_lower_idem [simp]: "char_lower (char_lower c) = char_lower c"
  by (auto simp: char_lower_def Let_def)

lemma toLowerCase_idem [simp]: "toLowerCase (toLowerCase s) = toLowerCase s"
  by (simp add: toLowerCase_def)

lemma is_space_lower [simp]: "is_space (char_lower c) = is_space c"
  by (auto simp: is_space_def char_lower_def Let_def)

lemma trim_lower: "trim (toLowerCase s) = toLowerCase (trim s)"
proof -
  have "dropWhile is_space (map char_lower t) = map char_lower (dropWhile is_space t)" for t
    by (induction t) auto
  then show ?thesis by (simp add: trim_def toLowerCase_def rev_map)
qed

definition normal :: "host \<Rightarrow> domain_policy \<Rightarrow> bool" where
  "normal h p \<longleftrightarrow> normalizeForDomain h (policy_domain p) (policy_fields p) = p"

lemma clean_strs: "clean_list h f (D_strs xs) = Some (filter (\<lambda>s. s \<noteq> []) (map (\<lambda>x. f (trim x)) xs))"
  by (simp add: D_strs_def comp_def)

lemma clean_again:
  assumes "clean_list h f v = Some xs" "\<And>s. f (f s) = f s" "\<And>s. trim (f s) = f (trim s)"
  shows "clean_list h f (D_strs xs) = Some xs"
proof (cases v)
  case (D_list ys)
  have "filter (\<lambda>s. s \<noteq> []) (map (\<lambda>x. f (trim x)) (filter (\<lambda>s. s \<noteq> []) (map (\<lambda>x. f (trim (js_String h x))) ys)))
    = filter (\<lambda>s. s \<noteq> []) (map (\<lambda>x. f (trim (js_String h x))) ys)"
    using assms(2,3) by (induction ys) auto
  then show ?thesis using assms(1) D_list by (auto simp: clean_strs)
qed (use assms in auto)

lemmas clean_upper = clean_again[where f = toUpperCase, OF _ toUpperCase_idem trim_upper]
  and clean_lower = clean_again[where f = toLowerCase, OF _ toLowerCase_idem trim_lower]

lemma clean_none: "clean_list h f (D_strs []) = Some []"
  by (simp add: clean_strs)

lemma policy_domain_normalize [simp]: "policy_domain (normalizeForDomain h d raw) = d"
  by (cases d) (simp_all add: Let_def)

lemma dyn_field_Cons [simp]: "dyn_field ((k, v) # m) x = (if k = x then v else dyn_field m x)"
  by (simp add: dyn_field_def)

lemma clean_lower_again:
  "list_or_empty (clean_list h toLowerCase (D_strs (list_or_empty (clean_list h toLowerCase v)))) = list_or_empty (clean_list h toLowerCase v)"
  by (cases "clean_list h toLowerCase v") (simp_all add: clean_none clean_lower)

lemma clean_upper_again:
  "list_or_empty (clean_list h toUpperCase (D_strs (list_or_empty (clean_list h toUpperCase v)))) = list_or_empty (clean_list h toUpperCase v)"
  by (cases "clean_list h toUpperCase v") (simp_all add: clean_none clean_upper)

lemma normalize_normal: "normal h (normalizeForDomain h d raw)"
proof (cases d)
  case Trading
  show ?thesis
    by (cases "clean_list h toUpperCase (dyn_field raw ''allowedAssets'')")
      (auto simp: normal_def Trading Let_def clean_lower_again clean_upper)
qed (simp_all add: normal_def clean_lower_again clean_upper_again)

lemma spread_fields: "policy_domain p = policy_domain q \<Longrightarrow> spread (policy_fields p) (policy_fields q) = policy_fields q"
  by (cases p; cases q) (simp_all add: spread_def)

lemma policy_domain_of [simp]: "policy_domain (policy_of m d) = d"
  by (cases d) simp_all

subsection \<open>What a preview's fields say of each other\<close>

lemma with_digest_fields [simp]:
  "pr_domain (with_digest h r) = pr_domain r" "pr_status (with_digest h r) = pr_status r"
  "pr_impactSeverity (with_digest h r) = pr_impactSeverity r" "pr_reversibility (with_digest h r) = pr_reversibility r"
  "pr_requiresCommitToken (with_digest h r) = pr_requiresCommitToken r" "pr_currentPolicy (with_digest h r) = pr_currentPolicy r"
  "pr_effectiveProposedPolicy (with_digest h r) = pr_effectiveProposedPolicy r" "pr_affectedSummary (with_digest h r) = pr_affectedSummary r"
  "pr_expectedSideEffects (with_digest h r) = pr_expectedSideEffects r" "pr_rollbackConstraints (with_digest h r) = pr_rollbackConstraints r"
  "pr_validationErrors (with_digest h r) = pr_validationErrors r" "pr_commitToken (with_digest h r) = pr_commitToken r"
  by (simp_all add: with_digest_def Let_def)

lemma simulate_policies:
  "pr_domain (simulatePolicyChange h input) = pi_domain input"
  "(pr_currentPolicy (simulatePolicyChange h input), pr_effectiveProposedPolicy (simulatePolicyChange h input)) =
    resolveEffectivePolicies h (pi_domain input) (case pi_currentPolicy input of None \<Rightarrow> [] | Some c \<Rightarrow> c) (pi_proposedPolicy input)"
  "pr_validationErrors (simulatePolicyChange h input) = validateProposedPolicy (pr_effectiveProposedPolicy (simulatePolicyChange h input))"
  by (simp_all add: simulatePolicyChange_def corePayload_def Let_def split: prod.split)

lemma simulate_verdict:
  fixes h input defines "r \<equiv> simulatePolicyChange h input"
  shows "pr_reversibility r = deriveReversibility (as_affectedRecords (pr_affectedSummary r)) (pr_expectedSideEffects r) (pr_rollbackConstraints r)"
    and "pr_impactSeverity r = deriveImpactSeverity (pr_validationErrors r) (length (as_affectedRecords (pr_affectedSummary r)))
      (pr_expectedSideEffects r) (pr_reversibility r)"
    and "pr_status r = deriveSimulationStatus (pr_validationErrors r) (as_completeness (pr_affectedSummary r)) (pr_impactSeverity r)
      (pr_reversibility r) (length (as_affectedRecords (pr_affectedSummary r)))"
    and "pr_requiresCommitToken r \<longleftrightarrow> pr_status r = High_impact_review_required \<or> pr_reversibility r \<noteq> Fully_reversible
      \<or> pr_impactSeverity r = High \<or> pr_impactSeverity r = Critical"
  by (simp_all add: r_def simulatePolicyChange_def corePayload_def summarize_def Let_def split: prod.split)

lemma resolve_normal: "normal h (fst (resolveEffectivePolicies h d c p)) \<and> normal h (snd (resolveEffectivePolicies h d c p))"
  by (simp add: resolveEffectivePolicies_def Let_def normalize_normal)

lemma resolve_domain: "policy_domain (fst (resolveEffectivePolicies h d c p)) = d \<and> policy_domain (snd (resolveEffectivePolicies h d c p)) = d"
  by (simp add: resolveEffectivePolicies_def Let_def)

lemma resolve_current: "normal h p \<Longrightarrow> policy_domain p = d \<Longrightarrow> fst (resolveEffectivePolicies h d (policy_fields p) q) = p"
  by (simp add: resolveEffectivePolicies_def Let_def spread_fields normal_def)

section \<open>Valid policies\<close>

definition policy_ok :: "host \<Rightarrow> domain_policy \<Rightarrow> bool" where
  "policy_ok h p \<longleftrightarrow> normal h p \<and> validateProposedPolicy p = []"

text \<open>The configured trading policy, if there is one, names sides that validation knows.\<close>

definition config_ok :: "policy_config \<Rightarrow> bool" where
  "config_ok cfg = (case cfg of None \<Rightarrow> True | Some c \<Rightarrow> set (tp_allowedSides (getTradingPolicy c)) \<subseteq> {''buy'', ''sell''})"

definition preview_ok :: "host \<Rightarrow> PolicySimulationPreviewResult \<Rightarrow> bool" where
  "preview_ok h r \<longleftrightarrow> policy_ok h (pr_currentPolicy r) \<and> normal h (pr_effectiveProposedPolicy r)
     \<and> pr_validationErrors r = validateProposedPolicy (pr_effectiveProposedPolicy r)
     \<and> policy_domain (pr_currentPolicy r) = pr_domain r \<and> policy_domain (pr_effectiveProposedPolicy r) = pr_domain r"

fun policy_call_ok :: "host \<Rightarrow> policy_call \<Rightarrow> bool" where
  "policy_call_ok h (Waiting dto a) \<longleftrightarrow> sd_currentPolicy dto = None"
| "policy_call_ok h (Simulated dto a r) \<longleftrightarrow> preview_ok h r"
| "policy_call_ok h (Passed dto a r) \<longleftrightarrow> preview_ok h r \<and> pr_validationErrors r = []"
| "policy_call_ok h (Answered x) \<longleftrightarrow> True"

definition configured :: "policy_config \<Rightarrow> policy_state \<Rightarrow> bool" where
  "configured cfg s \<longleftrightarrow> (\<forall>c. cfg = Some c \<longrightarrow> \<not> list_ex (\<lambda>(_, r). cm_domain r = Trading) (sv_commitHistory s)
     \<longrightarrow> dm_trading (sv_activePolicies s) = of_TradingPolicy (getTradingPolicy c))"

definition commit_ok :: "host \<Rightarrow> string \<Rightarrow> PolicyCommitRecord \<Rightarrow> bool" where
  "commit_ok h i rec \<longleftrightarrow> policy_ok h (cm_previousPolicy rec) \<and> policy_domain (cm_previousPolicy rec) = cm_domain rec
     \<and> (\<exists>x. i = ''pcmt:'' @ domain_name (cm_domain rec) @ '':'' @ x)"

definition state_ok :: "host \<Rightarrow> policy_config \<Rightarrow> policy_state \<Rightarrow> bool" where
  "state_ok h cfg s \<longleftrightarrow> config_ok cfg \<and> (\<forall>d. policy_ok h (policy_of (sv_activePolicies s) d)) \<and>
     (\<forall>(i, rec) \<in> set (sv_commitHistory s). commit_ok h i rec) \<and> configured cfg s"

definition policies_ok :: "host \<Rightarrow> policy_config \<Rightarrow> policy_world \<Rightarrow> bool" where
  "policies_ok h cfg w \<longleftrightarrow> state_ok h cfg (wd_state w) \<and> (\<forall>c \<in> set (wd_calls w). policy_call_ok h c)"

text \<open>A commit that is measured against the policy in force, and not against one the caller gives.\<close>

fun active_baseline :: "policy_move \<Rightarrow> bool" where
  "active_baseline (Commit dto a) = (sd_currentPolicy dto = None)"
| "active_baseline _ = True"

lemma configured_assets:
  assumes "tp_allowedAssets (getTradingPolicy c) = Some xs"
  shows "clean_list h toUpperCase (D_strs xs) = Some xs" "xs \<noteq> []"
proof -
  have xs: "xs = readList cf_TRADING_ALLOWED_ASSETS c" "xs \<noteq> []"
    using assms by (auto simp: getTradingPolicy_def Let_def split: if_splits)
  then show "xs \<noteq> []" by simp
  have "clean_list h toUpperCase (D_strs (split_on CHR '','' (config_get cf_TRADING_ALLOWED_ASSETS c []))) = Some xs"
    by (simp add: clean_strs xs(1) readList_def)
  then show "clean_list h toUpperCase (D_strs xs) = Some xs" by (rule clean_upper)
qed

lemma known_sides:
  assumes "set sides \<subseteq> {''buy'', ''sell''}"
  shows "clean_list h toLowerCase (D_strs sides) = Some sides"
proof -
  have one: "toLowerCase (trim s) = s \<and> s \<noteq> []" if "s \<in> {''buy'', ''sell''}" for s
  proof -
    have "toLowerCase (trim ''buy'') = ''buy''" "toLowerCase (trim ''sell'') = ''sell''" by code_simp+
    then show ?thesis using that by auto
  qed
  then have "map (\<lambda>x. toLowerCase (trim x)) sides = sides" "filter (\<lambda>s. s \<noteq> []) sides = sides"
    using assms by (auto intro!: map_idI simp: filter_id_conv)
  then show ?thesis by (simp add: clean_strs)
qed

lemma config_trading_ok:
  assumes "config_ok (Some c)"
  shows "policy_ok h (P_trading (of_TradingPolicy (getTradingPolicy c)))"
proof -
  let ?p = "getTradingPolicy c"
  have sides: "set (tp_allowedSides ?p) \<subseteq> {''buy'', ''sell''}" using assms by (simp add: config_ok_def)
  have "normal h (P_trading (of_TradingPolicy ?p))"
    using known_sides[OF sides, of h] configured_assets(1)[where h = h and c = c] configured_assets(2)[where c = c]
    by (cases "tp_allowedAssets ?p") (simp_all add: normal_def of_TradingPolicy_def Let_def)
  moreover have "\<not> list_ex (\<lambda>side. side \<noteq> ''buy'' \<and> side \<noteq> ''sell'') (tp_allowedSides ?p)"
    using sides by (auto simp: list_ex_iff)
  moreover have "\<not> js_le (Fin (tp_maxOrderAmount ?p)) (Fin 0)" using getTradingPolicy_usable(1)[of c] by (simp add: js_le_def)
  ultimately show ?thesis using getTradingPolicy_usable(2)[of c] by (simp add: policy_ok_def of_TradingPolicy_def)
qed

lemma defaults_ok: "policy_ok h (policy_of defaultDomainPolicies d)"
proof -
  have "clean_list h toLowerCase (D_strs [''buy'', ''sell'']) = Some [''buy'', ''sell'']"
    "clean_list h toLowerCase (D_strs [''aave'', ''compound'']) = Some [''aave'', ''compound'']"
    "clean_list h toLowerCase (D_strs [''stellar'', ''ethereum'', ''polygon'']) = Some [''stellar'', ''ethereum'', ''polygon'']"
    "clean_list h toLowerCase (D_strs [''email'', ''in_app'']) = Some [''email'', ''in_app'']"
    unfolding clean_strs by code_simp+
  then show ?thesis
    by (cases d) (simp_all add: policy_ok_def normal_def defaultDomainPolicies_def SIM_DEFAULT_TRADING_POLICY_def DEFAULT_DEFI_ADAPTER_POLICY_def
      DEFAULT_PORTFOLIO_REBALANCING_POLICY_def DEFAULT_AUTH_ACCESS_POLICY_def DEFAULT_NOTIFICATION_ROUTING_POLICY_def clean_none js_le_def Let_def)
qed

subsection \<open>Steps\<close>

lemma policy_of_set: "policy_of (set_policy p m) d = (if policy_domain p = d then p else policy_of m d)"
  by (cases p; cases d) simp_all

lemma active_policy_of:
  assumes "state_ok h cfg s"
  shows "getActivePolicy cfg d s = (policy_of (sv_activePolicies s) d, s)"
proof (cases "d = Trading \<and> cfg \<noteq> None \<and> \<not> list_ex (\<lambda>(_, r). cm_domain r = Trading) (sv_commitHistory s)")
  case True
  then obtain c where c: "cfg = Some c" by auto
  then have "dm_trading (sv_activePolicies s) = of_TradingPolicy (getTradingPolicy c)"
    using assms True by (simp add: state_ok_def configured_def)
  then have "s\<lparr>sv_activePolicies := (sv_activePolicies s)\<lparr>dm_trading := of_TradingPolicy (getTradingPolicy c)\<rparr>\<rparr> = s" by simp
  then show ?thesis using True c by (simp add: getActivePolicy_def)
next
  case False
  then show ?thesis by (cases d) (auto simp: getActivePolicy_def split: option.splits)
qed

lemma same_policies:
  assumes "state_ok h cfg s" "sv_activePolicies s' = sv_activePolicies s" "sv_commitHistory s' = sv_commitHistory s"
  shows "state_ok h cfg s'"
  using assms by (simp add: state_ok_def configured_def)

lemma preview_state:
  assumes "state_ok h cfg s"
  shows "sv_activePolicies (snd (preview h cfg dto a provided s)) = sv_activePolicies s"
    and "sv_commitHistory (snd (preview h cfg dto a provided s)) = sv_commitHistory s"
  using active_policy_of[OF assms, of "sd_domain dto"]
  by (auto simp: preview_def emit_def recordSimulationMetrics_def Let_def split: option.splits prod.splits)

lemma preview_current:
  assumes s: "state_ok h cfg s" and dto: "sd_currentPolicy dto = None"
  shows "pr_currentPolicy (fst (preview h cfg dto a provided s)) = policy_of (sv_activePolicies s) (sd_domain dto)"
    and "pr_domain (fst (preview h cfg dto a provided s)) = sd_domain dto"
    and "preview_ok h (fst (preview h cfg dto a provided s))"
proof -
  let ?p = "policy_of (sv_activePolicies s) (sd_domain dto)"
  define r where "r = fst (preview h cfg dto a provided s)"
  have p: "policy_ok h ?p" using s by (simp add: state_ok_def)
  obtain input where r: "r = simulatePolicyChange h input" and input: "pi_domain input = sd_domain dto" "pi_currentPolicy input = Some (policy_fields ?p)"
    using dto active_policy_of[OF s, of "sd_domain dto"] by (simp add: r_def preview_def Let_def)
  have both: "(pr_currentPolicy r, pr_effectiveProposedPolicy r) = resolveEffectivePolicies h (sd_domain dto) (policy_fields ?p) (pi_proposedPolicy input)"
    using simulate_policies(2)[of h input] unfolding r input by simp
  have cur: "pr_currentPolicy r = ?p"
    using arg_cong[OF both, of fst] p by (simp add: resolve_current policy_ok_def)
  have proposed: "pr_effectiveProposedPolicy r = snd (resolveEffectivePolicies h (sd_domain dto) (policy_fields ?p) (pi_proposedPolicy input))"
    using arg_cong[OF both, of snd] by simp
  show "pr_currentPolicy (fst (preview h cfg dto a provided s)) = ?p" using cur by (simp add: r_def)
  show "pr_domain (fst (preview h cfg dto a provided s)) = sd_domain dto" using simulate_policies(1)[of h input] r input by (simp add: r_def)
  then show "preview_ok h (fst (preview h cfg dto a provided s))"
    using simulate_policies(3)[of h input] cur p proposed resolve_normal resolve_domain r
    unfolding preview_ok_def r_def[symmetric] by simp
qed

lemma set_active_ok:
  assumes "state_ok h cfg s" "policy_ok h p" "policy_domain p = Trading \<longrightarrow> list_ex (\<lambda>(_, r). cm_domain r = Trading) hist"
    and "\<And>i rec. (i, rec) \<in> set hist \<Longrightarrow> commit_ok h i rec"
    and "list_ex (\<lambda>(_, r). cm_domain r = Trading) (sv_commitHistory s) \<Longrightarrow> list_ex (\<lambda>(_, r). cm_domain r = Trading) hist"
    and "sv_activePolicies s' = set_policy p (sv_activePolicies s)" "sv_commitHistory s' = hist"
  shows "state_ok h cfg s'"
proof -
  have "configured cfg s'"
  proof (cases "list_ex (\<lambda>(_, r). cm_domain r = Trading) hist")
    case False
    then have "policy_domain p \<noteq> Trading" "\<not> list_ex (\<lambda>(_, r). cm_domain r = Trading) (sv_commitHistory s)" using assms(3,5) by auto
    moreover from this have "dm_trading (set_policy p (sv_activePolicies s)) = dm_trading (sv_activePolicies s)" by (cases p) auto
    ultimately show ?thesis using assms(1,6,7) False by (simp add: state_ok_def configured_def)
  qed (use assms(7) in \<open>simp add: configured_def\<close>)
  then show ?thesis using assms by (auto simp: state_ok_def policy_of_set)
qed

lemma history_set_mem: "(i, rec) \<in> set (map_set k v m) \<Longrightarrow> (i, rec) = (k, v) \<or> (i, rec) \<in> set m"
  by (induction m) (auto split: if_splits)

lemma history_set_trading:
  assumes "list_ex (\<lambda>(_, r). cm_domain r = Trading) m" "\<And>v'. map_get m k = Some v' \<Longrightarrow> cm_domain v' = cm_domain v"
  shows "list_ex (\<lambda>(_, r). cm_domain r = Trading) (map_set k v m)"
  using assms by (induction m) (auto split: if_splits)

lemma history_set_own: "list_ex P (map_set k v m) \<or> \<not> P (k, v)"
  by (induction m) auto

lemma commit_ids_apart:
  assumes "''pcmt:'' @ domain_name d @ '':'' @ x = ''pcmt:'' @ domain_name e @ '':'' @ y"
  shows "d = e"
  using assms by (cases d; cases e) simp_all

lemma apply_commit_ok:
  assumes s: "state_ok h cfg s" and r: "preview_ok h r" "pr_validationErrors r = []"
  shows "state_ok h cfg (snd (apply_commit h dto a r s))"
proof -
  define rec where "rec = fst (apply_commit h dto a r s)"
  define i where "i = cm_commitId rec"
  have rec: "cm_previousPolicy rec = pr_currentPolicy r" "cm_domain rec = pr_domain r" "\<exists>x. i = ''pcmt:'' @ domain_name (pr_domain r) @ '':'' @ x"
    by (auto simp: rec_def i_def apply_commit_def commit_id_def Let_def)
  have after: "sv_commitHistory (snd (apply_commit h dto a r s)) = map_set i rec (sv_commitHistory s)"
    "sv_activePolicies (snd (apply_commit h dto a r s)) = set_policy (pr_effectiveProposedPolicy r) (sv_activePolicies s)"
    by (simp_all add: rec_def i_def apply_commit_def emit_def Let_def)
  have new: "commit_ok h i rec" using r rec by (auto simp: commit_ok_def preview_ok_def)
  have old: "commit_ok h j x" if "(j, x) \<in> set (sv_commitHistory s)" for j x using s that by (auto simp: state_ok_def)
  have "cm_domain x = cm_domain rec" if "map_get (sv_commitHistory s) i = Some x" for x
    using old[OF map_of_SomeD[OF that]] new commit_ids_apart unfolding commit_ok_def by metis
  note trading = history_set_trading[OF _ this]
  show ?thesis
  proof (rule set_active_ok[OF s, of "pr_effectiveProposedPolicy r" "map_set i rec (sv_commitHistory s)"])
    show "policy_ok h (pr_effectiveProposedPolicy r)" using r by (simp add: preview_ok_def policy_ok_def)
    show "policy_domain (pr_effectiveProposedPolicy r) = Trading \<longrightarrow> list_ex (\<lambda>(_, r). cm_domain r = Trading) (map_set i rec (sv_commitHistory s))"
      using history_set_own[of "\<lambda>(_, r). cm_domain r = Trading" i rec] r rec by (auto simp: preview_ok_def)
    show "commit_ok h j x" if "(j, x) \<in> set (map_set i rec (sv_commitHistory s))" for j x
      using history_set_mem[OF that] new old by auto
  qed (use trading after in auto)
qed

lemma rollback_ok:
  assumes s: "state_ok h cfg s"
  shows "state_ok h cfg (snd (rollbackPolicyChange h i reason a s))"
proof (cases "map_get (sv_commitHistory s) i")
  case (Some rec)
  define rec1 where "rec1 = rec\<lparr>cm_rollbackAvailable := False, cm_rolledBackAt := Some (hs_now h), cm_rolledBackBy := Some a, cm_rollbackReason := Some (trim reason)\<rparr>"
  have old: "commit_ok h j x" if "(j, x) \<in> set (sv_commitHistory s)" for j x using s that by (auto simp: state_ok_def)
  have mem: "(i, rec) \<in> set (sv_commitHistory s)" using map_of_SomeD[OF Some] .
  have new: "commit_ok h i rec1" using old[OF mem] by (simp add: rec1_def commit_ok_def)
  have "cm_domain x = cm_domain rec1" if "map_get (sv_commitHistory s) i = Some x" for x using that Some by (simp add: rec1_def)
  note trading = history_set_trading[OF _ this]
  have "state_ok h cfg s'" if "sv_activePolicies s' = set_policy (cm_previousPolicy rec) (sv_activePolicies s)"
    "sv_commitHistory s' = map_set i rec1 (sv_commitHistory s)" for s'
  proof (rule set_active_ok[OF s, of "cm_previousPolicy rec" "map_set i rec1 (sv_commitHistory s)"])
    show "policy_ok h (cm_previousPolicy rec)" using old[OF mem] by (simp add: commit_ok_def)
    show "policy_domain (cm_previousPolicy rec) = Trading \<longrightarrow> list_ex (\<lambda>(_, r). cm_domain r = Trading) (map_set i rec1 (sv_commitHistory s))"
      using history_set_own[of "\<lambda>(_, r). cm_domain r = Trading" i rec1] old[OF mem] by (auto simp: commit_ok_def rec1_def)
    show "commit_ok h j x" if "(j, x) \<in> set (map_set i rec1 (sv_commitHistory s))" for j x
      using history_set_mem[OF that] new old by auto
  qed (use trading that in auto)
  then show ?thesis using s Some by (auto simp: rollbackPolicyChange_def emit_def rec1_def Let_def)
qed (use s in \<open>simp add: rollbackPolicyChange_def\<close>)

lemma resume_ok:
  assumes s: "state_ok h cfg s" and c: "policy_call_ok h c"
  shows "state_ok h cfg (snd (resume_commit h cfg provided c s)) \<and> policy_call_ok h (fst (resume_commit h cfg provided c s))"
proof (cases c)
  case (Waiting dto a)
  then show ?thesis using preview_current[OF s, of dto a provided] same_policies[OF s preview_state[OF s, of dto a provided]] c
    by (simp add: case_prod_beta)
next
  case (Simulated dto a r)
  show ?thesis
  proof (cases "proceed_error dto r")
    case None
    then have "pr_validationErrors r = []" by (simp add: proceed_error_def split: if_splits)
    then show ?thesis using None Simulated s c by (simp add: assertProceedable_def)
  next
    case (Some e)
    then show ?thesis using Simulated s by (cases e) (auto simp: assertProceedable_def emit_def intro: same_policies)
  qed
next
  case (Passed dto a r)
  then show ?thesis using apply_commit_ok[OF s, of r dto a] c by (simp add: case_prod_beta)
qed (use s in simp)

lemma policy_step_ok:
  assumes w: "policies_ok h cfg w" and m: "active_baseline m"
  shows "policies_ok h cfg (policy_step h cfg m w)"
proof -
  have s: "state_ok h cfg (wd_state w)" and calls: "\<And>c. c \<in> set (wd_calls w) \<Longrightarrow> policy_call_ok h c" using w by (auto simp: policies_ok_def)
  show ?thesis
  proof (cases m)
    case (Preview_only dto a provided)
    then show ?thesis using same_policies[OF s preview_state[OF s, of dto a provided]] calls by (simp add: policies_ok_def)
  next
    case (Commit dto a)
    then show ?thesis using s calls m by (auto simp: policies_ok_def commitPolicyChange_def)
  next
    case (Resume i provided)
    show ?thesis
    proof (cases "i < length (wd_calls w)")
      case True
      obtain c' s' where r: "resume_commit h cfg provided (wd_calls w ! i) (wd_state w) = (c', s')" by fastforce
      have "state_ok h cfg s'" "policy_call_ok h c'" using resume_ok[OF s calls[OF nth_mem[OF True]], of provided] r by auto
      then show ?thesis using Resume True r calls set_update_subset_insert[of "wd_calls w" i c'] by (auto simp: policies_ok_def)
    qed (use Resume w in simp)
  next
    case (Rollback i reason a)
    then show ?thesis using rollback_ok[OF s] calls by (simp add: policies_ok_def)
  next
    case (Read_active d)
    then show ?thesis using active_policy_of[OF s, of d] w by (simp add: policies_ok_def)
  qed
qed

interpretation policies: guarded_system "policy_step h cfg" "policies_ok h cfg" active_baseline for h cfg
  by unfold_locales (rule policy_step_ok)

lemma no_commits_ok:
  assumes "config_ok cfg"
  shows "policies_ok h cfg (no_commits cfg)"
proof -
  have "policy_ok h (policy_of (sv_activePolicies (new_service cfg)) d)" for d
  proof (cases cfg)
    case (Some c)
    show ?thesis
    proof (cases "d = Trading")
      case True
      then show ?thesis using config_trading_ok[of c h] assms Some by (simp add: new_service_def)
    next
      case False
      then have "policy_of (sv_activePolicies (new_service cfg)) d = policy_of defaultDomainPolicies d" using Some by (cases d) (simp_all add: new_service_def)
      then show ?thesis using defaults_ok[of h d] by simp
    qed
  qed (use defaults_ok[of h d] in \<open>simp add: new_service_def\<close>)
  then show ?thesis using assms by (auto simp: policies_ok_def no_commits_def state_ok_def configured_def new_service_def split: option.splits)
qed

section \<open>Properties\<close>



lemma list_all_verdict:
  "deriveReversibility records effects constraints = Fully_reversible \<Longrightarrow>
    list_all ar_reversible records \<and> list_all ef_reversible effects \<and> list_all (\<lambda>c. rc_reversibility c = Fully_reversible) constraints"
  by (auto simp: deriveReversibility_def list_all_iff list_ex_iff split: if_splits) (metis PolicyReversibility.exhaust)

text \<open>
  A change that may be committed without a token is mild: it is valid and measured on a fresh snapshot, it
  touches at most two records, every record, side effect and rollback constraint is reversible, and
  no side effect is worse than a warning.
\<close>

theorem tokenless_change_is_mild:
  assumes r: "r = simulatePolicyChange h input" and ok: "proceed_error dto r = None" and no_token: "sd_commitToken dto = None"
  shows "validateProposedPolicy (pr_effectiveProposedPolicy r) = [] \<and> as_completeness (pr_affectedSummary r) \<noteq> Stale_snapshot \<and>
    length (as_affectedRecords (pr_affectedSummary r)) \<le> 2 \<and> list_all ar_reversible (as_affectedRecords (pr_affectedSummary r)) \<and>
    list_all (\<lambda>e. ef_reversible e \<and> ef_severity e \<in> {E_info, E_warning}) (pr_expectedSideEffects r) \<and>
    list_all (\<lambda>c. rc_reversibility c = Fully_reversible) (pr_rollbackConstraints r)"
proof -
  have errors: "pr_validationErrors r = []" and fresh: "as_completeness (pr_affectedSummary r) \<noteq> Stale_snapshot" and mild: "\<not> pr_requiresCommitToken r"
    using ok no_token by (auto simp: proceed_error_def split: if_splits)
  note v = simulate_verdict[of h input, folded r]
  have full: "pr_reversibility r = Fully_reversible" and sev: "pr_impactSeverity r \<noteq> High" "pr_impactSeverity r \<noteq> Critical"
    using mild v(4) by auto
  have "\<not> list_ex (\<lambda>e. ef_severity e = E_critical) (pr_expectedSideEffects r)" "\<not> list_ex (\<lambda>e. ef_severity e = E_high) (pr_expectedSideEffects r)"
    and few: "length (as_affectedRecords (pr_affectedSummary r)) < 3"
    using sev v(2) by (auto simp: deriveImpactSeverity_def split: if_splits)
  then have "list_all (\<lambda>e. ef_severity e \<in> {E_info, E_warning}) (pr_expectedSideEffects r)"
    by (auto simp: list_all_iff list_ex_iff) (metis EffectSeverity.exhaust)
  then show ?thesis using list_all_verdict[of _ "pr_expectedSideEffects r"] full v(1) errors fresh few simulate_policies(3)[of h input, folded r]
    by (auto simp: list_all_iff)
qed

section \<open>Commits by themselves\<close>

text \<open>A commit whose pieces run one after the other, from the request to the answer.\<close>

definition alone :: "nat \<Rightarrow> CommitPolicyChangeDto \<Rightarrow> string \<Rightarrow> PolicySimulationSnapshot option \<Rightarrow> policy_move list" where
  "alone n dto a provided = [Commit dto a, Resume n provided, Resume n None, Resume n None]"

lemma commit_alone:
  assumes reason: "3 \<le> length (trim (sd_reason dto))" and n: "n = length (wd_calls w)"
    and r: "preview h cfg dto a provided (wd_state w) = (r, s1)" and ok: "proceed_error dto r = None"
  shows "run (policy_step h cfg) (alone n dto a provided) w =
    w\<lparr>wd_state := snd (apply_commit h dto a r s1), wd_calls := wd_calls w @ [Answered (Inr (fst (apply_commit h dto a r s1)))]\<rparr>"
proof -
  have started: "policy_step h cfg (Commit dto a) w = w\<lparr>wd_calls := wd_calls w @ [Waiting dto a]\<rparr>"
    using reason by (simp add: commitPolicyChange_def)
  have simulated: "policy_step h cfg (Resume n provided) (w\<lparr>wd_calls := wd_calls w @ [Waiting dto a]\<rparr>) =
      w\<lparr>wd_state := s1, wd_calls := wd_calls w @ [Simulated dto a r]\<rparr>"
    using r n by simp
  have passed: "policy_step h cfg (Resume n None) (w\<lparr>wd_state := s1, wd_calls := wd_calls w @ [Simulated dto a r]\<rparr>) =
      w\<lparr>wd_state := s1, wd_calls := wd_calls w @ [Passed dto a r]\<rparr>"
    using ok n by (simp add: assertProceedable_def)
  show ?thesis unfolding alone_def run_simps started simulated passed using n by (simp add: case_prod_beta)
qed

lemma apply_then_rollback:
  fixes h dto a r s
  defines "rec \<equiv> fst (apply_commit h dto a r s)" and "s1 \<equiv> snd (apply_commit h dto a r s)"
  assumes "3 \<le> length (trim reason)"
  shows "sv_activePolicies (snd (rollbackPolicyChange h (cm_commitId rec) reason b s1)) =
    set_policy (pr_currentPolicy r) (set_policy (pr_effectiveProposedPolicy r) (sv_activePolicies s))"
  unfolding rec_def s1_def using assms(3) by (simp add: rollbackPolicyChange_def apply_commit_def emit_def Let_def update_conv')

lemma restore_policy: "policy_domain q = d \<Longrightarrow> set_policy (policy_of m d) (set_policy q m) = m"
  by (cases q) auto

lemma commit_refused:
  assumes n: "n = length (wd_calls w)" and r: "preview h cfg dto a provided (wd_state w) = (r, s1)"
    and no: "length (trim (sd_reason dto)) < 3 \<or> proceed_error dto r = Some (e, code)"
  shows "\<exists>e. wd_calls (run (policy_step h cfg) (alone n dto a provided) w) ! n = Answered (Inl e)"
proof (cases "length (trim (sd_reason dto)) < 3")
  case True
  then show ?thesis using n by (simp add: alone_def commitPolicyChange_def)
next
  case False
  then show ?thesis using n r no by (simp add: alone_def commitPolicyChange_def assertProceedable_def)
qed


subsection \<open>Changes that need a token, and changes that slip past\<close>

abbreviation no_impact :: impact where
  "no_impact \<equiv> \<lparr>im_records = [], im_effects = [], im_constraints = [], im_warnings = []\<rparr>"

abbreviation snapshot_fresh :: "host \<Rightarrow> string \<Rightarrow> PolicySimulationSnapshot \<Rightarrow> js_number option \<Rightarrow> bool" where
  "snapshot_fresh h asOf snapshot limit \<equiv>
     \<not> is_stale (computeAgeSeconds h asOf (sn_observedAt snapshot)) (case limit of None \<Rightarrow> Fin (of_int DEFAULT_MAX_SNAPSHOT_AGE_SECONDS) | Some n \<Rightarrow> n)"

lemma extrapolate_mild: "e \<in> set (snd (extrapolate snapshot n)) \<Longrightarrow> ef_reversible e \<and> ef_severity e = E_info"
  by (auto simp: extrapolate_def Let_def split: option.splits if_splits)

lemma preview_parts:
  assumes r: "r = simulatePolicyChange h input" and input: "pi_snapshot input = Some snapshot" "pi_asOf input = Some asOf"
    and fresh: "snapshot_fresh h asOf snapshot (pi_maxSnapshotAgeSeconds input)"
  shows "as_completeness (pr_affectedSummary r) \<noteq> Stale_snapshot"
    and "set (as_affectedRecords (pr_affectedSummary r)) = set (im_records (domain_impact h (pr_currentPolicy r) (pr_effectiveProposedPolicy r) snapshot))"
    and "pr_rollbackConstraints r = (let cs = im_constraints (domain_impact h (pr_currentPolicy r) (pr_effectiveProposedPolicy r) snapshot)
      in if cs = [] then [revert_supported] else cs)"
    and "\<exists>k. pr_expectedSideEffects r = im_effects (domain_impact h (pr_currentPolicy r) (pr_effectiveProposedPolicy r) snapshot) @ snd (extrapolate snapshot k)"
proof -
  define found where "found = domain_impact h (pr_currentPolicy r) (pr_effectiveProposedPolicy r) snapshot"
  obtain c st where parts: "completeness_impact h snapshot (computeAgeSeconds h asOf (sn_observedAt snapshot))
      (case pi_maxSnapshotAgeSeconds input of None \<Rightarrow> Fin (of_int DEFAULT_MAX_SNAPSHOT_AGE_SECONDS) | Some n \<Rightarrow> n) = (c, st)"
    and c: "c \<noteq> Stale_snapshot" "im_effects st = []" "im_constraints st = []"
    using fresh by (cases "sn_isSampled snapshot") (auto simp: completeness_impact_def)
  obtain cur prp where both: "resolveEffectivePolicies h (pi_domain input) (case pi_currentPolicy input of None \<Rightarrow> [] | Some c \<Rightarrow> c) (pi_proposedPolicy input) = (cur, prp)"
    by fastforce
  have found': "found = domain_impact h cur prp snapshot" using simulate_policies(2)[of h input] both r by (simp add: found_def)
  note unfold = r simulatePolicyChange_def corePayload_def input parts both c summarize_def Let_def found_def[symmetric] found'[symmetric]
  show "as_completeness (pr_affectedSummary r) \<noteq> Stale_snapshot" using c by (simp add: unfold)
  show "set (as_affectedRecords (pr_affectedSummary r)) = set (im_records (domain_impact h (pr_currentPolicy r) (pr_effectiveProposedPolicy r) snapshot))"
    unfolding found_def[symmetric] by (simp add: unfold)
  show "pr_rollbackConstraints r = (let cs = im_constraints (domain_impact h (pr_currentPolicy r) (pr_effectiveProposedPolicy r) snapshot)
      in if cs = [] then [revert_supported] else cs)"
    unfolding found_def[symmetric] by (simp add: unfold)
  show "\<exists>k. pr_expectedSideEffects r = im_effects (domain_impact h (pr_currentPolicy r) (pr_effectiveProposedPolicy r) snapshot) @ snd (extrapolate snapshot k)"
    unfolding found_def[symmetric] by (auto simp: unfold)
qed

lemma quiet_preview:
  assumes r: "r = simulatePolicyChange h input" and input: "pi_snapshot input = Some snapshot" "pi_asOf input = Some asOf"
    and fresh: "snapshot_fresh h asOf snapshot (pi_maxSnapshotAgeSeconds input)"
    and quiet: "domain_impact h (pr_currentPolicy r) (pr_effectiveProposedPolicy r) snapshot = no_impact"
    and valid: "validateProposedPolicy (pr_effectiveProposedPolicy r) = []"
  shows "proceed_error dto r = None" "pr_reversibility r = Fully_reversible"
proof -
  have parts: "as_completeness (pr_affectedSummary r) \<noteq> Stale_snapshot" "as_affectedRecords (pr_affectedSummary r) = []"
    "pr_rollbackConstraints r = [revert_supported]" "\<exists>k. pr_expectedSideEffects r = snd (extrapolate snapshot k)"
    using preview_parts[OF r input fresh] quiet by simp_all
  then have mild: "\<not> list_ex (\<lambda>e. \<not> ef_reversible e \<or> ef_severity e \<noteq> E_info) (pr_expectedSideEffects r)"
    using extrapolate_mild by (fastforce simp: list_ex_iff)
  note v = simulate_verdict[of h input, folded r]
  show full: "pr_reversibility r = Fully_reversible"
    using parts mild v(1) by (auto simp: deriveReversibility_def list_ex_iff revert_supported_def)
  have errors: "pr_validationErrors r = []" using valid simulate_policies(3)[of h input] r by simp
  have "pr_impactSeverity r = Low"
    using parts mild full errors v(2) by (auto simp: deriveImpactSeverity_def list_ex_iff)
  then have "\<not> pr_requiresCommitToken r"
    using parts errors full v(3,4) by (auto simp: deriveSimulationStatus_def)
  then show "proceed_error dto r = None" using parts errors by (simp add: proceed_error_def)
qed

lemma not_fresh_stale:
  assumes "r = simulatePolicyChange h input" "pi_snapshot input = Some snapshot" "pi_asOf input = Some asOf"
    and "\<not> snapshot_fresh h asOf snapshot (pi_maxSnapshotAgeSeconds input)"
  shows "as_completeness (pr_affectedSummary r) = Stale_snapshot"
  using assms by (simp add: simulatePolicyChange_def corePayload_def completeness_impact_def summarize_def Let_def split: prod.split)

lemma revoked_positive:
  assumes "u \<in> set users" "P u" "us_activeSessionCount u > 0"
  shows "sum_list (map us_activeSessionCount (filter (\<lambda>u. P u \<and> us_activeSessionCount u > 0) users)) > 0"
proof -
  have nonneg: "0 \<le> sum_list (map us_activeSessionCount (filter (\<lambda>u. P u \<and> us_activeSessionCount u > 0) xs))" for xs
    by (rule sum_list_nonneg) auto
  show ?thesis using assms(1)
  proof (induction users)
    case (Cons x xs)
    then show ?case using nonneg[of xs] assms(2,3) by auto
  qed simp
qed

text \<open>
  C23. No change that would end somebody's session goes through unreviewed: when a user of the snapshot with an
  active session would lose it, the change is classified as irreversible and critical, and
  a commit proceeds only with the token of exactly this preview.
\<close>

theorem ending_sessions_needs_token:
  assumes r: "r = simulatePolicyChange h input" and input: "pi_snapshot input = Some snapshot" "pi_asOf input = Some asOf"
    and auth: "pr_currentPolicy r = P_auth c" "pr_effectiveProposedPolicy r = P_auth p"
    and user: "user \<in> set (sn_users snapshot)" "sessionTerminated (user_flags_of c p user)" "us_activeSessionCount user > 0"
    and ok: "proceed_error dto r = None"
  shows "pr_reversibility r = Irreversible \<and> pr_impactSeverity r = Critical \<and> (\<exists>t. sd_commitToken dto = Some t \<and> trim t = pr_commitToken r)"
proof -
  have "as_completeness (pr_affectedSummary r) \<noteq> Stale_snapshot" using ok by (auto simp: proceed_error_def split: if_splits)
  then have fresh: "snapshot_fresh h asOf snapshot (pi_maxSnapshotAgeSeconds input)" using not_fresh_stale[OF r input] by auto
  have "sum_list (map us_activeSessionCount (filter (\<lambda>u. sessionTerminated (user_flags_of c p u) \<and> us_activeSessionCount u > 0) (sn_users snapshot))) > 0"
    using revoked_positive[OF user(1), of "\<lambda>u. sessionTerminated (user_flags_of c p u)"] user(2,3) by simp
  then have "\<exists>x. x \<in> set (pr_rollbackConstraints r) \<and> rc_reversibility x = Irreversible"
    using preview_parts(3)[OF r input fresh] auth by (simp add: evaluateAuthAccessPolicyImpact_def Let_def)
  then have irr: "pr_reversibility r = Irreversible" using simulate_verdict(1)[of h input] r by (auto simp: deriveReversibility_def list_ex_iff)
  then have "pr_impactSeverity r = Critical" "pr_requiresCommitToken r" using simulate_verdict(2,4)[of h input] r by (simp_all add: deriveImpactSeverity_def)
  then show ?thesis using irr ok by (auto simp: proceed_error_def split: if_splits option.splits)
qed

lemma js_le_not_less: "js_le a b \<Longrightarrow> \<not> js_less b a"
  by (cases a; cases b) (auto simp: js_le_def)

lemma auth_no_impact:
  assumes "\<And>u. \<not> user_affected (user_flags_of c p u)"
  shows "domain_impact h (P_auth c) (P_auth p) snapshot = no_impact"
proof -
  have f: "\<not> sessionTerminated (user_flags_of c p u)" "\<not> uf_mfaNewlyRequired (user_flags_of c p u)" "\<not> uf_roleNewlyDisallowed (user_flags_of c p u)" for u
    using assms[of u] by (auto simp: user_affected_def sessionTerminated_def)
  have "user_impact h c p u = []" for u using assms[of u] by (simp add: user_impact_def Let_def)
  then show ?thesis using f by (simp add: evaluateAuthAccessPolicyImpact_def Let_def tally_def)
qed

lemma user_flags_same: "\<not> user_affected (user_flags_of p p u)"
  using js_le_not_less by (auto simp: user_affected_def sessionTerminated_def user_flags_of_def Let_def)

lemma map_get_spread: "map_get (spread a b) k = (case map_get (rev b) k of None \<Rightarrow> map_get a k | Some v \<Rightarrow> Some v)"
proof (induction b rule: rev_induct)
  case (snoc x b)
  then show ?case by (cases x) (auto simp: spread_def update_conv' split: option.splits)
qed (simp add: spread_def)

lemma spread_again: "dyn_field (spread (spread a b) b) k = dyn_field (spread a b) k"
  by (simp add: dyn_field_def map_get_spread split: option.splits)

text \<open>A commit of a quiet change with a baseline of the caller's.\<close>

lemma quiet_commit:
  assumes dto: "sd_currentPolicy dto = Some baseline" "3 \<le> length (trim (sd_reason dto))" and n: "n = length (wd_calls w)"
    and fresh: "snapshot_fresh h (dto_asOf h dto) (resolveSnapshot (dto_asOf h dto) (sd_snapshot dto) provided) (sd_maxSnapshotAgeSeconds dto)"
    and res: "resolveEffectivePolicies h (sd_domain dto) baseline (sd_proposedPolicy dto) = (cur, new)"
    and quiet: "domain_impact h cur new (resolveSnapshot (dto_asOf h dto) (sd_snapshot dto) provided) = no_impact"
    and valid: "validateProposedPolicy new = []" and w1: "w1 = run (policy_step h cfg) (alone n dto a provided) w"
  obtains rec where "wd_calls w1 ! n = Answered (Inr rec)" "cm_reversibility rec = Fully_reversible"
    "sv_activePolicies (wd_state w1) = set_policy new (sv_activePolicies (wd_state w))"
    "\<And>reason b. 3 \<le> length (trim reason) \<Longrightarrow> sv_activePolicies (wd_state (policy_step h cfg (Rollback (cm_commitId rec) reason b) w1)) =
      set_policy cur (set_policy new (sv_activePolicies (wd_state w)))"
proof -
  obtain r s1 where p: "preview h cfg dto a provided (wd_state w) = (r, s1)" by fastforce
  define input where "input = \<lparr>pi_domain = sd_domain dto, pi_currentPolicy = Some baseline, pi_proposedPolicy = sd_proposedPolicy dto,
    pi_snapshot = Some (resolveSnapshot (dto_asOf h dto) (sd_snapshot dto) provided), pi_asOf = Some (dto_asOf h dto), pi_maxSnapshotAgeSeconds = sd_maxSnapshotAgeSeconds dto\<rparr>"
  have r: "r = simulatePolicyChange h input" and s1: "sv_activePolicies s1 = sv_activePolicies (wd_state w)"
    using p dto(1) by (auto simp: preview_def input_def Let_def emit_def recordSimulationMetrics_def)
  have pol: "pr_currentPolicy r = cur" "pr_effectiveProposedPolicy r = new" using simulate_policies(2)[of h input] res r by (simp_all add: input_def)
  have ok: "proceed_error dto r = None" "pr_reversibility r = Fully_reversible"
    using quiet_preview[OF r, where snapshot = "resolveSnapshot (dto_asOf h dto) (sd_snapshot dto) provided" and asOf = "dto_asOf h dto"] fresh quiet valid pol by (simp_all add: input_def)
  have w1': "w1 = w\<lparr>wd_state := snd (apply_commit h dto a r s1), wd_calls := wd_calls w @ [Answered (Inr (fst (apply_commit h dto a r s1)))]\<rparr>"
    using w1 commit_alone[OF dto(2) n p ok(1)] by simp
  show ?thesis
  proof (rule that[of "fst (apply_commit h dto a r s1)"])
    show "wd_calls w1 ! n = Answered (Inr (fst (apply_commit h dto a r s1)))" using w1' n by simp
    show "cm_reversibility (fst (apply_commit h dto a r s1)) = Fully_reversible" using ok by (simp add: apply_commit_def Let_def)
    show "sv_activePolicies (wd_state w1) = set_policy new (sv_activePolicies (wd_state w))" using w1' s1 pol by (simp add: apply_commit_def emit_def Let_def)
    show "sv_activePolicies (wd_state (policy_step h cfg (Rollback (cm_commitId (fst (apply_commit h dto a r s1))) reason b) w1)) =
        set_policy cur (set_policy new (sv_activePolicies (wd_state w)))" if "3 \<le> length (trim reason)" for reason b
      using apply_then_rollback[OF that, of h dto a r s1 b] w1' s1 pol by simp
  qed
qed

text \<open>
  The baseline of a commit is the caller's to choose.  With the proposal itself as the baseline every
  valid access policy is committed without a token, as a reversible change, whoever loses a session by it.
\<close>

theorem baseline_skips_review:
  assumes dto: "sd_domain dto = Auth_access" "sd_currentPolicy dto = Some (sd_proposedPolicy dto)" "sd_commitToken dto = None"
      "3 \<le> length (trim (sd_reason dto))" and n: "n = length (wd_calls w)"
    and fresh: "snapshot_fresh h (dto_asOf h dto) (resolveSnapshot (dto_asOf h dto) (sd_snapshot dto) provided) (sd_maxSnapshotAgeSeconds dto)"
    and new: "new = normalizeForDomain h Auth_access (spread (policy_fields (P_auth DEFAULT_AUTH_ACCESS_POLICY)) (sd_proposedPolicy dto))"
    and valid: "validateProposedPolicy new = []"
    and w1: "w1 = run (policy_step h cfg) (alone n dto a provided) w"
  shows "policy_of (sv_activePolicies (wd_state w1)) Auth_access = new \<and>
    (\<exists>rec. wd_calls w1 ! n = Answered (Inr rec) \<and> cm_reversibility rec = Fully_reversible)"
proof -
  obtain p where p: "new = P_auth p" using new by simp
  have res: "resolveEffectivePolicies h (sd_domain dto) (sd_proposedPolicy dto) (sd_proposedPolicy dto) = (new, new)"
    unfolding new resolveEffectivePolicies_def dto(1) by (simp add: spread_again Let_def defaultDomainPolicies_def)
  have quiet: "domain_impact h new new (resolveSnapshot (dto_asOf h dto) (sd_snapshot dto) provided) = no_impact"
    unfolding p by (rule auth_no_impact) (rule user_flags_same)
  from quiet_commit[OF dto(2,4) n fresh res quiet valid w1] show ?thesis
    using p by (metis policy_of.simps(4) policy_of_set policy_domain.simps(4))
qed

text \<open>
  A rollback restores the baseline of its commit, which nobody validated.  A commit that claims the ADMIN role
  to have been disallowed before, and is rolled back, locks the role out, which validation forbids.
\<close>

theorem rollback_locks_out_admin:
  assumes dto: "sd_domain dto = Auth_access" "sd_currentPolicy dto = Some [(''disallowedRoles'', D_strs [''ADMIN''])]"
      "sd_proposedPolicy dto = [(''disallowedRoles'', D_strs [])]" "3 \<le> length (trim (sd_reason dto))" and n: "n = length (wd_calls w)"
    and fresh: "snapshot_fresh h (dto_asOf h dto) (resolveSnapshot (dto_asOf h dto) (sd_snapshot dto) provided) (sd_maxSnapshotAgeSeconds dto)"
    and w1: "w1 = run (policy_step h cfg) (alone n dto a provided) w" and reason: "3 \<le> length (trim reason)"
  shows "\<exists>rec. wd_calls w1 ! n = Answered (Inr rec) \<and>
    ''ADMIN'' \<in> set (ap_disallowedRoles (dm_auth_access (sv_activePolicies (wd_state (policy_step h cfg (Rollback (cm_commitId rec) reason b) w1)))))"
proof -
  let ?old = "DEFAULT_AUTH_ACCESS_POLICY\<lparr>ap_disallowedRoles := [''ADMIN'']\<rparr>" and ?new = DEFAULT_AUTH_ACCESS_POLICY
  have "clean_list h toUpperCase (D_strs [''ADMIN'']) = Some [''ADMIN'']" unfolding clean_strs by code_simp
  then have res: "resolveEffectivePolicies h (sd_domain dto) [(''disallowedRoles'', D_strs [''ADMIN''])] (sd_proposedPolicy dto) = (P_auth ?old, P_auth ?new)"
    using dto by (simp add: resolveEffectivePolicies_def Let_def defaultDomainPolicies_def DEFAULT_AUTH_ACCESS_POLICY_def spread_def clean_none)
  have "\<not> user_affected (user_flags_of ?old ?new u)" for u
    using user_flags_same[of ?new u] by (auto simp: user_affected_def sessionTerminated_def user_flags_of_def Let_def DEFAULT_AUTH_ACCESS_POLICY_def)
  then have quiet: "domain_impact h (P_auth ?old) (P_auth ?new) (resolveSnapshot (dto_asOf h dto) (sd_snapshot dto) provided) = no_impact"
    by (rule auth_no_impact)
  have valid: "validateProposedPolicy (P_auth ?new) = []" by (simp add: DEFAULT_AUTH_ACCESS_POLICY_def)
  from quiet_commit[OF dto(2,4) n fresh res quiet valid w1] obtain rec where rec: "wd_calls w1 ! n = Answered (Inr rec)"
    "sv_activePolicies (wd_state (policy_step h cfg (Rollback (cm_commitId rec) reason b) w1)) = set_policy (P_auth ?old) (set_policy (P_auth ?new) (sv_activePolicies (wd_state w)))"
    using reason by metis
  then show ?thesis by auto
qed

section \<open>Agreement with the trading policy\<close>

fun violation_code :: "PolicyViolationCode \<Rightarrow> string" where
  "violation_code PV_TRADING_DISABLED = ''TRADING_DISABLED''"
| "violation_code PV_INVALID_TRADE_AMOUNT = ''INVALID_TRADE_AMOUNT''"
| "violation_code PV_TRADE_AMOUNT_LIMIT_EXCEEDED = ''TRADE_AMOUNT_LIMIT_EXCEEDED''"
| "violation_code PV_ASSET_NOT_ALLOWED = ''ASSET_NOT_ALLOWED''"
| "violation_code PV_TRADE_SIDE_NOT_ALLOWED = ''TRADE_SIDE_NOT_ALLOWED''"

text \<open>
  The rule by which a preview decides which pending trades a trading policy rejects is the rule by which the
  trading policy rejects them: for the policy in force both allow the same trades, and refuse the
  others with the same code.
\<close>

theorem preview_agrees_with_trading_policy:
  "map_option fst (isTradeAllowedByPolicy h (ti_amount i) (asset_key (ti_asset i)) (ti_side i) (of_TradingPolicy (getTradingPolicy c))) =
   map_option violation_code (decision_code (evaluateTrade ne c i))"
  unfolding evaluateTrade_code
  by (cases "ti_amount i"; cases "tp_allowedAssets (getTradingPolicy c)")
    (auto simp: isTradeAllowedByPolicy_def of_TradingPolicy_def first_failure_def amount_valid_def amount_within_def asset_allowed_def side_allowed_def js_le_def)

section \<open>Examples\<close>

text \<open>A host for examples.\<close>

definition sample_host :: host where
  "sample_host = \<lparr>ne_Number = (\<lambda>_. NotANumber), ne_toString = (\<lambda>_. ''?''), hs_parse = (\<lambda>_. Some 0), hs_now = ''2026-10-17T00:00:00.000Z'',
     hs_localeLe = string_le, hs_sha256 = (\<lambda>_. ''0123456789abcdef01234567'')\<rparr>"

definition nobody :: PolicySimulationSnapshot where
  "nobody = \<lparr>sn_version = ''v'', sn_observedAt = ''t'', sn_isSampled = False, sn_totalPopulationUsers = None, sn_users = [], sn_pendingTrades = [],
     sn_portfolios = [], sn_defiPositions = [], sn_notificationPreferences = []\<rparr>"

definition sample_input :: "PolicyDomain \<Rightarrow> (string, dyn) jsmap \<Rightarrow> PolicySimulationInput" where
  "sample_input d proposed = \<lparr>pi_domain = d, pi_currentPolicy = None, pi_proposedPolicy = proposed, pi_snapshot = Some nobody, pi_asOf = None, pi_maxSnapshotAgeSeconds = None\<rparr>"

definition sample_dto :: "PolicyDomain \<Rightarrow> (string, dyn) jsmap \<Rightarrow> (string, dyn) jsmap option \<Rightarrow> CommitPolicyChangeDto" where
  "sample_dto d proposed baseline = \<lparr>sd_domain = d, sd_proposedPolicy = proposed, sd_currentPolicy = baseline, sd_snapshot = None, sd_asOf = None,
     sd_maxSnapshotAgeSeconds = None, sd_reason = ''volatile markets'', sd_commitToken = None\<rparr>"

definition one_user :: PolicySimulationSnapshot where
  "one_user = nobody\<lparr>sn_users := [\<lparr>us_userId = ''u'', us_role = ''USER'', us_mfaEnabled = False, us_kycTier = Fin 2, us_activeSessionCount = 2,
     us_sessionAgeMinutes = Fin 25, us_apiKeyCount = None\<rparr>]\<rparr>"

definition short_sessions :: "(string, dyn) jsmap" where
  "short_sessions = [(''sessionTtlMinutes'', D_num (Fin 5))]"

lemma proceed_error_digest: "proceed_error dto (simulatePolicyChange h input) = proceed_error dto (corePayload h input)"
  by (cases "sd_commitToken dto") (auto simp: proceed_error_def simulatePolicyChange_def)


lemma sample_quiet: "proceed_error (sample_dto Auth_access [] None) (corePayload sample_host (sample_input Auth_access [])) = None"
  by code_simp

theorem tokenless_change_is_mild_witness:
  "length (as_affectedRecords (pr_affectedSummary (simulatePolicyChange sample_host (sample_input Auth_access [])))) \<le> 2"
  using tokenless_change_is_mild[OF refl, of "sample_dto Auth_access [] None" sample_host "sample_input Auth_access []"] sample_quiet
  by (simp add: proceed_error_digest sample_dto_def)

definition reviewed :: CommitPolicyChangeDto where
  "reviewed = (sample_dto Auth_access short_sessions None)\<lparr>sd_snapshot := Some one_user, sd_commitToken := Some ''pctk:auth_access:0123456789abcdef01234567''\<rparr>"

definition session_input :: PolicySimulationInput where
  "session_input = (sample_input Auth_access short_sessions)\<lparr>pi_snapshot := Some one_user, pi_asOf := Some ''t''\<rparr>"

lemma sample_reviewed:
  "proceed_error reviewed (corePayload sample_host session_input) = None"
  by code_simp

theorem ending_sessions_needs_token_witness:
  "pr_reversibility (simulatePolicyChange sample_host session_input) = Irreversible"
proof -
  let ?p = "DEFAULT_AUTH_ACCESS_POLICY\<lparr>ap_sessionTtlMinutes := Fin 5\<rparr>"
  have "resolveEffectivePolicies sample_host Auth_access [] short_sessions = (P_auth DEFAULT_AUTH_ACCESS_POLICY, P_auth ?p)"
    by (simp add: resolveEffectivePolicies_def Let_def defaultDomainPolicies_def DEFAULT_AUTH_ACCESS_POLICY_def spread_def short_sessions_def clean_none)
  then have auth: "pr_currentPolicy (simulatePolicyChange sample_host session_input) = P_auth DEFAULT_AUTH_ACCESS_POLICY"
    "pr_effectiveProposedPolicy (simulatePolicyChange sample_host session_input) = P_auth ?p"
    using simulate_policies(2)[of sample_host session_input] by (simp_all add: session_input_def sample_input_def)
  have user: "hd (sn_users one_user) \<in> set (sn_users one_user)" "sessionTerminated (user_flags_of DEFAULT_AUTH_ACCESS_POLICY ?p (hd (sn_users one_user)))"
    "us_activeSessionCount (hd (sn_users one_user)) > 0"
    by code_simp+
  have "pi_snapshot session_input = Some one_user" "pi_asOf session_input = Some ''t''" by (simp_all add: session_input_def)
  from ending_sessions_needs_token[OF refl this auth user, of reviewed] sample_reviewed show ?thesis by (simp add: proceed_error_digest)
qed

definition unreviewed :: CommitPolicyChangeDto where
  "unreviewed = (sample_dto Auth_access short_sessions (Some short_sessions))\<lparr>sd_snapshot := Some one_user\<rparr>"

theorem baseline_skips_review_witness:
  "policy_of (sv_activePolicies (wd_state (run (policy_step sample_host None) (alone 0 unreviewed ''m'' None) (no_commits None)))) Auth_access =
     P_auth (DEFAULT_AUTH_ACCESS_POLICY\<lparr>ap_sessionTtlMinutes := Fin 5\<rparr>)"
proof -
  let ?new = "normalizeForDomain sample_host Auth_access (spread (policy_fields (P_auth DEFAULT_AUTH_ACCESS_POLICY)) (sd_proposedPolicy unreviewed))"
  have new: "?new = P_auth (DEFAULT_AUTH_ACCESS_POLICY\<lparr>ap_sessionTtlMinutes := Fin 5\<rparr>)"
    by (simp add: unreviewed_def sample_dto_def DEFAULT_AUTH_ACCESS_POLICY_def spread_def short_sessions_def clean_none)
  have valid: "validateProposedPolicy ?new = []" unfolding new by code_simp
  have fresh: "snapshot_fresh sample_host (dto_asOf sample_host unreviewed) (resolveSnapshot (dto_asOf sample_host unreviewed) (sd_snapshot unreviewed) None)
      (sd_maxSnapshotAgeSeconds unreviewed)" by code_simp
  have dto: "sd_domain unreviewed = Auth_access" "sd_currentPolicy unreviewed = Some (sd_proposedPolicy unreviewed)" "sd_commitToken unreviewed = None"
      "3 \<le> length (trim (sd_reason unreviewed))" "0 = length (wd_calls (no_commits None))"
    by (simp_all add: unreviewed_def sample_dto_def no_commits_def) code_simp
  from baseline_skips_review[OF dto fresh refl valid refl, of None "''m''"] show ?thesis unfolding new by simp
qed

definition claimed :: CommitPolicyChangeDto where
  "claimed = (sample_dto Auth_access [(''disallowedRoles'', D_strs [])] (Some [(''disallowedRoles'', D_strs [''ADMIN''])]))\<lparr>sd_snapshot := Some one_user\<rparr>"

theorem rollback_locks_out_admin_witness:
  "\<exists>rec :: PolicyCommitRecord. ''ADMIN'' \<in> set (ap_disallowedRoles (dm_auth_access (sv_activePolicies (wd_state (policy_step sample_host None (Rollback (cm_commitId rec) ''undo it'' ''m'')
     (run (policy_step sample_host None) (alone 0 claimed ''m'' None) (no_commits None)))))))"
proof -
  have fresh: "snapshot_fresh sample_host (dto_asOf sample_host claimed) (resolveSnapshot (dto_asOf sample_host claimed) (sd_snapshot claimed) None)
      (sd_maxSnapshotAgeSeconds claimed)" by code_simp
  have dto: "sd_domain claimed = Auth_access" "sd_currentPolicy claimed = Some [(''disallowedRoles'', D_strs [''ADMIN''])]"
      "sd_proposedPolicy claimed = [(''disallowedRoles'', D_strs [])]" "3 \<le> length (trim (sd_reason claimed))" "0 = length (wd_calls (no_commits None))"
    by (simp_all add: claimed_def sample_dto_def no_commits_def) code_simp
  have "3 \<le> length (trim ''undo it'')" by code_simp
  from rollback_locks_out_admin[OF dto fresh refl this, of None "''m''" "''m''"] show ?thesis by blast
qed

definition commit_input :: PolicySimulationInput where
  "commit_input = \<lparr>pi_domain = Auth_access, pi_currentPolicy = Some (policy_fields (P_auth DEFAULT_AUTH_ACCESS_POLICY)), pi_proposedPolicy = short_sessions,
     pi_snapshot = Some one_user, pi_asOf = Some ''2026-10-17T00:00:00.000Z'', pi_maxSnapshotAgeSeconds = None\<rparr>"

lemma sample_commits: "proceed_error reviewed (fst (preview sample_host None reviewed ''m'' None (new_service None))) = None"
proof -
  have "fst (preview sample_host None reviewed ''m'' None (new_service None)) = simulatePolicyChange sample_host commit_input"
    by (simp add: preview_def Let_def reviewed_def sample_dto_def commit_input_def getActivePolicy_def new_service_def dto_asOf_def resolveSnapshot_def
      sample_host_def defaultDomainPolicies_def)
  moreover have "proceed_error reviewed (corePayload sample_host commit_input) = None" by code_simp
  ultimately show ?thesis by (simp add: proceed_error_digest)
qed


end
