(* ===== verification/Rate_Limiter.thy ===== *)
theory Rate_Limiter
  imports Complex_Main Trellis_Prelude
begin

text \<open>
  Rate limits, \<open>src/rate-limiting/rate-limiter.service.ts\<close>: token buckets and sliding windows, kept in Redis by two Lua
  scripts or in memory when Redis is away, allow and deny lists, violations, endpoint rules and the registry.

  A call of the service is one step at one time: Redis runs a script at once, and no
  other code runs between the reads and writes of the memory stores.  What Redis answers is part of the step, and a
  reply may be lost after the script has run.  Tokens and rates are exact rationals; limits, bursts and times are
  integers, in milliseconds.  Redis drops a key once its time to live has passed.
\<close>

section \<open>Policies and decisions\<close>

datatype RateLimitStrategy = TokenBucket | SlidingWindow

record RateLimitPolicy =
  pl_limit :: int
  pl_windowMs :: int
  pl_burst :: int
  pl_strategy :: RateLimitStrategy

record partial_policy =
  pp_limit :: "int option"
  pp_windowMs :: "int option"
  pp_burst :: "int option"
  pp_strategy :: "RateLimitStrategy option"

record RateLimitDecision =
  rd_allowed :: bool
  rd_remaining :: int
  rd_resetAt :: int
  rd_retryAfterMs :: "int option"

abbreviation or_else :: "'a option \<Rightarrow> 'a \<Rightarrow> 'a" where
  "or_else x y \<equiv> (case x of None \<Rightarrow> y | Some v \<Rightarrow> v)"

definition resolve_policy :: "RateLimitStrategy \<Rightarrow> partial_policy \<Rightarrow> RateLimitPolicy" where
  "resolve_policy defaultStrategy p =
     \<lparr>pl_limit = or_else (pp_limit p) 60, pl_windowMs = or_else (pp_windowMs p) 60000,
      pl_burst = or_else (pp_burst p) (or_else (pp_limit p) 60), pl_strategy = or_else (pp_strategy p) defaultStrategy\<rparr>"

definition ratePerSec :: "RateLimitPolicy \<Rightarrow> rat" where
  "ratePerSec p = of_int (pl_limit p) / (of_int (pl_windowMs p) / 1000)"

section \<open>Stores in memory\<close>

record MemoryTokenBucketState =
  bk_tokens :: rat
  bk_ts :: int

definition refilled :: "rat \<Rightarrow> int \<Rightarrow> int \<Rightarrow> MemoryTokenBucketState option \<Rightarrow> rat" where
  "refilled rate burst now state =
     (case state of
        None \<Rightarrow> of_int burst
      | Some b \<Rightarrow> min (of_int burst) (bk_tokens b + of_int (now - bk_ts b) * rate / 1000))"

definition consumeMemoryTokenBucket ::
  "RateLimitPolicy \<Rightarrow> int \<Rightarrow> MemoryTokenBucketState option \<Rightarrow> RateLimitDecision \<times> MemoryTokenBucketState" where
  "consumeMemoryTokenBucket p now state =
     (let rate = ratePerSec p;
          available = refilled rate (pl_burst p) now state;
          allowed = available \<ge> 1;
          tokens = (if allowed then available - 1 else available);
          wait = \<lceil>(1 - tokens) / rate * 1000\<rceil>
      in (\<lparr>rd_allowed = allowed, rd_remaining = max 0 \<lfloor>tokens\<rfloor>,
           rd_resetAt = now + (if allowed then \<lceil>(of_int (pl_burst p) - tokens) / rate * 1000\<rceil> else wait),
           rd_retryAfterMs = (if allowed then None else Some wait)\<rparr>,
          \<lparr>bk_tokens = tokens, bk_ts = now\<rparr>))"

definition consumeMemorySlidingWindow :: "RateLimitPolicy \<Rightarrow> int \<Rightarrow> int list \<Rightarrow> RateLimitDecision \<times> int list" where
  "consumeMemorySlidingWindow p now stored =
     (let entries = filter (\<lambda>ts. ts > now - pl_windowMs p) stored;
          n = int (length entries)
      in if n < pl_limit p
         then (\<lparr>rd_allowed = True, rd_remaining = max 0 (pl_limit p - n - 1), rd_resetAt = now + pl_windowMs p, rd_retryAfterMs = None\<rparr>, entries @ [now])
         else let oldest = (case entries of [] \<Rightarrow> now | t # _ \<Rightarrow> t) in
              (\<lparr>rd_allowed = False, rd_remaining = 0, rd_resetAt = oldest + pl_windowMs p, rd_retryAfterMs = Some (max 0 (oldest + pl_windowMs p - now))\<rparr>, entries))"

section \<open>Stores in Redis\<close>

text \<open>A key with the time after which Redis drops it.\<close>

record 'a redis_key =
  rk_value :: 'a
  rk_until :: int

definition redis_live :: "int \<Rightarrow> 'a redis_key option \<Rightarrow> 'a option" where
  "redis_live now k = (case k of None \<Rightarrow> None | Some x \<Rightarrow> if now > rk_until x then None else Some (rk_value x))"

text \<open>The scripts: whether the request is allowed, what remains, the time to wait, and the key afterwards.\<close>

definition TOKEN_BUCKET_LUA ::
  "int \<Rightarrow> rat \<Rightarrow> int \<Rightarrow> rat \<Rightarrow> MemoryTokenBucketState redis_key option \<Rightarrow> (bool \<times> int \<times> int) \<times> MemoryTokenBucketState redis_key" where
  "TOKEN_BUCKET_LUA capacity rate now cost key =
     (let tokens = refilled rate capacity now (redis_live now key) in
      if tokens \<ge> cost
      then let left = tokens - cost; ttl = max 1 \<lceil>(of_int capacity - left + 1) / rate\<rceil> in
           ((True, \<lfloor>left\<rfloor>, 0), \<lparr>rk_value = \<lparr>bk_tokens = left, bk_ts = now\<rparr>, rk_until = now + ttl * 1000\<rparr>)
      else let wait = \<lceil>(cost - tokens) / rate * 1000\<rceil>; ttl = max 1 \<lceil>(cost - tokens + 1) / rate\<rceil> in
           ((False, \<lfloor>tokens\<rfloor>, wait), \<lparr>rk_value = \<lparr>bk_tokens = tokens, bk_ts = now\<rparr>, rk_until = now + ttl * 1000\<rparr>))"

text \<open>A sorted set holds members by score.\<close>

type_synonym zset = "(int \<times> string) list"

definition zadd :: "int \<Rightarrow> string \<Rightarrow> zset \<Rightarrow> zset" where
  "zadd score member z = insort_key fst (score, member) (filter (\<lambda>(_, m). m \<noteq> member) z)"

definition SLIDING_WINDOW_LUA ::
  "int \<Rightarrow> int \<Rightarrow> int \<Rightarrow> string \<Rightarrow> zset redis_key option \<Rightarrow> (bool \<times> int \<times> int) \<times> zset redis_key option" where
  "SLIDING_WINDOW_LUA limit windowMs now requestId key =
     (let z = filter (\<lambda>(s, _). \<not> (0 \<le> s \<and> s \<le> now - windowMs)) (case redis_live now key of None \<Rightarrow> [] | Some z \<Rightarrow> z);
          n = int (length z)
      in if n < limit
         then ((True, limit - n - 1, 0), Some \<lparr>rk_value = zadd now requestId z, rk_until = now + windowMs\<rparr>)
         else ((False, 0, max 0 ((case z of [] \<Rightarrow> now | (s, _) # _ \<Rightarrow> s + windowMs) - now)),
               if z = [] then None else map_option (\<lambda>k. k\<lparr>rk_value := z\<rparr>) key))"

section \<open>The service\<close>

record MemoryEntry =
  en_tracker :: string
  en_scope :: string
  en_tier :: string
  en_strategy :: RateLimitStrategy
  en_limit :: int
  en_windowMs :: int
  en_burst :: int
  en_allowed :: int
  en_denied :: int
  en_lastResetAt :: int
  en_lastRemaining :: int

record ListEntry =
  le_id :: string
  le_type :: string
  le_value :: string
  le_reason :: "string option"
  le_createdAt :: int
  le_expiresAt :: "int option"

record RateLimitViolation =
  vi_id :: string
  vi_timestamp :: int
  vi_ip :: string
  vi_tracker :: string
  vi_userId :: "string option"
  vi_route :: string
  vi_method :: string
  vi_tier :: string
  vi_strategy :: RateLimitStrategy
  vi_limit :: int
  vi_reason :: string

record EndpointRateLimitRule =
  er_pathPattern :: string
  er_method :: "string option"
  er_policy :: partial_policy

record redis_store =
  db_buckets :: "(string, MemoryTokenBucketState redis_key) jsmap"
  db_windows :: "(string, zset redis_key) jsmap"
  db_whitelist :: "(string, ListEntry) jsmap"
  db_blacklist :: "(string, ListEntry) jsmap"
  db_violations :: "RateLimitViolation list"

record rate_limiter =
  rl_redis :: "redis_store option"
  rl_keyPrefix :: string
  rl_defaultStrategy :: RateLimitStrategy
  rl_memoryBuckets :: "(string, MemoryTokenBucketState) jsmap"
  rl_memoryWindows :: "(string, int list) jsmap"
  rl_registry :: "(string, MemoryEntry) jsmap"
  rl_memoryWhitelist :: "(string, ListEntry) jsmap"
  rl_memoryBlacklist :: "(string, ListEntry) jsmap"
  rl_memoryViolations :: "RateLimitViolation list"
  rl_endpointRules :: "EndpointRateLimitRule list"
  rl_lastRedisCheck :: int
  rl_redisHealthy :: bool

text \<open>What Redis does in one call: it answers a ping or not, and runs a command, fails, or runs it and loses the reply.\<close>

datatype redis_reply = Redis_ok | Redis_fail | Redis_lost

record redis_luck =
  lk_ping :: bool
  lk_reply :: redis_reply

definition isRedisHealthy :: "int \<Rightarrow> bool \<Rightarrow> rate_limiter \<Rightarrow> bool \<times> rate_limiter" where
  "isRedisHealthy now ping s =
     (case rl_redis s of
        None \<Rightarrow> (False, s)
      | Some _ \<Rightarrow>
          if now - rl_lastRedisCheck s < 5000 then (rl_redisHealthy s, s)
          else (ping, s\<lparr>rl_lastRedisCheck := now, rl_redisHealthy := ping\<rparr>))"

definition updateRegistry ::
  "string \<Rightarrow> string option \<Rightarrow> string option \<Rightarrow> string option \<Rightarrow> RateLimitPolicy \<Rightarrow> RateLimitDecision \<Rightarrow> rate_limiter \<Rightarrow> rate_limiter" where
  "updateRegistry key tracker scope tier p d s =
     (let existing = map_get (rl_registry s) key;
          keep = (\<lambda>given old fallback. or_else given (or_else (map_option old existing) fallback))
      in s\<lparr>rl_registry := map_set key
        \<lparr>en_tracker = keep tracker en_tracker ''unknown'', en_scope = keep scope en_scope ''global'', en_tier = keep tier en_tier ''free'',
         en_strategy = pl_strategy p, en_limit = pl_limit p, en_windowMs = pl_windowMs p, en_burst = pl_burst p,
         en_allowed = or_else (map_option en_allowed existing) 0 + (if rd_allowed d then 1 else 0),
         en_denied = or_else (map_option en_denied existing) 0 + (if rd_allowed d then 0 else 1),
         en_lastResetAt = rd_resetAt d, en_lastRemaining = rd_remaining d\<rparr> (rl_registry s)\<rparr>)"

definition consumeMemory :: "int \<Rightarrow> string \<Rightarrow> RateLimitPolicy \<Rightarrow> rate_limiter \<Rightarrow> RateLimitDecision \<times> rate_limiter" where
  "consumeMemory now key p s =
     (case pl_strategy p of
        SlidingWindow \<Rightarrow>
          (let (d, entries) = consumeMemorySlidingWindow p now (or_else (map_get (rl_memoryWindows s) key) [])
           in (d, s\<lparr>rl_memoryWindows := map_set key entries (rl_memoryWindows s)\<rparr>))
      | TokenBucket \<Rightarrow>
          (let (d, b) = consumeMemoryTokenBucket p now (map_get (rl_memoryBuckets s) key)
           in (d, s\<lparr>rl_memoryBuckets := map_set key b (rl_memoryBuckets s)\<rparr>)))"

text \<open>The script that a policy needs, and the store afterwards.\<close>

definition redis_script :: "int \<Rightarrow> string \<Rightarrow> string \<Rightarrow> RateLimitPolicy \<Rightarrow> redis_store \<Rightarrow> (bool \<times> int \<times> int) \<times> redis_store" where
  "redis_script now requestId key p db =
     (case pl_strategy p of
        SlidingWindow \<Rightarrow>
          (let (r, k) = SLIDING_WINDOW_LUA (pl_limit p) (pl_windowMs p) now requestId (map_get (db_windows db) key)
           in (r, db\<lparr>db_windows := (case k of None \<Rightarrow> map_delete key (db_windows db) | Some x \<Rightarrow> map_set key x (db_windows db))\<rparr>))
      | TokenBucket \<Rightarrow>
          (let (r, k) = TOKEN_BUCKET_LUA (pl_burst p) (ratePerSec p) now 1 (map_get (db_buckets db) key)
           in (r, db\<lparr>db_buckets := map_set key k (db_buckets db)\<rparr>)))"

definition redis_decision :: "int \<Rightarrow> RateLimitPolicy \<Rightarrow> bool \<times> int \<times> int \<Rightarrow> RateLimitDecision" where
  "redis_decision now p r =
     (let (allowed, remaining, retryAfterMs) = r in
      \<lparr>rd_allowed = allowed, rd_remaining = max 0 remaining,
       rd_resetAt = now + (if retryAfterMs > 0 then retryAfterMs
         else case pl_strategy p of SlidingWindow \<Rightarrow> pl_windowMs p
            | TokenBucket \<Rightarrow> \<lceil>(of_int (pl_burst p - remaining) / ratePerSec p) * 1000\<rceil>),
       rd_retryAfterMs = (if retryAfterMs > 0 then Some retryAfterMs else None)\<rparr>)"

definition consumeRedis ::
  "int \<Rightarrow> redis_reply \<Rightarrow> string \<Rightarrow> string \<Rightarrow> RateLimitPolicy \<Rightarrow> redis_store \<Rightarrow> rate_limiter \<Rightarrow> RateLimitDecision \<times> rate_limiter" where
  "consumeRedis now reply requestId key p db s =
     (let (r, db1) = redis_script now requestId key p db in
      case reply of
        Redis_ok \<Rightarrow> (redis_decision now p r, s\<lparr>rl_redis := Some db1\<rparr>)
      | Redis_fail \<Rightarrow> consumeMemory now key p s
      | Redis_lost \<Rightarrow> consumeMemory now key p (s\<lparr>rl_redis := Some db1\<rparr>))"

definition consume ::
  "int \<Rightarrow> redis_luck \<Rightarrow> string \<Rightarrow> string \<Rightarrow> partial_policy \<Rightarrow> string option \<Rightarrow> string option \<Rightarrow> string option \<Rightarrow> rate_limiter
    \<Rightarrow> RateLimitDecision \<times> rate_limiter" where
  "consume now luck requestId key policy tracker scope tier s =
     (let p = resolve_policy (rl_defaultStrategy s) policy;
          storageKey = rl_keyPrefix s @ key;
          (healthy, s1) = isRedisHealthy now (lk_ping luck) s;
          (d, s2) = (case rl_redis s1 of
             Some db \<Rightarrow> if healthy then consumeRedis now (lk_reply luck) requestId storageKey p db s1 else consumeMemory now storageKey p s1
           | None \<Rightarrow> consumeMemory now storageKey p s1)
      in (d, updateRegistry key tracker scope tier p d s2))"

subsection \<open>Allow and deny lists\<close>

text \<open>
  The two lists have the same code, for two maps in memory and two hashes in Redis.  \<open>list_kind\<close> picks the pair.
\<close>

datatype list_kind = Whitelist | Blacklist

fun memory_list :: "list_kind \<Rightarrow> rate_limiter \<Rightarrow> (string, ListEntry) jsmap" where
  "memory_list Whitelist s = rl_memoryWhitelist s"
| "memory_list Blacklist s = rl_memoryBlacklist s"

fun set_memory_list :: "list_kind \<Rightarrow> (string, ListEntry) jsmap \<Rightarrow> rate_limiter \<Rightarrow> rate_limiter" where
  "set_memory_list Whitelist m s = s\<lparr>rl_memoryWhitelist := m\<rparr>"
| "set_memory_list Blacklist m s = s\<lparr>rl_memoryBlacklist := m\<rparr>"

fun redis_list :: "list_kind \<Rightarrow> redis_store \<Rightarrow> (string, ListEntry) jsmap" where
  "redis_list Whitelist db = db_whitelist db"
| "redis_list Blacklist db = db_blacklist db"

fun set_redis_list :: "list_kind \<Rightarrow> (string, ListEntry) jsmap \<Rightarrow> redis_store \<Rightarrow> redis_store" where
  "set_redis_list Whitelist m db = db\<lparr>db_whitelist := m\<rparr>"
| "set_redis_list Blacklist m db = db\<lparr>db_blacklist := m\<rparr>"

text \<open>A write to Redis after a health check; a failure is only logged.\<close>

definition redis_write :: "int \<Rightarrow> redis_luck \<Rightarrow> (redis_store \<Rightarrow> redis_store) \<Rightarrow> rate_limiter \<Rightarrow> rate_limiter" where
  "redis_write now luck f s =
     (let (healthy, s1) = isRedisHealthy now (lk_ping luck) s in
      case rl_redis s1 of
        Some db \<Rightarrow> if healthy \<and> lk_reply luck \<noteq> Redis_fail then s1\<lparr>rl_redis := Some (f db)\<rparr> else s1
      | None \<Rightarrow> s1)"

definition addListEntry ::
  "list_kind \<Rightarrow> int \<Rightarrow> redis_luck \<Rightarrow> string \<Rightarrow> string \<Rightarrow> string option \<Rightarrow> int option \<Rightarrow> rate_limiter \<Rightarrow> ListEntry \<times> rate_limiter" where
  "addListEntry kind now luck type val reason expiresAt s =
     (let item = \<lparr>le_id = type @ '':'' @ val, le_type = type, le_value = toLowerCase (trim val), le_reason = reason, le_createdAt = now, le_expiresAt = expiresAt\<rparr>;
          s1 = set_memory_list kind (map_set (le_id item) item (memory_list kind s)) s
      in (item, redis_write now luck (\<lambda>db. set_redis_list kind (map_set (le_id item) item (redis_list kind db)) db) s1))"

definition removeListEntry :: "list_kind \<Rightarrow> int \<Rightarrow> redis_luck \<Rightarrow> string \<Rightarrow> rate_limiter \<Rightarrow> bool \<times> rate_limiter" where
  "removeListEntry kind now luck val s =
     (let norm = toLowerCase (trim val);
          hit = (\<lambda>(i, e). le_value e = norm \<or> i = val);
          s1 = set_memory_list kind (filter (\<lambda>x. \<not> hit x) (memory_list kind s)) s
      in (list_ex hit (memory_list kind s),
          redis_write now luck (\<lambda>db. set_redis_list kind (map_delete norm (map_delete val (redis_list kind db))) db) s1))"

definition not_expired :: "int \<Rightarrow> ListEntry \<Rightarrow> bool" where
  "not_expired now e = (case le_expiresAt e of None \<Rightarrow> True | Some t \<Rightarrow> t = 0 \<or> t > now)"

definition listEntries_of :: "list_kind \<Rightarrow> int \<Rightarrow> redis_luck \<Rightarrow> rate_limiter \<Rightarrow> ListEntry list \<times> rate_limiter" where
  "listEntries_of kind now luck s =
     (let (healthy, s1) = isRedisHealthy now (lk_ping luck) s in
      case rl_redis s1 of
        Some db \<Rightarrow>
          if healthy \<and> lk_reply luck = Redis_ok
          then let found = filter (not_expired now) (map snd (redis_list kind db)) in
               (found, set_memory_list kind (foldl (\<lambda>m e. map_set (le_id e) e m) (memory_list kind s1) found) s1)
          else (filter (not_expired now) (map snd (memory_list kind s1)), s1)
      | None \<Rightarrow> (filter (not_expired now) (map snd (memory_list kind s1)), s1))"

definition starts_with :: "string \<Rightarrow> string \<Rightarrow> bool" where
  "starts_with s pre = (take (length pre) s = pre)"

definition matchIpPattern :: "string \<Rightarrow> string \<Rightarrow> bool" where
  "matchIpPattern ip pat = (pat = ip \<or> pat \<noteq> [] \<and> last pat = CHR ''*'' \<and> starts_with ip (butlast pat))"

definition matchPathPattern :: "string \<Rightarrow> string \<Rightarrow> bool" where
  "matchPathPattern path pat = (pat = path \<or> pat = ''*'' \<or> pat \<noteq> [] \<and> last pat = CHR ''*'' \<and> starts_with path (butlast pat))"

text \<open>Whether an entry names the caller; \<open>''*''\<close> for every address, and paths, are for the allow list only.\<close>

definition entry_names ::
  "list_kind \<Rightarrow> string option \<Rightarrow> string option \<Rightarrow> string option \<Rightarrow> string option \<Rightarrow> ListEntry \<Rightarrow> bool" where
  "entry_names kind ip userId key path e =
     ((case ip of Some i \<Rightarrow> i \<noteq> [] \<and> le_type e = ''ip'' \<and>
         (le_value e = toLowerCase i \<or> kind = Whitelist \<and> le_value e = ''*'' \<or> matchIpPattern i (le_value e)) | None \<Rightarrow> False) \<or>
      (case userId of Some u \<Rightarrow> u \<noteq> [] \<and> le_type e = ''user'' \<and> le_value e = toLowerCase u | None \<Rightarrow> False) \<or>
      (case key of Some k \<Rightarrow> k \<noteq> [] \<and> le_type e = ''key'' \<and> le_value e = toLowerCase k | None \<Rightarrow> False) \<or>
      (case path of Some q \<Rightarrow> kind = Whitelist \<and> q \<noteq> [] \<and> le_type e = ''path'' \<and> matchPathPattern q (le_value e) | None \<Rightarrow> False))"

definition isListed ::
  "list_kind \<Rightarrow> int \<Rightarrow> redis_luck \<Rightarrow> string option \<Rightarrow> string option \<Rightarrow> string option \<Rightarrow> string option \<Rightarrow> rate_limiter \<Rightarrow> bool \<times> rate_limiter" where
  "isListed kind now luck ip userId key path s =
     (let (found, s1) = listEntries_of kind now luck s in
      (list_ex (\<lambda>e. not_expired now e \<and> entry_names kind ip userId key path e) found, s1))"

definition addWhitelist where "addWhitelist = addListEntry Whitelist"

definition addBlacklist where "addBlacklist = addListEntry Blacklist"

definition removeWhitelist where "removeWhitelist = removeListEntry Whitelist"

definition removeBlacklist where "removeBlacklist = removeListEntry Blacklist"

definition listWhitelist where "listWhitelist = listEntries_of Whitelist"

definition listBlacklist where "listBlacklist = listEntries_of Blacklist"

definition isWhitelisted where "isWhitelisted = isListed Whitelist"

definition isBlacklisted :: "int \<Rightarrow> redis_luck \<Rightarrow> string option \<Rightarrow> string option \<Rightarrow> string option \<Rightarrow> rate_limiter \<Rightarrow> bool \<times> rate_limiter" where
  "isBlacklisted now luck ip userId key s = isListed Blacklist now luck ip userId key None s"

subsection \<open>Violations, endpoint rules and the registry\<close>

definition recordViolation :: "int \<Rightarrow> redis_luck \<Rightarrow> RateLimitViolation \<Rightarrow> rate_limiter \<Rightarrow> rate_limiter" where
  "recordViolation now luck v s =
     redis_write now luck (\<lambda>db. db\<lparr>db_violations := take 2000 (v\<lparr>vi_timestamp := now\<rparr> # db_violations db)\<rparr>)
       (s\<lparr>rl_memoryViolations := take 2000 (v\<lparr>vi_timestamp := now\<rparr> # rl_memoryViolations s)\<rparr>)"

record violation_filter =
  vf_tracker :: "string option"
  vf_ip :: "string option"
  vf_userId :: "string option"
  vf_route :: "string option"
  vf_limit :: "nat option"
  vf_since :: "int option"

fun js_includes :: "string \<Rightarrow> string \<Rightarrow> bool" where
  "js_includes [] t = (t = [])"
| "js_includes (c # s) t = (starts_with (c # s) t \<or> js_includes s t)"

abbreviation given :: "string option \<Rightarrow> (string \<Rightarrow> bool) \<Rightarrow> bool" where
  "given x P \<equiv> (case x of None \<Rightarrow> True | Some v \<Rightarrow> v = [] \<or> P v)"

definition getViolations :: "int \<Rightarrow> redis_luck \<Rightarrow> violation_filter \<Rightarrow> rate_limiter \<Rightarrow> RateLimitViolation list \<times> rate_limiter" where
  "getViolations now luck f s =
     (let (healthy, s1) = isRedisHealthy now (lk_ping luck) s;
          found = (case rl_redis s1 of
            Some db \<Rightarrow> if healthy \<and> lk_reply luck = Redis_ok
              then take (Suc (case vf_limit f of Some n \<Rightarrow> if n = 0 then 500 else min (n * 2) 500 | None \<Rightarrow> 500)) (db_violations db)
              else rl_memoryViolations s1
          | None \<Rightarrow> rl_memoryViolations s1)
      in (take (or_else (vf_limit f) 100) (filter (\<lambda>v. vi_timestamp v \<ge> or_else (vf_since f) 0
            \<and> given (vf_tracker f) (\<lambda>t. vi_tracker v = t) \<and> given (vf_ip f) (\<lambda>i. vi_ip v = i)
            \<and> given (vf_userId f) (\<lambda>u. vi_userId v = Some u) \<and> given (vf_route f) (\<lambda>r. js_includes (vi_route v) r)) found), s1))"

definition addEndpointRule :: "EndpointRateLimitRule \<Rightarrow> rate_limiter \<Rightarrow> rate_limiter" where
  "addEndpointRule r s = s\<lparr>rl_endpointRules := rl_endpointRules s @ [r]\<rparr>"

definition getEndpointRule :: "string \<Rightarrow> string option \<Rightarrow> rate_limiter \<Rightarrow> EndpointRateLimitRule option" where
  "getEndpointRule path m s =
     find (\<lambda>r. (case er_method r of None \<Rightarrow> True | Some x \<Rightarrow> x = [] \<or> x = ''*'' \<or> map_option toUpperCase m = Some (toUpperCase x))
       \<and> matchPathPattern path (er_pathPattern r)) (rl_endpointRules s)"

definition getEntry :: "int \<Rightarrow> redis_luck \<Rightarrow> string \<Rightarrow> rate_limiter \<Rightarrow> (MemoryEntry \<times> int) option \<times> rate_limiter" where
  "getEntry now luck key s =
     (case map_get (rl_registry s) key of
        None \<Rightarrow> (None, s)
      | Some e \<Rightarrow>
          let (healthy, s1) = isRedisHealthy now (lk_ping luck) s;
              k = rl_keyPrefix s @ key;
              remaining = (case rl_redis s1 of
                Some db \<Rightarrow> if healthy \<and> lk_reply luck = Redis_ok then
                    (case en_strategy e of
                       SlidingWindow \<Rightarrow> max 0 (en_limit e - int (length (filter (\<lambda>(t, _). t \<ge> now - en_windowMs e) (or_else (redis_live now (map_get (db_windows db) k)) []))))
                     | TokenBucket \<Rightarrow> max 0 (case redis_live now (map_get (db_buckets db) k) of None \<Rightarrow> 0 | Some b \<Rightarrow> \<lfloor>bk_tokens b\<rfloor>))
                  else en_lastRemaining e
              | None \<Rightarrow> en_lastRemaining e)
          in (Some (e, remaining), s1))"

definition reset_limit :: "int \<Rightarrow> redis_luck \<Rightarrow> string \<Rightarrow> rate_limiter \<Rightarrow> rate_limiter" where
  "reset_limit now luck key s =
     (let (healthy, s1) = isRedisHealthy now (lk_ping luck) s;
          k = rl_keyPrefix s @ key;
          forget = (\<lambda>s. s\<lparr>rl_memoryBuckets := map_delete k (rl_memoryBuckets s), rl_memoryWindows := map_delete k (rl_memoryWindows s),
            rl_registry := map_delete key (rl_registry s)\<rparr>);
          drop = (\<lambda>db. db\<lparr>db_buckets := map_delete k (db_buckets db), db_windows := map_delete k (db_windows db)\<rparr>)
      in case rl_redis s1 of
           Some db \<Rightarrow>
             if healthy then
               (case lk_reply luck of
                  Redis_ok \<Rightarrow> s1\<lparr>rl_redis := Some (drop db), rl_registry := map_delete key (rl_registry s1)\<rparr>
                | Redis_fail \<Rightarrow> forget s1
                | Redis_lost \<Rightarrow> forget (s1\<lparr>rl_redis := Some (drop db)\<rparr>))
             else forget s1
         | None \<Rightarrow> forget s1)"

definition listEntries :: "nat \<Rightarrow> rate_limiter \<Rightarrow> (string \<times> MemoryEntry) list" where
  "listEntries n s = take n (rl_registry s)"

definition getStorageHealth :: "int \<Rightarrow> bool \<Rightarrow> rate_limiter \<Rightarrow> string \<times> rate_limiter" where
  "getStorageHealth now ping s = (let (healthy, s1) = isRedisHealthy now ping s in (if healthy then ''redis'' else ''memory'', s1))"

section \<open>Windows\<close>

text \<open>
  What a limiter over a sliding window promises.  \<open>live now s\<close> are the times it counts at \<open>now\<close>; a request
  carries an id.  The reference keeps every granted time and counts those inside the window.
\<close>

definition inside :: "int \<Rightarrow> int \<Rightarrow> int multiset \<Rightarrow> int multiset" where
  "inside window now g = filter_mset (\<lambda>t. t > now - window) g"

fun window_spec :: "int \<Rightarrow> int \<Rightarrow> int multiset \<Rightarrow> int list \<Rightarrow> bool list" where
  "window_spec limit window g [] = []"
| "window_spec limit window g (now # ts) =
     (let ok = int (size (inside window now g)) < limit in ok # window_spec limit window (if ok then add_mset now g else g) ts)"

definition window_bounded :: "int \<Rightarrow> int \<Rightarrow> int multiset \<Rightarrow> bool" where
  "window_bounded limit window g \<longleftrightarrow> (\<forall>t. int (size (filter_mset (\<lambda>u. u \<le> t) (inside window t g))) \<le> max 0 limit)"

locale window_store =
  fixes take_one :: "int \<Rightarrow> 'x \<Rightarrow> 's \<Rightarrow> bool \<times> 's"
    and live :: "int \<Rightarrow> 's \<Rightarrow> int multiset"
    and used :: "'s \<Rightarrow> 'x set"
    and ready :: "'s \<Rightarrow> bool"
    and limit window :: int
  assumes grant: "ready s \<Longrightarrow> fst (take_one now x s) \<longleftrightarrow> int (size (live now s)) < limit"
    and passes: "ready s \<Longrightarrow> now \<le> later \<Longrightarrow> live later s = inside window later (live now s)"
    and taken: "ready s \<Longrightarrow> x \<notin> used s \<Longrightarrow> (\<forall>t \<in># live now s. t \<le> now) \<Longrightarrow>
      live now (snd (take_one now x s)) = inside window now ((if fst (take_one now x s) then {#now#} else {#}) + live now s)"
    and used_after: "used (snd (take_one now x s)) \<subseteq> insert x (used s)"
    and ready_after: "ready s \<Longrightarrow> 0 \<le> now \<Longrightarrow> (\<forall>t \<in># live now s. t \<le> now) \<Longrightarrow> ready (snd (take_one now x s))"
begin

definition matches :: "int \<Rightarrow> 's \<Rightarrow> int multiset \<Rightarrow> bool" where
  "matches now s g \<longleftrightarrow> ready s \<and> live now s = inside window now g \<and> (\<forall>t \<in># g. t \<le> now)"

lemma inside_twice: "now \<le> later \<Longrightarrow> inside window later (inside window now g) = inside window later g"
  unfolding inside_def filter_filter_mset by (rule filter_mset_cong) auto

lemma matches_later: "matches now s g \<Longrightarrow> now \<le> later \<Longrightarrow> matches later s g"
  using passes by (fastforce simp: matches_def inside_twice)

lemma take_matches:
  assumes m: "matches now s g" and x: "x \<notin> used s" "0 \<le> now"
  shows "matches now (snd (take_one now x s)) (if fst (take_one now x s) then add_mset now g else g)"
proof -
  have r: "ready s" "live now s = inside window now g" "\<forall>t \<in># g. t \<le> now" using m by (auto simp: matches_def)
  then have past: "\<forall>t \<in># live now s. t \<le> now" by (simp add: inside_def)
  then have "ready (snd (take_one now x s))" using ready_after r x by simp
  then show ?thesis using r taken[OF r(1) x(1) past] inside_twice[of now now g] by (auto simp: matches_def inside_def)
qed

lemma take_bounded:
  assumes m: "matches now s g" and b: "window_bounded limit window g"
  shows "window_bounded limit window (if fst (take_one now x s) then add_mset now g else g)"
proof (cases "fst (take_one now x s)")
  case True
  then have few: "int (size (inside window now g)) < limit" using m grant by (simp add: matches_def)
  have "int (size (filter_mset (\<lambda>u. u \<le> t) (inside window t (add_mset now g)))) \<le> max 0 limit" for t
  proof (cases "now \<le> t \<and> t - window < now")
    case True
    have "inside window t g \<subseteq># inside window now g" unfolding inside_def using True by (intro mset_subset_eqI) auto
    then have "size (filter_mset (\<lambda>u. u \<le> t) (inside window t g)) \<le> size (inside window now g)"
      by (meson multiset_filter_subset size_mset_mono subset_mset.order_trans)
    then show ?thesis using few True by (simp add: inside_def)
  next
    case False
    then have "filter_mset (\<lambda>u. u \<le> t) (inside window t (add_mset now g)) = filter_mset (\<lambda>u. u \<le> t) (inside window t g)" by (auto simp: inside_def)
    then show ?thesis using b by (simp add: window_bounded_def)
  qed
  then show ?thesis using True by (simp add: window_bounded_def)
qed (use b in simp)

fun answers :: "(int \<times> 'x) list \<Rightarrow> 's \<Rightarrow> bool list" where
  "answers [] s = []"
| "answers ((now, x) # rs) s = fst (take_one now x s) # answers rs (snd (take_one now x s))"

lemma answers_spec:
  assumes "matches start s g" "sorted (start # map fst rs)" "0 \<le> start" "distinct (map snd rs)" "used s \<inter> set (map snd rs) = {}"
  shows "answers rs s = window_spec limit window g (map fst rs)"
  using assms
proof (induction rs arbitrary: start s g)
  case (Cons r rs)
  obtain now x where r: "r = (now, x)" by fastforce
  have m: "matches now s g" using Cons.prems(1,2) r by (auto intro: matches_later)
  have x: "x \<notin> used s" "0 \<le> now" using Cons.prems r by auto
  have ok: "fst (take_one now x s) \<longleftrightarrow> int (size (inside window now g)) < limit" using m grant by (simp add: matches_def)
  have "answers rs (snd (take_one now x s)) = window_spec limit window (if fst (take_one now x s) then add_mset now g else g) (map fst rs)"
  proof (rule Cons.IH[OF take_matches[OF m x]])
    show "used (snd (take_one now x s)) \<inter> set (map snd rs) = {}" using used_after[of now x s] Cons.prems(4,5) r by auto
  qed (use Cons.prems x r in auto)
  then show ?case using r ok by (simp add: Let_def)
qed simp

end

subsection \<open>The two stores of a window\<close>

definition memory_take :: "RateLimitPolicy \<Rightarrow> int \<Rightarrow> string \<Rightarrow> int list \<Rightarrow> bool \<times> int list" where
  "memory_take p now x stored = map_prod rd_allowed id (consumeMemorySlidingWindow p now stored)"

definition redis_take :: "RateLimitPolicy \<Rightarrow> int \<Rightarrow> string \<Rightarrow> zset redis_key option \<Rightarrow> bool \<times> zset redis_key option" where
  "redis_take p now x key = map_prod fst id (SLIDING_WINDOW_LUA (pl_limit p) (pl_windowMs p) now x key)"

abbreviation memory_live :: "RateLimitPolicy \<Rightarrow> int \<Rightarrow> int list \<Rightarrow> int multiset" where
  "memory_live p now stored \<equiv> inside (pl_windowMs p) now (mset stored)"

definition redis_times :: "RateLimitPolicy \<Rightarrow> int \<Rightarrow> zset redis_key option \<Rightarrow> int multiset" where
  "redis_times p now key = inside (pl_windowMs p) now (mset (map fst (or_else (redis_live now key) [])))"

definition members :: "zset redis_key option \<Rightarrow> string set" where
  "members key = (case key of None \<Rightarrow> {} | Some k \<Rightarrow> snd ` set (rk_value k))"

text \<open>No score is negative, and the key outlives the window of each of its members.\<close>

definition key_ready :: "RateLimitPolicy \<Rightarrow> zset redis_key option \<Rightarrow> bool" where
  "key_ready p key = (case key of None \<Rightarrow> True | Some k \<Rightarrow> \<forall>(t, _) \<in> set (rk_value k). 0 \<le> t \<and> t + pl_windowMs p \<le> rk_until k)"

lemma inside_again: "now \<le> later \<Longrightarrow> inside w later (inside w now g) = inside w later g"
  unfolding inside_def filter_filter_mset by (rule filter_mset_cong) auto

lemma size_inside_mset: "size (inside w now (mset xs)) = length (filter (\<lambda>t. t > now - w) xs)"
  unfolding inside_def by (simp flip: mset_filter)

interpretation mw: window_store "memory_take p" "memory_live p" "\<lambda>_. {}" "\<lambda>_. True" "pl_limit p" "pl_windowMs p" for p
proof unfold_locales
  fix s now and x :: string
  show "fst (memory_take p now x s) = (int (size (memory_live p now s)) < pl_limit p)"
    by (simp add: memory_take_def consumeMemorySlidingWindow_def Let_def size_inside_mset)
  show "memory_live p now (snd (memory_take p now x s)) =
      inside (pl_windowMs p) now ((if fst (memory_take p now x s) then {#now#} else {#}) + memory_live p now s)"
    by (simp add: memory_take_def consumeMemorySlidingWindow_def Let_def inside_def)
qed (simp_all add: inside_again)

text \<open>What the script sees in a ready key: the times inside the window.\<close>

definition seen :: "RateLimitPolicy \<Rightarrow> int \<Rightarrow> zset redis_key option \<Rightarrow> zset" where
  "seen p now key = filter (\<lambda>(s, _). \<not> (0 \<le> s \<and> s \<le> now - pl_windowMs p)) (or_else (redis_live now key) [])"

lemma redis_take_seen:
  "redis_take p now x key =
     (if int (length (seen p now key)) < pl_limit p
      then (True, Some \<lparr>rk_value = zadd now x (seen p now key), rk_until = now + pl_windowMs p\<rparr>)
      else (False, if seen p now key = [] then None else map_option (\<lambda>k. k\<lparr>rk_value := seen p now key\<rparr>) key))"
  by (simp add: redis_take_def SLIDING_WINDOW_LUA_def seen_def Let_def)

lemma trimmed_times:
  "\<forall>(t, _) \<in> set z. 0 \<le> t \<Longrightarrow> mset (map fst (filter (\<lambda>(s, _). \<not> (0 \<le> s \<and> s \<le> now - w)) z)) = inside w now (mset (map fst z))"
  by (induction z) (auto simp: inside_def)

lemma seen_times: "key_ready p key \<Longrightarrow> mset (map fst (seen p now key)) = redis_times p now key"
  unfolding seen_def redis_times_def
  by (rule trimmed_times) (auto simp: redis_live_def key_ready_def split: option.splits)

lemma seen_members: "snd ` set (seen p now key) \<subseteq> members key"
  by (auto simp: seen_def members_def redis_live_def split: option.splits if_splits)

lemma seen_ready: "key_ready p (Some k) \<Longrightarrow> (t, m) \<in> set (seen p now (Some k)) \<Longrightarrow> 0 \<le> t \<and> t + pl_windowMs p \<le> rk_until k"
  by (auto simp: seen_def key_ready_def redis_live_def split: if_splits)

lemma set_zadd: "set (zadd t x z) = insert (t, x) {e \<in> set z. snd e \<noteq> x}"
  by (auto simp: zadd_def set_insort_key)

lemma mset_zadd: "x \<notin> snd ` set z \<Longrightarrow> mset (zadd t x z) = add_mset (t, x) (mset z)"
  unfolding zadd_def by (subst filter_True) force+

lemma redis_times_later:
  assumes "key_ready p key" "now \<le> later"
  shows "redis_times p later key = inside (pl_windowMs p) later (redis_times p now key)"
proof (cases key)
  case None
  then show ?thesis by (simp add: redis_times_def redis_live_def inside_def)
next
  case (Some k)
  have gone: "inside (pl_windowMs p) later (mset (map fst (rk_value k))) = {#}" if "later > rk_until k"
    using assms(1) Some that by (fastforce simp: inside_def key_ready_def)
  show ?thesis using Some assms(2) gone
    by (auto simp: redis_times_def redis_live_def inside_again) (auto simp: inside_def)
qed

text \<open>After a step the key is gone, or it holds what was seen, with the new member when the request was allowed.\<close>

lemma redis_take_cases:
  obtains (allowed) k where "fst (redis_take p now x s)" "snd (redis_take p now x s) = Some k"
      "rk_value k = zadd now x (seen p now s)" "rk_until k = now + pl_windowMs p"
    | (denied_empty) "\<not> fst (redis_take p now x s)" "snd (redis_take p now x s) = None" "seen p now s = []"
    | (denied) k k' where "\<not> fst (redis_take p now x s)" "s = Some k" "snd (redis_take p now x s) = Some k'"
      "rk_value k' = seen p now s" "rk_until k' = rk_until k" "\<not> now > rk_until k"
proof (cases "int (length (seen p now s)) < pl_limit p")
  case True
  then show ?thesis by (intro that(1)) (auto simp: redis_take_seen)
next
  case False
  show ?thesis
  proof (cases "seen p now s")
    case Nil
    then show ?thesis using False by (intro that(2)) (auto simp: redis_take_seen)
  next
    case (Cons e z)
    then obtain k where "s = Some k" "\<not> now > rk_until k" by (auto simp: seen_def redis_live_def split: option.splits if_splits)
    then show ?thesis using False Cons by (intro that(3)[of k "k\<lparr>rk_value := seen p now s\<rparr>"]) (auto simp: redis_take_seen)
  qed
qed

lemma redis_take_members: "members (snd (redis_take p now x s)) \<subseteq> insert x (members s)"
  using seen_members[of p now s] by (cases rule: redis_take_cases[of p now x s]) (auto simp: members_def set_zadd)

lemma seen_past:
  assumes "key_ready p s" "\<forall>t \<in># redis_times p now s. t \<le> now" "(t, m) \<in> set (seen p now s)"
  shows "0 \<le> t" "t \<le> now"
proof -
  show "0 \<le> t"
  proof (cases s)
    case None
    then show ?thesis using assms(3) by (simp add: seen_def redis_live_def)
  next
    case (Some k)
    then show ?thesis using seen_ready assms(1,3) by blast
  qed
  have "t \<in># mset (map fst (seen p now s))" using assms(3) by force
  then have "t \<in># redis_times p now s" unfolding seen_times[OF assms(1)] .
  then show "t \<le> now" using assms(2) by blast
qed

lemma redis_take_ready:
  assumes "key_ready p s" "0 \<le> now" "\<forall>t \<in># redis_times p now s. t \<le> now"
  shows "key_ready p (snd (redis_take p now x s))"
proof (cases rule: redis_take_cases[of p now x s])
  case (allowed k)
  then show ?thesis using seen_past[OF assms(1,3)] assms(2) by (auto simp: key_ready_def set_zadd)
next
  case (denied k k')
  then show ?thesis using seen_ready[of p k _ _ now] assms(1) by (fastforce simp: key_ready_def)
qed (simp add: key_ready_def)

lemma redis_take_times:
  assumes r: "key_ready p s" and x: "x \<notin> members s" and past: "\<forall>t \<in># redis_times p now s. t \<le> now"
  shows "redis_times p now (snd (redis_take p now x s)) =
    inside (pl_windowMs p) now ((if fst (redis_take p now x s) then {#now#} else {#}) + redis_times p now s)"
proof (cases rule: redis_take_cases[of p now x s])
  case (allowed k)
  have "x \<notin> snd ` set (seen p now s)" using x seen_members by blast
  then have m: "mset (map fst (rk_value k)) = add_mset now (redis_times p now s)"
    using allowed(3) by (simp add: mset_zadd flip: seen_times[OF r])
  show ?thesis
  proof (cases "pl_windowMs p < 0")
    case True
    then have "inside (pl_windowMs p) now (add_mset now (redis_times p now s)) = {#}" using past by (fastforce simp: inside_def)
    then show ?thesis using allowed True by (simp add: redis_times_def[of p now "Some k"] redis_live_def) (simp add: inside_def)
  next
    case False
    then show ?thesis using allowed m by (simp add: redis_times_def redis_live_def)
  qed
next
  case denied_empty
  then show ?thesis using seen_times[OF r, of now] by (simp add: redis_times_def[of p now None] redis_live_def inside_def)
next
  case (denied k k')
  then show ?thesis using seen_times[OF r, of now] by (simp add: redis_times_def[of p now "Some k'"] redis_live_def)
qed

interpretation rw: window_store "redis_take p" "redis_times p" members "key_ready p" "pl_limit p" "pl_windowMs p" for p
proof unfold_locales
  fix s now x
  show "key_ready p s \<Longrightarrow> fst (redis_take p now x s) = (int (size (redis_times p now s)) < pl_limit p)"
    by (simp add: redis_take_seen flip: seen_times)
qed (simp_all add: redis_times_later redis_take_members redis_take_ready redis_take_times)

section \<open>Traffic\<close>

text \<open>A request to the service and what Redis does in it; \<open>serve\<close> pairs the requests of a run with their decisions.\<close>

record rl_request =
  rq_now :: int
  rq_luck :: redis_luck
  rq_id :: string
  rq_key :: string
  rq_policy :: partial_policy
  rq_tracker :: "string option"
  rq_scope :: "string option"
  rq_tier :: "string option"

abbreviation consume_request :: "rl_request \<Rightarrow> rate_limiter \<Rightarrow> RateLimitDecision \<times> rate_limiter" where
  "consume_request r s \<equiv> consume (rq_now r) (rq_luck r) (rq_id r) (rq_key r) (rq_policy r) (rq_tracker r) (rq_scope r) (rq_tier r) s"

fun serve :: "rl_request list \<Rightarrow> rate_limiter \<Rightarrow> (rl_request \<times> RateLimitDecision) list" where
  "serve [] s = []"
| "serve (r # rs) s = (r, fst (consume_request r s)) # serve rs (snd (consume_request r s))"

definition granted :: "string \<Rightarrow> (rl_request \<times> RateLimitDecision) list \<Rightarrow> int list" where
  "granted key out = map (rq_now \<circ> fst) (filter (\<lambda>(r, d). rq_key r = key \<and> rd_allowed d) out)"

text \<open>The two stores of one key.\<close>

definition windows_of :: "rate_limiter \<Rightarrow> string \<Rightarrow> int list \<times> zset redis_key option" where
  "windows_of s k = (or_else (map_get (rl_memoryWindows s) k) [], case rl_redis s of None \<Rightarrow> None | Some db \<Rightarrow> map_get (db_windows db) k)"

definition policy_of :: "rate_limiter \<Rightarrow> rl_request \<Rightarrow> RateLimitPolicy" where
  "policy_of s r = resolve_policy (rl_defaultStrategy s) (rq_policy r)"

lemma windows_of_registry [simp]: "windows_of (updateRegistry key tracker scope tier p d s) k = windows_of s k"
  by (simp add: windows_of_def updateRegistry_def Let_def)

lemma isRedisHealthy_keeps:
  "windows_of (snd (isRedisHealthy now ping s)) k = windows_of s k"
  "rl_redis (snd (isRedisHealthy now ping s)) = rl_redis s"
  "rl_memoryBuckets (snd (isRedisHealthy now ping s)) = rl_memoryBuckets s"
  "rl_keyPrefix (snd (isRedisHealthy now ping s)) = rl_keyPrefix s"
  "rl_defaultStrategy (snd (isRedisHealthy now ping s)) = rl_defaultStrategy s"
  by (auto simp: isRedisHealthy_def windows_of_def split: option.splits)

lemma consumeMemory_keeps:
  "rl_redis (snd (consumeMemory now key p s)) = rl_redis s"
  "rl_keyPrefix (snd (consumeMemory now key p s)) = rl_keyPrefix s"
  "rl_defaultStrategy (snd (consumeMemory now key p s)) = rl_defaultStrategy s"
  by (auto simp: consumeMemory_def split: RateLimitStrategy.splits prod.splits)

lemma consumeMemory_window:
  assumes "pl_strategy p = SlidingWindow"
  shows "rd_allowed (fst (consumeMemory now key p s)) = fst (memory_take p now x (fst (windows_of s key)))"
    "windows_of (snd (consumeMemory now key p s)) key = (snd (memory_take p now x (fst (windows_of s key))), snd (windows_of s key))"
  using assms by (auto simp: consumeMemory_def windows_of_def memory_take_def map_get_set split: prod.splits)

lemma consumeMemory_other: "k \<noteq> key \<Longrightarrow> windows_of (snd (consumeMemory now key p s)) k = windows_of s k"
  by (auto simp: consumeMemory_def windows_of_def map_get_set split: RateLimitStrategy.splits prod.splits)

lemma redis_script_window:
  assumes "pl_strategy p = SlidingWindow"
  shows "fst (fst (redis_script now x key p db)) = fst (redis_take p now x (map_get (db_windows db) key))"
    "map_get (db_windows (snd (redis_script now x key p db))) key = snd (redis_take p now x (map_get (db_windows db) key))"
  using assms by (auto simp: redis_script_def redis_take_def js_simps split: prod.splits option.splits)

lemma redis_script_other: "k \<noteq> key \<Longrightarrow> map_get (db_windows (snd (redis_script now x key p db))) k = map_get (db_windows db) k"
  by (auto simp: redis_script_def js_simps split: RateLimitStrategy.splits prod.splits option.splits)

text \<open>A request is settled by one of the stores, or by memory after the script ran unseen.\<close>

lemma consume_cases:
  fixes s r
  defines "p \<equiv> policy_of s r" and "k \<equiv> rl_keyPrefix s @ rq_key r"
  obtains (memory) s0 where "\<And>k'. windows_of s0 k' = windows_of s k'"
      "fst (consume_request r s) = fst (consumeMemory (rq_now r) k p s0)"
      "\<And>k'. windows_of (snd (consume_request r s)) k' = windows_of (snd (consumeMemory (rq_now r) k p s0)) k'"
    | (redis) db where "rl_redis s = Some db"
      "fst (consume_request r s) = redis_decision (rq_now r) p (fst (redis_script (rq_now r) (rq_id r) k p db))"
      "\<And>k'. windows_of (snd (consume_request r s)) k' = (fst (windows_of s k'), map_get (db_windows (snd (redis_script (rq_now r) (rq_id r) k p db))) k')"
    | (lost) db s0 where "rl_redis s = Some db"
      "\<And>k'. windows_of s0 k' = (fst (windows_of s k'), map_get (db_windows (snd (redis_script (rq_now r) (rq_id r) k p db))) k')"
      "fst (consume_request r s) = fst (consumeMemory (rq_now r) k p s0)"
      "\<And>k'. windows_of (snd (consume_request r s)) k' = windows_of (snd (consumeMemory (rq_now r) k p s0)) k'"
proof -
  obtain healthy s1 where h: "isRedisHealthy (rq_now r) (lk_ping (rq_luck r)) s = (healthy, s1)" by fastforce
  note kept = isRedisHealthy_keeps[of "rq_now r" "lk_ping (rq_luck r)" s, unfolded h snd_conv]
  let ?R = "\<lambda>db. consumeRedis (rq_now r) (lk_reply (rq_luck r)) (rq_id r) k p db s1"
  let ?settled = "case rl_redis s1 of Some db \<Rightarrow> if healthy then ?R db else consumeMemory (rq_now r) k p s1 | None \<Rightarrow> consumeMemory (rq_now r) k p s1"
  have out: "fst (consume_request r s) = fst ?settled" "windows_of (snd (consume_request r s)) k' = windows_of (snd ?settled) k'" for k'
    unfolding consume_def Let_def h prod.case p_def k_def policy_of_def by (simp_all add: case_prod_beta)
  show ?thesis
  proof (cases "rl_redis s")
    case None
    then show ?thesis using out kept by (intro memory[of s1]) simp_all
  next
    case (Some db)
    have ok: "windows_of (s1\<lparr>rl_redis := Some db'\<rparr>) k' = (fst (windows_of s k'), map_get (db_windows db') k')" for db' k'
      using kept(1)[of k'] by (simp add: windows_of_def)
    obtain res db1 where scr: "redis_script (rq_now r) (rq_id r) k p db = (res, db1)" by fastforce
    show ?thesis
    proof (cases "healthy \<and> lk_reply (rq_luck r) \<noteq> Redis_fail")
      case True
      show ?thesis
      proof (cases "lk_reply (rq_luck r) = Redis_ok")
        case reply: True
        show ?thesis using Some True reply out kept scr ok[of db1] by (intro redis[of db]) (simp_all add: consumeRedis_def)
      next
        case False
        then have reply: "lk_reply (rq_luck r) = Redis_lost" using True by (cases "lk_reply (rq_luck r)") auto
        show ?thesis using Some True reply out kept scr ok[of db1] by (intro lost[of db "s1\<lparr>rl_redis := Some db1\<rparr>"]) (simp_all add: consumeRedis_def)
      qed
    next
      case False
      then have "?settled = consumeMemory (rq_now r) k p s1" using Some kept scr by (auto simp: consumeRedis_def)
      then show ?thesis using out kept by (intro memory[of s1]) simp_all
    qed
  qed
qed

lemma consumeRedis_keeps:
  "rl_keyPrefix (snd (consumeRedis now reply x key p db s)) = rl_keyPrefix s"
  "rl_defaultStrategy (snd (consumeRedis now reply x key p db s)) = rl_defaultStrategy s"
  by (cases reply; simp add: consumeRedis_def case_prod_beta consumeMemory_keeps)+

lemma consume_keeps:
  "rl_keyPrefix (snd (consume now luck x key policy tracker scope tier s)) = rl_keyPrefix s"
  "rl_defaultStrategy (snd (consume now luck x key policy tracker scope tier s)) = rl_defaultStrategy s"
  "rl_redis s = None \<Longrightarrow> rl_redis (snd (consume now luck x key policy tracker scope tier s)) = None"
  by (cases "rl_redis s"; simp add: consume_def Let_def case_prod_beta updateRegistry_def consumeMemory_keeps consumeRedis_keeps isRedisHealthy_keeps)+

lemma consume_other:
  assumes "k \<noteq> rl_keyPrefix s @ rq_key r"
  shows "windows_of (snd (consume_request r s)) k = windows_of s k"
proof (cases rule: consume_cases[of s r])
  case (redis db)
  then show ?thesis using assms by (simp add: redis_script_other) (simp add: windows_of_def)
next
  case (lost db s0)
  then show ?thesis using assms by (simp add: redis_script_other consumeMemory_other) (simp add: windows_of_def)
qed (use assms in \<open>simp add: consumeMemory_other\<close>)

lemma consume_window:
  fixes s r
  defines "k \<equiv> rl_keyPrefix s @ rq_key r"
  defines "M \<equiv> memory_take (policy_of s r) (rq_now r) (rq_id r) (fst (windows_of s k))"
    and "R \<equiv> redis_take (policy_of s r) (rq_now r) (rq_id r) (snd (windows_of s k))"
  assumes w: "pl_strategy (policy_of s r) = SlidingWindow"
  obtains (memory) "rd_allowed (fst (consume_request r s)) = fst M" "windows_of (snd (consume_request r s)) k = (snd M, snd (windows_of s k))"
    | (redis) "rl_redis s \<noteq> None" "rd_allowed (fst (consume_request r s)) = fst R" "windows_of (snd (consume_request r s)) k = (fst (windows_of s k), snd R)"
    | (lost) "rl_redis s \<noteq> None" "rd_allowed (fst (consume_request r s)) = fst M" "windows_of (snd (consume_request r s)) k = (snd M, snd R)"
proof (cases rule: consume_cases[of s r])
  case (memory s0)
  then show ?thesis using consumeMemory_window[OF w, of "rq_now r" k s0 "rq_id r"] by (intro that(1)) (simp_all add: M_def k_def)
next
  case (redis db)
  then show ?thesis using redis_script_window[OF w, of "rq_now r" "rq_id r" k db]
    by (intro that(2)) (simp_all add: R_def k_def windows_of_def redis_decision_def split: prod.splits)
next
  case (lost db s0)
  then show ?thesis using consumeMemory_window[OF w, of "rq_now r" k s0 "rq_id r"] redis_script_window[OF w, of "rq_now r" "rq_id r" k db]
    by (intro that(3)) (simp_all add: M_def R_def k_def windows_of_def[of s])
qed

text \<open>Ghost histories of the two stores: every time they granted, which keeps to the limit in every window.\<close>

definition tracks :: "RateLimitPolicy \<Rightarrow> int \<Rightarrow> int multiset \<Rightarrow> int multiset \<Rightarrow> int list \<times> zset redis_key option \<Rightarrow> bool" where
  "tracks p now gm gr mr \<longleftrightarrow> mw.matches p now (fst mr) gm \<and> rw.matches p now (snd mr) gr \<and>
     window_bounded (pl_limit p) (pl_windowMs p) gm \<and> window_bounded (pl_limit p) (pl_windowMs p) gr"

lemma tracks_later: "tracks p now gm gr mr \<Longrightarrow> now \<le> later \<Longrightarrow> tracks p later gm gr mr"
  unfolding tracks_def using mw.matches_later rw.matches_later by blast

lemma tracks_fresh: "tracks p now {#} {#} ([], None)"
  unfolding tracks_def mw.matches_def rw.matches_def
  by (simp add: window_bounded_def inside_def key_ready_def redis_times_def redis_live_def)

lemma consume_tracks:
  fixes s r
  defines "k \<equiv> rl_keyPrefix s @ rq_key r"
  assumes w: "pl_strategy (policy_of s r) = SlidingWindow" and n: "0 \<le> rq_now r"
    and t: "tracks (policy_of s r) (rq_now r) gm gr (windows_of s k)" and x: "rq_id r \<notin> members (snd (windows_of s k))"
  obtains gm' gr' where "tracks (policy_of s r) (rq_now r) gm' gr' (windows_of (snd (consume_request r s)) k)"
    "(if rd_allowed (fst (consume_request r s)) then {#rq_now r#} else {#}) + gm + gr \<subseteq># gm' + gr'"
    "rl_redis s = None \<Longrightarrow> gr' = gr"
proof -
  let ?p = "policy_of s r" and ?m = "fst (windows_of s k)" and ?r = "snd (windows_of s k)"
  let ?M = "memory_take ?p (rq_now r) (rq_id r) ?m" and ?R = "redis_take ?p (rq_now r) (rq_id r) ?r"
  define gm1 where "gm1 = (if fst ?M then add_mset (rq_now r) gm else gm)"
  define gr1 where "gr1 = (if fst ?R then add_mset (rq_now r) gr else gr)"
  have m: "tracks ?p (rq_now r) gm1 gr' (snd ?M, b)" if "tracks ?p (rq_now r) gm gr' (?m, b)" for gr' b
    using that n mw.take_matches[of ?p "rq_now r" ?m gm "rq_id r", folded gm1_def] mw.take_bounded[of ?p "rq_now r" ?m gm "rq_id r", folded gm1_def]
    unfolding tracks_def by simp
  have rd: "tracks ?p (rq_now r) gm' gr1 (a, snd ?R)" if "tracks ?p (rq_now r) gm' gr (a, ?r)" for gm' a
    using that n x rw.take_matches[of ?p "rq_now r" ?r gr "rq_id r", folded gr1_def] rw.take_bounded[of ?p "rq_now r" ?r gr "rq_id r", folded gr1_def]
    unfolding tracks_def by simp
  have t': "tracks ?p (rq_now r) gm gr (?m, ?r)" using t by simp
  show ?thesis
    using w
  proof (cases rule: consume_window[of s r])
    case memory
    then show ?thesis using m[OF t'] by (intro that[of gm1 gr]) (auto simp: gm1_def k_def)
  next
    case redis
    then show ?thesis using rd[OF t'] by (intro that[of gm gr1]) (auto simp: gr1_def k_def)
  next
    case lost
    then show ?thesis using m[OF rd[OF t']]
      by (intro that[of gm1 gr1]) (auto simp: gm1_def gr1_def k_def subset_mset.add_increasing2)
  qed
qed

lemma granted_Cons: "mset (granted key ((r, d) # out)) = (if rq_key r = key \<and> rd_allowed d then {#rq_now r#} else {#}) + mset (granted key out)"
  by (simp add: granted_def)

text \<open>The requests of one key, with one sliding window, a clock that never goes back and ids that are not used twice.\<close>

definition window_traffic :: "RateLimitPolicy \<Rightarrow> string \<Rightarrow> rate_limiter \<Rightarrow> rl_request list \<Rightarrow> bool" where
  "window_traffic p key s rs \<longleftrightarrow> sorted (map rq_now rs) \<and> (\<forall>r \<in> set rs. 0 \<le> rq_now r) \<and>
     pl_strategy p = SlidingWindow \<and> (\<forall>r \<in> set rs. rq_key r = key \<longrightarrow> policy_of s r = p) \<and>
     distinct (map rq_id (filter (\<lambda>r. rq_key r = key) rs))"

lemma consume_members:
  assumes "rq_key r = key \<longrightarrow> pl_strategy (policy_of s r) = SlidingWindow"
  shows "members (snd (windows_of (snd (consume_request r s)) (rl_keyPrefix s @ key)))
    \<subseteq> (if rq_key r = key then {rq_id r} else {}) \<union> members (snd (windows_of s (rl_keyPrefix s @ key)))"
proof (cases "rq_key r = key")
  case True
  then have "pl_strategy (policy_of s r) = SlidingWindow" using assms by simp
  then show ?thesis
    using redis_take_members[of "policy_of s r" "rq_now r" "rq_id r" "snd (windows_of s (rl_keyPrefix s @ key))"]
    by (cases rule: consume_window[of s r]) (use True in auto)
next
  case False
  then show ?thesis by (simp add: consume_other)
qed

text \<open>The ids of later requests stay unused.\<close>

lemma ids_stay_unused:
  assumes "window_traffic p key a (r # rs)" "policy_of a r = policy_of s r"
    "\<forall>q \<in> set (r # rs). rq_key q = key \<longrightarrow> rq_id q \<notin> members (snd (windows_of s (rl_keyPrefix s @ key)))"
  defines "s' \<equiv> snd (consume_request r s)"
  shows "\<forall>q \<in> set rs. rq_key q = key \<longrightarrow> rq_id q \<notin> members (snd (windows_of s' (rl_keyPrefix s' @ key)))"
proof (intro ballI impI)
  fix q assume q: "q \<in> set rs" "rq_key q = key"
  have "rq_id q \<noteq> rq_id r" if "rq_key r = key"
  proof -
    have "rq_id q \<in> rq_id ` {x \<in> set rs. rq_key x = key}" using q by blast
    moreover have "rq_id r \<notin> rq_id ` {x \<in> set rs. rq_key x = key}" using assms(1) that by (simp add: window_traffic_def)
    ultimately show ?thesis by metis
  qed
  moreover have "rq_key r = key \<longrightarrow> pl_strategy (policy_of s r) = SlidingWindow" using assms(1,2) by (auto simp: window_traffic_def)
  ultimately show "rq_id q \<notin> members (snd (windows_of s' (rl_keyPrefix s' @ key)))"
    using q assms(3) consume_members[of r key s] unfolding s'_def consume_keeps(1) by (auto split: if_splits)
qed

lemma serve_tracks:
  assumes "window_traffic p key s rs" "tracks p start gm gr (windows_of s (rl_keyPrefix s @ key))" "\<forall>r \<in> set rs. start \<le> rq_now r"
    "\<forall>r \<in> set rs. rq_key r = key \<longrightarrow> rq_id r \<notin> members (snd (windows_of s (rl_keyPrefix s @ key)))"
  obtains gm' gr' where "window_bounded (pl_limit p) (pl_windowMs p) gm'" "window_bounded (pl_limit p) (pl_windowMs p) gr'"
    "mset (granted key (serve rs s)) + gm + gr \<subseteq># gm' + gr'" "rl_redis s = None \<Longrightarrow> gr' = gr"
  using assms
proof (induction rs arbitrary: s start gm gr thesis)
  case Nil
  show ?case using Nil.prems(1)[of gm gr] Nil.prems(3) by (simp add: tracks_def granted_def)
next
  case (Cons r rs)
  let ?k = "rl_keyPrefix s @ key" and ?s' = "snd (consume_request r s)" and ?d = "fst (consume_request r s)"
  note traffic = Cons.prems(2) and fresh = Cons.prems(5)
  have keep: "rl_keyPrefix ?s' = rl_keyPrefix s" "policy_of ?s' q = policy_of s q" for q by (simp_all add: consume_keeps policy_of_def)
  have rest: "window_traffic p key ?s' rs" "\<forall>q \<in> set rs. rq_now r \<le> rq_now q" using traffic keep by (auto simp: window_traffic_def split: if_splits)
  have t: "tracks p (rq_now r) gm gr (windows_of s ?k)" using Cons.prems(3,4) by (auto intro: tracks_later)
  note unused = ids_stay_unused[OF traffic refl fresh]
  show ?case
  proof (cases "rq_key r = key")
    case True
    have p: "policy_of s r = p" "pl_strategy (policy_of s r) = SlidingWindow" "0 \<le> rq_now r" using traffic True by (auto simp: window_traffic_def)
    obtain gm1 gr1 where one: "tracks p (rq_now r) gm1 gr1 (windows_of ?s' ?k)" "(if rd_allowed ?d then {#rq_now r#} else {#}) + gm + gr \<subseteq># gm1 + gr1"
        "rl_redis s = None \<Longrightarrow> gr1 = gr"
      using consume_tracks[OF p(2,3), of gm gr] t fresh True p(1) by auto
    obtain gm2 gr2 where two: "window_bounded (pl_limit p) (pl_windowMs p) gm2" "window_bounded (pl_limit p) (pl_windowMs p) gr2"
        "mset (granted key (serve rs ?s')) + gm1 + gr1 \<subseteq># gm2 + gr2" "rl_redis ?s' = None \<Longrightarrow> gr2 = gr1"
      using Cons.IH[OF _ rest(1) one(1)[folded keep(1)] rest(2) unused] by blast
    have "mset (granted key (serve (r # rs) s)) + gm + gr = mset (granted key (serve rs ?s')) + ((if rd_allowed ?d then {#rq_now r#} else {#}) + gm + gr)"
      using True by (simp add: granted_Cons)
    also have "\<dots> \<subseteq># mset (granted key (serve rs ?s')) + (gm1 + gr1)" by (rule subset_mset.add_left_mono[OF one(2)])
    also have "\<dots> \<subseteq># gm2 + gr2" using two(3) by (simp add: add.assoc)
    finally have "mset (granted key (serve (r # rs) s)) + gm + gr \<subseteq># gm2 + gr2" .
    moreover have "rl_redis s = None \<Longrightarrow> gr2 = gr" using two(4) one(3) by (simp add: consume_keeps(3))
    ultimately show ?thesis by (rule Cons.prems(1)[OF two(1,2)])
  next
    case False
    then have same: "windows_of ?s' ?k = windows_of s ?k" by (intro consume_other) simp
    have kept: "tracks p (rq_now r) gm gr (windows_of ?s' (rl_keyPrefix ?s' @ key))" using t unfolding keep(1) same .
    have "granted key (serve (r # rs) s) = granted key (serve rs ?s')" using False by (simp add: granted_def)
    then show ?thesis using Cons.IH[OF _ rest(1) kept rest(2) unused] Cons.prems(1) consume_keeps(3) by (metis (lifting))
  qed
qed

text \<open>C11. A sliding window holds: of the requests of a key, with any other traffic between them, at most \<open>limit\<close> are allowed in
  any window when there is no Redis, and at most twice as many whatever Redis does, for each of the two stores keeps to
  the limit by itself.\<close>

theorem window_limit_respected:
  assumes traffic: "window_traffic p key s rs" and fresh: "windows_of s (rl_keyPrefix s @ key) = ([], None)"
  shows "int (length (filter (\<lambda>u. t - pl_windowMs p < u \<and> u \<le> t) (granted key (serve rs s))))
    \<le> (if rl_redis s = None then 1 else 2) * max 0 (pl_limit p)"
proof -
  let ?in = "\<lambda>u. t - pl_windowMs p < u \<and> u \<le> t"
  obtain gm gr where g: "window_bounded (pl_limit p) (pl_windowMs p) gm" "window_bounded (pl_limit p) (pl_windowMs p) gr"
      "mset (granted key (serve rs s)) \<subseteq># gm + gr" "rl_redis s = None \<Longrightarrow> gr = {#}"
    using serve_tracks[OF traffic tracks_fresh[of p 0, folded fresh]] traffic fresh by (auto simp: window_traffic_def members_def)
  have each: "int (size (filter_mset ?in h)) \<le> max 0 (pl_limit p)" if "window_bounded (pl_limit p) (pl_windowMs p) h" for h
    using that by (simp add: window_bounded_def inside_def filter_filter_mset conj_commute)
  have "length (filter ?in (granted key (serve rs s))) \<le> size (filter_mset ?in gm) + size (filter_mset ?in gr)"
    using size_mset_mono[OF multiset_filter_mono[OF g(3), of ?in]] by (simp flip: mset_filter)
  then show ?thesis using each[OF g(1)] each[OF g(2)] g(4) by (cases "rl_redis s = None") auto
qed

abbreviation sample_limiter :: "redis_store option \<Rightarrow> rate_limiter" where
  "sample_limiter db \<equiv> \<lparr>rl_redis = db, rl_keyPrefix = ''rl:'', rl_defaultStrategy = TokenBucket, rl_memoryBuckets = [], rl_memoryWindows = [],
     rl_registry = [], rl_memoryWhitelist = [], rl_memoryBlacklist = [], rl_memoryViolations = [], rl_endpointRules = [], rl_lastRedisCheck = 0, rl_redisHealthy = False\<rparr>"

abbreviation sample_db :: redis_store where
  "sample_db \<equiv> \<lparr>db_buckets = [], db_windows = [], db_whitelist = [], db_blacklist = [], db_violations = []\<rparr>"

definition sample_request :: "RateLimitStrategy \<Rightarrow> int \<Rightarrow> int \<Rightarrow> int \<Rightarrow> redis_reply \<Rightarrow> string \<Rightarrow> string \<Rightarrow> rl_request" where
  "sample_request strategy limit window now reply x key =
     \<lparr>rq_now = now, rq_luck = \<lparr>lk_ping = True, lk_reply = reply\<rparr>, rq_id = x, rq_key = key,
      rq_policy = \<lparr>pp_limit = Some limit, pp_windowMs = Some window, pp_burst = None, pp_strategy = Some strategy\<rparr>,
      rq_tracker = None, rq_scope = None, rq_tier = None\<rparr>"

text \<open>Both stores full: Redis grants two requests, fails for the next two, which memory grants, and both refuse the last ones.\<close>

definition sample_traffic :: "rl_request list" where
  "sample_traffic = map (\<lambda>(now, reply, x, key). sample_request SlidingWindow 2 1000 now reply x key)
     [(9000, Redis_ok, ''a'', ''u1''), (9001, Redis_ok, ''b'', ''u1''), (9002, Redis_fail, ''c'', ''u1''), (9002, Redis_ok, ''a'', ''u2''),
      (9003, Redis_lost, ''d'', ''u1''), (9004, Redis_ok, ''e'', ''u1''), (9005, Redis_fail, ''f'', ''u1'')]"

theorem window_limit_respected_witness:
  "granted ''u1'' (serve sample_traffic (sample_limiter (Some sample_db))) = [9000, 9001, 9002, 9003]
   \<and> int (length (filter (\<lambda>u. 9005 - 1000 < u \<and> u \<le> 9005) (granted ''u1'' (serve sample_traffic (sample_limiter (Some sample_db)))))) \<le> 4"
proof
  let ?p = "\<lparr>pl_limit = 2, pl_windowMs = 1000, pl_burst = 2, pl_strategy = SlidingWindow\<rparr>"
  show "granted ''u1'' (serve sample_traffic (sample_limiter (Some sample_db))) = [9000, 9001, 9002, 9003]" by code_simp
  have "window_traffic ?p ''u1'' (sample_limiter (Some sample_db)) sample_traffic" by code_simp
  then show "int (length (filter (\<lambda>u. 9005 - 1000 < u \<and> u \<le> 9005) (granted ''u1'' (serve sample_traffic (sample_limiter (Some sample_db)))))) \<le> 4"
    using window_limit_respected[of ?p "''u1''" "sample_limiter (Some sample_db)" sample_traffic 9005] by (simp add: windows_of_def)
qed

section \<open>The memory store answers as the script does\<close>

text \<open>A list of times in memory and a key of Redis hold the same window.\<close>

definition same_window :: "RateLimitPolicy \<Rightarrow> int \<Rightarrow> int list \<Rightarrow> zset redis_key option \<Rightarrow> bool" where
  "same_window p now entries key \<longleftrightarrow> key_ready p key \<and> sorted entries \<and> (\<forall>t \<in> set entries. t \<le> now) \<and>
     map fst (seen p now key) = filter (\<lambda>t. t > now - pl_windowMs p) entries"

lemma seen_list:
  assumes "key_ready p key"
  shows "map fst (seen p now key) = filter (\<lambda>t. t > now - pl_windowMs p) (map fst (or_else (redis_live now key) []))"
proof -
  have "map fst (filter (\<lambda>(s, _). \<not> (0 \<le> s \<and> s \<le> now - w)) z) = filter (\<lambda>t. t > now - w) (map fst z)"
    if "\<forall>(t, _) \<in> set z. 0 \<le> t" for z :: zset and w
    using that by (induction z) auto
  moreover have "\<forall>(t, _) \<in> set (or_else (redis_live now key) []). 0 \<le> t"
    using assms by (auto simp: redis_live_def key_ready_def split: option.splits)
  ultimately show ?thesis unfolding seen_def by blast
qed

lemma same_window_later:
  assumes "same_window p now entries key" "now \<le> later"
  shows "same_window p later entries key"
proof -
  let ?w = "pl_windowMs p"
  have r: "key_ready p key" and e: "filter (\<lambda>t. t > now - ?w) (map fst (or_else (redis_live now key) [])) = filter (\<lambda>t. t > now - ?w) entries"
    using assms seen_list by (auto simp: same_window_def)
  have narrow: "filter (\<lambda>t. t > later - ?w) xs = filter (\<lambda>t. t > later - ?w) (filter (\<lambda>t. t > now - ?w) xs)" for xs
    using assms(2) by (auto intro: filter_cong)
  have "filter (\<lambda>t. t > later - ?w) (map fst (or_else (redis_live later key) [])) = filter (\<lambda>t. t > later - ?w) (map fst (or_else (redis_live now key) []))"
  proof (cases key)
    case (Some k)
    have "filter (\<lambda>t. t > later - ?w) (map fst (rk_value k)) = []" if "later > rk_until k"
      using r Some that by (fastforce simp: key_ready_def filter_empty_conv)
    then show ?thesis using Some assms(2) by (auto simp: redis_live_def)
  qed (simp add: redis_live_def)
  then have "map fst (seen p later key) = filter (\<lambda>t. t > later - ?w) entries"
    using seen_list[OF r] narrow e by metis
  then show ?thesis using assms by (auto simp: same_window_def)
qed

lemma insort_at_now: "sorted xs \<Longrightarrow> \<forall>t \<in> set xs. t \<le> (now :: int) \<Longrightarrow> insort now xs = xs @ [now]"
  by (induction xs) (auto simp: insort_is_Cons, (metis antisym append_Cons insort_is_Cons order_refl set_ConsD self_append_conv2)?)

lemma map_zadd: "x \<notin> snd ` set z \<Longrightarrow> map fst (zadd now x z) = insort now (map fst z)"
proof -
  assume "x \<notin> snd ` set z"
  then have "filter (\<lambda>(_, m). m \<noteq> x) z = z" by (intro filter_True) force
  moreover have "map fst (insort_key fst (now, x) z) = insort now (map fst z)" by (induction z) auto
  ultimately show ?thesis by (simp add: zadd_def)
qed

lemma same_window_step:
  assumes w: "same_window p now entries key" "x \<notin> members key" "0 \<le> now" and p: "0 < pl_limit p" "0 < pl_windowMs p" "pl_strategy p = SlidingWindow"
  shows "fst (consumeMemorySlidingWindow p now entries) = redis_decision now p (fst (SLIDING_WINDOW_LUA (pl_limit p) (pl_windowMs p) now x key))"
    and "same_window p now (snd (consumeMemorySlidingWindow p now entries)) (snd (redis_take p now x key))"
proof -
  let ?live = "filter (\<lambda>t. t > now - pl_windowMs p) entries"
  have r: "key_ready p key" and l: "map fst (seen p now key) = ?live" and srt: "sorted ?live" and past: "\<forall>t \<in> set ?live. t \<le> now"
    using w(1) by (auto simp: same_window_def sorted_wrt_filter)
  have n: "length (seen p now key) = length ?live" using arg_cong[OF l, of length] by simp
  have old: "\<forall>t \<in># redis_times p now key. t \<le> now" using past by (simp flip: seen_times[OF r] add: l)
  show "fst (consumeMemorySlidingWindow p now entries) = redis_decision now p (fst (SLIDING_WINDOW_LUA (pl_limit p) (pl_windowMs p) now x key))"
  proof (cases "int (length ?live) < pl_limit p")
    case True
    then show ?thesis using n p by (simp add: consumeMemorySlidingWindow_def SLIDING_WINDOW_LUA_def redis_decision_def Let_def seen_def)
  next
    case False
    then obtain t ts where t: "?live = t # ts" using p(1) by (cases ?live) auto
    then obtain m z where z: "seen p now key = (t, m) # z" using l by (cases "seen p now key") auto
    have "t \<in> set ?live" unfolding t by simp
    then have "t + pl_windowMs p > now" by simp
    then show ?thesis using n p False t z by (simp add: consumeMemorySlidingWindow_def SLIDING_WINDOW_LUA_def redis_decision_def Let_def seen_def)
  qed
  have ready: "key_ready p (snd (redis_take p now x key))" using redis_take_ready[OF r w(3) old] .
  show "same_window p now (snd (consumeMemorySlidingWindow p now entries)) (snd (redis_take p now x key))"
  proof (cases "int (length ?live) < pl_limit p")
    case True
    have fresh: "x \<notin> snd ` set (seen p now key)" using w(2) seen_members by blast
    have k: "snd (redis_take p now x key) = Some \<lparr>rk_value = zadd now x (seen p now key), rk_until = now + pl_windowMs p\<rparr>"
      using True n by (simp add: redis_take_seen)
    have "map fst (zadd now x (seen p now key)) = ?live @ [now]" using map_zadd[OF fresh] insort_at_now[OF srt past] l by simp
    then have "map fst (seen p now (snd (redis_take p now x key))) = ?live @ [now]"
      unfolding seen_list[OF ready] using k p(2) by (simp add: redis_live_def)
    then show ?thesis using ready True srt past p(2) by (simp add: same_window_def consumeMemorySlidingWindow_def Let_def sorted_append)
  next
    case False
    then have "seen p now key \<noteq> []" using n p(1) by auto
    then obtain k where k: "key = Some k" "\<not> now > rk_until k" by (auto simp: seen_def redis_live_def split: option.splits if_splits)
    have "snd (redis_take p now x key) = Some (k\<lparr>rk_value := seen p now key\<rparr>)"
      using False n k \<open>seen p now key \<noteq> []\<close> by (simp add: redis_take_seen)
    then have "map fst (seen p now (snd (redis_take p now x key))) = ?live"
      unfolding seen_list[OF ready] using k l by (simp add: redis_live_def)
    then show ?thesis using ready False srt past by (simp add: same_window_def consumeMemorySlidingWindow_def Let_def)
  qed
qed

lemma consume_without_redis:
  assumes "rl_redis s = None" "pl_strategy (policy_of s r) = SlidingWindow"
  defines "k \<equiv> rl_keyPrefix s @ rq_key r"
  shows "fst (consume_request r s) = fst (consumeMemorySlidingWindow (policy_of s r) (rq_now r) (fst (windows_of s k)))"
    "fst (windows_of (snd (consume_request r s)) k) = snd (consumeMemorySlidingWindow (policy_of s r) (rq_now r) (fst (windows_of s k)))"
proof -
  have mem: "fst (consumeMemory now key p t) = fst (consumeMemorySlidingWindow p now (fst (windows_of t key)))"
    "fst (windows_of (snd (consumeMemory now key p t)) key) = snd (consumeMemorySlidingWindow p now (fst (windows_of t key)))"
    if "pl_strategy p = SlidingWindow" for now key p t
    using that by (simp_all add: consumeMemory_def windows_of_def case_prod_beta map_get_set)
  obtain t where t: "\<And>k'. windows_of t k' = windows_of s k'" "fst (consume_request r s) = fst (consumeMemory (rq_now r) k (policy_of s r) t)"
      "\<And>k'. windows_of (snd (consume_request r s)) k' = windows_of (snd (consumeMemory (rq_now r) k (policy_of s r) t)) k'"
  proof (cases rule: consume_cases[of s r])
    case (memory s0)
    then show ?thesis by (intro that[of s0]) (simp_all add: k_def)
  qed (use assms(1) in simp_all)
  show "fst (consume_request r s) = fst (consumeMemorySlidingWindow (policy_of s r) (rq_now r) (fst (windows_of s k)))"
    "fst (windows_of (snd (consume_request r s)) k) = snd (consumeMemorySlidingWindow (policy_of s r) (rq_now r) (fst (windows_of s k)))"
    unfolding t mem[OF assms(2)] by simp_all
qed

lemma consume_stays_healthy:
  assumes "rl_redis s \<noteq> None" "rl_redisHealthy s" "lk_ping luck"
  shows "fst (isRedisHealthy now (lk_ping luck) s)" "rl_redis (snd (consume now luck x key policy tracker scope tier s)) \<noteq> None"
    "rl_redisHealthy (snd (consume now luck x key policy tracker scope tier s))"
proof -
  obtain db where db: "rl_redis s = Some db" using assms(1) by auto
  define s1 where "s1 = snd (isRedisHealthy now (lk_ping luck) s)"
  have h: "isRedisHealthy now (lk_ping luck) s = (True, s1)" "rl_redisHealthy s1" "rl_redis s1 = Some db"
    using assms db by (auto simp: isRedisHealthy_def s1_def)
  have mem: "rl_redisHealthy (snd (consumeMemory now k p t)) = rl_redisHealthy t" for k p t
    by (cases "pl_strategy p") (simp_all add: consumeMemory_def case_prod_beta)
  have "rl_redis (snd (consumeRedis now reply x k p db s1)) \<noteq> None \<and> rl_redisHealthy (snd (consumeRedis now reply x k p db s1))" for k p reply
    using h by (cases reply) (simp_all add: consumeRedis_def case_prod_beta mem consumeMemory_keeps)
  then show "rl_redis (snd (consume now luck x key policy tracker scope tier s)) \<noteq> None" "rl_redisHealthy (snd (consume now luck x key policy tracker scope tier s))"
    using h by (simp_all add: consume_def Let_def case_prod_beta updateRegistry_def)
  show "fst (isRedisHealthy now (lk_ping luck) s)" using h by simp
qed

lemma consume_with_redis:
  assumes s: "rl_redis s \<noteq> None" "rl_redisHealthy s" "lk_ping (rq_luck r)" "lk_reply (rq_luck r) = Redis_ok"
    "pl_strategy (policy_of s r) = SlidingWindow"
  defines "k \<equiv> rl_keyPrefix s @ rq_key r" and "p \<equiv> policy_of s r"
  shows "fst (consume_request r s) =
      redis_decision (rq_now r) p (fst (SLIDING_WINDOW_LUA (pl_limit p) (pl_windowMs p) (rq_now r) (rq_id r) (snd (windows_of s k))))"
    "snd (windows_of (snd (consume_request r s)) k) = snd (redis_take p (rq_now r) (rq_id r) (snd (windows_of s k)))"
proof -
  obtain db where db: "rl_redis s = Some db" using s(1) by auto
  define s1 where "s1 = snd (isRedisHealthy (rq_now r) (lk_ping (rq_luck r)) s)"
  have h: "isRedisHealthy (rq_now r) (lk_ping (rq_luck r)) s = (True, s1)" "rl_redis s1 = Some db"
    using consume_stays_healthy(1)[OF s(1-3), of "rq_now r"] isRedisHealthy_keeps(2)[of "rq_now r" "lk_ping (rq_luck r)" s] db by (simp_all add: s1_def prod_eq_iff)
  have scr: "fst (redis_script now x k p db) = fst (SLIDING_WINDOW_LUA (pl_limit p) (pl_windowMs p) now x (map_get (db_windows db) k))" for now x
    using s(5) by (simp add: redis_script_def case_prod_beta p_def)
  have win: "snd (windows_of s k) = map_get (db_windows db) k" using db by (simp add: windows_of_def)
  have out: "consume_request r s = (let res = redis_script (rq_now r) (rq_id r) k p db; d = redis_decision (rq_now r) p (fst res)
      in (d, updateRegistry (rq_key r) (rq_tracker r) (rq_scope r) (rq_tier r) p d (s1\<lparr>rl_redis := Some (snd res)\<rparr>)))"
    unfolding consume_def Let_def h prod.case using h(2) s(4)
    by (simp add: consumeRedis_def case_prod_beta p_def k_def policy_of_def)
  show "fst (consume_request r s) =
      redis_decision (rq_now r) p (fst (SLIDING_WINDOW_LUA (pl_limit p) (pl_windowMs p) (rq_now r) (rq_id r) (snd (windows_of s k))))"
    unfolding out win Let_def scr by simp
  show "snd (windows_of (snd (consume_request r s)) k) = snd (redis_take p (rq_now r) (rq_id r) (snd (windows_of s k)))"
    unfolding out win Let_def snd_conv windows_of_registry using redis_script_window(2)[OF s(5)] by (simp add: windows_of_def p_def)
qed

text \<open>The state of the simulation, for one key: one limiter without Redis, one whose Redis always answers.\<close>

definition twins :: "RateLimitPolicy \<Rightarrow> string \<Rightarrow> int \<Rightarrow> rate_limiter \<Rightarrow> rate_limiter \<Rightarrow> bool" where
  "twins p key now a b \<longleftrightarrow> rl_redis a = None \<and> rl_redis b \<noteq> None \<and> rl_redisHealthy b \<and>
     rl_defaultStrategy a = rl_defaultStrategy b \<and>
     same_window p now (fst (windows_of a (rl_keyPrefix a @ key))) (snd (windows_of b (rl_keyPrefix b @ key)))"

lemma twins_later: "twins p key now a b \<Longrightarrow> now \<le> later \<Longrightarrow> twins p key later a b"
  unfolding twins_def using same_window_later by blast

lemma twins_step:
  assumes t: "twins p key (rq_now r) a b" and r: "lk_ping (rq_luck r)" "lk_reply (rq_luck r) = Redis_ok" "0 \<le> rq_now r"
    and p: "0 < pl_limit p" "0 < pl_windowMs p" "pl_strategy p = SlidingWindow" "rq_key r = key \<longrightarrow> policy_of a r = p"
    and x: "rq_key r = key \<longrightarrow> rq_id r \<notin> members (snd (windows_of b (rl_keyPrefix b @ key)))"
  shows "twins p key (rq_now r) (snd (consume_request r a)) (snd (consume_request r b))"
    and "rq_key r = key \<longrightarrow> fst (consume_request r a) = fst (consume_request r b)"
proof -
  have ab: "rl_redis a = None" "rl_redis b \<noteq> None" "rl_redisHealthy b" "policy_of b r = policy_of a r"
    using t by (auto simp: twins_def policy_of_def)
  note healthy = consume_stays_healthy[OF ab(2,3) r(1)]
  have same: "same_window p (rq_now r) (fst (windows_of a (rl_keyPrefix a @ key))) (snd (windows_of b (rl_keyPrefix b @ key)))"
    using t by (simp add: twins_def)
  have own: "fst (consume_request r a) = fst (consume_request r b)" and own_windows: "same_window p (rq_now r)
      (fst (windows_of (snd (consume_request r a)) (rl_keyPrefix a @ key))) (snd (windows_of (snd (consume_request r b)) (rl_keyPrefix b @ key)))"
    if k: "rq_key r = key"
  proof -
    have pol: "policy_of a r = p" "policy_of b r = p" using p(4) ab(4) k by auto
    note step = same_window_step[OF same x[rule_format, OF k] r(3) p(1-3)]
    show "fst (consume_request r a) = fst (consume_request r b)"
      using consume_without_redis(1)[OF ab(1), of r] consume_with_redis(1)[OF ab(2,3) r(1,2)] step(1) unfolding pol k p(3) by simp
    show "same_window p (rq_now r) (fst (windows_of (snd (consume_request r a)) (rl_keyPrefix a @ key)))
        (snd (windows_of (snd (consume_request r b)) (rl_keyPrefix b @ key)))"
      using consume_without_redis(2)[OF ab(1), of r] consume_with_redis(2)[OF ab(2,3) r(1,2)] step(2) unfolding pol k p(3) by simp
  qed
  show "rq_key r = key \<longrightarrow> fst (consume_request r a) = fst (consume_request r b)" using own by blast
  have "same_window p (rq_now r) (fst (windows_of (snd (consume_request r a)) (rl_keyPrefix a @ key))) (snd (windows_of (snd (consume_request r b)) (rl_keyPrefix b @ key)))"
  proof (cases "rq_key r = key")
    case True
    then show ?thesis by (rule own_windows)
  next
    case False
    then show ?thesis using t by (simp add: consume_other twins_def)
  qed
  then show "twins p key (rq_now r) (snd (consume_request r a)) (snd (consume_request r b))"
    using t healthy(2,3) by (simp add: twins_def consume_keeps)
qed

lemma serve_twins:
  assumes "window_traffic p key a rs" "0 < pl_limit p" "0 < pl_windowMs p" "twins p key start a b" "\<forall>r \<in> set rs. start \<le> rq_now r"
    "\<forall>r \<in> set rs. lk_ping (rq_luck r) \<and> lk_reply (rq_luck r) = Redis_ok"
    "\<forall>r \<in> set rs. rq_key r = key \<longrightarrow> rq_id r \<notin> members (snd (windows_of b (rl_keyPrefix b @ key)))"
  shows "filter (\<lambda>(r, _). rq_key r = key) (serve rs a) = filter (\<lambda>(r, _). rq_key r = key) (serve rs b)"
  using assms
proof (induction rs arbitrary: a b start)
  case (Cons r rs)
  let ?a = "snd (consume_request r a)" and ?b = "snd (consume_request r b)" and ?k = "rl_keyPrefix b @ key"
  have r: "lk_ping (rq_luck r)" "lk_reply (rq_luck r) = Redis_ok" "0 \<le> rq_now r" "pl_strategy p = SlidingWindow" "rq_key r = key \<longrightarrow> policy_of a r = p"
    "rq_key r = key \<longrightarrow> rq_id r \<notin> members (snd (windows_of b ?k))" "twins p key (rq_now r) a b"
    using Cons.prems twins_later by (auto simp: window_traffic_def)
  note step = twins_step[OF r(7,1-3) Cons.prems(2,3) r(4-6)]
  have keep: "rl_keyPrefix ?b = rl_keyPrefix b" "policy_of ?a q = policy_of a q" for q by (simp_all add: consume_keeps policy_of_def)
  have rest: "window_traffic p key ?a rs" "\<forall>q \<in> set rs. rq_now r \<le> rq_now q" using Cons.prems(1) keep(2) by (auto simp: window_traffic_def split: if_splits)
  have "policy_of a r = policy_of b r" using Cons.prems(4) by (simp add: twins_def policy_of_def)
  then have unused: "\<forall>q \<in> set rs. rq_key q = key \<longrightarrow> rq_id q \<notin> members (snd (windows_of ?b (rl_keyPrefix ?b @ key)))"
    using ids_stay_unused[OF Cons.prems(1) _ Cons.prems(7)] by blast
  have "filter (\<lambda>(r, _). rq_key r = key) (serve rs ?a) = filter (\<lambda>(r, _). rq_key r = key) (serve rs ?b)"
    using Cons.IH[OF rest(1) Cons.prems(2,3) step(1) rest(2) _ unused] Cons.prems(6) by simp
  then show ?case using step(2) by (cases "rq_key r = key") simp_all
qed simp


definition agreeing_traffic :: "rl_request list" where
  "agreeing_traffic = map (\<lambda>(now, x, key). sample_request SlidingWindow 2 1000 now Redis_ok x key)
     [(9000, ''a'', ''u1''), (9300, ''b'', ''u1''), (9300, ''a'', ''u2''), (9600, ''c'', ''u1''), (10000, ''d'', ''u1''), (10100, ''e'', ''u1'')]"


section \<open>Token buckets\<close>

lemma ratePerSec_pos: "0 < pl_limit p \<Longrightarrow> 0 < pl_windowMs p \<Longrightarrow> 0 < ratePerSec p"
  by (simp add: ratePerSec_def)

lemma ratePerSec_nonneg: "0 \<le> pl_limit p \<Longrightarrow> 0 < pl_windowMs p \<Longrightarrow> 0 \<le> ratePerSec p"
  by (simp add: ratePerSec_def)

lemma refilled_cap: "refilled rate burst now b \<le> of_int burst"
  by (simp add: refilled_def split: option.splits)

lemma refilled_later:
  assumes "0 \<le> rate" "now \<le> later"
  shows "refilled rate burst later b \<le> refilled rate burst now b + of_int (later - now) * rate / 1000"
proof -
  let ?d = "of_int (later - now) * rate / 1000"
  have d: "0 \<le> ?d" using assms by simp
  show ?thesis
  proof (cases b)
    case None
    then show ?thesis using d by (simp add: refilled_def)
  next
    case (Some c)
    have gain: "bk_tokens c + of_int (later - bk_ts c) * rate / 1000 = bk_tokens c + of_int (now - bk_ts c) * rate / 1000 + ?d"
      by (simp add: field_simps)
    have "min B (x + ?d) \<le> min B x + ?d" for B x using d by (simp add: min_def)
    then show ?thesis unfolding Some refilled_def option.case gain .
  qed
qed

lemma bucket_pays:
  "max 0 (refilled (ratePerSec p) (pl_burst p) now (Some (snd (consumeMemoryTokenBucket p now b))))
    + (if rd_allowed (fst (consumeMemoryTokenBucket p now b)) then 1 else 0) \<le> max 0 (refilled (ratePerSec p) (pl_burst p) now b)"
  using refilled_cap[of "ratePerSec p" "pl_burst p" now b] by (simp add: consumeMemoryTokenBucket_def Let_def refilled_def[of _ _ now "Some _"])

lemma consume_bucket:
  assumes "rl_redis s = None"
  shows "map_get (rl_memoryBuckets (snd (consume_request r s))) k =
      (if k = rl_keyPrefix s @ rq_key r \<and> pl_strategy (policy_of s r) = TokenBucket
       then Some (snd (consumeMemoryTokenBucket (policy_of s r) (rq_now r) (map_get (rl_memoryBuckets s) k))) else map_get (rl_memoryBuckets s) k)"
    "pl_strategy (policy_of s r) = TokenBucket \<Longrightarrow>
      fst (consume_request r s) = fst (consumeMemoryTokenBucket (policy_of s r) (rq_now r) (map_get (rl_memoryBuckets s) (rl_keyPrefix s @ rq_key r)))"
  using assms by (cases "pl_strategy (policy_of s r)";
    simp add: consume_def Let_def case_prod_beta isRedisHealthy_def consumeMemory_def updateRegistry_def map_get_set policy_of_def)+

definition bucket_traffic :: "RateLimitPolicy \<Rightarrow> string \<Rightarrow> rate_limiter \<Rightarrow> rl_request list \<Rightarrow> bool" where
  "bucket_traffic p key s rs \<longleftrightarrow> sorted (map rq_now rs) \<and> pl_strategy p = TokenBucket \<and> (\<forall>r \<in> set rs. rq_key r = key \<longrightarrow> policy_of s r = p)"

text \<open>From \<open>start\<close> on, the grants are paid from the tokens at \<open>start\<close> and what comes in until \<open>t\<close>.\<close>

lemma granted_times: "u \<in> set (granted key (serve rs s)) \<Longrightarrow> u \<in> rq_now ` set rs"
  by (induction rs arbitrary: s) (auto simp: granted_def split: if_splits)

lemma granted_serve_Cons:
  "granted key (serve (r # rs) s) = (if rq_key r = key \<and> rd_allowed (fst (consume_request r s)) then [rq_now r] else []) @ granted key (serve rs (snd (consume_request r s)))"
  by (cases "rq_key r = key") (simp_all add: granted_def)

lemma serve_bucket:
  assumes "bucket_traffic p key s rs" "rl_redis s = None" "0 \<le> ratePerSec p" "\<forall>r \<in> set rs. start \<le> rq_now r" "start \<le> t"
  shows "of_nat (length (filter (\<lambda>u. u \<le> t) (granted key (serve rs s))))
    \<le> max 0 (refilled (ratePerSec p) (pl_burst p) start (map_get (rl_memoryBuckets s) (rl_keyPrefix s @ key))) + of_int (t - start) * ratePerSec p / 1000"
  using assms
proof (induction rs arbitrary: s start)
  case Nil
  then show ?case by (simp add: granted_def)
next
  case (Cons r rs)
  let ?now = "rq_now r" and ?s' = "snd (consume_request r s)" and ?b = "map_get (rl_memoryBuckets s) (rl_keyPrefix s @ key)"
  let ?A = "\<lambda>u b. max 0 (refilled (ratePerSec p) (pl_burst p) u b)"
  let ?g = "if rq_key r = key \<and> rd_allowed (fst (consume_request r s)) then 1 else 0 :: rat"
  let ?rest = "of_nat (length (filter (\<lambda>u. u \<le> t) (granted key (serve rs ?s')))) :: rat"
  have keep: "rl_keyPrefix ?s' = rl_keyPrefix s" "policy_of ?s' q = policy_of s q" "rl_redis ?s' = None" for q
    using Cons.prems(2) by (simp_all add: consume_keeps policy_of_def)
  have later: "\<forall>q \<in> set rs. ?now \<le> rq_now q" and traffic: "bucket_traffic p key ?s' rs"
    using Cons.prems(1) keep(2) by (auto simp: bucket_traffic_def)
  show ?case
  proof (cases "?now \<le> t")
    case True
    have "?rest \<le> ?A ?now (map_get (rl_memoryBuckets ?s') (rl_keyPrefix s @ key)) + of_int (t - ?now) * ratePerSec p / 1000"
      using Cons.IH[OF traffic keep(3) Cons.prems(3) later True] unfolding keep(1) .
    moreover have "?A ?now (map_get (rl_memoryBuckets ?s') (rl_keyPrefix s @ key)) + ?g \<le> ?A ?now ?b"
    proof (cases "rq_key r = key")
      case True
      then have "policy_of s r = p" "pl_strategy p = TokenBucket" using Cons.prems(1) by (auto simp: bucket_traffic_def)
      then show ?thesis using True consume_bucket[OF Cons.prems(2), of r] bucket_pays[of p ?now ?b] by simp
    next
      case False
      then show ?thesis using consume_bucket(1)[OF Cons.prems(2), of r] by simp
    qed
    moreover have "?A ?now ?b \<le> ?A start ?b + of_int (?now - start) * ratePerSec p / 1000"
    proof -
      have "0 \<le> of_int (?now - start) * ratePerSec p / 1000" using Cons.prems(3,4) by simp
      then show ?thesis using refilled_later[OF Cons.prems(3), of start ?now "pl_burst p" ?b] Cons.prems(4) by (auto simp: max_def)
    qed
    moreover have "of_nat (length (filter (\<lambda>u. u \<le> t) (granted key (serve (r # rs) s)))) = ?g + ?rest"
      unfolding granted_serve_Cons using True by (cases "rq_key r = key") simp_all
    moreover have "of_int (t - start) * ratePerSec p / 1000 = of_int (t - ?now) * ratePerSec p / 1000 + of_int (?now - start) * ratePerSec p / 1000"
      by (simp add: algebra_simps flip: add_divide_distrib)
    ultimately show ?thesis by linarith
  next
    case False
    then have "\<forall>u \<in> rq_now ` set (r # rs). \<not> u \<le> t" using later by auto
    then have "filter (\<lambda>u. u \<le> t) (granted key (serve (r # rs) s)) = []" using granted_times by (metis filter_False)
    moreover have "0 \<le> of_int (t - start) * ratePerSec p / 1000" using Cons.prems(3,5) by simp
    ultimately show ?thesis by simp
  qed
qed

fun after :: "rl_request list \<Rightarrow> rate_limiter \<Rightarrow> rate_limiter" where
  "after [] s = s"
| "after (r # rs) s = after rs (snd (consume_request r s))"

lemma serve_append: "serve (xs @ ys) s = serve xs s @ serve ys (after xs s)"
  by (induction xs arbitrary: s) auto

lemma after_keeps:
  "rl_keyPrefix (after rs s) = rl_keyPrefix s" "policy_of (after rs s) r = policy_of s r" "rl_redis s = None \<Longrightarrow> rl_redis (after rs s) = None"
  by (induction rs arbitrary: s) (simp_all add: consume_keeps policy_of_def)

text \<open>C29. A token bucket in memory holds its rate: whatever the bucket was before, with any other traffic between, the requests
  of a key allowed from \<open>t1\<close> to \<open>t2\<close> are at most \<open>burst\<close> and what \<open>limit\<close> per \<open>windowMs\<close> makes of the time between.\<close>

theorem bucket_rate_respected:
  assumes traffic: "bucket_traffic p key s rs" "rl_redis s = None" and p: "0 \<le> pl_limit p" "0 < pl_windowMs p" "0 \<le> pl_burst p" and t: "t1 \<le> t2"
  shows "of_nat (length (filter (\<lambda>u. t1 \<le> u \<and> u \<le> t2) (granted key (serve rs s))))
    \<le> of_int (pl_burst p) + of_int (pl_limit p) * of_int (t2 - t1) / (of_int (pl_windowMs p) :: rat)"
proof -
  define xs ys where "xs = takeWhile (\<lambda>r. rq_now r < t1) rs" and "ys = dropWhile (\<lambda>r. rq_now r < t1) rs"
  have rs: "rs = xs @ ys" by (simp add: xs_def ys_def)
  have srt: "sorted (map rq_now rs)" using traffic(1) by (simp add: bucket_traffic_def)
  have late: "\<forall>r \<in> set ys. t1 \<le> rq_now r"
  proof (cases ys)
    case (Cons y zs)
    then have "\<not> rq_now y < t1" using hd_dropWhile[of "\<lambda>r. rq_now r < t1" rs] by (simp add: ys_def)
    then show ?thesis using srt Cons unfolding rs by (auto simp: sorted_append)
  qed simp
  have early: "\<forall>r \<in> set xs. rq_now r < t1" by (simp add: xs_def) (meson set_takeWhileD)
  have "filter (\<lambda>u. t1 \<le> u \<and> u \<le> t2) (granted key (serve xs s)) = []"
    using early granted_times[of _ key xs s] by (fastforce simp: filter_empty_conv)
  moreover have "filter (\<lambda>u. t1 \<le> u \<and> u \<le> t2) (granted key (serve ys (after xs s))) = filter (\<lambda>u. u \<le> t2) (granted key (serve ys (after xs s)))"
    using late granted_times[of _ key ys "after xs s"] by (intro filter_cong) auto
  ultimately have few: "filter (\<lambda>u. t1 \<le> u \<and> u \<le> t2) (granted key (serve rs s)) = filter (\<lambda>u. u \<le> t2) (granted key (serve ys (after xs s)))"
    by (simp add: rs serve_append granted_def)
  have "bucket_traffic p key (after xs s) ys" using traffic(1) srt unfolding rs by (simp add: bucket_traffic_def sorted_append after_keeps)
  note paid = serve_bucket[OF this after_keeps(3)[OF traffic(2)] ratePerSec_nonneg[OF p(1,2)] late t]
  have "max 0 (refilled (ratePerSec p) (pl_burst p) t1 b) \<le> of_int (pl_burst p)" for b using refilled_cap p(3) by simp
  then have "of_nat (length (filter (\<lambda>u. u \<le> t2) (granted key (serve ys (after xs s))))) \<le> of_int (pl_burst p) + of_int (t2 - t1) * ratePerSec p / 1000"
    by (intro order_trans[OF paid] add_right_mono)
  then show ?thesis unfolding few by (simp add: ratePerSec_def mult.commute)
qed

definition bucket_sample :: "rl_request list" where
  "bucket_sample = map (\<lambda>now. sample_request TokenBucket 2 1000 now Redis_fail ''a'' ''u1'') [0, 0, 0, 400, 500, 1000, 1000]"

theorem bucket_rate_respected_witness:
  "granted ''u1'' (serve bucket_sample (sample_limiter None)) = [0, 0, 500, 1000]
   \<and> of_nat (length (filter (\<lambda>u. 0 \<le> u \<and> u \<le> 1000) (granted ''u1'' (serve bucket_sample (sample_limiter None))))) \<le> (4 :: rat)"
proof
  let ?p = "\<lparr>pl_limit = 2, pl_windowMs = 1000, pl_burst = 2, pl_strategy = TokenBucket\<rparr>"
  show "granted ''u1'' (serve bucket_sample (sample_limiter None)) = [0, 0, 500, 1000]" by code_simp
  have "bucket_traffic ?p ''u1'' (sample_limiter None) bucket_sample" by code_simp
  then show "of_nat (length (filter (\<lambda>u. 0 \<le> u \<and> u \<le> 1000) (granted ''u1'' (serve bucket_sample (sample_limiter None))))) \<le> (4 :: rat)"
    using bucket_rate_respected[of ?p "''u1''" "sample_limiter None" bucket_sample 0 1000] by simp
qed

text \<open>In Redis a refused request fills the bucket: the key of a refused request lives only for the time of two tokens, and
  once it is gone the script starts with a full bucket, so a caller who waits for two tokens gets \<open>capacity\<close> of them.\<close>

theorem redis_denial_refills_bucket:
  assumes "TOKEN_BUCKET_LUA capacity rate now 1 key = ((False, remaining, wait), key')" "0 < rate" "1 \<le> capacity"
    "now + max 1 \<lceil>(2 - refilled rate capacity now (redis_live now key)) / rate\<rceil> * 1000 < later"
  shows "fst (TOKEN_BUCKET_LUA capacity rate later 1 (Some key')) = (True, capacity - 1, 0)"
proof -
  have "rk_until key' < later" using assms(1,4) by (auto simp: TOKEN_BUCKET_LUA_def Let_def split: if_splits)
  then have "refilled rate capacity later (redis_live later (Some key')) = of_int capacity" by (simp add: redis_live_def refilled_def)
  then show ?thesis using assms(3) by (simp add: TOKEN_BUCKET_LUA_def Let_def)
qed

text \<open>Ten requests per ten seconds: eleven requests at once, one refused, and ten more after two seconds.\<close>

definition refill_sample :: "rl_request list" where
  "refill_sample = map (\<lambda>now. sample_request TokenBucket 10 10000 now Redis_ok ''a'' ''u1'') (replicate 11 9000 @ replicate 10 11001)"

theorem redis_denial_refills_bucket_witness:
  "length (filter (\<lambda>u. 9000 \<le> u \<and> u \<le> 11001) (granted ''u1'' (serve refill_sample (sample_limiter (Some sample_db))))) = 20
   \<and> \<not> of_nat 20 \<le> (of_int 10 + of_int 10 * of_int (11001 - 9000) / of_int 10000 :: rat)
   \<and> fst (TOKEN_BUCKET_LUA 10 1 11001 1 (Some (snd (TOKEN_BUCKET_LUA 10 1 9000 1 (Some \<lparr>rk_value = \<lparr>bk_tokens = 0, bk_ts = 9000\<rparr>, rk_until = 20000\<rparr>)))))
     = (True, 9, 0)"
proof (intro conjI)
  let ?k = "\<lparr>rk_value = \<lparr>bk_tokens = 0, bk_ts = 9000\<rparr>, rk_until = 20000\<rparr> :: MemoryTokenBucketState redis_key"
  show "length (filter (\<lambda>u. 9000 \<le> u \<and> u \<le> 11001) (granted ''u1'' (serve refill_sample (sample_limiter (Some sample_db))))) = 20" by code_simp
  have "TOKEN_BUCKET_LUA 10 1 9000 1 (Some ?k) = ((False, 0, 1000), snd (TOKEN_BUCKET_LUA 10 1 9000 1 (Some ?k)))"
    by (simp add: TOKEN_BUCKET_LUA_def refilled_def redis_live_def)
  from redis_denial_refills_bucket[OF this, of 11001]
  show "fst (TOKEN_BUCKET_LUA 10 1 11001 1 (Some (snd (TOKEN_BUCKET_LUA 10 1 9000 1 (Some ?k))))) = (True, 9, 0)"
    by (simp add: refilled_def redis_live_def)
qed simp


definition sample_policy :: RateLimitPolicy where
  "sample_policy = \<lparr>pl_limit = 2, pl_windowMs = 1000, pl_burst = 2, pl_strategy = SlidingWindow\<rparr>"

definition sample_full :: rate_limiter where
  "sample_full = (sample_limiter None)\<lparr>rl_memoryWindows := [(''k'', [9000, 9300])]\<rparr>"


section \<open>Allow and deny lists\<close>

lemma length_toLowerCase [simp]: "length (toLowerCase t) = length t"
  by (simp add: toLowerCase_def)

lemma length_trim: "length (trim t) \<le> length t"
  unfolding trim_def by (metis dual_order.trans length_dropWhile_le length_rev)

definition redis_up :: "rate_limiter \<Rightarrow> bool" where
  "redis_up s \<longleftrightarrow> rl_redis s \<noteq> None \<and> rl_redisHealthy s"

abbreviation good_luck :: redis_luck where
  "good_luck \<equiv> \<lparr>lk_ping = True, lk_reply = Redis_ok\<rparr>"

abbreviation stored_list :: "list_kind \<Rightarrow> rate_limiter \<Rightarrow> (string, ListEntry) jsmap" where
  "stored_list kind s \<equiv> (case rl_redis s of None \<Rightarrow> [] | Some db \<Rightarrow> redis_list kind db)"

lemma redis_write_up:
  assumes "redis_up s"
  shows "redis_up (redis_write now good_luck f s)" "rl_redis (redis_write now good_luck f s) = map_option f (rl_redis s)"
    "memory_list kind (redis_write now good_luck f s) = memory_list kind s"
  using assms by (cases kind; auto simp: redis_write_def redis_up_def isRedisHealthy_def)+

lemma set_memory_list_keeps [simp]:
  "redis_up (set_memory_list kind m s) = redis_up s" "rl_redis (set_memory_list kind m s) = rl_redis s" "memory_list kind (set_memory_list kind m s) = m"
  by (cases kind; simp add: redis_up_def)+

lemma redis_list_set [simp]: "redis_list kind (set_redis_list kind m db) = m"
  by (cases kind) simp_all

lemma listEntries_of_up:
  "redis_up s \<Longrightarrow> fst (listEntries_of kind now good_luck s) = filter (not_expired now) (map snd (stored_list kind s))"
  by (auto simp: listEntries_of_def redis_up_def isRedisHealthy_def Let_def)

text \<open>An entry taken off a list comes back: a value put on the allow or the deny list is stored in Redis under its type and
  value, and removed under the value only, so the call that removes it says it did, and the next look at the list finds it.\<close>

theorem removed_entry_returns:
  assumes "redis_up s" "addListEntry kind t1 good_luck type val reason None s = (item, s1)" "removeListEntry kind t2 good_luck val s1 = (removed, s2)"
  shows "removed \<and> item \<in> set (fst (listEntries_of kind t3 good_luck s2))
    \<and> (\<forall>userId. type = ''user'' \<and> userId \<noteq> [] \<and> toLowerCase userId = toLowerCase (trim val)
      \<longrightarrow> fst (isListed kind t3 good_luck None (Some userId) None None s2))"
proof -
  have item: "le_id item = type @ '':'' @ val" "le_value item = toLowerCase (trim val)" "le_type item = type" "not_expired t3 item"
    using assms(2) by (auto simp: addListEntry_def Let_def not_expired_def)
  obtain db where db: "rl_redis s = Some db" using assms(1) by (auto simp: redis_up_def)
  have up1: "redis_up s1" "map_get (stored_list kind s1) (le_id item) = Some item" "map_get (memory_list kind s1) (le_id item) = Some item"
    using assms(1,2) db by (auto simp: addListEntry_def Let_def redis_write_up map_get_set)
  have "length val < length (le_id item)" "length (toLowerCase (trim val)) < length (le_id item)"
    using length_trim[of val] by (simp_all add: item(1))
  then have other: "le_id item \<noteq> val" "le_id item \<noteq> toLowerCase (trim val)" by auto
  have removed: removed
    using assms(3) map_get_mem[OF up1(3)] item(2) by (auto simp: removeListEntry_def Let_def list_ex_iff)
  have up2: "redis_up s2" "map_get (stored_list kind s2) (le_id item) = Some item"
  proof -
    obtain db1 where db1: "rl_redis s1 = Some db1" using up1(1) by (auto simp: redis_up_def)
    show "redis_up s2" "map_get (stored_list kind s2) (le_id item) = Some item"
      using assms(3) up1 db1 other by (auto simp: removeListEntry_def Let_def redis_write_up map_get_delete)
  qed
  have found: "item \<in> set (fst (listEntries_of kind t3 good_luck s2))"
    using map_get_mem[OF up2(2)] item(4) by (force simp: listEntries_of_up[OF up2(1)])
  have "fst (isListed kind t3 good_luck None (Some userId) None None s2)" if "type = ''user''" "userId \<noteq> []" "toLowerCase userId = toLowerCase (trim val)" for userId
    using found item that by (auto simp: isListed_def case_prod_beta list_ex_iff entry_names_def)
  then show ?thesis using removed found by blast
qed

theorem removed_entry_returns_witness:
  "fst (isListed Blacklist 3 good_luck None (Some ''bob'') None None
      (snd (removeListEntry Blacklist 2 good_luck ''bob''
        (snd (addListEntry Blacklist 1 good_luck ''user'' ''bob'' None None ((sample_limiter (Some sample_db))\<lparr>rl_redisHealthy := True\<rparr>))))))"
proof -
  let ?s = "(sample_limiter (Some sample_db))\<lparr>rl_redisHealthy := True\<rparr>"
  have "redis_up ?s" by (simp add: redis_up_def)
  moreover have "toLowerCase ''bob'' = toLowerCase (trim ''bob'')" by code_simp
  ultimately show ?thesis
    using removed_entry_returns[OF _ prod.collapse[symmetric] prod.collapse[symmetric],
      where s = ?s and kind = Blacklist and ?t1.0 = 1 and type = "''user''" and val = "''bob''" and reason = None and ?t2.0 = 2 and ?t3.0 = 3] by blast
qed

end
