(* ===== verification/Abuse_Rules.thy ===== *)
theory Abuse_Rules
  imports Js_Values
begin

text \<open>
  The risk score of a high-impact operation, \<open>src/security/abuse-detection/abuse-detection.rules.ts\<close>: twelve
  checks, each of which may add a signal with a weight, the score, and what follows from it.

  An optional number is a \<open>js_number option\<close>.  Thresholds and weights are finite numbers and exact; the ratio of two
  amounts is rounded as a double.
\<close>

section \<open>Types\<close>

datatype HighImpactOperationKind =
    Treasury_withdrawal | Payout_initiation | Portfolio_rebalance | Portfolio_liquidation | Defi_position_exit
  | Defi_adapter_swap | Auth_credential_change | Api_key_issuance | Mfa_reset | Wallet_unlink | Data_export
  | Bulk_notification_dispatch | Oracle_submission | Admin_privilege_change

fun kind_name :: "HighImpactOperationKind \<Rightarrow> string" where
  "kind_name Treasury_withdrawal = ''treasury_withdrawal''"
| "kind_name Payout_initiation = ''payout_initiation''"
| "kind_name Portfolio_rebalance = ''portfolio_rebalance''"
| "kind_name Portfolio_liquidation = ''portfolio_liquidation''"
| "kind_name Defi_position_exit = ''defi_position_exit''"
| "kind_name Defi_adapter_swap = ''defi_adapter_swap''"
| "kind_name Auth_credential_change = ''auth_credential_change''"
| "kind_name Api_key_issuance = ''api_key_issuance''"
| "kind_name Mfa_reset = ''mfa_reset''"
| "kind_name Wallet_unlink = ''wallet_unlink''"
| "kind_name Data_export = ''data_export''"
| "kind_name Bulk_notification_dispatch = ''bulk_notification_dispatch''"
| "kind_name Oracle_submission = ''oracle_submission''"
| "kind_name Admin_privilege_change = ''admin_privilege_change''"

datatype AbuseDetectionMode = Mode_enforce | Mode_shadow | Mode_disabled

fun mode_name :: "AbuseDetectionMode \<Rightarrow> string" where
  "mode_name Mode_enforce = ''enforce''"
| "mode_name Mode_shadow = ''shadow''"
| "mode_name Mode_disabled = ''disabled''"

datatype AbuseRiskLevel = Risk_low | Risk_medium | Risk_high | Risk_critical

datatype AbuseDisposition = Allow | Allow_after_step_up | Allow_after_review | Step_up_required | Manual_review | Block

fun disposition_name :: "AbuseDisposition \<Rightarrow> string" where
  "disposition_name Allow = ''allow''"
| "disposition_name Allow_after_step_up = ''allow_after_step_up''"
| "disposition_name Allow_after_review = ''allow_after_review''"
| "disposition_name Step_up_required = ''step_up_required''"
| "disposition_name Manual_review = ''manual_review''"
| "disposition_name Block = ''block''"

datatype AbuseSignalCode =
    VELOCITY_BURST | AMOUNT_ANOMALY_SPIKE | UNVERIFIED_DESTINATION | RAPID_DESTINATION_CHURN | NEW_DEVICE_OR_IP_CONTEXT
  | RECENT_AUTH_OR_CREDENTIAL_MUTATION | DEFI_SLIPPAGE_OR_DRAIN_PATTERN | REPEATED_FAILED_ATTEMPTS
  | PRIVILEGE_OR_IMPERSONATION_CONTEXT | BULK_FANOUT_OR_EXPORT_SPIKE | SANCTIONED_OR_HIGH_RISK_COUNTERPARTY
  | TRUSTED_PRINCIPAL_MITIGATION

fun code_name :: "AbuseSignalCode \<Rightarrow> string" where
  "code_name VELOCITY_BURST = ''VELOCITY_BURST''"
| "code_name AMOUNT_ANOMALY_SPIKE = ''AMOUNT_ANOMALY_SPIKE''"
| "code_name UNVERIFIED_DESTINATION = ''UNVERIFIED_DESTINATION''"
| "code_name RAPID_DESTINATION_CHURN = ''RAPID_DESTINATION_CHURN''"
| "code_name NEW_DEVICE_OR_IP_CONTEXT = ''NEW_DEVICE_OR_IP_CONTEXT''"
| "code_name RECENT_AUTH_OR_CREDENTIAL_MUTATION = ''RECENT_AUTH_OR_CREDENTIAL_MUTATION''"
| "code_name DEFI_SLIPPAGE_OR_DRAIN_PATTERN = ''DEFI_SLIPPAGE_OR_DRAIN_PATTERN''"
| "code_name REPEATED_FAILED_ATTEMPTS = ''REPEATED_FAILED_ATTEMPTS''"
| "code_name PRIVILEGE_OR_IMPERSONATION_CONTEXT = ''PRIVILEGE_OR_IMPERSONATION_CONTEXT''"
| "code_name BULK_FANOUT_OR_EXPORT_SPIKE = ''BULK_FANOUT_OR_EXPORT_SPIKE''"
| "code_name SANCTIONED_OR_HIGH_RISK_COUNTERPARTY = ''SANCTIONED_OR_HIGH_RISK_COUNTERPARTY''"
| "code_name TRUSTED_PRINCIPAL_MITIGATION = ''TRUSTED_PRINCIPAL_MITIGATION''"

datatype AbuseSignalCategory =
    Cat_velocity | Cat_value_anomaly | Cat_destination | Cat_authentication | Cat_defi_portfolio | Cat_session_context | Cat_mitigation

datatype AbuseSignalSeverity = Sev_info | Sev_low | Sev_medium | Sev_high | Sev_critical

datatype AbuseRequiredAction = No_action | Provide_totp_or_challenge | Await_operator_review | Contact_security

datatype ErrorCode = FORBIDDEN | RISK_LIMIT_EXCEEDED | PRECONDITION_FAILED | QUOTA_EXCEEDED

record AbuseRiskSignal =
  sg_code :: AbuseSignalCode
  sg_category :: AbuseSignalCategory
  sg_severity :: AbuseSignalSeverity
  sg_weight :: rat
  sg_explanation :: string
  sg_remediation :: string
  sg_errorCode :: ErrorCode
  sg_evidence :: "(string \<times> dyn) list"

record AbuseActorContext =
  ac_actorId :: string
  ac_actorRole :: "string option"
  ac_tenantId :: "string option"
  ac_sessionId :: "string option"
  ac_ipAddress :: "string option"
  ac_deviceFingerprint :: "string option"
  ac_userAgent :: "string option"
  ac_accountAgeDays :: "js_number option"
  ac_mfaEnabled :: "bool option"
  ac_stepUpVerified :: "bool option"
  ac_stepUpMethod :: "string option"
  ac_isImpersonated :: "bool option"
  ac_impersonatorId :: "string option"
  ac_minutesSinceLastCredentialChange :: "js_number option"
  ac_knownDevicesOrIps :: "string list option"
  ac_verifiedDestinations :: "string list option"
  ac_reviewApprovalToken :: "string option"

record HighImpactOperationInput =
  op_kind :: HighImpactOperationKind
  op_amount :: "js_number option"
  op_historicalAverageAmount :: "js_number option"
  op_asset :: "string option"
  op_destination :: "string option"
  op_portfolioId :: "string option"
  op_adapterId :: "string option"
  op_portfolioExitFraction :: "js_number option"
  op_slippageBps :: "js_number option"
  op_adapterVerified :: "bool option"
  op_recordOrRecipientCount :: "js_number option"
  op_counterpartyFlagged :: "bool option"
  op_idempotencyKey :: "string option"
  op_asOf :: "string option"

record AbuseBehavioralWindowState =
  ws_recentOperationCount :: nat
  ws_recentDistinctDestinations :: "string list"
  ws_recentFailedAttempts :: nat

record AbuseDetectionThresholds =
  th_mode :: AbuseDetectionMode
  th_stepUpScoreThreshold :: rat
  th_manualReviewScoreThreshold :: rat
  th_blockScoreThreshold :: rat
  th_velocityWindowSeconds :: rat
  th_maxOperationsPerWindow :: rat
  th_highValueAmountThreshold :: rat
  th_amountSpikeMultiplier :: rat
  th_maxDistinctDestinationsPerWindow :: rat
  th_credentialCoolingPeriodMinutes :: rat
  th_highSlippageBpsThreshold :: rat
  th_maxFailedAttemptsPerWindow :: rat
  th_bulkRecordThreshold :: rat

record AbuseAssessmentResult =
  ar_assessmentId :: string
  ar_operationKind :: HighImpactOperationKind
  ar_actorId :: string
  ar_score :: rat
  ar_rawScore :: rat
  ar_riskLevel :: AbuseRiskLevel
  ar_disposition :: AbuseDisposition
  ar_mode :: AbuseDetectionMode
  ar_allowed :: bool
  ar_stepUpSatisfied :: bool
  ar_reviewRequired :: bool
  ar_reviewId :: "string option"
  ar_requiredAction :: AbuseRequiredAction
  ar_signals :: "AbuseRiskSignal list"
  ar_operationDigest :: string
  ar_digest :: string
  ar_evaluatedAt :: string
  ar_summary :: string

definition DEFAULT_ABUSE_THRESHOLDS_CORE :: AbuseDetectionThresholds where
  "DEFAULT_ABUSE_THRESHOLDS_CORE =
     \<lparr>th_mode = Mode_enforce, th_stepUpScoreThreshold = 35, th_manualReviewScoreThreshold = 70, th_blockScoreThreshold = 85,
      th_velocityWindowSeconds = 300, th_maxOperationsPerWindow = 5, th_highValueAmountThreshold = 50000, th_amountSpikeMultiplier = 5,
      th_maxDistinctDestinationsPerWindow = 3, th_credentialCoolingPeriodMinutes = 30, th_highSlippageBpsThreshold = 300,
      th_maxFailedAttemptsPerWindow = 3, th_bulkRecordThreshold = 500\<rparr>"

record AbuseRuleEvaluationContext =
  ev_operation :: HighImpactOperationInput
  ev_actor :: AbuseActorContext
  ev_windowState :: AbuseBehavioralWindowState
  ev_thresholds :: AbuseDetectionThresholds
  ev_asOf :: string
  ev_reviewApproved :: "bool option"

definition VALUE_MOVING_KINDS :: "HighImpactOperationKind list" where
  "VALUE_MOVING_KINDS = [Treasury_withdrawal, Payout_initiation, Portfolio_rebalance, Portfolio_liquidation, Defi_position_exit, Defi_adapter_swap]"

definition DEFI_PORTFOLIO_KINDS :: "HighImpactOperationKind list" where
  "DEFI_PORTFOLIO_KINDS = [Portfolio_rebalance, Portfolio_liquidation, Defi_position_exit, Defi_adapter_swap]"

section \<open>Helpers\<close>

definition maskIdentifier :: "string option \<Rightarrow> string option" where
  "maskIdentifier v =
     (case v of
        None \<Rightarrow> None
      | Some s \<Rightarrow>
          if s = [] then None
          else let trimmed = trim s; n = length trimmed in
               Some (if n \<le> 6 then ''***'' else take 4 trimmed @ ''...'' @ drop (n - 3) trimmed))"

abbreviation opt_dyn :: "('a \<Rightarrow> dyn) \<Rightarrow> 'a option \<Rightarrow> dyn" where
  "opt_dyn f x \<equiv> (case x of None \<Rightarrow> D_null | Some v \<Rightarrow> f v)"

abbreviation D_rat :: "rat \<Rightarrow> dyn" where
  "D_rat q \<equiv> D_num (Fin q)"

abbreviation D_count :: "nat \<Rightarrow> dyn" where
  "D_count n \<equiv> D_num (Fin (of_nat n))"

abbreviation truthy :: "string option \<Rightarrow> bool" where
  "truthy x \<equiv> (case x of None \<Rightarrow> False | Some s \<Rightarrow> s \<noteq> [])"

definition normalized :: "string \<Rightarrow> string" where
  "normalized s = toLowerCase (trim s)"

definition computeOperationDigest :: "host \<Rightarrow> HighImpactOperationInput \<Rightarrow> string \<Rightarrow> string" where
  "computeOperationDigest h operation actorId =
     hs_sha256 h (stringify h (D_obj
       [(''actorId'', D_str (trim actorId)),
        (''kind'', D_str (kind_name (op_kind operation))),
        (''amount'', opt_dyn D_num (op_amount operation)),
        (''asset'', opt_dyn (D_str \<circ> toUpperCase \<circ> trim) (op_asset operation)),
        (''destination'', opt_dyn (D_str \<circ> normalized) (op_destination operation)),
        (''portfolioId'', opt_dyn D_str (op_portfolioId operation)),
        (''adapterId'', opt_dyn D_str (op_adapterId operation)),
        (''portfolioExitFraction'', opt_dyn D_num (op_portfolioExitFraction operation)),
        (''slippageBps'', opt_dyn D_num (op_slippageBps operation)),
        (''recordOrRecipientCount'', opt_dyn D_num (op_recordOrRecipientCount operation)),
        (''idempotencyKey'', opt_dyn D_str (op_idempotencyKey operation))]))"

definition defaultAbuseThresholds :: AbuseDetectionThresholds where
  "defaultAbuseThresholds = DEFAULT_ABUSE_THRESHOLDS_CORE"

text \<open>Thresholds given in part, which replace those of a base.\<close>

record partial_thresholds =
  pt_mode :: "AbuseDetectionMode option"
  pt_stepUpScoreThreshold :: "rat option"
  pt_manualReviewScoreThreshold :: "rat option"
  pt_blockScoreThreshold :: "rat option"
  pt_velocityWindowSeconds :: "rat option"
  pt_maxOperationsPerWindow :: "rat option"
  pt_highValueAmountThreshold :: "rat option"
  pt_amountSpikeMultiplier :: "rat option"
  pt_maxDistinctDestinationsPerWindow :: "rat option"
  pt_credentialCoolingPeriodMinutes :: "rat option"
  pt_highSlippageBpsThreshold :: "rat option"
  pt_maxFailedAttemptsPerWindow :: "rat option"
  pt_bulkRecordThreshold :: "rat option"

abbreviation fallback :: "'a option \<Rightarrow> 'a \<Rightarrow> 'a" where
  "fallback x y \<equiv> (case x of None \<Rightarrow> y | Some v \<Rightarrow> v)"

definition override_thresholds :: "AbuseDetectionThresholds \<Rightarrow> partial_thresholds \<Rightarrow> AbuseDetectionThresholds" where
  "override_thresholds b p =
     \<lparr>th_mode = fallback (pt_mode p) (th_mode b),
      th_stepUpScoreThreshold = fallback (pt_stepUpScoreThreshold p) (th_stepUpScoreThreshold b),
      th_manualReviewScoreThreshold = fallback (pt_manualReviewScoreThreshold p) (th_manualReviewScoreThreshold b),
      th_blockScoreThreshold = fallback (pt_blockScoreThreshold p) (th_blockScoreThreshold b),
      th_velocityWindowSeconds = fallback (pt_velocityWindowSeconds p) (th_velocityWindowSeconds b),
      th_maxOperationsPerWindow = fallback (pt_maxOperationsPerWindow p) (th_maxOperationsPerWindow b),
      th_highValueAmountThreshold = fallback (pt_highValueAmountThreshold p) (th_highValueAmountThreshold b),
      th_amountSpikeMultiplier = fallback (pt_amountSpikeMultiplier p) (th_amountSpikeMultiplier b),
      th_maxDistinctDestinationsPerWindow = fallback (pt_maxDistinctDestinationsPerWindow p) (th_maxDistinctDestinationsPerWindow b),
      th_credentialCoolingPeriodMinutes = fallback (pt_credentialCoolingPeriodMinutes p) (th_credentialCoolingPeriodMinutes b),
      th_highSlippageBpsThreshold = fallback (pt_highSlippageBpsThreshold p) (th_highSlippageBpsThreshold b),
      th_maxFailedAttemptsPerWindow = fallback (pt_maxFailedAttemptsPerWindow p) (th_maxFailedAttemptsPerWindow b),
      th_bulkRecordThreshold = fallback (pt_bulkRecordThreshold p) (th_bulkRecordThreshold b)\<rparr>"

definition monotonic_scores :: "rat \<Rightarrow> rat \<Rightarrow> rat \<Rightarrow> bool" where
  "monotonic_scores stepUp manualReview blocked \<longleftrightarrow> stepUp < manualReview \<and> manualReview < blocked \<and> blocked \<le> 100"

definition default_scores :: "AbuseDetectionThresholds \<Rightarrow> AbuseDetectionThresholds" where
  "default_scores th = th\<lparr>th_stepUpScoreThreshold := th_stepUpScoreThreshold DEFAULT_ABUSE_THRESHOLDS_CORE,
     th_manualReviewScoreThreshold := th_manualReviewScoreThreshold DEFAULT_ABUSE_THRESHOLDS_CORE,
     th_blockScoreThreshold := th_blockScoreThreshold DEFAULT_ABUSE_THRESHOLDS_CORE\<rparr>"

definition sanitizeAbuseThresholds :: "partial_thresholds \<Rightarrow> AbuseDetectionThresholds" where
  "sanitizeAbuseThresholds p =
     (let base = override_thresholds DEFAULT_ABUSE_THRESHOLDS_CORE p in
      if th_stepUpScoreThreshold base > 0 \<and> monotonic_scores (th_stepUpScoreThreshold base) (th_manualReviewScoreThreshold base) (th_blockScoreThreshold base)
      then base else default_scores base)"

section \<open>Signals\<close>

text \<open>Each check gives no signal or one.\<close>

abbreviation num :: "host \<Rightarrow> rat \<Rightarrow> string" where
  "num h q \<equiv> js_show h (Fin q)"

definition counterparty_signal :: "HighImpactOperationInput \<Rightarrow> AbuseRiskSignal list" where
  "counterparty_signal operation =
     (if op_counterpartyFlagged operation = Some True
      then [\<lparr>sg_code = SANCTIONED_OR_HIGH_RISK_COUNTERPARTY, sg_category = Cat_destination, sg_severity = Sev_critical, sg_weight = 95,
             sg_explanation = ''Target destination or counterparty is flagged as high-risk or restricted.'',
             sg_remediation = ''Abort this operation and contact security/compliance before interacting with this address.'',
             sg_errorCode = FORBIDDEN,
             sg_evidence = [(''destinationPrefix'', opt_dyn D_str (maskIdentifier (op_destination operation))), (''counterpartyFlagged'', D_bool True)]\<rparr>]
      else [])"

definition velocity_weight :: "nat \<Rightarrow> rat \<Rightarrow> rat" where
  "velocity_weight operations limit = (let excess = of_nat operations - limit + 1 in min 55 (35 + (excess - 1) * 10))"

definition velocity_signal :: "host \<Rightarrow> AbuseBehavioralWindowState \<Rightarrow> AbuseDetectionThresholds \<Rightarrow> AbuseRiskSignal list" where
  "velocity_signal h ws th =
     (if of_nat (ws_recentOperationCount ws) \<ge> th_maxOperationsPerWindow th
      then let weight = velocity_weight (ws_recentOperationCount ws) (th_maxOperationsPerWindow th) in
           [\<lparr>sg_code = VELOCITY_BURST, sg_category = Cat_velocity, sg_severity = (if weight \<ge> 45 then Sev_high else Sev_medium), sg_weight = weight,
             sg_explanation = ''Actor attempted '' @ show_count (ws_recentOperationCount ws + 1) @ '' high-impact operations within ''
               @ num h (th_velocityWindowSeconds th) @ ''s (threshold: '' @ num h (th_maxOperationsPerWindow th) @ '').'',
             sg_remediation = ''Complete step-up verification or wait for the velocity cooling window before submitting additional high-impact operations.'',
             sg_errorCode = RISK_LIMIT_EXCEEDED,
             sg_evidence = [(''observedOperationsInWindow'', D_count (ws_recentOperationCount ws + 1)),
               (''maxOperationsPerWindow'', D_rat (th_maxOperationsPerWindow th)), (''windowSeconds'', D_rat (th_velocityWindowSeconds th))]\<rparr>]
      else [])"

fun positive_amount :: "js_number option \<Rightarrow> rat option" where
  "positive_amount (Some (Fin q)) = (if q > 0 then Some q else None)"
| "positive_amount _ = None"

definition amount_signal :: "host \<Rightarrow> HighImpactOperationInput \<Rightarrow> AbuseDetectionThresholds \<Rightarrow> AbuseRiskSignal list" where
  "amount_signal h operation th =
     (case positive_amount (op_amount operation) of
        None \<Rightarrow> []
      | Some amount \<Rightarrow>
          let exceedsAbsoluteHigh = amount \<ge> th_highValueAmountThreshold th;
              ratio = (case positive_amount (op_historicalAverageAmount operation) of None \<Rightarrow> 1 | Some average \<Rightarrow> fl64 (amount / average));
              exceedsRelativeSpike = (positive_amount (op_historicalAverageAmount operation) \<noteq> None \<and> ratio \<ge> th_amountSpikeMultiplier th);
              evidence = [(''amount'', D_rat amount), (''highValueThreshold'', D_rat (th_highValueAmountThreshold th)), (''historicalRatio'', D_num (ne_Number h (toFixed2 ratio)))]
          in if exceedsAbsoluteHigh \<and> exceedsRelativeSpike
             then [\<lparr>sg_code = AMOUNT_ANOMALY_SPIKE, sg_category = Cat_value_anomaly, sg_severity = Sev_high, sg_weight = 45,
                    sg_explanation = ''Operation amount ('' @ num h amount @ '') exceeds both the high-value threshold ('' @ num h (th_highValueAmountThreshold th)
                      @ '') and '' @ toFixed1 ratio @ ''x the actor'' @ sq @ ''s historical average.'',
                    sg_remediation = ''Provide step-up authentication or submit the high-value transfer for operator review.'',
                    sg_errorCode = RISK_LIMIT_EXCEEDED,
                    sg_evidence = evidence @ [(''spikeMultiplierThreshold'', D_rat (th_amountSpikeMultiplier th))]\<rparr>]
             else if exceedsAbsoluteHigh \<or> exceedsRelativeSpike
             then [\<lparr>sg_code = AMOUNT_ANOMALY_SPIKE, sg_category = Cat_value_anomaly, sg_severity = Sev_medium, sg_weight = 30,
                    sg_explanation = (if exceedsRelativeSpike
                      then ''Operation amount ('' @ num h amount @ '') is '' @ toFixed1 ratio @ ''x the actor'' @ sq @ ''s historical baseline.''
                      else ''Operation amount ('' @ num h amount @ '') reaches or exceeds the high-value threshold ('' @ num h (th_highValueAmountThreshold th) @ '').''),
                    sg_remediation = ''Verify the operation amount and complete step-up authentication.'',
                    sg_errorCode = RISK_LIMIT_EXCEEDED, sg_evidence = evidence\<rparr>]
             else [])"

definition destination_signal :: "HighImpactOperationInput \<Rightarrow> AbuseActorContext \<Rightarrow> AbuseRiskSignal list" where
  "destination_signal operation actor =
     (case (op_destination operation, ac_verifiedDestinations actor) of
        (Some destination, Some verified) \<Rightarrow>
          if destination \<noteq> [] \<and> op_kind operation \<in> set VALUE_MOVING_KINDS \<and> normalized destination \<notin> normalized ` set verified
          then [\<lparr>sg_code = UNVERIFIED_DESTINATION, sg_category = Cat_destination, sg_severity = Sev_medium, sg_weight = 25,
                 sg_explanation = ''Value-moving operation targets a destination address not in the actor'' @ sq @ ''s verified allow-list.'',
                 sg_remediation = ''Complete step-up verification to confirm the new destination or whitelist the address first.'',
                 sg_errorCode = PRECONDITION_FAILED,
                 sg_evidence = [(''destinationPrefix'', opt_dyn D_str (maskIdentifier (Some destination))),
                   (''verifiedDestinationCount'', D_count (length (js_set (map normalized verified))))]\<rparr>]
          else []
      | _ \<Rightarrow> [])"

definition churn_signal :: "host \<Rightarrow> AbuseBehavioralWindowState \<Rightarrow> AbuseDetectionThresholds \<Rightarrow> AbuseRiskSignal list" where
  "churn_signal h ws th =
     (if of_nat (length (ws_recentDistinctDestinations ws)) \<ge> th_maxDistinctDestinationsPerWindow th
      then [\<lparr>sg_code = RAPID_DESTINATION_CHURN, sg_category = Cat_destination, sg_severity = Sev_high, sg_weight = 35,
             sg_explanation = ''Actor targeted '' @ show_count (length (ws_recentDistinctDestinations ws))
               @ '' distinct destinations within the active observation window (threshold: '' @ num h (th_maxDistinctDestinationsPerWindow th) @ '').'',
             sg_remediation = ''Multi-destination fan-out requires step-up authentication or operator review.'',
             sg_errorCode = RISK_LIMIT_EXCEEDED,
             sg_evidence = [(''distinctDestinationsInWindow'', D_count (length (ws_recentDistinctDestinations ws))),
               (''maxDistinctDestinations'', D_rat (th_maxDistinctDestinationsPerWindow th))]\<rparr>]
      else [])"

definition context_signal :: "AbuseActorContext \<Rightarrow> AbuseRiskSignal list" where
  "context_signal actor =
     (case ac_knownDevicesOrIps actor of
        None \<Rightarrow> []
      | Some known \<Rightarrow>
          let knownSet = js_set (map normalized known);
              currentDevice = map_option normalized (ac_deviceFingerprint actor);
              currentIp = map_option normalized (ac_ipAddress actor);
              recognized = (\<lambda>x. truthy x \<and> the x \<in> set knownSet)
          in if known \<noteq> [] \<and> (truthy currentDevice \<or> truthy currentIp) \<and> \<not> recognized currentDevice \<and> \<not> recognized currentIp
             then [\<lparr>sg_code = NEW_DEVICE_OR_IP_CONTEXT, sg_category = Cat_session_context, sg_severity = Sev_medium, sg_weight = 20,
                    sg_explanation = ''High-impact operation initiated from an unrecognized device fingerprint or IP context.'',
                    sg_remediation = ''Complete step-up verification to confirm account ownership from this device/network.'',
                    sg_errorCode = FORBIDDEN,
                    sg_evidence = [(''hasDeviceFingerprint'', D_bool (truthy currentDevice)), (''ipPrefix'', opt_dyn D_str (maskIdentifier (ac_ipAddress actor))),
                      (''knownContextCount'', D_count (length knownSet))]\<rparr>]
             else [])"

definition credential_signal :: "host \<Rightarrow> AbuseActorContext \<Rightarrow> AbuseDetectionThresholds \<Rightarrow> AbuseRiskSignal list" where
  "credential_signal h actor th =
     (case ac_minutesSinceLastCredentialChange actor of
        None \<Rightarrow> []
      | Some minutes \<Rightarrow>
          if js_le (Fin 0) minutes \<and> js_le minutes (Fin (th_credentialCoolingPeriodMinutes th))
          then [\<lparr>sg_code = RECENT_AUTH_OR_CREDENTIAL_MUTATION, sg_category = Cat_authentication, sg_severity = Sev_high, sg_weight = 35,
                 sg_explanation = ''Account credentials, MFA settings, or API keys were modified '' @ js_show h minutes
                   @ '' minute(s) ago (cooling period: '' @ num h (th_credentialCoolingPeriodMinutes th) @ ''m).'',
                 sg_remediation = ''Complete fresh step-up verification or wait for the post-credential-change cooling period to elapse.'',
                 sg_errorCode = FORBIDDEN,
                 sg_evidence = [(''minutesSinceLastCredentialChange'', D_num minutes), (''coolingPeriodMinutes'', D_rat (th_credentialCoolingPeriodMinutes th))]\<rparr>]
          else [])"

text \<open>The double nearest to 0.9, and \<open>Math.round(x * 100)\<close>.\<close>

definition nine_tenths :: rat where
  "nine_tenths = 8106479329266893 / 9007199254740992"

fun percent :: "js_number \<Rightarrow> js_number" where
  "percent (Fin q) = Fin (of_int (js_round (fl64 (q * 100))))"
| "percent n = n"

definition defi_signal :: "host \<Rightarrow> HighImpactOperationInput \<Rightarrow> AbuseDetectionThresholds \<Rightarrow> AbuseRiskSignal list" where
  "defi_signal h operation th =
     (if op_kind operation \<in> set DEFI_PORTFOLIO_KINDS
      then let highSlippage = (case op_slippageBps operation of None \<Rightarrow> False | Some n \<Rightarrow> js_le (Fin (th_highSlippageBpsThreshold th)) n);
               nearFullDrain = (case op_portfolioExitFraction operation of None \<Rightarrow> False | Some n \<Rightarrow> js_le (Fin nine_tenths) n);
               unverifiedAdapter = (op_adapterVerified operation = Some False);
               slippage = (case op_slippageBps operation of None \<Rightarrow> ''undefined'' | Some n \<Rightarrow> js_show h n);
               exit = js_show h (percent (fallback (op_portfolioExitFraction operation) (Fin 0)))
           in if unverifiedAdapter \<or> highSlippage \<and> nearFullDrain
              then [\<lparr>sg_code = DEFI_SLIPPAGE_OR_DRAIN_PATTERN, sg_category = Cat_defi_portfolio, sg_severity = Sev_high, sg_weight = 45,
                     sg_explanation = (if unverifiedAdapter then ''DeFi/portfolio operation interacts with an unverified protocol adapter.''
                       else ''Rapid portfolio/position exit ('' @ exit @ ''%) combined with elevated slippage tolerance ('' @ slippage @ '' bps).''),
                     sg_remediation = ''Reduce slippage tolerance, verify the target DeFi adapter, or complete step-up/operator review.'',
                     sg_errorCode = RISK_LIMIT_EXCEEDED,
                     sg_evidence = [(''slippageBps'', opt_dyn D_num (op_slippageBps operation)), (''highSlippageBpsThreshold'', D_rat (th_highSlippageBpsThreshold th)),
                       (''portfolioExitFraction'', opt_dyn D_num (op_portfolioExitFraction operation)), (''adapterVerified'', D_bool (fallback (op_adapterVerified operation) True))]\<rparr>]
              else if highSlippage \<or> nearFullDrain
              then [\<lparr>sg_code = DEFI_SLIPPAGE_OR_DRAIN_PATTERN, sg_category = Cat_defi_portfolio, sg_severity = Sev_medium, sg_weight = 25,
                     sg_explanation = (if highSlippage
                       then ''DeFi operation specifies elevated slippage tolerance ('' @ slippage @ '' bps >= '' @ num h (th_highSlippageBpsThreshold th) @ '' bps).''
                       else ''Operation exits or liquidates '' @ exit @ ''% of the portfolio/position in a single action.''),
                     sg_remediation = ''Confirm the slippage/exit parameters with step-up authentication.'',
                     sg_errorCode = RISK_LIMIT_EXCEEDED,
                     sg_evidence = [(''slippageBps'', opt_dyn D_num (op_slippageBps operation)), (''portfolioExitFraction'', opt_dyn D_num (op_portfolioExitFraction operation))]\<rparr>]
              else []
      else [])"

definition failed_attempts_signal :: "AbuseBehavioralWindowState \<Rightarrow> AbuseDetectionThresholds \<Rightarrow> AbuseRiskSignal list" where
  "failed_attempts_signal ws th =
     (if of_nat (ws_recentFailedAttempts ws) \<ge> th_maxFailedAttemptsPerWindow th
      then [\<lparr>sg_code = REPEATED_FAILED_ATTEMPTS, sg_category = Cat_authentication, sg_severity = Sev_medium, sg_weight = 30,
             sg_explanation = ''Actor recorded '' @ show_count (ws_recentFailedAttempts ws) @ '' failed authentication, verification, or preflight attempts prior to this operation.'',
             sg_remediation = ''Complete step-up authentication to confirm legitimate session control.'',
             sg_errorCode = FORBIDDEN,
             sg_evidence = [(''recentFailedAttempts'', D_count (ws_recentFailedAttempts ws)), (''maxFailedAttemptsPerWindow'', D_rat (th_maxFailedAttemptsPerWindow th))]\<rparr>]
      else [])"

definition privilege_signal :: "HighImpactOperationInput \<Rightarrow> AbuseActorContext \<Rightarrow> AbuseRiskSignal list" where
  "privilege_signal operation actor =
     (let isImpersonated = (ac_isImpersonated actor = Some True) in
      if isImpersonated \<or> op_kind operation = Admin_privilege_change \<or> op_kind operation = Mfa_reset
      then [\<lparr>sg_code = PRIVILEGE_OR_IMPERSONATION_CONTEXT, sg_category = Cat_session_context,
             sg_severity = (if isImpersonated then Sev_high else Sev_medium), sg_weight = (if isImpersonated then 40 else 35),
             sg_explanation = (if isImpersonated then ''High-impact operation attempted inside an active support/maintainer impersonation session.''
               else ''Sensitive privilege or security boundary mutation ('' @ kind_name (op_kind operation) @ '') requires elevated verification.''),
             sg_remediation = ''Provide fresh step-up verification (TOTP/2FA) or exit impersonation before executing high-impact mutations.'',
             sg_errorCode = FORBIDDEN,
             sg_evidence = [(''isImpersonated'', D_bool isImpersonated), (''operationKind'', D_str (kind_name (op_kind operation)))]\<rparr>]
      else [])"

definition bulk_signal :: "host \<Rightarrow> HighImpactOperationInput \<Rightarrow> AbuseDetectionThresholds \<Rightarrow> AbuseRiskSignal list" where
  "bulk_signal h operation th =
     (case op_recordOrRecipientCount operation of
        None \<Rightarrow> []
      | Some n \<Rightarrow>
          if js_le (Fin (th_bulkRecordThreshold th)) n
          then let isExtreme = js_le (Fin (th_bulkRecordThreshold th * 5)) n in
               [\<lparr>sg_code = BULK_FANOUT_OR_EXPORT_SPIKE, sg_category = Cat_velocity, sg_severity = (if isExtreme then Sev_high else Sev_medium),
                 sg_weight = (if isExtreme then 45 else 35),
                 sg_explanation = ''Operation targets '' @ js_show h n @ '' records/recipients (threshold: '' @ num h (th_bulkRecordThreshold th) @ '').'',
                 sg_remediation = ''Narrow the export/notification scope or complete step-up/operator review.'',
                 sg_errorCode = QUOTA_EXCEEDED,
                 sg_evidence = [(''recordOrRecipientCount'', D_num n), (''bulkRecordThreshold'', D_rat (th_bulkRecordThreshold th))]\<rparr>]
          else [])"

definition hasVerifiedDest :: "HighImpactOperationInput \<Rightarrow> AbuseActorContext \<Rightarrow> bool" where
  "hasVerifiedDest operation actor =
     (case (op_destination operation, ac_verifiedDestinations actor) of
        (Some destination, Some verified) \<Rightarrow> destination \<noteq> [] \<and> normalized destination \<in> normalized ` set verified
      | _ \<Rightarrow> False)"

definition mitigation_signal ::
  "HighImpactOperationInput \<Rightarrow> AbuseActorContext \<Rightarrow> AbuseBehavioralWindowState \<Rightarrow> AbuseRiskSignal list \<Rightarrow> AbuseRiskSignal list" where
  "mitigation_signal operation actor ws signals =
     (let positiveRiskWeight = sum_list (map sg_weight (filter (\<lambda>s. sg_weight s > 0) signals));
          hasCriticalSignal = list_ex (\<lambda>s. sg_severity s = Sev_critical) signals;
          isEstablishedAccount = (case ac_accountAgeDays actor of None \<Rightarrow> False | Some n \<Rightarrow> js_le (Fin 30) n)
      in if \<not> hasCriticalSignal \<and> isEstablishedAccount \<and> ac_mfaEnabled actor = Some True \<and> ws_recentOperationCount ws \<le> 1
            \<and> ws_recentFailedAttempts ws = 0 \<and> (hasVerifiedDest operation actor \<or> \<not> truthy (op_destination operation))
         then [\<lparr>sg_code = TRUSTED_PRINCIPAL_MITIGATION, sg_category = Cat_mitigation, sg_severity = Sev_info, sg_weight = -15,
                sg_explanation = ''Trusted principal baseline applied (established account tenure, MFA enabled, normal velocity, and verified destination context).'',
                sg_remediation = ''No action required.'', sg_errorCode = FORBIDDEN,
                sg_evidence = [(''accountAgeDays'', D_num (fallback (ac_accountAgeDays actor) (Fin 0))), (''mfaEnabled'', D_bool True),
                  (''verifiedDestination'', D_bool (hasVerifiedDest operation actor)), (''positiveRiskWeightBeforeMitigation'', D_rat positiveRiskWeight)]\<rparr>]
         else [])"

definition risk_signals ::
  "host \<Rightarrow> HighImpactOperationInput \<Rightarrow> AbuseActorContext \<Rightarrow> AbuseBehavioralWindowState \<Rightarrow> AbuseDetectionThresholds \<Rightarrow> AbuseRiskSignal list" where
  "risk_signals h operation actor ws th =
     counterparty_signal operation @ velocity_signal h ws th @ amount_signal h operation th @ destination_signal operation actor
     @ churn_signal h ws th @ context_signal actor @ credential_signal h actor th @ defi_signal h operation th
     @ failed_attempts_signal ws th @ privilege_signal operation actor @ bulk_signal h operation th"

definition signal_order :: "host \<Rightarrow> AbuseRiskSignal \<Rightarrow> AbuseRiskSignal \<Rightarrow> bool" where
  "signal_order h a b = (if sg_weight b \<noteq> sg_weight a then sg_weight b < sg_weight a else hs_localeLe h (code_name (sg_code a)) (code_name (sg_code b)))"

section \<open>The verdict\<close>

definition resolveRiskLevel :: "rat \<Rightarrow> bool \<Rightarrow> AbuseDetectionThresholds \<Rightarrow> AbuseRiskLevel" where
  "resolveRiskLevel score hasCriticalSignal th =
     (if hasCriticalSignal \<or> score \<ge> th_blockScoreThreshold th then Risk_critical
      else if score \<ge> th_manualReviewScoreThreshold th then Risk_high
      else if score \<ge> th_stepUpScoreThreshold th then Risk_medium
      else Risk_low)"

record resolution =
  rs_disposition :: AbuseDisposition
  rs_allowed :: bool
  rs_stepUpSatisfied :: bool
  rs_reviewRequired :: bool
  rs_requiredAction :: AbuseRequiredAction
  rs_summary :: string

definition resolveDisposition :: "host \<Rightarrow> rat \<Rightarrow> bool \<Rightarrow> AbuseDetectionThresholds \<Rightarrow> bool \<Rightarrow> bool \<Rightarrow> AbuseRiskSignal list \<Rightarrow> resolution" where
  "resolveDisposition h score hasCriticalSignal th stepUpVerified reviewApproved signals =
     (let shadowMode = (th_mode th = Mode_shadow);
          reason = (\<lambda>otherwise. case signals of [] \<Rightarrow> otherwise | s # _ \<Rightarrow> sg_explanation s);
          scored = (\<lambda>pre post. pre @ ''(score='' @ num h score @ '')'' @ post)
      in if hasCriticalSignal \<or> score \<ge> th_blockScoreThreshold th
         then \<lparr>rs_disposition = Block, rs_allowed = shadowMode, rs_stepUpSatisfied = False, rs_reviewRequired = False, rs_requiredAction = Contact_security,
               rs_summary = scored (if shadowMode then ''[SHADOW] Operation would be blocked '' else ''Operation blocked due to critical risk signals '')
                 ('': '' @ reason ''Critical abuse risk threshold exceeded.'')\<rparr>
         else if score \<ge> th_manualReviewScoreThreshold th
         then if reviewApproved
              then \<lparr>rs_disposition = Allow_after_review, rs_allowed = True, rs_stepUpSatisfied = stepUpVerified, rs_reviewRequired = False, rs_requiredAction = No_action,
                    rs_summary = scored ''High-risk operation allowed via verified operator review approval '' ''.''\<rparr>
              else \<lparr>rs_disposition = Manual_review, rs_allowed = shadowMode, rs_stepUpSatisfied = False, rs_reviewRequired = True, rs_requiredAction = Await_operator_review,
                    rs_summary = scored (if shadowMode then ''[SHADOW] Operation would be queued for manual review '' else ''Operation held for manual security/compliance review '')
                      ('': '' @ reason ''High abuse risk score requires operator review.'')\<rparr>
         else if score \<ge> th_stepUpScoreThreshold th
         then if stepUpVerified
              then \<lparr>rs_disposition = Allow_after_step_up, rs_allowed = True, rs_stepUpSatisfied = True, rs_reviewRequired = False, rs_requiredAction = No_action,
                    rs_summary = scored ''Elevated-risk operation allowed after step-up verification '' ''.''\<rparr>
              else \<lparr>rs_disposition = Step_up_required, rs_allowed = shadowMode, rs_stepUpSatisfied = False, rs_reviewRequired = False, rs_requiredAction = Provide_totp_or_challenge,
                    rs_summary = scored (if shadowMode then ''[SHADOW] Operation would require step-up verification '' else ''Step-up authentication required before executing this operation '')
                      ('': '' @ reason ''Elevated risk score requires step-up authentication.'')\<rparr>
         else \<lparr>rs_disposition = Allow, rs_allowed = True, rs_stepUpSatisfied = stepUpVerified, rs_reviewRequired = False, rs_requiredAction = No_action,
               rs_summary = ''Operation permitted; risk score ('' @ num h score @ '') is within normal low-risk bounds.''\<rparr>)"

definition buildResult ::
  "host \<Rightarrow> AbuseRuleEvaluationContext \<Rightarrow> string \<Rightarrow> AbuseRiskSignal list \<Rightarrow> rat \<Rightarrow> rat \<Rightarrow> AbuseRiskLevel \<Rightarrow> resolution \<Rightarrow> AbuseAssessmentResult" where
  "buildResult h ctx operationDigest signals rawScore score riskLevel r =
     (let assessmentHash = hs_sha256 h (stringify h (D_obj
            [(''operationDigest'', D_str operationDigest), (''actorId'', D_str (ac_actorId (ev_actor ctx))), (''score'', D_rat score),
             (''disposition'', D_str (disposition_name (rs_disposition r))), (''mode'', D_str (mode_name (th_mode (ev_thresholds ctx)))),
             (''signalCodes'', D_list (map (\<lambda>s. D_str (code_name (sg_code s) @ '':'' @ num h (sg_weight s))) signals)), (''asOf'', D_str (ev_asOf ctx))]))
      in \<lparr>ar_assessmentId = ''abd:'' @ kind_name (op_kind (ev_operation ctx)) @ '':'' @ take 16 assessmentHash,
          ar_operationKind = op_kind (ev_operation ctx), ar_actorId = ac_actorId (ev_actor ctx), ar_score = score, ar_rawScore = rawScore,
          ar_riskLevel = riskLevel, ar_disposition = rs_disposition r, ar_mode = th_mode (ev_thresholds ctx), ar_allowed = rs_allowed r,
          ar_stepUpSatisfied = rs_stepUpSatisfied r, ar_reviewRequired = rs_reviewRequired r, ar_reviewId = None, ar_requiredAction = rs_requiredAction r,
          ar_signals = signals, ar_operationDigest = operationDigest, ar_digest = assessmentHash, ar_evaluatedAt = ev_asOf ctx, ar_summary = rs_summary r\<rparr>)"

definition evaluateAbuseRisk :: "host \<Rightarrow> AbuseRuleEvaluationContext \<Rightarrow> AbuseAssessmentResult" where
  "evaluateAbuseRisk h ctx =
     (let operation = ev_operation ctx; actor = ev_actor ctx; ws = ev_windowState ctx; th = ev_thresholds ctx;
          operationDigest = computeOperationDigest h operation (ac_actorId actor)
      in if th_mode th = Mode_disabled
         then buildResult h ctx operationDigest [] 0 0 Risk_low
           \<lparr>rs_disposition = Allow, rs_allowed = True, rs_stepUpSatisfied = False, rs_reviewRequired = False, rs_requiredAction = No_action,
            rs_summary = ''Abuse detection is currently disabled; operation allowed without risk scoring.''\<rparr>
         else let found = risk_signals h operation actor ws th;
                  hasCriticalSignal = list_ex (\<lambda>s. sg_severity s = Sev_critical) found;
                  signals = js_sort (signal_order h) (found @ mitigation_signal operation actor ws found);
                  rawScore = sum_list (map sg_weight signals);
                  score = max 0 (min 100 rawScore)
              in buildResult h ctx operationDigest signals rawScore score (resolveRiskLevel score hasCriticalSignal th)
                   (resolveDisposition h score hasCriticalSignal th (ac_stepUpVerified actor = Some True) (ev_reviewApproved ctx = Some True) signals))"

section \<open>The score\<close>

abbreviation weight_of :: "AbuseRiskSignal list \<Rightarrow> rat" where
  "weight_of signals \<equiv> sum_list (map sg_weight signals)"

text \<open>The reference: the weights of the checks and of the mitigation, in the order of the checks, cut to 0 and 100.\<close>

definition risk_score :: "host \<Rightarrow> HighImpactOperationInput \<Rightarrow> AbuseActorContext \<Rightarrow> AbuseBehavioralWindowState \<Rightarrow> AbuseDetectionThresholds \<Rightarrow> rat" where
  "risk_score h operation actor ws th =
     (let found = risk_signals h operation actor ws th in max 0 (min 100 (weight_of found + weight_of (mitigation_signal operation actor ws found))))"

lemma weight_js_sort: "weight_of (js_sort le xs) = weight_of xs"
  by (metis mset_js_sort mset_map sum_mset_sum_list)

lemmas signal_defs = counterparty_signal_def velocity_signal_def amount_signal_def destination_signal_def churn_signal_def context_signal_def
  credential_signal_def defi_signal_def failed_attempts_signal_def privilege_signal_def bulk_signal_def

lemma only_counterparty_critical:
  "list_ex (\<lambda>g. sg_severity g = Sev_critical) (risk_signals h operation actor ws th) \<longleftrightarrow> op_counterpartyFlagged operation = Some True"
proof -
  have none: "\<not> list_ex (\<lambda>g. sg_severity g = Sev_critical) (velocity_signal h ws th)"
    "\<not> list_ex (\<lambda>g. sg_severity g = Sev_critical) (amount_signal h operation th)"
    "\<not> list_ex (\<lambda>g. sg_severity g = Sev_critical) (destination_signal operation actor)"
    "\<not> list_ex (\<lambda>g. sg_severity g = Sev_critical) (churn_signal h ws th)"
    "\<not> list_ex (\<lambda>g. sg_severity g = Sev_critical) (context_signal actor)"
    "\<not> list_ex (\<lambda>g. sg_severity g = Sev_critical) (credential_signal h actor th)"
    "\<not> list_ex (\<lambda>g. sg_severity g = Sev_critical) (defi_signal h operation th)"
    "\<not> list_ex (\<lambda>g. sg_severity g = Sev_critical) (failed_attempts_signal ws th)"
    "\<not> list_ex (\<lambda>g. sg_severity g = Sev_critical) (privilege_signal operation actor)"
    "\<not> list_ex (\<lambda>g. sg_severity g = Sev_critical) (bulk_signal h operation th)"
    unfolding signal_defs Let_def by (simp_all split: option.split)
  have "list_ex (\<lambda>g. sg_severity g = Sev_critical) (counterparty_signal operation) \<longleftrightarrow> op_counterpartyFlagged operation = Some True"
    by (simp add: counterparty_signal_def)
  then show ?thesis using none by (simp add: risk_signals_def)
qed

text \<open>What the evaluation decides, in the terms of the score.\<close>

lemma evaluateAbuseRisk_decides:
  fixes h :: host and ctx :: AbuseRuleEvaluationContext
  assumes "th_mode (ev_thresholds ctx) \<noteq> Mode_disabled"
  defines "score \<equiv> risk_score h (ev_operation ctx) (ev_actor ctx) (ev_windowState ctx) (ev_thresholds ctx)"
    and "flagged \<equiv> op_counterpartyFlagged (ev_operation ctx) = Some True" and "th \<equiv> ev_thresholds ctx"
  shows "ar_score (evaluateAbuseRisk h ctx) = score"
    "ar_riskLevel (evaluateAbuseRisk h ctx) = resolveRiskLevel score flagged th"
    "\<exists>signals. ar_disposition (evaluateAbuseRisk h ctx) =
        rs_disposition (resolveDisposition h score flagged th (ac_stepUpVerified (ev_actor ctx) = Some True) (ev_reviewApproved ctx = Some True) signals)
      \<and> ar_allowed (evaluateAbuseRisk h ctx) =
        rs_allowed (resolveDisposition h score flagged th (ac_stepUpVerified (ev_actor ctx) = Some True) (ev_reviewApproved ctx = Some True) signals)"
  using assms(1) unfolding score_def flagged_def th_def
  by (auto simp: evaluateAbuseRisk_def buildResult_def Let_def weight_js_sort risk_score_def only_counterparty_critical)

text \<open>Allowed under enforcement: no flagged counterparty, below the block threshold, approved when it needs a review, stepped up when it needs that.\<close>

lemma resolveDisposition_allowed:
  assumes "th_mode th = Mode_enforce" "monotonic_scores (th_stepUpScoreThreshold th) (th_manualReviewScoreThreshold th) (th_blockScoreThreshold th)"
  shows "rs_allowed (resolveDisposition h score flagged th stepUp approved signals) \<longleftrightarrow>
    \<not> flagged \<and> score < th_blockScoreThreshold th
    \<and> (th_manualReviewScoreThreshold th \<le> score \<longrightarrow> approved)
    \<and> (th_stepUpScoreThreshold th \<le> score \<and> score < th_manualReviewScoreThreshold th \<longrightarrow> stepUp)"
  using assms by (auto simp: resolveDisposition_def Let_def monotonic_scores_def)

lemma resolveDisposition_kind:
  "rs_disposition (resolveDisposition h score flagged th stepUp approved signals) =
    (if flagged \<or> score \<ge> th_blockScoreThreshold th then Block
     else if score \<ge> th_manualReviewScoreThreshold th then (if approved then Allow_after_review else Manual_review)
     else if score \<ge> th_stepUpScoreThreshold th then (if stepUp then Allow_after_step_up else Step_up_required)
     else Allow)"
  by (simp add: resolveDisposition_def Let_def)

lemma approved_needs_review: "ar_disposition (evaluateAbuseRisk h ctx) = Allow_after_review \<Longrightarrow> ev_reviewApproved ctx = Some True"
proof (cases "th_mode (ev_thresholds ctx) = Mode_disabled")
  case False
  assume "ar_disposition (evaluateAbuseRisk h ctx) = Allow_after_review"
  then show ?thesis using evaluateAbuseRisk_decides(3)[OF False, of h] by (auto simp: resolveDisposition_kind split: if_splits)
qed (simp add: evaluateAbuseRisk_def buildResult_def Let_def)

section \<open>Windows and the score\<close>

definition window_below :: "AbuseBehavioralWindowState \<Rightarrow> AbuseBehavioralWindowState \<Rightarrow> bool" where
  "window_below a b \<longleftrightarrow> ws_recentOperationCount a \<le> ws_recentOperationCount b
     \<and> length (ws_recentDistinctDestinations a) \<le> length (ws_recentDistinctDestinations b) \<and> ws_recentFailedAttempts a \<le> ws_recentFailedAttempts b"

lemma window_signals_grow:
  assumes "window_below a b"
  shows "weight_of (velocity_signal h a th) \<le> weight_of (velocity_signal h b th)"
    "weight_of (churn_signal h a th) \<le> weight_of (churn_signal h b th)"
    "weight_of (failed_attempts_signal a th) \<le> weight_of (failed_attempts_signal b th)"
proof -
  have le: "(of_nat (ws_recentOperationCount a) :: rat) \<le> of_nat (ws_recentOperationCount b)"
    "(of_nat (length (ws_recentDistinctDestinations a)) :: rat) \<le> of_nat (length (ws_recentDistinctDestinations b))"
    "(of_nat (ws_recentFailedAttempts a) :: rat) \<le> of_nat (ws_recentFailedAttempts b)"
    using assms by (simp_all add: window_below_def)
  show "weight_of (velocity_signal h a th) \<le> weight_of (velocity_signal h b th)"
    using le(1) by (auto simp: velocity_signal_def Let_def velocity_weight_def min_def)
  show "weight_of (churn_signal h a th) \<le> weight_of (churn_signal h b th)" using le(2) by (auto simp: churn_signal_def)
  show "weight_of (failed_attempts_signal a th) \<le> weight_of (failed_attempts_signal b th)" using le(3) by (auto simp: failed_attempts_signal_def)
qed

lemma mitigation_shrinks:
  assumes "window_below a b"
  shows "weight_of (mitigation_signal operation actor a (risk_signals h operation actor a th))
    \<le> weight_of (mitigation_signal operation actor b (risk_signals h operation actor b th))"
  using assms by (auto simp: mitigation_signal_def Let_def only_counterparty_critical window_below_def)

text \<open>The score grows with what the window holds: more operations, more destinations or more failed attempts of the same actor
  never lower the score of an operation.\<close>

theorem riskier_window_scores_higher:
  assumes "window_below (ev_windowState ctx) ws" "th_mode (ev_thresholds ctx) \<noteq> Mode_disabled"
  shows "ar_score (evaluateAbuseRisk h ctx) \<le> ar_score (evaluateAbuseRisk h (ctx\<lparr>ev_windowState := ws\<rparr>))"
proof -
  let ?o = "ev_operation ctx" and ?a = "ev_actor ctx" and ?th = "ev_thresholds ctx" and ?ws = "ev_windowState ctx"
  have "weight_of (risk_signals h ?o ?a ?ws ?th) \<le> weight_of (risk_signals h ?o ?a ws ?th)"
    unfolding risk_signals_def map_append sum_list_append
    by (intro add_mono order_refl window_signals_grow[OF assms(1)])
  moreover note mitigation_shrinks[OF assms(1), of ?o ?a h ?th]
  ultimately have "risk_score h ?o ?a ?ws ?th \<le> risk_score h ?o ?a ws ?th" unfolding risk_score_def Let_def by linarith
  then show ?thesis using assms(2) evaluateAbuseRisk_decides(1)[of ctx h] evaluateAbuseRisk_decides(1)[of "ctx\<lparr>ev_windowState := ws\<rparr>" h] by simp
qed

definition sample_host :: host where
  "sample_host = \<lparr>ne_Number = \<lambda>_. NotANumber, ne_toString = \<lambda>_. ''?'', hs_parse = \<lambda>_. None, hs_now = [],
     hs_localeLe = \<lambda>_ _. True, hs_sha256 = \<lambda>t. ''#'' @ t\<rparr>"

definition sample_actor :: AbuseActorContext where
  "sample_actor = \<lparr>ac_actorId = ''u1'', ac_actorRole = None, ac_tenantId = None, ac_sessionId = None, ac_ipAddress = None, ac_deviceFingerprint = None,
     ac_userAgent = None, ac_accountAgeDays = Some (Fin 90), ac_mfaEnabled = Some True, ac_stepUpVerified = None, ac_stepUpMethod = None,
     ac_isImpersonated = None, ac_impersonatorId = None, ac_minutesSinceLastCredentialChange = None, ac_knownDevicesOrIps = None,
     ac_verifiedDestinations = None, ac_reviewApprovalToken = None\<rparr>"

definition sample_operation :: "HighImpactOperationKind \<Rightarrow> HighImpactOperationInput" where
  "sample_operation kind = \<lparr>op_kind = kind, op_amount = None, op_historicalAverageAmount = None, op_asset = None, op_destination = None,
     op_portfolioId = None, op_adapterId = None, op_portfolioExitFraction = None, op_slippageBps = None, op_adapterVerified = None,
     op_recordOrRecipientCount = None, op_counterpartyFlagged = None, op_idempotencyKey = None, op_asOf = None\<rparr>"

definition sample_context :: AbuseRuleEvaluationContext where
  "sample_context = \<lparr>ev_operation = sample_operation Mfa_reset, ev_actor = sample_actor,
     ev_windowState = \<lparr>ws_recentOperationCount = 0, ws_recentDistinctDestinations = [], ws_recentFailedAttempts = 0\<rparr>,
     ev_thresholds = DEFAULT_ABUSE_THRESHOLDS_CORE, ev_asOf = ''t'', ev_reviewApproved = None\<rparr>"

definition sample_busy :: AbuseBehavioralWindowState where
  "sample_busy = \<lparr>ws_recentOperationCount = 6, ws_recentDistinctDestinations = [], ws_recentFailedAttempts = 3\<rparr>"

theorem riskier_window_scores_higher_witness:
  "ar_score (evaluateAbuseRisk sample_host sample_context) = 20
   \<and> ar_score (evaluateAbuseRisk sample_host (sample_context\<lparr>ev_windowState := sample_busy\<rparr>)) = 100
   \<and> ar_score (evaluateAbuseRisk sample_host sample_context) \<le> ar_score (evaluateAbuseRisk sample_host (sample_context\<lparr>ev_windowState := sample_busy\<rparr>))"
proof (intro conjI)
  show "ar_score (evaluateAbuseRisk sample_host sample_context) = 20"
    "ar_score (evaluateAbuseRisk sample_host (sample_context\<lparr>ev_windowState := sample_busy\<rparr>)) = 100"
    by (subst evaluateAbuseRisk_decides(1), (simp add: sample_context_def DEFAULT_ABUSE_THRESHOLDS_CORE_def; fail), code_simp)+
  have "window_below (ev_windowState sample_context) sample_busy" "th_mode (ev_thresholds sample_context) \<noteq> Mode_disabled" by code_simp+
  then show "ar_score (evaluateAbuseRisk sample_host sample_context) \<le> ar_score (evaluateAbuseRisk sample_host (sample_context\<lparr>ev_windowState := sample_busy\<rparr>))"
    by (rule riskier_window_scores_higher)
qed

end
