(* ===== verification/Abuse_Detection.thy ===== *)
theory Abuse_Detection
  imports Abuse_Rules
begin

text \<open>
  The abuse detector, \<open>src/security/abuse-detection/abuse-detection.service.ts\<close>: sliding windows per actor, the review queue
  with its approval tokens, the thresholds read from the configuration, telemetry and events; and what
  \<open>abuse-detection.guard.ts\<close> makes of a request.

  The service has no awaits: a call is one step.  The clock \<open>nowMs\<close>, the random token of an approval and the rendering
  of a time are arguments.  A date that does not parse counts as the clock.
\<close>

section \<open>State\<close>

record abuse_env = host +
  ae_iso :: "int \<Rightarrow> string" \<comment> \<open>\<open>new Date(ms).toISOString()\<close>\<close>
  ae_config :: "string \<Rightarrow> dyn" \<comment> \<open>\<open>configService.get\<close>\<close>

record ActorWindowBucket =
  bu_operationTimestampsMs :: "int list"
  bu_destinationHistory :: "(string \<times> int) list"
  bu_failedAttemptTimestampsMs :: "int list"

datatype AbuseReviewStatus = Rv_pending | Rv_approved | Rv_rejected | Rv_expired

fun review_status_name :: "AbuseReviewStatus \<Rightarrow> string" where
  "review_status_name Rv_pending = ''pending''"
| "review_status_name Rv_approved = ''approved''"
| "review_status_name Rv_rejected = ''rejected''"
| "review_status_name Rv_expired = ''expired''"

record AbuseReviewRecord =
  rv_reviewId :: string
  rv_assessmentId :: string
  rv_actorId :: string
  rv_operationKind :: HighImpactOperationKind
  rv_operationDigest :: string
  rv_score :: rat
  rv_riskLevel :: AbuseRiskLevel
  rv_signals :: "AbuseRiskSignal list"
  rv_status :: AbuseReviewStatus
  rv_createdAt :: string
  rv_expiresAt :: string
  rv_resolvedAt :: "string option"
  rv_resolvedBy :: "string option"
  rv_resolutionReason :: "string option"
  rv_approvalToken :: "string option"

record approval_entry =
  at_reviewId :: string
  at_actorId :: string
  at_operationDigest :: string
  at_expiresAtMs :: int

datatype abuse_event =
    Assessment_completed AbuseAssessmentResult
  | Step_up_event AbuseAssessmentResult
  | Review_queued AbuseAssessmentResult
  | Operation_blocked AbuseAssessmentResult
  | Review_resolved string bool string string

record abuse_service =
  as_actorWindows :: "(string, ActorWindowBucket) jsmap"
  as_reviews :: "(string, AbuseReviewRecord) jsmap"
  as_approvalTokens :: "(string, approval_entry) jsmap"
  as_lastEvaluatedAtMs :: "int option"
  as_totalAssessments :: nat
  as_shadowWouldHaveBlockedOrChallenged :: nat
  as_byDisposition :: "(AbuseDisposition, nat) jsmap"
  as_byRiskLevel :: "(AbuseRiskLevel, nat) jsmap"
  as_byOperationKind :: "(HighImpactOperationKind, nat) jsmap"
  as_bySignalCode :: "(AbuseSignalCode, nat) jsmap"
  as_events :: "abuse_event list"

definition new_abuse_service :: abuse_service where
  "new_abuse_service =
     \<lparr>as_actorWindows = [], as_reviews = [], as_approvalTokens = [], as_lastEvaluatedAtMs = None, as_totalAssessments = 0,
      as_shadowWouldHaveBlockedOrChallenged = 0,
      as_byDisposition = [(Allow, 0), (Allow_after_step_up, 0), (Allow_after_review, 0), (Step_up_required, 0), (Manual_review, 0), (Block, 0)],
      as_byRiskLevel = [(Risk_low, 0), (Risk_medium, 0), (Risk_high, 0), (Risk_critical, 0)],
      as_byOperationKind = [], as_bySignalCode = [], as_events = []\<rparr>"

definition MAX_TRACKED_ACTORS :: nat where
  "MAX_TRACKED_ACTORS = 5000"

definition REVIEW_TTL_MS :: int where
  "REVIEW_TTL_MS = 24 * 60 * 60 * 1000"

section \<open>Configuration\<close>

definition parseTimestampMs :: "abuse_env \<Rightarrow> int \<Rightarrow> string \<Rightarrow> int" where
  "parseTimestampMs e nowMs stamp = fallback (hs_parse e stamp) nowMs"

definition readString :: "abuse_env \<Rightarrow> string \<Rightarrow> string \<Rightarrow> string" where
  "readString e key otherwise = (case ae_config e key of D_str raw \<Rightarrow> if trim raw \<noteq> [] then trim raw else otherwise | _ \<Rightarrow> otherwise)"

definition readPositiveNumber :: "abuse_env \<Rightarrow> string \<Rightarrow> rat \<Rightarrow> rat" where
  "readPositiveNumber e key otherwise = (case js_Number (host.truncate e) (ae_config e key) of Fin raw \<Rightarrow> if raw > 0 then raw else otherwise | _ \<Rightarrow> otherwise)"

definition resolveThresholds :: "abuse_env \<Rightarrow> AbuseDetectionThresholds" where
  "resolveThresholds e =
     (let d = DEFAULT_ABUSE_THRESHOLDS_CORE;
          modeRaw = toLowerCase (readString e ''ABUSE_DETECTION_MODE'' (mode_name (th_mode d)));
          mode = (if modeRaw = ''shadow'' then Mode_shadow else if modeRaw = ''disabled'' then Mode_disabled
                  else if modeRaw = ''enforce'' then Mode_enforce else th_mode d);
          stepUp = readPositiveNumber e ''ABUSE_STEP_UP_SCORE_THRESHOLD'' (th_stepUpScoreThreshold d);
          manualReview = readPositiveNumber e ''ABUSE_MANUAL_REVIEW_SCORE_THRESHOLD'' (th_manualReviewScoreThreshold d);
          blocked = readPositiveNumber e ''ABUSE_BLOCK_SCORE_THRESHOLD'' (th_blockScoreThreshold d);
          th = \<lparr>th_mode = mode, th_stepUpScoreThreshold = stepUp, th_manualReviewScoreThreshold = manualReview, th_blockScoreThreshold = blocked,
            th_velocityWindowSeconds = readPositiveNumber e ''ABUSE_VELOCITY_WINDOW_SECONDS'' (th_velocityWindowSeconds d),
            th_maxOperationsPerWindow = readPositiveNumber e ''ABUSE_MAX_OPS_PER_WINDOW'' (th_maxOperationsPerWindow d),
            th_highValueAmountThreshold = readPositiveNumber e ''ABUSE_HIGH_VALUE_AMOUNT_THRESHOLD'' (th_highValueAmountThreshold d),
            th_amountSpikeMultiplier = readPositiveNumber e ''ABUSE_AMOUNT_SPIKE_MULTIPLIER'' (th_amountSpikeMultiplier d),
            th_maxDistinctDestinationsPerWindow = readPositiveNumber e ''ABUSE_MAX_DESTINATIONS_PER_WINDOW'' (th_maxDistinctDestinationsPerWindow d),
            th_credentialCoolingPeriodMinutes = readPositiveNumber e ''ABUSE_CREDENTIAL_COOLING_MINUTES'' (th_credentialCoolingPeriodMinutes d),
            th_highSlippageBpsThreshold = readPositiveNumber e ''ABUSE_HIGH_SLIPPAGE_BPS_THRESHOLD'' (th_highSlippageBpsThreshold d),
            th_maxFailedAttemptsPerWindow = readPositiveNumber e ''ABUSE_MAX_FAILED_ATTEMPTS_PER_WINDOW'' (th_maxFailedAttemptsPerWindow d),
            th_bulkRecordThreshold = readPositiveNumber e ''ABUSE_BULK_RECORD_THRESHOLD'' (th_bulkRecordThreshold d)\<rparr>
      in if monotonic_scores stepUp manualReview blocked then th else default_scores th)"

section \<open>Windows\<close>

definition cutoffMs :: "int \<Rightarrow> rat \<Rightarrow> rat" where
  "cutoffMs nowMs windowSeconds = of_int nowMs - windowSeconds * 1000"

abbreviation since :: "rat \<Rightarrow> int list \<Rightarrow> int list" where
  "since cutoff ts \<equiv> filter (\<lambda>t. of_int t \<ge> cutoff) ts"

definition getBehavioralWindowState :: "string \<Rightarrow> rat \<Rightarrow> int \<Rightarrow> abuse_service \<Rightarrow> AbuseBehavioralWindowState \<times> abuse_service" where
  "getBehavioralWindowState actorId windowSeconds nowMs s =
     (case map_get (as_actorWindows s) actorId of
        None \<Rightarrow> (\<lparr>ws_recentOperationCount = 0, ws_recentDistinctDestinations = [], ws_recentFailedAttempts = 0\<rparr>, s)
      | Some b \<Rightarrow>
          let c = cutoffMs nowMs windowSeconds;
              b1 = b\<lparr>bu_operationTimestampsMs := since c (bu_operationTimestampsMs b),
                     bu_destinationHistory := filter (\<lambda>(_, t). of_int t \<ge> c) (bu_destinationHistory b),
                     bu_failedAttemptTimestampsMs := since c (bu_failedAttemptTimestampsMs b)\<rparr>
          in (\<lparr>ws_recentOperationCount = length (bu_operationTimestampsMs b1),
               ws_recentDistinctDestinations = js_set (map fst (bu_destinationHistory b1)),
               ws_recentFailedAttempts = length (bu_failedAttemptTimestampsMs b1)\<rparr>,
              s\<lparr>as_actorWindows := map_set actorId b1 (as_actorWindows s)\<rparr>))"

definition getOrCreateBucket :: "string \<Rightarrow> abuse_service \<Rightarrow> ActorWindowBucket \<times> abuse_service" where
  "getOrCreateBucket actorId s =
     (case map_get (as_actorWindows s) actorId of
        Some b \<Rightarrow> (b, s)
      | None \<Rightarrow>
          let ws = (if length (as_actorWindows s) \<ge> MAX_TRACKED_ACTORS
                    then (case as_actorWindows s of [] \<Rightarrow> [] | (oldestKey, _) # _ \<Rightarrow> map_delete oldestKey (as_actorWindows s))
                    else as_actorWindows s);
              b = \<lparr>bu_operationTimestampsMs = [], bu_destinationHistory = [], bu_failedAttemptTimestampsMs = []\<rparr>
          in (b, s\<lparr>as_actorWindows := map_set actorId b ws\<rparr>))"

definition recordOperationAttempt :: "string \<Rightarrow> string option \<Rightarrow> rat \<Rightarrow> int \<Rightarrow> abuse_service \<Rightarrow> abuse_service" where
  "recordOperationAttempt actorId destination windowSeconds nowMs s =
     (let (b, s1) = getOrCreateBucket actorId s;
          c = cutoffMs nowMs windowSeconds;
          b1 = b\<lparr>bu_operationTimestampsMs := since c (bu_operationTimestampsMs b) @ [nowMs]\<rparr>;
          b2 = (case destination of
                  None \<Rightarrow> b1
                | Some d \<Rightarrow> if trim d = [] then b1
                    else b1\<lparr>bu_destinationHistory := filter (\<lambda>(_, t). of_int t \<ge> c) (bu_destinationHistory b1) @ [(normalized d, nowMs)]\<rparr>)
      in s1\<lparr>as_actorWindows := map_set actorId b2 (as_actorWindows s1)\<rparr>)"

definition recordFailedAttempt :: "abuse_env \<Rightarrow> int \<Rightarrow> string \<Rightarrow> string option \<Rightarrow> abuse_service \<Rightarrow> abuse_service" where
  "recordFailedAttempt e clock actorId asOf s =
     (let nowMs = (case asOf of None \<Rightarrow> clock | Some stamp \<Rightarrow> parseTimestampMs e clock stamp);
          (b, s1) = getOrCreateBucket actorId s;
          c = cutoffMs nowMs (th_velocityWindowSeconds (resolveThresholds e));
          b1 = b\<lparr>bu_failedAttemptTimestampsMs := since c (bu_failedAttemptTimestampsMs b) @ [nowMs]\<rparr>
      in s1\<lparr>as_actorWindows := map_set actorId b1 (as_actorWindows s1)\<rparr>)"

definition resetActorWindowState :: "string \<Rightarrow> abuse_service \<Rightarrow> abuse_service" where
  "resetActorWindowState actorId s = s\<lparr>as_actorWindows := map_delete actorId (as_actorWindows s)\<rparr>"

section \<open>Reviews\<close>

definition enqueueReview :: "abuse_env \<Rightarrow> AbuseAssessmentResult \<Rightarrow> int \<Rightarrow> abuse_service \<Rightarrow> AbuseReviewRecord \<times> abuse_service" where
  "enqueueReview e a nowMs s =
     (let reviewHash = take 16 (hs_sha256 e (ar_actorId a @ '':'' @ ar_operationDigest a));
          reviewId = ''rv:'' @ kind_name (ar_operationKind a) @ '':'' @ reviewHash;
          fresh = \<lparr>rv_reviewId = reviewId, rv_assessmentId = ar_assessmentId a, rv_actorId = ar_actorId a, rv_operationKind = ar_operationKind a,
            rv_operationDigest = ar_operationDigest a, rv_score = ar_score a, rv_riskLevel = ar_riskLevel a, rv_signals = ar_signals a,
            rv_status = Rv_pending, rv_createdAt = ar_evaluatedAt a, rv_expiresAt = ae_iso e (nowMs + REVIEW_TTL_MS),
            rv_resolvedAt = None, rv_resolvedBy = None, rv_resolutionReason = None, rv_approvalToken = None\<rparr>;
          put = (fresh, s\<lparr>as_reviews := map_set reviewId fresh (as_reviews s)\<rparr>)
      in case map_get (as_reviews s) reviewId of
           Some existing \<Rightarrow> if rv_status existing = Rv_pending then (existing, s) else put
         | None \<Rightarrow> put)"

definition consumeApprovalTokenIfValid :: "string option \<Rightarrow> string \<Rightarrow> string \<Rightarrow> int \<Rightarrow> abuse_service \<Rightarrow> bool \<times> abuse_service" where
  "consumeApprovalTokenIfValid token actorId operationDigest nowMs s =
     (case token of
        None \<Rightarrow> (False, s)
      | Some t \<Rightarrow>
          if t = [] then (False, s)
          else case map_get (as_approvalTokens s) (trim t) of
            None \<Rightarrow> (False, s)
          | Some entry \<Rightarrow>
              let used = s\<lparr>as_approvalTokens := map_delete (trim t) (as_approvalTokens s)\<rparr> in
              if nowMs > at_expiresAtMs entry then (False, used)
              else if at_actorId entry \<noteq> actorId \<or> at_operationDigest entry \<noteq> operationDigest then (False, s)
              else (True, used))"

definition expireStaleReviews :: "abuse_env \<Rightarrow> int \<Rightarrow> abuse_service \<Rightarrow> abuse_service" where
  "expireStaleReviews e nowMs s =
     s\<lparr>as_reviews := map (\<lambda>(k, r). (k, if rv_status r = Rv_pending \<and> (case hs_parse e (rv_expiresAt r) of None \<Rightarrow> False | Some t \<Rightarrow> nowMs > t)
        then r\<lparr>rv_status := Rv_expired\<rparr> else r)) (as_reviews s)\<rparr>"

definition asked_time :: "abuse_env \<Rightarrow> int \<Rightarrow> string option \<Rightarrow> abuse_service \<Rightarrow> int" where
  "asked_time e clock asOf s =
     (case asOf of Some stamp \<Rightarrow> if stamp \<noteq> [] then parseTimestampMs e clock stamp else fallback (as_lastEvaluatedAtMs s) clock
      | None \<Rightarrow> fallback (as_lastEvaluatedAtMs s) clock)"

definition listReviews :: "abuse_env \<Rightarrow> int \<Rightarrow> AbuseReviewStatus option \<Rightarrow> string option \<Rightarrow> string option \<Rightarrow> abuse_service \<Rightarrow> AbuseReviewRecord list \<times> abuse_service" where
  "listReviews e clock status actorId asOf s =
     (let s1 = expireStaleReviews e (asked_time e clock asOf s) s in
      (js_sort (\<lambda>a b. hs_localeLe e (rv_createdAt b) (rv_createdAt a))
         (filter (\<lambda>r. (case status of None \<Rightarrow> True | Some x \<Rightarrow> rv_status r = x) \<and> (case actorId of None \<Rightarrow> True | Some x \<Rightarrow> x = [] \<or> rv_actorId r = x))
           (map snd (as_reviews s1))), s1))"

datatype abuse_error =
    Bad_request string
  | Not_found string
  | Step_up_exception AbuseAssessmentResult
  | Manual_review_exception AbuseAssessmentResult
  | Blocked_exception AbuseAssessmentResult

abbreviation no_review :: "string \<Rightarrow> abuse_error" where
  "no_review reviewId \<equiv> Not_found (''Abuse review record '' @ reviewId @ '' not found'')"

definition getReview :: "abuse_env \<Rightarrow> int \<Rightarrow> string \<Rightarrow> string option \<Rightarrow> abuse_service \<Rightarrow> (abuse_error + AbuseReviewRecord) \<times> abuse_service" where
  "getReview e clock reviewId asOf s =
     (let s1 = expireStaleReviews e (asked_time e clock asOf s) s in
      (case map_get (as_reviews s1) reviewId of None \<Rightarrow> Inl (no_review reviewId) | Some r \<Rightarrow> Inr r, s1))"

definition resolveReview ::
  "abuse_env \<Rightarrow> int \<Rightarrow> string \<Rightarrow> string \<Rightarrow> bool \<Rightarrow> string \<Rightarrow> string \<Rightarrow> string option \<Rightarrow> abuse_service \<Rightarrow> (abuse_error + AbuseReviewRecord) \<times> abuse_service" where
  "resolveReview e clock token reviewId approved operatorId reason asOf s =
     (let trimmedReason = trim reason in
      if length trimmedReason < 10
      then (Inl (Bad_request ''A detailed resolution reason (at least 10 characters) is required for audit compliance.''), s)
      else let nowIso = (case asOf of Some stamp \<Rightarrow> stamp
                 | None \<Rightarrow> (case as_lastEvaluatedAtMs s of Some t \<Rightarrow> if t \<noteq> 0 then ae_iso e t else ae_iso e clock | None \<Rightarrow> ae_iso e clock));
               nowMs = parseTimestampMs e clock nowIso;
               s1 = expireStaleReviews e nowMs s
           in case map_get (as_reviews s1) reviewId of
                None \<Rightarrow> (Inl (no_review reviewId), s1)
              | Some review \<Rightarrow>
                  if rv_status review \<noteq> Rv_pending
                  then (Inl (Bad_request (''Abuse review '' @ reviewId @ '' cannot be resolved because its current status is '' @ sq @ review_status_name (rv_status review) @ sq @ ''.'')), s1)
                  else let r1 = review\<lparr>rv_status := (if approved then Rv_approved else Rv_rejected), rv_resolvedAt := Some nowIso,
                             rv_resolvedBy := Some operatorId, rv_resolutionReason := Some trimmedReason\<rparr>;
                           r2 = (if approved then r1\<lparr>rv_approvalToken := Some token\<rparr> else r1);
                           s2 = s1\<lparr>as_reviews := map_set reviewId r2 (as_reviews s1)\<rparr>;
                           s3 = (if approved
                             then s2\<lparr>as_approvalTokens := map_set token \<lparr>at_reviewId = rv_reviewId review, at_actorId = rv_actorId review,
                               at_operationDigest = rv_operationDigest review, at_expiresAtMs = nowMs + REVIEW_TTL_MS\<rparr> (as_approvalTokens s2)\<rparr>
                             else s2)
                       in (Inr r2, s3\<lparr>as_events := as_events s3 @ [Review_resolved (rv_reviewId review) approved operatorId nowIso]\<rparr>))"

section \<open>Telemetry\<close>

definition bump :: "'k \<Rightarrow> ('k, nat) jsmap \<Rightarrow> ('k, nat) jsmap" where
  "bump k m = map_set k (fallback (map_get m k) 0 + 1) m"

definition recordTelemetry :: "AbuseAssessmentResult \<Rightarrow> abuse_service \<Rightarrow> abuse_service" where
  "recordTelemetry a s =
     s\<lparr>as_totalAssessments := as_totalAssessments s + 1,
       as_byDisposition := bump (ar_disposition a) (as_byDisposition s),
       as_byRiskLevel := bump (ar_riskLevel a) (as_byRiskLevel s),
       as_byOperationKind := bump (ar_operationKind a) (as_byOperationKind s),
       as_bySignalCode := foldl (\<lambda>m g. bump (sg_code g) m) (as_bySignalCode s) (ar_signals a),
       as_shadowWouldHaveBlockedOrChallenged := as_shadowWouldHaveBlockedOrChallenged s
         + (if ar_mode a = Mode_shadow \<and> ar_disposition a \<in> {Step_up_required, Manual_review, Block} then 1 else 0)\<rparr>"

definition emitDomainEvents :: "AbuseAssessmentResult \<Rightarrow> abuse_service \<Rightarrow> abuse_service" where
  "emitDomainEvents a s =
     s\<lparr>as_events := as_events s @ [Assessment_completed a] @
       (if ar_disposition a = Step_up_required then [Step_up_event a]
        else if ar_disposition a = Manual_review then [Review_queued a]
        else if ar_disposition a = Block then [Operation_blocked a]
        else [])\<rparr>"

record AbuseDetectionMetricsSnapshot =
  ms_mode :: AbuseDetectionMode
  ms_totalAssessments :: nat
  ms_byDisposition :: "(AbuseDisposition, nat) jsmap"
  ms_byRiskLevel :: "(AbuseRiskLevel, nat) jsmap"
  ms_byOperationKind :: "(HighImpactOperationKind, nat) jsmap"
  ms_bySignalCode :: "(AbuseSignalCode, nat) jsmap"
  ms_pendingReviews :: nat
  ms_approvedReviews :: nat
  ms_rejectedReviews :: nat
  ms_shadowWouldHaveBlockedOrChallenged :: nat

definition getMetricsSnapshot :: "abuse_env \<Rightarrow> int \<Rightarrow> string option \<Rightarrow> abuse_service \<Rightarrow> AbuseDetectionMetricsSnapshot \<times> abuse_service" where
  "getMetricsSnapshot e clock asOf s =
     (let s1 = expireStaleReviews e (asked_time e clock asOf s) s;
          tally = (\<lambda>st. length (filter (\<lambda>r. rv_status r = st) (map snd (as_reviews s1))))
      in (\<lparr>ms_mode = th_mode (resolveThresholds e), ms_totalAssessments = as_totalAssessments s1, ms_byDisposition = as_byDisposition s1,
           ms_byRiskLevel = as_byRiskLevel s1, ms_byOperationKind = as_byOperationKind s1, ms_bySignalCode = as_bySignalCode s1,
           ms_pendingReviews = tally Rv_pending, ms_approvedReviews = tally Rv_approved, ms_rejectedReviews = tally Rv_rejected,
           ms_shadowWouldHaveBlockedOrChallenged = as_shadowWouldHaveBlockedOrChallenged s1\<rparr>, s1))"

section \<open>Evaluation\<close>

definition evaluateOperation ::
  "abuse_env \<Rightarrow> int \<Rightarrow> HighImpactOperationInput \<Rightarrow> AbuseActorContext \<Rightarrow> partial_thresholds option \<Rightarrow> abuse_service \<Rightarrow> AbuseAssessmentResult \<times> abuse_service" where
  "evaluateOperation e clock operation actor overrideThresholds s =
     (let th = (case overrideThresholds of None \<Rightarrow> resolveThresholds e | Some p \<Rightarrow> override_thresholds (resolveThresholds e) p);
          asOf = fallback (op_asOf operation) (ae_iso e clock);
          nowMs = parseTimestampMs e clock asOf;
          s1 = s\<lparr>as_lastEvaluatedAtMs := Some nowMs\<rparr>;
          (ws, s2) = getBehavioralWindowState (ac_actorId actor) (th_velocityWindowSeconds th) nowMs s1;
          operationDigest = computeOperationDigest (host.truncate e) operation (ac_actorId actor);
          (reviewApproved, s3) = consumeApprovalTokenIfValid (ac_reviewApprovalToken actor) (ac_actorId actor) operationDigest nowMs s2;
          a = evaluateAbuseRisk (host.truncate e) \<lparr>ev_operation = operation, ev_actor = actor, ev_windowState = ws, ev_thresholds = th, ev_asOf = asOf, ev_reviewApproved = Some reviewApproved\<rparr>;
          s4 = recordOperationAttempt (ac_actorId actor) (op_destination operation) (th_velocityWindowSeconds th) nowMs s3;
          (a1, s5) = (if ar_disposition a = Manual_review
            then let (review, t) = enqueueReview e a nowMs s4 in (a\<lparr>ar_reviewId := Some (rv_reviewId review)\<rparr>, t)
            else (a, s4))
      in (a1, emitDomainEvents a1 (recordTelemetry a1 s5)))"

definition assertProceedable :: "AbuseAssessmentResult \<Rightarrow> abuse_error + AbuseAssessmentResult" where
  "assertProceedable a =
     (if ar_allowed a then Inr a
      else case ar_disposition a of
             Step_up_required \<Rightarrow> Inl (Step_up_exception a)
           | Manual_review \<Rightarrow> Inl (Manual_review_exception a)
           | _ \<Rightarrow> Inl (Blocked_exception a))"

record EvaluateAbuseRiskDto =
  dt_operation :: HighImpactOperationInput
  dt_deviceFingerprint :: "string option"
  dt_accountAgeDays :: "js_number option"
  dt_mfaEnabled :: "bool option"
  dt_stepUpVerified :: "bool option"
  dt_minutesSinceLastCredentialChange :: "js_number option"
  dt_knownDevicesOrIps :: "string list option"
  dt_verifiedDestinations :: "string list option"
  dt_reviewApprovalToken :: "string option"

abbreviation or_of :: "'a option \<Rightarrow> 'a option \<Rightarrow> 'a option" where
  "or_of x y \<equiv> (case x of None \<Rightarrow> y | Some v \<Rightarrow> Some v)"

definition dto_actor :: "EvaluateAbuseRiskDto \<Rightarrow> AbuseActorContext \<Rightarrow> AbuseActorContext" where
  "dto_actor dto caller =
     caller\<lparr>ac_deviceFingerprint := or_of (dt_deviceFingerprint dto) (ac_deviceFingerprint caller),
       ac_accountAgeDays := or_of (dt_accountAgeDays dto) (ac_accountAgeDays caller),
       ac_mfaEnabled := or_of (dt_mfaEnabled dto) (ac_mfaEnabled caller),
       ac_stepUpVerified := or_of (dt_stepUpVerified dto) (ac_stepUpVerified caller),
       ac_minutesSinceLastCredentialChange := or_of (dt_minutesSinceLastCredentialChange dto) (ac_minutesSinceLastCredentialChange caller),
       ac_knownDevicesOrIps := or_of (dt_knownDevicesOrIps dto) (ac_knownDevicesOrIps caller),
       ac_verifiedDestinations := or_of (dt_verifiedDestinations dto) (ac_verifiedDestinations caller),
       ac_reviewApprovalToken := or_of (dt_reviewApprovalToken dto) (ac_reviewApprovalToken caller)\<rparr>"

definition evaluateDto :: "abuse_env \<Rightarrow> int \<Rightarrow> EvaluateAbuseRiskDto \<Rightarrow> AbuseActorContext \<Rightarrow> abuse_service \<Rightarrow> AbuseAssessmentResult \<times> abuse_service" where
  "evaluateDto e clock dto caller s = evaluateOperation e clock (dt_operation dto) (dto_actor dto caller) None s"

section \<open>The guard\<close>

text \<open>A request: the fields of the authenticated user, the headers, the body and the path parameters, and its address.\<close>

record http_request =
  rq_user :: "(string, dyn) jsmap"
  rq_headers :: "(string, dyn) jsmap"
  rq_body :: "(string, dyn) jsmap"
  rq_params :: "(string, dyn) jsmap"
  rq_ip :: "string option"

fun as_string :: "dyn \<Rightarrow> string option" where
  "as_string (D_str v) = Some v"
| "as_string _ = None"

fun as_number :: "dyn \<Rightarrow> js_number option" where
  "as_number (D_num n) = Some n"
| "as_number _ = None"

fun as_bool :: "dyn \<Rightarrow> bool option" where
  "as_bool (D_bool b) = Some b"
| "as_bool _ = None"

fun as_strings :: "dyn \<Rightarrow> string list option" where
  "as_strings (D_list xs) = Some (map (\<lambda>x. fallback (as_string x) []) xs)"
| "as_strings _ = None"

abbreviation coalesce :: "dyn \<Rightarrow> dyn \<Rightarrow> dyn" where
  "coalesce x y \<equiv> (if x = D_undefined \<or> x = D_null then y else x)"

definition claims_step_up :: "http_request \<Rightarrow> bool" where
  "claims_step_up rq =
     (let user = dyn_field (rq_user rq); headers = dyn_field (rq_headers rq); body = dyn_field (rq_body rq);
          stepUpHeader = coalesce (coalesce (headers ''x-step-up-verified'') (headers ''x-totp-token'')) (headers ''x-2fa-token'')
      in user ''twoFactorVerified'' = D_bool True \<or> user ''stepUpVerified'' = D_bool True \<or> body ''stepUpVerified'' = D_bool True
         \<or> stepUpHeader = D_str ''true'' \<or> (case stepUpHeader of D_str v \<Rightarrow> length (trim v) \<ge> 6 | _ \<Rightarrow> False))"

definition extractActorContext :: "abuse_env \<Rightarrow> http_request \<Rightarrow> AbuseActorContext" where
  "extractActorContext e rq =
     (let user = dyn_field (rq_user rq); headers = dyn_field (rq_headers rq); body = dyn_field (rq_body rq);
          header_or = (\<lambda>name field. case as_string (headers name) of Some v \<Rightarrow> Some v | None \<Rightarrow> as_string (body field))
      in \<lparr>ac_actorId = js_String (host.truncate e) (coalesce (coalesce (coalesce (user ''id'') (user ''sub'')) (user ''address''))
            (case rq_ip rq of None \<Rightarrow> D_str ''anonymous'' | Some ip \<Rightarrow> D_str ip)),
          ac_actorRole = as_string (user ''role''), ac_tenantId = as_string (user ''tenantId''), ac_sessionId = as_string (user ''sessionId''),
          ac_ipAddress = (case headers ''x-forwarded-for'' of D_str v \<Rightarrow> if trim v \<noteq> [] then Some (trim (takeWhile (\<lambda>c. c \<noteq> CHR '','') v)) else rq_ip rq | _ \<Rightarrow> rq_ip rq),
          ac_deviceFingerprint = header_or ''x-device-fingerprint'' ''deviceFingerprint'',
          ac_userAgent = as_string (headers ''user-agent''),
          ac_accountAgeDays = (case as_number (user ''accountAgeDays'') of Some n \<Rightarrow> Some n | None \<Rightarrow> as_number (body ''accountAgeDays'')),
          ac_mfaEnabled = (case as_bool (user ''mfaEnabled'') of Some b \<Rightarrow> Some b | None \<Rightarrow> as_bool (body ''mfaEnabled'')),
          ac_stepUpVerified = Some (claims_step_up rq), ac_stepUpMethod = None,
          ac_isImpersonated = Some (user ''isImpersonated'' = D_bool True \<or> js_Boolean (user ''impersonatorId'')),
          ac_impersonatorId = as_string (user ''impersonatorId''),
          ac_minutesSinceLastCredentialChange = (case as_number (user ''minutesSinceLastCredentialChange'') of Some n \<Rightarrow> Some n
            | None \<Rightarrow> as_number (body ''minutesSinceLastCredentialChange'')),
          ac_knownDevicesOrIps = as_strings (coalesce (user ''knownDevicesOrIps'') (body ''knownDevicesOrIps'')),
          ac_verifiedDestinations = as_strings (coalesce (user ''verifiedDestinations'') (body ''verifiedDestinations'')),
          ac_reviewApprovalToken = header_or ''x-review-approval-token'' ''reviewApprovalToken''\<rparr>)"

record HighImpactOperationMetadata =
  mt_kind :: HighImpactOperationKind
  mt_amountField :: "string option"
  mt_assetField :: "string option"
  mt_destinationField :: "string option"
  mt_portfolioIdField :: "string option"
  mt_adapterIdField :: "string option"
  mt_slippageBpsField :: "string option"
  mt_portfolioExitFractionField :: "string option"
  mt_recordCountField :: "string option"

definition extractOperationInput :: "abuse_env \<Rightarrow> HighImpactOperationMetadata \<Rightarrow> http_request \<Rightarrow> HighImpactOperationInput" where
  "extractOperationInput e m rq =
     (let body = dyn_field (rq_body rq); params = dyn_field (rq_params rq); headers = dyn_field (rq_headers rq);
          field = (\<lambda>given otherwise. body (fallback given otherwise));
          amount = (case field (mt_amountField m) ''amount'' of
             D_num n \<Rightarrow> Some n
           | D_str v \<Rightarrow> if trim v \<noteq> [] then Some (ne_Number e v) else None
           | _ \<Rightarrow> None)
      in \<lparr>op_kind = mt_kind m, op_amount = (case amount of Some (Fin q) \<Rightarrow> Some (Fin q) | _ \<Rightarrow> None),
          op_historicalAverageAmount = as_number (body ''historicalAverageAmount''),
          op_asset = as_string (field (mt_assetField m) ''asset''), op_destination = as_string (field (mt_destinationField m) ''destination''),
          op_portfolioId = as_string (coalesce (field (mt_portfolioIdField m) ''portfolioId'') (params ''portfolioId'')),
          op_adapterId = as_string (coalesce (field (mt_adapterIdField m) ''adapterId'') (params ''adapterId'')),
          op_portfolioExitFraction = as_number (field (mt_portfolioExitFractionField m) ''portfolioExitFraction''),
          op_slippageBps = as_number (field (mt_slippageBpsField m) ''slippageBps''),
          op_adapterVerified = as_bool (body ''adapterVerified''),
          op_recordOrRecipientCount = (case as_number (field (mt_recordCountField m) ''recordOrRecipientCount'') of Some n \<Rightarrow> Some n
            | None \<Rightarrow> (case body ''rows'' of D_list rows \<Rightarrow> Some (Fin (of_nat (length rows))) | _ \<Rightarrow> None)),
          op_counterpartyFlagged = Some (body ''counterpartyFlagged'' = D_bool True),
          op_idempotencyKey = (case as_string (headers ''idempotency-key'') of Some v \<Rightarrow> Some v | None \<Rightarrow> as_string (body ''idempotencyKey'')),
          op_asOf = None\<rparr>)"

definition canActivate ::
  "abuse_env \<Rightarrow> int \<Rightarrow> HighImpactOperationMetadata option \<Rightarrow> http_request \<Rightarrow> abuse_service \<Rightarrow> (abuse_error + bool) \<times> abuse_service" where
  "canActivate e clock metadata rq s =
     (case metadata of
        None \<Rightarrow> (Inr True, s)
      | Some m \<Rightarrow>
          let (a, s1) = evaluateOperation e clock (extractOperationInput e m rq) (extractActorContext e rq) None s in
          (case assertProceedable a of Inl err \<Rightarrow> (Inl err, s1) | Inr _ \<Rightarrow> (Inr True, s1)))"

section \<open>Thresholds\<close>

lemma readPositiveNumber_pos: "0 < otherwise \<Longrightarrow> 0 < readPositiveNumber e key otherwise"
  by (simp add: readPositiveNumber_def split: js_number.split)

lemma thresholds_positive:
  "0 < th_stepUpScoreThreshold (resolveThresholds e) \<and> 0 < th_velocityWindowSeconds (resolveThresholds e) \<and> 0 < th_maxOperationsPerWindow (resolveThresholds e)
   \<and> 0 < th_maxDistinctDestinationsPerWindow (resolveThresholds e) \<and> 0 < th_maxFailedAttemptsPerWindow (resolveThresholds e)
   \<and> 0 < th_bulkRecordThreshold (resolveThresholds e)"
  unfolding resolveThresholds_def Let_def by (simp add: default_scores_def DEFAULT_ABUSE_THRESHOLDS_CORE_def readPositiveNumber_pos)

lemma thresholds_monotonic:
  "monotonic_scores (th_stepUpScoreThreshold (resolveThresholds e)) (th_manualReviewScoreThreshold (resolveThresholds e)) (th_blockScoreThreshold (resolveThresholds e))"
proof -
  have fallbacks: "monotonic_scores 35 70 85" by (simp add: monotonic_scores_def)
  show ?thesis unfolding resolveThresholds_def Let_def by (simp add: default_scores_def DEFAULT_ABUSE_THRESHOLDS_CORE_def fallbacks)
qed

text \<open>Whatever the configuration says, the thresholds in use are ordered: step-up below review below block, none above 100, and
  all of them, with the limits of the windows, positive.\<close>

theorem resolved_thresholds_ordered:
  "0 < th_stepUpScoreThreshold (resolveThresholds e)
   \<and> th_stepUpScoreThreshold (resolveThresholds e) < th_manualReviewScoreThreshold (resolveThresholds e)
   \<and> th_manualReviewScoreThreshold (resolveThresholds e) < th_blockScoreThreshold (resolveThresholds e)
   \<and> th_blockScoreThreshold (resolveThresholds e) \<le> 100
   \<and> 0 < th_velocityWindowSeconds (resolveThresholds e) \<and> 0 < th_maxOperationsPerWindow (resolveThresholds e)
   \<and> 0 < th_maxDistinctDestinationsPerWindow (resolveThresholds e) \<and> 0 < th_maxFailedAttemptsPerWindow (resolveThresholds e)
   \<and> 0 < th_bulkRecordThreshold (resolveThresholds e)"
  using thresholds_positive[of e] thresholds_monotonic[of e] by (simp add: monotonic_scores_def)

section \<open>Enforcement\<close>

text \<open>What an evaluation sees: the window of the actor and whether an approval was redeemed.\<close>

definition seen_window :: "abuse_env \<Rightarrow> int \<Rightarrow> HighImpactOperationInput \<Rightarrow> AbuseActorContext \<Rightarrow> abuse_service \<Rightarrow> AbuseBehavioralWindowState" where
  "seen_window e clock operation actor s =
     fst (getBehavioralWindowState (ac_actorId actor) (th_velocityWindowSeconds (resolveThresholds e))
       (parseTimestampMs e clock (fallback (op_asOf operation) (ae_iso e clock))) s)"

definition redeemed :: "abuse_env \<Rightarrow> int \<Rightarrow> HighImpactOperationInput \<Rightarrow> AbuseActorContext \<Rightarrow> abuse_service \<Rightarrow> bool" where
  "redeemed e clock operation actor s =
     fst (consumeApprovalTokenIfValid (ac_reviewApprovalToken actor) (ac_actorId actor) (computeOperationDigest (host.truncate e) operation (ac_actorId actor))
       (parseTimestampMs e clock (fallback (op_asOf operation) (ae_iso e clock))) s)"

lemma window_last [simp]:
  "fst (getBehavioralWindowState actorId w t (s\<lparr>as_lastEvaluatedAtMs := x\<rparr>)) = fst (getBehavioralWindowState actorId w t s)"
  by (simp add: getBehavioralWindowState_def Let_def split: option.split)

lemma window_keeps:
  "as_approvalTokens (snd (getBehavioralWindowState actorId w t s)) = as_approvalTokens s"
  "as_reviews (snd (getBehavioralWindowState actorId w t s)) = as_reviews s"
  by (simp_all add: getBehavioralWindowState_def Let_def split: option.split)

lemma redeem_depends:
  "as_approvalTokens s = as_approvalTokens t \<Longrightarrow>
    fst (consumeApprovalTokenIfValid token actorId digest now s) = fst (consumeApprovalTokenIfValid token actorId digest now t)"
  by (simp add: consumeApprovalTokenIfValid_def Let_def split: option.split)

definition evaluated_context :: "abuse_env \<Rightarrow> int \<Rightarrow> HighImpactOperationInput \<Rightarrow> AbuseActorContext \<Rightarrow> abuse_service \<Rightarrow> AbuseRuleEvaluationContext" where
  "evaluated_context e clock operation actor s =
     \<lparr>ev_operation = operation, ev_actor = actor, ev_windowState = seen_window e clock operation actor s, ev_thresholds = resolveThresholds e,
      ev_asOf = fallback (op_asOf operation) (ae_iso e clock), ev_reviewApproved = Some (redeemed e clock operation actor s)\<rparr>"

lemma evaluateOperation_result:
  "\<exists>rid. fst (evaluateOperation e clock operation actor None s) =
    (evaluateAbuseRisk (host.truncate e) (evaluated_context e clock operation actor s))\<lparr>ar_reviewId := rid\<rparr>"
proof -
  let ?t = "parseTimestampMs e clock (fallback (op_asOf operation) (ae_iso e clock))"
  have r: "fst (consumeApprovalTokenIfValid token actorId digest ?t (snd (getBehavioralWindowState actorId' w ?t (s\<lparr>as_lastEvaluatedAtMs := x\<rparr>)))) =
    fst (consumeApprovalTokenIfValid token actorId digest ?t s)" for token actorId digest actorId' w x
    by (rule redeem_depends) (simp add: window_keeps)
  have same: "a\<lparr>ar_reviewId := ar_reviewId a\<rparr> = a" for a :: AbuseAssessmentResult by simp
  show ?thesis
    unfolding evaluateOperation_def evaluated_context_def seen_window_def redeemed_def Let_def
    by (simp add: case_prod_beta r) (metis same)
qed

text \<open>C15. The decision of the detector, under enforcement: an operation proceeds exactly when its counterparty is not flagged, its
  score is below the block threshold, an operator approved it if the score asks for a review, and the
  caller stepped up if the score asks for that.\<close>

theorem abuse_gate_exact:
  assumes "th_mode (resolveThresholds e) = Mode_enforce"
  shows "(\<exists>a. assertProceedable (fst (evaluateOperation e clock operation actor None s)) = Inr a) \<longleftrightarrow>
    (let th = resolveThresholds e; score = risk_score (host.truncate e) operation actor (seen_window e clock operation actor s) th in
     op_counterpartyFlagged operation \<noteq> Some True \<and> score < th_blockScoreThreshold th
     \<and> (th_manualReviewScoreThreshold th \<le> score \<longrightarrow> redeemed e clock operation actor s)
     \<and> (th_stepUpScoreThreshold th \<le> score \<and> score < th_manualReviewScoreThreshold th \<longrightarrow> ac_stepUpVerified actor = Some True))"
proof -
  let ?ctx = "evaluated_context e clock operation actor s"
  obtain rid where r: "fst (evaluateOperation e clock operation actor None s) = (evaluateAbuseRisk (host.truncate e) ?ctx)\<lparr>ar_reviewId := rid\<rparr>"
    using evaluateOperation_result by blast
  have ctx: "ev_thresholds ?ctx = resolveThresholds e" "ev_operation ?ctx = operation" "ev_actor ?ctx = actor" "ev_windowState ?ctx = seen_window e clock operation actor s"
    "ev_reviewApproved ?ctx = Some (redeemed e clock operation actor s)" by (simp_all add: evaluated_context_def)
  have "(\<exists>a. assertProceedable (fst (evaluateOperation e clock operation actor None s)) = Inr a) \<longleftrightarrow> ar_allowed (evaluateAbuseRisk (host.truncate e) ?ctx)"
    unfolding r by (simp add: assertProceedable_def split: AbuseDisposition.split)
  then show ?thesis
    using evaluateAbuseRisk_decides(3)[of ?ctx "host.truncate e"] assms resolveDisposition_allowed[OF assms thresholds_monotonic] unfolding ctx Let_def by auto
qed

definition sample_env :: abuse_env where
  "sample_env = \<lparr>ne_Number = \<lambda>_. NotANumber, ne_toString = \<lambda>_. ''?'', hs_parse = \<lambda>v. Some (int (length v)), hs_now = [],
     hs_localeLe = \<lambda>_ _. True, hs_sha256 = \<lambda>t. t, ae_iso = \<lambda>t. replicate (nat t) CHR ''t'', ae_config = \<lambda>_. D_undefined\<rparr>"

theorem abuse_gate_exact_witness:
  "th_mode (resolveThresholds sample_env) = Mode_enforce
   \<and> \<not> (\<exists>a. assertProceedable (fst (evaluateOperation sample_env 1 (sample_operation Mfa_reset) (sample_actor\<lparr>ac_mfaEnabled := None\<rparr>) None new_abuse_service)) = Inr a)
   \<and> (\<exists>a. assertProceedable (fst (evaluateOperation sample_env 1 (sample_operation Mfa_reset) (sample_actor\<lparr>ac_mfaEnabled := None, ac_stepUpVerified := Some True\<rparr>) None new_abuse_service)) = Inr a)"
proof -
  have m: "th_mode (resolveThresholds sample_env) = Mode_enforce" by code_simp
  have sc: "risk_score (host.truncate sample_env) (sample_operation Mfa_reset) a (seen_window sample_env 1 (sample_operation Mfa_reset) a new_abuse_service) (resolveThresholds sample_env) = 35"
    if "a = sample_actor\<lparr>ac_mfaEnabled := None\<rparr> \<or> a = sample_actor\<lparr>ac_mfaEnabled := None, ac_stepUpVerified := Some True\<rparr>" for a
    using that by (elim disjE; hypsubst; code_simp)
  have th: "th_stepUpScoreThreshold (resolveThresholds sample_env) = 35" "th_manualReviewScoreThreshold (resolveThresholds sample_env) = 70"
    "th_blockScoreThreshold (resolveThresholds sample_env) = 85" by code_simp+
  show ?thesis unfolding abuse_gate_exact[OF m] Let_def using m th sc by (simp add: sample_operation_def sample_actor_def)
qed

section \<open>Runs\<close>

text \<open>The calls of the service, and what a run notes: operations held for review, reviews approved, and held operations let through.\<close>

datatype abuse_move =
    Mv_evaluate int HighImpactOperationInput AbuseActorContext "partial_thresholds option"
  | Mv_dto int EvaluateAbuseRiskDto AbuseActorContext
  | Mv_failed int string "string option"
  | Mv_window string rat int
  | Mv_reset string
  | Mv_list int "AbuseReviewStatus option" "string option" "string option"
  | Mv_get int string "string option"
  | Mv_metrics int "string option"
  | Mv_resolve int string string bool string string "string option"

datatype abuse_note = Held string string | Approved string string | Admitted string string

definition assessment_notes :: "AbuseAssessmentResult \<Rightarrow> abuse_note list" where
  "assessment_notes a =
     (case ar_disposition a of
        Manual_review \<Rightarrow> [Held (ar_actorId a) (ar_operationDigest a)]
      | Allow_after_review \<Rightarrow> [Admitted (ar_actorId a) (ar_operationDigest a)]
      | _ \<Rightarrow> [])"

fun abuse_step :: "abuse_env \<Rightarrow> abuse_move \<Rightarrow> abuse_service \<Rightarrow> abuse_note list \<times> abuse_service" where
  "abuse_step e (Mv_evaluate clock operation actor p) s = map_prod assessment_notes id (evaluateOperation e clock operation actor p s)"
| "abuse_step e (Mv_dto clock dto caller) s = map_prod assessment_notes id (evaluateDto e clock dto caller s)"
| "abuse_step e (Mv_failed clock actorId asOf) s = ([], recordFailedAttempt e clock actorId asOf s)"
| "abuse_step e (Mv_window actorId w t) s = ([], snd (getBehavioralWindowState actorId w t s))"
| "abuse_step e (Mv_reset actorId) s = ([], resetActorWindowState actorId s)"
| "abuse_step e (Mv_list clock status actorId asOf) s = ([], snd (listReviews e clock status actorId asOf s))"
| "abuse_step e (Mv_get clock reviewId asOf) s = ([], snd (getReview e clock reviewId asOf s))"
| "abuse_step e (Mv_metrics clock asOf) s = ([], snd (getMetricsSnapshot e clock asOf s))"
| "abuse_step e (Mv_resolve clock token reviewId approved operatorId reason asOf) s =
     (case resolveReview e clock token reviewId approved operatorId reason asOf s of
        (Inr r, s1) \<Rightarrow> (if approved then [Approved (rv_actorId r) (rv_operationDigest r)] else [], s1)
      | (Inl _, s1) \<Rightarrow> ([], s1))"

fun abuse_run :: "abuse_env \<Rightarrow> abuse_move list \<Rightarrow> abuse_note list \<times> abuse_service \<Rightarrow> abuse_note list \<times> abuse_service" where
  "abuse_run e [] ns = ns"
| "abuse_run e (mv # mvs) (ns, s) = (let (new, s1) = abuse_step e mv s in abuse_run e mvs (ns @ new, s1))"

subsection \<open>Counting entries\<close>

lemma count_map_set:
  "length (filter P (map_set k v m)) + (case map_get m k of None \<Rightarrow> 0 | Some old \<Rightarrow> if P (k, old) then 1 else 0)
    = length (filter P m) + (if P (k, v) then 1 else 0)"
  by (induction m) auto

lemma count_map_delete:
  "length (filter P (map_delete k m)) + (case map_get m k of None \<Rightarrow> 0 | Some old \<Rightarrow> if P (k, old) then 1 else 0) \<le> length (filter P m)"
proof (induction m)
  case (Cons x m)
  have "length (filter P (map_delete k m)) \<le> length (filter P m)" using Cons.IH by (auto split: option.splits)
  then show ?case using Cons.IH by (cases x) auto
qed simp

definition tokens_for :: "string \<Rightarrow> string \<Rightarrow> (string, approval_entry) jsmap \<Rightarrow> nat" where
  "tokens_for actor digest m = length (filter (\<lambda>(_, t). actor = at_actorId t \<and> digest = at_operationDigest t) m)"

definition waits :: "string \<Rightarrow> string \<Rightarrow> AbuseReviewRecord \<Rightarrow> bool" where
  "waits actor digest r \<longleftrightarrow> rv_status r = Rv_pending \<and> actor = rv_actorId r \<and> digest = rv_operationDigest r"

definition pending_for :: "string \<Rightarrow> string \<Rightarrow> (string, AbuseReviewRecord) jsmap \<Rightarrow> nat" where
  "pending_for actor digest m = length (filter (\<lambda>(_, r). waits actor digest r) m)"

definition of_pair :: "string \<Rightarrow> string \<Rightarrow> string \<Rightarrow> string \<Rightarrow> nat" where
  "of_pair a d actor digest = (if a = actor \<and> d = digest then 1 else 0)"

lemma redeem_cases:
  obtains (kept) "consumeApprovalTokenIfValid token actor digest now s = (False, s)"
    | (dropped) ok k t where "map_get (as_approvalTokens s) k = Some t" "ok \<longrightarrow> at_actorId t = actor \<and> at_operationDigest t = digest"
      "consumeApprovalTokenIfValid token actor digest now s = (ok, s\<lparr>as_approvalTokens := map_delete k (as_approvalTokens s)\<rparr>)"
proof (cases "\<exists>k t. token = Some k \<and> k \<noteq> [] \<and> map_get (as_approvalTokens s) (trim k) = Some t")
  case True
  then obtain k t where "token = Some k" "k \<noteq> []" "map_get (as_approvalTokens s) (trim k) = Some t" by blast
  then have c: "consumeApprovalTokenIfValid token actor digest now s =
      (if now > at_expiresAtMs t then (False, s\<lparr>as_approvalTokens := map_delete (trim k) (as_approvalTokens s)\<rparr>)
       else if at_actorId t \<noteq> actor \<or> at_operationDigest t \<noteq> digest then (False, s)
       else (True, s\<lparr>as_approvalTokens := map_delete (trim k) (as_approvalTokens s)\<rparr>))" and t: "map_get (as_approvalTokens s) (trim k) = Some t"
    by (simp_all add: consumeApprovalTokenIfValid_def)
  consider "now > at_expiresAtMs t" | "\<not> now > at_expiresAtMs t" "at_actorId t \<noteq> actor \<or> at_operationDigest t \<noteq> digest"
    | "\<not> now > at_expiresAtMs t" "at_actorId t = actor \<and> at_operationDigest t = digest" by blast
  then show ?thesis
  proof cases
    case 1
    then show ?thesis using c t by (intro dropped[of "trim k" t False]) simp_all
  next
    case 2
    then show ?thesis using c by (intro kept) simp
  next
    case 3
    then show ?thesis using c t by (intro dropped[of "trim k" t True]) simp_all
  qed
next
  case False
  then show ?thesis by (intro kept) (auto simp: consumeApprovalTokenIfValid_def split: option.split)
qed

lemma redeem_counts:
  "tokens_for a d (as_approvalTokens (snd (consumeApprovalTokenIfValid token actor digest now s)))
    + (if fst (consumeApprovalTokenIfValid token actor digest now s) then of_pair a d actor digest else 0) \<le> tokens_for a d (as_approvalTokens s)"
proof (cases rule: redeem_cases[of token actor digest now s])
  case (dropped ok k t)
  have "tokens_for a d (map_delete k (as_approvalTokens s)) + of_pair a d (at_actorId t) (at_operationDigest t) \<le> tokens_for a d (as_approvalTokens s)"
    using count_map_delete[of "\<lambda>(_, t). a = at_actorId t \<and> d = at_operationDigest t" k "as_approvalTokens s"] dropped(1) by (simp add: tokens_for_def of_pair_def)
  then show ?thesis using dropped(2,3) by (cases ok) simp_all
qed simp

lemma redeem_keeps: "as_reviews (snd (consumeApprovalTokenIfValid token actor digest now s)) = as_reviews s"
  "as_actorWindows (snd (consumeApprovalTokenIfValid token actor digest now s)) = as_actorWindows s"
  by (auto simp: consumeApprovalTokenIfValid_def Let_def split: option.split)

lemma pending_put:
  "pending_for a d (map_set k v m) + (case map_get m k of None \<Rightarrow> 0 | Some old \<Rightarrow> if waits a d old then 1 else 0)
    = pending_for a d m + (if waits a d v then 1 else 0)"
  using count_map_set[of "\<lambda>(_, r). waits a d r" k v m] by (cases "map_get m k") (simp_all add: pending_for_def)

lemma enqueue_counts:
  "pending_for a d (as_reviews (snd (enqueueReview e r now s))) \<le> pending_for a d (as_reviews s) + of_pair a d (ar_actorId r) (ar_operationDigest r)"
proof -
  have put: "pending_for a d (map_set k v m) \<le> pending_for a d m + of_pair a d (rv_actorId v) (rv_operationDigest v)" for k v m
    using pending_put[of a d k v m] by (auto simp: waits_def of_pair_def split: if_splits)
  show ?thesis
    unfolding enqueueReview_def Let_def
    by (simp split: option.split) (intro conjI allI impI; (rule order_trans[OF put]; simp))
qed

lemma count_map_less: "(\<And>x. P (f x) \<Longrightarrow> P x) \<Longrightarrow> length (filter P (map f xs)) \<le> length (filter P xs)"
  by (induction xs) (auto simp: le_SucI)

lemma expire_counts: "pending_for a d (as_reviews (expireStaleReviews e now s)) \<le> pending_for a d (as_reviews s)"
proof -
  define f where "f r = (if rv_status r = Rv_pending \<and> (case hs_parse e (rv_expiresAt r) of None \<Rightarrow> False | Some t \<Rightarrow> now > t)
    then r\<lparr>rv_status := Rv_expired\<rparr> else r)" for r :: AbuseReviewRecord
  have f: "as_reviews (expireStaleReviews e now s) = map (\<lambda>(k, r). (k, f r)) (as_reviews s)" "rv_status (f r) = Rv_pending \<Longrightarrow> f r = r" for r
    by (simp_all add: expireStaleReviews_def f_def split: if_splits)
  show ?thesis unfolding pending_for_def f(1) using f(2) by (intro count_map_less) (clarsimp simp: waits_def, metis)
qed

lemma expire_keeps: "as_approvalTokens (expireStaleReviews e now s) = as_approvalTokens s" "as_actorWindows (expireStaleReviews e now s) = as_actorWindows s"
  by (simp_all add: expireStaleReviews_def)

lemma resolve_cases:
  assumes "resolveReview e clock token reviewId approved operatorId reason asOf s = (res, s')"
  obtains (refused) err where "res = Inl err" "s' = s \<or> (\<exists>now. s' = expireStaleReviews e now s)"
    | (resolved) now review r where "res = Inr r" "map_get (as_reviews (expireStaleReviews e now s)) reviewId = Some review" "rv_status review = Rv_pending"
      "rv_status r \<noteq> Rv_pending" "rv_actorId r = rv_actorId review" "rv_operationDigest r = rv_operationDigest review"
      "as_reviews s' = map_set reviewId r (as_reviews (expireStaleReviews e now s))"
      "as_approvalTokens s' = (if approved then map_set token \<lparr>at_reviewId = rv_reviewId review, at_actorId = rv_actorId review,
          at_operationDigest = rv_operationDigest review, at_expiresAtMs = now + REVIEW_TTL_MS\<rparr> (as_approvalTokens s) else as_approvalTokens s)"
      "as_actorWindows s' = as_actorWindows s"
proof (cases "length (trim reason) < 10")
  case True
  then show ?thesis using assms by (intro refused) (auto simp: resolveReview_def)
next
  case False
  define stamp where "stamp = (case asOf of Some v \<Rightarrow> v
    | None \<Rightarrow> (case as_lastEvaluatedAtMs s of Some t \<Rightarrow> if t \<noteq> 0 then ae_iso e t else ae_iso e clock | None \<Rightarrow> ae_iso e clock))"
  define now where "now = parseTimestampMs e clock stamp"
  note step = assms[unfolded resolveReview_def Let_def, folded stamp_def, folded now_def]
  show ?thesis
  proof (cases "map_get (as_reviews (expireStaleReviews e now s)) reviewId")
    case None
    then show ?thesis using step False by (intro refused) auto
  next
    case (Some review)
    show ?thesis
    proof (cases "rv_status review = Rv_pending")
      case True
      define r1 where "r1 = review\<lparr>rv_status := (if approved then Rv_approved else Rv_rejected), rv_resolvedAt := Some stamp,
        rv_resolvedBy := Some operatorId, rv_resolutionReason := Some (trim reason)\<rparr>"
      define r where "r = (if approved then r1\<lparr>rv_approvalToken := Some token\<rparr> else r1)"
      have "rv_status r \<noteq> Rv_pending" "rv_actorId r = rv_actorId review" "rv_operationDigest r = rv_operationDigest review"
        by (simp_all add: r_def r1_def)
      then show ?thesis using step False Some True by (intro resolved[of r now review]) (auto simp: expire_keeps r_def r1_def)
    next
      case pending: False
      then show ?thesis using step False Some by (intro refused) auto
    qed
  qed
qed

lemma resolve_counts:
  assumes "resolveReview e clock token reviewId approved operatorId reason asOf s = (res, s')"
  shows "tokens_for a d (as_approvalTokens s') \<le> tokens_for a d (as_approvalTokens s)
      + (case res of Inr r \<Rightarrow> if approved then of_pair a d (rv_actorId r) (rv_operationDigest r) else 0 | Inl _ \<Rightarrow> 0)"
    and "pending_for a d (as_reviews s') + (case res of Inr r \<Rightarrow> of_pair a d (rv_actorId r) (rv_operationDigest r) | Inl _ \<Rightarrow> 0) \<le> pending_for a d (as_reviews s)"
proof -
  have put: "tokens_for a d (map_set k t m) \<le> tokens_for a d m + of_pair a d (at_actorId t) (at_operationDigest t)" for k t m
    using count_map_set[of "\<lambda>(_, t). a = at_actorId t \<and> d = at_operationDigest t" k t m] by (simp add: tokens_for_def of_pair_def split: if_splits)
  have both: "tokens_for a d (as_approvalTokens s') \<le> tokens_for a d (as_approvalTokens s)
      + (case res of Inr r \<Rightarrow> if approved then of_pair a d (rv_actorId r) (rv_operationDigest r) else 0 | Inl _ \<Rightarrow> 0)
    \<and> pending_for a d (as_reviews s') + (case res of Inr r \<Rightarrow> of_pair a d (rv_actorId r) (rv_operationDigest r) | Inl _ \<Rightarrow> 0) \<le> pending_for a d (as_reviews s)"
    using assms
  proof (cases rule: resolve_cases)
    case (refused err)
    then show ?thesis using expire_counts[of a d e _ s] by (auto simp: expire_keeps)
  next
    case (resolved now review r)
    have "waits a d review \<longleftrightarrow> of_pair a d (rv_actorId review) (rv_operationDigest review) = 1" "\<not> waits a d r"
      using resolved(3,4) by (simp_all add: waits_def of_pair_def)
    then have "pending_for a d (as_reviews s') + of_pair a d (rv_actorId r) (rv_operationDigest r) = pending_for a d (as_reviews (expireStaleReviews e now s))"
      using pending_put[of a d reviewId r "as_reviews (expireStaleReviews e now s)"] resolved(2,5,6,7)
      by (cases "a = rv_actorId review \<and> d = rv_operationDigest review") (simp_all add: of_pair_def)
    moreover have "tokens_for a d (as_approvalTokens s') \<le> tokens_for a d (as_approvalTokens s) + (if approved then of_pair a d (rv_actorId r) (rv_operationDigest r) else 0)"
      unfolding resolved(5,6,8) by (auto intro: order_trans[OF put])
    ultimately show ?thesis using resolved(1) expire_counts[of a d e now s] by simp
  qed
  then show "tokens_for a d (as_approvalTokens s') \<le> tokens_for a d (as_approvalTokens s)
      + (case res of Inr r \<Rightarrow> if approved then of_pair a d (rv_actorId r) (rv_operationDigest r) else 0 | Inl _ \<Rightarrow> 0)"
    "pending_for a d (as_reviews s') + (case res of Inr r \<Rightarrow> of_pair a d (rv_actorId r) (rv_operationDigest r) | Inl _ \<Rightarrow> 0) \<le> pending_for a d (as_reviews s)" by blast+
qed

subsection \<open>One admission per approval\<close>

definition noted :: "(string \<Rightarrow> string \<Rightarrow> abuse_note) \<Rightarrow> string \<Rightarrow> string \<Rightarrow> abuse_note list \<Rightarrow> nat" where
  "noted what a d ns = length (filter (\<lambda>n. n = what a d) ns)"

lemma noted_append [simp]: "noted what a d (ns @ ms) = noted what a d ns + noted what a d ms"
  by (simp add: noted_def)

definition review_inv :: "abuse_note list \<times> abuse_service \<Rightarrow> bool" where
  "review_inv x \<longleftrightarrow> (\<forall>a d. noted Admitted a d (fst x) + tokens_for a d (as_approvalTokens (snd x)) \<le> noted Approved a d (fst x)
     \<and> noted Approved a d (fst x) + pending_for a d (as_reviews (snd x)) \<le> noted Held a d (fst x))"

text \<open>What a step may change: tokens are spent on admissions, pending reviews on approvals.\<close>

definition review_step_ok :: "abuse_service \<Rightarrow> abuse_note list \<times> abuse_service \<Rightarrow> bool" where
  "review_step_ok s x \<longleftrightarrow> (\<forall>a d. noted Admitted a d (fst x) + tokens_for a d (as_approvalTokens (snd x)) \<le> tokens_for a d (as_approvalTokens s) + noted Approved a d (fst x)
     \<and> noted Approved a d (fst x) + pending_for a d (as_reviews (snd x)) \<le> pending_for a d (as_reviews s) + noted Held a d (fst x))"

lemma review_inv_step: "review_inv (ns, s) \<Longrightarrow> review_step_ok s (new, s1) \<Longrightarrow> review_inv (ns @ new, s1)"
  unfolding review_inv_def review_step_ok_def fst_conv snd_conv noted_append
proof (intro allI)
  fix a d
  assume i: "\<forall>a d. noted Admitted a d ns + tokens_for a d (as_approvalTokens s) \<le> noted Approved a d ns
      \<and> noted Approved a d ns + pending_for a d (as_reviews s) \<le> noted Held a d ns"
    and st: "\<forall>a d. noted Admitted a d new + tokens_for a d (as_approvalTokens s1) \<le> tokens_for a d (as_approvalTokens s) + noted Approved a d new
      \<and> noted Approved a d new + pending_for a d (as_reviews s1) \<le> pending_for a d (as_reviews s) + noted Held a d new"
  show "noted Admitted a d ns + noted Admitted a d new + tokens_for a d (as_approvalTokens s1) \<le> noted Approved a d ns + noted Approved a d new
      \<and> noted Approved a d ns + noted Approved a d new + pending_for a d (as_reviews s1) \<le> noted Held a d ns + noted Held a d new"
    using i[rule_format, of a d] st[rule_format, of a d] by linarith
qed

lemma attempt_keeps:
  "as_reviews (recordOperationAttempt actorId destination w now s) = as_reviews s"
  "as_approvalTokens (recordOperationAttempt actorId destination w now s) = as_approvalTokens s"
  by (simp_all add: recordOperationAttempt_def getOrCreateBucket_def Let_def split: option.split)

lemma failed_keeps:
  "as_reviews (recordFailedAttempt e clock actorId asOf s) = as_reviews s"
  "as_approvalTokens (recordFailedAttempt e clock actorId asOf s) = as_approvalTokens s"
  by (simp_all add: recordFailedAttempt_def getOrCreateBucket_def Let_def split: option.split)

lemma enqueue_keeps: "as_approvalTokens (snd (enqueueReview e a now s)) = as_approvalTokens s" "as_actorWindows (snd (enqueueReview e a now s)) = as_actorWindows s"
  by (simp_all add: enqueueReview_def Let_def split: option.split)

lemma telemetry_keeps:
  "as_reviews (emitDomainEvents a (recordTelemetry b s)) = as_reviews s"
  "as_approvalTokens (emitDomainEvents a (recordTelemetry b s)) = as_approvalTokens s"
  "as_actorWindows (emitDomainEvents a (recordTelemetry b s)) = as_actorWindows s"
  by (simp_all add: emitDomainEvents_def recordTelemetry_def)

lemma result_names:
  "ar_actorId (evaluateAbuseRisk h ctx) = ac_actorId (ev_actor ctx)"
  "ar_operationDigest (evaluateAbuseRisk h ctx) = computeOperationDigest h (ev_operation ctx) (ac_actorId (ev_actor ctx))"
  by (simp_all add: evaluateAbuseRisk_def buildResult_def Let_def)

lemma assessment_noted:
  "noted Admitted x d (assessment_notes a) = (if ar_disposition a = Allow_after_review then of_pair x d (ar_actorId a) (ar_operationDigest a) else 0)"
  "noted Held x d (assessment_notes a) = (if ar_disposition a = Manual_review then of_pair x d (ar_actorId a) (ar_operationDigest a) else 0)"
  "noted Approved x d (assessment_notes a) = 0"
  by (auto simp: assessment_notes_def noted_def of_pair_def split: AbuseDisposition.split)

lemma evaluate_reviews:
  "review_step_ok s (map_prod assessment_notes id (evaluateOperation e clock operation actor p s))"
proof -
  define th where "th = (case p of None \<Rightarrow> resolveThresholds e | Some q \<Rightarrow> override_thresholds (resolveThresholds e) q)"
  define stamp where "stamp = fallback (op_asOf operation) (ae_iso e clock)"
  define now where "now = parseTimestampMs e clock stamp"
  define W where "W = getBehavioralWindowState (ac_actorId actor) (th_velocityWindowSeconds th) now (s\<lparr>as_lastEvaluatedAtMs := Some now\<rparr>)"
  define dg where "dg = computeOperationDigest (host.truncate e) operation (ac_actorId actor)"
  define R where "R = consumeApprovalTokenIfValid (ac_reviewApprovalToken actor) (ac_actorId actor) dg now (snd W)"
  define a where "a = evaluateAbuseRisk (host.truncate e) \<lparr>ev_operation = operation, ev_actor = actor, ev_windowState = fst W, ev_thresholds = th,
    ev_asOf = stamp, ev_reviewApproved = Some (fst R)\<rparr>"
  define s4 where "s4 = recordOperationAttempt (ac_actorId actor) (op_destination operation) (th_velocityWindowSeconds th) now (snd R)"
  define Q where "Q = (if ar_disposition a = Manual_review
    then let (review, t) = enqueueReview e a now s4 in (a\<lparr>ar_reviewId := Some (rv_reviewId review)\<rparr>, t) else (a, s4))"
  have out: "evaluateOperation e clock operation actor p s = (fst Q, emitDomainEvents (fst Q) (recordTelemetry (fst Q) (snd Q)))"
    unfolding evaluateOperation_def Let_def Q_def s4_def a_def R_def W_def dg_def now_def stamp_def th_def by (simp add: case_prod_beta)
  have names: "ar_actorId a = ac_actorId actor" "ar_operationDigest a = dg" by (simp_all add: a_def result_names dg_def)
  have same_notes: "assessment_notes (fst Q) = assessment_notes a" by (cases "ar_disposition a = Manual_review") (simp_all add: Q_def assessment_notes_def case_prod_beta)
  have admitted: "ar_disposition a = Allow_after_review \<Longrightarrow> fst R" using approved_needs_review[of "host.truncate e"] by (fastforce simp: a_def)
  have base: "as_reviews s4 = as_reviews s" "as_approvalTokens s4 = as_approvalTokens (snd R)"
    by (simp_all add: s4_def attempt_keeps R_def redeem_keeps W_def window_keeps)
  have tok: "as_approvalTokens (snd Q) = as_approvalTokens (snd R)" by (simp add: Q_def case_prod_beta enqueue_keeps base)
  have spent: "tokens_for x d (as_approvalTokens (snd R)) + (if fst R then of_pair x d (ac_actorId actor) dg else 0) \<le> tokens_for x d (as_approvalTokens s)" for x d
    using redeem_counts[of x d "ac_reviewApprovalToken actor" "ac_actorId actor" dg now "snd W"] by (simp add: R_def W_def window_keeps)
  have rev: "pending_for x d (as_reviews (snd Q)) \<le> pending_for x d (as_reviews s) + (if ar_disposition a = Manual_review then of_pair x d (ac_actorId actor) dg else 0)" for x d
    using enqueue_counts[of x d e a now s4] by (simp add: Q_def case_prod_beta base names)
  show ?thesis
    unfolding out map_prod_simp review_step_ok_def fst_conv snd_conv same_notes assessment_noted names telemetry_keeps tok id_apply
  proof (intro allI conjI)
    fix x d
    show "(if ar_disposition a = Allow_after_review then of_pair x d (ac_actorId actor) dg else 0) + tokens_for x d (as_approvalTokens (snd R))
        \<le> tokens_for x d (as_approvalTokens s) + 0"
      using spent[of x d] admitted by (cases "ar_disposition a = Allow_after_review") auto
    show "0 + pending_for x d (as_reviews (snd Q)) \<le> pending_for x d (as_reviews s) + (if ar_disposition a = Manual_review then of_pair x d (ac_actorId actor) dg else 0)"
      using rev[of x d] by simp
  qed
qed

lemma abuse_step_reviews: "review_step_ok s (abuse_step e mv s)"
proof (cases mv)
  case (Mv_resolve clock token reviewId approved operatorId reason asOf)
  obtain res s1 where r: "resolveReview e clock token reviewId approved operatorId reason asOf s = (res, s1)" by fastforce
  have "tokens_for x d (as_approvalTokens s1) \<le> tokens_for x d (as_approvalTokens s) + noted Approved x d (fst (abuse_step e mv s))
      \<and> noted Approved x d (fst (abuse_step e mv s)) + pending_for x d (as_reviews s1) \<le> pending_for x d (as_reviews s)
      \<and> noted Admitted x d (fst (abuse_step e mv s)) = 0 \<and> noted Held x d (fst (abuse_step e mv s)) = 0 \<and> snd (abuse_step e mv s) = s1" for x d
    using resolve_counts[OF r, of x d] Mv_resolve r by (cases res) (auto simp: noted_def of_pair_def split: if_splits)
  then show ?thesis by (simp add: review_step_ok_def)
next
  case (Mv_list clock status actorId asOf)
  then show ?thesis using expire_counts by (simp add: review_step_ok_def listReviews_def Let_def expire_keeps noted_def)
next
  case (Mv_get clock reviewId asOf)
  then show ?thesis using expire_counts by (simp add: review_step_ok_def getReview_def Let_def expire_keeps noted_def)
next
  case (Mv_metrics clock asOf)
  then show ?thesis using expire_counts by (simp add: review_step_ok_def getMetricsSnapshot_def Let_def expire_keeps noted_def)
next
  case (Mv_evaluate clock operation actor p)
  then show ?thesis using evaluate_reviews by simp
next
  case (Mv_dto clock dto caller)
  then show ?thesis using evaluate_reviews by (simp add: evaluateDto_def)
qed (simp_all add: review_step_ok_def noted_def failed_keeps window_keeps resetActorWindowState_def)

lemma abuse_run_reviews: "review_inv (ns, s) \<Longrightarrow> review_inv (abuse_run e mvs (ns, s))"
proof (induction mvs arbitrary: ns s)
  case (Cons mv mvs)
  obtain new s1 where st: "abuse_step e mv s = (new, s1)" by fastforce
  have "review_inv (ns @ new, s1)" using review_inv_step[OF Cons.prems] abuse_step_reviews[of s e mv] st by simp
  then show ?case using Cons.IH st by simp
qed simp


section \<open>Bounds and telemetry\<close>

abbreviation counted :: "('k, nat) jsmap \<Rightarrow> nat" where
  "counted m \<equiv> sum_list (map snd m)"

lemma counted_bump: "counted (bump k m) = counted m + 1"
proof -
  have "counted (map_set k v m) + fallback (map_get m k) 0 = counted m + v" for v
    by (induction m) auto
  then show ?thesis unfolding bump_def by (metis (no_types, lifting) add.assoc add.commute add_right_cancel)
qed

definition abuse_inv :: "abuse_service \<Rightarrow> bool" where
  "abuse_inv s \<longleftrightarrow> map_wf (as_actorWindows s) \<and> length (as_actorWindows s) \<le> MAX_TRACKED_ACTORS
     \<and> counted (as_byDisposition s) = as_totalAssessments s \<and> counted (as_byRiskLevel s) = as_totalAssessments s
     \<and> counted (as_byOperationKind s) = as_totalAssessments s \<and> as_shadowWouldHaveBlockedOrChallenged s \<le> as_totalAssessments s"

definition same_counts :: "abuse_service \<Rightarrow> abuse_service \<Rightarrow> bool" where
  "same_counts s t \<longleftrightarrow> as_totalAssessments s = as_totalAssessments t \<and> as_byDisposition s = as_byDisposition t \<and> as_byRiskLevel s = as_byRiskLevel t
     \<and> as_byOperationKind s = as_byOperationKind t \<and> as_shadowWouldHaveBlockedOrChallenged s = as_shadowWouldHaveBlockedOrChallenged t"

lemma length_map_set: "length (map_set k v m) = (if k \<in> fst ` set m then length m else Suc (length m))"
  by (induction m) auto

lemma inv_counts:
  "abuse_inv s \<Longrightarrow> same_counts t s \<Longrightarrow> map_wf (as_actorWindows t) \<Longrightarrow> length (as_actorWindows t) \<le> MAX_TRACKED_ACTORS \<Longrightarrow> abuse_inv t"
  by (simp add: abuse_inv_def same_counts_def)

lemma bucket_inv:
  assumes "abuse_inv s"
  shows "abuse_inv (snd (getOrCreateBucket actorId s))" "actorId \<in> fst ` set (as_actorWindows (snd (getOrCreateBucket actorId s)))"
proof -
  have wf: "map_wf (as_actorWindows s)" "length (as_actorWindows s) \<le> MAX_TRACKED_ACTORS" using assms by (simp_all add: abuse_inv_def)
  have "abuse_inv (snd (getOrCreateBucket actorId s)) \<and> actorId \<in> fst ` set (as_actorWindows (snd (getOrCreateBucket actorId s)))"
  proof (cases "map_get (as_actorWindows s) actorId")
    case None
    have room: "Suc (length (map_delete k (as_actorWindows s))) \<le> MAX_TRACKED_ACTORS" if "(k, b) \<in> set (as_actorWindows s)" for k b
      using length_map_delete_present[OF wf(1), of k] wf(2) that by force
    have kept: "Suc (length (case as_actorWindows s of [] \<Rightarrow> [] | (oldestKey, _) # _ \<Rightarrow> map_delete oldestKey (as_actorWindows s))) \<le> MAX_TRACKED_ACTORS"
      "map_wf (case as_actorWindows s of [] \<Rightarrow> [] | (oldestKey, _) # _ \<Rightarrow> map_delete oldestKey (as_actorWindows s))"
    proof -
      have ev: "(case W of [] \<Rightarrow> [] | (oldestKey, _) # _ \<Rightarrow> map_delete oldestKey W) = (if W = [] then [] else map_delete (fst (hd W)) W)" for W :: "(string, ActorWindowBucket) jsmap"
        by (cases W) (auto split: prod.split)
      have "Suc (length (map_delete (fst (hd (as_actorWindows s))) (as_actorWindows s))) \<le> MAX_TRACKED_ACTORS" if "as_actorWindows s \<noteq> []"
        using room[of "fst (hd (as_actorWindows s))" "snd (hd (as_actorWindows s))"] hd_in_set[OF that] by simp
      then show "Suc (length (case as_actorWindows s of [] \<Rightarrow> [] | (oldestKey, _) # _ \<Rightarrow> map_delete oldestKey (as_actorWindows s))) \<le> MAX_TRACKED_ACTORS"
        "map_wf (case as_actorWindows s of [] \<Rightarrow> [] | (oldestKey, _) # _ \<Rightarrow> map_delete oldestKey (as_actorWindows s))"
        unfolding ev using wf(1) by (auto simp: MAX_TRACKED_ACTORS_def)
    qed
    have "same_counts (snd (getOrCreateBucket actorId s)) s" using None by (simp add: getOrCreateBucket_def same_counts_def Let_def)
    moreover have "map_wf (as_actorWindows (snd (getOrCreateBucket actorId s)))" "length (as_actorWindows (snd (getOrCreateBucket actorId s))) \<le> MAX_TRACKED_ACTORS"
      using None kept wf by (simp_all add: getOrCreateBucket_def Let_def length_map_set)
    ultimately show ?thesis using None assms by (auto simp: getOrCreateBucket_def Let_def intro: inv_counts) (simp_all add: image_iff dom_update)
  next
    case (Some b)
    then show ?thesis using assms map_get_mem[OF Some] by (force simp: getOrCreateBucket_def)
  qed
  then show "abuse_inv (snd (getOrCreateBucket actorId s))" "actorId \<in> fst ` set (as_actorWindows (snd (getOrCreateBucket actorId s)))" by simp_all
qed

lemma put_window_inv: "abuse_inv s \<Longrightarrow> actorId \<in> fst ` set (as_actorWindows s) \<Longrightarrow> abuse_inv (s\<lparr>as_actorWindows := map_set actorId b (as_actorWindows s)\<rparr>)"
  by (simp add: abuse_inv_def length_map_set)

lemma guarded_attempt_inv: "abuse_inv s \<Longrightarrow> abuse_inv (recordOperationAttempt actorId destination w now s)"
  unfolding recordOperationAttempt_def Let_def case_prod_beta by (intro put_window_inv bucket_inv)

lemma failed_inv: "abuse_inv s \<Longrightarrow> abuse_inv (recordFailedAttempt e clock actorId asOf s)"
  unfolding recordFailedAttempt_def Let_def case_prod_beta by (intro put_window_inv bucket_inv)

lemma window_inv: "abuse_inv s \<Longrightarrow> abuse_inv (snd (getBehavioralWindowState actorId w now s))"
proof (cases "map_get (as_actorWindows s) actorId")
  case (Some b)
  then have "actorId \<in> fst ` set (as_actorWindows s)" using map_get_mem by force
  then show "abuse_inv s \<Longrightarrow> ?thesis" using Some by (simp add: getBehavioralWindowState_def Let_def put_window_inv)
qed (simp add: getBehavioralWindowState_def)

lemma review_ops_inv:
  assumes "abuse_inv s"
  shows "abuse_inv (snd (consumeApprovalTokenIfValid token actor digest now s))" "abuse_inv (snd (enqueueReview e a now s))" "abuse_inv (expireStaleReviews e now s)"
    "abuse_inv (s\<lparr>as_lastEvaluatedAtMs := x\<rparr>)" "abuse_inv (resetActorWindowState actor s)"
proof -
  have len: "length (map_delete actor (as_actorWindows s)) \<le> MAX_TRACKED_ACTORS"
    using assms length_map_delete_le[of actor "as_actorWindows s"] by (auto simp: abuse_inv_def intro: order_trans)
  show "abuse_inv (snd (consumeApprovalTokenIfValid token actor digest now s))"
    using assms by (cases rule: redeem_cases[of token actor digest now s]) (simp_all add: abuse_inv_def)
  show "abuse_inv (snd (enqueueReview e a now s))" using assms by (simp add: enqueueReview_def Let_def abuse_inv_def split: option.split)
  show "abuse_inv (expireStaleReviews e now s)" "abuse_inv (s\<lparr>as_lastEvaluatedAtMs := x\<rparr>)" "abuse_inv (resetActorWindowState actor s)"
    using assms len by (simp_all add: expireStaleReviews_def resetActorWindowState_def abuse_inv_def)
qed

lemma telemetry_inv: "abuse_inv s \<Longrightarrow> abuse_inv (emitDomainEvents a (recordTelemetry b s))"
  by (simp add: abuse_inv_def emitDomainEvents_def recordTelemetry_def counted_bump)

lemma resolve_inv: "abuse_inv s \<Longrightarrow> abuse_inv (snd (resolveReview e clock token reviewId approved operatorId reason asOf s))"
  unfolding resolveReview_def Let_def using review_ops_inv(3)[of s e] by (auto simp: abuse_inv_def split: option.split)

lemma abuse_evaluate_inv:
  assumes "abuse_inv s"
  shows "abuse_inv (snd (evaluateOperation e clock operation actor p s))"
  unfolding evaluateOperation_def Let_def
  by (simp add: case_prod_beta) (intro conjI impI telemetry_inv review_ops_inv guarded_attempt_inv window_inv assms)

lemma abuse_step_inv: "abuse_inv s \<Longrightarrow> abuse_inv (snd (abuse_step e mv s))"
proof (cases mv)
  case (Mv_resolve clock token reviewId approved operatorId reason asOf)
  then show "abuse_inv s \<Longrightarrow> ?thesis" using resolve_inv[of s e clock token reviewId approved operatorId reason asOf] by (auto split: prod.split sum.split)
qed (auto simp: abuse_evaluate_inv evaluateDto_def failed_inv window_inv review_ops_inv listReviews_def getReview_def getMetricsSnapshot_def Let_def)

text \<open>Whatever is called, in any order, the service tracks at most 5000 actors, each once, and its telemetry adds up: the counts by
  disposition, by risk level and by kind of operation each sum to the number of assessments.\<close>

theorem abuse_service_bounded: "abuse_inv (snd (abuse_run e mvs ([], new_abuse_service)))"
proof -
  have run: "abuse_inv s \<Longrightarrow> abuse_inv (snd (abuse_run e mvs (ns, s)))" for mvs ns s
  proof (induction mvs arbitrary: ns s)
    case (Cons mv mvs)
    then show ?case using abuse_step_inv[OF Cons.prems, of e mv] by (simp add: case_prod_beta)
  qed simp
  have "abuse_inv new_abuse_service" by (simp add: abuse_inv_def new_abuse_service_def)
  then show ?thesis by (rule run)
qed

section \<open>What a caller can claim\<close>

text \<open>A header stands for a step-up: a request with any text of six characters in the header \<open>x-totp-token\<close> is never asked to step
  up, for nothing compares the text with a code of the user.\<close>

theorem any_header_passes_step_up:
  assumes "map_get (rq_headers rq) ''x-totp-token'' = Some (D_str code)" "map_get (rq_headers rq) ''x-step-up-verified'' = None" "6 \<le> length (trim code)"
  shows "fst (canActivate e clock metadata rq s) \<noteq> Inl (Step_up_exception a)"
proof (cases metadata)
  case (Some m)
  let ?o = "extractOperationInput e m rq" and ?a = "extractActorContext e rq"
  let ?ctx = "evaluated_context e clock ?o ?a s"
  have "claims_step_up rq" using assms by (simp add: claims_step_up_def Let_def dyn_field_def)
  then have up: "ac_stepUpVerified ?a = Some True" by (simp add: extractActorContext_def Let_def)
  obtain rid where r: "fst (evaluateOperation e clock ?o ?a None s) = (evaluateAbuseRisk (host.truncate e) ?ctx)\<lparr>ar_reviewId := rid\<rparr>"
    using evaluateOperation_result by blast
  have "ar_disposition (evaluateAbuseRisk (host.truncate e) ?ctx) \<noteq> Step_up_required"
  proof (cases "th_mode (ev_thresholds ?ctx) = Mode_disabled")
    case True
    then show ?thesis by (simp add: evaluateAbuseRisk_def buildResult_def Let_def)
  next
    case False
    have "ac_stepUpVerified (ev_actor ?ctx) = Some True" using up by (simp add: evaluated_context_def)
    then show ?thesis using evaluateAbuseRisk_decides(3)[OF False, of "host.truncate e"] by (auto simp: resolveDisposition_kind split: if_splits)
  qed
  then have "assertProceedable (fst (evaluateOperation e clock ?o ?a None s)) \<noteq> Inl (Step_up_exception a)"
    unfolding r by (auto simp: assertProceedable_def split: AbuseDisposition.split)
  then show ?thesis using Some by (auto simp: canActivate_def case_prod_beta split: sum.split)
qed (simp add: canActivate_def)

text \<open>An unknown caller resets a second factor: without the header a step-up is asked for, with six zeros in it the request passes.\<close>

definition sample_request :: "(string \<times> dyn) list \<Rightarrow> http_request" where
  "sample_request headers = \<lparr>rq_user = [], rq_headers = headers, rq_body = [], rq_params = [], rq_ip = None\<rparr>"

definition sample_metadata :: HighImpactOperationMetadata where
  "sample_metadata = \<lparr>mt_kind = Mfa_reset, mt_amountField = None, mt_assetField = None, mt_destinationField = None, mt_portfolioIdField = None,
     mt_adapterIdField = None, mt_slippageBpsField = None, mt_portfolioExitFractionField = None, mt_recordCountField = None\<rparr>"

theorem any_header_passes_step_up_witness:
  "(\<exists>a. fst (canActivate sample_env 1 (Some sample_metadata) (sample_request []) new_abuse_service) = Inl (Step_up_exception a))
   \<and> fst (canActivate sample_env 1 (Some sample_metadata) (sample_request [(''x-totp-token'', D_str ''000000'')]) new_abuse_service) = Inr True
   \<and> (\<forall>a. fst (canActivate sample_env 1 (Some sample_metadata) (sample_request [(''x-totp-token'', D_str ''000000'')]) new_abuse_service) \<noteq> Inl (Step_up_exception a))"
proof (intro conjI allI)
  have "(case fst (canActivate sample_env 1 (Some sample_metadata) (sample_request []) new_abuse_service) of Inl (Step_up_exception a) \<Rightarrow> True | _ \<Rightarrow> False)" by code_simp
  then show "\<exists>a. fst (canActivate sample_env 1 (Some sample_metadata) (sample_request []) new_abuse_service) = Inl (Step_up_exception a)"
    by (auto split: sum.splits abuse_error.splits)
  show "fst (canActivate sample_env 1 (Some sample_metadata) (sample_request [(''x-totp-token'', D_str ''000000'')]) new_abuse_service) = Inr True" by code_simp
  have "6 \<le> length (trim ''000000'')" by code_simp
  then show "fst (canActivate sample_env 1 (Some sample_metadata) (sample_request [(''x-totp-token'', D_str ''000000'')]) new_abuse_service) \<noteq> Inl (Step_up_exception a)" for a
    by (intro any_header_passes_step_up) (simp_all add: sample_request_def)
qed

text \<open>Signals that come from the window of the actor.\<close>

definition window_codes :: "AbuseSignalCode set" where
  "window_codes = {VELOCITY_BURST, RAPID_DESTINATION_CHURN, REPEATED_FAILED_ATTEMPTS}"

lemma quiet_window_signals:
  assumes "ws_recentOperationCount (ev_windowState ctx) = 0" "ws_recentDistinctDestinations (ev_windowState ctx) = []" "ws_recentFailedAttempts (ev_windowState ctx) = 0"
    "0 < th_maxOperationsPerWindow (ev_thresholds ctx)" "0 < th_maxDistinctDestinationsPerWindow (ev_thresholds ctx)" "0 < th_maxFailedAttemptsPerWindow (ev_thresholds ctx)"
  shows "sg_code ` set (ar_signals (evaluateAbuseRisk h ctx)) \<inter> window_codes = {}"
proof -
  let ?o = "ev_operation ctx" and ?a = "ev_actor ctx" and ?ws = "ev_windowState ctx" and ?th = "ev_thresholds ctx"
  have none: "velocity_signal h ?ws ?th = []" "churn_signal h ?ws ?th = []" "failed_attempts_signal ?ws ?th = []"
    using assms by (simp_all add: velocity_signal_def churn_signal_def failed_attempts_signal_def)
  have other: "list_all (\<lambda>g. sg_code g \<notin> window_codes) (counterparty_signal ?o)" "list_all (\<lambda>g. sg_code g \<notin> window_codes) (amount_signal h ?o ?th)"
    "list_all (\<lambda>g. sg_code g \<notin> window_codes) (destination_signal ?o ?a)" "list_all (\<lambda>g. sg_code g \<notin> window_codes) (context_signal ?a)"
    "list_all (\<lambda>g. sg_code g \<notin> window_codes) (credential_signal h ?a ?th)" "list_all (\<lambda>g. sg_code g \<notin> window_codes) (defi_signal h ?o ?th)"
    "list_all (\<lambda>g. sg_code g \<notin> window_codes) (privilege_signal ?o ?a)" "list_all (\<lambda>g. sg_code g \<notin> window_codes) (bulk_signal h ?o ?th)"
    "list_all (\<lambda>g. sg_code g \<notin> window_codes) (mitigation_signal ?o ?a ?ws found)" for found
    unfolding signal_defs mitigation_signal_def Let_def window_codes_def by (simp_all split: option.split)
  have "list_all (\<lambda>g. sg_code g \<notin> window_codes) (risk_signals h ?o ?a ?ws ?th @ mitigation_signal ?o ?a ?ws (risk_signals h ?o ?a ?ws ?th))"
    using other none by (simp add: risk_signals_def)
  then have "sg_code g \<notin> window_codes" if "g \<in> set (ar_signals (evaluateAbuseRisk h ctx))" for g
    using that by (cases "th_mode ?th = Mode_disabled") (auto simp: evaluateAbuseRisk_def buildResult_def Let_def list_all_iff)
  then show ?thesis by blast
qed

text \<open>A caller who names the time escapes the window: for every state of the service there is a time from which on a request whose
  \<open>asOf\<close> claims it has no signal for its rate, its destinations or its failed attempts.\<close>

theorem claimed_time_clears_window:
  "\<exists>T. \<forall>dto stamp t. op_asOf (dt_operation dto) = Some stamp \<and> hs_parse e stamp = Some t \<and> T \<le> t \<longrightarrow>
     sg_code ` set (ar_signals (fst (evaluateDto e clock dto caller s))) \<inter> window_codes = {}"
proof -
  define w where "w = th_velocityWindowSeconds (resolveThresholds e)"
  define b where "b = fallback (map_get (as_actorWindows s) (ac_actorId caller)) \<lparr>bu_operationTimestampsMs = [], bu_destinationHistory = [], bu_failedAttemptTimestampsMs = []\<rparr>"
  define times where "times = bu_operationTimestampsMs b @ map snd (bu_destinationHistory b) @ bu_failedAttemptTimestampsMs b"
  define T where "T = Max (set (0 # times)) + \<lceil>w * 1000\<rceil> + 1"
  have old: "\<not> of_int u \<ge> cutoffMs t w" if "T \<le> t" "u \<in> set times" for t u
  proof -
    have "u \<le> Max (set (0 # times))" using that(2) by simp
    then have "u + \<lceil>w * 1000\<rceil> < t" using that(1) by (simp add: T_def)
    then have "of_int u + w * 1000 < (of_int t :: rat)" by linarith
    then show ?thesis by (simp add: cutoffMs_def)
  qed
  have "sg_code ` set (ar_signals (fst (evaluateDto e clock dto caller s))) \<inter> window_codes = {}"
    if "op_asOf (dt_operation dto) = Some stamp" "hs_parse e stamp = Some t" "T \<le> t" for dto stamp t
  proof -
    let ?a = "dto_actor dto caller" and ?o = "dt_operation dto"
    let ?ctx = "evaluated_context e clock ?o ?a s"
    obtain rid where r: "fst (evaluateDto e clock dto caller s) = (evaluateAbuseRisk (host.truncate e) ?ctx)\<lparr>ar_reviewId := rid\<rparr>"
      using evaluateOperation_result unfolding evaluateDto_def by blast
    have ws: "ev_windowState ?ctx = fst (getBehavioralWindowState (ac_actorId caller) w t s)"
      using that by (simp add: evaluated_context_def seen_window_def parseTimestampMs_def w_def dto_actor_def)
    have "ws_recentOperationCount (ev_windowState ?ctx) = 0 \<and> ws_recentDistinctDestinations (ev_windowState ?ctx) = [] \<and> ws_recentFailedAttempts (ev_windowState ?ctx) = 0"
    proof (cases "map_get (as_actorWindows s) (ac_actorId caller)")
      case None
      then show ?thesis unfolding ws by (simp add: getBehavioralWindowState_def)
    next
      case (Some b')
      then have "b' = b" by (simp add: b_def)
      then have gone: "since (cutoffMs t w) (bu_operationTimestampsMs b') = []" "filter (\<lambda>(_, u). of_int u \<ge> cutoffMs t w) (bu_destinationHistory b') = []"
        "since (cutoffMs t w) (bu_failedAttemptTimestampsMs b') = []"
        using old[OF that(3)] by (force simp: times_def filter_empty_conv)+
      show ?thesis unfolding ws using Some gone by (simp add: getBehavioralWindowState_def Let_def js_set_def)
    qed
    then show ?thesis
      unfolding r using thresholds_positive[of e] quiet_window_signals[of ?ctx "host.truncate e"] by (simp add: evaluated_context_def)
  qed
  then show ?thesis by blast
qed

definition sample_dto :: "string option \<Rightarrow> EvaluateAbuseRiskDto" where
  "sample_dto stamp = \<lparr>dt_operation = (sample_operation Data_export)\<lparr>op_asOf := stamp\<rparr>, dt_deviceFingerprint = None, dt_accountAgeDays = None, dt_mfaEnabled = None,
     dt_stepUpVerified = None, dt_minutesSinceLastCredentialChange = None, dt_knownDevicesOrIps = None, dt_verifiedDestinations = None, dt_reviewApprovalToken = None\<rparr>"

definition sample_busy_service :: abuse_service where
  "sample_busy_service = new_abuse_service\<lparr>as_actorWindows := [(''u1'', \<lparr>bu_operationTimestampsMs = replicate 6 1, bu_destinationHistory = [], bu_failedAttemptTimestampsMs = []\<rparr>)]\<rparr>"

theorem claimed_time_clears_window_witness:
  "VELOCITY_BURST \<in> sg_code ` set (ar_signals (fst (evaluateDto sample_env 1 (sample_dto None) sample_actor sample_busy_service)))
   \<and> (\<exists>stamp. VELOCITY_BURST \<notin> sg_code ` set (ar_signals (fst (evaluateDto sample_env 1 (sample_dto (Some stamp)) sample_actor sample_busy_service))))"
proof
  show "VELOCITY_BURST \<in> sg_code ` set (ar_signals (fst (evaluateDto sample_env 1 (sample_dto None) sample_actor sample_busy_service)))" by code_simp
  obtain T where T: "\<forall>dto stamp t. op_asOf (dt_operation dto) = Some stamp \<and> hs_parse sample_env stamp = Some t \<and> T \<le> t \<longrightarrow>
     sg_code ` set (ar_signals (fst (evaluateDto sample_env 1 dto sample_actor sample_busy_service))) \<inter> window_codes = {}"
    using claimed_time_clears_window[of sample_env 1 sample_actor sample_busy_service] by blast
  let ?stamp = "replicate (nat T) CHR ''t''"
  have "sg_code ` set (ar_signals (fst (evaluateDto sample_env 1 (sample_dto (Some ?stamp)) sample_actor sample_busy_service))) \<inter> window_codes = {}"
    by (rule T[rule_format, of _ ?stamp "int (length ?stamp)"]) (simp add: sample_dto_def sample_env_def)
  then show "\<exists>stamp. VELOCITY_BURST \<notin> sg_code ` set (ar_signals (fst (evaluateDto sample_env 1 (sample_dto (Some stamp)) sample_actor sample_busy_service)))"
    by (auto simp: window_codes_def)
qed

end
