(* ===== verification/Admin_Changes.thy ===== *)
theory Admin_Changes
  imports Sensitive_Audit
begin

text \<open>
  Audit evidence for administrative configuration changes,
  \<open>src/infrastructure/audit/admin-config/admin-config-audit.service.ts\<close>.  A change is a record of actions on
  a world: a snapshot, the change itself and its undoing, each of which may throw.  The service checks the
  role of the actor, takes a snapshot, applies the change, records the evidence in the trail of sensitive
  actions (\<open>Sensitive_Audit\<close>) with a bounded number of attempts, and undoes the change when that fails.

  The locale \<open>evidenced_change\<close> states what the service relies on of a change, and shows that a change
  without evidence does not stay.  The clock, the waiting between attempts and the tables of the trail
  are arguments.  Log lines are left out.
\<close>

section \<open>Actions\<close>

text \<open>\<open>Thrown\<close> is any other error, by its name.\<close>

datatype change_error =
    ForbiddenException string
  | ServiceUnavailableException string
  | BadRequestException string
  | Thrown string

fun error_name :: "change_error \<Rightarrow> string" where
  "error_name (ForbiddenException m) = ''ForbiddenException''"
| "error_name (ServiceUnavailableException m) = ''ServiceUnavailableException''"
| "error_name (BadRequestException m) = ''BadRequestException''"
| "error_name (Thrown n) = n"

type_synonym ('w, 'a) act = "'w \<Rightarrow> (change_error, 'a) result \<times> 'w"

definition returns :: "'a \<Rightarrow> ('w, 'a) act" where
  "returns x w = (Inr x, w)"

definition and_then :: "('w, 'a) act \<Rightarrow> ('a \<Rightarrow> ('w, 'b) act) \<Rightarrow> ('w, 'b) act" where
  "and_then m f w = (case m w of (Inl e, w1) \<Rightarrow> (Inl e, w1) | (Inr x, w1) \<Rightarrow> f x w1)"

lemma and_then_simps [simp]:
  "m w = (Inl e, w1) \<Longrightarrow> and_then m f w = (Inl e, w1)"
  "m w = (Inr x, w1) \<Longrightarrow> and_then m f w = f x w1"
  by (simp_all add: and_then_def)

lemma and_then_Inr: "and_then m f w = (Inr y, w2) \<longleftrightarrow> (\<exists>x w1. m w = (Inr x, w1) \<and> f x w1 = (Inr y, w2))"
  by (auto simp: and_then_def split: prod.splits sum.splits)

section \<open>A change\<close>

record AdminConfigActor =
  aa_id :: string
  aa_role :: "string option"
  aa_ipAddress :: "string option"
  aa_userAgent :: "string option"

text \<open>\<open>ac_json\<close> is the value of a snapshot as \<open>JSON.stringify\<close> sees it.\<close>

record ('w, 's, 'r) AdminConfigChange =
  ac_action :: string
  ac_actor :: AdminConfigActor
  ac_allowedRoles :: "string list option"
  ac_resourceType :: string
  ac_resourceId :: string
  ac_reason :: string
  ac_snapshot :: "('w, 's) act"
  ac_apply :: "('w, 'r) act"
  ac_revert :: "'s \<Rightarrow> ('w, unit) act"
  ac_metadata :: "(string, js_value) jsmap"
  ac_json :: "'s \<Rightarrow> js_value"

record 'w admin_env =
  ae_sha :: "string \<Rightarrow> string"
  ae_db :: "'w audit_db"
  ae_now :: "'w \<Rightarrow> string"
  ae_delay :: "int \<Rightarrow> 'w \<Rightarrow> 'w"
  ae_maxAttempts :: int
  ae_baseDelayMs :: int

definition admin_env_of ::
  "(string \<Rightarrow> string) \<Rightarrow> 'w audit_db \<Rightarrow> ('w \<Rightarrow> string) \<Rightarrow> (int \<Rightarrow> 'w \<Rightarrow> 'w) \<Rightarrow> int option \<Rightarrow> int option \<Rightarrow> 'w admin_env" where
  "admin_env_of sha db now delay maxAttempts baseDelayMs =
     \<lparr>ae_sha = sha, ae_db = db, ae_now = now, ae_delay = delay,
      ae_maxAttempts = max 1 (case maxAttempts of None \<Rightarrow> 3 | Some n \<Rightarrow> n),
      ae_baseDelayMs = max 0 (case baseDelayMs of None \<Rightarrow> 50 | Some n \<Rightarrow> n)\<rparr>"

definition ADMIN_CONFIG_ROLES :: "string list" where
  "ADMIN_CONFIG_ROLES = [''ADMIN'', ''MAINTAINER'']"

record EvidenceFields =
  ef_status :: SensitiveActionStatus
  ef_before :: "js_value option"
  ef_after :: "js_value option"
  ef_outcome :: string
  ef_error :: "string option"

section \<open>Recording\<close>

text \<open>
  \<open>JSON.parse(JSON.stringify(v))\<close>: \<^const>\<open>None\<close> where \<open>stringify\<close> gives \<open>undefined\<close>.  Properties without a
  text are dropped, array elements without one become \<open>null\<close>, dates become strings.
\<close>

fun json_trip :: "js_value \<Rightarrow> (event_error, js_value option) result" where
  "json_trip (JArr xs) =
     map_result (\<lambda>items. Some (JArr (map (\<lambda>x. Some (case x of None \<Rightarrow> JNull | Some v \<Rightarrow> v)) items)))
       (sequence (map (\<lambda>x. case x of None \<Rightarrow> Inr None | Some v \<Rightarrow> json_trip v) xs))"
| "json_trip (JObj pl entries) =
     map_result (\<lambda>items. Some (JObj True (List.map_filter (\<lambda>(k, x). map_option (Pair k) x) items)))
       (sequence (map (\<lambda>(k, v). map_result (Pair k) (json_trip v)) entries))"
| "json_trip (JDate t) = Inr (Some (JStr t))"
| "json_trip (JNum n) = Inr (Some (case n of JNegZero \<Rightarrow> JNum (JInt 0) | JNaN \<Rightarrow> JNull | JInfinity \<Rightarrow> JNull | _ \<Rightarrow> JNum n))"
| "json_trip (JBigint i) = Inl (TypeError ''Do not know how to serialize a BigInt'')"
| "json_trip JUndefined = Inr None"
| "json_trip (JOther t) = Inr None"
| "json_trip JNull = Inr (Some JNull)"
| "json_trip (JStr s) = Inr (Some (JStr s))"
| "json_trip (JBool b) = Inr (Some (JBool b))"

definition parsed :: "(event_error, js_value option) result \<Rightarrow> (event_error, js_value) result" where
  "parsed r = (case r of Inl e \<Rightarrow> Inl e | Inr None \<Rightarrow> Inl (OtherError ''SyntaxError'') | Inr (Some v) \<Rightarrow> Inr v)"

fun toState :: "js_value option \<Rightarrow> (event_error, js_value option) result" where
  "toState None = Inr None"
| "toState (Some JNull) = Inr None"
| "toState (Some JUndefined) = Inr None"
| "toState (Some (JObj pl entries)) = map_result Some (parsed (json_trip (JObj pl entries)))"
| "toState (Some (JDate t)) = map_result Some (parsed (json_trip (JDate t)))"
| "toState (Some v) = map_result (\<lambda>x. Some (JObj True [(''value'', x)])) (parsed (json_trip v))"

text \<open>A recording that nothing interrupts: the call is resumed until it is finished, four times at most.\<close>

definition resume_call :: "'w admin_env \<Rightarrow> audit_call \<times> 'w \<Rightarrow> audit_call \<times> 'w" where
  "resume_call env cw = (case cw of (c, w) \<Rightarrow> audit_advance (ae_sha env) (ae_db env) (ae_now env w) c w)"

definition await_recording ::
  "'w admin_env \<Rightarrow> RecordSensitiveActionInput \<Rightarrow> 'w \<Rightarrow> (audit_error, SensitiveActionEvent) result \<times> 'w" where
  "await_recording env input w =
     (case (resume_call env ^^ 4) (recordSensitiveAction input, w) of
        (Finished r, w1) \<Rightarrow> (r, w1)
      | (_, w1) \<Rightarrow> (Inl (Database (OtherError ''pending'')), w1))"

definition evidence_input ::
  "('w, 's, 'r) AdminConfigChange \<Rightarrow> EvidenceFields \<Rightarrow> nat \<Rightarrow> js_value option \<Rightarrow> js_value option \<Rightarrow> RecordSensitiveActionInput" where
  "evidence_input change evidence attempt before after =
     \<lparr>in_action = ac_action change,
      in_actorId = (if aa_id (ac_actor change) = [] then ''unknown'' else aa_id (ac_actor change)),
      in_actorType = Some Actor_maintainer, in_actorRole = aa_role (ac_actor change),
      in_resourceType = Some (ac_resourceType change), in_resourceId = Some (ac_resourceId change),
      in_reason = Some (ac_reason change), in_beforeState = before, in_afterState = after,
      in_metadata = Some (JObj True
        ((if attempt > 1 then map_set ''recordAttempt'' (JNum (JInt (int attempt))) else (\<lambda>m. m))
          ((case ef_error evidence of None \<Rightarrow> (\<lambda>m. m) | Some e \<Rightarrow> if e = [] then (\<lambda>m. m) else map_set ''error'' (JStr e))
            (map_set ''outcome'' (JStr (ef_outcome evidence)) (ac_metadata change))))),
      in_status = Some (ef_status evidence), in_ipAddress = aa_ipAddress (ac_actor change),
      in_userAgent = aa_userAgent (ac_actor change), in_occurredAt = None\<rparr>"

definition record_change ::
  "'w admin_env \<Rightarrow> ('w, 's, 'r) AdminConfigChange \<Rightarrow> EvidenceFields \<Rightarrow> nat \<Rightarrow> 'w
    \<Rightarrow> (audit_error, SensitiveActionEvent) result \<times> 'w" where
  "record_change env change evidence attempt w =
     (case toState (ef_before evidence) of
        Inl e \<Rightarrow> (Inl (Database e), w)
      | Inr before \<Rightarrow>
          (case toState (ef_after evidence) of
             Inl e \<Rightarrow> (Inl (Database e), w)
           | Inr after \<Rightarrow> await_recording env (evidence_input change evidence attempt before after) w))"

definition recordBestEffort :: "'w admin_env \<Rightarrow> ('w, 's, 'r) AdminConfigChange \<Rightarrow> EvidenceFields \<Rightarrow> 'w \<Rightarrow> 'w" where
  "recordBestEffort env change evidence w = snd (record_change env change evidence 1 w)"

text \<open>The attempts that are left, and the number of the next one.\<close>

fun record_attempts ::
  "'w admin_env \<Rightarrow> ('w, 's, 'r) AdminConfigChange \<Rightarrow> EvidenceFields \<Rightarrow> nat \<Rightarrow> nat \<Rightarrow> 'w
    \<Rightarrow> (audit_error, SensitiveActionEvent) result \<times> 'w" where
  "record_attempts env change evidence 0 attempt w = (Inl (Database (OtherError ''undefined'')), w)"
| "record_attempts env change evidence (Suc left) attempt w =
     (case record_change env change evidence attempt w of
        (Inr e, w1) \<Rightarrow> (Inr e, w1)
      | (Inl e, w1) \<Rightarrow>
          if left = 0 then (Inl e, w1)
          else record_attempts env change evidence left (Suc attempt)
            (if ae_baseDelayMs env > 0 then ae_delay env (ae_baseDelayMs env * 2 ^ (attempt - 1)) w1 else w1))"

definition recordWithRetry ::
  "'w admin_env \<Rightarrow> ('w, 's, 'r) AdminConfigChange \<Rightarrow> EvidenceFields \<Rightarrow> 'w
    \<Rightarrow> (audit_error, SensitiveActionEvent) result \<times> 'w" where
  "recordWithRetry env change evidence w = record_attempts env change evidence (nat (ae_maxAttempts env)) 1 w"

section \<open>Applying a change with evidence\<close>

definition may_change :: "('w, 's, 'r) AdminConfigChange \<Rightarrow> bool" where
  "may_change change \<longleftrightarrow> aa_id (ac_actor change) \<noteq> [] \<and>
     (case map_option toUpperCase (aa_role (ac_actor change)) of
        None \<Rightarrow> False
      | Some r \<Rightarrow> r \<noteq> [] \<and> r \<in> set (case ac_allowedRoles change of None \<Rightarrow> ADMIN_CONFIG_ROLES | Some rs \<Rightarrow> rs))"

definition insufficient :: change_error where
  "insufficient = ForbiddenException ''Insufficient role to change administrative configuration''"

definition not_rolled_back :: change_error where
  "not_rolled_back = ServiceUnavailableException
     ''Configuration change could not be audited or rolled back; manual reconciliation required''"

definition rolled_back :: change_error where
  "rolled_back = ServiceUnavailableException
     ''Configuration change was rolled back because its audit evidence could not be recorded''"

definition applyWithEvidence :: "'w admin_env \<Rightarrow> ('w, 's, 'r) AdminConfigChange \<Rightarrow> ('w, 'r) act" where
  "applyWithEvidence env change w =
     (if \<not> may_change change then
        (Inl insufficient, recordBestEffort env change
           \<lparr>ef_status = Sas_failed, ef_before = None, ef_after = None, ef_outcome = ''unauthorized'', ef_error = None\<rparr> w)
      else case ac_snapshot change w of
        (Inl e, w1) \<Rightarrow> (Inl e, w1)
      | (Inr before, w1) \<Rightarrow>
        (case ac_apply change w1 of
           (Inl e, w2) \<Rightarrow>
             (Inl e, recordBestEffort env change
                \<lparr>ef_status = Sas_failed, ef_before = Some (ac_json change before), ef_after = None,
                 ef_outcome = ''apply_failed'', ef_error = Some (error_name e)\<rparr> w2)
         | (Inr result, w2) \<Rightarrow>
           (case ac_snapshot change w2 of
              (Inl e, w3) \<Rightarrow> (Inl e, w3)
            | (Inr after, w3) \<Rightarrow>
              (case recordWithRetry env change
                 \<lparr>ef_status = Sas_succeeded, ef_before = Some (ac_json change before), ef_after = Some (ac_json change after),
                  ef_outcome = ''applied'', ef_error = None\<rparr> w3 of
                 (Inr event, w4) \<Rightarrow> (Inr result, w4)
               | (Inl e, w4) \<Rightarrow>
                 (case ac_revert change before w4 of
                    (Inl e', w5) \<Rightarrow> (Inl not_rolled_back, w5)
                  | (Inr _, w5) \<Rightarrow> (Inl rolled_back, w5))))))"

section \<open>What a recording does\<close>

lemma resume_four: "(resume_call env ^^ 4) cw = resume_call env (resume_call env (resume_call env (resume_call env cw)))"
  by (simp add: numeral_eq_Suc)

text \<open>Four resumptions finish a call, whatever the tables answer.\<close>

lemma recording_finishes: "\<exists>r w1. (resume_call env ^^ 4) (recordSensitiveAction input, w) = (Finished r, w1)"
proof -
  define stage where "stage = (\<lambda>c. case c of Read_latest i d \<Rightarrow> 4 | Read_head i d l \<Rightarrow> 3 | Save_event e \<Rightarrow> 2 | Save_head e \<Rightarrow> 1 | Finished r \<Rightarrow> (0::nat))"
  have down: "stage (fst (resume_call env (c, w))) \<le> stage c - 1" for c w
    by (cases c) (auto simp: stage_def resume_call_def link_event_def Let_def split: sum.splits prod.splits option.splits)
  then have down': "stage (fst (resume_call env cw)) \<le> stage (fst cw) - 1" for cw by (cases cw) simp
  have "stage (recordSensitiveAction input) \<le> 4" by (cases "recordSensitiveAction input") (simp_all add: stage_def)
  then have "stage (fst ((resume_call env ^^ 4) (recordSensitiveAction input, w))) = 0"
    unfolding resume_four
    using down' [of "(recordSensitiveAction input, w)"] down' [of "resume_call env (recordSensitiveAction input, w)"]
      down' [of "resume_call env (resume_call env (recordSensitiveAction input, w))"]
      down' [of "resume_call env (resume_call env (resume_call env (recordSensitiveAction input, w)))"]
    by simp
  moreover have "stage c = 0 \<Longrightarrow> \<exists>r. c = Finished r" for c by (cases c) (simp_all add: stage_def)
  ultimately show ?thesis by (metis prod.collapse)
qed

lemma resume_finished [simp]: "resume_call env (Finished r, w) = (Finished r, w)"
  by (simp add: resume_call_def)

lemma await_recording_steps:
  assumes "await_recording env input w = (Inr e, w')"
  obtains d latest h event w1 where "recordSensitiveAction input = Read_latest input d"
    "db_latest (ae_db env) w = Inr latest" "db_head (ae_db env) w = Inr h"
    "link_event (ae_sha env) (ae_now env w) input d latest h = Save_event event"
    "db_saveEvent (ae_db env) event w = (Inr e, w1)"
    "db_saveHead (ae_db env) \<lparr>ch_sequence = sa_sequence e, ch_eventHash = sa_eventHash e, ch_lastEventId = sa_id e\<rparr> w1 = (Inr (), w')"
proof -
  have fin: "(resume_call env ^^ 4) (recordSensitiveAction input, w) = (Finished (Inr e), w')"
    using recording_finishes [of env input w] assms by (auto simp: await_recording_def)
  have "recordSensitiveAction input = Read_latest input d \<or> (\<exists>x. recordSensitiveAction input = Finished (Inl x))"
    if "describeSensitiveAction (in_action input) = Some d" for d
    using that by (simp add: recordSensitiveAction_def)
  then obtain d where d: "recordSensitiveAction input = Read_latest input d"
    using fin unfolding resume_four by (cases "describeSensitiveAction (in_action input)") (auto simp: recordSensitiveAction_def split: if_splits)
  obtain latest where l: "db_latest (ae_db env) w = Inr latest"
    using fin unfolding resume_four d by (cases "db_latest (ae_db env) w") (auto simp: resume_call_def)
  obtain h where h: "db_head (ae_db env) w = Inr h"
    using fin unfolding resume_four d by (cases "db_head (ae_db env) w") (auto simp: resume_call_def l)
  obtain event where ev: "link_event (ae_sha env) (ae_now env w) input d latest h = Save_event event"
    using fin unfolding resume_four d
    by (auto simp: resume_call_def l h link_event_def Let_def split: if_splits sum.splits)
  obtain r w1 where r: "db_saveEvent (ae_db env) event w = (r, w1)" by fastforce
  with fin obtain s where s: "r = Inr s" unfolding resume_four d by (cases r) (auto simp: resume_call_def l h ev)
  obtain q w2 where q: "db_saveHead (ae_db env) \<lparr>ch_sequence = sa_sequence s, ch_eventHash = sa_eventHash s, ch_lastEventId = sa_id s\<rparr> w1 = (q, w2)"
    by fastforce
  with fin have "q = Inr ()" "s = e" "w2 = w'" unfolding resume_four d
    by (cases q; auto simp: resume_call_def l h ev r s)+
  then show thesis using that d l h ev r q s by blast
qed

text \<open>A recording writes to the trail only through its two writes.\<close>

lemma await_recording_keeps:
  assumes "\<And>e w r w'. db_saveEvent (ae_db env) e w = (r, w') \<Longrightarrow> tbl w' = tbl w"
    and "\<And>h w r w'. db_saveHead (ae_db env) h w = (r, w') \<Longrightarrow> tbl w' = tbl w"
    and "await_recording env input w = (r, w')"
  shows "tbl w' = tbl w"
proof -
  have "tbl (snd (resume_call env (c, v))) = tbl v" for c v
    using assms(1,2) by (cases c) (auto simp: resume_call_def split: prod.splits sum.splits)
  then have one: "tbl (snd (resume_call env cv)) = tbl (snd cv)" for cv by (cases cv) simp
  have "tbl (snd ((resume_call env ^^ 4) (recordSensitiveAction input, w))) = tbl w" unfolding resume_four by (simp add: one)
  moreover have "w' = snd ((resume_call env ^^ 4) (recordSensitiveAction input, w))"
    using assms(3) recording_finishes [of env input w] by (auto simp: await_recording_def)
  ultimately show ?thesis by simp
qed

lemma record_change_keeps:
  assumes "\<And>e w r w'. db_saveEvent (ae_db env) e w = (r, w') \<Longrightarrow> tbl w' = tbl w"
    and "\<And>h w r w'. db_saveHead (ae_db env) h w = (r, w') \<Longrightarrow> tbl w' = tbl w"
    and "record_change env change evidence n w = (r, w')"
  shows "tbl w' = tbl w"
  using await_recording_keeps [of env tbl, OF assms(1,2)] assms(3) by (auto simp: record_change_def split: sum.splits)

lemma record_attempts_keeps:
  assumes "\<And>e w r w'. db_saveEvent (ae_db env) e w = (r, w') \<Longrightarrow> tbl w' = tbl w"
    and "\<And>h w r w'. db_saveHead (ae_db env) h w = (r, w') \<Longrightarrow> tbl w' = tbl w"
    and "\<And>ms w. tbl (ae_delay env ms w) = tbl w"
  shows "record_attempts env change evidence m n w = (r, w') \<Longrightarrow> tbl w' = tbl w"
proof (induction m arbitrary: n w)
  case (Suc m)
  obtain q w1 where q: "record_change env change evidence n w = (q, w1)" by fastforce
  with Suc show ?case using record_change_keeps [of env tbl, OF assms(1,2) q] by (auto simp: assms(3) split: sum.splits if_splits)
qed simp

lemma attempts_fail:
  assumes "\<And>n v. isl (fst (record_change env change evidence n v))"
  shows "isl (fst (record_attempts env change evidence m n w))"
proof (induction m arbitrary: n w)
  case (Suc m)
  obtain r w1 where r: "record_change env change evidence n w = (r, w1)" by fastforce
  with assms [of n w] obtain e where "r = Inl e" by (cases r) auto
  with r Suc show ?case by simp
qed simp

lemma link_event_built:
  assumes "link_event sha now input d latest h = Save_event event"
  shows "\<exists>s p x. event = (build_event now input d s p)\<lparr>sa_eventHash := x\<rparr>"
  using assms by (auto simp: link_event_def Let_def split: if_splits sum.splits)

text \<open>What the event of a change says.\<close>

definition of_change :: "('w, 's, 'r) AdminConfigChange \<Rightarrow> EvidenceFields \<Rightarrow> SensitiveActionEvent \<Rightarrow> bool" where
  "of_change change evidence e \<longleftrightarrow> sa_action e = ac_action change \<and> sa_status e = ef_status evidence \<and>
     sa_actorId e = take 64 (if aa_id (ac_actor change) = [] then ''unknown'' else aa_id (ac_actor change)) \<and>
     sa_resourceId e = Some (take 255 (ac_resourceId change))"

text \<open>On tables that keep their laws, a recording that returns has appended its event and its head.\<close>

context audit_tables
begin

lemma recorded_event:
  assumes trip: "\<And>e. computeHash sha (column_trip jb e) = computeHash sha e"
    and env: "ae_db env = db" "ae_sha env = sha"
    and sound: "trail_sound sha (rows w)"
    and rec: "await_recording env input w = (Inr e, w')"
  shows "rows w' = rows w @ [column_trip jb e] \<and> trail_sound sha (rows w') \<and>
    head_row w' = Some \<lparr>ch_sequence = sa_sequence e, ch_eventHash = sa_eventHash e, ch_lastEventId = sa_id e\<rparr> \<and>
    (\<exists>now d s p x i. e = (build_event now input d s p)\<lparr>sa_eventHash := x, sa_id := i\<rparr>)"
proof -
  obtain d latest h event w1 where
    steps: "db_latest db w = Inr latest" "db_head db w = Inr h"
      "link_event sha (ae_now env w) input d latest h = Save_event event"
      "db_saveEvent db event w = (Inr e, w1)"
      "db_saveHead db \<lparr>ch_sequence = sa_sequence e, ch_eventHash = sa_eventHash e, ch_lastEventId = sa_id e\<rparr> w1 = (Inr (), w')"
    by (rule await_recording_steps [OF rec, unfolded env])
  have linked: "call_linked sha (rows w) (Save_event event)"
  proof -
    have "call_linked sha (rows w) (Read_head input d latest)"
      using latest_last [OF steps(1)]
      by (auto simp: call_linked_def last_conv_nth intro!: exI [of _ "length (rows w)"] split: option.splits)
    from link_event_linked [OF sound this, of "ae_now env w" h] steps(3) show ?thesis by simp
  qed
  then obtain k where k: "k \<le> length (rows w)" "sa_sequence event = int k + 1" by (auto simp: call_linked_def)
  from event_saved [OF steps(4)] obtain i where i: "sa_sequence event \<notin> sa_sequence ` set (rows w)" "e = event\<lparr>sa_id := i\<rparr>"
    "(\<forall>f \<in> set (rows w). sa_sequence f < sa_sequence event) \<longrightarrow> rows w1 = rows w @ [column_trip jb (event\<lparr>sa_id := i\<rparr>)]"
    by auto
  have all: "sa_sequence ` set (rows w) = {1 .. int (length (rows w))}" by (rule trail_sequences [OF sound])
  with i(1) k have "k = length (rows w)" by auto
  with all k(2) have "\<forall>f \<in> set (rows w). sa_sequence f < sa_sequence event" by (auto simp: set_eq_iff image_iff)
  with i have "rows w1 = rows w @ [column_trip jb e]" by simp
  moreover from head_saved [OF steps(5)] have "rows w' = rows w1"
    "head_row w' = Some \<lparr>ch_sequence = sa_sequence e, ch_eventHash = sa_eventHash e, ch_lastEventId = sa_id e\<rparr>" by auto
  moreover have "audit_advance sha db (ae_now env w) (Save_event event) w = (Save_head e, w1)" using steps(4) by simp
  with advance_sound [OF trip sound linked] have "trail_sound sha (rows w1)" by blast
  moreover from link_event_built [OF steps(3)] i(2) have "\<exists>now d s p x i. e = (build_event now input d s p)\<lparr>sa_eventHash := x, sa_id := i\<rparr>"
    by blast
  ultimately show ?thesis by simp
qed

text \<open>A recording never takes an event out of the trail, adds events of its own only, and keeps the trail sound, also when it fails.\<close>

lemma save_event_appends:
  assumes "trail_sound sha (rows w)" "call_linked sha (rows w) (Save_event e)" "db_saveEvent db e w = (r, w')"
  shows "rows w' = rows w \<or> (\<exists>i. rows w' = rows w @ [column_trip jb (e\<lparr>sa_id := i\<rparr>)])"
proof (cases "rows w' = rows w")
  case False
  obtain k where k: "k \<le> length (rows w)" "sa_sequence e = int k + 1" using assms(2) by (auto simp: call_linked_def)
  from event_saved [OF assms(3)] False obtain i where i: "sa_sequence e \<notin> sa_sequence ` set (rows w)"
    "(\<forall>f \<in> set (rows w). sa_sequence f < sa_sequence e) \<longrightarrow> rows w' = rows w @ [column_trip jb (e\<lparr>sa_id := i\<rparr>)]" by blast
  have all: "sa_sequence ` set (rows w) = {1 .. int (length (rows w))}" by (rule trail_sequences [OF assms(1)])
  with i(1) k have "k = length (rows w)" by auto
  with all k(2) have "\<forall>f \<in> set (rows w). sa_sequence f < sa_sequence e" by (auto simp: set_eq_iff image_iff)
  with i(2) show ?thesis by blast
qed simp

definition call_says :: "RecordSensitiveActionInput \<Rightarrow> audit_call \<Rightarrow> bool" where
  "call_says input c \<longleftrightarrow> (case c of Read_latest i d \<Rightarrow> i = input | Read_head i d l \<Rightarrow> i = input
     | Save_event e \<Rightarrow> Some (sa_status e) = in_status input | _ \<Rightarrow> True)"

lemma advance_says:
  assumes "in_status input \<noteq> None" "trail_sound sha (rows w)" "call_linked sha (rows w) c" "call_says input c"
    and step: "audit_advance sha db now c w = (c', w')"
  shows "call_says input c' \<and> (\<exists>fs. rows w' = rows w @ fs \<and> (\<forall>f \<in> set fs. Some (sa_status f) = in_status input))"
proof (cases c)
  case (Read_head i d l)
  have says: "Some (sa_status e) = in_status input" if "link_event sha now i d l h = Save_event e" for h e
    using link_event_built [OF that] assms(1,4) Read_head by (auto simp: call_says_def build_event_def Let_def)
  have kinds: "(\<exists>r. link_event sha now i d l h = Finished r) \<or> (\<exists>e. link_event sha now i d l h = Save_event e)" for h
    by (auto simp: link_event_def Let_def split: sum.splits)
  have linked: "call_says input (link_event sha now i d l h)" for h
    using kinds [of h] says [of h] by (auto simp: call_says_def)
  have "call_says input c' \<and> w' = w"
    using step Read_head linked by (cases "db_head db w") (auto simp: call_says_def [of _ "Finished _"])
  then show ?thesis by auto
next
  case (Save_event e)
  then obtain r where "db_saveEvent db e w = (r, w')" "call_says input c'"
    using step by (auto simp: call_says_def split: prod.splits sum.splits)
  with save_event_appends [OF assms(2)] assms(3,4) Save_event show ?thesis by (fastforce simp: call_says_def column_trip_def)
next
  case (Save_head s)
  then show ?thesis using step head_saved by (auto simp: call_says_def split: prod.splits sum.splits)
qed (use assms in \<open>auto simp: call_says_def split: sum.splits\<close>)

lemma recording_appends:
  assumes trip: "\<And>e. computeHash sha (column_trip jb e) = computeHash sha e"
    and env: "ae_db env = db" "ae_sha env = sha"
    and sound: "trail_sound sha (rows w)" and status: "in_status input \<noteq> None"
    and rec: "await_recording env input w = (r, w')"
  shows "trail_sound sha (rows w') \<and> (\<exists>fs. rows w' = rows w @ fs \<and> (\<forall>f \<in> set fs. Some (sa_status f) = in_status input))"
proof -
  define good where "good = (\<lambda>cv. trail_sound sha (rows (snd cv)) \<and> call_linked sha (rows (snd cv)) (fst cv) \<and> call_says input (fst cv) \<and>
    (\<exists>fs. rows (snd cv) = rows w @ fs \<and> (\<forall>f \<in> set fs. Some (sa_status f) = in_status input)))"
  have step: "good (resume_call env cv)" if "good cv" for cv
  proof -
    obtain c v where cv: "cv = (c, v)" by fastforce
    obtain c' v' where adv: "audit_advance sha db (ae_now env v) c v = (c', v')" by fastforce
    from that cv have g: "trail_sound sha (rows v)" "call_linked sha (rows v) c" "call_says input c"
      "\<exists>fs. rows v = rows w @ fs \<and> (\<forall>f \<in> set fs. Some (sa_status f) = in_status input)" by (simp_all add: good_def)
    from g(4) obtain fs where fs: "rows v = rows w @ fs" "\<forall>f \<in> set fs. Some (sa_status f) = in_status input" by blast
    from advance_says [OF status g(1-3) adv] obtain gs where
      gs: "call_says input c'" "rows v' = rows v @ gs" "\<forall>f \<in> set gs. Some (sa_status f) = in_status input" by blast
    have "\<exists>fs. rows v' = rows w @ fs \<and> (\<forall>f \<in> set fs. Some (sa_status f) = in_status input)"
      using fs gs by (intro exI [of _ "fs @ gs"]) auto
    with gs(1) advance_sound [OF trip g(1,2) adv] show ?thesis by (simp add: good_def resume_call_def cv env adv)
  qed
  have "good (recordSensitiveAction input, w)"
    using sound by (auto simp: good_def recordSensitiveAction_def call_linked_def call_says_def split: option.splits)
  then have "good ((resume_call env ^^ 4) (recordSensitiveAction input, w))" unfolding resume_four by (intro step)
  then show ?thesis using rec recording_finishes [of env input w] by (auto simp: await_recording_def good_def)
qed

lemma record_change_appends:
  assumes trip: "\<And>e. computeHash sha (column_trip jb e) = computeHash sha e"
    and env: "ae_db env = db" "ae_sha env = sha"
    and sound: "trail_sound sha (rows w)"
    and rec: "record_change env change evidence n w = (r, w')"
  shows "trail_sound sha (rows w') \<and> (\<exists>fs. rows w' = rows w @ fs \<and> (\<forall>f \<in> set fs. sa_status f = ef_status evidence))"
proof (cases "\<exists>before after. await_recording env (evidence_input change evidence n before after) w = (r, w')")
  case True
  then obtain before after where "await_recording env (evidence_input change evidence n before after) w = (r, w')" by blast
  from recording_appends [OF trip env sound _ this] show ?thesis by (auto simp: evidence_input_def)
next
  case False
  with rec have "w' = w" by (auto simp: record_change_def split: sum.splits)
  with sound show ?thesis by auto
qed

lemma record_attempts_appends:
  assumes trip: "\<And>e. computeHash sha (column_trip jb e) = computeHash sha e"
    and env: "ae_db env = db" "ae_sha env = sha"
    and delay: "\<And>ms w. rows (ae_delay env ms w) = rows w"
  shows "trail_sound sha (rows w) \<Longrightarrow> record_attempts env change evidence m n w = (r, w') \<Longrightarrow>
    trail_sound sha (rows w') \<and> (\<exists>fs. rows w' = rows w @ fs \<and> (\<forall>f \<in> set fs. sa_status f = ef_status evidence))"
proof (induction m arbitrary: n w)
  case (Suc m)
  obtain q w1 where q: "record_change env change evidence n w = (q, w1)" by fastforce
  from record_change_appends [OF trip env Suc.prems(1) q] obtain fs where
    fs: "trail_sound sha (rows w1)" "rows w1 = rows w @ fs" "\<forall>f \<in> set fs. sa_status f = ef_status evidence" by blast
  define w2 where "w2 = (if ae_baseDelayMs env > 0 then ae_delay env (ae_baseDelayMs env * 2 ^ (n - 1)) w1 else w1)"
  have w2: "rows w2 = rows w1" by (simp add: w2_def delay)
  consider "w' = w1" | "record_attempts env change evidence m (Suc n) w2 = (r, w')"
    using Suc.prems(2) q by (auto simp: w2_def split: sum.splits if_splits)
  then show ?case
  proof cases
    case 1
    with fs show ?thesis by auto
  next
    case 2
    from Suc.IH [OF _ 2] w2 fs(1) obtain gs where
      "trail_sound sha (rows w')" "rows w' = rows w1 @ gs" "\<forall>f \<in> set gs. sa_status f = ef_status evidence" by auto
    with fs show ?thesis by (intro conjI exI [of _ "fs @ gs"]) auto
  qed
qed auto

text \<open>Where the head does not match the last event, nothing is recorded.\<close>

lemma diverged_refuses:
  assumes "diverged w" "ae_db env = db"
  shows "\<exists>x. await_recording env input w = (Inl x, w)"
proof -
  have step: "\<exists>c'. resume_call env (c, w) = (c', w) \<and> reading (rows w) c'" if "reading (rows w) c" for c
    using diverged_advance [OF assms(1) that] assms(2) by (cases "resume_call env (c, w)") (auto simp: resume_call_def)
  have "reading (rows w) (recordSensitiveAction input)"
    by (auto simp: recordSensitiveAction_def reading_def split: option.splits)
  then obtain c' where c': "(resume_call env ^^ 4) (recordSensitiveAction input, w) = (c', w)" "reading (rows w) c'"
    unfolding resume_four by (metis step)
  with recording_finishes [of env input w] obtain r where "c' = Finished r" by auto
  with c' show ?thesis by (cases r) (auto simp: await_recording_def reading_def)
qed

text \<open>The event that ends the attempts: it is the last of the trail, and what the change says.\<close>

lemma recorded_evidence:
  assumes trip: "\<And>e. computeHash sha (column_trip jb e) = computeHash sha e"
    and env: "ae_db env = db" "ae_sha env = sha"
    and delay: "\<And>ms w. rows (ae_delay env ms w) = rows w"
  shows "trail_sound sha (rows w) \<Longrightarrow> record_attempts env change evidence m n w = (Inr e, w') \<Longrightarrow>
    \<exists>fs. rows w' = rows w @ fs @ [column_trip jb e] \<and> trail_sound sha (rows w') \<and> of_change change evidence e"
proof (induction m arbitrary: n w)
  case (Suc m)
  obtain q w1 where q: "record_change env change evidence n w = (q, w1)" by fastforce
  show ?case
  proof (cases q)
    case (Inr e')
    with Suc.prems(2) q have "e' = e" "w1 = w'" by simp_all
    with q Inr obtain before after where rec: "await_recording env (evidence_input change evidence n before after) w = (Inr e, w')"
      by (auto simp: record_change_def split: sum.splits)
    from recorded_event [OF trip env Suc.prems(1) rec] show ?thesis
      by (auto simp: of_change_def build_event_def evidence_input_def clip_def Let_def)
  next
    case (Inl x)
    have appended: "trail_sound sha (rows w1) \<and> (\<exists>fs. rows w1 = rows w @ fs)"
      using record_change_appends [OF trip env Suc.prems(1) q] by blast
    define w2 where "w2 = (if ae_baseDelayMs env > 0 then ae_delay env (ae_baseDelayMs env * 2 ^ (n - 1)) w1 else w1)"
    have "record_attempts env change evidence m (Suc n) w2 = (Inr e, w')"
      using Suc.prems(2) q Inl by (auto simp: w2_def split: if_splits)
    moreover have "rows w2 = rows w1" by (simp add: w2_def delay)
    ultimately show ?thesis using Suc.IH [of w2 "Suc n"] appended by auto
  qed
qed simp

end

section \<open>A change that can be undone\<close>

text \<open>
  What the service relies on: \<open>tbl\<close> is the part of the world that holds the configuration, and \<open>eff\<close> what of
  it is in effect.  Recording, waiting and taking a snapshot leave the configuration alone, and undoing a
  change that returned brings back what was in effect.
\<close>

locale evidenced_change =
  fixes env :: "'w admin_env"
    and change :: "('w, 's, 'r) AdminConfigChange"
    and tbl :: "'w \<Rightarrow> 't"
    and ok :: "'t \<Rightarrow> bool"
    and eff :: "'t \<Rightarrow> 'c"
  assumes event_tbl: "db_saveEvent (ae_db env) e w = (q, w') \<Longrightarrow> tbl w' = tbl w"
    and head_tbl: "db_saveHead (ae_db env) h w = (u, w') \<Longrightarrow> tbl w' = tbl w"
    and delay_tbl: "tbl (ae_delay env ms w) = tbl w"
    and snapshot_tbl: "ac_snapshot change w = (s, w') \<Longrightarrow> tbl w' = tbl w"
    and undone: "ok (tbl w) \<Longrightarrow> ac_snapshot change w = (Inr b, w1) \<Longrightarrow> ac_apply change w1 = (Inr x, w2) \<Longrightarrow>
      tbl w3 = tbl w2 \<Longrightarrow> ac_revert change b w3 = (Inr (), w4) \<Longrightarrow> eff (tbl w4) = eff (tbl w)"
begin

lemma record_change_tbl: "record_change env change evidence n w = (r, w') \<Longrightarrow> tbl w' = tbl w"
  by (rule record_change_keeps [of env tbl, OF event_tbl head_tbl])

lemma best_effort_tbl: "tbl (recordBestEffort env change evidence w) = tbl w"
  using record_change_tbl [of evidence 1 w] by (cases "record_change env change evidence 1 w") (simp add: recordBestEffort_def)

lemma retry_tbl: "recordWithRetry env change evidence w = (r, w') \<Longrightarrow> tbl w' = tbl w"
  unfolding recordWithRetry_def by (rule record_attempts_keeps [of env tbl, OF event_tbl head_tbl delay_tbl])

text \<open>How a change ends.\<close>

lemma evidence_cases:
  assumes ends: "applyWithEvidence env change w = (r, w')" and ok: "ok (tbl w)"
  obtains (refused) "\<not> may_change change" "r = Inl insufficient" "tbl w' = tbl w"
  | (unread) e where "ac_snapshot change w = (Inl e, w')" "r = Inl e" "tbl w' = tbl w"
  | (failed) b w1 e w2 where "ac_snapshot change w = (Inr b, w1)" "ac_apply change w1 = (Inl e, w2)" "r = Inl e" "tbl w1 = tbl w" "tbl w' = tbl w2"
  | (unseen) b w1 x w2 e where "ac_snapshot change w = (Inr b, w1)" "ac_apply change w1 = (Inr x, w2)"
      "ac_snapshot change w2 = (Inl e, w')" "r = Inl e" "tbl w1 = tbl w" "tbl w' = tbl w2"
  | (recorded) b w1 x w2 a w3 event where "may_change change" "ac_snapshot change w = (Inr b, w1)" "ac_apply change w1 = (Inr x, w2)"
      "ac_snapshot change w2 = (Inr a, w3)" "recordWithRetry env change \<lparr>ef_status = Sas_succeeded, ef_before = Some (ac_json change b),
        ef_after = Some (ac_json change a), ef_outcome = ''applied'', ef_error = None\<rparr> w3 = (Inr event, w')"
      "r = Inr x" "tbl w1 = tbl w" "tbl w' = tbl w2"
  | (reverted) b w1 x w2 v where "ac_snapshot change w = (Inr b, w1)" "ac_apply change w1 = (Inr x, w2)" "tbl w1 = tbl w" "tbl v = tbl w2"
      "ac_revert change b v = (Inr (), w')" "r = Inl rolled_back" "eff (tbl w') = eff (tbl w)"
  | (stuck) b w1 x w2 v e where "ac_snapshot change w = (Inr b, w1)" "ac_apply change w1 = (Inr x, w2)" "tbl w1 = tbl w" "tbl v = tbl w2"
      "ac_revert change b v = (Inl e, w')" "r = Inl not_rolled_back"
proof (cases "may_change change")
  case False
  with ends best_effort_tbl show thesis by (intro refused) (auto simp: applyWithEvidence_def)
next
  case True
  obtain sb w1 where s: "ac_snapshot change w = (sb, w1)" by fastforce
  note t1 = snapshot_tbl [OF s]
  show thesis
  proof (cases sb)
    case (Inl e)
    with True s ends t1 show thesis by (intro unread) (auto simp: applyWithEvidence_def)
  next
    case b: (Inr b)
    obtain x w2 where x: "ac_apply change w1 = (x, w2)" by fastforce
    show thesis
    proof (cases x)
      case (Inl e)
      with True s b x ends t1 best_effort_tbl show thesis by (intro failed [of b w1 e w2]) (auto simp: applyWithEvidence_def)
    next
      case y: (Inr y)
      obtain sa w3 where a: "ac_snapshot change w2 = (sa, w3)" by fastforce
      note t3 = snapshot_tbl [OF a]
      show thesis
      proof (cases sa)
        case (Inl e)
        with True s b x y a ends t1 t3 show thesis by (intro unseen [of b w1 y w2 e]) (auto simp: applyWithEvidence_def)
      next
        case c: (Inr c)
        obtain q w4 where q: "recordWithRetry env change \<lparr>ef_status = Sas_succeeded, ef_before = Some (ac_json change b),
          ef_after = Some (ac_json change c), ef_outcome = ''applied'', ef_error = None\<rparr> w3 = (q, w4)" by fastforce
        note t4 = retry_tbl [OF q]
        note facts = True s b x y a c q ends
        show thesis
        proof (cases q)
          case (Inr event)
          with facts t1 t3 t4 show thesis by (intro recorded [of b w1 y w2 c w3 event]) (auto simp: applyWithEvidence_def)
        next
          case (Inl e)
          obtain u w5 where u: "ac_revert change b w4 = (u, w5)" by fastforce
          show thesis
          proof (cases u)
            case (Inl e')
            with facts t1 t3 t4 u \<open>q = Inl e\<close> show thesis by (intro stuck [of b w1 y w2 w4 e']) (auto simp: applyWithEvidence_def)
          next
            case (Inr v)
            with facts u \<open>q = Inl e\<close> have "r = Inl rolled_back" "w' = w5" by (auto simp: applyWithEvidence_def)
            moreover have "eff (tbl w5) = eff (tbl w)"
              using undone [OF ok, of b w1 y w2 w4 w5] s b x y u Inr t3 t4 by simp
            ultimately show thesis using reverted [of b w1 y w2 w4] s b x y u Inr t1 t3 t4 by simp
          qed
        qed
      qed
    qed
  qed
qed

end

section \<open>A recording that succeeds\<close>

lemma stringify_total:
  "\<forall>r \<in> set rs. \<not> isl r \<Longrightarrow> \<not> isl (sequence rs)"
  by (induction rs rule: sequence.induct) (auto split: sum.splits)

lemma not_isl_map_result [simp]: "isl (map_result f r) = isl r"
  by (cases r) (simp_all add: map_result_def)

lemma storable_text: "storable lm depth v \<Longrightarrow> \<not> isl (json_stringify v)"
proof (induction lm depth v rule: storable.induct)
  case (3 lm depth n)
  then show ?case by (cases n) simp_all
next
  case (5 lm depth xs)
  then have "\<forall>x \<in> set xs. \<not> isl (case x of None \<Rightarrow> Inr None | Some v \<Rightarrow> json_stringify v)"
    by (auto simp: list_all_iff split: option.splits)
  then show ?case by (simp add: stringify_items_def stringify_total)
next
  case (6 lm depth pl entries)
  then have "\<not> isl (json_stringify v)" if "(k, v) \<in> set entries" for k v
    using that by (cases "sensitive_key k") (fastforce simp: list_all_iff)+
  then show ?case by (auto simp: stringify_entries_def intro!: stringify_total)
qed simp_all

lemma sanitized_text:
  assumes "short_scalars lm input"
  shows "\<not> isl (json_stringify (js_state (sr_value (sanitizeAuditPayload lm input))))"
proof (cases "sr_value (sanitizeAuditPayload lm input)")
  case None
  then show ?thesis by (simp add: js_state_def)
next
  case (Some v)
  then have "fst (walk lm 0 input) = Some v"
    by (cases "walk lm 0 input") (auto simp: sanitizeAuditPayload_def split: option.splits if_splits)
  from storable_text [OF walk_storable [OF assms this]] Some show ?thesis by (simp add: js_state_def)
qed

lemma hash_computes:
  assumes "short_scalars DEFAULT_LIMITS (js_state (in_beforeState input))" "short_scalars DEFAULT_LIMITS (js_state (in_afterState input))"
    and "short_scalars DEFAULT_LIMITS (js_state (in_metadata input))"
  shows "\<exists>h. computeHash sha (build_event now input d s p) = Inr h"
proof -
  define e where "e = build_event now input d s p"
  have states: "\<not> isl (json_stringify (js_state (sa_beforeState e)))" "\<not> isl (json_stringify (js_state (sa_afterState e)))"
    "\<not> isl (json_stringify (js_state (sa_metadata e)))"
    using sanitized_text assms by (simp_all add: e_def build_event_def Let_def)
  have nullable: "\<not> isl (json_stringify (js_nullable x))" for x by (cases x) (simp_all add: js_nullable_def)
  obtain c where "json_stringify (buildHashInput e) = Inr (Some c)"
  proof -
    have "\<not> isl (json_stringify (buildHashInput e))"
      using states nullable by (simp add: buildHashInput_def stringify_entries_def stringify_total)
    moreover have "json_stringify (buildHashInput e) \<noteq> Inr None"
      by (auto simp: buildHashInput_def stringify_entries_def map_result_def split: sum.splits)
    ultimately show thesis using that by (cases "json_stringify (buildHashInput e)") auto
  qed
  then show ?thesis by (simp add: computeHash_def sha256_def e_def)
qed

lemma link_follows:
  assumes "trail_sound sha es" "computeHash sha (build_event now input d (int (length es)) (last_hash es)) = Inr h"
  shows "link_event sha now input d (if es = [] then None else Some (last es)) (head_of es) =
    Save_event ((build_event now input d (int (length es)) (last_hash es))\<lparr>sa_eventHash := h\<rparr>)"
proof (cases "es = []")
  case True
  with assms(2) show ?thesis by (simp add: link_event_def head_of_def last_hash_def)
next
  case False
  then have "sa_sequence (last es) = int (length es)" using assms(1)
    by (simp add: trail_sound_def last_conv_nth int_ops(6) Suc_le_eq)
  with False assms(2) show ?thesis by (simp add: link_event_def head_of_def head_matches_def last_hash_def)
qed

text \<open>On tables that answer, a call with a reason links its event to a trail that verifies, and reaches the writes.\<close>

lemma recording_reaches_writes:
  assumes "recordSensitiveAction input = Read_latest input d"
    and "db_latest (ae_db env) w = Inr (if es = [] then None else Some (last es))" "db_head (ae_db env) w = Inr (head_of es)"
    and "trail_sound (ae_sha env) es"
    and "short_scalars DEFAULT_LIMITS (js_state (in_beforeState input))" "short_scalars DEFAULT_LIMITS (js_state (in_afterState input))"
    and "short_scalars DEFAULT_LIMITS (js_state (in_metadata input))"
  obtains event where "(resume_call env ^^ 4) (recordSensitiveAction input, w) = resume_call env (resume_call env (Save_event event, w))"
    "sa_sequence event = int (length es) + 1"
proof -
  obtain h where h: "computeHash (ae_sha env) (build_event (ae_now env w) input d (int (length es)) (last_hash es)) = Inr h"
    using hash_computes [OF assms(5-7)] by blast
  note link = link_follows [OF assms(4) h]
  show thesis
  proof (rule that)
    show "(resume_call env ^^ 4) (recordSensitiveAction input, w) = resume_call env (resume_call env
      (Save_event ((build_event (ae_now env w) input d (int (length es)) (last_hash es))\<lparr>sa_eventHash := h\<rparr>), w))"
      unfolding resume_four assms(1) by (simp add: resume_call_def assms(2,3) link)
    show "sa_sequence ((build_event (ae_now env w) input d (int (length es)) (last_hash es))\<lparr>sa_eventHash := h\<rparr>) = int (length es) + 1"
      by (simp add: build_event_def nextSequence_def Let_def)
  qed
qed

end
