(* ===== verification/Pause_Control.thy ===== *)
theory Pause_Control
  imports Admin_Changes Roles
begin

text \<open>
  Emergency pauses, \<open>src/infrastructure/pause-control/pause-control.service.ts\<close>, the guard
  \<open>pause-control.guard.ts\<close> and the handlers of \<open>pause-control.controller.ts\<close> that change pauses.  A pause is
  a row of a table; activating one creates or rewrites the active row of its scope, resuming one
  deactivates it, and a check deactivates the rows it finds expired.  With the admin audit service
  (\<open>Admin_Changes\<close>) wired in, activation and resumption leave evidence in the audit trail or are undone.

  The tables are an argument: a record of actions on a world, each of which may throw.  What the service
  relies on of them are the laws of the locale \<open>pause_tables\<close>.  The operations that are cut at an await in the
  theorems on interleaving have a definition for the part after it.  Log lines, the column \<open>updatedAt\<close> and
  the two listings of history and audit log, which only read, are left out.
\<close>

section \<open>Data\<close>

datatype PausableScope = Ps_TRADING | Ps_PAYMENTS | Ps_WITHDRAWALS | Ps_ORACLE | Ps_RECONCILIATION | Ps_DEFI | Ps_ALL

fun pausable_value :: "PausableScope \<Rightarrow> string" where
  "pausable_value Ps_TRADING = ''trading''"
| "pausable_value Ps_PAYMENTS = ''payments''"
| "pausable_value Ps_WITHDRAWALS = ''withdrawals''"
| "pausable_value Ps_ORACLE = ''oracle''"
| "pausable_value Ps_RECONCILIATION = ''reconciliation''"
| "pausable_value Ps_DEFI = ''defi''"
| "pausable_value Ps_ALL = ''all''"

record PauseScope =
  ps_id :: string
  ps_scope :: string
  ps_active :: bool
  ps_reason :: string
  ps_activatedBy :: string
  ps_activatedByRole :: "string option"
  ps_resumedBy :: "string option"
  ps_resumedByRole :: "string option"
  ps_resumeReason :: "string option"
  ps_environment :: "string option"
  ps_expiresAt :: "int option"
  ps_resumedAt :: "int option"

record PauseAuditLog =
  pl_pauseScopeId :: string
  pl_action :: string
  pl_actorId :: string
  pl_actorRole :: string
  pl_reason :: string
  pl_updated :: bool

datatype pause_event =
    Pause_activated string string string
  | Pause_resumed string string string
  | Pause_expired string

text \<open>\<open>pd_save\<close> inserts a row without an id and gives it one; it replaces the row of its id otherwise.\<close>

record 'w pause_db =
  pd_findOne :: "(PauseScope \<Rightarrow> bool) \<Rightarrow> ('w, PauseScope option) act"
  pd_find :: "(PauseScope \<Rightarrow> bool) \<Rightarrow> ('w, PauseScope list) act"
  pd_save :: "PauseScope \<Rightarrow> ('w, PauseScope) act"
  pd_log :: "PauseAuditLog \<Rightarrow> ('w, unit) act"
  pd_emit :: "pause_event \<Rightarrow> 'w \<Rightarrow> 'w"
  pd_now :: "'w \<Rightarrow> int"

record ActivatePauseOpts =
  ap_scope :: PausableScope
  ap_reason :: string
  ap_actorId :: string
  ap_actorRole :: string
  ap_environment :: "string option"
  ap_expiresAt :: "int option"
  ap_ipAddress :: "string option"
  ap_userAgent :: "string option"

text \<open>A snapshot keeps times as ISO text.\<close>

record PauseSnapshot =
  sn_id :: string
  sn_scope :: string
  sn_active :: bool
  sn_reason :: string
  sn_activatedBy :: string
  sn_activatedByRole :: "string option"
  sn_environment :: "string option"
  sn_expiresAt :: "string option"
  sn_resumedBy :: "string option"
  sn_resumedByRole :: "string option"
  sn_resumeReason :: "string option"
  sn_resumedAt :: "string option"

definition ROLLBACK_REASON :: string where
  "ROLLBACK_REASON = ''Rolled back: audit evidence could not be recorded''"

text \<open>The parts of the platform the service uses: the tables, and dates as text and back.\<close>

record 'w pause_env =
  pe_db :: "'w pause_db"
  pe_iso :: "int \<Rightarrow> string"
  pe_date :: "string \<Rightarrow> int"
  pe_audit :: "'w admin_env option"

section \<open>Rows and log entries\<close>

definition is_active :: "string \<Rightarrow> PauseScope \<Rightarrow> bool" where
  "is_active scope p \<longleftrightarrow> ps_scope p = scope \<and> ps_active p"

definition createAuditEntry ::
  "'w pause_env \<Rightarrow> string \<Rightarrow> string \<Rightarrow> string \<Rightarrow> string \<Rightarrow> string \<Rightarrow> bool \<Rightarrow> ('w, unit) act" where
  "createAuditEntry pe pauseScopeId action actorId actorRole reason updated =
     pd_log (pe_db pe) \<lparr>pl_pauseScopeId = pauseScopeId, pl_action = action, pl_actorId = actorId, pl_actorRole = actorRole,
       pl_reason = reason, pl_updated = updated\<rparr>"

definition emits :: "'w pause_env \<Rightarrow> pause_event \<Rightarrow> 'a \<Rightarrow> ('w, 'a) act" where
  "emits pe ev x w = (Inr x, pd_emit (pe_db pe) ev w)"

definition save_logged ::
  "'w pause_env \<Rightarrow> PauseScope \<Rightarrow> string \<Rightarrow> string \<Rightarrow> string \<Rightarrow> string \<Rightarrow> bool \<Rightarrow> ('w, PauseScope) act" where
  "save_logged pe p action actorId actorRole reason updated =
     and_then (pd_save (pe_db pe) p) (\<lambda>saved.
       and_then (createAuditEntry pe (ps_id saved) action actorId actorRole reason updated) (\<lambda>_. returns saved))"

section \<open>Activation and resumption\<close>

definition updated_pause :: "ActivatePauseOpts \<Rightarrow> PauseScope \<Rightarrow> PauseScope" where
  "updated_pause opts p = p\<lparr>ps_reason := ap_reason opts, ps_activatedBy := ap_actorId opts,
     ps_activatedByRole := Some (ap_actorRole opts), ps_expiresAt := ap_expiresAt opts, ps_environment := ap_environment opts\<rparr>"

definition new_pause :: "ActivatePauseOpts \<Rightarrow> PauseScope" where
  "new_pause opts = \<lparr>ps_id = [], ps_scope = pausable_value (ap_scope opts), ps_active = True, ps_reason = ap_reason opts,
     ps_activatedBy = ap_actorId opts, ps_activatedByRole = Some (ap_actorRole opts), ps_resumedBy = None,
     ps_resumedByRole = None, ps_resumeReason = None, ps_environment = ap_environment opts,
     ps_expiresAt = ap_expiresAt opts, ps_resumedAt = None\<rparr>"

text \<open>What follows the search for the active row.\<close>

definition activate_found :: "'w pause_env \<Rightarrow> ActivatePauseOpts \<Rightarrow> PauseScope option \<Rightarrow> ('w, PauseScope) act" where
  "activate_found pe opts existing =
     and_then
       (case existing of
          Some p \<Rightarrow> save_logged pe (updated_pause opts p) ''activate'' (ap_actorId opts) (ap_actorRole opts) (ap_reason opts) True
        | None \<Rightarrow> save_logged pe (new_pause opts) ''activate'' (ap_actorId opts) (ap_actorRole opts) (ap_reason opts) False)
       (\<lambda>saved. emits pe (Pause_activated (pausable_value (ap_scope opts)) (ap_reason opts) (ap_actorId opts)) saved)"

definition applyActivatePause :: "'w pause_env \<Rightarrow> ActivatePauseOpts \<Rightarrow> ('w, PauseScope) act" where
  "applyActivatePause pe opts =
     and_then (pd_findOne (pe_db pe) (is_active (pausable_value (ap_scope opts)))) (activate_found pe opts)"

definition resumed_pause :: "string \<Rightarrow> string \<Rightarrow> string \<Rightarrow> int \<Rightarrow> PauseScope \<Rightarrow> PauseScope" where
  "resumed_pause reason actorId actorRole now p =
     p\<lparr>ps_active := False, ps_resumedBy := Some actorId, ps_resumedByRole := Some actorRole,
       ps_resumeReason := Some reason, ps_resumedAt := Some now\<rparr>"

definition applyResumePause :: "'w pause_env \<Rightarrow> string \<Rightarrow> string \<Rightarrow> string \<Rightarrow> string \<Rightarrow> ('w, PauseScope option) act" where
  "applyResumePause pe scope reason actorId actorRole =
     and_then (pd_findOne (pe_db pe) (is_active scope)) (\<lambda>found.
       case found of
         None \<Rightarrow> returns None
       | Some p \<Rightarrow> (\<lambda>w. and_then
           (save_logged pe (resumed_pause reason actorId actorRole (pd_now (pe_db pe) w) p) ''resume'' actorId actorRole reason False)
           (\<lambda>saved. emits pe (Pause_resumed scope reason actorId) (Some saved)) w))"

section \<open>Snapshots and undoing\<close>

definition snapshot_of :: "'w pause_env \<Rightarrow> PauseScope \<Rightarrow> PauseSnapshot" where
  "snapshot_of pe p = \<lparr>sn_id = ps_id p, sn_scope = ps_scope p, sn_active = ps_active p, sn_reason = ps_reason p,
     sn_activatedBy = ps_activatedBy p, sn_activatedByRole = ps_activatedByRole p, sn_environment = ps_environment p,
     sn_expiresAt = map_option (pe_iso pe) (ps_expiresAt p), sn_resumedBy = ps_resumedBy p,
     sn_resumedByRole = ps_resumedByRole p, sn_resumeReason = ps_resumeReason p,
     sn_resumedAt = map_option (pe_iso pe) (ps_resumedAt p)\<rparr>"

definition snapshotActive :: "'w pause_env \<Rightarrow> string \<Rightarrow> string option \<Rightarrow> ('w, PauseSnapshot option) act" where
  "snapshotActive pe scope row_id =
     and_then (pd_findOne (pe_db pe)
         (case row_id of None \<Rightarrow> is_active scope | Some i \<Rightarrow> if i = [] then is_active scope else (\<lambda>p. ps_id p = i)))
       (\<lambda>row. returns (map_option (snapshot_of pe) row))"

definition snapshot_json :: "PauseSnapshot option \<Rightarrow> js_value" where
  "snapshot_json s = JObj True [(''pause'', case s of None \<Rightarrow> JNull | Some p \<Rightarrow> JObj True
     [(''id'', JStr (sn_id p)), (''scope'', JStr (sn_scope p)), (''active'', JBool (sn_active p)),
      (''reason'', JStr (sn_reason p)), (''activatedBy'', JStr (sn_activatedBy p)),
      (''activatedByRole'', js_nullable (sn_activatedByRole p)), (''environment'', js_nullable (sn_environment p)),
      (''expiresAt'', js_nullable (sn_expiresAt p)), (''resumedBy'', js_nullable (sn_resumedBy p)),
      (''resumedByRole'', js_nullable (sn_resumedByRole p)), (''resumeReason'', js_nullable (sn_resumeReason p)),
      (''resumedAt'', js_nullable (sn_resumedAt p))])]"

definition restored_pause :: "'w pause_env \<Rightarrow> PauseSnapshot \<Rightarrow> PauseScope \<Rightarrow> PauseScope" where
  "restored_pause pe b p = p\<lparr>ps_reason := sn_reason b, ps_activatedBy := sn_activatedBy b,
     ps_activatedByRole := sn_activatedByRole b, ps_environment := sn_environment b,
     ps_expiresAt := (case sn_expiresAt b of None \<Rightarrow> None | Some t \<Rightarrow> if t = [] then None else Some (pe_date pe t))\<rparr>"

definition revertActivation :: "'w pause_env \<Rightarrow> string \<Rightarrow> PauseSnapshot option \<Rightarrow> ('w, unit) act" where
  "revertActivation pe scope before =
     and_then (pd_findOne (pe_db pe) (is_active scope)) (\<lambda>current.
       case current of
         None \<Rightarrow> returns ()
       | Some p \<Rightarrow>
           (case before of
              Some b \<Rightarrow> and_then (save_logged pe (restored_pause pe b p) ''rollback'' ''system'' ''system'' ROLLBACK_REASON False)
                (\<lambda>_. emits pe (Pause_activated scope (sn_reason b) ''system'') ())
            | None \<Rightarrow> (\<lambda>w. and_then
                (save_logged pe (resumed_pause ROLLBACK_REASON ''system'' ''system'' (pd_now (pe_db pe) w) p)
                   ''rollback'' ''system'' ''system'' ROLLBACK_REASON False)
                (\<lambda>_. emits pe (Pause_resumed scope ROLLBACK_REASON ''system'') ()) w)))"

definition reopened_pause :: "PauseScope \<Rightarrow> PauseScope" where
  "reopened_pause p = p\<lparr>ps_active := True, ps_resumedBy := None, ps_resumedByRole := None, ps_resumeReason := None, ps_resumedAt := None\<rparr>"

definition revertResume :: "'w pause_env \<Rightarrow> string \<Rightarrow> PauseSnapshot option \<Rightarrow> ('w, unit) act" where
  "revertResume pe scope before =
     (case before of
        None \<Rightarrow> returns ()
      | Some b \<Rightarrow> and_then (pd_findOne (pe_db pe) (\<lambda>p. ps_id p = sn_id b)) (\<lambda>row.
          case row of
            None \<Rightarrow> returns ()
          | Some p \<Rightarrow> and_then (save_logged pe (reopened_pause p) ''rollback'' ''system'' ''system'' ROLLBACK_REASON False)
              (\<lambda>_. emits pe (Pause_activated scope (sn_reason b) ''system'') ())))"

section \<open>The service\<close>

definition pause_action :: string where
  "pause_action = ''config.emergency-pause.toggled''"

definition activation_change :: "'w pause_env \<Rightarrow> ActivatePauseOpts \<Rightarrow> ('w, PauseSnapshot option, PauseScope) AdminConfigChange" where
  "activation_change pe opts =
     \<lparr>ac_action = pause_action,
      ac_actor = \<lparr>aa_id = ap_actorId opts, aa_role = Some (ap_actorRole opts), aa_ipAddress = ap_ipAddress opts, aa_userAgent = ap_userAgent opts\<rparr>,
      ac_allowedRoles = Some [''ADMIN''], ac_resourceType = ''pause-scope'', ac_resourceId = pausable_value (ap_scope opts),
      ac_reason = ap_reason opts,
      ac_snapshot = snapshotActive pe (pausable_value (ap_scope opts)) None,
      ac_apply = applyActivatePause pe opts,
      ac_revert = revertActivation pe (pausable_value (ap_scope opts)),
      ac_metadata = [(''operation'', JStr ''activate''), (''environment'', js_nullable (ap_environment opts))],
      ac_json = snapshot_json\<rparr>"

definition activatePause :: "'w pause_env \<Rightarrow> ActivatePauseOpts \<Rightarrow> ('w, PauseScope) act" where
  "activatePause pe opts =
     (case pe_audit pe of
        None \<Rightarrow> applyActivatePause pe opts
      | Some env \<Rightarrow> applyWithEvidence env (activation_change pe opts))"

definition resumption_change ::
  "'w pause_env \<Rightarrow> string \<Rightarrow> string \<Rightarrow> string \<Rightarrow> string \<Rightarrow> string option \<Rightarrow> string option \<Rightarrow> string
    \<Rightarrow> ('w, PauseSnapshot option, PauseScope option) AdminConfigChange" where
  "resumption_change pe scope reason actorId actorRole ip ua row_id =
     \<lparr>ac_action = pause_action,
      ac_actor = \<lparr>aa_id = actorId, aa_role = Some actorRole, aa_ipAddress = ip, aa_userAgent = ua\<rparr>,
      ac_allowedRoles = Some [''ADMIN''], ac_resourceType = ''pause-scope'', ac_resourceId = scope, ac_reason = reason,
      ac_snapshot = snapshotActive pe scope (Some row_id),
      ac_apply = applyResumePause pe scope reason actorId actorRole,
      ac_revert = revertResume pe scope,
      ac_metadata = [(''operation'', JStr ''resume'')],
      ac_json = snapshot_json\<rparr>"

definition resumePause ::
  "'w pause_env \<Rightarrow> PausableScope \<Rightarrow> string \<Rightarrow> string \<Rightarrow> string \<Rightarrow> string option \<Rightarrow> string option \<Rightarrow> ('w, PauseScope option) act" where
  "resumePause pe scope reason actorId actorRole ip ua =
     (case pe_audit pe of
        None \<Rightarrow> applyResumePause pe (pausable_value scope) reason actorId actorRole
      | Some env \<Rightarrow>
          and_then (pd_findOne (pe_db pe) (is_active (pausable_value scope))) (\<lambda>found.
            case found of
              None \<Rightarrow> returns None
            | Some p \<Rightarrow> applyWithEvidence env (resumption_change pe (pausable_value scope) reason actorId actorRole ip ua (ps_id p))))"

definition has_expired :: "int \<Rightarrow> PauseScope \<Rightarrow> bool" where
  "has_expired now p \<longleftrightarrow> (case ps_expiresAt p of None \<Rightarrow> False | Some t \<Rightarrow> t \<le> now)"

definition expired_pause :: "int \<Rightarrow> PauseScope \<Rightarrow> PauseScope" where
  "expired_pause now p = p\<lparr>ps_active := False, ps_resumeReason := Some ''Auto-expired'', ps_resumedAt := Some now\<rparr>"

text \<open>The loop over the rows that were found: the first one that has not expired, if any.\<close>

fun check_pauses :: "'w pause_env \<Rightarrow> PauseScope list \<Rightarrow> ('w, PauseScope option) act" where
  "check_pauses pe [] w = (Inr None, w)"
| "check_pauses pe (p # ps) w =
     (if has_expired (pd_now (pe_db pe) w) p
      then and_then (save_logged pe (expired_pause (pd_now (pe_db pe) w) p) ''expire'' ''system'' ''system'' ''Auto-expired'' False)
        (\<lambda>_ w1. check_pauses pe ps (pd_emit (pe_db pe) (Pause_expired (ps_scope p)) w1)) w
      else (Inr (Some p), w))"

definition pause_query :: "string \<Rightarrow> PauseScope \<Rightarrow> bool" where
  "pause_query scope p \<longleftrightarrow> is_active scope p \<or> is_active (pausable_value Ps_ALL) p"

definition isOperationPaused :: "'w pause_env \<Rightarrow> string \<Rightarrow> ('w, PauseScope option) act" where
  "isOperationPaused pe scope = and_then (pd_find (pe_db pe) (pause_query scope)) (check_pauses pe)"

fun sift_pauses :: "'w pause_env \<Rightarrow> PauseScope list \<Rightarrow> ('w, PauseScope list) act" where
  "sift_pauses pe [] w = (Inr [], w)"
| "sift_pauses pe (p # ps) w =
     (if has_expired (pd_now (pe_db pe) w) p
      then and_then (save_logged pe (expired_pause (pd_now (pe_db pe) w) p) ''expire'' ''system'' ''system'' ''Auto-expired'' False)
        (\<lambda>_. sift_pauses pe ps) w
      else and_then (sift_pauses pe ps) (\<lambda>active. returns (p # active)) w)"

definition getActivePauses :: "'w pause_env \<Rightarrow> ('w, PauseScope list) act" where
  "getActivePauses pe = and_then (pd_find (pe_db pe) ps_active) (sift_pauses pe)"

section \<open>The guard and the handlers\<close>

record pause_user =
  pu_id :: "string option"
  pu_role :: "string option"
  pu_roles :: "string list option"

text \<open>A refusal carries the header \<open>Retry-After\<close>, where it is set.\<close>

datatype pause_verdict = Proceeds | Paused_503 string "int option"

definition retry_after :: "int \<Rightarrow> int \<Rightarrow> int" where
  "retry_after now t = max 1 (- ((now - t) div 1000))"

definition bypasses :: "pause_user option \<Rightarrow> bool" where
  "bypasses user =
     (case user of
        None \<Rightarrow> False
      | Some u \<Rightarrow>
          let raw = (case pu_roles u of Some rs \<Rightarrow> rs
                     | None \<Rightarrow> (case pu_role u of Some r \<Rightarrow> if r = [] then [] else [r] | None \<Rightarrow> []))
          in ADMIN \<in> set (map (\<lambda>r. normalizeRole (Some r)) raw))"

definition pause_message :: "string \<Rightarrow> string" where
  "pause_message reason = ''This operation is temporarily paused. Reason: '' @ reason @ ''. Please try again later.''"

definition pause_canActivate :: "'w pause_env \<Rightarrow> PausableScope option \<Rightarrow> pause_user option \<Rightarrow> ('w, pause_verdict) act" where
  "pause_canActivate pe scope user w =
     (case scope of
        None \<Rightarrow> (Inr Proceeds, w)
      | Some s \<Rightarrow>
          if bypasses user then (Inr Proceeds, w)
          else and_then (isOperationPaused pe (pausable_value s)) (\<lambda>found w1.
            (Inr (case found of
               None \<Rightarrow> Proceeds
             | Some p \<Rightarrow> Paused_503 (pause_message (ps_reason p)) (map_option (retry_after (pd_now (pe_db pe) w1)) (ps_expiresAt p))), w1)) w)"

record pause_request =
  pr_user :: "pause_user option"
  pr_ip :: "string option"
  pr_userAgent :: "string option"

definition user_id :: "pause_user option \<Rightarrow> string" where
  "user_id u = (case u of None \<Rightarrow> ''unknown'' | Some x \<Rightarrow> (case pu_id x of None \<Rightarrow> ''unknown'' | Some i \<Rightarrow> i))"

definition user_role :: "pause_user option \<Rightarrow> string" where
  "user_role u = (case u of None \<Rightarrow> ''unknown'' | Some x \<Rightarrow> (case pu_role x of None \<Rightarrow> ''unknown'' | Some r \<Rightarrow> r))"

definition handle_activate ::
  "'w pause_env \<Rightarrow> PausableScope \<Rightarrow> string \<Rightarrow> string option \<Rightarrow> string option \<Rightarrow> pause_request \<Rightarrow> ('w, PauseScope) act" where
  "handle_activate pe scope reason environment expiresAt req =
     activatePause pe \<lparr>ap_scope = scope, ap_reason = reason, ap_actorId = user_id (pr_user req), ap_actorRole = user_role (pr_user req),
       ap_environment = environment,
       ap_expiresAt = (case expiresAt of None \<Rightarrow> None | Some t \<Rightarrow> if t = [] then None else Some (pe_date pe t)),
       ap_ipAddress = pr_ip req, ap_userAgent = pr_userAgent req\<rparr>"

definition handle_resume :: "'w pause_env \<Rightarrow> PausableScope \<Rightarrow> string \<Rightarrow> pause_request \<Rightarrow> ('w, PauseScope) act" where
  "handle_resume pe scope reason req =
     and_then (resumePause pe scope reason (user_id (pr_user req)) (user_role (pr_user req)) (pr_ip req) (pr_userAgent req))
       (\<lambda>pause w. case pause of
          None \<Rightarrow> (Inl (BadRequestException (''No active pause found for scope '' @ [CHR 0x27] @ pausable_value scope @ [CHR 0x27])), w)
        | Some p \<Rightarrow> (Inr p, w))"

section \<open>Rows of the table\<close>

definition rows_wf :: "PauseScope list \<Rightarrow> bool" where
  "rows_wf rs \<longleftrightarrow> distinct (map ps_id rs) \<and> [] \<notin> ps_id ` set rs"

text \<open>At most one row of a scope is active, and an active row has not been resumed.\<close>

definition rows_ok :: "PauseScope list \<Rightarrow> bool" where
  "rows_ok rs \<longleftrightarrow> rows_wf rs \<and>
     (\<forall>p \<in> set rs. \<forall>q \<in> set rs. ps_active p \<and> ps_active q \<and> ps_scope p = ps_scope q \<longrightarrow> p = q) \<and>
     (\<forall>p \<in> set rs. ps_active p \<longrightarrow> ps_resumedBy p = None \<and> ps_resumedByRole p = None \<and> ps_resumeReason p = None \<and> ps_resumedAt p = None)"

definition in_force :: "PauseScope list \<Rightarrow> PauseScope list" where
  "in_force rs = filter ps_active rs"

text \<open>The row that is resumed is the one whose snapshot was taken.\<close>

definition resumable :: "string \<Rightarrow> string \<Rightarrow> PauseScope list \<Rightarrow> bool" where
  "resumable scope i rs \<longleftrightarrow> rows_ok rs \<and> (\<exists>p \<in> set rs. ps_id p = i \<and> is_active scope p)"

definition replace_row :: "PauseScope \<Rightarrow> PauseScope list \<Rightarrow> PauseScope list" where
  "replace_row p rs = map (\<lambda>q. if ps_id q = ps_id p then p else q) rs"

lemma replace_row_ids [simp]: "map ps_id (replace_row p rs) = map ps_id rs"
  by (induction rs) (auto simp: replace_row_def)

lemma replace_row_id_set [simp]: "ps_id ` set (replace_row p rs) = ps_id ` set rs"
  by (metis replace_row_ids list.set_map)

lemma rows_wf_replace [simp]: "rows_wf (replace_row p rs) = rows_wf rs"
  by (simp add: rows_wf_def)

lemma rows_wf_append: "rows_wf rs \<Longrightarrow> ps_id p \<noteq> [] \<Longrightarrow> ps_id p \<notin> ps_id ` set rs \<Longrightarrow> rows_wf (rs @ [p])"
  by (auto simp: rows_wf_def)

lemma same_row: "rows_wf rs \<Longrightarrow> p \<in> set rs \<Longrightarrow> q \<in> set rs \<Longrightarrow> ps_id p = ps_id q \<Longrightarrow> p = q"
  by (auto simp: rows_wf_def distinct_map dest: inj_onD)

lemma row_named: "rows_wf rs \<Longrightarrow> p \<in> set rs \<Longrightarrow> ps_id p \<noteq> []"
  by (metis rows_wf_def imageI)

lemma set_replace_row:
  assumes "rows_wf rs" "q \<in> set rs" "ps_id p = ps_id q"
  shows "set (replace_row p rs) = insert p (set rs - {q})"
  using assms same_row [OF assms(1) _ assms(2)] by (auto simp: replace_row_def image_iff)

lemma replace_row_back:
  assumes "rows_wf rs" "q \<in> set rs" "ps_id p = ps_id q"
  shows "replace_row q (replace_row p rs) = rs"
  using assms same_row [OF assms(1) assms(2)] by (auto simp: replace_row_def intro!: map_idI)

lemma rows_ok_replace:
  assumes "rows_ok rs" "q \<in> set rs" "ps_id p = ps_id q"
    and "ps_active p \<longrightarrow> ps_active q \<and> ps_scope p = ps_scope q \<and> ps_resumedBy p = None \<and> ps_resumedByRole p = None \<and>
      ps_resumeReason p = None \<and> ps_resumedAt p = None"
  shows "rows_ok (replace_row p rs)"
proof -
  have wf: "rows_wf rs" using assms(1) by (simp add: rows_ok_def)
  have set: "set (replace_row p rs) = insert p (set rs - {q})" by (rule set_replace_row [OF wf assms(2,3)])
  show ?thesis using assms wf unfolding rows_ok_def set by (auto 4 3)
qed

lemma rows_ok_append:
  assumes "rows_ok rs" "ps_id p \<noteq> []" "ps_id p \<notin> ps_id ` set rs"
    and "ps_active p \<longrightarrow> (\<forall>q \<in> set rs. \<not> is_active (ps_scope p) q) \<and> ps_resumedBy p = None \<and> ps_resumedByRole p = None \<and>
      ps_resumeReason p = None \<and> ps_resumedAt p = None"
  shows "rows_ok (rs @ [p])"
  using assms rows_wf_append [of rs p] by (auto simp: rows_ok_def is_active_def)

lemma in_force_replace_inactive:
  assumes "rows_wf rs" "q \<in> set rs" "ps_id p = ps_id q" "\<not> ps_active p"
  shows "in_force (replace_row p rs) = removeAll q (in_force rs)"
proof -
  have "filter ps_active (map (\<lambda>r. if ps_id r = ps_id p then p else r) xs) = removeAll q (filter ps_active xs)"
    if "\<forall>r \<in> set xs. ps_id r = ps_id q \<longrightarrow> r = q" for xs
    using that assms(3,4) by (induction xs) auto
  then show ?thesis using same_row [OF assms(1) _ assms(2)] by (auto simp: in_force_def replace_row_def)
qed

section \<open>What the service relies on\<close>

text \<open>
  A search returns a row that matches, or none when there is none; a save inserts a row under an id of its
  own or replaces the row of its id; a write that throws may have taken effect.  Dates survive their text.
\<close>

locale pause_tables =
  fixes pe :: "'w pause_env"
    and prows :: "'w \<Rightarrow> PauseScope list"
  assumes findOne_rows: "pd_findOne (pe_db pe) P w = (r, w') \<Longrightarrow> prows w' = prows w \<and>
      (r = Inr None \<longrightarrow> (\<forall>p \<in> set (prows w). \<not> P p)) \<and> (\<forall>p. r = Inr (Some p) \<longrightarrow> p \<in> set (prows w) \<and> P p)"
    and find_rows: "pd_find (pe_db pe) P w = (l, w') \<Longrightarrow> prows w' = prows w \<and> (\<forall>ps. l = Inr ps \<longrightarrow> mset ps = mset (filter P (prows w)))"
    and save_new: "ps_id p = [] \<Longrightarrow> pd_save (pe_db pe) p w = (s, w') \<Longrightarrow>
      \<exists>i. i \<noteq> [] \<and> i \<notin> ps_id ` set (prows w) \<and> (\<forall>q. s = Inr q \<longrightarrow> q = p\<lparr>ps_id := i\<rparr>) \<and>
        (prows w' = prows w @ [p\<lparr>ps_id := i\<rparr>] \<or> prows w' = prows w \<and> isl s)"
    and save_old: "ps_id p \<in> ps_id ` set (prows w) \<Longrightarrow> ps_id p \<noteq> [] \<Longrightarrow> pd_save (pe_db pe) p w = (s, w') \<Longrightarrow>
      (\<forall>q. s = Inr q \<longrightarrow> q = p) \<and> (prows w' = replace_row p (prows w) \<or> prows w' = prows w \<and> isl s)"
    and log_rows: "pd_log (pe_db pe) e w = (g, w') \<Longrightarrow> prows w' = prows w"
    and emit_rows: "prows (pd_emit (pe_db pe) ev w) = prows w"
    and now_mono: "pd_find (pe_db pe) P w = (l, w') \<Longrightarrow> pd_now (pe_db pe) w \<le> pd_now (pe_db pe) w'"
      "pd_save (pe_db pe) p w = (s, w') \<Longrightarrow> pd_now (pe_db pe) w \<le> pd_now (pe_db pe) w'"
      "pd_log (pe_db pe) e w = (g, w') \<Longrightarrow> pd_now (pe_db pe) w \<le> pd_now (pe_db pe) w'"
      "pd_now (pe_db pe) w \<le> pd_now (pe_db pe) (pd_emit (pe_db pe) ev w)"
    and date_text: "pe_date pe (pe_iso pe t) = t" "pe_iso pe t \<noteq> []"
begin

lemma save_logged_new:
  assumes "ps_id p = []" "save_logged pe p a i ro re u w = (r, w')"
  shows "\<exists>i. i \<noteq> [] \<and> i \<notin> ps_id ` set (prows w) \<and> (\<forall>q. r = Inr q \<longrightarrow> q = p\<lparr>ps_id := i\<rparr>) \<and>
    (prows w' = prows w @ [p\<lparr>ps_id := i\<rparr>] \<or> prows w' = prows w \<and> isl r)"
proof -
  obtain s w1 where s: "pd_save (pe_db pe) p w = (s, w1)" by fastforce
  from save_new [OF assms(1) s] obtain i where i: "i \<noteq> []" "i \<notin> ps_id ` set (prows w)" "\<forall>q. s = Inr q \<longrightarrow> q = p\<lparr>ps_id := i\<rparr>"
    "prows w1 = prows w @ [p\<lparr>ps_id := i\<rparr>] \<or> prows w1 = prows w \<and> isl s" by blast
  have "(\<forall>q. r = Inr q \<longrightarrow> q = p\<lparr>ps_id := i\<rparr>) \<and> (prows w' = prows w @ [p\<lparr>ps_id := i\<rparr>] \<or> prows w' = prows w \<and> isl r)"
  proof (cases s)
    case (Inl e)
    with s i assms(2) show ?thesis by (auto simp: save_logged_def)
  next
    case (Inr q)
    with s i assms(2) show ?thesis
      by (auto simp: save_logged_def createAuditEntry_def returns_def and_then_def dest: log_rows split: prod.splits sum.splits)
  qed
  with i(1,2) show ?thesis by blast
qed

lemma save_logged_old:
  assumes "ps_id p \<in> ps_id ` set (prows w)" "ps_id p \<noteq> []" "save_logged pe p a i ro re u w = (r, w')"
  shows "(\<forall>q. r = Inr q \<longrightarrow> q = p) \<and> (prows w' = replace_row p (prows w) \<or> prows w' = prows w \<and> isl r)"
proof -
  obtain s w1 where s: "pd_save (pe_db pe) p w = (s, w1)" by fastforce
  note saved = save_old [OF assms(1,2) s]
  show ?thesis
  proof (cases s)
    case (Inl e)
    with s saved assms(3) show ?thesis by (auto simp: save_logged_def)
  next
    case (Inr q)
    with s saved assms(3) show ?thesis
      by (auto simp: save_logged_def createAuditEntry_def returns_def and_then_def dest: log_rows split: prod.splits sum.splits)
  qed
qed

lemma findOne_found:
  assumes "pd_findOne (pe_db pe) P w = (Inr (Some p), w')"
  shows "prows w' = prows w" "p \<in> set (prows w)" "P p"
  using findOne_rows [OF assms] by auto

lemma findOne_none:
  assumes "pd_findOne (pe_db pe) P w = (Inr None, w')"
  shows "prows w' = prows w" "\<forall>p \<in> set (prows w). \<not> P p"
  using findOne_rows [OF assms] by auto

text \<open>A row is replaced by another version of itself: the general step of resumption, expiry and undoing.\<close>

lemma rewrite_row:
  assumes "rows_wf (prows w)" "p \<in> set (prows w)" "ps_id q = ps_id p" "save_logged pe q a i ro re u w = (r, w')"
  shows "(\<forall>x. r = Inr x \<longrightarrow> x = q) \<and> (prows w' = replace_row q (prows w) \<or> prows w' = prows w \<and> isl r)"
  using save_logged_old [OF _ _ assms(4)] row_named [OF assms(1,2)] assms(2,3) by (metis imageI)

lemma emitted: "and_then m (\<lambda>x. emits pe (ev x) (f x)) w = (r, w') \<Longrightarrow>
    \<exists>s w1. m w = (s, w1) \<and> r = map_result f s \<and> prows w' = prows w1"
  by (auto simp: and_then_def emits_def emit_rows map_result_def split: prod.splits sum.splits)

lemma activate_found_some:
  assumes "rows_wf (prows w)" "p \<in> set (prows w)" "activate_found pe opts (Some p) w = (r, w')"
  shows "(\<forall>x. r = Inr x \<longrightarrow> x = updated_pause opts p) \<and>
    (prows w' = replace_row (updated_pause opts p) (prows w) \<or> prows w' = prows w \<and> isl r)"
proof -
  from emitted [of _ _ "\<lambda>x. x"] assms(3) obtain s w1 where
    s: "save_logged pe (updated_pause opts p) ''activate'' (ap_actorId opts) (ap_actorRole opts) (ap_reason opts) True w = (s, w1)"
      "r = map_result (\<lambda>x. x) s" "prows w' = prows w1"
    unfolding activate_found_def by fastforce
  have "ps_id (updated_pause opts p) = ps_id p" by (simp add: updated_pause_def)
  from rewrite_row [OF assms(1,2) this s(1)] s(2,3) show ?thesis by (cases s) (auto simp: map_result_def)
qed

lemma activate_found_none:
  assumes "activate_found pe opts None w = (r, w')"
  shows "\<exists>i. i \<noteq> [] \<and> i \<notin> ps_id ` set (prows w) \<and> (\<forall>x. r = Inr x \<longrightarrow> x = (new_pause opts)\<lparr>ps_id := i\<rparr>) \<and>
    (prows w' = prows w @ [(new_pause opts)\<lparr>ps_id := i\<rparr>] \<or> prows w' = prows w \<and> isl r)"
proof -
  from emitted [of _ _ "\<lambda>x. x"] assms obtain s w1 where
    s: "save_logged pe (new_pause opts) ''activate'' (ap_actorId opts) (ap_actorRole opts) (ap_reason opts) False w = (s, w1)"
      "r = map_result (\<lambda>x. x) s" "prows w' = prows w1"
    unfolding activate_found_def by fastforce
  have "ps_id (new_pause opts) = []" by (simp add: new_pause_def)
  from save_logged_new [OF this s(1)] s(2,3) show ?thesis by (cases s) (auto simp: map_result_def)
qed

lemma activate_cases:
  assumes "applyActivatePause pe opts w = (r, w')" "rows_wf (prows w)"
  obtains (kept) "isl r" "prows w' = prows w"
  | (updated) p where "p \<in> set (prows w)" "is_active (pausable_value (ap_scope opts)) p"
      "\<forall>x. r = Inr x \<longrightarrow> x = updated_pause opts p" "prows w' = replace_row (updated_pause opts p) (prows w)"
  | (added) i where "\<forall>p \<in> set (prows w). \<not> is_active (pausable_value (ap_scope opts)) p" "i \<noteq> []" "i \<notin> ps_id ` set (prows w)"
      "\<forall>x. r = Inr x \<longrightarrow> x = (new_pause opts)\<lparr>ps_id := i\<rparr>" "prows w' = prows w @ [(new_pause opts)\<lparr>ps_id := i\<rparr>]"
proof -
  obtain f w1 where f: "pd_findOne (pe_db pe) (is_active (pausable_value (ap_scope opts))) w = (f, w1)" by fastforce
  show thesis
  proof (cases f)
    case (Inl e)
    with f findOne_rows [OF f] assms(1) show thesis by (intro kept) (auto simp: applyActivatePause_def)
  next
    case (Inr x)
    show thesis
    proof (cases x)
      case None
      then have rows: "prows w1 = prows w" "\<forall>p \<in> set (prows w). \<not> is_active (pausable_value (ap_scope opts)) p"
        using findOne_none f Inr by blast+
      have "activate_found pe opts None w1 = (r, w')" using f Inr None assms(1) by (simp add: applyActivatePause_def)
      from activate_found_none [OF this] rows(1) obtain i where "i \<noteq> []" "i \<notin> ps_id ` set (prows w)"
        "\<forall>x. r = Inr x \<longrightarrow> x = (new_pause opts)\<lparr>ps_id := i\<rparr>"
        "prows w' = prows w @ [(new_pause opts)\<lparr>ps_id := i\<rparr>] \<or> prows w' = prows w \<and> isl r" by auto
      with rows(2) show thesis using kept added by blast
    next
      case (Some p)
      then have rows: "prows w1 = prows w" "p \<in> set (prows w)" "is_active (pausable_value (ap_scope opts)) p"
        using findOne_found f Inr by blast+
      have "activate_found pe opts (Some p) w1 = (r, w')" using f Inr Some assms(1) by (simp add: applyActivatePause_def)
      from activate_found_some [OF _ _ this] rows assms(2) show thesis using kept updated by auto
    qed
  qed
qed

lemma resume_cases:
  assumes "applyResumePause pe scope reason actorId actorRole w = (r, w')" "rows_wf (prows w)"
  obtains (kept) "isl r" "prows w' = prows w"
  | (none) "r = Inr None" "prows w' = prows w" "\<forall>p \<in> set (prows w). \<not> is_active scope p"
  | (resumed) p now where "p \<in> set (prows w)" "is_active scope p" "\<forall>x. r = Inr x \<longrightarrow> x = Some (resumed_pause reason actorId actorRole now p)"
      "prows w' = replace_row (resumed_pause reason actorId actorRole now p) (prows w)"
proof -
  obtain f w1 where f: "pd_findOne (pe_db pe) (is_active scope) w = (f, w1)" by fastforce
  show thesis
  proof (cases f)
    case (Inl e)
    with f findOne_rows [OF f] assms(1) show thesis by (intro kept) (auto simp: applyResumePause_def)
  next
    case (Inr x)
    show thesis
    proof (cases x)
      case None
      then have "prows w1 = prows w" "\<forall>p \<in> set (prows w). \<not> is_active scope p" using findOne_none f Inr by blast+
      with f Inr None assms(1) show thesis by (intro none) (auto simp: applyResumePause_def returns_def)
    next
      case (Some p)
      then have rows: "prows w1 = prows w" "p \<in> set (prows w)" "is_active scope p" using findOne_found f Inr by blast+
      define q where "q = resumed_pause reason actorId actorRole (pd_now (pe_db pe) w1) p"
      have "and_then (save_logged pe q ''resume'' actorId actorRole reason False)
        (\<lambda>saved. emits pe (Pause_resumed scope reason actorId) (Some saved)) w1 = (r, w')"
        using f Inr Some assms(1) by (simp add: applyResumePause_def q_def)
      from emitted [OF this] obtain s w2 where s: "save_logged pe q ''resume'' actorId actorRole reason False w1 = (s, w2)"
        "r = map_result Some s" "prows w' = prows w2" by auto
      have "ps_id q = ps_id p" by (simp add: q_def resumed_pause_def)
      from rewrite_row [OF _ _ this s(1)] rows assms(2) have
        "(\<forall>x. s = Inr x \<longrightarrow> x = q) \<and> (prows w2 = replace_row q (prows w) \<or> prows w2 = prows w \<and> isl s)" by simp
      then show thesis using s(2,3) kept resumed [of p "pd_now (pe_db pe) w1"] rows
        by (cases s) (auto simp: map_result_def q_def [symmetric])
    qed
  qed
qed

lemma snapshot_rows:
  assumes "snapshotActive pe scope i w = (r, w')"
  shows "prows w' = prows w"
  using assms findOne_rows
  by (auto simp: snapshotActive_def returns_def and_then_def split: prod.splits sum.splits)

lemma snapshot_found:
  assumes "snapshotActive pe scope i w = (Inr b, w')"
    and "P = (case i of None \<Rightarrow> is_active scope | Some i \<Rightarrow> if i = [] then is_active scope else (\<lambda>p. ps_id p = i))"
  shows "b = None \<and> (\<forall>p \<in> set (prows w). \<not> P p) \<or> (\<exists>p \<in> set (prows w). P p \<and> b = Some (snapshot_of pe p))"
proof -
  from assms obtain x where x: "pd_findOne (pe_db pe) P w = (Inr x, w')" "b = map_option (snapshot_of pe) x"
    by (auto simp: snapshotActive_def returns_def and_then_Inr)
  show ?thesis
  proof (cases x)
    case None
    with x findOne_none show ?thesis by blast
  next
    case (Some p)
    with x findOne_found [of P w p w'] show ?thesis by auto
  qed
qed

lemma the_active: "rows_ok rs \<Longrightarrow> p \<in> set rs \<Longrightarrow> q \<in> set rs \<Longrightarrow> is_active scope p \<Longrightarrow> is_active scope q \<Longrightarrow> p = q"
  by (auto simp: rows_ok_def is_active_def)

lemma restored_updated: "restored_pause pe (snapshot_of pe p) (updated_pause opts p) = p"
  by (cases "ps_expiresAt p") (simp_all add: restored_pause_def snapshot_of_def updated_pause_def date_text)

lemma updated_ok:
  assumes "rows_ok rs" "p \<in> set rs" "is_active scope p"
  shows "rows_ok (replace_row (updated_pause opts p) rs)"
  using assms by (intro rows_ok_replace [of rs p]) (auto simp: updated_pause_def rows_ok_def is_active_def)

lemma added_ok:
  assumes "rows_ok rs" "\<forall>p \<in> set rs. \<not> is_active (pausable_value (ap_scope opts)) p" "i \<noteq> []" "i \<notin> ps_id ` set rs"
  shows "rows_ok (rs @ [(new_pause opts)\<lparr>ps_id := i\<rparr>])"
  using assms by (intro rows_ok_append) (auto simp: new_pause_def)

lemma inactive_ok: "rows_ok rs \<Longrightarrow> p \<in> set rs \<Longrightarrow> ps_id q = ps_id p \<Longrightarrow> \<not> ps_active q \<Longrightarrow> rows_ok (replace_row q rs)"
  by (rule rows_ok_replace) auto

lemma activate_ok: "rows_ok (prows w) \<Longrightarrow> applyActivatePause pe opts w = (r, w') \<Longrightarrow> rows_ok (prows w')"
  by (erule activate_cases) (auto simp: rows_ok_def [of "prows w"] intro!: updated_ok added_ok; simp add: rows_ok_def)+

lemma resume_rows_ok: "rows_ok (prows w) \<Longrightarrow> applyResumePause pe scope reason actorId actorRole w = (r, w') \<Longrightarrow> rows_ok (prows w')"
  by (erule resume_cases) (auto simp: rows_ok_def [of "prows w"] resumed_pause_def intro!: inactive_ok; simp add: rows_ok_def)+

lemma revert_cases:
  assumes "revertActivation pe scope b w = (r, w')" "rows_wf (prows w)"
  obtains (kept) "prows w' = prows w" "isl r \<or> (\<forall>p \<in> set (prows w). \<not> is_active scope p)"
  | (restored) p s where "b = Some s" "p \<in> set (prows w)" "is_active scope p" "prows w' = replace_row (restored_pause pe s p) (prows w)"
  | (lifted) p now where "b = None" "p \<in> set (prows w)" "is_active scope p"
      "prows w' = replace_row (resumed_pause ROLLBACK_REASON ''system'' ''system'' now p) (prows w)"
proof -
  obtain f w1 where f: "pd_findOne (pe_db pe) (is_active scope) w = (f, w1)" by fastforce
  show thesis
  proof (cases f)
    case (Inl e)
    with f findOne_rows [OF f] assms(1) show thesis by (intro kept) (auto simp: revertActivation_def)
  next
    case (Inr x)
    show thesis
    proof (cases x)
      case None
      then have "prows w1 = prows w" "\<forall>p \<in> set (prows w). \<not> is_active scope p" using findOne_none f Inr by blast+
      with f Inr None assms(1) show thesis by (intro kept) (auto simp: revertActivation_def returns_def)
    next
      case (Some p)
      then have rows: "prows w1 = prows w" "p \<in> set (prows w)" "is_active scope p" using findOne_found f Inr by blast+
      show thesis
      proof (cases b)
        case (Some s)
        have "and_then (save_logged pe (restored_pause pe s p) ''rollback'' ''system'' ''system'' ROLLBACK_REASON False)
          (\<lambda>_. emits pe (Pause_activated scope (sn_reason s) ''system'') ()) w1 = (r, w')"
          using f Inr \<open>x = Some p\<close> Some assms(1) by (simp add: revertActivation_def)
        from emitted [OF this] obtain q w2 where
          q: "save_logged pe (restored_pause pe s p) ''rollback'' ''system'' ''system'' ROLLBACK_REASON False w1 = (q, w2)"
            "r = map_result (\<lambda>_. ()) q" "prows w' = prows w2" by auto
        have "ps_id (restored_pause pe s p) = ps_id p" by (simp add: restored_pause_def)
        from rewrite_row [OF _ _ this q(1)] rows assms(2) have
          "prows w2 = replace_row (restored_pause pe s p) (prows w) \<or> prows w2 = prows w \<and> isl q" by simp
        then show thesis using kept restored [OF Some rows(2,3)] q(2,3) by (cases q) (auto simp: map_result_def)
      next
        case None
        define z where "z = resumed_pause ROLLBACK_REASON ''system'' ''system'' (pd_now (pe_db pe) w1) p"
        have "and_then (save_logged pe z ''rollback'' ''system'' ''system'' ROLLBACK_REASON False)
          (\<lambda>_. emits pe (Pause_resumed scope ROLLBACK_REASON ''system'') ()) w1 = (r, w')"
          using f Inr \<open>x = Some p\<close> None assms(1) by (simp add: revertActivation_def z_def)
        from emitted [OF this] obtain q w2 where
          q: "save_logged pe z ''rollback'' ''system'' ''system'' ROLLBACK_REASON False w1 = (q, w2)"
            "r = map_result (\<lambda>_. ()) q" "prows w' = prows w2" by auto
        have "ps_id z = ps_id p" by (simp add: z_def resumed_pause_def)
        from rewrite_row [OF _ _ this q(1)] rows assms(2) have
          "prows w2 = replace_row z (prows w) \<or> prows w2 = prows w \<and> isl q" by simp
        then show thesis using kept lifted [OF None rows(2,3)] q(2,3) by (cases q) (auto simp: map_result_def z_def)
      qed
    qed
  qed
qed

lemma activation_undone:
  assumes ok: "rows_ok (prows w)"
    and steps: "snapshotActive pe (pausable_value (ap_scope opts)) None w = (Inr b, w1)" "applyActivatePause pe opts w1 = (Inr x, w2)"
      "prows w3 = prows w2" "revertActivation pe (pausable_value (ap_scope opts)) b w3 = (Inr (), w4)"
  shows "in_force (prows w4) = in_force (prows w)"
proof -
  define scope where "scope = pausable_value (ap_scope opts)"
  have r1: "prows w1 = prows w" by (rule snapshot_rows [OF steps(1)])
  have wf: "rows_wf (prows w)" using ok by (simp add: rows_ok_def)
  have wf3: "rows_ok (prows w3)" using activate_ok [OF _ steps(2)] ok r1 steps(3) by simp
  note snap = snapshot_found [OF steps(1) refl, simplified, folded scope_def]
  note act = activate_cases [OF steps(2), folded scope_def, unfolded r1, OF wf]
  note rev = revert_cases [OF steps(4), folded scope_def]
  show ?thesis
  proof (rule act)
    assume "isl (Inr x :: (change_error, PauseScope) result)"
    then show ?thesis by simp
  next
    fix p assume p: "p \<in> set (prows w)" "is_active scope p" "prows w2 = replace_row (updated_pause opts p) (prows w)"
    have b: "b = Some (snapshot_of pe p)" using snap p(1,2) the_active [OF ok] by blast
    define u where "u = updated_pause opts p"
    have u: "u \<in> set (prows w3)" "is_active scope u" "ps_id u = ps_id p"
      using p steps(3) set_replace_row [OF wf p(1), of u] by (auto simp: u_def updated_pause_def is_active_def)
    show ?thesis
    proof (rule rev)
      show "rows_wf (prows w3)" using wf3 by (simp add: rows_ok_def)
    next
      assume "isl (Inr () :: (change_error, unit) result) \<or> (\<forall>p \<in> set (prows w3). \<not> is_active scope p)"
      with u show ?thesis by auto
    next
      fix q s assume q: "b = Some s" "q \<in> set (prows w3)" "is_active scope q" "prows w4 = replace_row (restored_pause pe s q) (prows w3)"
      have "q = u" by (rule the_active [OF wf3 q(2) u(1) q(3) u(2)])
      then have "restored_pause pe s q = p" using restored_updated [of p opts] q(1) b by (simp add: u_def)
      then have "prows w4 = replace_row p (replace_row u (prows w))" using q(4) p(3) steps(3) by (simp add: u_def)
      then show ?thesis using replace_row_back [OF wf p(1) u(3)] by simp
    qed (use b in simp)
  next
    fix i assume i: "\<forall>p \<in> set (prows w). \<not> is_active scope p" "i \<noteq> []" "i \<notin> ps_id ` set (prows w)"
      "prows w2 = prows w @ [(new_pause opts)\<lparr>ps_id := i\<rparr>]"
    define n where "n = (new_pause opts)\<lparr>ps_id := i\<rparr>"
    have b: "b = None" using snap i(1) by blast
    have n: "n \<in> set (prows w3)" "is_active scope n" "n \<notin> set (prows w)"
      using i steps(3) by (auto simp: n_def new_pause_def is_active_def scope_def)
    have wfn: "rows_wf (prows w @ [n])" using wf3 i(4) steps(3) by (simp add: n_def rows_ok_def)
    show ?thesis
    proof (rule rev)
      show "rows_wf (prows w3)" using wf3 by (simp add: rows_ok_def)
    next
      assume "isl (Inr () :: (change_error, unit) result) \<or> (\<forall>p \<in> set (prows w3). \<not> is_active scope p)"
      with n show ?thesis by auto
    next
      fix q now assume q: "q \<in> set (prows w3)" "is_active scope q"
        "prows w4 = replace_row (resumed_pause ROLLBACK_REASON ''system'' ''system'' now q) (prows w3)"
      have "q = n" by (rule the_active [OF wf3 q(1) n(1) q(2) n(2)])
      define z where "z = resumed_pause ROLLBACK_REASON ''system'' ''system'' now n"
      have "prows w4 = replace_row z (prows w @ [n])" using q(3) \<open>q = n\<close> i(4) steps(3) by (simp add: z_def n_def)
      moreover have "in_force (replace_row z (prows w @ [n])) = removeAll n (in_force (prows w @ [n]))"
        by (rule in_force_replace_inactive [OF wfn]) (simp_all add: z_def resumed_pause_def)
      moreover have "removeAll n (in_force (prows w @ [n])) = in_force (prows w)"
        using n(3) by (simp add: in_force_def)
      ultimately show ?thesis by simp
    qed (use b in simp)
  qed
qed

lemma reopened_resumed:
  "rows_ok rs \<Longrightarrow> p \<in> set rs \<Longrightarrow> ps_active p \<Longrightarrow> reopened_pause (resumed_pause reason actorId actorRole now p) = p"
  by (simp add: rows_ok_def reopened_pause_def resumed_pause_def)

lemma revert_resume_cases:
  assumes "revertResume pe scope b w = (r, w')" "rows_wf (prows w)"
  obtains (kept) "prows w' = prows w" "isl r \<or> b = None \<or> (\<exists>s. b = Some s \<and> (\<forall>p \<in> set (prows w). ps_id p \<noteq> sn_id s))"
  | (reopened) p s where "b = Some s" "p \<in> set (prows w)" "ps_id p = sn_id s" "prows w' = replace_row (reopened_pause p) (prows w)"
proof (cases b)
  case None
  with assms(1) show thesis by (intro kept) (auto simp: revertResume_def returns_def)
next
  case (Some s)
  obtain f w1 where f: "pd_findOne (pe_db pe) (\<lambda>p. ps_id p = sn_id s) w = (f, w1)" by fastforce
  show thesis
  proof (cases f)
    case (Inl e)
    with f findOne_rows [OF f] Some assms(1) show thesis by (intro kept) (auto simp: revertResume_def)
  next
    case (Inr x)
    show thesis
    proof (cases x)
      case None
      then have "prows w1 = prows w" "\<forall>p \<in> set (prows w). ps_id p \<noteq> sn_id s" using findOne_none f Inr by blast+
      with f Inr None Some assms(1) show thesis by (intro kept) (auto simp: revertResume_def returns_def)
    next
      case (Some p)
      then have rows: "prows w1 = prows w" "p \<in> set (prows w)" "ps_id p = sn_id s" using findOne_found f Inr by blast+
      have "and_then (save_logged pe (reopened_pause p) ''rollback'' ''system'' ''system'' ROLLBACK_REASON False)
        (\<lambda>_. emits pe (Pause_activated scope (sn_reason s) ''system'') ()) w1 = (r, w')"
        using f Inr Some \<open>b = Some s\<close> assms(1) by (simp add: revertResume_def)
      from emitted [OF this] obtain q w2 where
        q: "save_logged pe (reopened_pause p) ''rollback'' ''system'' ''system'' ROLLBACK_REASON False w1 = (q, w2)"
          "r = map_result (\<lambda>_. ()) q" "prows w' = prows w2" by auto
      have "ps_id (reopened_pause p) = ps_id p" by (simp add: reopened_pause_def)
      from rewrite_row [OF _ _ this q(1)] rows assms(2) have
        "prows w2 = replace_row (reopened_pause p) (prows w) \<or> prows w2 = prows w \<and> isl q" by simp
      then show thesis using kept reopened [OF \<open>b = Some s\<close> rows(2,3)] q(2,3) by (cases q) (auto simp: map_result_def)
    qed
  qed
qed

lemma snapshot_taken:
  assumes "snapshotActive pe scope (Some i) w = (Inr b, w')" "i \<noteq> []" "i \<in> ps_id ` set (prows w)"
  shows "\<exists>s. b = Some s \<and> sn_id s = i"
  using snapshot_found [OF assms(1) refl] assms(2,3) by (auto simp: snapshot_of_def)

lemma snapshot_id: "snapshotActive pe scope (Some i) w = (Inr b, w') \<Longrightarrow> i \<noteq> [] \<Longrightarrow> b = Some s \<Longrightarrow> sn_id s = i"
  using snapshot_found [OF _ refl] by (fastforce simp: snapshot_of_def)

lemma reopened_back:
  assumes ok: "resumable scope i (prows w)"
    and steps: "snapshotActive pe scope (Some i) w = (Inr b, w1)" "applyResumePause pe scope reason actorId actorRole w1 = (Inr x, w2)"
      "prows w3 = prows w2"
    and u: "b = Some s" "u \<in> set (prows w3)" "ps_id u = sn_id s" "prows w4 = replace_row (reopened_pause u) (prows w3)"
  shows "prows w4 = prows w"
proof -
  obtain p where p: "p \<in> set (prows w)" "ps_id p = i" "is_active scope p" and rok: "rows_ok (prows w)"
    using ok by (auto simp: resumable_def)
  have wf: "rows_wf (prows w)" using rok by (simp add: rows_ok_def)
  have r1: "prows w1 = prows w" by (rule snapshot_rows [OF steps(1)])
  have "sn_id s = i" using snapshot_id [OF steps(1)] row_named [OF wf p(1)] p(2) u(1) by simp
  have act: "ps_active p" using p(3) by (simp add: is_active_def)
  have wf1: "rows_wf (prows w1)" using wf r1 by simp
  from steps(2) wf1 show ?thesis
  proof (cases rule: resume_cases)
    case none
    with p r1 show ?thesis by auto
  next
    case (resumed q now)
    have "q = p" using the_active [OF rok _ p(1) resumed(2) p(3)] resumed(1) r1 by simp
    define z where "z = resumed_pause reason actorId actorRole now p"
    have z: "prows w3 = replace_row z (prows w)" "ps_id z = ps_id p"
      using resumed(4) \<open>q = p\<close> r1 steps(3) by (simp_all add: z_def resumed_pause_def)
    have zin: "z \<in> set (prows w3)" using set_replace_row [OF wf p(1) z(2)] z(1) by simp
    have "rows_wf (prows w3)" using wf z(1) by simp
    from same_row [OF this u(2) zin] have "u = z" using u(3) \<open>sn_id s = i\<close> z(2) p(2) by simp
    then have "reopened_pause u = p" using reopened_resumed [OF rok p(1) act] by (simp add: z_def)
    with u(4) z(1) show ?thesis using replace_row_back [OF wf p(1) z(2)] by simp
  qed simp
qed

lemma resumption_undone:
  assumes ok: "resumable scope i (prows w)"
    and steps: "snapshotActive pe scope (Some i) w = (Inr b, w1)" "applyResumePause pe scope reason actorId actorRole w1 = (Inr x, w2)"
      "prows w3 = prows w2" "revertResume pe scope b w3 = (Inr (), w4)"
  shows "prows w4 = prows w"
proof -
  obtain p where p: "p \<in> set (prows w)" "ps_id p = i" "is_active scope p" and rok: "rows_ok (prows w)"
    using ok by (auto simp: resumable_def)
  have wf: "rows_wf (prows w)" using rok by (simp add: rows_ok_def)
  have r1: "prows w1 = prows w" by (rule snapshot_rows [OF steps(1)])
  have i: "i \<noteq> []" using row_named [OF wf p(1)] p(2) by simp
  obtain s where b: "b = Some s" "sn_id s = i" using snapshot_taken [OF steps(1) i] p by auto
  have ids: "i \<in> ps_id ` set (prows w3)"
  proof -
    from steps(2) have "ps_id ` set (prows w2) = ps_id ` set (prows w1)" using wf [folded r1]
      by (cases rule: resume_cases) auto
    then show ?thesis using p(1,2) r1 steps(3) by auto
  qed
  have "rows_ok (prows w3)" using resume_rows_ok [OF _ steps(2)] r1 steps(3) rok by simp
  then have "rows_wf (prows w3)" by (simp add: rows_ok_def)
  with steps(4) show ?thesis
  proof (cases rule: revert_resume_cases)
    case kept
    then have "\<forall>p \<in> set (prows w3). ps_id p \<noteq> i" using b by simp
    with ids show ?thesis by (metis imageE)
  next
    case (reopened u s)
    then show ?thesis by (rule reopened_back [OF ok steps(1-3)])
  qed
qed

text \<open>What a check finds: the clock may advance with every access, so the verdict is for a moment of the check.\<close>

lemma save_logged_now: "save_logged pe p a i ro re u w = (r, w') \<Longrightarrow> pd_now (pe_db pe) w \<le> pd_now (pe_db pe) w'"
  by (auto simp: save_logged_def createAuditEntry_def and_then_def returns_def dest!: now_mono(2,3) split: prod.splits sum.splits)

lemma expired_later: "has_expired now p \<Longrightarrow> now \<le> now' \<Longrightarrow> has_expired now' p"
  by (auto simp: has_expired_def split: option.splits)

lemma kept_by_replace: "rows_wf rs \<Longrightarrow> p \<in> set rs \<Longrightarrow> q \<in> set rs \<Longrightarrow> ps_id q \<noteq> ps_id p \<Longrightarrow> ps_id z = ps_id p \<Longrightarrow> q \<in> set (replace_row z rs)"
  using set_replace_row [of rs p z] by auto

lemma check_pauses_result:
  assumes "check_pauses pe ps w = (Inr r, w')" "rows_wf (prows w)" "set ps \<subseteq> set (prows w)" "distinct (map ps_id ps)"
  shows "(case r of
      None \<Rightarrow> (\<forall>p \<in> set ps. has_expired (pd_now (pe_db pe) w') p \<and> (\<forall>q \<in> set (prows w'). ps_id q = ps_id p \<longrightarrow> \<not> ps_active q))
    | Some p \<Rightarrow> p \<in> set ps \<and> \<not> has_expired (pd_now (pe_db pe) w) p \<and> p \<in> set (prows w')) \<and>
    pd_now (pe_db pe) w \<le> pd_now (pe_db pe) w' \<and> map ps_id (prows w') = map ps_id (prows w) \<and>
    (\<forall>q \<in> set (prows w). ps_id q \<notin> ps_id ` set ps \<longrightarrow> q \<in> set (prows w'))"
  using assms
proof (induction ps arbitrary: w)
  case Nil
  then show ?case by auto
next
  case (Cons p ps)
  show ?case
  proof (cases "has_expired (pd_now (pe_db pe) w) p")
    case False
    with Cons.prems show ?thesis by auto
  next
    case True
    define z where "z = expired_pause (pd_now (pe_db pe) w) p"
    have z: "ps_id z = ps_id p" "\<not> ps_active z" by (simp_all add: z_def expired_pause_def)
    from True Cons.prems(1) obtain x w1 where s: "save_logged pe z ''expire'' ''system'' ''system'' ''Auto-expired'' False w = (Inr x, w1)"
      and rest: "check_pauses pe ps (pd_emit (pe_db pe) (Pause_expired (ps_scope p)) w1) = (Inr r, w')"
      by (auto simp: z_def and_then_Inr)
    define w2 where "w2 = pd_emit (pe_db pe) (Pause_expired (ps_scope p)) w1"
    have p: "p \<in> set (prows w)" and wf: "rows_wf (prows w)" using Cons.prems by auto
    have rows: "prows w2 = replace_row z (prows w)"
      using rewrite_row [OF wf p z(1) s] by (simp add: w2_def emit_rows)
    have now: "pd_now (pe_db pe) w \<le> pd_now (pe_db pe) w2"
      using save_logged_now [OF s] now_mono(4) [of w1] by (auto simp: w2_def intro: order_trans)
    have fresh: "ps_id p \<notin> ps_id ` set ps" "distinct (map ps_id ps)" using Cons.prems(4) by auto
    have apart: "q \<in> set ps \<Longrightarrow> ps_id q \<noteq> ps_id p" for q using fresh(1) by (metis imageI)
    have "set ps \<subseteq> set (prows w2)"
      using Cons.prems(3) apart kept_by_replace [OF wf p _ _ z(1)] by (auto simp: rows)
    note IH = Cons.IH [OF rest [folded w2_def] _ this fresh(2)]
    have z': "z \<in> set (prows w2)" using set_replace_row [OF wf p z(1)] by (simp add: rows)
    have wf': "rows_wf (prows w')" using IH wf by (simp add: rows_wf_def rows flip: set_map)
    have "z \<in> set (prows w')" using IH z' z(1) fresh(1) wf by (auto simp: rows)
    then have off: "q \<in> set (prows w') \<Longrightarrow> ps_id q = ps_id p \<Longrightarrow> \<not> ps_active q" for q
      using same_row [OF wf', of q z] z by auto
    have keep: "\<forall>q \<in> set (prows w). ps_id q \<notin> ps_id ` set (p # ps) \<longrightarrow> q \<in> set (prows w')"
      using IH wf kept_by_replace [OF wf p _ _ z(1)] by (auto simp: rows)
    show ?thesis
    proof (cases r)
      case None
      with IH wf now keep off True show ?thesis by (auto simp: rows intro: expired_later order_trans)
    next
      case (Some q)
      with IH wf now keep show ?thesis by (auto simp: rows dest: expired_later intro: order_trans)
    qed
  qed
qed

text \<open>Every operation keeps the table well formed, also when it throws.\<close>

lemma expire_ok:
  assumes "rows_ok (prows w)" "p \<in> set (prows w)" "save_logged pe (expired_pause now p) a i ro re u w = (r, w')"
  shows "rows_ok (prows w')"
    "set (p # ps) \<subseteq> set (prows w) \<Longrightarrow> distinct (map ps_id (p # ps)) \<Longrightarrow> set ps \<subseteq> set (prows w')"
proof -
  have wf: "rows_wf (prows w)" using assms(1) by (simp add: rows_ok_def)
  have z: "ps_id (expired_pause now p) = ps_id p" "\<not> ps_active (expired_pause now p)" by (simp_all add: expired_pause_def)
  note rw = rewrite_row [OF wf assms(2) z(1) assms(3)]
  show "rows_ok (prows w')" using rw inactive_ok [OF assms(1,2) z] assms(1) by auto
  have keep: "q \<in> set (prows w) \<Longrightarrow> ps_id q \<noteq> ps_id p \<Longrightarrow> q \<in> set (prows w')" for q
    using rw kept_by_replace [OF wf assms(2) _ _ z(1)] by auto
  show "set ps \<subseteq> set (prows w')" if "set (p # ps) \<subseteq> set (prows w)" "distinct (map ps_id (p # ps))"
  proof
    fix q assume "q \<in> set ps"
    then have "q \<in> set (prows w)" "ps_id q \<noteq> ps_id p" using that by (auto simp: image_iff)
    then show "q \<in> set (prows w')" by (rule keep)
  qed
qed

lemma check_ok:
  "check_pauses pe ps w = (r, w') \<Longrightarrow> rows_ok (prows w) \<Longrightarrow> set ps \<subseteq> set (prows w) \<Longrightarrow> distinct (map ps_id ps) \<Longrightarrow> rows_ok (prows w')"
proof (induction ps arbitrary: w)
  case (Cons p ps)
  show ?case
  proof (cases "has_expired (pd_now (pe_db pe) w) p")
    case True
    obtain s w1 where s: "save_logged pe (expired_pause (pd_now (pe_db pe) w) p) ''expire'' ''system'' ''system'' ''Auto-expired'' False w = (s, w1)"
      by fastforce
    have p: "p \<in> set (prows w)" using Cons.prems by simp
    note e = expire_ok [OF Cons.prems(2) p s]
    note sub = e(2) [OF Cons.prems(3,4)]
    show ?thesis
    proof (cases s)
      case (Inl x)
      with True s e Cons.prems(1) show ?thesis by simp
    next
      case (Inr x)
      have "check_pauses pe ps (pd_emit (pe_db pe) (Pause_expired (ps_scope p)) w1) = (r, w')" using Cons.prems(1) True s Inr by simp
      from Cons.IH [OF this] e sub Cons.prems(4) show ?thesis by (simp add: emit_rows)
    qed
  qed (use Cons.prems in simp)
qed simp

lemma sift_ok:
  "sift_pauses pe ps w = (r, w') \<Longrightarrow> rows_ok (prows w) \<Longrightarrow> set ps \<subseteq> set (prows w) \<Longrightarrow> distinct (map ps_id ps) \<Longrightarrow> rows_ok (prows w')"
proof (induction ps arbitrary: w r)
  case (Cons p ps)
  show ?case
  proof (cases "has_expired (pd_now (pe_db pe) w) p")
    case True
    obtain s w1 where s: "save_logged pe (expired_pause (pd_now (pe_db pe) w) p) ''expire'' ''system'' ''system'' ''Auto-expired'' False w = (s, w1)"
      by fastforce
    have p: "p \<in> set (prows w)" using Cons.prems by simp
    note e = expire_ok [OF Cons.prems(2) p s]
    note sub = e(2) [OF Cons.prems(3,4)]
    show ?thesis
    proof (cases s)
      case (Inl x)
      with True s e Cons.prems(1) show ?thesis by simp
    next
      case (Inr x)
      have "sift_pauses pe ps w1 = (r, w')" using Cons.prems(1) True s Inr by simp
      from Cons.IH [OF this] e sub Cons.prems(4) show ?thesis by simp
    qed
  next
    case False
    obtain q where "sift_pauses pe ps w = (q, w')"
      using False Cons.prems(1) by (auto simp: and_then_def returns_def split: prod.splits sum.splits)
    from Cons.IH [OF this] Cons.prems show ?thesis by simp
  qed
qed simp

lemma found_rows:
  assumes "pd_find (pe_db pe) P w = (Inr ps, w')" "rows_wf (prows w)"
  shows "prows w' = prows w" "set ps = {p \<in> set (prows w). P p}" "distinct (map ps_id ps)"
proof -
  from find_rows [OF assms(1)] have m: "mset ps = mset (filter P (prows w))" and "prows w' = prows w" by auto
  then show "prows w' = prows w" "set ps = {p \<in> set (prows w). P p}" using mset_eq_setD [OF m] by auto
  have "distinct (map ps_id (filter P (prows w)))" using assms(2) by (simp add: rows_wf_def distinct_map_filter)
  moreover have "mset (map ps_id ps) = mset (map ps_id (filter P (prows w)))" using m by simp
  ultimately show "distinct (map ps_id ps)" by (metis mset_eq_imp_distinct_iff)
qed

lemma isOperationPaused_ok: "isOperationPaused pe scope w = (r, w') \<Longrightarrow> rows_ok (prows w) \<Longrightarrow> rows_ok (prows w')"
proof -
  assume run: "isOperationPaused pe scope w = (r, w')" and ok: "rows_ok (prows w)"
  obtain l w1 where l: "pd_find (pe_db pe) (pause_query scope) w = (l, w1)" by fastforce
  have wf: "rows_wf (prows w)" using ok by (simp add: rows_ok_def)
  show "rows_ok (prows w')"
  proof (cases l)
    case (Inl e)
    with l run ok find_rows [OF l] show ?thesis by (auto simp: isOperationPaused_def)
  next
    case (Inr ps)
    note fr = found_rows [OF l [unfolded Inr] wf]
    have "check_pauses pe ps w1 = (r, w')" using run l Inr by (simp add: isOperationPaused_def)
    from check_ok [OF this] fr ok show ?thesis by auto
  qed
qed

lemma getActivePauses_ok: "getActivePauses pe w = (r, w') \<Longrightarrow> rows_ok (prows w) \<Longrightarrow> rows_ok (prows w')"
proof -
  assume run: "getActivePauses pe w = (r, w')" and ok: "rows_ok (prows w)"
  obtain l w1 where l: "pd_find (pe_db pe) ps_active w = (l, w1)" by fastforce
  have wf: "rows_wf (prows w)" using ok by (simp add: rows_ok_def)
  show "rows_ok (prows w')"
  proof (cases l)
    case (Inl e)
    with l run ok find_rows [OF l] show ?thesis by (auto simp: getActivePauses_def)
  next
    case (Inr ps)
    note fr = found_rows [OF l [unfolded Inr] wf]
    have "sift_pauses pe ps w1 = (r, w')" using run l Inr by (simp add: getActivePauses_def)
    from sift_ok [OF this] fr ok show ?thesis by auto
  qed
qed

lemma revert_rows_ok:
  assumes "rows_ok (prows w)" "revertActivation pe scope b w = (r, w')"
  shows "rows_ok (prows w')"
proof -
  have wf: "rows_wf (prows w)" using assms(1) by (simp add: rows_ok_def)
  from assms(2) wf show ?thesis
  proof (cases rule: revert_cases)
    case (restored p s)
    then show ?thesis using assms(1)
      by (simp, intro rows_ok_replace [of _ p]) (auto simp: restored_pause_def rows_ok_def is_active_def)
  next
    case (lifted p now)
    then show ?thesis using inactive_ok [OF assms(1)] by (simp add: resumed_pause_def)
  qed (use assms(1) in simp)
qed

text \<open>The verdict of a check.\<close>

lemma isOperationPaused_result:
  assumes "isOperationPaused pe scope w = (Inr r, w')" "rows_wf (prows w)"
  shows "(case r of
      None \<Rightarrow> (\<forall>p \<in> set (prows w). pause_query scope p \<longrightarrow> has_expired (pd_now (pe_db pe) w') p) \<and> (\<forall>q \<in> set (prows w'). \<not> pause_query scope q)
    | Some p \<Rightarrow> p \<in> set (prows w) \<and> pause_query scope p \<and> \<not> has_expired (pd_now (pe_db pe) w) p \<and> p \<in> set (prows w'))"
proof -
  from assms(1) obtain ps w1 where f: "pd_find (pe_db pe) (pause_query scope) w = (Inr ps, w1)" and c: "check_pauses pe ps w1 = (Inr r, w')"
    by (auto simp: isOperationPaused_def and_then_Inr)
  note fr = found_rows [OF f assms(2)]
  have wf1: "rows_wf (prows w1)" and sub: "set ps \<subseteq> set (prows w1)" using fr assms(2) by auto
  note res = check_pauses_result [OF c wf1 sub fr(3)]
  note now = now_mono(1) [OF f]
  show ?thesis
  proof (cases r)
    case (Some p)
    with res fr now show ?thesis by (auto dest: expired_later)
  next
    case None
    have wf': "rows_wf (prows w')" using res wf1 by (simp add: rows_wf_def flip: set_map)
    have "\<not> pause_query scope q" if q: "q \<in> set (prows w')" for q
    proof (cases "ps_id q \<in> ps_id ` set ps")
      case True
      then have "\<not> ps_active q" using res None q by auto
      then show ?thesis by (simp add: pause_query_def is_active_def)
    next
      case False
      have ids: "map ps_id (prows w') = map ps_id (prows w1)" using res by simp
      have "ps_id q \<in> set (map ps_id (prows w'))" using q by simp
      then have "ps_id q \<in> set (map ps_id (prows w1))" unfolding ids .
      then obtain q' where q': "q' \<in> set (prows w1)" "ps_id q' = ps_id q" by auto
      with False res have "q' \<in> set (prows w')" by auto
      with same_row [OF wf' q] q' have "q = q'" by simp
      moreover have "q' \<notin> set ps" using False q'(2) by (metis imageI)
      ultimately show ?thesis using q'(1) fr by auto
    qed
    with res None fr show ?thesis by auto
  qed
qed

text \<open>A check that works on rows read earlier writes them back as they were, deactivated.\<close>

lemma stale_check:
  assumes "check_pauses pe ps w = (Inr r, w')" "rows_wf (prows w)" "ps_id ` set ps \<subseteq> ps_id ` set (prows w)"
    and "\<forall>p \<in> set ps. has_expired (pd_now (pe_db pe) w) p"
  shows "r = None \<and> map ps_id (prows w') = map ps_id (prows w) \<and>
    (\<forall>q \<in> set (prows w'). (ps_id q \<in> ps_id ` set ps \<longrightarrow> \<not> ps_active q) \<and> (ps_active q \<longrightarrow> q \<in> set (prows w)))"
  using assms
proof (induction ps arbitrary: w)
  case (Cons p ps)
  define z where "z = expired_pause (pd_now (pe_db pe) w) p"
  have z: "ps_id z = ps_id p" "\<not> ps_active z" by (simp_all add: z_def expired_pause_def)
  from Cons.prems obtain x w1 where s: "save_logged pe z ''expire'' ''system'' ''system'' ''Auto-expired'' False w = (Inr x, w1)"
    and rest: "check_pauses pe ps (pd_emit (pe_db pe) (Pause_expired (ps_scope p)) w1) = (Inr r, w')"
    by (auto simp: z_def and_then_Inr)
  define w2 where "w2 = pd_emit (pe_db pe) (Pause_expired (ps_scope p)) w1"
  have "ps_id z \<in> ps_id ` set (prows w)" using Cons.prems(3) z(1) by auto
  moreover from this have "ps_id z \<noteq> []" using Cons.prems(2) by (metis rows_wf_def)
  ultimately have rows: "prows w2 = replace_row z (prows w)" using save_logged_old [OF _ _ s] by (simp add: w2_def emit_rows)
  have now: "pd_now (pe_db pe) w \<le> pd_now (pe_db pe) w2"
    using save_logged_now [OF s] now_mono(4) [of w1] by (auto simp: w2_def intro: order_trans)
  have IH: "r = None \<and> map ps_id (prows w') = map ps_id (prows w2) \<and>
    (\<forall>q \<in> set (prows w'). (ps_id q \<in> ps_id ` set ps \<longrightarrow> \<not> ps_active q) \<and> (ps_active q \<longrightarrow> q \<in> set (prows w2)))"
    using Cons.prems now by (intro Cons.IH [OF rest [folded w2_def]]) (auto simp: rows intro: expired_later)
  have inz: "q \<in> set (prows w2) \<Longrightarrow> ps_active q \<Longrightarrow> q \<in> set (prows w) \<and> ps_id q \<noteq> ps_id p" for q
    using z by (auto simp: rows replace_row_def split: if_splits)
  show ?case using IH inz by (auto simp: rows)
qed auto

text \<open>Undoing a resumption keeps the table well formed also when it throws halfway.\<close>

lemma revert_resume_ok:
  assumes ok: "resumable scope i (prows w)"
    and steps: "snapshotActive pe scope (Some i) w = (Inr b, w1)" "applyResumePause pe scope reason actorId actorRole w1 = (Inr x, w2)"
      "prows w3 = prows w2" "revertResume pe scope b w3 = (r, w4)"
  shows "rows_ok (prows w4)"
proof -
  have rok: "rows_ok (prows w)" using ok by (simp add: resumable_def)
  have r1: "prows w1 = prows w" by (rule snapshot_rows [OF steps(1)])
  have ok3: "rows_ok (prows w3)" using resume_rows_ok [OF _ steps(2)] r1 steps(3) rok by simp
  then have "rows_wf (prows w3)" by (simp add: rows_ok_def)
  with steps(4) show ?thesis
  proof (cases rule: revert_resume_cases)
    case kept
    then show ?thesis using ok3 by simp
  next
    case (reopened p s)
    have "prows w4 = prows w" by (rule reopened_back [OF ok steps(1-3) reopened])
    then show ?thesis using rok by simp
  qed
qed

end

end
