(* ===== verification/Pause_Store.thy ===== *)
theory Pause_Store
  imports Pause_Control
begin

text \<open>
  Emergency pauses on concrete tables that may fail at any access, and the properties of pausing: a
  change that cannot be evidenced is undone, what the guard decides, and what interleaved calls and a
  failing log can do.
\<close>

section \<open>The tables\<close>

text \<open>
  A world with the table of pauses, the table of log entries, the emitted events, the clock and the audit
  trail.  Any access may be answered, be refused, or take effect and yet report an error, as a function \<open>pf\<close>
  of the access and the world says; \<open>dur\<close> is how long an access takes.  The tables of the trail fail
  likewise, by a function \<open>tf\<close>.
\<close>

datatype fault = Answers | Refuses | Unacknowledged

datatype access = Find_pause | Save_pause | Log_pause | Read_trail | Save_trail | Save_trail_head

record pause_world =
  pw_rows :: "PauseScope list"
  pw_logs :: "PauseAuditLog list"
  pw_emitted :: "pause_event list"
  pw_now :: int
  pw_trail :: audit_world
  pw_count :: nat

type_synonym faults = "access \<Rightarrow> pause_world \<Rightarrow> fault"

definition passed :: "(pause_world \<Rightarrow> nat) \<Rightarrow> pause_world \<Rightarrow> pause_world" where
  "passed dur w = w\<lparr>pw_now := pw_now w + int (dur w), pw_count := Suc (pw_count w)\<rparr>"

definition faulty :: "fault \<Rightarrow> 'a \<Rightarrow> 'w \<Rightarrow> 'w \<Rightarrow> (change_error, 'a) result \<times> 'w" where
  "faulty f x done undone =
     (case f of Answers \<Rightarrow> (Inr x, done) | Refuses \<Rightarrow> (Inl (Thrown ''QueryFailedError''), undone) | Unacknowledged \<Rightarrow> (Inl (Thrown ''QueryFailedError''), done))"

definition fresh_id :: "PauseScope list \<Rightarrow> string" where
  "fresh_id rs = replicate (Suc (foldr (\<lambda>p. max (length (ps_id p))) rs 0)) (CHR ''0'')"

definition store_save :: "PauseScope \<Rightarrow> PauseScope list \<Rightarrow> PauseScope \<times> PauseScope list" where
  "store_save p rs = (if ps_id p = [] then let q = p\<lparr>ps_id := fresh_id rs\<rparr> in (q, rs @ [q]) else (p, replace_row p rs))"

definition store_pauses :: "faults \<Rightarrow> (pause_world \<Rightarrow> nat) \<Rightarrow> pause_world pause_db" where
  "store_pauses pf dur =
     \<lparr>pd_findOne = (\<lambda>P w. faulty (pf Find_pause w) (find P (pw_rows w)) (passed dur w) (passed dur w)),
      pd_find = (\<lambda>P w. faulty (pf Find_pause w) (filter P (pw_rows w)) (passed dur w) (passed dur w)),
      pd_save = (\<lambda>p w. case store_save p (pw_rows w) of (q, rs) \<Rightarrow> faulty (pf Save_pause w) q (passed dur (w\<lparr>pw_rows := rs\<rparr>)) (passed dur w)),
      pd_log = (\<lambda>e w. faulty (pf Log_pause w) () (passed dur (w\<lparr>pw_logs := pw_logs w @ [e]\<rparr>)) (passed dur w)),
      pd_emit = (\<lambda>ev w. w\<lparr>pw_emitted := pw_emitted w @ [ev]\<rparr>),
      pd_now = pw_now\<rparr>"

definition trail_faulty :: "fault \<Rightarrow> 'a \<Rightarrow> pause_world \<Rightarrow> pause_world \<Rightarrow> (event_error, 'a) result \<times> pause_world" where
  "trail_faulty f x done undone =
     (case f of Answers \<Rightarrow> (Inr x, done) | Refuses \<Rightarrow> (Inl (OtherError ''QueryFailedError''), undone)
      | Unacknowledged \<Rightarrow> (Inl (OtherError ''QueryFailedError''), done))"

definition store_trail :: "(js_value \<Rightarrow> js_value) \<Rightarrow> faults \<Rightarrow> (pause_world \<Rightarrow> nat) \<Rightarrow> pause_world audit_db" where
  "store_trail jb tf dur =
     \<lparr>db_latest = (\<lambda>w. if tf Read_trail w = Answers then db_latest (table_db jb show_nat) (pw_trail w) else Inl (OtherError ''QueryFailedError'')),
      db_head = (\<lambda>w. if tf Read_trail w = Answers then db_head (table_db jb show_nat) (pw_trail w) else Inl (OtherError ''QueryFailedError'')),
      db_saveEvent = (\<lambda>e w. case db_saveEvent (table_db jb show_nat) e (pw_trail w) of
         (Inl x, t) \<Rightarrow> (Inl x, passed dur w)
       | (Inr s, t) \<Rightarrow> trail_faulty (tf Save_trail w) s (passed dur (w\<lparr>pw_trail := t\<rparr>)) (passed dur w)),
      db_saveHead = (\<lambda>h w. trail_faulty (tf Save_trail_head w) () (passed dur (w\<lparr>pw_trail := (pw_trail w)\<lparr>aw_head := Some h\<rparr>\<rparr>)) (passed dur w)),
      db_all = (\<lambda>w. if tf Read_trail w = Answers then db_all (table_db jb show_nat) (pw_trail w) else Inl (OtherError ''QueryFailedError''))\<rparr>"

text \<open>Times as text: their decimal digits.\<close>

definition text_date :: "string \<Rightarrow> int" where
  "text_date s = (case s of [] \<Rightarrow> 0 | c # cs \<Rightarrow> if c = CHR ''-'' then - int (nat_of_digits cs) else int (nat_of_digits s))"

definition store_env ::
  "faults \<Rightarrow> faults \<Rightarrow> (js_value \<Rightarrow> js_value) \<Rightarrow> (string \<Rightarrow> string) \<Rightarrow> (pause_world \<Rightarrow> nat) \<Rightarrow> int option \<Rightarrow> pause_world pause_env" where
  "store_env pf tf jb sha dur attempts =
     \<lparr>pe_db = store_pauses pf dur, pe_iso = show_int, pe_date = text_date,
      pe_audit = Some (admin_env_of sha (store_trail jb tf dur) (\<lambda>w. show_int (pw_now w)) (\<lambda>ms w. w\<lparr>pw_now := pw_now w + ms\<rparr>) attempts None)\<rparr>"

lemma fresh_id_new: "fresh_id rs \<notin> ps_id ` set rs" "fresh_id rs \<noteq> []"
proof -
  have "p \<in> set rs \<Longrightarrow> length (ps_id p) \<le> foldr (\<lambda>p. max (length (ps_id p))) rs 0" for p
    by (induction rs) auto
  then have "p \<in> set rs \<Longrightarrow> length (ps_id p) < length (fresh_id rs)" for p by (simp add: fresh_id_def le_imp_less_Suc)
  then show "fresh_id rs \<notin> ps_id ` set rs" by (metis imageE less_irrefl)
qed (simp add: fresh_id_def)

lemma text_date_back: "text_date (show_int t) = t" "show_int t \<noteq> []"
proof -
  have digits: "list_all is_digit (show_nat n)" "show_nat n \<noteq> []" for n using show_nat_props by blast+
  have plain: "c \<noteq> CHR ''-'' \<Longrightarrow> text_date (c # cs) = int (nat_of_digits (c # cs))" for c cs by (simp add: text_date_def)
  have nat: "text_date (show_nat n) = int n" for n
  proof -
    obtain c cs where n: "show_nat n = c # cs" using digits(2) [of n] by (cases "show_nat n") auto
    with digits(1) [of n] have "c \<noteq> CHR ''-''" using is_digit_not_special by auto
    from plain [OF this, of cs] show ?thesis unfolding n [symmetric] by simp
  qed
  show "text_date (show_int t) = t" using nat by (cases "t < 0") (auto simp: show_int_def text_date_def)
  show "show_int t \<noteq> []" using digits(2) by (simp add: show_int_def)
qed

lemma passed_simps [simp]:
  "pw_rows (passed dur w) = pw_rows w" "pw_trail (passed dur w) = pw_trail w" "pw_logs (passed dur w) = pw_logs w"
  "pw_now w \<le> pw_now (passed dur w)"
  by (simp_all add: passed_def)

lemma faulty_cases:
  "faulty f x done undone = (r, w') \<Longrightarrow> (r = Inr x \<and> w' = done \<and> f = Answers) \<or> (isl r \<and> (w' = done \<or> w' = undone))"
  by (cases f) (auto simp: faulty_def)

interpretation store: pause_tables "store_env pf tf jb sha dur attempts" pw_rows for pf tf jb sha dur attempts
proof
  fix p s and w w' :: pause_world
  assume new: "ps_id p = []" "pd_save (pe_db (store_env pf tf jb sha dur attempts)) p w = (s, w')"
  then have "faulty (pf Save_pause w) (p\<lparr>ps_id := fresh_id (pw_rows w)\<rparr>)
      (passed dur (w\<lparr>pw_rows := pw_rows w @ [p\<lparr>ps_id := fresh_id (pw_rows w)\<rparr>]\<rparr>)) (passed dur w) = (s, w')"
    by (simp add: store_env_def store_pauses_def store_save_def Let_def)
  from faulty_cases [OF this] fresh_id_new [of "pw_rows w"]
  show "\<exists>i. i \<noteq> [] \<and> i \<notin> ps_id ` set (pw_rows w) \<and> (\<forall>q. s = Inr q \<longrightarrow> q = p\<lparr>ps_id := i\<rparr>) \<and>
      (pw_rows w' = pw_rows w @ [p\<lparr>ps_id := i\<rparr>] \<or> pw_rows w' = pw_rows w \<and> isl s)"
    by (intro exI [of _ "fresh_id (pw_rows w)"]) auto
next
  fix p s and w w' :: pause_world
  assume old: "ps_id p \<in> ps_id ` set (pw_rows w)" "ps_id p \<noteq> []" "pd_save (pe_db (store_env pf tf jb sha dur attempts)) p w = (s, w')"
  then have "faulty (pf Save_pause w) p (passed dur (w\<lparr>pw_rows := replace_row p (pw_rows w)\<rparr>)) (passed dur w) = (s, w')"
    by (simp add: store_env_def store_pauses_def store_save_def)
  from faulty_cases [OF this]
  show "(\<forall>q. s = Inr q \<longrightarrow> q = p) \<and> (pw_rows w' = replace_row p (pw_rows w) \<or> pw_rows w' = pw_rows w \<and> isl s)" by auto
next
  fix P r and w w' :: pause_world
  assume "pd_findOne (pe_db (store_env pf tf jb sha dur attempts)) P w = (r, w')"
  then have "faulty (pf Find_pause w) (find P (pw_rows w)) (passed dur w) (passed dur w) = (r, w')"
    by (simp add: store_env_def store_pauses_def)
  from faulty_cases [OF this]
  show "pw_rows w' = pw_rows w \<and> (r = Inr None \<longrightarrow> (\<forall>p \<in> set (pw_rows w). \<not> P p)) \<and> (\<forall>p. r = Inr (Some p) \<longrightarrow> p \<in> set (pw_rows w) \<and> P p)"
    by (auto simp: find_None_iff find_Some_iff)
next
  fix p s and w w' :: pause_world
  assume "pd_save (pe_db (store_env pf tf jb sha dur attempts)) p w = (s, w')"
  then show "pd_now (pe_db (store_env pf tf jb sha dur attempts)) w \<le> pd_now (pe_db (store_env pf tf jb sha dur attempts)) w'"
    by (auto simp: store_env_def store_pauses_def passed_def split: prod.splits dest!: faulty_cases)
qed (auto simp: store_env_def store_pauses_def text_date_back passed_def dest!: faulty_cases)

lemma trail_faulty_cases:
  "trail_faulty f x done undone = (r, w') \<Longrightarrow> (r = Inr x \<and> w' = done) \<or> (isl r \<and> (w' = done \<or> w' = undone))"
  by (cases f) (auto simp: trail_faulty_def)

interpretation trail: audit_tables "store_trail jb tf dur" "\<lambda>w. aw_rows (pw_trail w)" "\<lambda>w. aw_head (pw_trail w)" jb for jb tf dur
proof
  fix e r and w w' :: pause_world
  assume save: "db_saveEvent (store_trail jb tf dur) e w = (r, w')"
  obtain q t where q: "db_saveEvent (table_db jb show_nat) e (pw_trail w) = (q, t)" by fastforce
  note law = tables.event_saved [OF q]
  show "aw_head (pw_trail w') = aw_head (pw_trail w) \<and>
      (aw_rows (pw_trail w') = aw_rows (pw_trail w) \<and> (\<forall>s. r \<noteq> Inr s) \<or>
       sa_sequence e \<notin> sa_sequence ` set (aw_rows (pw_trail w)) \<and>
       (\<exists>i. (\<forall>s. r = Inr s \<longrightarrow> s = e\<lparr>sa_id := i\<rparr>) \<and>
          ((\<forall>f \<in> set (aw_rows (pw_trail w)). sa_sequence f < sa_sequence e) \<longrightarrow>
            aw_rows (pw_trail w') = aw_rows (pw_trail w) @ [column_trip jb (e\<lparr>sa_id := i\<rparr>)])))"
  proof (cases q)
    case (Inl x)
    with save q have "w' = passed dur w" "r = Inl x" by (simp_all add: store_trail_def)
    then show ?thesis by simp
  next
    case (Inr s)
    with save q have "trail_faulty (tf Save_trail w) s (passed dur (w\<lparr>pw_trail := t\<rparr>)) (passed dur w) = (r, w')"
      by (simp add: store_trail_def)
    from trail_faulty_cases [OF this] law Inr show ?thesis by auto
  qed
next
  fix h q and w w' :: pause_world
  assume "db_saveHead (store_trail jb tf dur) h w = (q, w')"
  then have "trail_faulty (tf Save_trail_head w) () (passed dur (w\<lparr>pw_trail := (pw_trail w)\<lparr>aw_head := Some h\<rparr>\<rparr>)) (passed dur w) = (q, w')"
    by (simp add: store_trail_def)
  from trail_faulty_cases [OF this]
  show "aw_rows (pw_trail w') = aw_rows (pw_trail w) \<and>
      (aw_head (pw_trail w') = Some h \<or> aw_head (pw_trail w') = aw_head (pw_trail w) \<and> (\<forall>u. q \<noteq> Inr u))" by auto
qed (auto simp: store_trail_def table_db_def split: if_splits)

text \<open>The admin audit service over these tables.\<close>

definition store_audit ::
  "faults \<Rightarrow> (js_value \<Rightarrow> js_value) \<Rightarrow> (string \<Rightarrow> string) \<Rightarrow> (pause_world \<Rightarrow> nat) \<Rightarrow> int option \<Rightarrow> pause_world admin_env" where
  "store_audit tf jb sha dur attempts = admin_env_of sha (store_trail jb tf dur) (\<lambda>w. show_int (pw_now w)) (\<lambda>ms w. w\<lparr>pw_now := pw_now w + ms\<rparr>) attempts None"

lemma store_audit_simps [simp]:
  "pe_audit (store_env pf tf jb sha dur attempts) = Some (store_audit tf jb sha dur attempts)"
  "ae_db (store_audit tf jb sha dur attempts) = store_trail jb tf dur"
  "ae_sha (store_audit tf jb sha dur attempts) = sha"
  "pw_rows (ae_delay (store_audit tf jb sha dur attempts) ms w) = pw_rows w"
  "pw_trail (ae_delay (store_audit tf jb sha dur attempts) ms w) = pw_trail w"
  by (simp_all add: store_env_def store_audit_def admin_env_of_def)

lemma trail_keeps_rows:
  "db_saveEvent (store_trail jb tf dur) e w = (r, w') \<Longrightarrow> pw_rows w' = pw_rows w"
  "db_saveHead (store_trail jb tf dur) h w = (q, w') \<Longrightarrow> pw_rows w' = pw_rows w"
  by (auto simp: store_trail_def split: prod.splits sum.splits dest!: trail_faulty_cases)

interpretation activation: evidenced_change "store_audit tf jb sha dur attempts"
  "activation_change (store_env pf tf jb sha dur attempts) opts" pw_rows rows_ok in_force
  for pf tf jb sha dur attempts opts
proof
  fix w b w1 x w2 w3 w4
  let ?pe = "store_env pf tf jb sha dur attempts"
  assume "rows_ok (pw_rows w)" "ac_snapshot (activation_change ?pe opts) w = (Inr b, w1)"
    "ac_apply (activation_change ?pe opts) w1 = (Inr x, w2)" "pw_rows w3 = pw_rows w2"
    "ac_revert (activation_change ?pe opts) b w3 = (Inr (), w4)"
  then show "in_force (pw_rows w4) = in_force (pw_rows w)"
    using store.activation_undone by (simp add: activation_change_def)
qed (auto simp: activation_change_def trail_keeps_rows dest: store.snapshot_rows)

interpretation resumption: evidenced_change "store_audit tf jb sha dur attempts"
  "resumption_change (store_env pf tf jb sha dur attempts) scope reason actorId actorRole ip ua i" pw_rows "resumable scope i" in_force
  for pf tf jb sha dur attempts scope reason actorId actorRole ip ua i
proof
  fix w b w1 x w2 w3 w4
  let ?pe = "store_env pf tf jb sha dur attempts"
  let ?c = "resumption_change ?pe scope reason actorId actorRole ip ua i"
  assume "resumable scope i (pw_rows w)" "ac_snapshot ?c w = (Inr b, w1)" "ac_apply ?c w1 = (Inr x, w2)" "pw_rows w3 = pw_rows w2"
    "ac_revert ?c b w3 = (Inr (), w4)"
  then show "in_force (pw_rows w4) = in_force (pw_rows w)"
    using store.resumption_undone [of scope i w pf tf jb sha dur attempts b w1 reason actorId actorRole x w2 w3 w4]
    by (simp add: resumption_change_def)
qed (auto simp: resumption_change_def trail_keeps_rows dest: store.snapshot_rows)

section \<open>Actions that leave the trail alone, and actions that return\<close>

definition leaves_trail :: "(pause_world, 'a) act \<Rightarrow> bool" where
  "leaves_trail m \<longleftrightarrow> (\<forall>w. pw_trail (snd (m w)) = pw_trail w)"

definition always_returns :: "(pause_world, 'a) act \<Rightarrow> bool" where
  "always_returns m \<longleftrightarrow> (\<forall>w. \<not> isl (fst (m w)))"

definition only_thrown :: "(pause_world, 'a) act \<Rightarrow> bool" where
  "only_thrown m \<longleftrightarrow> (\<forall>w e w'. m w = (Inl e, w') \<longrightarrow> (\<exists>n. e = Thrown n))"

lemma only_thrownD: "only_thrown m \<Longrightarrow> m w = (Inl e, w') \<Longrightarrow> \<exists>n. e = Thrown n"
  unfolding only_thrown_def by blast

lemma only_thrown_then [intro]: "only_thrown m \<Longrightarrow> (\<And>x. only_thrown (f x)) \<Longrightarrow> only_thrown (and_then m f)"
  by (auto simp: only_thrown_def and_then_def split: prod.splits sum.splits)

definition forward :: "(pause_world, 'a) act \<Rightarrow> bool" where
  "forward m \<longleftrightarrow> (\<forall>w. pw_now w \<le> pw_now (snd (m w)))"

lemma forwardD: "forward m \<Longrightarrow> m w = (r, w') \<Longrightarrow> pw_now w \<le> pw_now w'"
  by (metis forward_def snd_conv)

lemma forward_then [intro]: "forward m \<Longrightarrow> (\<And>x. forward (f x)) \<Longrightarrow> forward (and_then m f)"
  by (auto simp: forward_def and_then_def split: prod.splits sum.splits; metis order_trans snd_conv)

lemma leaves_trailD: "leaves_trail m \<Longrightarrow> m w = (r, w') \<Longrightarrow> pw_trail w' = pw_trail w"
  by (metis leaves_trail_def snd_conv)

lemma always_returnsD: "always_returns m \<Longrightarrow> m w = (Inl e, w') \<Longrightarrow> False"
  by (metis always_returns_def fst_conv sum.disc(1))

lemma always_returnsE: "always_returns m \<Longrightarrow> \<exists>x w'. m w = (Inr x, w')"
  by (cases "m w"; cases "fst (m w)") (auto dest: always_returnsD)

lemma leaves_trail_then [intro]: "leaves_trail m \<Longrightarrow> (\<And>x. leaves_trail (f x)) \<Longrightarrow> leaves_trail (and_then m f)"
  by (auto simp: leaves_trail_def and_then_def split: prod.splits sum.splits; metis snd_conv)

lemma always_returns_then [intro]: "always_returns m \<Longrightarrow> (\<And>x. always_returns (f x)) \<Longrightarrow> always_returns (and_then m f)"
  by (auto simp: always_returns_def and_then_def split: prod.splits sum.splits; metis fst_conv sum.disc(1))

lemma plain_actions [intro]:
  "leaves_trail (returns x)" "always_returns (returns x)"
  "leaves_trail (emits (store_env pf tf jb sha dur attempts) ev y)" "always_returns (emits pe ev y)"
  "only_thrown (returns x)" "only_thrown (emits pe ev y)"
  "forward (returns x)" "forward (emits (store_env pf tf jb sha dur attempts) ev y)"
  by (simp_all add: forward_def only_thrown_def leaves_trail_def always_returns_def returns_def emits_def store_env_def store_pauses_def)

lemma store_leaves_trail [intro]:
  "leaves_trail (pd_findOne (pe_db (store_env pf tf jb sha dur attempts)) P)"
  "leaves_trail (pd_find (pe_db (store_env pf tf jb sha dur attempts)) P)"
  "leaves_trail (pd_save (pe_db (store_env pf tf jb sha dur attempts)) p)"
  "leaves_trail (pd_log (pe_db (store_env pf tf jb sha dur attempts)) e)"
  by (auto simp: leaves_trail_def store_env_def store_pauses_def faulty_def split: prod.splits fault.splits)

lemma store_forward [intro]:
  "forward (pd_findOne (pe_db (store_env pf tf jb sha dur attempts)) P)"
  "forward (pd_find (pe_db (store_env pf tf jb sha dur attempts)) P)"
  "forward (pd_save (pe_db (store_env pf tf jb sha dur attempts)) p)"
  "forward (pd_log (pe_db (store_env pf tf jb sha dur attempts)) e)"
  by (auto simp: forward_def store_env_def store_pauses_def faulty_def passed_def split: prod.splits fault.splits)

lemma store_throws [intro]:
  "only_thrown (pd_findOne (pe_db (store_env pf tf jb sha dur attempts)) P)"
  "only_thrown (pd_find (pe_db (store_env pf tf jb sha dur attempts)) P)"
  "only_thrown (pd_save (pe_db (store_env pf tf jb sha dur attempts)) p)"
  "only_thrown (pd_log (pe_db (store_env pf tf jb sha dur attempts)) e)"
  by (auto simp: only_thrown_def store_env_def store_pauses_def faulty_def split: prod.splits fault.splits)

definition answers :: faults where
  "answers a w = Answers"

lemma store_answers [intro]:
  "always_returns (pd_findOne (pe_db (store_env answers tf jb sha dur attempts)) P)"
  "always_returns (pd_find (pe_db (store_env answers tf jb sha dur attempts)) P)"
  "always_returns (pd_save (pe_db (store_env answers tf jb sha dur attempts)) p)"
  "always_returns (pd_log (pe_db (store_env answers tf jb sha dur attempts)) e)"
  by (auto simp: always_returns_def store_env_def store_pauses_def faulty_def answers_def split: prod.splits)

lemma save_logged_acts [intro]:
  "leaves_trail (save_logged (store_env pf tf jb sha dur attempts) p a i ro re u)"
  "always_returns (save_logged (store_env answers tf jb sha dur attempts) p a i ro re u)"
  "only_thrown (save_logged (store_env pf tf jb sha dur attempts) p a i ro re u)"
  "forward (save_logged (store_env pf tf jb sha dur attempts) p a i ro re u)"
  unfolding save_logged_def createAuditEntry_def by blast+

lemma timed_acts:
  "(\<And>w. leaves_trail (g w)) \<Longrightarrow> (\<And>x. leaves_trail (h x)) \<Longrightarrow> leaves_trail (\<lambda>w. and_then (g w) h w)"
  "(\<And>w. always_returns (g w)) \<Longrightarrow> (\<And>x. always_returns (h x)) \<Longrightarrow> always_returns (\<lambda>w. and_then (g w) h w)"
  "(\<And>w. only_thrown (g w)) \<Longrightarrow> (\<And>x. only_thrown (h x)) \<Longrightarrow> only_thrown (\<lambda>w. and_then (g w) h w)"
proof -
  show "only_thrown (\<lambda>w. and_then (g w) h w)" if "\<And>w. only_thrown (g w)" "\<And>x. only_thrown (h x)"
  proof -
    have "only_thrown (and_then (g w) h)" for w by (intro only_thrown_then that)
    then show ?thesis unfolding only_thrown_def by blast
  qed
qed (use leaves_trail_then [of _ h] always_returns_then [of _ h] in \<open>simp_all add: leaves_trail_def always_returns_def\<close>)

lemma case_acts:
  "leaves_trail m \<Longrightarrow> (\<And>y. leaves_trail (f y)) \<Longrightarrow> leaves_trail (case x of None \<Rightarrow> m | Some y \<Rightarrow> f y)"
  "always_returns m \<Longrightarrow> (\<And>y. always_returns (f y)) \<Longrightarrow> always_returns (case x of None \<Rightarrow> m | Some y \<Rightarrow> f y)"
  "only_thrown m \<Longrightarrow> (\<And>y. only_thrown (f y)) \<Longrightarrow> only_thrown (case x of None \<Rightarrow> m | Some y \<Rightarrow> f y)"
  "forward m \<Longrightarrow> (\<And>y. forward (f y)) \<Longrightarrow> forward (case x of None \<Rightarrow> m | Some y \<Rightarrow> f y)"
  by (auto split: option.splits)

lemmas act_intros = only_thrown_then store_throws forward_then store_forward leaves_trail_then always_returns_then plain_actions store_leaves_trail store_answers save_logged_acts case_acts timed_acts

lemma pause_acts:
  "leaves_trail (applyActivatePause (store_env pf tf jb sha dur attempts) opts)"
  "leaves_trail (applyResumePause (store_env pf tf jb sha dur attempts) scope reason actorId actorRole)"
  "leaves_trail (snapshotActive (store_env pf tf jb sha dur attempts) scope i)"
  unfolding applyActivatePause_def activate_found_def applyResumePause_def snapshotActive_def
  by (intro act_intros)+

lemma pause_acts_return:
  "always_returns (applyActivatePause (store_env answers tf jb sha dur attempts) opts)"
  "always_returns (applyResumePause (store_env answers tf jb sha dur attempts) scope reason actorId actorRole)"
  "always_returns (snapshotActive (store_env answers tf jb sha dur attempts) scope i)"
  "always_returns (revertActivation (store_env answers tf jb sha dur attempts) scope b)"
  "always_returns (revertResume (store_env answers tf jb sha dur attempts) scope b)"
  unfolding applyActivatePause_def activate_found_def applyResumePause_def snapshotActive_def revertActivation_def revertResume_def
  by (intro act_intros)+

lemma pause_acts_throw:
  "only_thrown (applyActivatePause (store_env pf tf jb sha dur attempts) opts)"
  "only_thrown (applyResumePause (store_env pf tf jb sha dur attempts) scope reason actorId actorRole)"
  "only_thrown (snapshotActive (store_env pf tf jb sha dur attempts) scope i)"
  unfolding applyActivatePause_def activate_found_def applyResumePause_def snapshotActive_def
  by (intro act_intros)+

lemma activate_forward: "forward (applyActivatePause (store_env pf tf jb sha dur attempts) opts)"
  unfolding applyActivatePause_def activate_found_def by (intro act_intros)

lemma trip_text:
  assumes "\<forall>v. json_stringify (jb v) = json_stringify v"
  shows "computeHash sha (column_trip jb e) = computeHash sha e"
proof -
  have "json_stringify (js_state (map_option jb v)) = json_stringify (js_state v)" for v
    using assms by (cases v) (simp_all add: js_state_def)
  then show ?thesis by (simp add: computeHash_def buildHashInput_def column_trip_def)
qed

text \<open>Evidence of a change: the last event of the trail, over what was there before.\<close>

definition evidenced :: "string \<Rightarrow> string \<Rightarrow> SensitiveActionEvent list \<Rightarrow> SensitiveActionEvent list \<Rightarrow> bool" where
  "evidenced scope actorId old new \<longleftrightarrow> (\<exists>fs e. new = old @ fs @ [e] \<and> sa_action e = pause_action \<and> sa_status e = Sas_succeeded \<and>
     sa_resourceId e = Some (take 255 scope) \<and> sa_actorId e = take 64 actorId)"

lemma retry_evidence:
  assumes "\<forall>v. json_stringify (jb v) = json_stringify v" "trail_sound sha (aw_rows (pw_trail w))"
    and "recordWithRetry (store_audit tf jb sha dur attempts) change evidence w = (Inr e, w')"
    and "ac_action change = pause_action" "ef_status evidence = Sas_succeeded" "aa_id (ac_actor change) \<noteq> []"
  shows "evidenced (ac_resourceId change) (aa_id (ac_actor change)) (aw_rows (pw_trail w)) (aw_rows (pw_trail w'))"
proof -
  from trail.recorded_evidence [of sha jb "store_audit tf jb sha dur attempts" tf dur w change evidence "nat (ae_maxAttempts (store_audit tf jb sha dur attempts))" 1 e w']
    trip_text [OF assms(1)] assms(2,3)
  obtain fs where "aw_rows (pw_trail w') = aw_rows (pw_trail w) @ fs @ [column_trip jb e]" "of_change change evidence e"
    by (auto simp: recordWithRetry_def)
  then show ?thesis using assms(4-6) unfolding evidenced_def
    by (intro exI [of _ fs] exI [of _ "column_trip jb e"]) (simp add: of_change_def column_trip_def)
qed

section \<open>Properties\<close>


text \<open>
  The same for lifting a pause: when a resumption returns a row, no pause of the scope is in force any
  more and the trail ends with an event of the change; when it returns nothing, there was no pause
  of the scope; when it is refused or rolled back, exactly the pauses of before are in force.
\<close>

theorem resumption_leaves_evidence:
  assumes "rows_ok (pw_rows w)" "trail_sound sha (aw_rows (pw_trail w))" "\<forall>v. json_stringify (jb v) = json_stringify v"
    and run: "resumePause (store_env pf tf jb sha dur attempts) scope reason actorId actorRole ip ua w = (r, w')"
  shows "(\<forall>p. r = Inr (Some p) \<longrightarrow> (\<forall>q \<in> set (pw_rows w'). \<not> is_active (pausable_value scope) q) \<and>
      evidenced (pausable_value scope) actorId (aw_rows (pw_trail w)) (aw_rows (pw_trail w'))) \<and>
    (r = Inr None \<longrightarrow> in_force (pw_rows w') = in_force (pw_rows w) \<and> (\<forall>q \<in> set (pw_rows w). \<not> is_active (pausable_value scope) q)) \<and>
    (\<forall>e. r = Inl e \<and> (pf = answers \<or> e = rolled_back \<or> e = insufficient) \<longrightarrow> in_force (pw_rows w') = in_force (pw_rows w))"
proof -
  let ?pe = "store_env pf tf jb sha dur attempts"
  let ?sc = "pausable_value scope"
  obtain f w0 where f: "pd_findOne (pe_db ?pe) (is_active ?sc) w = (f, w0)" by fastforce
  have rows0: "pw_rows w0 = pw_rows w" using store.findOne_rows [OF f] by simp
  have trail0: "pw_trail w0 = pw_trail w" by (rule leaves_trailD [OF store_leaves_trail(1) f])
  show ?thesis
  proof (cases f)
    case (Inl e)
    with run f rows0 show ?thesis by (auto simp: resumePause_def)
  next
    case (Inr x)
    show ?thesis
    proof (cases x)
      case None
      with Inr f have "\<forall>q \<in> set (pw_rows w). \<not> is_active ?sc q" by (intro store.findOne_none(2)) simp
      with None Inr run f rows0 show ?thesis by (auto simp: resumePause_def returns_def)
    next
      case (Some p)
      note p = store.findOne_found(2,3) [OF f [unfolded Inr Some]]
      let ?c = "resumption_change ?pe ?sc reason actorId actorRole ip ua (ps_id p)"
      have c: "ac_snapshot ?c = snapshotActive ?pe ?sc (Some (ps_id p))" "ac_apply ?c = applyResumePause ?pe ?sc reason actorId actorRole"
        "ac_revert ?c = revertResume ?pe ?sc" "ac_action ?c = pause_action" "aa_id (ac_actor ?c) = actorId" "ac_resourceId ?c = ?sc"
        by (simp_all add: resumption_change_def)
      have run': "applyWithEvidence (store_audit tf jb sha dur attempts) ?c w0 = (r, w')"
        using run f Inr Some by (simp add: resumePause_def)
      have ok: "resumable ?sc (ps_id p) (pw_rows w0)" using assms(1) p rows0 by (auto simp: resumable_def)
      have wf: "rows_wf (pw_rows w)" using assms(1) by (simp add: rows_ok_def)
      from run' ok show ?thesis
      proof (cases rule: resumption.evidence_cases)
        case (failed b w1 e w2)
        have "pf \<noteq> answers" using failed(2) always_returnsD [OF pause_acts_return(2)] unfolding c by blast
        moreover have "\<exists>n. e = Thrown n" by (rule only_thrownD [OF pause_acts_throw(2) failed(2) [unfolded c]])
        ultimately show ?thesis using failed by (auto simp: rolled_back_def insufficient_def)
      next
        case (unseen b w1 x w2 e)
        have "pf \<noteq> answers" using unseen(3) always_returnsD [OF pause_acts_return(3)] unfolding c by blast
        moreover have "\<exists>n. e = Thrown n" by (rule only_thrownD [OF pause_acts_throw(3) unseen(3) [unfolded c]])
        ultimately show ?thesis using unseen by (auto simp: rolled_back_def insufficient_def)
      next
        case (recorded b w1 x w2 a w3 event)
        have t: "pw_trail w3 = pw_trail w"
          using recorded(2,3,4) trail0 leaves_trailD [OF pause_acts(2)] leaves_trailD [OF pause_acts(3)] by (metis c(1,2))
        have "aa_id (ac_actor ?c) \<noteq> []" using recorded(1) by (simp add: may_change_def)
        with retry_evidence [OF assms(3) _ recorded(5)] t assms(2) c have ev:
          "evidenced ?sc actorId (aw_rows (pw_trail w)) (aw_rows (pw_trail w'))" by simp
        have rows: "pw_rows w' = pw_rows w2" "pw_rows w1 = pw_rows w" using recorded rows0 by auto
        have "x \<noteq> None \<and> (\<forall>q \<in> set (pw_rows w2). \<not> is_active ?sc q)"
          using recorded(3) [unfolded c] wf [folded rows(2)]
        proof (cases rule: store.resume_cases)
          case none
          with p rows show ?thesis by auto
        next
          case (resumed q now)
          then have q: "q \<in> set (pw_rows w)" "is_active ?sc q" using rows by auto
          define z where "z = resumed_pause reason actorId actorRole now q"
          have z: "ps_id z = ps_id q" "\<not> ps_active z" by (simp_all add: z_def resumed_pause_def)
          have "set (pw_rows w2) = insert z (set (pw_rows w) - {q})"
            using resumed rows set_replace_row [OF wf q(1) z(1)] by (simp add: z_def)
          moreover have "\<not> is_active ?sc u" if "u \<in> set (pw_rows w) - {q}" for u
            using store.the_active [OF assms(1) _ q(1) _ q(2)] that by auto
          ultimately show ?thesis using resumed z(2) by (auto simp: is_active_def)
        qed simp
        with ev rows recorded(6) show ?thesis by auto
      next
        case (stuck b w1 x w2 v e)
        then have "pf \<noteq> answers" using always_returnsD [OF pause_acts_return(5)] unfolding c by blast
        then show ?thesis using stuck by (auto simp: rolled_back_def not_rolled_back_def insufficient_def)
      qed (use rows0 in auto)
    qed
  qed
qed


section \<open>Runs\<close>

datatype pause_call =
    Call_activate ActivatePauseOpts
  | Call_resume PausableScope string string string "string option" "string option"
  | Call_check string
  | Call_list

fun pause_do :: "pause_world pause_env \<Rightarrow> pause_call \<Rightarrow> pause_world \<Rightarrow> pause_world" where
  "pause_do pe (Call_activate opts) w = snd (activatePause pe opts w)"
| "pause_do pe (Call_resume scope reason actorId actorRole ip ua) w = snd (resumePause pe scope reason actorId actorRole ip ua w)"
| "pause_do pe (Call_check scope) w = snd (isOperationPaused pe scope w)"
| "pause_do pe Call_list w = snd (getActivePauses pe w)"

lemma activatePause_ok:
  assumes "rows_ok (pw_rows w)" "activatePause (store_env pf tf jb sha dur attempts) opts w = (r, w')"
  shows "rows_ok (pw_rows w')"
proof -
  let ?c = "activation_change (store_env pf tf jb sha dur attempts) opts"
  have c: "ac_apply ?c = applyActivatePause (store_env pf tf jb sha dur attempts) opts"
    "ac_revert ?c = revertActivation (store_env pf tf jb sha dur attempts) (pausable_value (ap_scope opts))"
    by (simp_all add: activation_change_def)
  have run: "applyWithEvidence (store_audit tf jb sha dur attempts) ?c w = (r, w')" using assms(2) by (simp add: activatePause_def)
  have applied: "rows_ok (pw_rows w2)" if "ac_apply ?c w1 = (x, w2)" "pw_rows w1 = pw_rows w" for x w1 w2
    using store.activate_ok [OF _ that(1) [unfolded c]] that(2) assms(1) by simp
  from run assms(1) show ?thesis
  proof (cases rule: activation.evidence_cases)
    case (reverted b w1 x w2 v)
    then show ?thesis using store.revert_rows_ok [of v] applied [OF reverted(2,3)] unfolding c by auto
  next
    case (stuck b w1 x w2 v e)
    then show ?thesis using store.revert_rows_ok [of v] applied [OF stuck(2,3)] unfolding c by auto
  qed (use assms(1) applied in auto)
qed

lemma resumePause_ok:
  assumes "rows_ok (pw_rows w)" "resumePause (store_env pf tf jb sha dur attempts) scope reason actorId actorRole ip ua w = (r, w')"
  shows "rows_ok (pw_rows w')"
proof -
  let ?pe = "store_env pf tf jb sha dur attempts"
  let ?sc = "pausable_value scope"
  obtain f w0 where f: "pd_findOne (pe_db ?pe) (is_active ?sc) w = (f, w0)" by fastforce
  have rows0: "pw_rows w0 = pw_rows w" using store.findOne_rows [OF f] by simp
  show ?thesis
  proof (cases "\<exists>p. f = Inr (Some p)")
    case False
    then show ?thesis using assms f rows0 by (cases f) (auto simp: resumePause_def returns_def split: option.splits)
  next
    case True
    then obtain p where p: "f = Inr (Some p)" by blast
    note act = store.findOne_found(2,3) [OF f [unfolded p]]
    let ?c = "resumption_change ?pe ?sc reason actorId actorRole ip ua (ps_id p)"
    have c: "ac_apply ?c = applyResumePause ?pe ?sc reason actorId actorRole" "ac_revert ?c = revertResume ?pe ?sc"
      "ac_snapshot ?c = snapshotActive ?pe ?sc (Some (ps_id p))" by (simp_all add: resumption_change_def)
    have run: "applyWithEvidence (store_audit tf jb sha dur attempts) ?c w0 = (r, w')" using assms(2) f p by (simp add: resumePause_def)
    have ok: "resumable ?sc (ps_id p) (pw_rows w0)" using assms(1) act rows0 by (auto simp: resumable_def)
    have applied: "rows_ok (pw_rows w2)" if "ac_apply ?c w1 = (x, w2)" "pw_rows w1 = pw_rows w0" for x w1 w2
      using store.resume_rows_ok [OF _ that(1) [unfolded c]] that(2) assms(1) rows0 by simp
    from run ok show ?thesis
    proof (cases rule: resumption.evidence_cases)
      case (reverted b w1 x w2 v)
      have "pw_rows w' = pw_rows w0"
        using store.resumption_undone [OF ok reverted(1) [unfolded c] reverted(2) [unfolded c] reverted(4) reverted(5) [unfolded c]] .
      then show ?thesis using assms(1) rows0 by simp
    next
      case (stuck b w1 x w2 v e)
      then show ?thesis using store.revert_resume_ok [OF ok stuck(1) [unfolded c] stuck(2) [unfolded c] stuck(4) stuck(5) [unfolded c]] by simp
    qed (use assms(1) applied rows0 in auto)
  qed
qed

text \<open>
  One pause of a scope.  However calls that are not interleaved follow each other, and whichever accesses of the tables fail,
  at most one row of a scope is active, row ids differ, and an active row carries no traces of a resumption.
\<close>

theorem one_active_pause_per_scope:
  assumes "rows_ok (pw_rows w)"
  shows "rows_ok (pw_rows (run (pause_do (store_env pf tf jb sha dur attempts)) calls w))"
  using assms
proof (induction calls arbitrary: w)
  case (Cons c calls)
  let ?pe = "store_env pf tf jb sha dur attempts"
  have "rows_ok (pw_rows (pause_do ?pe c w))"
  proof (cases c)
    case (Call_activate opts)
    then show ?thesis using activatePause_ok [OF Cons.prems, of pf tf jb sha dur attempts opts] by (cases "activatePause ?pe opts w") simp
  next
    case (Call_resume sc re ai ar ip ua)
    then show ?thesis using resumePause_ok [OF Cons.prems, of pf tf jb sha dur attempts sc re ai ar ip ua]
      by (cases "resumePause ?pe sc re ai ar ip ua w") simp
  next
    case (Call_check sc)
    then show ?thesis using store.isOperationPaused_ok [OF _ Cons.prems, of pf tf jb sha dur attempts sc] by (cases "isOperationPaused ?pe sc w") simp
  next
    case Call_list
    then show ?thesis using store.getActivePauses_ok [OF _ Cons.prems, of pf tf jb sha dur attempts] by (cases "getActivePauses ?pe w") simp
  qed
  then show ?case using Cons.IH by simp
qed simp

section \<open>What the code does not keep\<close>

definition log_refused :: faults where
  "log_refused a w = (if a = Log_pause then Refuses else Answers)"

lemma activation_log_refused:
  assumes "\<forall>p \<in> set (pw_rows w). \<not> is_active (pausable_value (ap_scope opts)) p"
  shows "\<exists>w'. applyActivatePause (store_env log_refused tf jb sha dur attempts) opts w = (Inl (Thrown ''QueryFailedError''), w') \<and>
    pw_rows w' = pw_rows w @ [(new_pause opts)\<lparr>ps_id := fresh_id (pw_rows w)\<rparr>]"
proof -
  have "find (is_active (pausable_value (ap_scope opts))) (pw_rows w) = None" using assms by (simp add: find_None_iff)
  moreover have "ps_id (new_pause opts) = []" by (simp add: new_pause_def)
  ultimately show ?thesis
    by (simp add: applyActivatePause_def activate_found_def save_logged_def createAuditEntry_def and_then_def
      store_env_def store_pauses_def faulty_def log_refused_def store_save_def Let_def)
qed

lemma snapshot_answers:
  "(\<And>v. pf Find_pause v = Answers) \<Longrightarrow> \<exists>b w'. snapshotActive (store_env pf tf jb sha dur attempts) scope i w = (Inr b, w')"
  by (simp add: snapshotActive_def returns_def and_then_def store_env_def store_pauses_def faulty_def)

lemma admin_may_activate:
  "ap_actorId opts \<noteq> [] \<Longrightarrow> toUpperCase (ap_actorRole opts) = ''ADMIN'' \<Longrightarrow> may_change (activation_change pe opts)"
  by (simp add: may_change_def activation_change_def)

lemma best_effort_status:
  assumes "\<forall>v. json_stringify (jb v) = json_stringify v" "trail_sound sha (aw_rows (pw_trail w))"
  shows "\<exists>fs. aw_rows (pw_trail (recordBestEffort (store_audit tf jb sha dur attempts) change evidence w)) = aw_rows (pw_trail w) @ fs \<and>
    (\<forall>f \<in> set fs. sa_status f = ef_status evidence)"
proof -
  obtain r w' where r: "record_change (store_audit tf jb sha dur attempts) change evidence 1 w = (r, w')" by fastforce
  from trail.record_change_appends [OF trip_text [OF assms(1)] _ _ assms(2) r] r show ?thesis by (auto simp: recordBestEffort_def)
qed


text \<open>
  A check that began earlier can end a new pause.  A check reads the pauses of a scope, all of which
  have expired; before it writes, an administrator renews the pause, and the renewal returns.  The check then
  writes back the rows it had read: whatever expiry was asked for, no pause of the scope is in force.
\<close>

theorem late_check_ends_renewed_pause:
  assumes "rows_ok (pw_rows w)" "p \<in> set (pw_rows w)" "is_active (pausable_value (ap_scope opts)) p"
    and "\<forall>q \<in> set (pw_rows w). pause_query (pausable_value (ap_scope opts)) q \<longrightarrow> has_expired (pw_now w) q"
    and "pd_find (pe_db (store_env pf tf jb sha dur attempts)) (pause_query (pausable_value (ap_scope opts))) w = (Inr ps, w1)"
    and "applyActivatePause (store_env pf tf jb sha dur attempts) opts w1 = (Inr q, w2)"
    and "check_pauses (store_env pf tf jb sha dur attempts) ps w2 = (Inr r, w3)"
  shows "ps_expiresAt q = ap_expiresAt opts \<and> q \<in> set (in_force (pw_rows w2)) \<and>
    (\<forall>u \<in> set (pw_rows w3). \<not> is_active (pausable_value (ap_scope opts)) u)"
proof -
  define sc where "sc = pausable_value (ap_scope opts)"
  have wf: "rows_wf (pw_rows w)" using assms(1) by (simp add: rows_ok_def)
  note fr = store.found_rows [OF assms(5) wf, folded sc_def]
  have wf1: "rows_wf (pw_rows w1)" using wf fr(1) by simp
  have p1: "p \<in> set (pw_rows w1)" "is_active sc p" using assms(2,3) fr(1) by (simp_all add: sc_def)
  have upd: "q = updated_pause opts p" "pw_rows w2 = replace_row q (pw_rows w)"
    using assms(6) wf1
  proof (induction rule: store.activate_cases)
    case (updated p')
    have "p' = p" using store.the_active [OF assms(1)] updated(1,2) p1 fr(1) by (auto simp: sc_def)
    with updated fr(1) show "q = updated_pause opts p" "pw_rows w2 = replace_row q (pw_rows w)" by simp_all
  qed (use p1 in \<open>auto simp: sc_def\<close>)
  have q: "ps_id q = ps_id p" "is_active sc q" "ps_expiresAt q = ap_expiresAt opts"
    using p1(2) by (simp_all add: upd(1) updated_pause_def is_active_def)
  have set2: "set (pw_rows w2) = insert q (set (pw_rows w) - {p})" using set_replace_row [OF wf assms(2) q(1)] upd(2) by simp
  have now: "pw_now w \<le> pw_now w2"
    using forwardD [OF store_forward(2) assms(5)] forwardD [OF activate_forward assms(6)] by simp
  have clock: "pd_now (pe_db (store_env pf tf jb sha dur attempts)) = pw_now" by (simp add: store_env_def store_pauses_def)
  have pps: "p \<in> set ps" using fr assms(2) p1(2) by (simp add: pause_query_def)
  have stale: "\<forall>u \<in> set (pw_rows w3). (ps_id u \<in> ps_id ` set ps \<longrightarrow> \<not> ps_active u) \<and> (ps_active u \<longrightarrow> u \<in> set (pw_rows w2))"
  proof (rule store.stale_check [OF assms(7), THEN conjunct2, THEN conjunct2])
    show "rows_wf (pw_rows w2)" using wf upd(2) by simp
    show "ps_id ` set ps \<subseteq> ps_id ` set (pw_rows w2)" using fr upd(2) by auto
    show "\<forall>p \<in> set ps. has_expired (pd_now (pe_db (store_env pf tf jb sha dur attempts)) w2) p"
      using assms(4) fr(2) now store.expired_later unfolding clock sc_def by blast
  qed
  have "\<not> is_active sc u" if u: "u \<in> set (pw_rows w3)" for u
  proof
    assume act: "is_active sc u"
    then have "ps_active u" by (simp add: is_active_def)
    with stale u have "u \<in> set (pw_rows w2)" "ps_id u \<notin> ps_id ` set ps" by blast+
    moreover have "ps_id q \<in> ps_id ` set ps" using q(1) pps by auto
    ultimately have "u \<in> set (pw_rows w) - {p}" using set2 by auto
    with store.the_active [OF assms(1) _ assms(2) act p1(2)] show False by blast
  qed
  moreover have "q \<in> set (in_force (pw_rows w2))" using set2 q(2) by (simp add: in_force_def is_active_def)
  ultimately show ?thesis using q(3) by (simp add: sc_def)
qed

text \<open>
  Two activations at once leave two active rows, and one resumption does not lift the pause.  When
  both have searched before either writes, each inserts a row; a resumption that returns deactivates one
  of them, and the other is still in force.
\<close>

theorem concurrent_activations_double:
  assumes "rows_wf (pw_rows w)" "ap_scope o1 = sc" "ap_scope o2 = sc"
    and "activate_found (store_env pf tf jb sha dur attempts) o1 None w = (Inr p1, w1)"
    and "activate_found (store_env pf tf jb sha dur attempts) o2 None w1 = (Inr p2, w2)"
    and "applyResumePause (store_env pf tf jb sha dur attempts) (pausable_value sc) reason actorId actorRole w2 = (Inr (Some q), w3)"
  shows "\<exists>p \<in> set (pw_rows w3). is_active (pausable_value sc) p"
proof -
  from store.activate_found_none [OF assms(4)] obtain i where
    i: "i \<noteq> []" "i \<notin> ps_id ` set (pw_rows w)" "p1 = (new_pause o1)\<lparr>ps_id := i\<rparr>" "pw_rows w1 = pw_rows w @ [p1]" by auto
  from store.activate_found_none [OF assms(5)] obtain j where
    j: "j \<noteq> []" "j \<notin> ps_id ` set (pw_rows w1)" "p2 = (new_pause o2)\<lparr>ps_id := j\<rparr>" "pw_rows w2 = pw_rows w1 @ [p2]" by auto
  have act: "is_active (pausable_value sc) p1" "is_active (pausable_value sc) p2" "ps_id p1 \<noteq> ps_id p2"
    using i j assms(2,3) by (auto simp: new_pause_def is_active_def)
  have wf1: "rows_wf (pw_rows w1)" unfolding i(4) using assms(1) i(1-3) by (intro rows_wf_append) simp_all
  have wf2: "rows_wf (pw_rows w2)" unfolding j(4) using wf1 j(1-3) by (intro rows_wf_append) simp_all
  have rows2: "p1 \<in> set (pw_rows w2)" "p2 \<in> set (pw_rows w2)" using i(4) j(4) by simp_all
  from assms(6) wf2 show ?thesis
  proof (cases rule: store.resume_cases)
    case (resumed r now)
    define z where "z = resumed_pause reason actorId actorRole now r"
    have "ps_id z = ps_id r" by (simp add: z_def resumed_pause_def)
    then have "p1 \<in> set (pw_rows w3) \<or> p2 \<in> set (pw_rows w3)"
      using store.kept_by_replace [OF wf2 resumed(1)] rows2 act(3) resumed(4) by (metis z_def)
    then show ?thesis using act by blast
  qed auto
qed

definition head_refused :: faults where
  "head_refused a w = (if a = Save_trail_head then Refuses else Answers)"

lemma head_refused_fails: "isl (fst (record_attempts (store_audit head_refused jb sha dur attempts) change evidence m n w))"
proof (rule attempts_fail)
  have no: "db_saveHead (store_trail jb head_refused dur) h v \<noteq> (Inr (), v')" for h v v'
    by (simp add: store_trail_def trail_faulty_def head_refused_def)
  show "isl (fst (record_change (store_audit head_refused jb sha dur attempts) change evidence n w))" for n w
  proof (rule ccontr)
    assume "\<not> isl (fst (record_change (store_audit head_refused jb sha dur attempts) change evidence n w))"
    then obtain e w' where "record_change (store_audit head_refused jb sha dur attempts) change evidence n w = (Inr e, w')"
      by (cases "record_change (store_audit head_refused jb sha dur attempts) change evidence n w"; cases "fst (record_change (store_audit head_refused jb sha dur attempts) change evidence n w)") auto
    then obtain i where "await_recording (store_audit head_refused jb sha dur attempts) i w = (Inr e, w')"
      by (auto simp: record_change_def split: sum.splits)
    from await_recording_steps [OF this] no show False by (metis store_audit_simps(2))
  qed
qed

lemma head_refused_head:
  "record_attempts (store_audit head_refused jb sha dur attempts) change evidence m n w = (r, w') \<Longrightarrow> aw_head (pw_trail w') = aw_head (pw_trail w)"
proof (rule record_attempts_keeps [of "store_audit head_refused jb sha dur attempts" "\<lambda>w. aw_head (pw_trail w)"])
  show "db_saveEvent (ae_db (store_audit head_refused jb sha dur attempts)) e w = (q, w') \<Longrightarrow> aw_head (pw_trail w') = aw_head (pw_trail w)" for e w q w'
    using trail.event_saved [of jb head_refused dur e w q w'] by simp
  show "db_saveHead (ae_db (store_audit head_refused jb sha dur attempts)) h w = (q, w') \<Longrightarrow> aw_head (pw_trail w') = aw_head (pw_trail w)" for h w q w'
    by (auto simp: store_trail_def trail_faulty_def head_refused_def)
qed simp_all

lemma longer_trail_diverged:
  assumes "trail_sound sha (aw_rows (pw_trail w))" "aw_rows (pw_trail w) = es @ fs" "fs \<noteq> []" "aw_head (pw_trail w) = head_of es"
  shows "trail.diverged w"
proof -
  have "sa_sequence (last (aw_rows (pw_trail w))) = int (length (es @ fs))"
    using assms(1,3) unfolding assms(2) by (cases fs rule: rev_cases) (auto simp: trail_sound_snoc simp flip: append_assoc)
  with assms(2-4) show ?thesis by (cases "es = []") (auto simp: trail.diverged_def head_of_def head_matches_def)
qed

lemma revert_leaves_trail: "leaves_trail (revertActivation (store_env pf tf jb sha dur attempts) scope b)"
  unfolding revertActivation_def by (intro act_intros)

text \<open>The evidence of a pause: what it needs to be recorded.\<close>

lemma snapshot_trip [simp]: "toState (Some (snapshot_json s)) = Inr (Some (snapshot_json s))"
proof -
  have n: "json_trip (js_nullable x) = Inr (Some (js_nullable x))" for x by (cases x) (simp_all add: js_nullable_def)
  show ?thesis by (cases s) (simp_all add: snapshot_json_def map_result_def parsed_def n List.map_filter_simps)
qed

lemma snapshot_short: "short_scalars lm (snapshot_json s)"
proof -
  have n: "short_scalars lm (js_nullable x)" for x by (cases x) (simp_all add: js_nullable_def)
  show ?thesis by (cases s) (simp_all add: snapshot_json_def n)
qed

lemma pause_described: "describeSensitiveAction pause_action = Some (action_def Scope_PROTOCOL_CONFIG ''The emergency pause switch was toggled.'' True True)"
  unfolding pause_action_def by code_simp

lemma pause_known: "isSensitiveAction pause_action"
  unfolding pause_action_def by code_simp

lemma pause_reason_required:
  assumes "ac_action change = pause_action"
  shows "trim (ac_reason change) \<noteq> [] \<Longrightarrow> \<exists>d. recordSensitiveAction (evidence_input change ev n b a) = Read_latest (evidence_input change ev n b a) d"
    and "trim (ac_reason change) = [] \<Longrightarrow> \<exists>x. recordSensitiveAction (evidence_input change ev n b a) = Finished (Inl x)"
  using pause_described pause_known assms
  by (auto simp: recordSensitiveAction_def evidence_input_def trimmed_reason_def action_def_def)

lemma activation_first_record:
  fixes jb sha dur attempts and tf :: faults
  defines "env \<equiv> store_audit tf jb sha dur attempts"
  assumes change: "ac_action change = pause_action" "trim (ac_reason change) \<noteq> []" "list_all (short_scalars DEFAULT_LIMITS) (map snd (ac_metadata change))"
    and evidence: "evidence = \<lparr>ef_status = st, ef_before = Some (snapshot_json x), ef_after = Some (snapshot_json y), ef_outcome = out, ef_error = None\<rparr>"
    and trail: "trail_sound sha (aw_rows (pw_trail w))" "aw_head (pw_trail w) = head_of (aw_rows (pw_trail w))"
    and tf: "\<And>v. tf Read_trail v = Answers" "\<And>v. tf Save_trail v = Answers"
    and run: "record_change env change evidence 1 w = (r, w')"
  shows "aw_rows (pw_trail w') \<noteq> aw_rows (pw_trail w)" "(\<And>v. tf Save_trail_head v = Answers) \<Longrightarrow> \<exists>e. r = Inr e"
proof -
  define es where "es = aw_rows (pw_trail w)"
  define input where "input = evidence_input change evidence 1 (Some (snapshot_json x)) (Some (snapshot_json y))"
  have rec: "await_recording env input w = (r, w')" using run by (simp add: record_change_def evidence input_def)
  obtain d where d: "recordSensitiveAction input = Read_latest input d" using pause_reason_required(1) [OF change(1,2)] unfolding input_def by blast
  have meta: "\<forall>v \<in> snd ` set m. short_scalars DEFAULT_LIMITS v \<Longrightarrow> \<forall>v \<in> snd ` set (map_set k (JStr t) m). short_scalars DEFAULT_LIMITS v" for m :: "(string, js_value) jsmap" and k t
    by (induction m) auto
  have short: "short_scalars DEFAULT_LIMITS (js_state (in_beforeState input))" "short_scalars DEFAULT_LIMITS (js_state (in_afterState input))"
    "short_scalars DEFAULT_LIMITS (js_state (in_metadata input))"
    using snapshot_short meta [of "ac_metadata change" "''outcome''" out] change(3)
    by (auto simp: input_def evidence_input_def evidence js_state_def list_all_iff)
  have reads: "db_latest (ae_db env) w = Inr (if es = [] then None else Some (last es))" "db_head (ae_db env) w = Inr (head_of es)"
    using tf(1) trail(2) by (simp_all add: env_def store_trail_def table_db_def es_def)
  have sound: "trail_sound (ae_sha env) es" using trail(1) by (simp add: env_def es_def)
  obtain event where event: "(resume_call env ^^ 4) (recordSensitiveAction input, w) = resume_call env (resume_call env (Save_event event, w))"
    "sa_sequence event = int (length es) + 1"
    by (rule recording_reaches_writes [OF d reads sound short])
  have "sa_sequence event \<notin> sa_sequence ` set es" using tables.trail_sequences [OF sound] event(2) by auto
  then obtain saved t where save: "table_save jb show_nat event (pw_trail w) = (Inr saved, t)" "length (aw_rows t) = Suc (length es)"
    by (auto simp: table_save_def es_def Let_def)
  define w1 where "w1 = passed dur (w\<lparr>pw_trail := t\<rparr>)"
  have s1: "resume_call env (Save_event event, w) = (Save_head saved, w1)"
    using save(1) tf(2) by (simp add: resume_call_def env_def store_trail_def table_db_def trail_faulty_def w1_def)
  obtain q w2 where q: "db_saveHead (store_trail jb tf dur) \<lparr>ch_sequence = sa_sequence saved, ch_eventHash = sa_eventHash saved, ch_lastEventId = sa_id saved\<rparr> w1 = (q, w2)"
    by fastforce
  have s2: "resume_call env (Save_head saved, w1) = (Finished (case q of Inl e \<Rightarrow> Inl (Database e) | Inr _ \<Rightarrow> Inr saved), w2)"
    using q by (simp add: resume_call_def env_def split: sum.splits)
  have end_: "r = (case q of Inl e \<Rightarrow> Inl (Database e) | Inr _ \<Rightarrow> Inr saved)" "w' = w2"
    using rec event(1) s1 s2 by (simp_all add: await_recording_def)
  have "aw_rows (pw_trail w2) = aw_rows (pw_trail w1)" using trail.head_saved [OF q] by simp
  then have "length (aw_rows (pw_trail w')) = Suc (length es)" using save(2) by (simp add: end_(2) w1_def)
  then show "aw_rows (pw_trail w') \<noteq> aw_rows (pw_trail w)" by (auto simp: es_def)
  show "\<exists>e. r = Inr e" if "\<And>v. tf Save_trail_head v = Answers"
    using q that by (auto simp: end_(1) store_trail_def trail_faulty_def)
qed

text \<open>An activation on answering tables of pauses, up to the recording.\<close>

lemma activation_steps:
  fixes tf jb sha dur attempts
  defines "pe \<equiv> store_env answers tf jb sha dur attempts" and "env \<equiv> store_audit tf jb sha dur attempts"
  assumes may: "may_change (activation_change pe opts)"
  obtains b w1 x w2 a w3 evidence where "ac_snapshot (activation_change pe opts) w = (Inr b, w1)" "ac_apply (activation_change pe opts) w1 = (Inr x, w2)"
    "ac_snapshot (activation_change pe opts) w2 = (Inr a, w3)" "pw_trail w3 = pw_trail w" "pw_rows w3 = pw_rows w2"
    "evidence = \<lparr>ef_status = Sas_succeeded, ef_before = Some (snapshot_json b), ef_after = Some (snapshot_json a), ef_outcome = ''applied'', ef_error = None\<rparr>"
    "activatePause pe opts w = (case recordWithRetry env (activation_change pe opts) evidence w3 of
       (Inr event, w4) \<Rightarrow> (Inr x, w4)
     | (Inl e, w4) \<Rightarrow> (case ac_revert (activation_change pe opts) b w4 of (Inl e', w5) \<Rightarrow> (Inl not_rolled_back, w5) | (Inr _, w5) \<Rightarrow> (Inl rolled_back, w5)))"
proof -
  let ?c = "activation_change pe opts"
  have c: "ac_snapshot ?c = snapshotActive pe (pausable_value (ap_scope opts)) None" "ac_apply ?c = applyActivatePause pe opts" "ac_json ?c = snapshot_json"
    by (simp_all add: activation_change_def)
  have ans: "always_returns (ac_snapshot ?c)" "always_returns (ac_apply ?c)" unfolding c unfolding pe_def by (rule pause_acts_return)+
  have lt: "leaves_trail (ac_snapshot ?c)" "leaves_trail (ac_apply ?c)" unfolding c unfolding pe_def by (rule pause_acts)+
  obtain b w1 where b: "ac_snapshot ?c w = (Inr b, w1)" using always_returnsE [OF ans(1)] by blast
  obtain x w2 where x: "ac_apply ?c w1 = (Inr x, w2)" using always_returnsE [OF ans(2)] by blast
  obtain a w3 where a: "ac_snapshot ?c w2 = (Inr a, w3)" using always_returnsE [OF ans(1)] by blast
  have t3: "pw_trail w3 = pw_trail w"
    using leaves_trailD [OF lt(1) b] leaves_trailD [OF lt(2) x] leaves_trailD [OF lt(1) a] by simp
  have r3: "pw_rows w3 = pw_rows w2" by (rule store.snapshot_rows [OF a [unfolded c, unfolded pe_def]])
  have "activatePause pe opts w = applyWithEvidence env ?c w" by (simp add: activatePause_def pe_def env_def)
  then show thesis using may b x a by (intro that [OF b x a t3 r3 refl]) (simp add: applyWithEvidence_def c(3))
qed

lemma activation_change_simps [simp]:
  "ac_action (activation_change pe opts) = pause_action" "ac_reason (activation_change pe opts) = ap_reason opts"
  "ac_revert (activation_change pe opts) = revertActivation pe (pausable_value (ap_scope opts))"
  "list_all (short_scalars lm) (map snd (ac_metadata (activation_change pe opts)))"
  by (cases "ap_environment opts"; simp add: activation_change_def js_nullable_def)+

lemma admin_iff: "may_change (activation_change pe opts) \<longleftrightarrow> ap_actorId opts \<noteq> [] \<and> toUpperCase (ap_actorRole opts) = ''ADMIN''"
  by (auto simp: may_change_def activation_change_def)

lemma attempts_positive: "\<exists>m. nat (ae_maxAttempts (store_audit tf jb sha dur attempts)) = Suc m"
  by (simp add: store_audit_def admin_env_of_def gr0_conv_Suc [symmetric] split: option.splits)

lemma admin_activates:
  assumes "trail_sound sha (aw_rows (pw_trail w))" "aw_head (pw_trail w) = head_of (aw_rows (pw_trail w))"
    and "ap_actorId opts \<noteq> []" "toUpperCase (ap_actorRole opts) = ''ADMIN''" "trim (ap_reason opts) \<noteq> []"
  shows "\<exists>p w'. activatePause (store_env answers answers jb sha dur attempts) opts w = (Inr p, w')"
proof -
  let ?pe = "store_env answers answers jb sha dur attempts"
  let ?env = "store_audit answers jb sha dur attempts"
  let ?c = "activation_change ?pe opts"
  have may: "may_change ?c" using assms(3,4) by (simp add: admin_iff)
  obtain b w1 x w2 a w3 evidence where s: "pw_trail w3 = pw_trail w"
    "evidence = \<lparr>ef_status = Sas_succeeded, ef_before = Some (snapshot_json b), ef_after = Some (snapshot_json a), ef_outcome = ''applied'', ef_error = None\<rparr>"
    "activatePause ?pe opts w = (case recordWithRetry ?env ?c evidence w3 of (Inr event, w4) \<Rightarrow> (Inr x, w4)
     | (Inl e, w4) \<Rightarrow> (case ac_revert ?c b w4 of (Inl e', w5) \<Rightarrow> (Inl not_rolled_back, w5) | (Inr _, w5) \<Rightarrow> (Inl rolled_back, w5)))"
    by (rule activation_steps [OF may, of w]) blast
  obtain m where m: "nat (ae_maxAttempts ?env) = Suc m" using attempts_positive by blast
  obtain q w4 where q: "record_change ?env ?c evidence 1 w3 = (q, w4)" by fastforce
  have "\<exists>e. q = Inr e"
    using s(1) assms by (intro activation_first_record(2) [OF _ _ _ s(2) _ _ _ _ q]) (simp_all add: answers_def)
  then obtain e where "q = Inr e" by blast
  then have "activatePause ?pe opts w = (Inr x, w4)" using s(3) q m by (simp add: recordWithRetry_def)
  then show ?thesis by blast
qed

lemma stranger_refused:
  "\<not> may_change (activation_change (store_env pf tf jb sha dur attempts) opts) \<Longrightarrow>
    activatePause (store_env pf tf jb sha dur attempts) opts w \<noteq> (Inr p, w')"
  by (simp add: activatePause_def applyWithEvidence_def)

lemma blank_reason_refused:
  assumes "trim (ap_reason opts) = []"
  shows "activatePause (store_env answers tf jb sha dur attempts) opts w \<noteq> (Inr p, w')"
proof (cases "may_change (activation_change (store_env answers tf jb sha dur attempts) opts)")
  case False
  then show ?thesis by (rule stranger_refused)
next
  case True
  let ?pe = "store_env answers tf jb sha dur attempts"
  let ?env = "store_audit tf jb sha dur attempts"
  let ?c = "activation_change ?pe opts"
  obtain b w1 x w2 a w3 evidence where s:
    "evidence = \<lparr>ef_status = Sas_succeeded, ef_before = Some (snapshot_json b), ef_after = Some (snapshot_json a), ef_outcome = ''applied'', ef_error = None\<rparr>"
    "activatePause ?pe opts w = (case recordWithRetry ?env ?c evidence w3 of (Inr event, w4) \<Rightarrow> (Inr x, w4)
     | (Inl e, w4) \<Rightarrow> (case ac_revert ?c b w4 of (Inl e', w5) \<Rightarrow> (Inl not_rolled_back, w5) | (Inr _, w5) \<Rightarrow> (Inl rolled_back, w5)))"
    by (rule activation_steps [OF True, of w]) blast
  have "isl (fst (record_change ?env ?c evidence n v))" for n v
  proof -
    from pause_reason_required(2) [of ?c evidence n "Some (snapshot_json b)" "Some (snapshot_json a)"] assms
    obtain y where "recordSensitiveAction (evidence_input ?c evidence n (Some (snapshot_json b)) (Some (snapshot_json a))) = Finished (Inl y)" by auto
    then show ?thesis by (simp add: record_change_def s(1) await_recording_def resume_four)
  qed
  then have "isl (fst (recordWithRetry ?env ?c evidence w3))" unfolding recordWithRetry_def by (rule attempts_fail)
  then show ?thesis unfolding s(2) by (cases "recordWithRetry ?env ?c evidence w3") (auto split: prod.splits sum.splits)
qed

text \<open>
  When everything answers and the trail verifies, an activation returns exactly for a named
  administrator who gives a reason that is not blank.
\<close>

theorem activation_returns_iff:
  assumes "trail_sound sha (aw_rows (pw_trail w))" "aw_head (pw_trail w) = head_of (aw_rows (pw_trail w))"
  shows "(\<exists>p w'. activatePause (store_env answers answers jb sha dur attempts) opts w = (Inr p, w')) \<longleftrightarrow>
    ap_actorId opts \<noteq> [] \<and> toUpperCase (ap_actorRole opts) = ''ADMIN'' \<and> trim (ap_reason opts) \<noteq> []"
  using admin_activates [OF assms, of opts jb dur attempts] blank_reason_refused [of opts answers jb sha dur attempts w]
    stranger_refused [of answers answers jb sha dur attempts opts w, unfolded admin_iff] by metis

text \<open>
  Evidence of a change that was rolled back can stand.  Where the trail stores the event and refuses
  the head, the activation of an administrator with a reason throws and is undone, but the trail has gained
  events that say the change was applied, and no others; and from then on nothing can be recorded
  to correct them, whatever the tables answer.
\<close>

theorem rolled_back_evidence_stands:
  assumes "rows_ok (pw_rows w)" "trail_sound sha (aw_rows (pw_trail w))" "\<forall>v. json_stringify (jb v) = json_stringify v"
    and "aw_head (pw_trail w) = head_of (aw_rows (pw_trail w))"
    and "ap_actorId opts \<noteq> []" "toUpperCase (ap_actorRole opts) = ''ADMIN''" "trim (ap_reason opts) \<noteq> []"
  shows "\<exists>w' fs. activatePause (store_env answers head_refused jb sha dur attempts) opts w = (Inl rolled_back, w') \<and>
    in_force (pw_rows w') = in_force (pw_rows w) \<and>
    fs \<noteq> [] \<and> aw_rows (pw_trail w') = aw_rows (pw_trail w) @ fs \<and> (\<forall>f \<in> set fs. sa_status f = Sas_succeeded) \<and>
    (\<forall>tf input. \<exists>x. await_recording (store_audit tf jb sha dur attempts) input w' = (Inl x, w'))"
proof -
  let ?pe = "store_env answers head_refused jb sha dur attempts"
  let ?env = "store_audit head_refused jb sha dur attempts"
  let ?c = "activation_change ?pe opts"
  have may: "may_change ?c" using assms(5,6) by (simp add: admin_iff)
  obtain b w1 x w2 a w3 evidence where s: "ac_snapshot ?c w = (Inr b, w1)" "ac_apply ?c w1 = (Inr x, w2)" "pw_trail w3 = pw_trail w" "pw_rows w3 = pw_rows w2"
    "evidence = \<lparr>ef_status = Sas_succeeded, ef_before = Some (snapshot_json b), ef_after = Some (snapshot_json a), ef_outcome = ''applied'', ef_error = None\<rparr>"
    "activatePause ?pe opts w = (case recordWithRetry ?env ?c evidence w3 of (Inr event, w4) \<Rightarrow> (Inr x, w4)
     | (Inl e, w4) \<Rightarrow> (case ac_revert ?c b w4 of (Inl e', w5) \<Rightarrow> (Inl not_rolled_back, w5) | (Inr _, w5) \<Rightarrow> (Inl rolled_back, w5)))"
    by (rule activation_steps [OF may, of w]) blast
  obtain e w4 where e: "recordWithRetry ?env ?c evidence w3 = (Inl e, w4)"
    using head_refused_fails unfolding recordWithRetry_def by (metis fst_conv isl_def surj_pair)
  have "always_returns (ac_revert ?c b)" by (simp add: pause_acts_return)
  then obtain u w' where "ac_revert ?c b w4 = (Inr u, w')" using always_returnsE by blast
  then have w': "ac_revert ?c b w4 = (Inr (), w')" by simp
  have run: "activatePause ?pe opts w = (Inl rolled_back, w')" using s(6) e w' by simp
  have t: "pw_trail w' = pw_trail w4" by (rule leaves_trailD [OF revert_leaves_trail w' [unfolded activation_change_simps]])
  have sound: "trail_sound sha (aw_rows (pw_trail w3))" "aw_head (pw_trail w3) = head_of (aw_rows (pw_trail w3))" using assms(2,4) s(3) by simp_all
  note app = trail.record_attempts_appends [OF trip_text [OF assms(3)] store_audit_simps(2,3)]
  obtain m where m: "nat (ae_maxAttempts ?env) = Suc m" using attempts_positive by blast
  obtain q v where q: "record_change ?env ?c evidence 1 w3 = (q, v)" by fastforce
  have grown: "aw_rows (pw_trail v) \<noteq> aw_rows (pw_trail w3)"
    using assms(7) by (intro activation_first_record(1) [OF _ _ _ s(5) sound _ _ q]) (simp_all add: head_refused_def)
  from trail.record_change_appends [OF trip_text [OF assms(3)] store_audit_simps(2,3) sound(1) q]
  obtain gs where gs: "trail_sound sha (aw_rows (pw_trail v))" "aw_rows (pw_trail v) = aw_rows (pw_trail w3) @ gs" "\<forall>f \<in> set gs. sa_status f = Sas_succeeded"
    by (auto simp: s(5))
  define v' where "v' = (if m = 0 then v else if ae_baseDelayMs ?env > 0 then ae_delay ?env (ae_baseDelayMs ?env * 2 ^ 0) v else v)"
  have "q \<noteq> Inr y" for y using head_refused_fails [of jb sha dur attempts ?c evidence "Suc 0" 1 w3] q by auto
  then have rest: "w4 = v \<or> record_attempts ?env ?c evidence m (Suc 1) v' = (Inl e, w4)"
    using e m q by (cases q) (auto simp: recordWithRetry_def v'_def split: if_splits)
  have v': "pw_trail v' = pw_trail v" by (simp add: v'_def)
  have "\<exists>hs. trail_sound sha (aw_rows (pw_trail w4)) \<and> aw_rows (pw_trail w4) = aw_rows (pw_trail v) @ hs \<and> (\<forall>f \<in> set hs. sa_status f = Sas_succeeded)"
    using rest
  proof
    assume "record_attempts ?env ?c evidence m (Suc 1) v' = (Inl e, w4)"
    from app [OF _ _ this] gs(1) v' show ?thesis by (auto simp: s(5))
  qed (use gs(1) in auto)
  then obtain hs where "trail_sound sha (aw_rows (pw_trail w4))" "aw_rows (pw_trail w4) = aw_rows (pw_trail v) @ hs"
    "\<forall>f \<in> set hs. sa_status f = Sas_succeeded" by blast
  with gs s(3) t have hs: "trail_sound sha (aw_rows (pw_trail w'))" "aw_rows (pw_trail w') = aw_rows (pw_trail w) @ (gs @ hs)"
    "\<forall>f \<in> set (gs @ hs). sa_status f = Sas_succeeded" by (simp_all add: ball_Un)
  have ne: "gs @ hs \<noteq> []" using grown gs(2) by auto
  have "aw_head (pw_trail w') = head_of (aw_rows (pw_trail w))"
    using head_refused_head [OF e [unfolded recordWithRetry_def]] s(3) t assms(4) by simp
  then have div: "trail.diverged w'" by (rule longer_trail_diverged [OF hs(1,2) ne])
  have refused: "\<exists>x. await_recording (store_audit tf jb sha dur attempts) input w' = (Inl x, w')" for tf input
    by (rule trail.diverged_refuses [OF div store_audit_simps(2)])
  have "in_force (pw_rows w') = in_force (pw_rows w)"
    using activation.undone [OF assms(1) s(1,2) _ w'] activation.retry_tbl [OF e] s(4) by simp
  with run hs(2,3) ne refused show ?thesis by blast
qed

section \<open>Samples\<close>

definition sample_pause :: PauseScope where
  "sample_pause = \<lparr>ps_id = ''p'', ps_scope = ''trading'', ps_active = True, ps_reason = ''old'', ps_activatedBy = ''a'',
     ps_activatedByRole = None, ps_resumedBy = None, ps_resumedByRole = None, ps_resumeReason = None, ps_environment = None,
     ps_expiresAt = Some 5, ps_resumedAt = None\<rparr>"

definition sample_opts :: ActivatePauseOpts where
  "sample_opts = \<lparr>ap_scope = Ps_TRADING, ap_reason = ''r'', ap_actorId = ''a'', ap_actorRole = ''admin'', ap_environment = None,
     ap_expiresAt = Some 99, ap_ipAddress = None, ap_userAgent = None\<rparr>"

definition sample_world :: "PauseScope list \<Rightarrow> pause_world" where
  "sample_world rs = \<lparr>pw_rows = rs, pw_logs = [], pw_emitted = [], pw_now = 9, pw_trail = \<lparr>aw_rows = [], aw_head = None\<rparr>, pw_count = 0\<rparr>"

definition sample_env :: "faults \<Rightarrow> faults \<Rightarrow> pause_world pause_env" where
  "sample_env pf tf = store_env pf tf (\<lambda>v. v) (\<lambda>s. ''h'') (\<lambda>w. 1) (Some 1)"

lemma sample_rows_ok: "rows_ok (pw_rows (sample_world []))" "rows_ok (pw_rows (sample_world [sample_pause]))"
  by (simp_all add: rows_ok_def rows_wf_def sample_world_def sample_pause_def)

lemma sample_trail: "trail_sound sha (aw_rows (pw_trail (sample_world rs)))" "aw_head (pw_trail (sample_world rs)) = head_of (aw_rows (pw_trail (sample_world rs)))"
  by (simp_all add: sample_world_def head_of_def)

lemma returned_case: "(case m of (Inl e, w) \<Rightarrow> False | (Inr x, w) \<Rightarrow> P x w) \<longleftrightarrow> (\<exists>x w. m = (Inr x, w) \<and> P x w)"
  by (auto split: prod.splits sum.splits)

lemma sample_admin: "ap_actorId sample_opts \<noteq> []" "toUpperCase (ap_actorRole sample_opts) = ''ADMIN''" "trim (ap_reason sample_opts) \<noteq> []"
  by code_simp+

lemma sample_activates:
  "\<exists>p w'. activatePause (sample_env answers answers) sample_opts (sample_world rs) = (Inr p, w')"
  unfolding sample_env_def by (intro admin_activates sample_trail sample_admin)


theorem activation_returns_iff_witness:
  "(\<exists>p w'. activatePause (sample_env answers answers) sample_opts (sample_world []) = (Inr p, w')) \<and>
   \<not> (\<exists>p w'. activatePause (sample_env answers answers) (sample_opts\<lparr>ap_reason := '' ''\<rparr>) (sample_world []) = (Inr p, w'))"
proof -
  have iff: "(\<exists>p w'. activatePause (sample_env answers answers) opts (sample_world []) = (Inr p, w')) \<longleftrightarrow>
    ap_actorId opts \<noteq> [] \<and> toUpperCase (ap_actorRole opts) = ''ADMIN'' \<and> trim (ap_reason opts) \<noteq> []" for opts
    unfolding sample_env_def by (rule activation_returns_iff [OF sample_trail])
  have "trim (ap_reason (sample_opts\<lparr>ap_reason := '' ''\<rparr>)) = []" by code_simp
  with iff [of sample_opts] iff [of "sample_opts\<lparr>ap_reason := '' ''\<rparr>"] sample_admin show ?thesis by simp
qed

theorem resumption_leaves_evidence_witness:
  "\<exists>r w'. resumePause (sample_env answers answers) Ps_TRADING ''r'' ''a'' ''ADMIN'' None None (sample_world [sample_pause]) = (r, w') \<and>
    (\<forall>p. r = Inr (Some p) \<longrightarrow> (\<forall>q \<in> set (pw_rows w'). \<not> is_active ''trading'' q)) \<and> r \<noteq> Inr None \<and>
    (\<forall>e. r = Inl e \<longrightarrow> in_force (pw_rows w') = [sample_pause])"
proof -
  obtain r w' where run: "resumePause (sample_env answers answers) Ps_TRADING ''r'' ''a'' ''ADMIN'' None None (sample_world [sample_pause]) = (r, w')"
    by fastforce
  have act: "is_active ''trading'' sample_pause" by (simp add: is_active_def sample_pause_def)
  have force: "in_force [sample_pause] = [sample_pause]" by (simp add: in_force_def sample_pause_def)
  from resumption_leaves_evidence [OF sample_rows_ok(2) sample_trail(1) _ run [unfolded sample_env_def]] run act
  show ?thesis by (auto simp: sample_world_def force)
qed


theorem one_active_pause_per_scope_witness:
  "rows_ok (pw_rows (run (pause_do (sample_env log_refused answers)) [Call_check ''trading'', Call_activate sample_opts, Call_activate sample_opts, Call_list]
     (sample_world [sample_pause])))"
  unfolding sample_env_def by (rule one_active_pause_per_scope [OF sample_rows_ok(2)])


theorem rolled_back_evidence_stands_witness:
  "\<exists>w'. activatePause (sample_env answers head_refused) sample_opts (sample_world []) = (Inl rolled_back, w') \<and>
    in_force (pw_rows w') = [] \<and> (\<exists>e \<in> set (aw_rows (pw_trail w')). sa_status e = Sas_succeeded)"
proof -
  from rolled_back_evidence_stands [OF sample_rows_ok(1) sample_trail(1) _ sample_trail(2) sample_admin, where jb = "\<lambda>v. v" and dur = "\<lambda>w. 1" and attempts = "Some 1" and sha = "\<lambda>s. ''h''"]
  show ?thesis unfolding sample_env_def by (fastforce simp: sample_world_def in_force_def neq_Nil_conv)
qed

text \<open>A renewal between the search of a check and its write.\<close>

theorem late_check_ends_renewed_pause_witness:
  "\<exists>ps w1 q w2 r w3. pd_find (pe_db (sample_env answers answers)) (pause_query ''trading'') (sample_world [sample_pause]) = (Inr ps, w1) \<and>
    applyActivatePause (sample_env answers answers) sample_opts w1 = (Inr q, w2) \<and>
    check_pauses (sample_env answers answers) ps w2 = (Inr r, w3) \<and>
    ps_expiresAt q = Some 99 \<and> pw_now w3 < 99 \<and> (\<forall>u \<in> set (pw_rows w3). \<not> is_active ''trading'' u)"
proof -
  let ?pe = "sample_env answers answers"
  have sc: "pausable_value (ap_scope sample_opts) = ''trading''" by (simp add: sample_opts_def)
  have "case pd_find (pe_db ?pe) (pause_query ''trading'') (sample_world [sample_pause]) of (Inl e, w1) \<Rightarrow> False | (Inr ps, w1) \<Rightarrow>
    (case applyActivatePause ?pe sample_opts w1 of (Inl e, w2) \<Rightarrow> False | (Inr q, w2) \<Rightarrow>
      (case check_pauses ?pe ps w2 of (Inl e, w3) \<Rightarrow> False | (Inr r, w3) \<Rightarrow> pw_now w3 < 99))"
    by code_simp
  then obtain ps w1 q w2 r w3 where f: "pd_find (pe_db ?pe) (pause_query ''trading'') (sample_world [sample_pause]) = (Inr ps, w1)"
    and a: "applyActivatePause ?pe sample_opts w1 = (Inr q, w2)" and c: "check_pauses ?pe ps w2 = (Inr r, w3)" and now: "pw_now w3 < 99"
    unfolding returned_case by blast
  have "\<forall>p \<in> set (pw_rows (sample_world [sample_pause])). pause_query ''trading'' p \<longrightarrow> has_expired (pw_now (sample_world [sample_pause])) p"
    "sample_pause \<in> set (pw_rows (sample_world [sample_pause]))" "is_active ''trading'' sample_pause"
    by (simp_all add: sample_world_def sample_pause_def has_expired_def is_active_def)
  from late_check_ends_renewed_pause [OF sample_rows_ok(2), of sample_pause sample_opts, unfolded sc, OF this(2,3,1)
      f [unfolded sample_env_def] a [unfolded sample_env_def] c [unfolded sample_env_def]]
  show ?thesis using f a c now by (auto simp: sample_opts_def)
qed

theorem concurrent_activations_double_witness:
  "\<exists>p1 w1 p2 w2 q w3. activate_found (sample_env answers answers) sample_opts None (sample_world []) = (Inr p1, w1) \<and>
    activate_found (sample_env answers answers) sample_opts None w1 = (Inr p2, w2) \<and>
    applyResumePause (sample_env answers answers) ''trading'' ''r'' ''a'' ''ADMIN'' w2 = (Inr (Some q), w3) \<and>
    (\<exists>p \<in> set (pw_rows w3). is_active ''trading'' p)"
proof -
  let ?pe = "sample_env answers answers"
  have "case activate_found ?pe sample_opts None (sample_world []) of (Inl e, w1) \<Rightarrow> False | (Inr p1, w1) \<Rightarrow>
    (case activate_found ?pe sample_opts None w1 of (Inl e, w2) \<Rightarrow> False | (Inr p2, w2) \<Rightarrow>
      (case applyResumePause ?pe ''trading'' ''r'' ''a'' ''ADMIN'' w2 of (Inl e, w3) \<Rightarrow> False | (Inr q, w3) \<Rightarrow> q \<noteq> None))"
    by code_simp
  then obtain p1 w1 p2 w2 q w3 where a: "activate_found ?pe sample_opts None (sample_world []) = (Inr p1, w1)"
    "activate_found ?pe sample_opts None w1 = (Inr p2, w2)" "applyResumePause ?pe ''trading'' ''r'' ''a'' ''ADMIN'' w2 = (Inr (Some q), w3)"
    unfolding returned_case by blast
  have sc: "pausable_value (ap_scope sample_opts) = ''trading''" "rows_wf (pw_rows (sample_world []))"
    by (simp_all add: sample_opts_def sample_world_def rows_wf_def)
  from concurrent_activations_double [OF sc(2) refl refl a(1,2) [unfolded sample_env_def], unfolded sc(1), OF a(3) [unfolded sample_env_def]] a
  show ?thesis by blast
qed

end
