(* ===== verification/Ownership_Transfer.thy ===== *)
theory Ownership_Transfer
  imports Trellis_Prelude Complex_Main
begin

text \<open>
  Two-step transfers of ownership, \<open>src/core/ownership/ownership-transfer.service.ts\<close> and the handlers of
  \<open>ownership-transfer.controller.ts\<close>.  The service keeps transfers in a repository or, without one, in a map in
  memory.  Both are a record of actions on a world, the argument of the service; the locale \<open>transfer_rows\<close>
  has the laws it relies on, and the map in memory, which is code of the service, is an interpretation.
  The clock and the new id are arguments.  Log lines are left out.
\<close>

section \<open>Data\<close>

datatype OwnershipTransferStatus = Ot_PENDING | Ot_ACCEPTED | Ot_CANCELLED | Ot_EXPIRED | Ot_REJECTED

fun transfer_status_value :: "OwnershipTransferStatus \<Rightarrow> string" where
  "transfer_status_value Ot_PENDING = ''PENDING''"
| "transfer_status_value Ot_ACCEPTED = ''ACCEPTED''"
| "transfer_status_value Ot_CANCELLED = ''CANCELLED''"
| "transfer_status_value Ot_EXPIRED = ''EXPIRED''"
| "transfer_status_value Ot_REJECTED = ''REJECTED''"

text \<open>\<open>expiresAt\<close> is \<open>None\<close> where the time is out of the range of a \<open>Date\<close>: an invalid date, whose \<open>getTime\<close> is \<open>NaN\<close>.\<close>

record OwnershipTransfer =
  ot_id :: string
  ot_resourceType :: string
  ot_resourceId :: string
  ot_currentOwnerId :: string
  ot_proposedOwnerId :: string
  ot_status :: OwnershipTransferStatus
  ot_expiresAt :: "int option"
  ot_acceptedAt :: "int option"
  ot_cancelledAt :: "int option"
  ot_cancellationReason :: "string option"
  ot_rejectedAt :: "int option"
  ot_rejectionReason :: "string option"
  ot_createdAt :: int
  ot_updatedAt :: int

record InitiateTransferDto =
  it_resourceType :: string
  it_resourceId :: string
  it_currentOwnerId :: string
  it_proposedOwnerId :: string
  it_expiresInHours :: "rat option"

datatype transfer_error =
    Transfer_bad_request string
  | Transfer_conflict string
  | Transfer_forbidden string
  | Transfer_not_found string
  | Transfer_store_error

type_synonym ('w, 'a) transfer_act = "'w \<Rightarrow> (transfer_error, 'a) result \<times> 'w"

definition transfer_then :: "('w, 'a) transfer_act \<Rightarrow> ('a \<Rightarrow> ('w, 'b) transfer_act) \<Rightarrow> ('w, 'b) transfer_act" where
  "transfer_then m f w = (case m w of (Inl e, w1) \<Rightarrow> (Inl e, w1) | (Inr x, w1) \<Rightarrow> f x w1)"

definition throws :: "transfer_error \<Rightarrow> ('w, 'a) transfer_act" where
  "throws e w = (Inl e, w)"

record 'w transfer_store =
  ts_findOne :: "string \<Rightarrow> ('w, OwnershipTransfer option) transfer_act"
  ts_findPending :: "string \<Rightarrow> string \<Rightarrow> ('w, OwnershipTransfer option) transfer_act"
  ts_find :: "('w, OwnershipTransfer list) transfer_act"
  ts_save :: "OwnershipTransfer \<Rightarrow> ('w, OwnershipTransfer) transfer_act"

section \<open>The map in memory\<close>

type_synonym transfer_map = "(string, OwnershipTransfer) jsmap"

definition pending_for :: "string \<Rightarrow> string \<Rightarrow> OwnershipTransfer \<Rightarrow> bool" where
  "pending_for resourceType resourceId t \<longleftrightarrow>
     ot_resourceType t = resourceType \<and> ot_resourceId t = resourceId \<and> ot_status t = Ot_PENDING"

definition memory_store :: "transfer_map transfer_store" where
  "memory_store =
     \<lparr>ts_findOne = (\<lambda>i m. (Inr (map_get m i), m)),
      ts_findPending = (\<lambda>rt ri m. (Inr (find (pending_for rt ri) (map snd m)), m)),
      ts_find = (\<lambda>m. (Inr (map snd m), m)),
      ts_save = (\<lambda>t m. (Inr t, map_set (ot_id t) t m))\<rparr>"

section \<open>The service\<close>

definition transfer_expired :: "int \<Rightarrow> OwnershipTransfer \<Rightarrow> bool" where
  "transfer_expired now t \<longleftrightarrow> (case ot_expiresAt t of None \<Rightarrow> False | Some e \<Rightarrow> e \<le> now)"

definition getTransferById :: "'w transfer_store \<Rightarrow> string \<Rightarrow> ('w, OwnershipTransfer) transfer_act" where
  "getTransferById st i =
     transfer_then (ts_findOne st i) (\<lambda>found w.
       case found of
         None \<Rightarrow> (Inl (Transfer_not_found (''Ownership transfer '' @ [CHR 0x27] @ i @ [CHR 0x27] @ '' not found.'')), w)
       | Some t \<Rightarrow> (Inr t, w))"

definition max_date :: int where
  "max_date = 8640000000000000"

definition expiry_of :: "int \<Rightarrow> rat option \<Rightarrow> int option" where
  "expiry_of now hours =
     (let e = of_int now + (case hours of None \<Rightarrow> 72 | Some h \<Rightarrow> if h > 0 then h else 72) * 60 * 60 * 1000
      in if e \<le> of_int max_date then Some \<lfloor>e\<rfloor> else None)"

definition new_transfer :: "string \<Rightarrow> int \<Rightarrow> InitiateTransferDto \<Rightarrow> OwnershipTransfer" where
  "new_transfer i now dto =
     \<lparr>ot_id = i, ot_resourceType = it_resourceType dto, ot_resourceId = it_resourceId dto,
      ot_currentOwnerId = it_currentOwnerId dto, ot_proposedOwnerId = it_proposedOwnerId dto, ot_status = Ot_PENDING,
      ot_expiresAt = expiry_of now (it_expiresInHours dto), ot_acceptedAt = None, ot_cancelledAt = None,
      ot_cancellationReason = None, ot_rejectedAt = None, ot_rejectionReason = None, ot_createdAt = now, ot_updatedAt = now\<rparr>"

definition initiateTransfer :: "'w transfer_store \<Rightarrow> string \<Rightarrow> int \<Rightarrow> InitiateTransferDto \<Rightarrow> ('w, OwnershipTransfer) transfer_act" where
  "initiateTransfer st new_id now dto =
     (if it_currentOwnerId dto = it_proposedOwnerId dto then throws (Transfer_bad_request ''Cannot transfer ownership to yourself.'')
      else if it_resourceType dto = [] \<or> it_resourceId dto = [] then throws (Transfer_bad_request ''resourceType and resourceId are required.'')
      else transfer_then (ts_findPending st (it_resourceType dto) (it_resourceId dto)) (\<lambda>existing.
        if (case existing of None \<Rightarrow> False | Some t \<Rightarrow> \<not> transfer_expired now t)
        then throws (Transfer_conflict (''A pending ownership transfer already exists for '' @ it_resourceType dto @ '':'' @ it_resourceId dto))
        else ts_save st (new_transfer new_id now dto)))"

definition acceptTransfer :: "'w transfer_store \<Rightarrow> int \<Rightarrow> string \<Rightarrow> string \<Rightarrow> ('w, OwnershipTransfer) transfer_act" where
  "acceptTransfer st now transferId actorId =
     transfer_then (getTransferById st transferId) (\<lambda>t.
       if transfer_expired now t
       then transfer_then (ts_save st (t\<lparr>ot_status := Ot_EXPIRED\<rparr>)) (\<lambda>_. throws (Transfer_bad_request ''Ownership transfer request has expired.''))
       else if ot_status t \<noteq> Ot_PENDING
       then throws (Transfer_bad_request (''Cannot accept transfer with status '' @ [CHR 0x27] @ transfer_status_value (ot_status t) @ [CHR 0x27] @ ''. Only PENDING transfers can be accepted.''))
       else if ot_proposedOwnerId t \<noteq> actorId
       then throws (Transfer_forbidden ''Only the proposed owner is authorized to accept this transfer.'')
       else ts_save st (t\<lparr>ot_status := Ot_ACCEPTED, ot_acceptedAt := Some now, ot_updatedAt := now\<rparr>))"

definition cancelTransfer :: "'w transfer_store \<Rightarrow> int \<Rightarrow> string \<Rightarrow> string \<Rightarrow> string option \<Rightarrow> ('w, OwnershipTransfer) transfer_act" where
  "cancelTransfer st now transferId actorId reason =
     transfer_then (getTransferById st transferId) (\<lambda>t.
       if ot_status t \<noteq> Ot_PENDING
       then throws (Transfer_bad_request (''Cannot cancel transfer with status '' @ [CHR 0x27] @ transfer_status_value (ot_status t) @ [CHR 0x27] @ ''.''))
       else if ot_currentOwnerId t \<noteq> actorId
       then throws (Transfer_forbidden ''Only the current owner is authorized to cancel this transfer.'')
       else ts_save st (t\<lparr>ot_status := Ot_CANCELLED, ot_cancelledAt := Some now,
         ot_cancellationReason := Some (case reason of None \<Rightarrow> ''Cancelled by initiator'' | Some r \<Rightarrow> r), ot_updatedAt := now\<rparr>))"

definition rejectTransfer :: "'w transfer_store \<Rightarrow> int \<Rightarrow> string \<Rightarrow> string \<Rightarrow> string option \<Rightarrow> ('w, OwnershipTransfer) transfer_act" where
  "rejectTransfer st now transferId actorId reason =
     transfer_then (getTransferById st transferId) (\<lambda>t.
       if ot_status t \<noteq> Ot_PENDING
       then throws (Transfer_bad_request (''Cannot reject transfer with status '' @ [CHR 0x27] @ transfer_status_value (ot_status t) @ [CHR 0x27] @ ''.''))
       else if ot_proposedOwnerId t \<noteq> actorId
       then throws (Transfer_forbidden ''Only the proposed owner is authorized to reject this transfer.'')
       else ts_save st (t\<lparr>ot_status := Ot_REJECTED, ot_rejectedAt := Some now,
         ot_rejectionReason := Some (case reason of None \<Rightarrow> ''Rejected by proposed owner'' | Some r \<Rightarrow> r), ot_updatedAt := now\<rparr>))"

definition refresh_transfer :: "'w transfer_store \<Rightarrow> int \<Rightarrow> OwnershipTransfer \<Rightarrow> ('w, OwnershipTransfer) transfer_act" where
  "refresh_transfer st now t w =
     (if ot_status t = Ot_PENDING \<and> transfer_expired now t then ts_save st (t\<lparr>ot_status := Ot_EXPIRED\<rparr>) w else (Inr t, w))"

definition getTransfer :: "'w transfer_store \<Rightarrow> int \<Rightarrow> string \<Rightarrow> ('w, OwnershipTransfer) transfer_act" where
  "getTransfer st now transferId = transfer_then (getTransferById st transferId) (refresh_transfer st now)"

fun refresh_all :: "'w transfer_store \<Rightarrow> int \<Rightarrow> OwnershipTransfer list \<Rightarrow> ('w, OwnershipTransfer list) transfer_act" where
  "refresh_all st now [] w = (Inr [], w)"
| "refresh_all st now (t # ts) w =
     (let t' = (if ot_status t = Ot_PENDING \<and> transfer_expired now t then t\<lparr>ot_status := Ot_EXPIRED\<rparr> else t)
      in transfer_then (refresh_transfer st now t) (\<lambda>_. transfer_then (refresh_all st now ts) (\<lambda>rest w1. (Inr (t' # rest), w1))) w)"

datatype direction = Incoming | Outgoing | All_directions

fun concerns :: "string \<Rightarrow> direction \<Rightarrow> OwnershipTransfer \<Rightarrow> bool" where
  "concerns userId Incoming t = (ot_proposedOwnerId t = userId)"
| "concerns userId Outgoing t = (ot_currentOwnerId t = userId)"
| "concerns userId All_directions t = (ot_currentOwnerId t = userId \<or> ot_proposedOwnerId t = userId)"

definition listTransfers :: "'w transfer_store \<Rightarrow> int \<Rightarrow> string \<Rightarrow> direction \<Rightarrow> ('w, OwnershipTransfer list) transfer_act" where
  "listTransfers st now userId dir =
     transfer_then (ts_find st) (\<lambda>ts. transfer_then (refresh_all st now ts) (\<lambda>ts' w. (Inr (filter (concerns userId dir) ts'), w)))"

section \<open>The handlers\<close>

text \<open>The user of a request, by \<open>id\<close> or else by \<open>sub\<close>.\<close>

record transfer_request =
  tr_id :: "string option"
  tr_sub :: "string option"

definition requester :: "transfer_request \<Rightarrow> string option" where
  "requester r = (case tr_id r of Some i \<Rightarrow> Some i | None \<Rightarrow> tr_sub r)"

text \<open>A call of the service, by an authenticated user.\<close>

datatype transfer_call =
    Initiate string InitiateTransferDto
  | Accept string string
  | Reject string string "string option"
  | Cancel string string "string option"
  | Get string
  | List_for string direction

fun transfer_do :: "'w transfer_store \<Rightarrow> int \<times> transfer_call \<Rightarrow> 'w \<Rightarrow> 'w" where
  "transfer_do st (now, Initiate i dto) w = snd (initiateTransfer st i now dto w)"
| "transfer_do st (now, Accept i actor) w = snd (acceptTransfer st now i actor w)"
| "transfer_do st (now, Reject i actor reason) w = snd (rejectTransfer st now i actor reason w)"
| "transfer_do st (now, Cancel i actor reason) w = snd (cancelTransfer st now i actor reason w)"
| "transfer_do st (now, Get i) w = snd (getTransfer st now i w)"
| "transfer_do st (now, List_for u dir) w = snd (listTransfers st now u dir w)"

section \<open>What a call may change\<close>

definition with_status :: "OwnershipTransferStatus \<Rightarrow> OwnershipTransfer \<Rightarrow> OwnershipTransfer \<Rightarrow> bool" where
  "with_status s t t' \<longleftrightarrow> ot_status t' = s \<and> ot_id t' = ot_id t \<and> ot_resourceType t' = ot_resourceType t \<and>
     ot_resourceId t' = ot_resourceId t \<and> ot_currentOwnerId t' = ot_currentOwnerId t \<and>
     ot_proposedOwnerId t' = ot_proposedOwnerId t \<and> ot_expiresAt t' = ot_expiresAt t"

text \<open>
  A transfer that was there before a call is as it was, or it has expired, or it was pending and the call is
  that of the user who may end it.
\<close>

definition allowed_change :: "int \<times> transfer_call \<Rightarrow> OwnershipTransfer \<Rightarrow> OwnershipTransfer \<Rightarrow> bool" where
  "allowed_change c t t' \<longleftrightarrow> t' = t \<or>
     t' = t\<lparr>ot_status := Ot_EXPIRED\<rparr> \<and> transfer_expired (fst c) t \<and> (ot_status t = Ot_PENDING \<or> (\<exists>actor. snd c = Accept (ot_id t) actor)) \<or>
     ot_status t = Ot_PENDING \<and>
       (with_status Ot_ACCEPTED t t' \<and> snd c = Accept (ot_id t) (ot_proposedOwnerId t) \<and> \<not> transfer_expired (fst c) t \<and> ot_acceptedAt t' = Some (fst c) \<or>
        with_status Ot_CANCELLED t t' \<and> (\<exists>reason. snd c = Cancel (ot_id t) (ot_currentOwnerId t) reason) \<or>
        with_status Ot_REJECTED t t' \<and> (\<exists>reason. snd c = Reject (ot_id t) (ot_proposedOwnerId t) reason))"

lemma allowed_same: "allowed_change c t t"
  by (simp add: allowed_change_def)

lemma allowed_id: "allowed_change c t t' \<Longrightarrow> ot_id t' = ot_id t"
  by (auto simp: allowed_change_def with_status_def)

lemma allowed_expiry: "ot_status t = Ot_PENDING \<Longrightarrow> transfer_expired now t \<Longrightarrow> allowed_change (now, c) t (t\<lparr>ot_status := Ot_EXPIRED\<rparr>)"
  by (simp add: allowed_change_def)

section \<open>What the service relies on\<close>

definition names_ok :: "(string \<rightharpoonup> OwnershipTransfer) \<Rightarrow> bool" where
  "names_ok m \<longleftrightarrow> (\<forall>i t. m i = Some t \<longrightarrow> ot_id t = i)"

locale transfer_rows =
  fixes st :: "'w transfer_store"
    and tbl :: "'w \<Rightarrow> string \<rightharpoonup> OwnershipTransfer"
    and good :: "'w \<Rightarrow> bool"
  assumes findOne_tbl: "good w \<Longrightarrow> ts_findOne st i w = (a, w') \<Longrightarrow> good w' \<and> tbl w' = tbl w \<and> (\<forall>x. a = Inr x \<longrightarrow> x = tbl w i)"
    and pending_tbl: "good w \<Longrightarrow> ts_findPending st rt ri w = (p, w') \<Longrightarrow> good w' \<and> tbl w' = tbl w"
    and find_tbl: "good w \<Longrightarrow> ts_find st w = (l, w') \<Longrightarrow> good w' \<and> tbl w' = tbl w \<and>
      (\<forall>ts. l = Inr ts \<longrightarrow> distinct (map ot_id ts) \<and> (\<forall>t \<in> set ts. tbl w (ot_id t) = Some t))"
    and save_tbl: "good w \<Longrightarrow> ts_save st t w = (s, w') \<Longrightarrow> good w' \<and>
      (tbl w' = (tbl w)(ot_id t \<mapsto> t) \<and> (isl s \<or> s = Inr t) \<or> tbl w' = tbl w \<and> isl s)"
    and good_names: "good w \<Longrightarrow> names_ok (tbl w)"
begin

text \<open>A world follows from another by allowed changes.\<close>

definition follows :: "int \<times> transfer_call \<Rightarrow> 'w \<Rightarrow> 'w \<Rightarrow> bool" where
  "follows c w w' \<longleftrightarrow> good w' \<and> (\<forall>i t. tbl w i = Some t \<longrightarrow> (\<exists>t'. tbl w' i = Some t' \<and> allowed_change c t t')) \<and>
     (\<forall>i. tbl w i = None \<longrightarrow> tbl w' i = None)"

lemma follows_refl: "good w \<Longrightarrow> tbl w' = tbl w \<Longrightarrow> good w' \<Longrightarrow> follows c w w'"
  by (auto simp: follows_def allowed_same)

lemma follows_save:
  assumes "good w" "tbl w i = Some t" "ot_id t' = ot_id t" "allowed_change c t t'" "ts_save st t' w = (s, w')"
  shows "follows c w w'"
proof -
  have "ot_id t = i" using good_names [OF assms(1)] assms(2) by (simp add: names_ok_def)
  then show ?thesis using save_tbl [OF assms(1,5)] assms(2,3,4)
    by (auto simp: follows_def allowed_same split: if_splits)
qed

lemma by_id_cases:
  assumes "good w" "transfer_then (getTransferById st i) f w = (r, w')"
  obtains (gone) "follows c w w'" "isl r"
  | (row) t w1 where "tbl w i = Some t" "good w1" "tbl w1 = tbl w" "f t w1 = (r, w')"
proof -
  obtain a w1 where a: "ts_findOne st i w = (a, w1)" by fastforce
  note law = findOne_tbl [OF assms(1) a]
  show thesis
  proof (cases "\<exists>t. a = Inr (Some t)")
    case True
    with a law assms(2) row show thesis by (auto simp: transfer_then_def getTransferById_def)
  next
    case False
    then have "w' = w1" "isl r" using a assms(2)
      by (auto simp: transfer_then_def getTransferById_def split: sum.splits option.splits prod.splits)
    with law assms(1) gone show thesis by (auto intro: follows_refl)
  qed
qed

lemma follows_tbl: "tbl w1 = tbl w \<Longrightarrow> follows c w1 w' \<Longrightarrow> follows c w w'"
  by (simp add: follows_def)

lemma accept_follows:
  assumes "good w" "acceptTransfer st now i actor w = (r, w')"
  shows "follows (now, Accept i actor) w w'"
  using assms(1) assms(2) [unfolded acceptTransfer_def]
proof (cases rule: by_id_cases [where c = "(now, Accept i actor)"])
  case (row t w1)
  have i: "ot_id t = i" using good_names [OF assms(1)] row(1) by (simp add: names_ok_def)
  show ?thesis
  proof (cases "transfer_expired now t")
    case True
    obtain s w2 where s: "ts_save st (t\<lparr>ot_status := Ot_EXPIRED\<rparr>) w1 = (s, w2)" by fastforce
    have "w' = w2" using row(4) True s by (cases s) (auto simp: transfer_then_def throws_def)
    moreover have "follows (now, Accept i actor) w1 w2"
      using row True i by (intro follows_save [OF row(2) _ _ _ s]) (auto simp: allowed_change_def)
    ultimately show ?thesis using follows_tbl [OF row(3)] by simp
  next
    case False
    show ?thesis
    proof (cases "ot_status t = Ot_PENDING \<and> ot_proposedOwnerId t = actor")
      case True
      with False row(4) have s: "ts_save st (t\<lparr>ot_status := Ot_ACCEPTED, ot_acceptedAt := Some now, ot_updatedAt := now\<rparr>) w1 = (r, w')" by simp
      show ?thesis using row True False i
        by (intro follows_tbl [OF row(3)] follows_save [OF row(2) _ _ _ s]) (auto simp: allowed_change_def with_status_def)
    next
      case no: False
      with False row have "w' = w1" by (auto simp: throws_def split: if_splits)
      then show ?thesis using row assms(1) by (auto intro: follows_refl)
    qed
  qed
qed

lemma cancel_follows:
  assumes "good w" "cancelTransfer st now i actor reason w = (r, w')"
  shows "follows (now, Cancel i actor reason) w w'"
  using assms(1) assms(2) [unfolded cancelTransfer_def]
proof (cases rule: by_id_cases [where c = "(now, Cancel i actor reason)"])
  case (row t w1)
  have i: "ot_id t = i" using good_names [OF assms(1)] row(1) by (simp add: names_ok_def)
  show ?thesis
  proof (cases "ot_status t = Ot_PENDING \<and> ot_currentOwnerId t = actor")
    case True
    with row(4) have s: "ts_save st (t\<lparr>ot_status := Ot_CANCELLED, ot_cancelledAt := Some now,
      ot_cancellationReason := Some (case reason of None \<Rightarrow> ''Cancelled by initiator'' | Some r \<Rightarrow> r), ot_updatedAt := now\<rparr>) w1 = (r, w')" by simp
    show ?thesis using row True i
      by (intro follows_tbl [OF row(3)] follows_save [OF row(2) _ _ _ s]) (auto simp: allowed_change_def with_status_def)
  next
    case False
    with row have "w' = w1" by (auto simp: throws_def split: if_splits)
    then show ?thesis using row assms(1) by (auto intro: follows_refl)
  qed
qed

lemma reject_follows:
  assumes "good w" "rejectTransfer st now i actor reason w = (r, w')"
  shows "follows (now, Reject i actor reason) w w'"
  using assms(1) assms(2) [unfolded rejectTransfer_def]
proof (cases rule: by_id_cases [where c = "(now, Reject i actor reason)"])
  case (row t w1)
  have i: "ot_id t = i" using good_names [OF assms(1)] row(1) by (simp add: names_ok_def)
  show ?thesis
  proof (cases "ot_status t = Ot_PENDING \<and> ot_proposedOwnerId t = actor")
    case True
    with row(4) have s: "ts_save st (t\<lparr>ot_status := Ot_REJECTED, ot_rejectedAt := Some now,
      ot_rejectionReason := Some (case reason of None \<Rightarrow> ''Rejected by proposed owner'' | Some r \<Rightarrow> r), ot_updatedAt := now\<rparr>) w1 = (r, w')" by simp
    show ?thesis using row True i
      by (intro follows_tbl [OF row(3)] follows_save [OF row(2) _ _ _ s]) (auto simp: allowed_change_def with_status_def)
  next
    case False
    with row have "w' = w1" by (auto simp: throws_def split: if_splits)
    then show ?thesis using row assms(1) by (auto intro: follows_refl)
  qed
qed

lemma refresh_follows:
  assumes "good w" "tbl w i = Some t" "refresh_transfer st now t w = (r, w')"
  shows "follows (now, c) w w'" "\<And>j. j \<noteq> ot_id t \<Longrightarrow> tbl w' j = tbl w j"
proof -
  show "follows (now, c) w w'"
  proof (cases "ot_status t = Ot_PENDING \<and> transfer_expired now t")
    case True
    with assms(3) have s: "ts_save st (t\<lparr>ot_status := Ot_EXPIRED\<rparr>) w = (r, w')" by (simp add: refresh_transfer_def)
    show ?thesis using True by (intro follows_save [OF assms(1,2) _ _ s]) (auto simp: allowed_expiry)
  next
    case False
    with assms show ?thesis by (auto simp: refresh_transfer_def intro: follows_refl)
  qed
  show "tbl w' j = tbl w j" if "j \<noteq> ot_id t" for j
    using assms(3) that save_tbl [OF assms(1), of "t\<lparr>ot_status := Ot_EXPIRED\<rparr>" r w'] by (auto simp: refresh_transfer_def split: if_splits)
qed

lemma get_follows:
  assumes "good w" "getTransfer st now i w = (r, w')"
  shows "follows (now, Get i) w w'"
  using assms(1) assms(2) [unfolded getTransfer_def]
proof (cases rule: by_id_cases [where c = "(now, Get i)"])
  case (row t w1)
  then show ?thesis using refresh_follows(1) [OF row(2) _ row(4)] by (intro follows_tbl [OF row(3)]) simp
qed

text \<open>A change on each of several rows is a change of each row.\<close>

lemma refresh_all_follows:
  assumes "good w" "distinct (map ot_id ts)" "\<forall>t \<in> set ts. tbl w (ot_id t) = Some t" "refresh_all st now ts w = (r, w')"
  shows "follows (now, c) w w' \<and> (\<forall>j. j \<notin> ot_id ` set ts \<longrightarrow> tbl w' j = tbl w j)"
  using assms
proof (induction ts arbitrary: w r)
  case Nil
  then show ?case by (auto intro: follows_refl)
next
  case (Cons t ts)
  obtain s w1 where s: "refresh_transfer st now t w = (s, w1)" by fastforce
  have row: "tbl w (ot_id t) = Some t" using Cons.prems by simp
  note step = refresh_follows [OF Cons.prems(1) row s]
  show ?case
  proof (cases s)
    case (Inl e)
    with s Cons.prems(4) have "w' = w1" by (simp add: transfer_then_def Let_def)
    with step show ?thesis by auto
  next
    case (Inr x)
    obtain q where q: "refresh_all st now ts w1 = (q, w')"
      using s Inr Cons.prems(4) by (auto simp: transfer_then_def Let_def split: prod.splits sum.splits)
    have g1: "good w1" using step(1) by (simp add: follows_def)
    have rest: "\<forall>u \<in> set ts. tbl w1 (ot_id u) = Some u"
      using Cons.prems(2,3) step(2) by (auto simp: image_iff)
    from Cons.IH [OF g1 _ rest q] Cons.prems(2) have IH: "follows (now, c) w1 w'" "\<forall>j. j \<notin> ot_id ` set ts \<longrightarrow> tbl w' j = tbl w1 j" by auto
    have "\<exists>v. tbl w' j = Some v \<and> allowed_change (now, c) u v" if u: "tbl w j = Some u" for j u
    proof (cases "j \<in> ot_id ` set ts")
      case True
      then have "j \<noteq> ot_id t" using Cons.prems(2) by (metis distinct.simps(2) list.map(2) list.set_map)
      then show ?thesis using step(2) u IH(1) by (auto simp: follows_def)
    next
      case False
      then show ?thesis using IH(2) step(1) u by (auto simp: follows_def)
    qed
    moreover have "tbl w' j = None" if "tbl w j = None" for j using that step(1) IH(1) by (auto simp: follows_def)
    ultimately show ?thesis using IH step(2) by (auto simp: follows_def)
  qed
qed

lemma list_follows:
  assumes "good w" "listTransfers st now u d w = (r, w')"
  shows "follows (now, List_for u d) w w'"
proof -
  obtain l w1 where l: "ts_find st w = (l, w1)" by fastforce
  note law = find_tbl [OF assms(1) l]
  show ?thesis
  proof (cases l)
    case (Inl e)
    with l law assms show ?thesis by (auto simp: listTransfers_def transfer_then_def intro: follows_refl)
  next
    case (Inr ts)
    obtain q where q: "refresh_all st now ts w1 = (q, w')"
      using l Inr assms(2) by (auto simp: listTransfers_def transfer_then_def split: prod.splits sum.splits)
    have "good w1" "distinct (map ot_id ts)" "\<forall>t \<in> set ts. tbl w1 (ot_id t) = Some t" using law Inr by auto
    from refresh_all_follows [OF this q] law show ?thesis using follows_tbl by blast
  qed
qed

text \<open>An initiation under a new id adds at most that transfer.\<close>

lemma initiate_adds:
  assumes "good w" "initiateTransfer st i now dto w = (r, w')"
  shows "good w' \<and> (tbl w' = tbl w \<or> tbl w' = (tbl w)(i \<mapsto> new_transfer i now dto))"
proof -
  obtain p w1 where p: "ts_findPending st (it_resourceType dto) (it_resourceId dto) w = (p, w1)" by fastforce
  note law = pending_tbl [OF assms(1) p]
  have new: "ot_id (new_transfer i now dto) = i" by (simp add: new_transfer_def)
  have saved: "good w2 \<and> (tbl w2 = tbl w \<or> tbl w2 = (tbl w)(i \<mapsto> new_transfer i now dto))"
    if "ts_save st (new_transfer i now dto) w1 = (s, w2)" for s w2
    using save_tbl [OF _ that] law new by auto
  from assms(2) p law assms(1) saved show ?thesis
    by (auto simp: initiateTransfer_def transfer_then_def throws_def split: if_splits sum.splits option.splits)
qed

end

interpretation memory: transfer_rows memory_store map_of "\<lambda>m. map_wf m \<and> names_ok (map_of m)"
proof
  fix w l and w' :: transfer_map
  assume wf: "map_wf w \<and> names_ok (map_of w)" and "ts_find memory_store w = (l, w')"
  then have "l = Inr (map snd w) \<and> w' = w" by (auto simp: memory_store_def)
  then have l: "l = Inr (map snd w)" "w' = w" by blast+
  have key: "ot_id t = k" if "(k, t) \<in> set w" for k t using that wf map_get_wf [of w k t] by (auto simp: names_ok_def)
  then have ids: "map ot_id (map snd w) = map_keys w" by (auto simp: case_prod_beta)
  have "distinct (map ot_id (map snd w))" unfolding ids using wf by (simp add: map_wf_def)
  moreover have "map_of w (ot_id t) = Some t" if "t \<in> snd ` set w" for t
    using that key wf map_get_wf [of w] by fastforce
  ultimately show "(map_wf w' \<and> names_ok (map_of w')) \<and> map_of w' = map_of w \<and>
      (\<forall>ts. l = Inr ts \<longrightarrow> distinct (map ot_id ts) \<and> (\<forall>t \<in> set ts. map_of w (ot_id t) = Some t))"
    using wf unfolding l by auto
qed (auto simp: memory_store_def names_ok_def update_conv')

lemma memory_good: "map_wf [] \<and> names_ok (map_of ([] :: transfer_map))"
  by (simp add: names_ok_def)

fun initiated :: "int \<times> transfer_call \<Rightarrow> string list" where
  "initiated (now, Initiate i dto) = [i]"
| "initiated _ = []"

text \<open>What the transfers of a run owe to its calls.\<close>

definition earned :: "(int \<times> transfer_call) list \<Rightarrow> OwnershipTransfer \<Rightarrow> bool" where
  "earned calls t \<longleftrightarrow> ot_id t \<in> set (concat (map initiated calls)) \<and>
     (ot_status t = Ot_ACCEPTED \<longrightarrow> (\<exists>now. (now, Accept (ot_id t) (ot_proposedOwnerId t)) \<in> set calls \<and> \<not> transfer_expired now t \<and> ot_acceptedAt t = Some now)) \<and>
     (ot_status t = Ot_CANCELLED \<longrightarrow> (\<exists>now reason. (now, Cancel (ot_id t) (ot_currentOwnerId t) reason) \<in> set calls)) \<and>
     (ot_status t = Ot_REJECTED \<longrightarrow> (\<exists>now reason. (now, Reject (ot_id t) (ot_proposedOwnerId t) reason) \<in> set calls)) \<and>
     (ot_status t = Ot_EXPIRED \<longrightarrow> (\<exists>c \<in> set calls. transfer_expired (fst c) t))"

lemma expired_cong: "ot_expiresAt t' = ot_expiresAt t \<Longrightarrow> transfer_expired now t' = transfer_expired now t"
  by (simp add: transfer_expired_def)

lemma expired_status [simp]: "transfer_expired now (t\<lparr>ot_status := s\<rparr>) = transfer_expired now t"
  by (simp add: transfer_expired_def)

lemma earned_more: "earned calls t \<Longrightarrow> earned (calls @ [c]) t"
  by (auto simp: earned_def; blast)

lemma earned_change:
  assumes "earned calls t" "allowed_change c t t'"
  shows "earned (calls @ [c]) t'"
proof (cases "t' = t")
  case True
  then show ?thesis using earned_more [OF assms(1)] by simp
next
  case False
  have i: "ot_id t \<in> set (concat (map initiated (calls @ [c])))" using assms(1) by (auto simp: earned_def)
  obtain now k where c: "c = (now, k)" by fastforce
  from False assms(2) consider "t' = t\<lparr>ot_status := Ot_EXPIRED\<rparr>" "transfer_expired now t"
    | "with_status Ot_ACCEPTED t t'" "k = Accept (ot_id t) (ot_proposedOwnerId t)" "\<not> transfer_expired now t" "ot_acceptedAt t' = Some now"
    | reason where "with_status Ot_CANCELLED t t'" "k = Cancel (ot_id t) (ot_currentOwnerId t) reason"
    | reason where "with_status Ot_REJECTED t t'" "k = Reject (ot_id t) (ot_proposedOwnerId t) reason"
    by (auto simp: allowed_change_def c)
  then show ?thesis
    by cases (use i in \<open>simp_all add: earned_def with_status_def expired_cong [of t' t] c\<close>; blast)+
qed

lemma call_follows:
  assumes "map_wf m \<and> names_ok (map_of m)"
  shows "memory.follows c m (transfer_do memory_store c m) \<or>
    (\<exists>now i dto. c = (now, Initiate i dto) \<and> (map_wf (transfer_do memory_store c m) \<and> names_ok (map_of (transfer_do memory_store c m))) \<and>
       (map_of (transfer_do memory_store c m) = map_of m \<or> map_of (transfer_do memory_store c m) = (map_of m)(i \<mapsto> new_transfer i now dto)))"
proof -
  obtain now k where c: "c = (now, k)" by fastforce
  show ?thesis
  proof (cases k)
    case (Initiate i dto)
    then show ?thesis using memory.initiate_adds [OF assms, of i now dto] by (cases "initiateTransfer memory_store i now dto m") (auto simp: c)
  next
    case (Accept i a)
    then show ?thesis using memory.accept_follows [OF assms, of now i a] by (cases "acceptTransfer memory_store now i a m") (auto simp: c)
  next
    case (Reject i a r)
    then show ?thesis using memory.reject_follows [OF assms, of now i a r] by (cases "rejectTransfer memory_store now i a r m") (auto simp: c)
  next
    case (Cancel i a r)
    then show ?thesis using memory.cancel_follows [OF assms, of now i a r] by (cases "cancelTransfer memory_store now i a r m") (auto simp: c)
  next
    case (Get i)
    then show ?thesis using memory.get_follows [OF assms, of now i] by (cases "getTransfer memory_store now i m") (auto simp: c)
  next
    case (List_for u d)
    then show ?thesis using memory.list_follows [OF assms, of now u d] by (cases "listTransfers memory_store now u d m") (auto simp: c)
  qed
qed

section \<open>Properties\<close>

text \<open>
  C33.  Who ended a transfer.  In any run of the service in memory, a transfer is kept under its id, which a call
  gave it; a transfer that is accepted was accepted by its proposed owner, before it expired, at the time it says; one that is
  cancelled was cancelled by the owner who initiated it; one that is rejected was rejected by the proposed owner;
  and one is marked as expired only after its time.
\<close>

theorem transfers_ended_by_their_parties:
  assumes "map_get (run (transfer_do memory_store) calls []) i = Some t"
  shows "ot_id t = i \<and> earned calls t"
proof -
  have "(map_wf m \<and> names_ok (map_of m)) \<and> (\<forall>i t. map_of m i = Some t \<longrightarrow> earned calls t)"
    if "m = run (transfer_do memory_store) calls []" for calls m
    using that
  proof (induction calls arbitrary: m rule: rev_induct)
    case Nil
    then show ?case using memory_good by simp
  next
    case (snoc c calls)
    define m0 where "m0 = run (transfer_do memory_store) calls []"
    have m: "m = transfer_do memory_store c m0" using snoc.prems by (simp add: run_append m0_def)
    note IH = snoc.IH [OF m0_def]
    from call_follows [OF IH [THEN conjunct1], of c] show ?case
    proof
      assume f: "memory.follows c m0 (transfer_do memory_store c m0)"
      have "earned (calls @ [c]) t" if "map_of m i = Some t" for i t
      proof -
        have some: "map_of m0 i \<noteq> None" using f that unfolding m memory.follows_def by force
        then obtain u where u: "map_of m0 i = Some u" by blast
        then obtain t' where "map_of m i = Some t'" "allowed_change c u t'" using f unfolding m memory.follows_def by blast
        with that u have "map_of m0 i = Some u" "allowed_change c u t" by simp_all
        then show ?thesis using earned_change IH by blast
      qed
      with f show ?thesis by (auto simp: m memory.follows_def)
    next
      assume "\<exists>now i dto. c = (now, Initiate i dto) \<and> (map_wf (transfer_do memory_store c m0) \<and> names_ok (map_of (transfer_do memory_store c m0))) \<and>
       (map_of (transfer_do memory_store c m0) = map_of m0 \<or> map_of (transfer_do memory_store c m0) = (map_of m0)(i \<mapsto> new_transfer i now dto))"
      then obtain now i dto where c: "c = (now, Initiate i dto)" and good: "map_wf m \<and> names_ok (map_of m)"
        and m': "map_of m = map_of m0 \<or> map_of m = (map_of m0)(i \<mapsto> new_transfer i now dto)" unfolding m by blast
      have "earned (calls @ [c]) (new_transfer i now dto)" by (simp add: earned_def new_transfer_def c)
      then show ?thesis using IH good m' earned_more [of calls _ c] by (auto split: if_splits)
    qed
  qed
  from this [OF refl] assms show ?thesis by (auto simp: names_ok_def)
qed

text \<open>
  A transfer that was ended can be ended again.  Whatever its status, an accepted one included, a call to accept
  a transfer after its time marks it as expired, and any user may make that call.
\<close>

theorem late_acceptance_rewrites_any_status:
  assumes "map_get m i = Some t" "names_ok (map_of m)" "transfer_expired now t"
  shows "acceptTransfer memory_store now i actor m =
    (Inl (Transfer_bad_request ''Ownership transfer request has expired.''), map_set i (t\<lparr>ot_status := Ot_EXPIRED\<rparr>) m)"
  using assms by (simp add: acceptTransfer_def getTransferById_def transfer_then_def throws_def memory_store_def names_ok_def)

definition sample_dto :: "string \<Rightarrow> InitiateTransferDto" where
  "sample_dto to_user = \<lparr>it_resourceType = ''r'', it_resourceId = ''1'', it_currentOwnerId = ''a'', it_proposedOwnerId = to_user, it_expiresInHours = Some 1\<rparr>"

definition hour :: int where
  "hour = 3600000"

text \<open>
  One resource, two new owners.  A pending transfer that has expired and has not been looked at hides
  later ones from the check for a pending transfer: after it, two further transfers of the same resource are
  initiated by the same owner within their time, and two different users accept.
\<close>

theorem two_owners_accept:
  "let m = run (transfer_do memory_store)
     [(0, Initiate ''x'' (sample_dto ''b'')), (hour, Initiate ''y'' (sample_dto ''c'')), (hour, Initiate ''z'' (sample_dto ''d'')),
      (hour + 1, Accept ''y'' ''c''), (hour + 1, Accept ''z'' ''d'')] []
   in map (\<lambda>i. map_option (\<lambda>t. (ot_resourceId t, ot_currentOwnerId t, ot_proposedOwnerId t, ot_status t)) (map_get m i)) [''y'', ''z''] =
      [Some (''1'', ''a'', ''c'', Ot_ACCEPTED), Some (''1'', ''a'', ''d'', Ot_ACCEPTED)]"
  by code_simp

theorem transfers_ended_by_their_parties_witness:
  "\<exists>t. map_get (run (transfer_do memory_store) [(0, Initiate ''x'' (sample_dto ''b'')), (5, Accept ''x'' ''b'')] []) ''x'' = Some t \<and>
    ot_status t = Ot_ACCEPTED \<and> earned [(0, Initiate ''x'' (sample_dto ''b'')), (5, Accept ''x'' ''b'')] t"
proof -
  let ?calls = "[(0, Initiate ''x'' (sample_dto ''b'')), (5, Accept ''x'' ''b'')] :: (int \<times> transfer_call) list"
  have "map_option ot_status (map_get (run (transfer_do memory_store) ?calls []) ''x'') = Some Ot_ACCEPTED" by code_simp
  then obtain t where t: "map_get (run (transfer_do memory_store) ?calls []) ''x'' = Some t" "ot_status t = Ot_ACCEPTED" by auto
  from transfers_ended_by_their_parties [OF t(1)] t show ?thesis by blast
qed

theorem late_acceptance_rewrites_any_status_witness:
  "\<exists>m. acceptTransfer memory_store (2 * hour) ''x'' ''stranger'' (run (transfer_do memory_store) [(0, Initiate ''x'' (sample_dto ''b'')), (5, Accept ''x'' ''b'')] []) =
    (Inl (Transfer_bad_request ''Ownership transfer request has expired.''), m) \<and> map_option ot_status (map_get m ''x'') = Some Ot_EXPIRED"
proof -
  define m where "m = run (transfer_do memory_store) [(0, Initiate ''x'' (sample_dto ''b'')), (5, Accept ''x'' ''b'')] []"
  have "map_option (\<lambda>t. (ot_status t, transfer_expired (2 * hour) t)) (map_get m ''x'') = Some (Ot_ACCEPTED, True)" unfolding m_def by code_simp
  then obtain t where t: "map_get m ''x'' = Some t" "transfer_expired (2 * hour) t" by auto
  have "map (\<lambda>(k, t). ot_id t = k) m = [True]" unfolding m_def by code_simp
  then have "names_ok (map_of m)" by (auto simp: names_ok_def map_eq_Cons_conv split: if_splits)
  from late_acceptance_rewrites_any_status [OF t(1) this t(2), of "''stranger''"] show ?thesis
    unfolding m_def [symmetric] by (simp add: update_conv')
qed

end
