(* ===== verification/Retry_Scheduler.thy ===== *)
theory Retry_Scheduler
  imports Canonical_Json
begin

text \<open>
  The retry scheduler, \<open>src/infrastructure/retry-scheduler/retry-scheduler.service.ts\<close>: operations that are retried with a
  growing delay, end in success or as dead letters, and are re-queued from there by hand.  Any number of calls
  run at once.  A call is cut at its awaits: what it does next is a \<open>retry_stage\<close>, and one move of a run makes one
  access to the table and goes on to the next.  The table of operations is the argument \<open>T\<close>, a record of actions on a
  world any of which may fail, with the laws of the locale \<open>retry_rows\<close>; \<open>kept_table\<close> provides them.

  The clock and the random number are part of a move, the redaction of error messages (\<open>sanitizeErrorMessage\<close>) and the
  rendering of dates are arguments.  Payloads and the values of metadata have the type \<open>'p\<close>.  Metadata keeps the two
  fields the service itself writes apart from the others.  Delays are exact rationals.  The columns
  \<open>createdAt\<close> and \<open>updatedAt\<close>, which the database fills, and log lines are left out.
\<close>

section \<open>Data\<close>

datatype RetryOperationStatus = Op_PENDING | Op_IN_PROGRESS | Op_SUCCEEDED | Op_FAILED | Op_DEAD_LETTER

record dead_letter_note =
  dn_reason :: string
  dn_retryable :: bool

record retry_audit =
  ra_at :: string
  ra_by :: string
  ra_reason :: "string option"
  ra_forced :: bool
  ra_previousAttempts :: nat
  ra_previousError :: "string option"

record 'p retry_metadata =
  md_deadLetter :: "dead_letter_note option"
  md_deadLetterRetries :: "retry_audit list option"
  md_userActionRequired :: bool
  md_other :: "(string, 'p) jsmap"

record 'p RetryOperation =
  ro_id :: string
  ro_operationType :: string
  ro_operationId :: string
  ro_payload :: 'p
  ro_status :: RetryOperationStatus
  ro_attempts :: nat
  ro_maxAttempts :: int
  ro_lastError :: "string option"
  ro_nextRetryAt :: "int option"
  ro_backoffMs :: int
  ro_backoffMultiplier :: rat
  ro_maxBackoffMs :: int
  ro_retryable :: bool
  ro_correlationId :: "string option"
  ro_metadata :: "'p retry_metadata option"
  ro_completedAt :: "int option"
  ro_deadLetteredAt :: "int option"

record 'p ScheduleRetryOpts =
  so_operationType :: string
  so_operationId :: string
  so_payload :: 'p
  so_maxAttempts :: "int option"
  so_backoffMs :: "int option"
  so_backoffMultiplier :: "rat option"
  so_maxBackoffMs :: "int option"
  so_retryable :: "bool option"
  so_correlationId :: "string option"
  so_metadata :: "'p retry_metadata option"

record DeadLetterRetryOptions =
  dr_actor :: "string option"
  dr_reason :: "string option"
  dr_force :: bool

datatype BulkRetryItemStatus = Requeued | Skipped_non_retryable | Already_retried

record BulkRetryResult =
  br_requested :: nat
  br_requeued :: nat
  br_results :: "(string \<times> BulkRetryItemStatus) list"

datatype retry_event =
    Ev_succeeded string string nat
  | Ev_failed string string nat int "int option" string "string option"
  | Ev_dead_letter string string nat "string option" string "string option"
  | Ev_dead_letter_retried string string string bool

definition MAX_RETRY_AUDIT_ENTRIES :: nat where
  "MAX_RETRY_AUDIT_ENTRIES = 10"

definition MAX_BULK_DEAD_LETTER_RETRY :: int where
  "MAX_BULK_DEAD_LETTER_RETRY = 100"

abbreviation or_else :: "'a option \<Rightarrow> 'a \<Rightarrow> 'a" where
  "or_else x d \<equiv> (case x of None \<Rightarrow> d | Some y \<Rightarrow> y)"

section \<open>Correlation ids\<close>

definition MAX_CORRELATION_ID_LENGTH :: nat where
  "MAX_CORRELATION_ID_LENGTH = 64"

definition correlation_char :: "char \<Rightarrow> bool" where
  "correlation_char c \<longleftrightarrow>
     (let n = of_char c :: nat in 65 \<le> n \<and> n \<le> 90 \<or> 97 \<le> n \<and> n \<le> 122 \<or> 48 \<le> n \<and> n \<le> 57 \<or> n = 95 \<or> n = 45)"

definition normalizeCorrelationId :: "string option \<Rightarrow> string option" where
  "normalizeCorrelationId raw =
     (case raw of
        None \<Rightarrow> None
      | Some v \<Rightarrow>
          if v = [] \<or> length v > MAX_CORRELATION_ID_LENGTH * 2 then None
          else let t = trim v in
               if t = [] \<or> length t > MAX_CORRELATION_ID_LENGTH \<or> \<not> list_all correlation_char t then None else Some t)"

section \<open>What the service computes\<close>

record retry_env =
  re_sanitizeErrorMessage :: "string \<Rightarrow> string"
  re_iso :: "int \<Rightarrow> string"

definition new_operation :: "int \<Rightarrow> string option \<Rightarrow> 'p ScheduleRetryOpts \<Rightarrow> 'p RetryOperation" where
  "new_operation now ambient opts =
     \<lparr>ro_id = [], ro_operationType = so_operationType opts, ro_operationId = so_operationId opts, ro_payload = so_payload opts,
      ro_status = Op_PENDING, ro_attempts = 0, ro_maxAttempts = or_else (so_maxAttempts opts) 3, ro_lastError = None,
      ro_nextRetryAt = Some now, ro_backoffMs = or_else (so_backoffMs opts) 1000,
      ro_backoffMultiplier = or_else (so_backoffMultiplier opts) 2, ro_maxBackoffMs = or_else (so_maxBackoffMs opts) 60000,
      ro_retryable = or_else (so_retryable opts) True,
      ro_correlationId = (case normalizeCorrelationId (so_correlationId opts) of None \<Rightarrow> ambient | Some c \<Rightarrow> Some c),
      ro_metadata = so_metadata opts, ro_completedAt = None, ro_deadLetteredAt = None\<rparr>"

text \<open>The spread \<open>{...operation.metadata}\<close>, of metadata that may be null.\<close>

definition spread_metadata :: "'p retry_metadata option \<Rightarrow> 'p retry_metadata" where
  "spread_metadata m = or_else m \<lparr>md_deadLetter = None, md_deadLetterRetries = None, md_userActionRequired = False, md_other = []\<rparr>"

definition retry_delay :: "'p RetryOperation \<Rightarrow> rat" where
  "retry_delay op = min (of_int (ro_backoffMs op) * ro_backoffMultiplier op ^ (ro_attempts op - 1)) (of_int (ro_maxBackoffMs op))"

definition calculateNextRetry :: "int \<Rightarrow> rat \<Rightarrow> 'p RetryOperation \<Rightarrow> int" where
  "calculateNextRetry now random op =
     (let delay = retry_delay op;
          jitter = delay * (1 / 10) * (random * 2 - 1);
          totalDelay = max 0 (delay + jitter)
      in \<lfloor>of_int now + totalDelay\<rfloor>)"

definition succeeded_op :: "int \<Rightarrow> 'p RetryOperation \<Rightarrow> 'p RetryOperation" where
  "succeeded_op now op = op\<lparr>ro_status := Op_SUCCEEDED, ro_completedAt := Some now, ro_nextRetryAt := None\<rparr>"

definition dead_op :: "int \<Rightarrow> string \<Rightarrow> bool \<Rightarrow> 'p RetryOperation \<Rightarrow> 'p RetryOperation" where
  "dead_op now reason retryable op =
     op\<lparr>ro_status := Op_DEAD_LETTER, ro_deadLetteredAt := Some now, ro_nextRetryAt := None,
        ro_metadata := Some ((spread_metadata (ro_metadata op))\<lparr>md_deadLetter := Some \<lparr>dn_reason = reason, dn_retryable = retryable\<rparr>\<rparr>)\<rparr>"

definition isRetryable :: "'p RetryOperation \<Rightarrow> bool" where
  "isRetryable op \<longleftrightarrow> ro_retryable op \<and>
     (case ro_metadata op of None \<Rightarrow> True | Some m \<Rightarrow> (case md_deadLetter m of None \<Rightarrow> True | Some d \<Rightarrow> dn_retryable d))"

text \<open>The audit of the retries by hand, with one more, and the patch of the row.\<close>

definition retry_note :: "retry_env \<Rightarrow> int \<Rightarrow> DeadLetterRetryOptions \<Rightarrow> 'p RetryOperation \<Rightarrow> retry_audit" where
  "retry_note E now options op =
     \<lparr>ra_at = re_iso E now, ra_by = or_else (dr_actor options) ''system'', ra_reason = dr_reason options, ra_forced = dr_force options,
      ra_previousAttempts = ro_attempts op, ra_previousError = ro_lastError op\<rparr>"

definition deadLetterRetries :: "'p RetryOperation \<Rightarrow> retry_audit list" where
  "deadLetterRetries op = (case ro_metadata op of None \<Rightarrow> [] | Some m \<Rightarrow> or_else (md_deadLetterRetries m) [])"

definition last_entries :: "nat \<Rightarrow> 'a list \<Rightarrow> 'a list" where
  "last_entries n xs = drop (length xs - n) xs"

record 'p requeue_patch =
  rq_maxAttempts :: int
  rq_nextRetryAt :: int
  rq_metadata :: "'p retry_metadata"

definition requeue_patch_of :: "retry_env \<Rightarrow> int \<Rightarrow> int option \<Rightarrow> DeadLetterRetryOptions \<Rightarrow> 'p RetryOperation \<Rightarrow> 'p requeue_patch" where
  "requeue_patch_of E now newMax options op =
     \<lparr>rq_maxAttempts = or_else newMax (ro_maxAttempts op), rq_nextRetryAt = now,
      rq_metadata = (spread_metadata (ro_metadata op))
        \<lparr>md_deadLetterRetries := Some (last_entries MAX_RETRY_AUDIT_ENTRIES (deadLetterRetries op @ [retry_note E now options op]))\<rparr>\<rparr>"

definition requeued_op :: "'p requeue_patch \<Rightarrow> 'p RetryOperation \<Rightarrow> 'p RetryOperation" where
  "requeued_op q op =
     op\<lparr>ro_status := Op_PENDING, ro_attempts := 0, ro_maxAttempts := rq_maxAttempts q, ro_nextRetryAt := Some (rq_nextRetryAt q),
        ro_deadLetteredAt := None, ro_lastError := None, ro_metadata := Some (rq_metadata q)\<rparr>"

section \<open>Reads\<close>

record retry_metrics =
  rm_total :: nat
  rm_pending :: nat
  rm_inProgress :: nat
  rm_succeeded :: nat
  rm_failed :: nat
  rm_deadLettered :: nat
  rm_successRate :: rat
  rm_byType :: "(string, nat) jsmap"
  rm_avgAttemptsBeforeSuccess :: rat

definition ops_with :: "RetryOperationStatus \<Rightarrow> 'p RetryOperation list \<Rightarrow> 'p RetryOperation list" where
  "ops_with s ops = filter (\<lambda>op. ro_status op = s) ops"

definition by_type :: "'p RetryOperation list \<Rightarrow> (string, nat) jsmap" where
  "by_type ops = foldl (\<lambda>acc op. map_set (ro_operationType op) (or_else (map_get acc (ro_operationType op)) 0 + 1) acc) [] ops"

definition getMetrics :: "'p RetryOperation list \<Rightarrow> retry_metrics" where
  "getMetrics ops =
     (let succeeded = length (ops_with Op_SUCCEEDED ops);
          failed = length (ops_with Op_FAILED ops);
          dead = length (ops_with Op_DEAD_LETTER ops);
          terminal = succeeded + failed + dead
      in \<lparr>rm_total = length ops, rm_pending = length (ops_with Op_PENDING ops), rm_inProgress = length (ops_with Op_IN_PROGRESS ops),
          rm_succeeded = succeeded, rm_failed = failed, rm_deadLettered = dead,
          rm_successRate = (if terminal > 0 then of_nat succeeded / of_nat terminal * 100 else 0), rm_byType = by_type ops,
          rm_avgAttemptsBeforeSuccess =
            (if succeeded > 0 then of_nat (sum_list (map ro_attempts (ops_with Op_SUCCEEDED ops))) / of_nat succeeded else 0)\<rparr>)"

datatype recommended_action = REQUEST_USER_ACTION | RETRY_OR_INVESTIGATE | INVESTIGATE

definition requiresUserAction :: "'p RetryOperation \<Rightarrow> bool" where
  "requiresUserAction op = (case ro_metadata op of None \<Rightarrow> False | Some m \<Rightarrow> md_userActionRequired m)"

definition recommendedAction :: "'p RetryOperation \<Rightarrow> recommended_action" where
  "recommendedAction op =
     (if requiresUserAction op then REQUEST_USER_ACTION
      else if ro_status op = Op_DEAD_LETTER \<and> ro_retryable op then RETRY_OR_INVESTIGATE
      else INVESTIGATE)"

section \<open>The table\<close>

datatype retry_error = Store_failed | Non_retryable string

type_synonym ('w, 'a) table_act = "'w \<Rightarrow> 'a option \<times> 'w"

text \<open>
  The queries of the service; the answer is \<open>None\<close> where the query throws.  \<open>rt_insert\<close> saves an entity without an id,
  \<open>rt_save\<close> one that was read before, \<open>rt_requeue\<close> is the update of the row with an id and a status, and \<open>rt_oldest\<close> finds the
  rows of a status, and of a type when one is given, by \<open>deadLetteredAt\<close>.
\<close>

record ('w, 'p) retry_table =
  rt_findOne :: "string \<Rightarrow> RetryOperationStatus option \<Rightarrow> ('w, 'p RetryOperation option) table_act"
  rt_insert :: "'p RetryOperation \<Rightarrow> ('w, 'p RetryOperation) table_act"
  rt_save :: "'p RetryOperation \<Rightarrow> ('w, 'p RetryOperation) table_act"
  rt_requeue :: "string \<Rightarrow> RetryOperationStatus \<Rightarrow> 'p requeue_patch \<Rightarrow> ('w, nat) table_act"
  rt_oldest :: "RetryOperationStatus \<Rightarrow> string option \<Rightarrow> int \<Rightarrow> ('w, 'p RetryOperation list) table_act"

section \<open>Calls\<close>

datatype saved_as = As_succeeded | As_failed string | As_dead string | As_in_progress

datatype 'p after_retry =
    Alone
  | In_bulk nat "'p RetryOperation list" "(string \<times> BulkRetryItemStatus) list"

datatype 'p retry_outcome =
    Returned "'p RetryOperation option"
  | Returned_bulk BulkRetryResult
  | Threw retry_error

datatype 'p retry_stage =
    Insert "'p RetryOperation"
  | Find_to_succeed string
  | Find_to_fail string string bool
  | Find_to_start string
  | Save "'p RetryOperation" saved_as
  | Find_dead string "int option" DeadLetterRetryOptions "'p after_retry"
  | Requeue string "'p RetryOperation" "'p requeue_patch" DeadLetterRetryOptions "'p after_retry"
  | Find_again string DeadLetterRetryOptions "'p after_retry"
  | List_dead "string option" int DeadLetterRetryOptions
  | Finished "'p retry_outcome"

datatype 'p retry_call =
    Schedule "'p ScheduleRetryOpts" "string option"
  | MarkSucceeded string
  | MarkFailed string string bool
  | MarkInProgress string
  | RetryDeadLetter string "int option" DeadLetterRetryOptions
  | RetryDeadLetters "string option" "rat option" DeadLetterRetryOptions

definition js_trunc :: "rat \<Rightarrow> int" where
  "js_trunc q = (if q < 0 then - \<lfloor>- q\<rfloor> else \<lfloor>q\<rfloor>)"

definition bulk_limit :: "rat option \<Rightarrow> int" where
  "bulk_limit limit = min MAX_BULK_DEAD_LETTER_RETRY (max 1 (js_trunc (or_else limit (of_int MAX_BULK_DEAD_LETTER_RETRY))))"

text \<open>What a call does before its first access.  An empty type filters nothing; a bulk retry is never forced.\<close>

fun begin_call :: "int \<Rightarrow> 'p retry_call \<Rightarrow> 'p retry_stage" where
  "begin_call now (Schedule opts ambient) = Insert (new_operation now ambient opts)"
| "begin_call now (MarkSucceeded i) = Find_to_succeed i"
| "begin_call now (MarkFailed i err retryable) = Find_to_fail i err retryable"
| "begin_call now (MarkInProgress i) = Find_to_start i"
| "begin_call now (RetryDeadLetter i newMax options) = Find_dead i newMax options Alone"
| "begin_call now (RetryDeadLetters ty limit options) =
     List_dead (case ty of None \<Rightarrow> None | Some t \<Rightarrow> if t = [] then None else Some t) (bulk_limit limit) (options\<lparr>dr_force := False\<rparr>)"

fun bulk_next :: "DeadLetterRetryOptions \<Rightarrow> nat \<Rightarrow> 'p RetryOperation list \<Rightarrow> (string \<times> BulkRetryItemStatus) list \<Rightarrow> 'p retry_stage" where
  "bulk_next options n [] results =
     Finished (Returned_bulk \<lparr>br_requested = n, br_requeued = length (filter (\<lambda>r. snd r = Requeued) results), br_results = results\<rparr>)"
| "bulk_next options n (op # ops) results =
     (if \<not> isRetryable op then bulk_next options n ops (results @ [(ro_operationId op, Skipped_non_retryable)])
      else Find_dead (ro_operationId op) None options (In_bulk n ops results))"

fun retry_returns :: "string \<Rightarrow> DeadLetterRetryOptions \<Rightarrow> 'p RetryOperation option \<Rightarrow> 'p after_retry \<Rightarrow> 'p retry_stage" where
  "retry_returns i options r Alone = Finished (Returned r)"
| "retry_returns i options r (In_bulk n ops results) =
     bulk_next options n ops (results @ [(i, if r = None then Already_retried else Requeued)])"

definition failed_stage :: "retry_env \<Rightarrow> int \<Rightarrow> rat \<Rightarrow> string \<Rightarrow> bool \<Rightarrow> 'p RetryOperation \<Rightarrow> 'p retry_stage" where
  "failed_stage E now random err retryable found =
     (let reason = re_sanitizeErrorMessage E err;
          op = found\<lparr>ro_attempts := ro_attempts found + 1, ro_lastError := Some reason\<rparr>
      in if \<not> retryable \<or> \<not> ro_retryable op
         then Save (dead_op now ''Non-retryable failure'' False op) (As_dead ''Non-retryable failure'')
         else if int (ro_attempts op) \<ge> ro_maxAttempts op
         then let why = ''Exhausted '' @ show_int (ro_maxAttempts op) @ '' retry attempts''
              in Save (dead_op now why True op) (As_dead why)
         else Save (op\<lparr>ro_status := Op_PENDING, ro_nextRetryAt := Some (calculateNextRetry now random op)\<rparr>) (As_failed reason))"

fun saved_events :: "saved_as \<Rightarrow> 'p RetryOperation \<Rightarrow> retry_event list" where
  "saved_events As_succeeded op = [Ev_succeeded (ro_operationId op) (ro_operationType op) (ro_attempts op)]"
| "saved_events (As_failed reason) op =
     [Ev_failed (ro_operationId op) (ro_operationType op) (ro_attempts op) (ro_maxAttempts op) (ro_nextRetryAt op) reason (ro_correlationId op)]"
| "saved_events (As_dead reason) op =
     [Ev_dead_letter (ro_operationId op) (ro_operationType op) (ro_attempts op) (ro_lastError op) reason (ro_correlationId op)]"
| "saved_events As_in_progress op = []"

text \<open>One access and what follows it: the next stage, the world, and the events emitted.\<close>

definition on_answer :: "('w, 'a) table_act \<Rightarrow> ('a \<Rightarrow> 'p retry_stage \<times> retry_event list) \<Rightarrow> 'w \<Rightarrow> ('p retry_stage \<times> retry_event list) \<times> 'w" where
  "on_answer m k w = (case m w of (None, w') \<Rightarrow> ((Finished (Threw Store_failed), []), w') | (Some x, w') \<Rightarrow> (k x, w'))"

fun advance :: "retry_env \<Rightarrow> ('w, 'p) retry_table \<Rightarrow> int \<Rightarrow> rat \<Rightarrow> 'p retry_stage \<Rightarrow> 'w \<Rightarrow> ('p retry_stage \<times> retry_event list) \<times> 'w" where
  "advance E T now random (Insert op) = on_answer (rt_insert T op) (\<lambda>saved. (Finished (Returned (Some saved)), []))"
| "advance E T now random (Find_to_succeed i) =
     on_answer (rt_findOne T i None) (\<lambda>found. (case found of None \<Rightarrow> Finished (Returned None) | Some op \<Rightarrow> Save (succeeded_op now op) As_succeeded, []))"
| "advance E T now random (Find_to_fail i err retryable) =
     on_answer (rt_findOne T i None) (\<lambda>found. (case found of None \<Rightarrow> Finished (Returned None) | Some op \<Rightarrow> failed_stage E now random err retryable op, []))"
| "advance E T now random (Find_to_start i) =
     on_answer (rt_findOne T i None) (\<lambda>found. (case found of None \<Rightarrow> Finished (Returned None) | Some op \<Rightarrow> Save (op\<lparr>ro_status := Op_IN_PROGRESS\<rparr>) As_in_progress, []))"
| "advance E T now random (Save op k) =
     on_answer (rt_save T op) (\<lambda>saved. (Finished (Returned (Some saved)), saved_events k saved))"
| "advance E T now random (Find_dead i newMax options k) =
     on_answer (rt_findOne T i (Some Op_DEAD_LETTER)) (\<lambda>found.
       (case found of
          None \<Rightarrow> retry_returns i options None k
        | Some op \<Rightarrow>
            if \<not> dr_force options \<and> \<not> isRetryable op
            then Finished (Threw (Non_retryable (''Operation '' @ i @ '' failed with a non-retryable error; fix the cause and retry with force'')))
            else Requeue i op (requeue_patch_of E now newMax options op) options k, []))"
| "advance E T now random (Requeue i op q options k) =
     on_answer (rt_requeue T (ro_id op) Op_DEAD_LETTER q) (\<lambda>affected.
       if affected \<noteq> 1 then (retry_returns i options None k, [])
       else (Find_again i options k, [Ev_dead_letter_retried i (ro_operationType op) (or_else (dr_actor options) ''system'') (dr_force options)]))"
| "advance E T now random (Find_again i options k) =
     on_answer (rt_findOne T i None) (\<lambda>found. (retry_returns i options found k, []))"
| "advance E T now random (List_dead ty limit options) =
     on_answer (rt_oldest T Op_DEAD_LETTER ty limit) (\<lambda>ops. (bulk_next options (length ops) ops [], []))"
| "advance E T now random (Finished r) = (\<lambda>w. ((Finished r, []), w))"

section \<open>Runs\<close>

text \<open>
  Calls in progress by number.  The trail of a run has what the service emitted and, where a dead letter is about to be
  saved, its operation id, whether or not the save is answered.
\<close>

datatype trail_entry = Emitted retry_event | Dead_lettering string

record ('w, 'p) retry_run =
  rr_world :: 'w
  rr_calls :: "(nat, 'p retry_stage) jsmap"
  rr_trail :: "trail_entry list"

datatype 'p retry_move =
    Begin nat int "'p retry_call"
  | Go nat int rat

fun dead_saves :: "'p retry_stage \<Rightarrow> trail_entry list" where
  "dead_saves (Save op (As_dead reason)) = [Dead_lettering (ro_operationId op)]"
| "dead_saves _ = []"

fun retry_step :: "retry_env \<Rightarrow> ('w, 'p) retry_table \<Rightarrow> 'p retry_move \<Rightarrow> ('w, 'p) retry_run \<Rightarrow> ('w, 'p) retry_run" where
  "retry_step E T (Begin n now c) s =
     (if map_has (rr_calls s) n then s else s\<lparr>rr_calls := map_set n (begin_call now c) (rr_calls s)\<rparr>)"
| "retry_step E T (Go n now random) s =
     (case map_get (rr_calls s) n of
        None \<Rightarrow> s
      | Some g \<Rightarrow>
          let ((g', evs), w) = advance E T now random g (rr_world s)
          in s\<lparr>rr_world := w, rr_calls := map_set n g' (rr_calls s), rr_trail := rr_trail s @ dead_saves g @ map Emitted evs\<rparr>)"

definition fresh_run :: "'w \<Rightarrow> ('w, 'p) retry_run" where
  "fresh_run w = \<lparr>rr_world = w, rr_calls = [], rr_trail = []\<rparr>"

section \<open>What the service relies on\<close>

abbreviation dead_in :: "(string \<rightharpoonup> 'p RetryOperation) \<Rightarrow> string \<Rightarrow> bool" where
  "dead_in m i \<equiv> (case m i of None \<Rightarrow> False | Some r \<Rightarrow> ro_status r = Op_DEAD_LETTER)"

definition names_rows :: "(string \<rightharpoonup> 'p RetryOperation) \<Rightarrow> bool" where
  "names_rows m \<longleftrightarrow> (\<forall>i r. m i = Some r \<longrightarrow> ro_operationId r = i) \<and>
     (\<forall>i j r r'. m i = Some r \<longrightarrow> m j = Some r' \<longrightarrow> ro_id r = ro_id r' \<longrightarrow> i = j)"

definition known :: "(string \<rightharpoonup> 'p RetryOperation) \<Rightarrow> 'p RetryOperation \<Rightarrow> bool" where
  "known m op \<longleftrightarrow> (\<exists>r. m (ro_operationId op) = Some r \<and> ro_id r = ro_id op)"

text \<open>What the stage of a call knows of the table, and what one access does to it.\<close>

fun stage_ok :: "(string \<rightharpoonup> 'p RetryOperation) \<Rightarrow> 'p retry_stage \<Rightarrow> bool" where
  "stage_ok m (Insert op) \<longleftrightarrow> ro_status op = Op_PENDING"
| "stage_ok m (Save op k) \<longleftrightarrow> known m op \<and> (ro_status op = Op_DEAD_LETTER \<longrightarrow> (\<exists>reason. k = As_dead reason))"
| "stage_ok m (Requeue i op q options k) \<longleftrightarrow> known m op \<and> ro_operationId op = i"
| "stage_ok m _ \<longleftrightarrow> True"

definition retried_events :: "string \<Rightarrow> retry_event list \<Rightarrow> retry_event list" where
  "retried_events i evs = filter (\<lambda>e. case e of Ev_dead_letter_retried j _ _ _ \<Rightarrow> j = i | _ \<Rightarrow> False) evs"

lemma retried_events_simps [simp]:
  "retried_events i [] = []"
  "retried_events i [Ev_dead_letter_retried j t b f] = (if j = i then [Ev_dead_letter_retried j t b f] else [])"
  "retried_events i [Ev_succeeded j t n] = []"
  "retried_events i [Ev_failed j t n m x e c] = []"
  "retried_events i [Ev_dead_letter j t n le r c] = []"
  by (simp_all add: retried_events_def)

definition rows_change :: "'p retry_stage \<Rightarrow> (string \<rightharpoonup> 'p RetryOperation) \<Rightarrow> (string \<rightharpoonup> 'p RetryOperation) \<Rightarrow> retry_event list \<Rightarrow> bool" where
  "rows_change g m m' evs \<longleftrightarrow>
     m' = m \<and> (\<forall>i. retried_events i evs = []) \<or>
     (\<exists>op i. g = Insert op \<and> m (ro_operationId op) = None \<and> m' = m(ro_operationId op \<mapsto> op\<lparr>ro_id := i\<rparr>) \<and> evs = []) \<or>
     (\<exists>op k. g = Save op k \<and> m' = m(ro_operationId op \<mapsto> op) \<and> (\<forall>i. retried_events i evs = [])) \<or>
     (\<exists>i op q options k r. g = Requeue i op q options k \<and> m i = Some r \<and> ro_status r = Op_DEAD_LETTER \<and> ro_id r = ro_id op \<and>
        m' = m(i \<mapsto> requeued_op q r) \<and> length (retried_events i evs) \<le> 1 \<and> (\<forall>j. j \<noteq> i \<longrightarrow> retried_events j evs = []))"

lemma bulk_next_ok [simp]: "stage_ok m (bulk_next options n ops results)"
  by (induction options n ops results rule: bulk_next.induct) simp_all

lemma retry_returns_ok [simp]: "stage_ok m (retry_returns i options r k)"
  by (cases k) simp_all

lemma failed_stage_ok: "m i = Some op \<Longrightarrow> ro_operationId op = i \<Longrightarrow> stage_ok m (failed_stage E now random err retryable op)"
  by (auto simp: failed_stage_def Let_def known_def dead_op_def)

lemma set_update_values: "h \<in> snd ` set (map_set n g calls) \<Longrightarrow> h = g \<or> h \<in> snd ` set calls"
  by (induction calls) (auto split: if_splits)

lemma known_kept:
  assumes "rows_change g m m' evs" "stage_ok m g" "known m op"
  shows "known m' op"
  using assms by (auto simp: rows_change_def known_def requeued_op_def)

lemma stage_ok_kept:
  assumes "rows_change g m m' evs" "stage_ok m g" "stage_ok m h"
  shows "stage_ok m' h"
  using assms known_kept [OF assms(1,2)] by (cases h) auto

text \<open>How often an operation was re-queued, and how often it went to the dead letters.\<close>

definition times_retried :: "string \<Rightarrow> trail_entry list \<Rightarrow> nat" where
  "times_retried i tr = length (filter (\<lambda>x. case x of Emitted (Ev_dead_letter_retried j _ _ _) \<Rightarrow> j = i | _ \<Rightarrow> False) tr)"

definition times_dead :: "string \<Rightarrow> trail_entry list \<Rightarrow> nat" where
  "times_dead i tr = length (filter (\<lambda>x. x = Dead_lettering i) tr)"

lemma times_retried_append:
  "times_retried i (tr @ dead_saves g @ map Emitted evs) = times_retried i tr + length (retried_events i evs)"
proof -
  have "times_retried i (map Emitted evs) = length (retried_events i evs)"
    by (simp add: times_retried_def retried_events_def filter_map comp_def)
  moreover have "times_retried i (dead_saves g) = 0" by (cases g rule: dead_saves.cases) (simp_all add: times_retried_def)
  ultimately show ?thesis by (simp add: times_retried_def)
qed

lemma times_dead_append: "times_dead i (tr @ dead_saves g @ map Emitted evs) = times_dead i tr + times_dead i (dead_saves g)"
  by (simp add: times_dead_def filter_map comp_def)

lemma retried_balance:
  assumes "rows_change g m m' evs" "stage_ok m g"
  shows "length (retried_events i evs) + of_bool (dead_in m' i) \<le> times_dead i (dead_saves g) + of_bool (dead_in m i)"
  using assms(1) unfolding rows_change_def
proof (elim disjE exE conjE)
  fix op k
  assume "g = Save op k" "m' = m(ro_operationId op \<mapsto> op)" "\<forall>i. retried_events i evs = []"
  then show ?thesis using assms(2) by (cases k) (auto simp: times_dead_def)
qed (use assms(2) in \<open>auto simp: times_dead_def requeued_op_def\<close>)

text \<open>
  Rows as the service leaves them: an operation that waits has attempts left and a time, a dead letter has its note, and a
  success its time; no row is ever marked as failed.
\<close>

definition op_wf :: "'p RetryOperation \<Rightarrow> bool" where
  "op_wf r \<longleftrightarrow> 1 \<le> ro_maxAttempts r \<and> length (deadLetterRetries r) \<le> MAX_RETRY_AUDIT_ENTRIES \<and> ro_status r \<noteq> Op_FAILED \<and>
     (ro_status r = Op_PENDING \<longrightarrow> int (ro_attempts r) < ro_maxAttempts r \<and> ro_nextRetryAt r \<noteq> None) \<and>
     (ro_status r = Op_DEAD_LETTER \<longrightarrow> ro_nextRetryAt r = None \<and> ro_deadLetteredAt r \<noteq> None \<and> (\<exists>m. ro_metadata r = Some m \<and> md_deadLetter m \<noteq> None)) \<and>
     (ro_status r = Op_SUCCEEDED \<longrightarrow> ro_nextRetryAt r = None \<and> ro_completedAt r \<noteq> None)"

fun call_allowed :: "'p retry_call \<Rightarrow> bool" where
  "call_allowed (Schedule opts ambient) \<longleftrightarrow> 1 \<le> or_else (so_maxAttempts opts) 3 \<and>
     length (case so_metadata opts of None \<Rightarrow> [] | Some m \<Rightarrow> or_else (md_deadLetterRetries m) []) \<le> MAX_RETRY_AUDIT_ENTRIES"
| "call_allowed (RetryDeadLetter i newMax options) \<longleftrightarrow> 1 \<le> or_else newMax 1"
| "call_allowed _ \<longleftrightarrow> True"

fun move_allowed :: "'p retry_move \<Rightarrow> bool" where
  "move_allowed (Begin n now c) = call_allowed c"
| "move_allowed (Go n now random) = True"

fun stage_wf :: "'p retry_stage \<Rightarrow> bool" where
  "stage_wf (Insert op) = op_wf op"
| "stage_wf (Save op k) = op_wf op"
| "stage_wf (Find_dead i newMax options k) \<longleftrightarrow> 1 \<le> or_else newMax 1"
| "stage_wf (Requeue i op q options k) \<longleftrightarrow> 1 \<le> rq_maxAttempts q \<and> length (or_else (md_deadLetterRetries (rq_metadata q)) []) \<le> MAX_RETRY_AUDIT_ENTRIES"
| "stage_wf _ = True"

lemma bulk_next_wf [simp]: "stage_wf (bulk_next options n ops results)"
  by (induction options n ops results rule: bulk_next.induct) simp_all

lemma retry_returns_wf [simp]: "stage_wf (retry_returns i options r k)"
  by (cases k) simp_all

lemma begin_wf: "call_allowed c \<Longrightarrow> stage_wf (begin_call now c)"
  by (cases c) (auto simp: new_operation_def op_wf_def deadLetterRetries_def)

lemma failed_stage_wf: "op_wf op \<Longrightarrow> stage_wf (failed_stage E now random err retryable op)"
  by (auto simp: failed_stage_def Let_def op_wf_def dead_op_def deadLetterRetries_def spread_metadata_def split: option.splits)

lemma succeeded_wf: "op_wf op \<Longrightarrow> op_wf (succeeded_op now op)"
  by (auto simp: op_wf_def succeeded_op_def deadLetterRetries_def)

lemma in_progress_wf: "op_wf op \<Longrightarrow> op_wf (op\<lparr>ro_status := Op_IN_PROGRESS\<rparr>)"
  by (auto simp: op_wf_def deadLetterRetries_def)

lemma requeue_stage_wf: "op_wf op \<Longrightarrow> 1 \<le> or_else newMax 1 \<Longrightarrow> stage_wf (Requeue i op (requeue_patch_of E now newMax options op) options k)"
  by (auto simp: op_wf_def requeue_patch_of_def last_entries_def split: option.splits)

lemma requeued_wf: "stage_wf (Requeue i op q options k) \<Longrightarrow> op_wf (requeued_op q r)"
  by (auto simp: op_wf_def requeued_op_def deadLetterRetries_def)

lemma rows_wf_kept:
  assumes "rows_change g m m' evs" "stage_wf g" "\<forall>i r. m i = Some r \<longrightarrow> op_wf r" "m' i = Some r"
  shows "op_wf r"
proof -
  have "op_wf (op\<lparr>ro_id := k\<rparr>) = op_wf op" for op :: "'a RetryOperation" and k by (simp add: op_wf_def deadLetterRetries_def)
  with assms show ?thesis by (auto simp: rows_change_def requeued_wf split: if_splits)
qed

text \<open>
  Operation ids are unique and so are row ids; a query that throws may have taken effect, but one that is
  answered did what its answer says.
\<close>

locale retry_rows =
  fixes T :: "('w, 'p) retry_table"
    and tbl :: "'w \<Rightarrow> string \<rightharpoonup> 'p RetryOperation"
    and good :: "'w \<Rightarrow> bool"
  assumes good_names: "good w \<Longrightarrow> names_rows (tbl w)"
    and findOne_law: "good w \<Longrightarrow> rt_findOne T i st w = (a, w') \<Longrightarrow> good w' \<and> tbl w' = tbl w \<and>
      (\<forall>x. a = Some x \<longrightarrow> x = (case tbl w i of None \<Rightarrow> None | Some r \<Rightarrow> if st = None \<or> st = Some (ro_status r) then Some r else None))"
    and insert_law: "good w \<Longrightarrow> rt_insert T op w = (b, w') \<Longrightarrow> good w' \<and>
      (tbl w' = tbl w \<and> b = None \<or>
       (\<exists>i. tbl w (ro_operationId op) = None \<and> tbl w' = (tbl w)(ro_operationId op \<mapsto> op\<lparr>ro_id := i\<rparr>) \<and> b \<in> {None, Some (op\<lparr>ro_id := i\<rparr>)}))"
    and save_law: "good w \<Longrightarrow> known (tbl w) op \<Longrightarrow> rt_save T op w = (b, w') \<Longrightarrow> good w' \<and>
      (tbl w' = tbl w \<and> b = None \<or> tbl w' = (tbl w)(ro_operationId op \<mapsto> op) \<and> b \<in> {None, Some op})"
    and requeue_law: "good w \<Longrightarrow> rt_requeue T i s q w = (c, w') \<Longrightarrow> good w' \<and>
      (tbl w' = tbl w \<and> c \<in> {None, Some 0} \<or>
       (\<exists>k r. tbl w k = Some r \<and> ro_id r = i \<and> ro_status r = s \<and> tbl w' = (tbl w)(k \<mapsto> requeued_op q r) \<and> c \<in> {None, Some 1}))"
    and oldest_law: "good w \<Longrightarrow> rt_oldest T s ty n w = (l, w') \<Longrightarrow> good w' \<and> tbl w' = tbl w \<and>
      (\<forall>ops. l = Some ops \<longrightarrow> (0 \<le> n \<longrightarrow> int (length ops) \<le> n) \<and> (\<forall>op \<in> set ops. tbl w (ro_operationId op) = Some op \<and> ro_status op = s))"
begin

text \<open>What one access does to the rows.\<close>

lemma advance_rows:
  assumes good: "good w" and ok: "stage_ok (tbl w) g" and adv: "advance E T now random g w = ((g', evs), w')"
  shows "good w' \<and> rows_change g (tbl w) (tbl w') evs \<and> stage_ok (tbl w') g'"
proof (cases g)
  case (Insert op)
  obtain b where ins: "rt_insert T op w = (b, w')" using adv Insert by (auto simp: on_answer_def split: prod.splits option.splits)
  then show ?thesis using insert_law [OF good ins] ok adv Insert
    by (auto simp: on_answer_def rows_change_def split: option.splits)
next
  case (Find_to_succeed i)
  obtain a where find: "rt_findOne T i None w = (a, w')" using adv Find_to_succeed by (auto simp: on_answer_def split: prod.splits option.splits)
  then show ?thesis using findOne_law [OF good find] good_names [OF good] adv Find_to_succeed
    by (auto simp: on_answer_def rows_change_def known_def names_rows_def succeeded_op_def split: option.splits)
next
  case (Find_to_fail i err retryable)
  obtain a where find: "rt_findOne T i None w = (a, w')" using adv Find_to_fail by (auto simp: on_answer_def split: prod.splits option.splits)
  then show ?thesis using findOne_law [OF good find] good_names [OF good] adv Find_to_fail
    by (auto simp: on_answer_def rows_change_def names_rows_def failed_stage_ok split: option.splits)
next
  case (Find_to_start i)
  obtain a where find: "rt_findOne T i None w = (a, w')" using adv Find_to_start by (auto simp: on_answer_def split: prod.splits option.splits)
  then show ?thesis using findOne_law [OF good find] good_names [OF good] adv Find_to_start
    by (auto simp: on_answer_def rows_change_def known_def names_rows_def split: option.splits)
next
  case (Save op k)
  obtain b where save: "rt_save T op w = (b, w')" using adv Save by (auto simp: on_answer_def split: prod.splits option.splits)
  have kn: "known (tbl w) op" using ok Save by simp
  have unretried: "retried_events i (saved_events k op) = []" for i by (cases k) simp_all
  from save_law [OF good kn save] show ?thesis using adv Save ok save unretried
    by (auto simp: on_answer_def rows_change_def)
next
  case (Find_dead i newMax options k)
  obtain a where find: "rt_findOne T i (Some Op_DEAD_LETTER) w = (a, w')" using adv Find_dead by (auto simp: on_answer_def split: prod.splits option.splits)
  then show ?thesis using findOne_law [OF good find] good_names [OF good] adv Find_dead
    by (auto simp: on_answer_def rows_change_def known_def names_rows_def retry_returns_ok split: option.splits if_splits)
next
  case (Requeue i op q options k)
  obtain c where req: "rt_requeue T (ro_id op) Op_DEAD_LETTER q w = (c, w')" using adv Requeue by (auto simp: on_answer_def split: prod.splits option.splits)
  have kn: "known (tbl w) op" "ro_operationId op = i" using ok Requeue by simp_all
  from requeue_law [OF good req] consider "good w'" "tbl w' = tbl w" "c \<in> {None, Some 0}"
    | k r where "good w'" "tbl w k = Some r" "ro_id r = ro_id op" "ro_status r = Op_DEAD_LETTER" "tbl w' = (tbl w)(k \<mapsto> requeued_op q r)" "c \<in> {None, Some 1}" by blast
  then show ?thesis
  proof cases
    case 1
    then show ?thesis using adv Requeue req by (auto simp: on_answer_def rows_change_def retry_returns_ok)
  next
    case (2 k r)
    have "k = i" using kn 2(2,3) good_names [OF good] unfolding known_def names_rows_def by metis
    then show ?thesis using adv Requeue req 2 by (auto simp: on_answer_def rows_change_def)
  qed
next
  case (Find_again i options k)
  obtain a where find: "rt_findOne T i None w = (a, w')" using adv Find_again by (auto simp: on_answer_def split: prod.splits option.splits)
  then show ?thesis using findOne_law [OF good find] adv Find_again by (auto simp: on_answer_def rows_change_def retry_returns_ok split: option.splits)
next
  case (List_dead ty n options)
  obtain l where find: "rt_oldest T Op_DEAD_LETTER ty n w = (l, w')" using adv List_dead by (auto simp: on_answer_def split: prod.splits option.splits)
  then show ?thesis using oldest_law [OF good find] adv List_dead by (auto simp: on_answer_def rows_change_def bulk_next_ok split: option.splits)
next
  case (Finished r)
  then have "g' = Finished r" "evs = []" "w' = w" using adv by simp_all
  then show ?thesis using good by (simp add: rows_change_def)
qed

definition run_ok :: "(string \<rightharpoonup> 'p RetryOperation) \<Rightarrow> ('w, 'p) retry_run \<Rightarrow> bool" where
  "run_ok m0 s \<longleftrightarrow> good (rr_world s) \<and> (\<forall>g \<in> snd ` set (rr_calls s). stage_ok (tbl (rr_world s)) g) \<and>
     (\<forall>i. times_retried i (rr_trail s) + of_bool (dead_in (tbl (rr_world s)) i) \<le> times_dead i (rr_trail s) + of_bool (dead_in m0 i))"

lemma begin_ok: "stage_ok m (begin_call now c)"
  by (cases c) (simp_all add: new_operation_def)

lemma run_ok_step:
  assumes "run_ok m0 s"
  shows "run_ok m0 (retry_step E T mv s)"
proof (cases mv)
  case (Begin n now c)
  have "stage_ok (tbl (rr_world s)) h" if "h \<in> snd ` set (map_set n (begin_call now c) (rr_calls s))" for h
    using set_update_values [OF that] begin_ok assms unfolding run_ok_def by metis
  then show ?thesis using assms Begin by (simp add: run_ok_def)
next
  case (Go n now random)
  show ?thesis
  proof (cases "map_get (rr_calls s) n")
    case None
    then show ?thesis using assms Go by simp
  next
    case (Some g)
    obtain g' evs w' where adv: "advance E T now random g (rr_world s) = ((g', evs), w')" by (metis surj_pair)
    have g: "g \<in> snd ` set (rr_calls s)" using map_of_SomeD [OF Some] by force
    have ok: "good (rr_world s)" "stage_ok (tbl (rr_world s)) g" using assms g by (auto simp: run_ok_def)
    note ch = advance_rows [OF ok adv]
    have calls: "stage_ok (tbl w') h" if "h \<in> snd ` set (map_set n g' (rr_calls s))" for h
    proof (cases "h = g'")
      case False
      then have "h \<in> snd ` set (rr_calls s)" using set_update_values [OF that] by blast
      then show ?thesis using stage_ok_kept ch ok(2) assms unfolding run_ok_def by blast
    qed (use ch in simp)
    have "times_retried i (rr_trail s) + length (retried_events i evs) + of_bool (dead_in (tbl w') i)
        \<le> times_dead i (rr_trail s) + times_dead i (dead_saves g) + of_bool (dead_in m0 i)" for i
    proof -
      have "times_retried i (rr_trail s) + of_bool (dead_in (tbl (rr_world s)) i) \<le> times_dead i (rr_trail s) + of_bool (dead_in m0 i)"
        using assms unfolding run_ok_def by blast
      with retried_balance [OF conjunct1 [OF conjunct2 [OF ch]] ok(2), of i] show ?thesis by linarith
    qed
    then show ?thesis using Go Some adv ch calls by (simp add: run_ok_def times_retried_append times_dead_append)
  qed
qed

lemma retried_at_most_dead:
  assumes "good w"
  shows "times_retried i (rr_trail (run (retry_step E T) mvs (fresh_run w))) \<le>
    times_dead i (rr_trail (run (retry_step E T) mvs (fresh_run w))) + of_bool (dead_in (tbl w) i)"
proof -
  have "run_ok (tbl w) (fresh_run w)" using assms by (simp add: run_ok_def fresh_run_def times_retried_def)
  moreover have "run_ok (tbl w) s \<Longrightarrow> run_ok (tbl w) (run (retry_step E T) mvs s)" for s
    by (induction mvs arbitrary: s) (auto intro: run_ok_step)
  ultimately have "run_ok (tbl w) (run (retry_step E T) mvs (fresh_run w))" by blast
  then have "times_retried i (rr_trail (run (retry_step E T) mvs (fresh_run w))) +
      of_bool (dead_in (tbl (rr_world (run (retry_step E T) mvs (fresh_run w)))) i) \<le>
      times_dead i (rr_trail (run (retry_step E T) mvs (fresh_run w))) + of_bool (dead_in (tbl w) i)"
    unfolding run_ok_def by blast
  then show ?thesis by linarith
qed

text \<open>Well-formed rows.\<close>

lemma found_wf:
  assumes "good w" "\<forall>i r. tbl w i = Some r \<longrightarrow> op_wf r" "\<And>found. (\<forall>op. found = Some op \<longrightarrow> op_wf op) \<Longrightarrow> stage_wf (fst (k found))"
    and adv: "on_answer (rt_findOne T i st) k w = ((g', evs), w')"
  shows "stage_wf g'"
proof -
  obtain a w1 where find: "rt_findOne T i st w = (a, w1)" by fastforce
  show ?thesis
  proof (cases a)
    case None
    then show ?thesis using adv find by (auto simp: on_answer_def)
  next
    case (Some x)
    have "x = (case tbl w i of None \<Rightarrow> None | Some r \<Rightarrow> if st = None \<or> st = Some (ro_status r) then Some r else None)"
      using findOne_law [OF assms(1) find] Some by blast
    then have "\<forall>op. x = Some op \<longrightarrow> op_wf op" using assms(2) by (auto split: option.splits if_splits)
    from assms(3) [OF this] show ?thesis using adv find Some by (auto simp: on_answer_def)
  qed
qed

lemma advance_wf:
  assumes good: "good w" "\<forall>i r. tbl w i = Some r \<longrightarrow> op_wf r" and wf: "stage_wf g" and adv: "advance E T now random g w = ((g', evs), w')"
  shows "stage_wf g'"
proof (cases g)
  case (Find_to_succeed i)
  show ?thesis by (rule found_wf [OF good _ adv [unfolded Find_to_succeed advance.simps]]) (auto simp: succeeded_wf split: option.splits)
next
  case (Find_to_fail i err retryable)
  show ?thesis by (rule found_wf [OF good _ adv [unfolded Find_to_fail advance.simps]]) (auto simp: failed_stage_wf split: option.splits)
next
  case (Find_to_start i)
  show ?thesis by (rule found_wf [OF good _ adv [unfolded Find_to_start advance.simps]]) (auto simp: in_progress_wf split: option.splits)
next
  case (Find_dead i newMax options k)
  have "1 \<le> or_else newMax 1" using wf Find_dead by simp
  then show ?thesis
    by (intro found_wf [OF good _ adv [unfolded Find_dead advance.simps]]) (auto simp del: stage_wf.simps(4) intro: requeue_stage_wf split: option.splits)
next
  case (Find_again i options k)
  show ?thesis by (rule found_wf [OF good _ adv [unfolded Find_again advance.simps]]) simp
qed (use adv in \<open>auto simp: on_answer_def split: prod.splits option.splits if_splits\<close>)

definition run_wf :: "('w, 'p) retry_run \<Rightarrow> bool" where
  "run_wf s \<longleftrightarrow> (\<forall>i r. tbl (rr_world s) i = Some r \<longrightarrow> op_wf r) \<and> (\<forall>g \<in> snd ` set (rr_calls s). stage_wf g)"

lemma run_wf_step:
  assumes ok: "run_ok m0 s" and wf: "run_wf s" and mv: "move_allowed mv"
  shows "run_wf (retry_step E T mv s)"
proof (cases mv)
  case (Begin n now c)
  have "stage_wf h" if "h \<in> snd ` set (map_set n (begin_call now c) (rr_calls s))" for h
    using set_update_values [OF that] begin_wf [of c now] wf mv Begin unfolding run_wf_def by auto
  then show ?thesis using wf Begin by (simp add: run_wf_def)
next
  case (Go n now random)
  show ?thesis
  proof (cases "map_get (rr_calls s) n")
    case None
    then show ?thesis using wf Go by simp
  next
    case (Some g)
    obtain g' evs w' where adv: "advance E T now random g (rr_world s) = ((g', evs), w')" by (metis surj_pair)
    have g: "g \<in> snd ` set (rr_calls s)" using map_of_SomeD [OF Some] by force
    have gd: "good (rr_world s)" "stage_ok (tbl (rr_world s)) g" using ok g by (auto simp: run_ok_def)
    have rows: "\<forall>i r. tbl (rr_world s) i = Some r \<longrightarrow> op_wf r" and gw: "stage_wf g" using wf g by (auto simp: run_wf_def)
    have "stage_wf h" if "h \<in> snd ` set (map_set n g' (rr_calls s))" for h
      using set_update_values [OF that] advance_wf [OF gd(1) rows gw adv] wf unfolding run_wf_def by blast
    moreover have "op_wf r" if "tbl w' i = Some r" for i r
      using rows_wf_kept [OF conjunct1 [OF conjunct2 [OF advance_rows [OF gd adv]]] gw rows that] .
    ultimately show ?thesis using Go Some adv by (simp add: run_wf_def)
  qed
qed

lemma rows_stay_wf:
  assumes "good w" "\<forall>i r. tbl w i = Some r \<longrightarrow> op_wf r" "list_all move_allowed mvs" "tbl (rr_world (run (retry_step E T) mvs (fresh_run w))) i = Some r"
  shows "op_wf r"
proof -
  have "run_ok (tbl w) (fresh_run w) \<and> run_wf (fresh_run w)" using assms(1,2) by (simp add: run_ok_def run_wf_def fresh_run_def times_retried_def)
  moreover have "run_ok (tbl w) s \<and> run_wf s \<Longrightarrow> run_wf (run (retry_step E T) mvs s)" for s
    using assms(3) by (induction mvs arbitrary: s) (auto intro: run_ok_step run_wf_step)
  ultimately show ?thesis using assms(4) unfolding run_wf_def by blast
qed

end

section \<open>A table\<close>

text \<open>
  A table with a unique index on \<open>operationId\<close>.  Each access is answered, refused, or takes effect without an answer, as
  the list of faults says; when it is used up every access is answered.
\<close>

datatype retry_fault = Answered | Refused | Unanswered

record 'p kept_rows =
  kt_rows :: "(string, 'p RetryOperation) jsmap"
  kt_ids :: nat
  kt_faults :: "retry_fault list"

definition accessed :: "('p kept_rows \<Rightarrow> 'a option \<times> 'p kept_rows) \<Rightarrow> ('p kept_rows, 'a) table_act" where
  "accessed f w =
     (let w1 = w\<lparr>kt_faults := tl (kt_faults w)\<rparr> in
      case kt_faults w of
        Refused # _ \<Rightarrow> (None, w1)
      | Unanswered # _ \<Rightarrow> (None, snd (f w1))
      | _ \<Rightarrow> f w1)"

definition row_id :: "nat \<Rightarrow> string" where
  "row_id n = replicate n CHR ''0''"

definition kept_table :: "('p kept_rows, 'p) retry_table" where
  "kept_table =
     \<lparr>rt_findOne = (\<lambda>i st. accessed (\<lambda>w.
        (Some (case map_get (kt_rows w) i of None \<Rightarrow> None | Some r \<Rightarrow> if st = None \<or> st = Some (ro_status r) then Some r else None), w))),
      rt_insert = (\<lambda>op. accessed (\<lambda>w.
        if map_has (kt_rows w) (ro_operationId op) then (None, w)
        else let op' = op\<lparr>ro_id := row_id (kt_ids w)\<rparr>
             in (Some op', w\<lparr>kt_rows := map_set (ro_operationId op) op' (kt_rows w), kt_ids := Suc (kt_ids w)\<rparr>))),
      rt_save = (\<lambda>op. accessed (\<lambda>w. (Some op, w\<lparr>kt_rows := map_set (ro_operationId op) op (kt_rows w)\<rparr>))),
      rt_requeue = (\<lambda>i s q. accessed (\<lambda>w.
        case find (\<lambda>r. ro_id r = i \<and> ro_status r = s) (map snd (kt_rows w)) of
          None \<Rightarrow> (Some 0, w)
        | Some r \<Rightarrow> (Some 1, w\<lparr>kt_rows := map_set (ro_operationId r) (requeued_op q r) (kt_rows w)\<rparr>))),
      rt_oldest = (\<lambda>s ty n. accessed (\<lambda>w.
        (Some (take (nat n) (js_sort (\<lambda>a b. or_else (ro_deadLetteredAt a) 0 \<le> or_else (ro_deadLetteredAt b) 0)
           (filter (\<lambda>r. ro_status r = s \<and> (ty = None \<or> ty = Some (ro_operationType r))) (map snd (kt_rows w))))), w)))\<rparr>"

definition kept_good :: "'p kept_rows \<Rightarrow> bool" where
  "kept_good w \<longleftrightarrow> map_wf (kt_rows w) \<and> names_rows (map_of (kt_rows w)) \<and> (\<forall>i r. map_of (kt_rows w) i = Some r \<longrightarrow> length (ro_id r) < kt_ids w)"

text \<open>An access keeps what its function keeps, answered or not.\<close>

lemma accessed_cases:
  assumes "accessed f w = (a, w')"
  obtains "a = None" "w' = w\<lparr>kt_faults := tl (kt_faults w)\<rparr>"
    | "a \<in> {None, fst (f (w\<lparr>kt_faults := tl (kt_faults w)\<rparr>))}" "w' = snd (f (w\<lparr>kt_faults := tl (kt_faults w)\<rparr>))"
proof -
  define x where "x = f (w\<lparr>kt_faults := tl (kt_faults w)\<rparr>)"
  consider fs where "kt_faults w = Refused # fs" | fs where "kt_faults w = Unanswered # fs" | "accessed f w = x"
    by (cases "kt_faults w"; cases "hd (kt_faults w)") (simp_all add: accessed_def x_def)
  then show thesis
  proof cases
    case (1 fs)
    then show ?thesis using assms that(1) by (simp add: accessed_def)
  next
    case (2 fs)
    then show ?thesis using assms that(2) by (simp add: accessed_def x_def [symmetric])
  next
    case 3
    then have "fst x = a" "snd x = w'" using assms by (metis fst_conv, metis snd_conv)
    then show ?thesis using that(2) unfolding x_def by blast
  qed
qed

lemma kept_good_faults [simp]: "kept_good (w\<lparr>kt_faults := fs\<rparr>) = kept_good w"
  by (simp add: kept_good_def)

lemma names_rows_set:
  assumes "names_rows m" "known m op"
  shows "names_rows (m(ro_operationId op \<mapsto> op))"
  using assms unfolding names_rows_def known_def by (auto split: if_splits)

lemma kept_good_set:
  assumes "kept_good w" "known (map_of (kt_rows w)) op"
  shows "kept_good (w\<lparr>kt_rows := map_set (ro_operationId op) op (kt_rows w)\<rparr>)"
proof -
  from assms(2) obtain r where r: "map_of (kt_rows w) (ro_operationId op) = Some r" "ro_id r = ro_id op" by (auto simp: known_def)
  then have "length (ro_id op) < kt_ids w" using assms(1) by (metis kept_good_def)
  then show ?thesis using assms(1) names_rows_set [OF _ assms(2)] by (auto simp: kept_good_def update_conv' split: if_splits)
qed

lemma kept_good_insert:
  assumes "kept_good w" "map_of (kt_rows w) (ro_operationId op) = None"
  shows "kept_good (w\<lparr>kt_rows := map_set (ro_operationId op) (op\<lparr>ro_id := row_id (kt_ids w)\<rparr>) (kt_rows w), kt_ids := Suc (kt_ids w)\<rparr>)"
proof -
  have len: "length (row_id n) = n" for n by (simp add: row_id_def)
  have new: "map_of (kt_rows w) i = Some r \<Longrightarrow> ro_id r \<noteq> row_id (kt_ids w)" for i r
    using assms(1) len [of "kt_ids w"] unfolding kept_good_def by (metis less_irrefl)
  have nm: "names_rows (map_of (kt_rows w))" using assms(1) by (simp add: kept_good_def)
  have "names_rows ((map_of (kt_rows w))(ro_operationId op \<mapsto> op\<lparr>ro_id := row_id (kt_ids w)\<rparr>))"
    unfolding names_rows_def
  proof (intro conjI allI impI)
    fix i j r r'
    assume "((map_of (kt_rows w))(ro_operationId op \<mapsto> op\<lparr>ro_id := row_id (kt_ids w)\<rparr>)) i = Some r"
      "((map_of (kt_rows w))(ro_operationId op \<mapsto> op\<lparr>ro_id := row_id (kt_ids w)\<rparr>)) j = Some r'" "ro_id r = ro_id r'"
    then show "i = j" using nm new [of i r] new [of j r'] unfolding names_rows_def by (auto split: if_splits)
  qed (use nm in \<open>auto simp: names_rows_def split: if_splits\<close>)
  then show ?thesis using assms len by (auto simp: kept_good_def update_conv' less_Suc_eq split: if_splits)
qed

lemma found_row:
  assumes "kept_good w" "find P (map snd (kt_rows w)) = Some r"
  shows "P r" "map_of (kt_rows w) (ro_operationId r) = Some r"
proof -
  from assms(2) obtain n where n: "n < length (map snd (kt_rows w))" "P (map snd (kt_rows w) ! n)" "r = map snd (kt_rows w) ! n"
    by (auto simp: find_Some_iff)
  then show "P r" by simp
  have "r \<in> snd ` set (kt_rows w)" using n by (metis length_map nth_mem set_map)
  then obtain i where "(i, r) \<in> set (kt_rows w)" by force
  then have "map_of (kt_rows w) i = Some r" using assms(1) by (simp add: kept_good_def map_wf_def)
  moreover from this have "ro_operationId r = i" using assms(1) by (simp add: kept_good_def names_rows_def)
  ultimately show "map_of (kt_rows w) (ro_operationId r) = Some r" by simp
qed

lemma requeued_known: "map_of (kt_rows w) (ro_operationId r) = Some r \<Longrightarrow> known (map_of (kt_rows w)) (requeued_op q r)"
  by (simp add: known_def requeued_op_def)

interpretation kept: retry_rows kept_table "\<lambda>w. map_of (kt_rows w)" kept_good
proof
  fix w w' :: "'p kept_rows" and op :: "'p RetryOperation" and i ty n q and st s and a and b and c and l
  show "kept_good w \<Longrightarrow> names_rows (map_of (kt_rows w))" by (simp add: kept_good_def)
  show "kept_good w \<Longrightarrow> rt_findOne kept_table i st w = (a, w') \<Longrightarrow> kept_good w' \<and> map_of (kt_rows w') = map_of (kt_rows w) \<and>
      (\<forall>x. a = Some x \<longrightarrow> x = (case map_of (kt_rows w) i of None \<Rightarrow> None | Some r \<Rightarrow> if st = None \<or> st = Some (ro_status r) then Some r else None))"
    by (simp add: kept_table_def, erule accessed_cases) auto
  show "kept_good w \<Longrightarrow> rt_insert kept_table op w = (b, w') \<Longrightarrow> kept_good w' \<and>
      (map_of (kt_rows w') = map_of (kt_rows w) \<and> b = None \<or>
       (\<exists>i. map_of (kt_rows w) (ro_operationId op) = None \<and> map_of (kt_rows w') = (map_of (kt_rows w))(ro_operationId op \<mapsto> op\<lparr>ro_id := i\<rparr>) \<and>
         b \<in> {None, Some (op\<lparr>ro_id := i\<rparr>)}))"
    unfolding kept_table_def retry_table.simps map_has_def Let_def
    by (erule accessed_cases) (use kept_good_insert [of "w\<lparr>kt_faults := tl (kt_faults w)\<rparr>" op] in \<open>auto simp: update_conv' split: if_splits\<close>)
  show "kept_good w \<Longrightarrow> known (map_of (kt_rows w)) op \<Longrightarrow> rt_save kept_table op w = (b, w') \<Longrightarrow> kept_good w' \<and>
      (map_of (kt_rows w') = map_of (kt_rows w) \<and> b = None \<or> map_of (kt_rows w') = (map_of (kt_rows w))(ro_operationId op \<mapsto> op) \<and> b \<in> {None, Some op})"
    unfolding kept_table_def retry_table.simps
    by (erule accessed_cases) (use kept_good_set [of "w\<lparr>kt_faults := tl (kt_faults w)\<rparr>" op] in \<open>auto simp: update_conv'\<close>)
  show "kept_good w \<Longrightarrow> rt_requeue kept_table i s q w = (c, w') \<Longrightarrow> kept_good w' \<and>
      (map_of (kt_rows w') = map_of (kt_rows w) \<and> c \<in> {None, Some 0} \<or>
       (\<exists>k r. map_of (kt_rows w) k = Some r \<and> ro_id r = i \<and> ro_status r = s \<and> map_of (kt_rows w') = (map_of (kt_rows w))(k \<mapsto> requeued_op q r) \<and> c \<in> {None, Some 1}))"
  proof -
    assume good: "kept_good w" and req: "rt_requeue kept_table i s q w = (c, w')"
    show ?thesis
    proof (cases "find (\<lambda>r. ro_id r = i \<and> ro_status r = s) (map snd (kt_rows w))")
      case None
      then show ?thesis using req good unfolding kept_table_def retry_table.simps by - (erule accessed_cases; auto)
    next
      case (Some r)
      note r = found_row [OF good Some]
      have op: "ro_operationId (requeued_op q r) = ro_operationId r" by (simp add: requeued_op_def)
      have "kept_good (w\<lparr>kt_faults := tl (kt_faults w), kt_rows := map_set (ro_operationId r) (requeued_op q r) (kt_rows w)\<rparr>)"
        using kept_good_set [of "w\<lparr>kt_faults := tl (kt_faults w)\<rparr>" "requeued_op q r"] good requeued_known [OF r(2), of q] by (simp add: op)
      with req Some r good show ?thesis unfolding kept_table_def retry_table.simps by - (erule accessed_cases; auto simp: update_conv')
    qed
  qed
  show "kept_good w \<Longrightarrow> rt_oldest kept_table s ty n w = (l, w') \<Longrightarrow> kept_good w' \<and> map_of (kt_rows w') = map_of (kt_rows w) \<and>
      (\<forall>ops. l = Some ops \<longrightarrow> (0 \<le> n \<longrightarrow> int (length ops) \<le> n) \<and> (\<forall>op \<in> set ops. map_of (kt_rows w) (ro_operationId op) = Some op \<and> ro_status op = s))"
  proof -
    assume good: "kept_good w" and old: "rt_oldest kept_table s ty n w = (l, w')"
    have mem: "map_of (kt_rows w) (ro_operationId op) = Some op" if "op \<in> snd ` set (kt_rows w)" for op
      using that good by (auto simp: kept_good_def names_rows_def map_wf_def)
    have "kept_good w' \<and> kt_rows w' = kt_rows w \<and> (\<forall>ops. l = Some ops \<longrightarrow>
        ops = take (nat n) (js_sort (\<lambda>a b. or_else (ro_deadLetteredAt a) 0 \<le> or_else (ro_deadLetteredAt b) 0)
          (filter (\<lambda>r. ro_status r = s \<and> (ty = None \<or> ty = Some (ro_operationType r))) (map snd (kt_rows w)))))"
      using old good unfolding kept_table_def retry_table.simps by - (erule accessed_cases; auto)
    then show ?thesis using mem by (auto dest!: in_set_takeD)
  qed
qed

section \<open>One call at a time\<close>

text \<open>A failure reported with no other call in between.\<close>

definition markFailed :: "retry_env \<Rightarrow> ('w, 'p) retry_table \<Rightarrow> int \<Rightarrow> rat \<Rightarrow> string \<Rightarrow> string \<Rightarrow> bool \<Rightarrow> 'w \<Rightarrow> 'w" where
  "markFailed E T now random i err retryable w =
     (let ((g, _), w1) = advance E T now random (Find_to_fail i err retryable) w in snd (advance E T now random g w1))"

fun failures_reported :: "retry_env \<Rightarrow> ('w, 'p) retry_table \<Rightarrow> string \<Rightarrow> (int \<times> rat \<times> string) list \<Rightarrow> 'w \<Rightarrow> 'w" where
  "failures_reported E T i [] w = w"
| "failures_reported E T i ((now, random, err) # rest) w = failures_reported E T i rest (markFailed E T now random i err True w)"

lemma accessed_answered: "kt_faults w = [] \<Longrightarrow> accessed f w = f w"
  by (cases w) (simp add: accessed_def)

lemma markFailed_kept:
  assumes "kt_faults w = []" "map_get (kt_rows w) i = Some op" "ro_operationId op = i" "failed_stage E now random err retryable op = Save op' k" "ro_operationId op' = i"
  shows "markFailed E kept_table now random i err retryable w = w\<lparr>kt_rows := map_set i op' (kt_rows w)\<rparr>"
  using assms by (simp add: markFailed_def on_answer_def kept_table_def accessed_answered)

text \<open>A retryable failure of an operation, below its limit and at it.\<close>

lemma failure_below:
  assumes "ro_retryable op" "int (ro_attempts op) + 1 < ro_maxAttempts op"
  shows "\<exists>op' k. failed_stage E now random err True op = Save op' k \<and> ro_operationId op' = ro_operationId op \<and> ro_retryable op' \<and>
    ro_maxAttempts op' = ro_maxAttempts op \<and> ro_attempts op' = ro_attempts op + 1 \<and> ro_status op' = Op_PENDING"
  using assms by (simp add: failed_stage_def Let_def)

lemma failure_at:
  assumes "ro_retryable op" "int (ro_attempts op) + 1 = ro_maxAttempts op"
  shows "\<exists>op' k. failed_stage E now random err True op = Save op' k \<and> ro_operationId op' = ro_operationId op \<and>
    ro_attempts op' = ro_attempts op + 1 \<and> ro_status op' = Op_DEAD_LETTER \<and> isRetryable op'"
  using assms by (simp add: failed_stage_def Let_def dead_op_def isRetryable_def)

lemma failures_count:
  assumes "kt_faults w = []" "map_get (kt_rows w) i = Some op" "ro_operationId op = i" "ro_retryable op" "ro_status op = Op_PENDING"
    "int (ro_attempts op) + int (length reports) \<le> ro_maxAttempts op"
  shows "\<exists>op'. map_get (kt_rows (failures_reported E kept_table i reports w)) i = Some op' \<and>
    ro_attempts op' = ro_attempts op + length reports \<and>
    (if reports \<noteq> [] \<and> int (ro_attempts op) + int (length reports) = ro_maxAttempts op then ro_status op' = Op_DEAD_LETTER \<and> isRetryable op' else ro_status op' = Op_PENDING)"
  using assms
proof (induction reports arbitrary: w op)
  case (Cons rep reports)
  obtain now random err where rep: "rep = (now, random, err)" by (cases rep) auto
  show ?case
  proof (cases "reports = []")
    case True
    show ?thesis
    proof (cases "int (ro_attempts op) + 1 = ro_maxAttempts op")
      case at_limit: True
      obtain op' k where op': "failed_stage E now random err True op = Save op' k" "ro_operationId op' = i" "ro_attempts op' = ro_attempts op + 1"
        "ro_status op' = Op_DEAD_LETTER" "isRetryable op'" using failure_at [OF Cons.prems(4) at_limit, of E now random err] Cons.prems(3) by auto
      show ?thesis using markFailed_kept [OF Cons.prems(1-3) op'(1,2)] op' at_limit by (simp add: rep True update_conv')
    next
      case False
      then have below: "int (ro_attempts op) + 1 < ro_maxAttempts op" using Cons.prems(6) True by simp
      obtain op' k where op': "failed_stage E now random err True op = Save op' k" "ro_operationId op' = i" "ro_attempts op' = ro_attempts op + 1"
        "ro_status op' = Op_PENDING" using failure_below [OF Cons.prems(4) below, of E now random err] Cons.prems(3) by auto
      show ?thesis using markFailed_kept [OF Cons.prems(1-3) op'(1,2)] op' False by (simp add: rep True update_conv')
    qed
  next
    case False
    then have below: "int (ro_attempts op) + 1 < ro_maxAttempts op" using Cons.prems(6) by (cases reports) auto
    obtain op' k where op': "failed_stage E now random err True op = Save op' k" "ro_operationId op' = i" "ro_retryable op'"
      "ro_maxAttempts op' = ro_maxAttempts op" "ro_attempts op' = ro_attempts op + 1" "ro_status op' = Op_PENDING"
      using failure_below [OF Cons.prems(4) below, of E now random err] Cons.prems(3) by auto
    define w1 where "w1 = markFailed E kept_table now random i err True w"
    have w1: "w1 = w\<lparr>kt_rows := map_set i op' (kt_rows w)\<rparr>" unfolding w1_def by (rule markFailed_kept [OF Cons.prems(1-3) op'(1,2)])
    have "kt_faults w1 = []" "map_get (kt_rows w1) i = Some op'" using Cons.prems(1) by (simp_all add: w1 update_conv')
    from Cons.IH [OF this op'(2,3,6)] show ?thesis using Cons.prems(6) op' False by (auto simp: rep w1_def [symmetric] split: if_splits)
  qed
qed simp

section \<open>Properties\<close>

text \<open>
  C26.  Each stay among the dead letters ends by at most one retry.  Whatever calls run at once and however they
  interleave, with accesses that fail before or after they took effect, an operation is announced as re-queued
  at most as often as it was moved to the dead letters, counting once more if it began there.
\<close>

theorem dead_letters_requeued_once:
  assumes "kept_good w"
  shows "times_retried i (rr_trail (run (retry_step E kept_table) mvs (fresh_run w))) \<le>
    times_dead i (rr_trail (run (retry_step E kept_table) mvs (fresh_run w))) + of_bool (dead_in (map_get (kt_rows w)) i)"
  by (rule kept.retried_at_most_dead [OF assms])

text \<open>
  What waits can be tried.  If every limit that callers give is at least one, then in every interleaving a row
  that is pending has attempts left and a time, a dead letter carries its note and no time, a success its time, no row
  is marked as failed, and the audit of retries by hand has at most ten entries.
\<close>

theorem retry_rows_stay_wellformed:
  assumes "kept_good w" "\<forall>i r. map_get (kt_rows w) i = Some r \<longrightarrow> op_wf r" "list_all move_allowed mvs"
    "map_get (kt_rows (rr_world (run (retry_step E kept_table) mvs (fresh_run w)))) i = Some r"
  shows "op_wf r"
  by (rule kept.rows_stay_wf [OF assms(1-3)]) (rule assms(4))


text \<open>
  Delays.  For a multiplier of at least one, the next attempt is no earlier than now, it lies within a tenth of the
  delay that the attempts so far ask for (less than a millisecond lost to rounding), that delay does not fall as
  the attempts grow, and it exceeds the greatest delay by at most a tenth.
\<close>

theorem next_retry_within_bounds:
  assumes "0 \<le> random" "random < 1" "0 \<le> ro_backoffMs op" "1 \<le> ro_backoffMultiplier op" "0 \<le> ro_maxBackoffMs op"
  shows "now \<le> calculateNextRetry now random op \<and>
    of_int now + 9 / 10 * retry_delay op - 1 < (of_int (calculateNextRetry now random op) :: rat) \<and>
    of_int (calculateNextRetry now random op) \<le> of_int now + 11 / 10 * retry_delay op \<and>
    retry_delay op \<le> of_int (ro_maxBackoffMs op) \<and>
    retry_delay op \<le> retry_delay (op\<lparr>ro_attempts := Suc (ro_attempts op)\<rparr>)"
proof -
  define d where "d = retry_delay op"
  have d: "0 \<le> d" "d \<le> of_int (ro_maxBackoffMs op)" using assms by (simp_all add: d_def retry_delay_def)
  define x where "x = d + d * (1 / 10) * (random * 2 - 1)"
  have "- (d * (1 / 10)) \<le> d * (1 / 10) * (random * 2 - 1)" "d * (1 / 10) * (random * 2 - 1) \<le> d * (1 / 10)"
    using mult_left_mono [of "- 1" "random * 2 - 1" "d * (1 / 10)"] mult_left_mono [of "random * 2 - 1" 1 "d * (1 / 10)"] d(1) assms(1,2) by simp_all
  then have x: "9 / 10 * d \<le> x" "x \<le> 11 / 10 * d" by (simp_all add: x_def)
  then have "0 \<le> x" using d(1) by linarith
  then have c: "calculateNextRetry now random op = \<lfloor>of_int now + x\<rfloor>"
    unfolding calculateNextRetry_def Let_def d_def [symmetric] x_def [symmetric] by (simp only: max_absorb2)
  have "ro_backoffMultiplier op ^ (ro_attempts op - 1) \<le> ro_backoffMultiplier op ^ ro_attempts op"
    using assms(4) by (intro power_increasing) simp_all
  then have "of_int (ro_backoffMs op) * ro_backoffMultiplier op ^ (ro_attempts op - 1) \<le> of_int (ro_backoffMs op) * ro_backoffMultiplier op ^ ro_attempts op"
    using assms(3) by (intro mult_left_mono) simp_all
  then have grow: "d \<le> retry_delay (op\<lparr>ro_attempts := Suc (ro_attempts op)\<rparr>)"
    unfolding d_def retry_delay_def by (simp add: min.coboundedI1)
  have "now \<le> \<lfloor>of_int now + x\<rfloor>" using x d(1) by (simp add: le_floor_iff)
  moreover have "of_int now + 9 / 10 * d - 1 < (of_int \<lfloor>of_int now + x\<rfloor> :: rat)" using x(1) by linarith
  moreover have "(of_int \<lfloor>of_int now + x\<rfloor> :: rat) \<le> of_int now + 11 / 10 * d" using x(2) by linarith
  ultimately show ?thesis using grow d(2) unfolding c d_def by blast
qed

section \<open>Interleavings that go wrong\<close>

definition plain_env :: retry_env where
  "plain_env = \<lparr>re_sanitizeErrorMessage = (\<lambda>s. s), re_iso = (\<lambda>_. [])\<rparr>"

definition no_rows :: "unit kept_rows" where
  "no_rows = \<lparr>kt_rows = [], kt_ids = 0, kt_faults = []\<rparr>"

definition sample_opts :: "string \<Rightarrow> int \<Rightarrow> unit ScheduleRetryOpts" where
  "sample_opts i n =
     \<lparr>so_operationType = ''t'', so_operationId = i, so_payload = (), so_maxAttempts = Some n, so_backoffMs = None, so_backoffMultiplier = None,
      so_maxBackoffMs = None, so_retryable = None, so_correlationId = None, so_metadata = None\<rparr>"

definition by_hand :: DeadLetterRetryOptions where
  "by_hand = \<lparr>dr_actor = None, dr_reason = None, dr_force = False\<rparr>"

definition after_moves :: "unit retry_move list \<Rightarrow> (unit kept_rows, unit) retry_run" where
  "after_moves mvs = run (retry_step plain_env kept_table) mvs (fresh_run no_rows)"

definition row_after :: "unit retry_move list \<Rightarrow> string \<Rightarrow> (RetryOperationStatus \<times> nat) option" where
  "row_after mvs i = map_option (\<lambda>r. (ro_status r, ro_attempts r)) (map_get (kt_rows (rr_world (after_moves mvs))) i)"

text \<open>
  What is over begins again.  A failure that is reported after the success makes the operation pending again, due for
  another attempt; and of two failures reported at once one is lost, so that an operation with a limit of two is
  still pending after both.
\<close>

theorem late_reports_reopen_and_lose:
  "row_after [Begin 0 0 (Schedule (sample_opts ''a'' 3) None), Go 0 0 0, Begin 1 1 (MarkSucceeded ''a''), Go 1 1 0, Go 1 1 0,
      Begin 2 2 (MarkFailed ''a'' ''late'' True), Go 2 2 0, Go 2 2 0] ''a'' = Some (Op_PENDING, 1) \<and>
   row_after [Begin 0 0 (Schedule (sample_opts ''a'' 2) None), Go 0 0 0, Begin 1 1 (MarkFailed ''a'' ''one'' True), Begin 2 1 (MarkFailed ''a'' ''two'' True),
      Go 1 1 0, Go 2 1 0, Go 1 1 0, Go 2 1 0] ''a'' = Some (Op_PENDING, 1)"
  by code_simp

definition bulk_moves :: "unit retry_move list" where
  "bulk_moves =
     [Begin 0 0 (Schedule (sample_opts ''a'' 1) None), Go 0 0 0, Begin 1 0 (Schedule (sample_opts ''b'' 1) None), Go 1 0 0,
      Begin 2 1 (MarkFailed ''a'' ''x'' True), Go 2 1 0, Go 2 1 0, Begin 3 2 (MarkFailed ''b'' ''x'' True), Go 3 2 0, Go 3 2 0,
      Begin 4 3 (RetryDeadLetters None None by_hand), Go 4 3 0, Go 4 3 0, Go 4 3 0, Go 4 3 0,
      Begin 5 4 (RetryDeadLetter ''b'' None by_hand), Go 5 4 0, Go 5 4 0, Begin 6 5 (MarkFailed ''b'' ''x'' False), Go 6 5 0, Go 6 5 0,
      Go 4 6 0]"

text \<open>
  A bulk retry can stop halfway.  Two dead letters are listed; the first is re-queued; the second leaves the dead
  letters and comes back with a failure that is not retryable.  The call then throws instead of skipping it, and what it
  did to the first is not reported.
\<close>

theorem bulk_retry_stops_halfway:
  "map_get (rr_calls (after_moves bulk_moves)) 4 =
     Some (Finished (Threw (Non_retryable ''Operation b failed with a non-retryable error; fix the cause and retry with force''))) \<and>
   row_after bulk_moves ''a'' = Some (Op_PENDING, 0) \<and> times_retried ''a'' (rr_trail (after_moves bulk_moves)) = 1"
  by code_simp

section \<open>Witnesses\<close>

definition contended_moves :: "unit retry_move list" where
  "contended_moves =
     [Begin 0 0 (Schedule (sample_opts ''a'' 1) None), Go 0 0 0, Begin 1 1 (MarkFailed ''a'' ''x'' True), Go 1 1 0, Go 1 1 0,
      Begin 2 2 (RetryDeadLetter ''a'' None by_hand), Begin 3 2 (RetryDeadLetter ''a'' None by_hand), Go 2 2 0, Go 3 2 0, Go 2 2 0, Go 3 2 0]"

lemma no_rows_good: "kept_good no_rows" "map_get (kt_rows no_rows) i = None"
  by (simp_all add: kept_good_def no_rows_def names_rows_def)

theorem dead_letters_requeued_once_witness:
  "kept_good no_rows \<and> times_retried ''a'' (rr_trail (after_moves contended_moves)) = 1 \<and> times_dead ''a'' (rr_trail (after_moves contended_moves)) = 1 \<and>
    times_retried ''a'' (rr_trail (after_moves contended_moves)) \<le> times_dead ''a'' (rr_trail (after_moves contended_moves))"
proof -
  have "times_retried ''a'' (rr_trail (after_moves contended_moves)) = 1" "times_dead ''a'' (rr_trail (after_moves contended_moves)) = 1" by code_simp+
  with dead_letters_requeued_once [OF no_rows_good(1), of "''a''" plain_env contended_moves] show ?thesis
    using no_rows_good(1) unfolding after_moves_def by (simp add: no_rows_good)
qed

theorem retry_rows_stay_wellformed_witness:
  "\<exists>r. map_get (kt_rows (rr_world (after_moves contended_moves))) ''a'' = Some r \<and> ro_status r = Op_PENDING \<and> op_wf r"
proof -
  have "map_option ro_status (map_get (kt_rows (rr_world (after_moves contended_moves))) ''a'') = Some Op_PENDING" by code_simp
  then obtain r where r: "map_get (kt_rows (rr_world (after_moves contended_moves))) ''a'' = Some r" "ro_status r = Op_PENDING" by auto
  have "list_all move_allowed contended_moves" by code_simp
  from retry_rows_stay_wellformed [OF no_rows_good(1) _ this r(1) [unfolded after_moves_def]] r no_rows_good(2) show ?thesis by auto
qed


theorem next_retry_within_bounds_witness:
  "calculateNextRetry 5 (1 / 2) ((new_operation 0 None (sample_opts ''a'' 3))\<lparr>ro_attempts := 3\<rparr>) = 4005 \<and>
   of_int (calculateNextRetry 5 (1 / 2) ((new_operation 0 None (sample_opts ''a'' 3))\<lparr>ro_attempts := 3\<rparr>)) \<le>
     (5 :: rat) + 11 / 10 * retry_delay ((new_operation 0 None (sample_opts ''a'' 3))\<lparr>ro_attempts := 3\<rparr>)"
proof -
  let ?op = "(new_operation 0 None (sample_opts ''a'' 3))\<lparr>ro_attempts := 3\<rparr>"
  have o: "0 \<le> ro_backoffMs ?op" "1 \<le> ro_backoffMultiplier ?op" "0 \<le> ro_maxBackoffMs ?op" by (simp_all add: new_operation_def sample_opts_def)
  have "calculateNextRetry 5 (1 / 2) ?op = 4005" by code_simp
  with next_retry_within_bounds [OF _ _ o, of "1 / 2" 5] show ?thesis by simp
qed

end
